(* ===== verification/Prelude.thy ===== *)
theory Prelude
  imports Main "HOL-Library.Word" "HOL-Library.Monad_Syntax" "HOL-Library.Multiset"
    "HOL-Library.Signed_Division"
begin

text \<open>
  What every component shares: how the constructs of Go are written, and the lemmas about them.

  A Go computation that may panic (an index out of range, a nil pointer, a division by zero, a send
  on a closed channel) is a value of type \<open>'a option\<close>, where \<open>None\<close> is the panic; the
  do-notation of the option monad sequences such computations. A Go error is an ordinary returned
  value and is modelled as one: \<open>Inl e\<close> for a non-nil error and \<open>Inr r\<close> for a result.
  Go's \<open>int\<close> (64 bits) is \<open>int\<close>; conversions to narrower types are written out
  (\<open>int32_of\<close>). Slices are lists, maps are partial functions, and a method with a pointer receiver
  returns the new state of its receiver.
\<close>

named_theorems go_defs "primitives of the Go model, unfolded when a concrete run is evaluated"

section \<open>Slices\<close>

definition len :: "'a list \<Rightarrow> int" where
  "len xs = int (length xs)"

definition idx :: "'a list \<Rightarrow> int \<Rightarrow> 'a option" where
  "idx xs i = (if 0 \<le> i \<and> i < len xs then Some (xs ! nat i) else None)"

definition upd :: "'a list \<Rightarrow> int \<Rightarrow> 'a \<Rightarrow> 'a list option" where
  "upd xs i v = (if 0 \<le> i \<and> i < len xs then Some (xs[nat i := v]) else None)"

text \<open>The slice expression \<open>xs[lo:hi]\<close>, for a slice whose capacity is its length.\<close>

definition slice :: "'a list \<Rightarrow> int \<Rightarrow> int \<Rightarrow> 'a list option" where
  "slice xs lo hi =
     (if 0 \<le> lo \<and> lo \<le> hi \<and> hi \<le> len xs then Some (take (nat (hi - lo)) (drop (nat lo) xs))
      else None)"

text \<open>\<open>make([]T, n)\<close> panics for a negative length.\<close>

definition make_slice :: "int \<Rightarrow> 'a \<Rightarrow> 'a list option" where
  "make_slice n z = (if 0 \<le> n then Some (replicate (nat n) z) else None)"

text \<open>\<open>copy(dst[off:off+len(src)], src)\<close> with the copied part inside the destination.\<close>

definition splice_at :: "'a list \<Rightarrow> nat \<Rightarrow> 'a list \<Rightarrow> 'a list" where
  "splice_at dst off src = take off dst @ src @ drop (off + length src) dst"

lemmas slice_defs [go_defs] = len_def idx_def upd_def slice_def make_slice_def splice_at_def

lemma len_Nil [simp]: "len [] = 0"
  by (simp add: len_def)

lemma len_Cons [simp]: "len (x # xs) = len xs + 1"
  by (simp add: len_def)

lemma len_append [simp]: "len (xs @ ys) = len xs + len ys"
  by (simp add: len_def)

lemma len_nonneg [simp]: "0 \<le> len xs"
  by (simp add: len_def)

lemma len_list_update [simp]: "len (xs[i := v]) = len xs"
  by (simp add: len_def)

lemma len_replicate [simp]: "len (replicate n x) = int n"
  by (simp add: len_def)

lemma len_map [simp]: "len (map f xs) = len xs"
  by (simp add: len_def)

lemma len_0_iff [simp]: "len xs = 0 \<longleftrightarrow> xs = []"
  by (simp add: len_def)

lemma len_le_0_iff [simp]: "len xs \<le> 0 \<longleftrightarrow> xs = []"
  by (simp add: len_def)

lemma len_pos_iff [simp]: "0 < len xs \<longleftrightarrow> xs \<noteq> []"
  by (simp add: len_def)

lemma nat_len [simp]: "nat (len xs) = length xs"
  by (simp add: len_def)

lemma nat_lt_length: "0 \<le> i \<Longrightarrow> i < len xs \<Longrightarrow> nat i < length xs"
  by (simp add: len_def)

lemma idx_Some: "idx xs i = Some x \<longleftrightarrow> 0 \<le> i \<and> i < len xs \<and> x = xs ! nat i"
  by (auto simp: idx_def)

lemma idx_None: "idx xs i = None \<longleftrightarrow> i < 0 \<or> len xs \<le> i"
  by (auto simp: idx_def)

lemma upd_Some: "upd xs i v = Some ys \<longleftrightarrow> 0 \<le> i \<and> i < len xs \<and> ys = xs[nat i := v]"
  by (auto simp: upd_def)

lemma idx_of_nat [simp]: "i < length xs \<Longrightarrow> idx xs (int i) = Some (xs ! i)"
  by (simp add: idx_def len_def)

lemma upd_of_nat [simp]: "i < length xs \<Longrightarrow> upd xs (int i) v = Some (xs[i := v])"
  by (simp add: upd_def len_def)

lemma slice_Some_length: "slice xs lo hi = Some ys \<Longrightarrow> len ys = hi - lo"
  by (auto simp: slice_def len_def split: if_splits)

lemma slice_split: "slice xs lo hi = Some ys \<Longrightarrow> xs = take (nat lo) xs @ ys @ drop (nat hi) xs"
proof -
  assume h: "slice xs lo hi = Some ys"
  then have ys: "ys = take (nat (hi - lo)) (drop (nat lo) xs)" and "nat hi = nat (hi - lo) + nat lo"
    by (auto simp: slice_def split: if_splits)
  then show ?thesis
    by (metis append_take_drop_id drop_drop)
qed

lemma length_splice_at [simp]:
  "off + length src \<le> length dst \<Longrightarrow> length (splice_at dst off src) = length dst"
  by (simp add: splice_at_def)

lemma splice_at_same:
  "off + length src \<le> length dst \<Longrightarrow> take (length src) (drop off (splice_at dst off src)) = src"
  by (simp add: splice_at_def)

lemma splice_at_nth:
  "off + length src \<le> length dst \<Longrightarrow> i < length dst \<Longrightarrow>
   splice_at dst off src ! i =
     (if off \<le> i \<and> i < off + length src then src ! (i - off) else dst ! i)"
  by (auto simp: splice_at_def nth_append min_def)

lemma splice_at_disjoint:
  assumes "off + length src \<le> length dst" and "p + n \<le> off \<or> off + length src \<le> p"
  shows "take n (drop p (splice_at dst off src)) = take n (drop p dst)"
  using assms by (intro nth_equalityI) (auto simp: splice_at_nth)

lemma last_butlast_mset: "xs \<noteq> [] \<Longrightarrow> add_mset (last xs) (mset (butlast xs)) = mset xs"
  by (metis append_butlast_last_id mset.simps(2) mset_append add.right_neutral mset.simps(1)
      union_mset_add_mset_right)

section \<open>Loops whose body may panic\<close>

fun foldM :: "('a \<Rightarrow> 's \<Rightarrow> 's option) \<Rightarrow> 'a list \<Rightarrow> 's \<Rightarrow> 's option" where
  "foldM f [] s = Some s"
| "foldM f (x # xs) s = do { s' \<leftarrow> f x s; foldM f xs s' }"

lemma foldM_append: "foldM f (xs @ ys) s = do { s' \<leftarrow> foldM f xs s; foldM f ys s' }"
  by (induction xs arbitrary: s) (auto split: Option.bind_splits)

lemma foldM_invariant:
  "foldM f xs s = Some s' \<Longrightarrow> P s \<Longrightarrow>
   (\<And>x s s'. x \<in> set xs \<Longrightarrow> P s \<Longrightarrow> f x s = Some s' \<Longrightarrow> P s') \<Longrightarrow> P s'"
proof (induction xs arbitrary: s)
  case Nil
  then show ?case by simp
next
  case (Cons x xs)
  from Cons.prems(1) obtain t where t: "f x s = Some t" and r: "foldM f xs t = Some s'"
    by (auto split: Option.bind_splits)
  have "P t" using Cons.prems(2,3) t by auto
  with r show ?case using Cons.IH Cons.prems(3) by auto
qed

lemma foldM_total:
  "P s \<Longrightarrow> (\<And>x s. x \<in> set xs \<Longrightarrow> P s \<Longrightarrow> \<exists>s'. f x s = Some s' \<and> P s') \<Longrightarrow>
   \<exists>s'. foldM f xs s = Some s' \<and> P s'"
proof (induction xs arbitrary: s)
  case Nil
  then show ?case by simp
next
  case (Cons x xs)
  obtain t where t: "f x s = Some t" "P t" using Cons.prems by fastforce
  have "\<exists>s'. foldM f xs t = Some s' \<and> P s'"
    using t(2) Cons.prems(2) by (intro Cons.IH) auto
  with t(1) show ?case by simp
qed

section \<open>Integers\<close>

text \<open>The conversions \<open>int32(i)\<close> and \<open>uint32(i)\<close> keep the low 32 bits.\<close>

definition int32_of :: "int \<Rightarrow> int" where
  "int32_of i = signed_take_bit 31 i"

lemma int32_of_small [simp]: "0 \<le> i \<Longrightarrow> i < 2 ^ 31 \<Longrightarrow> int32_of i = i"
  unfolding int32_of_def by (rule signed_take_bit_int_eq_self) auto

text \<open>Go's \<open>/\<close> and \<open>%\<close> truncate towards zero and panic on a zero divisor.\<close>

definition go_div :: "int \<Rightarrow> int \<Rightarrow> int option" where
  "go_div a b = (if b = 0 then None else Some (a sdiv b))"

definition go_mod :: "int \<Rightarrow> int \<Rightarrow> int option" where
  "go_mod a b = (if b = 0 then None else Some (a smod b))"

lemma sdiv_nonneg: "0 \<le> a \<Longrightarrow> 0 < b \<Longrightarrow> a sdiv b = (a :: int) div b"
  by (cases "a = 0") (simp_all add: signed_divide_int_def sgn_if)

lemma smod_nonneg: "0 \<le> a \<Longrightarrow> 0 < b \<Longrightarrow> a smod b = (a :: int) mod b"
  by (cases "a = 0") (simp_all add: signed_modulo_int_def sgn_if)

lemma go_div_pos [simp]: "0 \<le> a \<Longrightarrow> 0 < b \<Longrightarrow> go_div a b = Some (a div b)"
  by (simp add: go_div_def sdiv_nonneg)

lemma go_mod_pos [simp]: "0 \<le> a \<Longrightarrow> 0 < b \<Longrightarrow> go_mod a b = Some (a mod b)"
  by (simp add: go_mod_def smod_nonneg)

lemmas go_arith_defs [go_defs] = go_div_def go_mod_def int32_of_def signed_divide_int_def
  signed_modulo_int_def

text \<open>The usual rounding-up division \<open>(n + d - 1) / d\<close>.\<close>

lemma ceil_div_bounds:
  assumes "0 < (d :: int)"
  shows "n \<le> ((n + d - 1) div d) * d" and "((n + d - 1) div d) * d < n + d"
proof -
  let ?m = "n + d - 1"
  have e: "(?m div d) * d + ?m mod d = ?m" by simp
  have "0 \<le> ?m mod d" "?m mod d < d" using assms by simp_all
  with e show "n \<le> (?m div d) * d" and "(?m div d) * d < n + d" by linarith+
qed

lemma div_lt_of_lt_mult:
  assumes "0 < (b :: int)" and "p < k * b"
  shows "p div b < k"
proof -
  have "(p div b) * b \<le> p" using pos_mod_sign [OF assms(1), of p] minus_mod_eq_div_mult [of p b] by linarith
  then have "(p div b) * b < k * b" using assms(2) by simp
  then show ?thesis using assms(1) by simp
qed

lemma div_mod_unique_pos:
  "0 < (b :: int) \<Longrightarrow> p div b = q div b \<Longrightarrow> p mod b = q mod b \<Longrightarrow> p = q"
  by (metis mult_div_mod_eq)

lemma block_offset_bound:
  assumes "0 < (b :: int)" and "0 \<le> w" and "0 \<le> p"
  shows "(p mod b) * w + w \<le> b * w"
proof -
  have "p mod b < b" using assms(1) by (rule pos_mod_bound)
  then have "p mod b + 1 \<le> b" by simp
  then have "(p mod b + 1) * w \<le> b * w" using assms(2) by (rule mult_right_mono)
  then show ?thesis by (simp add: algebra_simps)
qed

section \<open>Maps\<close>

text \<open>Reading an absent key of a Go map yields the zero value.\<close>

definition map_get :: "'v \<Rightarrow> ('k \<rightharpoonup> 'v) \<Rightarrow> 'k \<Rightarrow> 'v" where
  "map_get z m k = (case m k of None \<Rightarrow> z | Some v \<Rightarrow> v)"

lemma map_get_upd [simp]: "map_get z (m(k \<mapsto> v)) j = (if j = k then v else map_get z m j)"
  by (simp add: map_get_def)

lemma map_get_del [simp]: "map_get z (m(k := None)) j = (if j = k then z else map_get z m j)"
  by (simp add: map_get_def)

lemma map_get_empty [simp]: "map_get z Map.empty j = z"
  by (simp add: map_get_def)

lemmas map_get_unfold [go_defs] = map_get_def

lemma finite_dom_upd [simp]: "finite (dom m) \<Longrightarrow> finite (dom (m(k \<mapsto> v)))"
  by simp

text \<open>A list of results has a result when every element has one.\<close>

lemma those_map_neq_None: "(\<And>x. x \<in> set xs \<Longrightarrow> f x \<noteq> None) \<Longrightarrow> those (map f xs) \<noteq> None"
  by (induction xs) (auto split: option.splits)

section \<open>Printing numbers\<close>

text \<open>The verb \<open>%d\<close>.\<close>

fun string_of_nat :: "nat \<Rightarrow> string" where
  "string_of_nat n = (if n < 10 then [char_of (48 + n)]
                      else string_of_nat (n div 10) @ [char_of (48 + n mod 10)])"

declare string_of_nat.simps [simp del]

definition string_of_int :: "int \<Rightarrow> string" where
  "string_of_int i = (if i < 0 then ''-'' @ string_of_nat (nat (- i)) else string_of_nat (nat i))"

text \<open>Integer arithmetic modulo \<open>2 ^ 64\<close>, read as an \<open>int64\<close>.\<close>

definition int64_of :: "int \<Rightarrow> int" where
  "int64_of i = signed_take_bit 63 i"

lemma int64_of_small [simp]: "0 \<le> i \<Longrightarrow> i < 2 ^ 63 \<Longrightarrow> int64_of i = i"
  unfolding int64_of_def by (rule signed_take_bit_int_eq_self) auto

end
