(* ===== verification/Block_Source.thy ===== *)
theory Block_Source
  imports Prelude
begin

text \<open>
  The interface between a pool of physical blocks and the tables that map a sequence onto them. A
  source hands out blocks from a free list; a table grows by asking the source until it is long
  enough. The client lemmas say that growing neither invents nor loses a block, when it succeeds, and
  that giving the blocks back restores the pool. The three pools of the code are interpretations: one
  layer of \<open>kv.BlockAllocator\<close>, one layer of \<open>runtime.GPUBlockPool\<close>, and the free stack of
  \<open>kv.KVCache\<close>.
\<close>

text \<open>Ask for \<open>n\<close> blocks, appending each to the table; \<open>False\<close> if the source ran dry.\<close>

fun grow :: "('s \<Rightarrow> (int \<times> 's) option) \<Rightarrow> nat \<Rightarrow> 's \<Rightarrow> int list \<Rightarrow> bool \<times> 's \<times> int list" where
  "grow alloc 0 s bt = (True, s, bt)"
| "grow alloc (Suc n) s bt =
     (case alloc s of
        None \<Rightarrow> (False, s, bt)
      | Some (b, s') \<Rightarrow> grow alloc n s' (bt @ [b]))"

locale block_source =
  fixes alloc :: "'s \<Rightarrow> (int \<times> 's) option"
    and free_list :: "'s \<Rightarrow> int list"
    and ok :: "'s \<Rightarrow> bool"
  assumes alloc_None: "ok s \<Longrightarrow> alloc s = None \<longleftrightarrow> free_list s = []"
    and alloc_ok: "ok s \<Longrightarrow> alloc s = Some (b, s') \<Longrightarrow> ok s'"
    and alloc_take: "ok s \<Longrightarrow> alloc s = Some (b, s') \<Longrightarrow>
      mset (free_list s) = add_mset b (mset (free_list s'))"
begin

lemma alloc_length: "ok s \<Longrightarrow> alloc s = Some (b, s') \<Longrightarrow>
    length (free_list s) = Suc (length (free_list s'))"
  using alloc_take by (metis size_add_mset size_mset)

lemma grow_conserves:
  "ok s \<Longrightarrow> grow alloc n s bt = (r, s', bt') \<Longrightarrow>
   ok s' \<and> mset (free_list s') + mset bt' = mset (free_list s) + mset bt"
proof (induction n arbitrary: s bt)
  case 0
  then show ?case by simp
next
  case (Suc n)
  show ?case
  proof (cases "alloc s")
    case None
    with Suc.prems show ?thesis by simp
  next
    case (Some p)
    obtain b t where p: "p = (b, t)" by (cases p)
    have a: "alloc s = Some (b, t)" using Some p by simp
    have "ok t" and m: "mset (free_list s) = add_mset b (mset (free_list t))"
      using alloc_ok alloc_take Suc.prems(1) a by blast+
    moreover have "grow alloc n t (bt @ [b]) = (r, s', bt')" using Suc.prems(2) a by simp
    ultimately show ?thesis using Suc.IH by fastforce
  qed
qed

lemma grow_succeeds:
  "ok s \<Longrightarrow> n \<le> length (free_list s) \<Longrightarrow>
   \<exists>s' bs. grow alloc n s bt = (True, s', bt @ bs) \<and> length bs = n"
proof (induction n arbitrary: s bt)
  case 0
  then show ?case by simp
next
  case (Suc n)
  then have "free_list s \<noteq> []" by auto
  then obtain b t where a: "alloc s = Some (b, t)"
    using alloc_None [OF Suc.prems(1)] by (metis option.exhaust surj_pair)
  then have "ok t" "n \<le> length (free_list t)"
    using alloc_ok alloc_length Suc.prems by fastforce+
  then obtain s' bs where "grow alloc n t (bt @ [b]) = (True, s', (bt @ [b]) @ bs)" "length bs = n"
    using Suc.IH by blast
  with a show ?case by (intro exI [of _ s'] exI [of _ "b # bs"]) simp
qed

lemma grow_fails:
  "ok s \<Longrightarrow> length (free_list s) < n \<Longrightarrow> fst (grow alloc n s bt) = False"
proof (induction n arbitrary: s bt)
  case 0
  then show ?case by simp
next
  case (Suc n)
  show ?case
  proof (cases "alloc s")
    case None
    then show ?thesis by simp
  next
    case (Some p)
    obtain b t where p: "p = (b, t)" by (cases p)
    then have "ok t" "length (free_list t) < n"
      using alloc_ok alloc_length Suc.prems Some by fastforce+
    then show ?thesis using Suc.IH Some p by simp
  qed
qed

text \<open>The two tables drawn from one source never share a block, if the pool had no duplicate.\<close>

lemma grow_distinct:
  assumes "ok s" and "distinct (bt @ free_list s)" and "grow alloc n s bt = (r, s', bt')"
  shows "distinct (bt' @ free_list s')"
proof -
  have "mset (bt' @ free_list s') = mset (bt @ free_list s)"
    using grow_conserves [OF assms(1,3)] by (simp add: add.commute)
  then show ?thesis using assms(2) by (metis mset_eq_imp_distinct_iff)
qed

end

text \<open>A source that also takes blocks back, when they have one holder left.\<close>

locale block_pool = block_source +
  fixes release :: "int \<Rightarrow> 's \<Rightarrow> 's"
    and sole :: "int \<Rightarrow> 's \<Rightarrow> bool"
  assumes alloc_sole: "ok s \<Longrightarrow> alloc s = Some (b, s') \<Longrightarrow> sole b s'"
    and alloc_keeps: "ok s \<Longrightarrow> alloc s = Some (b, s') \<Longrightarrow> c \<noteq> b \<Longrightarrow> sole c s \<Longrightarrow> sole c s'"
    and release_ok: "ok s \<Longrightarrow> sole b s \<Longrightarrow> ok (release b s)"
    and release_put: "ok s \<Longrightarrow> sole b s \<Longrightarrow>
      mset (free_list (release b s)) = add_mset b (mset (free_list s))"
    and release_keeps: "ok s \<Longrightarrow> sole b s \<Longrightarrow> c \<noteq> b \<Longrightarrow> sole c s \<Longrightarrow> sole c (release b s)"
begin

lemma release_all:
  "ok s \<Longrightarrow> distinct bs \<Longrightarrow> \<forall>b \<in> set bs. sole b s \<Longrightarrow>
   ok (fold release bs s) \<and> mset (free_list (fold release bs s)) = mset bs + mset (free_list s)"
proof (induction bs arbitrary: s)
  case Nil
  then show ?case by simp
next
  case (Cons b bs)
  have s: "sole b s" using Cons.prems by simp
  have o: "ok (release b s)" using release_ok Cons.prems(1) s by blast
  moreover have "\<forall>c \<in> set bs. sole c (release b s)"
  proof
    fix c
    assume "c \<in> set bs"
    then have "c \<noteq> b" "sole c s" using Cons.prems(2,3) by auto
    then show "sole c (release b s)" using release_keeps Cons.prems(1) s by blast
  qed
  ultimately have "ok (fold release bs (release b s)) \<and>
      mset (free_list (fold release bs (release b s))) = mset bs + mset (free_list (release b s))"
    using Cons.IH Cons.prems(2) by simp
  then show ?case using release_put Cons.prems(1) s by simp
qed

lemma grow_sole:
  "ok s \<Longrightarrow> distinct (bt @ free_list s) \<Longrightarrow> \<forall>b \<in> set bt. sole b s \<Longrightarrow>
   grow alloc n s bt = (r, s', bt') \<Longrightarrow> \<forall>b \<in> set bt'. sole b s'"
proof (induction n arbitrary: s bt)
  case 0
  then show ?case by simp
next
  case (Suc n)
  show ?case
  proof (cases "alloc s")
    case None
    with Suc.prems show ?thesis by simp
  next
    case (Some p)
    obtain b t where p: "p = (b, t)" by (cases p)
    have a: "alloc s = Some (b, t)" using Some p by simp
    have t: "ok t" "mset (free_list s) = add_mset b (mset (free_list t))"
      using alloc_ok alloc_take Suc.prems(1) a by blast+
    have d: "distinct ((bt @ [b]) @ free_list t)"
      using Suc.prems(2) t(2) by (metis append.assoc append_Cons append_Nil mset_append mset.simps(2)
          mset_eq_imp_distinct_iff)
    have "\<forall>c \<in> set (bt @ [b]). sole c t"
    proof
      fix c
      assume "c \<in> set (bt @ [b])"
      then consider "c = b" | "c \<noteq> b" "sole c s" using d Suc.prems(3) by auto
      then show "sole c t"
        using alloc_sole alloc_keeps Suc.prems(1) a by cases blast+
    qed
    then show ?thesis using Suc.IH [OF t(1) d] Suc.prems(4) a by simp
  qed
qed

text \<open>Draw blocks for a new table, then give all of them back: the pool is as before.\<close>

lemma grow_release:
  assumes "ok s" and "distinct (free_list s)" and "grow alloc n s [] = (r, s', bt)"
  shows "mset (free_list (fold release bt s')) = mset (free_list s)"
proof -
  have o: "ok s'" and m: "mset (free_list s') + mset bt = mset (free_list s)"
    using grow_conserves [OF assms(1,3)] by auto
  have "distinct bt" using grow_distinct [of s "[]" n r s' bt] assms by simp
  moreover have "\<forall>b \<in> set bt. sole b s'" using grow_sole [of s "[]" n r s' bt] assms by simp
  ultimately show ?thesis using release_all [OF o] m by (simp add: add.commute)
qed

end

end
