(* ===== verification/Bump.thy ===== *)
theory Bump
  imports Prelude
begin

text \<open>
  The interface of a bump allocator: a state with a bump pointer and a capacity, and one operation
  that either refuses or hands out the region \<open>[o, o + n)\<close> and moves the pointer to its end. The
  client of the interface makes a run of requests; it gets regions that lie inside the buffer and do
  not overlap. Both allocators of the code, the arena of \<open>inference/memory\<close> and the scratch
  allocator of the Metal backend, are interpretations.
\<close>

text \<open>A run of requests; a refused one is skipped. The granted regions come in request order.\<close>

fun bump_run :: "('s \<Rightarrow> int \<Rightarrow> int option \<times> 's) \<Rightarrow> int list \<Rightarrow> 's \<Rightarrow> (int \<times> int) list \<times> 's" where
  "bump_run alloc [] s = ([], s)"
| "bump_run alloc (n # ns) s =
     (case alloc s n of
        (None, s') \<Rightarrow> bump_run alloc ns s'
      | (Some off, s') \<Rightarrow> (let (rs, t) = bump_run alloc ns s' in ((off, n) # rs, t)))"

definition disjoint_regions :: "int \<times> int \<Rightarrow> int \<times> int \<Rightarrow> bool" where
  "disjoint_regions r q = (fst r + snd r \<le> fst q \<or> fst q + snd q \<le> fst r)"

locale bump =
  fixes alloc :: "'s \<Rightarrow> int \<Rightarrow> int option \<times> 's"
    and used :: "'s \<Rightarrow> int"
    and cap :: "'s \<Rightarrow> int"
    and inv :: "'s \<Rightarrow> bool"
  assumes alloc_inv: "inv s \<Longrightarrow> 0 \<le> n \<Longrightarrow> alloc s n = (r, s') \<Longrightarrow> inv s'"
    and alloc_mono: "inv s \<Longrightarrow> 0 \<le> n \<Longrightarrow> alloc s n = (r, s') \<Longrightarrow> used s \<le> used s'"
    and alloc_start: "inv s \<Longrightarrow> 0 \<le> n \<Longrightarrow> alloc s n = (Some off, s') \<Longrightarrow> used s \<le> off"
    and alloc_end: "inv s \<Longrightarrow> 0 \<le> n \<Longrightarrow> alloc s n = (Some off, s') \<Longrightarrow> used s' = off + n"
    and alloc_cap: "alloc s n = (r, s') \<Longrightarrow> cap s' = cap s"
    and inv_bounds: "inv s \<Longrightarrow> 0 \<le> used s \<and> used s \<le> cap s"
begin

lemma run_bounds:
  "inv s \<Longrightarrow> \<forall>n \<in> set ns. 0 \<le> n \<Longrightarrow> bump_run alloc ns s = (rs, t) \<Longrightarrow>
   inv t \<and> cap t = cap s \<and> used s \<le> used t \<and>
   (\<forall>(off, n) \<in> set rs. used s \<le> off \<and> 0 \<le> n \<and> off + n \<le> used t)"
proof (induction ns arbitrary: s rs)
  case Nil
  then show ?case by simp
next
  case (Cons n ns)
  obtain r s' where a: "alloc s n = (r, s')" by (cases "alloc s n")
  have n: "0 \<le> n" using Cons.prems(2) by simp
  have i: "inv s'" and st: "used s \<le> used s'" "cap s' = cap s"
    using alloc_inv alloc_mono alloc_cap Cons.prems(1) n a by blast+
  show ?case
  proof (cases r)
    case None
    then show ?thesis using Cons.IH [OF i, of rs] Cons.prems(2,3) a st by fastforce
  next
    case (Some off)
    obtain rs' where r: "bump_run alloc ns s' = (rs', t)" and rs: "rs = (off, n) # rs'"
      using Cons.prems(3) Some a by (auto split: prod.splits)
    have so: "used s \<le> off" "used s' = off + n"
      using alloc_start alloc_end Cons.prems(1) n a Some by blast+
    have ih: "inv t \<and> cap t = cap s' \<and> used s' \<le> used t \<and>
        (\<forall>(off, n) \<in> set rs'. used s' \<le> off \<and> 0 \<le> n \<and> off + n \<le> used t)"
      using Cons.IH [OF i _ r] Cons.prems(2) by simp
    show ?thesis using ih st so n rs by fastforce
  qed
qed

lemma run_disjoint:
  "inv s \<Longrightarrow> \<forall>n \<in> set ns. 0 \<le> n \<Longrightarrow> bump_run alloc ns s = (rs, t) \<Longrightarrow>
   sorted_wrt disjoint_regions rs"
proof (induction ns arbitrary: s rs)
  case Nil
  then show ?case by simp
next
  case (Cons n ns)
  obtain r s' where a: "alloc s n = (r, s')" by (cases "alloc s n")
  have n: "0 \<le> n" "\<forall>n \<in> set ns. 0 \<le> n" using Cons.prems(2) by simp_all
  have i: "inv s'" using alloc_inv Cons.prems(1) n(1) a by blast
  show ?case
  proof (cases r)
    case None
    then show ?thesis using Cons.IH [OF i n(2)] Cons.prems(3) a by simp
  next
    case (Some off)
    obtain rs' where r: "bump_run alloc ns s' = (rs', t)" and rs: "rs = (off, n) # rs'"
      using Cons.prems(3) Some a by (auto split: prod.splits)
    have u: "used s' = off + n" using alloc_end Cons.prems(1) n(1) a Some by blast
    have "\<forall>q \<in> set rs'. disjoint_regions (off, n) q"
      using run_bounds [OF i n(2) r] u by (auto simp: disjoint_regions_def)
    moreover have "sorted_wrt disjoint_regions rs'" using Cons.IH [OF i n(2) r] .
    ultimately show ?thesis by (simp add: rs)
  qed
qed

lemma run_safe:
  assumes "inv s" and "\<forall>n \<in> set ns. 0 \<le> n" and "bump_run alloc ns s = (rs, t)"
  shows "(\<forall>(off, n) \<in> set rs. 0 \<le> off \<and> off + n \<le> cap s) \<and> sorted_wrt disjoint_regions rs"
proof -
  have b: "inv t" "cap t = cap s" "used s \<le> used t"
      "\<forall>(off, n) \<in> set rs. used s \<le> off \<and> 0 \<le> n \<and> off + n \<le> used t"
    using run_bounds [OF assms] by auto
  have "0 \<le> used s" "used t \<le> cap t" using inv_bounds assms(1) b(1) by blast+
  then show ?thesis using b run_disjoint [OF assms] by fastforce
qed

end

end
