(* ===== verification/Tensor.thy ===== *)
theory Tensor
  imports Prelude
begin

text \<open>
  The package \<open>inference/tensor\<close>: shapes and their row-major strides, element types and
  their sizes, quantization profiles, device pointers and the tensor descriptor. An enumeration of Go
  is an \<open>int\<close> with named constants, so each datatype has one more constructor for the values
  that are not named. A \<open>uintptr\<close> is a 64-bit word.
\<close>

section \<open>Shapes\<close>

record Shape =
  dims :: "int list"

definition NewShape :: "int list \<Rightarrow> Shape" where
  "NewShape ds = \<lparr>dims = ds\<rparr>"

fun mul_dims :: "int list \<Rightarrow> int \<Rightarrow> int" where
  "mul_dims [] n = n"
| "mul_dims (d # ds) n = mul_dims ds (n * d)"

definition Shape_NumElements :: "Shape \<Rightarrow> int" where
  "Shape_NumElements s = (if len (dims s) = 0 then 1 else mul_dims (dims s) 1)"

definition Shape_Rank :: "Shape \<Rightarrow> int" where
  "Shape_Rank s = len (dims s)"

text \<open>
  The loop of \<open>StridesRowMajor\<close> runs from the last dimension to the first; it is given the
  dimensions in that order and the strides it has already written.
\<close>

fun strides_loop :: "int list \<Rightarrow> int \<Rightarrow> int list \<Rightarrow> int list" where
  "strides_loop [] stride strides = strides"
| "strides_loop (d # ds) stride strides = strides_loop ds (stride * d) (stride # strides)"

definition Shape_StridesRowMajor :: "Shape \<Rightarrow> int list" where
  "Shape_StridesRowMajor s = (if Shape_Rank s = 0 then [] else strides_loop (rev (dims s)) 1 [])"

fun equal_dims :: "int list \<Rightarrow> int list \<Rightarrow> bool" where
  "equal_dims [] ys = True"
| "equal_dims (x # xs) (y # ys) = (if x \<noteq> y then False else equal_dims xs ys)"
| "equal_dims (x # xs) [] = True"

definition Shape_Equal :: "Shape \<Rightarrow> Shape \<Rightarrow> bool" where
  "Shape_Equal s t = (if len (dims s) \<noteq> len (dims t) then False else equal_dims (dims s) (dims t))"

definition Shape_Dims :: "Shape \<Rightarrow> int list" where
  "Shape_Dims s = dims s"

lemma mul_dims_prod: "mul_dims ds n = n * prod_list ds"
  by (induction ds arbitrary: n) (auto simp: algebra_simps)

lemma NumElements_prod: "Shape_NumElements s = prod_list (dims s)"
  by (simp add: Shape_NumElements_def mul_dims_prod)

text \<open>The specification of strides: each is the product of the dimensions to its right.\<close>

fun row_major_strides :: "int list \<Rightarrow> int list" where
  "row_major_strides [] = []"
| "row_major_strides (d # ds) = prod_list ds # row_major_strides ds"

lemma length_row_major_strides [simp]: "length (row_major_strides ds) = length ds"
  by (induction ds) auto

lemma strides_loop_gen:
  "strides_loop ds (prod_list acc) (row_major_strides acc) = row_major_strides (rev ds @ acc)"
proof (induction ds arbitrary: acc)
  case Nil
  then show ?case by simp
next
  case (Cons d ds)
  have "strides_loop (d # ds) (prod_list acc) (row_major_strides acc)
        = strides_loop ds (prod_list (d # acc)) (row_major_strides (d # acc))"
    by (simp add: mult.commute)
  also have "\<dots> = row_major_strides (rev ds @ d # acc)"
    by (rule Cons.IH)
  finally show ?case by simp
qed

lemma StridesRowMajor_eq: "Shape_StridesRowMajor s = row_major_strides (dims s)"
  using strides_loop_gen [of "rev (dims s)" "[]"]
  by (auto simp: Shape_StridesRowMajor_def Shape_Rank_def)

text \<open>The address of an element: the sum of its indices times the strides.\<close>

definition linear_index :: "int list \<Rightarrow> int list \<Rightarrow> int" where
  "linear_index strides ix = sum_list (map2 (*) ix strides)"

definition valid_index :: "int list \<Rightarrow> int list \<Rightarrow> bool" where
  "valid_index ds ix = list_all2 (\<lambda>i d. 0 \<le> i \<and> i < d) ix ds"

lemma valid_index_simps [simp]:
  "valid_index [] ix \<longleftrightarrow> ix = []"
  "valid_index (d # ds) [] \<longleftrightarrow> False"
  "valid_index (d # ds) (i # ix) \<longleftrightarrow> 0 \<le> i \<and> i < d \<and> valid_index ds ix"
  by (auto simp: valid_index_def)

lemma linear_index_simps [simp]:
  "linear_index [] ix = 0"
  "linear_index (s # ss) (i # ix) = i * s + linear_index ss ix"
  by (simp_all add: linear_index_def)

lemma linear_index_bounds:
  "valid_index ds ix \<Longrightarrow>
   0 \<le> linear_index (row_major_strides ds) ix \<and>
   linear_index (row_major_strides ds) ix < prod_list ds"
proof (induction ds arbitrary: ix)
  case Nil
  then show ?case by simp
next
  case (Cons d ds)
  then obtain i jx where ix: "ix = i # jx" and i: "0 \<le> i" "i < d" and jx: "valid_index ds jx"
    by (cases ix) auto
  let ?r = "linear_index (row_major_strides ds) jx" and ?p = "prod_list ds"
  have r: "0 \<le> ?r" "?r < ?p" using Cons.IH [OF jx] by auto
  have "0 \<le> i * ?p" using i r by simp
  moreover have "(i + 1) * ?p \<le> d * ?p"
    using i r by (intro mult_right_mono) auto
  ultimately show ?case using r by (simp add: ix algebra_simps)
qed

lemma linear_index_inj:
  "valid_index ds ix \<Longrightarrow> valid_index ds jx \<Longrightarrow>
   linear_index (row_major_strides ds) ix = linear_index (row_major_strides ds) jx \<Longrightarrow> ix = jx"
proof (induction ds arbitrary: ix jx)
  case Nil
  then show ?case by simp
next
  case (Cons d ds)
  then obtain i xs j ys where e: "ix = i # xs" "jx = j # ys"
      and v: "valid_index ds xs" "valid_index ds ys"
    by (cases ix; cases jx) auto
  let ?p = "prod_list ds" and ?l = "linear_index (row_major_strides ds)"
  have b: "0 \<le> ?l xs" "?l xs < ?p" "0 \<le> ?l ys" "?l ys < ?p"
    using linear_index_bounds v by auto
  have eq: "i * ?p + ?l xs = j * ?p + ?l ys" using Cons.prems(3) e by simp
  have "(i * ?p + ?l xs) div ?p = i" "(j * ?p + ?l ys) div ?p = j"
    using b by (simp_all add: div_pos_pos_trivial)
  with eq have "i = j" by simp
  moreover from this eq have "?l xs = ?l ys" by simp
  then have "xs = ys" using Cons.IH v by blast
  ultimately show ?case by (simp add: e)
qed

lemma equal_dims_iff: "length xs = length ys \<Longrightarrow> equal_dims xs ys \<longleftrightarrow> xs = ys"
  by (induction xs ys rule: list_induct2) auto

section \<open>Element types\<close>

datatype DType = Float32 | Float16 | BFloat16 | Int8 | Uint8 | OtherDType int

fun DType_SizeBytes :: "DType \<Rightarrow> int" where
  "DType_SizeBytes Float32 = 4"
| "DType_SizeBytes Float16 = 2"
| "DType_SizeBytes BFloat16 = 2"
| "DType_SizeBytes Int8 = 1"
| "DType_SizeBytes Uint8 = 1"
| "DType_SizeBytes (OtherDType n) = 0"

definition DType_BitSize :: "DType \<Rightarrow> int" where
  "DType_BitSize d = DType_SizeBytes d * 8"

datatype Location = CPU | CUDA | Metal | OtherLocation int

fun Location_String :: "Location \<Rightarrow> string" where
  "Location_String CPU = ''CPU''"
| "Location_String CUDA = ''CUDA''"
| "Location_String Metal = ''Metal''"
| "Location_String (OtherLocation n) = ''Unknown''"

datatype QuantProfile = QuantNone | Q8_0 | Q4_0 | Q6_K | Q4_K | Q5_K | Q5_0 | BF16 | OtherQuant int

fun QuantProfile_String :: "QuantProfile \<Rightarrow> string" where
  "QuantProfile_String QuantNone = ''None''"
| "QuantProfile_String Q8_0 = ''Q8_0''"
| "QuantProfile_String Q4_0 = ''Q4_0''"
| "QuantProfile_String Q6_K = ''Q6_K''"
| "QuantProfile_String Q4_K = ''Q4_K''"
| "QuantProfile_String Q5_K = ''Q5_K''"
| "QuantProfile_String Q5_0 = ''Q5_0''"
| "QuantProfile_String BF16 = ''BF16''"
| "QuantProfile_String (OtherQuant n) = ''Unknown''"

section \<open>Device pointers\<close>

record DevicePtr =
  dp_addr :: "64 word"
  dp_offset :: int
  dp_loc :: Location

definition nil_ptr :: DevicePtr where
  "nil_ptr = \<lparr>dp_addr = 0, dp_offset = 0, dp_loc = CPU\<rparr>"

definition NewDevicePtr :: "Location \<Rightarrow> 64 word \<Rightarrow> DevicePtr" where
  "NewDevicePtr loc addr = \<lparr>dp_addr = addr, dp_offset = 0, dp_loc = loc\<rparr>"

definition NewDevicePtrWithOffset :: "Location \<Rightarrow> 64 word \<Rightarrow> int \<Rightarrow> DevicePtr" where
  "NewDevicePtrWithOffset loc addr off = \<lparr>dp_addr = addr, dp_offset = off, dp_loc = loc\<rparr>"

definition DevicePtr_Addr :: "DevicePtr \<Rightarrow> 64 word" where
  "DevicePtr_Addr p = (if dp_loc p = CPU then dp_addr p + word_of_int (dp_offset p) else dp_addr p)"

definition DevicePtr_BaseAddr :: "DevicePtr \<Rightarrow> 64 word" where
  "DevicePtr_BaseAddr p = dp_addr p"

definition DevicePtr_Offset :: "DevicePtr \<Rightarrow> int" where
  "DevicePtr_Offset p = dp_offset p"

definition DevicePtr_Location :: "DevicePtr \<Rightarrow> Location" where
  "DevicePtr_Location p = dp_loc p"

definition DevicePtr_IsNil :: "DevicePtr \<Rightarrow> bool" where
  "DevicePtr_IsNil p = (dp_addr p = 0)"

definition DevicePtrOffset :: "DevicePtr \<Rightarrow> 64 word \<Rightarrow> DevicePtr" where
  "DevicePtrOffset base offsetBytes =
     (if dp_loc base = CPU
      then \<lparr>dp_addr = dp_addr base + offsetBytes, dp_offset = 0, dp_loc = dp_loc base\<rparr>
      else \<lparr>dp_addr = dp_addr base, dp_offset = dp_offset base + sint offsetBytes,
            dp_loc = dp_loc base\<rparr>)"

lemmas ptr_defs [go_defs] = nil_ptr_def NewDevicePtr_def NewDevicePtrWithOffset_def
  DevicePtr_Addr_def DevicePtr_BaseAddr_def DevicePtr_Offset_def DevicePtr_Location_def
  DevicePtr_IsNil_def DevicePtrOffset_def

lemma DevicePtrOffset_loc [simp]: "dp_loc (DevicePtrOffset p k) = dp_loc p"
  by (simp add: DevicePtrOffset_def)

record Device =
  dev_Location :: Location
  dev_Index :: int

definition NewDevice :: "Location \<Rightarrow> int \<Rightarrow> Device" where
  "NewDevice loc i = \<lparr>dev_Location = loc, dev_Index = i\<rparr>"

section \<open>Tensors\<close>

record Tensor =
  t_shape :: Shape
  t_dtype :: DType
  t_devicePtr :: DevicePtr
  t_quantProfile :: QuantProfile

definition NewTensor :: "Shape \<Rightarrow> DType \<Rightarrow> DevicePtr \<Rightarrow> Tensor" where
  "NewTensor s d p = \<lparr>t_shape = s, t_dtype = d, t_devicePtr = p, t_quantProfile = QuantNone\<rparr>"

definition NewQuantTensor :: "Shape \<Rightarrow> DType \<Rightarrow> DevicePtr \<Rightarrow> QuantProfile \<Rightarrow> Tensor" where
  "NewQuantTensor s d p q = \<lparr>t_shape = s, t_dtype = d, t_devicePtr = p, t_quantProfile = q\<rparr>"

definition Tensor_NumElements :: "Tensor \<Rightarrow> int" where
  "Tensor_NumElements t = Shape_NumElements (t_shape t)"

definition Tensor_Location :: "Tensor \<Rightarrow> Location" where
  "Tensor_Location t = DevicePtr_Location (t_devicePtr t)"

definition Tensor_IsQuantized :: "Tensor \<Rightarrow> bool" where
  "Tensor_IsQuantized t = (t_quantProfile t \<noteq> QuantNone)"

record QuantizedTensor =
  qt_base :: Tensor
  qt_profile :: QuantProfile

definition NewQuantizedTensor :: "Tensor \<Rightarrow> QuantProfile \<Rightarrow> QuantizedTensor" where
  "NewQuantizedTensor t q = \<lparr>qt_base = t, qt_profile = q\<rparr>"

section \<open>Properties\<close>

text \<open>
  the strides of \<open>StridesRowMajor\<close> address the elements of a tensor without overlap and
  without gap at the end: every valid index vector is sent into \<open>[0, NumElements)\<close>, and two
  different index vectors are sent to different places.
\<close>

theorem StridesRowMajor_addresses:
  assumes "valid_index (dims s) ix" and "valid_index (dims s) jx"
  shows "0 \<le> linear_index (Shape_StridesRowMajor s) ix \<and>
    linear_index (Shape_StridesRowMajor s) ix < Shape_NumElements s \<and>
    (linear_index (Shape_StridesRowMajor s) ix = linear_index (Shape_StridesRowMajor s) jx
     \<longleftrightarrow> ix = jx)"
  using linear_index_bounds [OF assms(1)] linear_index_inj [OF assms]
  by (auto simp: StridesRowMajor_eq NumElements_prod)

theorem StridesRowMajor_addresses_witness:
  "linear_index (Shape_StridesRowMajor (NewShape [2, 3, 4])) [1, 0, 3] < 24 \<and>
   linear_index (Shape_StridesRowMajor (NewShape [2, 3, 4])) [1, 0, 3] \<noteq>
   linear_index (Shape_StridesRowMajor (NewShape [2, 3, 4])) [1, 2, 1]"
  using StridesRowMajor_addresses [of "NewShape [2, 3, 4]" "[1, 0, 3]" "[1, 2, 1]"]
  by (simp add: NewShape_def NumElements_prod)

end
