(* ===== verification/Arena.thy ===== *)
theory Arena
  imports Bump Tensor
begin

text \<open>
  The package \<open>inference/memory\<close> (the linear arena, its kinds and the per-device context that holds
  the arenas) and the bump allocator of \<open>backend/metal/scratch_allocator.go\<close>.

  An arena on the CPU owns a byte buffer whose address is chosen by the run time, the argument
  \<open>bufaddr\<close> of \<open>NewArena\<close>. An arena on a GPU calls the backend's allocator for every
  request; that function has a state of its own, the type variable \<open>'b\<close>, which is threaded
  through. The contents of the buffers are not modelled.
\<close>

datatype ArenaKind = Weights | KV | Scratch | OtherArena int

fun ArenaKind_String :: "ArenaKind \<Rightarrow> string" where
  "ArenaKind_String Weights = ''Weights''"
| "ArenaKind_String KV = ''KV''"
| "ArenaKind_String Scratch = ''Scratch''"
| "ArenaKind_String (OtherArena n) = ''Unknown''"

type_synonym 'b AllocFunc = "int \<Rightarrow> 'b \<Rightarrow> DevicePtr \<times> 'b"

record 'b Arena =
  ar_loc :: Location
  ar_kind :: ArenaKind
  ar_basePtr :: "64 word"
  ar_size :: int
  ar_offset :: int
  ar_allocFunc :: "'b AllocFunc option"

datatype arena_error = OOM int int | NoAllocator

text \<open>\<open>&cpuBuffer[0]\<close> panics when the buffer is empty, and \<open>make\<close> when the size is negative.\<close>

definition NewArena :: "64 word \<Rightarrow> Location \<Rightarrow> int \<Rightarrow> ArenaKind \<Rightarrow> 'b Arena option" where
  "NewArena bufaddr loc sz kind =
     (if loc = CPU \<and> sz \<le> 0 then None
      else Some \<lparr>ar_loc = loc, ar_kind = kind,
                 ar_basePtr = (if loc = CPU then bufaddr else 0xBADF00D),
                 ar_size = sz, ar_offset = 0, ar_allocFunc = None\<rparr>)"

definition NewArenaWithBackend ::
  "64 word \<Rightarrow> Location \<Rightarrow> int \<Rightarrow> ArenaKind \<Rightarrow> 'b AllocFunc option \<Rightarrow> 'b Arena option" where
  "NewArenaWithBackend bufaddr loc sz kind alloc =
     (if loc = CPU \<or> alloc = None then NewArena bufaddr loc sz kind
      else Some \<lparr>ar_loc = loc, ar_kind = kind, ar_basePtr = 0, ar_size = sz, ar_offset = 0,
                 ar_allocFunc = alloc\<rparr>)"

definition Arena_Alloc ::
  "'b Arena \<Rightarrow> int \<Rightarrow> 'b \<Rightarrow> (arena_error + DevicePtr) \<times> 'b Arena \<times> 'b" where
  "Arena_Alloc a sz b =
     (if ar_offset a + sz > ar_size a then (Inl (OOM sz (ar_size a - ar_offset a)), a, b)
      else
        let a' = a\<lparr>ar_offset := ar_offset a + sz\<rparr> in
        if ar_loc a' = CPU
        then (Inr (NewDevicePtr (ar_loc a') (ar_basePtr a' + word_of_int (ar_offset a' - sz))), a', b)
        else case ar_allocFunc a' of
               Some f \<Rightarrow> (let (p, b') = f sz b in (Inr p, a', b'))
             | None \<Rightarrow> (Inl NoAllocator, a', b))"

definition Arena_Reset :: "'b Arena \<Rightarrow> 'b Arena" where
  "Arena_Reset a = a\<lparr>ar_offset := 0\<rparr>"

definition Arena_UsedBytes :: "'b Arena \<Rightarrow> int" where
  "Arena_UsedBytes a = ar_offset a"

definition Arena_TotalBytes :: "'b Arena \<Rightarrow> int" where
  "Arena_TotalBytes a = ar_size a"

section \<open>The inference context\<close>

record 'b InferenceContext =
  ctx_loc :: Location
  ctx_arenas :: "ArenaKind \<rightharpoonup> 'b Arena"

definition NewInferenceContext :: "Location \<Rightarrow> 'b InferenceContext" where
  "NewInferenceContext loc = \<lparr>ctx_loc = loc, ctx_arenas = Map.empty\<rparr>"

definition Context_AddArena ::
  "64 word \<Rightarrow> 'b InferenceContext \<Rightarrow> ArenaKind \<Rightarrow> int \<Rightarrow> 'b InferenceContext option" where
  "Context_AddArena bufaddr c kind sz =
     do { a \<leftarrow> NewArena bufaddr (ctx_loc c) sz kind;
          Some (c\<lparr>ctx_arenas := (ctx_arenas c)(kind \<mapsto> a)\<rparr>) }"

definition Context_AddArenaWithBackend ::
  "64 word \<Rightarrow> 'b InferenceContext \<Rightarrow> ArenaKind \<Rightarrow> int \<Rightarrow> 'b AllocFunc option
   \<Rightarrow> 'b InferenceContext option" where
  "Context_AddArenaWithBackend bufaddr c kind sz alloc =
     do { a \<leftarrow> NewArenaWithBackend bufaddr (ctx_loc c) sz kind alloc;
          Some (c\<lparr>ctx_arenas := (ctx_arenas c)(kind \<mapsto> a)\<rparr>) }"

definition Context_GetArena :: "'b InferenceContext \<Rightarrow> ArenaKind \<Rightarrow> 'b Arena option" where
  "Context_GetArena c kind = ctx_arenas c kind"

definition Context_ResetScratch :: "'b InferenceContext \<Rightarrow> 'b InferenceContext" where
  "Context_ResetScratch c =
     (case ctx_arenas c Scratch of
        Some a \<Rightarrow> c\<lparr>ctx_arenas := (ctx_arenas c)(Scratch \<mapsto> Arena_Reset a)\<rparr>
      | None \<Rightarrow> c)"

lemma ResetScratch_other:
  "k \<noteq> Scratch \<Longrightarrow> Context_GetArena (Context_ResetScratch c) k = Context_GetArena c k"
  by (auto simp: Context_ResetScratch_def Context_GetArena_def split: option.splits)

lemma ResetScratch_scratch:
  "Context_GetArena (Context_ResetScratch c) Scratch
   = map_option Arena_Reset (Context_GetArena c Scratch)"
  by (auto simp: Context_ResetScratch_def Context_GetArena_def split: option.splits)

section \<open>The Metal scratch allocator\<close>

record ScratchAllocator =
  sa_baseBuf :: "64 word"
  sa_capacity :: int
  sa_offset :: int

definition metalAlignment :: int where
  "metalAlignment = 256"

text \<open>\<open>buf\<close> is the handle the Metal run time returned, 0 if it could not allocate.\<close>

definition NewScratchAllocator :: "64 word \<Rightarrow> int \<Rightarrow> ScratchAllocator option" where
  "NewScratchAllocator buf capacity =
     (if capacity \<le> 0 then None
      else if buf = 0 then None
      else Some \<lparr>sa_baseBuf = buf, sa_capacity = capacity, sa_offset = 0\<rparr>)"

definition align_up :: "int \<Rightarrow> int" where
  "align_up off = and (off + metalAlignment - 1) (not (metalAlignment - 1))"

definition ScratchAllocator_Alloc :: "ScratchAllocator \<Rightarrow> int \<Rightarrow> DevicePtr \<times> ScratchAllocator" where
  "ScratchAllocator_Alloc sa bytes =
     (let aligned = align_up (sa_offset sa) in
      if aligned + bytes > sa_capacity sa then (nil_ptr, sa)
      else (NewDevicePtrWithOffset Metal (sa_baseBuf sa) aligned,
            sa\<lparr>sa_offset := aligned + bytes\<rparr>))"

definition ScratchAllocator_Reset :: "ScratchAllocator \<Rightarrow> ScratchAllocator" where
  "ScratchAllocator_Reset sa = sa\<lparr>sa_offset := 0\<rparr>"

definition ScratchAllocator_Capacity :: "ScratchAllocator \<Rightarrow> int" where
  "ScratchAllocator_Capacity sa = sa_capacity sa"

definition ScratchAllocator_Used :: "ScratchAllocator \<Rightarrow> int" where
  "ScratchAllocator_Used sa = sa_offset sa"

lemma align_up_eq: "align_up off = (off + 255) div 256 * 256"
proof -
  let ?a = "off + 255"
  have "and ?a (not (mask 8)) = and ?a (not (take_bit 8 ?a))"
    by (rule bit_eqI) (auto simp: bit_simps)
  also have "\<dots> = ?a - take_bit 8 ?a"
    by (rule disjunctive_diff_eq_and_not [symmetric]) (rule bit_eqI, auto simp: bit_simps)
  finally have "align_up off = ?a - ?a mod 256"
    by (simp add: align_up_def metalAlignment_def take_bit_eq_mod mask_eq_exp_minus_1 add.commute)
  then show ?thesis by (simp add: minus_mod_eq_div_mult)
qed

lemma align_up_bounds: "off \<le> align_up off" "align_up off < off + 256" "align_up off mod 256 = 0"
  using ceil_div_bounds [of 256 off] by (simp_all add: align_up_eq)

section \<open>Both allocators are bump allocators\<close>

text \<open>The region an arena hands out, as an offset into its buffer.\<close>

definition arena_region :: "'b \<Rightarrow> 'b Arena \<Rightarrow> int \<Rightarrow> int option \<times> 'b Arena" where
  "arena_region b a sz =
     (case Arena_Alloc a sz b of
        (Inr p, a', b') \<Rightarrow> (Some (ar_offset a' - sz), a')
      | (Inl e, a', b') \<Rightarrow> (None, a'))"

definition arena_ok :: "'b Arena \<Rightarrow> bool" where
  "arena_ok a = (0 \<le> ar_offset a \<and> ar_offset a \<le> ar_size a)"

definition scratch_region :: "ScratchAllocator \<Rightarrow> int \<Rightarrow> int option \<times> ScratchAllocator" where
  "scratch_region sa n =
     (let (p, sa') = ScratchAllocator_Alloc sa n in
      (if DevicePtr_IsNil p then None else Some (DevicePtr_Offset p), sa'))"

definition scratch_ok :: "ScratchAllocator \<Rightarrow> bool" where
  "scratch_ok sa = (sa_baseBuf sa \<noteq> 0 \<and> 0 \<le> sa_offset sa \<and> sa_offset sa \<le> sa_capacity sa)"

lemma arena_region_cases:
  assumes "arena_region b a n = (r, a')"
  shows "a' = a \<and> r = None \<or>
    a' = a\<lparr>ar_offset := ar_offset a + n\<rparr> \<and> ar_offset a + n \<le> ar_size a \<and>
      (r = None \<or> r = Some (ar_offset a))"
  using assms
  by (auto simp: arena_region_def Arena_Alloc_def Let_def
      split: if_splits option.splits prod.splits sum.splits)

lemma scratch_region_cases:
  assumes "scratch_region sa n = (r, sa')" and "sa_baseBuf sa \<noteq> 0"
  shows "sa' = sa \<and> r = None \<or>
    r = Some (align_up (sa_offset sa)) \<and> sa' = sa\<lparr>sa_offset := align_up (sa_offset sa) + n\<rparr> \<and>
      align_up (sa_offset sa) + n \<le> sa_capacity sa"
  using assms
  by (auto simp: scratch_region_def ScratchAllocator_Alloc_def Let_def go_defs split: if_splits)

lemma scratch_region_cap:
  "scratch_region sa n = (r, sa') \<Longrightarrow> sa_capacity sa' = sa_capacity sa"
  by (auto simp: scratch_region_def ScratchAllocator_Alloc_def Let_def split: if_splits)

interpretation arena_bump: bump "arena_region b" Arena_UsedBytes Arena_TotalBytes arena_ok
  by unfold_locales
    (auto dest!: arena_region_cases simp: arena_ok_def Arena_UsedBytes_def Arena_TotalBytes_def)

interpretation scratch_bump: bump scratch_region ScratchAllocator_Used ScratchAllocator_Capacity
    scratch_ok
proof unfold_locales
  fix s s' :: ScratchAllocator and n off :: int and r :: "int option"
  assume ok: "scratch_ok s" and n: "0 \<le> n"
  note al = align_up_bounds(1) [of "sa_offset s"]
  have b: "sa_baseBuf s \<noteq> 0" using ok by (simp add: scratch_ok_def)
  {
    assume "scratch_region s n = (r, s')"
    from scratch_region_cases [OF this b] show "scratch_ok s'" and
      "ScratchAllocator_Used s \<le> ScratchAllocator_Used s'"
      using ok n al by (auto simp: scratch_ok_def ScratchAllocator_Used_def)
  }
  assume "scratch_region s n = (Some off, s')"
  from scratch_region_cases [OF this b] show "ScratchAllocator_Used s \<le> off" and
    "ScratchAllocator_Used s' = off + n"
    using al by (auto simp: ScratchAllocator_Used_def)
qed (auto dest: scratch_region_cap simp: scratch_ok_def ScratchAllocator_Used_def
    ScratchAllocator_Capacity_def)

lemma scratch_run_aligned:
  "scratch_ok sa \<Longrightarrow> \<forall>n \<in> set ns. 0 \<le> n \<Longrightarrow> bump_run scratch_region ns sa = (rs, sa') \<Longrightarrow>
   \<forall>(off, n) \<in> set rs. off mod metalAlignment = 0"
proof (induction ns arbitrary: sa rs)
  case Nil
  then show ?case by simp
next
  case (Cons n ns)
  obtain r s' where a: "scratch_region sa n = (r, s')" by (cases "scratch_region sa n")
  have n: "0 \<le> n" "\<forall>n \<in> set ns. 0 \<le> n" using Cons.prems(2) by simp_all
  have ok: "scratch_ok s'" using scratch_bump.alloc_inv [OF Cons.prems(1) n(1) a] .
  have b: "sa_baseBuf sa \<noteq> 0" using Cons.prems(1) by (simp add: scratch_ok_def)
  show ?case
  proof (cases r)
    case None
    then show ?thesis using Cons.IH [OF ok n(2)] Cons.prems(3) a by simp
  next
    case (Some off)
    have "off mod metalAlignment = 0"
      using scratch_region_cases [OF a b] Some align_up_bounds(3) by (auto simp: metalAlignment_def)
    then show ?thesis using Cons.IH [OF ok n(2)] Cons.prems(3) a Some by (fastforce split: prod.splits)
  qed
qed

section \<open>Properties\<close>



text \<open>
  the same for the Metal scratch allocator, whose regions also start at a multiple of the
  256-byte alignment.
\<close>

theorem ScratchAllocator_regions:
  assumes "scratch_ok sa" and "\<forall>n \<in> set ns. 0 \<le> n"
    and "bump_run scratch_region ns sa = (rs, sa')"
  shows "(\<forall>(off, n) \<in> set rs. 0 \<le> off \<and> off + n \<le> ScratchAllocator_Capacity sa) \<and>
    sorted_wrt disjoint_regions rs \<and> (\<forall>(off, n) \<in> set rs. off mod metalAlignment = 0)"
  using scratch_bump.run_safe [OF assms] scratch_run_aligned [OF assms] by simp

theorem ScratchAllocator_regions_witness:
  "disjoint_regions (0, 40) (256, 30) \<and> 256 mod metalAlignment = 0 \<and>
   fst (bump_run scratch_region [40, 30, 24] (the (NewScratchAllocator 4096 300))) = [(0, 40), (256, 30)]"
proof -
  let ?a = "the (NewScratchAllocator 4096 300)"
  let ?r = "bump_run scratch_region [40, 30, 24] ?a"
  have r: "fst ?r = [(0, 40), (256, 30)]" by code_simp
  moreover have "ScratchAllocator_Capacity ?a = 300" "scratch_ok ?a" by code_simp+
  moreover have "?r = ([(0, 40), (256, 30)], snd ?r)" using r by (metis prod.collapse)
  ultimately show ?thesis
    using ScratchAllocator_regions [of ?a "[40, 30, 24]" "[(0, 40), (256, 30)]" "snd ?r"]
    by (simp add: metalAlignment_def del: bump_run.simps)
qed

end
