(* ===== verification/KV_Cache.thy ===== *)
theory KV_Cache
  imports Block_Source Arena
begin

text \<open>
  The first KV cache of the package \<open>inference/kv\<close> (\<open>cache.go\<close>, \<open>config.go\<close>, \<open>handle.go\<close>): one
  region of the KV arena cut into blocks of equal size, and a stack of free block indices.
\<close>

record KVConfig =
  kc_DType :: DType
  kc_HeadDim :: int
  kc_BlockLen :: int

definition NewKVConfig :: "DType \<Rightarrow> int \<Rightarrow> int \<Rightarrow> KVConfig" where
  "NewKVConfig d headDim blockLen = \<lparr>kc_DType = d, kc_HeadDim = headDim, kc_BlockLen = blockLen\<rparr>"

definition BlockBytes :: "KVConfig \<Rightarrow> int" where
  "BlockBytes c = 2 * kc_BlockLen c * kc_HeadDim c * DType_SizeBytes (kc_DType c)"

record KVCache =
  kv_config :: KVConfig
  kv_basePtr :: DevicePtr
  kv_maxBlocks :: int
  kv_freeStack :: "int list"

datatype kv_error = NoKVArena | KVAllocFailed arena_error | OutOfBlocks int int

text \<open>The context and the backend's allocator state are threaded through, as the arena is a pointer.\<close>

definition NewKVCache ::
  "'b InferenceContext \<Rightarrow> 'b \<Rightarrow> KVConfig \<Rightarrow> int \<Rightarrow> ((kv_error + KVCache) \<times> 'b InferenceContext \<times> 'b) option" where
  "NewKVCache ctx be config maxBlocks =
     (let totalBytes = BlockBytes config * maxBlocks in
      case Context_GetArena ctx KV of
        None \<Rightarrow> Some (Inl NoKVArena, ctx, be)
      | Some arena \<Rightarrow>
          let (r, arena', be') = Arena_Alloc arena totalBytes be;
              ctx' = ctx\<lparr>ctx_arenas := (ctx_arenas ctx)(KV \<mapsto> arena')\<rparr>
          in case r of
               Inl e \<Rightarrow> Some (Inl (KVAllocFailed e), ctx', be')
             | Inr ptr \<Rightarrow>
                 if maxBlocks < 0 then None
                 else Some (Inr \<lparr>kv_config = config, kv_basePtr = ptr, kv_maxBlocks = maxBlocks,
                                 kv_freeStack = map (\<lambda>i. maxBlocks - 1 - int i) [0..<nat maxBlocks]\<rparr>,
                            ctx', be'))"

definition KVCache_FreeBlocks :: "KVCache \<Rightarrow> int" where
  "KVCache_FreeBlocks c = len (kv_freeStack c)"

text \<open>The pops of \<open>AllocateBlocks\<close>; an empty stack would be an index out of range.\<close>

fun pop_blocks :: "nat \<Rightarrow> int list \<Rightarrow> int list \<Rightarrow> (int list \<times> int list) option" where
  "pop_blocks 0 stack blocks = Some (blocks, stack)"
| "pop_blocks (Suc n) stack blocks =
     do { i \<leftarrow> idx stack (len stack - 1);
          stack' \<leftarrow> slice stack 0 (len stack - 1);
          pop_blocks n stack' (blocks @ [i]) }"

definition KVCache_AllocateBlocks :: "KVCache \<Rightarrow> int \<Rightarrow> ((kv_error + int list) \<times> KVCache) option" where
  "KVCache_AllocateBlocks c numTokens =
     do { numRequired \<leftarrow> go_div (numTokens + kc_BlockLen (kv_config c) - 1) (kc_BlockLen (kv_config c));
          if numRequired > len (kv_freeStack c)
          then Some (Inl (OutOfBlocks numRequired (len (kv_freeStack c))), c)
          else if numRequired < 0 then None
          else do { (blocks, stack) \<leftarrow> pop_blocks (nat numRequired) (kv_freeStack c) [];
                    Some (Inr blocks, c\<lparr>kv_freeStack := stack\<rparr>) } }"

definition KVCache_FreeBlocksList :: "KVCache \<Rightarrow> int list \<Rightarrow> KVCache" where
  "KVCache_FreeBlocksList c blocks = c\<lparr>kv_freeStack := kv_freeStack c @ blocks\<rparr>"

definition KVCache_GetBlockPtr :: "KVCache \<Rightarrow> int \<Rightarrow> DevicePtr" where
  "KVCache_GetBlockPtr c blockIdx =
     (if blockIdx < 0 \<or> blockIdx \<ge> kv_maxBlocks c then nil_ptr
      else DevicePtrOffset (kv_basePtr c) (word_of_int blockIdx * word_of_int (BlockBytes (kv_config c))))"

definition KVCache_GetView :: "KVCache \<Rightarrow> int \<Rightarrow> int \<Rightarrow> DevicePtr \<times> DevicePtr" where
  "KVCache_GetView c layer pos = (nil_ptr, nil_ptr)"

record SeqKVHandle =
  sh_pages :: "int list"

definition NewSeqKVHandle :: "int list \<Rightarrow> SeqKVHandle" where
  "NewSeqKVHandle pages = \<lparr>sh_pages = pages\<rparr>"

definition SeqKVHandle_AddPage :: "SeqKVHandle \<Rightarrow> int \<Rightarrow> SeqKVHandle" where
  "SeqKVHandle_AddPage h i = h\<lparr>sh_pages := sh_pages h @ [i]\<rparr>"

definition SeqKVHandle_NumPages :: "SeqKVHandle \<Rightarrow> int" where
  "SeqKVHandle_NumPages h = len (sh_pages h)"

section \<open>The free stack is a source of blocks\<close>

definition kv_pop :: "int list \<Rightarrow> (int \<times> int list) option" where
  "kv_pop stack = (if stack = [] then None else Some (last stack, butlast stack))"

interpretation kvs: block_source kv_pop "\<lambda>s. s" "\<lambda>s. True"
proof unfold_locales
  fix s s' :: "int list" and b :: int
  show "kv_pop s = None \<longleftrightarrow> s = []" by (simp add: kv_pop_def)
  assume "kv_pop s = Some (b, s')"
  then show "mset s = add_mset b (mset s')"
    using last_butlast_mset [of s] by (auto simp: kv_pop_def split: if_splits)
qed simp

lemma slice_butlast:
  assumes "xs \<noteq> []"
  shows "slice xs 0 (len xs - 1) = Some (butlast xs)" and "idx xs (len xs - 1) = Some (last xs)"
proof -
  have l: "0 < length xs" using assms by simp
  have n: "nat (len xs - 1) = length xs - 1" using l by (simp add: len_def nat_diff_distrib)
  show "slice xs 0 (len xs - 1) = Some (butlast xs)"
    using l n by (simp add: slice_def butlast_conv_take len_def)
  show "idx xs (len xs - 1) = Some (last xs)"
    using assms l n by (simp add: idx_def last_conv_nth len_def)
qed

lemma pop_blocks_grow:
  "grow kv_pop n stack blocks = (True, stack', blocks') \<Longrightarrow> pop_blocks n stack blocks = Some (blocks', stack')"
proof (induction n arbitrary: stack blocks)
  case 0
  then show ?case by simp
next
  case (Suc n)
  then show ?case
    using slice_butlast [of stack] by (cases "stack = []") (auto simp: kv_pop_def)
qed

text \<open>
  \<open>AllocateBlocks\<close> on a cache with positive block length: it refuses exactly when the free stack is
  too short and then changes nothing; otherwise it hands out just enough blocks for the tokens, taken
  from the stack, so that giving them back with \<open>FreeBlocksList\<close> restores the free blocks.
\<close>

theorem KVCache_AllocateBlocks_spec:
  assumes "0 < kc_BlockLen (kv_config c)" and "0 < numTokens"
  shows "(case KVCache_AllocateBlocks c numTokens of
      None \<Rightarrow> False
    | Some (Inl e, c') \<Rightarrow> c' = c \<and>
        len (kv_freeStack c) * kc_BlockLen (kv_config c) < numTokens
    | Some (Inr blocks, c') \<Rightarrow>
        numTokens \<le> len blocks * kc_BlockLen (kv_config c) \<and>
        len blocks * kc_BlockLen (kv_config c) < numTokens + kc_BlockLen (kv_config c) \<and>
        mset (kv_freeStack (KVCache_FreeBlocksList c' blocks)) = mset (kv_freeStack c))"
proof -
  let ?B = "kc_BlockLen (kv_config c)" and ?st = "kv_freeStack c"
  let ?n = "(numTokens + ?B - 1) div ?B"
  have q: "go_div (numTokens + ?B - 1) ?B = Some ?n" using assms by simp
  have n0: "0 \<le> ?n" using assms by (simp add: pos_imp_zdiv_nonneg_iff)
  note cb = ceil_div_bounds [OF assms(1), of numTokens]
  show ?thesis
  proof (cases "?n > len ?st")
    case True
    then have "len ?st + 1 \<le> ?n" by simp
    then have "(len ?st + 1) * ?B \<le> ?n * ?B" using assms(1) by (intro mult_right_mono) auto
    then have "len ?st * ?B + ?B \<le> ?n * ?B" by (simp add: distrib_right)
    then have "len ?st * ?B < numTokens" using cb(2) by linarith
    then show ?thesis using True q by (simp add: KVCache_AllocateBlocks_def)
  next
    case False
    then have "nat ?n \<le> length ?st" by (simp add: len_def)
    then obtain s' bs where g: "grow kv_pop (nat ?n) ?st [] = (True, s', bs)" "length bs = nat ?n"
      using kvs.grow_succeeds [where n = "nat ?n" and s = ?st and bt = "[]"] by auto
    then have "mset s' + mset bs = mset ?st" using kvs.grow_conserves [OF _ g(1)] by simp
    moreover have "len bs = ?n" using g(2) n0 by (simp add: len_def)
    ultimately show ?thesis
      using pop_blocks_grow [OF g(1)] q n0 False cb
      by (simp add: KVCache_AllocateBlocks_def KVCache_FreeBlocksList_def)
  qed
qed

theorem KVCache_AllocateBlocks_spec_witness:
  "(case KVCache_AllocateBlocks \<lparr>kv_config = NewKVConfig Float32 4 16, kv_basePtr = nil_ptr,
        kv_maxBlocks = 3, kv_freeStack = [2, 1, 0]\<rparr> 20 of
      Some (Inr blocks, c') \<Rightarrow> len blocks * 16 < 36
    | _ \<Rightarrow> False)"
proof -
  let ?c = "\<lparr>kv_config = NewKVConfig Float32 4 16, kv_basePtr = nil_ptr,
        kv_maxBlocks = 3, kv_freeStack = [2, 1, 0]\<rparr>"
  have "KVCache_AllocateBlocks ?c 20 = Some (Inr [0, 1], ?c\<lparr>kv_freeStack := [2]\<rparr>)"
    by code_simp
  then show ?thesis
    using KVCache_AllocateBlocks_spec [of ?c 20] by (simp add: NewKVConfig_def)
qed

end
