(* ===== verification/Holders.thy ===== *)
theory Holders
  imports Prelude
begin

text \<open>
  Who holds what, counted as a multiset: a finite map of owners, each with a list of the items it
  holds. Both caches keep such a map from sequences to block lists, one per layer; the lemmas say how
  the total changes when one owner's list is replaced or removed.
\<close>

definition owned :: "('v \<Rightarrow> 'b list) \<Rightarrow> ('k \<rightharpoonup> 'v) \<Rightarrow> 'k \<Rightarrow> 'b list" where
  "owned f m s = (case m s of None \<Rightarrow> [] | Some t \<Rightarrow> f t)"

definition held_by :: "('v \<Rightarrow> 'b list) \<Rightarrow> ('k \<rightharpoonup> 'v) \<Rightarrow> 'b multiset" where
  "held_by f m = (\<Sum>s\<in>dom m. mset (owned f m s))"

lemma owned_upd [simp]: "owned f (m(s \<mapsto> t)) r = (if r = s then f t else owned f m r)"
  by (simp add: owned_def)

lemma owned_del [simp]: "owned f (m(s := None)) r = (if r = s then [] else owned f m r)"
  by (simp add: owned_def)

lemma held_by_empty [simp]: "held_by f Map.empty = {#}"
  by (simp add: held_by_def)

lemma held_by_remove:
  assumes "finite (dom m)"
  shows "held_by f m = mset (owned f m s) + (\<Sum>r\<in>dom m - {s}. mset (owned f m r))"
proof (cases "s \<in> dom m")
  case True
  then show ?thesis using assms by (simp add: held_by_def sum.remove)
next
  case False
  then have "owned f m s = []" by (simp add: owned_def domIff)
  with False show ?thesis by (simp add: held_by_def)
qed

lemma held_by_others:
  "(\<Sum>r\<in>dom (m(s := x)) - {s}. mset (owned f (m(s := x)) r)) =
   (\<Sum>r\<in>dom m - {s}. mset (owned f m r))"
  by (rule sum.cong) (auto simp: owned_def)

lemma held_by_upd:
  assumes "finite (dom m)"
  shows "held_by f (m(s \<mapsto> t)) + mset (owned f m s) = held_by f m + mset (f t)"
proof -
  have "held_by f (m(s \<mapsto> t)) = mset (f t) + (\<Sum>r\<in>dom m - {s}. mset (owned f m r))"
    using held_by_remove [of "m(s \<mapsto> t)" f s] held_by_others [of f m s "Some t"] assms by simp
  then show ?thesis using held_by_remove [OF assms, of f s] by (simp add: ac_simps)
qed

lemma held_by_del:
  assumes "finite (dom m)"
  shows "held_by f (m(s := None)) + mset (owned f m s) = held_by f m"
proof -
  have "held_by f (m(s := None)) = (\<Sum>r\<in>dom m - {s}. mset (owned f m r))"
    using held_by_remove [of "m(s := None)" f s] held_by_others [of f m s None] assms by simp
  then show ?thesis using held_by_remove [OF assms, of f s] by (simp add: ac_simps)
qed

lemma held_by_contains: "finite (dom m) \<Longrightarrow> mset (owned f m s) \<subseteq># held_by f m"
  using held_by_remove [of m f s] by simp

lemma held_by_two:
  assumes "finite (dom m)" and "s \<noteq> r"
  shows "mset (owned f m s) + mset (owned f m r) \<subseteq># held_by f m"
proof -
  have "held_by f m = mset (owned f m s) + held_by f (m(s := None))"
    using held_by_del [OF assms(1), of f s] by (simp add: add.commute)
  moreover have "mset (owned f m r) \<subseteq># held_by f (m(s := None))"
    using held_by_contains [of "m(s := None)" f r] assms by simp
  ultimately show ?thesis by simp
qed

lemma mset_exchange:
  fixes F :: "'a multiset"
  assumes "F + H = B" and "F' + T = F + R" and "H' + R = H + T"
  shows "F' + H' = B"
proof -
  have "(F' + H') + R = F' + (H + T)" using assms(3) by (simp add: add.assoc)
  also have "\<dots> = (F' + T) + H" by (simp add: ac_simps)
  also have "\<dots> = (F + H) + R" using assms(2) by (simp add: ac_simps)
  also have "\<dots> = B + R" using assms(1) by simp
  finally show ?thesis by simp
qed

lemma mset_release_keep:
  fixes T :: "'a multiset"
  assumes "K + D = S" and "S \<subseteq># T"
  shows "T - D = T - S + K"
proof -
  obtain R where "T = S + R" using assms(2) by (metis subset_mset.le_iff_add)
  then have t: "T = (K + R) + D" using assms(1) by (simp add: ac_simps)
  then have "T - D = K + R" by simp
  moreover have "T - S = R" using \<open>T = S + R\<close> by simp
  ultimately show ?thesis by (simp add: add.commute)
qed

end
