(* ===== verification/Block_Pool.thy ===== *)
theory Block_Pool
  imports Block_Source Holders Tensor
begin

text \<open>
  The file \<open>inference/runtime/gpu_block_pool.go\<close>: the paged KV cache whose blocks live on the GPU.
  The pool keeps one free list and one reference count table per layer; a sequence has one block table
  per layer and a copy of it on the device, refreshed when it is dirty.

  What the code does to the device is the sequence of calls it makes on the backend, so the model
  keeps the list of these calls. The \<open>n\<close>-th allocation returns the pointer \<open>gd_ptr n\<close>, a
  parameter of the device, as are the two optional interfaces that the code tests with a type assertion.
  A \<open>float32\<close> scale is its 32-bit pattern.
\<close>

type_synonym byte = "8 word"

datatype gpu_call =
    CAlloc int
  | CFree DevicePtr
  | CToDevice DevicePtr "byte list"
  | CReshape bool DevicePtr DevicePtr DevicePtr DevicePtr int int int int bool
  | CDecode bool DevicePtr DevicePtr DevicePtr DevicePtr int int int int int "32 word" int
  | CMultiquery DevicePtr DevicePtr DevicePtr DevicePtr DevicePtr int int int int int "32 word" int
  | CBatched DevicePtr DevicePtr "DevicePtr list" DevicePtr int int int int int int "32 word" "int list"
  | CCopy DevicePtr int DevicePtr int int
  | CSync

record GpuDevice =
  gd_ptr :: "nat \<Rightarrow> DevicePtr"
  gd_copier :: bool
  gd_multiquery :: bool
  gd_count :: nat
  gd_log :: "gpu_call list"

definition dev_call :: "gpu_call \<Rightarrow> GpuDevice \<Rightarrow> GpuDevice" where
  "dev_call c d = d\<lparr>gd_log := gd_log d @ [c]\<rparr>"

definition dev_alloc :: "int \<Rightarrow> GpuDevice \<Rightarrow> DevicePtr \<times> GpuDevice" where
  "dev_alloc n d = (gd_ptr d (gd_count d), dev_call (CAlloc n) (d\<lparr>gd_count := Suc (gd_count d)\<rparr>))"

record gpuSeqState =
  gs_blockTables :: "int list list"
  gs_seqLen :: int
  gs_btGPU :: "DevicePtr list"
  gs_btDirty :: "bool list"

record GPUBlockPool =
  gp_dev :: GpuDevice
  gp_numLayers :: int
  gp_numKVHeads :: int
  gp_headDim :: int
  gp_blockSize :: int
  gp_maxBlocks :: int
  gp_useFP16 :: bool
  gp_bytesPerElement :: int
  gp_pools :: "DevicePtr list"
  gp_freeLists :: "int list list"
  gp_refCounts :: "(int \<rightharpoonup> int) list"
  gp_seqs :: "int \<rightharpoonup> gpuSeqState"
  gp_ptBuf1 :: DevicePtr
  gp_offBuf1 :: DevicePtr

datatype pool_error =
    SeqNotFound int
  | NoFreeBlock int
  | NoBlocksForSeq int int
  | NoCopier
  | SourceTooShort int int int

section \<open>Bytes\<close>

text \<open>\<open>byte(uint32(v) >> 8k)\<close> for \<open>k\<close> from 0 to 3.\<close>

definition le_bytes :: "int \<Rightarrow> byte list" where
  "le_bytes v = (let u = word_of_int v :: 32 word in
     [ucast u, ucast (drop_bit 8 u), ucast (drop_bit 16 u), ucast (drop_bit 24 u)])"

definition gpuInt32ToBytes :: "int list \<Rightarrow> byte list" where
  "gpuInt32ToBytes xs = concat (map le_bytes xs)"

section \<open>Creation\<close>

fun alloc_pools :: "nat \<Rightarrow> int \<Rightarrow> GpuDevice \<Rightarrow> DevicePtr list \<times> GpuDevice" where
  "alloc_pools 0 n d = ([], d)"
| "alloc_pools (Suc k) n d =
     (let (p, d1) = dev_alloc n d; (ps, d2) = alloc_pools k n d1 in (p # ps, d2))"

definition NewGPUBlockPool ::
  "GpuDevice \<Rightarrow> int \<Rightarrow> int \<Rightarrow> int \<Rightarrow> int \<Rightarrow> int \<Rightarrow> bool \<Rightarrow> GPUBlockPool option" where
  "NewGPUBlockPool d numLayers numKVHeads headDim blockSize maxBlocks useFP16 =
     (if numLayers < 0 \<or> (0 < numLayers \<and> maxBlocks < 0) then None
      else
        let bytesPerElement = (if useFP16 then 2 else 4);
            elementsPerBlock = 2 * blockSize * numKVHeads * headDim;
            poolBytes = maxBlocks * elementsPerBlock * bytesPerElement;
            n = nat numLayers;
            (pools, d1) = alloc_pools n poolBytes d;
            (pt, d2) = dev_alloc 4 d1;
            (off, d3) = dev_alloc 4 d2
        in Some \<lparr>gp_dev = d3, gp_numLayers = numLayers, gp_numKVHeads = numKVHeads,
                 gp_headDim = headDim, gp_blockSize = blockSize, gp_maxBlocks = maxBlocks,
                 gp_useFP16 = useFP16, gp_bytesPerElement = bytesPerElement, gp_pools = pools,
                 gp_freeLists = replicate n (map (\<lambda>j. int32_of (int j)) [0..<nat maxBlocks]),
                 gp_refCounts = replicate n Map.empty, gp_seqs = Map.empty,
                 gp_ptBuf1 = pt, gp_offBuf1 = off\<rparr>)"

definition GPUBlockPool_CreateSequence :: "GPUBlockPool \<Rightarrow> int \<Rightarrow> GPUBlockPool" where
  "GPUBlockPool_CreateSequence g seqID =
     (let n = nat (gp_numLayers g) in
      g\<lparr>gp_seqs := (gp_seqs g)(seqID \<mapsto>
          \<lparr>gs_blockTables = replicate n [], gs_seqLen = 0, gs_btGPU = replicate n nil_ptr,
           gs_btDirty = replicate n False\<rparr>)\<rparr>)"

definition GPUBlockPool_HasSequence :: "GPUBlockPool \<Rightarrow> int \<Rightarrow> bool" where
  "GPUBlockPool_HasSequence g seqID = (gp_seqs g seqID \<noteq> None)"

definition gp_call :: "gpu_call \<Rightarrow> GPUBlockPool \<Rightarrow> GPUBlockPool" where
  "gp_call c g = g\<lparr>gp_dev := dev_call c (gp_dev g)\<rparr>"

definition gp_alloc :: "int \<Rightarrow> GPUBlockPool \<Rightarrow> DevicePtr \<times> GPUBlockPool" where
  "gp_alloc n g = (let (p, d) = dev_alloc n (gp_dev g) in (p, g\<lparr>gp_dev := d\<rparr>))"

section \<open>Blocks\<close>

definition allocBlock :: "GPUBlockPool \<Rightarrow> int \<Rightarrow> ((pool_error + int) \<times> GPUBlockPool) option" where
  "allocBlock g layer =
     do { fl \<leftarrow> idx (gp_freeLists g) layer;
          if len fl = 0 then Some (Inl (NoFreeBlock layer), g)
          else do {
            let blockID = last fl;
            frees \<leftarrow> upd (gp_freeLists g) layer (butlast fl);
            rcs \<leftarrow> idx (gp_refCounts g) layer;
            refs \<leftarrow> upd (gp_refCounts g) layer (rcs(blockID \<mapsto> 1));
            Some (Inr blockID, g\<lparr>gp_freeLists := frees, gp_refCounts := refs\<rparr>) } }"

definition releaseBlock :: "GPUBlockPool \<Rightarrow> int \<Rightarrow> int \<Rightarrow> GPUBlockPool option" where
  "releaseBlock g layer blockID =
     do { rcs \<leftarrow> idx (gp_refCounts g) layer;
          let rc = map_get 0 rcs blockID;
          if rc \<le> 1 then do {
            refs \<leftarrow> upd (gp_refCounts g) layer (rcs(blockID := None));
            fl \<leftarrow> idx (gp_freeLists g) layer;
            frees \<leftarrow> upd (gp_freeLists g) layer (fl @ [blockID]);
            Some (g\<lparr>gp_refCounts := refs, gp_freeLists := frees\<rparr>) }
          else do {
            refs \<leftarrow> upd (gp_refCounts g) layer (rcs(blockID \<mapsto> rc - 1));
            Some (g\<lparr>gp_refCounts := refs\<rparr>) } }"

definition release_all :: "int \<Rightarrow> int list \<Rightarrow> GPUBlockPool \<Rightarrow> GPUBlockPool option" where
  "release_all layer bs g = foldM (\<lambda>b g. releaseBlock g layer b) bs g"

definition delete_layer :: "gpuSeqState \<Rightarrow> nat \<Rightarrow> GPUBlockPool \<Rightarrow> GPUBlockPool option" where
  "delete_layer seq layer g =
     do { bt \<leftarrow> idx (gs_blockTables seq) (int layer);
          g1 \<leftarrow> release_all (int layer) bt g;
          p \<leftarrow> idx (gs_btGPU seq) (int layer);
          Some (if DevicePtr_IsNil p then g1 else gp_call (CFree p) g1) }"

definition GPUBlockPool_DeleteSequence :: "GPUBlockPool \<Rightarrow> int \<Rightarrow> GPUBlockPool option" where
  "GPUBlockPool_DeleteSequence g seqID =
     (case gp_seqs g seqID of
        None \<Rightarrow> Some g
      | Some seq \<Rightarrow>
          do { g1 \<leftarrow> foldM (delete_layer seq) [0..<nat (gp_numLayers g)] g;
               Some (g1\<lparr>gp_seqs := (gp_seqs g1)(seqID := None)\<rparr>) })"

text \<open>One layer of \<open>TruncateSequence\<close>; the sequence is threaded beside the pool it belongs to.\<close>

definition trunc_layer ::
  "int \<Rightarrow> nat \<Rightarrow> GPUBlockPool \<times> gpuSeqState \<Rightarrow> (GPUBlockPool \<times> gpuSeqState) option" where
  "trunc_layer newNumBlocks layer gs =
     do { let (g, seq) = gs;
          bt \<leftarrow> idx (gs_blockTables seq) (int layer);
          if newNumBlocks < len bt then do {
            rest \<leftarrow> slice bt newNumBlocks (len bt);
            g1 \<leftarrow> release_all (int layer) rest g;
            kept \<leftarrow> slice bt 0 newNumBlocks;
            tables \<leftarrow> upd (gs_blockTables seq) (int layer) kept;
            dirty \<leftarrow> upd (gs_btDirty seq) (int layer) True;
            Some (g1, seq\<lparr>gs_blockTables := tables, gs_btDirty := dirty\<rparr>) }
          else Some (g, seq) }"

definition GPUBlockPool_TruncateSequence :: "GPUBlockPool \<Rightarrow> int \<Rightarrow> int \<Rightarrow> GPUBlockPool option" where
  "GPUBlockPool_TruncateSequence g seqID newSeqLen =
     (case gp_seqs g seqID of
        None \<Rightarrow> Some g
      | Some seq \<Rightarrow>
          if newSeqLen \<ge> gs_seqLen seq then Some g
          else do {
            newNumBlocks \<leftarrow> (if newSeqLen > 0
               then map_option (\<lambda>q. q + 1) (go_div (newSeqLen - 1) (gp_blockSize g)) else Some 0);
            (g1, seq1) \<leftarrow> foldM (trunc_layer newNumBlocks) [0..<nat (gp_numLayers g)] (g, seq);
            Some (g1\<lparr>gp_seqs := (gp_seqs g1)(seqID \<mapsto> seq1\<lparr>gs_seqLen := newSeqLen\<rparr>)\<rparr>) })"

section \<open>Storing\<close>

text \<open>
  The loop that allocates missing blocks; the fuel is their number when it starts. The blocks it has
  appended stay in the table when an allocation fails.
\<close>

fun grow_table ::
  "nat \<Rightarrow> GPUBlockPool \<Rightarrow> gpuSeqState \<Rightarrow> int \<Rightarrow> int
   \<Rightarrow> (pool_error option \<times> GPUBlockPool \<times> gpuSeqState) option" where
  "grow_table fuel g seq layer lastBlock =
     do { bt \<leftarrow> idx (gs_blockTables seq) layer;
          if len bt \<le> lastBlock then
            (case fuel of
               0 \<Rightarrow> None
             | Suc fuel' \<Rightarrow>
                 do { (r, g1) \<leftarrow> allocBlock g layer;
                      (case r of
                         Inl e \<Rightarrow> Some (Some e, g1, seq)
                       | Inr blockID \<Rightarrow>
                           do { tables \<leftarrow> upd (gs_blockTables seq) layer (bt @ [blockID]);
                                dirty \<leftarrow> upd (gs_btDirty seq) layer True;
                                grow_table fuel' g1
                                  (seq\<lparr>gs_blockTables := tables, gs_btDirty := dirty\<rparr>)
                                  layer lastBlock }) })
          else Some (None, g, seq) }"

declare grow_table.simps [simp del]

definition reshape ::
  "GPUBlockPool \<Rightarrow> DevicePtr \<Rightarrow> DevicePtr \<Rightarrow> bool \<Rightarrow> gpu_call" where
  "reshape g pool src isV =
     CReshape (gp_useFP16 g) src pool (gp_ptBuf1 g) (gp_offBuf1 g) 1 (gp_numKVHeads g)
       (gp_headDim g) (gp_blockSize g) isV"

text \<open>The two uploads that tell the scatter kernel the physical block and the offset of a position.\<close>

definition upload_slot ::
  "gpuSeqState \<Rightarrow> int \<Rightarrow> int \<Rightarrow> GPUBlockPool \<Rightarrow> GPUBlockPool option" where
  "upload_slot seq layer pos g =
     do { logicalBlock \<leftarrow> go_div pos (gp_blockSize g);
          bt \<leftarrow> idx (gs_blockTables seq) layer;
          physBlock \<leftarrow> idx bt logicalBlock;
          off \<leftarrow> go_mod pos (gp_blockSize g);
          Some (gp_call (CToDevice (gp_offBuf1 g) (le_bytes (int32_of off)))
                 (gp_call (CToDevice (gp_ptBuf1 g) (le_bytes physBlock)) g)) }"

definition scatter_one ::
  "gpuSeqState \<Rightarrow> int \<Rightarrow> int \<Rightarrow> DevicePtr \<Rightarrow> DevicePtr \<Rightarrow> GPUBlockPool \<Rightarrow> GPUBlockPool option" where
  "scatter_one seq layer pos kPtr vPtr g =
     do { g1 \<leftarrow> upload_slot seq layer pos g;
          pool \<leftarrow> idx (gp_pools g) layer;
          Some (gp_call (reshape g pool vPtr True) (gp_call (reshape g pool kPtr False) g1)) }"

definition scatter_token ::
  "gpuSeqState \<Rightarrow> int \<Rightarrow> int \<Rightarrow> DevicePtr \<Rightarrow> DevicePtr \<Rightarrow> DevicePtr \<Rightarrow> int \<Rightarrow> nat
   \<Rightarrow> GPUBlockPool \<Rightarrow> GPUBlockPool option" where
  "scatter_token seq layer startPos kPtr vPtr tokenBuf kvBytes i g =
     do { g1 \<leftarrow> upload_slot seq layer (startPos + int i) g;
          pool \<leftarrow> idx (gp_pools g) layer;
          let copy = (\<lambda>src g. if gd_copier (gp_dev g)
                then gp_call (CCopy src (int i * kvBytes) tokenBuf 0 kvBytes) g else g);
          let g2 = gp_call (reshape g pool tokenBuf False) (copy kPtr g1);
          Some (gp_call (reshape g pool tokenBuf True) (copy vPtr g2)) }"

definition GPUBlockPool_StoreKV ::
  "GPUBlockPool \<Rightarrow> int \<Rightarrow> int \<Rightarrow> int \<Rightarrow> DevicePtr \<Rightarrow> DevicePtr \<Rightarrow> int
   \<Rightarrow> (pool_error option \<times> GPUBlockPool) option" where
  "GPUBlockPool_StoreKV g layerIdx seqID startPos kPtr vPtr seqLen =
     (case gp_seqs g seqID of
        None \<Rightarrow> Some (Some (SeqNotFound seqID), g)
      | Some seq \<Rightarrow>
          do { let endPos = startPos + seqLen;
               lastBlock \<leftarrow> go_div (endPos - 1) (gp_blockSize g);
               bt \<leftarrow> idx (gs_blockTables seq) layerIdx;
               (r, g1, seq1) \<leftarrow> grow_table (nat (lastBlock + 1 - len bt)) g seq layerIdx lastBlock;
               (case r of
                  Some e \<Rightarrow> Some (Some e, g1\<lparr>gp_seqs := (gp_seqs g1)(seqID \<mapsto> seq1)\<rparr>)
                | None \<Rightarrow>
                    do { g2 \<leftarrow> (if seqLen = 1 then scatter_one seq1 layerIdx startPos kPtr vPtr g1
                           else do {
                             let kvBytes = gp_numKVHeads g * gp_headDim g * 4;
                             let (tokenBuf, g2) = gp_alloc kvBytes g1;
                             g3 \<leftarrow> foldM (scatter_token seq1 layerIdx startPos kPtr vPtr tokenBuf kvBytes)
                                     [0..<nat seqLen] g2;
                             Some (gp_call (CFree tokenBuf) g3) });
                         let seq2 = (if endPos > gs_seqLen seq1 then seq1\<lparr>gs_seqLen := endPos\<rparr>
                                     else seq1);
                         Some (None, g2\<lparr>gp_seqs := (gp_seqs g2)(seqID \<mapsto> seq2)\<rparr>) }) })"

section \<open>Attention\<close>

text \<open>
  Upload the block table of a layer when it changed since the last upload. The buffer is allocated
  for \<open>numBlocks\<close> entries, and the whole table is sent.
\<close>

definition sync_table ::
  "int \<Rightarrow> int list \<Rightarrow> int \<Rightarrow> GPUBlockPool \<times> gpuSeqState \<Rightarrow> (GPUBlockPool \<times> gpuSeqState) option" where
  "sync_table layer bt numBlocks gs =
     do { let (g, seq) = gs;
          dirty \<leftarrow> idx (gs_btDirty seq) layer;
          p \<leftarrow> idx (gs_btGPU seq) layer;
          if dirty \<or> DevicePtr_IsNil p then do {
            let g1 = (if DevicePtr_IsNil p then g else gp_call (CFree p) g);
            let (q, g2) = gp_alloc (numBlocks * 4) g1;
            bufs \<leftarrow> upd (gs_btGPU seq) layer q;
            let g3 = gp_call (CToDevice q (gpuInt32ToBytes bt)) g2;
            dirties \<leftarrow> upd (gs_btDirty seq) layer False;
            Some (g3, seq\<lparr>gs_btGPU := bufs, gs_btDirty := dirties\<rparr>) }
          else Some (g, seq) }"

definition GPUBlockPool_AttentionWithKVLen ::
  "GPUBlockPool \<Rightarrow> int \<Rightarrow> int \<Rightarrow> DevicePtr \<Rightarrow> DevicePtr \<Rightarrow> int \<Rightarrow> int \<Rightarrow> 32 word \<Rightarrow> int
   \<Rightarrow> (pool_error option \<times> GPUBlockPool) option" where
  "GPUBlockPool_AttentionWithKVLen g layerIdx seqID qPtr outPtr numQHeads headDim scale kvLen =
     (case gp_seqs g seqID of
        None \<Rightarrow> Some (Some (SeqNotFound seqID), g)
      | Some seq \<Rightarrow>
          do { bt \<leftarrow> idx (gs_blockTables seq) layerIdx;
               if len bt = 0 then Some (Some (NoBlocksForSeq seqID layerIdx), g)
               else do {
                 let effectiveLen = (if kvLen > 0 then kvLen else gs_seqLen seq);
                 effectiveBlocks \<leftarrow> go_div (effectiveLen + gp_blockSize g - 1) (gp_blockSize g);
                 let numBlocks = (if effectiveBlocks < len bt then effectiveBlocks else len bt);
                 let tokensInLastBlock = effectiveLen - (numBlocks - 1) * gp_blockSize g;
                 (g1, seq1) \<leftarrow> sync_table layerIdx bt numBlocks (g, seq);
                 btGPU \<leftarrow> idx (gs_btGPU seq1) layerIdx;
                 pool \<leftarrow> idx (gp_pools g1) layerIdx;
                 Some (None, gp_call
                   (CDecode (gp_useFP16 g) qPtr pool btGPU outPtr numBlocks (gp_blockSize g)
                      numQHeads (gp_numKVHeads g) headDim scale tokensInLastBlock)
                   (g1\<lparr>gp_seqs := (gp_seqs g1)(seqID \<mapsto> seq1)\<rparr>)) } })"

definition GPUBlockPool_Attention ::
  "GPUBlockPool \<Rightarrow> int \<Rightarrow> int \<Rightarrow> DevicePtr \<Rightarrow> DevicePtr \<Rightarrow> int \<Rightarrow> int \<Rightarrow> 32 word
   \<Rightarrow> (pool_error option \<times> GPUBlockPool) option" where
  "GPUBlockPool_Attention g layerIdx seqID qPtr outPtr numQHeads headDim scale =
     GPUBlockPool_AttentionWithKVLen g layerIdx seqID qPtr outPtr numQHeads headDim scale 0"

text \<open>\<open>for i, l := range kvLens { kvLens32[i] = int32(l) }\<close>\<close>

definition copy_lens :: "int list \<Rightarrow> int \<Rightarrow> int list option" where
  "copy_lens kvLens n =
     do { z \<leftarrow> make_slice n 0;
          foldM (\<lambda>(i, l) xs. upd xs (int i) (int32_of l)) (List.enumerate 0 kvLens) z }"

text \<open>One query of the fallback path: a decode over the blocks its own length needs.\<close>

definition decode_query ::
  "int \<Rightarrow> DevicePtr \<Rightarrow> DevicePtr \<Rightarrow> DevicePtr \<Rightarrow> int \<Rightarrow> int \<Rightarrow> 32 word \<Rightarrow> int list \<Rightarrow> nat
   \<Rightarrow> GPUBlockPool \<Rightarrow> GPUBlockPool option" where
  "decode_query layerIdx qPtr outPtr btGPU numQHeads headDim scale kvLens i g =
     do { let qStride = numQHeads * headDim;
          let off = word_of_int (int i * qStride * 4);
          let tokenQ = DevicePtrOffset qPtr off;
          let tokenOut = DevicePtrOffset outPtr off;
          kvLen \<leftarrow> idx kvLens (int i);
          q \<leftarrow> go_div (kvLen - 1) (gp_blockSize g);
          let tokensInLastBlock = kvLen - q * gp_blockSize g;
          nBlocks \<leftarrow> go_div (kvLen + gp_blockSize g - 1) (gp_blockSize g);
          pool \<leftarrow> idx (gp_pools g) layerIdx;
          Some (gp_call (CDecode (gp_useFP16 g) tokenQ pool btGPU tokenOut nBlocks (gp_blockSize g)
                  numQHeads (gp_numKVHeads g) (gp_headDim g) scale tokensInLastBlock) g) }"

definition GPUBlockPool_AttentionMultiquery ::
  "GPUBlockPool \<Rightarrow> int \<Rightarrow> int \<Rightarrow> DevicePtr \<Rightarrow> DevicePtr \<Rightarrow> int \<Rightarrow> int \<Rightarrow> 32 word \<Rightarrow> int \<Rightarrow> int list
   \<Rightarrow> (pool_error option \<times> GPUBlockPool) option" where
  "GPUBlockPool_AttentionMultiquery g layerIdx seqID qPtr outPtr numQHeads headDim scale querySeqLen
     kvLens =
     (case gp_seqs g seqID of
        None \<Rightarrow> Some (Some (SeqNotFound seqID), g)
      | Some seq \<Rightarrow>
          do { bt \<leftarrow> idx (gs_blockTables seq) layerIdx;
               if len bt = 0 then Some (Some (NoBlocksForSeq seqID layerIdx), g)
               else do {
                 (g1, seq1) \<leftarrow> sync_table layerIdx bt (len bt) (g, seq);
                 btGPU \<leftarrow> idx (gs_btGPU seq1) layerIdx;
                 let g2 = g1\<lparr>gp_seqs := (gp_seqs g1)(seqID \<mapsto> seq1)\<rparr>;
                 kvLens32 \<leftarrow> copy_lens kvLens querySeqLen;
                 let (kvLensBuf, g3) = gp_alloc (querySeqLen * 4) g2;
                 let g4 = gp_call (CToDevice kvLensBuf (gpuInt32ToBytes kvLens32)) g3;
                 pool \<leftarrow> idx (gp_pools g4) layerIdx;
                 g5 \<leftarrow> (if gd_multiquery (gp_dev g4)
                        then Some (gp_call (CMultiquery qPtr pool btGPU outPtr kvLensBuf (len bt)
                               (gp_blockSize g) numQHeads (gp_numKVHeads g) (gp_headDim g) scale
                               querySeqLen) g4)
                        else foldM (decode_query layerIdx qPtr outPtr btGPU numQHeads headDim scale
                               kvLens) [0..<nat querySeqLen] g4);
                 Some (None, gp_call (CFree kvLensBuf) (gp_call CSync g5)) } })"

text \<open>The loop of \<open>AttentionBatched\<close> over the sequences, with the accumulated arguments of the call.\<close>

fun batch_tables ::
  "int \<Rightarrow> int list \<Rightarrow> GPUBlockPool \<Rightarrow> DevicePtr list \<Rightarrow> int list \<Rightarrow> int
   \<Rightarrow> ((pool_error + DevicePtr list \<times> int list \<times> int) \<times> GPUBlockPool) option" where
  "batch_tables layerIdx [] g tables lens maxBlocks = Some (Inr (tables, lens, maxBlocks), g)"
| "batch_tables layerIdx (seqID # ids) g tables lens maxBlocks =
     (case gp_seqs g seqID of
        None \<Rightarrow> Some (Inl (SeqNotFound seqID), g)
      | Some seq \<Rightarrow>
          do { bt \<leftarrow> idx (gs_blockTables seq) layerIdx;
               if len bt = 0 then Some (Inl (NoBlocksForSeq seqID layerIdx), g)
               else do {
                 (g1, seq1) \<leftarrow> sync_table layerIdx bt (len bt) (g, seq);
                 btGPU \<leftarrow> idx (gs_btGPU seq1) layerIdx;
                 batch_tables layerIdx ids (g1\<lparr>gp_seqs := (gp_seqs g1)(seqID \<mapsto> seq1)\<rparr>)
                   (tables @ [btGPU]) (lens @ [gs_seqLen seq1])
                   (if len bt > maxBlocks then len bt else maxBlocks) } })"

definition GPUBlockPool_AttentionBatched ::
  "GPUBlockPool \<Rightarrow> int \<Rightarrow> int list \<Rightarrow> DevicePtr \<Rightarrow> DevicePtr \<Rightarrow> int \<Rightarrow> int \<Rightarrow> 32 word
   \<Rightarrow> (pool_error option \<times> GPUBlockPool) option" where
  "GPUBlockPool_AttentionBatched g layerIdx seqIDs qPtr outPtr numQHeads headDim scale =
     do { (r, g1) \<leftarrow> batch_tables layerIdx seqIDs g [] [] 0;
          (case r of
             Inl e \<Rightarrow> Some (Some e, g1)
           | Inr (tables, lens, maxBlocks) \<Rightarrow>
               do { pool \<leftarrow> idx (gp_pools g1) layerIdx;
                    Some (None, gp_call (CBatched qPtr pool tables outPtr (len seqIDs) maxBlocks
                      (gp_blockSize g1) numQHeads (gp_numKVHeads g1) headDim scale lens) g1) }) }"

section \<open>Gathering and sharing\<close>

text \<open>
  The copy loop of \<open>GatherKV\<close>, over the rest of the block table: the source offset, the destination
  offset and the number of bytes of each copy, in order; a K and a V copy of the same shape are issued
  for each.
\<close>

fun gather_copies ::
  "GPUBlockPool \<Rightarrow> int \<Rightarrow> int list \<Rightarrow> int \<Rightarrow> (int \<times> int \<times> int) list" where
  "gather_copies g logicalBlock [] remaining = []"
| "gather_copies g logicalBlock (physBlock # bt) remaining =
     (if remaining > 0 then
        let kvElems = gp_numKVHeads g * gp_headDim g;
            blockKVBytes = gp_blockSize g * kvElems * gp_bytesPerElement g;
            poolBlockBytes = 2 * blockKVBytes;
            tokensInBlock = (if gp_blockSize g > remaining then remaining else gp_blockSize g);
            copyBytes = tokensInBlock * kvElems * gp_bytesPerElement g;
            srcBase = physBlock * poolBlockBytes;
            dstOffset = logicalBlock * gp_blockSize g * kvElems * gp_bytesPerElement g
        in (srcBase, dstOffset, copyBytes) #
           gather_copies g (logicalBlock + 1) bt (remaining - tokensInBlock)
      else [])"

definition GPUBlockPool_GatherKV ::
  "GPUBlockPool \<Rightarrow> int \<Rightarrow> int \<Rightarrow> int \<Rightarrow> ((pool_error + DevicePtr \<times> DevicePtr) \<times> GPUBlockPool) option" where
  "GPUBlockPool_GatherKV g layerIdx seqID totalTokens =
     (case gp_seqs g seqID of
        None \<Rightarrow> Some (Inl (SeqNotFound seqID), g)
      | Some seq \<Rightarrow>
          if \<not> gd_copier (gp_dev g) then Some (Inl NoCopier, g)
          else do {
            let kvElems = gp_numKVHeads g * gp_headDim g;
            let blockKVBytes = gp_blockSize g * kvElems * gp_bytesPerElement g;
            let outBytes = totalTokens * kvElems * gp_bytesPerElement g;
            let (kOut, g1) = gp_alloc outBytes g;
            let (vOut, g2) = gp_alloc outBytes g1;
            bt \<leftarrow> idx (gs_blockTables seq) layerIdx;
            pool \<leftarrow> idx (gp_pools g) layerIdx;
            let g3 = fold (\<lambda>(src, dst, n) g. gp_call (CCopy pool (src + blockKVBytes) vOut dst n)
                                               (gp_call (CCopy pool src kOut dst n) g))
                       (gather_copies g 0 bt totalTokens) g2;
            Some (Inr (kOut, vOut), g3) })"

definition share_one :: "int \<Rightarrow> int \<Rightarrow> int \<Rightarrow> int \<Rightarrow> GPUBlockPool \<Rightarrow> GPUBlockPool option" where
  "share_one srcSeqID dstSeqID layer i g =
     do { src \<leftarrow> gp_seqs g srcSeqID;
          srcTable \<leftarrow> idx (gs_blockTables src) layer;
          blockID \<leftarrow> idx srcTable i;
          dst \<leftarrow> gp_seqs g dstSeqID;
          dstTable \<leftarrow> idx (gs_blockTables dst) layer;
          tables \<leftarrow> upd (gs_blockTables dst) layer (dstTable @ [blockID]);
          rcs \<leftarrow> idx (gp_refCounts g) layer;
          refs \<leftarrow> upd (gp_refCounts g) layer (rcs(blockID \<mapsto> map_get 0 rcs blockID + 1));
          Some (g\<lparr>gp_seqs := (gp_seqs g)(dstSeqID \<mapsto> dst\<lparr>gs_blockTables := tables\<rparr>),
                  gp_refCounts := refs\<rparr>) }"

fun share_layers ::
  "int \<Rightarrow> int \<Rightarrow> int \<Rightarrow> nat list \<Rightarrow> GPUBlockPool \<Rightarrow> (pool_error option \<times> GPUBlockPool) option" where
  "share_layers srcSeqID dstSeqID numBlocks [] g = Some (None, g)"
| "share_layers srcSeqID dstSeqID numBlocks (layer # layers) g =
     do { src \<leftarrow> gp_seqs g srcSeqID;
          srcTable \<leftarrow> idx (gs_blockTables src) (int layer);
          if numBlocks > len srcTable
          then Some (Some (SourceTooShort srcSeqID (int layer) numBlocks), g)
          else do {
            g1 \<leftarrow> foldM (\<lambda>i. share_one srcSeqID dstSeqID (int layer) (int i)) [0..<nat numBlocks] g;
            dst \<leftarrow> gp_seqs g1 dstSeqID;
            dirty \<leftarrow> upd (gs_btDirty dst) (int layer) True;
            share_layers srcSeqID dstSeqID numBlocks layers
              (g1\<lparr>gp_seqs := (gp_seqs g1)(dstSeqID \<mapsto> dst\<lparr>gs_btDirty := dirty\<rparr>)\<rparr>) } }"

definition GPUBlockPool_ShareBlocks ::
  "GPUBlockPool \<Rightarrow> int \<Rightarrow> int \<Rightarrow> int \<Rightarrow> (pool_error option \<times> GPUBlockPool) option" where
  "GPUBlockPool_ShareBlocks g srcSeqID dstSeqID numTokens =
     (case gp_seqs g srcSeqID of
        None \<Rightarrow> Some (Some (SeqNotFound srcSeqID), g)
      | Some _ \<Rightarrow>
          (case gp_seqs g dstSeqID of
             None \<Rightarrow> Some (Some (SeqNotFound dstSeqID), g)
           | Some _ \<Rightarrow>
               do { numBlocks \<leftarrow> go_div (numTokens + gp_blockSize g - 1) (gp_blockSize g);
                    (r, g1) \<leftarrow> share_layers srcSeqID dstSeqID numBlocks [0..<nat (gp_numLayers g)] g;
                    (case r of
                       Some e \<Rightarrow> Some (Some e, g1)
                     | None \<Rightarrow>
                         do { dst \<leftarrow> gp_seqs g1 dstSeqID;
                              Some (None, if numTokens > gs_seqLen dst
                                then g1\<lparr>gp_seqs := (gp_seqs g1)
                                          (dstSeqID \<mapsto> dst\<lparr>gs_seqLen := numTokens\<rparr>)\<rparr>
                                else g1) }) }))"

text \<open>
  \<open>BlockStats\<close>: the total, the free and the shared blocks. The code ranges over the keys of the count
  table; they are block ids of the pool (\<open>gp_ok\<close>), so the model ranges over the ids.
\<close>

definition layer_shared :: "int \<Rightarrow> (int \<rightharpoonup> int) \<Rightarrow> int" where
  "layer_shared maxBlocks rcs =
     len (filter (\<lambda>b. map_get 0 rcs (int b) > 1) [0..<nat maxBlocks])"

definition GPUBlockPool_BlockStats :: "GPUBlockPool \<Rightarrow> int \<times> int \<times> int" where
  "GPUBlockPool_BlockStats g =
     (gp_maxBlocks g * gp_numLayers g,
      sum_list (map len (gp_freeLists g)),
      sum_list (map (layer_shared (gp_maxBlocks g)) (gp_refCounts g)))"

end
