(* ===== verification/Block_Pool_Inv.thy ===== *)
theory Block_Pool_Inv
  imports Block_Pool
begin

text \<open>
  Reference counting in the GPU block pool. Per layer, the count of a block is the number of table
  entries of the live sequences that name it, and the free list holds exactly the blocks that no table
  names. Every operation on sequences keeps this, blocks shared between sequences included.
\<close>

section \<open>One layer\<close>

definition layer_ok :: "int \<Rightarrow> int list \<Rightarrow> (int \<rightharpoonup> int) \<Rightarrow> int multiset \<Rightarrow> bool" where
  "layer_ok M fl rc H \<longleftrightarrow> distinct fl \<and>
     (\<forall>b. b \<in> set fl \<longleftrightarrow> 0 \<le> b \<and> b < M \<and> b \<notin># H) \<and>
     (\<forall>b \<in># H. 0 \<le> b \<and> b < M) \<and>
     (\<forall>b. rc b = (if b \<in># H then Some (int (count H b)) else None))"

lemma layer_ok_empty: "layer_ok M (map int [0..<nat M]) Map.empty {#}"
proof -
  have "b \<in> set (map int [0..<nat M]) \<longleftrightarrow> 0 \<le> b \<and> b < M" for b
    by (auto simp: image_iff intro: bexI [of _ "nat b"])
  then show ?thesis by (simp add: layer_ok_def distinct_map)
qed

lemma layer_ok_alloc:
  assumes "layer_ok M fl rc H" and "fl \<noteq> []"
  shows "layer_ok M (butlast fl) (rc(last fl \<mapsto> 1)) (add_mset (last fl) H)"
proof -
  have l: "last fl \<in> set fl" using assms(2) by simp
  then have nin: "last fl \<notin># H" "0 \<le> last fl" "last fl < M"
    using assms(1) by (auto simp: layer_ok_def)
  have "distinct (butlast fl @ [last fl])" using assms by (simp add: layer_ok_def)
  then have d: "distinct (butlast fl)" "last fl \<notin> set (butlast fl)" by simp_all
  have s: "set fl = insert (last fl) (set (butlast fl))"
    using assms(2) by (metis append_butlast_last_id list.simps(15) rotate1.simps(2) set_rotate1)
  have "b \<in> set (butlast fl) \<longleftrightarrow> 0 \<le> b \<and> b < M \<and> b \<notin># add_mset (last fl) H" for b
    using assms(1) s d(2) by (auto simp: layer_ok_def)
  then show ?thesis
    using assms(1) nin d(1) by (auto simp: layer_ok_def not_in_iff)
qed

lemma layer_ok_share:
  assumes "layer_ok M fl rc H" and "b \<in># H"
  shows "layer_ok M fl (rc(b \<mapsto> map_get 0 rc b + 1)) (add_mset b H)"
  using assms by (auto simp: layer_ok_def map_get_def)

lemma layer_ok_release:
  assumes ok: "layer_ok M fl rc H" and b: "b \<in># H"
  shows "if map_get 0 rc b \<le> 1 then layer_ok M (fl @ [b]) (rc(b := None)) (H - {#b#})
    else layer_ok M fl (rc(b \<mapsto> map_get 0 rc b - 1)) (H - {#b#})"
proof -
  have rc: "map_get 0 rc b = int (count H b)" using ok b by (simp add: layer_ok_def map_get_def)
  have c: "0 < count H b" using b by simp
  show ?thesis
  proof (cases "count H b = 1")
    case True
    have "x \<in># H - {#b#} \<longleftrightarrow> x \<in># H \<and> x \<noteq> b" for x
      using True by (metis count_greater_zero_iff count_diff count_single diff_self_eq_0 diff_zero
          less_numeral_extra(3))
    then show ?thesis using ok b True rc by (auto simp: layer_ok_def)
  next
    case False
    then have c2: "2 \<le> count H b" using c by linarith
    have "x \<in># H - {#b#} \<longleftrightarrow> x \<in># H" for x
    proof (cases "x = b")
      case True
      have "0 < count (H - {#b#}) b" using c2 by simp
      then show ?thesis using b True by (metis count_greater_zero_iff)
    next
      case False
      then show ?thesis by (metis count_diff count_greater_zero_iff count_single diff_zero)
    qed
    then show ?thesis using ok b c2 rc by (auto simp: layer_ok_def of_nat_diff)
  qed
qed

lemma layer_ok_stats:
  assumes ok: "layer_ok M fl rc H"
  shows "length fl + card (set_mset H) = nat M"
proof -
  have e: "set fl \<union> set_mset H = {0..<M}" and d: "set fl \<inter> set_mset H = {}"
    using ok by (auto simp: layer_ok_def)
  have "card (set fl \<union> set_mset H) = card (set fl) + card (set_mset H)"
    using d by (intro card_Un_disjoint) auto
  moreover have "card (set fl) = length fl" using ok by (simp add: layer_ok_def distinct_card)
  ultimately show ?thesis using e by simp
qed

section \<open>The whole pool\<close>

definition tables_at :: "nat \<Rightarrow> (int \<rightharpoonup> gpuSeqState) \<Rightarrow> int multiset" where
  "tables_at l m = held_by (\<lambda>s. gs_blockTables s ! l) m"

abbreviation layers :: "GPUBlockPool \<Rightarrow> nat" where
  "layers g \<equiv> nat (gp_numLayers g)"

definition seq_ok :: "nat \<Rightarrow> gpuSeqState \<Rightarrow> bool" where
  "seq_ok n s \<longleftrightarrow> length (gs_blockTables s) = n \<and> length (gs_btGPU s) = n \<and> length (gs_btDirty s) = n"

definition shape_ok :: "GPUBlockPool \<Rightarrow> bool" where
  "shape_ok g \<longleftrightarrow> 0 < gp_blockSize g \<and> length (gp_freeLists g) = layers g \<and>
     length (gp_refCounts g) = layers g \<and> length (gp_pools g) = layers g"

text \<open>
  \<open>counts_ok g X\<close>: on layer \<open>l\<close> the counts are those of the multiset \<open>X l\<close>. During an operation
  \<open>X\<close> is the tables of the map plus or minus what is in transit.
\<close>

definition counts_ok :: "GPUBlockPool \<Rightarrow> (nat \<Rightarrow> int multiset) \<Rightarrow> bool" where
  "counts_ok g X \<longleftrightarrow> shape_ok g \<and>
     (\<forall>l < layers g. layer_ok (gp_maxBlocks g) (gp_freeLists g ! l) (gp_refCounts g ! l) (X l))"

definition seqs_ok :: "GPUBlockPool \<Rightarrow> bool" where
  "seqs_ok g \<longleftrightarrow> finite (dom (gp_seqs g)) \<and> (\<forall>s \<in> ran (gp_seqs g). seq_ok (layers g) s)"

definition gp_ok :: "GPUBlockPool \<Rightarrow> bool" where
  "gp_ok g \<longleftrightarrow> seqs_ok g \<and> counts_ok g (\<lambda>l. tables_at l (gp_seqs g))"

text \<open>What an operation on the blocks leaves alone.\<close>

definition same_shape :: "GPUBlockPool \<Rightarrow> GPUBlockPool \<Rightarrow> bool" where
  "same_shape g g' \<longleftrightarrow> gp_seqs g' = gp_seqs g \<and> gp_numLayers g' = gp_numLayers g \<and>
     gp_blockSize g' = gp_blockSize g \<and> gp_maxBlocks g' = gp_maxBlocks g \<and>
     gp_pools g' = gp_pools g \<and> gp_ptBuf1 g' = gp_ptBuf1 g \<and> gp_offBuf1 g' = gp_offBuf1 g \<and>
     gp_numKVHeads g' = gp_numKVHeads g \<and> gp_headDim g' = gp_headDim g \<and>
     gp_useFP16 g' = gp_useFP16 g"

lemma same_shape_refl [simp]: "same_shape g g"
  by (simp add: same_shape_def)

lemma same_shape_trans: "same_shape g h \<Longrightarrow> same_shape h k \<Longrightarrow> same_shape g k"
  by (simp add: same_shape_def)

lemma gp_call_simps [simp]:
  "gp_freeLists (gp_call c g) = gp_freeLists g" "gp_refCounts (gp_call c g) = gp_refCounts g"
  "gp_seqs (gp_call c g) = gp_seqs g" "gp_numLayers (gp_call c g) = gp_numLayers g"
  "gp_blockSize (gp_call c g) = gp_blockSize g" "gp_maxBlocks (gp_call c g) = gp_maxBlocks g"
  "gp_pools (gp_call c g) = gp_pools g" "gp_ptBuf1 (gp_call c g) = gp_ptBuf1 g"
  "gp_offBuf1 (gp_call c g) = gp_offBuf1 g" "gp_numKVHeads (gp_call c g) = gp_numKVHeads g"
  "gp_headDim (gp_call c g) = gp_headDim g" "gp_useFP16 (gp_call c g) = gp_useFP16 g"
  "gp_dev (gp_call c g) = dev_call c (gp_dev g)" "same_shape g (gp_call c g)"
  by (simp_all add: gp_call_def same_shape_def)

lemma shape_ok_call [simp]: "shape_ok (gp_call c g) = shape_ok g"
  by (simp add: shape_ok_def)

lemma counts_ok_call [simp]: "counts_ok (gp_call c g) X = counts_ok g X"
  by (simp add: counts_ok_def)

lemma counts_ok_seqs [simp]: "counts_ok (g\<lparr>gp_seqs := m\<rparr>) X = counts_ok g X"
  by (simp add: counts_ok_def shape_ok_def)

lemma gp_alloc_simps:
  assumes "gp_alloc n g = (p, g')"
  shows "same_shape g g'" and "counts_ok g' X = counts_ok g X"
  using assms by (auto simp: gp_alloc_def dev_alloc_def same_shape_def counts_ok_def shape_ok_def)

text \<open>Allocation and release, as steps on the multiset of the layer.\<close>

lemma allocBlock_ok:
  assumes ok: "counts_ok g X" and l: "l < layers g"
  shows "(gp_freeLists g ! l = [] \<and> allocBlock g (int l) = Some (Inl (NoFreeBlock (int l)), g)) \<or>
    (\<exists>b g'. gp_freeLists g ! l \<noteq> [] \<and> b = last (gp_freeLists g ! l) \<and>
       allocBlock g (int l) = Some (Inr b, g') \<and> same_shape g g' \<and>
       counts_ok g' (X(l := add_mset b (X l))) \<and>
       gp_freeLists g' = (gp_freeLists g)[l := butlast (gp_freeLists g ! l)])"
proof -
  let ?fl = "gp_freeLists g ! l"
  have len: "l < length (gp_freeLists g)" "l < length (gp_refCounts g)"
    using ok l by (auto simp: counts_ok_def shape_ok_def)
  show ?thesis
  proof (cases "?fl = []")
    case True
    then show ?thesis using len by (simp add: allocBlock_def)
  next
    case False
    let ?g = "g\<lparr>gp_freeLists := (gp_freeLists g)[l := butlast ?fl],
        gp_refCounts := (gp_refCounts g)[l := (gp_refCounts g ! l)(last ?fl \<mapsto> 1)]\<rparr>"
    have "allocBlock g (int l) = Some (Inr (last ?fl), ?g)"
      using False len by (simp add: allocBlock_def Let_def)
    moreover have "counts_ok ?g (X(l := add_mset (last ?fl) (X l)))"
      using ok len layer_ok_alloc [of "gp_maxBlocks g" ?fl _ "X l"] False
      by (auto simp: counts_ok_def shape_ok_def nth_list_update)
    ultimately show ?thesis using False by (intro disjI2 exI [of _ "last ?fl"] exI [of _ ?g])
        (simp add: same_shape_def)
  qed
qed

lemma releaseBlock_ok:
  assumes ok: "counts_ok g X" and l: "l < layers g" and b: "b \<in># X l"
  shows "\<exists>g'. releaseBlock g (int l) b = Some g' \<and> same_shape g g' \<and> gp_dev g' = gp_dev g \<and>
    counts_ok g' (X(l := X l - {#b#}))"
proof -
  have len: "l < length (gp_freeLists g)" "l < length (gp_refCounts g)"
    using ok l by (auto simp: counts_ok_def shape_ok_def)
  have lo: "layer_ok (gp_maxBlocks g) (gp_freeLists g ! l) (gp_refCounts g ! l) (X l)"
    using ok l by (simp add: counts_ok_def)
  note R = layer_ok_release [OF lo b]
  show ?thesis
  proof (cases "map_get 0 (gp_refCounts g ! l) b \<le> 1")
    case True
    let ?g = "g\<lparr>gp_refCounts := (gp_refCounts g)[l := (gp_refCounts g ! l)(b := None)],
        gp_freeLists := (gp_freeLists g)[l := gp_freeLists g ! l @ [b]]\<rparr>"
    have "releaseBlock g (int l) b = Some ?g" using True len by (simp add: releaseBlock_def)
    moreover have "counts_ok ?g (X(l := X l - {#b#}))"
      using ok len R True by (auto simp: counts_ok_def shape_ok_def nth_list_update)
    ultimately show ?thesis by (simp add: same_shape_def)
  next
    case False
    let ?g = "g\<lparr>gp_refCounts := (gp_refCounts g)
        [l := (gp_refCounts g ! l)(b \<mapsto> map_get 0 (gp_refCounts g ! l) b - 1)]\<rparr>"
    have "releaseBlock g (int l) b = Some ?g" using False len by (simp add: releaseBlock_def)
    moreover have "counts_ok ?g (X(l := X l - {#b#}))"
      using ok len R False by (auto simp: counts_ok_def shape_ok_def nth_list_update)
    ultimately show ?thesis by (simp add: same_shape_def)
  qed
qed

lemma release_all_ok:
  assumes "counts_ok g X" and "l < layers g" and "mset bs \<subseteq># X l"
  shows "\<exists>g'. release_all (int l) bs g = Some g' \<and> same_shape g g' \<and> gp_dev g' = gp_dev g \<and>
    counts_ok g' (X(l := X l - mset bs))"
  using assms
proof (induction bs arbitrary: g X)
  case Nil
  then show ?case by (simp add: release_all_def)
next
  case (Cons b bs)
  have b: "b \<in># X l" using mset_subset_eqD [OF Cons.prems(3), of b] by simp
  obtain g1 where g1: "releaseBlock g (int l) b = Some g1" "same_shape g g1" "gp_dev g1 = gp_dev g"
    and ok1: "counts_ok g1 (X(l := X l - {#b#}))"
    using releaseBlock_ok [OF Cons.prems(1,2) b] by blast
  have "\<exists>g'. release_all (int l) bs g1 = Some g' \<and> same_shape g1 g' \<and> gp_dev g' = gp_dev g1 \<and>
      counts_ok g' ((X(l := X l - {#b#}))(l := (X(l := X l - {#b#})) l - mset bs))"
    using Cons.prems(2,3) g1(2)
    by (intro Cons.IH [OF ok1]) (auto simp: same_shape_def insert_subset_eq_iff)
  then obtain g2 where "release_all (int l) bs g1 = Some g2" "same_shape g1 g2" "gp_dev g2 = gp_dev g1"
      "counts_ok g2 (X(l := X l - mset (b # bs)))"
    by auto
  then show ?case using g1 same_shape_trans [OF g1(2), of g2]
    by (intro exI [of _ g2]) (simp add: release_all_def del: fun_upd_apply)
qed

section \<open>Operations on sequences\<close>

lemma tables_at_upd:
  "finite (dom m) \<Longrightarrow> tables_at l (m(s \<mapsto> t)) + mset (owned (\<lambda>s. gs_blockTables s ! l) m s) =
   tables_at l m + mset (gs_blockTables t ! l)"
  unfolding tables_at_def by (rule held_by_upd)

lemma tables_at_replace:
  assumes "finite (dom m)" and "m s = Some t"
  shows "tables_at l (m(s \<mapsto> t')) = tables_at l m - mset (gs_blockTables t ! l) + mset (gs_blockTables t' ! l)"
    and "mset (gs_blockTables t ! l) \<subseteq># tables_at l m"
proof -
  have o: "owned (\<lambda>s. gs_blockTables s ! l) m s = gs_blockTables t ! l"
    using assms(2) by (simp add: owned_def)
  show sub: "mset (gs_blockTables t ! l) \<subseteq># tables_at l m"
    using held_by_contains [OF assms(1), of "\<lambda>s. gs_blockTables s ! l" s] o by (simp add: tables_at_def)
  have "tables_at l (m(s \<mapsto> t')) = tables_at l m + mset (gs_blockTables t' ! l) - mset (gs_blockTables t ! l)"
    using tables_at_upd [OF assms(1), of l s t'] o by (metis add_diff_cancel_right')
  then show "tables_at l (m(s \<mapsto> t')) = tables_at l m - mset (gs_blockTables t ! l) + mset (gs_blockTables t' ! l)"
    using sub by (simp add: multiset_diff_union_assoc subset_mset.add_diff_assoc2)
qed

lemma tables_at_same:
  "m s = Some t \<Longrightarrow> finite (dom m) \<Longrightarrow> gs_blockTables t' = gs_blockTables t \<Longrightarrow>
   tables_at l (m(s \<mapsto> t')) = tables_at l m"
  using tables_at_replace(1) [of m s t l t'] tables_at_replace(2) [of m s t l]
  by (simp add: subset_mset.diff_add)

lemma gp_okD:
  assumes "gp_ok g"
  shows "finite (dom (gp_seqs g))" and "gp_seqs g s = Some t \<Longrightarrow> seq_ok (layers g) t"
    and "counts_ok g (\<lambda>l. tables_at l (gp_seqs g))" and "0 < gp_blockSize g"
  using assms by (auto simp: gp_ok_def seqs_ok_def counts_ok_def shape_ok_def ran_def)

lemma counts_ok_cong:
  "(\<And>l. l < layers g \<Longrightarrow> X l = Y l) \<Longrightarrow> counts_ok g X \<Longrightarrow> counts_ok g Y"
  by (simp add: counts_ok_def)

text \<open>Store the threaded sequence back: the counts must be those of the new tables.\<close>

lemma gp_ok_store:
  assumes ok: "gp_ok g" and s: "gp_seqs g s = Some t" and sh: "same_shape g g'"
    and t': "seq_ok (layers g) t'"
    and c: "counts_ok g' (\<lambda>l. tables_at l (gp_seqs g) - mset (gs_blockTables t ! l) + mset (gs_blockTables t' ! l))"
  shows "gp_ok (g'\<lparr>gp_seqs := (gp_seqs g')(s \<mapsto> t')\<rparr>)"
proof -
  have m: "gp_seqs g' = gp_seqs g" and n: "gp_numLayers g' = gp_numLayers g"
    using sh by (simp_all add: same_shape_def)
  have "counts_ok g' (\<lambda>l. tables_at l ((gp_seqs g)(s \<mapsto> t')))"
    using c tables_at_replace(1) [OF gp_okD(1) [OF ok] s] by simp
  moreover have "\<forall>x \<in> ran ((gp_seqs g)(s \<mapsto> t')). seq_ok (layers g) x"
    using gp_okD(2) [OF ok] t' by (auto simp: ran_def)
  ultimately show ?thesis
    using gp_okD(1) [OF ok] m n by (simp add: gp_ok_def seqs_ok_def)
qed

lemma gp_ok_New:
  assumes "0 \<le> numLayers" and "0 < blockSize" and "0 \<le> maxBlocks" and "maxBlocks \<le> 2 ^ 31"
  shows "\<exists>g. NewGPUBlockPool d numLayers heads dim blockSize maxBlocks f16 = Some g \<and> gp_ok g \<and>
    gp_seqs g = Map.empty \<and> gp_numLayers g = numLayers \<and> gp_blockSize g = blockSize \<and>
    gp_maxBlocks g = maxBlocks"
proof -
  have "length (fst (alloc_pools k n d)) = k" for k n d
    by (induction k arbitrary: d) (auto simp: Let_def split: prod.splits, metis fst_conv)
  then have p: "alloc_pools k n d = (ps, d') \<Longrightarrow> length ps = k" for k n d ps d'
    by (metis fst_conv)
  have ids: "map (\<lambda>j. int32_of (int j)) [0..<nat maxBlocks] = map int [0..<nat maxBlocks]"
    using assms(4) by auto
  then show ?thesis
    using assms layer_ok_empty [of maxBlocks] p
    by (auto simp: NewGPUBlockPool_def Let_def gp_ok_def seqs_ok_def counts_ok_def shape_ok_def
        tables_at_def ids split: prod.splits)
qed

lemma gp_ok_CreateSequence:
  assumes ok: "gp_ok g" and s: "gp_seqs g s = None"
  shows "gp_ok (GPUBlockPool_CreateSequence g s)"
proof -
  let ?t = "\<lparr>gs_blockTables = replicate (layers g) [], gs_seqLen = 0,
     gs_btGPU = replicate (layers g) nil_ptr, gs_btDirty = replicate (layers g) False\<rparr>"
  have "tables_at l ((gp_seqs g)(s \<mapsto> ?t)) = tables_at l (gp_seqs g)" if "l < layers g" for l
    using tables_at_upd [OF gp_okD(1) [OF ok], of l s ?t] s that by (simp add: owned_def)
  moreover have "\<forall>x \<in> ran ((gp_seqs g)(s \<mapsto> ?t)). seq_ok (layers g) x"
    using gp_okD(2) [OF ok] by (auto simp: ran_def seq_ok_def)
  ultimately show ?thesis
    using gp_okD(1,3) [OF ok] counts_ok_cong [of g _ "\<lambda>l. tables_at l ((gp_seqs g)(s \<mapsto> ?t))"]
    by (simp add: GPUBlockPool_CreateSequence_def Let_def gp_ok_def seqs_ok_def)
qed

lemma delete_layers_ok:
  assumes ok: "gp_ok g" and s: "gp_seqs g s = Some seq" and k: "k \<le> layers g"
  shows "\<exists>g'. foldM (delete_layer seq) [0..<k] g = Some g' \<and> same_shape g g' \<and>
    counts_ok g' (\<lambda>l. if l < k then tables_at l (gp_seqs g) - mset (gs_blockTables seq ! l)
                      else tables_at l (gp_seqs g))"
  using k
proof (induction k)
  case 0
  then show ?case using gp_okD(3) [OF ok] by simp
next
  case (Suc k)
  let ?T = "\<lambda>l. tables_at l (gp_seqs g)"
  obtain g1 where g1: "foldM (delete_layer seq) [0..<k] g = Some g1" "same_shape g g1"
    and c1: "counts_ok g1 (\<lambda>l. if l < k then ?T l - mset (gs_blockTables seq ! l) else ?T l)"
    using Suc by auto
  have sq: "seq_ok (layers g) seq" using gp_okD(2) [OF ok s] .
  then have len: "k < length (gs_blockTables seq)" "k < length (gs_btGPU seq)"
    using Suc.prems by (auto simp: seq_ok_def)
  have "k < layers g1" using Suc.prems g1(2) by (simp add: same_shape_def)
  then obtain g2 where g2: "release_all (int k) (gs_blockTables seq ! k) g1 = Some g2"
      "same_shape g1 g2"
    and c2: "counts_ok g2 ((\<lambda>l. if l < k then ?T l - mset (gs_blockTables seq ! l) else ?T l)
        (k := ?T k - mset (gs_blockTables seq ! k)))"
    using release_all_ok [OF c1, of k "gs_blockTables seq ! k"]
      tables_at_replace(2) [OF gp_okD(1) [OF ok] s] by auto
  have X: "((\<lambda>l. if l < k then ?T l - mset (gs_blockTables seq ! l) else ?T l)
        (k := ?T k - mset (gs_blockTables seq ! k))) =
      (\<lambda>l. if l < Suc k then ?T l - mset (gs_blockTables seq ! l) else ?T l)"
    by (auto simp: fun_eq_iff less_Suc_eq)
  let ?g = "if DevicePtr_IsNil (gs_btGPU seq ! k) then g2 else gp_call (CFree (gs_btGPU seq ! k)) g2"
  have "foldM (delete_layer seq) [0..<Suc k] g = Some ?g"
    using g1(1) g2(1) len by (simp add: foldM_append delete_layer_def)
  moreover have "same_shape g ?g"
    using same_shape_trans [OF g1(2) g2(2)] same_shape_trans by simp
  moreover have "counts_ok ?g (\<lambda>l. if l < Suc k then ?T l - mset (gs_blockTables seq ! l) else ?T l)"
    using c2 unfolding X by simp
  ultimately show ?case by blast
qed

lemma gp_ok_DeleteSequence:
  assumes ok: "gp_ok g"
  shows "\<exists>g'. GPUBlockPool_DeleteSequence g s = Some g' \<and> gp_ok g' \<and>
    gp_seqs g' = (gp_seqs g)(s := None) \<and> gp_numLayers g' = gp_numLayers g \<and>
    gp_maxBlocks g' = gp_maxBlocks g"
proof (cases "gp_seqs g s")
  case None
  then have "(gp_seqs g)(s := None) = gp_seqs g" by auto
  then show ?thesis using None ok by (simp add: GPUBlockPool_DeleteSequence_def)
next
  case (Some seq)
  obtain g1 where g1: "foldM (delete_layer seq) [0..<layers g] g = Some g1" "same_shape g g1"
    and c: "counts_ok g1 (\<lambda>l. if l < layers g then tables_at l (gp_seqs g) - mset (gs_blockTables seq ! l)
                      else tables_at l (gp_seqs g))"
    using delete_layers_ok [OF ok Some order_refl] by blast
  have f: "finite (dom (gp_seqs g))" using gp_okD(1) [OF ok] .
  have "tables_at l ((gp_seqs g)(s := None)) = tables_at l (gp_seqs g) - mset (gs_blockTables seq ! l)" for l
    using held_by_del [OF f, of "\<lambda>s. gs_blockTables s ! l" s] Some
    by (simp add: tables_at_def owned_def) (metis add_diff_cancel_right')
  then have "counts_ok g1 (\<lambda>l. tables_at l ((gp_seqs g)(s := None)))"
    using counts_ok_cong [OF _ c] g1(2) by (simp add: same_shape_def)
  moreover have "\<forall>x \<in> ran ((gp_seqs g)(s := None)). seq_ok (layers g) x"
    using gp_okD(2) [OF ok] by (auto simp: ran_def split: if_splits)
  ultimately have "gp_ok (g1\<lparr>gp_seqs := (gp_seqs g1)(s := None)\<rparr>)"
    using f g1(2) by (simp add: gp_ok_def seqs_ok_def same_shape_def)
  then show ?thesis using Some g1 by (simp add: GPUBlockPool_DeleteSequence_def same_shape_def)
qed

lemma mset_drop_sub: "mset (drop n xs) \<subseteq># mset xs"
  by (metis append_take_drop_id mset_append mset_subset_eq_add_right)

lemma mset_take_drop: "mset (take n xs) + mset (drop n xs) = mset xs"
  by (metis append_take_drop_id mset_append)

lemma trunc_layers_ok:
  assumes ok: "gp_ok g" and s: "gp_seqs g s = Some seq" and k: "k \<le> layers g" and n: "0 \<le> n"
  shows "\<exists>g' seq'. foldM (trunc_layer n) [0..<k] (g, seq) = Some (g', seq') \<and> same_shape g g' \<and>
    seq_ok (layers g) seq' \<and> gs_seqLen seq' = gs_seqLen seq \<and>
    (\<forall>l < layers g. gs_blockTables seq' ! l =
       (if l < k then take (nat n) (gs_blockTables seq ! l) else gs_blockTables seq ! l)) \<and>
    counts_ok g' (\<lambda>l. if l < k then tables_at l (gp_seqs g) - mset (drop (nat n) (gs_blockTables seq ! l))
                      else tables_at l (gp_seqs g))"
  using k
proof (induction k)
  case 0
  then show ?case using gp_okD(3) [OF ok] gp_okD(2) [OF ok s] by simp
next
  case (Suc k)
  let ?T = "\<lambda>l. tables_at l (gp_seqs g)" and ?bt = "gs_blockTables seq ! k"
  obtain g1 s1 where g1: "foldM (trunc_layer n) [0..<k] (g, seq) = Some (g1, s1)" "same_shape g g1"
    and s1: "seq_ok (layers g) s1" "gs_seqLen s1 = gs_seqLen seq"
    and t1: "\<forall>l < layers g. gs_blockTables s1 ! l =
       (if l < k then take (nat n) (gs_blockTables seq ! l) else gs_blockTables seq ! l)"
    and c1: "counts_ok g1 (\<lambda>l. if l < k then ?T l - mset (drop (nat n) (gs_blockTables seq ! l)) else ?T l)"
    using Suc by auto
  let ?X = "\<lambda>j l. if l < j then ?T l - mset (drop (nat n) (gs_blockTables seq ! l)) else ?T l"
  have kl: "k < layers g" using Suc.prems by simp
  have bt: "gs_blockTables s1 ! k = ?bt" using t1 kl by simp
  have len: "k < length (gs_blockTables s1)" "k < length (gs_btDirty s1)"
    using s1 kl by (auto simp: seq_ok_def)
  show ?case
  proof (cases "n < len ?bt")
    case False
    then have nl: "length ?bt \<le> nat n" by (simp add: len_def)
    have "trunc_layer n k (g1, s1) = Some (g1, s1)" using False len bt by (simp add: trunc_layer_def)
    moreover have "\<forall>l < layers g. gs_blockTables s1 ! l =
       (if l < Suc k then take (nat n) (gs_blockTables seq ! l) else gs_blockTables seq ! l)"
      using t1 bt nl by (auto simp: less_Suc_eq)
    moreover have "?X (Suc k) = ?X k" using nl by (auto simp: fun_eq_iff less_Suc_eq)
    ultimately show ?thesis using g1 s1 c1 by (simp add: foldM_append)
  next
    case True
    then have nl: "nat n \<le> length ?bt" by (simp add: len_def)
    have sl: "slice ?bt n (len ?bt) = Some (drop (nat n) ?bt)" "slice ?bt 0 n = Some (take (nat n) ?bt)"
      using True n nl by (auto simp: slice_def len_def)
    have sub: "mset (drop (nat n) ?bt) \<subseteq># ?X k k"
      using subset_mset.order_trans [OF mset_drop_sub tables_at_replace(2) [OF gp_okD(1) [OF ok] s]]
      by simp
    have kl1: "k < layers g1" using kl g1(2) by (simp add: same_shape_def)
    obtain g2 where g2: "release_all (int k) (drop (nat n) ?bt) g1 = Some g2" "same_shape g1 g2"
      and c2: "counts_ok g2 ((?X k)(k := ?X k k - mset (drop (nat n) ?bt)))"
      using release_all_ok [OF c1 kl1 sub] by auto
    have X: "(?X k)(k := ?X k k - mset (drop (nat n) ?bt)) = ?X (Suc k)"
      by (auto simp: fun_eq_iff less_Suc_eq)
    let ?s = "s1\<lparr>gs_blockTables := (gs_blockTables s1)[k := take (nat n) ?bt],
        gs_btDirty := (gs_btDirty s1)[k := True]\<rparr>"
    have tl: "trunc_layer n k (g1, s1) = Some (g2, ?s)"
      using True len bt sl g2 by (simp add: trunc_layer_def)
    have "\<forall>l < layers g. gs_blockTables ?s ! l =
       (if l < Suc k then take (nat n) (gs_blockTables seq ! l) else gs_blockTables seq ! l)"
      using t1 len by (auto simp: nth_list_update less_Suc_eq)
    moreover have "seq_ok (layers g) ?s" using s1 by (simp add: seq_ok_def)
    ultimately show ?thesis
      using g1 tl c2 X same_shape_trans [OF g1(2) g2(2)] s1(2)
      by (intro exI [of _ g2] exI [of _ ?s]) (simp add: foldM_append)
  qed
qed

definition pool_blocks_for :: "int \<Rightarrow> int \<Rightarrow> nat" where
  "pool_blocks_for n bs = (if 0 < n then nat ((n - 1) div bs + 1) else 0)"

lemma gp_ok_TruncateSequence:
  assumes ok: "gp_ok g" and s: "gp_seqs g s = Some seq" and n: "n < gs_seqLen seq"
  shows "\<exists>g' seq'. GPUBlockPool_TruncateSequence g s n = Some g' \<and> gp_ok g' \<and>
    gp_seqs g' = (gp_seqs g)(s \<mapsto> seq') \<and> gs_seqLen seq' = n \<and>
    gp_numLayers g' = gp_numLayers g \<and> gp_maxBlocks g' = gp_maxBlocks g \<and>
    (\<forall>l < layers g. gs_blockTables seq' ! l =
       take (pool_blocks_for n (gp_blockSize g)) (gs_blockTables seq ! l))"
proof -
  let ?B = "gp_blockSize g"
  have B: "0 < ?B" using gp_okD(4) [OF ok] .
  let ?k = "int (pool_blocks_for n ?B)"
  have q: "0 \<le> (n - 1) div ?B" if "0 < n" using that B by (simp add: pos_imp_zdiv_nonneg_iff)
  have k: "(if n > 0 then map_option (\<lambda>q. q + 1) (go_div (n - 1) ?B) else Some 0) = Some ?k"
    using B q by (simp add: pool_blocks_for_def)
  obtain g1 s1 where g1: "foldM (trunc_layer ?k) [0..<layers g] (g, seq) = Some (g1, s1)"
      "same_shape g g1" and s1: "seq_ok (layers g) s1"
    and t1: "\<forall>l < layers g. gs_blockTables s1 ! l = take (nat ?k) (gs_blockTables seq ! l)"
    and c1: "counts_ok g1 (\<lambda>l. if l < layers g
        then tables_at l (gp_seqs g) - mset (drop (nat ?k) (gs_blockTables seq ! l))
        else tables_at l (gp_seqs g))"
    using trunc_layers_ok [OF ok s order_refl, of ?k] by auto
  let ?s = "s1\<lparr>gs_seqLen := n\<rparr>"
  have "counts_ok g1 (\<lambda>l. tables_at l (gp_seqs g) - mset (gs_blockTables seq ! l) + mset (gs_blockTables ?s ! l))"
  proof (rule counts_ok_cong [OF _ c1])
    fix l
    assume "l < layers g1"
    then have l: "l < layers g" using g1(2) by (simp add: same_shape_def)
    have sub: "mset (gs_blockTables seq ! l) \<subseteq># tables_at l (gp_seqs g)"
      using tables_at_replace(2) [OF gp_okD(1) [OF ok] s] .
    have "tables_at l (gp_seqs g) - mset (drop (nat ?k) (gs_blockTables seq ! l)) =
        tables_at l (gp_seqs g) - mset (gs_blockTables seq ! l) + mset (take (nat ?k) (gs_blockTables seq ! l))"
      by (rule mset_release_keep [OF mset_take_drop sub])
    then show "(if l < layers g
        then tables_at l (gp_seqs g) - mset (drop (nat ?k) (gs_blockTables seq ! l))
        else tables_at l (gp_seqs g)) =
      tables_at l (gp_seqs g) - mset (gs_blockTables seq ! l) + mset (gs_blockTables ?s ! l)"
      using l t1 by simp
  qed
  moreover have "seq_ok (layers g) ?s" using s1 by (simp add: seq_ok_def)
  ultimately have "gp_ok (g1\<lparr>gp_seqs := (gp_seqs g1)(s \<mapsto> ?s)\<rparr>)"
    using gp_ok_store [OF ok s g1(2)] by blast
  moreover have "GPUBlockPool_TruncateSequence g s n = Some (g1\<lparr>gp_seqs := (gp_seqs g1)(s \<mapsto> ?s)\<rparr>)"
    using s n k g1(1) by (simp add: GPUBlockPool_TruncateSequence_def)
  ultimately show ?thesis using g1(2) t1 by (auto simp: same_shape_def)
qed

section \<open>Storing\<close>

lemma grow_table_ok:
  assumes "counts_ok g X" and "seq_ok (layers g) seq" and "l < layers g"
    and "nat (k + 1 - len (gs_blockTables seq ! l)) \<le> fuel"
  shows "\<exists>r g' seq' bs. grow_table fuel g seq (int l) k = Some (r, g', seq') \<and> same_shape g g' \<and>
    gp_dev g' = gp_dev g \<and> seq_ok (layers g) seq' \<and> gs_seqLen seq' = gs_seqLen seq \<and>
    gs_blockTables seq' = (gs_blockTables seq)[l := gs_blockTables seq ! l @ bs] \<and>
    counts_ok g' (X(l := X l + mset bs)) \<and>
    (case r of None \<Rightarrow> k < len (gs_blockTables seq' ! l)
     | Some e \<Rightarrow> e = NoFreeBlock (int l) \<and> gp_freeLists g' ! l = [])"
  using assms
proof (induction fuel arbitrary: g X seq)
  case 0
  have len: "l < length (gs_blockTables seq)" using 0(2,3) by (simp add: seq_ok_def)
  then show ?case using 0
    by (intro exI [of _ None] exI [of _ g] exI [of _ seq] exI [of _ "[]"])
      (simp add: grow_table.simps)
next
  case (Suc fuel)
  have len: "l < length (gs_blockTables seq)" "l < length (gs_btDirty seq)"
    using Suc.prems(2,3) by (auto simp: seq_ok_def)
  let ?bt = "gs_blockTables seq ! l"
  show ?case
  proof (cases "len ?bt \<le> k")
    case False
    then show ?thesis using Suc.prems len
      by (intro exI [of _ None] exI [of _ g] exI [of _ seq] exI [of _ "[]"])
        (simp add: grow_table.simps)
  next
    case True
    show ?thesis
    proof (cases "gp_freeLists g ! l = []")
      case F: True
      then have "allocBlock g (int l) = Some (Inl (NoFreeBlock (int l)), g)"
        using allocBlock_ok [OF Suc.prems(1,3)] by auto
      then show ?thesis using F True Suc.prems len
        by (intro exI [of _ "Some (NoFreeBlock (int l))"] exI [of _ g] exI [of _ seq] exI [of _ "[]"])
          (simp add: grow_table.simps)
    next
      case F: False
      obtain b g1 where al: "allocBlock g (int l) = Some (Inr b, g1)" and sh: "same_shape g g1"
        and c1: "counts_ok g1 (X(l := add_mset b (X l)))"
        using allocBlock_ok [OF Suc.prems(1,3)] F by auto
      have dev: "gp_dev g1 = gp_dev g"
        using al F len Suc.prems(1,3)
        by (auto simp: allocBlock_def Let_def counts_ok_def shape_ok_def split: Option.bind_splits)
      let ?s = "seq\<lparr>gs_blockTables := (gs_blockTables seq)[l := ?bt @ [b]],
          gs_btDirty := (gs_btDirty seq)[l := True]\<rparr>"
      have n: "layers g1 = layers g" using sh by (simp add: same_shape_def)
      have sq: "seq_ok (layers g1) ?s" using Suc.prems(2) n by (simp add: seq_ok_def)
      have fu: "nat (k + 1 - len (gs_blockTables ?s ! l)) \<le> fuel"
        using Suc.prems(4) len True by simp
      have l1: "l < layers g1" using Suc.prems(3) n by simp
      obtain r g2 s2 bs where
        g2: "grow_table fuel g1 ?s (int l) k = Some (r, g2, s2)" "same_shape g1 g2" "gp_dev g2 = gp_dev g1"
        and s2: "seq_ok (layers g1) s2" "gs_seqLen s2 = gs_seqLen ?s"
          "gs_blockTables s2 = (gs_blockTables ?s)[l := gs_blockTables ?s ! l @ bs]"
        and c2: "counts_ok g2 ((X(l := add_mset b (X l)))(l := (X(l := add_mset b (X l))) l + mset bs))"
        and r: "case r of None \<Rightarrow> k < len (gs_blockTables s2 ! l)
          | Some e \<Rightarrow> e = NoFreeBlock (int l) \<and> gp_freeLists g2 ! l = []"
        using Suc.IH [OF c1 sq l1 fu] by blast
      have "grow_table (Suc fuel) g seq (int l) k = Some (r, g2, s2)"
        using al True len g2(1) by (subst grow_table.simps) simp
      moreover have "gs_blockTables s2 = (gs_blockTables seq)[l := ?bt @ (b # bs)]"
        using s2(3) len by simp
      moreover have "counts_ok g2 (X(l := X l + mset (b # bs)))" using c2 by simp
      ultimately show ?thesis
        using r s2 n same_shape_trans [OF sh g2(2)] g2(3) dev
        by (intro exI [of _ r] exI [of _ g2] exI [of _ s2] exI [of _ "b # bs"])
          (simp del: fun_upd_apply)
    qed
  qed
qed

text \<open>The calls that scatter one token: two uploads that name its slot, and the two kernels.\<close>

definition slot_uploads :: "GPUBlockPool \<Rightarrow> int list \<Rightarrow> int \<Rightarrow> gpu_call list" where
  "slot_uploads g bt pos =
     [CToDevice (gp_ptBuf1 g) (le_bytes (bt ! nat (pos div gp_blockSize g))),
      CToDevice (gp_offBuf1 g) (le_bytes (int32_of (pos mod gp_blockSize g)))]"

lemma dev_call_log [simp]:
  "gd_log (dev_call c d) = gd_log d @ [c]" "gd_copier (dev_call c d) = gd_copier d"
  by (simp_all add: dev_call_def)

text \<open>All calls of one token of a multi-token store.\<close>

definition token_calls ::
  "GPUBlockPool \<Rightarrow> DevicePtr \<Rightarrow> int list \<Rightarrow> int \<Rightarrow> DevicePtr \<Rightarrow> DevicePtr \<Rightarrow> DevicePtr \<Rightarrow> int \<Rightarrow> nat \<Rightarrow> gpu_call list"
where
  "token_calls g pool bt startPos kPtr vPtr tokenBuf kvBytes i =
     (let copy = (\<lambda>src. if gd_copier (gp_dev g) then [CCopy src (int i * kvBytes) tokenBuf 0 kvBytes] else [])
      in slot_uploads g bt (startPos + int i) @ copy kPtr @ [reshape g pool tokenBuf False] @
         copy vPtr @ [reshape g pool tokenBuf True])"

text \<open>Scattering only talks to the device.\<close>

definition dev_only :: "GPUBlockPool \<Rightarrow> GPUBlockPool \<Rightarrow> bool" where
  "dev_only g g' \<longleftrightarrow> g' = g\<lparr>gp_dev := gp_dev g'\<rparr> \<and> gd_copier (gp_dev g') = gd_copier (gp_dev g)"

lemma dev_only_refl [simp]: "dev_only g g"
  by (simp add: dev_only_def)

lemma dev_only_trans:
  assumes "dev_only g h" and "dev_only h k"
  shows "dev_only g k"
proof -
  have "k = h\<lparr>gp_dev := gp_dev k\<rparr>" "h = g\<lparr>gp_dev := gp_dev h\<rparr>" using assms by (simp_all add: dev_only_def)
  then have "k = g\<lparr>gp_dev := gp_dev h\<rparr>\<lparr>gp_dev := gp_dev k\<rparr>" by metis
  then show ?thesis using assms by (simp add: dev_only_def)
qed

lemma dev_only_call: "dev_only g h \<Longrightarrow> dev_only g (gp_call c h)"
  by (rule dev_only_trans [of g h]) (simp_all add: dev_only_def gp_call_def)

lemma dev_only_eqs:
  assumes "dev_only g g'"
  shows "same_shape g g'" and "counts_ok g' X = counts_ok g X" and "shape_ok g' = shape_ok g"
    and "gp_blockSize g' = gp_blockSize g" and "gp_pools g' = gp_pools g"
    and "gp_numLayers g' = gp_numLayers g" and "gp_seqs g' = gp_seqs g"
    and "reshape g' = reshape g" and "token_calls g' = token_calls g"
proof -
  obtain d where g': "g' = g\<lparr>gp_dev := d\<rparr>" and c: "gd_copier d = gd_copier (gp_dev g)"
    using assms by (metis GPUBlockPool.select_convs(1) GPUBlockPool.surjective
        GPUBlockPool.update_convs(1) dev_only_def)
  show "same_shape g g'" "counts_ok g' X = counts_ok g X" "shape_ok g' = shape_ok g"
    "gp_blockSize g' = gp_blockSize g" "gp_pools g' = gp_pools g" "gp_numLayers g' = gp_numLayers g"
    "gp_seqs g' = gp_seqs g" "reshape g' = reshape g" "token_calls g' = token_calls g"
    unfolding g' using c
    by (simp_all add: same_shape_def counts_ok_def shape_ok_def reshape_def token_calls_def
        slot_uploads_def fun_eq_iff)
qed

lemma upload_slot_ok:
  assumes B: "0 < gp_blockSize g" and l: "l < length (gs_blockTables seq)" and p: "0 \<le> pos"
    and i: "pos div gp_blockSize g < len (gs_blockTables seq ! l)"
  shows "\<exists>g'. upload_slot seq (int l) pos g = Some g' \<and> dev_only g g' \<and>
    gd_log (gp_dev g') = gd_log (gp_dev g) @ slot_uploads g (gs_blockTables seq ! l) pos"
proof -
  have "0 \<le> pos div gp_blockSize g" using p B by (simp add: pos_imp_zdiv_nonneg_iff)
  then have "idx (gs_blockTables seq ! l) (pos div gp_blockSize g) =
      Some (gs_blockTables seq ! l ! nat (pos div gp_blockSize g))"
    using i by (simp add: idx_def)
  then have "upload_slot seq (int l) pos g = Some
      (gp_call (CToDevice (gp_offBuf1 g) (le_bytes (int32_of (pos mod gp_blockSize g))))
        (gp_call (CToDevice (gp_ptBuf1 g)
          (le_bytes (gs_blockTables seq ! l ! nat (pos div gp_blockSize g)))) g))"
    using B p l by (simp add: upload_slot_def)
  then show ?thesis by (simp add: slot_uploads_def dev_only_call)
qed

lemma scatter_one_ok:
  assumes sh: "shape_ok g" and l: "l < layers g" and sq: "seq_ok (layers g) seq" and p: "0 \<le> pos"
    and i: "pos div gp_blockSize g < len (gs_blockTables seq ! l)"
  shows "\<exists>g'. scatter_one seq (int l) pos kPtr vPtr g = Some g' \<and> dev_only g g' \<and>
    gd_log (gp_dev g') = gd_log (gp_dev g) @ slot_uploads g (gs_blockTables seq ! l) pos @
      [reshape g (gp_pools g ! l) kPtr False, reshape g (gp_pools g ! l) vPtr True]"
proof -
  have B: "0 < gp_blockSize g" and ll: "l < length (gs_blockTables seq)" and pl: "l < length (gp_pools g)"
    using sh sq l by (auto simp: shape_ok_def seq_ok_def)
  obtain g1 where g1: "upload_slot seq (int l) pos g = Some g1" "dev_only g g1"
      "gd_log (gp_dev g1) = gd_log (gp_dev g) @ slot_uploads g (gs_blockTables seq ! l) pos"
    using upload_slot_ok [OF B ll p i] by blast
  then show ?thesis using pl by (simp add: scatter_one_def dev_only_call)
qed

lemma scatter_token_ok:
  assumes sh: "shape_ok g" and l: "l < layers g" and sq: "seq_ok (layers g) seq" and p: "0 \<le> startPos"
    and i: "(startPos + int i) div gp_blockSize g < len (gs_blockTables seq ! l)"
  shows "\<exists>g'. scatter_token seq (int l) startPos kPtr vPtr tokenBuf kvBytes i g = Some g' \<and>
    dev_only g g' \<and> gd_log (gp_dev g') = gd_log (gp_dev g) @
      token_calls g (gp_pools g ! l) (gs_blockTables seq ! l) startPos kPtr vPtr tokenBuf kvBytes i"
proof -
  have B: "0 < gp_blockSize g" and ll: "l < length (gs_blockTables seq)" and pl: "l < length (gp_pools g)"
    using sh sq l by (auto simp: shape_ok_def seq_ok_def)
  obtain g1 where g1: "upload_slot seq (int l) (startPos + int i) g = Some g1" "dev_only g g1"
      "gd_log (gp_dev g1) = gd_log (gp_dev g) @
         slot_uploads g (gs_blockTables seq ! l) (startPos + int i)"
    using upload_slot_ok [OF B ll _ i] p by auto
  then have "gd_copier (gp_dev g1) = gd_copier (gp_dev g)" by (simp add: dev_only_def)
  then show ?thesis
    using g1 pl by (simp add: scatter_token_def token_calls_def Let_def dev_only_call)
qed

lemma scatter_loop_ok:
  assumes "shape_ok g" and "l < layers g" and "seq_ok (layers g) seq" and "0 \<le> startPos"
    and "\<forall>i \<in> set js. (startPos + int i) div gp_blockSize g < len (gs_blockTables seq ! l)"
  shows "\<exists>g'. foldM (scatter_token seq (int l) startPos kPtr vPtr tokenBuf kvBytes) js g = Some g' \<and>
    dev_only g g' \<and> gd_log (gp_dev g') = gd_log (gp_dev g) @ concat (map
      (token_calls g (gp_pools g ! l) (gs_blockTables seq ! l) startPos kPtr vPtr tokenBuf kvBytes) js)"
  using assms
proof (induction js arbitrary: g)
  case Nil
  then show ?case by simp
next
  case (Cons i js)
  have i: "(startPos + int i) div gp_blockSize g < len (gs_blockTables seq ! l)"
    using Cons.prems(5) by simp
  obtain g1 where g1: "scatter_token seq (int l) startPos kPtr vPtr tokenBuf kvBytes i g = Some g1"
      "dev_only g g1" "gd_log (gp_dev g1) = gd_log (gp_dev g) @
        token_calls g (gp_pools g ! l) (gs_blockTables seq ! l) startPos kPtr vPtr tokenBuf kvBytes i"
    using scatter_token_ok [OF Cons.prems(1-4) i] by blast
  note E = dev_only_eqs [OF g1(2)]
  have "\<exists>g'. foldM (scatter_token seq (int l) startPos kPtr vPtr tokenBuf kvBytes) js g1 = Some g' \<and>
    dev_only g1 g' \<and> gd_log (gp_dev g') = gd_log (gp_dev g1) @ concat (map
      (token_calls g1 (gp_pools g1 ! l) (gs_blockTables seq ! l) startPos kPtr vPtr tokenBuf kvBytes) js)"
    using Cons.prems E by (intro Cons.IH) simp_all
  then show ?case using g1 E dev_only_trans [OF g1(2)] by auto
qed

end
