(* ===== verification/Block_Pool_Props.thy ===== *)
theory Block_Pool_Props
  imports Block_Pool_Inv
begin

text \<open>
  The contract of the GPU block pool: what a store tells the device, the reference counts over every
  history, the layer as a block pool, gathering, and the byte encoding of block tables.
\<close>

section \<open>StoreKV\<close>

text \<open>The calls of a store whose block table (after growing) is \<open>bt\<close>.\<close>

definition store_calls ::
  "GPUBlockPool \<Rightarrow> DevicePtr \<Rightarrow> int list \<Rightarrow> int \<Rightarrow> DevicePtr \<Rightarrow> DevicePtr \<Rightarrow> nat \<Rightarrow> gpu_call list" where
  "store_calls g pool bt startPos kPtr vPtr n =
     (if n = 1 then slot_uploads g bt startPos @ [reshape g pool kPtr False, reshape g pool vPtr True]
      else
        let kvBytes = gp_numKVHeads g * gp_headDim g * 4;
            tokenBuf = gd_ptr (gp_dev g) (gd_count (gp_dev g))
        in [CAlloc kvBytes] @
           concat (map (token_calls g pool bt startPos kPtr vPtr tokenBuf kvBytes) [0..<n]) @
           [CFree tokenBuf])"

lemma dev_alloc_eqs:
  assumes "gp_alloc n g = (p, g')"
  shows "dev_only g g'" and "gd_log (gp_dev g') = gd_log (gp_dev g) @ [CAlloc n]"
    and "p = gd_ptr (gp_dev g) (gd_count (gp_dev g))"
  using assms by (auto simp: gp_alloc_def dev_alloc_def dev_only_def dev_call_def split: prod.splits)

lemma store_scatter_ok:
  assumes sh: "shape_ok g" and l: "l < layers g" and sq: "seq_ok (layers g) seq" and p: "0 \<le> startPos"
    and n: "0 < n" and i: "(startPos + int n - 1) div gp_blockSize g < len (gs_blockTables seq ! l)"
  shows "\<exists>g'. (if int n = 1 then scatter_one seq (int l) startPos kPtr vPtr g
         else do {
           let kvBytes = gp_numKVHeads g * gp_headDim g * 4;
           let (tokenBuf, g2) = gp_alloc kvBytes g;
           g3 \<leftarrow> foldM (scatter_token seq (int l) startPos kPtr vPtr tokenBuf kvBytes) [0..<nat (int n)] g2;
           Some (gp_call (CFree tokenBuf) g3) }) = Some g' \<and>
    dev_only g g' \<and> gd_log (gp_dev g') = gd_log (gp_dev g) @
      store_calls g (gp_pools g ! l) (gs_blockTables seq ! l) startPos kPtr vPtr n"
proof (cases "n = 1")
  case True
  then have i1: "startPos div gp_blockSize g < len (gs_blockTables seq ! l)" using i by simp
  show ?thesis using scatter_one_ok [OF sh l sq p i1, of kPtr vPtr] True
    by (auto simp: store_calls_def)
next
  case False
  have B: "0 < gp_blockSize g" using sh by (simp add: shape_ok_def)
  let ?kb = "gp_numKVHeads g * gp_headDim g * 4"
  obtain tb g2 where al: "gp_alloc ?kb g = (tb, g2)" by (cases "gp_alloc ?kb g")
  note D = dev_alloc_eqs [OF al] and E = dev_only_eqs [OF dev_alloc_eqs(1) [OF al]]
  have "\<forall>j \<in> set [0..<n]. (startPos + int j) div gp_blockSize g2 < len (gs_blockTables seq ! l)"
  proof
    fix j
    assume "j \<in> set [0..<n]"
    then have "(startPos + int j) div gp_blockSize g \<le> (startPos + int n - 1) div gp_blockSize g"
      using B by (intro zdiv_mono1) auto
    then show "(startPos + int j) div gp_blockSize g2 < len (gs_blockTables seq ! l)" using i E by simp
  qed
  then have "\<exists>g3. foldM (scatter_token seq (int l) startPos kPtr vPtr tb ?kb) [0..<n] g2 = Some g3 \<and>
    dev_only g2 g3 \<and> gd_log (gp_dev g3) = gd_log (gp_dev g2) @ concat (map
      (token_calls g2 (gp_pools g2 ! l) (gs_blockTables seq ! l) startPos kPtr vPtr tb ?kb) [0..<n])"
    using sh l sq p E by (intro scatter_loop_ok) simp_all
  then obtain g3 where g3: "foldM (scatter_token seq (int l) startPos kPtr vPtr tb ?kb) [0..<n] g2 = Some g3"
      "dev_only g2 g3" "gd_log (gp_dev g3) = gd_log (gp_dev g2) @ concat (map
      (token_calls g2 (gp_pools g2 ! l) (gs_blockTables seq ! l) startPos kPtr vPtr tb ?kb) [0..<n])"
    by blast
  have "dev_only g (gp_call (CFree tb) g3)" using dev_only_trans [OF D(1) g3(2)] by (rule dev_only_call)
  then show ?thesis using al g3 D E False by (simp add: store_calls_def Let_def)
qed

lemma StoreKV_pool_ok:
  assumes ok: "gp_ok g" and s: "gp_seqs g s = Some seq" and l: "l < layers g" and p: "0 \<le> startPos"
    and n: "0 < n"
  shows "\<exists>r g' seq' bs. GPUBlockPool_StoreKV g (int l) s startPos kPtr vPtr (int n) = Some (r, g') \<and>
    gp_ok g' \<and> gp_numLayers g' = gp_numLayers g \<and> gp_maxBlocks g' = gp_maxBlocks g \<and>
    gp_seqs g' = (gp_seqs g)(s \<mapsto> seq') \<and>
    gs_blockTables seq' = (gs_blockTables seq)[l := gs_blockTables seq ! l @ bs] \<and>
    (case r of
       None \<Rightarrow> gs_seqLen seq' = max (gs_seqLen seq) (startPos + int n) \<and>
         startPos + int n \<le> len (gs_blockTables seq' ! l) * gp_blockSize g \<and>
         gd_log (gp_dev g') = gd_log (gp_dev g) @
           store_calls g (gp_pools g ! l) (gs_blockTables seq' ! l) startPos kPtr vPtr n
     | Some e \<Rightarrow> e = NoFreeBlock (int l) \<and> gp_freeLists g' ! l = [] \<and>
         gs_seqLen seq' = gs_seqLen seq \<and> gd_log (gp_dev g') = gd_log (gp_dev g))"
proof -
  let ?B = "gp_blockSize g" and ?T = "\<lambda>j. tables_at j (gp_seqs g)"
  have B: "0 < ?B" and sq: "seq_ok (layers g) seq" using gp_okD(2) [OF ok s] gp_okD(4) [OF ok] by auto
  let ?k = "(startPos + int n - 1) div ?B" and ?bt = "gs_blockTables seq ! l"
  have k: "go_div (startPos + int n - 1) ?B = Some ?k" using B p n by simp
  have len: "l < length (gs_blockTables seq)" using sq l by (simp add: seq_ok_def)
  obtain r g1 s1 bs where gt: "grow_table (nat (?k + 1 - len ?bt)) g seq (int l) ?k = Some (r, g1, s1)"
    and sh1: "same_shape g g1" "gp_dev g1 = gp_dev g" and s1: "seq_ok (layers g) s1"
      "gs_seqLen s1 = gs_seqLen seq" "gs_blockTables s1 = (gs_blockTables seq)[l := ?bt @ bs]"
    and c1: "counts_ok g1 (?T(l := ?T l + mset bs))"
    and r: "case r of None \<Rightarrow> ?k < len (gs_blockTables s1 ! l)
     | Some e \<Rightarrow> e = NoFreeBlock (int l) \<and> gp_freeLists g1 ! l = []"
    using grow_table_ok [OF gp_okD(3) [OF ok] sq l order_refl, of ?k] by blast
  have eq: "gp_numLayers g1 = gp_numLayers g" "gp_maxBlocks g1 = gp_maxBlocks g" "gp_pools g1 = gp_pools g"
      "gp_blockSize g1 = ?B" "gp_seqs g1 = gp_seqs g"
    using sh1 by (auto simp: same_shape_def)
  have c1': "counts_ok g1 (\<lambda>j. ?T j - mset (gs_blockTables seq ! j) + mset (gs_blockTables s1 ! j))"
  proof (rule counts_ok_cong [OF _ c1])
    fix j
    have "mset (gs_blockTables seq ! j) \<subseteq># ?T j" using tables_at_replace(2) [OF gp_okD(1) [OF ok] s] .
    then show "(?T(l := ?T l + mset bs)) j = ?T j - mset (gs_blockTables seq ! j) + mset (gs_blockTables s1 ! j)"
      using len s1(3) by (cases "j = l") (simp_all add: add.assoc [symmetric] subset_mset.diff_add)
  qed
  have head: "GPUBlockPool_StoreKV g (int l) s startPos kPtr vPtr (int n) = (case r of
      Some e \<Rightarrow> Some (Some e, g1\<lparr>gp_seqs := (gp_seqs g1)(s \<mapsto> s1)\<rparr>)
    | None \<Rightarrow>
        do { g2 \<leftarrow> (if int n = 1 then scatter_one s1 (int l) startPos kPtr vPtr g1
               else do {
                 let kvBytes = gp_numKVHeads g * gp_headDim g * 4;
                 let (tokenBuf, g2) = gp_alloc kvBytes g1;
                 g3 \<leftarrow> foldM (scatter_token s1 (int l) startPos kPtr vPtr tokenBuf kvBytes)
                         [0..<nat (int n)] g2;
                 Some (gp_call (CFree tokenBuf) g3) });
             let seq2 = (if startPos + int n > gs_seqLen s1 then s1\<lparr>gs_seqLen := startPos + int n\<rparr> else s1);
             Some (None, g2\<lparr>gp_seqs := (gp_seqs g2)(s \<mapsto> seq2)\<rparr>) })"
    using s k len gt by (simp add: GPUBlockPool_StoreKV_def Let_def)
  show ?thesis
  proof (cases r)
    case (Some e)
    have "gp_ok (g1\<lparr>gp_seqs := (gp_seqs g1)(s \<mapsto> s1)\<rparr>)"
      by (rule gp_ok_store [OF ok s sh1(1) s1(1) c1'])
    then show ?thesis using head Some r eq s1 sh1
      by (intro exI [of _ r] exI [of _ "g1\<lparr>gp_seqs := (gp_seqs g1)(s \<mapsto> s1)\<rparr>"] exI [of _ s1]
          exI [of _ bs]) simp
  next
    case None
    have sg1: "shape_ok g1" using c1 by (simp add: counts_ok_def)
    have kk: "(startPos + int n - 1) div gp_blockSize g1 < len (gs_blockTables s1 ! l)"
      using r None eq by simp
    have hd: "gp_numKVHeads g1 = gp_numKVHeads g" "gp_headDim g1 = gp_headDim g"
      using sh1(1) by (simp_all add: same_shape_def)
    have l1: "l < layers g1" "seq_ok (layers g1) s1" using l s1(1) eq(1) by simp_all
    obtain g2 where sc: "(if int n = 1 then scatter_one s1 (int l) startPos kPtr vPtr g1
         else do {
           let kvBytes = gp_numKVHeads g * gp_headDim g * 4;
           let (tokenBuf, g2) = gp_alloc kvBytes g1;
           g3 \<leftarrow> foldM (scatter_token s1 (int l) startPos kPtr vPtr tokenBuf kvBytes) [0..<nat (int n)] g2;
           Some (gp_call (CFree tokenBuf) g3) }) = Some g2"
      and d2: "dev_only g1 g2" and lg: "gd_log (gp_dev g2) = gd_log (gp_dev g1) @
      store_calls g1 (gp_pools g1 ! l) (gs_blockTables s1 ! l) startPos kPtr vPtr n"
      using store_scatter_ok [OF sg1 l1 p n kk, of kPtr vPtr] unfolding hd by blast
    have "(if startPos + int n > gs_seqLen s1 then s1\<lparr>gs_seqLen := startPos + int n\<rparr> else s1) =
        s1\<lparr>gs_seqLen := max (gs_seqLen seq) (startPos + int n)\<rparr>"
      using s1(2) by (simp add: max_def)
    then have g2: "GPUBlockPool_StoreKV g (int l) s startPos kPtr vPtr (int n) =
          Some (None, g2\<lparr>gp_seqs := (gp_seqs g2)(s \<mapsto> s1\<lparr>gs_seqLen := max (gs_seqLen seq) (startPos + int n)\<rparr>)\<rparr>)"
      using head [unfolded None option.case sc bind.bind_lunit] by (simp add: Let_def)
    let ?s = "s1\<lparr>gs_seqLen := max (gs_seqLen seq) (startPos + int n)\<rparr>"
    let ?g = "g2\<lparr>gp_seqs := (gp_seqs g2)(s \<mapsto> ?s)\<rparr>"
    note E = dev_only_eqs [OF d2]
    have "gp_ok ?g"
      using s1(1) c1' E(2) same_shape_trans [OF sh1(1) E(1)]
      by (intro gp_ok_store [OF ok s]) (auto simp: seq_ok_def)
    moreover have "store_calls g1 = store_calls g"
    proof -
      have "token_calls g1 = token_calls g" "reshape g1 = reshape g" "slot_uploads g1 = slot_uploads g"
        using sh1
        by (simp_all add: slot_uploads_def token_calls_def reshape_def same_shape_def fun_eq_iff)
      then show ?thesis using sh1 by (intro ext) (simp add: store_calls_def same_shape_def Let_def)
    qed
    moreover have "startPos + int n \<le> len (gs_blockTables s1 ! l) * ?B"
    proof (rule ccontr)
      assume "\<not> startPos + int n \<le> len (gs_blockTables s1 ! l) * ?B"
      then have "len (gs_blockTables s1 ! l) * ?B \<le> startPos + int n - 1" by simp
      then have "len (gs_blockTables s1 ! l) * ?B div ?B \<le> ?k" using B by (intro zdiv_mono1) auto
      then show False using r None B by simp
    qed
    ultimately show ?thesis
      using g2 lg sh1 s1 E eq
      by (intro exI [of _ None] exI [of _ ?g] exI [of _ ?s] exI [of _ bs])
        (simp add: same_shape_def)
  qed
qed

section \<open>Sharing\<close>

lemma share_one_ok:
  assumes ok: "gp_ok g" and s: "gp_seqs g s = Some src" and d: "gp_seqs g d = Some dst"
    and l: "l < layers g" and i: "i < length (gs_blockTables src ! l)"
  shows "\<exists>g'. share_one s d (int l) (int i) g = Some g' \<and> gp_ok g' \<and>
    gp_seqs g' = (gp_seqs g)(d \<mapsto> dst\<lparr>gs_blockTables := (gs_blockTables dst)
      [l := gs_blockTables dst ! l @ [gs_blockTables src ! l ! i]]\<rparr>) \<and>
    gp_numLayers g' = gp_numLayers g \<and> gp_maxBlocks g' = gp_maxBlocks g"
proof -
  have sq: "seq_ok (layers g) src" "seq_ok (layers g) dst" using gp_okD(2) [OF ok] s d by auto
  let ?b = "gs_blockTables src ! l ! i" and ?T = "\<lambda>j. tables_at j (gp_seqs g)"
  let ?d = "dst\<lparr>gs_blockTables := (gs_blockTables dst)[l := gs_blockTables dst ! l @ [?b]]\<rparr>"
  let ?rc = "gp_refCounts g ! l"
  let ?h = "g\<lparr>gp_refCounts := (gp_refCounts g)[l := ?rc(?b \<mapsto> map_get 0 ?rc ?b + 1)]\<rparr>"
  let ?g = "?h\<lparr>gp_seqs := (gp_seqs g)(d \<mapsto> ?d)\<rparr>"
  have c: "counts_ok g ?T" using gp_okD(3) [OF ok] .
  have len: "l < length (gs_blockTables src)" "l < length (gs_blockTables dst)" "l < length (gp_refCounts g)"
    using sq l c by (auto simp: seq_ok_def counts_ok_def shape_ok_def)
  have "?b \<in># mset (gs_blockTables src ! l)" using i by simp
  then have b: "?b \<in># ?T l"
    by (rule mset_subset_eqD [OF tables_at_replace(2) [OF gp_okD(1) [OF ok] s]])
  have st: "share_one s d (int l) (int i) g = Some ?g"
    using s d len i by (simp add: share_one_def)
  have X: "counts_ok ?h (?T(l := add_mset ?b (?T l)))"
    using c len layer_ok_share [OF _ b, of "gp_maxBlocks g" "gp_freeLists g ! l" ?rc] l
    by (auto simp: counts_ok_def shape_ok_def nth_list_update)
  have "counts_ok ?h (\<lambda>j. tables_at j ((gp_seqs g)(d \<mapsto> ?d)))"
  proof (rule counts_ok_cong [OF _ X])
    fix j
    have sub: "mset (gs_blockTables dst ! j) \<subseteq># ?T j" using tables_at_replace(2) [OF gp_okD(1) [OF ok] d] .
    note R = tables_at_replace(1) [OF gp_okD(1) [OF ok] d, of j ?d]
    show "(?T(l := add_mset ?b (?T l))) j = tables_at j ((gp_seqs g)(d \<mapsto> ?d))"
      unfolding R using len sub by (cases "j = l") (simp_all add: subset_mset.diff_add)
  qed
  then have "counts_ok ?g (\<lambda>j. tables_at j (gp_seqs ?g))" by simp
  moreover have "\<forall>x \<in> ran ((gp_seqs g)(d \<mapsto> ?d)). seq_ok (layers g) x"
    using gp_okD(2) [OF ok] sq(2) by (auto simp: ran_def seq_ok_def)
  then have "seqs_ok ?g" using gp_okD(1) [OF ok] by (simp add: seqs_ok_def)
  ultimately have "gp_ok ?g" by (simp only: gp_ok_def)
  then show ?thesis using st by (intro exI [of _ ?g]) simp
qed

lemma share_loop_ok:
  assumes ok: "gp_ok g" and s: "gp_seqs g s = Some src" and d: "gp_seqs g d = Some dst"
    and l: "l < layers g" and n: "n \<le> length (gs_blockTables src ! l)"
  shows "\<exists>g' dst'. foldM (\<lambda>i. share_one s d (int l) (int i)) [0..<n] g = Some g' \<and> gp_ok g' \<and>
    gp_seqs g' = (gp_seqs g)(d \<mapsto> dst') \<and>
    gs_blockTables dst' = (gs_blockTables dst)
      [l := gs_blockTables dst ! l @ take n (gs_blockTables src ! l)] \<and>
    gs_seqLen dst' = gs_seqLen dst \<and>
    gp_numLayers g' = gp_numLayers g \<and> gp_maxBlocks g' = gp_maxBlocks g"
  using n
proof (induction n)
  case 0
  then show ?case using ok d
    by (intro exI [of _ g] exI [of _ dst]) (simp add: fun_upd_idem)
next
  case (Suc n)
  let ?tb = "\<lambda>n. (gs_blockTables dst)[l := gs_blockTables dst ! l @ take n (gs_blockTables src ! l)]"
  obtain g1 d1 where g1: "foldM (\<lambda>i. share_one s d (int l) (int i)) [0..<n] g = Some g1" "gp_ok g1"
      "gp_seqs g1 = (gp_seqs g)(d \<mapsto> d1)" "gs_blockTables d1 = ?tb n" "gs_seqLen d1 = gs_seqLen dst"
      "gp_numLayers g1 = gp_numLayers g" "gp_maxBlocks g1 = gp_maxBlocks g"
    using Suc.IH [OF Suc_leD [OF Suc.prems]] by blast
  have len: "l < length (gs_blockTables dst)" using gp_okD(2) [OF ok d] l by (simp add: seq_ok_def)
  obtain src1 where s1: "gp_seqs g1 s = Some src1" and pre: "n < length (gs_blockTables src1 ! l)"
      "gs_blockTables src1 ! l ! n = gs_blockTables src ! l ! n"
  proof (cases "s = d")
    case True
    then have "src = dst" using s d by simp
    moreover have "gs_blockTables d1 ! l = gs_blockTables dst ! l @ take n (gs_blockTables src ! l)"
      using g1(4) len by simp
    ultimately show ?thesis
      using True g1(3) Suc.prems by (intro that [of d1]) (auto simp: nth_append)
  next
    case False
    with s show ?thesis using that [of src] g1(3) Suc.prems by simp
  qed
  have "l < layers g1" using l g1(6) by simp
  from share_one_ok [OF g1(2) s1 _ this pre(1), of d d1] g1(3) obtain g2 where
      g2: "share_one s d (int l) (int n) g1 = Some g2" "gp_ok g2"
      "gp_seqs g2 = (gp_seqs g1)(d \<mapsto> d1\<lparr>gs_blockTables := (gs_blockTables d1)
        [l := gs_blockTables d1 ! l @ [gs_blockTables src1 ! l ! n]]\<rparr>)"
      "gp_numLayers g2 = gp_numLayers g1" "gp_maxBlocks g2 = gp_maxBlocks g1"
    by auto
  have "gs_blockTables (d1\<lparr>gs_blockTables := (gs_blockTables d1)
        [l := gs_blockTables d1 ! l @ [gs_blockTables src1 ! l ! n]]\<rparr>) = ?tb (Suc n)"
    using g1(4) len pre(2) Suc.prems by (simp add: take_Suc_conv_app_nth)
  then show ?case using g1 g2
    by (intro exI [of _ g2] exI [of _ "d1\<lparr>gs_blockTables := (gs_blockTables d1)
        [l := gs_blockTables d1 ! l @ [gs_blockTables src1 ! l ! n]]\<rparr>"])
      (simp add: foldM_append)
qed

lemma gp_ok_same_tables:
  assumes ok: "gp_ok g" and d: "gp_seqs g d = Some dst" and t: "gs_blockTables dst' = gs_blockTables dst"
    and sq: "seq_ok (layers g) dst'"
  shows "gp_ok (g\<lparr>gp_seqs := (gp_seqs g)(d \<mapsto> dst')\<rparr>)"
proof (rule gp_ok_store [OF ok d same_shape_refl sq])
  show "counts_ok g (\<lambda>l. tables_at l (gp_seqs g) - mset (gs_blockTables dst ! l) + mset (gs_blockTables dst' ! l))"
    using gp_okD(3) [OF ok] tables_at_replace(2) [OF gp_okD(1) [OF ok] d] t
    by (simp add: subset_mset.diff_add)
qed

lemma share_layers_ok:
  assumes "gp_ok g" and "s \<in> dom (gp_seqs g)" and "d \<in> dom (gp_seqs g)" and "\<forall>l \<in> set ls. l < layers g"
  shows "\<exists>r g'. share_layers s d n ls g = Some (r, g') \<and> gp_ok g' \<and>
    dom (gp_seqs g') = dom (gp_seqs g) \<and>
    gp_numLayers g' = gp_numLayers g \<and> gp_maxBlocks g' = gp_maxBlocks g"
  using assms
proof (induction ls arbitrary: g)
  case Nil
  then show ?case by simp
next
  case (Cons l ls)
  obtain src dst where s: "gp_seqs g s = Some src" and d: "gp_seqs g d = Some dst"
    using Cons.prems(2,3) by blast
  have l: "l < layers g" using Cons.prems(4) by simp
  have sq: "seq_ok (layers g) src" "seq_ok (layers g) dst" using gp_okD(2) [OF Cons.prems(1)] s d by auto
  have len: "l < length (gs_blockTables src)" using sq l by (simp add: seq_ok_def)
  show ?case
  proof (cases "n > len (gs_blockTables src ! l)")
    case True
    then show ?thesis using s len Cons.prems(1) by simp
  next
    case False
    then have n: "nat n \<le> length (gs_blockTables src ! l)" by (simp add: len_def)
    obtain g1 d1 where g1: "foldM (\<lambda>i. share_one s d (int l) (int i)) [0..<nat n] g = Some g1" "gp_ok g1"
        "gp_seqs g1 = (gp_seqs g)(d \<mapsto> d1)" "gp_numLayers g1 = gp_numLayers g"
        "gp_maxBlocks g1 = gp_maxBlocks g"
      using share_loop_ok [OF Cons.prems(1) s d l n] by blast
    have sq1: "seq_ok (layers g) d1" using gp_okD(2) [OF g1(2), of d d1] g1(3,4) by simp
    let ?d = "d1\<lparr>gs_btDirty := (gs_btDirty d1)[l := True]\<rparr>"
    let ?g = "g1\<lparr>gp_seqs := (gp_seqs g1)(d \<mapsto> ?d)\<rparr>"
    have "gp_ok ?g"
      using g1(3,4) sq1 by (intro gp_ok_same_tables [OF g1(2)]) (simp_all add: seq_ok_def)
    then have "\<exists>r g'. share_layers s d n ls ?g = Some (r, g') \<and> gp_ok g' \<and>
        dom (gp_seqs g') = dom (gp_seqs ?g) \<and>
        gp_numLayers g' = gp_numLayers ?g \<and> gp_maxBlocks g' = gp_maxBlocks ?g"
      using Cons.prems(2-4) g1(3,4) by (intro Cons.IH) auto
    moreover have "l < length (gs_btDirty d1)" using sq1 l by (simp add: seq_ok_def)
    ultimately show ?thesis using s len False g1 Cons.prems(2,3) by auto
  qed
qed

lemma gp_ok_ShareBlocks:
  assumes ok: "gp_ok g"
  shows "\<exists>r g'. GPUBlockPool_ShareBlocks g s d n = Some (r, g') \<and> gp_ok g' \<and>
    gp_numLayers g' = gp_numLayers g \<and> gp_maxBlocks g' = gp_maxBlocks g"
proof (cases "s \<in> dom (gp_seqs g) \<and> d \<in> dom (gp_seqs g)")
  case False
  then show ?thesis using ok
    by (auto simp: GPUBlockPool_ShareBlocks_def domIff split: option.splits)
next
  case True
  have B: "0 < gp_blockSize g" using gp_okD(4) [OF ok] .
  then obtain k where k: "go_div (n + gp_blockSize g - 1) (gp_blockSize g) = Some k"
    by (auto simp: go_div_def)
  obtain r g1 where g1: "share_layers s d k [0..<layers g] g = Some (r, g1)" "gp_ok g1"
      "dom (gp_seqs g1) = dom (gp_seqs g)" "gp_numLayers g1 = gp_numLayers g"
      "gp_maxBlocks g1 = gp_maxBlocks g"
    using share_layers_ok [OF ok, of s d "[0..<layers g]" k] True by auto
  obtain dst where d: "gp_seqs g1 d = Some dst" using True g1(3) by blast
  have "gp_ok (g1\<lparr>gp_seqs := (gp_seqs g1)(d \<mapsto> dst\<lparr>gs_seqLen := n\<rparr>)\<rparr>)"
    using gp_okD(2) [OF g1(2) d] by (intro gp_ok_same_tables [OF g1(2) d]) (simp_all add: seq_ok_def)
  then show ?thesis using True k g1 d
    by (auto simp: GPUBlockPool_ShareBlocks_def split: option.splits)
qed

section \<open>Histories\<close>

text \<open>One call by the client; a store is of at least one token, and sequence ids are not reused.\<close>

inductive pool_step :: "GPUBlockPool \<Rightarrow> GPUBlockPool \<Rightarrow> bool" where
  create: "gp_seqs g s = None \<Longrightarrow> pool_step g (GPUBlockPool_CreateSequence g s)"
| delete: "GPUBlockPool_DeleteSequence g s = Some g' \<Longrightarrow> pool_step g g'"
| truncate: "GPUBlockPool_TruncateSequence g s n = Some g' \<Longrightarrow> pool_step g g'"
| store: "0 \<le> p \<Longrightarrow> 0 < n \<Longrightarrow> l < layers g \<Longrightarrow>
    GPUBlockPool_StoreKV g (int l) s p k v (int n) = Some (r, g') \<Longrightarrow> pool_step g g'"
| share: "GPUBlockPool_ShareBlocks g s d n = Some (r, g') \<Longrightarrow> pool_step g g'"

lemma pool_step_ok:
  "pool_step g g' \<Longrightarrow> gp_ok g \<Longrightarrow>
   gp_ok g' \<and> gp_numLayers g' = gp_numLayers g \<and> gp_maxBlocks g' = gp_maxBlocks g"
proof (induction rule: pool_step.induct)
  case (create g s)
  then show ?case using gp_ok_CreateSequence
    by (simp add: GPUBlockPool_CreateSequence_def Let_def)
next
  case (delete g s g')
  then show ?case using gp_ok_DeleteSequence [of g s] by auto
next
  case (truncate g s n g')
  show ?case
  proof (cases "\<exists>seq. gp_seqs g s = Some seq \<and> n < gs_seqLen seq")
    case True
    then show ?thesis using gp_ok_TruncateSequence [OF truncate(2)] truncate(1) by fastforce
  next
    case False
    then show ?thesis using truncate
      by (auto simp: GPUBlockPool_TruncateSequence_def split: option.splits if_splits)
  qed
next
  case (store p n l g s k v r g')
  show ?case
  proof (cases "gp_seqs g s")
    case None
    then show ?thesis using store by (simp add: GPUBlockPool_StoreKV_def)
  next
    case (Some seq)
    then show ?thesis
      using StoreKV_pool_ok [OF store(5) Some store(3,1,2), of k v] store(4) by auto
  qed
next
  case (share g s d n r g')
  then show ?case using gp_ok_ShareBlocks [of g s d n] by auto
qed

lemma pool_steps_ok:
  "pool_step\<^sup>*\<^sup>* g g' \<Longrightarrow> gp_ok g \<Longrightarrow>
   gp_ok g' \<and> gp_numLayers g' = gp_numLayers g \<and> gp_maxBlocks g' = gp_maxBlocks g"
  by (induction rule: rtranclp_induct) (auto dest: pool_step_ok)

section \<open>One layer as a block pool\<close>

definition gp_take :: "nat \<Rightarrow> GPUBlockPool \<Rightarrow> (int \<times> GPUBlockPool) option" where
  "gp_take l g = (case allocBlock g (int l) of Some (Inr b, g') \<Rightarrow> Some (b, g') | _ \<Rightarrow> None)"

definition gp_put :: "nat \<Rightarrow> int \<Rightarrow> GPUBlockPool \<Rightarrow> GPUBlockPool" where
  "gp_put l b g = (case releaseBlock g (int l) b of Some g' \<Rightarrow> g' | None \<Rightarrow> g)"

definition gp_layer_ok :: "nat \<Rightarrow> GPUBlockPool \<Rightarrow> bool" where
  "gp_layer_ok l g \<longleftrightarrow> shape_ok g \<and> l < layers g"

definition gp_sole :: "nat \<Rightarrow> int \<Rightarrow> GPUBlockPool \<Rightarrow> bool" where
  "gp_sole l b g \<longleftrightarrow> map_get 0 (gp_refCounts g ! l) b \<le> 1"

lemma gp_take_eq:
  assumes "gp_layer_ok l g"
  shows "gp_take l g = (if gp_freeLists g ! l = [] then None
    else Some (last (gp_freeLists g ! l),
      g\<lparr>gp_freeLists := (gp_freeLists g)[l := butlast (gp_freeLists g ! l)],
        gp_refCounts := (gp_refCounts g)[l := (gp_refCounts g ! l)(last (gp_freeLists g ! l) \<mapsto> 1)]\<rparr>))"
  using assms
  by (simp add: gp_take_def allocBlock_def gp_layer_ok_def shape_ok_def Let_def)

lemma gp_put_eq:
  assumes "gp_layer_ok l g" and "gp_sole l b g"
  shows "gp_put l b g =
    g\<lparr>gp_refCounts := (gp_refCounts g)[l := (gp_refCounts g ! l)(b := None)],
      gp_freeLists := (gp_freeLists g)[l := gp_freeLists g ! l @ [b]]\<rparr>"
  using assms
  by (simp add: gp_put_def releaseBlock_def gp_layer_ok_def shape_ok_def gp_sole_def)

interpretation gp: block_pool "gp_take l" "\<lambda>g. gp_freeLists g ! l" "gp_layer_ok l" "gp_put l" "gp_sole l"
  for l
proof unfold_locales
  fix g g' :: GPUBlockPool and b c :: int
  assume o: "gp_layer_ok l g"
  then have len: "l < length (gp_freeLists g)" "l < length (gp_refCounts g)"
    by (auto simp: gp_layer_ok_def shape_ok_def)
  note tk = gp_take_eq [OF o]
  show "gp_take l g = None \<longleftrightarrow> gp_freeLists g ! l = []" by (simp add: tk)
  {
    assume t: "gp_take l g = Some (b, g')"
    then have g': "gp_freeLists g ! l \<noteq> []" "b = last (gp_freeLists g ! l)"
      "g' = g\<lparr>gp_freeLists := (gp_freeLists g)[l := butlast (gp_freeLists g ! l)],
        gp_refCounts := (gp_refCounts g)[l := (gp_refCounts g ! l)(b \<mapsto> 1)]\<rparr>"
      by (auto simp: tk split: if_splits)
    show "gp_layer_ok l g'" using o by (simp add: g'(3) gp_layer_ok_def shape_ok_def)
    show "mset (gp_freeLists g ! l) = add_mset b (mset (gp_freeLists g' ! l))"
      using g'(2) len last_butlast_mset [OF g'(1)] by (simp add: g'(3))
    show "gp_sole l b g'" using len by (simp add: g'(3) gp_sole_def)
    show "gp_sole l c g'" if "c \<noteq> b" "gp_sole l c g"
      using that len by (simp add: g'(3) gp_sole_def)
  }
  assume s: "gp_sole l b g"
  note pt = gp_put_eq [OF o s]
  show "gp_layer_ok l (gp_put l b g)" using o by (simp add: pt gp_layer_ok_def shape_ok_def)
  show "mset (gp_freeLists (gp_put l b g) ! l) = add_mset b (mset (gp_freeLists g ! l))"
    using len by (simp add: pt)
  show "gp_sole l c (gp_put l b g)" if "c \<noteq> b" "gp_sole l c g"
    using that len by (simp add: pt gp_sole_def)
qed

section \<open>Gathering\<close>

text \<open>The copies are back to back: each starts where the previous one ended.\<close>

fun back_to_back :: "int \<Rightarrow> (int \<times> int \<times> int) list \<Rightarrow> bool" where
  "back_to_back pos [] = True"
| "back_to_back pos ((src, dst, n) # cs) = (dst = pos \<and> 0 \<le> n \<and> back_to_back (dst + n) cs)"

lemma gather_copies_back_to_back:
  assumes "0 < gp_blockSize g" and "0 \<le> gp_numKVHeads g * gp_headDim g * gp_bytesPerElement g"
  shows "back_to_back (lb * gp_blockSize g * (gp_numKVHeads g * gp_headDim g) * gp_bytesPerElement g)
    (gather_copies g lb bt n)"
proof (induction bt arbitrary: lb n)
  case Nil
  then show ?case by simp
next
  case (Cons b bt)
  let ?B = "gp_blockSize g" and ?w = "gp_numKVHeads g * gp_headDim g" and ?e = "gp_bytesPerElement g"
  have we: "0 \<le> ?w * ?e" using assms(2) .
  show ?case
  proof (cases "n > 0")
    case False
    then show ?thesis by simp
  next
    case n: True
    show ?thesis
    proof (cases "?B > n")
      case True
      have "0 \<le> n * (?w * ?e)" using n we by simp
      moreover have "gather_copies g (lb + 1) bt 0 = []" by (cases bt) simp_all
      ultimately show ?thesis using True n by (simp add: Let_def mult.assoc)
    next
      case False
      have e: "lb * ?B * ?w * ?e + ?B * ?w * ?e = (lb + 1) * ?B * ?w * ?e"
        by (simp add: algebra_simps)
      have "0 \<le> ?B * (?w * ?e)" using assms(1) we by simp
      then show ?thesis using False n Cons.IH [of "lb + 1" "n - ?B"] e
        by (simp add: Let_def mult.assoc)
    qed
  qed
qed

lemma gather_copies_total:
  assumes "0 < gp_blockSize g" and "0 \<le> n" and "n \<le> len bt * gp_blockSize g"
  shows "sum_list (map (\<lambda>(src, dst, k). k) (gather_copies g lb bt n)) =
    n * (gp_numKVHeads g * gp_headDim g) * gp_bytesPerElement g"
  using assms(2,3)
proof (induction bt arbitrary: lb n)
  case Nil
  then show ?case by simp
next
  case (Cons b bt)
  show ?case
  proof (cases "n > gp_blockSize g")
    case True
    have "sum_list (map (\<lambda>(src, dst, k). k) (gather_copies g (lb + 1) bt (n - gp_blockSize g))) =
      (n - gp_blockSize g) * (gp_numKVHeads g * gp_headDim g) * gp_bytesPerElement g"
      using Cons.prems True by (intro Cons.IH) (auto simp: algebra_simps)
    then show ?thesis using True assms(1) by (simp add: Let_def algebra_simps)
  next
    case False
    have z: "gather_copies g (lb + 1) bt 0 = []" by (cases bt) simp_all
    show ?thesis using False Cons.prems z assms(1)
      by (cases "n = 0"; cases "n = gp_blockSize g") (auto simp: Let_def)
  qed
qed

section \<open>Bytes\<close>

text \<open>What the kernel reads: four little-endian bytes as a signed 32-bit integer.\<close>

fun int32_of_bytes :: "byte list \<Rightarrow> int list" where
  "int32_of_bytes (a # b # c # d # bs) =
     sint (or (ucast a) (or (push_bit 8 (ucast b)) (or (push_bit 16 (ucast c)) (push_bit 24 (ucast d)))) :: 32 word)
       # int32_of_bytes bs"
| "int32_of_bytes bs = []"

lemma word_of_le_bytes:
  "or (ucast (ucast u :: byte)) (or (push_bit 8 (ucast (ucast (drop_bit 8 u) :: byte)))
     (or (push_bit 16 (ucast (ucast (drop_bit 16 u) :: byte)))
       (push_bit 24 (ucast (ucast (drop_bit 24 u) :: byte))))) = (u :: 32 word)"
proof (rule bit_word_eqI)
  fix n
  assume "n < LENGTH(32)"
  then consider "n < 8" | "8 \<le> n" "n < 16" | "16 \<le> n" "n < 24" | "24 \<le> n" "n < 32" by force
  then show "bit (or (ucast (ucast u :: byte)) (or (push_bit 8 (ucast (ucast (drop_bit 8 u) :: byte)))
     (or (push_bit 16 (ucast (ucast (drop_bit 16 u) :: byte)))
       (push_bit 24 (ucast (ucast (drop_bit 24 u) :: byte))))) :: 32 word) n \<longleftrightarrow> bit u n"
    by cases (auto simp: bit_simps)
qed

lemma sint_word_of_int32:
  "- (2 ^ 31) \<le> v \<Longrightarrow> v < 2 ^ 31 \<Longrightarrow> sint (word_of_int v :: 32 word) = v"
  unfolding sint_sbintrunc' by (rule signed_take_bit_int_eq_self) auto

lemma length_gpuInt32ToBytes: "length (gpuInt32ToBytes xs) = 4 * length xs"
  by (induction xs) (simp_all add: gpuInt32ToBytes_def le_bytes_def Let_def)

lemma bytes_roundtrip:
  "\<forall>v \<in> set xs. - (2 ^ 31) \<le> v \<and> v < 2 ^ 31 \<Longrightarrow> int32_of_bytes (gpuInt32ToBytes xs) = xs"
proof (induction xs)
  case Nil
  then show ?case by (simp add: gpuInt32ToBytes_def)
next
  case (Cons v xs)
  then have v: "sint (word_of_int v :: 32 word) = v" by (intro sint_word_of_int32) auto
  have "gpuInt32ToBytes (v # xs) = le_bytes v @ gpuInt32ToBytes xs" by (simp add: gpuInt32ToBytes_def)
  then show ?case using Cons by (simp add: le_bytes_def Let_def word_of_le_bytes v)
qed

section \<open>A small pool\<close>

definition demo_device :: GpuDevice where
  "demo_device = \<lparr>gd_ptr = (\<lambda>n. NewDevicePtr Metal (word_of_int (4096 * (int n + 1)))),
     gd_copier = True, gd_multiquery = False, gd_count = 0, gd_log = []\<rparr>"

definition demo_pool :: GPUBlockPool where
  "demo_pool = GPUBlockPool_CreateSequence (the (NewGPUBlockPool demo_device 2 1 1 2 4 False)) 7"

lemma demo_pool_ok:
  "gp_ok demo_pool" "gp_numLayers demo_pool = 2" "gp_blockSize demo_pool = 2"
  "gp_seqs demo_pool = [7 \<mapsto> \<lparr>gs_blockTables = [[], []], gs_seqLen = 0,
     gs_btGPU = [nil_ptr, nil_ptr], gs_btDirty = [False, False]\<rparr>]"
proof -
  obtain g where g: "NewGPUBlockPool demo_device 2 1 1 2 4 False = Some g" "gp_ok g"
      "gp_seqs g = Map.empty" "gp_numLayers g = 2" "gp_blockSize g = 2"
    using gp_ok_New [of 2 2 4 demo_device 1 1 False] by auto
  then have d: "demo_pool = GPUBlockPool_CreateSequence g 7" by (simp add: demo_pool_def)
  show "gp_ok demo_pool" unfolding d using g(2,3) by (intro gp_ok_CreateSequence) simp_all
  show "gp_numLayers demo_pool = 2" "gp_blockSize demo_pool = 2"
    "gp_seqs demo_pool = [7 \<mapsto> \<lparr>gs_blockTables = [[], []], gs_seqLen = 0,
     gs_btGPU = [nil_ptr, nil_ptr], gs_btDirty = [False, False]\<rparr>]"
    unfolding d using g
    by (simp_all add: GPUBlockPool_CreateSequence_def Let_def numeral_2_eq_2)
qed

section \<open>Properties\<close>



text \<open>
  C13: A store of \<open>n\<close> tokens into a live sequence of a well-formed GPU pool always returns and keeps the
  pool well-formed. On success the block table has been extended to cover the new end, the length is
  the maximum of the old one and the new end, and the device has been told, token after token, the
  physical block and offset \<open>(table[pos / blockSize], pos % blockSize)\<close> of each position, with the
  key scattered before the value. On failure the layer has no free block, and the device has been told
  nothing.
\<close>

theorem GPUBlockPool_StoreKV_scatters:
  assumes "gp_ok g" and "gp_seqs g s = Some seq" and "l < layers g" and "0 \<le> startPos" and "0 < n"
  shows "\<exists>r g' seq' bs. GPUBlockPool_StoreKV g (int l) s startPos kPtr vPtr (int n) = Some (r, g') \<and>
    gp_ok g' \<and> gp_seqs g' = (gp_seqs g)(s \<mapsto> seq') \<and>
    gs_blockTables seq' = (gs_blockTables seq)[l := gs_blockTables seq ! l @ bs] \<and>
    (case r of
       None \<Rightarrow> gs_seqLen seq' = max (gs_seqLen seq) (startPos + int n) \<and>
         startPos + int n \<le> len (gs_blockTables seq' ! l) * gp_blockSize g \<and>
         gd_log (gp_dev g') = gd_log (gp_dev g) @
           store_calls g (gp_pools g ! l) (gs_blockTables seq' ! l) startPos kPtr vPtr n
     | Some e \<Rightarrow> e = NoFreeBlock (int l) \<and> gp_freeLists g' ! l = [] \<and>
         gs_seqLen seq' = gs_seqLen seq \<and> gd_log (gp_dev g') = gd_log (gp_dev g))"
  using StoreKV_pool_ok [OF assms, of kPtr vPtr] by blast

theorem GPUBlockPool_StoreKV_scatters_witness:
  "\<exists>r g'. GPUBlockPool_StoreKV demo_pool (int 1) 7 3 nil_ptr nil_ptr (int 2) = Some (r, g') \<and> gp_ok g'"
  using GPUBlockPool_StoreKV_scatters [of demo_pool 7 _ 1 3 2 nil_ptr nil_ptr] demo_pool_ok
  by (auto simp: demo_pool_ok(4))



text \<open>
  A block table uploaded as bytes reads back as itself: little-endian decoding of
  \<open>gpuInt32ToBytes\<close> is the identity on 32-bit signed integers.
\<close>

theorem gpuInt32ToBytes_roundtrip:
  assumes "\<forall>v \<in> set xs. - (2 ^ 31) \<le> v \<and> v < 2 ^ 31"
  shows "int32_of_bytes (gpuInt32ToBytes xs) = xs \<and> length (gpuInt32ToBytes xs) = 4 * length xs"
  using bytes_roundtrip [OF assms] length_gpuInt32ToBytes by blast

theorem gpuInt32ToBytes_roundtrip_witness:
  "int32_of_bytes (gpuInt32ToBytes [5, -1, 70000]) = [5, -1, 70000]"
  using gpuInt32ToBytes_roundtrip [of "[5, -1, 70000]"] by simp

text \<open>
  Drawing any number of blocks from a layer for a fresh table, and then releasing them all, leaves
  the free list of that layer with the blocks it had.
\<close>

theorem GPU_layer_draw_and_release:
  assumes "gp_layer_ok l g" and "distinct (gp_freeLists g ! l)"
    and "grow (gp_take l) n g [] = (r, g', bt)"
  shows "mset (gp_freeLists (fold (gp_put l) bt g') ! l) = mset (gp_freeLists g ! l)"
  using assms by (rule gp.grow_release)

theorem GPU_layer_draw_and_release_witness:
  "mset (gp_freeLists (fold (gp_put 1) (snd (snd (grow (gp_take 1) 3 demo_pool [])))
      (fst (snd (grow (gp_take 1) 3 demo_pool [])))) ! 1) = mset (gp_freeLists demo_pool ! 1)"
proof (rule GPU_layer_draw_and_release)
  have c: "counts_ok demo_pool (\<lambda>l. tables_at l (gp_seqs demo_pool))" using demo_pool_ok(1) gp_okD(3) by blast
  then show "gp_layer_ok 1 demo_pool" using demo_pool_ok(2) by (simp add: gp_layer_ok_def counts_ok_def)
  show "distinct (gp_freeLists demo_pool ! 1)"
    using c demo_pool_ok(2) by (simp add: counts_ok_def layer_ok_def)
  show "grow (gp_take 1) 3 demo_pool [] = (fst (grow (gp_take 1) 3 demo_pool []),
      fst (snd (grow (gp_take 1) 3 demo_pool [])), snd (snd (grow (gp_take 1) 3 demo_pool [])))"
    by simp
qed

text \<open>
  The upload of a dirty table allocates room for the blocks in use and sends the whole table: with an
  explicit length shorter than the table, more bytes are sent than were allocated.
\<close>

lemma sync_table_upload:
  assumes "idx (gs_btDirty seq) l = Some True" and "idx (gs_btGPU seq) l = Some nil_ptr"
    and "sync_table l bt n (g, seq) = Some (g', seq')"
  shows "\<exists>q. gd_log (gp_dev g') = gd_log (gp_dev g) @ [CAlloc (n * 4), CToDevice q (gpuInt32ToBytes bt)] \<and>
    length (gpuInt32ToBytes bt) = 4 * length bt"
  using assms
  by (auto simp: sync_table_def Let_def gp_alloc_def dev_alloc_def dev_call_def length_gpuInt32ToBytes
      nil_ptr_def DevicePtr_IsNil_def split: Option.bind_splits prod.splits)

end
