(* ===== verification/Float32.thy ===== *)
theory Float32
  imports Prelude
begin

text \<open>
  A Go \<open>float32\<close> as its 32-bit pattern: the value of a pattern in units of the smallest subnormal
  (\<open>2 ^ -149\<close>), the comparisons of Go (false for a NaN), and the fact that the comparisons can be
  decided on the pattern read as a signed magnitude. The arithmetic is in \<open>Float32_Arith\<close>.
\<close>

type_synonym f32 = "32 word"

text \<open>Exponent and mantissa together, without the sign bit.\<close>

definition f32_mag :: "f32 \<Rightarrow> nat" where
  "f32_mag x = unat (take_bit 31 x)"

definition f32_neg :: "f32 \<Rightarrow> bool" where
  "f32_neg x = bit x 31"

definition f32_nan :: "f32 \<Rightarrow> bool" where
  "f32_nan x = (f32_mag x > 0x7F800000)"

definition mag_val :: "nat \<Rightarrow> int" where
  "mag_val n = (let e = n div 2 ^ 23; m = n mod 2 ^ 23 in
     if e = 0 then int m else (2 ^ 23 + int m) * 2 ^ (e - 1))"

definition f32_val :: "f32 \<Rightarrow> int" where
  "f32_val x = (if f32_neg x then - mag_val (f32_mag x) else mag_val (f32_mag x))"

definition f32_less :: "f32 \<Rightarrow> f32 \<Rightarrow> bool" where
  "f32_less x y = (\<not> f32_nan x \<and> \<not> f32_nan y \<and> f32_val x < f32_val y)"

definition f32_le :: "f32 \<Rightarrow> f32 \<Rightarrow> bool" where
  "f32_le x y = (\<not> f32_nan x \<and> \<not> f32_nan y \<and> f32_val x \<le> f32_val y)"

definition f32_eq :: "f32 \<Rightarrow> f32 \<Rightarrow> bool" where
  "f32_eq x y = (\<not> f32_nan x \<and> \<not> f32_nan y \<and> f32_val x = f32_val y)"

definition f32_minus_one :: f32 where
  "f32_minus_one = 0xBF800000"

text \<open>The value grows with the magnitude.\<close>

lemma mag_val_Suc: "mag_val n < mag_val (Suc n)"
proof -
  let ?e = "n div 2 ^ 23" and ?m = "n mod 2 ^ 23"
  have n: "n = ?e * 2 ^ 23 + ?m" by simp
  show ?thesis
  proof (cases "Suc ?m = 2 ^ 23")
    case True
    then have s: "Suc n = (?e + 1) * 2 ^ 23" using n by (simp add: algebra_simps)
    have "Suc n div 2 ^ 23 = ?e + 1" "Suc n mod 2 ^ 23 = 0" by (subst s, simp)+
    moreover have "(2 ^ 23 + int ?m) * 2 ^ (?e - 1) < 2 ^ 23 * 2 ^ ?e" if "?e \<noteq> 0"
    proof -
      have "(2::int) ^ ?e = 2 * 2 ^ (?e - 1)" using that by (metis Suc_pred' bot_nat_0.not_eq_extremum power_Suc)
      moreover have "2 ^ 23 + int ?m < 2 ^ 23 * 2" using True by simp
      ultimately show ?thesis by simp
    qed
    ultimately show ?thesis using True by (auto simp: mag_val_def Let_def)
  next
    case False
    moreover have "?m < 2 ^ 23" by simp
    ultimately have "Suc ?m < 2 ^ 23" by linarith
    then have "Suc n div 2 ^ 23 = ?e" "Suc n mod 2 ^ 23 = Suc ?m"
      by (auto simp: div_Suc mod_Suc)
    then show ?thesis by (simp add: mag_val_def Let_def)
  qed
qed

lemma mag_val_less_iff: "mag_val a < mag_val b \<longleftrightarrow> a < b"
  using lift_Suc_mono_less_iff [of mag_val a b] mag_val_Suc by simp

lemma mag_val_0 [simp]: "mag_val 0 = 0"
  by (simp add: mag_val_def)

text \<open>A pattern as a signed magnitude; both zeros have key 0.\<close>

definition f32_key :: "f32 \<Rightarrow> int" where
  "f32_key x = (if f32_neg x then - int (f32_mag x) else int (f32_mag x))"

lemma mag_val_eq_iff: "mag_val a = mag_val b \<longleftrightarrow> a = b"
  by (metis mag_val_less_iff nat_neq_iff order_less_irrefl)

lemma mag_val_nonneg: "0 \<le> mag_val a"
  using mag_val_less_iff [of a 0] by simp

lemma f32_val_less_key: "f32_val x < f32_val y \<longleftrightarrow> f32_key x < f32_key y"
proof -
  have "mag_val a + mag_val b = 0 \<longleftrightarrow> a = 0 \<and> b = 0" for a b
    using mag_val_nonneg [of a] mag_val_nonneg [of b] mag_val_eq_iff [of _ 0] by force
  moreover have "- mag_val a < mag_val b \<longleftrightarrow> \<not> (mag_val a + mag_val b = 0)" for a b
    using mag_val_nonneg [of a] mag_val_nonneg [of b] by force
  moreover have "\<not> mag_val a < - mag_val b" for a b
    using mag_val_nonneg [of a] mag_val_nonneg [of b] by force
  ultimately show ?thesis by (auto simp: f32_val_def f32_key_def mag_val_less_iff)
qed

lemma f32_less_key: "f32_less x y \<longleftrightarrow> \<not> f32_nan x \<and> \<not> f32_nan y \<and> f32_key x < f32_key y"
  by (simp add: f32_less_def f32_val_less_key)

lemma f32_less_trans: "f32_less x y \<Longrightarrow> f32_less y z \<Longrightarrow> f32_less x z"
  by (auto simp: f32_less_def)

lemma f32_less_irrefl [simp]: "\<not> f32_less x x"
  by (simp add: f32_less_def)

lemma f32_less_linear: "\<not> f32_nan x \<Longrightarrow> \<not> f32_nan y \<Longrightarrow> f32_less x y \<or> f32_eq x y \<or> f32_less y x"
  by (auto simp: f32_less_def f32_eq_def)

lemma f32_zero [simp]: "f32_val 0 = 0" "\<not> f32_nan 0"
  by (simp_all add: f32_val_def f32_nan_def f32_mag_def f32_neg_def)

end
