(* ===== verification/Gen_Sequence.thy ===== *)
theory Gen_Sequence
  imports Float32
begin

text \<open>
  The file \<open>inference/scheduler/sequence.go\<close>: one generation request. The token channel is the list of
  buffered strings and a closed flag; a send or a close on a closed channel panics (\<open>None\<close>).
\<close>

section \<open>Numbers as text\<close>

section \<open>The sequence\<close>

type_synonym SequenceID = int

definition SequenceID_String :: "SequenceID \<Rightarrow> string" where
  "SequenceID_String i = string_of_int i"

datatype SequenceState = StatePending | StatePrefill | StateDecoding | StateFinished | OtherState int

fun SequenceState_String :: "SequenceState \<Rightarrow> string" where
  "SequenceState_String StatePending = ''Pending''"
| "SequenceState_String StatePrefill = ''Prefill''"
| "SequenceState_String StateDecoding = ''Decoding''"
| "SequenceState_String StateFinished = ''Finished''"
| "SequenceState_String (OtherState _) = ''Unknown''"

record Sequence =
  sq_id :: SequenceID
  sq_prompt :: string
  sq_state :: SequenceState
  sq_promptTokens :: "int list"
  sq_promptPos :: int
  sq_position :: int
  sq_generatedTokens :: "int list"
  sq_kvSeqID :: int
  sq_maxTokens :: int
  sq_temperature :: f32
  sq_topK :: int
  sq_topP :: f32
  sq_stopTokens :: "int list"
  sq_tokenChan :: "string list"
  sq_closed :: bool

definition chan_capacity :: int where
  "chan_capacity = 100"

definition NewSequence :: "SequenceID \<Rightarrow> string \<Rightarrow> Sequence" where
  "NewSequence i prompt =
     \<lparr>sq_id = i, sq_prompt = prompt, sq_state = StatePending, sq_promptTokens = [], sq_promptPos = 0,
      sq_position = 0, sq_generatedTokens = [], sq_kvSeqID = 0, sq_maxTokens = 0, sq_temperature = 0,
      sq_topK = 0, sq_topP = 0, sq_stopTokens = [], sq_tokenChan = [], sq_closed = False\<rparr>"

definition Sequence_SetState :: "Sequence \<Rightarrow> SequenceState \<Rightarrow> Sequence" where
  "Sequence_SetState s st = s\<lparr>sq_state := st\<rparr>"

definition Sequence_SetPromptTokens :: "Sequence \<Rightarrow> int list \<Rightarrow> Sequence" where
  "Sequence_SetPromptTokens s tokens = s\<lparr>sq_promptTokens := tokens\<rparr>"

definition Sequence_NextInputToken :: "Sequence \<Rightarrow> (int \<times> int \<times> bool) option" where
  "Sequence_NextInputToken s =
     (if sq_promptPos s < len (sq_promptTokens s) then
        do { token \<leftarrow> idx (sq_promptTokens s) (sq_promptPos s); Some (token, sq_promptPos s, True) }
      else if len (sq_generatedTokens s) > 0 then
        do { token \<leftarrow> idx (sq_generatedTokens s) (len (sq_generatedTokens s) - 1);
             Some (token, sq_position s, True) }
      else Some (0, 0, False))"

definition Sequence_AdvancePosition :: "Sequence \<Rightarrow> Sequence" where
  "Sequence_AdvancePosition s =
     (let s1 = (if sq_promptPos s < len (sq_promptTokens s) then s\<lparr>sq_promptPos := sq_promptPos s + 1\<rparr> else s)
      in s1\<lparr>sq_position := sq_position s1 + 1\<rparr>)"

definition Sequence_AddGeneratedToken :: "Sequence \<Rightarrow> int \<Rightarrow> Sequence" where
  "Sequence_AddGeneratedToken s tokenID = s\<lparr>sq_generatedTokens := sq_generatedTokens s @ [tokenID]\<rparr>"

definition Sequence_SetMaxTokens :: "Sequence \<Rightarrow> int \<Rightarrow> Sequence" where
  "Sequence_SetMaxTokens s n = s\<lparr>sq_maxTokens := n\<rparr>"

definition Sequence_SetSamplingParams :: "Sequence \<Rightarrow> f32 \<Rightarrow> int \<Rightarrow> f32 \<Rightarrow> Sequence" where
  "Sequence_SetSamplingParams s temperature topK topP =
     s\<lparr>sq_temperature := temperature, sq_topK := topK, sq_topP := topP\<rparr>"

definition Sequence_HasSamplingParams :: "Sequence \<Rightarrow> bool" where
  "Sequence_HasSamplingParams s =
     (f32_less 0 (sq_temperature s) \<or> sq_topK s > 0 \<or> f32_less 0 (sq_topP s))"

definition Sequence_SamplingTemperature :: "Sequence \<Rightarrow> f32" where
  "Sequence_SamplingTemperature s = (if f32_less 0 (sq_temperature s) then sq_temperature s else f32_minus_one)"

definition Sequence_SamplingTopK :: "Sequence \<Rightarrow> int" where
  "Sequence_SamplingTopK s = (if sq_topK s > 0 then sq_topK s else -1)"

definition Sequence_SamplingTopP :: "Sequence \<Rightarrow> f32" where
  "Sequence_SamplingTopP s = (if f32_less 0 (sq_topP s) then sq_topP s else f32_minus_one)"

definition Sequence_ReachedMaxTokens :: "Sequence \<Rightarrow> int \<Rightarrow> bool" where
  "Sequence_ReachedMaxTokens s globalMax =
     (let limit = sq_maxTokens s; limit1 = (if limit \<le> 0 then globalMax else limit)
      in limit1 > 0 \<and> len (sq_generatedTokens s) \<ge> limit1)"

definition Sequence_IsPrefillComplete :: "Sequence \<Rightarrow> bool" where
  "Sequence_IsPrefillComplete s = (sq_promptPos s \<ge> len (sq_promptTokens s))"

definition Sequence_SetPrefillComplete :: "Sequence \<Rightarrow> int \<Rightarrow> Sequence" where
  "Sequence_SetPrefillComplete s numTokens =
     s\<lparr>sq_promptPos := len (sq_promptTokens s), sq_position := numTokens\<rparr>"

text \<open>The send of \<open>PushToken\<close> is a \<open>select\<close> with a default case: a full channel drops the token.\<close>

definition Sequence_PushToken :: "Sequence \<Rightarrow> string \<Rightarrow> Sequence option" where
  "Sequence_PushToken s token =
     (if sq_closed s then None
      else if len (sq_tokenChan s) < chan_capacity then Some (s\<lparr>sq_tokenChan := sq_tokenChan s @ [token]\<rparr>)
      else Some s)"

definition Sequence_Close :: "Sequence \<Rightarrow> Sequence option" where
  "Sequence_Close s = (if sq_closed s then None else Some (s\<lparr>sq_closed := True\<rparr>))"

definition Sequence_SetKVSeqID :: "Sequence \<Rightarrow> int \<Rightarrow> Sequence" where
  "Sequence_SetKVSeqID s i = s\<lparr>sq_kvSeqID := i\<rparr>"

definition Sequence_SetStopTokens :: "Sequence \<Rightarrow> int list \<Rightarrow> Sequence" where
  "Sequence_SetStopTokens s ids = s\<lparr>sq_stopTokens := ids\<rparr>"

fun is_stop_in :: "int list \<Rightarrow> int \<Rightarrow> bool" where
  "is_stop_in [] tokenID = False"
| "is_stop_in (i # ids) tokenID = (if tokenID = i then True else is_stop_in ids tokenID)"

definition Sequence_IsExtraStopToken :: "Sequence \<Rightarrow> int \<Rightarrow> bool" where
  "Sequence_IsExtraStopToken s tokenID = is_stop_in (sq_stopTokens s) tokenID"

lemma is_stop_in_set [simp]: "is_stop_in ids t \<longleftrightarrow> t \<in> set ids"
  by (induction ids) auto

lemmas sequence_defs = Sequence_SetState_def Sequence_AdvancePosition_def Sequence_AddGeneratedToken_def
  Sequence_PushToken_def Sequence_Close_def Sequence_SetPrefillComplete_def Sequence_ReachedMaxTokens_def
  Sequence_IsPrefillComplete_def

end
