(* ===== verification/Block_Allocator.thy ===== *)
theory Block_Allocator
  imports Block_Source
begin

text \<open>
  The first half of \<open>inference/kv/paged.go\<close>: the configuration of the paged KV cache, its physical
  blocks, and \<open>BlockAllocator\<close>, which keeps one free list per layer and one table of reference
  counts for all layers. A block is addressed by its layer and its \<open>BlockID\<close>; a \<open>*Block\<close>
  returned by the code is the block stored at that address. Elements of type \<open>float32\<close> are values
  of a type \<open>'f\<close> with a zero: no operation of the package computes with them.
\<close>

type_synonym BlockID = int

definition InvalidBlockID :: BlockID where
  "InvalidBlockID = -1"

record PagedKVConfig =
  cfg_NumLayers :: int
  cfg_NumKVHeads :: int
  cfg_HeadDim :: int
  cfg_BlockSize :: int
  cfg_MaxBlocks :: int

definition BlockSizeFloats :: "PagedKVConfig \<Rightarrow> int" where
  "BlockSizeFloats c = 2 * cfg_BlockSize c * cfg_NumKVHeads c * cfg_HeadDim c"

definition KVSizeFloats :: "PagedKVConfig \<Rightarrow> int" where
  "KVSizeFloats c = cfg_BlockSize c * cfg_NumKVHeads c * cfg_HeadDim c"

record 'f Block =
  blk_ID :: BlockID
  blk_LayerIdx :: int
  blk_Data :: "'f list"
  blk_NumTokens :: int

record 'f BlockAllocator =
  ba_config :: PagedKVConfig
  ba_blocks :: "'f Block list list"
  ba_freeList :: "BlockID list list"
  ba_refCounts :: "BlockID \<rightharpoonup> int"

datatype alloc_error = InvalidLayer int | NoFreeBlocks int

definition new_block :: "PagedKVConfig \<Rightarrow> nat \<Rightarrow> nat \<Rightarrow> 'f::zero Block" where
  "new_block c layer i =
     \<lparr>blk_ID = int32_of (int i), blk_LayerIdx = int layer,
      blk_Data = replicate (nat (BlockSizeFloats c)) 0, blk_NumTokens = 0\<rparr>"

text \<open>The three calls of \<open>make\<close> panic on a negative length, each only if it is reached.\<close>

definition NewBlockAllocator :: "PagedKVConfig \<Rightarrow> 'f::zero BlockAllocator option" where
  "NewBlockAllocator c =
     (if cfg_NumLayers c < 0 \<or>
         (0 < cfg_NumLayers c \<and>
           (cfg_MaxBlocks c < 0 \<or> (0 < cfg_MaxBlocks c \<and> BlockSizeFloats c < 0)))
      then None
      else
        let layers = [0..<nat (cfg_NumLayers c)]; ids = [0..<nat (cfg_MaxBlocks c)] in
        Some \<lparr>ba_config = c,
              ba_blocks = map (\<lambda>layer. map (new_block c layer) ids) layers,
              ba_freeList =
                map (\<lambda>layer. map (\<lambda>i. int32_of (cfg_MaxBlocks c - 1 - int i)) ids) layers,
              ba_refCounts = Map.empty\<rparr>)"

definition BlockAllocator_Allocate ::
  "'f BlockAllocator \<Rightarrow> int \<Rightarrow> ((alloc_error + 'f Block) \<times> 'f BlockAllocator) option" where
  "BlockAllocator_Allocate a layer =
     (if layer \<ge> len (ba_freeList a) then Some (Inl (InvalidLayer layer), a)
      else do {
        fl \<leftarrow> idx (ba_freeList a) layer;
        if len fl = 0 then Some (Inl (NoFreeBlocks layer), a)
        else do {
          let blockID = last fl;
          frees \<leftarrow> upd (ba_freeList a) layer (butlast fl);
          bs \<leftarrow> idx (ba_blocks a) layer;
          b \<leftarrow> idx bs blockID;
          let block = b\<lparr>blk_NumTokens := 0\<rparr>;
          bs' \<leftarrow> upd bs blockID block;
          blocks \<leftarrow> upd (ba_blocks a) layer bs';
          Some (Inr block,
                a\<lparr>ba_freeList := frees, ba_blocks := blocks,
                  ba_refCounts := (ba_refCounts a)(blockID \<mapsto> 1)\<rparr>)
        }
      })"

definition BlockAllocator_Free ::
  "'f BlockAllocator \<Rightarrow> int \<Rightarrow> BlockID \<Rightarrow> 'f BlockAllocator option" where
  "BlockAllocator_Free a layer blockID =
     (if layer \<ge> len (ba_freeList a) \<or> blockID < 0 then Some a
      else do {
        bs \<leftarrow> idx (ba_blocks a) layer;
        if blockID \<ge> len bs then Some a
        else
          let rc = map_get 0 (ba_refCounts a) blockID - 1 in
          if rc \<le> 0 then do {
            fl \<leftarrow> idx (ba_freeList a) layer;
            frees \<leftarrow> upd (ba_freeList a) layer (fl @ [blockID]);
            Some (a\<lparr>ba_refCounts := (ba_refCounts a)(blockID := None), ba_freeList := frees\<rparr>)
          }
          else Some (a\<lparr>ba_refCounts := (ba_refCounts a)(blockID \<mapsto> rc)\<rparr>)
      })"

definition BlockAllocator_AddRef :: "'f BlockAllocator \<Rightarrow> BlockID \<Rightarrow> 'f BlockAllocator" where
  "BlockAllocator_AddRef a blockID =
     a\<lparr>ba_refCounts := (ba_refCounts a)(blockID \<mapsto> map_get 0 (ba_refCounts a) blockID + 1)\<rparr>"

text \<open>The outer option is a panic, the inner one the nil pointer.\<close>

definition BlockAllocator_GetBlock ::
  "'f BlockAllocator \<Rightarrow> int \<Rightarrow> BlockID \<Rightarrow> 'f Block option option" where
  "BlockAllocator_GetBlock a layer blockID =
     (if layer \<ge> len (ba_blocks a) \<or> blockID < 0 then Some None
      else do {
        bs \<leftarrow> idx (ba_blocks a) layer;
        if blockID \<ge> len bs then Some None else Some (idx bs blockID)
      })"

definition BlockAllocator_FreeCount :: "'f BlockAllocator \<Rightarrow> int \<Rightarrow> int option" where
  "BlockAllocator_FreeCount a layer =
     (if layer \<ge> len (ba_freeList a) then Some 0
      else do { fl \<leftarrow> idx (ba_freeList a) layer; Some (len fl) })"

definition BlockAllocator_Config :: "'f BlockAllocator \<Rightarrow> PagedKVConfig" where
  "BlockAllocator_Config a = ba_config a"

section \<open>Well-formed allocators\<close>

text \<open>A configuration for which \<open>NewBlockAllocator\<close> and the 32-bit block ids make sense.\<close>

definition cfg_ok :: "PagedKVConfig \<Rightarrow> bool" where
  "cfg_ok c \<longleftrightarrow> 0 \<le> cfg_NumLayers c \<and> 0 \<le> cfg_NumKVHeads c \<and> 0 \<le> cfg_HeadDim c \<and>
     0 < cfg_BlockSize c \<and> 0 \<le> cfg_MaxBlocks c \<and> cfg_MaxBlocks c \<le> 2 ^ 31"

abbreviation nlayers :: "PagedKVConfig \<Rightarrow> nat" where
  "nlayers c \<equiv> nat (cfg_NumLayers c)"

abbreviation nblocks :: "PagedKVConfig \<Rightarrow> nat" where
  "nblocks c \<equiv> nat (cfg_MaxBlocks c)"

text \<open>The block ids of a pool.\<close>

definition block_ids :: "PagedKVConfig \<Rightarrow> int list" where
  "block_ids c = map int [0..<nblocks c]"

lemma set_block_ids: "set (block_ids c) = {b. 0 \<le> b \<and> b < cfg_MaxBlocks c}"
proof -
  have "\<exists>n \<in> {0..<nblocks c}. b = int n" if "0 \<le> b" "b < cfg_MaxBlocks c" for b
    using that by (intro bexI [of _ "nat b"]) auto
  then show ?thesis by (auto simp: block_ids_def image_iff)
qed

lemma distinct_block_ids [simp]: "distinct (block_ids c)"
  by (simp add: block_ids_def distinct_map)

text \<open>The shape of the block store: a full array of blocks per layer, each of full size.\<close>

definition store_ok :: "'f BlockAllocator \<Rightarrow> bool" where
  "store_ok a \<longleftrightarrow> cfg_ok (ba_config a) \<and>
     length (ba_blocks a) = nlayers (ba_config a) \<and>
     length (ba_freeList a) = nlayers (ba_config a) \<and>
     (\<forall>l < nlayers (ba_config a). length (ba_blocks a ! l) = nblocks (ba_config a)) \<and>
     (\<forall>l < nlayers (ba_config a). \<forall>i < nblocks (ba_config a).
        blk_ID (ba_blocks a ! l ! i) = int i \<and>
        length (blk_Data (ba_blocks a ! l ! i)) = nat (BlockSizeFloats (ba_config a)))"

text \<open>The free lists hold block ids of the pool, none twice.\<close>

definition free_ok :: "'f BlockAllocator \<Rightarrow> bool" where
  "free_ok a \<longleftrightarrow> (\<forall>fl \<in> set (ba_freeList a). distinct fl \<and> set fl \<subseteq> set (block_ids (ba_config a)))"

definition ba_ok :: "'f BlockAllocator \<Rightarrow> bool" where
  "ba_ok a \<longleftrightarrow> store_ok a \<and> free_ok a"

abbreviation frees :: "'f BlockAllocator \<Rightarrow> nat \<Rightarrow> BlockID list" where
  "frees a l \<equiv> ba_freeList a ! l"

lemma store_ok_lengths:
  "store_ok a \<Longrightarrow> l < nlayers (ba_config a) \<Longrightarrow> length (ba_blocks a ! l) = nblocks (ba_config a)"
  by (auto simp: store_ok_def)

lemma store_ok_block:
  assumes "store_ok a" and "l < nlayers (ba_config a)" and "i < nblocks (ba_config a)"
  shows "blk_ID (ba_blocks a ! l ! i) = int i"
    and "length (blk_Data (ba_blocks a ! l ! i)) = nat (BlockSizeFloats (ba_config a))"
  using assms by (auto simp: store_ok_def)

lemma free_ok_nth:
  assumes "free_ok a" and "store_ok a" and "l < nlayers (ba_config a)"
  shows "distinct (frees a l)" and "set (frees a l) \<subseteq> set (block_ids (ba_config a))"
proof -
  have "frees a l \<in> set (ba_freeList a)" using assms(2,3) by (auto simp: store_ok_def)
  then show "distinct (frees a l)" "set (frees a l) \<subseteq> set (block_ids (ba_config a))"
    using assms(1) by (auto simp: free_ok_def)
qed

lemma NewBlockAllocator_ok:
  assumes "cfg_ok c"
  shows "\<exists>a. NewBlockAllocator c = Some a \<and> ba_ok a \<and> ba_config a = c \<and>
           ba_refCounts a = Map.empty \<and>
           (\<forall>l < nlayers c. frees a l = rev (block_ids c))"
proof -
  let ?M = "cfg_MaxBlocks c"
  have sz: "0 \<le> BlockSizeFloats c" using assms by (simp add: cfg_ok_def BlockSizeFloats_def)
  have fl: "map (\<lambda>i. int32_of (?M - 1 - int i)) [0..<nat ?M] = rev (block_ids c)"
    using assms by (intro nth_equalityI) (auto simp: block_ids_def cfg_ok_def rev_nth)
  show ?thesis
    using assms sz fl
    by (auto simp: NewBlockAllocator_def Let_def ba_ok_def store_ok_def free_ok_def cfg_ok_def
        new_block_def)
qed

text \<open>What a successful \<open>Allocate\<close> does, as one equation on each field.\<close>

lemma Allocate_Inr:
  assumes ok: "ba_ok a" and l: "0 \<le> layer" "layer < cfg_NumLayers (ba_config a)"
    and ne: "frees a (nat layer) \<noteq> []"
  defines "b \<equiv> last (frees a (nat layer))"
  shows "BlockAllocator_Allocate a layer =
      Some (Inr ((ba_blocks a ! nat layer ! nat b)\<lparr>blk_NumTokens := 0\<rparr>),
        a\<lparr>ba_freeList := (ba_freeList a)[nat layer := butlast (frees a (nat layer))],
          ba_blocks := (ba_blocks a)[nat layer := (ba_blocks a ! nat layer)
             [nat b := (ba_blocks a ! nat layer ! nat b)\<lparr>blk_NumTokens := 0\<rparr>]],
          ba_refCounts := (ba_refCounts a)(b \<mapsto> 1)\<rparr>)"
proof -
  have s: "store_ok a" and f: "free_ok a" using ok by (auto simp: ba_ok_def)
  have n: "nat layer < nlayers (ba_config a)" using l by simp
  have lens: "len (ba_freeList a) = cfg_NumLayers (ba_config a)"
      "len (ba_blocks a) = cfg_NumLayers (ba_config a)"
    using s l by (auto simp: store_ok_def len_def)
  have "b \<in> set (block_ids (ba_config a))"
    using free_ok_nth(2) [OF f s n] ne last_in_set unfolding b_def by blast
  then have b: "0 \<le> b" "b < len (ba_blocks a ! nat layer)"
    using store_ok_lengths [OF s n] by (auto simp: set_block_ids len_def)
  show ?thesis
    using l ne b
    by (simp add: BlockAllocator_Allocate_def lens idx_def upd_def b_def [symmetric] Let_def)
qed

lemma Allocate_Inl:
  assumes "ba_ok a" and "0 \<le> layer" and "layer < cfg_NumLayers (ba_config a)"
    and "frees a (nat layer) = []"
  shows "BlockAllocator_Allocate a layer = Some (Inl (NoFreeBlocks layer), a)"
  using assms by (auto simp: BlockAllocator_Allocate_def ba_ok_def store_ok_def idx_def len_def)

lemma Allocate_invalid:
  "ba_ok a \<Longrightarrow> cfg_NumLayers (ba_config a) \<le> layer \<Longrightarrow>
   BlockAllocator_Allocate a layer = Some (Inl (InvalidLayer layer), a)"
  by (auto simp: BlockAllocator_Allocate_def ba_ok_def store_ok_def len_def cfg_ok_def)

text \<open>An allocation keeps the allocator well-formed and returns the block it took.\<close>

lemma store_ok_upd:
  assumes "store_ok a" and "l < nlayers (ba_config a)" and "i < nblocks (ba_config a)"
    and "blk_ID b = int i" and "length (blk_Data b) = nat (BlockSizeFloats (ba_config a))"
  shows "store_ok (a\<lparr>ba_blocks := (ba_blocks a)[l := (ba_blocks a ! l)[i := b]]\<rparr>)"
  using assms by (auto simp: store_ok_def nth_list_update)

lemma free_ok_upd:
  assumes "free_ok a" and "distinct fl" and "set fl \<subseteq> set (block_ids (ba_config a))"
  shows "free_ok (a\<lparr>ba_freeList := (ba_freeList a)[l := fl]\<rparr>)"
  using assms set_update_subset_insert [of "ba_freeList a" l fl]
  by (auto simp: free_ok_def)

lemma Allocate_ok:
  assumes ok: "ba_ok a" and l: "0 \<le> layer" "layer < cfg_NumLayers (ba_config a)"
    and al: "BlockAllocator_Allocate a layer = Some (Inr b, a')"
  shows "ba_ok a'" and "ba_config a' = ba_config a"
    and "frees a (nat layer) = frees a' (nat layer) @ [blk_ID b]"
    and "\<And>j. j \<noteq> nat layer \<Longrightarrow> frees a' j = frees a j"
    and "ba_refCounts a' = (ba_refCounts a)(blk_ID b \<mapsto> 1)"
    and "blk_NumTokens b = 0" and "blk_ID b \<in> set (block_ids (ba_config a))"
    and "\<And>j i. j < nlayers (ba_config a) \<Longrightarrow> i < nblocks (ba_config a) \<Longrightarrow>
           blk_Data (ba_blocks a' ! j ! i) = blk_Data (ba_blocks a ! j ! i)"
proof -
  have ne: "frees a (nat layer) \<noteq> []" using Allocate_Inl [OF ok l] al by auto
  let ?fl = "frees a (nat layer)" and ?l = "nat layer"
  have s: "store_ok a" and f: "free_ok a" using ok by (auto simp: ba_ok_def)
  have n: "?l < nlayers (ba_config a)" using l by simp
  have sub: "set ?fl \<subseteq> set (block_ids (ba_config a))" and d: "distinct ?fl"
    using free_ok_nth [OF f s n] by auto
  have last: "last ?fl \<in> set (block_ids (ba_config a))" using sub ne last_in_set by blast
  then have li: "nat (last ?fl) < nblocks (ba_config a)" "0 \<le> last ?fl"
    by (auto simp: set_block_ids)
  note e = Allocate_Inr [OF ok l ne, unfolded al]
  have b: "b = (ba_blocks a ! ?l ! nat (last ?fl))\<lparr>blk_NumTokens := 0\<rparr>" using e by simp
  have id: "blk_ID b = last ?fl" using store_ok_block(1) [OF s n li(1)] li(2) b by simp
  have a': "a' = a\<lparr>ba_freeList := (ba_freeList a)[?l := butlast ?fl],
      ba_blocks := (ba_blocks a)[?l := (ba_blocks a ! ?l)[nat (last ?fl) := b]],
      ba_refCounts := (ba_refCounts a)(last ?fl \<mapsto> 1)\<rparr>" using e b by simp
  show "ba_config a' = ba_config a" by (simp add: a')
  have nl: "?l < length (ba_freeList a)" using s n by (auto simp: store_ok_def)
  show fr: "?fl = frees a' ?l @ [blk_ID b]" using ne nl by (simp add: a' id)
  show "\<And>j. j \<noteq> ?l \<Longrightarrow> frees a' j = frees a j" by (simp add: a')
  show "ba_refCounts a' = (ba_refCounts a)(blk_ID b \<mapsto> 1)" by (simp add: a' id)
  show "blk_NumTokens b = 0" by (simp add: b)
  show "blk_ID b \<in> set (block_ids (ba_config a))" using last id by simp
  have lens: "length (ba_blocks a ! ?l) = nblocks (ba_config a)" using store_ok_lengths [OF s n] .
  show "blk_Data (ba_blocks a' ! j ! i) = blk_Data (ba_blocks a ! j ! i)"
    if "j < nlayers (ba_config a)" "i < nblocks (ba_config a)" for j i
    using that lens s
    by (cases "j = ?l"; cases "i = nat (last ?fl)") (auto simp: a' b nth_list_update store_ok_def)
  have "store_ok (a\<lparr>ba_blocks := (ba_blocks a)[?l := (ba_blocks a ! ?l)[nat (last ?fl) := b]]\<rparr>)"
    using store_ok_upd [OF s n li(1)] id li(2) b store_ok_block(2) [OF s n li(1)] by simp
  then have "store_ok a'" by (simp add: a' store_ok_def)
  moreover have "free_ok (a\<lparr>ba_freeList := (ba_freeList a)[?l := butlast ?fl]\<rparr>)"
    using free_ok_upd [OF f] d sub by (meson distinct_butlast in_set_butlastD subset_iff)
  then have "free_ok a'" by (simp add: a' free_ok_def)
  ultimately show "ba_ok a'" by (simp add: ba_ok_def)
qed

section \<open>Releasing blocks\<close>

text \<open>\<open>Free\<close> of a block whose shared count is at most one puts it back on the layer's list.\<close>

lemma Free_last:
  assumes ok: "ba_ok a" and l: "0 \<le> layer" "layer < cfg_NumLayers (ba_config a)"
    and b: "b \<in> set (block_ids (ba_config a))" and rc: "map_get 0 (ba_refCounts a) b \<le> 1"
  shows "BlockAllocator_Free a layer b =
    Some (a\<lparr>ba_refCounts := (ba_refCounts a)(b := None),
            ba_freeList := (ba_freeList a)[nat layer := frees a (nat layer) @ [b]]\<rparr>)"
proof -
  have s: "store_ok a" using ok by (simp add: ba_ok_def)
  have n: "nat layer < nlayers (ba_config a)" using l by simp
  have lens: "len (ba_freeList a) = cfg_NumLayers (ba_config a)"
      "len (ba_blocks a) = cfg_NumLayers (ba_config a)"
    using s l by (auto simp: store_ok_def len_def)
  have b': "0 \<le> b" "b < len (ba_blocks a ! nat layer)"
    using b store_ok_lengths [OF s n] by (auto simp: set_block_ids len_def)
  show ?thesis
    using l b' rc by (simp add: BlockAllocator_Free_def lens idx_def upd_def Let_def)
qed

text \<open>\<open>Free\<close> of a block with more holders only counts down.\<close>

lemma Free_shared:
  assumes ok: "ba_ok a" and l: "0 \<le> layer" "layer < cfg_NumLayers (ba_config a)"
    and b: "b \<in> set (block_ids (ba_config a))" and rc: "1 < map_get 0 (ba_refCounts a) b"
  shows "BlockAllocator_Free a layer b =
    Some (a\<lparr>ba_refCounts := (ba_refCounts a)(b \<mapsto> map_get 0 (ba_refCounts a) b - 1)\<rparr>)"
proof -
  have s: "store_ok a" using ok by (simp add: ba_ok_def)
  have n: "nat layer < nlayers (ba_config a)" using l by simp
  have lens: "len (ba_freeList a) = cfg_NumLayers (ba_config a)"
      "len (ba_blocks a) = cfg_NumLayers (ba_config a)"
    using s l by (auto simp: store_ok_def len_def)
  have b': "0 \<le> b" "b < len (ba_blocks a ! nat layer)"
    using b store_ok_lengths [OF s n] by (auto simp: set_block_ids len_def)
  show ?thesis
    using l b' rc by (simp add: BlockAllocator_Free_def lens idx_def upd_def Let_def)
qed

section \<open>One layer of the allocator is a block pool\<close>

definition ba_alloc :: "nat \<Rightarrow> 'f BlockAllocator \<Rightarrow> (BlockID \<times> 'f BlockAllocator) option" where
  "ba_alloc l a =
     (case BlockAllocator_Allocate a (int l) of
        Some (Inr b, a') \<Rightarrow> Some (blk_ID b, a')
      | _ \<Rightarrow> None)"

definition ba_release :: "nat \<Rightarrow> BlockID \<Rightarrow> 'f BlockAllocator \<Rightarrow> 'f BlockAllocator" where
  "ba_release l b a = (case BlockAllocator_Free a (int l) b of Some a' \<Rightarrow> a' | None \<Rightarrow> a)"

definition ba_layer_ok :: "nat \<Rightarrow> 'f BlockAllocator \<Rightarrow> bool" where
  "ba_layer_ok l a \<longleftrightarrow> ba_ok a \<and> l < nlayers (ba_config a)"

text \<open>A block that is out of the free list and has at most one holder.\<close>

definition ba_sole :: "nat \<Rightarrow> BlockID \<Rightarrow> 'f BlockAllocator \<Rightarrow> bool" where
  "ba_sole l b a \<longleftrightarrow> b \<in> set (block_ids (ba_config a)) \<and> b \<notin> set (frees a l) \<and>
     map_get 0 (ba_refCounts a) b \<le> 1"

lemma ba_alloc_Some:
  assumes "ba_layer_ok l a" and "ba_alloc l a = Some (b, a')"
  shows "\<exists>blk. BlockAllocator_Allocate a (int l) = Some (Inr blk, a') \<and> blk_ID blk = b"
  using assms by (auto simp: ba_alloc_def split: option.splits sum.splits)

lemma Free_last_ok:
  assumes ok: "ba_ok a" and l: "0 \<le> layer" "layer < cfg_NumLayers (ba_config a)"
    and b: "b \<in> set (block_ids (ba_config a))" "b \<notin> set (frees a (nat layer))"
    and rc: "map_get 0 (ba_refCounts a) b \<le> 1" and fr: "BlockAllocator_Free a layer b = Some a'"
  shows "ba_ok a'" and "ba_config a' = ba_config a"
    and "frees a' (nat layer) = frees a (nat layer) @ [b]"
    and "\<And>j. j \<noteq> nat layer \<Longrightarrow> frees a' j = frees a j"
    and "ba_refCounts a' = (ba_refCounts a)(b := None)" and "ba_blocks a' = ba_blocks a"
proof -
  let ?l = "nat layer" and ?fl = "frees a (nat layer) @ [b]"
  have s: "store_ok a" and f: "free_ok a" using ok by (auto simp: ba_ok_def)
  have n: "?l < nlayers (ba_config a)" using l by simp
  have a': "a' = a\<lparr>ba_refCounts := (ba_refCounts a)(b := None),
            ba_freeList := (ba_freeList a)[?l := ?fl]\<rparr>"
    using Free_last [OF ok l b(1) rc] fr by simp
  have nl: "?l < length (ba_freeList a)" using s n by (auto simp: store_ok_def)
  show "ba_config a' = ba_config a" "ba_refCounts a' = (ba_refCounts a)(b := None)"
    "ba_blocks a' = ba_blocks a" "\<And>j. j \<noteq> ?l \<Longrightarrow> frees a' j = frees a j"
    "frees a' ?l = ?fl"
    using nl by (simp_all add: a')
  have "distinct ?fl" "set ?fl \<subseteq> set (block_ids (ba_config a))"
    using free_ok_nth [OF f s n] b by auto
  then have "free_ok (a\<lparr>ba_freeList := (ba_freeList a)[?l := ?fl]\<rparr>)" by (rule free_ok_upd [OF f])
  then have "free_ok a'" by (simp add: a' free_ok_def)
  moreover have "store_ok a'" using s by (simp add: a' store_ok_def)
  ultimately show "ba_ok a'" by (simp add: ba_ok_def)
qed

lemma ba_release_sole:
  assumes "ba_layer_ok l a" and "ba_sole l b a"
  shows "BlockAllocator_Free a (int l) b = Some (ba_release l b a)"
  using assms Free_last [of a "int l" b]
  by (simp add: ba_release_def ba_layer_ok_def ba_sole_def zless_nat_eq_int_zless)

interpretation ba: block_pool "ba_alloc l" "\<lambda>a. frees a l" "ba_layer_ok l" "ba_release l" "ba_sole l"
  for l
proof unfold_locales
  fix a a' :: "'f BlockAllocator" and b c :: BlockID
  assume o: "ba_layer_ok l a"
  then have ok: "ba_ok a" and l: "0 \<le> int l" "int l < cfg_NumLayers (ba_config a)"
    by (auto simp: ba_layer_ok_def)
  show "ba_alloc l a = None \<longleftrightarrow> frees a l = []"
    using Allocate_Inl [OF ok l] Allocate_Inr [OF ok l]
    by (cases "frees a l = []") (auto simp: ba_alloc_def)
  {
    assume "ba_alloc l a = Some (b, a')"
    then obtain blk where al: "BlockAllocator_Allocate a (int l) = Some (Inr blk, a')"
      and b: "blk_ID blk = b" using ba_alloc_Some [OF o] by blast
    note A = Allocate_ok [OF ok l al, unfolded b]
    show "ba_layer_ok l a'" using A(1,2) l by (simp add: ba_layer_ok_def)
    show "mset (frees a l) = add_mset b (mset (frees a' l))" using A(3) by simp
    have "distinct (frees a l)" using free_ok_nth(1) [of a l] ok l by (auto simp: ba_ok_def)
    then have nin: "b \<notin> set (frees a' l)" using A(3) by simp
    show "ba_sole l b a'" using A(2,5,7) nin by (simp add: ba_sole_def)
    show "ba_sole l c a'" if "c \<noteq> b" "ba_sole l c a"
      using that A(2,3,5) by (simp add: ba_sole_def)
  }
  assume sb: "ba_sole l b a"
  then have b: "b \<in> set (block_ids (ba_config a))" "b \<notin> set (frees a l)"
    and rc: "map_get 0 (ba_refCounts a) b \<le> 1" by (auto simp: ba_sole_def)
  note F = Free_last_ok [OF ok l b(1) _ rc ba_release_sole [OF o sb], simplified, OF b(2)]
  show "ba_layer_ok l (ba_release l b a)" using F(1,2) l by (simp add: ba_layer_ok_def)
  show "mset (frees (ba_release l b a) l) = add_mset b (mset (frees a l))" using F(3) by simp
  show "ba_sole l c (ba_release l b a)" if "c \<noteq> b" "ba_sole l c a"
    using that F(2,3,5) by (simp add: ba_sole_def)
qed

end
