(* ===== verification/Block_Table.thy ===== *)
theory Block_Table
  imports Block_Allocator
begin

text \<open>
  The second half of \<open>inference/kv/paged.go\<close>: the block table of a sequence, which maps the logical
  positions of its tokens to physical blocks layer by layer, and the ranges of positions that came
  from a cached fragment.
\<close>

record FragmentRange =
  fr_StartPos :: int
  fr_EndPos :: int
  fr_ShiftBy :: int
  fr_NumTokens :: int

record BlockTable =
  bt_blocks :: "BlockID list list"
  bt_seqLen :: int
  bt_fragmentRanges :: "FragmentRange list"

definition NewBlockTable :: "int \<Rightarrow> BlockTable option" where
  "NewBlockTable numLayers =
     do { blocks \<leftarrow> make_slice numLayers [];
          Some \<lparr>bt_blocks = blocks, bt_seqLen = 0, bt_fragmentRanges = []\<rparr> }"

definition BlockTable_AppendBlock :: "BlockTable \<Rightarrow> int \<Rightarrow> BlockID \<Rightarrow> BlockTable option" where
  "BlockTable_AppendBlock t layer blockID =
     (if layer < len (bt_blocks t)
      then do { bs \<leftarrow> idx (bt_blocks t) layer;
                blocks \<leftarrow> upd (bt_blocks t) layer (bs @ [blockID]);
                Some (t\<lparr>bt_blocks := blocks\<rparr>) }
      else Some t)"

definition BlockTable_GetBlockID :: "BlockTable \<Rightarrow> int \<Rightarrow> int \<Rightarrow> BlockID option" where
  "BlockTable_GetBlockID t layer blockIdx =
     (if layer \<ge> len (bt_blocks t) then Some InvalidBlockID
      else do { bs \<leftarrow> idx (bt_blocks t) layer;
                if blockIdx \<ge> len bs then Some InvalidBlockID else idx bs blockIdx })"

definition BlockTable_NumBlocks :: "BlockTable \<Rightarrow> int \<Rightarrow> int option" where
  "BlockTable_NumBlocks t layer =
     (if layer \<ge> len (bt_blocks t) then Some 0
      else do { bs \<leftarrow> idx (bt_blocks t) layer; Some (len bs) })"

definition BlockTable_SetSeqLen :: "BlockTable \<Rightarrow> int \<Rightarrow> BlockTable" where
  "BlockTable_SetSeqLen t n = t\<lparr>bt_seqLen := n\<rparr>"

definition BlockTable_SeqLen :: "BlockTable \<Rightarrow> int" where
  "BlockTable_SeqLen t = bt_seqLen t"

definition BlockTable_BlocksForLayer :: "BlockTable \<Rightarrow> int \<Rightarrow> BlockID list option" where
  "BlockTable_BlocksForLayer t layer =
     (if layer \<ge> len (bt_blocks t) then Some [] else idx (bt_blocks t) layer)"

definition BlockTable_AddFragmentRange :: "BlockTable \<Rightarrow> int \<Rightarrow> int \<Rightarrow> int \<Rightarrow> BlockTable" where
  "BlockTable_AddFragmentRange t startPos numTokens shiftBy =
     t\<lparr>bt_fragmentRanges := bt_fragmentRanges t @
        [\<lparr>fr_StartPos = startPos, fr_EndPos = startPos + numTokens - 1, fr_ShiftBy = shiftBy,
          fr_NumTokens = numTokens\<rparr>]\<rparr>"

definition BlockTable_FragmentRanges :: "BlockTable \<Rightarrow> FragmentRange list" where
  "BlockTable_FragmentRanges t = bt_fragmentRanges t"

text \<open>The blocks a table of this length needs.\<close>

definition needed_blocks :: "int \<Rightarrow> int \<Rightarrow> int option" where
  "needed_blocks n blockSize = (if n > 0 then go_div (n + blockSize - 1) blockSize else Some 0)"

text \<open>
  One layer of \<open>TruncateBlocks\<close>: the freed tail and the kept head of its block list. A negative
  number of needed blocks is a slice out of bounds.
\<close>

definition truncate_layer :: "int \<Rightarrow> BlockID list \<Rightarrow> (BlockID list \<times> BlockID list) option" where
  "truncate_layer needed bs =
     (if needed < len bs
      then do { freed \<leftarrow> slice bs needed (len bs); kept \<leftarrow> slice bs 0 needed; Some (freed, kept) }
      else Some ([], bs))"

fun truncate_layers :: "int \<Rightarrow> BlockID list list \<Rightarrow> (BlockID list list \<times> BlockID list list) option" where
  "truncate_layers needed [] = Some ([], [])"
| "truncate_layers needed (bs # bss) =
     do { (f, k) \<leftarrow> truncate_layer needed bs;
          (fs, ks) \<leftarrow> truncate_layers needed bss;
          Some (f # fs, k # ks) }"

definition BlockTable_TruncateBlocks ::
  "BlockTable \<Rightarrow> int \<Rightarrow> int \<Rightarrow> (BlockID list list \<times> BlockTable) option" where
  "BlockTable_TruncateBlocks t newSeqLen blockSize =
     do { needed \<leftarrow> needed_blocks newSeqLen blockSize;
          (freed, kept) \<leftarrow> truncate_layers needed (bt_blocks t);
          Some (freed, t\<lparr>bt_blocks := kept, bt_seqLen := newSeqLen\<rparr>) }"

fun rope_shift :: "FragmentRange list \<Rightarrow> int \<Rightarrow> int" where
  "rope_shift [] pos = 0"
| "rope_shift (fr # frs) pos =
     (if pos \<ge> fr_StartPos fr \<and> pos \<le> fr_EndPos fr then fr_ShiftBy fr else rope_shift frs pos)"

definition BlockTable_GetRoPEShiftForPos :: "BlockTable \<Rightarrow> int \<Rightarrow> int" where
  "BlockTable_GetRoPEShiftForPos t pos = rope_shift (bt_fragmentRanges t) pos"

section \<open>Lemmas\<close>

lemma needed_blocks_nonneg:
  assumes "0 < bs"
  shows "\<exists>k. needed_blocks n bs = Some k \<and> 0 \<le> k \<and> n \<le> k * bs \<and> (0 < n \<longrightarrow> k * bs < n + bs)"
proof (cases "0 < n")
  case True
  then have "go_div (n + bs - 1) bs = Some ((n + bs - 1) div bs)" using assms by simp
  moreover have "0 \<le> (n + bs - 1) div bs" using assms True by (simp add: pos_imp_zdiv_nonneg_iff)
  ultimately show ?thesis
    using ceil_div_bounds [OF assms, of n] True by (auto simp: needed_blocks_def)
next
  case False
  then show ?thesis using assms by (auto simp: needed_blocks_def)
qed

lemma truncate_layer_Some:
  "0 \<le> k \<Longrightarrow> truncate_layer k bs = Some (drop (nat k) bs, take (nat k) bs)"
  by (auto simp: truncate_layer_def slice_def len_def)

lemma truncate_layers_Some:
  "0 \<le> k \<Longrightarrow> truncate_layers k bss = Some (map (drop (nat k)) bss, map (take (nat k)) bss)"
  by (induction bss) (auto simp: truncate_layer_Some)

text \<open>
  Truncation keeps exactly the blocks the new length needs and frees the rest: on every layer the
  freed and the kept blocks together are the old ones.
\<close>

lemma TruncateBlocks_split:
  assumes "0 < bs"
  shows "\<exists>k. needed_blocks n bs = Some k \<and> 0 \<le> k \<and>
    BlockTable_TruncateBlocks t n bs =
      Some (map (drop (nat k)) (bt_blocks t),
            t\<lparr>bt_blocks := map (take (nat k)) (bt_blocks t), bt_seqLen := n\<rparr>)"
  using needed_blocks_nonneg [OF assms, of n]
  by (auto simp: BlockTable_TruncateBlocks_def truncate_layers_Some)

text \<open>The first range that holds the position decides; outside all ranges the shift is 0.\<close>

lemma rope_shift_outside:
  "\<forall>fr \<in> set frs. \<not> (fr_StartPos fr \<le> p \<and> p \<le> fr_EndPos fr) \<Longrightarrow> rope_shift frs p = 0"
  by (induction frs) auto

lemma rope_shift_append:
  "rope_shift (frs @ [fr]) p =
     (if \<exists>g \<in> set frs. fr_StartPos g \<le> p \<and> p \<le> fr_EndPos g then rope_shift frs p
      else rope_shift [fr] p)"
  by (induction frs) auto

end
