(* ===== verification/Fragment.thy ===== *)
theory Fragment
  imports Block_Table
begin

text \<open>
  The file \<open>inference/kv/fragment.go\<close>: named cached fragments that hold references on blocks, and
  the parser of \<open><insert name="..." />\<close> tags. The cache shares the allocator of the paged cache by
  pointer, so its operations take the allocator and return it. A Go string is a list of bytes.
\<close>

record CachedFragment =
  cf_Name :: string
  cf_NumTokens :: int
  cf_Blocks :: "BlockID list list"

type_synonym FragmentMap = "string \<rightharpoonup> CachedFragment"

definition NewFragmentCache :: FragmentMap where
  "NewFragmentCache = Map.empty"

text \<open>\<open>for layer, blockIDs := range blocks { for _, b := range blockIDs { Free(layer, b) } }\<close>\<close>

definition free_layer :: "int \<Rightarrow> BlockID list \<Rightarrow> 'f BlockAllocator \<Rightarrow> 'f BlockAllocator option" where
  "free_layer layer bs a = foldM (\<lambda>b a. BlockAllocator_Free a layer b) bs a"

definition free_layers :: "BlockID list list \<Rightarrow> 'f BlockAllocator \<Rightarrow> 'f BlockAllocator option" where
  "free_layers bss a = foldM (\<lambda>(layer, bs) a. free_layer (int layer) bs a) (List.enumerate 0 bss) a"

definition releaseFragmentBlocks ::
  "CachedFragment \<Rightarrow> 'f BlockAllocator \<Rightarrow> 'f BlockAllocator option" where
  "releaseFragmentBlocks fragment a = free_layers (cf_Blocks fragment) a"

definition addref_all :: "BlockID list list \<Rightarrow> 'f BlockAllocator \<Rightarrow> 'f BlockAllocator" where
  "addref_all bss a = fold (\<lambda>b a. BlockAllocator_AddRef a b) (concat bss) a"

definition FragmentCache_CacheContent ::
  "FragmentMap \<Rightarrow> 'f BlockAllocator \<Rightarrow> string \<Rightarrow> int \<Rightarrow> BlockID list list
   \<Rightarrow> (CachedFragment \<times> FragmentMap \<times> 'f BlockAllocator) option" where
  "FragmentCache_CacheContent fc a name numTokens blocks =
     do { a1 \<leftarrow> (case fc name of Some old \<Rightarrow> releaseFragmentBlocks old a | None \<Rightarrow> Some a);
          let a2 = addref_all blocks a1;
          let fragment = \<lparr>cf_Name = name, cf_NumTokens = numTokens, cf_Blocks = blocks\<rparr>;
          Some (fragment, fc(name \<mapsto> fragment), a2) }"

definition FragmentCache_Get :: "FragmentMap \<Rightarrow> string \<Rightarrow> CachedFragment option" where
  "FragmentCache_Get fc name = fc name"

definition FragmentCache_Delete ::
  "FragmentMap \<Rightarrow> 'f BlockAllocator \<Rightarrow> string \<Rightarrow> (FragmentMap \<times> 'f BlockAllocator) option" where
  "FragmentCache_Delete fc a name =
     (case fc name of
        Some fragment \<Rightarrow>
          do { a' \<leftarrow> releaseFragmentBlocks fragment a; Some (fc(name := None), a') }
      | None \<Rightarrow> Some (fc, a))"

section \<open>The insert-tag parser\<close>

record InsertSpec =
  is_FragmentName :: string
  is_InsertPos :: int

datatype parse_error = UnclosedInsert int | NoName string

text \<open>\<open>string(b)\<close> for a byte \<open>b\<close> is the UTF-8 encoding of the code point with that number.\<close>

definition string_of_byte :: "char \<Rightarrow> string" where
  "string_of_byte b =
     (let n = of_char b :: nat in
      if n < 128 then [b]
      else [char_of (192 + n div 64), char_of (128 + n mod 64)])"

text \<open>The bytes up to the next quote, if there is one: \<open>tag[start:end]\<close>.\<close>

fun until_quote :: "string \<Rightarrow> string option" where
  "until_quote [] = None"
| "until_quote (ch # s) =
     (if ch = CHR 0x22 then Some [] else map_option (Cons ch) (until_quote s))"

text \<open>
  \<open>extractNameAttr\<close> scans the tag; the argument is \<open>tag[start:]\<close>. When \<open>name=\<close> is found
  without a quoted value, \<open>start\<close> has already moved past \<open>name=\<close> (and past the opening quote).
\<close>

function extract_from :: "string \<Rightarrow> string option" where
  "extract_from s =
     (if s = [] then None
      else if 5 < length s \<and> take 5 s = ''name='' then
        (case drop 5 s of
           [] \<Rightarrow> extract_from (drop 6 s)
         | q # rest \<Rightarrow>
             if q = CHR 0x22 then
               (case until_quote rest of Some v \<Rightarrow> Some v | None \<Rightarrow> extract_from (drop 1 rest))
             else extract_from (drop 6 s))
      else extract_from (drop 1 s))"
  by pat_completeness auto
termination
proof (relation "measure length", goal_cases)
  case 1
  show ?case by simp
next
  case (2 s)
  then show ?case by (cases s) auto
next
  case (3 s q rest)
  then have "length (drop 5 s) = Suc (length rest)" by simp
  then show ?case by simp
next
  case (4 s q rest)
  then show ?case by (cases s) auto
next
  case (5 s)
  then show ?case by (cases s) auto
qed

declare extract_from.simps [simp del]

definition extractNameAttr :: "string \<Rightarrow> parse_error + string" where
  "extractNameAttr tag = (case extract_from tag of Some v \<Rightarrow> Inr v | None \<Rightarrow> Inl (NoName tag))"

text \<open>
  The end of a tag: the number of bytes up to and including the first \<open>/>\<close> whose \<open>>\<close> is at or
  after offset 7 of the tag (\<open>end\<close> starts at \<open>i+7\<close> and looks at \<open>prompt[end-1]\<close>). The arguments
  are the previous byte and what follows it.
\<close>

fun tag_end :: "char \<Rightarrow> string \<Rightarrow> nat option" where
  "tag_end prev [] = None"
| "tag_end prev (ch # s) =
     (if prev = CHR ''/'' \<and> ch = CHR ''>'' then Some 1 else map_option Suc (tag_end ch s))"

definition tag_length :: "string \<Rightarrow> nat option" where
  "tag_length s = map_option (\<lambda>n. 7 + n) (tag_end (s ! 6) (drop 7 s))"

lemma tag_end_pos: "tag_end prev s = Some n \<Longrightarrow> 0 < n"
  by (induction s arbitrary: prev n) (auto split: if_splits)

text \<open>
  The loop of \<open>ParseInserts\<close> over \<open>prompt[i:]\<close>, with the cleaned text and the inserts so far.
  \<open>tokenPos\<close> is never written by the loop, so it stays 0.
\<close>

function parse_loop ::
  "int \<Rightarrow> string \<Rightarrow> int \<Rightarrow> string \<Rightarrow> InsertSpec list \<Rightarrow> parse_error + (string \<times> InsertSpec list)" where
  "parse_loop tokenPos s i result inserts =
     (if s = [] then Inr (result, inserts)
      else if 7 < length s \<and> take 7 s = ''<insert'' then
        (case tag_length s of
           None \<Rightarrow> Inl (UnclosedInsert i)
         | Some n \<Rightarrow>
             (case extractNameAttr (take n s) of
                Inl e \<Rightarrow> Inl e
              | Inr name \<Rightarrow>
                  parse_loop tokenPos (drop n s) (i + int n) result
                    (inserts @ [\<lparr>is_FragmentName = name, is_InsertPos = tokenPos\<rparr>])))
      else parse_loop tokenPos (tl s) (i + 1) (result @ string_of_byte (hd s)) inserts)"
  by pat_completeness auto
termination
  by (relation "measure (\<lambda>(tp, s, i, r, ins). length s)")
    (auto simp: tag_length_def dest!: tag_end_pos)

declare parse_loop.simps [simp del]

definition ParseInserts :: "string \<Rightarrow> parse_error + (string \<times> InsertSpec list)" where
  "ParseInserts prompt = parse_loop 0 prompt 0 [] []"

section \<open>The parser inverts the printer\<close>

text \<open>The tag as a client writes it, and a prompt as a text followed by tags and texts.\<close>

definition insert_tag :: "string \<Rightarrow> string" where
  "insert_tag name = ''<insert name='' @ [CHR 0x22] @ name @ [CHR 0x22] @ '' />''"

fun render_inserts :: "(string \<times> string) list \<Rightarrow> string" where
  "render_inserts [] = []"
| "render_inserts ((name, tx) # rest) = insert_tag name @ tx @ render_inserts rest"

text \<open>Texts are ASCII without the byte that opens a tag; names do not end the quote or the tag.\<close>

definition plain_text :: "string \<Rightarrow> bool" where
  "plain_text s \<longleftrightarrow> (\<forall>ch \<in> set s. ch \<noteq> CHR ''<'' \<and> (of_char ch :: nat) < 128)"

definition plain_name :: "string \<Rightarrow> bool" where
  "plain_name s \<longleftrightarrow> CHR 0x22 \<notin> set s \<and> CHR ''>'' \<notin> set s"

lemma parse_loop_plain:
  "plain_text tx \<Longrightarrow>
   parse_loop tp (tx @ s) i r ins = parse_loop tp s (i + int (length tx)) (r @ tx) ins"
proof (induction tx arbitrary: i r)
  case Nil
  then show ?case by simp
next
  case (Cons ch tx)
  have "parse_loop tp ((ch # tx) @ s) i r ins = parse_loop tp (tx @ s) (i + 1) (r @ [ch]) ins"
    using Cons.prems by (subst parse_loop.simps) (simp add: plain_text_def string_of_byte_def)
  then show ?case using Cons by (simp add: plain_text_def algebra_simps)
qed

lemma tag_end_found:
  "CHR ''>'' \<notin> set xs \<Longrightarrow> tag_end prev (xs @ ''/>'' @ rest) = Some (length xs + 2)"
  by (induction xs arbitrary: prev) auto

lemma until_quote_found:
  "CHR 0x22 \<notin> set name \<Longrightarrow> until_quote (name @ CHR 0x22 # rest) = Some name"
  by (induction name) auto

lemma extract_skip:
  "s \<noteq> [] \<Longrightarrow> take 5 s \<noteq> ''name='' \<Longrightarrow> extract_from s = extract_from (drop 1 s)"
  by (subst extract_from.simps) auto

lemma extract_name:
  assumes "CHR 0x22 \<notin> set name"
  shows "extractNameAttr (insert_tag name) = Inr name"
proof -
  have "extract_from (insert_tag name) =
      extract_from (''name='' @ [CHR 0x22] @ name @ [CHR 0x22] @ '' />'')"
    by (simp add: insert_tag_def extract_skip)
  also have "\<dots> = Some name"
    using until_quote_found [OF assms] by (subst extract_from.simps) simp
  finally show ?thesis by (simp add: extractNameAttr_def)
qed

lemma length_insert_tag: "length (insert_tag name) = length name + 18"
  by (simp add: insert_tag_def)

lemma tag_length_found:
  assumes "plain_name name"
  shows "tag_length (insert_tag name @ rest) = Some (length (insert_tag name))"
proof -
  let ?xs = "'' name='' @ [CHR 0x22] @ name @ [CHR 0x22] @ '' ''"
  have "drop 7 (insert_tag name @ rest) = ?xs @ ''/>'' @ rest" by (simp add: insert_tag_def)
  moreover have "CHR ''>'' \<notin> set ?xs" using assms by (simp add: plain_name_def)
  note f = tag_end_found [OF this]
  ultimately show ?thesis by (simp only: tag_length_def f) (simp add: length_insert_tag)
qed

lemma parse_loop_tag:
  assumes "plain_name name"
  shows "parse_loop tp (insert_tag name @ s) i r ins =
    parse_loop tp s (i + int (length (insert_tag name))) r
      (ins @ [\<lparr>is_FragmentName = name, is_InsertPos = tp\<rparr>])"
proof -
  have "7 < length (insert_tag name @ s)" "take 7 (insert_tag name @ s) = ''<insert''"
    "insert_tag name \<noteq> []"
    by (simp_all add: insert_tag_def)
  then show ?thesis
    using tag_length_found [OF assms, of s] extract_name [of name] assms
    by (subst parse_loop.simps) (simp add: plain_name_def)
qed

lemma parse_loop_render:
  "\<forall>(name, tx) \<in> set segs. plain_name name \<and> plain_text tx \<Longrightarrow>
   parse_loop tp (render_inserts segs) i r ins =
     Inr (r @ concat (map snd segs),
          ins @ map (\<lambda>(name, _). \<lparr>is_FragmentName = name, is_InsertPos = tp\<rparr>) segs)"
proof (induction segs arbitrary: i r ins)
  case Nil
  then show ?case by (simp add: parse_loop.simps)
next
  case (Cons seg segs)
  obtain name tx where seg: "seg = (name, tx)" by (cases seg)
  then show ?case using Cons by (simp add: parse_loop_tag parse_loop_plain)
qed



text \<open>A byte above 127 is re-encoded: the text that comes back is not the text that went in.\<close>

lemma ParseInserts_high_byte: "ParseInserts [CHR 0xE9] = Inr ([CHR 0xC3, CHR 0xA9], [])"
  by code_simp

end
