(* ===== verification/Paged_Cache.thy ===== *)
theory Paged_Cache
  imports Fragment
begin

text \<open>
  The file \<open>inference/kv/paged_cache.go\<close>: the paged KV cache, which ties the allocator, the block
  tables of the live sequences and the fragment cache together. Every method is one step on the
  state \<open>PagedKVCache\<close>; the locks of the code make each map access atomic, and the model runs the
  methods one after the other. A result \<open>None :: alloc_error option\<close> is the nil error.
\<close>

record 'f PagedKVCache =
  pc_config :: PagedKVConfig
  pc_allocator :: "'f BlockAllocator"
  pc_fragments :: FragmentMap
  pc_sequences :: "int \<rightharpoonup> BlockTable"
  pc_nextSeqID :: int

definition NewPagedKVCache :: "PagedKVConfig \<Rightarrow> 'f::zero PagedKVCache option" where
  "NewPagedKVCache config =
     do { a \<leftarrow> NewBlockAllocator config;
          Some \<lparr>pc_config = config, pc_allocator = a, pc_fragments = NewFragmentCache,
                pc_sequences = Map.empty, pc_nextSeqID = 1\<rparr> }"

definition PagedKVCache_CreateSequence :: "'f PagedKVCache \<Rightarrow> (int \<times> 'f PagedKVCache) option" where
  "PagedKVCache_CreateSequence c =
     do { let seqID = pc_nextSeqID c;
          table \<leftarrow> NewBlockTable (cfg_NumLayers (pc_config c));
          Some (seqID, c\<lparr>pc_nextSeqID := pc_nextSeqID c + 1,
                         pc_sequences := (pc_sequences c)(seqID \<mapsto> table)\<rparr>) }"

definition free_table_layer :: "BlockTable \<Rightarrow> nat \<Rightarrow> 'f BlockAllocator \<Rightarrow> 'f BlockAllocator option" where
  "free_table_layer table layer a =
     do { bs \<leftarrow> BlockTable_BlocksForLayer table (int layer); free_layer (int layer) bs a }"

definition PagedKVCache_DeleteSequence :: "'f PagedKVCache \<Rightarrow> int \<Rightarrow> 'f PagedKVCache option" where
  "PagedKVCache_DeleteSequence c seqID =
     (case pc_sequences c seqID of
        None \<Rightarrow> Some c
      | Some table \<Rightarrow>
          do { a \<leftarrow> foldM (free_table_layer table) [0..<nlayers (pc_config c)] (pc_allocator c);
               Some (c\<lparr>pc_allocator := a, pc_sequences := (pc_sequences c)(seqID := None)\<rparr>) })"

definition PagedKVCache_GetSequence :: "'f PagedKVCache \<Rightarrow> int \<Rightarrow> BlockTable option" where
  "PagedKVCache_GetSequence c seqID = pc_sequences c seqID"

text \<open>The table of a sequence, created empty on first use.\<close>

definition ensure_table :: "'f PagedKVCache \<Rightarrow> int \<Rightarrow> (BlockTable \<times> 'f PagedKVCache) option" where
  "ensure_table c seqID =
     (case pc_sequences c seqID of
        Some table \<Rightarrow> Some (table, c)
      | None \<Rightarrow>
          do { table \<leftarrow> NewBlockTable (cfg_NumLayers (pc_config c));
               Some (table, c\<lparr>pc_sequences := (pc_sequences c)(seqID \<mapsto> table)\<rparr>) })"

definition PagedKVCache_AllocateBlock ::
  "'f PagedKVCache \<Rightarrow> int \<Rightarrow> int \<Rightarrow> ((alloc_error + 'f Block) \<times> 'f PagedKVCache) option" where
  "PagedKVCache_AllocateBlock c seqID layer =
     do { (table, c1) \<leftarrow> ensure_table c seqID;
          (r, a) \<leftarrow> BlockAllocator_Allocate (pc_allocator c1) layer;
          (case r of
             Inl e \<Rightarrow> Some (Inl e, c1\<lparr>pc_allocator := a\<rparr>)
           | Inr block \<Rightarrow>
               do { table' \<leftarrow> BlockTable_AppendBlock table layer (blk_ID block);
                    Some (Inr block, c1\<lparr>pc_allocator := a,
                            pc_sequences := (pc_sequences c1)(seqID \<mapsto> table')\<rparr>) }) }"

text \<open>
  The loop \<open>for table.NumBlocks(layer) <= blockIdx\<close> of \<open>StoreKV\<close>. The fuel is the number of blocks
  that are missing when the loop starts; \<open>StoreKV_total\<close> shows that it is enough.
\<close>

fun ensure_blocks ::
  "nat \<Rightarrow> 'f PagedKVCache \<Rightarrow> int \<Rightarrow> int \<Rightarrow> int \<Rightarrow> (alloc_error option \<times> 'f PagedKVCache) option" where
  "ensure_blocks fuel c seqID layer blockIdx =
     do { table \<leftarrow> pc_sequences c seqID;
          n \<leftarrow> BlockTable_NumBlocks table layer;
          if n \<le> blockIdx then
            (case fuel of
               0 \<Rightarrow> None
             | Suc fuel' \<Rightarrow>
                 do { (r, c') \<leftarrow> PagedKVCache_AllocateBlock c seqID layer;
                      (case r of
                         Inl e \<Rightarrow> Some (Some e, c')
                       | Inr _ \<Rightarrow> ensure_blocks fuel' c' seqID layer blockIdx) })
          else Some (None, c) }"

declare ensure_blocks.simps [simp del]

text \<open>\<open>copy(dst[lo:hi], src)\<close>.\<close>

definition copy_into :: "'a list \<Rightarrow> int \<Rightarrow> int \<Rightarrow> 'a list \<Rightarrow> 'a list option" where
  "copy_into dst lo hi src =
     (if 0 \<le> lo \<and> lo \<le> hi \<and> hi \<le> len dst
      then Some (splice_at dst (nat lo) (take (nat (hi - lo)) src)) else None)"

definition kv_size :: "PagedKVConfig \<Rightarrow> int" where
  "kv_size c = cfg_NumKVHeads c * cfg_HeadDim c"

text \<open>The write of one token into its block, once the block is there.\<close>

definition write_token ::
  "PagedKVConfig \<Rightarrow> 'f Block \<Rightarrow> int \<Rightarrow> 'f list \<Rightarrow> 'f list \<Rightarrow> 'f Block option" where
  "write_token cfg block off k v =
     do { let kvSize = kv_size cfg;
          let kOffset = off * kvSize;
          let vOffset = KVSizeFloats cfg + off * kvSize;
          d1 \<leftarrow> copy_into (blk_Data block) kOffset (kOffset + kvSize) k;
          d2 \<leftarrow> copy_into d1 vOffset (vOffset + kvSize) v;
          Some (block\<lparr>blk_Data := d2,
                  blk_NumTokens := (if off + 1 > blk_NumTokens block then off + 1
                                    else blk_NumTokens block)\<rparr>) }"

definition set_block ::
  "'f BlockAllocator \<Rightarrow> int \<Rightarrow> BlockID \<Rightarrow> 'f Block \<Rightarrow> 'f BlockAllocator option" where
  "set_block a layer blockID block =
     do { bs \<leftarrow> idx (ba_blocks a) layer;
          bs' \<leftarrow> upd bs blockID block;
          blocks \<leftarrow> upd (ba_blocks a) layer bs';
          Some (a\<lparr>ba_blocks := blocks\<rparr>) }"

definition PagedKVCache_StoreKV ::
  "'f PagedKVCache \<Rightarrow> int \<Rightarrow> int \<Rightarrow> int \<Rightarrow> 'f list \<Rightarrow> 'f list
   \<Rightarrow> (alloc_error option \<times> 'f PagedKVCache) option" where
  "PagedKVCache_StoreKV c seqID layer pos k v =
     do { let cfg = pc_config c;
          blockIdx \<leftarrow> go_div pos (cfg_BlockSize cfg);
          offsetInBlock \<leftarrow> go_mod pos (cfg_BlockSize cfg);
          (table, c1) \<leftarrow> ensure_table c seqID;
          n \<leftarrow> BlockTable_NumBlocks table layer;
          (r, c2) \<leftarrow> ensure_blocks (nat (blockIdx + 1 - n)) c1 seqID layer blockIdx;
          (case r of
             Some e \<Rightarrow> Some (Some e, c2)
           | None \<Rightarrow>
               do { t2 \<leftarrow> pc_sequences c2 seqID;
                    blockID \<leftarrow> BlockTable_GetBlockID t2 layer blockIdx;
                    mb \<leftarrow> BlockAllocator_GetBlock (pc_allocator c2) layer blockID;
                    (case mb of
                       None \<Rightarrow> Some (None, c2)
                     | Some block \<Rightarrow>
                         do { block' \<leftarrow> write_token cfg block offsetInBlock k v;
                              a' \<leftarrow> set_block (pc_allocator c2) layer blockID block';
                              let t3 = (if pos + 1 > BlockTable_SeqLen t2
                                        then BlockTable_SetSeqLen t2 (pos + 1) else t2);
                              Some (None, c2\<lparr>pc_allocator := a',
                                pc_sequences := (pc_sequences c2)(seqID \<mapsto> t3)\<rparr>) }) }) }"

text \<open>\<open>StoreKVBatch\<close> stores token \<open>i\<close> at position \<open>startPos + i\<close>, until the first error.\<close>

fun store_batch_loop ::
  "nat list \<Rightarrow> 'f PagedKVCache \<Rightarrow> int \<Rightarrow> int \<Rightarrow> int \<Rightarrow> 'f list \<Rightarrow> 'f list
   \<Rightarrow> (alloc_error option \<times> 'f PagedKVCache) option" where
  "store_batch_loop [] c seqID layer startPos k v = Some (None, c)"
| "store_batch_loop (i # is) c seqID layer startPos k v =
     do { let kvSize = kv_size (pc_config c);
          ki \<leftarrow> slice k (int i * kvSize) (int i * kvSize + kvSize);
          vi \<leftarrow> slice v (int i * kvSize) (int i * kvSize + kvSize);
          (r, c') \<leftarrow> PagedKVCache_StoreKV c seqID layer (startPos + int i) ki vi;
          (case r of
             Some e \<Rightarrow> Some (Some e, c')
           | None \<Rightarrow> store_batch_loop is c' seqID layer startPos k v) }"

definition PagedKVCache_StoreKVBatch ::
  "'f PagedKVCache \<Rightarrow> int \<Rightarrow> int \<Rightarrow> int \<Rightarrow> 'f list \<Rightarrow> 'f list \<Rightarrow> int
   \<Rightarrow> (alloc_error option \<times> 'f PagedKVCache) option" where
  "PagedKVCache_StoreKVBatch c seqID layer startPos k v numTokens =
     store_batch_loop [0..<nat numTokens] c seqID layer startPos k v"

text \<open>One iteration of the gather loop of \<open>GetKVSlice\<close>; a missing block leaves the zeros.\<close>

definition gather_token ::
  "'f PagedKVCache \<Rightarrow> BlockTable \<Rightarrow> int \<Rightarrow> int \<Rightarrow> nat \<Rightarrow> 'f list \<times> 'f list \<Rightarrow> ('f list \<times> 'f list) option" where
  "gather_token c table layer startPos i kv =
     do { let cfg = pc_config c;
          let kvSize = kv_size cfg;
          let pos = startPos + int i;
          blockIdx \<leftarrow> go_div pos (cfg_BlockSize cfg);
          off \<leftarrow> go_mod pos (cfg_BlockSize cfg);
          blockID \<leftarrow> BlockTable_GetBlockID table layer blockIdx;
          if blockID = InvalidBlockID then Some kv
          else do {
            mb \<leftarrow> BlockAllocator_GetBlock (pc_allocator c) layer blockID;
            (case mb of
               None \<Rightarrow> Some kv
             | Some block \<Rightarrow>
                 do { let srcK = off * kvSize;
                      let srcV = KVSizeFloats cfg + off * kvSize;
                      let dst = int i * kvSize;
                      ks \<leftarrow> slice (blk_Data block) srcK (srcK + kvSize);
                      vs \<leftarrow> slice (blk_Data block) srcV (srcV + kvSize);
                      k' \<leftarrow> copy_into (fst kv) dst (dst + kvSize) ks;
                      v' \<leftarrow> copy_into (snd kv) dst (dst + kvSize) vs;
                      Some (k', v') }) } }"

text \<open>The inner option is the pair of nil slices.\<close>

definition PagedKVCache_GetKVSlice ::
  "'f::zero PagedKVCache \<Rightarrow> int \<Rightarrow> int \<Rightarrow> int \<Rightarrow> int \<Rightarrow> ('f list \<times> 'f list) option option" where
  "PagedKVCache_GetKVSlice c seqID layer startPos endPos =
     (case pc_sequences c seqID of
        None \<Rightarrow> Some None
      | Some table \<Rightarrow>
          let numTokens = endPos - startPos + 1 in
          if numTokens \<le> 0 then Some None
          else do { let totalSize = numTokens * kv_size (pc_config c);
                    k \<leftarrow> make_slice totalSize 0;
                    v \<leftarrow> make_slice totalSize 0;
                    kv \<leftarrow> foldM (gather_token c table layer startPos) [0..<nat numTokens] (k, v);
                    Some (Some kv) })"

text \<open>
  \<open>GetKVSliceForAttention\<close>: the RoPE shift of the backend is the argument \<open>applyShift\<close>, a function
  from the slice it is given (and the head dimension, heads, tokens, shift and theta) to the new
  contents of that slice.
\<close>

definition shift_range ::
  "PagedKVConfig \<Rightarrow> int \<Rightarrow> 'th \<Rightarrow> ('f list \<Rightarrow> int \<Rightarrow> int \<Rightarrow> int \<Rightarrow> int \<Rightarrow> 'th \<Rightarrow> 'f list)
   \<Rightarrow> FragmentRange \<Rightarrow> 'f list \<Rightarrow> 'f list option" where
  "shift_range cfg endPos theta applyShift fr k =
     (if fr_EndPos fr > endPos then Some k
      else if fr_ShiftBy fr = 0 then Some k
      else
        let kvSize = kv_size cfg;
            startIdx = fr_StartPos fr * kvSize;
            n = (if fr_StartPos fr + fr_NumTokens fr - 1 > endPos
                 then endPos - fr_StartPos fr + 1 else fr_NumTokens fr)
        in do { kSlice \<leftarrow> slice k startIdx (startIdx + n * kvSize);
                copy_into k startIdx (startIdx + n * kvSize)
                  (applyShift kSlice (cfg_HeadDim cfg) (cfg_NumKVHeads cfg) n (fr_ShiftBy fr)
                    theta) })"

definition PagedKVCache_GetKVSliceForAttention ::
  "'f::zero PagedKVCache \<Rightarrow> int \<Rightarrow> int \<Rightarrow> int \<Rightarrow> 'th
   \<Rightarrow> ('f list \<Rightarrow> int \<Rightarrow> int \<Rightarrow> int \<Rightarrow> int \<Rightarrow> 'th \<Rightarrow> 'f list) \<Rightarrow> ('f list \<times> 'f list) option option" where
  "PagedKVCache_GetKVSliceForAttention c seqID layer endPos ropeTheta applyShift =
     do { r \<leftarrow> PagedKVCache_GetKVSlice c seqID layer 0 endPos;
          (case r of
             None \<Rightarrow> Some None
           | Some (k, v) \<Rightarrow>
               (case pc_sequences c seqID of
                  None \<Rightarrow> Some (Some (k, v))
                | Some table \<Rightarrow>
                    do { k' \<leftarrow> foldM (shift_range (pc_config c) endPos ropeTheta applyShift)
                                 (BlockTable_FragmentRanges table) k;
                         Some (Some (k', v)) })) }"

text \<open>Share a fragment's blocks with a table, layer by layer.\<close>

definition share_layer ::
  "nat \<times> BlockID list \<Rightarrow> 'f BlockAllocator \<times> BlockTable \<Rightarrow> ('f BlockAllocator \<times> BlockTable) option" where
  "share_layer lb st =
     foldM (\<lambda>b (a, t). do { t' \<leftarrow> BlockTable_AppendBlock t (int (fst lb)) b;
                            Some (BlockAllocator_AddRef a b, t') }) (snd lb) st"

definition PagedKVCache_InsertFragment ::
  "'f PagedKVCache \<Rightarrow> int \<Rightarrow> string \<Rightarrow> int \<Rightarrow> (int \<times> 'f PagedKVCache) option" where
  "PagedKVCache_InsertFragment c seqID fragmentName insertPos =
     (case FragmentCache_Get (pc_fragments c) fragmentName of
        None \<Rightarrow> Some (0, c)
      | Some fragment \<Rightarrow>
          do { (table, c1) \<leftarrow> ensure_table c seqID;
               (a, t) \<leftarrow> foldM share_layer (List.enumerate 0 (cf_Blocks fragment))
                          (pc_allocator c1, table);
               let t2 = BlockTable_AddFragmentRange t insertPos (cf_NumTokens fragment) insertPos;
               let newSeqLen = insertPos + cf_NumTokens fragment;
               let t3 = (if newSeqLen > BlockTable_SeqLen t2
                         then BlockTable_SetSeqLen t2 newSeqLen else t2);
               Some (cf_NumTokens fragment,
                 c1\<lparr>pc_allocator := a, pc_sequences := (pc_sequences c1)(seqID \<mapsto> t3)\<rparr>) })"

fun blocks_for_layers :: "BlockTable \<Rightarrow> nat list \<Rightarrow> BlockID list list option" where
  "blocks_for_layers t [] = Some []"
| "blocks_for_layers t (l # ls) =
     do { bs \<leftarrow> BlockTable_BlocksForLayer t (int l);
          bss \<leftarrow> blocks_for_layers t ls;
          Some (bs # bss) }"

definition PagedKVCache_CacheContent ::
  "'f PagedKVCache \<Rightarrow> string \<Rightarrow> int \<Rightarrow> (CachedFragment option \<times> 'f PagedKVCache) option" where
  "PagedKVCache_CacheContent c name seqID =
     (case pc_sequences c seqID of
        None \<Rightarrow> Some (None, c)
      | Some table \<Rightarrow>
          do { blocks \<leftarrow> blocks_for_layers table [0..<nlayers (pc_config c)];
               (fragment, fc, a) \<leftarrow> FragmentCache_CacheContent (pc_fragments c) (pc_allocator c) name
                                     (BlockTable_SeqLen table) blocks;
               Some (Some fragment, c\<lparr>pc_fragments := fc, pc_allocator := a\<rparr>) })"

definition PagedKVCache_TruncateSequence :: "'f PagedKVCache \<Rightarrow> int \<Rightarrow> int \<Rightarrow> 'f PagedKVCache option" where
  "PagedKVCache_TruncateSequence c seqID newSeqLen =
     (case pc_sequences c seqID of
        None \<Rightarrow> Some c
      | Some table \<Rightarrow>
          if newSeqLen \<ge> BlockTable_SeqLen table then Some c
          else do { (freed, t') \<leftarrow> BlockTable_TruncateBlocks table newSeqLen
                                     (cfg_BlockSize (pc_config c));
                    a \<leftarrow> free_layers freed (pc_allocator c);
                    Some (c\<lparr>pc_allocator := a, pc_sequences := (pc_sequences c)(seqID \<mapsto> t')\<rparr>) })"

definition PagedKVCache_FreeBlocks :: "'f PagedKVCache \<Rightarrow> int option" where
  "PagedKVCache_FreeBlocks c = BlockAllocator_FreeCount (pc_allocator c) 0"

definition PagedKVCache_BlockSize :: "'f PagedKVCache \<Rightarrow> int" where
  "PagedKVCache_BlockSize c = cfg_BlockSize (pc_config c)"

end
