(* ===== verification/GPU_KV_Cache.thy ===== *)
theory GPU_KV_Cache
  imports Tensor
begin

text \<open>
  The file \<open>inference/runtime/gpu_kv_cache.go\<close>: the contiguous KV cache of one sequence, one key
  and one value buffer per layer, each laid out \<open>[numKVHeads, maxSeqLen, headDim]\<close>.

  The backend is the record of what the code uses of it: which optional interfaces a type assertion
  finds, the pointers its allocations return, and the log of the calls made on it. The meaning of the
  copy call is given by \<open>run_copy\<close> on a memory.
\<close>

section \<open>The backend\<close>

datatype kv_call =
    KAlloc int
  | KFree DevicePtr
  | KScatterF32ToF16 DevicePtr DevicePtr int int int int int
  | KScatterF16Fused DevicePtr DevicePtr DevicePtr DevicePtr int int int int int
  | KScatterF16 DevicePtr DevicePtr int int int int int
  | KScatterF32 DevicePtr DevicePtr int int int int int
  | KCopy DevicePtr int DevicePtr int int

record KvBackend =
  kb_ptr :: "nat \<Rightarrow> DevicePtr"
  kb_fp16 :: bool
  kb_fused :: bool
  kb_scatter :: bool
  kb_copier :: bool
  kb_count :: nat
  kb_log :: "kv_call list"

definition kb_calls :: "kv_call list \<Rightarrow> KvBackend \<Rightarrow> KvBackend" where
  "kb_calls cs b = b\<lparr>kb_log := kb_log b @ cs\<rparr>"

definition kb_alloc :: "int \<Rightarrow> KvBackend \<Rightarrow> DevicePtr \<times> KvBackend" where
  "kb_alloc n b = (kb_ptr b (kb_count b), kb_calls [KAlloc n] (b\<lparr>kb_count := Suc (kb_count b)\<rparr>))"

section \<open>The cache\<close>

datatype KVPrecision = KVPrecisionFP32 | KVPrecisionFP16 | KVPrecisionQ8_0

definition Q8BlockSize :: int where
  "Q8BlockSize = 32"

definition Q8BytesPerBlock :: int where
  "Q8BytesPerBlock = 34"

record GPUKVCache =
  gk_backend :: KvBackend
  gk_numLayers :: int
  gk_numKVHeads :: int
  gk_headDim :: int
  gk_maxSeqLen :: int
  gk_useFP16 :: bool
  gk_precision :: KVPrecision
  gk_kBuffers :: "DevicePtr list"
  gk_vBuffers :: "DevicePtr list"
  gk_seqLen :: int

definition kv_buffer_size :: "KVPrecision \<Rightarrow> int \<Rightarrow> int" where
  "kv_buffer_size p numElements =
     (case p of
        KVPrecisionFP32 \<Rightarrow> numElements * 4
      | KVPrecisionFP16 \<Rightarrow> numElements * 2
      | KVPrecisionQ8_0 \<Rightarrow> ((numElements + Q8BlockSize - 1) sdiv Q8BlockSize) * Q8BytesPerBlock)"

text \<open>The loop allocates the key and the value buffer of each layer in turn.\<close>

fun alloc_layers ::
  "nat \<Rightarrow> int \<Rightarrow> KvBackend \<Rightarrow> DevicePtr list \<times> DevicePtr list \<times> KvBackend" where
  "alloc_layers 0 n b = ([], [], b)"
| "alloc_layers (Suc i) n b =
     (let (k, b1) = kb_alloc n b; (v, b2) = kb_alloc n b1; (ks, vs, b3) = alloc_layers i n b2
      in (k # ks, v # vs, b3))"

definition newGPUKVCacheWithKVPrecision ::
  "KvBackend \<Rightarrow> int \<Rightarrow> int \<Rightarrow> int \<Rightarrow> int \<Rightarrow> KVPrecision \<Rightarrow> GPUKVCache option" where
  "newGPUKVCacheWithKVPrecision b numLayers numKVHeads headDim maxSeqLen precision =
     (if numLayers < 0 then None
      else
        let numElements = maxSeqLen * numKVHeads * headDim;
            bufferSize = kv_buffer_size precision numElements;
            (ks, vs, b') = alloc_layers (nat numLayers) bufferSize b
        in Some \<lparr>gk_backend = b', gk_numLayers = numLayers, gk_numKVHeads = numKVHeads,
                 gk_headDim = headDim, gk_maxSeqLen = maxSeqLen,
                 gk_useFP16 = (precision = KVPrecisionFP16), gk_precision = precision,
                 gk_kBuffers = ks, gk_vBuffers = vs, gk_seqLen = 0\<rparr>)"

definition NewGPUKVCacheWithPrecision ::
  "KvBackend \<Rightarrow> int \<Rightarrow> int \<Rightarrow> int \<Rightarrow> int \<Rightarrow> bool \<Rightarrow> GPUKVCache option" where
  "NewGPUKVCacheWithPrecision b numLayers numKVHeads headDim maxSeqLen useFP16 =
     (let precision = (if useFP16 then KVPrecisionFP16 else KVPrecisionFP32)
      in newGPUKVCacheWithKVPrecision b numLayers numKVHeads headDim maxSeqLen precision)"

definition NewGPUKVCache :: "KvBackend \<Rightarrow> int \<Rightarrow> int \<Rightarrow> int \<Rightarrow> int \<Rightarrow> GPUKVCache option" where
  "NewGPUKVCache b numLayers numKVHeads headDim maxSeqLen =
     NewGPUKVCacheWithPrecision b numLayers numKVHeads headDim maxSeqLen False"

definition NewGPUKVCacheFP16 :: "KvBackend \<Rightarrow> int \<Rightarrow> int \<Rightarrow> int \<Rightarrow> int \<Rightarrow> GPUKVCache option" where
  "NewGPUKVCacheFP16 b numLayers numKVHeads headDim maxSeqLen =
     NewGPUKVCacheWithPrecision b numLayers numKVHeads headDim maxSeqLen True"

definition NewGPUKVCacheQ8_0 :: "KvBackend \<Rightarrow> int \<Rightarrow> int \<Rightarrow> int \<Rightarrow> int \<Rightarrow> GPUKVCache option" where
  "NewGPUKVCacheQ8_0 b numLayers numKVHeads headDim maxSeqLen =
     newGPUKVCacheWithKVPrecision b numLayers numKVHeads headDim maxSeqLen KVPrecisionQ8_0"

definition GPUKVCache_Reset :: "GPUKVCache \<Rightarrow> GPUKVCache" where
  "GPUKVCache_Reset c = c\<lparr>gk_seqLen := 0\<rparr>"

definition GPUKVCache_SeqLen :: "GPUKVCache \<Rightarrow> int" where
  "GPUKVCache_SeqLen c = gk_seqLen c"

definition GPUKVCache_UseFP16 :: "GPUKVCache \<Rightarrow> bool" where
  "GPUKVCache_UseFP16 c = (gk_precision c = KVPrecisionFP16)"

definition GPUKVCache_UseQ8_0 :: "GPUKVCache \<Rightarrow> bool" where
  "GPUKVCache_UseQ8_0 c = (gk_precision c = KVPrecisionQ8_0)"

definition GPUKVCache_KVHeadStride :: "GPUKVCache \<Rightarrow> int" where
  "GPUKVCache_KVHeadStride c = gk_maxSeqLen c * gk_headDim c"

text \<open>The position moves once the last layer is written.\<close>

definition advance :: "GPUKVCache \<Rightarrow> int \<Rightarrow> int \<Rightarrow> GPUKVCache" where
  "advance c layerIdx newTokens =
     (if layerIdx = gk_numLayers c - 1 then c\<lparr>gk_seqLen := gk_seqLen c + newTokens\<rparr> else c)"

text \<open>The two copies that the blit loop issues for token \<open>t\<close> and head \<open>h\<close>.\<close>

definition blit_pair ::
  "GPUKVCache \<Rightarrow> int \<Rightarrow> DevicePtr \<Rightarrow> DevicePtr \<Rightarrow> DevicePtr \<Rightarrow> DevicePtr \<Rightarrow> int \<Rightarrow> int \<Rightarrow> kv_call list" where
  "blit_pair c bytesPerElement kPtr vPtr kBuf vBuf t h =
     (let headSize = gk_headDim c * bytesPerElement;
          srcHeadStride = gk_numKVHeads c * gk_headDim c;
          dstHeadStride = gk_maxSeqLen c * gk_headDim c;
          dstHeadStrideBytes = dstHeadStride * bytesPerElement;
          srcOffset = (t * srcHeadStride + h * gk_headDim c) * bytesPerElement;
          dstOffset = h * dstHeadStrideBytes + (gk_seqLen c + t) * headSize
      in [KCopy kPtr srcOffset kBuf dstOffset headSize, KCopy vPtr srcOffset vBuf dstOffset headSize])"

definition blit_calls ::
  "GPUKVCache \<Rightarrow> int \<Rightarrow> DevicePtr \<Rightarrow> DevicePtr \<Rightarrow> DevicePtr \<Rightarrow> DevicePtr \<Rightarrow> int \<Rightarrow> kv_call list" where
  "blit_calls c bytesPerElement kPtr vPtr kBuf vBuf newTokens =
     concat (map (\<lambda>t. concat (map (\<lambda>h. blit_pair c bytesPerElement kPtr vPtr kBuf vBuf (int t) (int h))
                              [0..<nat (gk_numKVHeads c)])) [0..<nat newTokens])"

definition with_calls :: "kv_call list \<Rightarrow> GPUKVCache \<Rightarrow> GPUKVCache" where
  "with_calls cs c = c\<lparr>gk_backend := kb_calls cs (gk_backend c)\<rparr>"

definition GPUKVCache_AppendKV ::
  "GPUKVCache \<Rightarrow> int \<Rightarrow> DevicePtr \<Rightarrow> DevicePtr \<Rightarrow> DType \<Rightarrow> int \<Rightarrow> ((DevicePtr \<times> DevicePtr \<times> int) \<times> GPUKVCache) option" where
  "GPUKVCache_AppendKV c layerIdx kPtr vPtr srcDType newTokens =
     do { kBuf \<leftarrow> idx (gk_kBuffers c) layerIdx;
          vBuf \<leftarrow> idx (gk_vBuffers c) layerIdx;
          let b = gk_backend c;
          let nH = gk_numKVHeads c; let hD = gk_headDim c; let mx = gk_maxSeqLen c; let pos = gk_seqLen c;
          let finish = (\<lambda>calls. Some ((kBuf, vBuf, pos + newTokens),
                                       advance (with_calls calls c) layerIdx newTokens));
          if gk_useFP16 c \<and> kb_fp16 b then
            (if srcDType = Float32 then
               finish [KScatterF32ToF16 kPtr kBuf newTokens nH hD mx pos,
                       KScatterF32ToF16 vPtr vBuf newTokens nH hD mx pos]
             else if kb_fused b then
               finish [KScatterF16Fused kPtr kBuf vPtr vBuf newTokens nH hD mx pos]
             else
               finish [KScatterF16 kPtr kBuf newTokens nH hD mx pos,
                       KScatterF16 vPtr vBuf newTokens nH hD mx pos])
          else if \<not> gk_useFP16 c \<and> kb_scatter b then
            finish [KScatterF32 kPtr kBuf newTokens nH hD mx pos,
                    KScatterF32 vPtr vBuf newTokens nH hD mx pos]
          else
            let bytesPerElement = (if gk_useFP16 c then 2 else 4) in
            if \<not> kb_copier b then Some ((kBuf, vBuf, pos), c)
            else finish (blit_calls c bytesPerElement kPtr vPtr kBuf vBuf newTokens) }"

definition GPUKVCache_GetKV :: "GPUKVCache \<Rightarrow> int \<Rightarrow> (DevicePtr \<times> DevicePtr \<times> int) option" where
  "GPUKVCache_GetKV c layerIdx =
     do { k \<leftarrow> idx (gk_kBuffers c) layerIdx; v \<leftarrow> idx (gk_vBuffers c) layerIdx;
          Some (k, v, gk_seqLen c) }"

definition GPUKVCache_ReserveKV ::
  "GPUKVCache \<Rightarrow> int \<Rightarrow> int \<Rightarrow> ((DevicePtr \<times> DevicePtr \<times> int \<times> int \<times> int) \<times> GPUKVCache) option" where
  "GPUKVCache_ReserveKV c layerIdx newTokens =
     do { let seqPos = gk_seqLen c; let fullSeqLen = gk_seqLen c + newTokens;
          let c' = advance c layerIdx newTokens;
          k \<leftarrow> idx (gk_kBuffers c) layerIdx; v \<leftarrow> idx (gk_vBuffers c) layerIdx;
          Some ((k, v, seqPos, fullSeqLen, gk_maxSeqLen c), c') }"

definition GPUKVCache_Truncate :: "GPUKVCache \<Rightarrow> int \<Rightarrow> GPUKVCache" where
  "GPUKVCache_Truncate c newSeqLen =
     (let n1 = (if newSeqLen < 0 then 0 else newSeqLen);
          n2 = (if n1 > gk_seqLen c then gk_seqLen c else n1)
      in c\<lparr>gk_seqLen := n2\<rparr>)"

fun free_layers_from :: "nat \<Rightarrow> nat \<Rightarrow> GPUKVCache \<Rightarrow> GPUKVCache option" where
  "free_layers_from 0 i c = Some c"
| "free_layers_from (Suc n) i c =
     do { k \<leftarrow> idx (gk_kBuffers c) (int i); v \<leftarrow> idx (gk_vBuffers c) (int i);
          free_layers_from n (Suc i) (with_calls [KFree k, KFree v] c) }"

definition GPUKVCache_Free :: "GPUKVCache \<Rightarrow> GPUKVCache option" where
  "GPUKVCache_Free c = free_layers_from (nat (gk_numLayers c)) 0 c"

section \<open>What a copy does to the device memory\<close>

type_synonym gpu_mem = "DevicePtr \<Rightarrow> int \<Rightarrow> 8 word"

fun run_copy :: "kv_call \<Rightarrow> gpu_mem \<Rightarrow> gpu_mem" where
  "run_copy (KCopy s a d b n) m =
     (\<lambda>p i. if p = d \<and> b \<le> i \<and> i < b + n then m s (a + (i - b)) else m p i)"
| "run_copy _ m = m"

definition run_copies :: "kv_call list \<Rightarrow> gpu_mem \<Rightarrow> gpu_mem" where
  "run_copies cs m = fold run_copy cs m"

lemma run_copies_simps [simp]:
  "run_copies [] m = m" "run_copies (c # cs) m = run_copies cs (run_copy c m)"
  by (simp_all add: run_copies_def)

lemma same_block:
  assumes "0 \<le> (j :: int)" and "j < e" and "b * e \<le> q * e + j" and "q * e + j < b * e + e"
  shows "q = b"
proof -
  have "(q * e + j) div e = q" using assms(1,2) by simp
  moreover have "(q * e + j) div e = b"
    using assms by (intro int_div_pos_eq [of _ _ _ "q * e + j - b * e"]) (auto simp: algebra_simps)
  ultimately show ?thesis by simp
qed

lemma run_copy_block:
  assumes "0 \<le> j" and "j < e"
  shows "run_copy (KCopy s (a * e) d (b * e) e) m p (q * e + j) =
    (if p = d \<and> q = b then m s (a * e + j) else m p (q * e + j))"
  using assms same_block [OF assms, of b q] by auto

text \<open>The copies of a list of (source, destination) block pairs, keys and values alternating.\<close>

definition block_copies ::
  "DevicePtr \<Rightarrow> DevicePtr \<Rightarrow> DevicePtr \<Rightarrow> DevicePtr \<Rightarrow> int \<Rightarrow> (int \<times> int) list \<Rightarrow> kv_call list" where
  "block_copies k v kb vb e prs =
     concat (map (\<lambda>(a, b). [KCopy k (a * e) kb (b * e) e, KCopy v (a * e) vb (b * e) e]) prs)"

lemma block_copies_Cons:
  "block_copies k v kb vb e (ab # prs) =
     KCopy k (fst ab * e) kb (snd ab * e) e # KCopy v (fst ab * e) vb (snd ab * e) e # block_copies k v kb vb e prs"
  by (simp add: block_copies_def case_prod_beta)

lemma block_copies_other:
  "p \<noteq> kb \<Longrightarrow> p \<noteq> vb \<Longrightarrow> run_copies (block_copies k v kb vb e prs) m p i = m p i"
  by (induction prs arbitrary: m) (auto simp: block_copies_Cons, simp add: block_copies_def)

lemma block_copies_untouched:
  assumes "0 \<le> j" and "j < e" and "q \<notin> snd ` set prs"
  shows "run_copies (block_copies k v kb vb e prs) m p (q * e + j) = m p (q * e + j)"
  using assms(3)
proof (induction prs arbitrary: m)
  case Nil
  then show ?case by (simp add: block_copies_def)
next
  case (Cons ab prs)
  then show ?case
    by (simp add: block_copies_Cons run_copy_block [OF assms(1,2)] del: run_copy.simps)
qed

lemma block_copies_moved:
  assumes "0 \<le> j" and "j < e" and "kb \<noteq> vb" and "k \<notin> {kb, vb}" and "v \<notin> {kb, vb}"
    and "distinct (map snd prs)" and "(a, q) \<in> set prs"
  shows "run_copies (block_copies k v kb vb e prs) m kb (q * e + j) = m k (a * e + j) \<and>
         run_copies (block_copies k v kb vb e prs) m vb (q * e + j) = m v (a * e + j)"
  using assms(6,7)
proof (induction prs arbitrary: m)
  case Nil
  then show ?case by simp
next
  case (Cons ab prs)
  note rb = run_copy_block [OF assms(1,2)]
  show ?case
  proof (cases "ab = (a, q)")
    case True
    then have "q \<notin> snd ` set prs" using Cons.prems(1) by auto
    then show ?thesis
      using True assms(3-5)
      by (auto simp: block_copies_Cons block_copies_untouched [OF assms(1,2)] rb simp del: run_copy.simps)
  next
    case False
    then have "(a, q) \<in> set prs" using Cons.prems(2) by auto
    then show ?thesis
      using Cons.IH Cons.prems(1) assms(3-5)
      by (auto simp: block_copies_Cons rb simp del: run_copy.simps)
  qed
qed

section \<open>The blit loop as block moves\<close>

text \<open>Token \<open>t\<close> and head \<open>h\<close> move block \<open>t * numKVHeads + h\<close> to block \<open>h * maxSeqLen + seqLen + t\<close>.\<close>

definition blit_pairs :: "GPUKVCache \<Rightarrow> int \<Rightarrow> (int \<times> int) list" where
  "blit_pairs c newTokens =
     map (\<lambda>(t, h). (int t * gk_numKVHeads c + int h, int h * gk_maxSeqLen c + gk_seqLen c + int t))
       (List.product [0..<nat newTokens] [0..<nat (gk_numKVHeads c)])"

lemma concat_product:
  "concat (map (\<lambda>t. concat (map (f t) hs)) ts) = concat (map (\<lambda>(t, h). f t h) (List.product ts hs))"
  by (induction ts) (simp_all add: comp_def)

lemma blit_calls_blocks:
  "blit_calls c bpe k v kb vb n = block_copies k v kb vb (gk_headDim c * bpe) (blit_pairs c n)"
  by (simp add: blit_calls_def blit_pair_def block_copies_def blit_pairs_def concat_product Let_def
      comp_def split_def algebra_simps)

lemma in_blit_pairs:
  "(a, q) \<in> set (blit_pairs c n) \<longleftrightarrow>
   (\<exists>t h. 0 \<le> t \<and> t < n \<and> 0 \<le> h \<and> h < gk_numKVHeads c \<and>
          a = t * gk_numKVHeads c + h \<and> q = h * gk_maxSeqLen c + gk_seqLen c + t)"
  (is "?L \<longleftrightarrow> ?R")
proof
  assume ?L
  then obtain t h where "t < nat n" "h < nat (gk_numKVHeads c)"
    "a = int t * gk_numKVHeads c + int h" "q = int h * gk_maxSeqLen c + gk_seqLen c + int t"
    by (auto simp: blit_pairs_def)
  then show ?R by (intro exI [of _ "int t"] exI [of _ "int h"]) auto
next
  assume ?R
  then obtain t h where "0 \<le> t" "t < n" "0 \<le> h" "h < gk_numKVHeads c"
    "a = t * gk_numKVHeads c + h" "q = h * gk_maxSeqLen c + gk_seqLen c + t" by auto
  then show ?L
    unfolding blit_pairs_def by (simp add: image_iff) (rule bexI [of _ "nat t"], rule bexI [of _ "nat h"], auto)
qed

lemma row_col_unique:
  assumes "h * w + p = h' * w + (p' :: int)" and "0 \<le> p" "p < w" "0 \<le> p'" "p' < w"
  shows "h = h' \<and> p = p'"
proof -
  have "(h * w + p) div w = h" "(h' * w + p') div w = h'" using assms(2-5) by simp_all
  then have "h = h'" using assms(1) by simp
  then show ?thesis using assms(1) by simp
qed

lemma blit_pairs_distinct:
  assumes "0 \<le> gk_seqLen c" and "gk_seqLen c + n \<le> gk_maxSeqLen c"
  shows "distinct (map snd (blit_pairs c n))"
proof -
  let ?f = "\<lambda>(t, h). int h * gk_maxSeqLen c + gk_seqLen c + int t"
  have "inj_on ?f (set (List.product [0..<nat n] [0..<nat (gk_numKVHeads c)]))"
  proof (rule inj_onI)
    fix x y
    assume m: "x \<in> set (List.product [0..<nat n] [0..<nat (gk_numKVHeads c)])"
      "y \<in> set (List.product [0..<nat n] [0..<nat (gk_numKVHeads c)])" and e: "?f x = ?f y"
    obtain t h t' h' where xy: "x = (t, h)" "y = (t', h')" by fastforce
    with m e assms
      row_col_unique [of "int h" "gk_maxSeqLen c" "gk_seqLen c + int t" "int h'" "gk_seqLen c + int t'"]
    show "x = y" by (auto simp: add.assoc)
  qed
  then show ?thesis by (simp add: blit_pairs_def distinct_map distinct_product comp_def split_def)
qed

section \<open>Properties\<close>

definition elem_bytes :: "GPUKVCache \<Rightarrow> int" where
  "elem_bytes c = (if gk_useFP16 c then 2 else 4)"

text \<open>The byte address of byte \<open>j\<close> of position \<open>p\<close> of head \<open>h\<close> in a buffer of the cache.\<close>

definition kv_addr :: "GPUKVCache \<Rightarrow> int \<Rightarrow> int \<Rightarrow> int \<Rightarrow> int" where
  "kv_addr c h p j = (h * gk_maxSeqLen c + p) * (gk_headDim c * elem_bytes c) + j"

text \<open>No scatter kernel applies, and the backend has the copy interface.\<close>

definition blit_path :: "GPUKVCache \<Rightarrow> bool" where
  "blit_path c \<longleftrightarrow> kb_copier (gk_backend c) \<and>
     \<not> (if gk_useFP16 c then kb_fp16 (gk_backend c) else kb_scatter (gk_backend c))"

lemma AppendKV_blit:
  assumes "blit_path c" and "idx (gk_kBuffers c) l = Some kb" and "idx (gk_vBuffers c) l = Some vb"
  shows "GPUKVCache_AppendKV c l k v dt n = Some ((kb, vb, gk_seqLen c + n),
    advance (with_calls (blit_calls c (elem_bytes c) k v kb vb n) c) l n)"
  using assms by (auto simp: GPUKVCache_AppendKV_def blit_path_def elem_bytes_def Let_def)

lemma advance_log [simp]: "kb_log (gk_backend (advance (with_calls cs c) l n)) = kb_log (gk_backend c) @ cs"
  by (simp add: advance_def with_calls_def kb_calls_def)

lemma kv_addr_block:
  "kv_addr c h p j = (h * gk_maxSeqLen c + p) * (gk_headDim c * elem_bytes c) + j"
  by (simp add: kv_addr_def)

lemma blit_destinations:
  assumes "0 \<le> p" and "p < gk_maxSeqLen c" and "0 \<le> gk_seqLen c" and "gk_seqLen c + n \<le> gk_maxSeqLen c"
    and "(a, h * gk_maxSeqLen c + p) \<in> set (blit_pairs c n)"
  shows "gk_seqLen c \<le> p \<and> p < gk_seqLen c + n"
proof -
  obtain t h' where "0 \<le> t" "t < n"
    and e: "h * gk_maxSeqLen c + p = h' * gk_maxSeqLen c + (gk_seqLen c + t)"
    using assms(5) by (auto simp: in_blit_pairs add.assoc)
  then show ?thesis using row_col_unique [OF e] assms(1-4) by auto
qed

text \<open>
  C6: The copy fallback of \<open>AppendKV\<close> transposes: with room for the new tokens, after the calls it issues
  position \<open>p\<close> of head \<open>h\<close> of the layer's key and value buffers holds the source's token \<open>p - seqLen\<close> of
  that head when \<open>p\<close> is a new position, and its old bytes otherwise.
\<close>

theorem AppendKV_blit_transposes:
  assumes "blit_path c" and "idx (gk_kBuffers c) l = Some kb" and "idx (gk_vBuffers c) l = Some vb"
    and "kb \<noteq> vb" and "k \<notin> {kb, vb}" and "v \<notin> {kb, vb}"
    and "0 \<le> gk_seqLen c" and "gk_seqLen c + n \<le> gk_maxSeqLen c"
    and "0 \<le> h" and "h < gk_numKVHeads c" and "0 \<le> p" and "p < gk_maxSeqLen c"
    and "0 \<le> j" and "j < gk_headDim c * elem_bytes c"
  shows "\<exists>c' calls. GPUKVCache_AppendKV c l k v dt n = Some ((kb, vb, gk_seqLen c + n), c') \<and>
    kb_log (gk_backend c') = kb_log (gk_backend c) @ calls \<and>
    run_copies calls m kb (kv_addr c h p j) =
      (if gk_seqLen c \<le> p \<and> p < gk_seqLen c + n
       then m k (((p - gk_seqLen c) * gk_numKVHeads c + h) * (gk_headDim c * elem_bytes c) + j)
       else m kb (kv_addr c h p j)) \<and>
    run_copies calls m vb (kv_addr c h p j) =
      (if gk_seqLen c \<le> p \<and> p < gk_seqLen c + n
       then m v (((p - gk_seqLen c) * gk_numKVHeads c + h) * (gk_headDim c * elem_bytes c) + j)
       else m vb (kv_addr c h p j))"
proof -
  let ?calls = "blit_calls c (elem_bytes c) k v kb vb n"
  let ?q = "h * gk_maxSeqLen c + p" and ?a = "(p - gk_seqLen c) * gk_numKVHeads c + h"
  have moved: "gk_seqLen c \<le> p \<and> p < gk_seqLen c + n \<Longrightarrow> (?a, ?q) \<in> set (blit_pairs c n)"
    unfolding in_blit_pairs
    by (insert assms(9,10), rule exI [of _ "p - gk_seqLen c"], rule exI [of _ h]) auto
  have kept: "\<not> (gk_seqLen c \<le> p \<and> p < gk_seqLen c + n) \<Longrightarrow> ?q \<notin> snd ` set (blit_pairs c n)"
    using blit_destinations [OF assms(11,12,7,8), of _ h] by fastforce
  note d = blit_pairs_distinct [OF assms(7,8)]
  show ?thesis
    using moved kept
      block_copies_moved [OF assms(13,14,4,5,6) d, of ?a ?q m]
      block_copies_untouched [OF assms(13,14), of ?q "blit_pairs c n" k v kb vb m]
    by (intro exI [of _ "advance (with_calls ?calls c) l n"] exI [of _ ?calls])
      (auto simp: AppendKV_blit [OF assms(1-3)] kv_addr_block blit_calls_blocks)
qed

text \<open>A two-layer cache of two heads of two elements and four positions, on a backend that only copies.\<close>

definition demo_backend :: "bool \<Rightarrow> KvBackend" where
  "demo_backend scatter = \<lparr>kb_ptr = (\<lambda>n. NewDevicePtr CUDA (word_of_nat (1000 * Suc n))), kb_fp16 = False,
     kb_fused = False, kb_scatter = scatter, kb_copier = True, kb_count = 0, kb_log = []\<rparr>"

definition demo_kv :: "bool \<Rightarrow> GPUKVCache" where
  "demo_kv scatter = the (NewGPUKVCache (demo_backend scatter) 2 2 2 4)"

lemma demo_kv_eq:
  "demo_kv s = \<lparr>gk_backend = (demo_backend s)\<lparr>kb_count := 4, kb_log := replicate 4 (KAlloc 64)\<rparr>,
     gk_numLayers = 2, gk_numKVHeads = 2, gk_headDim = 2, gk_maxSeqLen = 4, gk_useFP16 = False,
     gk_precision = KVPrecisionFP32, gk_kBuffers = [NewDevicePtr CUDA 1000, NewDevicePtr CUDA 3000],
     gk_vBuffers = [NewDevicePtr CUDA 2000, NewDevicePtr CUDA 4000], gk_seqLen = 0\<rparr>"
  by (simp add: demo_kv_def NewGPUKVCache_def NewGPUKVCacheWithPrecision_def newGPUKVCacheWithKVPrecision_def
      kv_buffer_size_def kb_alloc_def kb_calls_def demo_backend_def numeral_2_eq_2 numeral_eq_Suc)

theorem AppendKV_blit_transposes_witness:
  "\<exists>c' calls. GPUKVCache_AppendKV ((demo_kv False)\<lparr>gk_seqLen := 1\<rparr>) 0 (NewDevicePtr CUDA 8)
      (NewDevicePtr CUDA 16) Float32 2 =
      Some ((NewDevicePtr CUDA 1000, NewDevicePtr CUDA 2000, 3), c') \<and>
    kb_log (gk_backend c') = kb_log (gk_backend (demo_kv False)) @ calls \<and>
    run_copies calls (\<lambda>p i. word_of_int i) (NewDevicePtr CUDA 1000) 49 = 25"
proof -
  let ?c = "(demo_kv False)\<lparr>gk_seqLen := 1\<rparr>"
  have l: "idx (gk_kBuffers ?c) 0 = Some (NewDevicePtr CUDA 1000)"
    "idx (gk_vBuffers ?c) 0 = Some (NewDevicePtr CUDA 2000)" "blit_path ?c"
    by (simp_all add: demo_kv_eq demo_backend_def blit_path_def idx_def)
  have s: "gk_seqLen ?c = 1" "gk_maxSeqLen ?c = 4" "gk_numKVHeads ?c = 2" "gk_headDim ?c = 2" "elem_bytes ?c = 4"
    "kv_addr ?c 1 2 1 = 49" by (simp_all add: demo_kv_eq elem_bytes_def kv_addr_def)
  have b: "kb_log (gk_backend ?c) = kb_log (gk_backend (demo_kv False))" by simp
  have p: "(NewDevicePtr CUDA 1000 = NewDevicePtr CUDA 2000) = False"
    "(NewDevicePtr CUDA 8 = NewDevicePtr CUDA 1000) = False" "(NewDevicePtr CUDA 8 = NewDevicePtr CUDA 2000) = False"
    "(NewDevicePtr CUDA 16 = NewDevicePtr CUDA 1000) = False" "(NewDevicePtr CUDA 16 = NewDevicePtr CUDA 2000) = False"
    by code_simp+
  show ?thesis
    using AppendKV_blit_transposes [OF l(3) l(1) l(2), where k = "NewDevicePtr CUDA 8" and v = "NewDevicePtr CUDA 16"
        and n = 2 and h = 1 and p = 2 and j = 1 and dt = Float32 and m = "\<lambda>p i. word_of_int i"]
    by (simp add: s b p) blast
qed

section \<open>A forward pass over the layers\<close>

text \<open>The appends of one forward pass, layer after layer; \<open>kp l\<close> and \<open>vp l\<close> are the new rows of layer \<open>l\<close>.\<close>

fun append_pass ::
  "(nat \<Rightarrow> DevicePtr) \<Rightarrow> (nat \<Rightarrow> DevicePtr) \<Rightarrow> DType \<Rightarrow> int \<Rightarrow> nat list \<Rightarrow> GPUKVCache \<Rightarrow> (int list \<times> GPUKVCache) option" where
  "append_pass kp vp dt n [] c = Some ([], c)"
| "append_pass kp vp dt n (l # ls) c =
     do { ((k, v, full), c1) \<leftarrow> GPUKVCache_AppendKV c (int l) (kp l) (vp l) dt n;
          (fulls, c2) \<leftarrow> append_pass kp vp dt n ls c1;
          Some (full # fulls, c2) }"

text \<open>The backend can store: a scatter kernel or the copy interface is there.\<close>

definition can_store :: "GPUKVCache \<Rightarrow> bool" where
  "can_store c \<longleftrightarrow> kb_copier (gk_backend c) \<or>
     (if gk_useFP16 c then kb_fp16 (gk_backend c) else kb_scatter (gk_backend c))"

definition buffers_ok :: "GPUKVCache \<Rightarrow> bool" where
  "buffers_ok c \<longleftrightarrow> len (gk_kBuffers c) = gk_numLayers c \<and> len (gk_vBuffers c) = gk_numLayers c"

text \<open>Two caches that differ at most in the calls made on the backend.\<close>

definition log_only :: "GPUKVCache \<Rightarrow> GPUKVCache \<Rightarrow> bool" where
  "log_only c c' \<longleftrightarrow> (\<exists>calls. c' = with_calls calls c)"

lemma log_only_refl: "log_only c c"
  by (auto simp: log_only_def with_calls_def kb_calls_def intro!: exI [of _ "[]"])

lemma log_only_trans: "log_only c c' \<Longrightarrow> log_only c' c'' \<Longrightarrow> log_only c c''"
  by (auto simp: log_only_def with_calls_def kb_calls_def)

lemma log_only_fields:
  assumes "log_only c c'"
  shows "gk_seqLen c' = gk_seqLen c" "gk_numLayers c' = gk_numLayers c" "can_store c' = can_store c"
    "buffers_ok c' = buffers_ok c"
  using assms by (auto simp: log_only_def with_calls_def kb_calls_def can_store_def buffers_ok_def)

lemma AppendKV_advances:
  assumes "can_store c" and "buffers_ok c" and "0 \<le> l" and "l < gk_numLayers c"
  shows "\<exists>k v c'. GPUKVCache_AppendKV c l kp vp dt n = Some ((k, v, gk_seqLen c + n), advance c' l n) \<and> log_only c c'"
proof -
  obtain k v where "idx (gk_kBuffers c) l = Some k" "idx (gk_vBuffers c) l = Some v"
    using assms by (auto simp: buffers_ok_def idx_def)
  then show ?thesis
    using assms(1) by (auto simp: GPUKVCache_AppendKV_def can_store_def Let_def log_only_def split: if_splits)
qed

lemma append_pass_middle:
  assumes "can_store c" and "buffers_ok c" and "int (i + k) < gk_numLayers c"
  shows "\<exists>c'. append_pass kp vp dt n [i..<i + k] c = Some (replicate k (gk_seqLen c + n), c') \<and> log_only c c'"
  using assms
proof (induction k arbitrary: i c)
  case 0
  then show ?case by (simp add: log_only_refl)
next
  case (Suc k)
  obtain a b c' where a: "GPUKVCache_AppendKV c (int i) (kp i) (vp i) dt n =
      Some ((a, b, gk_seqLen c + n), advance c' (int i) n)" and l: "log_only c c'"
    using AppendKV_advances [OF Suc.prems(1,2), of "int i" "kp i" "vp i" dt n] Suc.prems(3) by auto
  have e: "advance c' (int i) n = c'"
    using Suc.prems(3) log_only_fields [OF l] by (simp add: advance_def)
  have "can_store c'" "buffers_ok c'" "int (Suc i + k) < gk_numLayers c'"
    using log_only_fields [OF l] Suc.prems by simp_all
  from Suc.IH [OF this] obtain c'' where
    "append_pass kp vp dt n [Suc i..<Suc i + k] c' = Some (replicate k (gk_seqLen c' + n), c'')" "log_only c' c''"
    by blast
  then show ?case
    using a e log_only_fields(1) [OF l] log_only_trans [OF l]
    by (auto simp: upt_conv_Cons simp del: upt_Suc)
qed

lemma append_pass_append:
  "append_pass kp vp dt n (xs @ ys) c =
     do { (f1, c1) \<leftarrow> append_pass kp vp dt n xs c; (f2, c2) \<leftarrow> append_pass kp vp dt n ys c1; Some (f1 @ f2, c2) }"
  by (induction xs arbitrary: c) (auto split: Option.bind_splits)

text \<open>
  One forward pass over all layers, on a backend that can store, writes every layer at the same position
  and moves the position once, at the last layer: every layer is told the length \<open>seqLen + n\<close>, the cache ends
  at \<open>seqLen + n\<close>, and rolling it back with \<open>Truncate\<close> undoes the pass but for the calls on the device.
\<close>

theorem AppendKV_pass_then_Truncate:
  assumes "can_store c" and "buffers_ok c" and "0 < gk_numLayers c" and "0 \<le> gk_seqLen c" and "0 \<le> n"
  shows "\<exists>c'. append_pass kp vp dt n [0..<nat (gk_numLayers c)] c =
      Some (replicate (nat (gk_numLayers c)) (gk_seqLen c + n), c') \<and>
    GPUKVCache_SeqLen c' = gk_seqLen c + n \<and>
    log_only c (GPUKVCache_Truncate c' (gk_seqLen c))"
proof -
  define k where "k = nat (gk_numLayers c) - 1"
  have k: "nat (gk_numLayers c) = Suc k" "int k = gk_numLayers c - 1" using assms(3) by (auto simp: k_def)
  obtain c1 where p: "append_pass kp vp dt n [0..<k] c = Some (replicate k (gk_seqLen c + n), c1)"
    and l1: "log_only c c1"
    using append_pass_middle [OF assms(1,2), of 0 k kp vp dt n] k by auto
  note f1 = log_only_fields [OF l1]
  obtain a b c2 where q: "GPUKVCache_AppendKV c1 (int k) (kp k) (vp k) dt n =
      Some ((a, b, gk_seqLen c1 + n), advance c2 (int k) n)" and l2: "log_only c1 c2"
    using AppendKV_advances [of c1 "int k" "kp k" "vp k" dt n] f1 assms k by auto
  let ?c = "advance c2 (int k) n"
  have r: "append_pass kp vp dt n [0..<nat (gk_numLayers c)] c =
      Some (replicate (nat (gk_numLayers c)) (gk_seqLen c + n), ?c)"
    using p q f1(1) k(1) by (simp add: append_pass_append replicate_append_same)
  have s: "gk_seqLen ?c = gk_seqLen c + n" "gk_seqLen c2 = gk_seqLen c"
    using f1 log_only_fields [OF l2] k(2) by (simp_all add: advance_def)
  have "GPUKVCache_Truncate ?c (gk_seqLen c) = c2"
    using s assms(4,5) by (simp add: GPUKVCache_Truncate_def advance_def)
  then show ?thesis using r s(1) log_only_trans [OF l1 l2] by (simp add: GPUKVCache_SeqLen_def)
qed

theorem AppendKV_pass_then_Truncate_witness:
  "\<exists>c'. append_pass (\<lambda>l. nil_ptr) (\<lambda>l. nil_ptr) Float32 3 [0, 1] (demo_kv True) = Some ([3, 3], c') \<and>
    GPUKVCache_SeqLen c' = 3 \<and> log_only (demo_kv True) (GPUKVCache_Truncate c' 0)"
proof -
  let ?c = "demo_kv True"
  have c: "can_store ?c" "buffers_ok ?c" "0 < gk_numLayers ?c" "gk_seqLen ?c = 0" "nat (gk_numLayers ?c) = Suc (Suc 0)"
    by (simp_all add: demo_kv_eq can_store_def buffers_ok_def demo_backend_def)
  show ?thesis
    using AppendKV_pass_then_Truncate [where c = ?c and n = 3 and kp = "\<lambda>l. nil_ptr" and vp = "\<lambda>l. nil_ptr"
        and dt = Float32] c
    by simp
qed


lemma demo_last_copy:
  assumes "c = (demo_kv True)\<lparr>gk_numKVHeads := 5, gk_seqLen := 2, gk_precision := p\<rparr>"
  shows "KCopy nil_ptr 32 (NewDevicePtr CUDA 8) 144 8 \<in>
    set (blit_calls c (elem_bytes c) nil_ptr nil_ptr (NewDevicePtr CUDA 8) nil_ptr 1)"
proof -
  have b: "set (blit_pairs c 1) = {(0, 2), (1, 6), (2, 10), (3, 14), (4, 18)}"
    by (simp add: assms blit_pairs_def demo_kv_eq numeral_eq_Suc)
  show ?thesis by (simp add: blit_calls_blocks block_copies_def b) (simp add: assms demo_kv_eq elem_bytes_def)
qed


section \<open>Where the layout is not protected\<close>

text \<open>
  Nothing compares the position with \<open>maxSeqLen\<close>: one past the last position of a head is the first
  position of the next head.
\<close>

lemma position_overflow: "kv_addr c h (gk_maxSeqLen c) j = kv_addr c (h + 1) 0 j"
  by (simp add: kv_addr_def algebra_simps)

text \<open>A \<open>Q8_0\<close> cache is copied in four-byte elements although its buffers hold 34 bytes for 32 elements.\<close>

lemma q8_copy_out_of_buffer:
  defines "c \<equiv> (demo_kv True)\<lparr>gk_numKVHeads := 5, gk_seqLen := 2, gk_precision := KVPrecisionQ8_0\<rparr>"
  shows "KCopy nil_ptr 32 (NewDevicePtr CUDA 8) 144 8 \<in>
      set (blit_calls c (elem_bytes c) nil_ptr nil_ptr (NewDevicePtr CUDA 8) nil_ptr 1) \<and>
    kv_buffer_size (gk_precision c) (gk_maxSeqLen c * gk_numKVHeads c * gk_headDim c) < 144"
  using demo_last_copy [OF refl, of KVPrecisionQ8_0]
  by (simp add: c_def demo_kv_eq kv_buffer_size_def Q8BlockSize_def Q8BytesPerBlock_def sdiv_nonneg)

end
