(* ===== verification/Scheduler.thy ===== *)
theory Scheduler
  imports Gen_Sequence Paged_Cache Block_Pool GPU_KV_Cache
begin

text \<open>
  The file \<open>inference/scheduler/scheduler.go\<close>. The numerical part of the runtime (the forward passes of
  \<open>runtime/decode.go\<close>), the sampler, the tokenizer and the contents of device memory are the fields of
  \<open>Engine\<close>, a parameter; the runtime's three KV caches are the modelled ones. An iteration over the
  map of sequences visits the keys in the order \<open>visit\<close>, a parameter of the step, since Go leaves it open.
  The clock (\<open>PrefillTime\<close>, \<open>DecodeTime\<close>), the locks and the debug output are left out.
\<close>

section \<open>The runtime and the engine\<close>

record ('f, 'd) Runtime =
  rt_paged :: "'f PagedKVCache option"
  rt_pool :: "GPUBlockPool option"
  rt_gpu :: "GPUKVCache option"
  rt_backend :: "'d option"

record Tokenizer =
  tk_EOS :: int
  tk_BOS :: int
  tk_AddBOS :: bool
  tk_Encode :: "string \<Rightarrow> string + int list"
  tk_Decode :: "int list \<Rightarrow> string"

type_synonym ('f, 'd) forward = "('f, 'd) Runtime \<Rightarrow> (string + Tensor) \<times> ('f, 'd) Runtime"

record ('f, 'd, 's) Engine =
  en_vocab :: int
  en_DecodeWithGPUKV :: "int list \<Rightarrow> int \<Rightarrow> ('f, 'd) forward"
  en_DecodeWithPagedKV :: "int list \<Rightarrow> int \<Rightarrow> int \<Rightarrow> ('f, 'd) forward"
  en_DecodeWithPagedKVBatched :: "int list \<Rightarrow> int list \<Rightarrow> int list \<Rightarrow> ('f, 'd) forward"
  en_DecodeStep :: "int list \<Rightarrow> int list \<Rightarrow> ('f, 'd) forward"
  en_PrefillWithPagedKV :: "int list \<Rightarrow> int \<Rightarrow> int \<Rightarrow> ('f, 'd) forward"
  en_cpu :: "('f, 'd) Runtime \<Rightarrow> DevicePtr \<Rightarrow> nat \<Rightarrow> f32"
  en_host :: "'d \<Rightarrow> DevicePtr \<Rightarrow> nat \<Rightarrow> f32"
  en_softCap :: "f32 \<Rightarrow> f32"
  en_argmax :: "('d \<Rightarrow> DevicePtr \<Rightarrow> int \<Rightarrow> int) option"
  en_Sample :: "'s \<Rightarrow> f32 list \<Rightarrow> int \<times> 's"
  en_newSampler :: "f32 \<Rightarrow> int \<Rightarrow> f32 \<Rightarrow> int \<Rightarrow> 's"
  en_tokenizer :: "Tokenizer option"
  en_sequentialPrefill :: bool

record SchedulerConfig =
  sf_MaxBatchSize :: int
  sf_MaxSequences :: int
  sf_MaxTokens :: int
  sf_Temperature :: f32

record SchedulerMetrics =
  sm_ActiveSequences :: int
  sm_CompletedSequences :: int
  sm_TotalTokens :: int
  sm_PrefillTokens :: int
  sm_DecodeTokens :: int

record ('f, 'd, 's) Scheduler =
  sc_runtime :: "('f, 'd) Runtime"
  sc_sampler :: 's
  sc_config :: SchedulerConfig
  sc_sequences :: "SequenceID \<rightharpoonup> Sequence"
  sc_metrics :: SchedulerMetrics

definition NewScheduler :: "('f, 'd) Runtime \<Rightarrow> 's \<Rightarrow> SchedulerConfig \<Rightarrow> ('f, 'd, 's) Scheduler" where
  "NewScheduler rt sampler config =
     \<lparr>sc_runtime = rt, sc_sampler = sampler, sc_config = config, sc_sequences = Map.empty,
      sc_metrics = \<lparr>sm_ActiveSequences = 0, sm_CompletedSequences = 0, sm_TotalTokens = 0,
                    sm_PrefillTokens = 0, sm_DecodeTokens = 0\<rparr>\<rparr>"

definition isStopToken :: "('f, 'd, 's) Engine \<Rightarrow> int \<Rightarrow> Sequence \<Rightarrow> bool" where
  "isStopToken e tokenID q =
     (let eosToken = (case en_tokenizer e of None \<Rightarrow> 2 | Some t \<Rightarrow> tk_EOS t)
      in tokenID = eosToken \<or> Sequence_IsExtraStopToken q tokenID)"

definition token_text :: "('f, 'd, 's) Engine \<Rightarrow> int \<Rightarrow> string" where
  "token_text e tokenID =
     (case en_tokenizer e of
        Some t \<Rightarrow> tk_Decode t [tokenID]
      | None \<Rightarrow> '' '' @ string_of_int tokenID)"

definition put_seq :: "SequenceID \<Rightarrow> Sequence \<Rightarrow> ('f, 'd, 's) Scheduler \<Rightarrow> ('f, 'd, 's) Scheduler" where
  "put_seq i q s = s\<lparr>sc_sequences := (sc_sequences s)(i \<mapsto> q)\<rparr>"

section \<open>Logits and sampling\<close>

text \<open>\<open>&result[0]\<close> panics for an empty buffer, \<open>make\<close> for a negative length.\<close>

definition getLogitsOnCPU ::
  "('f, 'd, 's) Engine \<Rightarrow> ('f, 'd) Runtime \<Rightarrow> Tensor \<Rightarrow> int \<Rightarrow> f32 list option option" where
  "getLogitsOnCPU e rt logits numElements =
     (let ptr = t_devicePtr logits in
      if DevicePtr_IsNil ptr then Some None
      else if DevicePtr_Location ptr = CPU
      then Some (Some (map (en_cpu e rt ptr) [0..<nat (Tensor_NumElements logits)]))
      else case rt_backend rt of
             None \<Rightarrow> Some None
           | Some d \<Rightarrow>
               if numElements \<le> 0 then None
               else Some (Some (map (\<lambda>i. en_softCap e (en_host e d ptr i)) [0..<nat numElements])))"

definition s_sample :: "('f, 'd, 's) Engine \<Rightarrow> f32 list \<Rightarrow> ('f, 'd, 's) Scheduler \<Rightarrow> int \<times> ('f, 'd, 's) Scheduler" where
  "s_sample e xs s = (let (t, sm) = en_Sample e (sc_sampler s) xs in (t, s\<lparr>sc_sampler := sm\<rparr>))"

text \<open>The slice \<open>logitsData[len(logitsData)-vocabSize:]\<close>.\<close>

definition last_row :: "f32 list \<Rightarrow> int \<Rightarrow> f32 list option" where
  "last_row xs vocabSize = slice xs (len xs - vocabSize) (len xs)"

definition gpu_argmax :: "('f, 'd, 's) Engine \<Rightarrow> 'd \<Rightarrow> SchedulerConfig \<Rightarrow> Tensor \<Rightarrow> int \<Rightarrow> int option" where
  "gpu_argmax e d config logits vocabSize =
     (let ptr = t_devicePtr logits; numElements = Tensor_NumElements logits in
      if f32_eq (sf_Temperature config) 0 then
        case en_argmax e of
          None \<Rightarrow> None
        | Some argmax \<Rightarrow>
            if \<not> DevicePtr_IsNil ptr \<and> DevicePtr_Location ptr \<noteq> CPU \<and> numElements \<ge> vocabSize
            then Some (argmax d (DevicePtrOffset ptr (word_of_int ((numElements - vocabSize) * 4))) vocabSize)
            else None
      else None)"

definition sampleToken ::
  "('f, 'd, 's) Engine \<Rightarrow> Tensor \<Rightarrow> int \<Rightarrow> ('f, 'd, 's) Scheduler \<Rightarrow> (int \<times> ('f, 'd, 's) Scheduler) option" where
  "sampleToken e logits vocabSize s =
     do { d \<leftarrow> rt_backend (sc_runtime s);
          case gpu_argmax e d (sc_config s) logits vocabSize of
            Some tokenID \<Rightarrow> Some (tokenID, s)
          | None \<Rightarrow>
              do { data \<leftarrow> getLogitsOnCPU e (sc_runtime s) logits (Tensor_NumElements logits);
                   case data of
                     None \<Rightarrow> Some (0, s)
                   | Some xs \<Rightarrow>
                       if len xs < vocabSize then Some (0, s)
                       else do { row \<leftarrow> last_row xs vocabSize; Some (s_sample e row s) } } }"

text \<open>
  What each decode path does with a sampled token: record it, finish on a stop token or at the limit,
  and otherwise push its text.
\<close>

definition emit_token :: "('f, 'd, 's) Engine \<Rightarrow> int \<Rightarrow> int \<Rightarrow> Sequence \<Rightarrow> Sequence option" where
  "emit_token e globalMax tokenID q =
     (let q1 = Sequence_AddGeneratedToken q tokenID in
      if isStopToken e tokenID q1 then Sequence_Close (Sequence_SetState q1 StateFinished)
      else if Sequence_ReachedMaxTokens q1 globalMax then Sequence_Close (Sequence_SetState q1 StateFinished)
      else Sequence_PushToken q1 (token_text e tokenID))"

definition enter_decode :: "Sequence \<Rightarrow> Sequence" where
  "enter_decode q =
     (let q1 = Sequence_AdvancePosition q in
      if sq_state q1 = StatePending then Sequence_SetState q1 StateDecoding else q1)"

section \<open>Prefill\<close>

text \<open>The first token of a sequence: unlike \<open>emit_token\<close>, the limit is not checked.\<close>

definition emit_prefill_token :: "('f, 'd, 's) Engine \<Rightarrow> int \<Rightarrow> Sequence \<Rightarrow> Sequence option" where
  "emit_prefill_token e tokenID q =
     (if isStopToken e tokenID q then Sequence_Close (Sequence_SetState q StateFinished)
      else do { q1 \<leftarrow> Sequence_PushToken q (token_text e tokenID); Some (Sequence_SetState q1 StateDecoding) })"

text \<open>The common end of the two prefill routines, from \<open>SetPrefillComplete\<close> on.\<close>

definition finish_prefill ::
  "('f, 'd, 's) Engine \<Rightarrow> SequenceID \<Rightarrow> Sequence \<Rightarrow> Tensor \<Rightarrow> ('f, 'd, 's) Scheduler \<Rightarrow> ('f, 'd, 's) Scheduler option" where
  "finish_prefill e i q logits s =
     do { let n = len (sq_promptTokens q);
          let q1 = Sequence_SetPrefillComplete q n;
          data \<leftarrow> getLogitsOnCPU e (sc_runtime s) logits (Tensor_NumElements logits);
          (case data of
             None \<Rightarrow> Some (put_seq i (Sequence_SetState q1 StateDecoding) s)
           | Some xs \<Rightarrow>
               if len xs < en_vocab e then Some (put_seq i (Sequence_SetState q1 StateDecoding) s)
               else
                 do { seqLogits \<leftarrow> last_row xs (en_vocab e);
                      let (tokenID, s1) = s_sample e seqLogits s;
                      let q2 = Sequence_AddGeneratedToken q1 tokenID;
                      let m = sc_metrics s1;
                      let s2 = s1\<lparr>sc_metrics := m\<lparr>sm_TotalTokens := sm_TotalTokens m + n,
                                                   sm_PrefillTokens := sm_PrefillTokens m + n\<rparr>\<rparr>;
                      q3 \<leftarrow> emit_prefill_token e tokenID q2;
                      Some (put_seq i q3 s2) }) }"

text \<open>A forward pass run by the scheduler.\<close>

definition forward_pass ::
  "('f, 'd) forward \<Rightarrow> ('f, 'd, 's) Scheduler \<Rightarrow> (string + Tensor) \<times> ('f, 'd, 's) Scheduler" where
  "forward_pass f s = (let (r, rt) = f (sc_runtime s) in (r, s\<lparr>sc_runtime := rt\<rparr>))"

definition runBatchedPrefill ::
  "('f, 'd, 's) Engine \<Rightarrow> SequenceID \<Rightarrow> ('f, 'd, 's) Scheduler \<Rightarrow> (string option \<times> ('f, 'd, 's) Scheduler) option" where
  "runBatchedPrefill e i s =
     do { q \<leftarrow> sc_sequences s i;
          if len (sq_promptTokens q) = 0
          then Some (None, put_seq i (Sequence_SetState q StateDecoding) s)
          else case forward_pass (en_PrefillWithPagedKV e (sq_promptTokens q) (sq_kvSeqID q) 0) s of
                 (Inl err, s1) \<Rightarrow> Some (Some (''prefill failed: '' @ err), s1)
               | (Inr logits, s1) \<Rightarrow> do { s2 \<leftarrow> finish_prefill e i q logits s1; Some (None, s2) } }"

text \<open>Sequential prefill: one decode per prompt token; the logits of the last one remain.\<close>

fun sequential_prefill ::
  "('f, 'd, 's) Engine \<Rightarrow> int list \<Rightarrow> int \<Rightarrow> Tensor \<Rightarrow> ('f, 'd, 's) Scheduler \<Rightarrow> (string + Tensor) \<times> ('f, 'd, 's) Scheduler" where
  "sequential_prefill e [] i logits s = (Inr logits, s)"
| "sequential_prefill e (tok # toks) i logits s =
     (case forward_pass (en_DecodeWithGPUKV e [tok] i) s of
        (Inl err, s1) \<Rightarrow>
          (Inl (''sequential prefill token '' @ string_of_int i @ '' failed: '' @ err), s1)
      | (Inr l, s1) \<Rightarrow> sequential_prefill e toks (i + 1) l s1)"

definition zero_tensor :: Tensor where
  "zero_tensor = \<lparr>t_shape = \<lparr>dims = []\<rparr>, t_dtype = Float32, t_devicePtr = nil_ptr, t_quantProfile = QuantNone\<rparr>"

definition reset_gpu_cache :: "('f, 'd, 's) Scheduler \<Rightarrow> ('f, 'd, 's) Scheduler" where
  "reset_gpu_cache s =
     s\<lparr>sc_runtime := (sc_runtime s)\<lparr>rt_gpu := map_option GPUKVCache_Reset (rt_gpu (sc_runtime s))\<rparr>\<rparr>"

definition runGPUPrefill ::
  "('f, 'd, 's) Engine \<Rightarrow> SequenceID \<Rightarrow> ('f, 'd, 's) Scheduler \<Rightarrow> (string option \<times> ('f, 'd, 's) Scheduler) option" where
  "runGPUPrefill e i s =
     do { q \<leftarrow> sc_sequences s i;
          if len (sq_promptTokens q) = 0
          then Some (None, put_seq i (Sequence_SetState q StateDecoding) s)
          else
            let s0 = reset_gpu_cache s;
                (r, s1) = (if en_sequentialPrefill e
                           then sequential_prefill e (sq_promptTokens q) 0 zero_tensor s0
                           else case forward_pass (en_DecodeWithGPUKV e (sq_promptTokens q) 0) s0 of
                                  (Inl err, t) \<Rightarrow> (Inl (''GPU prefill failed: '' @ err), t)
                                | (Inr l, t) \<Rightarrow> (Inr l, t))
            in case r of
                 Inl err \<Rightarrow> Some (Some err, s1)
               | Inr logits \<Rightarrow> do { s2 \<leftarrow> finish_prefill e i q logits s1; Some (None, s2) } }"

section \<open>Decoding\<close>

text \<open>The prefill loop of \<open>runDecodeStep\<close> over the batch, with the synchronisation after each prefill.\<close>

fun prefill_loop ::
  "('f, 'd, 's) Engine \<Rightarrow> bool \<Rightarrow> bool \<Rightarrow> SequenceID list \<Rightarrow> ('f, 'd, 's) Scheduler \<Rightarrow> (string option \<times> ('f, 'd, 's) Scheduler) option" where
  "prefill_loop e useGPU usePaged [] s = Some (None, s)"
| "prefill_loop e useGPU usePaged (i # is) s =
     do { q \<leftarrow> sc_sequences s i;
          if sq_state q = StatePending \<and> len (sq_promptTokens q) > 0 \<and> \<not> Sequence_IsPrefillComplete q \<and> (useGPU \<or> usePaged)
          then do { (err, s1) \<leftarrow> (if useGPU then runGPUPrefill e i s else runBatchedPrefill e i s);
                    case err of
                      Some m \<Rightarrow> Some (Some m, s1)
                    | None \<Rightarrow> do { d \<leftarrow> rt_backend (sc_runtime s1);
                                   prefill_loop e useGPU usePaged is s1 } }
          else prefill_loop e useGPU usePaged is s }"

definition needs_decode :: "Sequence \<Rightarrow> bool" where
  "needs_decode q = (sq_state q = StateDecoding \<or> (sq_state q = StatePending \<and> Sequence_IsPrefillComplete q))"

fun collect_decode :: "(SequenceID \<rightharpoonup> Sequence) \<Rightarrow> SequenceID list \<Rightarrow> SequenceID list option" where
  "collect_decode m [] = Some []"
| "collect_decode m (i # is) =
     do { q \<leftarrow> m i; rest \<leftarrow> collect_decode m is; Some (if needs_decode q then i # rest else rest) }"

text \<open>Token, position and KV sequence id of each decoding sequence; 1 is the BOS fallback.\<close>

fun decode_inputs :: "(SequenceID \<rightharpoonup> Sequence) \<Rightarrow> SequenceID list \<Rightarrow> (int list \<times> int list \<times> int list) option" where
  "decode_inputs m [] = Some ([], [], [])"
| "decode_inputs m (i # is) =
     do { q \<leftarrow> m i;
          (token, pos, hasMore) \<leftarrow> Sequence_NextInputToken q;
          let (token, pos) = (if hasMore then (token, pos) else (1, 0));
          (ts, ps, ks) \<leftarrow> decode_inputs m is;
          Some (token # ts, pos # ps, sq_kvSeqID q # ks) }"

text \<open>The GPU cache serves one sequence, so several are decoded and sampled one after the other.\<close>

fun gpu_decode_each ::
  "('f, 'd, 's) Engine \<Rightarrow> (SequenceID \<times> int \<times> int) list \<Rightarrow> ('f, 'd, 's) Scheduler \<Rightarrow> (string option \<times> ('f, 'd, 's) Scheduler) option" where
  "gpu_decode_each e [] s = Some (None, s)"
| "gpu_decode_each e ((i, token, pos) # rest) s =
     (case forward_pass (en_DecodeWithGPUKV e [token] pos) s of
        (Inl err, s1) \<Rightarrow> Some (Some err, s1)
      | (Inr logits, s1) \<Rightarrow>
          do { data \<leftarrow> getLogitsOnCPU e (sc_runtime s1) logits (en_vocab e);
               s2 \<leftarrow> (case data of
                        None \<Rightarrow> Some s1
                      | Some xs \<Rightarrow>
                          do { q \<leftarrow> sc_sequences s1 i;
                               let (tokenID, s') = s_sample e xs s1;
                               q' \<leftarrow> emit_token e (sf_MaxTokens (sc_config s)) tokenID (enter_decode q);
                               Some (put_seq i q' s') });
               gpu_decode_each e rest s2 })"

text \<open>The greedy path for one sequence.\<close>

definition greedy_one ::
  "('f, 'd, 's) Engine \<Rightarrow> SequenceID \<Rightarrow> Tensor \<Rightarrow> ('f, 'd, 's) Scheduler \<Rightarrow> ('f, 'd, 's) Scheduler option" where
  "greedy_one e i logits s =
     do { q \<leftarrow> sc_sequences s i;
          (tokenID, s1) \<leftarrow> sampleToken e logits (en_vocab e) s;
          q' \<leftarrow> emit_token e (sf_MaxTokens (sc_config s)) tokenID (enter_decode q);
          Some (put_seq i q' s1) }"

text \<open>Row \<open>k\<close> of the logits is sampled for the \<open>k\<close>-th sequence, by its own sampler if it has parameters.\<close>

definition sample_row ::
  "('f, 'd, 's) Engine \<Rightarrow> Sequence \<Rightarrow> f32 list \<Rightarrow> ('f, 'd, 's) Scheduler \<Rightarrow> int \<times> ('f, 'd, 's) Scheduler" where
  "sample_row e q seqLogits s =
     (if Sequence_HasSamplingParams q then
        let sm = en_newSampler e (Sequence_SamplingTemperature q) (Sequence_SamplingTopK q)
                   (Sequence_SamplingTopP q) (sq_id q)
        in (fst (en_Sample e sm seqLogits), s)
      else s_sample e seqLogits s)"

fun sample_each ::
  "('f, 'd, 's) Engine \<Rightarrow> f32 list option \<Rightarrow> int \<Rightarrow> SequenceID list \<Rightarrow> ('f, 'd, 's) Scheduler \<Rightarrow> ('f, 'd, 's) Scheduler option" where
  "sample_each e data k [] s = Some s"
| "sample_each e data k (i # is) s =
     do { q \<leftarrow> sc_sequences s i;
          let q1 = enter_decode q;
          let start = k * en_vocab e;
          let stop = start + en_vocab e;
          s1 \<leftarrow> (case data of
                   None \<Rightarrow> do { q2 \<leftarrow> Sequence_PushToken q1 ''?''; Some (put_seq i q2 s) }
                 | Some xs \<Rightarrow>
                     if stop > len xs
                     then do { q2 \<leftarrow> Sequence_PushToken q1 ''?''; Some (put_seq i q2 s) }
                     else do { seqLogits \<leftarrow> slice xs start stop;
                               let (tokenID, s') = sample_row e q1 seqLogits s;
                               q2 \<leftarrow> emit_token e (sf_MaxTokens (sc_config s)) tokenID q1;
                               Some (put_seq i q2 s') });
          sample_each e data (k + 1) is s1 }"

text \<open>The forward pass for the decoding sequences, on all paths but the multi-sequence GPU one.\<close>

definition decode_forward ::
  "('f, 'd, 's) Engine \<Rightarrow> bool \<Rightarrow> bool \<Rightarrow> int list \<Rightarrow> int list \<Rightarrow> int list \<Rightarrow> ('f, 'd) forward" where
  "decode_forward e useGPU usePaged tokens positions seqIDs =
     (if useGPU then en_DecodeWithGPUKV e tokens (hd positions)
      else if usePaged then
        (if len tokens = 1 then en_DecodeWithPagedKV e tokens (hd seqIDs) (hd positions)
         else en_DecodeWithPagedKVBatched e tokens seqIDs positions)
      else en_DecodeStep e tokens positions)"

definition greedy_path :: "SchedulerConfig \<Rightarrow> Sequence \<Rightarrow> bool" where
  "greedy_path config q =
     (let seqHasTemp = Sequence_HasSamplingParams q \<and> f32_less 0 (Sequence_SamplingTemperature q)
      in f32_eq (sf_Temperature config) 0 \<and> \<not> seqHasTemp)"

definition count_decoded :: "int \<Rightarrow> ('f, 'd, 's) Scheduler \<Rightarrow> ('f, 'd, 's) Scheduler" where
  "count_decoded n s =
     (let m = sc_metrics s in
      s\<lparr>sc_metrics := m\<lparr>sm_TotalTokens := sm_TotalTokens m + n, sm_DecodeTokens := sm_DecodeTokens m + n\<rparr>\<rparr>)"

definition sample_decoded ::
  "('f, 'd, 's) Engine \<Rightarrow> SequenceID list \<Rightarrow> Tensor \<Rightarrow> ('f, 'd, 's) Scheduler \<Rightarrow> ('f, 'd, 's) Scheduler option" where
  "sample_decoded e decodeSeqs logits s =
     do { q \<leftarrow> sc_sequences s (hd decodeSeqs);
          if len decodeSeqs = 1 \<and> greedy_path (sc_config s) q then greedy_one e (hd decodeSeqs) logits s
          else do { data \<leftarrow> getLogitsOnCPU e (sc_runtime s) logits (len decodeSeqs * en_vocab e);
                    sample_each e data 0 decodeSeqs s } }"

text \<open>\<open>runDecodeStep\<close> from the point where the decoding sequences are known and not empty.\<close>

definition decode_batch ::
  "('f, 'd, 's) Engine \<Rightarrow> bool \<Rightarrow> bool \<Rightarrow> SequenceID list \<Rightarrow> ('f, 'd, 's) Scheduler \<Rightarrow> (string option \<times> ('f, 'd, 's) Scheduler) option" where
  "decode_batch e useGPU usePaged decodeSeqs s =
     do { (tokens, positions, seqIDs) \<leftarrow> decode_inputs (sc_sequences s) decodeSeqs;
          if useGPU \<and> len decodeSeqs > 1 then
            do { (err, s1) \<leftarrow> gpu_decode_each e (zip decodeSeqs (zip tokens positions)) s;
                 case err of
                   Some m \<Rightarrow> Some (Some m, s1)
                 | None \<Rightarrow> Some (None, count_decoded (len decodeSeqs) s1) }
          else
            (case forward_pass (decode_forward e useGPU usePaged tokens positions seqIDs) s of
               (Inl err, s1) \<Rightarrow> Some (Some err, s1)
             | (Inr logits, s1) \<Rightarrow>
                 do { s2 \<leftarrow> sample_decoded e decodeSeqs logits s1;
                      Some (None, count_decoded (len decodeSeqs) s2) }) }"

definition runDecodeStep ::
  "('f, 'd, 's) Engine \<Rightarrow> SequenceID list \<Rightarrow> ('f, 'd, 's) Scheduler \<Rightarrow> (string option \<times> ('f, 'd, 's) Scheduler) option" where
  "runDecodeStep e batch s =
     (if len batch = 0 then Some (None, s)
      else
        let usePaged = (rt_paged (sc_runtime s) \<noteq> None); useGPU = (rt_gpu (sc_runtime s) \<noteq> None) in
        do { (err, s1) \<leftarrow> prefill_loop e useGPU usePaged batch s;
             case err of
               Some m \<Rightarrow> Some (Some m, s1)
             | None \<Rightarrow>
                 do { decodeSeqs \<leftarrow> collect_decode (sc_sequences s1) batch;
                      if len decodeSeqs = 0 then Some (None, s1)
                      else decode_batch e useGPU usePaged decodeSeqs s1 } })"

section \<open>The step\<close>

definition is_ready :: "Sequence \<Rightarrow> bool" where
  "is_ready q = (sq_state q \<in> {StatePending, StatePrefill, StateDecoding})"

definition collectReady :: "SequenceID list \<Rightarrow> ('f, 'd, 's) Scheduler \<Rightarrow> SequenceID list" where
  "collectReady visit s =
     filter (\<lambda>i. case sc_sequences s i of None \<Rightarrow> False | Some q \<Rightarrow> is_ready q) visit"

definition formBatches :: "SchedulerConfig \<Rightarrow> SequenceID list \<Rightarrow> SequenceID list option" where
  "formBatches config ready =
     (if len ready = 0 then Some []
      else if len ready \<le> sf_MaxBatchSize config then Some ready
      else slice ready 0 (sf_MaxBatchSize config))"

text \<open>With nothing to run, the step deletes the finished sequences from the map.\<close>

definition drop_finished :: "(SequenceID \<rightharpoonup> Sequence) \<Rightarrow> (SequenceID \<rightharpoonup> Sequence)" where
  "drop_finished m = (\<lambda>i. case m i of
     None \<Rightarrow> None | Some q \<Rightarrow> if sq_state q = StateFinished then None else Some q)"

definition Scheduler_step ::
  "('f, 'd, 's) Engine \<Rightarrow> SequenceID list \<Rightarrow> ('f, 'd, 's) Scheduler \<Rightarrow> (string option \<times> ('f, 'd, 's) Scheduler) option" where
  "Scheduler_step e visit s =
     do { let ready = collectReady visit s;
          let s1 = s\<lparr>sc_metrics := (sc_metrics s)\<lparr>sm_ActiveSequences := int (card (dom (sc_sequences s)))\<rparr>\<rparr>;
          batch \<leftarrow> formBatches (sc_config s) ready;
          if len batch = 0
          then Some (None, s1\<lparr>sc_sequences := drop_finished (sc_sequences s1)\<rparr>)
          else runDecodeStep e batch s1 }"

section \<open>Adding and removing sequences\<close>

definition encode_prompt :: "('f, 'd, 's) Engine \<Rightarrow> Sequence \<Rightarrow> Sequence" where
  "encode_prompt e q =
     (case en_tokenizer e of
        None \<Rightarrow> q
      | Some t \<Rightarrow>
          if len (sq_promptTokens q) = 0 \<and> sq_prompt q \<noteq> [] then
            (case tk_Encode t (sq_prompt q) of
               Inl err \<Rightarrow> q
             | Inr tokens \<Rightarrow>
                 Sequence_SetPromptTokens q (if tk_AddBOS t then tk_BOS t # tokens else tokens))
          else q)"

text \<open>The sequence gets a table in the paged cache and one under the same id in the GPU pool.\<close>

definition create_paged :: "Sequence \<Rightarrow> ('f, 'd) Runtime \<Rightarrow> (Sequence \<times> ('f, 'd) Runtime) option" where
  "create_paged q rt =
     (case rt_paged rt of
        None \<Rightarrow> Some (q, rt)
      | Some cache \<Rightarrow>
          do { (kvSeqID, cache') \<leftarrow> PagedKVCache_CreateSequence cache;
               Some (Sequence_SetKVSeqID q kvSeqID, rt\<lparr>rt_paged := Some cache'\<rparr>) })"

definition create_in_pool :: "Sequence \<Rightarrow> ('f, 'd) Runtime \<Rightarrow> ('f, 'd) Runtime" where
  "create_in_pool q rt =
     (case rt_pool rt of
        None \<Rightarrow> rt
      | Some pool \<Rightarrow>
          if sq_kvSeqID q \<noteq> 0
          then rt\<lparr>rt_pool := Some (GPUBlockPool_CreateSequence pool (sq_kvSeqID q))\<rparr> else rt)"

definition AddSequence ::
  "('f, 'd, 's) Engine \<Rightarrow> Sequence \<Rightarrow> ('f, 'd, 's) Scheduler \<Rightarrow> ('f, 'd, 's) Scheduler option" where
  "AddSequence e q s =
     do { (q1, rt) \<leftarrow> create_paged (encode_prompt e q) (sc_runtime s);
          Some (put_seq (sq_id q1) q1 (s\<lparr>sc_runtime := create_in_pool q1 rt\<rparr>)) }"

definition RemoveSequence :: "SequenceID \<Rightarrow> ('f, 'd, 's) Scheduler \<Rightarrow> ('f, 'd, 's) Scheduler option" where
  "RemoveSequence i s =
     (case sc_sequences s i of
        None \<Rightarrow> Some s
      | Some q \<Rightarrow>
          do { let m = sc_metrics s;
               let s1 = s\<lparr>sc_sequences := (sc_sequences s)(i := None),
                          sc_metrics := m\<lparr>sm_CompletedSequences := sm_CompletedSequences m + 1\<rparr>\<rparr>;
               let rt = sc_runtime s1;
               rt1 \<leftarrow> (case rt_pool rt of
                  None \<Rightarrow> Some rt
                | Some pool \<Rightarrow>
                    if sq_kvSeqID q \<noteq> 0
                    then do { p \<leftarrow> GPUBlockPool_DeleteSequence pool (sq_kvSeqID q); Some (rt\<lparr>rt_pool := Some p\<rparr>) }
                    else Some rt);
               rt2 \<leftarrow> (case rt_paged rt1 of
                  None \<Rightarrow> Some rt1
                | Some cache \<Rightarrow>
                    if sq_kvSeqID q \<noteq> 0
                    then do { c \<leftarrow> PagedKVCache_DeleteSequence cache (sq_kvSeqID q); Some (rt1\<lparr>rt_paged := Some c\<rparr>) }
                    else Some rt1);
               Some (s1\<lparr>sc_runtime := rt2\<rparr>) })"

definition SequenceCount :: "('f, 'd, 's) Scheduler \<Rightarrow> int" where
  "SequenceCount s = int (card (dom (sc_sequences s)))"

end
