(* ===== verification/Paged_Inv.thy ===== *)
theory Paged_Inv
  imports Paged_Cache Holders
begin

text \<open>
  Conservation of blocks in the paged cache, for caches whose blocks are not shared (no fragment
  holds a block): on every layer the free list and the tables of the live sequences partition the
  blocks of the pool. The invariant \<open>pc_ok\<close> is kept by every operation on sequences; the blocks a
  sequence holds come back when it is truncated or deleted.
\<close>

section \<open>The blocks held by the tables of a map of sequences\<close>

definition blocks_of :: "(int \<rightharpoonup> BlockTable) \<Rightarrow> int \<Rightarrow> nat \<Rightarrow> BlockID list" where
  "blocks_of m s l = (case m s of None \<Rightarrow> [] | Some t \<Rightarrow> bt_blocks t ! l)"

definition held :: "(int \<rightharpoonup> BlockTable) \<Rightarrow> nat \<Rightarrow> BlockID multiset" where
  "held m l = held_by (\<lambda>t. bt_blocks t ! l) m"

lemma blocks_of_owned: "blocks_of m s l = owned (\<lambda>t. bt_blocks t ! l) m s"
  by (simp add: blocks_of_def owned_def)

lemma blocks_of_upd [simp]:
  "blocks_of (m(s \<mapsto> t)) r l = (if r = s then bt_blocks t ! l else blocks_of m r l)"
  by (simp add: blocks_of_def)

lemma blocks_of_del [simp]: "blocks_of (m(s := None)) r l = (if r = s then [] else blocks_of m r l)"
  by (simp add: blocks_of_def)

lemma held_empty [simp]: "held Map.empty l = {#}"
  by (simp add: held_def)

lemma held_upd:
  "finite (dom m) \<Longrightarrow> held (m(s \<mapsto> t)) l + mset (blocks_of m s l) = held m l + mset (bt_blocks t ! l)"
  unfolding held_def blocks_of_owned by (rule held_by_upd)

lemma held_del:
  "finite (dom m) \<Longrightarrow> held (m(s := None)) l + mset (blocks_of m s l) = held m l"
  unfolding held_def blocks_of_owned by (rule held_by_del)

lemma held_contains: "finite (dom m) \<Longrightarrow> mset (blocks_of m s l) \<subseteq># held m l"
  unfolding held_def blocks_of_owned by (rule held_by_contains)

lemma held_two:
  "finite (dom m) \<Longrightarrow> s \<noteq> r \<Longrightarrow> mset (blocks_of m s l) + mset (blocks_of m r l) \<subseteq># held m l"
  unfolding held_def blocks_of_owned by (rule held_by_two)

section \<open>The invariant\<close>

text \<open>Every table has one list per layer.\<close>

definition tables_ok :: "nat \<Rightarrow> (int \<rightharpoonup> BlockTable) \<Rightarrow> bool" where
  "tables_ok n m \<longleftrightarrow> finite (dom m) \<and> (\<forall>t \<in> ran m. length (bt_blocks t) = n)"

text \<open>No block has more than one holder.\<close>

definition unshared :: "'f BlockAllocator \<Rightarrow> bool" where
  "unshared a \<longleftrightarrow> (\<forall>b. map_get 0 (ba_refCounts a) b \<le> 1)"

definition partitioned :: "'f BlockAllocator \<Rightarrow> (int \<rightharpoonup> BlockTable) \<Rightarrow> bool" where
  "partitioned a m \<longleftrightarrow> (\<forall>l < nlayers (ba_config a).
     mset (frees a l) + held m l = mset (block_ids (ba_config a)))"

definition pc_ok :: "'f PagedKVCache \<Rightarrow> bool" where
  "pc_ok c \<longleftrightarrow> ba_ok (pc_allocator c) \<and> ba_config (pc_allocator c) = pc_config c \<and>
     tables_ok (nlayers (pc_config c)) (pc_sequences c) \<and>
     (\<forall>s \<in> dom (pc_sequences c). s < pc_nextSeqID c) \<and>
     unshared (pc_allocator c) \<and> partitioned (pc_allocator c) (pc_sequences c)"

lemmas pc_ok_defs = pc_ok_def tables_ok_def unshared_def partitioned_def

lemma pc_ok_cfg: "pc_ok c \<Longrightarrow> cfg_ok (pc_config c)"
  by (auto simp: pc_ok_def ba_ok_def store_ok_def)

lemma pc_ok_table:
  "pc_ok c \<Longrightarrow> pc_sequences c s = Some t \<Longrightarrow> length (bt_blocks t) = nlayers (pc_config c)"
  by (auto simp: pc_ok_defs ran_def)

text \<open>The facts the partition gives about the blocks of the tables.\<close>

lemma mset_union_distinct:
  assumes "mset xs + M = mset ys" and "distinct ys" and "mset zs \<subseteq># M"
  shows "distinct zs" and "set zs \<subseteq> set ys" and "set zs \<inter> set xs = {}"
proof -
  obtain N where "M = mset zs + N" using assms(3) by (metis subset_mset.add_diff_inverse)
  then have e: "mset (xs @ zs) + N = mset ys" using assms(1) by (simp add: ac_simps)
  obtain ns where "mset ns = N" using ex_mset by blast
  then have m: "mset (xs @ zs @ ns) = mset ys" using e by (simp add: ac_simps)
  then have "distinct (xs @ zs @ ns)" using assms(2) mset_eq_imp_distinct_iff by blast
  then show "distinct zs" "set zs \<inter> set xs = {}" by auto
  show "set zs \<subseteq> set ys" using mset_eq_setD [OF m] by auto
qed

lemma pc_ok_blocks:
  assumes ok: "pc_ok c" and l: "l < nlayers (pc_config c)"
  shows "distinct (blocks_of (pc_sequences c) s l)"
    and "set (blocks_of (pc_sequences c) s l) \<subseteq> set (block_ids (pc_config c))"
    and "set (blocks_of (pc_sequences c) s l) \<inter> set (frees (pc_allocator c) l) = {}"
    and "s \<noteq> r \<Longrightarrow> set (blocks_of (pc_sequences c) s l) \<inter> set (blocks_of (pc_sequences c) r l) = {}"
proof -
  let ?m = "pc_sequences c"
  have p: "mset (frees (pc_allocator c) l) + held ?m l = mset (block_ids (pc_config c))"
    and f: "finite (dom ?m)"
    using ok l by (auto simp: pc_ok_defs)
  note M = mset_union_distinct [OF p distinct_block_ids]
  show "distinct (blocks_of ?m s l)"
    and "set (blocks_of ?m s l) \<subseteq> set (block_ids (pc_config c))"
    and "set (blocks_of ?m s l) \<inter> set (frees (pc_allocator c) l) = {}"
    using M [OF held_contains [OF f]] by auto
  show "set (blocks_of ?m s l) \<inter> set (blocks_of ?m r l) = {}" if "s \<noteq> r"
  proof -
    have "distinct (blocks_of ?m s l @ blocks_of ?m r l)"
      using M(1) [of "blocks_of ?m s l @ blocks_of ?m r l"] held_two [OF f that] by simp
    then show ?thesis by simp
  qed
qed

text \<open>One lemma carries every preservation proof: replace the table of a sequence and the allocator.\<close>

lemma pc_ok_replace:
  assumes ok: "pc_ok c" and s: "s < pc_nextSeqID c"
    and a: "ba_ok a" "ba_config a = pc_config c" "unshared a"
    and t: "length (bt_blocks t) = nlayers (pc_config c)"
    and bal: "\<And>l. l < nlayers (pc_config c) \<Longrightarrow>
      mset (frees a l) + mset (bt_blocks t ! l) =
      mset (frees (pc_allocator c) l) + mset (blocks_of (pc_sequences c) s l)"
  shows "pc_ok (c\<lparr>pc_allocator := a, pc_sequences := (pc_sequences c)(s \<mapsto> t)\<rparr>)"
proof -
  let ?m = "pc_sequences c"
  have f: "finite (dom ?m)" using ok by (simp add: pc_ok_defs)
  have "mset (frees a l) + held (?m(s \<mapsto> t)) l = mset (block_ids (pc_config c))"
    if l: "l < nlayers (pc_config c)" for l
  proof -
    have p: "mset (frees (pc_allocator c) l) + held ?m l = mset (block_ids (pc_config c))"
      using ok l by (auto simp: pc_ok_defs)
    show ?thesis by (rule mset_exchange [OF p bal [OF l] held_upd [OF f]])
  qed
  moreover have "tables_ok (nlayers (pc_config c)) (?m(s \<mapsto> t))"
    using ok t by (auto simp: pc_ok_defs ran_def)
  ultimately show ?thesis using ok s a by (auto simp: pc_ok_def partitioned_def)
qed

section \<open>Creating sequences and allocating blocks\<close>

lemma pc_ok_New:
  assumes "cfg_ok cfg"
  shows "\<exists>c :: 'f::zero PagedKVCache. NewPagedKVCache cfg = Some c \<and> pc_ok c \<and> pc_config c = cfg \<and>
           pc_sequences c = Map.empty"
proof -
  obtain a :: "'f BlockAllocator" where "NewBlockAllocator cfg = Some a" "ba_ok a"
    "ba_config a = cfg" "ba_refCounts a = Map.empty" "\<forall>l < nlayers cfg. frees a l = rev (block_ids cfg)"
    using NewBlockAllocator_ok [OF assms] by blast
  then show ?thesis by (simp add: NewPagedKVCache_def pc_ok_defs)
qed

definition empty_table :: "nat \<Rightarrow> BlockTable" where
  "empty_table n = \<lparr>bt_blocks = replicate n [], bt_seqLen = 0, bt_fragmentRanges = []\<rparr>"

lemma NewBlockTable_Some:
  "0 \<le> n \<Longrightarrow> NewBlockTable n = Some (empty_table (nat n))"
  by (simp add: NewBlockTable_def make_slice_def empty_table_def)

lemma pc_ok_CreateSequence:
  assumes "pc_ok c"
  shows "\<exists>c'. PagedKVCache_CreateSequence c = Some (pc_nextSeqID c, c') \<and> pc_ok c' \<and>
     pc_sequences c (pc_nextSeqID c) = None \<and>
     pc_sequences c' = (pc_sequences c)(pc_nextSeqID c \<mapsto> empty_table (nlayers (pc_config c)))"
proof -
  let ?id = "pc_nextSeqID c"
  have fresh: "pc_sequences c ?id = None" using assms by (auto simp: pc_ok_def domIff)
  let ?c = "c\<lparr>pc_nextSeqID := ?id + 1\<rparr>"
  have ok': "pc_ok ?c"
    using assms by (simp add: pc_ok_def) (meson less_imp_le)
  have cfg: "0 \<le> cfg_NumLayers (pc_config c)"
    using pc_ok_cfg [OF assms] by (simp add: cfg_ok_def)
  have "pc_ok (?c\<lparr>pc_allocator := pc_allocator c,
      pc_sequences := (pc_sequences ?c)(?id \<mapsto> empty_table (nlayers (pc_config c)))\<rparr>)"
    using assms fresh
    by (intro pc_ok_replace [OF ok']) (auto simp: pc_ok_def empty_table_def blocks_of_def)
  then show ?thesis
    using fresh cfg by (simp add: PagedKVCache_CreateSequence_def NewBlockTable_Some Let_def)
qed

text \<open>The length and the fragment ranges of a sequence; those of an absent table are the fresh ones.\<close>

definition seq_meta :: "(int \<rightharpoonup> BlockTable) \<Rightarrow> int \<Rightarrow> int \<times> FragmentRange list" where
  "seq_meta m s = (case m s of None \<Rightarrow> (0, []) | Some t \<Rightarrow> (bt_seqLen t, bt_fragmentRanges t))"

text \<open>\<open>ensure_table\<close> makes the table exist and changes no list of blocks.\<close>

lemma ensure_table_ok:
  assumes ok: "pc_ok c" and s: "s < pc_nextSeqID c"
  shows "\<exists>t c1. ensure_table c s = Some (t, c1) \<and> pc_ok c1 \<and> pc_sequences c1 s = Some t \<and>
    pc_allocator c1 = pc_allocator c \<and> pc_config c1 = pc_config c \<and>
    pc_nextSeqID c1 = pc_nextSeqID c \<and> pc_fragments c1 = pc_fragments c \<and>
    (\<forall>r. r \<noteq> s \<longrightarrow> pc_sequences c1 r = pc_sequences c r) \<and>
    seq_meta (pc_sequences c1) s = seq_meta (pc_sequences c) s \<and>
    (\<forall>l < nlayers (pc_config c). bt_blocks t ! l = blocks_of (pc_sequences c) s l)"
proof (cases "pc_sequences c s")
  case (Some t)
  then show ?thesis using ok by (auto simp: ensure_table_def blocks_of_def)
next
  case None
  let ?t = "empty_table (nlayers (pc_config c))"
  have cfg: "0 \<le> cfg_NumLayers (pc_config c)"
    using pc_ok_cfg [OF ok] by (simp add: cfg_ok_def)
  have "pc_ok (c\<lparr>pc_allocator := pc_allocator c, pc_sequences := (pc_sequences c)(s \<mapsto> ?t)\<rparr>)"
    using ok None
    by (intro pc_ok_replace [OF ok s]) (auto simp: pc_ok_def empty_table_def blocks_of_def)
  then show ?thesis
    using None cfg
    by (auto simp: ensure_table_def NewBlockTable_Some empty_table_def blocks_of_def seq_meta_def)
qed

lemma AppendBlock_nth:
  assumes "l < length (bt_blocks t)"
  shows "BlockTable_AppendBlock t (int l) b =
      Some (t\<lparr>bt_blocks := (bt_blocks t)[l := bt_blocks t ! l @ [b]]\<rparr>)"
  using assms by (simp add: BlockTable_AppendBlock_def len_def)

text \<open>What an allocation for a sequence does; \<open>grown\<close> is the change a client of the cache sees.\<close>

definition grown :: "int \<Rightarrow> nat \<Rightarrow> BlockID list \<Rightarrow> 'f PagedKVCache \<Rightarrow> 'f PagedKVCache \<Rightarrow> bool" where
  "grown s l bs c c' \<longleftrightarrow>
     pc_config c' = pc_config c \<and> pc_nextSeqID c' = pc_nextSeqID c \<and>
     pc_fragments c' = pc_fragments c \<and>
     s \<in> dom (pc_sequences c') \<and>
     seq_meta (pc_sequences c') s = seq_meta (pc_sequences c) s \<and>
     (\<forall>r. r \<noteq> s \<longrightarrow> pc_sequences c' r = pc_sequences c r) \<and>
     (\<forall>j < nlayers (pc_config c). blocks_of (pc_sequences c') s j =
        blocks_of (pc_sequences c) s j @ (if j = l then bs else [])) \<and>
     (\<forall>j < nlayers (pc_config c). frees (pc_allocator c) j =
        frees (pc_allocator c') j @ (if j = l then rev bs else [])) \<and>
     (\<forall>j < nlayers (pc_config c). \<forall>i < nblocks (pc_config c).
        blk_Data (ba_blocks (pc_allocator c') ! j ! i) = blk_Data (ba_blocks (pc_allocator c) ! j ! i))"

lemma grown_trans:
  assumes "grown s l bs c d" and "grown s l cs d e"
  shows "grown s l (bs @ cs) c e"
  using assms unfolding grown_def by (auto split: if_splits)

lemma AllocateBlock_ok:
  assumes ok: "pc_ok c" and s: "s < pc_nextSeqID c" and l: "l < nlayers (pc_config c)"
  shows "\<exists>r c'. PagedKVCache_AllocateBlock c s (int l) = Some (r, c') \<and> pc_ok c' \<and>
     (if frees (pc_allocator c) l = []
      then r = Inl (NoFreeBlocks (int l)) \<and> grown s l [] c c'
      else \<exists>b. r = Inr b \<and> blk_NumTokens b = 0 \<and> grown s l [blk_ID b] c c')"
proof -
  obtain t c1 where e: "ensure_table c s = Some (t, c1)" and ok1: "pc_ok c1"
    and t: "pc_sequences c1 s = Some t" and c1: "pc_allocator c1 = pc_allocator c"
      "pc_config c1 = pc_config c" "pc_nextSeqID c1 = pc_nextSeqID c" "pc_fragments c1 = pc_fragments c"
    and sm: "seq_meta (pc_sequences c1) s = seq_meta (pc_sequences c) s"
    and o: "\<forall>r. r \<noteq> s \<longrightarrow> pc_sequences c1 r = pc_sequences c r"
    and bt: "\<forall>l < nlayers (pc_config c). bt_blocks t ! l = blocks_of (pc_sequences c) s l"
    using ensure_table_ok [OF ok s] by blast
  let ?a = "pc_allocator c"
  have aok: "ba_ok ?a" and cfg: "ba_config ?a = pc_config c" using ok by (auto simp: pc_ok_def)
  have il: "0 \<le> int l" "int l < cfg_NumLayers (ba_config ?a)" using l cfg by auto
  have lt: "l < length (bt_blocks t)" using pc_ok_table [OF ok1 t] l c1 by simp
  show ?thesis
  proof (cases "frees ?a l = []")
    case True
    have g: "grown s l [] c c1" using c1 o bt t sm by (auto simp: grown_def blocks_of_def)
    have "PagedKVCache_AllocateBlock c s (int l) = Some (Inl (NoFreeBlocks (int l)), c1)"
      using Allocate_Inl [OF aok il] True e c1 by (simp add: PagedKVCache_AllocateBlock_def)
    then show ?thesis using ok1 True g by auto
  next
    case False
    obtain b a' where al: "BlockAllocator_Allocate ?a (int l) = Some (Inr b, a')"
      using Allocate_Inr [OF aok il] False by simp
    note A = Allocate_ok [OF aok il al, simplified]
    let ?t = "t\<lparr>bt_blocks := (bt_blocks t)[l := bt_blocks t ! l @ [blk_ID b]]\<rparr>"
    let ?c = "c1\<lparr>pc_allocator := a', pc_sequences := (pc_sequences c1)(s \<mapsto> ?t)\<rparr>"
    have r: "PagedKVCache_AllocateBlock c s (int l) = Some (Inr b, ?c)"
      using e al c1 AppendBlock_nth [OF lt] by (simp add: PagedKVCache_AllocateBlock_def)
    have u: "unshared a'" using ok A(5) by (auto simp: pc_ok_def unshared_def)
    have fr: "frees ?a j = frees a' j @ (if j = l then [blk_ID b] else [])" for j
      using A(3) A(4) [of j] by simp
    have "pc_ok ?c"
      using pc_ok_table [OF ok1 t] c1 s A(1,2) cfg u t fr lt
      by (intro pc_ok_replace [OF ok1]) (auto simp: blocks_of_def nth_list_update)
    moreover have "grown s l [blk_ID b] c ?c"
      using c1 o bt t lt l fr A(8) cfg sm by (auto simp: grown_def nth_list_update seq_meta_def)
    ultimately show ?thesis using r False A(6) by auto
  qed
qed

lemma grown_refl:
  "s \<in> dom (pc_sequences c) \<Longrightarrow> grown s l [] c c"
  by (simp add: grown_def)

lemma grown_dom: "grown s l bs c c' \<Longrightarrow> \<exists>t. pc_sequences c' s = Some t"
  by (auto simp: grown_def)

lemma grown_simps:
  assumes "grown s l bs c c'"
  shows "pc_config c' = pc_config c" and "pc_nextSeqID c' = pc_nextSeqID c"
    and "l < nlayers (pc_config c) \<Longrightarrow>
      blocks_of (pc_sequences c') s l = blocks_of (pc_sequences c) s l @ bs"
    and "l < nlayers (pc_config c) \<Longrightarrow>
      frees (pc_allocator c) l = frees (pc_allocator c') l @ rev bs"
  using assms by (auto simp: grown_def)

lemma NumBlocks_nth:
  "l < length (bt_blocks t) \<Longrightarrow> BlockTable_NumBlocks t (int l) = Some (len (bt_blocks t ! l))"
  by (simp add: BlockTable_NumBlocks_def len_def)

text \<open>
  The loop of \<open>StoreKV\<close>: with fuel for the missing blocks it ends, either with the block in the
  table or with the layer's free list empty.
\<close>

lemma ensure_blocks_ok:
  assumes "pc_ok c" and "s < pc_nextSeqID c" and "l < nlayers (pc_config c)"
    and "s \<in> dom (pc_sequences c)"
    and "nat (k + 1 - len (blocks_of (pc_sequences c) s l)) \<le> fuel"
  shows "\<exists>r c' bs. ensure_blocks fuel c s (int l) k = Some (r, c') \<and> pc_ok c' \<and> grown s l bs c c' \<and>
     (case r of
        None \<Rightarrow> length bs = nat (k + 1 - len (blocks_of (pc_sequences c) s l))
      | Some e \<Rightarrow> e = NoFreeBlocks (int l) \<and> frees (pc_allocator c') l = [] \<and>
          length bs < nat (k + 1 - len (blocks_of (pc_sequences c) s l)))"
  using assms
proof (induction fuel arbitrary: c)
  case 0
  then obtain t where t: "pc_sequences c s = Some t" by blast
  have n: "BlockTable_NumBlocks t (int l) = Some (len (bt_blocks t ! l))"
    using pc_ok_table [OF 0(1) t] 0(3) by (simp add: NumBlocks_nth)
  then show ?case using 0 t grown_refl [OF 0(4), of l]
    by (intro exI [of _ None] exI [of _ c] exI [of _ "[]"])
      (simp add: ensure_blocks.simps blocks_of_def)
next
  case (Suc fuel)
  then obtain t where t: "pc_sequences c s = Some t" by blast
  have n: "BlockTable_NumBlocks t (int l) = Some (len (bt_blocks t ! l))"
    using pc_ok_table [OF Suc.prems(1) t] Suc.prems(3) by (simp add: NumBlocks_nth)
  have bl: "blocks_of (pc_sequences c) s l = bt_blocks t ! l" using t by (simp add: blocks_of_def)
  show ?case
  proof (cases "len (bt_blocks t ! l) \<le> k")
    case False
    then show ?thesis using t n bl grown_refl [OF Suc.prems(4), of l] Suc.prems(1)
      by (intro exI [of _ None] exI [of _ c] exI [of _ "[]"]) (simp add: ensure_blocks.simps)
  next
    case True
    obtain r c1 where al: "PagedKVCache_AllocateBlock c s (int l) = Some (r, c1)" and ok1: "pc_ok c1"
      and r: "if frees (pc_allocator c) l = []
        then r = Inl (NoFreeBlocks (int l)) \<and> grown s l [] c c1
        else \<exists>b. r = Inr b \<and> blk_NumTokens b = 0 \<and> grown s l [blk_ID b] c c1"
      using AllocateBlock_ok [OF Suc.prems(1-3)] by blast
    show ?thesis
    proof (cases "frees (pc_allocator c) l = []")
      case F: True
      then have g: "grown s l [] c c1" using r by simp
      have "frees (pc_allocator c1) l = []" using grown_simps(4) [OF g Suc.prems(3)] F by simp
      then show ?thesis using F r g al t n bl True ok1
        by (intro exI [of _ "Some (NoFreeBlocks (int l))"] exI [of _ c1] exI [of _ "[]"])
          (simp add: ensure_blocks.simps)
    next
      case F: False
      then obtain b where rb: "r = Inr b" and g: "grown s l [blk_ID b] c c1" using r by auto
      note G = grown_simps [OF g]
      have lb: "len (blocks_of (pc_sequences c1) s l) = len (bt_blocks t ! l) + 1"
        using G(3) Suc.prems(3) bl by simp
      have "nat (k + 1 - len (blocks_of (pc_sequences c1) s l)) \<le> fuel"
        using Suc.prems(5) bl lb True by simp
      then obtain r' c2 bs where e: "ensure_blocks fuel c1 s (int l) k = Some (r', c2)" "pc_ok c2"
        and g2: "grown s l bs c1 c2"
        and r': "case r' of
          None \<Rightarrow> length bs = nat (k + 1 - len (blocks_of (pc_sequences c1) s l))
        | Some e \<Rightarrow> e = NoFreeBlocks (int l) \<and> frees (pc_allocator c2) l = [] \<and>
            length bs < nat (k + 1 - len (blocks_of (pc_sequences c1) s l))"
        using Suc.IH [OF ok1] G(1,2) Suc.prems(2,3) grown_dom [OF g] by auto
      have "grown s l ([blk_ID b] @ bs) c c2" using grown_trans [OF g g2] .
      then show ?thesis using e al rb t n bl True lb r'
        by (intro exI [of _ r'] exI [of _ c2] exI [of _ "[blk_ID b] @ bs"])
          (auto simp: ensure_blocks.simps split: option.splits)
    qed
  qed
qed

end
