(* ===== verification/Paged_Store.thy ===== *)
theory Paged_Store
  imports Paged_Inv
begin

text \<open>
  The paged cache as a store of key-value pairs. \<open>kv_at c s l p\<close> is the pair kept for position \<open>p\<close>
  of sequence \<open>s\<close> on layer \<open>l\<close>, read through the block table. \<open>StoreKV\<close> refines the update of that
  map at one point, and \<open>GetKVSlice\<close> reads it back in order.
\<close>

section \<open>One token inside a block\<close>

definition tok_at :: "PagedKVConfig \<Rightarrow> 'f list \<Rightarrow> int \<Rightarrow> 'f list \<times> 'f list" where
  "tok_at cfg d off =
     (take (nat (kv_size cfg)) (drop (nat (off * kv_size cfg)) d),
      take (nat (kv_size cfg)) (drop (nat (KVSizeFloats cfg + off * kv_size cfg)) d))"

text \<open>Inside a block of \<open>B\<close> tokens of \<open>w\<close> elements the slots do not overlap.\<close>

lemma slot_bounds:
  assumes "0 \<le> off" and "off < B" and "0 \<le> (w :: int)"
  shows "0 \<le> off * w" and "off * w + w \<le> B * w"
proof -
  show "0 \<le> off * w" using assms by simp
  have "(off + 1) * w \<le> B * w" using assms by (intro mult_right_mono) auto
  then show "off * w + w \<le> B * w" by (simp add: algebra_simps)
qed

lemma slot_disjoint:
  assumes "off \<noteq> (o' :: int)" and "0 \<le> w"
  shows "off * w + w \<le> o' * w \<or> o' * w + w \<le> off * w"
proof -
  have "off + 1 \<le> o' \<or> o' + 1 \<le> off" using assms(1) by linarith
  then have "(off + 1) * w \<le> o' * w \<or> (o' + 1) * w \<le> off * w"
    using assms(2) mult_right_mono by blast
  then show ?thesis by (simp add: algebra_simps)
qed

lemma KVSizeFloats_kv_size: "KVSizeFloats c = cfg_BlockSize c * kv_size c"
  by (simp add: KVSizeFloats_def kv_size_def)

lemma BlockSizeFloats_kv_size: "BlockSizeFloats c = 2 * (cfg_BlockSize c * kv_size c)"
  by (simp add: BlockSizeFloats_def kv_size_def)

lemma kv_size_nonneg [simp]: "cfg_ok c \<Longrightarrow> 0 \<le> kv_size c"
  by (simp add: cfg_ok_def kv_size_def)

lemma copy_into_full:
  assumes "0 \<le> lo" and "lo + int (length src) \<le> int (length dst)" and "hi = lo + int (length src)"
  shows "copy_into dst lo hi src = Some (splice_at dst (nat lo) src)"
  using assms by (simp add: copy_into_def len_def)

lemma take_drop_splice_other:
  assumes "0 \<le> lo" and "lo + int (length src) \<le> int (length d)" and "0 \<le> p"
    and "p + w \<le> lo \<or> lo + int (length src) \<le> p" and "0 \<le> w"
  shows "take (nat w) (drop (nat p) (splice_at d (nat lo) src)) = take (nat w) (drop (nat p) d)"
  using assms by (intro splice_at_disjoint) (auto simp: nat_add_distrib [symmetric] le_nat_iff)

lemma write_token_ok:
  fixes b :: "'f Block"
  assumes cfg: "cfg_ok cfg" and off: "0 \<le> off" "off < cfg_BlockSize cfg"
    and d: "length (blk_Data b) = nat (BlockSizeFloats cfg)"
    and k: "length k = nat (kv_size cfg)" and v: "length v = nat (kv_size cfg)"
  shows "\<exists>d'. write_token cfg b off k v =
       Some (b\<lparr>blk_Data := d', blk_NumTokens := max (off + 1) (blk_NumTokens b)\<rparr>) \<and>
     length d' = length (blk_Data b) \<and> tok_at cfg d' off = (k, v) \<and>
     (\<forall>off'. 0 \<le> off' \<and> off' < cfg_BlockSize cfg \<and> off' \<noteq> off \<longrightarrow>
        tok_at cfg d' off' = tok_at cfg (blk_Data b) off')"
proof -
  let ?w = "kv_size cfg" and ?B = "cfg_BlockSize cfg" and ?d = "blk_Data b"
  have w: "0 \<le> ?w" using cfg by simp
  have kl: "int (length k) = ?w" and vl: "int (length v) = ?w" using k v w by auto
  have bw: "0 \<le> ?B * ?w" using cfg w by (simp add: cfg_ok_def)
  have dl: "int (length ?d) = 2 * (?B * ?w)"
    unfolding d BlockSizeFloats_kv_size using bw by simp
  note sb = slot_bounds [OF off w]
  let ?ko = "off * ?w" and ?vo = "?B * ?w + off * ?w"
  define d1 where "d1 = splice_at ?d (nat ?ko) k"
  define d2 where "d2 = splice_at d1 (nat ?vo) v"
  have i1: "0 \<le> ?ko" "?ko + int (length k) \<le> int (length ?d)" using sb bw kl dl by auto
  have l1: "length d1 = length ?d" unfolding d1_def using i1 by (intro length_splice_at) linarith
  have i2: "0 \<le> ?vo" "?vo + int (length v) \<le> int (length d1)" using sb bw vl dl l1 by auto
  have l2: "length d2 = length ?d" unfolding d2_def l1 [symmetric]
    using i2 by (intro length_splice_at) linarith
  have c1: "copy_into ?d ?ko (?ko + ?w) k = Some d1"
    unfolding d1_def using i1 kl by (intro copy_into_full) auto
  have c2: "copy_into d1 ?vo (?vo + ?w) v = Some d2"
    unfolding d2_def using i2 vl by (intro copy_into_full) auto
  have "write_token cfg b off k v =
      Some (b\<lparr>blk_Data := d2, blk_NumTokens := max (off + 1) (blk_NumTokens b)\<rparr>)"
    using c1 c2 by (simp add: write_token_def KVSizeFloats_kv_size Let_def max_def)
  moreover have "tok_at cfg d2 off = (k, v)"
  proof -
    have "take (nat ?w) (drop (nat ?ko) d1) = k"
      unfolding d1_def k [symmetric] using i1 by (intro splice_at_same) linarith
    moreover have "take (nat ?w) (drop (nat ?ko) d2) = take (nat ?w) (drop (nat ?ko) d1)"
      unfolding d2_def
      by (rule take_drop_splice_other) (use i1(1) i2 sb vl w in \<open>linarith\<close>)+
    moreover have "take (nat ?w) (drop (nat ?vo) d2) = v"
      unfolding d2_def v [symmetric] using i2 by (intro splice_at_same) linarith
    ultimately show ?thesis by (simp add: tok_at_def KVSizeFloats_kv_size)
  qed
  moreover have "tok_at cfg d2 off' = tok_at cfg ?d off'"
    if o': "0 \<le> off'" "off' < ?B" "off' \<noteq> off" for off'
  proof -
    note sb' = slot_bounds [OF o'(1,2) w] and dj = slot_disjoint [OF o'(3) w]
    have "take (nat ?w) (drop (nat (off' * ?w)) d2) = take (nat ?w) (drop (nat (off' * ?w)) d1)"
      unfolding d2_def by (rule take_drop_splice_other) (use i2 sb sb' vl w in \<open>linarith\<close>)+
    also have "\<dots> = take (nat ?w) (drop (nat (off' * ?w)) ?d)"
      unfolding d1_def by (rule take_drop_splice_other) (use i1 dj sb' kl w in \<open>linarith\<close>)+
    finally have K: "take (nat ?w) (drop (nat (off' * ?w)) d2) =
      take (nat ?w) (drop (nat (off' * ?w)) ?d)" .
    let ?vo' = "?B * ?w + off' * ?w"
    have "take (nat ?w) (drop (nat ?vo') d2) = take (nat ?w) (drop (nat ?vo') d1)"
      unfolding d2_def by (rule take_drop_splice_other) (use i2 dj sb' vl w bw in \<open>linarith\<close>)+
    also have "\<dots> = take (nat ?w) (drop (nat ?vo') ?d)"
      unfolding d1_def by (rule take_drop_splice_other) (use i1 sb sb' kl w bw in \<open>linarith\<close>)+
    finally show ?thesis using K by (simp add: tok_at_def KVSizeFloats_kv_size)
  qed
  ultimately show ?thesis using l2 by blast
qed

section \<open>The store seen through the block tables\<close>

definition kv_at :: "'f PagedKVCache \<Rightarrow> int \<Rightarrow> nat \<Rightarrow> int \<Rightarrow> ('f list \<times> 'f list) option" where
  "kv_at c s l p =
     (let cfg = pc_config c; bs = blocks_of (pc_sequences c) s l; i = nat (p div cfg_BlockSize cfg) in
      if 0 \<le> p \<and> i < length bs
      then Some (tok_at cfg (blk_Data (ba_blocks (pc_allocator c) ! l ! nat (bs ! i)))
                  (p mod cfg_BlockSize cfg))
      else None)"

text \<open>Growing tables keeps what was there.\<close>

lemma kv_at_grown:
  assumes ok: "pc_ok c" and g: "grown s l bs c c'" and l': "l' < nlayers (pc_config c)"
    and k: "kv_at c s' l' p = Some x"
  shows "kv_at c' s' l' p = Some x"
proof -
  let ?i = "nat (p div cfg_BlockSize (pc_config c))"
  let ?b = "blocks_of (pc_sequences c) s' l' ! ?i"
  have i: "0 \<le> p" "?i < length (blocks_of (pc_sequences c) s' l')"
    using k by (auto simp: kv_at_def Let_def split: if_splits)
  have cfg: "pc_config c' = pc_config c" using g by (simp add: grown_def)
  have "?b \<in> set (block_ids (pc_config c))"
    using pc_ok_blocks(2) [OF ok l', of s'] nth_mem [OF i(2)] by (rule subsetD)
  then have "nat ?b < nblocks (pc_config c)" by (auto simp: set_block_ids)
  then have "blk_Data (ba_blocks (pc_allocator c') ! l' ! nat ?b) =
      blk_Data (ba_blocks (pc_allocator c) ! l' ! nat ?b)"
    using g l' by (simp add: grown_def)
  moreover have "blocks_of (pc_sequences c') s' l' = blocks_of (pc_sequences c) s' l' \<or>
      blocks_of (pc_sequences c') s' l' = blocks_of (pc_sequences c) s' l' @ bs"
    using g l' by (cases "s' = s"; cases "l' = l") (auto simp: grown_def blocks_of_def)
  ultimately show ?thesis
    using k i cfg by (auto simp: kv_at_def Let_def nth_append split: if_splits)
qed

text \<open>Writing into a block that a table holds.\<close>

lemma GetBlock_nth:
  assumes "ba_ok a" and "l < nlayers (ba_config a)" and "b \<in> set (block_ids (ba_config a))"
  shows "BlockAllocator_GetBlock a (int l) b = Some (Some (ba_blocks a ! l ! nat b))"
  using assms store_ok_lengths [of a l]
  by (auto simp: BlockAllocator_GetBlock_def ba_ok_def store_ok_def len_def idx_def set_block_ids)

lemma set_block_nth:
  assumes "ba_ok a" and "l < nlayers (ba_config a)" and "b \<in> set (block_ids (ba_config a))"
  shows "set_block a (int l) b blk =
    Some (a\<lparr>ba_blocks := (ba_blocks a)[l := (ba_blocks a ! l)[nat b := blk]]\<rparr>)"
  using assms store_ok_lengths [of a l]
  by (auto simp: set_block_def ba_ok_def store_ok_def len_def idx_def upd_def set_block_ids)

lemma set_block_ok:
  assumes ok: "ba_ok a" and l: "l < nlayers (ba_config a)" and b: "b \<in> set (block_ids (ba_config a))"
    and d: "length d = length (blk_Data (ba_blocks a ! l ! nat b))"
  shows "ba_ok (a\<lparr>ba_blocks := (ba_blocks a)[l := (ba_blocks a ! l)
      [nat b := (ba_blocks a ! l ! nat b)\<lparr>blk_Data := d, blk_NumTokens := n\<rparr>]]\<rparr>)"
proof -
  have s: "store_ok a" and i: "nat b < nblocks (ba_config a)"
    using ok b by (auto simp: ba_ok_def set_block_ids)
  have "store_ok (a\<lparr>ba_blocks := (ba_blocks a)[l := (ba_blocks a ! l)
      [nat b := (ba_blocks a ! l ! nat b)\<lparr>blk_Data := d, blk_NumTokens := n\<rparr>]]\<rparr>)"
    using store_ok_block [OF s l i] d by (intro store_ok_upd [OF s l i]) auto
  then show ?thesis using ok by (simp add: ba_ok_def free_ok_def)
qed

text \<open>The abstract specification of a write: one point changes, every other keeps its value.\<close>

definition kv_written ::
  "'f PagedKVCache \<Rightarrow> int \<Rightarrow> nat \<Rightarrow> int \<Rightarrow> 'f list \<times> 'f list \<Rightarrow> 'f PagedKVCache \<Rightarrow> bool" where
  "kv_written c s l p kv c' \<longleftrightarrow>
     kv_at c' s l p = Some kv \<and>
     (\<forall>s' l' p' x. (s', l', p') \<noteq> (s, l, p) \<and> l' < nlayers (pc_config c) \<and>
        kv_at c s' l' p' = Some x \<longrightarrow> kv_at c' s' l' p' = Some x)"

lemma kv_writtenD:
  "kv_written c s l p kv c' \<Longrightarrow> l' < nlayers (pc_config c) \<Longrightarrow> kv_at c s' l' p' = Some x \<Longrightarrow>
   (s', l', p') \<noteq> (s, l, p) \<Longrightarrow> kv_at c' s' l' p' = Some x"
  unfolding kv_written_def by blast

lemma write_step:
  fixes n :: int
  assumes ok: "pc_ok c" and t: "pc_sequences c s = Some t" and l: "l < nlayers (pc_config c)"
    and p: "0 \<le> p" "nat (p div cfg_BlockSize (pc_config c)) < length (bt_blocks t ! l)"
    and bt: "bt_blocks t' = bt_blocks t"
  defines "b \<equiv> bt_blocks t ! l ! nat (p div cfg_BlockSize (pc_config c))"
    and "off \<equiv> p mod cfg_BlockSize (pc_config c)"
  assumes d: "length d = length (blk_Data (ba_blocks (pc_allocator c) ! l ! nat b))"
    and same: "tok_at (pc_config c) d off = kv"
    and others: "\<And>o'. 0 \<le> o' \<and> o' < cfg_BlockSize (pc_config c) \<and> o' \<noteq> off \<Longrightarrow>
      tok_at (pc_config c) d o' =
      tok_at (pc_config c) (blk_Data (ba_blocks (pc_allocator c) ! l ! nat b)) o'"
  defines "c' \<equiv> c\<lparr>pc_allocator := (pc_allocator c)\<lparr>ba_blocks := (ba_blocks (pc_allocator c))
      [l := (ba_blocks (pc_allocator c) ! l)
        [nat b := (ba_blocks (pc_allocator c) ! l ! nat b)\<lparr>blk_Data := d, blk_NumTokens := n\<rparr>]]\<rparr>,
      pc_sequences := (pc_sequences c)(s \<mapsto> t')\<rparr>"
  shows "pc_ok c'" and "kv_written c s l p kv c'"
proof -
  let ?a = "pc_allocator c" and ?cfg = "pc_config c" and ?i = "nat (p div cfg_BlockSize (pc_config c))"
  have aok: "ba_ok ?a" and cfg: "ba_config ?a = ?cfg" using ok by (auto simp: pc_ok_def)
  have B: "0 < cfg_BlockSize ?cfg" using pc_ok_cfg [OF ok] by (simp add: cfg_ok_def)
  have bl: "blocks_of (pc_sequences c) s l = bt_blocks t ! l" using t by (simp add: blocks_of_def)
  have bs: "b \<in> set (blocks_of (pc_sequences c) s l)" unfolding bl b_def using p(2) by (rule nth_mem)
  then have bid: "b \<in> set (block_ids ?cfg)" using pc_ok_blocks(2) [OF ok l] by blast
  have s: "s < pc_nextSeqID c" using ok t by (auto simp: pc_ok_def)
  show "pc_ok c'"
    unfolding c'_def
  proof (rule pc_ok_replace [OF ok s])
    show "ba_ok (?a\<lparr>ba_blocks := (ba_blocks ?a)[l := (ba_blocks ?a ! l)
        [nat b := (ba_blocks ?a ! l ! nat b)\<lparr>blk_Data := d, blk_NumTokens := n\<rparr>]]\<rparr>)"
      by (rule set_block_ok [OF aok _ _ d]) (use l cfg bid in simp_all)
    show "length (bt_blocks t') = nlayers ?cfg" using pc_ok_table [OF ok t] bt by simp
  qed (use ok cfg in \<open>simp_all add: pc_ok_def unshared_def\<close>, simp add: blocks_of_def t bt)
  have st: "store_ok ?a" using aok by (simp add: ba_ok_def)
  have ll: "l < length (ba_blocks ?a)" "nat b < length (ba_blocks ?a ! l)"
    using st l cfg bid store_ok_lengths [OF st] by (auto simp: store_ok_def set_block_ids)
  have bo: "blocks_of (pc_sequences c') s' l' = blocks_of (pc_sequences c) s' l'" for s' l'
    using t bt by (simp add: c'_def blocks_of_def)
  have dat: "blk_Data (ba_blocks (pc_allocator c') ! l' ! j) =
      (if l' = l \<and> j = nat b then d else blk_Data (ba_blocks ?a ! l' ! j))" for l' j
    using ll by (auto simp: c'_def nth_list_update)
  have cf: "pc_config c' = ?cfg" by (simp add: c'_def)
  show "kv_written c s l p kv c'"
    unfolding kv_written_def
  proof (intro conjI allI impI)
    show "kv_at c' s l p = Some kv"
      using p same bl by (simp add: kv_at_def bo dat cf Let_def b_def off_def)
  next
    fix s' l' p' x
    assume h: "(s', l', p') \<noteq> (s, l, p) \<and> l' < nlayers ?cfg \<and> kv_at c s' l' p' = Some x"
    let ?i' = "nat (p' div cfg_BlockSize ?cfg)" and ?o' = "p' mod cfg_BlockSize ?cfg"
    let ?b' = "blocks_of (pc_sequences c) s' l' ! ?i'"
    have p': "0 \<le> p'" "?i' < length (blocks_of (pc_sequences c) s' l')"
      and x: "x = tok_at ?cfg (blk_Data (ba_blocks ?a ! l' ! nat ?b')) ?o'"
      using h by (auto simp: kv_at_def Let_def split: if_splits)
    have b'in: "?b' \<in> set (blocks_of (pc_sequences c) s' l')" using p'(2) by (rule nth_mem)
    have "tok_at ?cfg d ?o' = x" if hit: "l' = l" "nat ?b' = nat b"
    proof -
      have "?b' \<in> set (block_ids ?cfg)" using b'in pc_ok_blocks(2) [OF ok l, of s'] hit by blast
      then have eq: "?b' = b" using hit(2) bid by (auto simp: set_block_ids)
      then have "s' = s" using pc_ok_blocks(4) [OF ok l, of s' s] b'in bs hit(1) by auto
      moreover have "?i' = ?i"
        using nth_eq_iff_index_eq [OF pc_ok_blocks(1) [OF ok l, of s], of ?i' ?i] p'(2) p(2) eq
          \<open>s' = s\<close> hit(1) bl unfolding b_def by simp
      then have "p' div cfg_BlockSize ?cfg = p div cfg_BlockSize ?cfg"
        using pos_imp_zdiv_nonneg_iff [OF B, of p] pos_imp_zdiv_nonneg_iff [OF B, of p'] p(1) p'(1)
        by (metis eq_nat_nat_iff)
      ultimately have "?o' \<noteq> off"
        using h hit(1) div_mod_unique_pos [OF B, of p' p] unfolding off_def by blast
      then show ?thesis using others [of ?o'] B eq hit(1) x by simp
    qed
    then show "kv_at c' s' l' p' = Some x"
      using p' x by (auto simp: kv_at_def bo dat cf Let_def)
  qed
qed

section \<open>StoreKV\<close>

lemma SetSeqLen_meta:
  "(if p + 1 > BlockTable_SeqLen t then BlockTable_SetSeqLen t (p + 1) else t) =
   t\<lparr>bt_seqLen := max (bt_seqLen t) (p + 1)\<rparr>"
  by (simp add: BlockTable_SeqLen_def BlockTable_SetSeqLen_def max_def)

lemma StoreKV_write:
  assumes ok: "pc_ok c" and t: "pc_sequences c s = Some t" and l: "l < nlayers (pc_config c)"
    and p: "0 \<le> p" "nat (p div cfg_BlockSize (pc_config c)) < length (bt_blocks t ! l)"
    and k: "length k = nat (kv_size (pc_config c))" and v: "length v = nat (kv_size (pc_config c))"
  shows "\<exists>c'. (do { blockID \<leftarrow> BlockTable_GetBlockID t (int l) (p div cfg_BlockSize (pc_config c));
      mb \<leftarrow> BlockAllocator_GetBlock (pc_allocator c) (int l) blockID;
      (case mb of
         None \<Rightarrow> Some (None, c)
       | Some block \<Rightarrow>
           do { block' \<leftarrow> write_token (pc_config c) block (p mod cfg_BlockSize (pc_config c)) k v;
                a' \<leftarrow> set_block (pc_allocator c) (int l) blockID block';
                let t3 = (if p + 1 > BlockTable_SeqLen t
                          then BlockTable_SetSeqLen t (p + 1) else t);
                Some (None :: alloc_error option, c\<lparr>pc_allocator := a',
                  pc_sequences := (pc_sequences c)(s \<mapsto> t3)\<rparr>) }) }) = Some (None, c') \<and>
    pc_ok c' \<and> kv_written c s l p (k, v) c' \<and> pc_config c' = pc_config c \<and>
    pc_nextSeqID c' = pc_nextSeqID c \<and>
    fst (seq_meta (pc_sequences c') s) = max (bt_seqLen t) (p + 1)"
proof -
  let ?cfg = "pc_config c" and ?a = "pc_allocator c"
  let ?i = "nat (p div cfg_BlockSize ?cfg)" and ?off = "p mod cfg_BlockSize ?cfg"
  let ?b = "bt_blocks t ! l ! ?i" and ?t = "t\<lparr>bt_seqLen := max (bt_seqLen t) (p + 1)\<rparr>"
  have cfg: "cfg_ok ?cfg" using ok by (rule pc_ok_cfg)
  have B: "0 < cfg_BlockSize ?cfg" using cfg by (simp add: cfg_ok_def)
  have aok: "ba_ok ?a" and ac: "ba_config ?a = ?cfg" using ok by (auto simp: pc_ok_def)
  have bl: "blocks_of (pc_sequences c) s l = bt_blocks t ! l" using t by (simp add: blocks_of_def)
  have bid: "?b \<in> set (block_ids ?cfg)"
    using pc_ok_blocks(2) [OF ok l, of s] nth_mem [OF p(2)] unfolding bl by (rule subsetD)
  let ?blk = "ba_blocks ?a ! l ! nat ?b"
  have d0: "length (blk_Data ?blk) = nat (BlockSizeFloats ?cfg)"
    using store_ok_block(2) [of ?a l "nat ?b"] aok ac l bid by (auto simp: ba_ok_def set_block_ids)
  obtain d where w: "write_token ?cfg ?blk ?off k v =
      Some (?blk\<lparr>blk_Data := d, blk_NumTokens := max (?off + 1) (blk_NumTokens ?blk)\<rparr>)"
    and d: "length d = length (blk_Data ?blk)" "tok_at ?cfg d ?off = (k, v)"
    and o: "\<forall>off'. 0 \<le> off' \<and> off' < cfg_BlockSize ?cfg \<and> off' \<noteq> ?off \<longrightarrow>
        tok_at ?cfg d off' = tok_at ?cfg (blk_Data ?blk) off'"
    using write_token_ok [OF cfg _ _ d0 k v, of ?off] B by auto
  have len: "l < length (bt_blocks t)" using pc_ok_table [OF ok t] l by simp
  have i0: "0 \<le> p div cfg_BlockSize ?cfg" using p(1) B by (simp add: pos_imp_zdiv_nonneg_iff)
  then have g: "BlockTable_GetBlockID t (int l) (p div cfg_BlockSize ?cfg) = Some ?b"
    using p(2) len by (auto simp: BlockTable_GetBlockID_def len_def idx_def)
  have la: "l < nlayers (ba_config ?a)" "?b \<in> set (block_ids (ba_config ?a))"
    using l bid by (simp_all only: ac)
  note gb = GetBlock_nth [OF aok la]
  note sb = set_block_nth [OF aok la,
      of "?blk\<lparr>blk_Data := d, blk_NumTokens := max (?off + 1) (blk_NumTokens ?blk)\<rparr>"]
  have oo: "\<And>o'. 0 \<le> o' \<and> o' < cfg_BlockSize ?cfg \<and> o' \<noteq> ?off \<Longrightarrow>
      tok_at ?cfg d o' = tok_at ?cfg (blk_Data ?blk) o'" using o by blast
  have bt': "bt_blocks ?t = bt_blocks t" by simp
  note W = write_step [OF ok t l p bt' d]
  show ?thesis
    by (intro exI conjI, simp only: g gb sb w SetSeqLen_meta Let_def option.case bind.bind_lunit)
      (rule W(1), rule oo, assumption, rule W(2), rule oo, assumption, simp_all add: seq_meta_def)
qed

lemma kv_written_grown:
  assumes ok: "pc_ok c" and g: "grown s l bs c c1" and w: "kv_written c1 s l p kv c2"
  shows "kv_written c s l p kv c2"
  using w kv_at_grown [OF ok g] g by (auto simp: kv_written_def grown_def)

lemma StoreKV_spec:
  assumes ok: "pc_ok c" and s: "s < pc_nextSeqID c" and l: "l < nlayers (pc_config c)"
    and p: "0 \<le> p"
    and k: "length k = nat (kv_size (pc_config c))" and v: "length v = nat (kv_size (pc_config c))"
  shows "\<exists>r c'. PagedKVCache_StoreKV c s (int l) p k v = Some (r, c') \<and> pc_ok c' \<and>
    pc_config c' = pc_config c \<and> pc_nextSeqID c' = pc_nextSeqID c \<and>
    (case r of
       None \<Rightarrow> kv_written c s l p (k, v) c' \<and>
         fst (seq_meta (pc_sequences c') s) = max (fst (seq_meta (pc_sequences c) s)) (p + 1)
     | Some e \<Rightarrow> e = NoFreeBlocks (int l) \<and> frees (pc_allocator c') l = [] \<and>
         kv_at c s l p = None \<and>
         (\<forall>s' l' p' x. l' < nlayers (pc_config c) \<and> kv_at c s' l' p' = Some x \<longrightarrow>
            kv_at c' s' l' p' = Some x))"
proof -
  let ?cfg = "pc_config c" and ?k = "p div cfg_BlockSize (pc_config c)"
  have B: "0 < cfg_BlockSize ?cfg" using pc_ok_cfg [OF ok] by (simp add: cfg_ok_def)
  have k0: "0 \<le> ?k" using p B by (simp add: pos_imp_zdiv_nonneg_iff)
  obtain t c1 where e: "ensure_table c s = Some (t, c1)" and ok1: "pc_ok c1"
    and t: "pc_sequences c1 s = Some t" and c1: "pc_allocator c1 = pc_allocator c"
      "pc_config c1 = ?cfg" "pc_nextSeqID c1 = pc_nextSeqID c" "pc_fragments c1 = pc_fragments c"
      "seq_meta (pc_sequences c1) s = seq_meta (pc_sequences c) s"
      "\<forall>r. r \<noteq> s \<longrightarrow> pc_sequences c1 r = pc_sequences c r"
      "\<forall>l < nlayers ?cfg. bt_blocks t ! l = blocks_of (pc_sequences c) s l"
    using ensure_table_ok [OF ok s] by blast
  have g1: "grown s l [] c c1" using c1 t by (auto simp: grown_def blocks_of_def)
  have lt: "l < length (bt_blocks t)" using pc_ok_table [OF ok1 t] l c1 by simp
  have bl: "blocks_of (pc_sequences c1) s l = bt_blocks t ! l" using t by (simp add: blocks_of_def)
  let ?n = "len (bt_blocks t ! l)"
  obtain r c2 bs where eb: "ensure_blocks (nat (?k + 1 - ?n)) c1 s (int l) ?k = Some (r, c2)"
    and ok2: "pc_ok c2" and g2: "grown s l bs c1 c2"
    and r: "case r of None \<Rightarrow> length bs = nat (?k + 1 - ?n)
      | Some e \<Rightarrow> e = NoFreeBlocks (int l) \<and> frees (pc_allocator c2) l = [] \<and>
          length bs < nat (?k + 1 - ?n)"
    using ensure_blocks_ok [OF ok1, of s l ?k "nat (?k + 1 - ?n)"] s l c1(2,3) t
    unfolding bl by (simp add: domIff) blast
  have g: "grown s l bs c c2" using grown_trans [OF g1 g2] by simp
  note G = grown_simps [OF g]
  have head: "PagedKVCache_StoreKV c s (int l) p k v = (case r of
             Some e \<Rightarrow> Some (Some e, c2)
           | None \<Rightarrow>
               do { t2 \<leftarrow> pc_sequences c2 s;
                    blockID \<leftarrow> BlockTable_GetBlockID t2 (int l) ?k;
                    mb \<leftarrow> BlockAllocator_GetBlock (pc_allocator c2) (int l) blockID;
                    (case mb of
                       None \<Rightarrow> Some (None, c2)
                     | Some block \<Rightarrow>
                         do { block' \<leftarrow> write_token ?cfg block (p mod cfg_BlockSize ?cfg) k v;
                              a' \<leftarrow> set_block (pc_allocator c2) (int l) blockID block';
                              let t3 = (if p + 1 > BlockTable_SeqLen t2
                                        then BlockTable_SetSeqLen t2 (p + 1) else t2);
                              Some (None, c2\<lparr>pc_allocator := a',
                                pc_sequences := (pc_sequences c2)(s \<mapsto> t3)\<rparr>) }) })"
    using e eb p B NumBlocks_nth [OF lt] by (simp add: PagedKVCache_StoreKV_def Let_def)
  show ?thesis
  proof (cases r)
    case (Some er)
    have "kv_at c s l p = None"
      using r Some G(3) l bl c1(7) by (auto simp: kv_at_def Let_def len_def nat_less_iff)
    then show ?thesis using head Some r ok2 G(1,2) kv_at_grown [OF ok g] by auto
  next
    case None
    obtain t2 where t2: "pc_sequences c2 s = Some t2" using grown_dom [OF g] by blast
    have "length (bt_blocks t2 ! l) = length (bt_blocks t ! l) + nat (?k + 1 - ?n)"
      using G(3) [OF l] c1(7) l r None t2 by (simp add: blocks_of_def)
    then have i: "nat ?k < length (bt_blocks t2 ! l)" using k0 by (simp add: len_def)
    have "seq_meta (pc_sequences c) s = seq_meta (pc_sequences c2) s"
      using g by (simp add: grown_def)
    then have sm: "fst (seq_meta (pc_sequences c) s) = bt_seqLen t2"
      using t2 by (simp only:) (simp add: seq_meta_def)
    obtain c3 where c3: "PagedKVCache_StoreKV c s (int l) p k v = Some (None, c3)" "pc_ok c3"
      and w: "kv_written c2 s l p (k, v) c3"
      and m: "fst (seq_meta (pc_sequences c3) s) = max (bt_seqLen t2) (p + 1)"
      and cfg3: "pc_config c3 = ?cfg" "pc_nextSeqID c3 = pc_nextSeqID c"
      using StoreKV_write [OF ok2 t2, of l p k v] l p i k v G(1,2) head None t2
      by (auto simp: G(1))
    show ?thesis
      using c3 cfg3 kv_written_grown [OF ok g w] m sm
      by (intro exI [of _ None] exI [of _ c3]) simp
  qed
qed

section \<open>Giving blocks back\<close>

lemma free_layer_ok:
  assumes "ba_ok a" and "unshared a" and "l < nlayers (ba_config a)" and "distinct bs"
    and "set bs \<subseteq> set (block_ids (ba_config a))" and "set bs \<inter> set (frees a l) = {}"
  shows "\<exists>a'. free_layer (int l) bs a = Some a' \<and> ba_ok a' \<and> ba_config a' = ba_config a \<and>
     unshared a' \<and> frees a' l = frees a l @ bs \<and> (\<forall>j. j \<noteq> l \<longrightarrow> frees a' j = frees a j) \<and>
     ba_blocks a' = ba_blocks a"
  using assms
proof (induction bs arbitrary: a)
  case Nil
  then show ?case by (simp add: free_layer_def)
next
  case (Cons b bs)
  have b: "b \<in> set (block_ids (ba_config a))" "b \<notin> set (frees a l)" using Cons.prems by auto
  have il: "0 \<le> int l" "int l < cfg_NumLayers (ba_config a)" using Cons.prems(3) by auto
  have rc: "map_get 0 (ba_refCounts a) b \<le> 1" using Cons.prems(2) by (simp add: unshared_def)
  obtain a1 where f: "BlockAllocator_Free a (int l) b = Some a1"
    using Free_last [OF Cons.prems(1) il b(1) rc] by blast
  note F = Free_last_ok [OF Cons.prems(1) il b(1) _ rc f, simplified nat_int, OF b(2)]
  have u: "unshared a1" using Cons.prems(2) F(5) by (simp add: unshared_def)
  have "\<exists>a'. free_layer (int l) bs a1 = Some a' \<and> ba_ok a' \<and> ba_config a' = ba_config a1 \<and>
     unshared a' \<and> frees a' l = frees a1 l @ bs \<and> (\<forall>j. j \<noteq> l \<longrightarrow> frees a' j = frees a1 j) \<and>
     ba_blocks a' = ba_blocks a1"
    using Cons.prems(3-6) F by (intro Cons.IH [OF F(1) u]) auto
  then show ?case using f F by (auto simp: free_layer_def)
qed

text \<open>The blocks may be freed: on each layer they are distinct, in the pool and out of the free list.\<close>

definition returnable :: "'f BlockAllocator \<Rightarrow> BlockID list list \<Rightarrow> bool" where
  "returnable a bss \<longleftrightarrow> length bss \<le> nlayers (ba_config a) \<and> (\<forall>l < length bss.
     distinct (bss ! l) \<and> set (bss ! l) \<subseteq> set (block_ids (ba_config a)) \<and>
     set (bss ! l) \<inter> set (frees a l) = {})"

lemma free_layers_snoc:
  "free_layers (bss @ [bs]) a =
     do { a' \<leftarrow> free_layers bss a; free_layer (int (length bss)) bs a' }"
  by (simp add: free_layers_def enumerate_append_eq foldM_append split: Option.bind_splits)

lemma free_layers_ok:
  assumes "ba_ok a" and "unshared a" and "returnable a bss"
  shows "\<exists>a'. free_layers bss a = Some a' \<and> ba_ok a' \<and> ba_config a' = ba_config a \<and> unshared a' \<and>
     (\<forall>l. frees a' l = frees a l @ (if l < length bss then bss ! l else [])) \<and>
     ba_blocks a' = ba_blocks a"
  using assms(3)
proof (induction bss rule: rev_induct)
  case Nil
  then show ?case using assms by (simp add: free_layers_def)
next
  case (snoc bs bss)
  have "returnable a bss" using snoc.prems by (auto simp: returnable_def nth_append split: if_splits)
  then obtain a1 where f: "free_layers bss a = Some a1" and a1: "ba_ok a1" "unshared a1"
    and c: "ba_config a1 = ba_config a" "ba_blocks a1 = ba_blocks a"
    and fr: "\<forall>l. frees a1 l = frees a l @ (if l < length bss then bss ! l else [])"
    using snoc.IH by blast
  let ?n = "length bss"
  have bs: "distinct bs" "set bs \<subseteq> set (block_ids (ba_config a))" "set bs \<inter> set (frees a ?n) = {}"
      "?n < nlayers (ba_config a)"
    using snoc.prems [unfolded returnable_def, THEN conjunct2, rule_format, of ?n] snoc.prems
    by (simp_all add: returnable_def)
  obtain a2 where f2: "free_layer (int ?n) bs a1 = Some a2" "ba_ok a2" "ba_config a2 = ba_config a1"
      "unshared a2" "frees a2 ?n = frees a1 ?n @ bs" "\<forall>j. j \<noteq> ?n \<longrightarrow> frees a2 j = frees a1 j"
      "ba_blocks a2 = ba_blocks a1"
    using free_layer_ok [OF a1, of ?n bs] bs fr c by auto
  have "frees a2 l = frees a l @ (if l < length (bss @ [bs]) then (bss @ [bs]) ! l else [])" for l
    using f2(5,6) fr by (cases "l = ?n") (auto simp: nth_append)
  then show ?case using f f2 c by (simp add: free_layers_snoc)
qed

lemma free_table_layers:
  fixes a :: "'f BlockAllocator"
  assumes "n \<le> length (bt_blocks t)"
  shows "foldM (free_table_layer t) [0..<n] a = free_layers (take n (bt_blocks t)) a"
  using assms
proof (induction n)
  case 0
  then show ?case by (simp add: free_layers_def)
next
  case (Suc n)
  then have "take (Suc n) (bt_blocks t) = take n (bt_blocks t) @ [bt_blocks t ! n]"
    by (simp add: take_Suc_conv_app_nth)
  moreover have "free_table_layer t n b = free_layer (int n) (bt_blocks t ! n) b"
    for b :: "'f BlockAllocator"
    using Suc.prems by (simp add: free_table_layer_def BlockTable_BlocksForLayer_def len_def)
  ultimately show ?case
    using Suc by (auto simp: free_layers_snoc foldM_append split: Option.bind_splits)
qed

lemma pc_ok_returnable:
  assumes ok: "pc_ok c" and t: "pc_sequences c s = Some t"
    and sub: "length bss = length (bt_blocks t)"
      "\<And>l. l < length bss \<Longrightarrow> \<exists>k. bss ! l = drop k (bt_blocks t ! l)"
  shows "returnable (pc_allocator c) bss"
proof -
  have cfg: "ba_config (pc_allocator c) = pc_config c" using ok by (simp add: pc_ok_def)
  have len: "length (bt_blocks t) = nlayers (pc_config c)" using pc_ok_table [OF ok t] .
  have bl: "blocks_of (pc_sequences c) s l = bt_blocks t ! l" for l
    using t by (simp add: blocks_of_def)
  have "distinct (bss ! l) \<and> set (bss ! l) \<subseteq> set (block_ids (pc_config c)) \<and>
     set (bss ! l) \<inter> set (frees (pc_allocator c) l) = {}" if l: "l < length bss" for l
  proof -
    obtain k where k: "bss ! l = drop k (bt_blocks t ! l)" using sub(2) [OF l] by blast
    note P = pc_ok_blocks(1-3) [OF ok, of l s, unfolded bl]
    show ?thesis using P l sub(1) len set_drop_subset [of k "bt_blocks t ! l"] k by auto
  qed
  then show ?thesis using sub(1) len by (simp add: returnable_def cfg)
qed

end
