(* ===== verification/Paged_Props.thy ===== *)
theory Paged_Props
  imports Paged_Store
begin

text \<open>
  The contract of the paged cache: what truncation and deletion give back, the batch write and the
  gather read as inverses, the histories of a cache as a step relation, and where sharing breaks the
  contract (one table of reference counts for all layers, and writes into shared blocks).
\<close>

section \<open>Deleting and truncating\<close>

lemma pc_ok_remove:
  assumes ok: "pc_ok c" and a: "ba_ok a" "ba_config a = pc_config c" "unshared a"
    and bal: "\<And>l. l < nlayers (pc_config c) \<Longrightarrow>
      frees a l = frees (pc_allocator c) l @ blocks_of (pc_sequences c) s l"
  shows "pc_ok (c\<lparr>pc_allocator := a, pc_sequences := (pc_sequences c)(s := None)\<rparr>)"
proof -
  let ?m = "pc_sequences c"
  have f: "finite (dom ?m)" using ok by (simp add: pc_ok_defs)
  have "mset (frees a l) + held (?m(s := None)) l = mset (block_ids (pc_config c))"
    if l: "l < nlayers (pc_config c)" for l
  proof -
    have "mset (frees (pc_allocator c) l) + held ?m l = mset (block_ids (pc_config c))"
      using ok l by (auto simp: pc_ok_defs)
    then show ?thesis using bal [OF l] held_del [OF f, of s l] by (simp add: ac_simps)
  qed
  moreover have "tables_ok (nlayers (pc_config c)) (?m(s := None))"
    using ok ran_map_upd [of ?m s] by (auto simp: pc_ok_defs ran_def)
  ultimately show ?thesis using ok a by (auto simp: pc_ok_def partitioned_def)
qed

lemma DeleteSequence_ok:
  assumes ok: "pc_ok c" and t: "pc_sequences c s = Some t"
  shows "\<exists>c'. PagedKVCache_DeleteSequence c s = Some c' \<and> pc_ok c' \<and>
     pc_config c' = pc_config c \<and> pc_sequences c' = (pc_sequences c)(s := None) \<and>
     (\<forall>l < nlayers (pc_config c).
        frees (pc_allocator c') l = frees (pc_allocator c) l @ bt_blocks t ! l) \<and>
     ba_blocks (pc_allocator c') = ba_blocks (pc_allocator c)"
proof -
  let ?a = "pc_allocator c"
  have aok: "ba_ok ?a" "unshared ?a" and cfg: "ba_config ?a = pc_config c" using ok by (auto simp: pc_ok_def)
  have len: "length (bt_blocks t) = nlayers (pc_config c)" using pc_ok_table [OF ok t] .
  have "returnable ?a (bt_blocks t)"
    using pc_ok_returnable [OF ok t refl] by (metis drop0)
  then obtain a where f: "free_layers (bt_blocks t) ?a = Some a" and a: "ba_ok a" "unshared a"
      "ba_config a = ba_config ?a" "ba_blocks a = ba_blocks ?a"
    and fr: "\<forall>l. frees a l = frees ?a l @ (if l < length (bt_blocks t) then bt_blocks t ! l else [])"
    using free_layers_ok [OF aok] by blast
  have "PagedKVCache_DeleteSequence c s =
      Some (c\<lparr>pc_allocator := a, pc_sequences := (pc_sequences c)(s := None)\<rparr>)"
    using t f free_table_layers [of "nlayers (pc_config c)" t ?a] len
    by (simp add: PagedKVCache_DeleteSequence_def)
  moreover have "pc_ok (c\<lparr>pc_allocator := a, pc_sequences := (pc_sequences c)(s := None)\<rparr>)"
    using a cfg fr len t by (intro pc_ok_remove [OF ok]) (auto simp: blocks_of_def)
  ultimately show ?thesis using a fr len by auto
qed

lemma TruncateSequence_ok:
  assumes ok: "pc_ok c" and t: "pc_sequences c s = Some t" and n: "n < bt_seqLen t"
  shows "\<exists>c' k. PagedKVCache_TruncateSequence c s n = Some c' \<and> pc_ok c' \<and>
     pc_config c' = pc_config c \<and> pc_nextSeqID c' = pc_nextSeqID c \<and>
     needed_blocks n (cfg_BlockSize (pc_config c)) = Some (int k) \<and>
     pc_sequences c' =
       (pc_sequences c)(s \<mapsto> t\<lparr>bt_blocks := map (take k) (bt_blocks t), bt_seqLen := n\<rparr>) \<and>
     (\<forall>l < nlayers (pc_config c).
        frees (pc_allocator c') l = frees (pc_allocator c) l @ drop k (bt_blocks t ! l)) \<and>
     ba_blocks (pc_allocator c') = ba_blocks (pc_allocator c)"
proof -
  let ?a = "pc_allocator c"
  have aok: "ba_ok ?a" "unshared ?a" and cfg: "ba_config ?a = pc_config c" using ok by (auto simp: pc_ok_def)
  have B: "0 < cfg_BlockSize (pc_config c)" using pc_ok_cfg [OF ok] by (simp add: cfg_ok_def)
  have len: "length (bt_blocks t) = nlayers (pc_config c)" using pc_ok_table [OF ok t] .
  obtain ki where ki: "needed_blocks n (cfg_BlockSize (pc_config c)) = Some ki" "0 \<le> ki"
    and tr: "BlockTable_TruncateBlocks t n (cfg_BlockSize (pc_config c)) =
      Some (map (drop (nat ki)) (bt_blocks t),
            t\<lparr>bt_blocks := map (take (nat ki)) (bt_blocks t), bt_seqLen := n\<rparr>)"
    using TruncateBlocks_split [OF B, of n t] by blast
  let ?k = "nat ki" and ?fd = "map (drop (nat ki)) (bt_blocks t)"
  let ?t = "t\<lparr>bt_blocks := map (take ?k) (bt_blocks t), bt_seqLen := n\<rparr>"
  have "returnable ?a ?fd" by (rule pc_ok_returnable [OF ok t]) auto
  then obtain a where f: "free_layers ?fd ?a = Some a" and a: "ba_ok a" "unshared a"
      "ba_config a = ba_config ?a" "ba_blocks a = ba_blocks ?a"
    and fr: "\<forall>l. frees a l = frees ?a l @ (if l < length ?fd then ?fd ! l else [])"
    using free_layers_ok [OF aok] by blast
  let ?c = "c\<lparr>pc_allocator := a, pc_sequences := (pc_sequences c)(s \<mapsto> ?t)\<rparr>"
  have s: "s < pc_nextSeqID c" using ok t by (auto simp: pc_ok_def)
  have "PagedKVCache_TruncateSequence c s n = Some ?c"
    using t n tr f by (simp add: PagedKVCache_TruncateSequence_def BlockTable_SeqLen_def)
  moreover have "pc_ok ?c"
  proof (rule pc_ok_replace [OF ok s a(1) _ a(2)])
    fix l
    assume l: "l < nlayers (pc_config c)"
    have "mset (drop ?k (bt_blocks t ! l)) + mset (take ?k (bt_blocks t ! l)) = mset (bt_blocks t ! l)"
      by (metis append_take_drop_id mset_append add.commute)
    then show "mset (frees a l) + mset (bt_blocks ?t ! l) =
        mset (frees ?a l) + mset (blocks_of (pc_sequences c) s l)"
      using fr l len t by (simp add: blocks_of_def add.assoc)
  qed (use a cfg len in simp_all)
  ultimately show ?thesis using a fr len ki
    by (intro exI [of _ ?c] exI [of _ ?k]) simp
qed

text \<open>The positions that survive a truncation are the ones its blocks still cover.\<close>

lemma kv_at_same:
  assumes "pc_config c' = pc_config c" and "ba_blocks (pc_allocator c') = ba_blocks (pc_allocator c)"
    and "nat (p div cfg_BlockSize (pc_config c)) < k"
    and "blocks_of (pc_sequences c') s l = take k (blocks_of (pc_sequences c) s l)"
  shows "kv_at c' s l p = kv_at c s l p"
  using assms by (simp add: kv_at_def Let_def)

lemma kv_at_truncated:
  assumes ok: "pc_ok c" and t: "pc_sequences c s = Some t" and p: "p < n" "n < bt_seqLen t"
    and l: "l < nlayers (pc_config c)" and tr: "PagedKVCache_TruncateSequence c s n = Some c'"
  shows "kv_at c' s l p = kv_at c s l p"
proof (cases "0 \<le> p")
  case False
  then show ?thesis by (simp add: kv_at_def Let_def)
next
  case True
  let ?B = "cfg_BlockSize (pc_config c)"
  have B: "0 < ?B" using pc_ok_cfg [OF ok] by (simp add: cfg_ok_def)
  obtain k where c': "pc_config c' = pc_config c" and k: "needed_blocks n ?B = Some (int k)"
    and m: "pc_sequences c' =
       (pc_sequences c)(s \<mapsto> t\<lparr>bt_blocks := map (take k) (bt_blocks t), bt_seqLen := n\<rparr>)"
    and b: "ba_blocks (pc_allocator c') = ba_blocks (pc_allocator c)"
    using TruncateSequence_ok [OF ok t p(2)] tr by auto
  have "n \<le> int k * ?B" using needed_blocks_nonneg [OF B, of n] k by auto
  then have "p div ?B < int k" using p(1) by (intro div_lt_of_lt_mult [OF B]) simp
  then have "nat (p div ?B) < k" using True B by (simp add: nat_less_iff pos_imp_zdiv_nonneg_iff)
  then show ?thesis
    using m b c' l pc_ok_table [OF ok t] t by (intro kv_at_same) (auto simp: blocks_of_def)
qed

section \<open>The gather read\<close>

definition kv_or_zero :: "'f::zero PagedKVCache \<Rightarrow> int \<Rightarrow> nat \<Rightarrow> int \<Rightarrow> 'f list \<times> 'f list" where
  "kv_or_zero c s l p =
     (case kv_at c s l p of
        Some kv \<Rightarrow> kv
      | None \<Rightarrow> let z = replicate (nat (kv_size (pc_config c))) 0 in (z, z))"

text \<open>A prefix that is filled in, followed by zeros: the accumulator of the gather loop.\<close>

definition filled :: "'a::zero list \<Rightarrow> nat \<Rightarrow> 'a list" where
  "filled xs n = xs @ replicate (n - length xs) 0"

lemma filled_zeros: "filled (xs @ replicate w 0) n = filled xs n" if "length xs + w \<le> n"
  using that by (simp add: filled_def replicate_add [symmetric])

lemma copy_into_filled:
  assumes "length xs + length ys \<le> n"
  shows "copy_into (filled xs n) (int (length xs)) (int (length xs) + int (length ys)) ys =
    Some (filled (xs @ ys) n)"
  using assms by (simp add: copy_into_def filled_def splice_at_def len_def)

text \<open>What one token of the store looks like to the reader.\<close>

lemma slice_take_drop:
  "0 \<le> lo \<Longrightarrow> 0 \<le> w \<Longrightarrow> lo + w \<le> int (length xs) \<Longrightarrow>
   slice xs lo (lo + w) = Some (take (nat w) (drop (nat lo) xs))"
  by (simp add: slice_def len_def)

lemma slice_token:
  assumes cfg: "cfg_ok cfg" and off: "0 \<le> off" "off < cfg_BlockSize cfg"
    and d: "length d = nat (BlockSizeFloats cfg)"
  shows "slice d (off * kv_size cfg) (off * kv_size cfg + kv_size cfg) = Some (fst (tok_at cfg d off))"
    and "slice d (KVSizeFloats cfg + off * kv_size cfg) (KVSizeFloats cfg + off * kv_size cfg + kv_size cfg)
      = Some (snd (tok_at cfg d off))"
    and "length (fst (tok_at cfg d off)) = nat (kv_size cfg)"
    and "length (snd (tok_at cfg d off)) = nat (kv_size cfg)"
proof -
  let ?w = "kv_size cfg" and ?B = "cfg_BlockSize cfg"
  have w: "0 \<le> ?w" using cfg by simp
  note sb = slot_bounds [OF off w]
  have bw: "0 \<le> ?B * ?w" using cfg w by (simp add: cfg_ok_def)
  have dl: "int (length d) = 2 * (?B * ?w)" unfolding d BlockSizeFloats_kv_size using bw by simp
  have b1: "off * ?w + ?w \<le> int (length d)" using sb bw dl by linarith
  have b2: "0 \<le> ?B * ?w + off * ?w" "(?B * ?w + off * ?w) + ?w \<le> int (length d)"
    using sb bw dl by linarith+
  show "slice d (off * ?w) (off * ?w + ?w) = Some (fst (tok_at cfg d off))"
    using slice_take_drop [OF sb(1) w b1] by (simp add: tok_at_def)
  show "slice d (KVSizeFloats cfg + off * ?w) (KVSizeFloats cfg + off * ?w + ?w) =
      Some (snd (tok_at cfg d off))"
    using slice_take_drop [OF b2(1) w b2(2)] by (simp add: tok_at_def KVSizeFloats_kv_size)
  show "length (fst (tok_at cfg d off)) = nat ?w" "length (snd (tok_at cfg d off)) = nat ?w"
    using b1 b2 sb w by (simp_all add: tok_at_def KVSizeFloats_kv_size)
qed

lemma kv_at_length:
  assumes ok: "pc_ok c" and l: "l < nlayers (pc_config c)"
  shows "length (fst (kv_or_zero c s l p)) = nat (kv_size (pc_config c))"
    and "length (snd (kv_or_zero c s l p)) = nat (kv_size (pc_config c))"
proof -
  have B: "0 < cfg_BlockSize (pc_config c)" using pc_ok_cfg [OF ok] by (simp add: cfg_ok_def)
  have "length (fst x) = nat (kv_size (pc_config c)) \<and> length (snd x) = nat (kv_size (pc_config c))"
    if x: "kv_at c s l p = Some x" for x
  proof -
    let ?i = "nat (p div cfg_BlockSize (pc_config c))" and ?b = "blocks_of (pc_sequences c) s l"
    have i: "?i < length ?b" using x by (auto simp: kv_at_def Let_def split: if_splits)
    have "?b ! ?i \<in> set (block_ids (pc_config c))"
      using pc_ok_blocks(2) [OF ok l, of s] nth_mem [OF i] by (rule subsetD)
    then have "nat (?b ! ?i) < nblocks (pc_config c)" by (auto simp: set_block_ids)
    then have "length (blk_Data (ba_blocks (pc_allocator c) ! l ! nat (?b ! ?i))) =
        nat (BlockSizeFloats (pc_config c))"
      using store_ok_block(2) [of "pc_allocator c" l] ok l by (auto simp: pc_ok_def ba_ok_def)
    then show ?thesis
      using x slice_token(3,4) [OF pc_ok_cfg [OF ok], of "p mod cfg_BlockSize (pc_config c)"] B
      by (auto simp: kv_at_def Let_def split: if_splits)
  qed
  then show "length (fst (kv_or_zero c s l p)) = nat (kv_size (pc_config c))"
    and "length (snd (kv_or_zero c s l p)) = nat (kv_size (pc_config c))"
    by (auto simp: kv_or_zero_def Let_def split: option.splits)
qed

lemma gather_token_ok:
  fixes c :: "'f::zero PagedKVCache" and i :: nat
  assumes ok: "pc_ok c" and t: "pc_sequences c s = Some t" and l: "l < nlayers (pc_config c)"
    and p: "0 \<le> start"
  defines "w \<equiv> nat (kv_size (pc_config c))" and "kv \<equiv> kv_or_zero c s l (start + int i)"
  assumes i: "i < n" and ks: "length ks = i * w" and vs: "length vs = i * w"
  shows "gather_token c t (int l) start i (filled ks (n * w), filled vs (n * w)) =
    Some (filled (ks @ fst kv) (n * w), filled (vs @ snd kv) (n * w))"
proof -
  let ?cfg = "pc_config c" and ?a = "pc_allocator c" and ?p = "start + int i"
  let ?B = "cfg_BlockSize (pc_config c)"
  let ?k = "?p div ?B" and ?off = "?p mod ?B"
  have cfg: "cfg_ok ?cfg" using ok by (rule pc_ok_cfg)
  have B: "0 < ?B" using cfg by (simp add: cfg_ok_def)
  have k0: "0 \<le> ?k" using p B by (simp add: pos_imp_zdiv_nonneg_iff)
  have aok: "ba_ok ?a" and ac: "ba_config ?a = ?cfg" using ok by (auto simp: pc_ok_def)
  have bl: "blocks_of (pc_sequences c) s l = bt_blocks t ! l" using t by (simp add: blocks_of_def)
  have lt: "l < length (bt_blocks t)" using pc_ok_table [OF ok t] l by simp
  have lenkv: "length (fst kv) = w" "length (snd kv) = w"
    using kv_at_length [OF ok l] by (simp_all add: kv_def w_def)
  have "Suc i * w \<le> n * w" using i by (intro mult_right_mono) auto
  then have room: "length ks + w \<le> n * w" "length vs + w \<le> n * w" using ks vs by simp_all
  show ?thesis
  proof (cases "nat ?k < length (bt_blocks t ! l)")
    case False
    then have "BlockTable_GetBlockID t (int l) ?k = Some InvalidBlockID"
      using lt k0 by (auto simp: BlockTable_GetBlockID_def len_def)
    moreover have "kv = (replicate w 0, replicate w 0)"
      using False bl by (simp add: kv_def kv_or_zero_def kv_at_def Let_def w_def)
    ultimately show ?thesis
      using p B room filled_zeros [of ks w "n * w"] filled_zeros [of vs w "n * w"]
      by (simp add: gather_token_def Let_def)
  next
    case True
    let ?b = "bt_blocks t ! l ! nat ?k"
    have bid: "?b \<in> set (block_ids ?cfg)"
      using pc_ok_blocks(2) [OF ok l, of s] nth_mem [OF True] unfolding bl by (rule subsetD)
    then have inv: "?b \<noteq> InvalidBlockID" by (auto simp: set_block_ids InvalidBlockID_def)
    have la: "l < nlayers (ba_config ?a)" "?b \<in> set (block_ids (ba_config ?a))"
      using l bid by (simp_all only: ac)
    let ?d = "blk_Data (ba_blocks ?a ! l ! nat ?b)"
    have d: "length ?d = nat (BlockSizeFloats ?cfg)"
      using store_ok_block(2) [of ?a l "nat ?b"] aok ac l bid by (auto simp: ba_ok_def set_block_ids)
    have g: "BlockTable_GetBlockID t (int l) ?k = Some ?b"
      using True lt k0 by (auto simp: BlockTable_GetBlockID_def len_def idx_def)
    have kv: "kv = tok_at ?cfg ?d ?off"
      using True bl p by (simp add: kv_def kv_or_zero_def kv_at_def Let_def)
    have off: "0 \<le> ?off" "?off < ?B" using B by simp_all
    note S = slice_token [OF cfg off d, folded kv]
    have wi: "int w = kv_size ?cfg" using cfg by (simp add: w_def)
    have dst: "int i * kv_size ?cfg = int (length ks)" "int i * kv_size ?cfg = int (length vs)"
      using ks vs wi by simp_all
    have C: "copy_into (filled ks (n * w)) (int i * kv_size ?cfg) (int i * kv_size ?cfg + kv_size ?cfg)
        (fst kv) = Some (filled (ks @ fst kv) (n * w))"
      using copy_into_filled [of ks "fst kv" "n * w"] room(1) lenkv(1) unfolding dst(1)
      by (simp add: wi [symmetric])
    have D: "copy_into (filled vs (n * w)) (int i * kv_size ?cfg) (int i * kv_size ?cfg + kv_size ?cfg)
        (snd kv) = Some (filled (vs @ snd kv) (n * w))"
      using copy_into_filled [of vs "snd kv" "n * w"] room(2) lenkv(2) unfolding dst(2)
      by (simp add: wi [symmetric])
    show ?thesis
      using p B g inv GetBlock_nth [OF aok la] S C D by (simp add: gather_token_def Let_def)
  qed
qed

lemma gather_loop_ok:
  fixes c :: "'f::zero PagedKVCache"
  assumes ok: "pc_ok c" and t: "pc_sequences c s = Some t" and l: "l < nlayers (pc_config c)"
    and p: "0 \<le> start" and m: "m \<le> n"
  defines "w \<equiv> nat (kv_size (pc_config c))"
    and "kvs \<equiv> map (\<lambda>i. kv_or_zero c s l (start + int i)) [0..<m]"
  shows "foldM (gather_token c t (int l) start) [0..<m]
      (replicate (n * w) 0, replicate (n * w) 0) =
    Some (filled (concat (map fst kvs)) (n * w), filled (concat (map snd kvs)) (n * w)) \<and>
    length (concat (map fst kvs)) = m * w \<and> length (concat (map snd kvs)) = m * w"
  using m unfolding kvs_def
proof (induction m)
  case 0
  then show ?case by (simp add: filled_def)
next
  case (Suc m)
  let ?kvs = "map (\<lambda>i. kv_or_zero c s l (start + int i)) [0..<m]"
  have IH: "foldM (gather_token c t (int l) start) [0..<m]
      (replicate (n * w) 0, replicate (n * w) 0) =
    Some (filled (concat (map fst ?kvs)) (n * w), filled (concat (map snd ?kvs)) (n * w))"
    "length (concat (map fst ?kvs)) = m * w" "length (concat (map snd ?kvs)) = m * w"
    using Suc by auto
  have "gather_token c t (int l) start m
      (filled (concat (map fst ?kvs)) (n * w), filled (concat (map snd ?kvs)) (n * w)) =
    Some (filled (concat (map fst ?kvs) @ fst (kv_or_zero c s l (start + int m))) (n * w),
          filled (concat (map snd ?kvs) @ snd (kv_or_zero c s l (start + int m))) (n * w))"
    using IH(2,3) Suc.prems unfolding w_def by (intro gather_token_ok [OF ok t l p]) auto
  moreover have "length (fst (kv_or_zero c s l (start + int m))) = w"
    "length (snd (kv_or_zero c s l (start + int m))) = w"
    using kv_at_length [OF ok l] by (simp_all add: w_def)
  ultimately show ?case using IH by (simp add: foldM_append)
qed

lemma GetKVSlice_spec:
  fixes c :: "'f::zero PagedKVCache"
  assumes ok: "pc_ok c" and t: "pc_sequences c s = Some t" and l: "l < nlayers (pc_config c)"
    and p: "0 \<le> start" and n: "0 < n"
  shows "PagedKVCache_GetKVSlice c s (int l) start (start + int n - 1) =
    Some (Some (concat (map (\<lambda>i. fst (kv_or_zero c s l (start + int i))) [0..<n]),
                concat (map (\<lambda>i. snd (kv_or_zero c s l (start + int i))) [0..<n])))"
proof -
  let ?w = "nat (kv_size (pc_config c))"
  have w: "0 \<le> kv_size (pc_config c)" using pc_ok_cfg [OF ok] by simp
  have m: "make_slice (int n * kv_size (pc_config c)) (0 :: 'f) = Some (replicate (n * ?w) 0)"
    using w by (simp add: make_slice_def nat_mult_distrib)
  have e: "start + int n - 1 - start + 1 = int n" by simp
  note G = gather_loop_ok [OF ok t l p order_refl [of n], THEN conjunct1]
  note L = gather_loop_ok [OF ok t l p order_refl [of n], THEN conjunct2]
  let ?kvs = "map (\<lambda>i. kv_or_zero c s l (start + int i)) [0..<n]"
  have "filled (concat (map fst ?kvs)) (n * ?w) = concat (map fst ?kvs)"
    "filled (concat (map snd ?kvs)) (n * ?w) = concat (map snd ?kvs)"
    using L by (simp_all only: filled_def) simp_all
  then have G': "foldM (gather_token c t (int l) start) [0..<n]
      (replicate (n * ?w) 0, replicate (n * ?w) 0) =
      Some (concat (map fst ?kvs), concat (map snd ?kvs))"
    using G by (simp only:)
  have n': "\<not> int n \<le> 0" using n by simp
  show ?thesis
    unfolding PagedKVCache_GetKVSlice_def t option.case Let_def e
    by (simp only: n' if_False m bind.bind_lunit nat_int G' map_map comp_def)
qed

section \<open>The batch write\<close>

definition chunk :: "nat \<Rightarrow> 'a list \<Rightarrow> nat \<Rightarrow> 'a list" where
  "chunk w xs i = take w (drop (i * w) xs)"

lemma concat_chunks: "length xs = n * w \<Longrightarrow> concat (map (chunk w xs) [0..<n]) = xs"
proof (induction n arbitrary: xs)
  case 0
  then show ?case by simp
next
  case (Suc n)
  let ?ys = "take (n * w) xs"
  have "concat (map (chunk w ?ys) [0..<n]) = ?ys" using Suc by (intro Suc.IH) simp
  moreover have "map (chunk w ?ys) [0..<n] = map (chunk w xs) [0..<n]"
  proof (rule map_cong [OF refl])
    fix i
    assume "i \<in> set [0..<n]"
    then have "Suc i * w \<le> n * w" by (intro mult_right_mono) auto
    then have "w \<le> n * w - i * w" by simp
    then show "chunk w ?ys i = chunk w xs i" by (simp add: chunk_def drop_take min_def)
  qed
  moreover have "chunk w xs n = drop (n * w) xs" using Suc.prems by (simp add: chunk_def)
  ultimately show ?case by simp
qed

lemma slice_chunk:
  assumes "0 \<le> kvs" and "length xs = n * nat kvs" and "i < n"
  shows "slice xs (int i * kvs) (int i * kvs + kvs) = Some (chunk (nat kvs) xs i)"
    and "length (chunk (nat kvs) xs i) = nat kvs"
proof -
  have "Suc i * nat kvs \<le> n * nat kvs" using assms(3) by (intro mult_right_mono) auto
  then have r: "i * nat kvs + nat kvs \<le> length xs" using assms(2) by simp
  have "int (i * nat kvs + nat kvs) = int i * kvs + kvs" using assms(1) by simp
  with r have "int i * kvs + kvs \<le> int (length xs)" by linarith
  then show "slice xs (int i * kvs) (int i * kvs + kvs) = Some (chunk (nat kvs) xs i)"
    using assms(1) slice_take_drop [of "int i * kvs" kvs xs]
    by (simp add: chunk_def nat_mult_distrib)
  show "length (chunk (nat kvs) xs i) = nat kvs" using r by (simp add: chunk_def)
qed

lemma store_batch_ok:
  assumes "pc_ok c" and "s < pc_nextSeqID c" and "l < nlayers (pc_config c)" and "0 \<le> start"
    and "length k = n * nat (kv_size (pc_config c))" and "length v = n * nat (kv_size (pc_config c))"
    and "m \<le> n"
  defines "w \<equiv> nat (kv_size (pc_config c))"
  shows "\<exists>r c'. store_batch_loop [m..<n] c s (int l) start k v = Some (r, c') \<and> pc_ok c' \<and>
    pc_config c' = pc_config c \<and> pc_nextSeqID c' = pc_nextSeqID c \<and>
    (\<forall>e. r = Some e \<longrightarrow> e = NoFreeBlocks (int l) \<and> frees (pc_allocator c') l = []) \<and>
    (r = None \<longrightarrow> (\<forall>i. m \<le> i \<and> i < n \<longrightarrow>
       kv_at c' s l (start + int i) = Some (chunk w k i, chunk w v i))) \<and>
    (\<forall>s' l' p' x. l' < nlayers (pc_config c) \<and> kv_at c s' l' p' = Some x \<and>
       \<not> (s' = s \<and> l' = l \<and> start + int m \<le> p') \<longrightarrow> kv_at c' s' l' p' = Some x)"
  using assms(1-7) unfolding w_def
proof (induction "n - m" arbitrary: m c)
  case 0
  then show ?case by (intro exI [of _ None] exI [of _ c]) auto
next
  case (Suc d)
  let ?w = "nat (kv_size (pc_config c))" and ?p = "start + int m"
  have m: "m < n" using Suc.hyps(2) by simp
  then have up: "[m..<n] = m # [Suc m..<n]" by (simp add: upt_conv_Cons)
  have kv0: "0 \<le> kv_size (pc_config c)" using pc_ok_cfg [OF Suc.prems(1)] by simp
  note K = slice_chunk [OF kv0 Suc.prems(5) m] and V = slice_chunk [OF kv0 Suc.prems(6) m]
  have p: "0 \<le> ?p" using Suc.prems(4) by simp
  obtain r c1 where st: "PagedKVCache_StoreKV c s (int l) ?p (chunk ?w k m) (chunk ?w v m) = Some (r, c1)"
    and ok1: "pc_ok c1" and c1: "pc_config c1 = pc_config c" "pc_nextSeqID c1 = pc_nextSeqID c"
    and r: "case r of
       None \<Rightarrow> kv_written c s l ?p (chunk ?w k m, chunk ?w v m) c1 \<and>
         fst (seq_meta (pc_sequences c1) s) = max (fst (seq_meta (pc_sequences c) s)) (?p + 1)
     | Some e \<Rightarrow> e = NoFreeBlocks (int l) \<and> frees (pc_allocator c1) l = [] \<and>
         kv_at c s l ?p = None \<and>
         (\<forall>s' l' p' x. l' < nlayers (pc_config c) \<and> kv_at c s' l' p' = Some x \<longrightarrow>
            kv_at c1 s' l' p' = Some x)"
    using StoreKV_spec [OF Suc.prems(1-3) p K(2) V(2)] by blast
  show ?case
  proof (cases r)
    case (Some e)
    then show ?thesis using st K(1) V(1) r ok1 c1 by (simp add: up Let_def)
  next
    case None
    have w1: "kv_written c s l ?p (chunk ?w k m, chunk ?w v m) c1" using r None by simp
    have nx: "d = n - Suc m" using Suc.hyps(2) by simp
    note IH = Suc.hyps(1) [OF nx ok1, unfolded c1, OF Suc.prems(2-6) Suc_leI [OF m]]
    then obtain r' c2 where l2: "store_batch_loop [Suc m..<n] c1 s (int l) start k v = Some (r', c2)"
      and ok2: "pc_ok c2" and c2: "pc_config c2 = pc_config c" "pc_nextSeqID c2 = pc_nextSeqID c"
      and e2: "\<forall>e. r' = Some e \<longrightarrow> e = NoFreeBlocks (int l) \<and> frees (pc_allocator c2) l = []"
      and s2: "r' = None \<longrightarrow> (\<forall>i. Suc m \<le> i \<and> i < n \<longrightarrow>
         kv_at c2 s l (start + int i) = Some (chunk ?w k i, chunk ?w v i))"
      and f2: "\<forall>s' l' p' x. l' < nlayers (pc_config c) \<and> kv_at c1 s' l' p' = Some x \<and>
         \<not> (s' = s \<and> l' = l \<and> start + int (Suc m) \<le> p') \<longrightarrow> kv_at c2 s' l' p' = Some x"
      by blast
    have "kv_at c2 s l ?p = Some (chunk ?w k m, chunk ?w v m)"
      using w1 f2 Suc.prems(3) by (simp add: kv_written_def)
    then have "r' = None \<longrightarrow> (\<forall>i. m \<le> i \<and> i < n \<longrightarrow>
         kv_at c2 s l (start + int i) = Some (chunk ?w k i, chunk ?w v i))"
      using s2 by (metis Suc_leI le_neq_implies_less)
    moreover have "\<forall>s' l' p' x. l' < nlayers (pc_config c) \<and> kv_at c s' l' p' = Some x \<and>
         \<not> (s' = s \<and> l' = l \<and> ?p \<le> p') \<longrightarrow> kv_at c2 s' l' p' = Some x"
    proof (intro allI impI, elim conjE)
      fix s' l' p' x
      assume h: "l' < nlayers (pc_config c)" "kv_at c s' l' p' = Some x"
        "\<not> (s' = s \<and> l' = l \<and> ?p \<le> p')"
      then have "kv_at c1 s' l' p' = Some x" by (intro kv_writtenD [OF w1]) auto
      moreover have "\<not> (s' = s \<and> l' = l \<and> start + int (Suc m) \<le> p')" using h(3) by auto
      ultimately show "kv_at c2 s' l' p' = Some x" using f2 h(1) by blast
    qed
    ultimately show ?thesis
      using st K(1) V(1) None l2 ok2 c2 e2 by (simp add: up Let_def)
  qed
qed

section \<open>Histories of a cache\<close>

text \<open>
  One call on the cache by its client. The lengths of the slices and the layer are the client's
  obligation, as is using only sequence ids that \<open>CreateSequence\<close> has handed out.
\<close>

inductive pc_step :: "'f::zero PagedKVCache \<Rightarrow> 'f PagedKVCache \<Rightarrow> bool" where
  create: "PagedKVCache_CreateSequence c = Some (s, c') \<Longrightarrow> pc_step c c'"
| delete: "PagedKVCache_DeleteSequence c s = Some c' \<Longrightarrow> pc_step c c'"
| allocate: "s < pc_nextSeqID c \<Longrightarrow> l < nlayers (pc_config c) \<Longrightarrow>
    PagedKVCache_AllocateBlock c s (int l) = Some (r, c') \<Longrightarrow> pc_step c c'"
| store: "s < pc_nextSeqID c \<Longrightarrow> l < nlayers (pc_config c) \<Longrightarrow> 0 \<le> p \<Longrightarrow>
    length k = nat (kv_size (pc_config c)) \<Longrightarrow> length v = nat (kv_size (pc_config c)) \<Longrightarrow>
    PagedKVCache_StoreKV c s (int l) p k v = Some (e, c') \<Longrightarrow> pc_step c c'"
| store_batch: "s < pc_nextSeqID c \<Longrightarrow> l < nlayers (pc_config c) \<Longrightarrow> 0 \<le> p \<Longrightarrow>
    length k = n * nat (kv_size (pc_config c)) \<Longrightarrow> length v = n * nat (kv_size (pc_config c)) \<Longrightarrow>
    PagedKVCache_StoreKVBatch c s (int l) p k v (int n) = Some (e, c') \<Longrightarrow> pc_step c c'"
| truncate: "PagedKVCache_TruncateSequence c s n = Some c' \<Longrightarrow> pc_step c c'"

lemma pc_step_ok: "pc_step c c' \<Longrightarrow> pc_ok c \<Longrightarrow> pc_ok c' \<and> pc_config c' = pc_config c"
proof (induction rule: pc_step.induct)
  case (create c s c')
  have "pc_config c' = pc_config c" using create(1)
    by (auto simp: PagedKVCache_CreateSequence_def Let_def split: Option.bind_splits)
  then show ?case using pc_ok_CreateSequence [OF create(2)] create(1) by auto
next
  case (delete c s c')
  then show ?case using DeleteSequence_ok [of c s]
    by (cases "pc_sequences c s") (auto simp: PagedKVCache_DeleteSequence_def)
next
  case (allocate s c l r c')
  then show ?case using AllocateBlock_ok [of c s l] by (auto simp: grown_def split: if_splits)
next
  case (store s c l p k v e c')
  then show ?case using StoreKV_spec [of c s l p k v] by auto
next
  case (store_batch s c l p k n v e c')
  then show ?case using store_batch_ok [of c s l p k n v 0]
    by (auto simp: PagedKVCache_StoreKVBatch_def)
next
  case (truncate c s n c')
  show ?case
  proof (cases "\<exists>t. pc_sequences c s = Some t \<and> n < bt_seqLen t")
    case True
    then show ?thesis using TruncateSequence_ok [OF truncate(2), of s _ n] truncate(1) by auto
  next
    case False
    then show ?thesis using truncate
      by (auto simp: PagedKVCache_TruncateSequence_def BlockTable_SeqLen_def split: option.splits if_splits)
  qed
qed

lemma pc_steps_ok: "pc_step\<^sup>*\<^sup>* c c' \<Longrightarrow> pc_ok c \<Longrightarrow> pc_ok c' \<and> pc_config c' = pc_config c"
  by (induction rule: rtranclp_induct) (auto dest: pc_step_ok)

section \<open>Fragments: taking and dropping references\<close>

lemma AddRef_refs [simp]:
  "ba_refCounts (BlockAllocator_AddRef a b) =
     (ba_refCounts a)(b \<mapsto> map_get 0 (ba_refCounts a) b + 1)"
  "ba_config (BlockAllocator_AddRef a b) = ba_config a"
  "ba_freeList (BlockAllocator_AddRef a b) = ba_freeList a"
  "ba_blocks (BlockAllocator_AddRef a b) = ba_blocks a"
  by (simp_all add: BlockAllocator_AddRef_def)

lemma addref_fold:
  "fold (\<lambda>b a. BlockAllocator_AddRef a b) bs a =
     a\<lparr>ba_refCounts := (\<lambda>b. if b \<in> set bs
        then Some (map_get 0 (ba_refCounts a) b + int (count (mset bs) b)) else ba_refCounts a b)\<rparr>"
proof (induction bs arbitrary: a)
  case Nil
  then show ?case by simp
next
  case (Cons b bs)
  show ?case
    by (simp only: fold_simps Cons.IH)
      (auto simp: BlockAllocator_AddRef_def map_get_def fun_eq_iff not_in_iff split: option.splits)
qed

lemma ba_ok_refs [simp]: "ba_ok (a\<lparr>ba_refCounts := f\<rparr>) = ba_ok a"
  by (simp add: ba_ok_def store_ok_def free_ok_def)

text \<open>Dropping references that are not the last ones.\<close>

lemma free_layer_shared:
  assumes "ba_ok a" and "l < nlayers (ba_config a)" and "set bs \<subseteq> set (block_ids (ba_config a))"
    and "\<forall>b \<in> set bs. int (count (mset bs) b) < map_get 0 (ba_refCounts a) b"
  shows "free_layer (int l) bs a = Some (a\<lparr>ba_refCounts := (\<lambda>b. if b \<in> set bs
      then Some (map_get 0 (ba_refCounts a) b - int (count (mset bs) b)) else ba_refCounts a b)\<rparr>)"
  using assms
proof (induction bs arbitrary: a)
  case Nil
  then show ?case by (simp add: free_layer_def)
next
  case (Cons b bs)
  let ?rc = "map_get 0 (ba_refCounts a)"
  let ?a = "a\<lparr>ba_refCounts := (ba_refCounts a)(b \<mapsto> ?rc b - 1)\<rparr>"
  have "int (count (mset (b # bs)) b) < ?rc b" using Cons.prems(4) by auto
  then have f: "BlockAllocator_Free a (int l) b = Some ?a"
    using Free_shared [OF Cons.prems(1), of "int l" b] Cons.prems(2,3) by auto
  have c: "\<forall>x \<in> set bs. int (count (mset bs) x) < map_get 0 (ba_refCounts ?a) x"
    using Cons.prems(4) by (simp split: if_splits) fastforce
  have "free_layer (int l) bs ?a = Some (?a\<lparr>ba_refCounts := (\<lambda>x. if x \<in> set bs
      then Some (map_get 0 (ba_refCounts ?a) x - int (count (mset bs) x)) else ba_refCounts ?a x)\<rparr>)"
    by (rule Cons.IH [OF _ _ _ c]) (use Cons.prems(1-3) in simp_all)
  then show ?case using f
    by (auto simp: free_layer_def fun_eq_iff map_get_def not_in_iff split: option.splits)
qed

text \<open>The count of every block lowered by what is released; blocks outside are untouched.\<close>

definition lower_refs :: "BlockID list \<Rightarrow> 'f BlockAllocator \<Rightarrow> 'f BlockAllocator" where
  "lower_refs bs a = a\<lparr>ba_refCounts := (\<lambda>b. if b \<in> set bs
      then Some (map_get 0 (ba_refCounts a) b - int (count (mset bs) b)) else ba_refCounts a b)\<rparr>"

lemma lower_refs_simps [simp]:
  "ba_ok (lower_refs bs a) = ba_ok a" "ba_config (lower_refs bs a) = ba_config a"
  "map_get 0 (ba_refCounts (lower_refs bs a)) b = map_get 0 (ba_refCounts a) b - int (count (mset bs) b)"
  by (simp_all add: lower_refs_def map_get_def not_in_iff)

lemma lower_refs_append: "lower_refs ds (lower_refs bs a) = lower_refs (bs @ ds) a"
  by (auto simp: lower_refs_def map_get_def fun_eq_iff not_in_iff split: option.splits)

lemma free_layers_shared:
  assumes "ba_ok a" and "length bss \<le> nlayers (ba_config a)"
    and "set (concat bss) \<subseteq> set (block_ids (ba_config a))"
    and "\<forall>b \<in> set (concat bss). int (count (mset (concat bss)) b) < map_get 0 (ba_refCounts a) b"
  shows "free_layers bss a = Some (lower_refs (concat bss) a)"
  using assms(2-4)
proof (induction bss rule: rev_induct)
  case Nil
  then show ?case by (simp add: free_layers_def lower_refs_def)
next
  case (snoc bs bss)
  have lt: "int (count (mset (concat bss)) b) + int (count (mset bs) b) < map_get 0 (ba_refCounts a) b"
    if "b \<in> set (concat bss) \<union> set bs" for b
    using that snoc.prems(3) by auto
  have "free_layers bss a = Some (lower_refs (concat bss) a)"
  proof (rule snoc.IH)
    show "\<forall>b \<in> set (concat bss). int (count (mset (concat bss)) b) < map_get 0 (ba_refCounts a) b"
      using lt by fastforce
  qed (use snoc.prems in auto)
  moreover have "free_layer (int (length bss)) bs (lower_refs (concat bss) a) =
      Some (lower_refs bs (lower_refs (concat bss) a))"
    unfolding lower_refs_def [of bs]
  proof (rule free_layer_shared)
    show "\<forall>b \<in> set bs. int (count (mset bs) b) <
        map_get 0 (ba_refCounts (lower_refs (concat bss) a)) b"
      using lt by fastforce
  qed (use snoc.prems assms(1) in auto)
  ultimately show ?case by (simp add: free_layers_snoc lower_refs_append)
qed

lemma addref_all_lower:
  assumes "\<forall>b \<in> set (concat bss). 1 \<le> map_get 0 (ba_refCounts a) b"
  shows "lower_refs (concat bss) (addref_all bss a) = a"
proof -
  have "ba_refCounts a b = Some (map_get 0 (ba_refCounts a) b)" if "b \<in> set (concat bss)" for b
    using assms that by (auto simp: map_get_def split: option.splits)
  then show ?thesis
    by (auto simp: lower_refs_def addref_all_def addref_fold map_get_def fun_eq_iff
        simp del: set_concat mset_concat intro!: BlockAllocator.equality)
qed

lemma fragment_cache_then_delete:
  assumes ok: "ba_ok a" and len: "length bss \<le> nlayers (ba_config a)"
    and ids: "set (concat bss) \<subseteq> set (block_ids (ba_config a))"
    and rc: "\<forall>b \<in> set (concat bss). 1 \<le> map_get 0 (ba_refCounts a) b"
    and fresh: "fc name = None"
  shows "(do { (fragment, fc1, a1) \<leftarrow> FragmentCache_CacheContent fc a name n bss;
               FragmentCache_Delete fc1 a1 name }) = Some (fc, a)"
proof -
  let ?a = "addref_all bss a"
  have refs: "map_get 0 (ba_refCounts ?a) b =
      map_get 0 (ba_refCounts a) b + int (count (mset (concat bss)) b)" for b
    by (simp add: addref_all_def addref_fold map_get_def not_in_iff del: set_concat mset_concat)
  have "free_layers bss ?a = Some (lower_refs (concat bss) ?a)"
  proof (rule free_layers_shared)
    show "ba_ok ?a" using ok by (simp add: addref_all_def addref_fold)
    show "\<forall>b \<in> set (concat bss). int (count (mset (concat bss)) b) < map_get 0 (ba_refCounts ?a) b"
      unfolding refs using rc by fastforce
  qed (use len ids in \<open>simp_all add: addref_all_def addref_fold\<close>)
  then show ?thesis
    using fresh addref_all_lower [OF rc]
    by (simp add: FragmentCache_CacheContent_def FragmentCache_Delete_def Let_def
        releaseFragmentBlocks_def fun_upd_idem)
qed

section \<open>A small cache\<close>

text \<open>Two layers, one head of dimension one, four blocks of two tokens, and one empty sequence.\<close>

definition demo_config :: PagedKVConfig where
  "demo_config = \<lparr>cfg_NumLayers = 2, cfg_NumKVHeads = 1, cfg_HeadDim = 1, cfg_BlockSize = 2,
     cfg_MaxBlocks = 4\<rparr>"

definition demo_cache :: "int PagedKVCache" where
  "demo_cache = snd (the (PagedKVCache_CreateSequence (the (NewPagedKVCache demo_config))))"

lemma demo_config_ok: "cfg_ok demo_config"
  by (simp add: demo_config_def cfg_ok_def)

lemma demo_cache_ok:
  "pc_ok demo_cache" "pc_config demo_cache = demo_config" "pc_nextSeqID demo_cache = 2"
  "pc_sequences demo_cache = [1 \<mapsto> empty_table 2]"
proof -
  obtain c :: "int PagedKVCache" where c: "NewPagedKVCache demo_config = Some c" "pc_ok c"
      "pc_config c = demo_config" "pc_sequences c = Map.empty"
    using pc_ok_New [OF demo_config_ok] by blast
  have n: "pc_nextSeqID c = 1" using c(1)
    by (auto simp: NewPagedKVCache_def split: Option.bind_splits)
  obtain c' where d: "PagedKVCache_CreateSequence c = Some (pc_nextSeqID c, c')" "pc_ok c'"
    "pc_sequences c' = (pc_sequences c)(pc_nextSeqID c \<mapsto> empty_table (nlayers (pc_config c)))"
    using pc_ok_CreateSequence [OF c(2)] by blast
  have e: "demo_cache = c'" using c(1) d(1) by (simp add: demo_cache_def)
  show "pc_ok demo_cache" using d(2) e by simp
  show "pc_sequences demo_cache = [1 \<mapsto> empty_table 2]" using d(3) c e n by (simp add: demo_config_def)
  show "pc_config demo_cache = demo_config" "pc_nextSeqID demo_cache = 2"
    unfolding e using d(1) c(3) n
    by (auto simp: PagedKVCache_CreateSequence_def Let_def split: Option.bind_splits)
qed

lemma demo_cache_sizes [simp]:
  "nlayers demo_config = 2" "kv_size demo_config = 1" "cfg_BlockSize demo_config = 2"
  "cfg_MaxBlocks demo_config = 4"
  by (simp_all add: demo_config_def kv_size_def)

section \<open>Properties\<close>

text \<open>
  C3: A call of \<open>StoreKV\<close> on a well-formed cache always returns. Either it updates the store at
  exactly the given sequence, layer and position, every other stored token of every sequence keeping
  its value, and raises the sequence length to at least \<open>pos + 1\<close>; or it fails because the layer has
  no free block left, and then nothing that was stored is lost. The cache stays well-formed.
\<close>

theorem StoreKV_refines_update:
  assumes "pc_ok c" and "s < pc_nextSeqID c" and "l < nlayers (pc_config c)" and "0 \<le> p"
    and "length k = nat (kv_size (pc_config c))" and "length v = nat (kv_size (pc_config c))"
  shows "\<exists>r c'. PagedKVCache_StoreKV c s (int l) p k v = Some (r, c') \<and> pc_ok c' \<and>
    (case r of
       None \<Rightarrow> kv_written c s l p (k, v) c' \<and>
         fst (seq_meta (pc_sequences c') s) = max (fst (seq_meta (pc_sequences c) s)) (p + 1)
     | Some e \<Rightarrow> e = NoFreeBlocks (int l) \<and> frees (pc_allocator c') l = [] \<and> kv_at c s l p = None \<and>
         (\<forall>s' l' p' x. l' < nlayers (pc_config c) \<and> kv_at c s' l' p' = Some x \<longrightarrow>
            kv_at c' s' l' p' = Some x))"
  using StoreKV_spec [OF assms] by blast

theorem StoreKV_refines_update_witness:
  "\<exists>r c'. PagedKVCache_StoreKV demo_cache 1 (int 1) 3 [7] [8] = Some (r, c') \<and> pc_ok c'"
  using StoreKV_refines_update [of demo_cache 1 1 3 "[7]" "[8]"] by (auto simp: demo_cache_ok)

text \<open>
  C4: Reading back a batch: when \<open>StoreKVBatch\<close> has stored \<open>n\<close> tokens from position \<open>start\<close> on,
  \<open>GetKVSlice\<close> over those positions returns the key and value slices that were passed in, across
  all block boundaries.
\<close>

theorem StoreKVBatch_then_GetKVSlice:
  fixes c :: "'f::zero PagedKVCache"
  assumes "pc_ok c" and "s < pc_nextSeqID c" and "l < nlayers (pc_config c)" and "0 \<le> start"
    and "length k = n * nat (kv_size (pc_config c))" and "length v = n * nat (kv_size (pc_config c))"
    and "0 < n"
    and "PagedKVCache_StoreKVBatch c s (int l) start k v (int n) = Some (None, c')"
  shows "PagedKVCache_GetKVSlice c' s (int l) start (start + int n - 1) = Some (Some (k, v))"
proof -
  let ?w = "nat (kv_size (pc_config c))"
  have ok': "pc_ok c'" and cfg: "pc_config c' = pc_config c"
    and kv: "\<forall>i < n. kv_at c' s l (start + int i) = Some (chunk ?w k i, chunk ?w v i)"
    using store_batch_ok [OF assms(1-6) le0] assms(8) by (auto simp: PagedKVCache_StoreKVBatch_def)
  have "kv_at c' s l (start + int 0) \<noteq> None" using kv assms(7) by auto
  then obtain t where t: "pc_sequences c' s = Some t"
    by (auto simp: kv_at_def blocks_of_def Let_def split: option.splits if_splits)
  have m: "map (\<lambda>i. fst (kv_or_zero c' s l (start + int i))) [0..<n] = map (chunk ?w k) [0..<n]"
    "map (\<lambda>i. snd (kv_or_zero c' s l (start + int i))) [0..<n] = map (chunk ?w v) [0..<n]"
    using kv by (simp_all add: kv_or_zero_def)
  have l': "l < nlayers (pc_config c')" using assms(3) cfg by simp
  show ?thesis
    unfolding GetKVSlice_spec [OF ok' t l' assms(4,7)] m
    by (simp only: concat_chunks [OF assms(5)] concat_chunks [OF assms(6)])
qed

theorem StoreKVBatch_then_GetKVSlice_witness:
  "\<exists>c'. PagedKVCache_StoreKVBatch demo_cache 1 (int 0) 1 [7, 8, 9] [4, 5, 6] (int 3) = Some (None, c') \<and>
     PagedKVCache_GetKVSlice c' 1 (int 0) 1 3 = Some (Some ([7, 8, 9], [4, 5, 6]))"
proof -
  have "map_option fst (PagedKVCache_StoreKVBatch demo_cache 1 (int 0) 1 [7, 8, 9] [4, 5, 6] (int 3)) =
      Some None"
    by code_simp
  then show ?thesis
    using StoreKVBatch_then_GetKVSlice [of demo_cache 1 0 1 "[7, 8, 9]" 3 "[4, 5, 6]"]
    by (auto simp: demo_cache_ok)
qed





text \<open>
  Deleting a sequence returns every block of its table to the free list of its layer, removes the
  sequence, and leaves every token of the other sequences in place.
\<close>

theorem DeleteSequence_returns_blocks:
  assumes "pc_ok c" and "pc_sequences c s = Some t"
  shows "\<exists>c'. PagedKVCache_DeleteSequence c s = Some c' \<and> pc_ok c' \<and>
    pc_sequences c' = (pc_sequences c)(s := None) \<and>
    (\<forall>l < nlayers (pc_config c).
       frees (pc_allocator c') l = frees (pc_allocator c) l @ bt_blocks t ! l \<and>
       (\<forall>s' p. s' \<noteq> s \<longrightarrow> kv_at c' s' l p = kv_at c s' l p))"
proof -
  obtain c' where c': "PagedKVCache_DeleteSequence c s = Some c'" "pc_ok c'" "pc_config c' = pc_config c"
      "pc_sequences c' = (pc_sequences c)(s := None)"
      "\<forall>l < nlayers (pc_config c). frees (pc_allocator c') l = frees (pc_allocator c) l @ bt_blocks t ! l"
      "ba_blocks (pc_allocator c') = ba_blocks (pc_allocator c)"
    using DeleteSequence_ok [OF assms] by blast
  then have "\<forall>l s' p. s' \<noteq> s \<longrightarrow> kv_at c' s' l p = kv_at c s' l p"
    by (simp add: kv_at_def blocks_of_def Let_def)
  then show ?thesis using c' by blast
qed

theorem DeleteSequence_returns_blocks_witness:
  "\<exists>c'. PagedKVCache_DeleteSequence demo_cache 1 = Some c' \<and> pc_sequences c' = Map.empty"
  using DeleteSequence_returns_blocks [of demo_cache 1 "empty_table 2"]
  by (auto simp: demo_cache_ok)

text \<open>
  C9: Caching the blocks of a finished sequence under a new name and deleting the fragment again is
  the identity on the allocator and on the fragment map, whatever blocks are listed and however often,
  as long as each has a holder already: the references that are taken are exactly the ones dropped.
\<close>

theorem CacheContent_then_Delete:
  assumes "ba_ok a" and "length bss \<le> nlayers (ba_config a)"
    and "set (concat bss) \<subseteq> set (block_ids (ba_config a))"
    and "\<forall>b \<in> set (concat bss). 1 \<le> map_get 0 (ba_refCounts a) b" and "fc name = None"
  shows "(do { (fragment, fc1, a1) \<leftarrow> FragmentCache_CacheContent fc a name n bss;
               FragmentCache_Delete fc1 a1 name }) = Some (fc, a)"
  by (rule fragment_cache_then_delete) (fact assms)+

theorem CacheContent_then_Delete_witness:
  "\<exists>(b :: int Block) (a :: int BlockAllocator).
     (do { (fragment, fc1, a1) \<leftarrow> FragmentCache_CacheContent Map.empty a ''sys'' 1 [[blk_ID b]];
           FragmentCache_Delete fc1 a1 ''sys'' }) = Some (Map.empty, a)"
proof -
  obtain a0 :: "int BlockAllocator" where a0: "ba_ok a0" "ba_config a0 = demo_config"
      "frees a0 0 = rev (block_ids demo_config)"
    using NewBlockAllocator_ok [OF demo_config_ok, where 'a = int] by auto
  have "frees a0 (nat 0) \<noteq> []" using a0(3) by (simp add: block_ids_def demo_config_def)
  then obtain b a where al: "BlockAllocator_Allocate a0 0 = Some (Inr b, a)"
    using Allocate_Inr [OF a0(1), of 0] a0(2) by (auto simp: demo_config_def)
  note A = Allocate_ok [OF a0(1) _ _ al, unfolded a0(2)]
  show ?thesis
    using CacheContent_then_Delete [of a "[[blk_ID b]]" Map.empty "''sys''" 1] A(1,2,5,7)
    by (intro exI [of _ b] exI [of _ a]) (simp add: demo_config_def)
qed

section \<open>Where sharing breaks the contract\<close>

text \<open>
  The reference counts are kept per block id, not per layer, so two layers that use the same id share
  one count: an allocation on one layer resets the count to 1, and the next \<open>Free\<close> on the other layer
  puts a block back on the free list whatever number of holders it had there.
\<close>

lemma refcount_shared_between_layers:
  assumes ok: "ba_ok a" and j: "j < nlayers (ba_config a)" and l: "l < nlayers (ba_config a)"
    and jl: "j \<noteq> l" and ne: "frees a l \<noteq> []"
  defines "b \<equiv> last (frees a l)"
  assumes held: "map_get 0 (ba_refCounts a) b = 2" "b \<notin> set (frees a j)"
  shows "\<exists>blk a1 a2. BlockAllocator_Allocate a (int l) = Some (Inr blk, a1) \<and>
    BlockAllocator_Free a1 (int j) b = Some a2 \<and> b \<in> set (frees a2 j)"
proof -
  have il: "0 \<le> int l" "int l < cfg_NumLayers (ba_config a)"
    and ij: "0 \<le> int j" "int j < cfg_NumLayers (ba_config a)" using l j by auto
  obtain blk a1 where al: "BlockAllocator_Allocate a (int l) = Some (Inr blk, a1)"
    using Allocate_Inr [OF ok il] ne by simp
  note A = Allocate_ok [OF ok il al, simplified nat_int]
  have id: "blk_ID blk = b" using A(3) by (simp add: b_def)
  have st: "store_ok a1" using A(1) by (simp add: ba_ok_def)
  have "BlockAllocator_Free a1 (int j) b = Some (a1\<lparr>ba_refCounts := (ba_refCounts a1)(b := None),
      ba_freeList := (ba_freeList a1)[j := frees a1 j @ [b]]\<rparr>)"
    using Free_last [OF A(1), of "int j" b] A(2,5,7) ij id by simp
  moreover have "j < length (ba_freeList a1)" using st j A(2) by (simp add: store_ok_def)
  ultimately show ?thesis using al by auto
qed

text \<open>
  A fragment whose last block is not full is shared between its sequence and the one it is inserted
  into; both then write their next token into the same slot, and the second write is what both read.
\<close>

definition shared_block_run :: "(int list \<times> int list) option option" where
  "shared_block_run =
     do { (_, c1) \<leftarrow> PagedKVCache_StoreKV demo_cache 1 0 0 [10] [11];
          (_, c2) \<leftarrow> PagedKVCache_CacheContent c1 ''sys'' 1;
          (s2, c3) \<leftarrow> PagedKVCache_CreateSequence c2;
          (_, c4) \<leftarrow> PagedKVCache_InsertFragment c3 s2 ''sys'' 0;
          (_, c5) \<leftarrow> PagedKVCache_StoreKV c4 s2 0 1 [20] [21];
          (_, c6) \<leftarrow> PagedKVCache_StoreKV c5 1 0 1 [30] [31];
          PagedKVCache_GetKVSlice c6 s2 0 0 1 }"

lemma shared_block_overwritten: "shared_block_run = Some (Some ([10, 30], [11, 31]))"
  by code_simp

end
