(* ===== verification/Scheduler_Props.thy ===== *)
theory Scheduler_Props
  imports Scheduler Paged_Props
begin

text \<open>
  What the scheduler keeps: the invariant of a sequence and of the scheduler, that no step panics on a
  closed channel or an index, the bound on the generated tokens, and that the loop of \<open>Run\<close> drains.
\<close>

section \<open>Sequences\<close>

definition eff_limit :: "int \<Rightarrow> Sequence \<Rightarrow> int" where
  "eff_limit gm q = (if sq_maxTokens q \<le> 0 then gm else sq_maxTokens q)"

definition token_cap :: "int \<Rightarrow> Sequence \<Rightarrow> int" where
  "token_cap gm q = max (eff_limit gm q) 2"

definition seq_ok :: "int \<Rightarrow> Sequence \<Rightarrow> bool" where
  "seq_ok gm q \<longleftrightarrow>
     sq_state q \<in> {StatePending, StateDecoding, StateFinished} \<and>
     (sq_closed q \<longleftrightarrow> sq_state q = StateFinished) \<and>
     len (sq_tokenChan q) \<le> chan_capacity \<and>
     0 \<le> sq_promptPos q \<and> sq_promptPos q \<le> len (sq_promptTokens q) \<and>
     (sq_state q = StatePending \<longrightarrow> sq_generatedTokens q = [] \<and> sq_promptPos q = 0) \<and>
     (sq_state q = StateDecoding \<longrightarrow> sq_promptPos q = len (sq_promptTokens q)) \<and>
     (0 < eff_limit gm q \<longrightarrow> len (sq_generatedTokens q) \<le> token_cap gm q \<and>
        (sq_state q \<noteq> StateFinished \<longrightarrow> len (sq_generatedTokens q) < token_cap gm q))"

text \<open>What no operation on a sequence changes.\<close>

definition seq_meta :: "Sequence \<Rightarrow> SequenceID \<times> int \<times> int" where
  "seq_meta q = (sq_id q, sq_maxTokens q, sq_kvSeqID q)"

lemma eff_limit_meta: "seq_meta q' = seq_meta q \<Longrightarrow> eff_limit gm q' = eff_limit gm q \<and> token_cap gm q' = token_cap gm q"
  by (simp add: seq_meta_def eff_limit_def token_cap_def)

text \<open>The tokens a sequence may still generate.\<close>

definition work :: "int \<Rightarrow> Sequence \<Rightarrow> nat" where
  "work gm q = (if sq_state q = StateFinished then 0 else nat (token_cap gm q - len (sq_generatedTokens q)))"

lemma enter_decode_ok:
  assumes "seq_ok gm q" and "needs_decode q"
  shows "seq_ok gm (enter_decode q) \<and> seq_meta (enter_decode q) = seq_meta q \<and>
    sq_state (enter_decode q) = StateDecoding \<and> work gm (enter_decode q) = work gm q"
  using assms
  by (auto simp: seq_ok_def needs_decode_def enter_decode_def sequence_defs seq_meta_def work_def Let_def
      eff_limit_def token_cap_def)

lemma PushToken_ok:
  assumes "seq_ok gm q" and "sq_state q \<noteq> StateFinished"
  shows "\<exists>q'. Sequence_PushToken q t = Some q' \<and> seq_ok gm q' \<and> seq_meta q' = seq_meta q \<and>
    sq_state q' = sq_state q \<and> work gm q' = work gm q"
  using assms
  by (auto simp: seq_ok_def Sequence_PushToken_def seq_meta_def work_def eff_limit_def token_cap_def)

lemma emit_token_ok:
  assumes "seq_ok gm q" and "sq_state q = StateDecoding"
  shows "\<exists>q'. emit_token e gm t q = Some q' \<and> seq_ok gm q' \<and> seq_meta q' = seq_meta q \<and>
    work gm q' \<le> work gm q \<and> (0 < eff_limit gm q \<longrightarrow> work gm q' < work gm q)"
proof -
  let ?q = "Sequence_AddGeneratedToken q t"
  have c: "\<not> sq_closed q" using assms by (simp add: seq_ok_def)
  have m: "seq_meta ?q = seq_meta q" by (simp add: Sequence_AddGeneratedToken_def seq_meta_def)
  have g: "len (sq_generatedTokens ?q) = len (sq_generatedTokens q) + 1"
    by (simp add: Sequence_AddGeneratedToken_def)
  consider (fin) "isStopToken e t ?q \<or> Sequence_ReachedMaxTokens ?q gm"
    | (more) "\<not> isStopToken e t ?q" "\<not> Sequence_ReachedMaxTokens ?q gm" by blast
  then show ?thesis
  proof cases
    case fin
    then have "emit_token e gm t q = Sequence_Close (Sequence_SetState ?q StateFinished)"
      by (auto simp: emit_token_def Let_def)
    also have "\<dots> = Some (?q\<lparr>sq_state := StateFinished, sq_closed := True\<rparr>)"
      using c by (simp add: sequence_defs)
    finally show ?thesis
      using assms by (auto simp: seq_ok_def seq_meta_def work_def eff_limit_def token_cap_def
          Sequence_AddGeneratedToken_def)
  next
    case more
    then have l: "0 < eff_limit gm q \<Longrightarrow> len (sq_generatedTokens q) + 1 < eff_limit gm q"
      by (auto simp: sequence_defs eff_limit_def Let_def split: if_splits)
    have "seq_ok gm ?q" "sq_state ?q = StateDecoding"
      using assms l
      by (auto simp: seq_ok_def Sequence_AddGeneratedToken_def eff_limit_def token_cap_def)
    moreover have "work gm ?q \<le> work gm q" "0 < eff_limit gm q \<longrightarrow> work gm ?q < work gm q"
      using assms l by (auto simp: work_def Sequence_AddGeneratedToken_def eff_limit_def token_cap_def)
    moreover have "emit_token e gm t q = Sequence_PushToken ?q (token_text e t)"
      using more by (simp add: emit_token_def Let_def)
    ultimately show ?thesis using PushToken_ok [of gm ?q "token_text e t"] m by auto
  qed
qed

lemma NextInputToken_total: "seq_ok gm q \<Longrightarrow> \<exists>r. Sequence_NextInputToken q = Some r"
  by (auto simp: Sequence_NextInputToken_def seq_ok_def idx_def)

section \<open>The scheduler\<close>

definition sched_ok :: "('f, 'd, 's) Scheduler \<Rightarrow> bool" where
  "sched_ok s \<longleftrightarrow> rt_backend (sc_runtime s) \<noteq> None \<and> finite (dom (sc_sequences s)) \<and>
     (\<forall>i q. sc_sequences s i = Some q \<longrightarrow> sq_id q = i \<and> seq_ok (sf_MaxTokens (sc_config s)) q)"

definition total_work :: "('f, 'd, 's) Scheduler \<Rightarrow> nat" where
  "total_work s = (\<Sum>i \<in> dom (sc_sequences s). work (sf_MaxTokens (sc_config s)) (the (sc_sequences s i)))"

text \<open>From \<open>s\<close> to \<open>s'\<close> the invariant and the setting are kept and no work is added.\<close>

definition adv :: "('f, 'd, 's) Scheduler \<Rightarrow> ('f, 'd, 's) Scheduler \<Rightarrow> bool" where
  "adv s s' \<longleftrightarrow> sched_ok s' \<and> sc_config s' = sc_config s \<and>
     (rt_gpu (sc_runtime s') = None \<longleftrightarrow> rt_gpu (sc_runtime s) = None) \<and>
     (rt_paged (sc_runtime s') = None \<longleftrightarrow> rt_paged (sc_runtime s) = None) \<and>
     (\<forall>i. map_option seq_meta (sc_sequences s' i) = map_option seq_meta (sc_sequences s i)) \<and>
     total_work s' \<le> total_work s"

lemma adv_ok: "adv s s' \<Longrightarrow> sched_ok s'"
  by (simp add: adv_def)

lemma adv_refl: "sched_ok s \<Longrightarrow> adv s s"
  by (simp add: adv_def)

lemma adv_trans: "adv s s' \<Longrightarrow> adv s' s'' \<Longrightarrow> adv s s''"
  by (auto simp: adv_def)

lemma adv_config: "adv s s' \<Longrightarrow> sc_config s' = sc_config s"
  by (simp add: adv_def)

text \<open>Every sequence has a positive limit.\<close>

definition limited :: "('f, 'd, 's) Scheduler \<Rightarrow> bool" where
  "limited s \<longleftrightarrow> (\<forall>i q. sc_sequences s i = Some q \<longrightarrow> 0 < eff_limit (sf_MaxTokens (sc_config s)) q)"

lemma adv_limited: "adv s s' \<Longrightarrow> limited s \<Longrightarrow> limited s'"
proof -
  assume a: "adv s s'" and l: "limited s"
  show ?thesis unfolding limited_def
  proof (intro allI impI)
    fix i q' assume q': "sc_sequences s' i = Some q'"
    have "map_option seq_meta (sc_sequences s' i) = map_option seq_meta (sc_sequences s i)"
      using a by (simp add: adv_def)
    then obtain q where q: "sc_sequences s i = Some q" "seq_meta q' = seq_meta q" using q' by (cases "sc_sequences s i") auto
    then show "0 < eff_limit (sf_MaxTokens (sc_config s')) q'"
      using l eff_limit_meta [OF q(2)] adv_config [OF a] by (simp add: limited_def)
  qed
qed

text \<open>Replacing one sequence.\<close>

lemma total_work_put:
  assumes "finite (dom (sc_sequences s))" and "sc_sequences s i = Some q"
  shows "total_work (put_seq i q' s) + work (sf_MaxTokens (sc_config s)) q =
    total_work s + work (sf_MaxTokens (sc_config s)) q'"
proof -
  let ?gm = "sf_MaxTokens (sc_config s)" and ?D = "dom (sc_sequences s)"
  have i: "i \<in> ?D" using assms(2) by auto
  then have "dom (sc_sequences (put_seq i q' s)) = ?D" by (auto simp: put_seq_def)
  then have "total_work (put_seq i q' s) = (\<Sum>j \<in> ?D. work ?gm (the (((sc_sequences s)(i \<mapsto> q')) j)))"
    by (simp add: total_work_def put_seq_def)
  then show ?thesis
    using assms i by (simp add: total_work_def sum.remove [OF assms(1) i])
qed

lemma adv_put:
  assumes "sched_ok s" and "sc_sequences s i = Some q" and "seq_ok (sf_MaxTokens (sc_config s)) q'"
    and "seq_meta q' = seq_meta q" and "work (sf_MaxTokens (sc_config s)) q' \<le> work (sf_MaxTokens (sc_config s)) q"
  shows "adv s (put_seq i q' s)"
    and "work (sf_MaxTokens (sc_config s)) q' < work (sf_MaxTokens (sc_config s)) q \<Longrightarrow>
      total_work (put_seq i q' s) < total_work s"
proof -
  have f: "finite (dom (sc_sequences s))" using assms(1) by (simp add: sched_ok_def)
  have "sched_ok (put_seq i q' s)"
    using assms(1-4) by (auto simp: sched_ok_def put_seq_def seq_meta_def)
  then show "adv s (put_seq i q' s)"
    using total_work_put [OF f assms(2), of q'] assms(2,4,5) by (auto simp: adv_def put_seq_def)
  show "work (sf_MaxTokens (sc_config s)) q' < work (sf_MaxTokens (sc_config s)) q \<Longrightarrow>
      total_work (put_seq i q' s) < total_work s"
    using total_work_put [OF f assms(2), of q'] by linarith
qed

text \<open>Two states that agree in everything the invariant speaks about.\<close>

definition same_seqs :: "('f, 'd, 's) Scheduler \<Rightarrow> ('f, 'd, 's) Scheduler \<Rightarrow> bool" where
  "same_seqs s s' \<longleftrightarrow> sc_sequences s' = sc_sequences s \<and> sc_config s' = sc_config s \<and>
     (rt_backend (sc_runtime s) \<noteq> None \<longrightarrow> rt_backend (sc_runtime s') \<noteq> None) \<and>
     (rt_gpu (sc_runtime s') = None \<longleftrightarrow> rt_gpu (sc_runtime s) = None) \<and>
     (rt_paged (sc_runtime s') = None \<longleftrightarrow> rt_paged (sc_runtime s) = None)"

lemma same_seqs_adv: "same_seqs s s' \<Longrightarrow> sched_ok s \<Longrightarrow> adv s s' \<and> total_work s' = total_work s"
  by (auto simp: same_seqs_def adv_def sched_ok_def total_work_def)

lemma same_seqs_trans: "same_seqs s s' \<Longrightarrow> same_seqs s' s'' \<Longrightarrow> same_seqs s s''"
  by (simp add: same_seqs_def)

lemma same_seqs_sample: "s_sample e xs s = (t, s') \<Longrightarrow> same_seqs s s'"
  by (auto simp: s_sample_def same_seqs_def split: prod.splits)

lemma same_seqs_count [simp]: "same_seqs s (count_decoded n s)"
  by (simp add: same_seqs_def count_decoded_def Let_def)

lemma same_seqs_reset [simp]: "same_seqs s (reset_gpu_cache s)"
  by (simp add: same_seqs_def reset_gpu_cache_def)

section \<open>The engine\<close>

text \<open>
  What the scheduler relies on: a forward pass keeps the backend and the set of caches, and its logits are
  not empty. With \<open>g\<close> it also succeeds, with \<open>n\<close> rows of readable logits.
\<close>

definition fwd_ok :: "bool \<Rightarrow> int \<Rightarrow> ('f, 'd, 's) Engine \<Rightarrow> ('f, 'd) forward \<Rightarrow> bool" where
  "fwd_ok g n e f \<longleftrightarrow> (\<forall>rt r rt'. f rt = (r, rt') \<longrightarrow>
     (rt_backend rt \<noteq> None \<longrightarrow> rt_backend rt' \<noteq> None) \<and>
     (rt_gpu rt' = None \<longleftrightarrow> rt_gpu rt = None) \<and> (rt_paged rt' = None \<longleftrightarrow> rt_paged rt = None) \<and>
     (\<forall>err. r = Inl err \<longrightarrow> \<not> g) \<and>
     (\<forall>l. r = Inr l \<longrightarrow> 0 < Tensor_NumElements l \<and>
        (g \<longrightarrow> \<not> DevicePtr_IsNil (t_devicePtr l) \<and> n * en_vocab e \<le> Tensor_NumElements l)))"

definition engine_ok :: "bool \<Rightarrow> ('f, 'd, 's) Engine \<Rightarrow> bool" where
  "engine_ok g e \<longleftrightarrow> 0 < en_vocab e \<and>
     (\<forall>ts p. fwd_ok g 1 e (en_DecodeWithGPUKV e ts p)) \<and>
     (\<forall>ts k p. fwd_ok g 1 e (en_DecodeWithPagedKV e ts k p)) \<and>
     (\<forall>ts ks ps. fwd_ok g (len ts) e (en_DecodeWithPagedKVBatched e ts ks ps)) \<and>
     (\<forall>ts ps. fwd_ok g (len ts) e (en_DecodeStep e ts ps)) \<and>
     (\<forall>ts k p. fwd_ok g 1 e (en_PrefillWithPagedKV e ts k p))"

definition good_logits :: "bool \<Rightarrow> int \<Rightarrow> ('f, 'd, 's) Engine \<Rightarrow> Tensor \<Rightarrow> bool" where
  "good_logits g n e l \<longleftrightarrow> 0 < Tensor_NumElements l \<and>
     (g \<longrightarrow> \<not> DevicePtr_IsNil (t_devicePtr l) \<and> n * en_vocab e \<le> Tensor_NumElements l)"

lemma forward_pass_cases:
  assumes "fwd_ok g n e f"
  obtains (err) m s' where "forward_pass f s = (Inl m, s')" "same_seqs s s'" "\<not> g"
  | (ok) l s' where "forward_pass f s = (Inr l, s')" "same_seqs s s'" "good_logits g n e l"
proof -
  obtain r rt' where f: "f (sc_runtime s) = (r, rt')" by fastforce
  let ?s = "s\<lparr>sc_runtime := rt'\<rparr>"
  have p: "forward_pass f s = (r, ?s)" by (simp add: forward_pass_def f)
  have k: "(rt_backend (sc_runtime s) \<noteq> None \<longrightarrow> rt_backend rt' \<noteq> None) \<and>
    (rt_gpu rt' = None \<longleftrightarrow> rt_gpu (sc_runtime s) = None) \<and> (rt_paged rt' = None \<longleftrightarrow> rt_paged (sc_runtime s) = None) \<and>
    (\<forall>err. r = Inl err \<longrightarrow> \<not> g) \<and>
    (\<forall>l. r = Inr l \<longrightarrow> 0 < Tensor_NumElements l \<and>
        (g \<longrightarrow> \<not> DevicePtr_IsNil (t_devicePtr l) \<and> n * en_vocab e \<le> Tensor_NumElements l))"
    using assms f unfolding fwd_ok_def by blast
  then have s: "same_seqs s ?s" by (simp add: same_seqs_def)
  show thesis
  proof (cases r)
    case (Inl m)
    then show thesis using p s k err by auto
  next
    case (Inr l)
    then show thesis using p s k ok [of l ?s] by (auto simp: good_logits_def)
  qed
qed

lemma getLogitsOnCPU_total:
  assumes "0 < n" and "rt_backend rt \<noteq> None"
  shows "\<exists>data. getLogitsOnCPU e rt l n = Some data"
  using assms by (auto simp: getLogitsOnCPU_def Let_def)

lemma getLogitsOnCPU_good:
  assumes "good_logits True n e l" and "0 < n" and "0 < en_vocab e" and "rt_backend rt \<noteq> None"
    and "m = n * en_vocab e \<or> m = Tensor_NumElements l"
  shows "\<exists>xs. getLogitsOnCPU e rt l m = Some (Some xs) \<and> n * en_vocab e \<le> len xs"
proof -
  have "0 < n * en_vocab e" using assms(2,3) by simp
  then have "0 < m" "n * en_vocab e \<le> m" using assms(1,5) by (auto simp: good_logits_def)
  then show ?thesis using assms(1,4) by (auto simp: getLogitsOnCPU_def good_logits_def Let_def len_def)
qed

lemma last_row_total: "0 \<le> v \<Longrightarrow> v \<le> len xs \<Longrightarrow> \<exists>row. last_row xs v = Some row"
  by (simp add: last_row_def slice_def)

section \<open>Prefill\<close>

text \<open>The first token, given the sequence as \<open>SetPrefillComplete\<close> leaves it.\<close>

lemma emit_prefill_token_ok:
  fixes n t :: int
  assumes "seq_ok gm q" and "sq_state q = StatePending"
  defines "q2 \<equiv> Sequence_AddGeneratedToken (Sequence_SetPrefillComplete q n) t"
  shows "\<exists>q3. emit_prefill_token e t q2 = Some q3 \<and> seq_ok gm q3 \<and> seq_meta q3 = seq_meta q \<and>
    work gm q3 < work gm q"
proof (cases "isStopToken e t q2")
  case True
  have "emit_prefill_token e t q2 = Some (q2\<lparr>sq_state := StateFinished, sq_closed := True\<rparr>)"
    using True assms(1,2) by (simp add: emit_prefill_token_def q2_def sequence_defs seq_ok_def)
  then show ?thesis
    using assms(1,2) by (auto simp: q2_def sequence_defs seq_ok_def seq_meta_def work_def eff_limit_def token_cap_def)
next
  case False
  let ?q3 = "q2\<lparr>sq_state := StateDecoding\<rparr>"
  have q3: "seq_ok gm ?q3" "seq_meta ?q3 = seq_meta q" "work gm ?q3 < work gm q"
    using assms(1,2) by (auto simp: q2_def sequence_defs seq_ok_def seq_meta_def work_def eff_limit_def token_cap_def)
  obtain q4 where q4: "Sequence_PushToken ?q3 (token_text e t) = Some q4" "seq_ok gm q4"
    "seq_meta q4 = seq_meta ?q3" "work gm q4 = work gm ?q3"
    using PushToken_ok [OF q3(1)] by auto
  have "\<exists>q5. Sequence_PushToken q2 (token_text e t) = Some q5 \<and> Sequence_SetState q5 StateDecoding = q4"
    using q4(1) by (auto simp: Sequence_PushToken_def Sequence_SetState_def split: if_splits)
  then have "emit_prefill_token e t q2 = Some q4" using False by (auto simp: emit_prefill_token_def)
  then show ?thesis using q4 q3 by auto
qed

lemma finish_prefill_ok:
  assumes s: "sched_ok s" "sc_sequences s i = Some q" and q: "sq_state q = StatePending"
    and e: "0 < en_vocab e" and l: "good_logits g 1 e l"
  shows "\<exists>s'. finish_prefill e i q l s = Some s' \<and> adv s s' \<and> (g \<longrightarrow> total_work s' < total_work s)"
proof -
  let ?gm = "sf_MaxTokens (sc_config s)" and ?n = "len (sq_promptTokens q)"
  let ?q1 = "Sequence_SetPrefillComplete q ?n"
  have qok: "seq_ok ?gm q" and b: "rt_backend (sc_runtime s) \<noteq> None" using s by (auto simp: sched_ok_def)
  have n: "0 < Tensor_NumElements l" using l by (simp add: good_logits_def)
  let ?d = "Sequence_SetState ?q1 StateDecoding"
  have d: "seq_ok ?gm ?d" "seq_meta ?d = seq_meta q" "work ?gm ?d = work ?gm q"
    using qok q by (auto simp: seq_ok_def sequence_defs seq_meta_def work_def eff_limit_def token_cap_def)
  obtain data where data: "getLogitsOnCPU e (sc_runtime s) l (Tensor_NumElements l) = Some data"
    using getLogitsOnCPU_total [OF n b, of e l] by blast
  show ?thesis
  proof (cases "\<exists>xs. data = Some xs \<and> en_vocab e \<le> len xs")
    case False
    have "\<not> g"
      using getLogitsOnCPU_good [OF _ _ e b, of 1 l "Tensor_NumElements l"] l data False by (cases g) auto
    moreover have "finish_prefill e i q l s = Some (put_seq i ?d s)"
      using False data by (auto simp: finish_prefill_def Let_def split: option.splits)
    ultimately show ?thesis using adv_put(1) [OF s d(1,2)] d(3) by simp
  next
    case True
    then obtain xs row where xs: "data = Some xs" "\<not> len xs < en_vocab e" "last_row xs (en_vocab e) = Some row"
      using last_row_total [of "en_vocab e"] e by fastforce
    obtain t s1 where t: "s_sample e row s = (t, s1)" by fastforce
    let ?s2 = "s1\<lparr>sc_metrics := (sc_metrics s1)\<lparr>sm_TotalTokens := sm_TotalTokens (sc_metrics s1) + ?n,
       sm_PrefillTokens := sm_PrefillTokens (sc_metrics s1) + ?n\<rparr>\<rparr>"
    obtain q3 where q3: "emit_prefill_token e t (Sequence_AddGeneratedToken ?q1 t) = Some q3"
      "seq_ok ?gm q3" "seq_meta q3 = seq_meta q" "work ?gm q3 < work ?gm q"
      using emit_prefill_token_ok [OF qok q] by blast
    have f: "finish_prefill e i q l s = Some (put_seq i q3 ?s2)"
      using xs data t q3(1) by (simp add: finish_prefill_def Let_def)
    have ss: "same_seqs s ?s2" using same_seqs_sample [OF t] by (simp add: same_seqs_def)
    note a = same_seqs_adv [OF ss s(1)]
    have i2: "sc_sequences ?s2 i = Some q" "sf_MaxTokens (sc_config ?s2) = ?gm"
      using ss s(2) by (simp_all add: same_seqs_def)
    note p = adv_put [OF adv_ok [OF conjunct1 [OF a]] i2(1), of q3, unfolded i2(2), OF q3(2,3) less_imp_le [OF q3(4)]]
    show ?thesis using f adv_trans [OF conjunct1 [OF a] p(1)] p(2) [OF q3(4)] a by metis
  qed
qed

lemma adv_dom: "adv s s' \<Longrightarrow> dom (sc_sequences s') = dom (sc_sequences s)"
proof -
  assume "adv s s'"
  then have m: "map_option seq_meta (sc_sequences s' i) = map_option seq_meta (sc_sequences s i)" for i
    by (simp add: adv_def)
  show ?thesis
  proof (intro set_eqI)
    fix i
    show "i \<in> dom (sc_sequences s') \<longleftrightarrow> i \<in> dom (sc_sequences s)"
      using m [of i] by (cases "sc_sequences s i"; cases "sc_sequences s' i") auto
  qed
qed

lemma same_seqs_finish:
  assumes "same_seqs s s1" and "sched_ok s" and "sc_sequences s i = Some q" and "sq_state q = StatePending"
    and "0 < en_vocab e" and "good_logits g 1 e l"
  shows "\<exists>s'. finish_prefill e i q l s1 = Some s' \<and> adv s s' \<and> (g \<longrightarrow> total_work s' < total_work s)"
proof -
  note a = same_seqs_adv [OF assms(1,2)]
  have "sc_sequences s1 i = Some q" using assms(1,3) by (simp add: same_seqs_def)
  from finish_prefill_ok [OF adv_ok [OF conjunct1 [OF a]] this assms(4-6)]
  show ?thesis using a adv_trans by metis
qed

lemma runBatchedPrefill_ok:
  assumes e: "engine_ok g e" and s: "sched_ok s" "sc_sequences s i = Some q" "sq_state q = StatePending"
    and p: "sq_promptTokens q \<noteq> []"
  shows "\<exists>err s'. runBatchedPrefill e i s = Some (err, s') \<and> adv s s' \<and> (g \<longrightarrow> err = None) \<and>
    (g \<longrightarrow> total_work s' < total_work s)"
proof -
  have v: "0 < en_vocab e" and f: "fwd_ok g 1 e (en_PrefillWithPagedKV e (sq_promptTokens q) (sq_kvSeqID q) 0)"
    using e by (auto simp: engine_ok_def)
  from f show ?thesis
  proof (cases rule: forward_pass_cases [where s = s])
    case (err m s')
    then show ?thesis using same_seqs_adv [OF err(2) s(1)] s(2) p by (simp add: runBatchedPrefill_def)
  next
    case (ok l s1)
    then show ?thesis using same_seqs_finish [OF ok(2) s v ok(3)] s(2) p by (auto simp: runBatchedPrefill_def)
  qed
qed

lemma sequential_prefill_ok:
  assumes "engine_ok g e" and "good_logits g 1 e l0 \<or> toks \<noteq> []"
  shows "\<exists>r s'. sequential_prefill e toks k l0 s = (r, s') \<and> same_seqs s s' \<and>
    (case r of Inl m \<Rightarrow> \<not> g | Inr l \<Rightarrow> good_logits g 1 e l)"
  using assms(2)
proof (induction toks arbitrary: k l0 s)
  case Nil
  then show ?case by (simp add: same_seqs_def)
next
  case (Cons tok toks)
  have "fwd_ok g 1 e (en_DecodeWithGPUKV e [tok] k)" using assms(1) by (simp add: engine_ok_def)
  then show ?case
  proof (cases rule: forward_pass_cases [where s = s])
    case (err m s')
    then show ?thesis by simp
  next
    case (ok l s1)
    from Cons.IH [of l "k + 1" s1] obtain r s' where
      "sequential_prefill e toks (k + 1) l s1 = (r, s')" "same_seqs s1 s'"
      "case r of Inl m \<Rightarrow> \<not> g | Inr l \<Rightarrow> good_logits g 1 e l" using ok(3) by auto
    then show ?thesis using ok same_seqs_trans by auto
  qed
qed

lemma runGPUPrefill_ok:
  assumes e: "engine_ok g e" and s: "sched_ok s" "sc_sequences s i = Some q" "sq_state q = StatePending"
    and p: "sq_promptTokens q \<noteq> []"
  shows "\<exists>err s'. runGPUPrefill e i s = Some (err, s') \<and> adv s s' \<and> (g \<longrightarrow> err = None) \<and>
    (g \<longrightarrow> total_work s' < total_work s)"
proof -
  have v: "0 < en_vocab e" and f: "fwd_ok g 1 e (en_DecodeWithGPUKV e (sq_promptTokens q) 0)"
    using e by (auto simp: engine_ok_def)
  let ?s0 = "reset_gpu_cache s"
  let ?run = "if en_sequentialPrefill e then sequential_prefill e (sq_promptTokens q) 0 zero_tensor ?s0
     else case forward_pass (en_DecodeWithGPUKV e (sq_promptTokens q) 0) ?s0 of
            (Inl err, t) \<Rightarrow> (Inl (''GPU prefill failed: '' @ err), t) | (Inr l, t) \<Rightarrow> (Inr l, t)"
  have "\<exists>r s1. ?run = (r, s1) \<and> same_seqs ?s0 s1 \<and> (case r of Inl m \<Rightarrow> \<not> g | Inr l \<Rightarrow> good_logits g 1 e l)"
  proof (cases "en_sequentialPrefill e")
    case True
    then show ?thesis using sequential_prefill_ok [OF e, of zero_tensor "sq_promptTokens q" 0 ?s0] p by simp
  next
    case False
    from f show ?thesis by (cases rule: forward_pass_cases [where s = ?s0]) (simp_all add: False)
  qed
  then obtain r s1 where r: "?run = (r, s1)" "same_seqs ?s0 s1" "case r of Inl m \<Rightarrow> \<not> g | Inr l \<Rightarrow> good_logits g 1 e l"
    by blast
  have ss: "same_seqs s s1" using same_seqs_trans [OF same_seqs_reset r(2)] .
  have run: "runGPUPrefill e i s = (case r of Inl err \<Rightarrow> Some (Some err, s1)
      | Inr logits \<Rightarrow> do { s2 \<leftarrow> finish_prefill e i q logits s1; Some (None, s2) })"
    using s(2) p by (simp add: runGPUPrefill_def r(1) Let_def del: if_split)
  show ?thesis
  proof (cases r)
    case (Inl m)
    then show ?thesis using run r(3) same_seqs_adv [OF ss s(1)] by simp
  next
    case (Inr l)
    then show ?thesis using run r(3) same_seqs_finish [OF ss s v, of g l] by auto
  qed
qed

definition wants_prefill :: "bool \<Rightarrow> bool \<Rightarrow> Sequence \<Rightarrow> bool" where
  "wants_prefill useGPU usePaged q \<longleftrightarrow> sq_state q = StatePending \<and> len (sq_promptTokens q) > 0 \<and>
     \<not> Sequence_IsPrefillComplete q \<and> (useGPU \<or> usePaged)"

lemma prefill_loop_ok:
  assumes e: "engine_ok g e" and "sched_ok s" and "set is \<subseteq> dom (sc_sequences s)"
  shows "\<exists>err s'. prefill_loop e useGPU usePaged is s = Some (err, s') \<and> adv s s' \<and> (g \<longrightarrow> err = None) \<and>
    (if \<exists>i q. i \<in> set is \<and> sc_sequences s i = Some q \<and> wants_prefill useGPU usePaged q
     then g \<longrightarrow> total_work s' < total_work s else err = None \<and> s' = s)"
  using assms(2,3)
proof (induction "is" arbitrary: s)
  case Nil
  then show ?case by (simp add: adv_refl)
next
  case (Cons i "is")
  then obtain q where q: "sc_sequences s i = Some q" by auto
  show ?case
  proof (cases "wants_prefill useGPU usePaged q")
    case False
    then have l: "prefill_loop e useGPU usePaged (i # is) s = prefill_loop e useGPU usePaged is s"
      using q by (auto simp: wants_prefill_def)
    have ex: "(\<exists>j q. j \<in> set (i # is) \<and> sc_sequences s j = Some q \<and> wants_prefill useGPU usePaged q) \<longleftrightarrow>
      (\<exists>j q. j \<in> set is \<and> sc_sequences s j = Some q \<and> wants_prefill useGPU usePaged q)"
      using False q by auto
    show ?thesis unfolding l ex using Cons.IH [of s] Cons.prems by simp
  next
    case True
    let ?r = "if useGPU then runGPUPrefill e i s else runBatchedPrefill e i s"
    have pq: "sq_state q = StatePending" "sq_promptTokens q \<noteq> []" using True by (auto simp: wants_prefill_def)
    have "\<exists>err s1. ?r = Some (err, s1) \<and> adv s s1 \<and> (g \<longrightarrow> err = None) \<and> (g \<longrightarrow> total_work s1 < total_work s)"
      using runGPUPrefill_ok [OF e Cons.prems(1) q pq] runBatchedPrefill_ok [OF e Cons.prems(1) q pq]
      by (cases useGPU) simp_all
    then obtain err s1 where r: "?r = Some (err, s1)" "adv s s1" "g \<longrightarrow> err = None" "g \<longrightarrow> total_work s1 < total_work s"
      by blast
    have l: "prefill_loop e useGPU usePaged (i # is) s = (case err of Some m \<Rightarrow> Some (Some m, s1)
        | None \<Rightarrow> prefill_loop e useGPU usePaged is s1)"
      using True q r(1) adv_ok [OF r(2)] by (auto simp: wants_prefill_def sched_ok_def split: option.splits)
    have ex: "\<exists>j q. j \<in> set (i # is) \<and> sc_sequences s j = Some q \<and> wants_prefill useGPU usePaged q"
      using True q by auto
    show ?thesis
    proof (cases err)
      case (Some m)
      then show ?thesis using l r ex by auto
    next
      case None
      obtain err' s' where i: "prefill_loop e useGPU usePaged is s1 = Some (err', s')" "adv s1 s'" "g \<longrightarrow> err' = None"
        using Cons.IH [OF adv_ok [OF r(2)]] Cons.prems(2) adv_dom [OF r(2)] by auto
      have "total_work s' \<le> total_work s1" using i(2) by (simp add: adv_def)
      then show ?thesis using l None i r ex adv_trans [OF r(2) i(2)] by auto
    qed
  qed
qed

section \<open>Decoding\<close>

definition decodable :: "('f, 'd, 's) Scheduler \<Rightarrow> SequenceID list \<Rightarrow> bool" where
  "decodable s is \<longleftrightarrow> distinct is \<and> (\<forall>i \<in> set is. \<exists>q. sc_sequences s i = Some q \<and> needs_decode q)"

lemma decodable_put:
  "decodable s (i # is) \<Longrightarrow> same_seqs s s1 \<Longrightarrow> decodable (put_seq i q s1) is"
  by (auto simp: decodable_def put_seq_def same_seqs_def)

lemma adv_replace:
  assumes s: "sched_ok s" "same_seqs s s1" "sc_sequences s i = Some q"
    and q: "seq_ok (sf_MaxTokens (sc_config s)) q'" "seq_meta q' = seq_meta q"
    and w: "work (sf_MaxTokens (sc_config s)) q' \<le> work (sf_MaxTokens (sc_config s)) q"
  shows "adv s (put_seq i q' s1) \<and>
    (work (sf_MaxTokens (sc_config s)) q' < work (sf_MaxTokens (sc_config s)) q \<longrightarrow>
      total_work (put_seq i q' s1) < total_work s)"
proof -
  note a = same_seqs_adv [OF s(2,1)]
  have c: "sc_config s1 = sc_config s" and i: "sc_sequences s1 i = Some q"
    using s by (auto simp: same_seqs_def)
  note p = adv_put [OF adv_ok [OF conjunct1 [OF a]] i, of q', unfolded c, OF q w]
  show ?thesis using adv_trans [OF conjunct1 [OF a] p(1)] p(2) a by simp
qed

lemma put_emitted:
  assumes s: "sched_ok s" "same_seqs s s1" "sc_sequences s i = Some q" "needs_decode q"
  shows "\<exists>q'. emit_token e (sf_MaxTokens (sc_config s)) t (enter_decode q) = Some q' \<and>
    adv s (put_seq i q' s1) \<and> (limited s \<longrightarrow> total_work (put_seq i q' s1) < total_work s)"
proof -
  let ?gm = "sf_MaxTokens (sc_config s)" and ?q = "enter_decode q"
  have "seq_ok ?gm q" using s by (simp add: sched_ok_def)
  then have q: "seq_ok ?gm ?q" "seq_meta ?q = seq_meta q" "sq_state ?q = StateDecoding" "work ?gm ?q = work ?gm q"
    using enter_decode_ok s(4) by auto
  obtain q' where q': "emit_token e ?gm t ?q = Some q'" "seq_ok ?gm q'" "seq_meta q' = seq_meta ?q"
    "work ?gm q' \<le> work ?gm ?q" "0 < eff_limit ?gm ?q \<longrightarrow> work ?gm q' < work ?gm ?q"
    using emit_token_ok [OF q(1,3)] by blast
  have "limited s \<Longrightarrow> 0 < eff_limit ?gm ?q"
    using s(3) eff_limit_meta [OF q(2), of ?gm] by (simp add: limited_def)
  then show ?thesis using adv_replace [OF s(1-3) q'(2)] q' q by auto
qed

lemma put_question:
  assumes s: "sched_ok s" "sc_sequences s i = Some q" "needs_decode q"
  shows "\<exists>q'. Sequence_PushToken (enter_decode q) t = Some q' \<and> adv s (put_seq i q' s)"
proof -
  let ?gm = "sf_MaxTokens (sc_config s)" and ?q = "enter_decode q"
  have "seq_ok ?gm q" using s by (simp add: sched_ok_def)
  then have q: "seq_ok ?gm ?q" "seq_meta ?q = seq_meta q" "sq_state ?q = StateDecoding" "work ?gm ?q = work ?gm q"
    using enter_decode_ok s(3) by auto
  have ss: "same_seqs s s" by (simp add: same_seqs_def)
  obtain q' where "Sequence_PushToken ?q t = Some q'" "seq_ok ?gm q'" "seq_meta q' = seq_meta ?q" "work ?gm q' = work ?gm ?q"
    using PushToken_ok [OF q(1)] q(3) by auto
  then show ?thesis using adv_replace [OF s(1) ss s(2), of q'] q by auto
qed

lemma sampleToken_ok:
  assumes "rt_backend (sc_runtime s) \<noteq> None" and "0 < Tensor_NumElements l" and "0 < v"
  shows "\<exists>t s'. sampleToken e l v s = Some (t, s') \<and> same_seqs s s'"
proof -
  obtain d where d: "rt_backend (sc_runtime s) = Some d" using assms(1) by blast
  obtain data where data: "getLogitsOnCPU e (sc_runtime s) l (Tensor_NumElements l) = Some data"
    using getLogitsOnCPU_total [OF assms(2,1), of e l] by blast
  have ss: "same_seqs s s" by (simp add: same_seqs_def)
  show ?thesis
  proof (cases "gpu_argmax e d (sc_config s) l v")
    case (Some t)
    then show ?thesis using d ss by (simp add: sampleToken_def)
  next
    case None
    note g = None
    show ?thesis
    proof (cases "\<exists>xs. data = Some xs \<and> v \<le> len xs")
      case False
      then have "sampleToken e l v s = Some (0, s)"
        using d g data by (auto simp: sampleToken_def split: option.splits)
      then show ?thesis using ss by simp
    next
      case True
      then obtain xs row where xs: "data = Some xs" "\<not> len xs < v" "last_row xs v = Some row"
        using last_row_total [of v] assms(3) by fastforce
      obtain t s' where t: "s_sample e row s = (t, s')" by fastforce
      then have "sampleToken e l v s = Some (t, s')" using d g data xs by (simp add: sampleToken_def)
      then show ?thesis using same_seqs_sample [OF t] by simp
    qed
  qed
qed

lemma greedy_one_ok:
  assumes s: "sched_ok s" "decodable s [i]" and e: "0 < en_vocab e" and l: "0 < Tensor_NumElements l"
  shows "\<exists>s'. greedy_one e i l s = Some s' \<and> adv s s' \<and> (limited s \<longrightarrow> total_work s' < total_work s)"
proof -
  obtain q where q: "sc_sequences s i = Some q" "needs_decode q" using s(2) by (auto simp: decodable_def)
  have b: "rt_backend (sc_runtime s) \<noteq> None" using s(1) by (simp add: sched_ok_def)
  obtain t s1 where t: "sampleToken e l (en_vocab e) s = Some (t, s1)" "same_seqs s s1"
    using sampleToken_ok [OF b l e, of e] by blast
  show ?thesis using put_emitted [OF s(1) t(2) q, of e t] q t(1) by (auto simp: greedy_one_def)
qed

lemma sample_row_same: "sample_row e q xs s = (t, s') \<Longrightarrow> same_seqs s s'"
  using same_seqs_sample by (fastforce simp: sample_row_def Let_def same_seqs_def split: if_splits)

text \<open>One round of \<open>sample_each\<close>.\<close>

lemma sample_each_step:
  assumes s: "sched_ok s" "decodable s (i # is)" and v: "0 < en_vocab e" "0 \<le> k"
  shows "\<exists>q' s1. same_seqs s s1 \<and> sample_each e data k (i # is) s = sample_each e data (k + 1) is (put_seq i q' s1) \<and>
    adv s (put_seq i q' s1) \<and>
    (limited s \<and> (\<exists>xs. data = Some xs \<and> (k + 1) * en_vocab e \<le> len xs) \<longrightarrow>
      total_work (put_seq i q' s1) < total_work s)"
proof -
  obtain q where q: "sc_sequences s i = Some q" "needs_decode q" using s(2) by (auto simp: decodable_def)
  have b: "k * en_vocab e + en_vocab e = (k + 1) * en_vocab e" by (simp add: distrib_right)
  show ?thesis
  proof (cases "\<exists>xs. data = Some xs \<and> (k + 1) * en_vocab e \<le> len xs")
    case False
    obtain q' where q': "Sequence_PushToken (enter_decode q) ''?'' = Some q'" "adv s (put_seq i q' s)"
      using put_question [OF s(1) q] by blast
    then have "sample_each e data k (i # is) s = sample_each e data (k + 1) is (put_seq i q' s)"
      using q False b by (auto simp: Let_def split: option.splits)
    moreover have "same_seqs s s" by (simp add: same_seqs_def)
    ultimately show ?thesis using q'(2) False by blast
  next
    case True
    then obtain xs where xs: "data = Some xs" "(k + 1) * en_vocab e \<le> len xs" by blast
    have "0 \<le> k * en_vocab e" using v by simp
    then obtain row where row: "slice xs (k * en_vocab e) ((k + 1) * en_vocab e) = Some row"
      using xs(2) v by (simp add: slice_def distrib_right)
    obtain t s1 where t: "sample_row e (enter_decode q) row s = (t, s1)" by fastforce
    obtain q' where q': "emit_token e (sf_MaxTokens (sc_config s)) t (enter_decode q) = Some q'"
      "adv s (put_seq i q' s1)" "limited s \<longrightarrow> total_work (put_seq i q' s1) < total_work s"
      using put_emitted [OF s(1) sample_row_same [OF t] q, of e t] by blast
    have "sample_each e data k (i # is) s = sample_each e data (k + 1) is (put_seq i q' s1)"
      using q xs row t q'(1) b by (simp add: Let_def)
    then show ?thesis using q'(2,3) sample_row_same [OF t] by blast
  qed
qed

lemma sample_each_ok:
  assumes "sched_ok s" and "decodable s is" and v: "0 < en_vocab e" and "0 \<le> k"
  shows "\<exists>s'. sample_each e data k is s = Some s' \<and> adv s s' \<and>
    (limited s \<and> is \<noteq> [] \<and> (\<exists>xs. data = Some xs \<and> (k + len is) * en_vocab e \<le> len xs) \<longrightarrow>
      total_work s' < total_work s)"
  using assms(1,2,4)
proof (induction "is" arbitrary: s k)
  case Nil
  then show ?case by (simp add: adv_refl)
next
  case (Cons i "is")
  obtain q' s1 where 1: "same_seqs s s1" "sample_each e data k (i # is) s = sample_each e data (k + 1) is (put_seq i q' s1)"
    "adv s (put_seq i q' s1)"
    "limited s \<and> (\<exists>xs. data = Some xs \<and> (k + 1) * en_vocab e \<le> len xs) \<longrightarrow> total_work (put_seq i q' s1) < total_work s"
    using sample_each_step [OF Cons.prems(1,2) v Cons.prems(3), of data] by blast
  have d: "decodable (put_seq i q' s1) is" using decodable_put [OF Cons.prems(2) 1(1)] .
  obtain s' where 2: "sample_each e data (k + 1) is (put_seq i q' s1) = Some s'" "adv (put_seq i q' s1) s'"
    using Cons.IH [OF adv_ok [OF 1(3)] d, of "k + 1"] Cons.prems(3) by auto
  have w: "total_work s' \<le> total_work (put_seq i q' s1)" using 2(2) by (simp add: adv_def)
  have m: "(k + 1) * en_vocab e \<le> (k + len (i # is)) * en_vocab e" using v by simp
  show ?case
    unfolding 1(2) using 2(1) adv_trans [OF 1(3) 2(2)] 1(4) w order_trans [OF m] by fastforce
qed

text \<open>One round of \<open>gpu_decode_each\<close>.\<close>

lemma gpu_decode_round:
  assumes s: "sched_ok s" "decodable s (i # is)" and e: "engine_ok g e"
  shows "(\<exists>m s'. gpu_decode_each e ((i, tok, pos) # rest) s = Some (Some m, s') \<and> adv s s' \<and> \<not> g) \<or>
    (\<exists>s'. gpu_decode_each e ((i, tok, pos) # rest) s = gpu_decode_each e rest s' \<and> adv s s' \<and>
      decodable s' is \<and> (g \<and> limited s \<longrightarrow> total_work s' < total_work s))"
proof -
  obtain q where q: "sc_sequences s i = Some q" "needs_decode q" using s(2) by (auto simp: decodable_def)
  have v: "0 < en_vocab e" and "fwd_ok g 1 e (en_DecodeWithGPUKV e [tok] pos)" using e by (auto simp: engine_ok_def)
  from this(2) show ?thesis
  proof (cases rule: forward_pass_cases [where s = s])
    case (err m s')
    then show ?thesis using same_seqs_adv [OF err(2) s(1)] by simp
  next
    case (ok l s1)
    have b: "rt_backend (sc_runtime s1) \<noteq> None" using ok(2) s(1) by (auto simp: same_seqs_def sched_ok_def)
    obtain data where data: "getLogitsOnCPU e (sc_runtime s1) l (en_vocab e) = Some data"
      using getLogitsOnCPU_total [OF v b, of e l] by blast
    show ?thesis
    proof (cases data)
      case None
      then have "\<not> g" using getLogitsOnCPU_good [OF _ _ v b, of 1 l "en_vocab e"] ok(3) data by (cases g) auto
      moreover have "decodable s1 is" using ok(2) s(2) by (simp add: decodable_def same_seqs_def)
      ultimately show ?thesis using ok data None same_seqs_adv [OF ok(2) s(1)] by auto
    next
      case (Some xs)
      obtain t s2 where t: "s_sample e xs s1 = (t, s2)" by fastforce
      have ss: "same_seqs s s2" using same_seqs_trans [OF ok(2) same_seqs_sample [OF t]] .
      obtain q' where q': "emit_token e (sf_MaxTokens (sc_config s)) t (enter_decode q) = Some q'"
        "adv s (put_seq i q' s2)" "limited s \<longrightarrow> total_work (put_seq i q' s2) < total_work s"
        using put_emitted [OF s(1) ss q, of e t] by blast
      have c: "sc_config s1 = sc_config s" "sc_sequences s1 i = Some q" using ok(2) q(1) by (simp_all add: same_seqs_def)
      have "gpu_decode_each e ((i, tok, pos) # rest) s = gpu_decode_each e rest (put_seq i q' s2)"
        using ok(1) data Some t q'(1) c by simp
      then show ?thesis using q'(2,3) decodable_put [OF s(2) ss] by blast
    qed
  qed
qed

lemma gpu_decode_each_ok:
  assumes e: "engine_ok g e" and "sched_ok s" and "decodable s (map fst xs)"
  shows "\<exists>err s'. gpu_decode_each e xs s = Some (err, s') \<and> adv s s' \<and> (g \<longrightarrow> err = None) \<and>
    (g \<and> limited s \<and> xs \<noteq> [] \<longrightarrow> total_work s' < total_work s)"
  using assms(2,3)
proof (induction xs arbitrary: s)
  case Nil
  then show ?case by (simp add: adv_refl)
next
  case (Cons x xs)
  obtain i tok pos where x: "x = (i, tok, pos)" using prod_cases3 by blast
  have d: "decodable s (i # map fst xs)" using Cons.prems(2) x by simp
  from gpu_decode_round [OF Cons.prems(1) d e, of tok pos xs]
  show ?case
  proof (elim disjE exE conjE)
    fix m s' assume "gpu_decode_each e ((i, tok, pos) # xs) s = Some (Some m, s')" "adv s s'" "\<not> g"
    then show ?thesis using x by blast
  next
    fix s1 assume 1: "gpu_decode_each e ((i, tok, pos) # xs) s = gpu_decode_each e xs s1" "adv s s1"
      "decodable s1 (map fst xs)" "g \<and> limited s \<longrightarrow> total_work s1 < total_work s"
    obtain err s' where 2: "gpu_decode_each e xs s1 = Some (err, s')" "adv s1 s'" "g \<longrightarrow> err = None"
      using Cons.IH [OF adv_ok [OF 1(2)] 1(3)] by blast
    have "total_work s' \<le> total_work s1" using 2(2) by (simp add: adv_def)
    then show ?thesis using x 1 2 adv_trans [OF 1(2) 2(2)] by fastforce
  qed
qed

lemma decode_inputs_total:
  assumes "sched_ok s" and "set is \<subseteq> dom (sc_sequences s)"
  shows "\<exists>ts ps ks. decode_inputs (sc_sequences s) is = Some (ts, ps, ks) \<and> length ts = length is \<and> length ps = length is"
  using assms(2)
proof (induction "is")
  case Nil
  then show ?case by simp
next
  case (Cons i "is")
  then obtain q where q: "sc_sequences s i = Some q" by auto
  then have "seq_ok (sf_MaxTokens (sc_config s)) q" using assms(1) by (simp add: sched_ok_def)
  then obtain r where r: "Sequence_NextInputToken q = Some r" using NextInputToken_total by blast
  obtain t p h where "r = (t, p, h)" using prod_cases3 by blast
  then show ?case using q r Cons by (cases h) auto
qed

lemma decode_forward_ok:
  assumes "engine_ok g e" and "length ts = n" and "n \<noteq> 0" and "useGPU \<longrightarrow> n = 1"
  shows "fwd_ok g (int n) e (decode_forward e useGPU usePaged ts ps ks)"
proof -
  have "len ts = int n" using assms(2) by (simp add: len_def)
  moreover have "fwd_ok g (len ts) e (en_DecodeStep e ts ps)" "fwd_ok g (len ts) e (en_DecodeWithPagedKVBatched e ts ks ps)"
    "fwd_ok g 1 e (en_DecodeWithGPUKV e ts (hd ps))" "fwd_ok g 1 e (en_DecodeWithPagedKV e ts (hd ks) (hd ps))"
    using assms(1) unfolding engine_ok_def by blast+
  ultimately show ?thesis using assms(3,4) by (auto simp: decode_forward_def)
qed

lemma sample_decoded_ok:
  assumes e: "0 < en_vocab e" and s: "sched_ok s" "decodable s is" "is \<noteq> []" and l: "good_logits g (len is) e l"
  shows "\<exists>s'. sample_decoded e is l s = Some s' \<and> adv s s' \<and>
    (g \<and> limited s \<longrightarrow> total_work s' < total_work s)"
proof -
  obtain i js where js: "is = i # js" using s(3) by (cases "is") auto
  obtain q where q: "sc_sequences s i = Some q" using s(2) js by (auto simp: decodable_def)
  have n: "0 < Tensor_NumElements l" using l by (simp add: good_logits_def)
  have b: "rt_backend (sc_runtime s) \<noteq> None" using s(1) by (simp add: sched_ok_def)
  show ?thesis
  proof (cases "js = [] \<and> greedy_path (sc_config s) q")
    case True
    then have "sample_decoded e is l s = greedy_one e i l s" using js q by (simp add: sample_decoded_def)
    then show ?thesis using greedy_one_ok [OF s(1) _ e n, of i] s(2) js True by auto
  next
    case False
    have m: "0 < len is * en_vocab e" using js e by (simp add: zero_less_mult_iff add_nonneg_pos)
    obtain data where data: "getLogitsOnCPU e (sc_runtime s) l (len is * en_vocab e) = Some data"
      using getLogitsOnCPU_total [OF m b, of e l] by blast
    have "g \<Longrightarrow> \<exists>xs. data = Some xs \<and> (0 + len is) * en_vocab e \<le> len xs"
      using getLogitsOnCPU_good [OF _ _ e b, of "len is" l "len is * en_vocab e"] l data s(3) by auto
    moreover have "sample_decoded e is l s = sample_each e data 0 is s"
      using js q False data by (auto simp: sample_decoded_def)
    ultimately show ?thesis using sample_each_ok [OF s(1,2) e, of 0 data] s(3) by auto
  qed
qed

lemma decode_batch_ok:
  assumes e: "engine_ok g e" and s: "sched_ok s" "decodable s is" "is \<noteq> []"
  shows "\<exists>err s'. decode_batch e useGPU usePaged is s = Some (err, s') \<and> adv s s' \<and> (g \<longrightarrow> err = None) \<and>
    (g \<and> limited s \<longrightarrow> total_work s' < total_work s)"
proof -
  have v: "0 < en_vocab e" using e by (simp add: engine_ok_def)
  have "set is \<subseteq> dom (sc_sequences s)" using s(2) by (auto simp: decodable_def)
  then obtain ts ps ks where i: "decode_inputs (sc_sequences s) is = Some (ts, ps, ks)"
    "length ts = length is" "length ps = length is"
    using decode_inputs_total [OF s(1)] by blast
  have count: "adv t (count_decoded n t)" "total_work (count_decoded n t) = total_work t"
    if "sched_ok t" for n and t :: "('a, 'b, 'c) Scheduler"
    using same_seqs_adv [OF same_seqs_count that] by auto
  show ?thesis
  proof (cases "useGPU \<and> len is > 1")
    case True
    let ?xs = "zip is (zip ts ps)"
    have "map fst ?xs = is" and ne: "?xs \<noteq> []" using i s(3) by (auto simp: zip_eq_Nil_iff)
    then obtain err s' where g: "gpu_decode_each e ?xs s = Some (err, s')" "adv s s'" "g \<longrightarrow> err = None"
      "g \<and> limited s \<longrightarrow> total_work s' < total_work s"
      using gpu_decode_each_ok [OF e s(1), of ?xs] s(2) by auto
    note c = count [OF adv_ok [OF g(2)], of "len is"]
    have "decode_batch e useGPU usePaged is s = (case err of Some m \<Rightarrow> Some (Some m, s')
        | None \<Rightarrow> Some (None, count_decoded (len is) s'))"
      using True i(1) g(1) by (simp add: decode_batch_def)
    then show ?thesis using g adv_trans [OF g(2) c(1)] c(2) by (cases err) auto
  next
    case False
    have "useGPU \<longrightarrow> length is = 1" using False s(3) by (cases "is") (auto simp: len_def)
    then have f: "fwd_ok g (len is) e (decode_forward e useGPU usePaged ts ps ks)"
      using decode_forward_ok [OF e i(2)] s(3) by (simp add: len_def)
    then show ?thesis
    proof (cases rule: forward_pass_cases [where s = s])
      case (err m s')
      then show ?thesis using False i(1) same_seqs_adv [OF err(2) s(1)] by (auto simp: decode_batch_def)
    next
      case (ok l s1)
      note a = same_seqs_adv [OF ok(2) s(1)]
      have d: "decodable s1 is" using ok(2) s(2) by (simp add: decodable_def same_seqs_def)
      obtain s2 where s2: "sample_decoded e is l s1 = Some s2" "adv s1 s2" "g \<and> limited s1 \<longrightarrow> total_work s2 < total_work s1"
        using sample_decoded_ok [OF v adv_ok [OF conjunct1 [OF a]] d s(3) ok(3)] by blast
      note c = count [OF adv_ok [OF s2(2)], of "len is"]
      have "decode_batch e useGPU usePaged is s = Some (None, count_decoded (len is) s2)"
        using False i(1) ok(1) s2(1) by (auto simp: decode_batch_def)
      then show ?thesis
        using adv_trans [OF adv_trans [OF conjunct1 [OF a] s2(2)] c(1)] c(2) s2(3) a adv_limited [OF conjunct1 [OF a]]
        by auto
    qed
  qed
qed

section \<open>The step\<close>

lemma collect_decode_filter:
  "set is \<subseteq> dom m \<Longrightarrow> collect_decode m is = Some (filter (\<lambda>i. needs_decode (the (m i))) is)"
  by (induction "is") auto

lemma ready_needs:
  assumes "seq_ok gm q" and "is_ready q" and "\<not> wants_prefill useGPU usePaged q" and "useGPU \<or> usePaged"
  shows "needs_decode q"
  using assms by (auto simp: seq_ok_def is_ready_def wants_prefill_def needs_decode_def Sequence_IsPrefillComplete_def)

definition has_cache :: "('f, 'd, 's) Scheduler \<Rightarrow> bool" where
  "has_cache s \<longleftrightarrow> rt_gpu (sc_runtime s) \<noteq> None \<or> rt_paged (sc_runtime s) \<noteq> None"

lemma runDecodeStep_ok:
  assumes e: "engine_ok g e" and s: "sched_ok s" and b: "distinct batch" "batch \<noteq> []"
    and r: "\<forall>i \<in> set batch. \<exists>q. sc_sequences s i = Some q \<and> is_ready q"
  shows "\<exists>err s'. runDecodeStep e batch s = Some (err, s') \<and> adv s s' \<and> (g \<longrightarrow> err = None) \<and>
    (g \<and> limited s \<and> has_cache s \<longrightarrow> total_work s' < total_work s)"
proof -
  let ?gpu = "rt_gpu (sc_runtime s) \<noteq> None" and ?pg = "rt_paged (sc_runtime s) \<noteq> None"
  let ?wants = "\<exists>i q. i \<in> set batch \<and> sc_sequences s i = Some q \<and> wants_prefill ?gpu ?pg q"
  have dom: "set batch \<subseteq> dom (sc_sequences s)" using r by auto
  obtain err s1 where p: "prefill_loop e ?gpu ?pg batch s = Some (err, s1)" "adv s s1" "g \<longrightarrow> err = None"
    "if ?wants then g \<longrightarrow> total_work s1 < total_work s else err = None \<and> s1 = s"
    using prefill_loop_ok [OF e s dom, of ?gpu ?pg] by blast
  let ?ds = "filter (\<lambda>i. needs_decode (the (sc_sequences s1 i))) batch"
  have dom1: "set batch \<subseteq> dom (sc_sequences s1)" using dom adv_dom [OF p(2)] by simp
  have cd: "collect_decode (sc_sequences s1) batch = Some ?ds" by (rule collect_decode_filter [OF dom1])
  have d: "decodable s1 ?ds" using b(1) dom1 by (auto simp: decodable_def)
  have run: "runDecodeStep e batch s = (case err of Some m \<Rightarrow> Some (Some m, s1)
      | None \<Rightarrow> if ?ds = [] then Some (None, s1) else decode_batch e ?gpu ?pg ?ds s1)"
    using p(1) cd b(2) by (cases err) (simp_all add: runDecodeStep_def)
  have ne: "?ds \<noteq> []" if "\<not> ?wants" "has_cache s"
  proof -
    obtain i where i: "i \<in> set batch" using b(2) by (cases batch) auto
    then obtain q where q: "sc_sequences s i = Some q" "is_ready q" using r by blast
    have "seq_ok (sf_MaxTokens (sc_config s)) q" using s q(1) by (simp add: sched_ok_def)
    moreover have "\<not> wants_prefill ?gpu ?pg q" "?gpu \<or> ?pg" using that i q(1) by (auto simp: has_cache_def)
    ultimately have "needs_decode q" by (rule ready_needs [OF _ q(2)])
    moreover have "s1 = s" using p(4) [unfolded if_not_P [OF that(1)]] by blast
    ultimately show ?thesis using i q(1) by (auto simp: filter_empty_conv intro!: bexI [of _ i])
  qed
  have w: "total_work s1 \<le> total_work s" using p(2) by (simp add: adv_def)
  show ?thesis
  proof (cases "err = None \<and> ?ds \<noteq> []")
    case False
    then have "runDecodeStep e batch s = Some (err, s1)" using run by (cases err) simp_all
    then show ?thesis using p False ne by (cases ?wants) auto
  next
    case True
    obtain err' s2 where t: "decode_batch e ?gpu ?pg ?ds s1 = Some (err', s2)" "adv s1 s2" "g \<longrightarrow> err' = None"
      "g \<and> limited s1 \<longrightarrow> total_work s2 < total_work s1"
      using decode_batch_ok [OF e adv_ok [OF p(2)] d] True by blast
    then show ?thesis
      using run True adv_trans [OF p(2) t(2)] adv_limited [OF p(2)] w by auto
  qed
qed

text \<open>The order in which \<open>range\<close> visits a map: any enumeration of its keys.\<close>

definition visits :: "((SequenceID \<rightharpoonup> Sequence) \<Rightarrow> SequenceID list) \<Rightarrow> bool" where
  "visits visit \<longleftrightarrow> (\<forall>m. finite (dom m) \<longrightarrow> distinct (visit m) \<and> set (visit m) = dom m)"

lemma formBatches_ok:
  assumes "0 \<le> sf_MaxBatchSize c"
  shows "\<exists>batch. formBatches c ready = Some batch \<and> set batch \<subseteq> set ready \<and> (distinct ready \<longrightarrow> distinct batch) \<and>
    (batch = [] \<longleftrightarrow> ready = [] \<or> sf_MaxBatchSize c = 0)"
  using assms
  by (auto simp: formBatches_def slice_def len_def dest: in_set_takeD intro: distinct_take)

lemma drop_finished_ok:
  assumes "sched_ok s"
  shows "sched_ok (s\<lparr>sc_sequences := drop_finished (sc_sequences s)\<rparr>)"
proof -
  have "dom (drop_finished (sc_sequences s)) \<subseteq> dom (sc_sequences s)"
    by (auto simp: drop_finished_def split: option.splits if_splits)
  then have "finite (dom (drop_finished (sc_sequences s)))" using assms by (auto simp: sched_ok_def intro: finite_subset)
  then show ?thesis using assms by (auto simp: sched_ok_def drop_finished_def split: option.splits if_splits)
qed

lemma step_ok:
  assumes e: "engine_ok g e" and s: "sched_ok s" and b: "0 \<le> sf_MaxBatchSize (sc_config s)"
    and v: "distinct visit" "set visit = dom (sc_sequences s)"
  shows "\<exists>err s'. Scheduler_step e visit s = Some (err, s') \<and> sched_ok s' \<and> sc_config s' = sc_config s \<and>
    (has_cache s' = has_cache s) \<and> (limited s \<longrightarrow> limited s') \<and> (g \<longrightarrow> err = None) \<and>
    (if collectReady visit s = [] \<or> sf_MaxBatchSize (sc_config s) = 0
     then sc_sequences s' = drop_finished (sc_sequences s)
     else g \<and> limited s \<and> has_cache s \<longrightarrow> total_work s' < total_work s)"
proof -
  let ?s1 = "s\<lparr>sc_metrics := (sc_metrics s)\<lparr>sm_ActiveSequences := int (card (dom (sc_sequences s)))\<rparr>\<rparr>"
  have ss: "same_seqs s ?s1" by (simp add: same_seqs_def)
  note a = same_seqs_adv [OF ss s]
  obtain batch where ba: "formBatches (sc_config s) (collectReady visit s) = Some batch"
    "set batch \<subseteq> set (collectReady visit s)" "distinct batch"
    "batch = [] \<longleftrightarrow> collectReady visit s = [] \<or> sf_MaxBatchSize (sc_config s) = 0"
    using formBatches_ok [OF b, of "collectReady visit s"] v(1) by (auto simp: collectReady_def)
  show ?thesis
  proof (cases "batch = []")
    case True
    let ?s' = "?s1\<lparr>sc_sequences := drop_finished (sc_sequences ?s1)\<rparr>"
    have "Scheduler_step e visit s = Some (None, ?s')" using ba(1) True by (simp add: Scheduler_step_def Let_def)
    moreover have "limited s \<longrightarrow> limited ?s'"
      by (auto simp: limited_def drop_finished_def split: option.splits if_splits)
    ultimately show ?thesis
      using drop_finished_ok [OF adv_ok [OF conjunct1 [OF a]]] ba(4) True by (auto simp: has_cache_def)
  next
    case False
    have r: "\<forall>i \<in> set batch. \<exists>q. sc_sequences ?s1 i = Some q \<and> is_ready q"
      using ba(2) by (auto simp: collectReady_def split: option.splits)
    obtain err s' where t: "runDecodeStep e batch ?s1 = Some (err, s')" "adv ?s1 s'" "g \<longrightarrow> err = None"
      "g \<and> limited ?s1 \<and> has_cache ?s1 \<longrightarrow> total_work s' < total_work ?s1"
      using runDecodeStep_ok [OF e adv_ok [OF conjunct1 [OF a]] ba(3) False r] by blast
    have st: "Scheduler_step e visit s = Some (err, s')"
      using ba(1) False t(1) by (simp add: Scheduler_step_def Let_def)
    have "adv s s'" using adv_trans [OF conjunct1 [OF a] t(2)] .
    then have "sched_ok s'" "sc_config s' = sc_config s" "has_cache s' = has_cache s" "limited s \<longrightarrow> limited s'"
      using adv_limited [of s s'] by (simp_all add: adv_def has_cache_def)
    moreover have "limited ?s1 = limited s" "has_cache ?s1 = has_cache s" by (simp_all add: limited_def has_cache_def)
    ultimately show ?thesis using st t(3,4) a ba(4) False by simp
  qed
qed

section \<open>Draining\<close>

text \<open>The loop of \<open>Run\<close>: it steps again while sequences remain, and stops at an error.\<close>

fun run_steps ::
  "('f, 'd, 's) Engine \<Rightarrow> ((SequenceID \<rightharpoonup> Sequence) \<Rightarrow> SequenceID list) \<Rightarrow> nat \<Rightarrow> ('f, 'd, 's) Scheduler \<Rightarrow> (string option \<times> ('f, 'd, 's) Scheduler) option" where
  "run_steps e visit 0 s = Some (None, s)"
| "run_steps e visit (Suc n) s =
     (if SequenceCount s = 0 then Some (None, s)
      else do { (err, s1) \<leftarrow> Scheduler_step e (visit (sc_sequences s)) s;
                case err of Some m \<Rightarrow> Some (Some m, s1) | None \<Rightarrow> run_steps e visit n s1 })"

lemma no_ready_all_finished:
  assumes "sched_ok s" and "set visit = dom (sc_sequences s)" and "collectReady visit s = []"
  shows "drop_finished (sc_sequences s) = Map.empty"
proof (rule ext)
  fix i
  show "drop_finished (sc_sequences s) i = None"
  proof (cases "sc_sequences s i")
    case None
    then show ?thesis by (simp add: drop_finished_def)
  next
    case (Some q)
    then have "i \<in> set visit" using assms(2) by auto
    then have "\<not> is_ready q" using assms(3) Some by (auto simp: collectReady_def filter_empty_conv)
    moreover have "seq_ok (sf_MaxTokens (sc_config s)) q" using assms(1) Some by (simp add: sched_ok_def)
    ultimately have "sq_state q = StateFinished" by (auto simp: is_ready_def seq_ok_def)
    then show ?thesis using Some by (simp add: drop_finished_def)
  qed
qed

lemma SequenceCount_0: "sched_ok s \<Longrightarrow> SequenceCount s = 0 \<longleftrightarrow> sc_sequences s = Map.empty"
  by (auto simp: SequenceCount_def sched_ok_def)

lemma run_steps_drains:
  assumes e: "engine_ok True e" and v: "visits visit"
  shows "sched_ok s \<Longrightarrow> 0 < sf_MaxBatchSize (sc_config s) \<Longrightarrow> limited s \<Longrightarrow> has_cache s \<Longrightarrow> total_work s < n \<Longrightarrow>
    \<exists>s'. run_steps e visit n s = Some (None, s') \<and> sc_sequences s' = Map.empty"
proof (induction n arbitrary: s)
  case 0
  then show ?case by simp
next
  case (Suc n)
  let ?v = "visit (sc_sequences s)"
  have vis: "distinct ?v" "set ?v = dom (sc_sequences s)"
    using v Suc.prems(1) by (auto simp: visits_def sched_ok_def)
  obtain s1 where t: "Scheduler_step e ?v s = Some (None, s1)" "sched_ok s1" "sc_config s1 = sc_config s"
    "has_cache s1 = has_cache s" "limited s \<longrightarrow> limited s1"
    "if collectReady ?v s = [] \<or> sf_MaxBatchSize (sc_config s) = 0
     then sc_sequences s1 = drop_finished (sc_sequences s)
     else limited s \<and> has_cache s \<longrightarrow> total_work s1 < total_work s"
    using step_ok [OF e Suc.prems(1) _ vis] Suc.prems(2) by auto
  show ?case
  proof (cases "SequenceCount s = 0")
    case True
    then show ?thesis using SequenceCount_0 [OF Suc.prems(1)] by simp
  next
    case ne: False
    show ?thesis
    proof (cases "collectReady ?v s = []")
      case True
      then have "sc_sequences s1 = Map.empty"
        using t(6) no_ready_all_finished [OF Suc.prems(1) vis(2) True] by simp
      moreover from this have "run_steps e visit n s1 = Some (None, s1)"
        by (cases n) (simp_all add: SequenceCount_def)
      ultimately show ?thesis using t(1) ne by simp
    next
      case False
      then have "total_work s1 < total_work s" using t(6) Suc.prems(2-4) by simp
      then have "total_work s1 < n" using Suc.prems(5) by simp
      then obtain s' where "run_steps e visit n s1 = Some (None, s')" "sc_sequences s' = Map.empty"
        using Suc.IH [OF t(2)] Suc.prems t(3-5) by auto
      then show ?thesis using t(1) ne by auto
    qed
  qed
qed

text \<open>At most as many steps as tokens may be generated, and one to clean up.\<close>

lemma total_work_bound:
  assumes "sched_ok s" and "\<forall>i q. sc_sequences s i = Some q \<longrightarrow> token_cap (sf_MaxTokens (sc_config s)) q \<le> int c"
  shows "total_work s \<le> card (dom (sc_sequences s)) * c"
proof -
  have "work (sf_MaxTokens (sc_config s)) (the (sc_sequences s i)) \<le> c" if i: "i \<in> dom (sc_sequences s)" for i
  proof -
    obtain q where q: "sc_sequences s i = Some q" using i by auto
    then have "token_cap (sf_MaxTokens (sc_config s)) q \<le> int c" using assms(2) by blast
    then show ?thesis using q by (auto simp: work_def len_def)
  qed
  from sum_bounded_above [of "dom (sc_sequences s)", OF this] show ?thesis by (simp add: total_work_def)
qed

section \<open>Histories\<close>

text \<open>A request as the server hands it over.\<close>

definition fresh_request :: "Sequence \<Rightarrow> bool" where
  "fresh_request q \<longleftrightarrow> sq_state q = StatePending \<and> sq_generatedTokens q = [] \<and> sq_promptPos q = 0 \<and>
     sq_tokenChan q = [] \<and> \<not> sq_closed q"

inductive sched_event :: "('f, 'd, 's) Engine \<Rightarrow> ('f, 'd, 's) Scheduler \<Rightarrow> ('f, 'd, 's) Scheduler \<Rightarrow> bool" for e where
  add: "fresh_request q \<Longrightarrow> AddSequence e q s = Some s' \<Longrightarrow> sched_event e s s'"
| remove: "RemoveSequence i s = Some s' \<Longrightarrow> sched_event e s s'"
| step: "distinct visit \<Longrightarrow> set visit = dom (sc_sequences s) \<Longrightarrow> Scheduler_step e visit s = Some (err, s') \<Longrightarrow>
    sched_event e s s'"

lemma AddSequence_frame:
  assumes "AddSequence e q s = Some s'"
  shows "\<exists>q' rt. s' = put_seq (sq_id q) q' (s\<lparr>sc_runtime := rt\<rparr>) \<and> sq_id q' = sq_id q \<and> sq_state q' = sq_state q \<and>
    sq_generatedTokens q' = sq_generatedTokens q \<and> sq_promptPos q' = sq_promptPos q \<and>
    sq_tokenChan q' = sq_tokenChan q \<and> sq_closed q' = sq_closed q \<and> rt_backend rt = rt_backend (sc_runtime s)"
proof -
  let ?q = "encode_prompt e q"
  have enc: "sq_id ?q = sq_id q \<and> sq_state ?q = sq_state q \<and> sq_generatedTokens ?q = sq_generatedTokens q \<and>
    sq_promptPos ?q = sq_promptPos q \<and> sq_tokenChan ?q = sq_tokenChan q \<and> sq_closed ?q = sq_closed q"
    by (simp add: encode_prompt_def Sequence_SetPromptTokens_def split: option.splits sum.splits)
  obtain q1 rt where c: "create_paged ?q (sc_runtime s) = Some (q1, rt)"
    and s': "s' = put_seq (sq_id q1) q1 (s\<lparr>sc_runtime := create_in_pool q1 rt\<rparr>)"
    using assms by (auto simp: AddSequence_def split: Option.bind_splits)
  have q1: "sq_id q1 = sq_id ?q \<and> sq_state q1 = sq_state ?q \<and> sq_generatedTokens q1 = sq_generatedTokens ?q \<and>
      sq_promptPos q1 = sq_promptPos ?q \<and> sq_tokenChan q1 = sq_tokenChan ?q \<and> sq_closed q1 = sq_closed ?q \<and>
      rt_backend rt = rt_backend (sc_runtime s)"
    using c by (auto simp: create_paged_def Sequence_SetKVSeqID_def split: option.splits Option.bind_splits)
  have "rt_backend (create_in_pool q1 rt) = rt_backend rt"
    by (simp add: create_in_pool_def split: option.splits)
  then show ?thesis using s' q1 enc by (intro exI [of _ q1] exI [of _ "create_in_pool q1 rt"]) simp
qed

lemma RemoveSequence_frame:
  assumes "RemoveSequence i s = Some s'"
  shows "sc_sequences s' = (sc_sequences s)(i := None) \<and> sc_config s' = sc_config s \<and>
    rt_backend (sc_runtime s') = rt_backend (sc_runtime s)"
proof (cases "sc_sequences s i")
  case None
  then show ?thesis using assms by (simp add: RemoveSequence_def fun_upd_idem)
next
  case (Some q)
  then show ?thesis using assms
    by (auto simp: RemoveSequence_def Let_def split: option.splits if_splits Option.bind_splits)
qed

lemma sched_event_ok:
  assumes "sched_event e s s'" and e: "engine_ok False e" and "sched_ok s" and "0 \<le> sf_MaxBatchSize (sc_config s)"
  shows "sched_ok s' \<and> sc_config s' = sc_config s"
  using assms(1)
proof cases
  case (add q)
  obtain q' rt where f: "s' = put_seq (sq_id q) q' (s\<lparr>sc_runtime := rt\<rparr>)" "sq_id q' = sq_id q" "sq_state q' = sq_state q"
    "sq_generatedTokens q' = sq_generatedTokens q" "sq_promptPos q' = sq_promptPos q" "sq_tokenChan q' = sq_tokenChan q"
    "sq_closed q' = sq_closed q" "rt_backend rt = rt_backend (sc_runtime s)"
    using AddSequence_frame [OF add(2)] by blast
  have "seq_ok (sf_MaxTokens (sc_config s)) q'"
    using add(1) f by (auto simp: seq_ok_def fresh_request_def token_cap_def chan_capacity_def)
  then show ?thesis using assms(3) f by (auto simp: sched_ok_def put_seq_def)
next
  case (remove i)
  then show ?thesis using RemoveSequence_frame [OF remove] assms(3) by (auto simp: sched_ok_def)
next
  case (step visit err)
  then show ?thesis using step_ok [OF e assms(3,4) step(1,2)] by auto
qed

lemma sched_events_ok:
  assumes "(sched_event e)\<^sup>*\<^sup>* s s'" and e: "engine_ok False e" and "sched_ok s" and "0 \<le> sf_MaxBatchSize (sc_config s)"
  shows "sched_ok s' \<and> sc_config s' = sc_config s"
  using assms(1)
proof (induction rule: rtranclp_induct)
  case base
  then show ?case using assms(3) by simp
next
  case (step t u)
  then show ?case using sched_event_ok [OF step(2) e] assms(4) by auto
qed

section \<open>A concrete engine\<close>

text \<open>An engine over a vocabulary of two tokens that always samples token 7, and a scheduler with a GPU cache.\<close>

definition demo_logits :: Tensor where
  "demo_logits = NewTensor (NewShape [4, 2]) Float32 (NewDevicePtr CPU 64)"

definition demo_engine :: "(int, unit, unit) Engine" where
  "demo_engine = \<lparr>en_vocab = 2, en_DecodeWithGPUKV = (\<lambda>ts p rt. (Inr demo_logits, rt)),
     en_DecodeWithPagedKV = (\<lambda>ts k p rt. (Inr demo_logits, rt)),
     en_DecodeWithPagedKVBatched = (\<lambda>ts ks ps rt. (Inr (demo_logits\<lparr>t_shape := NewShape [len ts + 1, 2]\<rparr>), rt)),
     en_DecodeStep = (\<lambda>ts ps rt. (Inr (demo_logits\<lparr>t_shape := NewShape [len ts + 1, 2]\<rparr>), rt)),
     en_PrefillWithPagedKV = (\<lambda>ts k p rt. (Inr demo_logits, rt)),
     en_cpu = (\<lambda>rt p i. 0), en_host = (\<lambda>d p i. 0), en_softCap = (\<lambda>x. x), en_argmax = None,
     en_Sample = (\<lambda>sm xs. (7, sm)), en_newSampler = (\<lambda>t k p s. ()), en_tokenizer = None,
     en_sequentialPrefill = False\<rparr>"

definition demo_runtime :: "(int, unit) Runtime" where
  "demo_runtime = \<lparr>rt_paged = None, rt_pool = None, rt_gpu = Some (demo_kv False), rt_backend = Some ()\<rparr>"

definition demo_scheduler :: "(int, unit, unit) Scheduler" where
  "demo_scheduler = NewScheduler demo_runtime ()
     \<lparr>sf_MaxBatchSize = 4, sf_MaxSequences = 4, sf_MaxTokens = 3, sf_Temperature = 0\<rparr>"

definition demo_request :: Sequence where
  "demo_request = Sequence_SetPromptTokens (NewSequence 5 ''hi'') [10, 11]"

lemma demo_engine_ok: "engine_ok g demo_engine"
  by (auto simp: engine_ok_def fwd_ok_def demo_engine_def demo_logits_def NewTensor_def NewShape_def NewDevicePtr_def
      DevicePtr_IsNil_def Tensor_NumElements_def Shape_NumElements_def intro!: add_nonneg_pos)

lemma demo_add: "AddSequence demo_engine demo_request demo_scheduler =
    Some (put_seq 5 demo_request demo_scheduler)"
  by (simp add: AddSequence_def create_paged_def create_in_pool_def encode_prompt_def demo_engine_def demo_request_def
      demo_scheduler_def demo_runtime_def NewScheduler_def NewSequence_def Sequence_SetPromptTokens_def)

lemma demo_fresh: "fresh_request demo_request"
  by (simp add: fresh_request_def demo_request_def NewSequence_def Sequence_SetPromptTokens_def)

lemma new_scheduler_ok: "rt_backend rt \<noteq> None \<Longrightarrow> sched_ok (NewScheduler rt sm c)"
  by (simp add: sched_ok_def NewScheduler_def)

section \<open>Properties\<close>



text \<open>
  C1: The loop of \<open>Run\<close> drains: with an engine whose forward passes succeed with readable logits, a KV cache,
  a positive batch size and a positive token limit for every sequence, and however Go orders the map, the
  loop ends with no error and no sequence left after at most one step per token that may still be
  generated (at most \<open>c\<close> per sequence, \<open>c\<close> a bound on the limits), and one to clean up.
\<close>

theorem Scheduler_drains:
  assumes "engine_ok True e" and "visits visit" and "sched_ok s" and "0 < sf_MaxBatchSize (sc_config s)"
    and "limited s" and "has_cache s"
    and "\<forall>i q. sc_sequences s i = Some q \<longrightarrow> token_cap (sf_MaxTokens (sc_config s)) q \<le> int c"
  shows "\<exists>s'. run_steps e visit (card (dom (sc_sequences s)) * c + 1) s = Some (None, s') \<and>
    sc_sequences s' = Map.empty"
  using run_steps_drains [OF assms(1-6), of "card (dom (sc_sequences s)) * c + 1"] total_work_bound [OF assms(3,7)]
  by simp

theorem Scheduler_drains_witness:
  "\<exists>s'. run_steps demo_engine (\<lambda>m. sorted_list_of_set (dom m)) 4 (put_seq 5 demo_request demo_scheduler) = Some (None, s') \<and>
    sc_sequences s' = Map.empty"
proof -
  let ?s = "put_seq 5 demo_request demo_scheduler"
  have m: "sc_sequences ?s = [5 \<mapsto> demo_request]" "sc_config ?s = sc_config demo_scheduler"
    by (simp_all add: put_seq_def demo_scheduler_def NewScheduler_def)
  have v: "visits (\<lambda>m. sorted_list_of_set (dom m))" by (simp add: visits_def)
  have ok: "sched_ok demo_scheduler" unfolding demo_scheduler_def
    by (rule new_scheduler_ok) (simp add: demo_runtime_def)
  have s: "sched_ok ?s"
    using sched_event_ok [OF sched_event.add [OF demo_fresh demo_add] demo_engine_ok ok]
    by (simp add: demo_scheduler_def NewScheduler_def)
  have c: "0 < sf_MaxBatchSize (sc_config ?s)" "sf_MaxTokens (sc_config ?s) = 3" "has_cache ?s"
    by (simp_all add: put_seq_def demo_scheduler_def NewScheduler_def has_cache_def demo_runtime_def)
  have l: "eff_limit 3 demo_request = 3"
    by (simp add: eff_limit_def demo_request_def NewSequence_def Sequence_SetPromptTokens_def)
  show ?thesis
    using Scheduler_drains [OF demo_engine_ok v s c(1) _ c(3), of 3] m l c(2)
    by (simp add: limited_def token_cap_def split: if_splits)
qed

text \<open>
  Removing a sequence gives its KV blocks back: on a runtime with a well-formed paged cache,
  \<open>RemoveSequence\<close> returns, forgets the sequence and its table, appends exactly its blocks to the free list
  of every layer, and keeps the cache well formed.
\<close>

theorem RemoveSequence_frees_blocks:
  assumes "rt_paged (sc_runtime s) = Some cache" and "rt_pool (sc_runtime s) = None" and "pc_ok cache"
    and "sc_sequences s i = Some q" and "sq_kvSeqID q \<noteq> 0" and "pc_sequences cache (sq_kvSeqID q) = Some t"
  shows "\<exists>s' cache'. RemoveSequence i s = Some s' \<and> sc_sequences s' = (sc_sequences s)(i := None) \<and>
    rt_paged (sc_runtime s') = Some cache' \<and> pc_ok cache' \<and>
    pc_sequences cache' = (pc_sequences cache)(sq_kvSeqID q := None) \<and>
    (\<forall>l < nlayers (pc_config cache). frees (pc_allocator cache') l = frees (pc_allocator cache) l @ bt_blocks t ! l) \<and>
    sm_CompletedSequences (sc_metrics s') = sm_CompletedSequences (sc_metrics s) + 1"
proof -
  obtain cache' where d: "PagedKVCache_DeleteSequence cache (sq_kvSeqID q) = Some cache'" "pc_ok cache'"
    "pc_sequences cache' = (pc_sequences cache)(sq_kvSeqID q := None)"
    "\<forall>l < nlayers (pc_config cache). frees (pc_allocator cache') l = frees (pc_allocator cache) l @ bt_blocks t ! l"
    using DeleteSequence_ok [OF assms(3,6)] by blast
  let ?s1 = "s\<lparr>sc_sequences := (sc_sequences s)(i := None),
    sc_metrics := (sc_metrics s)\<lparr>sm_CompletedSequences := sm_CompletedSequences (sc_metrics s) + 1\<rparr>\<rparr>"
  have "RemoveSequence i s = Some (?s1\<lparr>sc_runtime := (sc_runtime s)\<lparr>rt_paged := Some cache'\<rparr>\<rparr>)"
    using assms(1,2,4,5) d(1) by (simp add: RemoveSequence_def Let_def)
  then show ?thesis using d(2-4) by (intro exI conjI) (assumption | simp)+
qed

theorem RemoveSequence_frees_blocks_witness:
  "\<exists>s' cache'. RemoveSequence 5 (put_seq 5 (Sequence_SetKVSeqID demo_request 1)
      (demo_scheduler\<lparr>sc_runtime := demo_runtime\<lparr>rt_paged := Some demo_cache\<rparr>\<rparr>)) = Some s' \<and>
    rt_paged (sc_runtime s') = Some cache' \<and> pc_sequences cache' = Map.empty"
proof -
  let ?s = "put_seq 5 (Sequence_SetKVSeqID demo_request 1)
      (demo_scheduler\<lparr>sc_runtime := demo_runtime\<lparr>rt_paged := Some demo_cache\<rparr>\<rparr>)"
  have "rt_paged (sc_runtime ?s) = Some demo_cache" "rt_pool (sc_runtime ?s) = None"
    "sc_sequences ?s 5 = Some (Sequence_SetKVSeqID demo_request 1)"
    by (simp_all add: put_seq_def demo_runtime_def)
  from RemoveSequence_frees_blocks [OF this(1,2) demo_cache_ok(1) this(3)]
  show ?thesis by (auto simp: Sequence_SetKVSeqID_def demo_cache_ok(4))
qed

section \<open>Where the scheduler departs from its purpose\<close>

text \<open>
  The clean-up of a step forgets finished sequences and does not touch their KV blocks; a later
  \<open>RemoveSequence\<close> finds nothing to release.
\<close>

lemma finished_sequence_leaks:
  assumes "sched_ok s" and "set visit = dom (sc_sequences s)" and "collectReady visit s = []"
  shows "\<exists>s'. Scheduler_step e visit s = Some (None, s') \<and> sc_runtime s' = sc_runtime s \<and>
    RemoveSequence i s' = Some s' \<and>
    sm_CompletedSequences (sc_metrics s') = sm_CompletedSequences (sc_metrics s)"
  using no_ready_all_finished [OF assms]
  by (simp add: Scheduler_step_def formBatches_def assms(3) RemoveSequence_def)

text \<open>A limit of one token is exceeded: the prefill emits a token without checking the limit.\<close>

lemma limit_one_gives_two:
  "map_option (\<lambda>(err, s'). (err, map_option (\<lambda>q. (sq_maxTokens q, sq_generatedTokens q)) (sc_sequences s' 5)))
     (Scheduler_step demo_engine [5] (put_seq 5 (Sequence_SetMaxTokens demo_request 1) demo_scheduler)) =
   Some (None, Some (1, [7, 7]))"
proof -
  let ?l = demo_logits
  have f: "f32_eq 0 0" "\<not> f32_less 0 0" by (simp_all add: f32_eq_def)
  have l: "Tensor_NumElements ?l = 8" "t_devicePtr ?l = NewDevicePtr CPU 64"
    "\<not> DevicePtr_IsNil (NewDevicePtr CPU 64)" "DevicePtr_Location (NewDevicePtr CPU 64) = CPU"
    by (simp_all add: demo_logits_def NewTensor_def NewShape_def Tensor_NumElements_def Shape_NumElements_def
        NewDevicePtr_def DevicePtr_IsNil_def DevicePtr_Location_def)
  show ?thesis
    by (simp add: Scheduler_step_def collectReady_def is_ready_def formBatches_def runDecodeStep_def demo_request_def
        demo_scheduler_def NewScheduler_def put_seq_def demo_runtime_def NewSequence_def sequence_defs
        Sequence_SetPromptTokens_def Sequence_SetMaxTokens_def runGPUPrefill_def reset_gpu_cache_def demo_engine_def
        forward_pass_def finish_prefill_def getLogitsOnCPU_def l last_row_def slice_def len_def s_sample_def
        emit_prefill_token_def isStopToken_def Sequence_IsExtraStopToken_def token_text_def chan_capacity_def
        needs_decode_def decode_batch_def Sequence_NextInputToken_def decode_forward_def sample_decoded_def
        greedy_path_def Sequence_HasSamplingParams_def f greedy_one_def sampleToken_def gpu_argmax_def
        emit_token_def enter_decode_def count_decoded_def idx_def)
qed

text \<open>With neither a GPU cache nor a paged cache a prompt is never prefilled: the step changes nothing.\<close>

lemma no_cache_livelock:
  assumes "rt_gpu (sc_runtime s) = None" and "rt_paged (sc_runtime s) = None"
    and "sc_sequences s = [i \<mapsto> q]" and "wants_prefill True True q" and "0 < sf_MaxBatchSize (sc_config s)"
  shows "\<exists>s'. Scheduler_step e [i] s = Some (None, s') \<and> sc_sequences s' = sc_sequences s \<and>
    sc_runtime s' = sc_runtime s"
  using assms
  by (simp add: Scheduler_step_def collectReady_def formBatches_def runDecodeStep_def wants_prefill_def is_ready_def
      needs_decode_def)

end
