(* ===== verification/Ring.thy ===== *)
theory Ring
  imports Prelude
begin

text \<open>
  Circular buffers: a list of slots, the next slot to write and the number of valid slots. The interface
  \<open>ring\<close> says that a write keeps the most recent items; the lemmas of this theory discharge it for any
  state that is such a triple.
\<close>

section \<open>The last items of a list\<close>

definition lastn :: "nat \<Rightarrow> 'a list \<Rightarrow> 'a list" where
  "lastn n xs = drop (length xs - n) xs"

lemma length_lastn [simp]: "length (lastn n xs) = min n (length xs)"
  by (simp add: lastn_def)

lemma lastn_short [simp]: "length xs \<le> n \<Longrightarrow> lastn n xs = xs"
  by (simp add: lastn_def)

lemma lastn_lastn_append: "lastn n (lastn n xs @ ys) = lastn n (xs @ ys)"
proof (cases "length xs \<le> n")
  case True
  then show ?thesis by simp
next
  case False
  then have "drop (length xs - n + length ys) xs = drop (length ys) (drop (length xs - n) xs)"
    by (simp add: add.commute)
  then show ?thesis using False by (simp add: lastn_def)
qed

lemma nth_lastn: "i < length (lastn n xs) \<Longrightarrow> lastn n xs ! i = xs ! (length xs - n + i)"
  by (simp add: lastn_def)

section \<open>The interface\<close>

locale ring =
  fixes put :: "'x \<Rightarrow> 's \<Rightarrow> 's option"
    and items :: "'s \<Rightarrow> 'x list"
    and cap :: nat
    and ok :: "'s \<Rightarrow> bool"
  assumes put_ok: "ok s \<Longrightarrow> \<exists>s'. put x s = Some s' \<and> ok s' \<and> items s' = lastn cap (items s @ [x])"
begin

text \<open>After any run of writes the buffer holds the last items of the history.\<close>

lemma put_all:
  "ok s \<Longrightarrow> \<exists>s'. foldM put xs s = Some s' \<and> ok s' \<and> (xs = [] \<or> items s' = lastn cap (items s @ xs))"
proof (induction xs arbitrary: s)
  case Nil
  then show ?case by simp
next
  case (Cons x xs)
  obtain t where t: "put x s = Some t" "ok t" "items t = lastn cap (items s @ [x])"
    using put_ok [OF Cons.prems] by blast
  obtain s' where s': "foldM put xs t = Some s'" "ok s'" "xs = [] \<or> items s' = lastn cap (items t @ xs)"
    using Cons.IH [OF t(2)] by blast
  have "items s' = lastn cap (items s @ x # xs)"
    using s'(3) s'(1) t(3) lastn_lastn_append [of cap "items s @ [x]" xs] by (cases "xs = []") auto
  then show ?case using t(1) s'(1,2) by simp
qed

lemma put_all_from_empty:
  assumes "ok s" and "items s = []"
  shows "\<exists>s'. foldM put xs s = Some s' \<and> ok s' \<and> items s' = lastn cap xs"
  using put_all [OF assms(1), of xs] assms(2) by (cases "xs = []") auto

end

section \<open>Slots\<close>

text \<open>The slot of the \<open>i\<close>-th oldest item, as the code computes it.\<close>

definition slot :: "nat \<Rightarrow> nat \<Rightarrow> nat \<Rightarrow> nat \<Rightarrow> nat" where
  "slot cap head cnt i = (head + cap - cnt + i) mod cap"

definition ring_items :: "'a list \<Rightarrow> int \<Rightarrow> int \<Rightarrow> 'a list" where
  "ring_items buf head cnt =
     map (\<lambda>i. buf ! slot (length buf) (nat head) (nat cnt) i) [0..<nat cnt]"

definition ring_ok :: "'a list \<Rightarrow> int \<Rightarrow> int \<Rightarrow> int \<Rightarrow> bool" where
  "ring_ok buf head cnt cap \<longleftrightarrow>
     0 < cap \<and> len buf = cap \<and> 0 \<le> head \<and> head < cap \<and> 0 \<le> cnt \<and> cnt \<le> cap"

lemma slot_lt: "0 < cap \<Longrightarrow> slot cap head cnt i < cap"
  by (simp add: slot_def)

lemma slot_int:
  assumes "ring_ok buf head cnt cap" and "0 \<le> i"
  shows "(head - cnt + i + cap) mod cap = int (slot (length buf) (nat head) (nat cnt) (nat i))"
proof -
  have "head - cnt + i + cap = int (nat head + length buf - nat cnt + nat i)"
    using assms by (auto simp: ring_ok_def len_def)
  then show ?thesis using assms(1) by (simp add: slot_def ring_ok_def len_def zmod_int)
qed

lemma length_ring_items [simp]: "length (ring_items buf head cnt) = nat cnt"
  by (simp add: ring_items_def)

lemma ring_items_nth:
  "i < nat cnt \<Longrightarrow> ring_items buf head cnt ! i = buf ! slot (length buf) (nat head) (nat cnt) i"
  by (simp add: ring_items_def)

lemma slot_shift:
  assumes "0 < c" and "n \<le> c"
  shows "n < c \<Longrightarrow> slot c ((h + 1) mod c) (n + 1) i = slot c h n i"
    and "slot c ((h + 1) mod c) c i = slot c h c (i + 1)"
proof -
  show "slot c ((h + 1) mod c) c i = slot c h c (i + 1)"
    by (simp add: slot_def mod_add_left_eq add.commute add.left_commute mod_simps)
  assume n: "n < c"
  then have "(h + 1) mod c + c - (n + 1) + i = (h + 1) mod c + (c - (n + 1) + i)" by simp
  then have "slot c ((h + 1) mod c) (n + 1) i = (h + 1 + (c - (n + 1) + i)) mod c"
    unfolding slot_def by (simp only: mod_add_left_eq add.assoc)
  also have "h + 1 + (c - (n + 1) + i) = h + c - n + i" using n by simp
  finally show "slot c ((h + 1) mod c) (n + 1) i = slot c h n i" by (simp add: slot_def)
qed

text \<open>The slots of distinct items differ, and the slot after the last one is the head.\<close>

lemma slot_ne_head:
  assumes "h < c" and "n \<le> c" and "i < n" and "n < c \<or> 0 < i"
  shows "slot c h n i \<noteq> h"
proof -
  have "h + c - n + i = h + (c - n + i)" using assms by simp
  then have "slot c h n i = (h + (c - n + i)) mod c" by (simp add: slot_def add.assoc)
  moreover define d where "d = c - n + i"
  moreover have d: "0 < d" "d < c" using assms by (auto simp: d_def)
  moreover have "(h + d) mod c \<noteq> h"
  proof (cases "h + d < c")
    case False
    then have "(h + d) mod c = h + d - c" using assms(1) d by (simp add: le_mod_geq)
    then show ?thesis using False d by linarith
  qed (use d in simp)
  ultimately show ?thesis by simp
qed

lemma slot_last: "h < c \<Longrightarrow> n \<le> c \<Longrightarrow> slot c h n n = h"
  by (simp add: slot_def)

text \<open>One write.\<close>

lemma ring_put:
  assumes ok: "ring_ok buf head cnt cap"
  defines "head' \<equiv> (head + 1) mod cap" and "cnt' \<equiv> (if cnt < cap then cnt + 1 else cnt)"
  shows "ring_ok (buf[nat head := x]) head' cnt' cap"
    and "ring_items (buf[nat head := x]) head' cnt' = lastn (nat cap) (ring_items buf head cnt @ [x])"
proof -
  let ?c = "length buf" and ?h = "nat head" and ?n = "nat cnt" and ?b = "buf[nat head := x]"
  have b: "0 < ?c" "int ?c = cap" "?h < ?c" "?n \<le> ?c" "int ?h = head" "int ?n = cnt"
    using ok by (auto simp: ring_ok_def len_def)
  show "ring_ok ?b head' cnt' cap" using ok by (auto simp: ring_ok_def head'_def cnt'_def)
  have h': "nat head' = (?h + 1) mod ?c"
  proof -
    have "head' = int ((?h + 1) mod ?c)" using b by (simp add: head'_def zmod_int add.commute)
    then show ?thesis by simp
  qed
  show "ring_items ?b head' cnt' = lastn (nat cap) (ring_items buf head cnt @ [x])"
  proof (cases "cnt < cap")
    case True
    then have n': "nat cnt' = ?n + 1" and lt: "?n < ?c"
      using b ok by (auto simp: cnt'_def ring_ok_def nat_add_distrib)
    have "ring_items ?b head' cnt' = ring_items buf head cnt @ [x]"
    proof (rule nth_equalityI)
      fix i assume "i < length (ring_items ?b head' cnt')"
      then have i: "i \<le> ?n" using n' by simp
      then have "ring_items ?b head' cnt' ! i = ?b ! slot ?c ?h ?n i"
        using n' h' slot_shift(1) [OF b(1,4) lt] by (simp add: ring_items_nth)
      then show "ring_items ?b head' cnt' ! i = (ring_items buf head cnt @ [x]) ! i"
        using i slot_last [OF b(3,4)] slot_ne_head [OF b(3,4), of i] b lt
        by (cases "i = ?n") (simp_all add: nth_append ring_items_nth)
    qed (use n' in simp)
    then show ?thesis using lt b by simp
  next
    case False
    then have n': "nat cnt' = ?c" "?n = ?c" using b ok by (auto simp: cnt'_def ring_ok_def len_def)
    have "lastn (nat cap) (ring_items buf head cnt @ [x]) = tl (ring_items buf head cnt) @ [x]"
      using b n' by (cases "ring_items buf head cnt") (auto simp: lastn_def dest: arg_cong [where f = length])
    moreover have "ring_items ?b head' cnt' = tl (ring_items buf head cnt) @ [x]"
    proof (rule nth_equalityI)
      fix i assume "i < length (ring_items ?b head' cnt')"
      then have i: "i < ?c" using n' by simp
      then have "ring_items ?b head' cnt' ! i = ?b ! slot ?c ?h ?c (i + 1)"
        using n' h' slot_shift(2) [OF b(1) b(4)] by (simp add: ring_items_nth)
      then show "ring_items ?b head' cnt' ! i = (tl (ring_items buf head cnt) @ [x]) ! i"
        using i slot_last [OF b(3) order_refl] slot_ne_head [OF b(3) order_refl, of "i + 1"] b n'
        by (cases "i + 1 = ?c") (auto simp: nth_append nth_tl ring_items_nth)
    qed (use n' b in simp)
    ultimately show ?thesis by simp
  qed
qed

end
