(* ===== verification/Medusa_Buffer.thy ===== *)
theory Medusa_Buffer
  imports Ring Float32
begin

text \<open>
  The file \<open>inference/medusa/buffer.go\<close>: the ring buffer of training samples for the Medusa heads. The random
  source of \<open>Sample\<close> is a parameter with a state of its own; the loop that looks for an unused index may
  run forever, and then \<open>Sample\<close> has no value. \<open>Stats\<close> divides floats and is not modelled.
\<close>

record TrainingSample =
  ts_HiddenState :: "f32 list"
  ts_FutureTokens :: "int list"
  ts_Position :: int

record RingBuffer =
  rb_samples :: "TrainingSample list"
  rb_capacity :: int
  rb_head :: int
  rb_count :: int

definition zero_sample :: TrainingSample where
  "zero_sample = \<lparr>ts_HiddenState = [], ts_FutureTokens = [], ts_Position = 0\<rparr>"

definition NewRingBuffer :: "int \<Rightarrow> RingBuffer option" where
  "NewRingBuffer capacity =
     do { samples \<leftarrow> make_slice capacity zero_sample;
          Some \<lparr>rb_samples = samples, rb_capacity = capacity, rb_head = 0, rb_count = 0\<rparr> }"

definition RingBuffer_Add :: "TrainingSample \<Rightarrow> RingBuffer \<Rightarrow> RingBuffer option" where
  "RingBuffer_Add sample rb =
     do { samples \<leftarrow> upd (rb_samples rb) (rb_head rb) sample;
          head \<leftarrow> go_mod (rb_head rb + 1) (rb_capacity rb);
          Some (rb\<lparr>rb_samples := samples, rb_head := head,
                   rb_count := (if rb_count rb < rb_capacity rb then rb_count rb + 1 else rb_count rb)\<rparr>) }"

definition RingBuffer_AddBatch :: "TrainingSample list \<Rightarrow> RingBuffer \<Rightarrow> RingBuffer option" where
  "RingBuffer_AddBatch samples rb = foldM RingBuffer_Add samples rb"

definition RingBuffer_Count :: "RingBuffer \<Rightarrow> int" where
  "RingBuffer_Count rb = rb_count rb"

definition RingBuffer_IsFull :: "RingBuffer \<Rightarrow> bool" where
  "RingBuffer_IsFull rb = (rb_count rb \<ge> rb_capacity rb)"

text \<open>The sample at a logical index, the oldest being 0.\<close>

definition sample_at :: "RingBuffer \<Rightarrow> int \<Rightarrow> TrainingSample option" where
  "sample_at rb i =
     do { physicalIdx \<leftarrow> go_mod (rb_head rb - rb_count rb + i + rb_capacity rb) (rb_capacity rb);
          idx (rb_samples rb) physicalIdx }"

text \<open>The inner loop: draw until the index is new.\<close>

partial_function (option) fresh_index ::
  "('r \<Rightarrow> int \<Rightarrow> int \<times> 'r) \<Rightarrow> int \<Rightarrow> int list \<Rightarrow> 'r \<Rightarrow> (int \<times> 'r) option" where
  [code]: "fresh_index rng n seen r =
     (let (i, r') = rng r n in if i \<notin> set seen then Some (i, r') else fresh_index rng n seen r')"

fun sample_loop ::
  "('r \<Rightarrow> int \<Rightarrow> int \<times> 'r) \<Rightarrow> RingBuffer \<Rightarrow> nat \<Rightarrow> int list \<Rightarrow> 'r \<Rightarrow> (TrainingSample list \<times> 'r) option" where
  "sample_loop rng rb 0 seen r = Some ([], r)"
| "sample_loop rng rb (Suc k) seen r =
     do { (i, r1) \<leftarrow> fresh_index rng (rb_count rb) seen r;
          s \<leftarrow> sample_at rb i;
          (batch, r2) \<leftarrow> sample_loop rng rb k (i # seen) r1;
          Some (s # batch, r2) }"

definition RingBuffer_Sample ::
  "('r \<Rightarrow> int \<Rightarrow> int \<times> 'r) \<Rightarrow> int \<Rightarrow> RingBuffer \<Rightarrow> 'r \<Rightarrow> (TrainingSample list \<times> 'r) option" where
  "RingBuffer_Sample rng batchSize rb r =
     (if rb_count rb = 0 then Some ([], r)
      else let batchSize' = (if batchSize > rb_count rb then rb_count rb else batchSize) in
        if batchSize' < 0 then None else sample_loop rng rb (nat batchSize') [] r)"

fun get_loop :: "RingBuffer \<Rightarrow> nat \<Rightarrow> nat \<Rightarrow> TrainingSample list option" where
  "get_loop rb i 0 = Some []"
| "get_loop rb i (Suc k) =
     do { s \<leftarrow> sample_at rb (int i); rest \<leftarrow> get_loop rb (Suc i) k; Some (s # rest) }"

definition RingBuffer_GetAll :: "RingBuffer \<Rightarrow> TrainingSample list option" where
  "RingBuffer_GetAll rb =
     (if rb_count rb = 0 then Some [] else if rb_count rb < 0 then None else get_loop rb 0 (nat (rb_count rb)))"

definition RingBuffer_Clear :: "RingBuffer \<Rightarrow> RingBuffer" where
  "RingBuffer_Clear rb = rb\<lparr>rb_head := 0, rb_count := 0\<rparr>"

section \<open>The buffer as a list\<close>

definition rb_items :: "RingBuffer \<Rightarrow> TrainingSample list" where
  "rb_items rb = ring_items (rb_samples rb) (rb_head rb) (rb_count rb)"

definition rb_ok :: "int \<Rightarrow> RingBuffer \<Rightarrow> bool" where
  "rb_ok c rb \<longleftrightarrow> rb_capacity rb = c \<and> ring_ok (rb_samples rb) (rb_head rb) (rb_count rb) c"

lemma RingBuffer_Add_ok:
  assumes "rb_ok c rb"
  shows "\<exists>rb'. RingBuffer_Add x rb = Some rb' \<and> rb_ok c rb' \<and> rb_items rb' = lastn (nat c) (rb_items rb @ [x])"
proof -
  have r: "ring_ok (rb_samples rb) (rb_head rb) (rb_count rb) c" and c: "rb_capacity rb = c"
    using assms by (auto simp: rb_ok_def)
  have "upd (rb_samples rb) (rb_head rb) x = Some ((rb_samples rb)[nat (rb_head rb) := x])"
    "go_mod (rb_head rb + 1) c = Some ((rb_head rb + 1) mod c)"
    using r by (auto simp: ring_ok_def upd_Some)
  then show ?thesis using ring_put [OF r, of x] c by (simp add: RingBuffer_Add_def rb_ok_def rb_items_def)
qed

interpretation rb: ring RingBuffer_Add rb_items "nat c" "rb_ok c" for c
  by unfold_locales (rule RingBuffer_Add_ok)

lemma sample_at_ok:
  assumes "rb_ok c rb" and "0 \<le> i" and "i < rb_count rb"
  shows "sample_at rb i = Some (rb_items rb ! nat i)"
proof -
  have r: "ring_ok (rb_samples rb) (rb_head rb) (rb_count rb) c" and c: "rb_capacity rb = c"
    using assms by (auto simp: rb_ok_def)
  have n: "0 \<le> rb_head rb - rb_count rb + i + c" "0 < c" "0 < length (rb_samples rb)"
    using r assms(2) by (auto simp: ring_ok_def len_def)
  then have "go_mod (rb_head rb - rb_count rb + i + c) c =
      Some (int (slot (length (rb_samples rb)) (nat (rb_head rb)) (nat (rb_count rb)) (nat i)))"
    using slot_int [OF r assms(2)] by simp
  moreover have "nat i < nat (rb_count rb)" using assms by simp
  ultimately show ?thesis
    using c slot_lt [OF n(3)] by (simp add: sample_at_def rb_items_def ring_items_nth)
qed

lemma get_loop_ok:
  assumes "rb_ok c rb"
  shows "int (i + k) \<le> rb_count rb \<Longrightarrow> get_loop rb i k = Some (take k (drop i (rb_items rb)))"
proof (induction k arbitrary: i)
  case 0
  then show ?case by simp
next
  case (Suc k)
  have l: "i < length (rb_items rb)" using Suc.prems by (simp add: rb_items_def)
  have "sample_at rb (int i) = Some (rb_items rb ! i)" using sample_at_ok [OF assms, of "int i"] Suc.prems by simp
  then show ?case using Suc.IH [of "Suc i"] Suc.prems by (simp add: Cons_nth_drop_Suc [OF l, symmetric])
qed

lemma GetAll_items: "rb_ok c rb \<Longrightarrow> RingBuffer_GetAll rb = Some (rb_items rb)"
  using get_loop_ok [of c rb 0 "nat (rb_count rb)"]
  by (auto simp: RingBuffer_GetAll_def rb_ok_def ring_ok_def rb_items_def ring_items_def)

lemma NewRingBuffer_ok: "0 < c \<Longrightarrow> \<exists>rb. NewRingBuffer c = Some rb \<and> rb_ok c rb \<and> rb_items rb = []"
  by (auto simp: NewRingBuffer_def make_slice_def rb_ok_def ring_ok_def rb_items_def ring_items_def)

section \<open>Sampling\<close>

text \<open>The random source stays in range and, from any state, sooner or later draws each index.\<close>

definition fair_rng :: "('r \<Rightarrow> int \<Rightarrow> int \<times> 'r) \<Rightarrow> int \<Rightarrow> bool" where
  "fair_rng rng n \<longleftrightarrow> (\<forall>r. 0 \<le> fst (rng r n) \<and> fst (rng r n) < n) \<and>
     (\<forall>r i. 0 \<le> i \<and> i < n \<longrightarrow> (\<exists>k. fst (rng (((\<lambda>r. snd (rng r n)) ^^ k) r) n) = i))"

lemma fresh_index_returns:
  assumes "\<forall>r. 0 \<le> fst (rng r n) \<and> fst (rng r n) < n"
    and "fst (rng (((\<lambda>r. snd (rng r n)) ^^ k) r) n) \<notin> set seen"
  shows "\<exists>i r'. fresh_index rng n seen r = Some (i, r') \<and> i \<notin> set seen \<and> 0 \<le> i \<and> i < n"
  using assms(2)
proof (induction k arbitrary: r)
  case 0
  obtain i r' where ir: "rng r n = (i, r')" by fastforce
  then have "0 \<le> i" "i < n" using assms(1) [rule_format, of r] by auto
  then show ?case using 0 ir by (subst fresh_index.simps) simp
next
  case (Suc k)
  obtain i r' where i: "rng r n = (i, r')" by fastforce
  then have b: "0 \<le> i" "i < n" using assms(1) [rule_format, of r] by auto
  have p: "fst (rng (((\<lambda>r. snd (rng r n)) ^^ k) r') n) \<notin> set seen"
    using Suc.prems i funpow_swap1 [of "\<lambda>r. snd (rng r n)" k r] by simp
  show ?case using Suc.IH [OF p] i b by (subst fresh_index.simps) auto
qed

lemma fresh_index_fair:
  assumes "fair_rng rng n" and "length seen < nat n"
  shows "\<exists>i r'. fresh_index rng n seen r = Some (i, r') \<and> i \<notin> set seen \<and> 0 \<le> i \<and> i < n"
proof -
  have "\<not> {0..<n} \<subseteq> set seen"
  proof
    assume "{0..<n} \<subseteq> set seen"
    then have "card {0..<n} \<le> card (set seen)" by (intro card_mono) auto
    also have "\<dots> \<le> length seen" by (rule card_length)
    finally show False using assms(2) by simp
  qed
  then obtain i where "i \<in> {0..<n}" and u: "i \<notin> set seen" by blast
  then have i: "0 \<le> i" "i < n" by simp_all
  then obtain k where "fst (rng (((\<lambda>r. snd (rng r n)) ^^ k) r) n) = i"
    using assms(1) unfolding fair_rng_def by blast
  then show ?thesis using fresh_index_returns [of rng n k r seen] assms(1) u by (auto simp: fair_rng_def)
qed

lemma sample_loop_ok:
  assumes ok: "rb_ok c rb" and f: "fair_rng rng (rb_count rb)"
  shows "distinct seen \<Longrightarrow> length seen + k \<le> nat (rb_count rb) \<Longrightarrow>
    \<exists>is r'. sample_loop rng rb k seen r = Some (map (\<lambda>i. rb_items rb ! nat i) is, r') \<and> length is = k \<and>
      distinct is \<and> (\<forall>i \<in> set is. 0 \<le> i \<and> i < rb_count rb \<and> i \<notin> set seen)"
proof (induction k arbitrary: seen r)
  case 0
  then show ?case by simp
next
  case (Suc k)
  then have "length seen < nat (rb_count rb)" by simp
  then obtain i r1 where i: "fresh_index rng (rb_count rb) seen r = Some (i, r1)" "i \<notin> set seen" "0 \<le> i" "i < rb_count rb"
    using fresh_index_fair [OF f] by blast
  obtain js r2 where js: "sample_loop rng rb k (i # seen) r1 = Some (map (\<lambda>i. rb_items rb ! nat i) js, r2)"
    "length js = k" "distinct js" "\<forall>j \<in> set js. 0 \<le> j \<and> j < rb_count rb \<and> j \<notin> set (i # seen)"
    using Suc.IH [of "i # seen" r1] Suc.prems i(2) by auto
  have "sample_loop rng rb (Suc k) seen r = Some (map (\<lambda>i. rb_items rb ! nat i) (i # js), r2)"
    using i(1) js(1) sample_at_ok [OF ok i(3,4)] by simp
  then show ?case using i js(2-4) by (intro exI [of _ "i # js"] exI [of _ r2]) auto
qed

section \<open>Properties\<close>

text \<open>
  C26: The ring buffer refines a bounded history: starting from a new buffer of positive capacity, adding any
  list of samples never fails, and \<open>GetAll\<close> then returns exactly the last \<open>capacity\<close> of them in order.
\<close>

theorem RingBuffer_keeps_last:
  assumes "0 < c"
  shows "\<exists>rb rb'. NewRingBuffer c = Some rb \<and> RingBuffer_AddBatch xs rb = Some rb' \<and>
    RingBuffer_GetAll rb' = Some (lastn (nat c) xs) \<and> RingBuffer_Count rb' = min c (len xs)"
proof -
  obtain rb where n: "NewRingBuffer c = Some rb" "rb_ok c rb" "rb_items rb = []"
    using NewRingBuffer_ok [OF assms] by blast
  obtain rb' where a: "foldM RingBuffer_Add xs rb = Some rb'" "rb_ok c rb'" "rb_items rb' = lastn (nat c) xs"
    using rb.put_all_from_empty [OF n(2,3)] by blast
  have "nat (rb_count rb') = min (nat c) (length xs)"
    using arg_cong [OF a(3), of length] by (simp add: rb_items_def)
  then have "rb_count rb' = min c (len xs)"
    using a(2) assms by (auto simp: rb_ok_def ring_ok_def len_def min_def split: if_splits)
  then show ?thesis using n(1) a GetAll_items [OF a(2)] by (auto simp: RingBuffer_AddBatch_def RingBuffer_Count_def)
qed

theorem RingBuffer_keeps_last_witness:
  "\<exists>rb rb'. NewRingBuffer 2 = Some rb \<and>
     RingBuffer_AddBatch (map (\<lambda>i. zero_sample\<lparr>ts_Position := i\<rparr>) [4, 5, 6]) rb = Some rb' \<and>
     RingBuffer_GetAll rb' = Some (map (\<lambda>i. zero_sample\<lparr>ts_Position := i\<rparr>) [5, 6]) \<and> RingBuffer_Count rb' = 2"
  using RingBuffer_keeps_last [of 2 "map (\<lambda>i. zero_sample\<lparr>ts_Position := i\<rparr>) [4, 5, 6]"]
  by (simp add: lastn_def numeral_eq_Suc)

text \<open>
  \<open>Sample\<close> returns whenever its random source stays in range and draws every index sooner or later, and
  then it gives the requested number of samples, capped at the number stored, taken from pairwise different
  positions of the buffer.
\<close>

theorem RingBuffer_Sample_returns:
  assumes "rb_ok c rb" and "fair_rng rng (rb_count rb)" and "0 \<le> batchSize"
  shows "\<exists>is r'. RingBuffer_Sample rng batchSize rb r = Some (map (\<lambda>i. rb_items rb ! nat i) is, r') \<and>
    distinct is \<and> len is = min batchSize (RingBuffer_Count rb) \<and> set is \<subseteq> {0..<RingBuffer_Count rb}"
proof (cases "rb_count rb = 0")
  case True
  then show ?thesis using assms(3)
    by (intro exI [of _ "[]"]) (auto simp: RingBuffer_Sample_def RingBuffer_Count_def)
next
  case False
  let ?b = "if batchSize > rb_count rb then rb_count rb else batchSize"
  have c: "0 \<le> rb_count rb" "nat ?b \<le> nat (rb_count rb)" using assms(1) by (auto simp: rb_ok_def ring_ok_def)
  obtain "is" r' where "sample_loop rng rb (nat ?b) [] r = Some (map (\<lambda>i. rb_items rb ! nat i) is, r')"
    "length is = nat ?b" "distinct is" "\<forall>i \<in> set is. 0 \<le> i \<and> i < rb_count rb"
    using sample_loop_ok [OF assms(1,2), of "[]" "nat ?b" r] c(2) by auto
  then show ?thesis using False c(1) assms(3)
    by (intro exI [of _ "is"] exI [of _ r']) (auto simp: RingBuffer_Sample_def RingBuffer_Count_def len_def Let_def)
qed

text \<open>A counter modulo the bound is a fair source.\<close>

definition counter_rng :: "nat \<Rightarrow> int \<Rightarrow> int \<times> nat" where
  "counter_rng r n = (int r mod n, Suc r)"

lemma counter_rng_fair: "0 < n \<Longrightarrow> fair_rng counter_rng n"
  unfolding fair_rng_def
proof (intro conjI allI impI)
  fix r :: nat and i :: int
  assume n: "0 < n" and i: "0 \<le> i \<and> i < n"
  have s: "((\<lambda>r. snd (counter_rng r n)) ^^ k) r = r + k" for k
    by (induction k) (auto simp: counter_rng_def)
  let ?k = "nat ((i - int r) mod n)"
  have "int (r + ?k) = int r + (i - int r) mod n" using n by simp
  then have "int (r + ?k) mod n = i" using i by (simp add: mod_simps)
  then show "\<exists>k. fst (counter_rng (((\<lambda>r. snd (counter_rng r n)) ^^ k) r) n) = i"
    unfolding s by (intro exI [of _ ?k]) (simp add: counter_rng_def)
qed (simp_all add: counter_rng_def)

theorem RingBuffer_Sample_returns_witness:
  "\<exists>is r'. RingBuffer_Sample counter_rng 5 \<lparr>rb_samples = replicate 3 zero_sample, rb_capacity = 3, rb_head = 1, rb_count = 3\<rparr> 0 =
     Some (map (\<lambda>i. rb_items \<lparr>rb_samples = replicate 3 zero_sample, rb_capacity = 3, rb_head = 1, rb_count = 3\<rparr> ! nat i) is, r') \<and>
     distinct is \<and> len is = 3 \<and> set is \<subseteq> {0..<3}"
proof -
  let ?rb = "\<lparr>rb_samples = replicate 3 zero_sample, rb_capacity = 3, rb_head = 1, rb_count = 3\<rparr>"
  have "rb_ok 3 ?rb" by (simp add: rb_ok_def ring_ok_def)
  from RingBuffer_Sample_returns [OF this, of counter_rng 5 0] counter_rng_fair [of 3]
  show ?thesis by (simp add: RingBuffer_Count_def)
qed

end
