(* ===== verification/Adaptive_Draft.thy ===== *)
theory Adaptive_Draft
  imports Ring
begin

text \<open>
  The file \<open>inference/scheduler/adaptive_draft.go\<close>: the number of draft tokens follows the acceptance rate
  over a window of recent steps. The \<open>float64\<close> operations it uses are a record, so the theorems hold for
  any rounding; literals and thresholds are values of the float type.
\<close>

record 'r F64 =
  f64_zero :: 'r
  f64_of_int :: "int \<Rightarrow> 'r"
  f64_add :: "'r \<Rightarrow> 'r \<Rightarrow> 'r"
  f64_div :: "'r \<Rightarrow> 'r \<Rightarrow> 'r"
  f64_less :: "'r \<Rightarrow> 'r \<Rightarrow> bool"

record 'r AdaptiveConfig =
  ac_InitialDraftTokens :: int
  ac_MinDraftTokens :: int
  ac_MaxDraftTokens :: int
  ac_WindowSize :: int
  ac_IncreaseThreshold :: 'r
  ac_DecreaseThreshold :: 'r

text \<open>The default thresholds are 0.80 and 0.40.\<close>

definition DefaultAdaptiveConfig :: "'r \<Rightarrow> 'r \<Rightarrow> 'r AdaptiveConfig" where
  "DefaultAdaptiveConfig c080 c040 =
     \<lparr>ac_InitialDraftTokens = 4, ac_MinDraftTokens = 1, ac_MaxDraftTokens = 8, ac_WindowSize = 10,
      ac_IncreaseThreshold = c080, ac_DecreaseThreshold = c040\<rparr>"

record acceptanceEntry =
  ae_accepted :: int
  ae_drafted :: int

record 'r AdaptiveDraftLength =
  ad_config :: "'r AdaptiveConfig"
  ad_current :: int
  ad_window :: "acceptanceEntry list"
  ad_head :: int
  ad_count :: int

definition NewAdaptiveDraftLength :: "'r AdaptiveConfig \<Rightarrow> 'r AdaptiveDraftLength option" where
  "NewAdaptiveDraftLength config =
     do { window \<leftarrow> make_slice (ac_WindowSize config) \<lparr>ae_accepted = 0, ae_drafted = 0\<rparr>;
          Some \<lparr>ad_config = config, ad_current = ac_InitialDraftTokens config, ad_window = window,
                ad_head = 0, ad_count = 0\<rparr> }"

definition NumDraftTokens :: "'r AdaptiveDraftLength \<Rightarrow> int" where
  "NumDraftTokens ad = ad_current ad"

fun rate_sum :: "'r F64 \<Rightarrow> acceptanceEntry list \<Rightarrow> 'r \<Rightarrow> 'r" where
  "rate_sum F [] acc = acc"
| "rate_sum F (e # es) acc =
     rate_sum F es (if ae_drafted e > 0
                    then f64_add F acc (f64_div F (f64_of_int F (ae_accepted e)) (f64_of_int F (ae_drafted e)))
                    else acc)"

text \<open>The loop reads the first \<open>count\<close> slots of the window, which panics if there are fewer.\<close>

definition windowRate :: "'r F64 \<Rightarrow> 'r AdaptiveDraftLength \<Rightarrow> 'r option" where
  "windowRate F ad =
     (if ad_count ad = 0 then Some (f64_zero F)
      else if ad_count ad < 0 then Some (f64_div F (f64_zero F) (f64_of_int F (ad_count ad)))
      else do { es \<leftarrow> slice (ad_window ad) 0 (ad_count ad);
                Some (f64_div F (rate_sum F es (f64_zero F)) (f64_of_int F (ad_count ad))) })"

definition WindowAcceptanceRate :: "'r F64 \<Rightarrow> 'r AdaptiveDraftLength \<Rightarrow> 'r option" where
  "WindowAcceptanceRate F ad = windowRate F ad"

text \<open>The write into the circular buffer, and the adjustment once the window is full.\<close>

definition record_entry :: "acceptanceEntry \<Rightarrow> 'r AdaptiveDraftLength \<Rightarrow> 'r AdaptiveDraftLength option" where
  "record_entry e ad =
     do { window \<leftarrow> upd (ad_window ad) (ad_head ad) e;
          head \<leftarrow> go_mod (ad_head ad + 1) (ac_WindowSize (ad_config ad));
          Some (ad\<lparr>ad_window := window, ad_head := head,
                   ad_count := (if ad_count ad < ac_WindowSize (ad_config ad) then ad_count ad + 1 else ad_count ad)\<rparr>) }"

definition adjust :: "'r F64 \<Rightarrow> 'r AdaptiveDraftLength \<Rightarrow> 'r AdaptiveDraftLength option" where
  "adjust F ad =
     do { rate \<leftarrow> windowRate F ad;
          let c = ad_config ad;
          let n1 = (if f64_less F (ac_IncreaseThreshold c) rate then ad_current ad + 1
                    else if f64_less F rate (ac_DecreaseThreshold c) then ad_current ad - 1
                    else ad_current ad);
          let n2 = (if n1 < ac_MinDraftTokens c then ac_MinDraftTokens c else n1);
          let n3 = (if n2 > ac_MaxDraftTokens c then ac_MaxDraftTokens c else n2);
          Some (ad\<lparr>ad_current := n3\<rparr>) }"

definition RecordStep :: "'r F64 \<Rightarrow> int \<Rightarrow> int \<Rightarrow> 'r AdaptiveDraftLength \<Rightarrow> 'r AdaptiveDraftLength option" where
  "RecordStep F accepted drafted ad =
     (if drafted \<le> 0 then Some ad
      else do { ad1 \<leftarrow> record_entry \<lparr>ae_accepted = accepted, ae_drafted = drafted\<rparr> ad;
                if ad_count ad1 < ac_WindowSize (ad_config ad1) then Some ad1 else adjust F ad1 })"

section \<open>The window as a ring\<close>

definition ad_items :: "'r AdaptiveDraftLength \<Rightarrow> acceptanceEntry list" where
  "ad_items ad = ring_items (ad_window ad) (ad_head ad) (ad_count ad)"

definition ad_ok :: "'r AdaptiveConfig \<Rightarrow> 'r AdaptiveDraftLength \<Rightarrow> bool" where
  "ad_ok c ad \<longleftrightarrow> ad_config ad = c \<and> ring_ok (ad_window ad) (ad_head ad) (ad_count ad) (ac_WindowSize c) \<and>
     ac_MinDraftTokens c \<le> ad_current ad \<and> ad_current ad \<le> ac_MaxDraftTokens c"

lemma record_entry_ok:
  assumes "ad_ok c ad"
  shows "\<exists>ad'. record_entry e ad = Some ad' \<and> ad_ok c ad' \<and>
    ad_items ad' = lastn (nat (ac_WindowSize c)) (ad_items ad @ [e])"
    and "record_entry e ad = Some ad' \<Longrightarrow> ad_current ad' = ad_current ad"
proof -
  have r: "ring_ok (ad_window ad) (ad_head ad) (ad_count ad) (ac_WindowSize c)" and c: "ad_config ad = c"
    using assms by (auto simp: ad_ok_def)
  have "upd (ad_window ad) (ad_head ad) e = Some ((ad_window ad)[nat (ad_head ad) := e])"
    "go_mod (ad_head ad + 1) (ac_WindowSize c) = Some ((ad_head ad + 1) mod ac_WindowSize c)"
    using r by (auto simp: ring_ok_def upd_Some)
  then show "\<exists>ad'. record_entry e ad = Some ad' \<and> ad_ok c ad' \<and>
    ad_items ad' = lastn (nat (ac_WindowSize c)) (ad_items ad @ [e])"
    using ring_put [OF r, of e] c assms by (simp add: record_entry_def ad_ok_def ad_items_def)
  show "record_entry e ad = Some ad' \<Longrightarrow> ad_current ad' = ad_current ad"
    by (auto simp: record_entry_def split: Option.bind_splits)
qed

interpretation ad: ring record_entry ad_items "nat (ac_WindowSize c)" "ad_ok c" for c :: "'r AdaptiveConfig"
  by unfold_locales (rule record_entry_ok(1))

lemma windowRate_total: "ad_ok c ad \<Longrightarrow> \<exists>r. windowRate F ad = Some r"
  by (auto simp: windowRate_def ad_ok_def ring_ok_def slice_def)

lemma adjust_ok:
  assumes "ad_ok c ad"
  shows "\<exists>ad'. adjust F ad = Some ad' \<and> ad_ok c ad' \<and> ad_items ad' = ad_items ad \<and>
    \<bar>NumDraftTokens ad' - NumDraftTokens ad\<bar> \<le> 1"
proof -
  obtain r where "windowRate F ad = Some r" using windowRate_total [OF assms] by blast
  then show ?thesis
    using assms by (auto simp: adjust_def Let_def ad_ok_def ad_items_def NumDraftTokens_def)
qed

lemma RecordStep_ok:
  assumes "ad_ok c ad"
  shows "\<exists>ad'. RecordStep F a d ad = Some ad' \<and> ad_ok c ad' \<and> \<bar>NumDraftTokens ad' - NumDraftTokens ad\<bar> \<le> 1 \<and>
    ad_items ad' = (if d \<le> 0 then ad_items ad
      else lastn (nat (ac_WindowSize c)) (ad_items ad @ [\<lparr>ae_accepted = a, ae_drafted = d\<rparr>])) \<and>
    (ad_count ad' < ac_WindowSize c \<longrightarrow> NumDraftTokens ad' = NumDraftTokens ad)"
proof (cases "d \<le> 0")
  case True
  then show ?thesis using assms by (simp add: RecordStep_def)
next
  case False
  let ?e = "\<lparr>ae_accepted = a, ae_drafted = d\<rparr>"
  obtain ad1 where 1: "record_entry ?e ad = Some ad1" "ad_ok c ad1"
    "ad_items ad1 = lastn (nat (ac_WindowSize c)) (ad_items ad @ [?e])" "ad_current ad1 = ad_current ad"
    using record_entry_ok [OF assms] by blast
  obtain ad2 where 2: "adjust F ad1 = Some ad2" "ad_ok c ad2" "ad_items ad2 = ad_items ad1"
    "\<bar>NumDraftTokens ad2 - NumDraftTokens ad1\<bar> \<le> 1"
    using adjust_ok [OF 1(2)] by blast
  have n: "ad_count ad2 = ad_count ad1"
    using 2(1) by (auto simp: adjust_def Let_def split: Option.bind_splits)
  have c1: "ad_config ad1 = c" using 1(2) by (simp add: ad_ok_def)
  show ?thesis
    using False 1 2 n c1 by (auto simp: RecordStep_def NumDraftTokens_def)
qed

text \<open>
  C27: The adaptive draft length over any history of steps: with a positive window and
  \<open>Min \<le> Initial \<le> Max\<close>, recording never panics, the length stays between the bounds whatever the floating
  point results are, stays at \<open>Initial\<close> until the window is full, moves by at most one per step, and the
  window holds the most recent steps that drafted anything.
\<close>

theorem AdaptiveDraft_bounds:
  assumes "0 < ac_WindowSize c" and "ac_MinDraftTokens c \<le> ac_InitialDraftTokens c"
    and "ac_InitialDraftTokens c \<le> ac_MaxDraftTokens c"
  shows "\<exists>ad ad' ad''. NewAdaptiveDraftLength c = Some ad \<and>
    foldM (\<lambda>(a, d). RecordStep F a d) steps ad = Some ad' \<and> RecordStep F a d ad' = Some ad'' \<and>
    ac_MinDraftTokens c \<le> NumDraftTokens ad' \<and> NumDraftTokens ad' \<le> ac_MaxDraftTokens c \<and>
    \<bar>NumDraftTokens ad'' - NumDraftTokens ad'\<bar> \<le> 1 \<and>
    (ac_WindowSize c \<le> ad_count ad' \<or> NumDraftTokens ad' = ac_InitialDraftTokens c) \<and>
    map (\<lambda>e. (ae_accepted e, ae_drafted e)) (ad_items ad') =
      lastn (nat (ac_WindowSize c)) (filter (\<lambda>(a, d). 0 < d) steps)"
proof -
  obtain ad where n: "NewAdaptiveDraftLength c = Some ad" "ad_ok c ad" "ad_items ad = []" "ad_current ad = ac_InitialDraftTokens c"
    using assms by (auto simp: NewAdaptiveDraftLength_def make_slice_def ad_ok_def ring_ok_def ad_items_def ring_items_def)
  let ?pr = "\<lambda>e. (ae_accepted e, ae_drafted e)" and ?W = "nat (ac_WindowSize c)"
  have map_lastn: "map ?pr (lastn ?W xs) = lastn ?W (map ?pr xs)" for xs by (simp add: lastn_def drop_map)
  have "\<exists>ad'. foldM (\<lambda>(a, d). RecordStep F a d) steps ad = Some ad' \<and> ad_ok c ad' \<and>
      (ac_WindowSize c \<le> ad_count ad' \<or> NumDraftTokens ad' = ac_InitialDraftTokens c) \<and>
      map ?pr (ad_items ad') = lastn ?W (filter (\<lambda>(a, d). 0 < d) steps)"
  proof (induction steps rule: rev_induct)
    case Nil
    then show ?case using n by (simp add: NumDraftTokens_def lastn_def)
  next
    case (snoc x xs)
    obtain a d where x: "x = (a, d)" by fastforce
    from snoc obtain t where t: "foldM (\<lambda>(a, d). RecordStep F a d) xs ad = Some t" "ad_ok c t"
      "ac_WindowSize c \<le> ad_count t \<or> NumDraftTokens t = ac_InitialDraftTokens c"
      "map ?pr (ad_items t) = lastn ?W (filter (\<lambda>(a, d). 0 < d) xs)" by blast
    obtain t' where t': "RecordStep F a d t = Some t'" "ad_ok c t'"
      "ad_items t' = (if d \<le> 0 then ad_items t else lastn ?W (ad_items t @ [\<lparr>ae_accepted = a, ae_drafted = d\<rparr>]))"
      "ad_count t' < ac_WindowSize c \<longrightarrow> NumDraftTokens t' = NumDraftTokens t"
      using RecordStep_ok [OF t(2)] by blast
    have cnt: "ad_count t \<le> ad_count t'"
      using t'(1) t(2) by (auto simp: RecordStep_def record_entry_def adjust_def Let_def split: if_splits Option.bind_splits)
    have "map ?pr (ad_items t') = lastn ?W (filter (\<lambda>(a, d). 0 < d) (xs @ [x]))"
      using t'(3) t(4) x lastn_lastn_append [of ?W "filter (\<lambda>(a, d). 0 < d) xs" "[(a, d)]"]
      by (auto simp: map_lastn)
    then show ?case using t t' x cnt by (auto simp: foldM_append)
  qed
  then obtain ad' where ad': "foldM (\<lambda>(a, d). RecordStep F a d) steps ad = Some ad'" "ad_ok c ad'"
      "ac_WindowSize c \<le> ad_count ad' \<or> NumDraftTokens ad' = ac_InitialDraftTokens c"
      "map ?pr (ad_items ad') = lastn ?W (filter (\<lambda>(a, d). 0 < d) steps)" by blast
  obtain ad'' where "RecordStep F a d ad' = Some ad''" "\<bar>NumDraftTokens ad'' - NumDraftTokens ad'\<bar> \<le> 1"
    using RecordStep_ok [OF ad'(2)] by blast
  then show ?thesis using n(1) ad' by (auto simp: ad_ok_def NumDraftTokens_def)
qed

text \<open>Integer arithmetic in place of the floats.\<close>

definition int_f64 :: "int F64" where
  "int_f64 = \<lparr>f64_zero = 0, f64_of_int = (\<lambda>i. 100 * i), f64_add = (+), f64_div = (\<lambda>a b. (100 * a) div b), f64_less = (<)\<rparr>"

theorem AdaptiveDraft_bounds_witness:
  "\<exists>ad ad' ad''. NewAdaptiveDraftLength (DefaultAdaptiveConfig 80 40) = Some ad \<and>
    foldM (\<lambda>(a, d). RecordStep int_f64 a d) (replicate 12 (4, 4)) ad = Some ad' \<and>
    RecordStep int_f64 0 0 ad' = Some ad'' \<and>
    1 \<le> NumDraftTokens ad' \<and> NumDraftTokens ad' \<le> 8 \<and> \<bar>NumDraftTokens ad'' - NumDraftTokens ad'\<bar> \<le> 1"
  using AdaptiveDraft_bounds [of "DefaultAdaptiveConfig 80 40" int_f64 "replicate 12 (4, 4)" 0 0]
  by (auto simp: DefaultAdaptiveConfig_def)

end
