(* ===== verification/Speculative.thy ===== *)
theory Speculative
  imports Scheduler Adaptive_Draft
begin

text \<open>
  Speculative decoding: \<open>inference/scheduler/speculative.go\<close>, \<open>self_speculative.go\<close> and
  \<open>speculative_scheduler.go\<close>. A draft model proposes tokens, the target model verifies them in one pass and
  the caches are rolled back to what was accepted. The two models are two engines; the softmax probability
  of a token is the parameter \<open>prob\<close>. Times are left out.
\<close>

record SpeculativeConfig =
  sp_NumDraftTokens :: int
  sp_AcceptanceThreshold :: f32

definition DefaultSpeculativeConfig :: SpeculativeConfig where
  "DefaultSpeculativeConfig = \<lparr>sp_NumDraftTokens = 4, sp_AcceptanceThreshold = 0\<rparr>"

record SpeculativeMetrics =
  pm_DraftTokensGenerated :: int
  pm_DraftTokensAccepted :: int
  pm_VerificationSteps :: int

definition zero_spec_metrics :: SpeculativeMetrics where
  "zero_spec_metrics = \<lparr>pm_DraftTokensGenerated = 0, pm_DraftTokensAccepted = 0, pm_VerificationSteps = 0\<rparr>"

definition AcceptanceRate :: "'r F64 \<Rightarrow> SpeculativeMetrics \<Rightarrow> 'r" where
  "AcceptanceRate F m =
     (if pm_DraftTokensGenerated m = 0 then f64_zero F
      else f64_div F (f64_of_int F (pm_DraftTokensAccepted m)) (f64_of_int F (pm_DraftTokensGenerated m)))"

definition Speedup :: "'r F64 \<Rightarrow> SpeculativeMetrics \<Rightarrow> 'r" where
  "Speedup F m =
     (if pm_VerificationSteps m = 0 then f64_of_int F 1
      else f64_div F (f64_of_int F (pm_DraftTokensAccepted m + pm_VerificationSteps m)) (f64_of_int F (pm_VerificationSteps m)))"

section \<open>Logits\<close>

text \<open>A nil pointer gives nil; on the CPU the slice expression panics beyond the tensor.\<close>

definition getLogitsSlice ::
  "('f, 'd, 's) Engine \<Rightarrow> ('f, 'd) Runtime \<Rightarrow> Tensor \<Rightarrow> int \<Rightarrow> f32 list option option" where
  "getLogitsSlice e rt logits numElements =
     (let ptr = t_devicePtr logits in
      if DevicePtr_IsNil ptr then Some None
      else if DevicePtr_Location ptr = CPU
      then map_option Some (slice (map (en_cpu e rt ptr) [0..<nat (Tensor_NumElements logits)]) 0 numElements)
      else if numElements \<le> 0 then None
      else do { d \<leftarrow> rt_backend rt; Some (Some (map (en_host e d ptr) [0..<nat numElements])) })"

definition getTokenProbability :: "(f32 list \<Rightarrow> int \<Rightarrow> f32) \<Rightarrow> f32 list \<Rightarrow> int \<Rightarrow> f32" where
  "getTokenProbability prob logits tokenID =
     (if tokenID < 0 \<or> tokenID \<ge> len logits then 0 else prob logits tokenID)"

section \<open>Drafting\<close>

text \<open>
  One forward pass per draft token; the loop stops early without logits. The result is the error, if any,
  with the tokens and probabilities so far.
\<close>

type_synonym ('f, 'd) draft_forward = "int \<Rightarrow> int \<Rightarrow> ('f, 'd) forward"

fun draft_loop ::
  "('f, 'd, 's) Engine \<Rightarrow> (f32 list \<Rightarrow> int \<Rightarrow> f32) \<Rightarrow> ('f, 'd) draft_forward \<Rightarrow> nat \<Rightarrow> int \<Rightarrow> int \<Rightarrow> int list \<Rightarrow> f32 list \<Rightarrow>
   's \<Rightarrow> ('f, 'd) Runtime \<Rightarrow> (string option \<times> int list \<times> f32 list \<times> 's \<times> ('f, 'd) Runtime) option" where
  "draft_loop e prob fwd 0 token pos ts ps sm rt = Some (None, ts, ps, sm, rt)"
| "draft_loop e prob fwd (Suc k) token pos ts ps sm rt =
     (case fwd token pos rt of
        (Inl err, rt1) \<Rightarrow> Some (Some err, ts, ps, sm, rt1)
      | (Inr logits, rt1) \<Rightarrow>
          do { data \<leftarrow> getLogitsSlice e rt1 logits (en_vocab e);
               case data of
                 None \<Rightarrow> Some (None, ts, ps, sm, rt1)
               | Some xs \<Rightarrow>
                   let (tokenID, sm1) = en_Sample e sm xs; p = getTokenProbability prob xs tokenID
                   in draft_loop e prob fwd k tokenID (pos + 1) (ts @ [tokenID]) (ps @ [p]) sm1 rt1 })"

record 's SpeculativeDecoder =
  sd_sampler :: 's
  sd_NumDraftTokens :: int
  sd_metrics :: SpeculativeMetrics

text \<open>A negative \<open>NumDraftTokens\<close> makes \<open>make\<close> panic; without a GPU cache nothing is drafted.\<close>

definition generate_drafts ::
  "('f, 'd, 's) Engine \<Rightarrow> (f32 list \<Rightarrow> int \<Rightarrow> f32) \<Rightarrow> ('f, 'd) draft_forward \<Rightarrow> int \<Rightarrow> int \<Rightarrow> 's SpeculativeDecoder \<Rightarrow>
   ('f, 'd) Runtime \<Rightarrow> (string option \<times> int list \<times> f32 list \<times> 's SpeculativeDecoder \<times> ('f, 'd) Runtime) option" where
  "generate_drafts e prob fwd inputToken startPos sd rt =
     (if sd_NumDraftTokens sd < 0 then None
      else if rt_gpu rt = None then Some (None, [], [], sd, rt)
      else do { (err, ts, ps, sm, rt1) \<leftarrow>
                  draft_loop e prob fwd (nat (sd_NumDraftTokens sd)) inputToken startPos [] [] (sd_sampler sd) rt;
                let sd1 = sd\<lparr>sd_sampler := sm\<rparr>;
                let m = sd_metrics sd1;
                Some (err, ts, ps,
                      (if err = None
                       then sd1\<lparr>sd_metrics := m\<lparr>pm_DraftTokensGenerated := pm_DraftTokensGenerated m + len ts\<rparr>\<rparr>
                       else sd1), rt1) })"

definition GenerateDraftTokensFrom where
  "GenerateDraftTokensFrom e prob inputToken startPos sd rt =
     generate_drafts e prob (\<lambda>t p. en_DecodeWithGPUKV e [t] p) inputToken startPos sd rt"

text \<open>Self-speculation drafts with the first layers of the model only.\<close>

definition Self_GenerateDraftTokens where
  "Self_GenerateDraftTokens e prob earlyExit draftLayers inputToken startPos sd rt =
     generate_drafts e prob (\<lambda>t p. earlyExit [t] p draftLayers) inputToken startPos sd rt"

section \<open>Verification\<close>

text \<open>Acceptance of the draft token at index \<open>i\<close>; \<open>draftProbs[i]\<close> is read only if the tokens differ.\<close>

definition accepts ::
  "(f32 list \<Rightarrow> int \<Rightarrow> f32) \<Rightarrow> f32 list \<Rightarrow> f32 list \<Rightarrow> int \<Rightarrow> int \<Rightarrow> int \<Rightarrow> bool option" where
  "accepts prob targetLogits draftProbs i draftToken targetToken =
     (let targetProb = getTokenProbability prob targetLogits draftToken in
      if draftToken = targetToken then Some True
      else do { p \<leftarrow> idx draftProbs i; Some (f32_le p targetProb) })"

text \<open>The verification loop: the accepted count, and the correction if a token was rejected.\<close>

fun verify_loop ::
  "('f, 'd, 's) Engine \<Rightarrow> (f32 list \<Rightarrow> int \<Rightarrow> f32) \<Rightarrow> f32 list \<Rightarrow> f32 list \<Rightarrow> int \<Rightarrow> int list \<Rightarrow> int \<Rightarrow> 's \<Rightarrow>
   (int \<times> (int \<times> f32 list) option \<times> 's) option" where
  "verify_loop e prob allLogits draftProbs i [] n sm = Some (n, None, sm)"
| "verify_loop e prob allLogits draftProbs i (draftToken # rest) n sm =
     do { targetLogits \<leftarrow> slice allLogits (i * en_vocab e) ((i + 1) * en_vocab e);
          let (targetToken, sm1) = en_Sample e sm targetLogits;
          acc \<leftarrow> accepts prob targetLogits draftProbs i draftToken targetToken;
          if acc then verify_loop e prob allLogits draftProbs (i + 1) rest (n + 1) sm1
          else Some (n, Some (targetToken, targetLogits), sm1) }"

record spec_result =
  sr_numAccepted :: int
  sr_finalToken :: int
  sr_finalLogits :: "f32 list option"

definition no_result :: spec_result where
  "no_result = \<lparr>sr_numAccepted = 0, sr_finalToken = 0, sr_finalLogits = None\<rparr>"

text \<open>After the loop: the bonus token from the logits behind the last draft token.\<close>

definition verify_logits ::
  "('f, 'd, 's) Engine \<Rightarrow> (f32 list \<Rightarrow> int \<Rightarrow> f32) \<Rightarrow> f32 list \<Rightarrow> int list \<Rightarrow> f32 list \<Rightarrow> 's \<Rightarrow> (spec_result \<times> 's) option" where
  "verify_logits e prob allLogits draftTokens draftProbs sm =
     do { (n, rejected, sm1) \<leftarrow> verify_loop e prob allLogits draftProbs 0 draftTokens 0 sm;
          case rejected of
            Some (t, logits) \<Rightarrow> Some (\<lparr>sr_numAccepted = n, sr_finalToken = t, sr_finalLogits = Some logits\<rparr>, sm1)
          | None \<Rightarrow>
              do { final \<leftarrow> slice allLogits (len draftTokens * en_vocab e) (len allLogits);
                   let (t, sm2) = en_Sample e sm1 final;
                   Some (\<lparr>sr_numAccepted = n, sr_finalToken = t, sr_finalLogits = Some final\<rparr>, sm2) } }"

definition verify_drafts ::
  "('f, 'd, 's) Engine \<Rightarrow> (f32 list \<Rightarrow> int \<Rightarrow> f32) \<Rightarrow> int \<Rightarrow> int \<Rightarrow> int list \<Rightarrow> f32 list \<Rightarrow> 's SpeculativeDecoder \<Rightarrow>
   ('f, 'd) Runtime \<Rightarrow> (string option \<times> spec_result \<times> 's SpeculativeDecoder \<times> ('f, 'd) Runtime) option" where
  "verify_drafts e prob startPos inputToken draftTokens draftProbs sd rt =
     (let m = sd_metrics sd; sd0 = sd\<lparr>sd_metrics := m\<lparr>pm_VerificationSteps := pm_VerificationSteps m + 1\<rparr>\<rparr>;
          verifyTokens = inputToken # draftTokens
      in case en_DecodeWithGPUKV e verifyTokens startPos rt of
           (Inl err, rt1) \<Rightarrow> Some (Some err, no_result, sd0, rt1)
         | (Inr logits, rt1) \<Rightarrow>
             do { data \<leftarrow> getLogitsSlice e rt1 logits (len verifyTokens * en_vocab e);
                  case data of
                    None \<Rightarrow> Some (None, no_result, sd0, rt1)
                  | Some allLogits \<Rightarrow>
                      do { (r, sm) \<leftarrow> verify_logits e prob allLogits draftTokens draftProbs (sd_sampler sd0);
                           let m1 = sd_metrics sd0;
                           Some (None, r,
                             sd0\<lparr>sd_sampler := sm,
                                 sd_metrics := m1\<lparr>pm_DraftTokensAccepted := pm_DraftTokensAccepted m1 + sr_numAccepted r\<rparr>\<rparr>,
                             rt1) } })"

definition VerifyDraftTokens where
  "VerifyDraftTokens e prob startPos inputToken draftTokens draftProbs sd rt =
     (if len draftTokens = 0 then Some (None, no_result, sd, rt)
      else verify_drafts e prob startPos inputToken draftTokens draftProbs sd rt)"

text \<open>The self-speculative decoder first truncates the cache that its own drafts have written.\<close>

definition Self_VerifyDraftTokens where
  "Self_VerifyDraftTokens e prob startPos inputToken draftTokens draftProbs sd rt =
     (if len draftTokens = 0 then Some (None, no_result, sd, rt)
      else verify_drafts e prob startPos inputToken draftTokens draftProbs sd
             (rt\<lparr>rt_gpu := map_option (\<lambda>c. GPUKVCache_Truncate c startPos) (rt_gpu rt)\<rparr>))"

text \<open>The variant on given logits: it stops where the logits end.\<close>

fun against_loop ::
  "('f, 'd, 's) Engine \<Rightarrow> (f32 list \<Rightarrow> int \<Rightarrow> f32) \<Rightarrow> f32 list \<Rightarrow> f32 list \<Rightarrow> int \<Rightarrow> int list \<Rightarrow> int \<Rightarrow> 's \<Rightarrow>
   (int \<times> (int \<times> f32 list) option \<times> 's) option" where
  "against_loop e prob allLogits draftProbs i [] n sm = Some (n, None, sm)"
| "against_loop e prob allLogits draftProbs i (draftToken # rest) n sm =
     (if (i + 1) * en_vocab e > len allLogits then Some (n, None, sm)
      else
        do { targetLogits \<leftarrow> slice allLogits (i * en_vocab e) ((i + 1) * en_vocab e);
             let (targetToken, sm1) = en_Sample e sm targetLogits;
             acc \<leftarrow> accepts prob targetLogits draftProbs i draftToken targetToken;
             if acc then against_loop e prob allLogits draftProbs (i + 1) rest (n + 1) sm1
             else Some (n, Some (targetToken, targetLogits), sm1) })"

definition verifyDraftAgainstLogits ::
  "('f, 'd, 's) Engine \<Rightarrow> (f32 list \<Rightarrow> int \<Rightarrow> f32) \<Rightarrow> f32 list \<Rightarrow> int list \<Rightarrow> f32 list \<Rightarrow> 's \<Rightarrow> (spec_result \<times> 's) option" where
  "verifyDraftAgainstLogits e prob allLogits draftTokens draftProbs sm =
     (if len draftTokens = 0 \<or> len allLogits = 0 then Some (no_result, sm)
      else
        do { (n, rejected, sm1) \<leftarrow> against_loop e prob allLogits draftProbs 0 draftTokens 0 sm;
             case rejected of
               Some (t, logits) \<Rightarrow> Some (\<lparr>sr_numAccepted = n, sr_finalToken = t, sr_finalLogits = Some logits\<rparr>, sm1)
             | None \<Rightarrow>
                 let bonusStart = len draftTokens * en_vocab e in
                 if bonusStart + en_vocab e \<le> len allLogits then
                   do { final \<leftarrow> slice allLogits bonusStart (bonusStart + en_vocab e);
                        let (t, sm2) = en_Sample e sm1 final;
                        Some (\<lparr>sr_numAccepted = n, sr_finalToken = t, sr_finalLogits = Some final\<rparr>, sm2) }
                 else Some (\<lparr>sr_numAccepted = n, sr_finalToken = 0, sr_finalLogits = None\<rparr>, sm1) })"

section \<open>The speculative scheduler\<close>

record ('f, 'd, 's, 'r) SpeculativeScheduler =
  ss_base :: "('f, 'd, 's) Scheduler"
  ss_draftRuntime :: "('f, 'd) Runtime"
  ss_decoder :: "'s SpeculativeDecoder"
  ss_specMetrics :: SpeculativeMetrics
  ss_adaptive :: "'r AdaptiveDraftLength"

definition NewSpeculativeScheduler ::
  "'r \<Rightarrow> 'r \<Rightarrow> ('f, 'd, 's) Scheduler \<Rightarrow> ('f, 'd) Runtime \<Rightarrow> 's \<Rightarrow> SpeculativeConfig \<Rightarrow> ('f, 'd, 's, 'r) SpeculativeScheduler option" where
  "NewSpeculativeScheduler c080 c040 base draft sampler specConfig =
     do { ad \<leftarrow> NewAdaptiveDraftLength
            \<lparr>ac_InitialDraftTokens = sp_NumDraftTokens specConfig, ac_MinDraftTokens = 1, ac_MaxDraftTokens = 8,
             ac_WindowSize = 10, ac_IncreaseThreshold = c080, ac_DecreaseThreshold = c040\<rparr>;
          Some \<lparr>ss_base = base, ss_draftRuntime = draft,
                ss_decoder = \<lparr>sd_sampler = sampler, sd_NumDraftTokens = sp_NumDraftTokens specConfig,
                              sd_metrics = zero_spec_metrics\<rparr>,
                ss_specMetrics = zero_spec_metrics, ss_adaptive = ad\<rparr> }"

text \<open>The accepted tokens and the final one enter the sequence until it finishes.\<close>

fun emit_accepted :: "('f, 'd, 's) Engine \<Rightarrow> int \<Rightarrow> int list \<Rightarrow> Sequence \<Rightarrow> Sequence option" where
  "emit_accepted e globalMax [] q = Some q"
| "emit_accepted e globalMax (tokenID # rest) q =
     do { q1 \<leftarrow> emit_token e globalMax tokenID (enter_decode q);
          if sq_state q1 = StateFinished then Some q1 else emit_accepted e globalMax rest q1 }"

definition prefillDraftModel ::
  "('f, 'd, 's) Engine \<Rightarrow> int list \<Rightarrow> ('f, 'd) Runtime \<Rightarrow> string option \<times> ('f, 'd) Runtime" where
  "prefillDraftModel ed promptTokens rt =
     (if len promptTokens = 0 then (None, rt)
      else case en_DecodeWithGPUKV ed promptTokens 0 (rt\<lparr>rt_gpu := map_option GPUKVCache_Reset (rt_gpu rt)\<rparr>) of
             (Inl err, rt1) \<Rightarrow> (Some err, rt1)
           | (Inr _, rt1) \<Rightarrow> (None, rt1))"

definition truncate_gpu :: "int \<Rightarrow> ('f, 'd) Runtime \<Rightarrow> ('f, 'd) Runtime" where
  "truncate_gpu n rt = rt\<lparr>rt_gpu := map_option (\<lambda>c. GPUKVCache_Truncate c n) (rt_gpu rt)\<rparr>"

text \<open>The fall back to the standard step, on the state the attempt has left.\<close>

definition standard_step where
  "standard_step e batch ss =
     do { (err, b) \<leftarrow> runDecodeStep e batch (ss_base ss); Some (err, ss\<lparr>ss_base := b\<rparr>) }"

text \<open>Steps 4 to 7 of the speculative step, once the drafts are verified.\<close>

definition finish_speculation ::
  "'r F64 \<Rightarrow> ('f, 'd, 's) Engine \<Rightarrow> SequenceID \<Rightarrow> int \<Rightarrow> int list \<Rightarrow> spec_result \<Rightarrow> ('f, 'd, 's, 'r) SpeculativeScheduler \<Rightarrow>
   (string option \<times> ('f, 'd, 's, 'r) SpeculativeScheduler) option" where
  "finish_speculation F e i pos draftTokens r ss =
     do { ad \<leftarrow> RecordStep F (sr_numAccepted r) (len draftTokens) (ss_adaptive ss);
          let b = ss_base ss;
          let b1 = b\<lparr>sc_runtime := truncate_gpu (pos + 1 + sr_numAccepted r) (sc_runtime b)\<rparr>;
          accepted \<leftarrow> slice draftTokens 0 (sr_numAccepted r);
          let acceptedTokens = accepted @ [sr_finalToken r];
          q \<leftarrow> sc_sequences b1 i;
          q1 \<leftarrow> emit_accepted e (sf_MaxTokens (sc_config b1)) acceptedTokens q;
          Some (None, ss\<lparr>ss_adaptive := ad,
                         ss_draftRuntime := truncate_gpu (pos + sr_numAccepted r) (ss_draftRuntime ss),
                         ss_specMetrics := sd_metrics (ss_decoder ss),
                         ss_base := count_decoded (len acceptedTokens) (put_seq i q1 b1)\<rparr>) }"

definition speculate ::
  "'r F64 \<Rightarrow> ('f, 'd, 's) Engine \<Rightarrow> ('f, 'd, 's) Engine \<Rightarrow> (f32 list \<Rightarrow> int \<Rightarrow> f32) \<Rightarrow> SequenceID \<Rightarrow> Sequence \<Rightarrow>
   ('f, 'd, 's, 'r) SpeculativeScheduler \<Rightarrow> (string option \<times> ('f, 'd, 's, 'r) SpeculativeScheduler) option" where
  "speculate F e ed prob i q ss =
     do { (token, p, hasMore) \<leftarrow> Sequence_NextInputToken q;
          let (inputToken, pos) = (if hasMore then (token, p) else (1, 0));
          let sd = (ss_decoder ss)\<lparr>sd_NumDraftTokens := NumDraftTokens (ss_adaptive ss)\<rparr>;
          (err, draftTokens, draftProbs, sd1, drt) \<leftarrow>
             GenerateDraftTokensFrom ed prob inputToken pos sd (ss_draftRuntime ss);
          let ss1 = ss\<lparr>ss_decoder := sd1, ss_draftRuntime := drt\<rparr>;
          if err \<noteq> None \<or> len draftTokens = 0 then standard_step e [i] ss1
          else
            do { (verr, r, sd2, rt) \<leftarrow>
                   VerifyDraftTokens e prob pos inputToken draftTokens draftProbs sd1 (sc_runtime (ss_base ss1));
                 let ss2 = ss1\<lparr>ss_decoder := sd2, ss_base := (ss_base ss1)\<lparr>sc_runtime := rt\<rparr>\<rparr>;
                 if verr \<noteq> None then standard_step e [i] ss2
                 else finish_speculation F e i pos draftTokens r ss2 } }"

definition runSpeculativeDecodeStep ::
  "'r F64 \<Rightarrow> ('f, 'd, 's) Engine \<Rightarrow> ('f, 'd, 's) Engine \<Rightarrow> (f32 list \<Rightarrow> int \<Rightarrow> f32) \<Rightarrow> SequenceID \<Rightarrow>
   ('f, 'd, 's, 'r) SpeculativeScheduler \<Rightarrow> (string option \<times> ('f, 'd, 's, 'r) SpeculativeScheduler) option" where
  "runSpeculativeDecodeStep F e ed prob i ss =
     do { q \<leftarrow> sc_sequences (ss_base ss) i;
          if sq_state q = StatePending \<and> len (sq_promptTokens q) > 0 \<and> \<not> Sequence_IsPrefillComplete q
          then do { (err, b) \<leftarrow> runGPUPrefill e i (ss_base ss);
                    case err of
                      Some m \<Rightarrow> Some (Some m, ss\<lparr>ss_base := b\<rparr>)
                    | None \<Rightarrow>
                        let (derr, drt) = prefillDraftModel ed (sq_promptTokens q) (ss_draftRuntime ss)
                        in Some (derr, ss\<lparr>ss_base := b, ss_draftRuntime := drt\<rparr>) }
          else if \<not> needs_decode q then Some (None, ss)
          else speculate F e ed prob i q ss }"

definition Spec_step ::
  "'r F64 \<Rightarrow> ('f, 'd, 's) Engine \<Rightarrow> ('f, 'd, 's) Engine \<Rightarrow> (f32 list \<Rightarrow> int \<Rightarrow> f32) \<Rightarrow> SequenceID list \<Rightarrow>
   ('f, 'd, 's, 'r) SpeculativeScheduler \<Rightarrow> (string option \<times> ('f, 'd, 's, 'r) SpeculativeScheduler) option" where
  "Spec_step F e ed prob visit ss =
     do { let b = ss_base ss;
          let ready = collectReady visit b;
          let b1 = b\<lparr>sc_metrics := (sc_metrics b)\<lparr>sm_ActiveSequences := int (card (dom (sc_sequences b)))\<rparr>\<rparr>;
          let ss1 = ss\<lparr>ss_base := b1\<rparr>;
          batch \<leftarrow> formBatches (sc_config b1) ready;
          if len batch = 0 then Some (None, ss1)
          else if len batch = 1 \<and> rt_gpu (sc_runtime b1) \<noteq> None
          then runSpeculativeDecodeStep F e ed prob (hd batch) ss1
          else standard_step e batch ss1 }"

end
