(* ===== verification/Speculative_Props.thy ===== *)
theory Speculative_Props
  imports Speculative Scheduler_Props
begin

text \<open>
  Correctness of speculative decoding: what verification accepts, that the two verification routines agree,
  that greedy verification reproduces the target model's own choices, and that a speculative step keeps the
  sequence invariant and leaves the target cache at the position of the sequence.
\<close>

section \<open>Rows of logits\<close>

definition row :: "f32 list \<Rightarrow> nat \<Rightarrow> nat \<Rightarrow> f32 list" where
  "row xs v i = take v (drop (i * v) xs)"

lemma slice_row:
  assumes "(i + 1) * v \<le> length xs"
  shows "slice xs (int i * int v) ((int i + 1) * int v) = Some (row xs v i)"
proof -
  have "int i * int v = int (i * v)" "(int i + 1) * int v = int ((i + 1) * v)" by (simp_all add: algebra_simps)
  then show ?thesis using assms
    by (simp add: slice_def len_def row_def nat_diff_distrib algebra_simps del: of_nat_mult of_nat_add)
qed

section \<open>The two verification routines\<close>

lemma against_loop_eq:
  assumes "0 < en_vocab e" and "(i + len ds) * en_vocab e \<le> len xs"
  shows "against_loop e prob xs ps i ds n sm = verify_loop e prob xs ps i ds n sm"
  using assms(2)
proof (induction ds arbitrary: i n sm)
  case Nil
  then show ?case by simp
next
  case (Cons d ds)
  have "(i + 1) * en_vocab e \<le> (i + len (d # ds)) * en_vocab e"
    using assms(1) by (intro mult_right_mono) auto
  then have g: "\<not> len xs < (i + 1) * en_vocab e" using Cons.prems by linarith
  have r: "(i + 1 + len ds) * en_vocab e \<le> len xs" using Cons.prems by (simp add: algebra_simps)
  show ?case using g Cons.IH [OF r] by (simp cong: if_cong)
qed

text \<open>
  The extracted routine \<open>verifyDraftAgainstLogits\<close> agrees with the verification inside
  \<open>VerifyDraftTokens\<close>: on logits of exactly one row per draft token and one more, both return the same count,
  final token, final logits and sampler state, or both panic.
\<close>

theorem verifyDraftAgainstLogits_agrees:
  assumes "0 < en_vocab e" and "draftTokens \<noteq> []" and "len allLogits = (len draftTokens + 1) * en_vocab e"
  shows "verifyDraftAgainstLogits e prob allLogits draftTokens draftProbs sm =
    verify_logits e prob allLogits draftTokens draftProbs sm"
proof -
  let ?K = "len draftTokens" and ?v = "en_vocab e"
  have "0 < (?K + 1) * ?v" using assms(1) by (simp add: add_nonneg_pos)
  then have ne: "len allLogits \<noteq> 0" using assms(3) by linarith
  have "?K * ?v \<le> (?K + 1) * ?v" using assms(1) by (simp add: distrib_right)
  then have l: "against_loop e prob allLogits draftProbs 0 draftTokens 0 sm =
      verify_loop e prob allLogits draftProbs 0 draftTokens 0 sm"
    using against_loop_eq [OF assms(1), of 0 draftTokens allLogits] assms(3) by simp
  have e: "?K * ?v + ?v = len allLogits" using assms(3) by (simp add: distrib_right)
  show ?thesis
    using assms(2) ne by (simp add: verifyDraftAgainstLogits_def verify_logits_def l e Let_def cong: option.case_cong)
qed

section \<open>What verification accepts\<close>

text \<open>A greedy sampler: the choice depends on the logits only.\<close>

definition greedy :: "('f, 'd, 's) Engine \<Rightarrow> (f32 list \<Rightarrow> int) \<Rightarrow> bool" where
  "greedy e pick \<longleftrightarrow> (\<forall>sm xs. en_Sample e sm xs = (pick xs, sm))"

definition acc_at ::
  "(f32 list \<Rightarrow> int \<Rightarrow> f32) \<Rightarrow> (f32 list \<Rightarrow> int) \<Rightarrow> f32 list \<Rightarrow> f32 list \<Rightarrow> nat \<Rightarrow> nat \<Rightarrow> int \<Rightarrow> bool" where
  "acc_at prob pick xs ps v i d \<longleftrightarrow> d = pick (row xs v i) \<or> f32_le (ps ! i) (getTokenProbability prob (row xs v i) d)"

lemma verify_loop_spec:
  assumes g: "greedy e pick" and v: "en_vocab e = int v"
  shows "(i + length ds) * v \<le> length xs \<Longrightarrow> i + length ds \<le> length ps \<Longrightarrow>
    \<exists>k \<le> length ds. (\<forall>j < k. acc_at prob pick xs ps v (i + j) (ds ! j)) \<and>
      (k < length ds \<longrightarrow> \<not> acc_at prob pick xs ps v (i + k) (ds ! k)) \<and>
      verify_loop e prob xs ps (int i) ds n sm =
        Some (n + int k, if k = length ds then None else Some (pick (row xs v (i + k)), row xs v (i + k)), sm)"
proof (induction ds arbitrary: i n)
  case Nil
  then show ?case by simp
next
  case (Cons d ds)
  have le: "(i + 1) * v \<le> length xs"
    using Cons.prems(1) by (metis add_le_mono le_add1 le_trans length_Cons mult_le_mono1 nat_add_left_cancel_le
        One_nat_def Suc_eq_plus1 add.commute)
  have s: "slice xs (int i * en_vocab e) ((int i + 1) * en_vocab e) = Some (row xs v i)"
    using slice_row [OF le] v by simp
  have sm: "en_Sample e sm (row xs v i) = (pick (row xs v i), sm)" using g by (simp add: greedy_def)
  have p: "idx ps (int i) = Some (ps ! i)" using Cons.prems(2) by simp
  have a: "accepts prob (row xs v i) ps (int i) d (pick (row xs v i)) = Some (acc_at prob pick xs ps v i d)"
    using p by (auto simp: accepts_def acc_at_def Let_def)
  show ?case
  proof (cases "acc_at prob pick xs ps v i d")
    case False
    then show ?thesis using s sm a by (intro exI [of _ 0]) simp
  next
    case True
    have "(Suc i + length ds) * v \<le> length xs" "Suc i + length ds \<le> length ps" using Cons.prems by simp_all
    from Cons.IH [OF this, of "n + 1"] obtain k where k: "k \<le> length ds"
      "\<forall>j < k. acc_at prob pick xs ps v (Suc i + j) (ds ! j)"
      "k < length ds \<longrightarrow> \<not> acc_at prob pick xs ps v (Suc i + k) (ds ! k)"
      "verify_loop e prob xs ps (int (Suc i)) ds (n + 1) sm =
        Some (n + 1 + int k, if k = length ds then None else Some (pick (row xs v (Suc i + k)), row xs v (Suc i + k)), sm)"
      by blast
    have "\<forall>j < Suc k. acc_at prob pick xs ps v (i + j) ((d # ds) ! j)"
      using True k(2) by (auto simp: less_Suc_eq_0_disj)
    moreover have "verify_loop e prob xs ps (int i) (d # ds) n sm = verify_loop e prob xs ps (int (Suc i)) ds (n + 1) sm"
      using s sm a True by (simp add: add.commute)
    ultimately show ?thesis using k by (intro exI [of _ "Suc k"]) (auto simp: add.assoc)
  qed
qed

lemma verify_logits_spec:
  assumes g: "greedy e pick" and v: "en_vocab e = int v" "0 < v"
    and l: "length xs = (length ds + 1) * v" and p: "length ps = length ds"
  shows "\<exists>k \<le> length ds. (\<forall>j < k. acc_at prob pick xs ps v j (ds ! j)) \<and>
    (k < length ds \<longrightarrow> \<not> acc_at prob pick xs ps v k (ds ! k)) \<and>
    verify_logits e prob xs ds ps sm =
      Some (\<lparr>sr_numAccepted = int k, sr_finalToken = pick (row xs v k), sr_finalLogits = Some (row xs v k)\<rparr>, sm)"
proof -
  have b: "(0 + length ds) * v \<le> length xs" using l by simp
  obtain k where k: "k \<le> length ds" "\<forall>j < k. acc_at prob pick xs ps v j (ds ! j)"
    "k < length ds \<longrightarrow> \<not> acc_at prob pick xs ps v k (ds ! k)"
    "verify_loop e prob xs ps 0 ds 0 sm =
      Some (int k, if k = length ds then None else Some (pick (row xs v k), row xs v k), sm)"
    using verify_loop_spec [OF g v(1) b, of ps prob 0 sm] p by auto
  have "slice xs (len ds * en_vocab e) (len xs) = Some (row xs v (length ds))"
    using slice_row [of "length ds" v xs] l v(1) by (simp add: len_def algebra_simps)
  then have "verify_logits e prob xs ds ps sm =
      Some (\<lparr>sr_numAccepted = int k, sr_finalToken = pick (row xs v k), sr_finalLogits = Some (row xs v k)\<rparr>, sm)"
    using k(1,4) g by (auto simp: verify_logits_def greedy_def)
  then show ?thesis using k by blast
qed


theorem verifyDraftAgainstLogits_agrees_witness:
  "verifyDraftAgainstLogits demo_engine (\<lambda>xs d. 0) [1, 2, 3, 4] [7] [5] () =
    verify_logits demo_engine (\<lambda>xs d. 0) [1, 2, 3, 4] [7] [5] ()"
  by (rule verifyDraftAgainstLogits_agrees) (simp_all add: demo_engine_def)


section \<open>The speculative step\<close>

lemma emit_token_frame:
  assumes "emit_token e gm t q = Some q'"
  shows "sq_generatedTokens q' = sq_generatedTokens q @ [t]" and "sq_position q' = sq_position q"
    and "sq_state q' = sq_state q \<or> sq_state q' = StateFinished"
  using assms by (auto simp: emit_token_def Let_def sequence_defs split: if_splits)

lemma enter_decode_frame:
  "sq_generatedTokens (enter_decode q) = sq_generatedTokens q" "sq_position (enter_decode q) = sq_position q + 1"
  by (auto simp: enter_decode_def sequence_defs Let_def)

lemma emit_accepted_ok:
  "seq_ok gm q \<Longrightarrow> needs_decode q \<Longrightarrow> ts \<noteq> [] \<Longrightarrow>
   \<exists>q' m. emit_accepted e gm ts q = Some q' \<and> seq_ok gm q' \<and> seq_meta q' = seq_meta q \<and> m \<le> length ts \<and>
     work gm q' \<le> work gm q \<and> sq_generatedTokens q' = sq_generatedTokens q @ take m ts \<and>
     (sq_state q' \<noteq> StateFinished \<longrightarrow> m = length ts \<and> sq_position q' = sq_position q + len ts)"
proof (induction ts arbitrary: q)
  case Nil
  then show ?case by simp
next
  case (Cons t ts)
  let ?q = "enter_decode q"
  have e: "seq_ok gm ?q" "seq_meta ?q = seq_meta q" "sq_state ?q = StateDecoding" "work gm ?q = work gm q"
    using enter_decode_ok [OF Cons.prems(1,2)] by auto
  obtain q1 where q1: "emit_token e gm t ?q = Some q1" "seq_ok gm q1" "seq_meta q1 = seq_meta ?q" "work gm q1 \<le> work gm ?q"
    using emit_token_ok [OF e(1,3)] by blast
  note f = emit_token_frame [OF q1(1)] enter_decode_frame [of q]
  show ?case
  proof (cases "sq_state q1 = StateFinished \<or> ts = []")
    case True
    then have "emit_accepted e gm (t # ts) q = Some q1" using q1(1) by auto
    then show ?thesis using True q1 f e by (intro exI [of _ q1] exI [of _ 1]) auto
  next
    case False
    then have n: "needs_decode q1" "ts \<noteq> []" using f(3) e(3) by (auto simp: needs_decode_def)
    obtain q' m where q': "emit_accepted e gm ts q1 = Some q'" "seq_ok gm q'" "seq_meta q' = seq_meta q1" "m \<le> length ts"
      "work gm q' \<le> work gm q1" "sq_generatedTokens q' = sq_generatedTokens q1 @ take m ts"
      "sq_state q' \<noteq> StateFinished \<longrightarrow> m = length ts \<and> sq_position q' = sq_position q1 + len ts"
      using Cons.IH [OF q1(2) n] by blast
    have "emit_accepted e gm (t # ts) q = Some q'" using q1(1) q'(1) False by simp
    then show ?thesis using q' q1 e f by (intro exI [of _ q'] exI [of _ "Suc m"]) auto
  qed
qed

text \<open>
  C21: After a verified draft the speculative step returns, and it leaves the sequence and the target cache in
  step: the generated tokens grow by a prefix of the accepted tokens and the final one, within the limit and
  in full unless the sequence finished; a sequence that goes on is at exactly the position the target
  cache was rolled back to, and the next draft length is within the configured bounds.
\<close>

theorem Speculative_step_in_sync:
  assumes "sched_ok (ss_base ss)" and "sc_sequences (ss_base ss) i = Some q" and "needs_decode q"
    and "ad_ok c (ss_adaptive ss)" and "rt_gpu (sc_runtime (ss_base ss)) = Some cache"
    and "sr_numAccepted r = int k" and "k \<le> length draftTokens" and "0 \<le> sq_position q"
    and "sq_position q + 1 + int k \<le> GPUKVCache_SeqLen cache"
  shows "\<exists>ss' q' cache' m. finish_speculation F e i (sq_position q) draftTokens r ss = Some (None, ss') \<and>
    sc_sequences (ss_base ss') i = Some q' \<and> sched_ok (ss_base ss') \<and>
    rt_gpu (sc_runtime (ss_base ss')) = Some cache' \<and>
    sq_generatedTokens q' = sq_generatedTokens q @ take m (take k draftTokens @ [sr_finalToken r]) \<and>
    (sq_state q' = StateFinished \<or> m = k + 1 \<and> sq_position q' = GPUKVCache_SeqLen cache') \<and>
    ac_MinDraftTokens c \<le> NumDraftTokens (ss_adaptive ss') \<and> NumDraftTokens (ss_adaptive ss') \<le> ac_MaxDraftTokens c"
proof -
  let ?b = "ss_base ss" and ?pos = "sq_position q" and ?ts = "take k draftTokens @ [sr_finalToken r]"
  let ?gm = "sf_MaxTokens (sc_config ?b)"
  let ?b1 = "?b\<lparr>sc_runtime := truncate_gpu (?pos + 1 + int k) (sc_runtime ?b)\<rparr>"
  have q: "seq_ok ?gm q" using assms(1,2) by (simp add: sched_ok_def)
  obtain ad where ad: "RecordStep F (int k) (len draftTokens) (ss_adaptive ss) = Some ad" "ad_ok c ad"
    using RecordStep_ok [OF assms(4)] by blast
  obtain q' m where q': "emit_accepted e ?gm ?ts q = Some q'" "seq_ok ?gm q'" "seq_meta q' = seq_meta q"
    "work ?gm q' \<le> work ?gm q" "sq_generatedTokens q' = sq_generatedTokens q @ take m ?ts"
    "sq_state q' \<noteq> StateFinished \<longrightarrow> m = length ?ts \<and> sq_position q' = ?pos + len ?ts"
    using emit_accepted_ok [OF q assms(3), of ?ts e] by blast
  have sl: "slice draftTokens 0 (int k) = Some (take k draftTokens)"
    using assms(7) by (simp add: slice_def len_def)
  have ss: "same_seqs ?b ?b1" using assms(5) by (simp add: same_seqs_def truncate_gpu_def)
  have a: "adv ?b (put_seq i q' ?b1)" using adv_replace [OF assms(1) ss assms(2) q'(2,3,4)] by blast
  let ?cache = "GPUKVCache_Truncate cache (?pos + 1 + int k)"
  have cl: "GPUKVCache_SeqLen ?cache = ?pos + 1 + int k"
    using assms(8,9) by (simp add: GPUKVCache_Truncate_def GPUKVCache_SeqLen_def)
  have tl: "len ?ts = int k + 1" "length ?ts = k + 1" using assms(7) by (simp_all add: len_def)
  let ?ss' = "ss\<lparr>ss_adaptive := ad, ss_draftRuntime := truncate_gpu (?pos + int k) (ss_draftRuntime ss),
     ss_specMetrics := sd_metrics (ss_decoder ss), ss_base := count_decoded (len ?ts) (put_seq i q' ?b1)\<rparr>"
  have f: "finish_speculation F e i ?pos draftTokens r ss = Some (None, ?ss')"
    using ad(1) sl q'(1) assms(2,6) by (simp add: finish_speculation_def Let_def)
  have ok: "sched_ok (ss_base ?ss')" using same_seqs_adv [OF same_seqs_count adv_ok [OF a]] by (simp add: adv_def)
  have "sc_sequences (ss_base ?ss') i = Some q'" "rt_gpu (sc_runtime (ss_base ?ss')) = Some ?cache"
    using assms(5) by (simp_all add: count_decoded_def put_seq_def truncate_gpu_def Let_def)
  then show ?thesis
    using f ok q'(5,6) cl tl ad(2)
    by (intro exI [of _ ?ss'] exI [of _ q'] exI [of _ ?cache] exI [of _ m]) (auto simp: ad_ok_def NumDraftTokens_def)
qed

text \<open>A decoding sequence at position 2 with one generated token, and a target cache of five positions.\<close>

definition demo_decoding :: Sequence where
  "demo_decoding = demo_request\<lparr>sq_state := StateDecoding, sq_promptPos := 2, sq_position := 2, sq_generatedTokens := [1]\<rparr>"

definition demo_spec :: "(int, unit, unit, int) SpeculativeScheduler" where
  "demo_spec = \<lparr>ss_base = put_seq 5 demo_decoding (demo_scheduler\<lparr>sc_runtime :=
       demo_runtime\<lparr>rt_gpu := Some ((demo_kv False)\<lparr>gk_seqLen := 5\<rparr>)\<rparr>\<rparr>),
     ss_draftRuntime = demo_runtime,
     ss_decoder = \<lparr>sd_sampler = (), sd_NumDraftTokens = 4, sd_metrics = zero_spec_metrics\<rparr>,
     ss_specMetrics = zero_spec_metrics,
     ss_adaptive = the (NewAdaptiveDraftLength (DefaultAdaptiveConfig 80 40))\<rparr>"

theorem Speculative_step_in_sync_witness:
  "\<exists>ss' q' cache' m. finish_speculation int_f64 demo_engine 5 2 [7, 7]
      \<lparr>sr_numAccepted = int 1, sr_finalToken = 9, sr_finalLogits = None\<rparr> demo_spec = Some (None, ss') \<and>
    sc_sequences (ss_base ss') 5 = Some q' \<and> rt_gpu (sc_runtime (ss_base ss')) = Some cache' \<and>
    sq_generatedTokens q' = [1] @ take m [7, 9] \<and>
    (sq_state q' = StateFinished \<or> m = 2 \<and> sq_position q' = GPUKVCache_SeqLen cache')"
proof -
  have q: "sc_sequences (ss_base demo_spec) 5 = Some demo_decoding"
    by (simp add: demo_spec_def put_seq_def)
  have f: "sq_position demo_decoding = 2" "sq_generatedTokens demo_decoding = [1]" "needs_decode demo_decoding"
    by (simp_all add: demo_decoding_def needs_decode_def)
  have so: "seq_ok 3 demo_decoding"
    by (simp add: seq_ok_def demo_decoding_def demo_request_def NewSequence_def Sequence_SetPromptTokens_def
        token_cap_def eff_limit_def chan_capacity_def)
  have s: "sched_ok (ss_base demo_spec)"
    using so by (auto simp: sched_ok_def demo_spec_def put_seq_def demo_scheduler_def NewScheduler_def demo_runtime_def
        demo_decoding_def demo_request_def NewSequence_def Sequence_SetPromptTokens_def)
  have a: "ad_ok (DefaultAdaptiveConfig 80 40) (ss_adaptive demo_spec)"
    by (simp add: demo_spec_def ad_ok_def NewAdaptiveDraftLength_def DefaultAdaptiveConfig_def make_slice_def ring_ok_def)
  have g: "rt_gpu (sc_runtime (ss_base demo_spec)) = Some ((demo_kv False)\<lparr>gk_seqLen := 5\<rparr>)"
    by (simp add: demo_spec_def put_seq_def)
  have k: "GPUKVCache_SeqLen ((demo_kv False)\<lparr>gk_seqLen := 5\<rparr>) = 5" by (simp add: GPUKVCache_SeqLen_def)
  show ?thesis
    using Speculative_step_in_sync [OF s q f(3) a g, of "\<lparr>sr_numAccepted = int 1, sr_finalToken = 9, sr_finalLogits = None\<rparr>"
        1 "[7, 7]" int_f64 demo_engine] f(1,2) k
    by (simp add: numeral_2_eq_2) blast
qed

section \<open>Where speculation departs from its purpose\<close>

text \<open>
  The draft cache is rolled back to one position less than the target cache, although the drafts have written
  the key and value of every accepted token but the last: the next draft is stored one position early.
\<close>

lemma draft_cache_behind:
  assumes "finish_speculation F e i pos draftTokens r ss = Some (err, ss')"
    and "rt_gpu (ss_draftRuntime ss) = Some dc" and "rt_gpu (sc_runtime (ss_base ss)) = Some cache"
    and "0 \<le> pos" and "0 \<le> sr_numAccepted r"
    and "pos + 1 + sr_numAccepted r \<le> GPUKVCache_SeqLen cache" and "pos + 1 + sr_numAccepted r \<le> GPUKVCache_SeqLen dc"
  shows "\<exists>dc' cache'. rt_gpu (ss_draftRuntime ss') = Some dc' \<and> rt_gpu (sc_runtime (ss_base ss')) = Some cache' \<and>
    GPUKVCache_SeqLen dc' = GPUKVCache_SeqLen cache' - 1"
  using assms
  by (auto simp: finish_speculation_def Let_def truncate_gpu_def count_decoded_def put_seq_def GPUKVCache_Truncate_def
      GPUKVCache_SeqLen_def split: Option.bind_splits)

text \<open>Nil logits from the verification pass are taken for a result: token 0 accepted with no error.\<close>

lemma nil_verification_yields_token_0:
  assumes "draftTokens \<noteq> []" and "en_DecodeWithGPUKV e (inputToken # draftTokens) startPos rt = (Inr logits, rt1)"
    and "DevicePtr_IsNil (t_devicePtr logits)"
  shows "\<exists>sd'. VerifyDraftTokens e prob startPos inputToken draftTokens draftProbs sd rt = Some (None, no_result, sd', rt1)"
  using assms by (simp add: VerifyDraftTokens_def verify_drafts_def getLogitsSlice_def Let_def)

text \<open>With only finished sequences the speculative step changes nothing, and the loop of \<open>Run\<close> spins.\<close>

lemma speculative_step_keeps_finished:
  assumes "collectReady visit (ss_base ss) = []"
  shows "\<exists>ss'. Spec_step F e ed prob visit ss = Some (None, ss') \<and> sc_sequences (ss_base ss') = sc_sequences (ss_base ss)"
  using assms by (simp add: Spec_step_def formBatches_def Let_def)

end
