(* ===== verification/Medusa_Tree.thy ===== *)
theory Medusa_Tree
  imports Float32 "HOL-Library.Sublist"
begin

text \<open>
  The file \<open>inference/medusa/tree.go\<close>: candidate trees of draft tokens. A node is known by its number in
  the order of creation, 0 being the virtual root; a pointer to a node is its number. \<open>sort.Slice\<close> is not
  stable, so the two sorts are parameters; the sum of confidences uses a parameter for the float addition.
\<close>

record CandidateNode =
  cn_TokenID :: int
  cn_Confidence :: f32
  cn_HeadIdx :: int
  cn_Depth :: int
  cn_Children :: "nat list"
  cn_Parent :: "nat option"

record CandidateTree =
  ct_nodes :: "CandidateNode list"
  ct_NumNodes :: int

record CandidatePath =
  cp_Tokens :: "int list"
  cp_Confidence :: f32

section \<open>Selection\<close>

text \<open>The entries (index and value) are sorted by descending value; the first \<open>k\<close> are returned.\<close>

definition topKWithValues ::
  "((nat \<times> f32) list \<Rightarrow> (nat \<times> f32) list) \<Rightarrow> f32 list \<Rightarrow> int \<Rightarrow> (int list \<times> f32 list) option" where
  "topKWithValues srt values k =
     (let k' = (if k > len values then len values else k);
          entries = srt (zip [0..<length values] values)
      in if k' < 0 then None
         else let top = take (nat k') entries in Some (map (int \<circ> fst) top, map snd top))"

definition f32_max_finite :: f32 where
  "f32_max_finite = 0x7F7FFFFF"

definition f32_min_finite :: f32 where
  "f32_min_finite = 0xFF7FFFFF"

fun argmax_loop :: "f32 list \<Rightarrow> int \<Rightarrow> int \<Rightarrow> f32 \<Rightarrow> int" where
  "argmax_loop [] i maxIdx maxVal = maxIdx"
| "argmax_loop (v # vs) i maxIdx maxVal =
     (if f32_less maxVal v then argmax_loop vs (i + 1) i v else argmax_loop vs (i + 1) maxIdx maxVal)"

definition argmaxSlice :: "f32 list \<Rightarrow> int" where
  "argmaxSlice values = (if len values = 0 then 0 else argmax_loop values 0 0 f32_min_finite)"

section \<open>Building the tree\<close>

text \<open>Append one child to \<open>parent\<close>; the new node gets the next number.\<close>

definition add_child :: "nat \<Rightarrow> int \<Rightarrow> int \<Rightarrow> f32 \<Rightarrow> CandidateNode list \<Rightarrow> CandidateNode list" where
  "add_child parent headIdx tok conf nodes =
     (let p = nodes ! parent; n = length nodes in
      nodes[parent := p\<lparr>cn_Children := cn_Children p @ [n]\<rparr>] @
      [\<lparr>cn_TokenID = tok, cn_Confidence = conf, cn_HeadIdx = headIdx, cn_Depth = headIdx, cn_Children = [],
        cn_Parent = Some parent\<rparr>])"

text \<open>The loop over the candidates of one parent; the flag says that \<open>maxNodes\<close> was reached.\<close>

fun expand_parent ::
  "int \<Rightarrow> int \<Rightarrow> nat \<Rightarrow> (int \<times> f32) list \<Rightarrow> CandidateNode list \<Rightarrow> nat list \<Rightarrow> bool \<times> CandidateNode list \<times> nat list" where
  "expand_parent maxNodes headIdx parent [] nodes next = (False, nodes, next)"
| "expand_parent maxNodes headIdx parent ((tok, conf) # cands) nodes next =
     (if len nodes - 1 \<ge> maxNodes then (True, nodes, next)
      else expand_parent maxNodes headIdx parent cands (add_child parent headIdx tok conf nodes) (next @ [length nodes]))"

fun expand_level ::
  "int \<Rightarrow> int \<Rightarrow> (int \<times> f32) list \<Rightarrow> nat list \<Rightarrow> CandidateNode list \<Rightarrow> nat list \<Rightarrow> bool \<times> CandidateNode list \<times> nat list" where
  "expand_level maxNodes headIdx cands [] nodes next = (False, nodes, next)"
| "expand_level maxNodes headIdx cands (parent # parents) nodes next =
     (let (full, nodes', next') = expand_parent maxNodes headIdx parent cands nodes next in
      if full then (True, nodes', next') else expand_level maxNodes headIdx cands parents nodes' next')"

fun expand_levels ::
  "int \<Rightarrow> int \<Rightarrow> (int \<times> f32) list list \<Rightarrow> nat list \<Rightarrow> CandidateNode list \<Rightarrow> CandidateNode list" where
  "expand_levels maxNodes headIdx [] level nodes = nodes"
| "expand_levels maxNodes headIdx (cands # rest) level nodes =
     (let (full, nodes', next) = expand_level maxNodes headIdx cands level nodes [] in
      if full then nodes' else expand_levels maxNodes (headIdx + 1) rest next nodes')"

definition root_node :: CandidateNode where
  "root_node = \<lparr>cn_TokenID = -1, cn_Confidence = 0, cn_HeadIdx = -1, cn_Depth = -1, cn_Children = [], cn_Parent = None\<rparr>"

text \<open>The top candidates of all heads; \<open>Some None\<close> is the nil tree for an empty head.\<close>

fun all_topk ::
  "((nat \<times> f32) list \<Rightarrow> (nat \<times> f32) list) \<Rightarrow> int \<Rightarrow> f32 list list \<Rightarrow> (int \<times> f32) list list option option" where
  "all_topk srt topK [] = Some (Some [])"
| "all_topk srt topK (logits # rest) =
     (if len logits = 0 then Some None
      else do { (ts, vs) \<leftarrow> topKWithValues srt logits topK;
                r \<leftarrow> all_topk srt topK rest;
                Some (map_option (\<lambda>cs. zip ts vs # cs) r) })"

definition BuildCandidateTree ::
  "((nat \<times> f32) list \<Rightarrow> (nat \<times> f32) list) \<Rightarrow> f32 list list \<Rightarrow> int \<Rightarrow> int \<Rightarrow> CandidateTree option option" where
  "BuildCandidateTree srt headLogits topK maxNodes =
     (if len headLogits = 0 then Some None
      else do { cs \<leftarrow> all_topk srt topK headLogits;
                case cs of
                  None \<Rightarrow> Some None
                | Some cands \<Rightarrow>
                    let nodes = expand_levels maxNodes 0 cands [0] [root_node]
                    in Some (Some \<lparr>ct_nodes = nodes, ct_NumNodes = len nodes - 1\<rparr>) })"

section \<open>Paths\<close>

text \<open>Depth-first search with fuel; children have greater numbers than their parents, so the size suffices.\<close>

fun dfs_paths ::
  "(f32 \<Rightarrow> f32 \<Rightarrow> f32) \<Rightarrow> CandidateNode list \<Rightarrow> nat \<Rightarrow> nat \<Rightarrow> int list \<Rightarrow> f32 \<Rightarrow> CandidatePath list option" where
  "dfs_paths add nodes 0 n tokens conf = None"
| "dfs_paths add nodes (Suc fuel) n tokens conf =
     (let node = nodes ! n in
      if len (cn_Children node) = 0 then Some [\<lparr>cp_Tokens = tokens, cp_Confidence = conf\<rparr>]
      else map_option concat (those (map (\<lambda>c. dfs_paths add nodes fuel c (tokens @ [cn_TokenID (nodes ! c)])
             (add conf (cn_Confidence (nodes ! c)))) (cn_Children node))))"

definition CandidateTree_Paths ::
  "(f32 \<Rightarrow> f32 \<Rightarrow> f32) \<Rightarrow> (CandidatePath list \<Rightarrow> CandidatePath list) \<Rightarrow> CandidateTree option \<Rightarrow> CandidatePath list option" where
  "CandidateTree_Paths add srt t =
     (case t of
        None \<Rightarrow> Some []
      | Some tree \<Rightarrow> map_option srt (dfs_paths add (ct_nodes tree) (length (ct_nodes tree)) 0 [] 0))"

section \<open>Linearization and masks\<close>

text \<open>The queue of the breadth-first search holds nodes with the output position of their parent.\<close>

fun bfs_loop ::
  "CandidateNode list \<Rightarrow> nat \<Rightarrow> (nat \<times> int) list \<Rightarrow> nat \<Rightarrow> int list \<Rightarrow> int list \<Rightarrow> (int list \<times> int list) option" where
  "bfs_loop nodes 0 queue head tokens parents = (if head < length queue then None else Some (tokens, parents))"
| "bfs_loop nodes (Suc fuel) queue head tokens parents =
     (if head < length queue then
        let (n, parentPos) = queue ! head; node = nodes ! n in
        bfs_loop nodes fuel (queue @ map (\<lambda>c. (c, int head)) (cn_Children node)) (Suc head)
          (tokens @ [cn_TokenID node]) (parents @ [parentPos])
      else Some (tokens, parents))"

definition Linearize :: "CandidateTree option \<Rightarrow> (int list \<times> int list) option" where
  "Linearize t =
     (case t of
        None \<Rightarrow> Some ([], [])
      | Some tree \<Rightarrow>
          bfs_loop (ct_nodes tree) (length (ct_nodes tree))
            (map (\<lambda>c. (c, -1)) (cn_Children (ct_nodes tree ! 0))) 0 [] [])"

text \<open>The walk up the parent chain may not end for arbitrary input, and then the mask has no value.\<close>

partial_function (option) mark_ancestors :: "int \<Rightarrow> int list \<Rightarrow> int \<Rightarrow> int \<Rightarrow> bool list \<Rightarrow> bool list option" where
  [code]: "mark_ancestors n parentIdx i j marks =
     (if j \<ge> 0 then
        do { marks' \<leftarrow> upd marks (i * n + j) True;
             j' \<leftarrow> idx parentIdx j;
             mark_ancestors n parentIdx i j' marks' }
      else Some marks)"

definition mask_row :: "int \<Rightarrow> int list \<Rightarrow> nat \<Rightarrow> bool list \<Rightarrow> bool list option" where
  "mask_row n parentIdx i marks =
     do { marks1 \<leftarrow> upd marks (int i * n + int i) True;
          j \<leftarrow> idx parentIdx (int i);
          mark_ancestors n parentIdx (int i) j marks1 }"

definition BuildTreeAttentionMask :: "int \<Rightarrow> int list \<Rightarrow> bool list option" where
  "BuildTreeAttentionMask n parentIdx =
     do { marks \<leftarrow> make_slice (n * n) False; foldM (mask_row n parentIdx) [0..<nat n] marks }"

section \<open>Verifying a path\<close>

text \<open>The loop: the accepted count, and the correction if the target disagreed.\<close>

fun path_loop :: "int list \<Rightarrow> f32 list list \<Rightarrow> int \<Rightarrow> int \<times> int option" where
  "path_loop [] rows accepted = (accepted, None)"
| "path_loop (d # ds) [] accepted = (accepted, None)"
| "path_loop (d # ds) (r # rows) accepted =
     (let targetToken = argmaxSlice r in
      if d = targetToken then path_loop ds rows (accepted + 1) else (accepted, Some targetToken))"

definition VerifyTreePath :: "CandidatePath \<Rightarrow> f32 list list \<Rightarrow> (int \<times> int) option" where
  "VerifyTreePath path targetLogits =
     (if len (cp_Tokens path) = 0 then Some (0, 0)
      else case path_loop (cp_Tokens path) targetLogits 0 of
             (accepted, Some finalToken) \<Rightarrow> Some (accepted, finalToken)
           | (accepted, None) \<Rightarrow>
               if accepted = len (cp_Tokens path) \<and> len targetLogits > len (cp_Tokens path)
               then do { r \<leftarrow> idx targetLogits (len (cp_Tokens path)); Some (accepted, argmaxSlice r) }
               else if accepted > 0 \<and> accepted \<le> len targetLogits
               then do { r \<leftarrow> idx targetLogits (accepted - 1); Some (accepted, argmaxSlice r) }
               else Some (accepted, 0))"

end
