(* ===== verification/Medusa_Tree_Props.thy ===== *)
theory Medusa_Tree_Props
  imports Medusa_Tree
begin

text \<open>
  The candidate tree: its shape after \<open>BuildCandidateTree\<close>, that \<open>Linearize\<close> lists the nodes in the order of
  creation with parents first, that the attention mask is the ancestor relation, what \<open>argmaxSlice\<close> finds
  and what \<open>VerifyTreePath\<close> accepts.
\<close>

section \<open>The shape of the tree\<close>

text \<open>Read from parent to parent, the children are numbered from 1 on; so parents come before children.\<close>

definition tree_ok :: "CandidateNode list \<Rightarrow> bool" where
  "tree_ok nodes \<longleftrightarrow> nodes \<noteq> [] \<and> concat (map cn_Children nodes) = [1..<length nodes] \<and>
     (\<forall>p < length nodes. \<forall>c \<in> set (cn_Children (nodes ! p)). p < c \<and> cn_Parent (nodes ! c) = Some p)"

text \<open>No node after \<open>f\<close> has children yet.\<close>

definition frontier :: "nat \<Rightarrow> CandidateNode list \<Rightarrow> bool" where
  "frontier f nodes \<longleftrightarrow> (\<forall>q < length nodes. f < q \<longrightarrow> cn_Children (nodes ! q) = [])"

lemma frontier_mono: "frontier f nodes \<Longrightarrow> f \<le> g \<Longrightarrow> frontier g nodes"
  by (auto simp: frontier_def)

lemma tree_ok_children_lt:
  assumes "tree_ok nodes" and "p < length nodes" and "c \<in> set (cn_Children (nodes ! p))"
  shows "c < length nodes"
proof -
  have "c \<in> set (concat (map cn_Children nodes))" using assms(2,3) nth_mem by fastforce
  moreover have "concat (map cn_Children nodes) = [1..<length nodes]" using assms(1) by (simp add: tree_ok_def)
  ultimately have "c \<in> set [1..<length nodes]" by argo
  then show ?thesis by simp
qed

lemma frontier_suffix:
  assumes "frontier p nodes"
  shows "concat (map cn_Children (drop (Suc p) nodes)) = []"
proof -
  have "cn_Children x = []" if "x \<in> set (drop (Suc p) nodes)" for x
    using that assms by (auto simp: in_set_conv_nth frontier_def)
  then show ?thesis by simp
qed

lemma length_add_child [simp]: "length (add_child p h t c nodes) = Suc (length nodes)"
  by (simp add: add_child_def Let_def)

lemma nth_add_child:
  assumes "p < length nodes"
  shows "q < length nodes \<Longrightarrow> add_child p h t c nodes ! q =
      (if q = p then (nodes ! p)\<lparr>cn_Children := cn_Children (nodes ! p) @ [length nodes]\<rparr> else nodes ! q)"
    and "add_child p h t c nodes ! length nodes =
      \<lparr>cn_TokenID = t, cn_Confidence = c, cn_HeadIdx = h, cn_Depth = h, cn_Children = [], cn_Parent = Some p\<rparr>"
  using assms by (auto simp: add_child_def Let_def nth_append)

lemma add_child_ok:
  assumes "tree_ok nodes" and "p < length nodes" and "frontier p nodes"
  shows "tree_ok (add_child p h t c nodes) \<and> frontier p (add_child p h t c nodes)"
proof -
  let ?N = "add_child p h t c nodes" and ?n = "length nodes"
  let ?p = "(nodes ! p)\<lparr>cn_Children := cn_Children (nodes ! p) @ [?n]\<rparr>"
  have e: "nodes = take p nodes @ nodes ! p # drop (Suc p) nodes" using assms(2) by (simp add: id_take_nth_drop)
  have "concat (map cn_Children nodes) = concat (map cn_Children (take p nodes)) @ cn_Children (nodes ! p)"
    using frontier_suffix [OF assms(3)] by (subst e) simp
  moreover have "concat (map cn_Children ?N) = concat (map cn_Children (take p nodes)) @ cn_Children (nodes ! p) @ [?n]"
    using frontier_suffix [OF assms(3)] assms(2) by (simp add: add_child_def Let_def upd_conv_take_nth_drop)
  ultimately have cc: "concat (map cn_Children ?N) = [1..<length ?N]"
    using assms(1,2) by (cases ?n) (auto simp: tree_ok_def)
  have "q < x \<and> cn_Parent (?N ! x) = Some q" if q: "q < length ?N" and x: "x \<in> set (cn_Children (?N ! q))" for q x
  proof (cases "q < ?n")
    case False
    then have "q = ?n" using q by simp
    then show ?thesis using x nth_add_child(2) [OF assms(2), of h t c] by simp
  next
    case True
    then consider "q = p" "x = ?n" | "x \<in> set (cn_Children (nodes ! q))"
      using x nth_add_child(1) [OF assms(2) True, of h t c] by (auto split: if_splits)
    then show ?thesis
    proof cases
      case 1
      then show ?thesis using assms(2) nth_add_child(2) [OF assms(2), of h t c] by simp
    next
      case 2
      then have "x < ?n" using tree_ok_children_lt [OF assms(1) True] by simp
      then show ?thesis using 2 True assms(1) nth_add_child(1) [OF assms(2), of x h t c]
        by (auto simp: tree_ok_def)
    qed
  qed
  moreover have "?N \<noteq> []" by (simp add: add_child_def Let_def)
  ultimately have "tree_ok ?N" using cc unfolding tree_ok_def by blast
  moreover have "frontier p ?N"
    unfolding frontier_def
  proof (intro allI impI)
    fix q assume "q < length ?N" "p < q"
    then show "cn_Children (?N ! q) = []"
      using assms(3) nth_add_child [OF assms(2), where h = h and t = t and c = c] by (cases "q < ?n") (auto simp: frontier_def less_Suc_eq)
  qed
  ultimately show ?thesis by blast
qed

lemma expand_parent_ok:
  assumes "expand_parent m h p cands nodes next = (full, nodes', next')"
    and "tree_ok nodes" and "p < length nodes" and "frontier p nodes"
  shows "tree_ok nodes' \<and> frontier p nodes' \<and> length nodes \<le> length nodes' \<and>
    next' = next @ [length nodes..<length nodes'] \<and> len nodes' - 1 \<le> max (len nodes - 1) m"
  using assms
proof (induction cands arbitrary: nodes "next")
  case Nil
  then show ?case by simp
next
  case (Cons x cands)
  obtain t c where x: "x = (t, c)" by fastforce
  show ?case
  proof (cases "len nodes - 1 \<ge> m")
    case True
    then show ?thesis using Cons.prems x by simp
  next
    case False
    let ?N = "add_child p h t c nodes"
    have "expand_parent m h p cands ?N (next @ [length nodes]) = (full, nodes', next')"
      using Cons.prems(1) x False by simp
    moreover have "p < length ?N" using Cons.prems(3) by simp
    ultimately have r: "tree_ok nodes' \<and> frontier p nodes' \<and> length ?N \<le> length nodes' \<and>
        next' = (next @ [length nodes]) @ [length ?N..<length nodes'] \<and> len nodes' - 1 \<le> max (len ?N - 1) m"
      using Cons.IH add_child_ok [OF Cons.prems(2-4), of h t c] by blast
    then have "next' = next @ [length nodes..<length nodes']" by (simp add: upt_conv_Cons)
    then show ?thesis using r False by (auto simp: len_def)
  qed
qed

lemma expand_level_ok:
  assumes "expand_level m h cands level nodes next = (full, nodes', next')"
    and "tree_ok nodes" and "sorted_wrt (<) level" and "\<forall>p \<in> set level. f \<le> p \<and> p < length nodes"
    and "frontier f nodes" and "f < length nodes"
  shows "tree_ok nodes' \<and> (\<exists>f' \<ge> f. f' \<in> insert f (set level) \<and> frontier f' nodes') \<and> length nodes \<le> length nodes' \<and>
    next' = next @ [length nodes..<length nodes'] \<and> len nodes' - 1 \<le> max (len nodes - 1) m"
  using assms
proof (induction level arbitrary: nodes "next" f)
  case Nil
  then show ?case by auto
next
  case (Cons p level)
  obtain full1 nodes1 next1 where e: "expand_parent m h p cands nodes next = (full1, nodes1, next1)"
    using prod_cases3 by blast
  have p: "f \<le> p" "p < length nodes" "frontier p nodes" using Cons.prems(4,5) frontier_mono by auto
  have 1: "tree_ok nodes1" "frontier p nodes1" "length nodes \<le> length nodes1"
    "next1 = next @ [length nodes..<length nodes1]" "len nodes1 - 1 \<le> max (len nodes - 1) m"
    using expand_parent_ok [OF e Cons.prems(2) p(2,3)] by auto
  show ?case
  proof (cases full1)
    case True
    then show ?thesis using Cons.prems(1) e 1 p by auto
  next
    case False
    then have r: "expand_level m h cands level nodes1 next1 = (full, nodes', next')" using Cons.prems(1) e by simp
    have "\<forall>q \<in> set level. p \<le> q \<and> q < length nodes1" "p < length nodes1"
      using Cons.prems(3,4) 1(3) p(2) by fastforce+
    then have i: "tree_ok nodes'" "\<exists>f' \<ge> p. f' \<in> insert p (set level) \<and> frontier f' nodes'"
      "length nodes1 \<le> length nodes'" "next' = next1 @ [length nodes1..<length nodes']"
      "len nodes' - 1 \<le> max (len nodes1 - 1) m"
      using Cons.IH [OF r 1(1) _ _ 1(2)] Cons.prems(3) by auto
    have "next' = next @ [length nodes..<length nodes']"
      using i(3,4) 1(3,4) upt_add_eq_append [of "length nodes" "length nodes1" "length nodes' - length nodes1"] by simp
    then show ?thesis using i 1(3,5) p(1) by (auto intro: order_trans)
  qed
qed

lemma expand_levels_ok:
  assumes "tree_ok nodes" and "sorted_wrt (<) level" and "\<forall>p \<in> set level. f \<le> p \<and> p < length nodes"
    and "frontier f nodes" and "f < length nodes"
  shows "tree_ok (expand_levels m h candss level nodes) \<and>
    len (expand_levels m h candss level nodes) - 1 \<le> max (len nodes - 1) m"
  using assms
proof (induction candss arbitrary: h level nodes f)
  case Nil
  then show ?case by simp
next
  case (Cons cands candss)
  obtain full nodes' "next" where e: "expand_level m h cands level nodes [] = (full, nodes', next)"
    using prod_cases3 by blast
  have 1: "tree_ok nodes'" "\<exists>f' \<ge> f. f' \<in> insert f (set level) \<and> frontier f' nodes'" "length nodes \<le> length nodes'"
    "next = [length nodes..<length nodes']" "len nodes' - 1 \<le> max (len nodes - 1) m"
    using expand_level_ok [OF e Cons.prems] by auto
  then obtain f' where f': "f' \<in> insert f (set level)" "frontier f' nodes'" by blast
  then have l: "f' < length nodes" using Cons.prems(3,5) by auto
  have "\<forall>p \<in> set next. f' \<le> p \<and> p < length nodes'" "sorted_wrt (<) next" "f' < length nodes'"
    using 1(3,4) l by auto
  then have "tree_ok (expand_levels m (h + 1) candss next nodes') \<and>
      len (expand_levels m (h + 1) candss next nodes') - 1 \<le> max (len nodes' - 1) m"
    using Cons.IH [OF 1(1) _ _ f'(2)] by blast
  then show ?case using e 1 by auto
qed

lemma BuildCandidateTree_ok:
  assumes "BuildCandidateTree srt headLogits topK maxNodes = Some (Some t)"
  shows "tree_ok (ct_nodes t) \<and> ct_NumNodes t = len (ct_nodes t) - 1 \<and> ct_NumNodes t \<le> max 0 maxNodes"
proof -
  obtain cands where t: "t = \<lparr>ct_nodes = expand_levels maxNodes 0 cands [0] [root_node],
      ct_NumNodes = len (expand_levels maxNodes 0 cands [0] [root_node]) - 1\<rparr>"
    using assms by (auto simp: BuildCandidateTree_def Let_def split: if_splits Option.bind_splits option.splits)
  have "tree_ok [root_node]" "frontier 0 [root_node]"
    by (auto simp: tree_ok_def frontier_def root_node_def)
  from expand_levels_ok [OF this(1) _ _ this(2), of "[0]" maxNodes 0 cands]
  show ?thesis using t by simp
qed

text \<open>Children have larger numbers, so the depth-first search ends within one unit of fuel per node.\<close>

lemma dfs_paths_returns:
  "tree_ok nodes \<Longrightarrow> n < length nodes \<Longrightarrow> length nodes - n \<le> fuel \<Longrightarrow> dfs_paths add nodes fuel n tokens conf \<noteq> None"
proof (induction fuel arbitrary: n tokens conf)
  case (Suc fuel)
  have "dfs_paths add nodes fuel c toks cf \<noteq> None" if c: "c \<in> set (cn_Children (nodes ! n))" for c toks cf
  proof -
    have "n < c" "c < length nodes"
      using Suc.prems(1,2) c tree_ok_children_lt [OF Suc.prems(1,2) c] by (auto simp: tree_ok_def)
    then show ?thesis using Suc.IH [OF Suc.prems(1)] Suc.prems(3) by simp
  qed
  then have "those (map (\<lambda>c. dfs_paths add nodes fuel c (tokens @ [cn_TokenID (nodes ! c)])
      (add conf (cn_Confidence (nodes ! c)))) (cn_Children (nodes ! n))) \<noteq> None"
    by (simp add: those_map_neq_None)
  then show ?case by (simp add: Let_def)
qed simp

lemma CandidateTree_Paths_returns:
  assumes "BuildCandidateTree srt headLogits topK maxNodes = Some t"
  shows "CandidateTree_Paths add srt' t \<noteq> None"
proof (cases t)
  case (Some tree)
  then have "tree_ok (ct_nodes tree)" using BuildCandidateTree_ok assms by blast
  then show ?thesis using Some dfs_paths_returns [of "ct_nodes tree" 0 "length (ct_nodes tree)"]
    by (simp add: CandidateTree_Paths_def tree_ok_def)
qed (simp add: CandidateTree_Paths_def)

section \<open>Linearization\<close>

text \<open>The children of the first \<open>k\<close> nodes are a prefix of all the nodes.\<close>

definition seen :: "CandidateNode list \<Rightarrow> nat \<Rightarrow> nat list" where
  "seen nodes k = concat (map cn_Children (take k nodes))"

lemma seen_upt:
  assumes "tree_ok nodes"
  shows "seen nodes k = [1..<1 + length (seen nodes k)]"
proof -
  have "concat (map cn_Children nodes) = seen nodes k @ concat (map cn_Children (drop k nodes))"
    unfolding seen_def by (metis append_take_drop_id concat_append map_append)
  then have e: "seen nodes k @ concat (map cn_Children (drop k nodes)) = [1..<length nodes]"
    using assms by (simp add: tree_ok_def)
  let ?m = "1 + length (seen nodes k)"
  have "length (seen nodes k) \<le> length nodes - 1" using arg_cong [OF e, of length] by simp
  moreover have "0 < length nodes" using assms by (simp add: tree_ok_def)
  ultimately have "?m + (length nodes - ?m) = length nodes" by linarith
  moreover have "[1..<?m + (length nodes - ?m)] = [1..<?m] @ [?m..<?m + (length nodes - ?m)]"
    by (rule upt_add_eq_append) simp
  ultimately have "[1..<length nodes] = [1..<?m] @ [?m..<length nodes]" by (simp only:)
  then have a: "seen nodes k @ concat (map cn_Children (drop k nodes)) = [1..<?m] @ [?m..<length nodes]" using e by argo
  have "length (seen nodes k) = length [1..<?m]" by (simp only: length_upt)
  from conjunct1 [OF iffD1 [OF append_eq_append_conv [OF disjI1 [OF this]] a]] show ?thesis .
qed

lemma seen_Suc: "k < length nodes \<Longrightarrow> seen nodes (Suc k) = seen nodes k @ cn_Children (nodes ! k)"
  by (simp add: seen_def take_Suc_conv_app_nth)

lemma node_has_parent:
  assumes "tree_ok nodes" and "1 \<le> c" and "c < length nodes"
  shows "\<exists>p < c. c \<in> set (cn_Children (nodes ! p))"
proof -
  have "c \<in> set (concat (map cn_Children nodes))" using assms by (simp add: tree_ok_def)
  then obtain x where "x \<in> set nodes" "c \<in> set (cn_Children x)" by auto
  then obtain p where "p < length nodes" "c \<in> set (cn_Children (nodes ! p))" by (metis in_set_conv_nth)
  then show ?thesis using assms(1) by (auto simp: tree_ok_def)
qed

text \<open>While output remains, the queue has it: the search stops only when every node is listed.\<close>

lemma seen_complete:
  assumes "tree_ok nodes" and "h < length nodes" and "length (seen nodes (Suc h)) \<le> h"
  shows "h = length nodes - 1"
proof (rule ccontr)
  assume "h \<noteq> length nodes - 1"
  then have c: "1 \<le> Suc h" "Suc h < length nodes" using assms(2) by auto
  then obtain p where p: "p < Suc h" "Suc h \<in> set (cn_Children (nodes ! p))"
    using node_has_parent [OF assms(1)] by blast
  have "nodes ! p \<in> set (take (Suc h) nodes)" using p(1) c(2) by (auto simp: in_set_conv_nth intro!: exI [of _ p])
  then have "Suc h \<in> set (seen nodes (Suc h))" using p(2) by (auto simp: seen_def)
  moreover have "set (seen nodes (Suc h)) = {1..<1 + length (seen nodes (Suc h))}"
    using seen_upt [OF assms(1), of "Suc h"] by (metis set_upt)
  ultimately show False using assms(3) by auto
qed

definition parent_pos :: "CandidateNode list \<Rightarrow> nat \<Rightarrow> int" where
  "parent_pos nodes c = (case cn_Parent (nodes ! c) of None \<Rightarrow> -1 | Some p \<Rightarrow> int p - 1)"

lemma children_pos:
  assumes "tree_ok nodes" and "p < length nodes"
  shows "map (\<lambda>c. (c, int p - 1)) (cn_Children (nodes ! p)) = map (\<lambda>c. (c, parent_pos nodes c)) (cn_Children (nodes ! p))"
  using assms by (auto simp: tree_ok_def parent_pos_def)

lemma bfs_loop_ok:
  assumes ok: "tree_ok nodes"
  shows "h < length nodes \<Longrightarrow> length nodes \<le> h + fuel + 1 \<Longrightarrow>
    bfs_loop nodes fuel (map (\<lambda>c. (c, parent_pos nodes c)) (seen nodes (Suc h))) h
      (map (\<lambda>c. cn_TokenID (nodes ! c)) [1..<Suc h]) (map (parent_pos nodes) [1..<Suc h]) =
    Some (map (\<lambda>c. cn_TokenID (nodes ! c)) [1..<length nodes], map (parent_pos nodes) [1..<length nodes])"
proof (induction fuel arbitrary: h)
  case 0
  then have h: "Suc h = length nodes" by simp
  have "length (seen nodes (Suc h)) = length [1..<length nodes]"
    using ok h by (simp add: seen_def tree_ok_def flip: length_concat)
  then show ?case using h by simp
next
  case (Suc fuel)
  show ?case
  proof (cases "h < length (seen nodes (Suc h))")
    case False
    then have "Suc h = length nodes" using seen_complete [OF ok Suc.prems(1)] Suc.prems(1) by simp
    then show ?thesis using False by simp
  next
    case True
    have u: "seen nodes (Suc h) ! h = Suc h"
      using True seen_upt [OF ok, of "Suc h"] by (metis nth_upt add.commute plus_1_eq_Suc add_less_cancel_left)
    have "Suc h \<in> set (seen nodes (Suc h))" using True u by (metis nth_mem)
    then obtain x where x: "x \<in> set (take (Suc h) nodes)" "Suc h \<in> set (cn_Children x)" by (auto simp: seen_def)
    then obtain p where "p < length nodes" "nodes ! p = x" by (metis in_set_conv_nth in_set_takeD)
    then have l: "Suc h < length nodes" using tree_ok_children_lt [OF ok] x(2) by blast
    have q: "map (\<lambda>c. (c, parent_pos nodes c)) (seen nodes (Suc h)) @ map (\<lambda>c. (c, int h)) (cn_Children (nodes ! Suc h)) =
        map (\<lambda>c. (c, parent_pos nodes c)) (seen nodes (Suc (Suc h)))"
      using children_pos [OF ok l] seen_Suc [OF l] by simp
    have "bfs_loop nodes (Suc fuel) (map (\<lambda>c. (c, parent_pos nodes c)) (seen nodes (Suc h))) h
        (map (\<lambda>c. cn_TokenID (nodes ! c)) [1..<Suc h]) (map (parent_pos nodes) [1..<Suc h]) =
      bfs_loop nodes fuel (map (\<lambda>c. (c, parent_pos nodes c)) (seen nodes (Suc (Suc h)))) (Suc h)
        (map (\<lambda>c. cn_TokenID (nodes ! c)) [1..<Suc (Suc h)]) (map (parent_pos nodes) [1..<Suc (Suc h)])"
      using True u q by (simp add: Let_def)
    then show ?thesis using Suc.IH [OF l] Suc.prems(2) by simp
  qed
qed

lemma Linearize_ok:
  assumes "tree_ok (ct_nodes t)"
  shows "Linearize (Some t) = Some (map (\<lambda>c. cn_TokenID (ct_nodes t ! c)) [1..<length (ct_nodes t)],
    map (parent_pos (ct_nodes t)) [1..<length (ct_nodes t)])"
proof -
  have l: "0 < length (ct_nodes t)" using assms by (simp add: tree_ok_def)
  have "map (\<lambda>c. (c, -1)) (cn_Children (ct_nodes t ! 0)) =
      map (\<lambda>c. (c, parent_pos (ct_nodes t) c)) (seen (ct_nodes t) (Suc 0))"
    using children_pos [OF assms l] seen_Suc [OF l] by (simp add: seen_def)
  then show ?thesis using bfs_loop_ok [OF assms l, of "length (ct_nodes t)"] by (simp add: Linearize_def)
qed

lemma parent_pos_before:
  assumes "tree_ok nodes" and "i < length nodes - 1"
  shows "-1 \<le> parent_pos nodes (Suc i) \<and> parent_pos nodes (Suc i) < int i"
proof -
  obtain p where p: "p < Suc i" "Suc i \<in> set (cn_Children (nodes ! p))"
    using node_has_parent [OF assms(1), of "Suc i"] assms(2) less_diff_conv by auto
  moreover have "p < length nodes" using p(1) assms(2) by linarith
  ultimately have "cn_Parent (nodes ! Suc i) = Some p" using assms(1) by (auto simp: tree_ok_def)
  then show ?thesis using p(1) by (simp add: parent_pos_def)
qed

section \<open>The attention mask\<close>

definition parent_of :: "int list \<Rightarrow> nat \<Rightarrow> nat \<Rightarrow> bool" where
  "parent_of ps i j \<longleftrightarrow> i < length ps \<and> 0 \<le> ps ! i \<and> j = nat (ps ! i)"

text \<open>Parents come before their children.\<close>

definition parents_before :: "int list \<Rightarrow> bool" where
  "parents_before ps \<longleftrightarrow> (\<forall>i < length ps. ps ! i < int i)"

lemma cell_lt: "(i::nat) < n \<Longrightarrow> j < n \<Longrightarrow> i * n + j < n * n"
proof -
  assume "i < n" "j < n"
  then have "i * n + j < i * n + n" "(i + 1) * n \<le> n * n" by (simp, intro mult_le_mono1) simp
  then show ?thesis by simp
qed

lemma cell_inj: "j < n \<Longrightarrow> j' < n \<Longrightarrow> i * n + j = i' * n + j' \<longleftrightarrow> i = i' \<and> j = (j'::nat)"
proof
  assume l: "j < n" "j' < n" and e: "i * n + j = i' * n + j'"
  from l have "(i * n + j) div n = i" "(i' * n + j') div n = i'" by simp_all
  then have "i = i'" using e by argo
  then show "i = i' \<and> j = j'" using e by simp
qed simp

lemma ancestor_chain:
  assumes "i < length ps"
  shows "(parent_of ps)\<^sup>*\<^sup>* i j \<longleftrightarrow> i = j \<or> (0 \<le> ps ! i \<and> (parent_of ps)\<^sup>*\<^sup>* (nat (ps ! i)) j)"
proof
  assume "(parent_of ps)\<^sup>*\<^sup>* i j"
  then show "i = j \<or> (0 \<le> ps ! i \<and> (parent_of ps)\<^sup>*\<^sup>* (nat (ps ! i)) j)"
    by (cases rule: converse_rtranclpE) (auto simp: parent_of_def)
next
  assume "i = j \<or> (0 \<le> ps ! i \<and> (parent_of ps)\<^sup>*\<^sup>* (nat (ps ! i)) j)"
  moreover have "0 \<le> ps ! i \<Longrightarrow> parent_of ps i (nat (ps ! i))" using assms by (simp add: parent_of_def)
  ultimately show "(parent_of ps)\<^sup>*\<^sup>* i j" by (auto intro: converse_rtranclp_into_rtranclp)
qed

text \<open>The walk from \<open>j\<close> marks \<open>j\<close> and its ancestors in row \<open>i\<close>, and ends.\<close>

lemma mark_ancestors_ok:
  assumes "parents_before ps" and "i < length ps" and "length marks = length ps * length ps" and "j < int (length ps)"
  shows "\<exists>marks'. mark_ancestors (int (length ps)) ps (int i) j marks = Some marks' \<and> length marks' = length marks \<and>
    (\<forall>x < length marks. marks' ! x \<longleftrightarrow> marks ! x \<or>
       (0 \<le> j \<and> (\<exists>a < length ps. x = i * length ps + a \<and> (parent_of ps)\<^sup>*\<^sup>* (nat j) a)))"
  using assms(3,4)
proof (induction "nat (j + 1)" arbitrary: j marks rule: less_induct)
  case less
  let ?n = "length ps"
  show ?case
  proof (cases "0 \<le> j")
    case False
    then show ?thesis by (subst mark_ancestors.simps) simp
  next
    case True
    define k where "k = nat j"
    have k: "j = int k" "k < ?n" using True less.prems(2) by (auto simp: k_def)
    have c: "int i * int ?n + j = int (i * ?n + k)" "i * ?n + k < length marks"
      using k assms(2) cell_lt less.prems(1) by simp_all
    let ?m = "marks[i * ?n + k := True]"
    have b: "ps ! k < int k" using assms(1) k(2) by (simp add: parents_before_def)
    have "nat (ps ! k + 1) < nat (j + 1)" "length ?m = ?n * ?n" "ps ! k < int ?n" using b k less.prems(1) by auto
    from less.hyps [OF this] obtain marks' where m: "mark_ancestors (int ?n) ps (int i) (ps ! k) ?m = Some marks'"
      "length marks' = length marks"
      "\<forall>x < length marks. marks' ! x \<longleftrightarrow> ?m ! x \<or>
         (0 \<le> ps ! k \<and> (\<exists>a < ?n. x = i * ?n + a \<and> (parent_of ps)\<^sup>*\<^sup>* (nat (ps ! k)) a))" by auto
    have s: "mark_ancestors (int ?n) ps (int i) j marks = Some marks'"
      using True c k m(1) by (subst mark_ancestors.simps) (simp add: upd_of_nat del: of_nat_add of_nat_mult)
    have "marks' ! x \<longleftrightarrow> marks ! x \<or> (\<exists>a < ?n. x = i * ?n + a \<and> (parent_of ps)\<^sup>*\<^sup>* k a)" if x: "x < length marks" for x
      using m(3) x k(2) ancestor_chain [OF k(2)] c(2) by (cases "x = i * ?n + k") auto
    then show ?thesis using s m(2) True by (auto simp: k_def)
  qed
qed

lemma mask_row_ok:
  assumes "parents_before ps" and "i < length ps" and "length marks = length ps * length ps"
  shows "\<exists>marks'. mask_row (int (length ps)) ps i marks = Some marks' \<and> length marks' = length marks \<and>
    (\<forall>x < length marks. marks' ! x \<longleftrightarrow> marks ! x \<or> (\<exists>a < length ps. x = i * length ps + a \<and> (parent_of ps)\<^sup>*\<^sup>* i a))"
proof -
  let ?n = "length ps"
  have c: "int i * int ?n + int i = int (i * ?n + i)" "i * ?n + i < length marks"
    using assms(2,3) cell_lt by simp_all
  let ?m = "marks[i * ?n + i := True]"
  have "ps ! i < int ?n" "length ?m = ?n * ?n" using assms by (auto simp: parents_before_def dest: spec [of _ i])
  then obtain marks' where m: "mark_ancestors (int ?n) ps (int i) (ps ! i) ?m = Some marks'" "length marks' = length marks"
    "\<forall>x < length marks. marks' ! x \<longleftrightarrow> ?m ! x \<or>
       (0 \<le> ps ! i \<and> (\<exists>a < ?n. x = i * ?n + a \<and> (parent_of ps)\<^sup>*\<^sup>* (nat (ps ! i)) a))"
    using mark_ancestors_ok [OF assms(1,2), of ?m "ps ! i"] by auto
  have s: "mask_row (int ?n) ps i marks = Some marks'"
    using c m(1) assms(2) by (simp add: mask_row_def upd_of_nat del: of_nat_add of_nat_mult)
  have "marks' ! x \<longleftrightarrow> marks ! x \<or> (\<exists>a < ?n. x = i * ?n + a \<and> (parent_of ps)\<^sup>*\<^sup>* i a)" if x: "x < length marks" for x
    using m(3) x assms(2) ancestor_chain [OF assms(2)] c(2) by (cases "x = i * ?n + i") auto
  then show ?thesis using s m(2) by blast
qed

lemma mask_rows_ok:
  assumes "parents_before ps" and "k \<le> length ps"
  shows "\<exists>marks. foldM (mask_row (int (length ps)) ps) [0..<k] (replicate (length ps * length ps) False) = Some marks \<and>
    length marks = length ps * length ps \<and>
    (\<forall>x < length marks. marks ! x \<longleftrightarrow> (\<exists>i < k. \<exists>a < length ps. x = i * length ps + a \<and> (parent_of ps)\<^sup>*\<^sup>* i a))"
  using assms(2)
proof (induction k)
  case 0
  then show ?case by simp
next
  case (Suc k)
  then obtain marks where m: "foldM (mask_row (int (length ps)) ps) [0..<k] (replicate (length ps * length ps) False) = Some marks"
    "length marks = length ps * length ps"
    "\<forall>x < length marks. marks ! x \<longleftrightarrow> (\<exists>i < k. \<exists>a < length ps. x = i * length ps + a \<and> (parent_of ps)\<^sup>*\<^sup>* i a)" by auto
  obtain marks' where m': "mask_row (int (length ps)) ps k marks = Some marks'" "length marks' = length marks"
    "\<forall>x < length marks. marks' ! x \<longleftrightarrow> marks ! x \<or> (\<exists>a < length ps. x = k * length ps + a \<and> (parent_of ps)\<^sup>*\<^sup>* k a)"
    using mask_row_ok [OF assms(1) _ m(2), of k] Suc.prems by auto
  then show ?case using m by (auto simp: foldM_append less_Suc_eq)
qed

text \<open>
  C24: \<open>BuildTreeAttentionMask\<close> on any parent list whose parents come before their children returns, and the cell
  of node \<open>i\<close> and node \<open>j\<close> is set exactly when \<open>j\<close> is \<open>i\<close> or one of its ancestors.
\<close>

theorem BuildTreeAttentionMask_ancestors:
  assumes "parents_before ps" and "i < length ps" and "j < length ps"
  shows "\<exists>marks. BuildTreeAttentionMask (len ps) ps = Some marks \<and> length marks = length ps * length ps \<and>
    (marks ! (i * length ps + j) \<longleftrightarrow> (parent_of ps)\<^sup>*\<^sup>* i j)"
proof -
  obtain marks where m: "foldM (mask_row (int (length ps)) ps) [0..<length ps] (replicate (length ps * length ps) False) = Some marks"
    "length marks = length ps * length ps"
    "\<forall>x < length marks. marks ! x \<longleftrightarrow> (\<exists>i < length ps. \<exists>a < length ps. x = i * length ps + a \<and> (parent_of ps)\<^sup>*\<^sup>* i a)"
    using mask_rows_ok [OF assms(1) order_refl] by blast
  have "BuildTreeAttentionMask (len ps) ps = Some marks"
    using m(1) by (simp add: BuildTreeAttentionMask_def make_slice_def len_def nat_mult_distrib)
  moreover have "marks ! (i * length ps + j) \<longleftrightarrow> (parent_of ps)\<^sup>*\<^sup>* i j"
    using m(2,3) cell_lt [OF assms(2,3)] cell_inj [OF assms(3)] assms(2,3) by auto
  ultimately show ?thesis using m(2) by blast
qed

theorem BuildTreeAttentionMask_ancestors_witness:
  "\<exists>marks. BuildTreeAttentionMask 4 [-1, 0, 0, 1] = Some marks \<and> length marks = 16 \<and>
    (marks ! 13 \<longleftrightarrow> (parent_of [-1, 0, 0, 1])\<^sup>*\<^sup>* 3 1)"
  using BuildTreeAttentionMask_ancestors [of "[-1, 0, 0, 1]" 3 1]
  by (simp add: parents_before_def less_Suc_eq nth_Cons' eval_nat_numeral)



section \<open>The argument of the maximum\<close>

text \<open>With a running maximum \<open>m\<close> at \<open>k\<close>: the result is \<open>k\<close>, or the first place of the greatest later value.\<close>

lemma argmax_loop_spec:
  assumes "\<not> f32_nan m"
  shows "(argmax_loop vs i k m = k \<and> (\<forall>v \<in> set vs. \<not> f32_less m v)) \<or>
    (\<exists>r < length vs. argmax_loop vs i k m = i + int r \<and> f32_less m (vs ! r) \<and>
      (\<forall>v \<in> set vs. \<not> f32_less (vs ! r) v) \<and> (\<forall>j < r. f32_nan (vs ! j) \<or> f32_less (vs ! j) (vs ! r)))"
  using assms
proof (induction vs arbitrary: i k m)
  case Nil
  then show ?case by simp
next
  case (Cons v vs)
  show ?case
  proof (cases "f32_less m v")
    case False
    have v: "f32_nan v \<or> f32_less v x" if "f32_less m x" for x
      using False that Cons.prems by (auto simp: f32_less_def)
    show ?thesis using Cons.IH [OF Cons.prems, of "i + 1" k]
    proof (elim disjE exE conjE)
      fix r assume r: "r < length vs" "argmax_loop vs (i + 1) k m = i + 1 + int r" "f32_less m (vs ! r)"
        "\<forall>v \<in> set vs. \<not> f32_less (vs ! r) v" "\<forall>j < r. f32_nan (vs ! j) \<or> f32_less (vs ! j) (vs ! r)"
      have "\<not> f32_less (vs ! r) v" using v [OF r(3)] by (auto simp: f32_less_def)
      then show ?thesis using False r v [OF r(3)]
        by (intro disjI2 exI [of _ "Suc r"]) (auto simp: less_Suc_eq_0_disj)
    qed (use False in auto)
  next
    case True
    then have n: "\<not> f32_nan v" by (simp add: f32_less_def)
    show ?thesis using Cons.IH [OF n, of "i + 1" i]
    proof (elim disjE exE conjE)
      assume "argmax_loop vs (i + 1) i v = i" "\<forall>x \<in> set vs. \<not> f32_less v x"
      then show ?thesis using True by (intro disjI2 exI [of _ 0]) simp
    next
      fix r assume r: "r < length vs" "argmax_loop vs (i + 1) i v = i + 1 + int r" "f32_less v (vs ! r)"
        "\<forall>x \<in> set vs. \<not> f32_less (vs ! r) x" "\<forall>j < r. f32_nan (vs ! j) \<or> f32_less (vs ! j) (vs ! r)"
      have "\<not> f32_less (vs ! r) v" using r(3) by (auto simp: f32_less_def)
      then show ?thesis using True r f32_less_trans [OF True r(3)]
        by (intro disjI2 exI [of _ "Suc r"]) (auto simp: less_Suc_eq_0_disj)
    qed
  qed
qed

lemma min_finite_number: "\<not> f32_nan f32_min_finite"
  by (simp add: f32_nan_def f32_mag_def f32_min_finite_def)

text \<open>
  \<open>argmaxSlice\<close> finds the first greatest logit: when some value is a number above \<open>-MaxFloat32\<close>, the result
  is an index of the slice whose value no other exceeds, and every earlier value is smaller or not a number.
\<close>

theorem argmaxSlice_first_maximum:
  assumes "v \<in> set values" and "f32_less f32_min_finite v"
  shows "\<exists>r < length values. argmaxSlice values = int r \<and> (\<forall>w \<in> set values. \<not> f32_less (values ! r) w) \<and>
    (\<forall>j < r. f32_nan (values ! j) \<or> f32_less (values ! j) (values ! r))"
proof -
  have "values \<noteq> []" using assms(1) by auto
  then have "argmaxSlice values = argmax_loop values 0 0 f32_min_finite" by (simp add: argmaxSlice_def)
  then show ?thesis using argmax_loop_spec [OF min_finite_number, of "values" 0 0] assms by auto
qed

theorem argmaxSlice_first_maximum_witness:
  "\<exists>r. argmaxSlice [0 :: f32, 0x3F800000, 0x3F800000] = int r \<and> r < 3"
proof -
  let ?vs = "[0, 0x3F800000, 0x3F800000] :: f32 list"
  have "f32_less f32_min_finite 0" by (simp add: f32_less_key f32_nan_def f32_mag_def f32_key_def f32_neg_def f32_min_finite_def)
  moreover have "0 \<in> set ?vs" by simp
  ultimately show ?thesis using argmaxSlice_first_maximum [of 0 ?vs] by auto
qed

section \<open>Verifying a path\<close>

lemma path_loop_spec:
  "\<exists>k. k \<le> length ds \<and> k \<le> length rows \<and> (\<forall>i < k. ds ! i = argmaxSlice (rows ! i)) \<and>
    (k < length ds \<and> k < length rows \<longrightarrow> ds ! k \<noteq> argmaxSlice (rows ! k)) \<and>
    path_loop ds rows n =
      (n + int k, if k < length ds \<and> k < length rows then Some (argmaxSlice (rows ! k)) else None)"
proof (induction ds rows n rule: path_loop.induct)
  case (3 d ds r rows accepted)
  show ?case
  proof (cases "d = argmaxSlice r")
    case False
    then show ?thesis by (intro exI [of _ 0]) (simp add: Let_def)
  next
    case True
    obtain k where k: "k \<le> length ds" "k \<le> length rows" "\<forall>i < k. ds ! i = argmaxSlice (rows ! i)"
      "k < length ds \<and> k < length rows \<longrightarrow> ds ! k \<noteq> argmaxSlice (rows ! k)"
      "path_loop ds rows (accepted + 1) =
        (accepted + 1 + int k, if k < length ds \<and> k < length rows then Some (argmaxSlice (rows ! k)) else None)"
      using 3 [OF refl True] by blast
    then show ?thesis using True by (intro exI [of _ "Suc k"]) (auto simp: less_Suc_eq_0_disj Let_def)
  qed
qed auto

text \<open>
  \<open>VerifyTreePath\<close> always returns and accepts a longest prefix: all accepted tokens are the target's greedy
  choices, the final token is the target's choice at the first disagreement, or behind the path when there
  is a row for it; without such a row it repeats the target's choice at the last accepted position.
\<close>

theorem VerifyTreePath_longest_prefix:
  assumes "cp_Tokens path \<noteq> []"
  shows "\<exists>k final. VerifyTreePath path rows = Some (int k, final) \<and>
    k \<le> length (cp_Tokens path) \<and> k \<le> length rows \<and> (\<forall>i < k. cp_Tokens path ! i = argmaxSlice (rows ! i)) \<and>
    (if k < length rows then final = argmaxSlice (rows ! k) \<and>
        (k = length (cp_Tokens path) \<or> cp_Tokens path ! k \<noteq> argmaxSlice (rows ! k))
     else final = (if k = 0 then 0 else argmaxSlice (rows ! (k - 1))))"
proof -
  let ?ds = "cp_Tokens path"
  obtain k where k: "k \<le> length ?ds" "k \<le> length rows" "\<forall>i < k. ?ds ! i = argmaxSlice (rows ! i)"
    "k < length ?ds \<and> k < length rows \<longrightarrow> ?ds ! k \<noteq> argmaxSlice (rows ! k)"
    "path_loop ?ds rows 0 = (int k, if k < length ?ds \<and> k < length rows then Some (argmaxSlice (rows ! k)) else None)"
    using path_loop_spec [of ?ds rows 0] by auto
  consider (cut) "k < length ?ds" "k < length rows" | (bonus) "k = length ?ds" "k < length rows" | (short) "k = length rows"
    using k(1,2) by linarith
  then show ?thesis
  proof cases
    case cut
    then have "VerifyTreePath path rows = Some (int k, argmaxSlice (rows ! k))"
      using assms k(5) by (simp add: VerifyTreePath_def)
    then show ?thesis using k cut by auto
  next
    case bonus
    then have "VerifyTreePath path rows = Some (int k, argmaxSlice (rows ! k))"
      using assms k(5) by (simp add: VerifyTreePath_def len_def)
    then show ?thesis using k bonus by auto
  next
    case short
    then have "VerifyTreePath path rows = Some (int k, if k = 0 then 0 else argmaxSlice (rows ! (k - 1)))"
      using assms k(1,5) nat_diff_distrib' [of "int k" 1] by (auto simp: VerifyTreePath_def len_def idx_def)
    then show ?thesis using k short by auto
  qed
qed

theorem VerifyTreePath_longest_prefix_witness:
  "\<exists>k final. VerifyTreePath \<lparr>cp_Tokens = [1, 0], cp_Confidence = 0\<rparr> [[0, 1], [0, 1]] = Some (int k, final) \<and> k \<le> 2"
  using VerifyTreePath_longest_prefix [of "\<lparr>cp_Tokens = [1, 0], cp_Confidence = 0\<rparr>" "[[0, 1], [0, 1]]"]
  by (simp add: numeral_2_eq_2) blast

text \<open>
  With one row per path token and all of them accepted there is no row for a bonus token; the row of the last
  accepted token is used again, so the final token repeats it.
\<close>

lemma full_path_repeats_last:
  "VerifyTreePath \<lparr>cp_Tokens = [1], cp_Confidence = 0\<rparr> [[0, 0x3F800000]] = Some (1, 1)"
  by (simp add: VerifyTreePath_def argmaxSlice_def idx_def f32_less_key f32_nan_def f32_mag_def f32_key_def f32_neg_def
      f32_min_finite_def)

end
