(* ===== verification/Bytes.thy ===== *)
theory Bytes
  imports Prelude
begin

text \<open>
  Byte streams: little-endian numbers, the reads of a fixed number of bytes, and parsers over the rest of
  the stream. A parser panics (\<open>None\<close>), fails with an error, or returns a value; in every case but the first
  it leaves the rest of the stream. The locale \<open>codec\<close> states that a parser inverts a printer on the values
  of a set, whatever follows in the stream, and derives the same for sequences of values.
\<close>

type_synonym byte = "8 word"

section \<open>Numbers and strings\<close>

primrec le_nat :: "byte list \<Rightarrow> nat" where
  "le_nat [] = 0"
| "le_nat (b # bs) = unat b + 256 * le_nat bs"

primrec le_encode :: "nat \<Rightarrow> nat \<Rightarrow> byte list" where
  "le_encode 0 n = []"
| "le_encode (Suc k) n = word_of_nat n # le_encode k (n div 256)"

lemma length_le_encode [simp]: "length (le_encode k n) = k"
  by (induction k arbitrary: n) auto

lemma le_nat_encode: "le_nat (le_encode k n) = n mod 256 ^ k"
proof (induction k arbitrary: n)
  case (Suc k)
  have "n mod 256 + 256 * (n div 256 mod 256 ^ k) = n mod (256 * 256 ^ k)"
    using mod_mult2_eq [of n 256 "256 ^ k"] by simp
  then show ?case using Suc by (simp add: unat_of_nat)
qed simp

lemma le_nat_lt: "le_nat bs < 256 ^ length bs"
proof (induction bs)
  case (Cons b bs)
  have "unat b < 2 ^ LENGTH(8)" by (rule unsigned_less)
  then have "unat b < 256" by simp
  then have "unat b + 256 * le_nat bs < 256 + 256 * le_nat bs" by simp
  also have "\<dots> = 256 * (le_nat bs + 1)" by simp
  also have "\<dots> \<le> 256 * 256 ^ length bs" using Cons by (intro mult_le_mono2) simp
  finally show ?case by simp
qed simp

text \<open>Go's \<open>string(buf)\<close> and \<open>[]byte(s)\<close>: a character is a byte.\<close>

definition string_of_bytes :: "byte list \<Rightarrow> string" where
  "string_of_bytes bs = map (\<lambda>b. char_of (unat b)) bs"

definition bytes_of_string :: "string \<Rightarrow> byte list" where
  "bytes_of_string s = map (\<lambda>c. word_of_nat (of_char c)) s"

lemma length_bytes_of_string [simp]: "length (bytes_of_string s) = length s"
  by (simp add: bytes_of_string_def)

lemma string_of_bytes_of_string [simp]: "string_of_bytes (bytes_of_string s) = s"
proof -
  have "char_of (unat (word_of_nat (of_char c) :: byte)) = c" for c :: char
    by (simp add: unat_of_nat)
  then show ?thesis by (simp add: string_of_bytes_def bytes_of_string_def comp_def)
qed

section \<open>Reading\<close>

text \<open>\<open>io.ReadFull\<close>: nothing at all is \<open>EOF\<close>, too little is \<open>ErrUnexpectedEOF\<close> and is consumed.\<close>

datatype io_error = EOF | UnexpectedEOF | InvalidSeek

definition read_full :: "nat \<Rightarrow> byte list \<Rightarrow> (io_error + byte list) \<times> byte list" where
  "read_full n bs =
     (if n = 0 then (Inr [], bs)
      else if bs = [] then (Inl EOF, [])
      else if length bs < n then (Inl UnexpectedEOF, [])
      else (Inr (take n bs), drop n bs))"

lemma read_full_append: "length bs = n \<Longrightarrow> read_full n (bs @ rest) = (Inr bs, rest)"
  by (auto simp: read_full_def)

lemma read_full_shorter: "length (snd (read_full n bs)) \<le> length bs"
  by (simp add: read_full_def)

type_synonym ('e, 'a) reader = "byte list \<Rightarrow> (('e + 'a) \<times> byte list) option"

definition rpure :: "'a \<Rightarrow> ('e, 'a) reader" where
  "rpure x bs = Some (Inr x, bs)"

definition rfail :: "'e \<Rightarrow> ('e, 'a) reader" where
  "rfail e bs = Some (Inl e, bs)"

definition rbind :: "('e, 'a) reader \<Rightarrow> ('a \<Rightarrow> ('e, 'b) reader) \<Rightarrow> ('e, 'b) reader" where
  "rbind m f bs =
     (case m bs of
        None \<Rightarrow> None
      | Some (Inl e, r) \<Rightarrow> Some (Inl e, r)
      | Some (Inr x, r) \<Rightarrow> f x r)"

text \<open>\<open>fmt.Errorf\<close> around an error.\<close>

definition rwrap :: "('e \<Rightarrow> 'e) \<Rightarrow> ('e, 'a) reader \<Rightarrow> ('e, 'a) reader" where
  "rwrap w m bs =
     (case m bs of
        None \<Rightarrow> None
      | Some (Inl e, r) \<Rightarrow> Some (Inl (w e), r)
      | Some (Inr x, r) \<Rightarrow> Some (Inr x, r))"

text \<open>\<open>make([]T, n)\<close> panics when \<open>n\<close> is more than the run time can allocate.\<close>

definition rmake :: "nat \<Rightarrow> nat \<Rightarrow> ('e, unit) reader" where
  "rmake lim n bs = (if n \<le> lim then Some (Inr (), bs) else None)"

fun rlist :: "(nat \<Rightarrow> ('e, 'a) reader) \<Rightarrow> nat \<Rightarrow> nat \<Rightarrow> ('e, 'a list) reader" where
  "rlist m i 0 = rpure []"
| "rlist m i (Suc k) = rbind (m i) (\<lambda>x. rbind (rlist m (Suc i) k) (\<lambda>xs. rpure (x # xs)))"

lemmas reader_defs [go_defs] = rpure_def rfail_def rbind_def rwrap_def rmake_def

lemma rbind_Inr [simp]: "m bs = Some (Inr x, r) \<Longrightarrow> rbind m f bs = f x r"
  by (simp add: rbind_def)

lemma rwrap_Inr [simp]: "m bs = Some (Inr x, r) \<Longrightarrow> rwrap w m bs = Some (Inr x, r)"
  by (simp add: rwrap_def)

lemma rpure_apply [simp]: "rpure x bs = Some (Inr x, bs)"
  by (simp add: rpure_def)

lemma rmake_ok [simp]: "n \<le> lim \<Longrightarrow> rmake lim n bs = Some (Inr (), bs)"
  by (simp add: rmake_def)

section \<open>Parsers that invert printers\<close>

locale codec =
  fixes enc :: "'a \<Rightarrow> byte list"
    and dec :: "('e, 'a) reader"
    and good :: "'a \<Rightarrow> bool"
  assumes dec_enc: "good x \<Longrightarrow> dec (enc x @ rest) = Some (Inr x, rest)"
begin

lemma rlist_enc:
  "\<forall>x \<in> set xs. good x \<Longrightarrow>
   rlist (\<lambda>i. rwrap (w i) dec) k (length xs) (concat (map enc xs) @ rest) = Some (Inr xs, rest)"
  by (induction xs arbitrary: k) (simp_all add: dec_enc)

lemma rlist_enc_plain:
  "\<forall>x \<in> set xs. good x \<Longrightarrow> rlist (\<lambda>i. dec) k (length xs) (concat (map enc xs) @ rest) = Some (Inr xs, rest)"
  by (induction xs arbitrary: k) (simp_all add: dec_enc)

text \<open>A printed value is determined by its printed form.\<close>

lemma enc_inj: "good x \<Longrightarrow> good y \<Longrightarrow> enc x = enc y \<Longrightarrow> x = y"
  using dec_enc [of x "[]"] dec_enc [of y "[]"] by simp

end

text \<open>A parser that also reports an error on every proper prefix of a printed value.\<close>

locale framed_codec = codec +
  assumes short: "good x \<Longrightarrow> n < length (enc x) \<Longrightarrow> \<exists>e r. dec (take n (enc x)) = Some (Inl e, r)"
begin

lemma rlist_short:
  "\<forall>x \<in> set xs. good x \<Longrightarrow> n < length (concat (map enc xs)) \<Longrightarrow>
   \<exists>e r. rlist (\<lambda>i. dec) k (length xs) (take n (concat (map enc xs))) = Some (Inl e, r)"
proof (induction xs arbitrary: k n)
  case (Cons x xs)
  show ?case
  proof (cases "n < length (enc x)")
    case True
    then show ?thesis using short [of x n] Cons.prems by (auto simp: rbind_def)
  next
    case False
    then have "take n (concat (map enc (x # xs))) = enc x @ take (n - length (enc x)) (concat (map enc xs))" by simp
    moreover have "\<exists>e r. rlist (\<lambda>i. dec) (Suc k) (length xs) (take (n - length (enc x)) (concat (map enc xs))) = Some (Inl e, r)"
      using Cons.prems False by (intro Cons.IH) auto
    ultimately show ?thesis using Cons.prems dec_enc [of x] by (auto simp: rbind_def)
  qed
qed simp

end

end
