(* ===== verification/Gguf.thy ===== *)
theory Gguf
  imports Bytes Float32
begin

text \<open>
  The file \<open>inference/pkg/gguf/gguf.go\<close>: the container format of the model weights. A file is its list of
  bytes; the parser reads the header, the metadata and the tensor descriptions, and the model
  configuration is extracted from the metadata. A \<open>uint64\<close> is a 64 word, floats are bit patterns. The
  argument \<open>lim\<close> is the greatest length of a slice that \<open>make\<close> can allocate; beyond it \<open>make\<close> panics.
  \<open>PrintSummary\<close>, which only prints, and the closing of the file are not modelled.
\<close>

section \<open>Types of tensors\<close>

definition Magic :: "32 word" where
  "Magic = 0x46554747"

text \<open>The constants of \<open>MetadataType\<close> and \<open>TensorType\<close>; both are \<open>uint32\<close> in the code and unknown values occur.\<close>

type_synonym MetadataType = "32 word"

abbreviation (input) MetaTypeUint8 :: MetadataType where "MetaTypeUint8 \<equiv> 0"
abbreviation (input) MetaTypeInt8 :: MetadataType where "MetaTypeInt8 \<equiv> 1"
abbreviation (input) MetaTypeUint16 :: MetadataType where "MetaTypeUint16 \<equiv> 2"
abbreviation (input) MetaTypeInt16 :: MetadataType where "MetaTypeInt16 \<equiv> 3"
abbreviation (input) MetaTypeUint32 :: MetadataType where "MetaTypeUint32 \<equiv> 4"
abbreviation (input) MetaTypeInt32 :: MetadataType where "MetaTypeInt32 \<equiv> 5"
abbreviation (input) MetaTypeFloat32 :: MetadataType where "MetaTypeFloat32 \<equiv> 6"
abbreviation (input) MetaTypeBool :: MetadataType where "MetaTypeBool \<equiv> 7"
abbreviation (input) MetaTypeString :: MetadataType where "MetaTypeString \<equiv> 8"
abbreviation (input) MetaTypeArray :: MetadataType where "MetaTypeArray \<equiv> 9"
abbreviation (input) MetaTypeUint64 :: MetadataType where "MetaTypeUint64 \<equiv> 10"
abbreviation (input) MetaTypeInt64 :: MetadataType where "MetaTypeInt64 \<equiv> 11"
abbreviation (input) MetaTypeFloat64 :: MetadataType where "MetaTypeFloat64 \<equiv> 12"

type_synonym TensorType = "32 word"

abbreviation (input) TensorTypeF32 :: TensorType where "TensorTypeF32 \<equiv> 0"
abbreviation (input) TensorTypeF16 :: TensorType where "TensorTypeF16 \<equiv> 1"
abbreviation (input) TensorTypeQ4_0 :: TensorType where "TensorTypeQ4_0 \<equiv> 2"
abbreviation (input) TensorTypeQ4_1 :: TensorType where "TensorTypeQ4_1 \<equiv> 3"
abbreviation (input) TensorTypeQ5_0 :: TensorType where "TensorTypeQ5_0 \<equiv> 6"
abbreviation (input) TensorTypeQ5_1 :: TensorType where "TensorTypeQ5_1 \<equiv> 7"
abbreviation (input) TensorTypeQ8_0 :: TensorType where "TensorTypeQ8_0 \<equiv> 8"
abbreviation (input) TensorTypeQ8_1 :: TensorType where "TensorTypeQ8_1 \<equiv> 9"
abbreviation (input) TensorTypeQ4_K :: TensorType where "TensorTypeQ4_K \<equiv> 12"
abbreviation (input) TensorTypeQ5_K :: TensorType where "TensorTypeQ5_K \<equiv> 13"
abbreviation (input) TensorTypeQ6_K :: TensorType where "TensorTypeQ6_K \<equiv> 14"
abbreviation (input) TensorTypeQ2_K :: TensorType where "TensorTypeQ2_K \<equiv> 10"
abbreviation (input) TensorTypeQ3_K :: TensorType where "TensorTypeQ3_K \<equiv> 11"
abbreviation (input) TensorTypeQ8_K :: TensorType where "TensorTypeQ8_K \<equiv> 15"
abbreviation (input) TensorTypeIQ2 :: TensorType where "TensorTypeIQ2 \<equiv> 16"
abbreviation (input) TensorTypeIQ3 :: TensorType where "TensorTypeIQ3 \<equiv> 17"
abbreviation (input) TensorTypeIQ1 :: TensorType where "TensorTypeIQ1 \<equiv> 18"
abbreviation (input) TensorTypeBF16 :: TensorType where "TensorTypeBF16 \<equiv> 30"

definition TensorType_BlockSize :: "TensorType \<Rightarrow> int" where
  "TensorType_BlockSize t =
     (if t \<in> {TensorTypeF32, TensorTypeF16, TensorTypeBF16} then 1
      else if t \<in> {TensorTypeQ4_0, TensorTypeQ4_1, TensorTypeQ5_0, TensorTypeQ5_1, TensorTypeQ8_0, TensorTypeQ8_1} then 32
      else if t \<in> {TensorTypeQ4_K, TensorTypeQ5_K, TensorTypeQ6_K} then 256
      else 32)"

definition TensorType_BytesPerBlock :: "TensorType \<Rightarrow> int" where
  "TensorType_BytesPerBlock t =
     (if t = TensorTypeF32 then 4
      else if t = TensorTypeF16 \<or> t = TensorTypeBF16 then 2
      else if t = TensorTypeQ4_0 then 2 + 16
      else if t = TensorTypeQ5_0 then 22
      else if t = TensorTypeQ5_1 then 24
      else if t = TensorTypeQ8_0 then 2 + 32
      else if t = TensorTypeQ4_K then 144
      else if t = TensorTypeQ5_K then 176
      else if t = TensorTypeQ6_K then 210
      else 32)"

section \<open>Metadata values\<close>

text \<open>
  The Go struct has one field per scalar type and two for arrays. Only \<open>readMetadataValue\<close> sets the array
  fields, so the elements of arrays are values without them. Signed fields keep their bit pattern.
\<close>

record ScalarValue =
  mv_Type :: MetadataType
  mv_Uint8 :: "8 word"
  mv_Int8 :: "8 word"
  mv_Uint16 :: "16 word"
  mv_Int16 :: "16 word"
  mv_Uint32 :: "32 word"
  mv_Int32 :: "32 word"
  mv_Uint64 :: "64 word"
  mv_Int64 :: "64 word"
  mv_Float32 :: f32
  mv_Float64 :: "64 word"
  mv_Bool :: bool
  mv_String :: string

record MetadataValue = ScalarValue +
  mv_Array :: "ScalarValue list"
  mv_ArrayType :: MetadataType

definition zero_scalar :: "MetadataType \<Rightarrow> ScalarValue" where
  "zero_scalar ty =
     \<lparr>mv_Type = ty, mv_Uint8 = 0, mv_Int8 = 0, mv_Uint16 = 0, mv_Int16 = 0, mv_Uint32 = 0, mv_Int32 = 0,
      mv_Uint64 = 0, mv_Int64 = 0, mv_Float32 = 0, mv_Float64 = 0, mv_Bool = False, mv_String = []\<rparr>"

definition metadata_of :: "ScalarValue \<Rightarrow> ScalarValue list \<Rightarrow> MetadataType \<Rightarrow> MetadataValue" where
  "metadata_of v xs ty = ScalarValue.extend v \<lparr>mv_Array = xs, mv_ArrayType = ty\<rparr>"

definition AsString :: "('a) ScalarValue_scheme \<Rightarrow> string" where
  "AsString v = mv_String v"

definition AsUint32 :: "('a) ScalarValue_scheme \<Rightarrow> 32 word" where
  "AsUint32 v =
     (if mv_Type v = MetaTypeUint32 then mv_Uint32 v
      else if mv_Type v = MetaTypeUint64 then ucast (mv_Uint64 v)
      else if mv_Type v = MetaTypeInt32 then mv_Int32 v
      else 0)"

definition AsUint64 :: "('a) ScalarValue_scheme \<Rightarrow> 64 word" where
  "AsUint64 v =
     (if mv_Type v = MetaTypeUint64 then mv_Uint64 v
      else if mv_Type v = MetaTypeUint32 then ucast (mv_Uint32 v)
      else 0)"

definition AsBool :: "('a) ScalarValue_scheme \<Rightarrow> bool" where
  "AsBool v = mv_Bool v"

text \<open>The conversion \<open>float32(x)\<close> of a \<open>float64\<close>: to the nearest, ties to even; subnormals, overflow, NaN.\<close>

definition round_half_even :: "int \<Rightarrow> nat \<Rightarrow> int" where
  "round_half_even m s = (let q = m div 2 ^ s; r = m mod 2 ^ s; h = 2 ^ (s - 1) in
     if r > h \<or> (r = h \<and> odd q) then q + 1 else q)"

definition f32_of_f64 :: "64 word \<Rightarrow> f32" where
  "f32_of_f64 x =
     (let mag = uint (take_bit 63 x); sign = (if bit x 63 then 2 ^ 31 else 0);
          e = mag div 2 ^ 52; m = mag mod 2 ^ 52;
          r = (if e = 2047 then (if m = 0 then 0x7F800000 else 0x7FC00000 + m div 2 ^ 29 mod 2 ^ 22)
               else let n = round_half_even (if e = 0 then m else 2 ^ 52 + m) (if e \<le> 896 then nat (926 - e) else 29)
                    in min ((if e \<le> 896 then 0 else (e - 897) * 2 ^ 23) + n) 0x7F800000)
      in word_of_int (sign + r))"

definition AsFloat32 :: "('a) ScalarValue_scheme \<Rightarrow> f32" where
  "AsFloat32 v =
     (if mv_Type v = MetaTypeFloat32 then mv_Float32 v
      else if mv_Type v = MetaTypeFloat64 then f32_of_f64 (mv_Float64 v)
      else 0)"

section \<open>Tensor descriptions and files\<close>

record TensorInfo =
  ti_Name :: string
  ti_Dimensions :: "64 word list"
  ti_Type :: TensorType
  ti_Offset :: "64 word"

definition TensorInfo_NumElements :: "TensorInfo \<Rightarrow> 64 word" where
  "TensorInfo_NumElements t =
     (if len (ti_Dimensions t) = 0 then 0 else foldl (*) 1 (ti_Dimensions t))"

record GgufFile =
  gf_Version :: "32 word"
  gf_Metadata :: "string \<rightharpoonup> MetadataValue"
  gf_Tensors :: "TensorInfo list"
  gf_DataOffset :: int
  gf_Architecture :: string
  gf_NumLayers :: int
  gf_HiddenSize :: int
  gf_NumHeads :: int
  gf_NumKVHeads :: int
  gf_VocabSize :: int
  gf_IntermediateSize :: int
  gf_ContextLength :: int
  gf_RoPETheta :: f32
  gf_RoPEDimCount :: int
  gf_SlidingWindow :: int
  gf_RMSNormEPS :: f32
  gf_HeadDim :: int
  gf_AttnLogitSoftCap :: f32
  gf_FinalLogitSoftCap :: f32
  gf_ExpertCount :: int
  gf_ExpertUsedCount :: int
  gf_file :: "byte list option"

datatype gguf_error =
    IoError io_error
  | BadMagic "32 word"
  | BadVersion "32 word"
  | StringTooLong "64 word"
  | UnknownMetadataType "32 word"
  | FileNotOpen
  | Wrapped string gguf_error

section \<open>Reading\<close>

text \<open>\<open>binary.Read\<close> into a number of \<open>k\<close> bytes, with the error returned or ignored (the number stays 0).\<close>

definition read_uint :: "nat \<Rightarrow> (gguf_error, 'a::len word) reader" where
  "read_uint k bs =
     (case read_full k bs of
        (Inl e, r) \<Rightarrow> Some (Inl (IoError e), r)
      | (Inr b, r) \<Rightarrow> Some (Inr (word_of_nat (le_nat b)), r))"

definition read_ignoring :: "nat \<Rightarrow> (gguf_error, 'a::len word) reader" where
  "read_ignoring k bs =
     (case read_full k bs of
        (Inl e, r) \<Rightarrow> Some (Inr 0, r)
      | (Inr b, r) \<Rightarrow> Some (Inr (word_of_nat (le_nat b)), r))"

definition read_bytes :: "nat \<Rightarrow> (gguf_error, byte list) reader" where
  "read_bytes n bs =
     (case read_full n bs of
        (Inl e, r) \<Rightarrow> Some (Inl (IoError e), r)
      | (Inr b, r) \<Rightarrow> Some (Inr b, r))"

definition readString :: "(gguf_error, string) reader" where
  "readString =
     rbind (read_uint 8) (\<lambda>length :: 64 word.
       if length > 65535 then rfail (StringTooLong length)
       else rbind (read_bytes (unat length)) (\<lambda>buf. rpure (string_of_bytes buf)))"

text \<open>An element of another type, an array in particular, reads nothing.\<close>

definition readArrayElement :: "MetadataType \<Rightarrow> (gguf_error, ScalarValue) reader" where
  "readArrayElement elemType =
     (let v = zero_scalar elemType in
      if elemType = MetaTypeUint8 then rbind (read_ignoring 1) (\<lambda>x. rpure (v\<lparr>mv_Uint8 := x\<rparr>))
      else if elemType = MetaTypeInt8 then rbind (read_ignoring 1) (\<lambda>x. rpure (v\<lparr>mv_Int8 := x\<rparr>))
      else if elemType = MetaTypeUint16 then rbind (read_ignoring 2) (\<lambda>x. rpure (v\<lparr>mv_Uint16 := x\<rparr>))
      else if elemType = MetaTypeInt16 then rbind (read_ignoring 2) (\<lambda>x. rpure (v\<lparr>mv_Int16 := x\<rparr>))
      else if elemType = MetaTypeUint32 then rbind (read_ignoring 4) (\<lambda>x. rpure (v\<lparr>mv_Uint32 := x\<rparr>))
      else if elemType = MetaTypeInt32 then rbind (read_ignoring 4) (\<lambda>x. rpure (v\<lparr>mv_Int32 := x\<rparr>))
      else if elemType = MetaTypeUint64 then rbind (read_ignoring 8) (\<lambda>x. rpure (v\<lparr>mv_Uint64 := x\<rparr>))
      else if elemType = MetaTypeInt64 then rbind (read_ignoring 8) (\<lambda>x. rpure (v\<lparr>mv_Int64 := x\<rparr>))
      else if elemType = MetaTypeFloat32 then rbind (read_ignoring 4) (\<lambda>x. rpure (v\<lparr>mv_Float32 := x\<rparr>))
      else if elemType = MetaTypeFloat64 then rbind (read_ignoring 8) (\<lambda>x. rpure (v\<lparr>mv_Float64 := x\<rparr>))
      else if elemType = MetaTypeBool then rbind (read_ignoring 1) (\<lambda>x :: 8 word. rpure (v\<lparr>mv_Bool := (x \<noteq> 0)\<rparr>))
      else if elemType = MetaTypeString then rbind readString (\<lambda>s. rpure (v\<lparr>mv_String := s\<rparr>))
      else rpure v)"

text \<open>The scalar cases of \<open>readMetadataValue\<close> are those of \<open>readArrayElement\<close>.\<close>

definition readMetadataValue :: "nat \<Rightarrow> (gguf_error, MetadataValue) reader" where
  "readMetadataValue lim =
     rbind (read_uint 4) (\<lambda>valueType.
       if valueType = MetaTypeArray then
         rbind (read_ignoring 4) (\<lambda>arrayType. rbind (read_ignoring 8) (\<lambda>arrayLen :: 64 word.
           rbind (rmake lim (unat arrayLen)) (\<lambda>_.
             rbind (rlist (\<lambda>i. readArrayElement arrayType) 0 (unat arrayLen)) (\<lambda>xs.
               rpure (metadata_of (zero_scalar valueType) xs arrayType)))))
       else if valueType \<le> MetaTypeFloat64 then
         rbind (readArrayElement valueType) (\<lambda>v. rpure (metadata_of v [] 0))
       else rfail (UnknownMetadataType valueType))"

definition readMetadataKV :: "nat \<Rightarrow> (gguf_error, string \<times> MetadataValue) reader" where
  "readMetadataKV lim =
     rbind (rwrap (Wrapped ''failed to read key'') readString) (\<lambda>key.
       rbind (rwrap (Wrapped (''failed to read value for '' @ key)) (readMetadataValue lim)) (\<lambda>value.
         rpure (key, value)))"

definition readTensorInfo :: "nat \<Rightarrow> (gguf_error, TensorInfo) reader" where
  "readTensorInfo lim =
     rbind (rwrap (Wrapped ''failed to read tensor name'') readString) (\<lambda>name.
       rbind (read_uint 4) (\<lambda>nDims :: 32 word.
         rbind (rmake lim (unat nDims)) (\<lambda>_.
           rbind (rlist (\<lambda>i. read_uint 8) 0 (unat nDims)) (\<lambda>ds.
             rbind (read_uint 4) (\<lambda>tensorType.
               rbind (read_uint 8) (\<lambda>offset.
                 rpure \<lparr>ti_Name = name, ti_Dimensions = ds, ti_Type = tensorType, ti_Offset = offset\<rparr>))))))"

section \<open>The header\<close>

definition put_metadata :: "(string \<rightharpoonup> MetadataValue) \<Rightarrow> string \<times> MetadataValue \<Rightarrow> (string \<rightharpoonup> MetadataValue)" where
  "put_metadata m kv = m(fst kv \<mapsto> snd kv)"

definition read_header :: "nat \<Rightarrow> GgufFile \<Rightarrow> (gguf_error, GgufFile) reader" where
  "read_header lim f =
     rbind (rwrap (Wrapped ''failed to read magic'') (read_uint 4)) (\<lambda>magic.
       if magic \<noteq> Magic then rfail (BadMagic magic)
       else
         rbind (rwrap (Wrapped ''failed to read version'') (read_uint 4)) (\<lambda>version.
           if version < 2 \<or> version > 3 then rfail (BadVersion version)
           else
             rbind (rwrap (Wrapped ''failed to read tensor count'') (read_uint 8)) (\<lambda>tensorCount :: 64 word.
               rbind (rwrap (Wrapped ''failed to read metadata count'') (read_uint 8)) (\<lambda>metadataCount :: 64 word.
                 rbind (rlist (\<lambda>i. rwrap (Wrapped (''failed to read metadata '' @ string_of_nat i)) (readMetadataKV lim))
                          0 (unat metadataCount)) (\<lambda>kvs.
                   rbind (rmake lim (unat tensorCount)) (\<lambda>_.
                     rbind (rlist (\<lambda>i. rwrap (Wrapped (''failed to read tensor info '' @ string_of_nat i)) (readTensorInfo lim))
                              0 (unat tensorCount)) (\<lambda>infos.
                       rpure (f\<lparr>gf_Version := version, gf_Metadata := foldl put_metadata (gf_Metadata f) kvs,
                                gf_Tensors := infos\<rparr>))))))))"

text \<open>The offset of the tensor data: the position rounded up to the alignment, in 64-bit arithmetic.\<close>

definition align_offset :: "int \<Rightarrow> 64 word \<Rightarrow> int option" where
  "align_offset currentPos alignment =
     (let a = sint alignment in
      do { q \<leftarrow> go_div (int64_of (currentPos + a - 1)) a; Some (int64_of (int64_of q * a)) })"

definition parseHeader :: "nat \<Rightarrow> GgufFile \<Rightarrow> byte list \<Rightarrow> (gguf_error + GgufFile) option" where
  "parseHeader lim f bs =
     do { (r, rest) \<leftarrow> read_header lim f bs;
          case r of
            Inl e \<Rightarrow> Some (Inl e)
          | Inr f1 \<Rightarrow>
              do { let alignment = (case gf_Metadata f1 ''general.alignment'' of None \<Rightarrow> 32 | Some v \<Rightarrow> AsUint64 v);
                   off \<leftarrow> align_offset (len bs - len rest) alignment;
                   Some (Inr (f1\<lparr>gf_DataOffset := off\<rparr>)) } }"

section \<open>The model configuration\<close>

text \<open>One step of \<open>extractModelConfig\<close>: the field is set when the key is there.\<close>

definition meta_int :: "(string \<rightharpoonup> MetadataValue) \<Rightarrow> string \<Rightarrow> int \<Rightarrow> int" where
  "meta_int md key old = (case md key of None \<Rightarrow> old | Some v \<Rightarrow> uint (AsUint32 v))"

definition meta_f32 :: "(string \<rightharpoonup> MetadataValue) \<Rightarrow> string \<Rightarrow> f32 \<Rightarrow> f32" where
  "meta_f32 md key old = (case md key of None \<Rightarrow> old | Some v \<Rightarrow> AsFloat32 v)"

text \<open>\<open>10000.0\<close> is the pattern \<open>0x461C4000\<close>.\<close>

definition extractModelConfig :: "GgufFile \<Rightarrow> GgufFile" where
  "extractModelConfig f =
     (let md = gf_Metadata f;
          architecture = (case md ''general.architecture'' of None \<Rightarrow> gf_Architecture f | Some v \<Rightarrow> AsString v);
          arch = (if architecture = '''' then ''llama'' else architecture);
          prefix = arch @ ''.'';
          numHeads = meta_int md (prefix @ ''attention.head_count'') (gf_NumHeads f)
      in f\<lparr>gf_Architecture := architecture,
           gf_NumLayers := meta_int md (prefix @ ''block_count'') (gf_NumLayers f),
           gf_HiddenSize := meta_int md (prefix @ ''embedding_length'') (gf_HiddenSize f),
           gf_NumHeads := numHeads,
           gf_NumKVHeads := meta_int md (prefix @ ''attention.head_count_kv'') numHeads,
           gf_IntermediateSize := meta_int md (prefix @ ''feed_forward_length'') (gf_IntermediateSize f),
           gf_ContextLength := meta_int md (prefix @ ''context_length'') (gf_ContextLength f),
           gf_RoPETheta := meta_f32 md (prefix @ ''rope.freq_base'') 0x461C4000,
           gf_RoPEDimCount := meta_int md (prefix @ ''rope.dimension_count'') (gf_RoPEDimCount f),
           gf_SlidingWindow := meta_int md (prefix @ ''attention.sliding_window'') (gf_SlidingWindow f),
           gf_RMSNormEPS := meta_f32 md (prefix @ ''attention.layer_norm_rms_epsilon'') (gf_RMSNormEPS f),
           gf_HeadDim := meta_int md (prefix @ ''attention.key_length'') (gf_HeadDim f),
           gf_AttnLogitSoftCap := meta_f32 md (arch @ ''.attn_logit_softcapping'') (gf_AttnLogitSoftCap f),
           gf_FinalLogitSoftCap := meta_f32 md (arch @ ''.final_logit_softcapping'') (gf_FinalLogitSoftCap f),
           gf_ExpertCount := meta_int md (prefix @ ''expert_count'') (gf_ExpertCount f),
           gf_ExpertUsedCount := meta_int md (prefix @ ''expert_used_count'') (gf_ExpertUsedCount f),
           gf_VocabSize :=
             (case md ''tokenizer.ggml.tokens'' of
                None \<Rightarrow> gf_VocabSize f
              | Some v \<Rightarrow> if mv_Type v = MetaTypeArray then len (mv_Array v) else gf_VocabSize f)\<rparr>)"

definition new_file :: "byte list \<Rightarrow> GgufFile" where
  "new_file bs =
     \<lparr>gf_Version = 0, gf_Metadata = Map.empty, gf_Tensors = [], gf_DataOffset = 0, gf_Architecture = '''',
      gf_NumLayers = 0, gf_HiddenSize = 0, gf_NumHeads = 0, gf_NumKVHeads = 0, gf_VocabSize = 0,
      gf_IntermediateSize = 0, gf_ContextLength = 0, gf_RoPETheta = 0, gf_RoPEDimCount = 0, gf_SlidingWindow = 0,
      gf_RMSNormEPS = 0, gf_HeadDim = 0, gf_AttnLogitSoftCap = 0, gf_FinalLogitSoftCap = 0, gf_ExpertCount = 0,
      gf_ExpertUsedCount = 0, gf_file = Some bs\<rparr>"

text \<open>\<open>Open\<close> on a file that exists and has the given bytes.\<close>

definition Gguf_Open :: "nat \<Rightarrow> byte list \<Rightarrow> (gguf_error + GgufFile) option" where
  "Gguf_Open lim bs = map_option (map_sum id extractModelConfig) (parseHeader lim (new_file bs) bs)"

record ModelConfigValues =
  mc_Architecture :: string
  mc_NumLayers :: int
  mc_HiddenSize :: int
  mc_IntermediateSize :: int
  mc_NumHeads :: int
  mc_NumKVHeads :: int
  mc_VocabSize :: int
  mc_ContextLength :: int
  mc_RoPETheta :: f32
  mc_RoPEDimCount :: int
  mc_SlidingWindow :: int
  mc_RMSNormEPS :: f32
  mc_HeadDim :: int
  mc_AttnLogitSoftCap :: f32
  mc_FinalLogitSoftCap :: f32
  mc_ExpertCount :: int
  mc_ExpertUsedCount :: int

definition GetModelConfig :: "GgufFile \<Rightarrow> ModelConfigValues" where
  "GetModelConfig f =
     \<lparr>mc_Architecture = gf_Architecture f, mc_NumLayers = gf_NumLayers f, mc_HiddenSize = gf_HiddenSize f,
      mc_IntermediateSize = gf_IntermediateSize f, mc_NumHeads = gf_NumHeads f, mc_NumKVHeads = gf_NumKVHeads f,
      mc_VocabSize = gf_VocabSize f, mc_ContextLength = gf_ContextLength f, mc_RoPETheta = gf_RoPETheta f,
      mc_RoPEDimCount = gf_RoPEDimCount f, mc_SlidingWindow = gf_SlidingWindow f, mc_RMSNormEPS = gf_RMSNormEPS f,
      mc_HeadDim = gf_HeadDim f, mc_AttnLogitSoftCap = gf_AttnLogitSoftCap f,
      mc_FinalLogitSoftCap = gf_FinalLogitSoftCap f, mc_ExpertCount = gf_ExpertCount f,
      mc_ExpertUsedCount = gf_ExpertUsedCount f\<rparr>"

section \<open>Tensor data\<close>

definition zero_tensor_info :: TensorInfo where
  "zero_tensor_info = \<lparr>ti_Name = '''', ti_Dimensions = [], ti_Type = 0, ti_Offset = 0\<rparr>"

fun find_tensor :: "string \<Rightarrow> TensorInfo list \<Rightarrow> TensorInfo \<times> bool" where
  "find_tensor name [] = (zero_tensor_info, False)"
| "find_tensor name (t # ts) = (if ti_Name t = name then (t, True) else find_tensor name ts)"

definition GetTensor :: "GgufFile \<Rightarrow> string \<Rightarrow> TensorInfo \<times> bool" where
  "GetTensor f name = find_tensor name (gf_Tensors f)"

text \<open>The size of the data in bytes, in 64-bit arithmetic.\<close>

definition tensor_data_size :: "TensorInfo \<Rightarrow> 64 word" where
  "tensor_data_size info =
     (let numElements = TensorInfo_NumElements info;
          blockSize = word_of_int (TensorType_BlockSize (ti_Type info));
          bytesPerBlock = word_of_int (TensorType_BytesPerBlock (ti_Type info));
          numBlocks = (numElements + blockSize - 1) div blockSize
      in numBlocks * bytesPerBlock)"

definition ReadTensorData :: "nat \<Rightarrow> GgufFile \<Rightarrow> TensorInfo \<Rightarrow> (gguf_error + byte list) option" where
  "ReadTensorData lim f info =
     (case gf_file f of
        None \<Rightarrow> Some (Inl FileNotOpen)
      | Some bs \<Rightarrow>
          let dataSize = tensor_data_size info;
              offset = int64_of (gf_DataOffset f + sint (ti_Offset info))
          in if offset < 0 then Some (Inl (IoError InvalidSeek))
             else if unat dataSize > lim then None
             else case read_full (unat dataSize) (drop (nat offset) bs) of
                    (Inl e, r) \<Rightarrow> Some (Inl (IoError e))
                  | (Inr b, r) \<Rightarrow> Some (Inr b))"

definition TensorType_String :: "TensorType \<Rightarrow> string" where
  "TensorType_String t =
     (if t = TensorTypeF32 then ''F32''
      else if t = TensorTypeF16 then ''F16''
      else if t = TensorTypeQ4_0 then ''Q4_0''
      else if t = TensorTypeQ4_1 then ''Q4_1''
      else if t = TensorTypeQ5_0 then ''Q5_0''
      else if t = TensorTypeQ5_1 then ''Q5_1''
      else if t = TensorTypeQ8_0 then ''Q8_0''
      else if t = TensorTypeQ8_1 then ''Q8_1''
      else if t = TensorTypeQ4_K then ''Q4_K''
      else if t = TensorTypeQ5_K then ''Q5_K''
      else if t = TensorTypeQ6_K then ''Q6_K''
      else if t = TensorTypeBF16 then ''BF16''
      else ''Unknown('' @ string_of_nat (unat t) @ '')'')"

end
