(* ===== verification/Gguf_Props.thy ===== *)
theory Gguf_Props
  imports Gguf
begin

text \<open>
  The GGUF parser inverts the format. A writer is given here from the format's description; the parser of
  each part is shown to be a codec with it, part by part, so that parsing a written file returns its
  metadata and tensors and finds the data section. Then: what \<open>ReadTensorData\<close> returns, and the inputs on which
  the parser goes wrong.
\<close>

section \<open>Writing\<close>

definition write_word :: "nat \<Rightarrow> 'a::len word \<Rightarrow> byte list" where
  "write_word k w = le_encode k (unat w)"

definition write_string :: "string \<Rightarrow> byte list" where
  "write_string s = le_encode 8 (length s) @ bytes_of_string s"

definition write_scalar :: "('a) ScalarValue_scheme \<Rightarrow> byte list" where
  "write_scalar v =
     (if mv_Type v = MetaTypeUint8 then write_word 1 (mv_Uint8 v)
      else if mv_Type v = MetaTypeInt8 then write_word 1 (mv_Int8 v)
      else if mv_Type v = MetaTypeUint16 then write_word 2 (mv_Uint16 v)
      else if mv_Type v = MetaTypeInt16 then write_word 2 (mv_Int16 v)
      else if mv_Type v = MetaTypeUint32 then write_word 4 (mv_Uint32 v)
      else if mv_Type v = MetaTypeInt32 then write_word 4 (mv_Int32 v)
      else if mv_Type v = MetaTypeUint64 then write_word 8 (mv_Uint64 v)
      else if mv_Type v = MetaTypeInt64 then write_word 8 (mv_Int64 v)
      else if mv_Type v = MetaTypeFloat32 then write_word 4 (mv_Float32 v)
      else if mv_Type v = MetaTypeFloat64 then write_word 8 (mv_Float64 v)
      else if mv_Type v = MetaTypeBool then write_word 1 (if mv_Bool v then 1 else 0 :: 8 word)
      else write_string (mv_String v))"

text \<open>A value carries data in the field of its type only.\<close>

definition only_field :: "MetadataType \<Rightarrow> ScalarValue \<Rightarrow> ScalarValue" where
  "only_field ty v =
     (let z = zero_scalar ty in
      if ty = MetaTypeUint8 then z\<lparr>mv_Uint8 := mv_Uint8 v\<rparr>
      else if ty = MetaTypeInt8 then z\<lparr>mv_Int8 := mv_Int8 v\<rparr>
      else if ty = MetaTypeUint16 then z\<lparr>mv_Uint16 := mv_Uint16 v\<rparr>
      else if ty = MetaTypeInt16 then z\<lparr>mv_Int16 := mv_Int16 v\<rparr>
      else if ty = MetaTypeUint32 then z\<lparr>mv_Uint32 := mv_Uint32 v\<rparr>
      else if ty = MetaTypeInt32 then z\<lparr>mv_Int32 := mv_Int32 v\<rparr>
      else if ty = MetaTypeUint64 then z\<lparr>mv_Uint64 := mv_Uint64 v\<rparr>
      else if ty = MetaTypeInt64 then z\<lparr>mv_Int64 := mv_Int64 v\<rparr>
      else if ty = MetaTypeFloat32 then z\<lparr>mv_Float32 := mv_Float32 v\<rparr>
      else if ty = MetaTypeFloat64 then z\<lparr>mv_Float64 := mv_Float64 v\<rparr>
      else if ty = MetaTypeBool then z\<lparr>mv_Bool := mv_Bool v\<rparr>
      else z\<lparr>mv_String := mv_String v\<rparr>)"

definition scalar_ok :: "MetadataType \<Rightarrow> ScalarValue \<Rightarrow> bool" where
  "scalar_ok ty v \<longleftrightarrow> ty \<le> MetaTypeFloat64 \<and> ty \<noteq> MetaTypeArray \<and> length (mv_String v) \<le> 65535 \<and> v = only_field ty v"

definition write_value :: "MetadataValue \<Rightarrow> byte list" where
  "write_value v =
     write_word 4 (mv_Type v) @
     (if mv_Type v = MetaTypeArray
      then write_word 4 (mv_ArrayType v) @ le_encode 8 (length (mv_Array v)) @ concat (map write_scalar (mv_Array v))
      else write_scalar v)"

definition value_ok :: "nat \<Rightarrow> MetadataValue \<Rightarrow> bool" where
  "value_ok lim v \<longleftrightarrow>
     (if mv_Type v = MetaTypeArray
      then v = metadata_of (zero_scalar MetaTypeArray) (mv_Array v) (mv_ArrayType v) \<and>
        length (mv_Array v) \<le> lim \<and> length (mv_Array v) < 2 ^ 64 \<and> (\<forall>x \<in> set (mv_Array v). scalar_ok (mv_ArrayType v) x)
      else v = metadata_of (ScalarValue.truncate v) [] 0 \<and> scalar_ok (mv_Type v) (ScalarValue.truncate v))"

definition write_kv :: "string \<times> MetadataValue \<Rightarrow> byte list" where
  "write_kv kv = write_string (fst kv) @ write_value (snd kv)"

definition kv_ok :: "nat \<Rightarrow> string \<times> MetadataValue \<Rightarrow> bool" where
  "kv_ok lim kv \<longleftrightarrow> length (fst kv) \<le> 65535 \<and> value_ok lim (snd kv)"

definition write_tensor :: "TensorInfo \<Rightarrow> byte list" where
  "write_tensor t =
     write_string (ti_Name t) @ le_encode 4 (length (ti_Dimensions t)) @ concat (map (write_word 8) (ti_Dimensions t)) @
     write_word 4 (ti_Type t) @ write_word 8 (ti_Offset t)"

definition tensor_ok :: "nat \<Rightarrow> TensorInfo \<Rightarrow> bool" where
  "tensor_ok lim t \<longleftrightarrow> length (ti_Name t) \<le> 65535 \<and> length (ti_Dimensions t) \<le> lim \<and> length (ti_Dimensions t) < 2 ^ 32"

definition write_header :: "32 word \<Rightarrow> (string \<times> MetadataValue) list \<Rightarrow> TensorInfo list \<Rightarrow> byte list" where
  "write_header version kvs ts =
     write_word 4 Magic @ write_word 4 version @ le_encode 8 (length ts) @ le_encode 8 (length kvs) @
     concat (map write_kv kvs) @ concat (map write_tensor ts)"

section \<open>The codecs\<close>

lemma read_uint_encode:
  "n < 2 ^ LENGTH('a) \<Longrightarrow> LENGTH('a) = 8 * k \<Longrightarrow> read_uint k (le_encode k n @ rest) = Some (Inr (word_of_nat n :: 'a::len word), rest)"
proof -
  assume n: "n < 2 ^ LENGTH('a)" "LENGTH('a) = 8 * k"
  have "(256::nat) ^ k = 2 ^ LENGTH('a)" using n(2) by (simp add: power_mult)
  then show ?thesis using n by (simp add: read_uint_def read_full_append le_nat_encode)
qed

lemma read_ignoring_encode:
  "n < 2 ^ LENGTH('a) \<Longrightarrow> LENGTH('a) = 8 * k \<Longrightarrow> read_ignoring k (le_encode k n @ rest) = Some (Inr (word_of_nat n :: 'a::len word), rest)"
  using read_uint_encode [where 'a = 'a, of n k rest] by (auto simp: read_uint_def read_ignoring_def read_full_append)

interpretation word32: codec "write_word 4" "read_uint 4 :: (gguf_error, 32 word) reader" "\<lambda>_. True"
  by unfold_locales (simp add: write_word_def read_uint_encode [where 'a = 32, simplified] unsigned_less [where 'b = 32, simplified])

interpretation word64: codec "write_word 8" "read_uint 8 :: (gguf_error, 64 word) reader" "\<lambda>_. True"
  by unfold_locales (simp add: write_word_def read_uint_encode [where 'a = 64, simplified] unsigned_less [where 'b = 64, simplified])

lemma read_count:
  "n < 2 ^ 64 \<Longrightarrow> read_uint 8 (le_encode 8 n @ rest) = Some (Inr (word_of_nat n :: 64 word), rest)"
  by (simp add: read_uint_encode)

interpretation str: codec write_string readString "\<lambda>s. length s \<le> 65535"
proof
  fix s :: string and rest
  assume s: "length s \<le> 65535"
  then have l: "unat (word_of_nat (length s) :: 64 word) = length s" by (simp add: unat_of_nat)
  then have "\<not> 65535 < (word_of_nat (length s) :: 64 word)" using s by (simp add: word_less_nat_alt)
  then show "readString (write_string s @ rest) = Some (Inr s, rest)"
    using s l by (simp add: readString_def write_string_def read_count read_bytes_def read_full_append)
qed

lemma read_ignoring_word:
  "LENGTH('a) = 8 * k \<Longrightarrow> read_ignoring k (write_word k w @ rest) = Some (Inr (w :: 'a::len word), rest)"
proof -
  assume "LENGTH('a) = 8 * k"
  moreover have "unat w < 2 ^ LENGTH('a)" by (rule unsigned_less)
  ultimately show ?thesis by (simp add: write_word_def read_ignoring_encode)
qed

lemma scalar_types:
  fixes ty :: MetadataType
  assumes "ty \<le> 12" and "ty \<noteq> 9"
  shows "ty \<in> {0, 1, 2, 3, 4, 5, 6, 7, 8, 10, 11, 12}"
proof -
  have "unat ty \<le> 12" using assms(1) by (simp add: word_le_nat_alt)
  moreover have "unat ty \<noteq> 9"
  proof
    assume "unat ty = 9"
    then have "word_of_nat (unat ty) = (9 :: 32 word)" by (simp only: of_nat_numeral)
    then show False using assms(2) by simp
  qed
  ultimately have "unat ty \<in> {0, 1, 2, 3, 4, 5, 6, 7, 8, 10, 11, 12}" unfolding insert_iff empty_iff by arith
  then have "word_of_nat (unat ty) \<in> (word_of_nat :: nat \<Rightarrow> 32 word) ` {0, 1, 2, 3, 4, 5, 6, 7, 8, 10, 11, 12}" by (rule imageI)
  then show ?thesis by simp
qed

interpretation scalar: codec write_scalar "readArrayElement ty" "scalar_ok ty" for ty
proof
  fix v rest
  assume ok: "scalar_ok ty v"
  then have v: "v = only_field ty v" and s: "length (mv_String v) \<le> 65535" and ty: "ty \<in> {0, 1, 2, 3, 4, 5, 6, 7, 8, 10, 11, 12}"
    using scalar_types by (auto simp: scalar_ok_def)
  have t: "mv_Type v = ty" by (subst v) (simp add: only_field_def zero_scalar_def Let_def)
  show "readArrayElement ty (write_scalar v @ rest) = Some (Inr v, rest)"
    using ty v s unfolding write_scalar_def t readArrayElement_def only_field_def
    by (elim insertE; cases "mv_Bool v"; simp add: read_ignoring_word str.dec_enc)
qed

interpretation mval: codec write_value "readMetadataValue lim" "value_ok lim" for lim
proof
  fix v rest
  assume ok: "value_ok lim v"
  let ?n = "length (mv_Array v)"
  show "readMetadataValue lim (write_value v @ rest) = Some (Inr v, rest)"
  proof (cases "mv_Type v = 9")
    case True
    then have v: "v = metadata_of (zero_scalar 9) (mv_Array v) (mv_ArrayType v)" and n: "?n \<le> lim" "?n < 2 ^ 64"
      and xs: "\<forall>x \<in> set (mv_Array v). scalar_ok (mv_ArrayType v) x"
      using ok by (simp_all add: value_ok_def)
    have l: "unat (word_of_nat ?n :: 64 word) = ?n" using n(2) by (simp add: unat_of_nat)
    have "read_ignoring 8 (le_encode 8 ?n @ bs) = Some (Inr (word_of_nat ?n :: 64 word), bs)" for bs
      using n(2) by (simp add: read_ignoring_encode)
    then show ?thesis
      using True n l v [symmetric]
      by (simp add: readMetadataValue_def write_value_def word32.dec_enc read_ignoring_word
          scalar.rlist_enc_plain [OF xs])
  next
    case False
    then have v: "v = metadata_of (ScalarValue.truncate v) [] 0" and s: "scalar_ok (mv_Type v) (ScalarValue.truncate v)"
      using ok by (simp_all add: value_ok_def)
    have "write_scalar v = write_scalar (ScalarValue.truncate v)"
      by (simp add: write_scalar_def ScalarValue.defs)
    moreover have "mv_Type v \<le> 12" using s by (simp add: scalar_ok_def)
    ultimately show ?thesis
      using False v [symmetric] by (simp add: readMetadataValue_def write_value_def word32.dec_enc scalar.dec_enc [OF s])
  qed
qed

interpretation kv: codec write_kv "readMetadataKV lim" "kv_ok lim" for lim
  by unfold_locales (simp add: kv_ok_def write_kv_def readMetadataKV_def str.dec_enc mval.dec_enc)

interpretation tensor: codec write_tensor "readTensorInfo lim" "tensor_ok lim" for lim
proof
  fix t rest
  assume ok: "tensor_ok lim t"
  let ?n = "length (ti_Dimensions t)"
  have n: "?n \<le> lim" "unat (word_of_nat ?n :: 32 word) = ?n"
    using ok by (simp_all add: tensor_ok_def unat_of_nat)
  have "read_uint 4 (le_encode 4 ?n @ bs) = Some (Inr (word_of_nat ?n :: 32 word), bs)" for bs
    using ok by (simp add: tensor_ok_def read_uint_encode)
  then show "readTensorInfo lim (write_tensor t @ rest) = Some (Inr t, rest)"
    using ok n by (simp add: tensor_ok_def readTensorInfo_def write_tensor_def str.dec_enc word32.dec_enc word64.dec_enc
        word64.rlist_enc_plain)
qed

section \<open>Parsing a written file\<close>

lemma foldl_put_metadata: "foldl put_metadata m kvs = m ++ map_of (rev kvs)"
  by (induction kvs arbitrary: m) (auto simp: put_metadata_def map_add_def fun_eq_iff split: option.splits)

lemma read_header_write:
  assumes "version = 2 \<or> version = 3" and "\<forall>kv \<in> set kvs. kv_ok lim kv" and "\<forall>t \<in> set ts. tensor_ok lim t"
    and "length kvs < 2 ^ 64" and "length ts < 2 ^ 64" and "length ts \<le> lim"
  shows "read_header lim f (write_header version kvs ts @ rest) =
    Some (Inr (f\<lparr>gf_Version := version, gf_Metadata := gf_Metadata f ++ map_of (rev kvs), gf_Tensors := ts\<rparr>), rest)"
proof -
  have l: "unat (word_of_nat (length kvs) :: 64 word) = length kvs" "unat (word_of_nat (length ts) :: 64 word) = length ts"
    using assms(4,5) by (simp_all add: unat_of_nat)
  have "\<not> version < 2" "\<not> 3 < version" using assms(1) by auto
  then show ?thesis
    using assms(6) l by (simp add: read_header_def write_header_def word32.dec_enc read_count [OF assms(4)] read_count [OF assms(5)]
        kv.rlist_enc [OF assms(2)] tensor.rlist_enc [OF assms(3)] foldl_put_metadata)
qed

lemma align_offset_spec:
  assumes "0 \<le> pos" and "0 < sint a" and "pos + sint a < 2 ^ 63"
  shows "\<exists>off. align_offset pos a = Some off \<and> sint a dvd off \<and> pos \<le> off \<and> off < pos + sint a"
proof -
  let ?a = "sint a" and ?q = "(pos + sint a - 1) div sint a"
  have b: "pos \<le> ?q * ?a" "?q * ?a < pos + ?a" using ceil_div_bounds [OF assms(2), of pos] by auto
  have q: "0 \<le> ?q" using assms by (simp add: pos_imp_zdiv_nonneg_iff)
  moreover have "?q * 1 \<le> ?q * ?a" using q assms(2) by (intro mult_left_mono) auto
  ultimately have "int64_of ?q = ?q" "int64_of (?q * ?a) = ?q * ?a" "int64_of (pos + ?a - 1) = pos + ?a - 1"
    using b assms by auto
  then have "align_offset pos a = Some (?q * ?a)" using assms by (simp add: align_offset_def Let_def)
  then show ?thesis using b by auto
qed

definition alignment_of :: "(string \<times> MetadataValue) list \<Rightarrow> 64 word" where
  "alignment_of kvs = (case map_of (rev kvs) ''general.alignment'' of None \<Rightarrow> 32 | Some v \<Rightarrow> AsUint64 v)"


definition demo_arch :: MetadataValue where
  "demo_arch = metadata_of ((zero_scalar MetaTypeString)\<lparr>mv_String := ''llama''\<rparr>) [] 0"

definition demo_tensor :: TensorInfo where
  "demo_tensor = \<lparr>ti_Name = ''w'', ti_Dimensions = [2], ti_Type = TensorTypeF32, ti_Offset = 0\<rparr>"

lemma demo_kv_ok: "kv_ok 10 (''general.architecture'', demo_arch)"
  by (simp add: kv_ok_def value_ok_def demo_arch_def scalar_ok_def only_field_def metadata_of_def zero_scalar_def
      ScalarValue.defs)

lemma demo_tensor_ok: "tensor_ok 10 demo_tensor"
  by (simp add: tensor_ok_def demo_tensor_def)

lemma demo_header_length: "len (write_header 3 [(''general.architecture'', demo_arch)] [demo_tensor]) \<le> 200"
  by (simp add: write_header_def write_kv_def write_value_def write_scalar_def write_tensor_def write_word_def
      write_string_def demo_arch_def demo_tensor_def metadata_of_def zero_scalar_def ScalarValue.defs len_def)


section \<open>Tensor data\<close>

text \<open>The number of bytes a tensor needs: its elements in whole blocks.\<close>

definition data_bytes :: "TensorInfo \<Rightarrow> int" where
  "data_bytes t =
     (let n = (if ti_Dimensions t = [] then 0 else prod_list (map uint (ti_Dimensions t)));
          b = TensorType_BlockSize (ti_Type t)
      in (n + b - 1) div b * TensorType_BytesPerBlock (ti_Type t))"

lemma block_constants:
  "1 \<le> TensorType_BlockSize t" "TensorType_BlockSize t \<le> 256" "0 \<le> TensorType_BytesPerBlock t" "TensorType_BytesPerBlock t \<le> 210"
  by (simp_all add: TensorType_BlockSize_def TensorType_BytesPerBlock_def)

lemma foldl_mult_word:
  "foldl (*) (word_of_int c) ds = (word_of_int (c * prod_list (map uint ds)) :: 64 word)"
proof (induction ds arbitrary: c)
  case (Cons d ds)
  have "word_of_int c * d = (word_of_int (c * uint d) :: 64 word)" by simp
  then show ?case using Cons [of "c * uint d"] by (simp add: mult.assoc)
qed simp

lemma prod_uint_nonneg: "0 \<le> prod_list (map uint (ds :: 64 word list))"
  by (induction ds) auto

lemma blocks_word:
  fixes n b p :: int
  assumes "0 \<le> n" and "n < 2 ^ 55" and "1 \<le> b" and "b \<le> 256" and "0 \<le> p" and "p \<le> 210"
  shows "uint ((word_of_int n + word_of_int b - 1) div word_of_int b * word_of_int p :: 64 word) = (n + b - 1) div b * p"
proof -
  let ?m = "n + b - 1"
  have u: "uint (word_of_int i :: 64 word) = i" if "0 \<le> i" "i < 2 ^ 64" for i
    using that by (simp add: unsigned_of_int take_bit_int_eq_self)
  have m: "0 \<le> ?m" "?m < 2 ^ 56" using assms by auto
  have w: "(word_of_int n + word_of_int b - 1 :: 64 word) = word_of_int ?m" by simp
  have q: "0 \<le> ?m div b" "?m div b \<le> ?m"
    using m assms(3) zdiv_mono2 [of ?m 1 b] by (simp_all add: pos_imp_zdiv_nonneg_iff)
  have d: "((word_of_int n + word_of_int b - 1) div word_of_int b :: 64 word) = word_of_int (?m div b)"
  proof (rule word_uint_eqI)
    show "uint ((word_of_int n + word_of_int b - 1) div word_of_int b :: 64 word) = uint (word_of_int (?m div b) :: 64 word)"
      unfolding w uint_div using u [of ?m] u [of b] u [of "?m div b"] m q assms(3,4) by simp
  qed
  have "?m div b * p \<le> 2 ^ 56 * 210" using m q assms(5,6) by (intro mult_mono) auto
  then have "0 \<le> ?m div b * p" "?m div b * p < 2 ^ 64" using q assms(5) by auto
  then show ?thesis unfolding d using u [of "?m div b * p"] by simp
qed

definition elem_count :: "TensorInfo \<Rightarrow> int" where
  "elem_count t = (if ti_Dimensions t = [] then 0 else prod_list (map uint (ti_Dimensions t)))"

lemma NumElements_exact:
  assumes "prod_list (map uint (ti_Dimensions t)) < 2 ^ 55"
  shows "sint (TensorInfo_NumElements t) = elem_count t" "0 \<le> elem_count t"
proof -
  have r: "0 \<le> elem_count t" "elem_count t < 2 ^ 55"
    using assms prod_uint_nonneg [of "ti_Dimensions t"] by (auto simp: elem_count_def)
  have "TensorInfo_NumElements t = word_of_int (elem_count t)"
    using foldl_mult_word [of 1 "ti_Dimensions t"] by (simp add: TensorInfo_NumElements_def elem_count_def)
  then show "sint (TensorInfo_NumElements t) = elem_count t"
    using r by (simp only: signed_of_int) (simp add: signed_take_bit_int_eq_self)
  show "0 \<le> elem_count t" by (rule r)
qed

lemma tensor_data_size_exact:
  assumes "prod_list (map uint (ti_Dimensions t)) < 2 ^ 55"
  shows "uint (tensor_data_size t) = data_bytes t"
proof -
  let ?n = "if ti_Dimensions t = [] then 0 else prod_list (map uint (ti_Dimensions t))"
  have "0 \<le> ?n" "?n < 2 ^ 55" using assms prod_uint_nonneg [of "ti_Dimensions t"] by auto
  moreover have "TensorInfo_NumElements t = word_of_int ?n"
    using foldl_mult_word [of 1 "ti_Dimensions t"] by (simp add: TensorInfo_NumElements_def)
  ultimately show ?thesis
    using blocks_word [of ?n "TensorType_BlockSize (ti_Type t)" "TensorType_BytesPerBlock (ti_Type t)"]
      block_constants [of "ti_Type t"] by (simp add: tensor_data_size_def data_bytes_def Let_def)
qed

lemma read_full_at:
  assumes "0 \<le> off" and "0 \<le> n"
  shows "fst (read_full (nat n) (drop (nat off) bs)) =
    (if n = 0 \<or> off + n \<le> len bs then Inr (take (nat n) (drop (nat off) bs))
     else if len bs \<le> off then Inl EOF else Inl UnexpectedEOF)"
proof -
  obtain i k where "off = int i" "n = int k" using assms nonneg_int_cases by metis
  then show ?thesis by (auto simp: read_full_def len_def)
qed

lemma ReadTensorData_bytes:
  assumes "gf_file f = Some bs" and "prod_list (map uint (ti_Dimensions t)) < 2 ^ 55"
    and "0 \<le> gf_DataOffset f" and "gf_DataOffset f + uint (ti_Offset t) < 2 ^ 63" and "data_bytes t \<le> int lim"
  shows "ReadTensorData lim f t =
    Some (let off = gf_DataOffset f + uint (ti_Offset t); n = data_bytes t in
          if n = 0 \<or> off + n \<le> len bs then Inr (take (nat n) (drop (nat off) bs))
          else if len bs \<le> off then Inl (IoError EOF) else Inl (IoError UnexpectedEOF))"
proof -
  let ?off = "gf_DataOffset f + uint (ti_Offset t)"
  have "sint (ti_Offset t) = int64_of (uint (ti_Offset t))" by (simp add: int64_of_def sint_uint)
  then have o: "int64_of (gf_DataOffset f + sint (ti_Offset t)) = ?off" using assms(3,4) by simp
  have n: "unat (tensor_data_size t) = nat (data_bytes t)"
    using tensor_data_size_exact [OF assms(2)] by (metis unat_eq_nat_uint)
  have z: "0 \<le> data_bytes t" "0 \<le> ?off"
    using assms(3) tensor_data_size_exact [OF assms(2)] by (metis uint_ge_0, simp)
  then have "\<not> ?off < 0" "\<not> nat (data_bytes t) > lim" using assms(5) by auto
  then have "ReadTensorData lim f t =
      Some (map_sum IoError id (fst (read_full (nat (data_bytes t)) (drop (nat ?off) bs))))"
    using assms(1) o n by (simp add: ReadTensorData_def Let_def split: prod.splits sum.splits)
  then show ?thesis by (simp add: read_full_at [OF z(2,1)] Let_def)
qed



section \<open>Where the parser goes wrong\<close>

text \<open>An array whose elements are arrays: nothing is read for them, so their bytes are parsed as the next key.\<close>

lemma nested_array_skipped: "readArrayElement MetaTypeArray bs = Some (Inr (zero_scalar MetaTypeArray), bs)"
  by (simp add: readArrayElement_def)

text \<open>The errors of the scalar reads are ignored: a file that ends inside a value is accepted with a zero there.\<close>

lemma truncated_scalar_accepted:
  "readMetadataValue lim (write_word 4 MetaTypeUint32 @ [7]) =
    Some (Inr (metadata_of (zero_scalar MetaTypeUint32) [] 0), [])"
  by (simp add: readMetadataValue_def word32.dec_enc readArrayElement_def read_ignoring_def read_full_def zero_scalar_def)

text \<open>An alignment of zero, given or read from a value of another type, divides by zero.\<close>

lemma zero_alignment_panics:
  assumes "version = 2 \<or> version = 3" and "\<forall>kv \<in> set kvs. kv_ok lim kv" and "\<forall>t \<in> set ts. tensor_ok lim t"
    and "length kvs < 2 ^ 64" and "length ts < 2 ^ 64" and "length ts \<le> lim" and "alignment_of kvs = 0"
  shows "Gguf_Open lim (write_header version kvs ts @ data) = None"
  using assms(7) by (simp add: Gguf_Open_def parseHeader_def read_header_write [OF assms(1-6)] new_file_def
      alignment_of_def align_offset_def go_div_def)

lemma alignment_of_int32:
  "alignment_of [(''general.alignment'', metadata_of ((zero_scalar MetaTypeInt32)\<lparr>mv_Int32 := 32\<rparr>) [] 0)] = 0"
  by (simp add: alignment_of_def AsUint64_def metadata_of_def zero_scalar_def ScalarValue.defs)

text \<open>The counts of the header size the slices before anything is read.\<close>

lemma tensor_count_panics:
  assumes "lim < n" and "n < 2 ^ 64"
  shows "Gguf_Open lim (write_word 4 Magic @ write_word 4 (3 :: 32 word) @ le_encode 8 n @ le_encode 8 0) = None"
proof -
  have "unat (word_of_nat n :: 64 word) = n" using assms(2) by (simp add: unat_of_nat)
  moreover have "read_uint 8 (le_encode 8 0) = Some (Inr (0 :: 64 word), [])" using read_count [of 0 "[]"] by simp
  ultimately show ?thesis
    using assms(1) by (simp add: Gguf_Open_def parseHeader_def read_header_def word32.dec_enc read_count [OF assms(2)]
        rbind_def rwrap_def rmake_def del: le_encode.simps)
qed

text \<open>\<open>Q4_1\<close> stores two half floats and 16 bytes for 32 elements; the table falls through to 32 bytes.\<close>

lemma q4_1_size: "TensorType_BlockSize TensorTypeQ4_1 = 32 \<and> TensorType_BytesPerBlock TensorTypeQ4_1 = 32"
  by (simp add: TensorType_BlockSize_def TensorType_BytesPerBlock_def)

end
