(* ===== verification/Go_Strings.thy ===== *)
theory Go_Strings
  imports Prelude
begin

text \<open>
  Go strings as lists of bytes (an Isabelle character is a byte): the functions of package \<open>strings\<close> that the
  program uses, and UTF-8 as \<open>range\<close>, \<open>[]rune(s)\<close> and \<open>string(r)\<close> treat it, with the round trip of encoding
  and decoding.
\<close>

section \<open>Searching and replacing\<close>

definition starts :: "string \<Rightarrow> string \<Rightarrow> bool" where
  "starts s p = (take (length p) s = p)"

text \<open>\<open>strings.Index(s, sub)\<close>; a negative result is \<open>None\<close>.\<close>

fun str_index :: "string \<Rightarrow> string \<Rightarrow> nat option" where
  "str_index [] sub = (if sub = [] then Some 0 else None)"
| "str_index (c # s) sub = (if starts (c # s) sub then Some 0 else map_option Suc (str_index s sub))"

definition str_contains :: "string \<Rightarrow> string \<Rightarrow> bool" where
  "str_contains s sub = (str_index s sub \<noteq> None)"

text \<open>\<open>strings.ReplaceAll(s, old, new)\<close> for a non-empty \<open>old\<close>: scan for the next occurrence, skip it whole.\<close>

fun replace_loop :: "string \<Rightarrow> string \<Rightarrow> nat \<Rightarrow> string \<Rightarrow> string" where
  "replace_loop old new k [] = []"
| "replace_loop old new (Suc k) (c # s) = replace_loop old new k s"
| "replace_loop old new 0 (c # s) =
     (if starts (c # s) old then new @ replace_loop old new (length old - 1) s else c # replace_loop old new 0 s)"

definition ReplaceAll :: "string \<Rightarrow> string \<Rightarrow> string \<Rightarrow> string" where
  "ReplaceAll s old new = replace_loop old new 0 s"

lemma str_index_starts: "str_index s sub = Some i \<Longrightarrow> i \<le> length s \<and> starts (drop i s) sub"
  by (induction s arbitrary: i) (auto simp: starts_def split: if_splits)

lemma str_index_split:
  assumes "str_index s sub = Some i"
  shows "s = take i s @ sub @ drop (i + length sub) s"
proof -
  have "take (length sub) (drop i s) = sub" using str_index_starts [OF assms] by (simp add: starts_def)
  then show ?thesis by (metis add.commute append_take_drop_id drop_drop)
qed

lemma replace_loop_skip: "replace_loop old new (length p) (p @ s) = replace_loop old new 0 s"
  by (induction p) auto

lemma ReplaceAll_Nil [simp]: "ReplaceAll [] old new = []"
  by (simp add: ReplaceAll_def)

lemma ReplaceAll_here: "old \<noteq> [] \<Longrightarrow> ReplaceAll (old @ s) old new = new @ ReplaceAll s old new"
  by (cases old) (simp_all add: ReplaceAll_def starts_def replace_loop_skip)

lemma ReplaceAll_other: "\<not> starts (c # s) old \<Longrightarrow> ReplaceAll (c # s) old new = c # ReplaceAll s old new"
  by (simp add: ReplaceAll_def)

text \<open>A piece of text in which no occurrence begins is copied.\<close>

lemma ReplaceAll_skip:
  "(\<forall>i < length p. \<not> starts (drop i p @ s) old) \<Longrightarrow> ReplaceAll (p @ s) old new = p @ ReplaceAll s old new"
proof (induction p)
  case (Cons c p)
  have "\<not> starts (c # (p @ s)) old" using Cons.prems by (auto dest!: spec [of _ 0])
  moreover have "\<forall>i < length p. \<not> starts (drop i p @ s) old"
  proof (intro allI impI)
    fix i
    assume "i < length p"
    then show "\<not> starts (drop i p @ s) old" using Cons.prems by (auto dest!: spec [of _ "Suc i"])
  qed
  ultimately show ?case using Cons.IH by (simp add: ReplaceAll_other)
qed simp

section \<open>UTF-8\<close>

text \<open>\<open>string(r)\<close>: surrogates and numbers beyond Unicode become the replacement character.\<close>

abbreviation chr :: "nat \<Rightarrow> char" where "chr \<equiv> char_of"

definition RuneError :: nat where
  "RuneError = 0xFFFD"

definition valid_rune :: "nat \<Rightarrow> bool" where
  "valid_rune r \<longleftrightarrow> r < 0xD800 \<or> 0xE000 \<le> r \<and> r \<le> 0x10FFFF"

definition utf8_bytes :: "nat \<Rightarrow> nat list" where
  "utf8_bytes r =
     (if r < 0x80 then [r]
      else if r < 0x800 then [0xC0 + r div 64, 0x80 + r mod 64]
      else if \<not> valid_rune r then [0xEF, 0xBF, 0xBD]
      else if r < 0x10000 then [0xE0 + r div 4096, 0x80 + r div 64 mod 64, 0x80 + r mod 64]
      else [0xF0 + r div 262144, 0x80 + r div 4096 mod 64, 0x80 + r div 64 mod 64, 0x80 + r mod 64])"

definition utf8_encode :: "nat \<Rightarrow> string" where
  "utf8_encode r = map chr (utf8_bytes r)"

text \<open>
  \<open>utf8.DecodeRune\<close>: the rune and the number of bytes read; an invalid or incomplete sequence is one
  byte of \<open>RuneError\<close>. The range of the second byte depends on the first.
\<close>

definition cont :: "nat \<Rightarrow> bool" where
  "cont b \<longleftrightarrow> 0x80 \<le> b \<and> b \<le> 0xBF"

definition second_ok :: "nat \<Rightarrow> nat \<Rightarrow> bool" where
  "second_ok b0 b1 \<longleftrightarrow>
     (if b0 = 0xE0 then 0xA0 \<le> b1 \<and> b1 \<le> 0xBF
      else if b0 = 0xED then 0x80 \<le> b1 \<and> b1 \<le> 0x9F
      else if b0 = 0xF0 then 0x90 \<le> b1 \<and> b1 \<le> 0xBF
      else if b0 = 0xF4 then 0x80 \<le> b1 \<and> b1 \<le> 0x8F
      else cont b1)"

fun decode_bytes :: "nat list \<Rightarrow> nat \<times> nat" where
  "decode_bytes (b0 # b1 # b2 # b3 # bs) =
     (if b0 < 0x80 then (b0, 1)
      else if 0xC2 \<le> b0 \<and> b0 \<le> 0xDF \<and> cont b1 then ((b0 - 0xC0) * 64 + (b1 - 0x80), 2)
      else if 0xE0 \<le> b0 \<and> b0 \<le> 0xEF \<and> second_ok b0 b1 \<and> cont b2
      then ((b0 - 0xE0) * 4096 + (b1 - 0x80) * 64 + (b2 - 0x80), 3)
      else if 0xF0 \<le> b0 \<and> b0 \<le> 0xF4 \<and> second_ok b0 b1 \<and> cont b2 \<and> cont b3
      then ((b0 - 0xF0) * 262144 + (b1 - 0x80) * 4096 + (b2 - 0x80) * 64 + (b3 - 0x80), 4)
      else (RuneError, 1))"
| "decode_bytes [b0, b1, b2] =
     (if b0 < 0x80 then (b0, 1)
      else if 0xC2 \<le> b0 \<and> b0 \<le> 0xDF \<and> cont b1 then ((b0 - 0xC0) * 64 + (b1 - 0x80), 2)
      else if 0xE0 \<le> b0 \<and> b0 \<le> 0xEF \<and> second_ok b0 b1 \<and> cont b2
      then ((b0 - 0xE0) * 4096 + (b1 - 0x80) * 64 + (b2 - 0x80), 3)
      else (RuneError, 1))"
| "decode_bytes [b0, b1] =
     (if b0 < 0x80 then (b0, 1)
      else if 0xC2 \<le> b0 \<and> b0 \<le> 0xDF \<and> cont b1 then ((b0 - 0xC0) * 64 + (b1 - 0x80), 2)
      else (RuneError, 1))"
| "decode_bytes [b0] = (if b0 < 0x80 then (b0, 1) else (RuneError, 1))"
| "decode_bytes [] = (RuneError, 0)"

definition decode_rune :: "string \<Rightarrow> nat \<times> nat" where
  "decode_rune s = decode_bytes (map of_char (take 4 s))"

lemma decode_bytes_width: "snd (decode_bytes (b # bs)) \<ge> 1"
  by (cases "b # bs" rule: decode_bytes.cases) auto

text \<open>\<open>[]rune(s)\<close>, the runes that \<open>range s\<close> visits.\<close>

function runes :: "string \<Rightarrow> nat list" where
  "runes [] = []"
| "runes (c # s) = (let (r, w) = decode_rune (c # s) in r # runes (drop w (c # s)))"
  by pat_completeness auto
termination
proof (relation "measure length")
  fix c s x r w
  assume "x = decode_rune (c # s)" "(r, w) = x"
  then have "1 \<le> w" using decode_bytes_width [of "of_char c"] by (simp add: decode_rune_def) (metis snd_conv)
  then show "(drop w (c # s), c # s) \<in> measure length" by simp
qed simp

lemma of_chr: "n < 256 \<Longrightarrow> of_char (chr n) = n"
  by simp

lemma digits64: "\<exists>a b. (n :: nat) = a * 64 + b \<and> b < 64 \<and> n div 64 = a \<and> n mod 64 = b"
  by (intro exI [of _ "n div 64"] exI [of _ "n mod 64"]) simp

lemma utf8_bytes_lt: "b \<in> set (utf8_bytes r) \<Longrightarrow> b < 256"
  by (auto simp: utf8_bytes_def valid_rune_def split: if_splits)

lemma length_utf8_bytes: "1 \<le> length (utf8_bytes r) \<and> length (utf8_bytes r) \<le> 4"
  by (simp add: utf8_bytes_def)

lemma decode_bytes_1: "b0 < 0x80 \<Longrightarrow> decode_bytes (b0 # bs) = (b0, 1)"
  by (cases "b0 # bs" rule: decode_bytes.cases) simp_all

lemma decode_bytes_2:
  "0xC2 \<le> b0 \<Longrightarrow> b0 \<le> 0xDF \<Longrightarrow> cont b1 \<Longrightarrow> decode_bytes (b0 # b1 # bs) = ((b0 - 0xC0) * 64 + (b1 - 0x80), 2)"
  by (cases "b0 # b1 # bs" rule: decode_bytes.cases) simp_all

lemma decode_bytes_3:
  "0xE0 \<le> b0 \<Longrightarrow> b0 \<le> 0xEF \<Longrightarrow> second_ok b0 b1 \<Longrightarrow> cont b2 \<Longrightarrow>
   decode_bytes (b0 # b1 # b2 # bs) = ((b0 - 0xE0) * 4096 + (b1 - 0x80) * 64 + (b2 - 0x80), 3)"
  by (cases "b0 # b1 # b2 # bs" rule: decode_bytes.cases) simp_all

lemma decode_bytes_4:
  "0xF0 \<le> b0 \<Longrightarrow> b0 \<le> 0xF4 \<Longrightarrow> second_ok b0 b1 \<Longrightarrow> cont b2 \<Longrightarrow> cont b3 \<Longrightarrow>
   decode_bytes (b0 # b1 # b2 # b3 # bs) =
     ((b0 - 0xF0) * 262144 + (b1 - 0x80) * 4096 + (b2 - 0x80) * 64 + (b3 - 0x80), 4)"
  by simp

lemma decode_bytes_append:
  assumes "valid_rune r"
  shows "decode_bytes (utf8_bytes r @ bs) = (r, length (utf8_bytes r))"
proof -
  obtain q d where d: "r = q * 64 + d" "d < 64" "r div 64 = q" "r mod 64 = d" using digits64 [of r] by blast
  obtain p c where c: "q = p * 64 + c" "c < 64" "q div 64 = p" "q mod 64 = c" using digits64 [of q] by blast
  obtain a b where b: "p = a * 64 + b" "b < 64" "p div 64 = a" "p mod 64 = b" using digits64 [of p] by blast
  have e: "r div 4096 = p" "r div 262144 = a" using c(3) d(3) b(3) div_mult2_eq [of r 64 64] div_mult2_eq [of r 4096 64] by simp_all
  have k: "cont (0x80 + d)" "cont (0x80 + c)" using c(2) d(2) by (simp_all add: cont_def)
  consider "r < 0x80" | "0x80 \<le> r" "r < 0x800" | "0x800 \<le> r" "r < 0x10000" | "0x10000 \<le> r" "r \<le> 0x10FFFF"
    using assms unfolding valid_rune_def by linarith
  then show ?thesis
  proof cases
    case 1
    then show ?thesis by (simp add: utf8_bytes_def decode_bytes_1)
  next
    case 2
    then have "q < 32" "2 \<le> q" using d by auto
    then show ?thesis using 2 d k by (simp add: utf8_bytes_def decode_bytes_2)
  next
    case 3
    then have "p < 16" "p = 0 \<Longrightarrow> 32 \<le> c" "p = 13 \<Longrightarrow> c < 32"
      using assms c d by (auto simp: valid_rune_def)
    then have "second_ok (0xE0 + p) (0x80 + c)" using c(2) by (auto simp: second_ok_def cont_def)
    moreover have "utf8_bytes r = [0xE0 + p, 0x80 + c, 0x80 + d]"
      using 3 assms by (simp add: utf8_bytes_def e d(3,4) c(4))
    ultimately show ?thesis using \<open>p < 16\<close> c(1) d(1) k by (simp add: decode_bytes_3)
  next
    case 4
    then have "a < 5" "a = 0 \<Longrightarrow> 16 \<le> b" "a = 4 \<Longrightarrow> b < 16"
      using assms b c d by (auto simp: valid_rune_def)
    then have "second_ok (0xF0 + a) (0x80 + b)" using b(2) by (auto simp: second_ok_def cont_def)
    moreover have "utf8_bytes r = [0xF0 + a, 0x80 + b, 0x80 + c, 0x80 + d]"
      using 4 assms by (simp add: utf8_bytes_def valid_rune_def e d(3,4) c(4) b(4))
    ultimately show ?thesis using \<open>a < 5\<close> b(1) c(1) d(1) k by (simp add: decode_bytes_4)
  qed
qed

lemma take_utf8_bytes: "take 4 (utf8_bytes r @ bs) = utf8_bytes r @ take (4 - length (utf8_bytes r)) bs"
  using length_utf8_bytes [of r] by simp

lemma decode_rune_encode:
  assumes "valid_rune r"
  shows "decode_rune (utf8_encode r @ s) = (r, length (utf8_encode r))"
proof -
  have "map of_char (utf8_encode r) = utf8_bytes r"
    using utf8_bytes_lt [of _ r] by (simp add: utf8_encode_def comp_def map_idI)
  then have "map of_char (take 4 (utf8_encode r @ s)) = take 4 (utf8_bytes r @ map of_char s)"
    by (simp add: take_map [symmetric] utf8_encode_def)
  then show ?thesis
    by (simp add: decode_rune_def take_utf8_bytes decode_bytes_append [OF assms] utf8_encode_def del: take_append)
qed

lemma utf8_encode_neq_Nil [simp]: "utf8_encode r \<noteq> []"
  using length_utf8_bytes [of r] by (auto simp: utf8_encode_def)

lemma runes_Cons:
  assumes "valid_rune r"
  shows "runes (utf8_encode r @ s) = r # runes s"
proof -
  obtain c t where "utf8_encode r @ s = c # t" by (cases "utf8_encode r @ s") auto
  then have "runes (utf8_encode r @ s) = (let (x, w) = decode_rune (utf8_encode r @ s) in x # runes (drop w (utf8_encode r @ s)))"
    by simp
  then show ?thesis using decode_rune_encode [OF assms, of s] by simp
qed

definition utf8 :: "nat list \<Rightarrow> string" where
  "utf8 rs = concat (map utf8_encode rs)"

lemma runes_utf8: "\<forall>r \<in> set rs. valid_rune r \<Longrightarrow> runes (utf8 rs) = rs"
  by (induction rs) (simp_all add: utf8_def runes_Cons)

section \<open>Replacing a character\<close>

text \<open>The first byte of a character is never a continuation byte, the others always are.\<close>

lemma utf8_bytes_hd: "valid_rune r \<Longrightarrow> \<not> cont (hd (utf8_bytes r))"
  by (auto simp: utf8_bytes_def cont_def valid_rune_def)

lemma utf8_bytes_tl: "b \<in> set (tl (utf8_bytes r)) \<Longrightarrow> cont b"
  by (auto simp: utf8_bytes_def cont_def split: if_splits)

lemma utf8_encode_other:
  assumes "valid_rune r" and "valid_rune t" and "r \<noteq> t" and "i < length (utf8_encode r)"
  shows "\<not> starts (drop i (utf8_encode r) @ s) (utf8_encode t)"
proof
  assume st: "starts (drop i (utf8_encode r) @ s) (utf8_encode t)"
  then obtain u where u: "drop i (utf8_encode r) @ s = utf8_encode t @ u"
    by (metis append_take_drop_id starts_def)
  show False
  proof (cases i)
    case 0
    then have "utf8_encode r @ s = utf8_encode t @ u" using u by simp
    then show False using decode_rune_encode [OF assms(1), of s] decode_rune_encode [OF assms(2), of u] assms(3) by simp
  next
    case (Suc j)
    have l: "i < length (utf8_bytes r)" using assms(4) by (simp add: utf8_encode_def)
    then have "hd (drop i (utf8_encode r) @ s) = chr (utf8_bytes r ! i)"
      by (simp add: utf8_encode_def hd_append hd_drop_conv_nth)
    moreover have "hd (utf8_encode t @ u) = chr (hd (utf8_bytes t))"
      using length_utf8_bytes [of t] by (cases "utf8_bytes t") (auto simp: utf8_encode_def)
    ultimately have "chr (utf8_bytes r ! i) = chr (hd (utf8_bytes t))" using u by simp
    moreover have "utf8_bytes r ! i < 256" using l by (intro utf8_bytes_lt [of _ r]) simp
    moreover have "hd (utf8_bytes t) < 256"
      using length_utf8_bytes [of t] by (intro utf8_bytes_lt [of _ t] hd_in_set) auto
    ultimately have "utf8_bytes r ! i = hd (utf8_bytes t)" by (metis of_chr)
    moreover have "utf8_bytes r ! i \<in> set (tl (utf8_bytes r))"
      using l Suc by (auto simp: in_set_conv_nth nth_tl intro!: exI [of _ j])
    ultimately show False using utf8_bytes_tl utf8_bytes_hd [OF assms(2)] by metis
  qed
qed

lemma ReplaceAll_utf8:
  assumes "valid_rune t"
  shows "\<forall>r \<in> set rs. valid_rune r \<Longrightarrow>
    ReplaceAll (utf8 rs) (utf8_encode t) new = concat (map (\<lambda>r. if r = t then new else utf8_encode r) rs)"
proof (induction rs)
  case (Cons r rs)
  show ?case
  proof (cases "r = t")
    case True
    then show ?thesis using Cons by (simp add: utf8_def ReplaceAll_here)
  next
    case False
    then have "\<forall>i < length (utf8_encode r). \<not> starts (drop i (utf8_encode r) @ utf8 rs) (utf8_encode t)"
      using utf8_encode_other assms Cons.prems by simp
    then show ?thesis using Cons False ReplaceAll_skip [of "utf8_encode r"] by (simp add: utf8_def)
  qed
qed (simp add: utf8_def)

end
