(* ===== verification/Tokenizer.thy ===== *)
theory Tokenizer
  imports Go_Strings Gguf "HOL-Library.AList"
begin

text \<open>
  The file \<open>inference/pkg/tokenizer/tokenizer.go\<close>: building a tokenizer from a decoded \<open>tokenizer.json\<close> or from
  the metadata of a GGUF file, encoding (special tokens, greedy matching, byte pair merges), decoding, and
  the chat templates. Go's maps are partial functions, the merge ranks (tested for emptiness) an association list; where the code ranges over a map the model takes the
  entries in the order of the iteration. \<open>sort.Slice\<close>, which is not stable, is a parameter.
\<close>

record Tokenizer =
  tk_vocab :: "string \<rightharpoonup> int"
  tk_ids :: "int \<rightharpoonup> string"
  tk_bos :: int
  tk_eos :: int
  tk_addBos :: bool
  tk_addSpacePrefix :: bool
  tk_specialTokens :: "string list"
  tk_useByteLevel :: bool
  tk_mergeRanks :: "(string \<times> int) list"

text \<open>The characters that stand for a space: U+2581 of SentencePiece and U+0120 of byte-level BPE.\<close>

definition sp_char :: string where
  "sp_char = utf8_encode 0x2581"

definition gp_char :: string where
  "gp_char = utf8_encode 0x120"

section \<open>Splitting on special tokens\<close>

record segment =
  sg_text :: string
  sg_isSpecial :: bool

text \<open>The search over the special tokens: the earliest position, the first token among those found there.\<close>

definition earlier :: "string \<Rightarrow> string \<Rightarrow> nat \<times> string option \<Rightarrow> nat \<times> string option" where
  "earlier remaining st best =
     (case str_index remaining st of
        None \<Rightarrow> best
      | Some pos \<Rightarrow> if pos < fst best then (pos, Some st) else best)"

definition earliest :: "string list \<Rightarrow> string \<Rightarrow> nat \<times> string option" where
  "earliest toks remaining = fold (earlier remaining) toks (length remaining, None)"

text \<open>The loop; an empty special token keeps it from ending.\<close>

partial_function (option) split_loop :: "string list \<Rightarrow> string \<Rightarrow> segment list \<Rightarrow> segment list option" where
  "split_loop toks remaining segments =
     (if remaining = [] then Some segments
      else case earliest toks remaining of
             (pos, None) \<Rightarrow> Some (segments @ [\<lparr>sg_text = remaining, sg_isSpecial = False\<rparr>])
           | (pos, Some st) \<Rightarrow>
               split_loop toks (drop (pos + length st) remaining)
                 (segments @ (if pos > 0 then [\<lparr>sg_text = take pos remaining, sg_isSpecial = False\<rparr>] else [])
                   @ [\<lparr>sg_text = st, sg_isSpecial = True\<rparr>]))"

definition splitOnSpecialTokens :: "Tokenizer \<Rightarrow> string \<Rightarrow> segment list option" where
  "splitOnSpecialTokens t text =
     (if tk_specialTokens t = [] then Some [\<lparr>sg_text = text, sg_isSpecial = False\<rparr>]
      else split_loop (tk_specialTokens t) text [])"

section \<open>Bytes that are not in the vocabulary\<close>

definition hex_digit :: "nat \<Rightarrow> char" where
  "hex_digit n = (if n < 10 then char_of (48 + n) else char_of (55 + n))"

text \<open>\<open>fmt.Sprintf("<0x%02X>", b)\<close>\<close>

definition byte_token :: "char \<Rightarrow> string" where
  "byte_token b = ''<0x'' @ [hex_digit (of_char b div 16), hex_digit (of_char b mod 16)] @ ''>''"

text \<open>The fallback of the greedy matcher for the first byte.\<close>

definition greedy_fallback :: "Tokenizer \<Rightarrow> char \<Rightarrow> int list" where
  "greedy_fallback t b =
     (case tk_vocab t (byte_token b) of
        Some i \<Rightarrow> [i]
      | None \<Rightarrow>
          if tk_useByteLevel t
          then (case tk_vocab t (utf8_encode (of_char b)) of Some i \<Rightarrow> [i] | None \<Rightarrow> [])
          else [])"

section \<open>Greedy matching\<close>

text \<open>\<open>for l := n; l > lo; l--\<close>: the longest prefix of more than \<open>lo\<close> bytes in the vocabulary.\<close>

fun longest_match :: "(string \<rightharpoonup> int) \<Rightarrow> string \<Rightarrow> nat \<Rightarrow> nat \<Rightarrow> (nat \<times> int) option" where
  "longest_match v s lo 0 = None"
| "longest_match v s lo (Suc l) =
     (if Suc l \<le> lo then None
      else case v (take (Suc l) s) of Some i \<Rightarrow> Some (Suc l, i) | None \<Rightarrow> longest_match v s lo l)"

text \<open>The pair \<open>(bestLen, bestID)\<close>; it starts as \<open>(0, -1)\<close>.\<close>

type_synonym best = "nat \<times> int"

definition match_plain :: "Tokenizer \<Rightarrow> string \<Rightarrow> nat \<Rightarrow> best \<Rightarrow> best" where
  "match_plain t remaining limit best =
     (case longest_match (tk_vocab t) remaining 0 (min (length remaining) limit) of
        Some (l, i) \<Rightarrow> (l, i)
      | None \<Rightarrow> best)"

text \<open>A leading space is matched as the space character of the vocabulary, alone if nothing longer matches.\<close>

definition match_space :: "Tokenizer \<Rightarrow> string \<Rightarrow> string \<Rightarrow> nat \<Rightarrow> best \<Rightarrow> best" where
  "match_space t sp remaining limit best =
     (let prefixed = sp @ tl remaining in
      case longest_match (tk_vocab t) prefixed (length sp) (min (length prefixed) limit) of
        Some (l, i) \<Rightarrow> if 1 + (l - length sp) > fst best then (1 + (l - length sp), i)
                       else if snd best < 0 then (case tk_vocab t sp of Some j \<Rightarrow> (1, j) | None \<Rightarrow> best)
                       else best
      | None \<Rightarrow> if snd best < 0 then (case tk_vocab t sp of Some j \<Rightarrow> (1, j) | None \<Rightarrow> best) else best)"

text \<open>The start of a word without a space: the space character is put in front, without consuming anything if it matches alone.\<close>

definition match_start :: "Tokenizer \<Rightarrow> string \<Rightarrow> best \<Rightarrow> best" where
  "match_start t remaining best =
     (let prefixed = sp_char @ remaining in
      case longest_match (tk_vocab t) prefixed (length sp_char) (min (length prefixed) (20 + length sp_char)) of
        Some (l, i) \<Rightarrow> (l - length sp_char, i)
      | None \<Rightarrow> (case tk_vocab t sp_char of Some j \<Rightarrow> (0, j) | None \<Rightarrow> best))"

definition special_char :: "string \<Rightarrow> bool" where
  "special_char s = (s \<noteq> [] \<and> hd s \<in> {CHR ''<'', CHR ''['', CHR ''{''})"

definition has_space :: "string \<Rightarrow> bool" where
  "has_space s = (s \<noteq> [] \<and> hd s = CHR '' '')"

definition has_newline :: "string \<Rightarrow> bool" where
  "has_newline s = (s \<noteq> [] \<and> hd s = CHR 0x0A)"

definition match_sentencepiece :: "Tokenizer \<Rightarrow> bool \<Rightarrow> bool \<Rightarrow> bool \<Rightarrow> string \<Rightarrow> best" where
  "match_sentencepiece t atWordBoundary isAbsoluteStart isFirstToken remaining =
     (let isStart = (isFirstToken \<and> atWordBoundary);
          b0 = (0, -1);
          b1 = (if isFirstToken \<and> isAbsoluteStart \<and> \<not> has_space remaining \<and> special_char remaining
                then match_plain t remaining 20 b0 else b0);
          skipSpacePrefix = (has_newline remaining \<or> (isAbsoluteStart \<and> special_char remaining) \<or> \<not> tk_addSpacePrefix t);
          b2 = (if snd b1 < 0 \<and> isStart \<and> \<not> has_space remaining \<and> \<not> skipSpacePrefix
                then match_start t remaining b1 else b1);
          b3 = (if has_space remaining then match_space t sp_char remaining (20 + length sp_char) b2 else b2)
      in if snd b3 < 0 then match_plain t remaining 20 b3 else b3)"

definition match_bytelevel :: "Tokenizer \<Rightarrow> string \<Rightarrow> best" where
  "match_bytelevel t remaining =
     (if has_space remaining then match_space t gp_char remaining 40 (0, -1) else match_plain t remaining 40 (0, -1))"

definition greedy_match :: "Tokenizer \<Rightarrow> bool \<Rightarrow> bool \<Rightarrow> bool \<Rightarrow> string \<Rightarrow> best" where
  "greedy_match t atWordBoundary isAbsoluteStart isFirstToken remaining =
     (if tk_useByteLevel t then match_bytelevel t remaining
      else match_sentencepiece t atWordBoundary isAbsoluteStart isFirstToken remaining)"

text \<open>Only the first match of a segment may consume nothing.\<close>

lemma longest_match_bounds: "longest_match v s lo n = Some (l, i) \<Longrightarrow> lo < l \<and> l \<le> n \<and> v (take l s) = Some i"
  by (induction n) (auto split: if_splits option.splits)

lemma match_plain_progress: "match_plain t s n best = (l, i) \<Longrightarrow> (l, i) = best \<or> 0 < l"
  by (auto simp: match_plain_def split: option.splits dest!: longest_match_bounds)

lemma match_space_progress: "match_space t sp s n best = (l, i) \<Longrightarrow> (l, i) = best \<or> 0 < l"
  by (auto simp: match_space_def Let_def split: option.splits if_splits)

lemma match_sentencepiece_progress:
  assumes "match_sentencepiece t wb ab False s = (0, i)"
  shows "i < 0"
proof (rule ccontr)
  assume "\<not> i < 0"
  define b3 where "b3 = (if has_space s then match_space t sp_char s (20 + length sp_char) (0, -1) else (0, -1))"
  have b3: "snd b3 < 0" if "fst b3 = 0"
    using match_space_progress [of t sp_char s "20 + length sp_char" "(0, -1)"] that
    by (cases "match_space t sp_char s (20 + length sp_char) (0, -1)") (auto simp: b3_def split: if_splits)
  have "match_sentencepiece t wb ab False s = (if snd b3 < 0 then match_plain t s 20 b3 else b3)"
    by (simp add: match_sentencepiece_def b3_def)
  then consider "snd b3 < 0" "match_plain t s 20 b3 = (0, i)" | "\<not> snd b3 < 0" "b3 = (0, i)"
    using assms by (cases "snd b3 < 0") auto
  then show False
  proof cases
    case 1
    then have "(0, i) = b3" using match_plain_progress by fastforce
    then show False using 1(1) \<open>\<not> i < 0\<close> by (metis snd_conv)
  next
    case 2
    then show False using b3 by simp
  qed
qed

lemma greedy_match_progress:
  assumes "greedy_match t wb ab first s = (0, i)" and "0 \<le> i"
  shows "first"
proof (rule ccontr)
  assume "\<not> first"
  then have "match_bytelevel t s = (0, i)"
    using assms match_sentencepiece_progress by (force simp: greedy_match_def split: if_splits)
  then show False
    using assms(2) match_space_progress [of t gp_char s 40 "(0, -1)"] match_plain_progress [of t s 40 "(0, -1)"]
    by (auto simp: match_bytelevel_def split: if_splits)
qed

lemma greedy_match_consumes: "(l, i) = greedy_match t wb ab False s \<Longrightarrow> 0 \<le> i \<Longrightarrow> 0 < l"
  using greedy_match_progress [of t wb ab False s i] by (cases "l = 0") auto

text \<open>The matching loop. An unmatched byte is skipped with its fallback tokens, if any.\<close>

function encode_loop :: "Tokenizer \<Rightarrow> bool \<Rightarrow> bool \<Rightarrow> string \<Rightarrow> int list \<Rightarrow> int list" where
  "encode_loop t wb ab remaining tokens =
     (case remaining of
        [] \<Rightarrow> tokens
      | b # rest \<Rightarrow>
          (case greedy_match t wb ab (tokens = []) remaining of
             (bestLen, bestID) \<Rightarrow>
               if bestID \<ge> 0 then encode_loop t wb ab (drop bestLen remaining) (tokens @ [bestID])
               else encode_loop t wb ab rest (tokens @ greedy_fallback t b)))"
  by pat_completeness auto
termination
  by (relation "measure (\<lambda>(t, wb, ab, remaining, tokens). 2 * length remaining + (if tokens = [] then 1 else 0))")
    (auto, frule greedy_match_consumes, simp, arith)

declare encode_loop.simps [simp del]

section \<open>Byte pair encoding\<close>

text \<open>The byte tokens of a symbol, if they are all in the vocabulary.\<close>

definition fallback_symbols :: "Tokenizer \<Rightarrow> string \<Rightarrow> string list option" where
  "fallback_symbols t sy =
     (if sy \<noteq> [] \<and> (\<forall>b \<in> set sy. tk_vocab t (byte_token b) \<noteq> None) then Some (map byte_token sy) else None)"

text \<open>
  The loop ranges over the original symbols, but replaces at their index in the list that has been
  replaced so far.
\<close>

definition replace_symbol :: "Tokenizer \<Rightarrow> nat \<times> string \<Rightarrow> string list \<Rightarrow> string list" where
  "replace_symbol t isym symbols =
     (let (i, sy) = isym in
      if tk_vocab t sy \<noteq> None then symbols
      else case fallback_symbols t sy of
             None \<Rightarrow> symbols
           | Some bs \<Rightarrow> take i symbols @ bs @ drop (i + 1) symbols)"

definition initial_symbols :: "Tokenizer \<Rightarrow> string list \<Rightarrow> string list" where
  "initial_symbols t symbols = fold (replace_symbol t) (List.enumerate 0 symbols) symbols"

text \<open>The first pair with the lowest rank: \<open>(bestRank, bestIdx)\<close>.\<close>

fun best_pair :: "(string \<rightharpoonup> int) \<Rightarrow> string list \<Rightarrow> nat \<Rightarrow> (int \<times> nat) option \<Rightarrow> (int \<times> nat) option" where
  "best_pair ranks (a # b # rest) i best =
     best_pair ranks (b # rest) (i + 1)
       (case ranks (a @ '' '' @ b) of
          None \<Rightarrow> best
        | Some rank \<Rightarrow> (case best of None \<Rightarrow> Some (rank, i)
                       | Some (bestRank, j) \<Rightarrow> if rank < bestRank then Some (rank, i) else best))"
| "best_pair ranks symbols i best = best"

definition merge_at :: "nat \<Rightarrow> string list \<Rightarrow> string list" where
  "merge_at i symbols = take i symbols @ [symbols ! i @ symbols ! (i + 1)] @ drop (i + 2) symbols"

lemma best_pair_index:
  "best_pair ranks symbols i best = Some (r, j) \<Longrightarrow>
   best = Some (r, j) \<or> i \<le> j \<and> j + 1 < i + length symbols \<and>
     ranks (symbols ! (j - i) @ '' '' @ symbols ! (j - i + 1)) = Some r"
proof (induction ranks symbols i best rule: best_pair.induct)
  case (1 ranks a b rest i best)
  let ?best = "case ranks (a @ '' '' @ b) of None \<Rightarrow> best
      | Some rank \<Rightarrow> (case best of None \<Rightarrow> Some (rank, i) | Some (bestRank, j) \<Rightarrow> if rank < bestRank then Some (rank, i) else best)"
  have "best_pair ranks (b # rest) (i + 1) ?best = Some (r, j)" using 1(2) by simp
  then consider "?best = Some (r, j)" | "i + 1 \<le> j" "j + 1 < i + 1 + length (b # rest)"
      "ranks ((b # rest) ! (j - (i + 1)) @ '' '' @ (b # rest) ! (j - (i + 1) + 1)) = Some r"
    using 1(1) by blast
  then show ?case
  proof cases
    case 1
    then show ?thesis by (auto split: option.splits if_splits)
  next
    case 2
    then obtain k where "j = i + 1 + k" using le_Suc_ex by blast
    then show ?thesis using 2 by auto
  qed
qed auto

function merge_loop :: "(string \<rightharpoonup> int) \<Rightarrow> string list \<Rightarrow> string list" where
  "merge_loop ranks symbols =
     (if length symbols > 1 then
        (case best_pair ranks symbols 0 None of
           None \<Rightarrow> symbols
         | Some (bestRank, bestIdx) \<Rightarrow> merge_loop ranks (merge_at bestIdx symbols))
      else symbols)"
  by pat_completeness auto
termination
  by (relation "measure (\<lambda>(ranks, symbols). length symbols)")
    (auto simp: merge_at_def dest!: sym [of "Some _"] best_pair_index)

declare merge_loop.simps [simp del]

text \<open>The tokens of a symbol; the bytes of an unknown symbol that have a token.\<close>

definition symbol_ids :: "Tokenizer \<Rightarrow> string \<Rightarrow> int list" where
  "symbol_ids t sy =
     (case tk_vocab t sy of
        Some i \<Rightarrow> [i]
      | None \<Rightarrow> List.map_filter (\<lambda>b. tk_vocab t (byte_token b)) sy)"

definition bpeEncodeWord :: "Tokenizer \<Rightarrow> string \<Rightarrow> int list" where
  "bpeEncodeWord t word =
     (let symbols = map utf8_encode (runes word) in
      if symbols = [] then []
      else concat (map (symbol_ids t) (merge_loop (map_of (tk_mergeRanks t)) (initial_symbols t symbols))))"

definition encodeBPE :: "Tokenizer \<Rightarrow> string \<Rightarrow> bool \<Rightarrow> bool \<Rightarrow> int list" where
  "encodeBPE t text atWordBoundary isAbsoluteStart =
     (let spText = ReplaceAll text '' '' sp_char;
          skipPrefix = (has_newline text \<or> (isAbsoluteStart \<and> special_char text) \<or> has_space text \<or> \<not> tk_addSpacePrefix t)
      in bpeEncodeWord t (if atWordBoundary \<and> \<not> skipPrefix then sp_char @ spText else spText))"

section \<open>Encoding\<close>

definition encodeSegment :: "Tokenizer \<Rightarrow> string \<Rightarrow> bool \<Rightarrow> bool \<Rightarrow> int list" where
  "encodeSegment t text atWordBoundary isAbsoluteStart =
     (if text = '''' then []
      else if tk_mergeRanks t \<noteq> [] \<and> \<not> tk_useByteLevel t then encodeBPE t text atWordBoundary isAbsoluteStart
      else case tk_vocab t text of
             Some i \<Rightarrow> [i]
           | None \<Rightarrow> encode_loop t atWordBoundary isAbsoluteStart text [])"

text \<open>The loop over the segments: \<open>prev\<close> says if the segment before, if any, is special.\<close>

fun encode_segments :: "Tokenizer \<Rightarrow> bool option \<Rightarrow> segment list \<Rightarrow> int list \<Rightarrow> int list" where
  "encode_segments t prev [] tokens = tokens"
| "encode_segments t prev (seg # segs) tokens =
     encode_segments t (Some (sg_isSpecial seg)) segs
       (if sg_isSpecial seg
        then (case tk_vocab t (sg_text seg) of Some i \<Rightarrow> tokens @ [i] | None \<Rightarrow> tokens)
        else tokens @ encodeSegment t (sg_text seg) (prev = None \<or> prev = Some True) (prev = None \<and> tokens = []))"

definition Encode :: "Tokenizer \<Rightarrow> string \<Rightarrow> int list option" where
  "Encode t text =
     (if text = '''' then Some []
      else do { segments \<leftarrow> splitOnSpecialTokens t text;
                let tokens = encode_segments t None segments [];
                Some (if tokens = [] then [tk_bos t] else tokens) })"

section \<open>Decoding\<close>

definition hex_val :: "char \<Rightarrow> nat option" where
  "hex_val c =
     (let n = of_char c :: nat in
      if 48 \<le> n \<and> n \<le> 57 then Some (n - 48)
      else if 65 \<le> n \<and> n \<le> 70 then Some (n - 55)
      else if 97 \<le> n \<and> n \<le> 102 then Some (n - 87)
      else None)"

text \<open>A byte token \<open><0xNN>\<close> at the start of the string.\<close>

definition byte_token_at :: "string \<Rightarrow> nat option" where
  "byte_token_at s =
     (case s of
        c0 # c1 # c2 # c3 # c4 # c5 # _ \<Rightarrow>
          if c0 = CHR ''<'' \<and> c1 = CHR ''0'' \<and> c2 = CHR ''x'' \<and> c5 = CHR ''>''
          then (case hex_val c3 of None \<Rightarrow> None
                | Some h \<Rightarrow> (case hex_val c4 of None \<Rightarrow> None | Some l \<Rightarrow> Some (16 * h + l)))
          else None
      | _ \<Rightarrow> None)"

text \<open>\<open>byteTokenRegex.ReplaceAllStringFunc\<close>: each byte token becomes \<open>string(rune(b))\<close>.\<close>

fun replace_byte_tokens :: "nat \<Rightarrow> string \<Rightarrow> string" where
  "replace_byte_tokens k [] = []"
| "replace_byte_tokens (Suc k) (c # s) = replace_byte_tokens k s"
| "replace_byte_tokens 0 (c # s) =
     (case byte_token_at (c # s) of
        Some b \<Rightarrow> utf8_encode b @ replace_byte_tokens 5 s
      | None \<Rightarrow> c # replace_byte_tokens 0 s)"

definition decodeSpecialChars :: "string \<Rightarrow> string" where
  "decodeSpecialChars s = replace_byte_tokens 0 (ReplaceAll s sp_char '' '')"

text \<open>GPT-2's table: printable bytes stand for themselves, the others for the characters from 256 on.\<close>

fun gpt2_loop :: "nat list \<Rightarrow> nat \<Rightarrow> (nat \<times> nat) list" where
  "gpt2_loop [] next = []"
| "gpt2_loop (b # bs) next =
     (if (33 \<le> b \<and> b \<le> 126) \<or> (0xA1 \<le> b \<and> b \<le> 0xAC) \<or> (0xAE \<le> b \<and> b \<le> 0xFF)
      then (b, b) # gpt2_loop bs next
      else (next, b) # gpt2_loop bs (next + 1))"

definition gpt2UnicodeToByte :: "nat \<rightharpoonup> nat" where
  "gpt2UnicodeToByte = map_of (gpt2_loop [0..<256] 256)"

definition rune_bytes :: "nat \<Rightarrow> string" where
  "rune_bytes r = (case gpt2UnicodeToByte r of Some b \<Rightarrow> [char_of b] | None \<Rightarrow> utf8_encode r)"

definition token_bytes :: "string \<Rightarrow> string" where
  "token_bytes s =
     (case (if length s = 6 then byte_token_at s else None) of
        Some b \<Rightarrow> [char_of b]
      | None \<Rightarrow> concat (map rune_bytes (runes s)))"

definition decodeByteLevelBPE :: "Tokenizer \<Rightarrow> int list \<Rightarrow> string" where
  "decodeByteLevelBPE t is =
     concat (map (\<lambda>i. case tk_ids t i of None \<Rightarrow> [] | Some s \<Rightarrow> token_bytes s) is)"

definition Tokenizer_Decode :: "Tokenizer \<Rightarrow> int list \<Rightarrow> string" where
  "Tokenizer_Decode t is =
     (if tk_useByteLevel t then decodeByteLevelBPE t is
      else decodeSpecialChars (concat (map (\<lambda>i. case tk_ids t i of None \<Rightarrow> [] | Some s \<Rightarrow> s) is)))"

definition VocabSize :: "Tokenizer \<Rightarrow> int" where
  "VocabSize t = int (card (dom (tk_vocab t)))"

section \<open>Loading\<close>

text \<open>
  The decoded \<open>tokenizer.json\<close>: the vocabulary in the order of the iteration over the map (\<open>None\<close> when it is
  absent and the map nil), the merges in whichever format they unmarshal, and the added tokens.
\<close>

datatype json_merges = NoMerges | StringMerges "string list" | PairMerges "string list list" | OtherMerges

record tokenizer_json =
  tj_vocab :: "(string \<times> int) list option"
  tj_merges :: json_merges
  tj_added :: "(int \<times> string) list"

record load_state =
  ls_vocab :: "(string \<rightharpoonup> int) option"
  ls_ids :: "int \<rightharpoonup> string"
  ls_bos :: int
  ls_eos :: int
  ls_addBos :: bool
  ls_special :: "string list"

text \<open>An added token that is not in the vocabulary is stored there, which panics if the map is nil.\<close>

definition add_token :: "int \<times> string \<Rightarrow> load_state \<Rightarrow> load_state option" where
  "add_token tok s =
     (let (i, content) = tok;
          s1 = (if content = ''<s>'' then s\<lparr>ls_bos := i\<rparr>
                else if content = ''</s>'' then s\<lparr>ls_eos := i\<rparr>
                else if content = ''<|endoftext|>'' then s\<lparr>ls_bos := i, ls_eos := i, ls_addBos := False\<rparr>
                else s);
          s2 = s1\<lparr>ls_special := ls_special s1 @ [content]\<rparr>
      in case ls_vocab s1 of
           None \<Rightarrow> None
         | Some v \<Rightarrow> Some (if v content = None
                           then s2\<lparr>ls_vocab := Some (v(content \<mapsto> i)), ls_ids := (ls_ids s2)(i \<mapsto> content)\<rparr> else s2))"

definition pair_rank :: "nat \<times> string list \<Rightarrow> (string \<times> int) list \<Rightarrow> (string \<times> int) list" where
  "pair_rank ip ranks =
     (case snd ip of [a, b] \<Rightarrow> AList.update (a @ '' '' @ b) (int (fst ip)) ranks | _ \<Rightarrow> ranks)"

definition string_rank :: "nat \<times> string \<Rightarrow> (string \<times> int) list \<Rightarrow> (string \<times> int) list" where
  "string_rank im ranks = AList.update (snd im) (int (fst im)) ranks"

definition json_ranks :: "json_merges \<Rightarrow> (string \<times> int) list" where
  "json_ranks m =
     (case m of
        StringMerges ms \<Rightarrow> fold string_rank (List.enumerate 0 ms) []
      | PairMerges ps \<Rightarrow> fold pair_rank (List.enumerate 0 ps) []
      | _ \<Rightarrow> [])"

text \<open>\<open>Load\<close>, on the decoded file; \<open>srt\<close> sorts by length, the longest first.\<close>

definition Tokenizer_Load :: "(string list \<Rightarrow> string list) \<Rightarrow> tokenizer_json \<Rightarrow> Tokenizer option" where
  "Tokenizer_Load srt data =
     do { let vocab = map_option (\<lambda>kvs. map_of (rev kvs)) (tj_vocab data);
          let ids = fold (\<lambda>(k, v) m. m(v \<mapsto> k)) (case tj_vocab data of None \<Rightarrow> [] | Some kvs \<Rightarrow> kvs) Map.empty;
          s \<leftarrow> foldM add_token (tj_added data)
                 \<lparr>ls_vocab = vocab, ls_ids = ids, ls_bos = 1, ls_eos = 2, ls_addBos = True, ls_special = []\<rparr>;
          let v = (case ls_vocab s of None \<Rightarrow> Map.empty | Some v \<Rightarrow> v);
          Some \<lparr>tk_vocab = v, tk_ids = ls_ids s, tk_bos = ls_bos s, tk_eos = ls_eos s, tk_addBos = ls_addBos s,
                tk_addSpacePrefix = True, tk_specialTokens = srt (ls_special s), tk_useByteLevel = (v gp_char \<noteq> None),
                tk_mergeRanks = json_ranks (tj_merges data)\<rparr> }"

text \<open>The multi-character tokens with their scores; \<open>scores[i]\<close> panics when there are fewer scores than tokens.\<close>

record scoredToken =
  st_token :: string
  st_id :: nat
  st_score :: f32

definition add_scored ::
  "f32 list \<Rightarrow> int list \<Rightarrow> nat \<times> string \<Rightarrow> scoredToken list \<Rightarrow> scoredToken list option" where
  "add_scored scores types itok acc =
     (let (i, token) = itok in
      if len types > int i \<and> types ! i \<ge> 3 then Some acc
      else if len (runes token) > 1
      then do { sc \<leftarrow> idx scores (int i); Some (acc @ [\<lparr>st_token = token, st_id = i, st_score = sc\<rparr>]) }
      else Some acc)"

text \<open>All splits of a token into two tokens are merges; the first rank of a key stays.\<close>

definition add_split ::
  "(string \<rightharpoonup> int) \<Rightarrow> nat \<Rightarrow> nat list \<Rightarrow> nat \<Rightarrow> (string \<times> int) list \<Rightarrow> (string \<times> int) list" where
  "add_split vocab rank rs splitPos ranks =
     (let left = concat (map utf8_encode (take splitPos rs)); right = concat (map utf8_encode (drop splitPos rs));
          key = left @ '' '' @ right
      in if vocab left \<noteq> None \<and> vocab right \<noteq> None \<and> map_of ranks key = None
         then AList.update key (int rank) ranks else ranks)"

definition add_splits ::
  "(string \<rightharpoonup> int) \<Rightarrow> nat \<times> scoredToken \<Rightarrow> (string \<times> int) list \<Rightarrow> (string \<times> int) list" where
  "add_splits vocab rst ranks =
     (let rs = runes (st_token (snd rst)) in fold (add_split vocab (fst rst) rs) [1..<length rs] ranks)"

definition meta_array :: "(string \<rightharpoonup> MetadataValue) \<Rightarrow> string \<Rightarrow> ScalarValue list option" where
  "meta_array md key = map_option mv_Array (md key)"

text \<open>Explicit merges, or merges from the scores of the vocabulary.\<close>

definition gguf_ranks ::
  "(scoredToken list \<Rightarrow> scoredToken list) \<Rightarrow> (string \<rightharpoonup> int) \<Rightarrow> f32 list \<Rightarrow> int list \<Rightarrow> string list \<Rightarrow> bool \<Rightarrow>
   (nat \<times> string) list \<Rightarrow> (string \<times> int) list option" where
  "gguf_ranks srt_score vocab scores types merges byteLevel etoks =
     (let explicit = fold string_rank (List.enumerate 0 merges) [] in
      if explicit = [] \<and> len scores > 0 \<and> \<not> byteLevel
      then do { scored \<leftarrow> foldM (add_scored scores types) etoks [];
                Some (fold (add_splits vocab) (List.enumerate 0 (srt_score scored)) []) }
      else Some explicit)"

definition token_map :: "(nat \<times> string) list \<Rightarrow> string \<rightharpoonup> int" where
  "token_map etoks = fold (\<lambda>x m. m(snd x \<mapsto> int (fst x))) etoks Map.empty"

definition id_map :: "(nat \<times> string) list \<Rightarrow> int \<rightharpoonup> string" where
  "id_map etoks = fold (\<lambda>x m. m(int (fst x) \<mapsto> snd x)) etoks Map.empty"

definition LoadFromGGUF ::
  "(string list \<Rightarrow> string list) \<Rightarrow> (scoredToken list \<Rightarrow> scoredToken list) \<Rightarrow> GgufFile \<Rightarrow> (string + Tokenizer) option" where
  "LoadFromGGUF srt srt_score gf =
     (let md = gf_Metadata gf in
      case meta_array md ''tokenizer.ggml.tokens'' of
        None \<Rightarrow> Some (Inl ''GGUF file missing tokenizer.ggml.tokens'')
      | Some arr \<Rightarrow>
          let toks = map AsString arr; etoks = List.enumerate 0 toks;
              scores = (case meta_array md ''tokenizer.ggml.scores'' of None \<Rightarrow> [] | Some a \<Rightarrow> map AsFloat32 a);
              types = (case meta_array md ''tokenizer.ggml.token_type'' of
                         None \<Rightarrow> [] | Some a \<Rightarrow> map (\<lambda>v. uint (AsUint32 v)) a);
              bos = meta_int md ''tokenizer.ggml.bos_token_id'' 1;
              eos = meta_int md ''tokenizer.ggml.eos_token_id'' 2;
              model = (case md ''tokenizer.ggml.model'' of None \<Rightarrow> ''llama'' | Some v \<Rightarrow> AsString v);
              byteLevel = (model = ''gpt2'');
              addBos = (case md ''tokenizer.ggml.add_bos_token'' of Some v \<Rightarrow> AsBool v | None \<Rightarrow> bos \<noteq> eos);
              addSpace = (case md ''tokenizer.ggml.add_space_prefix'' of Some v \<Rightarrow> AsBool v | None \<Rightarrow> True);
              special = map snd (filter (\<lambda>(i, tok). len types > int i \<and> types ! i = 3) etoks);
              merges = (case meta_array md ''tokenizer.ggml.merges'' of None \<Rightarrow> [] | Some a \<Rightarrow> map AsString a)
          in do { ranks \<leftarrow> gguf_ranks srt_score (token_map etoks) scores types merges byteLevel etoks;
                  Some (Inr \<lparr>tk_vocab = token_map etoks, tk_ids = id_map etoks, tk_bos = bos, tk_eos = eos, tk_addBos = addBos,
                             tk_addSpacePrefix = addSpace, tk_specialTokens = srt special,
                             tk_useByteLevel = byteLevel, tk_mergeRanks = ranks\<rparr>) })"

end
