(* ===== verification/Chat_Template.thy ===== *)
theory Chat_Template
  imports Go_Strings
begin

text \<open>
  The chat templates of \<open>inference/pkg/tokenizer/tokenizer.go\<close>: their texts, the choice by model path and the
  formatting of a conversation. \<open>strings.ToLower\<close>, which maps all of Unicode, is a parameter.
\<close>

record ChatMessage =
  cm_Role :: string
  cm_Content :: string

record ChatTemplate =
  ct_Name :: string
  ct_SystemPrefix :: string
  ct_SystemSuffix :: string
  ct_UserPrefix :: string
  ct_UserSuffix :: string
  ct_AssistantPrefix :: string
  ct_AssistantSuffix :: string
  ct_BOS :: string
  ct_ExtraStopTokenIDs :: "int list"

abbreviation nl :: string where "nl \<equiv> [CHR 0x0A]"

definition TinyLlamaChatTemplate :: ChatTemplate where
  "TinyLlamaChatTemplate =
     \<lparr>ct_Name = ''tinyllama'', ct_SystemPrefix = ''<|system|>'' @ nl, ct_SystemSuffix = ''</s>'' @ nl,
      ct_UserPrefix = ''<|user|>'' @ nl, ct_UserSuffix = ''</s>'' @ nl, ct_AssistantPrefix = ''<|assistant|>'' @ nl,
      ct_AssistantSuffix = ''</s>'' @ nl, ct_BOS = '''', ct_ExtraStopTokenIDs = []\<rparr>"

definition DefaultChatTemplate :: ChatTemplate where
  "DefaultChatTemplate = TinyLlamaChatTemplate"

definition Llama2ChatTemplate :: ChatTemplate where
  "Llama2ChatTemplate =
     \<lparr>ct_Name = ''llama2'', ct_SystemPrefix = ''[INST] <<SYS>>'' @ nl, ct_SystemSuffix = nl @ ''<</SYS>>'' @ nl @ nl,
      ct_UserPrefix = '''', ct_UserSuffix = '' [/INST] '', ct_AssistantPrefix = '''',
      ct_AssistantSuffix = '' </s><s>[INST] '', ct_BOS = '''', ct_ExtraStopTokenIDs = []\<rparr>"

definition Llama3ChatTemplate :: ChatTemplate where
  "Llama3ChatTemplate =
     \<lparr>ct_Name = ''llama3'', ct_SystemPrefix = ''<|start_header_id|>system<|end_header_id|>'' @ nl @ nl,
      ct_SystemSuffix = ''<|eot_id|>'', ct_UserPrefix = ''<|start_header_id|>user<|end_header_id|>'' @ nl @ nl,
      ct_UserSuffix = ''<|eot_id|>'', ct_AssistantPrefix = ''<|start_header_id|>assistant<|end_header_id|>'' @ nl @ nl,
      ct_AssistantSuffix = ''<|eot_id|>'', ct_BOS = ''<|begin_of_text|>'', ct_ExtraStopTokenIDs = []\<rparr>"

definition ChatMLTemplate :: ChatTemplate where
  "ChatMLTemplate =
     \<lparr>ct_Name = ''chatml'', ct_SystemPrefix = ''<|im_start|>system'' @ nl, ct_SystemSuffix = ''<|im_end|>'' @ nl,
      ct_UserPrefix = ''<|im_start|>user'' @ nl, ct_UserSuffix = ''<|im_end|>'' @ nl,
      ct_AssistantPrefix = ''<|im_start|>assistant'' @ nl, ct_AssistantSuffix = ''<|im_end|>'' @ nl,
      ct_BOS = '''', ct_ExtraStopTokenIDs = []\<rparr>"

definition Phi3ChatTemplate :: ChatTemplate where
  "Phi3ChatTemplate =
     \<lparr>ct_Name = ''phi3'', ct_SystemPrefix = ''<|system|>'' @ nl, ct_SystemSuffix = ''<|end|>'' @ nl,
      ct_UserPrefix = ''<|user|>'' @ nl, ct_UserSuffix = ''<|end|>'' @ nl, ct_AssistantPrefix = ''<|assistant|>'',
      ct_AssistantSuffix = ''<|end|>'' @ nl, ct_BOS = '''', ct_ExtraStopTokenIDs = [32007]\<rparr>"

definition Gemma2ChatTemplate :: ChatTemplate where
  "Gemma2ChatTemplate =
     \<lparr>ct_Name = ''gemma2'', ct_SystemPrefix = '''', ct_SystemSuffix = '''',
      ct_UserPrefix = ''<start_of_turn>user'' @ nl, ct_UserSuffix = ''<end_of_turn>'' @ nl,
      ct_AssistantPrefix = ''<start_of_turn>model'' @ nl, ct_AssistantSuffix = ''<end_of_turn>'' @ nl,
      ct_BOS = '''', ct_ExtraStopTokenIDs = [107]\<rparr>"

definition DetectChatTemplate :: "(string \<Rightarrow> string) \<Rightarrow> string \<Rightarrow> ChatTemplate" where
  "DetectChatTemplate lowercase modelPath =
     (let has = str_contains (lowercase modelPath) in
      if has ''llama-3'' \<or> has ''llama3'' \<or> has ''llama_3'' then Llama3ChatTemplate
      else if has ''llama-2'' \<or> has ''llama2'' \<or> has ''llama_2'' then Llama2ChatTemplate
      else if has ''phi-3'' \<or> has ''phi3'' \<or> has ''phi_3'' then Phi3ChatTemplate
      else if has ''gemma-2'' \<or> has ''gemma2'' then Gemma2ChatTemplate
      else if has ''mistral'' \<or> has ''qwen'' \<or> has ''chatml'' then ChatMLTemplate
      else if has ''tinyllama'' \<or> has ''zephyr'' then TinyLlamaChatTemplate
      else DefaultChatTemplate)"

text \<open>A message with another role is left out.\<close>

definition format_message :: "ChatTemplate \<Rightarrow> ChatMessage \<Rightarrow> string" where
  "format_message ct msg =
     (if cm_Role msg = ''system'' then ct_SystemPrefix ct @ cm_Content msg @ ct_SystemSuffix ct
      else if cm_Role msg = ''user'' then ct_UserPrefix ct @ cm_Content msg @ ct_UserSuffix ct
      else if cm_Role msg = ''assistant'' then ct_AssistantPrefix ct @ cm_Content msg @ ct_AssistantSuffix ct
      else [])"

definition FormatConversation :: "ChatTemplate \<Rightarrow> ChatMessage list \<Rightarrow> string" where
  "FormatConversation ct messages =
     ct_BOS ct @ concat (map (format_message ct) messages) @ ct_AssistantPrefix ct"

definition FormatChat :: "ChatTemplate \<Rightarrow> string \<Rightarrow> string \<Rightarrow> string" where
  "FormatChat ct systemPrompt userMessage =
     (let msgs = [\<lparr>cm_Role = ''user'', cm_Content = userMessage\<rparr>] in
      FormatConversation ct
        (if systemPrompt \<noteq> '''' then \<lparr>cm_Role = ''system'', cm_Content = systemPrompt\<rparr> # msgs else msgs))"

text \<open>A message whose role is none of the three is dropped without an error.\<close>

lemma unknown_role_dropped:
  "r \<notin> {''system'', ''user'', ''assistant''} \<Longrightarrow>
   FormatConversation ct (ms @ \<lparr>cm_Role = r, cm_Content = c\<rparr> # ns) = FormatConversation ct (ms @ ns)"
  by (simp add: FormatConversation_def format_message_def)

text \<open>With the template of Gemma 2 a system prompt stands in front of the user's turn, outside of any turn.\<close>

lemma gemma_system_outside:
  "c \<noteq> [] \<Longrightarrow> FormatChat Gemma2ChatTemplate c m =
    c @ ''<start_of_turn>user'' @ nl @ m @ ''<end_of_turn>'' @ nl @ ''<start_of_turn>model'' @ nl"
  by (simp add: FormatChat_def FormatConversation_def format_message_def Gemma2ChatTemplate_def)

end
