(* ===== verification/Float32_Arith.thy ===== *)
theory Float32_Arith
  imports Float32
begin

text \<open>
  The arithmetic of Go's \<open>float32\<close>: IEEE 754 single precision, rounding to nearest with ties to even, with
  subnormals, signed zeros, infinities and one quiet NaN (Go leaves the payload of a NaN to the machine).
  The language lets a compiler fuse a product and a sum into one operation with a single rounding, as it
  does on arm64 and does not on amd64; the argument \<open>fma\<close> of \<open>f32_mul_add\<close> says which.
\<close>

definition f32_inf :: "f32 \<Rightarrow> bool" where
  "f32_inf x = (f32_mag x = 0x7F800000)"

definition f32_finite :: "f32 \<Rightarrow> bool" where
  "f32_finite x = (f32_mag x < 0x7F800000)"

definition f32_qnan :: f32 where
  "f32_qnan = 0x7FC00000"

text \<open>\<open>-math.MaxFloat32\<close> and \<open>1.0\<close>\<close>

definition f32_lowest :: f32 where
  "f32_lowest = 0xFF7FFFFF"

definition f32_one :: f32 where
  "f32_one = 0x3F800000"

definition f32_pack :: "bool \<Rightarrow> int \<Rightarrow> f32" where
  "f32_pack neg m = word_of_int (m + (if neg then 2 ^ 31 else 0))"

section \<open>Rounding\<close>

text \<open>The integer nearest to \<open>p / q\<close>, the even one of two.\<close>

definition rne_div :: "int \<Rightarrow> int \<Rightarrow> int" where
  "rne_div p q =
     (let d = p div q; r = p mod q in if 2 * r > q \<or> (2 * r = q \<and> odd d) then d + 1 else d)"

function bit_length :: "int \<Rightarrow> nat" where
  "bit_length n = (if n \<le> 0 then 0 else Suc (bit_length (n div 2)))"
  by auto
termination by (relation "measure nat") auto

declare bit_length.simps [simp del]

text \<open>
  The magnitude of the pattern nearest to \<open>p / q\<close> units of the smallest subnormal: below \<open>2 ^ 24\<close> units
  the patterns are the integers, above they are \<open>2 ^ e\<close> apart; a carry of the rounding reaches the exponent.
\<close>

definition mag_round :: "int \<Rightarrow> int \<Rightarrow> int" where
  "mag_round p q =
     (let e = bit_length (p div q) - 24 in min (int e * 2 ^ 23 + rne_div p (q * 2 ^ e)) 0x7F800000)"

section \<open>Operations\<close>

definition f32_minus :: "f32 \<Rightarrow> f32" where
  "f32_minus x = (if bit x 31 then unset_bit 31 x else set_bit 31 x)"

definition f32_of_int :: "int \<Rightarrow> f32" where
  "f32_of_int n = f32_pack (n < 0) (mag_round (\<bar>n\<bar> * 2 ^ 149) 1)"

definition f32_mul :: "f32 \<Rightarrow> f32 \<Rightarrow> f32" where
  "f32_mul x y =
     (let neg = (f32_neg x \<noteq> f32_neg y) in
      if f32_nan x \<or> f32_nan y then f32_qnan
      else if f32_inf x \<or> f32_inf y
      then (if f32_val x = 0 \<or> f32_val y = 0 then f32_qnan else f32_pack neg 0x7F800000)
      else f32_pack neg (mag_round (\<bar>f32_val x\<bar> * \<bar>f32_val y\<bar>) (2 ^ 149)))"

definition f32_add :: "f32 \<Rightarrow> f32 \<Rightarrow> f32" where
  "f32_add x y =
     (let s = f32_val x + f32_val y in
      if f32_nan x \<or> f32_nan y then f32_qnan
      else if f32_inf x then (if f32_inf y \<and> f32_neg x \<noteq> f32_neg y then f32_qnan else x)
      else if f32_inf y then y
      else if s = 0 then f32_pack (f32_neg x \<and> f32_neg y) 0
      else f32_pack (s < 0) (mag_round \<bar>s\<bar> 1))"

definition f32_sub :: "f32 \<Rightarrow> f32 \<Rightarrow> f32" where
  "f32_sub x y = f32_add x (f32_minus y)"

definition f32_div :: "f32 \<Rightarrow> f32 \<Rightarrow> f32" where
  "f32_div x y =
     (let neg = (f32_neg x \<noteq> f32_neg y) in
      if f32_nan x \<or> f32_nan y \<or> (f32_inf x \<and> f32_inf y) \<or> (f32_val x = 0 \<and> f32_val y = 0) then f32_qnan
      else if f32_inf x \<or> f32_val y = 0 then f32_pack neg 0x7F800000
      else if f32_inf y then f32_pack neg 0
      else f32_pack neg (mag_round (\<bar>f32_val x\<bar> * 2 ^ 149) \<bar>f32_val y\<bar>))"

text \<open>The product and the sum with one rounding, where all three are finite.\<close>

definition f32_fma :: "f32 \<Rightarrow> f32 \<Rightarrow> f32 \<Rightarrow> f32" where
  "f32_fma x y z =
     (let s = f32_val x * f32_val y + f32_val z * 2 ^ 149 in
      if \<not> f32_finite x \<or> \<not> f32_finite y \<or> \<not> f32_finite z
      then (if f32_finite x \<and> f32_finite y then f32_add z 0 else f32_add (f32_mul x y) z)
      else if s = 0 then f32_pack ((f32_neg x \<noteq> f32_neg y) \<and> f32_neg z) 0
      else f32_pack (s < 0) (mag_round \<bar>s\<bar> (2 ^ 149)))"

definition f32_mul_add :: "bool \<Rightarrow> f32 \<Rightarrow> f32 \<Rightarrow> f32 \<Rightarrow> f32" where
  "f32_mul_add fma x y z = (if fma then f32_fma x y z else f32_add (f32_mul x y) z)"

definition f32_mul_sub :: "bool \<Rightarrow> f32 \<Rightarrow> f32 \<Rightarrow> f32 \<Rightarrow> f32" where
  "f32_mul_sub fma x y z = f32_mul_add fma x y (f32_minus z)"

lemmas f32_arith_defs = f32_mul_def f32_add_def f32_sub_def f32_div_def f32_fma_def f32_mul_add_def f32_mul_sub_def

section \<open>Results that need no rounding\<close>

lemma bit_length_bounds: "0 < n \<Longrightarrow> 2 ^ (bit_length n - 1) \<le> n \<and> n < 2 ^ bit_length n"
proof (induction n rule: bit_length.induct)
  case (1 n)
  have s: "bit_length n = Suc (bit_length (n div 2))" using 1(2) by (subst bit_length.simps) simp
  show ?case
  proof (cases "n = 1")
    case True
    then show ?thesis by (simp add: s) (simp add: bit_length.simps)
  next
    case False
    then have h: "0 < n div 2" using 1(2) by linarith
    then have b: "2 ^ (bit_length (n div 2) - 1) \<le> n div 2 \<and> n div 2 < 2 ^ bit_length (n div 2)" using 1 by simp
    have p: "0 < bit_length (n div 2)" by (subst bit_length.simps) (use h in simp)
    have "(2::int) ^ bit_length (n div 2) = 2 * 2 ^ (bit_length (n div 2) - 1)" using p by (simp flip: power_Suc)
    then have "2 ^ bit_length (n div 2) \<le> 2 * (n div 2)" "2 * (n div 2) + 1 < 2 * 2 ^ bit_length (n div 2)"
      using b by linarith+
    then show ?thesis by (simp add: s) linarith
  qed
qed

lemma bit_length_0 [simp]: "bit_length 0 = 0"
  by (simp add: bit_length.simps)

lemma rne_div_exact: "0 < q \<Longrightarrow> rne_div (d * q) q = d"
  by (simp add: rne_div_def Let_def)

lemma mag_val_scaled:
  assumes "2 ^ 23 \<le> m \<and> m < 2 ^ 24 \<or> e = 0 \<and> m < 2 ^ 24"
  shows "mag_val (e * 2 ^ 23 + m) = int m * 2 ^ e"
proof (cases "m < 2 ^ 23")
  case True
  then show ?thesis using assms by (simp add: mag_val_def)
next
  case False
  define r where "r = m - 2 ^ 23"
  have m: "m = 2 ^ 23 + r" and r: "r < 2 ^ 23" using False assms by (auto simp: r_def)
  have n: "e * 2 ^ 23 + m = (e + 1) * 2 ^ 23 + r" by (simp add: m)
  have "((e + 1) * 2 ^ 23 + r) div 2 ^ 23 = e + 1" and "((e + 1) * 2 ^ 23 + r) mod 2 ^ 23 = r"
    using r by (simp_all only: div_mult_self3 mod_mult_self3 div_less mod_less)
  then show ?thesis unfolding mag_val_def n by (simp only: Let_def) (simp add: m)
qed

text \<open>A value of at most 24 significant bits in the range of the finite floats is not rounded.\<close>

lemma mag_round_exact:
  assumes m: "0 \<le> m" "m < 2 ^ 24" and v: "m * 2 ^ k < 2 ^ 277" and q: "0 < q"
  shows "0 \<le> mag_round (m * 2 ^ k * q) q" "mag_round (m * 2 ^ k * q) q < 0x7F800000"
    and "mag_val (nat (mag_round (m * 2 ^ k * q) q)) = m * 2 ^ k"
proof -
  define w where "w = m * 2 ^ k"
  define e where "e = bit_length w - 24"
  define d where "d = w div 2 ^ e"
  have w0: "0 \<le> w" using m by (simp add: w_def)
  have fits: "2 ^ e dvd w \<and> (0 < e \<longrightarrow> 2 ^ 23 \<le> d) \<and> d < 2 ^ 24 \<and> e \<le> 253"
  proof (cases "e = 0")
    case True
    then have "bit_length w \<le> 24" by (simp add: e_def)
    then have "w < 2 ^ 24"
      using bit_length_bounds [of w] w0 power_increasing [of "bit_length w" 24 "2::int"] by (cases "w = 0") auto
    then show ?thesis using True by (simp add: d_def)
  next
    case False
    then have b: "bit_length w = e + 24" and wp: "0 < w"
      using w0 by (auto simp: e_def order_le_less)
    have lo: "2 ^ (e + 23) \<le> w" and hi: "w < 2 ^ (e + 24)"
      using bit_length_bounds [OF wp] by (simp_all add: b add.commute)
    have "w < 2 ^ (24 + k)" using m(2) by (simp add: w_def power_add)
    then have "(2::int) ^ (e + 23) < 2 ^ (24 + k)" using lo by (rule le_less_trans [rotated])
    then have "e \<le> k" by simp
    then have dv: "2 ^ e dvd w" by (simp add: w_def le_imp_power_dvd dvd_mult)
    then have wd: "w = d * 2 ^ e" by (simp add: d_def)
    have "2 ^ 23 \<le> d" "d < 2 ^ 24" using lo hi by (simp_all add: wd power_add mult.commute)
    moreover have "(2::int) ^ (e + 23) < 2 ^ 277" using lo v by (simp add: w_def)
    then have "e + 23 < 277" by (rule power_less_imp_less_exp [rotated]) simp
    ultimately show ?thesis using dv by simp
  qed
  then have wd: "w = d * 2 ^ e" by (simp add: d_def)
  have d0: "0 \<le> d" using w0 by (simp add: d_def pos_imp_zdiv_nonneg_iff)
  have "rne_div (w * q) (q * 2 ^ e) = d"
    using rne_div_exact [of "q * 2 ^ e" d] q by (simp add: wd mult_ac)
  moreover have "w * q div q = w" using q by simp
  ultimately have r: "mag_round (w * q) q = min (int e * 2 ^ 23 + d) 0x7F800000"
    by (simp add: mag_round_def Let_def e_def)
  have "int e * 2 ^ 23 \<le> 253 * 2 ^ 23" using fits by (intro mult_right_mono) simp_all
  then have s: "int e * 2 ^ 23 + d < 0x7F800000" using fits by simp
  then have t: "mag_round (w * q) q = int e * 2 ^ 23 + d" by (simp add: r)
  have "nat (int e * 2 ^ 23 + d) = e * 2 ^ 23 + nat d" using d0 by (simp add: nat_add_distrib nat_mult_distrib)
  moreover have "mag_val (e * 2 ^ 23 + nat d) = int (nat d) * 2 ^ e"
    using fits d0 by (intro mag_val_scaled) (auto simp: nat_less_iff le_nat_iff)
  ultimately have "mag_val (nat (mag_round (w * q) q)) = d * 2 ^ e" unfolding t using d0 by simp
  then have "mag_val (nat (mag_round (w * q) q)) = w" by (simp only: wd)
  then show "mag_val (nat (mag_round (m * 2 ^ k * q) q)) = m * 2 ^ k" by (simp only: w_def)
  show "0 \<le> mag_round (m * 2 ^ k * q) q" "mag_round (m * 2 ^ k * q) q < 0x7F800000"
    using s t d0 by (simp_all add: w_def)
qed

lemma f32_pack_parts:
  assumes "0 \<le> m" "m < 2 ^ 31"
  shows "f32_mag (f32_pack neg m) = nat m" "f32_neg (f32_pack neg m) = neg"
proof -
  define n where "n = nat m"
  have m: "m = int n" and n: "n < 2 ^ 31" using assms by (simp_all add: n_def nat_less_iff)
  have "int n + (if neg then 2 ^ 31 else 0) = int (n + (if neg then 2 ^ 31 else 0))" by simp
  then have "f32_pack neg m = word_of_nat (n + (if neg then 2 ^ 31 else 0))"
    by (simp only: f32_pack_def m of_int_of_nat_eq)
  then have p: "unat (f32_pack neg m) = n + (if neg then 2 ^ 31 else 0)"
    using n by (simp only: unat_of_nat) simp
  show "f32_mag (f32_pack neg m) = nat m"
    unfolding f32_mag_def unsigned_take_bit_eq p using n by (simp add: take_bit_eq_mod m)
  have "f32_neg (f32_pack neg m) \<longleftrightarrow> bit (unat (f32_pack neg m)) 31"
    by (simp add: f32_neg_def bit_unsigned_iff)
  also have "\<dots> \<longleftrightarrow> odd ((n + (if neg then 2 ^ 31 else 0)) div 2 ^ 31)" by (simp only: p bit_iff_odd)
  also have "\<dots> \<longleftrightarrow> neg" using n by (simp add: div_add_self2)
  finally show "f32_neg (f32_pack neg m) = neg" .
qed

lemma f32_pack_exact:
  assumes "0 \<le> m" "m < 2 ^ 24" "m * 2 ^ k < 2 ^ 277" "0 < q"
  shows "f32_finite (f32_pack neg (mag_round (m * 2 ^ k * q) q))"
    and "f32_val (f32_pack neg (mag_round (m * 2 ^ k * q) q)) = (if neg then - (m * 2 ^ k) else m * 2 ^ k)"
  using mag_round_exact [OF assms]
  by (simp_all add: f32_finite_def f32_val_def f32_pack_parts nat_less_iff)

text \<open>Adding a zero changes no comparison.\<close>

lemma mag_val_exact:
  assumes "n < 0x7F800000"
  shows "mag_val (nat (mag_round (mag_val n) 1)) = mag_val n" "0 \<le> mag_round (mag_val n) 1" "mag_round (mag_val n) 1 < 0x7F800000"
proof -
  define e where "e = n div 2 ^ 23"
  define f where "f = int (n mod 2 ^ 23)"
  define m where "m = (if e = 0 then f else 2 ^ 23 + f)"
  have v: "mag_val n = m * 2 ^ (e - 1)" by (simp add: mag_val_def Let_def m_def e_def f_def)
  have "0 \<le> f" "f < 2 ^ 23" by (simp_all add: f_def zmod_int)
  then have m: "0 \<le> m" "m < 2 ^ 24" by (simp_all add: m_def)
  have "e < 255" using assms by (simp add: e_def div_less_iff_less_mult)
  then have "(2::int) ^ (e - 1) \<le> 2 ^ 253" by (intro power_increasing) simp_all
  then have "m * 2 ^ (e - 1) \<le> m * 2 ^ 253" using m by (intro mult_left_mono) simp_all
  also have "\<dots> < 2 ^ 24 * 2 ^ 253" using m by (intro mult_strict_right_mono) simp_all
  finally have r: "m * 2 ^ (e - 1) < 2 ^ 277" by simp
  from mag_round_exact [OF m r, of 1]
  show "mag_val (nat (mag_round (mag_val n) 1)) = mag_val n" "0 \<le> mag_round (mag_val n) 1" "mag_round (mag_val n) 1 < 0x7F800000"
    by (simp_all add: v)
qed

lemma f32_pack_small_finite: "0 \<le> m \<Longrightarrow> m < 0x7F800000 \<Longrightarrow> f32_finite (f32_pack neg m)"
  by (simp add: f32_finite_def f32_pack_parts nat_less_iff)

lemma f32_finite_cases: "f32_finite x \<Longrightarrow> \<not> f32_nan x \<and> \<not> f32_inf x"
  by (simp add: f32_finite_def f32_nan_def f32_inf_def)

lemma f32_not_finite: "\<not> f32_finite x \<longleftrightarrow> f32_nan x \<or> f32_inf x"
  by (auto simp: f32_finite_def f32_nan_def f32_inf_def)

lemma f32_qnan_nan [simp]: "f32_nan f32_qnan"
  by (simp add: f32_nan_def f32_qnan_def f32_mag_def)

lemma f32_zero_finite:
  assumes "f32_val z = 0"
  shows "f32_finite z"
proof -
  have "mag_val (f32_mag z) = 0" using assms by (simp add: f32_val_def split: if_splits)
  then have "f32_mag z = 0" using mag_val_eq_iff [of "f32_mag z" 0] by simp
  then show ?thesis by (simp add: f32_finite_def)
qed

lemma f32_add_zero:
  assumes z: "f32_val z = 0"
  shows "f32_nan (f32_add c z) = f32_nan c" "f32_val (f32_add c z) = f32_val c \<or> f32_nan c"
proof -
  have zf: "\<not> f32_nan z" "\<not> f32_inf z" using f32_finite_cases [OF f32_zero_finite [OF z]] by simp_all
  have "f32_nan (f32_add c z) = f32_nan c \<and> (f32_val (f32_add c z) = f32_val c \<or> f32_nan c)"
  proof (cases "f32_finite c")
    case False
    then show ?thesis using zf f32_not_finite [of c] by (auto simp: f32_add_def Let_def)
  next
    case True
    then have n: "f32_mag c < 0x7F800000" by (simp add: f32_finite_def)
    note cf = f32_finite_cases [OF True]
    show ?thesis
    proof (cases "f32_val c = 0")
      case True
      then have "f32_add c z = f32_pack (f32_neg c \<and> f32_neg z) 0" using cf zf z by (simp add: f32_add_def)
      then show ?thesis using True cf f32_pack_small_finite [of 0] f32_finite_cases
        by (simp add: f32_val_def f32_pack_parts)
    next
      case False
      have a: "\<bar>f32_val c\<bar> = mag_val (f32_mag c)" using mag_val_nonneg by (simp add: f32_val_def)
      have s: "f32_add c z = f32_pack (f32_val c < 0) (mag_round (mag_val (f32_mag c)) 1)"
        using cf zf z False by (simp add: f32_add_def a)
      note r = mag_val_exact [OF n]
      have neg: "f32_val c < 0 \<longleftrightarrow> f32_neg c"
        using False mag_val_nonneg [of "f32_mag c"] by (auto simp: f32_val_def)
      have "f32_val (f32_add c z) = f32_val c"
        unfolding s using r neg by (simp add: f32_val_def f32_pack_parts)
      moreover have "\<not> f32_nan (f32_add c z)"
        unfolding s using r f32_pack_small_finite f32_finite_cases by blast
      ultimately show ?thesis using cf by simp
    qed
  qed
  then show "f32_nan (f32_add c z) = f32_nan c" "f32_val (f32_add c z) = f32_val c \<or> f32_nan c" by blast+
qed

lemma f32_less_add_zero: "f32_val z = 0 \<Longrightarrow> f32_less r (f32_add c z) = f32_less r c"
  using f32_add_zero [of z c] by (auto simp: f32_less_def)

lemma f32_add_nan: "f32_nan x \<or> f32_nan y \<Longrightarrow> f32_add x y = f32_qnan"
  by (simp add: f32_add_def)

section \<open>Evaluation\<close>

text \<open>The reading of a pattern in integers, for concrete runs.\<close>

lemma f32_val_eval:
  "f32_val x =
     (let m = uint (take_bit 31 x); e = m div 2 ^ 23; f = m mod 2 ^ 23; v = (if e = 0 then f else (2 ^ 23 + f) * 2 ^ nat (e - 1))
      in if bit x 31 then - v else v)"
proof -
  have u: "uint (take_bit 31 x) = int (f32_mag x)" by (simp add: f32_mag_def)
  have e: "int (f32_mag x) div 2 ^ 23 = int (f32_mag x div 2 ^ 23)" "int (f32_mag x) mod 2 ^ 23 = int (f32_mag x mod 2 ^ 23)"
    by (simp_all add: zdiv_int zmod_int)
  have "nat (int (f32_mag x div 2 ^ 23) - 1) = f32_mag x div 2 ^ 23 - 1" by simp
  then show ?thesis unfolding f32_val_def f32_neg_def mag_val_def Let_def u e by simp
qed

lemma f32_class_eval:
  "f32_nan x = (0x7F800000 < uint (take_bit 31 x))" "f32_inf x = (uint (take_bit 31 x) = 0x7F800000)"
proof -
  have "uint (take_bit 31 x) = int (f32_mag x)" by (simp add: f32_mag_def)
  then show "f32_nan x = (0x7F800000 < uint (take_bit 31 x))" "f32_inf x = (uint (take_bit 31 x) = 0x7F800000)"
    by (simp_all add: f32_nan_def f32_inf_def)
qed

lemmas f32_eval = f32_val_eval f32_class_eval f32_neg_def f32_pack_def mag_round_def rne_div_def bit_length.simps
  f32_less_def f32_le_def f32_eq_def Let_def

end
