(* ===== verification/Dequant.thy ===== *)
theory Dequant
  imports Gguf Float32_Arith
begin

text \<open>
  The file \<open>inference/pkg/gguf/dequant.go\<close>: the values of quantized tensor data. Each format stores blocks
  of elements; a function of the code fills the result block by block and stops at the first block that
  the data does not hold in full. Every read and write is checked (\<open>None\<close> is the panic); the argument
  \<open>fma\<close> says whether the compiler fuses \<open>x*y+z\<close>.
\<close>

unbundle bit_operations_syntax

section \<open>Reading and writing\<close>

text \<open>\<open>binary.LittleEndian.Uint16(data[off:])\<close> and \<open>Uint32\<close>.\<close>

definition u16_at :: "byte list \<Rightarrow> int \<Rightarrow> 16 word option" where
  "u16_at data off =
     do { b0 \<leftarrow> idx data off; b1 \<leftarrow> idx data (off + 1); Some (ucast b0 OR push_bit 8 (ucast b1)) }"

definition u32_at :: "byte list \<Rightarrow> int \<Rightarrow> 32 word option" where
  "u32_at data off =
     do { b0 \<leftarrow> idx data off; b1 \<leftarrow> idx data (off + 1); b2 \<leftarrow> idx data (off + 2); b3 \<leftarrow> idx data (off + 3);
          Some (ucast b0 OR push_bit 8 (ucast b1) OR push_bit 16 (ucast b2) OR push_bit 24 (ucast b3)) }"

text \<open>\<open>if k < numElements { result[k] = v }\<close>\<close>

definition put :: "int \<Rightarrow> int \<Rightarrow> 'a \<Rightarrow> 'a list \<Rightarrow> 'a list option" where
  "put n k v r = (if k < n then upd r k v else Some r)"

text \<open>The loop over the blocks with its early exit.\<close>

fun block_loop :: "int \<Rightarrow> (int \<Rightarrow> f32 list \<Rightarrow> f32 list option) \<Rightarrow> byte list \<Rightarrow> int list \<Rightarrow> f32 list \<Rightarrow> f32 list option" where
  "block_loop bytesPerBlock body data [] result = Some result"
| "block_loop bytesPerBlock body data (b # bs) result =
     (if b * bytesPerBlock + bytesPerBlock > len data then Some result
      else do { result' \<leftarrow> body b result; block_loop bytesPerBlock body data bs result' })"

definition dequant_blocks ::
    "int \<Rightarrow> int \<Rightarrow> (int \<Rightarrow> f32 list \<Rightarrow> f32 list option) \<Rightarrow> byte list \<Rightarrow> int \<Rightarrow> f32 list option" where
  "dequant_blocks blockSize bytesPerBlock body data numElements =
     do { numBlocks \<leftarrow> go_div (numElements + blockSize - 1) blockSize;
          result \<leftarrow> make_slice numElements 0;
          block_loop bytesPerBlock body data [0..numBlocks - 1] result }"

section \<open>Half precision\<close>

text \<open>\<open>for mant&0x400 == 0 { mant <<= 1; exp-- }\<close>, which would not end for 0.\<close>

partial_function (option) denorm_loop :: "32 word \<Rightarrow> 32 word \<Rightarrow> (32 word \<times> 32 word) option" where
  "denorm_loop mant exp =
     (if mant AND 0x400 = 0 then denorm_loop (push_bit 1 mant) (exp - 1) else Some (mant, exp))"

declare denorm_loop.simps [code]

definition float16ToFloat32 :: "16 word \<Rightarrow> f32 option" where
  "float16ToFloat32 h =
     (let sign = (ucast (drop_bit 15 h AND 1) :: 32 word);
          exp = (ucast (drop_bit 10 h AND 0x1F) :: 32 word);
          mant = (ucast (h AND 0x3FF) :: 32 word)
      in if exp = 0 then
           (if mant = 0 then Some (push_bit 31 sign)
            else do { (mant', exp') \<leftarrow> denorm_loop mant (127 - 14);
                      Some (push_bit 31 sign OR push_bit 23 exp' OR push_bit 13 (mant' AND 0x3FF)) })
         else if exp = 0x1F then Some (push_bit 31 sign OR push_bit 23 0xFF OR push_bit 13 mant)
         else Some (push_bit 31 sign OR push_bit 23 (exp + 127 - 15) OR push_bit 13 mant))"

definition f16_at :: "byte list \<Rightarrow> int \<Rightarrow> f32 option" where
  "f16_at data off = do { h \<leftarrow> u16_at data off; float16ToFloat32 h }"

definition f16_body :: "byte list \<Rightarrow> int \<Rightarrow> f32 list \<Rightarrow> f32 list option" where
  "f16_body data i result = do { v \<leftarrow> f16_at data (i * 2); upd result i v }"

definition DequantizeF16 :: "byte list \<Rightarrow> int \<Rightarrow> f32 list option" where
  "DequantizeF16 data numElements =
     do { result \<leftarrow> make_slice numElements 0; block_loop 2 (f16_body data) data [0..numElements - 1] result }"

definition bf16_body :: "byte list \<Rightarrow> int \<Rightarrow> f32 list \<Rightarrow> f32 list option" where
  "bf16_body data i result = do { u16 \<leftarrow> u16_at data (i * 2); upd result i (push_bit 16 (ucast u16)) }"

definition DequantizeBF16 :: "byte list \<Rightarrow> int \<Rightarrow> f32 list option" where
  "DequantizeBF16 data numElements =
     do { result \<leftarrow> make_slice numElements 0; block_loop 2 (bf16_body data) data [0..numElements - 1] result }"

definition f32_body :: "byte list \<Rightarrow> int \<Rightarrow> f32 list \<Rightarrow> f32 list option" where
  "f32_body data i result = do { u32 \<leftarrow> u32_at data (i * 4); upd result i u32 }"

definition DequantizeF32 :: "byte list \<Rightarrow> int \<Rightarrow> f32 list option" where
  "DequantizeF32 data numElements =
     do { result \<leftarrow> make_slice numElements 0; block_loop 4 (f32_body data) data [0..numElements - 1] result }"

section \<open>Blocks of 32 elements\<close>

definition q4_0_step :: "byte list \<Rightarrow> int \<Rightarrow> int \<Rightarrow> int \<Rightarrow> f32 \<Rightarrow> int \<Rightarrow> f32 list \<Rightarrow> f32 list option" where
  "q4_0_step data n blockOffset b scale i result =
     do { byteVal \<leftarrow> idx data (blockOffset + 2 + i);
          result \<leftarrow> put n (b * 32 + i) (f32_mul scale (f32_of_int (uint (byteVal AND 0x0F) - 8))) result;
          put n (b * 32 + i + 16) (f32_mul scale (f32_of_int (uint (drop_bit 4 byteVal AND 0x0F) - 8))) result }"

definition q4_0_block :: "byte list \<Rightarrow> int \<Rightarrow> int \<Rightarrow> f32 list \<Rightarrow> f32 list option" where
  "q4_0_block data n b result =
     (let blockOffset = b * 18 in
      do { scale \<leftarrow> f16_at data blockOffset; foldM (q4_0_step data n blockOffset b scale) [0..15] result })"

definition DequantizeQ4_0 :: "byte list \<Rightarrow> int \<Rightarrow> f32 list option" where
  "DequantizeQ4_0 data n = dequant_blocks 32 18 (q4_0_block data n) data n"

definition q8_0_step :: "byte list \<Rightarrow> int \<Rightarrow> int \<Rightarrow> int \<Rightarrow> f32 \<Rightarrow> int \<Rightarrow> f32 list \<Rightarrow> f32 list option" where
  "q8_0_step data n blockOffset b scale i result =
     (if b * 32 + i < n
      then do { q \<leftarrow> idx data (blockOffset + 2 + i); upd result (b * 32 + i) (f32_mul scale (f32_of_int (sint q))) }
      else Some result)"

definition q8_0_block :: "byte list \<Rightarrow> int \<Rightarrow> int \<Rightarrow> f32 list \<Rightarrow> f32 list option" where
  "q8_0_block data n b result =
     (let blockOffset = b * 34 in
      do { scale \<leftarrow> f16_at data blockOffset; foldM (q8_0_step data n blockOffset b scale) [0..31] result })"

definition DequantizeQ8_0 :: "byte list \<Rightarrow> int \<Rightarrow> f32 list option" where
  "DequantizeQ8_0 data n = dequant_blocks 32 34 (q8_0_block data n) data n"

text \<open>The fifth bit of an element: \<open>uint8(((qh >> j) << 4) & 0x10)\<close>.\<close>

definition fifth_bit :: "32 word \<Rightarrow> int \<Rightarrow> byte" where
  "fifth_bit qh j = ucast (push_bit 4 (drop_bit (nat j) qh) AND 0x10)"

definition q5_0_step :: "byte list \<Rightarrow> int \<Rightarrow> int \<Rightarrow> int \<Rightarrow> f32 \<Rightarrow> 32 word \<Rightarrow> int \<Rightarrow> f32 list \<Rightarrow> f32 list option" where
  "q5_0_step data n blockOffset b d qh j result =
     do { byteVal \<leftarrow> idx data (blockOffset + 6 + j);
          result \<leftarrow> put n (b * 32 + j)
            (f32_mul (f32_of_int ((uint (byteVal AND 0x0F) OR uint (fifth_bit qh j)) - 16)) d) result;
          put n (b * 32 + j + 16)
            (f32_mul (f32_of_int ((uint (drop_bit 4 byteVal) OR uint (fifth_bit qh (j + 16))) - 16)) d) result }"

definition q5_0_block :: "byte list \<Rightarrow> int \<Rightarrow> int \<Rightarrow> f32 list \<Rightarrow> f32 list option" where
  "q5_0_block data n b result =
     (let blockOffset = b * 22 in
      do { d \<leftarrow> f16_at data blockOffset; qh \<leftarrow> u32_at data (blockOffset + 2);
           foldM (q5_0_step data n blockOffset b d qh) [0..15] result })"

definition DequantizeQ5_0 :: "byte list \<Rightarrow> int \<Rightarrow> f32 list option" where
  "DequantizeQ5_0 data n = dequant_blocks 32 22 (q5_0_block data n) data n"

definition q5_1_step ::
    "bool \<Rightarrow> byte list \<Rightarrow> int \<Rightarrow> int \<Rightarrow> int \<Rightarrow> f32 \<Rightarrow> f32 \<Rightarrow> 32 word \<Rightarrow> int \<Rightarrow> f32 list \<Rightarrow> f32 list option" where
  "q5_1_step fma data n blockOffset b d m qh j result =
     do { byteVal \<leftarrow> idx data (blockOffset + 8 + j);
          result \<leftarrow> put n (b * 32 + j)
            (f32_mul_add fma (f32_of_int (uint (byteVal AND 0x0F) OR uint (fifth_bit qh j))) d m) result;
          put n (b * 32 + j + 16)
            (f32_mul_add fma (f32_of_int (uint (drop_bit 4 byteVal) OR uint (fifth_bit qh (j + 16)))) d m) result }"

definition q5_1_block :: "bool \<Rightarrow> byte list \<Rightarrow> int \<Rightarrow> int \<Rightarrow> f32 list \<Rightarrow> f32 list option" where
  "q5_1_block fma data n b result =
     (let blockOffset = b * 24 in
      do { d \<leftarrow> f16_at data blockOffset; m \<leftarrow> f16_at data (blockOffset + 2); qh \<leftarrow> u32_at data (blockOffset + 4);
           foldM (q5_1_step fma data n blockOffset b d m qh) [0..15] result })"

definition DequantizeQ5_1 :: "bool \<Rightarrow> byte list \<Rightarrow> int \<Rightarrow> f32 list option" where
  "DequantizeQ5_1 fma data n = dequant_blocks 32 24 (q5_1_block fma data n) data n"

section \<open>Blocks of 256 elements\<close>

text \<open>\<open>int8(lo | (hi & 3) << 4) - 32\<close>, in 8-bit arithmetic.\<close>

definition six_bits :: "byte \<Rightarrow> byte \<Rightarrow> byte" where
  "six_bits lo hi = (lo OR push_bit 4 (hi AND 3)) - 32"

definition q6_k_step ::
    "int \<Rightarrow> byte list \<Rightarrow> byte list \<Rightarrow> byte list \<Rightarrow> f32 \<Rightarrow> int \<Rightarrow> int \<Rightarrow> int \<Rightarrow> int \<Rightarrow> int \<Rightarrow> f32 list \<Rightarrow> f32 list option" where
  "q6_k_step num ql qh scales d qlOff qhOff scOff yOff l result =
     (let is = l div 16 in
      do { a \<leftarrow> idx ql (qlOff + l); b \<leftarrow> idx ql (qlOff + l + 32); h \<leftarrow> idx qh (qhOff + l);
           let q1 = six_bits (a AND 0xF) (drop_bit 0 h);
           let q2 = six_bits (b AND 0xF) (drop_bit 2 h);
           let q3 = six_bits (drop_bit 4 a) (drop_bit 4 h);
           let q4 = six_bits (drop_bit 4 b) (drop_bit 6 h);
           s0 \<leftarrow> idx scales (scOff + is + 0); s2 \<leftarrow> idx scales (scOff + is + 2);
           s4 \<leftarrow> idx scales (scOff + is + 4); s6 \<leftarrow> idx scales (scOff + is + 6);
           let sc0 = f32_of_int (sint s0); let sc2 = f32_of_int (sint s2);
           let sc4 = f32_of_int (sint s4); let sc6 = f32_of_int (sint s6);
           result \<leftarrow> put num (yOff + l) (f32_mul (f32_mul d sc0) (f32_of_int (sint q1))) result;
           result \<leftarrow> put num (yOff + l + 32) (f32_mul (f32_mul d sc2) (f32_of_int (sint q2))) result;
           result \<leftarrow> put num (yOff + l + 64) (f32_mul (f32_mul d sc4) (f32_of_int (sint q3))) result;
           put num (yOff + l + 96) (f32_mul (f32_mul d sc6) (f32_of_int (sint q4))) result })"

definition q6_k_chunk ::
    "int \<Rightarrow> byte list \<Rightarrow> byte list \<Rightarrow> byte list \<Rightarrow> f32 \<Rightarrow> int \<Rightarrow> int \<Rightarrow> f32 list \<Rightarrow> f32 list option" where
  "q6_k_chunk num ql qh scales d b n result =
     (let qlOff = n * 64; qhOff = n * 32; scOff = n * 8; yOff = b * 256 + n * 128
      in foldM (q6_k_step num ql qh scales d qlOff qhOff scOff yOff) [0..31] result)"

definition q6_k_block :: "byte list \<Rightarrow> int \<Rightarrow> int \<Rightarrow> f32 list \<Rightarrow> f32 list option" where
  "q6_k_block data num b result =
     (let blockOffset = b * 210 in
      do { ql \<leftarrow> slice data blockOffset (blockOffset + 128);
           qh \<leftarrow> slice data (blockOffset + 128) (blockOffset + 192);
           scales \<leftarrow> slice data (blockOffset + 192) (blockOffset + 208);
           d \<leftarrow> f16_at data (blockOffset + 208);
           foldM (q6_k_chunk num ql qh scales d b) [0..1] result })"

definition DequantizeQ6_K :: "byte list \<Rightarrow> int \<Rightarrow> f32 list option" where
  "DequantizeQ6_K data n = dequant_blocks 256 210 (q6_k_block data n) data n"

definition getScaleMinK4 :: "int \<Rightarrow> byte list \<Rightarrow> (byte \<times> byte) option" where
  "getScaleMinK4 j q =
     (if j < 4
      then do { a \<leftarrow> idx q j; b \<leftarrow> idx q (j + 4); Some (a AND 63, b AND 63) }
      else do { a \<leftarrow> idx q (j + 4); b \<leftarrow> idx q (j - 4); c \<leftarrow> idx q j;
                Some ((a AND 0x0F) OR push_bit 4 (drop_bit 6 b), drop_bit 4 a OR push_bit 4 (drop_bit 6 c)) })"

text \<open>The products \<open>d * float32(sc)\<close> and \<open>dmin * float32(m)\<close> of one sub-block.\<close>

definition scale_min :: "f32 \<Rightarrow> f32 \<Rightarrow> int \<Rightarrow> byte list \<Rightarrow> (f32 \<times> f32) option" where
  "scale_min d dmin is scalesData =
     do { (sc, m) \<leftarrow> getScaleMinK4 is scalesData;
          Some (f32_mul d (f32_of_int (uint sc)), f32_mul dmin (f32_of_int (uint m))) }"

definition q4_k_step ::
    "bool \<Rightarrow> int \<Rightarrow> byte list \<Rightarrow> int \<Rightarrow> int \<Rightarrow> int \<Rightarrow> f32 \<times> f32 \<Rightarrow> f32 \<times> f32 \<Rightarrow> int \<Rightarrow> f32 list \<Rightarrow> f32 list option" where
  "q4_k_step fma n qs qOffset b j s1 s2 l result =
     (let idx1 = b * 256 + j + l; idx2 = b * 256 + j + l + 32 in
      do { q \<leftarrow> idx qs (qOffset + l);
           result \<leftarrow> put n idx1 (f32_mul_sub fma (fst s1) (f32_of_int (uint (q AND 0x0F))) (snd s1)) result;
           put n idx2 (f32_mul_sub fma (fst s2) (f32_of_int (uint (drop_bit 4 q))) (snd s2)) result })"

text \<open>One round of the loop over the groups of 64, with the variables it carries.\<close>

definition q4_k_group ::
    "bool \<Rightarrow> int \<Rightarrow> byte list \<Rightarrow> byte list \<Rightarrow> f32 \<Rightarrow> f32 \<Rightarrow> int \<Rightarrow> int \<Rightarrow> int \<times> int \<times> f32 list \<Rightarrow> (int \<times> int \<times> f32 list) option" where
  "q4_k_group fma n scalesData qs d dmin b j st =
     (case st of (qOffset, is, result) \<Rightarrow>
        do { s1 \<leftarrow> scale_min d dmin (is + 0) scalesData;
             s2 \<leftarrow> scale_min d dmin (is + 1) scalesData;
             result \<leftarrow> foldM (q4_k_step fma n qs qOffset b j s1 s2) [0..31] result;
             Some (qOffset + 32, is + 2, result) })"

definition q4_k_block :: "bool \<Rightarrow> byte list \<Rightarrow> int \<Rightarrow> int \<Rightarrow> f32 list \<Rightarrow> f32 list option" where
  "q4_k_block fma data n b result =
     (let blockOffset = b * 144 in
      do { d \<leftarrow> f16_at data blockOffset; dmin \<leftarrow> f16_at data (blockOffset + 2);
           scalesData \<leftarrow> slice data (blockOffset + 4) (blockOffset + 16);
           qs \<leftarrow> slice data (blockOffset + 16) (blockOffset + 144);
           (_, _, result) \<leftarrow> foldM (q4_k_group fma n scalesData qs d dmin b) [0, 64, 128, 192] (0, 0, result);
           Some result })"

definition DequantizeQ4_K :: "bool \<Rightarrow> byte list \<Rightarrow> int \<Rightarrow> f32 list option" where
  "DequantizeQ4_K fma data n = dequant_blocks 256 144 (q4_k_block fma data n) data n"

definition high_bit :: "byte \<Rightarrow> byte \<Rightarrow> byte" where
  "high_bit h u = (if h AND u \<noteq> 0 then 16 else 0)"

definition q5_k_step ::
    "bool \<Rightarrow> int \<Rightarrow> byte list \<Rightarrow> byte list \<Rightarrow> byte \<Rightarrow> byte \<Rightarrow> int \<Rightarrow> int \<Rightarrow> int \<Rightarrow> f32 \<times> f32 \<Rightarrow> f32 \<times> f32 \<Rightarrow> int
     \<Rightarrow> f32 list \<Rightarrow> f32 list option" where
  "q5_k_step fma n qh qs u1 u2 qsOffset b j s1 s2 l result =
     (let idx1 = b * 256 + j + l; idx2 = b * 256 + j + l + 32 in
      do { h \<leftarrow> idx qh l;
           let hb1 = high_bit h u1; let hb2 = high_bit h u2;
           q \<leftarrow> idx qs (qsOffset + l);
           result \<leftarrow> put n idx1 (f32_mul_sub fma (fst s1) (f32_of_int (uint ((q AND 0x0F) + hb1))) (snd s1)) result;
           put n idx2 (f32_mul_sub fma (fst s2) (f32_of_int (uint (drop_bit 4 q + hb2))) (snd s2)) result })"

definition q5_k_group ::
    "bool \<Rightarrow> int \<Rightarrow> byte list \<Rightarrow> byte list \<Rightarrow> byte list \<Rightarrow> f32 \<Rightarrow> f32 \<Rightarrow> int \<Rightarrow> int
     \<Rightarrow> int \<times> int \<times> byte \<times> byte \<times> f32 list \<Rightarrow> (int \<times> int \<times> byte \<times> byte \<times> f32 list) option" where
  "q5_k_group fma n scalesData qh qs d dmin b j st =
     (case st of (qsOffset, is, u1, u2, result) \<Rightarrow>
        do { s1 \<leftarrow> scale_min d dmin (is + 0) scalesData;
             s2 \<leftarrow> scale_min d dmin (is + 1) scalesData;
             result \<leftarrow> foldM (q5_k_step fma n qh qs u1 u2 qsOffset b j s1 s2) [0..31] result;
             Some (qsOffset + 32, is + 2, push_bit 2 u1, push_bit 2 u2, result) })"

definition q5_k_block :: "bool \<Rightarrow> byte list \<Rightarrow> int \<Rightarrow> int \<Rightarrow> f32 list \<Rightarrow> f32 list option" where
  "q5_k_block fma data n b result =
     (let blockOffset = b * 176 in
      do { d \<leftarrow> f16_at data blockOffset; dmin \<leftarrow> f16_at data (blockOffset + 2);
           scalesData \<leftarrow> slice data (blockOffset + 4) (blockOffset + 16);
           qh \<leftarrow> slice data (blockOffset + 16) (blockOffset + 48);
           qs \<leftarrow> slice data (blockOffset + 48) (blockOffset + 176);
           (_, _, _, _, result) \<leftarrow>
             foldM (q5_k_group fma n scalesData qh qs d dmin b) [0, 64, 128, 192] (0, 0, 1, 2, result);
           Some result })"

definition DequantizeQ5_K :: "bool \<Rightarrow> byte list \<Rightarrow> int \<Rightarrow> f32 list option" where
  "DequantizeQ5_K fma data n = dequant_blocks 256 176 (q5_k_block fma data n) data n"

section \<open>All types\<close>

definition Dequantize :: "bool \<Rightarrow> byte list \<Rightarrow> TensorType \<Rightarrow> int \<Rightarrow> f32 list option" where
  "Dequantize fma data tensorType n =
     (if tensorType = TensorTypeF32 then DequantizeF32 data n
      else if tensorType = TensorTypeF16 then DequantizeF16 data n
      else if tensorType = TensorTypeBF16 then DequantizeBF16 data n
      else if tensorType = TensorTypeQ4_0 then DequantizeQ4_0 data n
      else if tensorType = TensorTypeQ5_0 then DequantizeQ5_0 data n
      else if tensorType = TensorTypeQ5_1 then DequantizeQ5_1 fma data n
      else if tensorType = TensorTypeQ8_0 then DequantizeQ8_0 data n
      else if tensorType = TensorTypeQ6_K then DequantizeQ6_K data n
      else if tensorType = TensorTypeQ4_K then DequantizeQ4_K fma data n
      else if tensorType = TensorTypeQ5_K then DequantizeQ5_K fma data n
      else make_slice n 0)"

end
