(* ===== verification/Half_Float.thy ===== *)
theory Half_Float
  imports Dequant
begin

text \<open>
  The conversion of half-precision floats is exact: the value of a half-precision pattern in units of its
  smallest subnormal (\<open>2 ^ -24\<close>), and the proof that the loop of the code normalizes a subnormal.
\<close>

unbundle bit_operations_syntax

definition f16_neg :: "16 word \<Rightarrow> bool" where
  "f16_neg h = (2 ^ 15 \<le> uint h)"

definition f16_exp :: "16 word \<Rightarrow> int" where
  "f16_exp h = uint h div 2 ^ 10 mod 2 ^ 5"

definition f16_frac :: "16 word \<Rightarrow> int" where
  "f16_frac h = uint h mod 2 ^ 10"

definition f16_abs :: "16 word \<Rightarrow> int" where
  "f16_abs h = (if f16_exp h = 0 then f16_frac h else (2 ^ 10 + f16_frac h) * 2 ^ nat (f16_exp h - 1))"

definition f16_val :: "16 word \<Rightarrow> int" where
  "f16_val h = (if f16_neg h then - f16_abs h else f16_abs h)"

definition f16_finite :: "16 word \<Rightarrow> bool" where
  "f16_finite h = (f16_exp h < 31)"

text \<open>The float with the value of a half; \<open>2 ^ 125\<close> is the quotient of the two units.\<close>

definition f32_of_f16 :: "16 word \<Rightarrow> f32" where
  "f32_of_f16 h =
     f32_pack (f16_neg h)
       (if f16_finite h then mag_round (f16_abs h * 2 ^ 125) 1 else 0x7F800000 + f16_frac h * 2 ^ 13)"

section \<open>Bit fields\<close>

lemma or_add_int:
  fixes a b :: int
  assumes "0 \<le> b" "b < 2 ^ n"
  shows "push_bit n a OR b = a * 2 ^ n + b"
proof -
  have "push_bit n a OR b = concat_bit n b a"
    using assms by (simp add: concat_bit_def take_bit_int_eq_self or.commute)
  also have "\<dots> = b + push_bit n a"
    using assms by (simp add: concat_bit_eq take_bit_int_eq_self)
  finally show ?thesis by (simp add: push_bit_eq_mult)
qed

lemma or_push_add:
  fixes a b :: int
  assumes "0 \<le> b" "b < 2 ^ n"
  shows "b OR push_bit n a = b + a * 2 ^ n"
  using or_add_int [OF assms] by (simp add: or.commute)

text \<open>The fields of a pattern.\<close>

lemma f32_fields:
  fixes s e m :: int
  assumes "s \<in> {0, 1}" "0 \<le> e" "e < 256" "0 \<le> m" "m < 2 ^ 23"
  shows "push_bit 31 (word_of_int s) OR push_bit 23 (word_of_int e) OR (word_of_int m :: f32) =
    f32_pack (s = 1) (e * 2 ^ 23 + m)"
proof -
  have em: "e * 2 ^ 23 + m < 2 ^ 31"
  proof -
    have "e * 2 ^ 23 \<le> 255 * 2 ^ 23" using assms by (intro mult_right_mono) simp_all
    then show ?thesis using assms by simp
  qed
  have p: "push_bit n (word_of_int x :: f32) = word_of_int (push_bit n x)" for n x
    by (simp add: push_bit_eq_mult)
  have "push_bit 31 s OR (push_bit 23 e OR m) = s * 2 ^ 31 + (e * 2 ^ 23 + m)"
    using assms em by (subst or_add_int) (simp_all add: or_add_int)
  moreover have "push_bit 31 (word_of_int s) OR push_bit 23 (word_of_int e) OR (word_of_int m :: f32) =
      word_of_int (push_bit 31 s OR (push_bit 23 e OR m))"
    by (simp only: p or.assoc of_int_or_eq)
  ultimately show ?thesis using assms(1) by (auto simp: f32_pack_def add.commute)
qed

lemma and_low:
  "(x :: int) AND 1 = x mod 2" "x AND 3 = x mod 4" "x AND 0xF = x mod 16" "x AND 0x10 = 16 * (x div 16 mod 2)"
  "x AND 0x1F = x mod 32" "x AND 63 = x mod 64" "x AND 0x3FF = x mod 1024" "x AND 0x400 = 1024 * (x div 1024 mod 2)"
proof -
  have m: "x AND (2 ^ n - 1) = x mod 2 ^ n" for n
    using take_bit_eq_mask [of n x] by (simp add: take_bit_eq_mod mask_eq_exp_minus_1)
  show "x AND 1 = x mod 2" "x AND 3 = x mod 4" "x AND 0xF = x mod 16" "x AND 0x1F = x mod 32"
    "x AND 63 = x mod 64" "x AND 0x3FF = x mod 1024"
    using m [of 1] m [of 2] m [of 4] m [of 5] m [of 6] m [of 10] by simp_all
  have "x AND push_bit n 1 = push_bit n (take_bit 1 (drop_bit n x))" for n
    by (rule bit_eqI)
      (auto simp: bit_and_iff bit_push_bit_iff bit_take_bit_iff bit_drop_bit_eq bit_1_iff
        simp del: push_bit_of_1 simp flip: bit_0)
  from this [of 4] this [of 10]
  show "x AND 0x10 = 16 * (x div 16 mod 2)" "x AND 0x400 = 1024 * (x div 1024 mod 2)"
    by (simp_all add: push_bit_eq_mult take_bit_eq_mod drop_bit_eq_div)
qed

section \<open>The loop\<close>

lemma denorm_loop_returns:
  assumes "0 < m" "m < 2 ^ 11"
  shows "\<exists>j \<le> 10. 2 ^ 10 \<le> m * 2 ^ j \<and> m * 2 ^ j < 2 ^ 11 \<and>
    denorm_loop (word_of_int m) e = Some (word_of_int (m * 2 ^ j), e - word_of_int (int j))"
  using assms
proof (induction "nat (2 ^ 11 - m)" arbitrary: m e rule: less_induct)
  case less
  have test: "(word_of_int m :: 32 word) AND 0x400 = word_of_int (1024 * (m div 1024 mod 2))"
    by (metis and_low(8) of_int_and_eq of_int_numeral)
  show ?case
  proof (cases "2 ^ 10 \<le> m")
    case True
    then have "m div 1024 = 1" using less.prems by simp
    then have "(word_of_int m :: 32 word) AND 0x400 \<noteq> 0" by (simp add: test)
    then show ?thesis using True less.prems by (intro exI [of _ 0]) (simp add: denorm_loop.simps)
  next
    case False
    then have "(word_of_int m :: 32 word) AND 0x400 = 0" using less.prems by (simp add: test)
    then have s: "denorm_loop (word_of_int m) e = denorm_loop (word_of_int (2 * m)) (e - 1)"
      by (subst denorm_loop.simps) (simp add: push_bit_eq_mult mult.commute)
    obtain j where j: "2 ^ 10 \<le> 2 * m * 2 ^ j" "2 * m * 2 ^ j < 2 ^ 11"
        "denorm_loop (word_of_int (2 * m)) (e - 1) = Some (word_of_int (2 * m * 2 ^ j), e - 1 - word_of_int (int j))"
      using less.hyps [of "2 * m" "e - 1"] less.prems False by auto
    have "(2::int) ^ Suc j \<le> 2 * m * 2 ^ j" using less.prems by simp
    then have "(2::int) ^ Suc j < 2 ^ 11" using j(2) by (rule le_less_trans)
    then have "Suc j < 11" by (rule power_less_imp_less_exp [rotated]) simp
    then show ?thesis using j by (intro exI [of _ "Suc j"]) (simp add: s algebra_simps)
  qed
qed

section \<open>The conversion\<close>

lemma f32_ext:
  assumes "f32_neg x = f32_neg y" "f32_mag x = f32_mag y"
  shows "x = y"
proof (rule bit_word_eqI)
  fix n
  assume n: "n < LENGTH(32)"
  have "take_bit 31 x = take_bit 31 y" using assms(2) by (simp add: f32_mag_def unsigned_word_eqI)
  then have "bit x n = bit y n" if "n < 31" using that by (metis bit_take_bit_iff)
  moreover have "bit x 31 = bit y 31" using assms(1) by (simp add: f32_neg_def)
  ultimately show "bit x n = bit y n" using n by (cases "n = 31") auto
qed

text \<open>A pattern with the value of an unrounded result is that result.\<close>

lemma f32_pack_eqI:
  assumes "0 \<le> p" "p < 2 ^ 31" "mag_val (nat p) = m * 2 ^ k" "0 \<le> m" "m < 2 ^ 24" "m * 2 ^ k < 2 ^ 277"
  shows "f32_pack neg p = f32_pack neg (mag_round (m * 2 ^ k) 1)"
proof -
  note r = mag_round_exact [OF assms(4-6), of 1]
  have "nat p = nat (mag_round (m * 2 ^ k) 1)"
    using r(3) unfolding mult_1_right assms(3) [symmetric] mag_val_eq_iff by simp
  then show ?thesis
    using r assms by (intro f32_ext) (simp_all add: f32_pack_parts)
qed

lemma half_fields:
  "(ucast (drop_bit 15 h AND 1) :: 32 word) = word_of_int (if f16_neg h then 1 else 0)"
  "(ucast (drop_bit 10 h AND 0x1F) :: 32 word) = word_of_int (f16_exp h)"
  "(ucast (h AND 0x3FF) :: 32 word) = word_of_int (f16_frac h)"
proof -
  have u: "uint (x AND y) = uint x AND uint y" for x y :: "16 word" by (rule uint_and)
  have r: "0 \<le> uint h" "uint h < 2 ^ 16" using uint_lt2p [of h] by simp_all
  have d: "uint (drop_bit n h) = uint h div 2 ^ n" for n
    unfolding unsigned_drop_bit_eq using r by (simp add: take_bit_int_eq_self drop_bit_eq_div)
  have "uint h div 2 ^ 15 mod 2 = (if f16_neg h then 1 else 0)"
    using r by (auto simp: f16_neg_def)
  then show "(ucast (drop_bit 15 h AND 1) :: 32 word) = word_of_int (if f16_neg h then 1 else 0)"
    unfolding ucast_eq u d by (simp add: and_low)
  show "(ucast (drop_bit 10 h AND 0x1F) :: 32 word) = word_of_int (f16_exp h)"
    unfolding ucast_eq u d by (simp add: and_low f16_exp_def)
  show "(ucast (h AND 0x3FF) :: 32 word) = word_of_int (f16_frac h)"
    unfolding ucast_eq u by (simp add: and_low f16_frac_def)
qed

lemma half_bounds: "0 \<le> f16_exp h" "f16_exp h < 32" "0 \<le> f16_frac h" "f16_frac h < 2 ^ 10"
  by (simp_all add: f16_exp_def f16_frac_def)

lemma small_word_eq: "0 \<le> a \<Longrightarrow> a < 2 ^ 32 \<Longrightarrow> 0 \<le> b \<Longrightarrow> b < 2 ^ 32 \<Longrightarrow> (word_of_int a :: 32 word) = word_of_int b \<longleftrightarrow> a = b"
  by (simp add: word_of_int_eq_iff take_bit_int_eq_self)

lemma f16_abs_parts:
  assumes "f16_finite h"
  obtains m k where "f16_abs h = m * 2 ^ k" "0 \<le> m" "m < 2 ^ 11" "k < 30" "m \<noteq> 0 \<longrightarrow> f16_exp h = 0 \<and> k = 0 \<or> 2 ^ 10 \<le> m"
proof (cases "f16_exp h = 0")
  case True
  then show ?thesis using that [of "f16_frac h" 0] half_bounds [of h] by (simp add: f16_abs_def)
next
  case False
  have "nat (f16_exp h - 1) < 30" using assms half_bounds(1) [of h] False by (simp add: f16_finite_def)
  then show ?thesis
    using that [of "2 ^ 10 + f16_frac h" "nat (f16_exp h - 1)"] half_bounds [of h] False by (simp add: f16_abs_def)
qed

lemma f16_abs_exact:
  assumes "f16_finite h"
  obtains m k where "f16_abs h * 2 ^ 125 = m * 2 ^ k" "0 \<le> m" "m < 2 ^ 11" "k < 155"
proof -
  obtain m k where "f16_abs h = m * 2 ^ k" "0 \<le> m" "m < 2 ^ 11" "k < 30" by (rule f16_abs_parts [OF assms])
  then show thesis using that [of m "k + 125"] by (simp add: power_add)
qed

lemma f32_of_f16_pattern:
  assumes "f16_finite h" "0 \<le> p" "p < 2 ^ 31" "mag_val (nat p) = f16_abs h * 2 ^ 125"
  shows "f32_pack (f16_neg h) p = f32_of_f16 h"
proof -
  obtain m k where mk: "f16_abs h * 2 ^ 125 = m * 2 ^ k" "0 \<le> m" "m < 2 ^ 11" "k < 155" by (rule f16_abs_exact [OF assms(1)])
  have "(2::int) ^ k \<le> 2 ^ 154" using mk(4) by (intro power_increasing) simp_all
  then have "m * 2 ^ k \<le> 2 ^ 11 * 2 ^ 154" using mk by (intro mult_mono) simp_all
  then have "m * 2 ^ k < 2 ^ 277" by simp
  then show ?thesis using f32_pack_eqI [of p m k "f16_neg h"] assms mk by (simp add: f32_of_f16_def)
qed

lemma normal_pattern_value:
  assumes "1 \<le> e" "0 \<le> f" "f < 2 ^ 10"
  shows "mag_val (nat (e * 2 ^ 23 + f * 2 ^ 13)) = (2 ^ 10 + f) * 2 ^ (nat e + 12)"
proof -
  obtain e' :: nat where e: "e = int e' + 1" using assms(1) by (metis add.commute nonneg_int_cases zle_iff_zadd)
  have "nat (e * 2 ^ 23 + f * 2 ^ 13) = e' * 2 ^ 23 + nat (2 ^ 23 + f * 2 ^ 13)"
    using assms by (simp add: e algebra_simps nat_add_distrib nat_mult_distrib)
  moreover have "2 ^ 23 \<le> nat (2 ^ 23 + f * 2 ^ 13)" "nat (2 ^ 23 + f * 2 ^ 13) < 2 ^ 24"
    using assms by (simp_all add: nat_less_iff le_nat_iff)
  ultimately have "mag_val (nat (e * 2 ^ 23 + f * 2 ^ 13)) = int (nat (2 ^ 23 + f * 2 ^ 13)) * 2 ^ e'"
    using mag_val_scaled by metis
  also have "\<dots> = (2 ^ 10 + f) * 2 ^ 13 * 2 ^ e'" using assms by simp
  also have "\<dots> = (2 ^ 10 + f) * 2 ^ (nat e + 12)" by (simp add: e nat_add_distrib power_add)
  finally show ?thesis .
qed

lemma normal_pattern_small: "e < 256 \<Longrightarrow> f < 2 ^ 10 \<Longrightarrow> e * 2 ^ 23 + f * 2 ^ 13 < (2 ^ 31 :: int)"
  by simp

lemma float16ToFloat32_eq: "float16ToFloat32 h = Some (f32_of_f16 h)"
proof -
  define s :: int where "s = (if f16_neg h then 1 else 0)"
  let ?e = "f16_exp h" and ?m = "f16_frac h"
  note b = half_bounds [of h]
  have fields: "push_bit 31 (word_of_int s) OR push_bit 23 (word_of_int e) OR push_bit 13 (word_of_int m :: f32) =
      f32_pack (f16_neg h) (e * 2 ^ 23 + m * 2 ^ 13)" if "0 \<le> e" "e < 256" "0 \<le> m" "m < 2 ^ 10" for e m
  proof -
    have "push_bit 13 (word_of_int m :: f32) = word_of_int (m * 2 ^ 13)" by (simp add: push_bit_eq_mult mult.commute)
    then show ?thesis using f32_fields [of s e "m * 2 ^ 13"] that by (simp add: s_def)
  qed
  have "(word_of_int ?e :: 32 word) = 0 \<longleftrightarrow> ?e = 0" "(word_of_int ?e :: 32 word) = 0x1F \<longleftrightarrow> ?e = 31"
    "(word_of_int ?m :: 32 word) = 0 \<longleftrightarrow> ?m = 0"
    using small_word_eq [of ?e 0] small_word_eq [of ?e 31] small_word_eq [of ?m 0] b by simp_all
  note conv = float16ToFloat32_def half_fields [of h, folded s_def] this Let_def
  consider (zero) "?e = 0" "?m = 0" | (sub) "?e = 0" "0 < ?m" | (special) "?e = 31" | (normal) "0 < ?e" "?e < 31"
    using b by fastforce
  then show ?thesis
  proof cases
    case zero
    then have "float16ToFloat32 h = Some (f32_pack (f16_neg h) 0)"
      using fields [of 0 0] unfolding conv by simp
    moreover have "f32_pack (f16_neg h) 0 = f32_of_f16 h"
      using zero by (intro f32_of_f16_pattern) (simp_all add: f16_finite_def f16_abs_def)
    ultimately show ?thesis by simp
  next
    case special
    then show ?thesis using fields [of 255 ?m] b by (simp add: conv f32_of_f16_def f16_finite_def)
  next
    case normal
    have "(word_of_int ?e + 127 - 15 :: 32 word) = word_of_int (?e + 112)" by simp
    then have "float16ToFloat32 h = Some (f32_pack (f16_neg h) ((?e + 112) * 2 ^ 23 + ?m * 2 ^ 13))"
      using normal fields [of "?e + 112" ?m] b unfolding conv by (simp add: add.commute)
    moreover have "f32_pack (f16_neg h) ((?e + 112) * 2 ^ 23 + ?m * 2 ^ 13) = f32_of_f16 h"
    proof (intro f32_of_f16_pattern normal_pattern_small)
      have "nat (?e + 112) + 12 = nat (?e - 1) + 125" using normal by simp
      then have p: "(2::int) ^ (nat (?e + 112) + 12) = 2 ^ nat (?e - 1) * 2 ^ 125" by (simp only: power_add)
      show "mag_val (nat ((?e + 112) * 2 ^ 23 + ?m * 2 ^ 13)) = f16_abs h * 2 ^ 125"
        using normal b normal_pattern_value [of "?e + 112" ?m] unfolding p f16_abs_def by simp
    qed (use normal b in \<open>simp_all add: f16_finite_def\<close>)
    ultimately show ?thesis by simp
  next
    case sub
    obtain j where j: "j \<le> 10" "2 ^ 10 \<le> ?m * 2 ^ j" "?m * 2 ^ j < 2 ^ 11"
      and l: "denorm_loop (word_of_int ?m) 113 = Some (word_of_int (?m * 2 ^ j), 113 - word_of_int (int j))"
      using denorm_loop_returns [of ?m 113] sub b by auto
    have "?m * 2 ^ j div 2 ^ 10 = 1" using j by simp
    then have md: "?m * 2 ^ j mod 1024 = ?m * 2 ^ j - 2 ^ 10" by (simp add: minus_div_mult_eq_mod [symmetric])
    have "(word_of_int (?m * 2 ^ j) AND 0x3FF :: 32 word) = word_of_int (?m * 2 ^ j - 2 ^ 10)"
      by (metis and_low(7) md of_int_and_eq of_int_numeral)
    moreover have "(113 - word_of_int (int j) :: 32 word) = word_of_int (113 - int j)" by simp
    ultimately have "float16ToFloat32 h = Some (f32_pack (f16_neg h) ((113 - int j) * 2 ^ 23 + (?m * 2 ^ j - 2 ^ 10) * 2 ^ 13))"
      using sub j l fields [of "113 - int j" "?m * 2 ^ j - 2 ^ 10"] unfolding conv
      by (simp del: push_bit_and)
    moreover have "f32_pack (f16_neg h) ((113 - int j) * 2 ^ 23 + (?m * 2 ^ j - 2 ^ 10) * 2 ^ 13) = f32_of_f16 h"
    proof (intro f32_of_f16_pattern normal_pattern_small)
      have "nat (113 - int j) + 12 + j = 125" using j by simp
      then have "(2::int) ^ j * 2 ^ (nat (113 - int j) + 12) = 2 ^ 125" by (metis add.commute power_add)
      then show "mag_val (nat ((113 - int j) * 2 ^ 23 + (?m * 2 ^ j - 2 ^ 10) * 2 ^ 13)) = f16_abs h * 2 ^ 125"
        using sub j normal_pattern_value [of "113 - int j" "?m * 2 ^ j - 2 ^ 10"]
        by (simp add: f16_abs_def mult.assoc)
    qed (use sub j in \<open>simp_all add: f16_finite_def\<close>)
    ultimately show ?thesis by simp
  qed
qed

section \<open>Exact products\<close>

text \<open>The scaled significand stays in range.\<close>

lemma f16_abs_scaled:
  assumes "f16_finite h"
  obtains m k where "f16_abs h * 2 ^ 125 = m * 2 ^ k" "0 \<le> m" "m < 2 ^ 11" "\<forall>q. 0 \<le> q \<and> q < 2 ^ 13 \<longrightarrow> (m * q) * 2 ^ k < 2 ^ 277"
proof -
  obtain m k where mk: "f16_abs h * 2 ^ 125 = m * 2 ^ k" "0 \<le> m" "m < 2 ^ 11" "k < 155" by (rule f16_abs_exact [OF assms])
  have "(m * q) * 2 ^ k < 2 ^ 277" if "0 \<le> q" "q < 2 ^ 13" for q
  proof -
    have "(2::int) ^ k \<le> 2 ^ 154" using mk(4) by (intro power_increasing) simp_all
    moreover have "m * q \<le> 2 ^ 11 * 2 ^ 13" using mk that by (intro mult_mono) simp_all
    ultimately have "(m * q) * 2 ^ k \<le> (2 ^ 11 * 2 ^ 13) * 2 ^ 154" using mk that by (intro mult_mono) simp_all
    then show ?thesis by simp
  qed
  then show thesis using that mk by blast
qed

lemma f32_of_f16_value:
  assumes "f16_finite h"
  shows "f32_finite (f32_of_f16 h)" "f32_val (f32_of_f16 h) = f16_val h * 2 ^ 125" "f32_neg (f32_of_f16 h) = f16_neg h"
proof -
  obtain m k where mk: "f16_abs h * 2 ^ 125 = m * 2 ^ k" "0 \<le> m" "m < 2 ^ 11" "\<forall>q. 0 \<le> q \<and> q < 2 ^ 13 \<longrightarrow> (m * q) * 2 ^ k < 2 ^ 277"
    by (rule f16_abs_scaled [OF assms])
  have r: "m * 2 ^ k < 2 ^ 277" "m < 2 ^ 24" using mk(4) [rule_format, of 1] mk(3) by simp_all
  note p = f32_pack_exact [OF mk(2) r(2,1), of 1 "f16_neg h"]
  have e: "f32_of_f16 h = f32_pack (f16_neg h) (mag_round (m * 2 ^ k * 1) 1)"
    unfolding f32_of_f16_def mk(1) using assms by simp
  show "f32_finite (f32_of_f16 h)" unfolding e using p by simp
  have "f16_val h * 2 ^ 125 = (if f16_neg h then - (m * 2 ^ k) else m * 2 ^ k)"
    using mk(1) by (simp add: f16_val_def)
  then show "f32_val (f32_of_f16 h) = f16_val h * 2 ^ 125" unfolding e using p by simp
  show "f32_neg (f32_of_f16 h) = f16_neg h"
    unfolding e using mag_round_exact [OF mk(2) r(2,1), of 1] by (intro f32_pack_parts) simp_all
qed

lemma f32_of_int_value:
  assumes "\<bar>n\<bar> < 2 ^ 24"
  shows "f32_finite (f32_of_int n)" "f32_val (f32_of_int n) = n * 2 ^ 149" "f32_neg (f32_of_int n) = (n < 0)"
proof -
  have r: "0 \<le> \<bar>n\<bar>" "\<bar>n\<bar> * 2 ^ 149 < 2 ^ 277" using assms by simp_all
  note p = f32_pack_exact [OF r(1) assms r(2), of 1 "n < 0"]
  show "f32_finite (f32_of_int n)" "f32_val (f32_of_int n) = n * 2 ^ 149"
    using p by (simp_all add: f32_of_int_def)
  show "f32_neg (f32_of_int n) = (n < 0)"
    unfolding f32_of_int_def using mag_round_exact [OF r(1) assms r(2), of 1] by (intro f32_pack_parts) simp_all
qed

lemma f32_finite_not: "f32_finite x \<Longrightarrow> \<not> f32_nan x \<and> \<not> f32_inf x"
  by (simp add: f32_finite_def f32_nan_def f32_inf_def)

text \<open>A half times a small integer has few enough bits.\<close>

lemma half_times_int:
  assumes h: "f16_finite h" and q: "\<bar>q\<bar> < 2 ^ 13"
  shows "f32_val (f32_mul (f32_of_f16 h) (f32_of_int q)) = f16_val h * q * 2 ^ 125"
    and "f32_val (f32_mul (f32_of_int q) (f32_of_f16 h)) = f16_val h * q * 2 ^ 125"
proof -
  obtain m k where mk: "f16_abs h * 2 ^ 125 = m * 2 ^ k" "0 \<le> m" "m < 2 ^ 11" "\<forall>q. 0 \<le> q \<and> q < 2 ^ 13 \<longrightarrow> (m * q) * 2 ^ k < 2 ^ 277"
    by (rule f16_abs_scaled [OF h])
  have q24: "\<bar>q\<bar> < 2 ^ 24" using q by simp
  note vh = f32_of_f16_value [OF h] and vq = f32_of_int_value [OF q24]
  note ok = f32_finite_not [OF vh(1)] f32_finite_not [OF vq(1)]
  have a0: "0 \<le> f16_abs h" using half_bounds [of h] by (simp add: f16_abs_def)
  have prod: "\<bar>f16_val h * 2 ^ 125\<bar> * \<bar>q * 2 ^ 149\<bar> = m * \<bar>q\<bar> * 2 ^ k * 2 ^ 149"
    using mk(1) a0 by (simp add: f16_val_def abs_mult mult_ac)
  have r: "0 \<le> m * \<bar>q\<bar>" "m * \<bar>q\<bar> * 2 ^ k < 2 ^ 277" using mk q by simp_all
  have "m * \<bar>q\<bar> \<le> 2 ^ 11 * \<bar>q\<bar>" using mk by (intro mult_right_mono) simp_all
  then have b: "m * \<bar>q\<bar> < 2 ^ 24" using q by simp
  note p = f32_pack_exact [OF r(1) b r(2), of "2 ^ 149"]
  have neg: "(if f16_neg h \<noteq> (q < 0) then - (m * \<bar>q\<bar> * 2 ^ k) else m * \<bar>q\<bar> * 2 ^ k) = f16_val h * q * 2 ^ 125"
    using mk(1) by (cases "q < 0") (auto simp: f16_val_def mult_ac)
  show "f32_val (f32_mul (f32_of_f16 h) (f32_of_int q)) = f16_val h * q * 2 ^ 125"
    unfolding f32_mul_def Let_def vh vq prod using ok p neg by simp
  have swap: "(q < 0) \<noteq> f16_neg h \<longleftrightarrow> f16_neg h \<noteq> (q < 0)" by auto
  show "f32_val (f32_mul (f32_of_int q) (f32_of_f16 h)) = f16_val h * q * 2 ^ 125"
    unfolding f32_mul_def Let_def vh vq swap mult.commute [of "\<bar>q * 2 ^ 149\<bar>"] prod using ok p neg by simp
qed

end
