(* ===== verification/Block_Format.thy ===== *)
theory Block_Format
  imports Half_Float
begin

text \<open>
  Code that fills a part of a slice, and the loop over the blocks of a quantized tensor: the locale
  \<open>block_format\<close> states what the body of the loop has to do for one block and derives the result of the
  whole loop, with its early exit at an incomplete block.
\<close>

unbundle bit_operations_syntax

section \<open>Code that fills a part of the result\<close>

text \<open>\<open>fills g n K f\<close>: on every slice of length \<open>n\<close> the code \<open>f\<close> returns, sets the elements in \<open>K\<close> to \<open>g\<close> and keeps the others.\<close>

definition fills :: "(nat \<Rightarrow> 'a) \<Rightarrow> nat \<Rightarrow> nat set \<Rightarrow> ('a list \<Rightarrow> 'a list option) \<Rightarrow> bool" where
  "fills g n K f =
     (\<forall>r. length r = n \<longrightarrow>
        (\<exists>r'. f r = Some r' \<and> length r' = n \<and> (\<forall>k < n. r' ! k = (if k \<in> K then g k else r ! k))))"

lemma fillsD:
  assumes "fills g n K f" "length r = n"
  obtains r' where "f r = Some r'" "length r' = n" "\<And>k. k < n \<Longrightarrow> r' ! k = (if k \<in> K then g k else r ! k)"
  using assms unfolding fills_def by blast

lemma fills_put: "0 \<le> k \<Longrightarrow> v = g (nat k) \<Longrightarrow> fills g n {nat k} (put (int n) k v)"
  by (auto simp: fills_def put_def upd_def len_def nth_list_update zless_nat_eq_int_zless)

lemma fills_upd: "k < n \<Longrightarrow> v = g k \<Longrightarrow> fills g n {k} (\<lambda>r. upd r (int k) v)"
  by (auto simp: fills_def nth_list_update)

lemma fills_seq:
  assumes "fills g n K f" "fills g n L h"
  shows "fills g n (K \<union> L) (\<lambda>r. do { r \<leftarrow> f r; h r })"
  unfolding fills_def
proof (intro allI impI)
  fix r :: "'a list"
  assume n: "length r = n"
  obtain r1 where 1: "f r = Some r1" "length r1 = n" "\<And>k. k < n \<Longrightarrow> r1 ! k = (if k \<in> K then g k else r ! k)"
    using assms(1) n by (rule fillsD) blast
  obtain r2 where 2: "h r1 = Some r2" "length r2 = n" "\<And>k. k < n \<Longrightarrow> r2 ! k = (if k \<in> L then g k else r1 ! k)"
    using assms(2) 1(2) by (rule fillsD) blast
  show "\<exists>r'. (do { r \<leftarrow> f r; h r }) = Some r' \<and> length r' = n \<and>
      (\<forall>k < n. r' ! k = (if k \<in> K \<union> L then g k else r ! k))"
    using 1 2 by auto
qed

lemma fills_skip: "fills g n {} Some"
  by (simp add: fills_def)

lemma fills_foldM:
  assumes "\<And>x. x \<in> set xs \<Longrightarrow> fills g n (K x) (f x)"
  shows "fills g n (\<Union>x \<in> set xs. K x) (foldM f xs)"
  using assms
proof (induction xs)
  case Nil
  then show ?case by (simp add: fills_def)
next
  case (Cons x xs)
  have "fills g n (K x \<union> (\<Union>x \<in> set xs. K x)) (\<lambda>r. do { r \<leftarrow> f x r; foldM f xs r })"
    using Cons by (intro fills_seq) simp_all
  then show ?case by (simp add: fills_def)
qed

lemma fills_eq: "fills g n K f \<Longrightarrow> K = L \<Longrightarrow> fills g n L f"
  by simp

section \<open>Formats\<close>

definition nth_block :: "nat \<Rightarrow> byte list \<Rightarrow> nat \<Rightarrow> byte list" where
  "nth_block bpb data b = take bpb (drop (b * bpb) data)"

text \<open>The element \<open>k\<close> of the data, 0 where its block is incomplete.\<close>

definition block_elem :: "nat \<Rightarrow> nat \<Rightarrow> (byte list \<Rightarrow> nat \<Rightarrow> f32) \<Rightarrow> byte list \<Rightarrow> nat \<Rightarrow> f32" where
  "block_elem bs bpb elem data k =
     (if (k div bs + 1) * bpb \<le> length data then elem (nth_block bpb data (k div bs)) (k mod bs) else 0)"

lemma upto_int: "[int b..int m - 1] = map int [b..<m]"
proof (induction "m - b" arbitrary: b)
  case 0
  then show ?case by simp
next
  case (Suc d)
  then have "b < m" by simp
  have "[int b..int m - 1] = int b # [int (Suc b)..int m - 1]"
    using \<open>b < m\<close> by (subst upto.simps) (simp add: add.commute)
  also have "\<dots> = map int (b # [Suc b..<m])" using Suc.hyps(1) [of "Suc b"] Suc.hyps(2) by simp
  also have "b # [Suc b..<m] = [b..<m]" using \<open>b < m\<close> by (simp add: upt_conv_Cons)
  finally show ?case .
qed

locale block_format =
  fixes bs bpb :: nat
    and body :: "byte list \<Rightarrow> int \<Rightarrow> int \<Rightarrow> f32 list \<Rightarrow> f32 list option"
    and elem :: "byte list \<Rightarrow> nat \<Rightarrow> f32"
  assumes sizes: "0 < bs" "0 < bpb"
    and body_fills: "(b + 1) * bpb \<le> length data \<Longrightarrow> b * bs < n \<Longrightarrow>
      fills (\<lambda>k. elem (nth_block bpb data (k div bs)) (k mod bs)) n {k. k div bs = b} (body data (int n) (int b))"
begin

lemma block_loop_elems:
  assumes "length r = n" "m * bs < n + bs"
  shows "\<exists>r'. block_loop (int bpb) (body data (int n)) data (map int [b..<m]) r = Some r' \<and> length r' = n \<and>
    (\<forall>k < n. r' ! k =
       (if b \<le> k div bs \<and> k div bs < m \<and> (k div bs + 1) * bpb \<le> length data
        then elem (nth_block bpb data (k div bs)) (k mod bs) else r ! k))"
  using assms
proof (induction "m - b" arbitrary: b r)
  case 0
  then show ?case by auto
next
  case (Suc d)
  then have b: "b < m" by simp
  then have u: "[b..<m] = b # [Suc b..<m]" by (simp add: upt_conv_Cons)
  have g: "int b * int bpb + int bpb > len data \<longleftrightarrow> \<not> (b + 1) * bpb \<le> length data"
    by (simp add: len_def not_le add.commute flip: of_nat_add of_nat_mult)
  show ?case
  proof (cases "(b + 1) * bpb \<le> length data")
    case False
    have "\<not> (c + 1) * bpb \<le> length data" if "b \<le> c" for c
    proof -
      have "(b + 1) * bpb \<le> (c + 1) * bpb" using that by (intro mult_le_mono1) simp
      then show ?thesis using False by linarith
    qed
    then show ?thesis using False Suc.prems g by (auto simp: u)
  next
    case True
    have "(b + 1) * bs \<le> m * bs" using b by (intro mult_le_mono1) simp
    then have "b * bs < n" using Suc.prems by simp
    from body_fills [OF True this] obtain r1 where 1: "body data (int n) (int b) r = Some r1" "length r1 = n"
      "\<And>k. k < n \<Longrightarrow> r1 ! k = (if k \<in> {k. k div bs = b} then elem (nth_block bpb data (k div bs)) (k mod bs) else r ! k)"
      using Suc.prems(1) by (rule fillsD) blast
    have "d = m - Suc b" using Suc.hyps(2) by simp
    from Suc.hyps(1) [OF this 1(2) Suc.prems(2)] obtain r' where
      r': "block_loop (int bpb) (body data (int n)) data (map int [Suc b..<m]) r1 = Some r'" "length r' = n"
      "\<forall>k < n. r' ! k = (if Suc b \<le> k div bs \<and> k div bs < m \<and> (k div bs + 1) * bpb \<le> length data
        then elem (nth_block bpb data (k div bs)) (k mod bs) else r1 ! k)"
      by blast
    have "r' ! k = (if b \<le> k div bs \<and> k div bs < m \<and> (k div bs + 1) * bpb \<le> length data
        then elem (nth_block bpb data (k div bs)) (k mod bs) else r ! k)" if "k < n" for k
      using r'(3) 1(3) that True b by (cases "k div bs = b") auto
    moreover have "block_loop (int bpb) (body data (int n)) data (map int [b..<m]) r = Some r'"
      using r'(1) 1(1) True g by (simp add: u)
    ultimately show ?thesis using r'(2) by blast
  qed
qed

lemma blocks_elems:
  assumes "m * bs < n + bs" "n \<le> m * bs"
  shows "block_loop (int bpb) (body data (int n)) data [0..int m - 1] (replicate n 0) =
    Some (map (block_elem bs bpb elem data) [0..<n])"
proof -
  obtain r' where r: "block_loop (int bpb) (body data (int n)) data (map int [0..<m]) (replicate n 0) = Some r'" "length r' = n"
    "\<forall>k < n. r' ! k = (if 0 \<le> k div bs \<and> k div bs < m \<and> (k div bs + 1) * bpb \<le> length data
      then elem (nth_block bpb data (k div bs)) (k mod bs) else replicate n 0 ! k)"
    using block_loop_elems [OF length_replicate assms(1)] by blast
  have "k div bs < m" if "k < n" for k
    using that assms(2) sizes by (simp add: div_less_iff_less_mult)
  then have "r' = map (block_elem bs bpb elem data) [0..<n]"
    using r(2,3) by (intro nth_equalityI) (simp_all add: block_elem_def)
  then show ?thesis using r(1) upto_int [of 0 m] by simp
qed

lemma dequant_blocks_elems:
  "dequant_blocks (int bs) (int bpb) (body data (int n)) data (int n) = Some (map (block_elem bs bpb elem data) [0..<n])"
proof -
  define m where "m = (n + bs - 1) div bs"
  have e: "int n + int bs - 1 = int (n + bs - 1)" using sizes by simp
  have g: "go_div (int n + int bs - 1) (int bs) = Some (int m)"
    unfolding e m_def zdiv_int using sizes by (intro go_div_pos) simp_all
  have "n + bs - 1 = m * bs + (n + bs - 1) mod bs" by (simp add: m_def)
  moreover have "(n + bs - 1) mod bs < bs" using sizes by simp
  ultimately have "m * bs < n + bs" "n \<le> m * bs" using sizes by linarith+
  then show ?thesis using blocks_elems [of m n data] by (simp add: dequant_blocks_def g make_slice_def)
qed

lemma dequant_single_elems:
  assumes "bs = 1"
  shows "(do { r \<leftarrow> make_slice (int n) 0; block_loop (int bpb) (body data (int n)) data [0..int n - 1] r }) =
    Some (map (block_elem 1 bpb elem data) [0..<n])"
  using blocks_elems [of n n data] by (simp add: assms make_slice_def)

end

text \<open>A read inside a complete block.\<close>

lemma idx_block:
  assumes "(b + 1) * bpb \<le> length data" "c < bpb"
  shows "idx data (int b * int bpb + int c) = Some (nth_block bpb data b ! c)"
proof -
  have i: "int b * int bpb + int c = int (b * bpb + c)" by simp
  have "b * bpb + c < length data" using assms by simp
  then show ?thesis unfolding i nth_block_def using assms by (simp only: idx_of_nat) simp
qed

end
