(* ===== verification/Dequant_Props.thy ===== *)
theory Dequant_Props
  imports Block_Format
begin

text \<open>
  The formats of quantized tensors: the value of every element by plain arithmetic on the bytes of its block,
  and the proof that the body of every dequantizer computes it. Every format is an interpretation of
  \<open>block_format\<close>.
\<close>

unbundle bit_operations_syntax

section \<open>The bytes of a block\<close>

definition byte_at :: "byte list \<Rightarrow> nat \<Rightarrow> int" where
  "byte_at B k = uint (B ! k)"

definition half_at :: "byte list \<Rightarrow> nat \<Rightarrow> f32" where
  "half_at B k = f32_of_f16 (word_of_int (byte_at B k + 2 ^ 8 * byte_at B (k + 1)))"

definition quad_at :: "byte list \<Rightarrow> nat \<Rightarrow> int" where
  "quad_at B k = byte_at B k + 2 ^ 8 * byte_at B (k + 1) + 2 ^ 16 * byte_at B (k + 2) + 2 ^ 24 * byte_at B (k + 3)"

lemma uint_byte: "0 \<le> uint (x :: byte)" "uint (x :: byte) < 256"
  using uint_lt2p [of x] by simp_all

lemma idx_block_int:
  assumes "(b + 1) * bpb \<le> length data" "0 \<le> c" "c < int bpb"
  shows "idx data (int b * int bpb + c) = Some (nth_block bpb data b ! nat c)"
  using idx_block [OF assms(1), of "nat c"] assms(2,3) by simp

lemma word_or_push:
  fixes a b :: int
  assumes "0 \<le> a" "a < 2 ^ n"
  shows "(word_of_int a :: 'a::len word) OR push_bit n (word_of_int b) = word_of_int (a + 2 ^ n * b)"
proof -
  have "push_bit n (word_of_int b :: 'a word) = word_of_int (push_bit n b)" by (simp add: push_bit_eq_mult)
  then have "(word_of_int a :: 'a word) OR push_bit n (word_of_int b) = word_of_int (a OR push_bit n b)"
    by (simp only: of_int_or_eq)
  then show ?thesis using or_push_add [OF assms, of b] by (simp only: mult.commute)
qed

lemma u16_at_block:
  assumes "(b + 1) * bpb \<le> length data" "c + 1 < bpb"
  shows "u16_at data (int b * int bpb + int c) =
    Some (word_of_int (byte_at (nth_block bpb data b) c + 2 ^ 8 * byte_at (nth_block bpb data b) (c + 1)))"
proof -
  have e: "int b * int bpb + int c + 1 = int b * int bpb + int (c + 1)" by simp
  have i: "idx data (int b * int bpb + int c) = Some (nth_block bpb data b ! c)"
    "idx data (int b * int bpb + int c + 1) = Some (nth_block bpb data b ! (c + 1))"
    unfolding e using assms by (intro idx_block; simp)+
  have "ucast (nth_block bpb data b ! c) OR push_bit 8 (ucast (nth_block bpb data b ! (c + 1))) =
      (word_of_int (byte_at (nth_block bpb data b) c + 2 ^ 8 * byte_at (nth_block bpb data b) (c + 1)) :: 16 word)"
    unfolding ucast_eq byte_at_def by (rule word_or_push) (use uint_byte in simp_all)
  then show ?thesis unfolding u16_at_def i by (simp only: Option.bind.simps)
qed

lemma f16_at_block:
  assumes "(b + 1) * bpb \<le> length data" "c + 1 < bpb"
  shows "f16_at data (int b * int bpb + int c) = Some (half_at (nth_block bpb data b) c)"
  unfolding f16_at_def u16_at_block [OF assms] half_at_def by (simp only: Option.bind.simps float16ToFloat32_eq)

lemma u32_of_bytes:
  "(ucast b0 OR push_bit 8 (ucast b1) OR push_bit 16 (ucast b2) OR push_bit 24 (ucast b3) :: 32 word) =
    word_of_int (uint b0 + 2 ^ 8 * uint b1 + 2 ^ 16 * uint b2 + 2 ^ 24 * uint b3)" for b0 b1 b2 b3 :: byte
proof -
  note b = uint_byte [of b0] uint_byte [of b1] uint_byte [of b2]
  show ?thesis
    unfolding ucast_eq
    using b word_or_push [of "uint b0" 8 "uint b1", where 'a = 32]
      word_or_push [of "uint b0 + 2 ^ 8 * uint b1" 16 "uint b2", where 'a = 32]
      word_or_push [of "uint b0 + 2 ^ 8 * uint b1 + 2 ^ 16 * uint b2" 24 "uint b3", where 'a = 32]
    by (simp flip: or.assoc)
qed

lemma u32_at_block:
  assumes "(b + 1) * bpb \<le> length data" "c + 3 < bpb"
  shows "u32_at data (int b * int bpb + int c) = Some (word_of_int (quad_at (nth_block bpb data b) c))"
proof -
  have e: "int b * int bpb + int c + int d = int b * int bpb + int (c + d)" for d by simp
  have i: "idx data (int b * int bpb + int c + int d) = Some (nth_block bpb data b ! (c + d))" if "d \<le> 3" for d
    unfolding e using assms that by (intro idx_block) simp_all
  show ?thesis
    using i [of 0] i [of 1] i [of 2] i [of 3]
    by (simp add: u32_at_def quad_at_def byte_at_def u32_of_bytes)
qed

text \<open>The bit operations of the code on bytes.\<close>

lemma byte_ops:
  fixes x :: byte
  shows "uint (x AND 0x0F) = uint x mod 16" "uint (x AND 63) = uint x mod 64" "uint (drop_bit n x) = uint x div 2 ^ n"
proof -
  show "uint (x AND 0x0F) = uint x mod 16" "uint (x AND 63) = uint x mod 64"
    unfolding uint_and by (simp_all add: and_low)
  show "uint (drop_bit n x) = uint x div 2 ^ n"
    unfolding unsigned_drop_bit_eq using uint_byte [of x] by (simp add: take_bit_int_eq_self drop_bit_eq_div)
qed

section \<open>The element values of the formats\<close>

definition q4_0_elem :: "byte list \<Rightarrow> nat \<Rightarrow> f32" where
  "q4_0_elem B i =
     f32_mul (half_at B 0)
       (f32_of_int ((if i < 16 then byte_at B (2 + i) mod 16 else byte_at B (2 + (i - 16)) div 16) - 8))"

definition q8_0_elem :: "byte list \<Rightarrow> nat \<Rightarrow> f32" where
  "q8_0_elem B i = f32_mul (half_at B 0) (f32_of_int (sint (B ! (2 + i))))"

text \<open>Five bits: a nibble of the bytes at \<open>qs\<close> and bit \<open>i\<close> of the 32 at \<open>qh\<close>.\<close>

definition q5_bits :: "byte list \<Rightarrow> nat \<Rightarrow> nat \<Rightarrow> nat \<Rightarrow> int" where
  "q5_bits B qh qs i =
     (if i < 16 then byte_at B (qs + i) mod 16 else byte_at B (qs + (i - 16)) div 16)
     + 16 * (quad_at B qh div 2 ^ i mod 2)"

definition q5_0_elem :: "byte list \<Rightarrow> nat \<Rightarrow> f32" where
  "q5_0_elem B i = f32_mul (f32_of_int (q5_bits B 2 6 i - 16)) (half_at B 0)"

definition q5_1_elem :: "bool \<Rightarrow> byte list \<Rightarrow> nat \<Rightarrow> f32" where
  "q5_1_elem fma B i = f32_mul_add fma (f32_of_int (q5_bits B 4 8 i)) (half_at B 0) (half_at B 2)"

definition q6_k_elem :: "byte list \<Rightarrow> nat \<Rightarrow> f32" where
  "q6_k_elem B i =
     (let n = i div 128; l = i mod 32; quarter = i mod 128 div 32;
          lo = byte_at B (64 * n + l + 32 * (quarter mod 2));
          lo4 = (if quarter < 2 then lo mod 16 else lo div 16);
          hi2 = byte_at B (128 + 32 * n + l) div 4 ^ quarter mod 4;
          sc = sint (B ! (192 + 8 * n + l div 16 + 2 * quarter))
      in f32_mul (f32_mul (half_at B 208) (f32_of_int sc)) (f32_of_int (lo4 + 16 * hi2 - 32)))"

text \<open>The 6-bit scale and minimum of sub-block \<open>j\<close>, packed in 12 bytes from the fourth on.\<close>

definition k4_scale :: "byte list \<Rightarrow> nat \<Rightarrow> int" where
  "k4_scale B j =
     (if j < 4 then byte_at B (4 + j) mod 64
      else byte_at B (8 + j) mod 16 + 16 * (byte_at B j div 64))"

definition k4_min :: "byte list \<Rightarrow> nat \<Rightarrow> int" where
  "k4_min B j =
     (if j < 4 then byte_at B (8 + j) mod 64
      else byte_at B (8 + j) div 16 + 16 * (byte_at B (4 + j) div 64))"

definition k4_value :: "bool \<Rightarrow> byte list \<Rightarrow> nat \<Rightarrow> int \<Rightarrow> f32" where
  "k4_value fma B sub q =
     f32_mul_sub fma (f32_mul (half_at B 0) (f32_of_int (k4_scale B sub))) (f32_of_int q)
       (f32_mul (half_at B 2) (f32_of_int (k4_min B sub)))"

definition k_nibble :: "byte list \<Rightarrow> nat \<Rightarrow> nat \<Rightarrow> int" where
  "k_nibble B qs i =
     (let q = byte_at B (qs + 32 * (i div 64) + i mod 32) in if even (i div 32) then q mod 16 else q div 16)"

definition q4_k_elem :: "bool \<Rightarrow> byte list \<Rightarrow> nat \<Rightarrow> f32" where
  "q4_k_elem fma B i = k4_value fma B (i div 32) (k_nibble B 16 i)"

definition q5_k_elem :: "bool \<Rightarrow> byte list \<Rightarrow> nat \<Rightarrow> f32" where
  "q5_k_elem fma B i =
     k4_value fma B (i div 32) (k_nibble B 48 i + 16 * (byte_at B (16 + i mod 32) div 2 ^ (i div 32) mod 2))"

definition f16_elem :: "byte list \<Rightarrow> nat \<Rightarrow> f32" where
  "f16_elem B i = half_at B 0"

definition bf16_elem :: "byte list \<Rightarrow> nat \<Rightarrow> f32" where
  "bf16_elem B i = word_of_int (2 ^ 16 * (byte_at B 0 + 2 ^ 8 * byte_at B 1))"

definition f32_elem :: "byte list \<Rightarrow> nat \<Rightarrow> f32" where
  "f32_elem B i = word_of_int (quad_at B 0)"

section \<open>Blocks of 32 elements\<close>

lemma half_block_loop:
  assumes "\<And>i. i < 16 \<Longrightarrow> fills g n {b * 32 + i, b * 32 + i + 16} (step (int i))"
  shows "fills g n {k. k div 32 = b} (foldM step [0..15])"
proof (rule fills_eq)
  have "fills g n {b * 32 + nat x, b * 32 + nat x + 16} (step x)" if "x \<in> set [0..15]" for x
    using assms [of "nat x"] that by (simp add: nat_less_iff)
  then show "fills g n (\<Union>x \<in> set [0..15]. {b * 32 + nat x, b * 32 + nat x + 16}) (foldM step [0..15])"
    by (rule fills_foldM)
  show "(\<Union>x \<in> set [0..15]. {b * 32 + nat x, b * 32 + nat x + 16}) = {k. k div 32 = b}" (is "?L = ?R")
  proof (intro set_eqI iffI)
    fix k
    assume "k \<in> ?R"
    then have k: "k = b * 32 + k mod 32" by auto
    show "k \<in> ?L"
    proof (cases "k mod 32 < 16")
      case True
      then show ?thesis using k by (intro UN_I [of "int (k mod 32)"]) auto
    next
      case False
      then have "nat (int (k mod 32) - 16) = k mod 32 - 16" by simp
      moreover have "k mod 32 < 32" by simp
      ultimately show ?thesis using k False by (intro UN_I [of "int (k mod 32) - 16"]) auto
    qed
  qed auto
qed

lemma two_puts:
  assumes "v = g (b * 32 + i)" "w = g (b * 32 + i + 16)"
  shows "fills g n {b * 32 + i, b * 32 + i + 16}
    (\<lambda>r. do { r \<leftarrow> put (int n) (int b * 32 + int i) v r; put (int n) (int b * 32 + int i + 16) w r })"
proof -
  have "nat (int b * 32 + int i) = b * 32 + i" "nat (int b * 32 + int i + 16) = b * 32 + i + 16" by simp_all
  then have "fills g n ({b * 32 + i} \<union> {b * 32 + i + 16})
    (\<lambda>r. do { r \<leftarrow> put (int n) (int b * 32 + int i) v r; put (int n) (int b * 32 + int i + 16) w r })"
    using assms fills_put [of "int b * 32 + int i" v g n] fills_put [of "int b * 32 + int i + 16" w g n]
    by (intro fills_seq) simp_all
  then show ?thesis by (simp add: insert_commute)
qed

lemma block_pos:
  fixes b i :: nat
  assumes "i < 16"
  shows "(b * 32 + i) div 32 = b" "(b * 32 + i) mod 32 = i" "(b * 32 + i + 16) div 32 = b" "(b * 32 + i + 16) mod 32 = i + 16"
    "i mod 32 = i"
proof -
  have e: "b * 32 + i + 16 = b * 32 + (i + 16)" by simp
  show "(b * 32 + i) div 32 = b" "(b * 32 + i) mod 32 = i" "i mod 32 = i" using assms by simp_all
  show "(b * 32 + i + 16) div 32 = b" "(b * 32 + i + 16) mod 32 = i + 16" unfolding e using assms by simp_all
qed

lemma byte_high: "uint (x :: byte) div 16 mod 16 = uint x div 16"
proof -
  have "0 \<le> uint x div 16" "uint x div 16 < 16" using uint_byte [of x]
    by (simp_all add: div_less_iff_less_mult pos_imp_zdiv_nonneg_iff)
  then show ?thesis by simp
qed

lemma idx_in_block:
  assumes "(b + 1) * bpb \<le> length data" "e = int b * int bpb + int c" "c < bpb"
  shows "idx data e = Some (nth_block bpb data b ! c)"
  using idx_block assms by simp

lemma q4_0_block_fills:
  assumes full: "(b + 1) * 18 \<le> length data"
  shows "fills (\<lambda>k. q4_0_elem (nth_block 18 data (k div 32)) (k mod 32)) n {k. k div 32 = b} (q4_0_block data (int n) (int b))"
proof -
  let ?B = "nth_block 18 data b"
  have f: "f16_at data (int b * 18) = Some (half_at ?B 0)" using f16_at_block [OF full, of 0] by simp
  have "fills (\<lambda>k. q4_0_elem (nth_block 18 data (k div 32)) (k mod 32)) n {b * 32 + i, b * 32 + i + 16}
      (q4_0_step data (int n) (int b * 18) (int b) (half_at ?B 0) (int i))" if i: "i < 16" for i
  proof -
    have "idx data (int b * 18 + 2 + int i) = Some (?B ! (2 + i))" by (rule idx_in_block [OF full]) (use i in simp_all)
    then show ?thesis unfolding q4_0_step_def
      by (simp del: add_2_eq_Suc)
        (rule two_puts; simp add: block_pos [OF i] q4_0_elem_def byte_ops byte_high byte_at_def i)
  qed
  then show ?thesis unfolding q4_0_block_def Let_def f by (simp add: half_block_loop)
qed

interpretation q4_0: block_format 32 18 q4_0_block q4_0_elem
  by unfold_locales (simp_all add: q4_0_block_fills)

lemma q8_0_block_fills:
  assumes full: "(b + 1) * 34 \<le> length data"
  shows "fills (\<lambda>k. q8_0_elem (nth_block 34 data (k div 32)) (k mod 32)) n {k. k div 32 = b} (q8_0_block data (int n) (int b))"
proof -
  let ?B = "nth_block 34 data b" and ?g = "\<lambda>k. q8_0_elem (nth_block 34 data (k div 32)) (k mod 32)"
  have f: "f16_at data (int b * 34) = Some (half_at ?B 0)" using f16_at_block [OF full, of 0] by simp
  have step: "fills ?g n {b * 32 + i} (q8_0_step data (int n) (int b * 34) (int b) (half_at ?B 0) (int i))" if i: "i < 32" for i
  proof -
    have "idx data (int b * 34 + 2 + int i) = Some (?B ! (2 + i))" by (rule idx_in_block [OF full]) (use i in simp_all)
    moreover have "int b * 32 + int i = int (b * 32 + i)" by simp
    ultimately show ?thesis
      using i by (auto simp: q8_0_step_def fills_def upd_def len_def q8_0_elem_def nth_list_update)
  qed
  have "fills ?g n (\<Union>x \<in> set [0..31]. {b * 32 + nat x}) (foldM (q8_0_step data (int n) (int b * 34) (int b) (half_at ?B 0)) [0..31])"
  proof (rule fills_foldM)
    fix x :: int
    assume "x \<in> set [0..31]"
    then show "fills ?g n {b * 32 + nat x} (q8_0_step data (int n) (int b * 34) (int b) (half_at ?B 0) x)"
      using step [of "nat x"] by (simp add: nat_less_iff)
  qed
  moreover have "(\<Union>x \<in> set [0..31]. {b * 32 + nat x}) = {k. k div 32 = b}"
  proof (intro set_eqI iffI)
    fix k
    assume "k \<in> {k. k div 32 = b}"
    then have "k = b * 32 + k mod 32" by auto
    moreover have "k mod 32 < 32" by simp
    ultimately show "k \<in> (\<Union>x \<in> set [0..31]. {b * 32 + nat x})" by (intro UN_I [of "int (k mod 32)"]) auto
  qed auto
  ultimately show ?thesis unfolding q8_0_block_def Let_def f by simp
qed

interpretation q8_0: block_format 32 34 q8_0_block q8_0_elem
  by unfold_locales (simp_all add: q8_0_block_fills)

text \<open>The fifth bit: or-ed to a nibble it adds 16.\<close>

lemma fifth_bit_eq: "fifth_bit qh (int j) = (if bit qh j then 16 else 0)"
proof -
  have "push_bit 4 (drop_bit j qh) AND push_bit 4 1 = push_bit 4 (of_bool (bit qh j) :: 32 word)"
    by (simp only: push_bit_and [symmetric] and_one_eq bit_iff_odd_drop_bit mod_2_eq_odd)
  then show ?thesis by (simp add: fifth_bit_def)
qed

lemma fifth_bit_uint:
  assumes "j < 32"
  shows "uint (fifth_bit (word_of_int q) (int j)) = 16 * (q div 2 ^ j mod 2)"
proof -
  have "bit (word_of_int q :: 32 word) j \<longleftrightarrow> odd (q div 2 ^ j)"
    unfolding bit_word_of_int_iff using assms by (simp add: bit_iff_odd)
  then show ?thesis by (simp add: fifth_bit_eq mod_2_eq_odd)
qed

lemma nibble_or: "0 \<le> x \<Longrightarrow> x < 16 \<Longrightarrow> (x :: int) OR 16 * (y mod 2) = x + 16 * (y mod 2)"
  using or_push_add [of x 4 "y mod 2"] by (simp add: push_bit_eq_mult mult.commute)

lemma q5_bits_code:
  assumes "i < 16"
  shows "uint (B ! (qs + i) AND 0x0F) OR uint (fifth_bit (word_of_int (quad_at B qh)) (int i)) = q5_bits B qh qs i"
    and "uint (drop_bit 4 (B ! (qs + i))) OR uint (fifth_bit (word_of_int (quad_at B qh)) (int i + 16)) = q5_bits B qh qs (i + 16)"
proof -
  have u: "0 \<le> uint x div 16" "uint x div 16 < 16" for x :: byte
    using uint_byte [of x] by (simp_all add: div_less_iff_less_mult pos_imp_zdiv_nonneg_iff)
  have e: "int i + 16 = int (i + 16)" by simp
  show "uint (B ! (qs + i) AND 0x0F) OR uint (fifth_bit (word_of_int (quad_at B qh)) (int i)) = q5_bits B qh qs i"
    using assms by (simp add: fifth_bit_uint byte_ops nibble_or q5_bits_def byte_at_def)
  show "uint (drop_bit 4 (B ! (qs + i))) OR uint (fifth_bit (word_of_int (quad_at B qh)) (int i + 16)) = q5_bits B qh qs (i + 16)"
    unfolding e using assms by (simp only: fifth_bit_uint byte_ops) (simp add: nibble_or u q5_bits_def byte_at_def)
qed

lemma q5_0_block_fills:
  assumes full: "(b + 1) * 22 \<le> length data"
  shows "fills (\<lambda>k. q5_0_elem (nth_block 22 data (k div 32)) (k mod 32)) n {k. k div 32 = b} (q5_0_block data (int n) (int b))"
proof -
  let ?B = "nth_block 22 data b"
  have f: "f16_at data (int b * 22) = Some (half_at ?B 0)" "u32_at data (int b * 22 + 2) = Some (word_of_int (quad_at ?B 2))"
    using f16_at_block [OF full, of 0] u32_at_block [OF full, of 2] by simp_all
  have "fills (\<lambda>k. q5_0_elem (nth_block 22 data (k div 32)) (k mod 32)) n {b * 32 + i, b * 32 + i + 16}
      (q5_0_step data (int n) (int b * 22) (int b) (half_at ?B 0) (word_of_int (quad_at ?B 2)) (int i))" if i: "i < 16" for i
  proof -
    have "idx data (int b * 22 + 6 + int i) = Some (?B ! (6 + i))" by (rule idx_in_block [OF full]) (use i in simp_all)
    then show ?thesis unfolding q5_0_step_def Option.bind.simps q5_bits_code [OF i]
      by (simp only: Option.bind.simps) (rule two_puts; simp only: block_pos [OF i] q5_0_elem_def q5_bits_code [OF i])
  qed
  then show ?thesis unfolding q5_0_block_def Let_def f by (simp add: half_block_loop)
qed

interpretation q5_0: block_format 32 22 q5_0_block q5_0_elem
  by unfold_locales (simp_all add: q5_0_block_fills)

lemma q5_1_block_fills:
  assumes full: "(b + 1) * 24 \<le> length data"
  shows "fills (\<lambda>k. q5_1_elem fma (nth_block 24 data (k div 32)) (k mod 32)) n {k. k div 32 = b} (q5_1_block fma data (int n) (int b))"
proof -
  let ?B = "nth_block 24 data b"
  have f: "f16_at data (int b * 24) = Some (half_at ?B 0)" "f16_at data (int b * 24 + 2) = Some (half_at ?B 2)"
    "u32_at data (int b * 24 + 4) = Some (word_of_int (quad_at ?B 4))"
    using f16_at_block [OF full, of 0] f16_at_block [OF full, of 2] u32_at_block [OF full, of 4] by simp_all
  have "fills (\<lambda>k. q5_1_elem fma (nth_block 24 data (k div 32)) (k mod 32)) n {b * 32 + i, b * 32 + i + 16}
      (q5_1_step fma data (int n) (int b * 24) (int b) (half_at ?B 0) (half_at ?B 2) (word_of_int (quad_at ?B 4)) (int i))"
    if i: "i < 16" for i
  proof -
    have "idx data (int b * 24 + 8 + int i) = Some (?B ! (8 + i))" by (rule idx_in_block [OF full]) (use i in simp_all)
    then show ?thesis unfolding q5_1_step_def
      by (simp only: Option.bind.simps) (rule two_puts; simp only: block_pos [OF i] q5_1_elem_def q5_bits_code [OF i])
  qed
  then show ?thesis unfolding q5_1_block_def Let_def f by (simp add: half_block_loop)
qed

interpretation q5_1: block_format 32 24 "q5_1_block fma" "q5_1_elem fma" for fma
  by unfold_locales (simp_all add: q5_1_block_fills)

section \<open>Unquantized types\<close>

lemma single_block: "{k. k div 1 = b} = {b}" for b :: nat
  by auto

lemma f16_body_fills:
  assumes full: "(b + 1) * 2 \<le> length data" and b: "b * 1 < n"
  shows "fills (\<lambda>k. f16_elem (nth_block 2 data (k div 1)) (k mod 1)) n {k. k div 1 = b} (f16_body data (int b))"
proof -
  have f: "f16_at data (int b * 2) = Some (half_at (nth_block 2 data b) 0)" using f16_at_block [OF full, of 0] by simp
  show ?thesis unfolding single_block f16_body_def f Option.bind.simps
    by (rule fills_upd) (use b in \<open>simp_all add: f16_elem_def\<close>)
qed

interpretation f16: block_format 1 2 "\<lambda>data n. f16_body data" f16_elem
  by (unfold_locales, simp, simp, rule f16_body_fills)

lemma bf16_pattern:
  assumes "0 \<le> x" "x < 2 ^ 16"
  shows "push_bit 16 (ucast (word_of_int x :: 16 word)) = (word_of_int (2 ^ 16 * x) :: 32 word)"
proof -
  have "uint (word_of_int x :: 16 word) = x" using assms by (simp add: take_bit_int_eq_self unsigned_of_int)
  then show ?thesis unfolding ucast_eq by (simp add: push_bit_eq_mult)
qed

lemma bf16_body_fills:
  assumes full: "(b + 1) * 2 \<le> length data" and b: "b * 1 < n"
  shows "fills (\<lambda>k. bf16_elem (nth_block 2 data (k div 1)) (k mod 1)) n {k. k div 1 = b} (bf16_body data (int b))"
proof -
  let ?B = "nth_block 2 data b"
  have u: "u16_at data (int b * 2) = Some (word_of_int (byte_at ?B 0 + 2 ^ 8 * byte_at ?B 1))"
    using u16_at_block [OF full, of 0] by simp
  have "push_bit 16 (ucast (word_of_int (byte_at ?B 0 + 2 ^ 8 * byte_at ?B 1) :: 16 word)) = bf16_elem ?B 0"
    unfolding bf16_elem_def byte_at_def
    by (rule bf16_pattern) (use uint_byte [of "?B ! 0"] uint_byte [of "?B ! 1"] in simp_all)
  then show ?thesis unfolding single_block bf16_body_def u Option.bind.simps
    by (intro fills_upd) (use b in simp_all)
qed

interpretation bf16: block_format 1 2 "\<lambda>data n. bf16_body data" bf16_elem
  by (unfold_locales, simp, simp, rule bf16_body_fills)

lemma f32_body_fills:
  assumes full: "(b + 1) * 4 \<le> length data" and b: "b * 1 < n"
  shows "fills (\<lambda>k. f32_elem (nth_block 4 data (k div 1)) (k mod 1)) n {k. k div 1 = b} (f32_body data (int b))"
proof -
  have f: "u32_at data (int b * 4) = Some (word_of_int (quad_at (nth_block 4 data b) 0))" using u32_at_block [OF full, of 0] by simp
  show ?thesis unfolding single_block f32_body_def f Option.bind.simps
    by (rule fills_upd) (use b in \<open>simp_all add: f32_elem_def\<close>)
qed

interpretation f32: block_format 1 4 "\<lambda>data n. f32_body data" f32_elem
  by (unfold_locales, simp, simp, rule f32_body_fills)

section \<open>Blocks of 256 elements\<close>

lemma length_nth_block: "(b + 1) * bpb \<le> length data \<Longrightarrow> length (nth_block bpb data b) = bpb"
  by (simp add: nth_block_def)

definition part :: "nat \<Rightarrow> nat \<Rightarrow> byte list \<Rightarrow> byte list" where
  "part lo hi B = take (hi - lo) (drop lo B)"

lemma slice_block:
  assumes "(b + 1) * bpb \<le> length data" "lo \<le> hi" "hi \<le> bpb"
  shows "slice data (int b * int bpb + int lo) (int b * int bpb + int hi) = Some (part lo hi (nth_block bpb data b))"
proof -
  have "int b * int bpb + int hi \<le> len data"
  proof -
    have "b * bpb + hi \<le> length data" using assms by simp
    then show ?thesis by (simp add: len_def flip: of_nat_mult of_nat_add)
  qed
  moreover have "nat (int b * int bpb + int lo) = b * bpb + lo" by (simp add: nat_add_distrib nat_mult_distrib)
  ultimately show ?thesis using assms
    by (simp add: slice_def part_def nth_block_def drop_take add.commute nat_diff_distrib')
qed

lemma idx_partI:
  assumes "int lo + e = int k" "0 \<le> e" "k < hi" "hi \<le> length B"
  shows "idx (part lo hi B) e = Some (B ! k)"
proof -
  have "e = int (k - lo)" "lo \<le> k" using assms(1,2) by linarith+
  then show ?thesis using assms(3,4) by (simp only: part_def) (simp add: idx_def len_def nat_diff_distrib')
qed

lemma six_bits_sint:
  assumes "0 \<le> uint lo" "uint lo < 16"
  shows "sint (six_bits lo hi) = uint lo + 16 * (uint hi mod 4) - 32"
proof -
  have "uint (hi AND 3) = uint hi mod 4" unfolding uint_and by (simp add: and_low)
  then have h: "hi AND 3 = word_of_int (uint hi mod 4)" by (metis word_of_int_uint)
  have "lo OR push_bit 4 (hi AND 3) = word_of_int (uint lo + 16 * (uint hi mod 4))"
    unfolding h using word_or_push [of "uint lo" 4 "uint hi mod 4", where 'a = 8] assms by simp
  then have "six_bits lo hi = word_of_int (uint lo + 16 * (uint hi mod 4) - 32)" by (simp add: six_bits_def)
  moreover have "0 \<le> uint hi mod 4" "uint hi mod 4 < 4" by simp_all
  ultimately show ?thesis using assms by (simp only: sint_sbintrunc') (simp add: signed_take_bit_int_eq_self)
qed

lemma pos_256:
  fixes b n l :: nat
  assumes "n < 2" "q < 4" "l < 32"
  shows "(b * 256 + n * 128 + l + 32 * q) div 256 = b" "(b * 256 + n * 128 + l + 32 * q) mod 256 = n * 128 + 32 * q + l"
    "(n * 128 + 32 * q + l) div 128 = n" "(n * 128 + 32 * q + l) mod 32 = l" "(n * 128 + 32 * q + l) mod 128 div 32 = q"
proof -
  have e: "b * 256 + n * 128 + l + 32 * q = (n * 128 + 32 * q + l) + 256 * b" by simp
  have r: "n * 128 + 32 * q + l < 256" "32 * q + l < 128" using assms by linarith+
  show "(b * 256 + n * 128 + l + 32 * q) div 256 = b" "(b * 256 + n * 128 + l + 32 * q) mod 256 = n * 128 + 32 * q + l"
    unfolding e using r by simp_all
  have f: "n * 128 + 32 * q + l = (32 * q + l) + 128 * n" by simp
  have m: "(n * 128 + 32 * q + l) mod 128 = 32 * q + l" unfolding f using r by simp
  show "(n * 128 + 32 * q + l) div 128 = n" unfolding f using r by simp
  show "(n * 128 + 32 * q + l) mod 128 div 32 = q" unfolding m using assms by simp
  have "n * 128 + 32 * q + l = l + 32 * (4 * n + q)" by simp
  then show "(n * 128 + 32 * q + l) mod 32 = l" using assms by (metis mod_less mod_mult_self2)
qed

text \<open>The value of the code for quarter \<open>q\<close> of chunk \<open>n\<close>.\<close>

lemma q6_k_elem_code:
  assumes "n < 2" "q < 4" "l < 32"
  shows "q6_k_elem B (n * 128 + 32 * q + l) =
    f32_mul (f32_mul (half_at B 208) (f32_of_int (sint (B ! (192 + 8 * n + l div 16 + 2 * q)))))
      (f32_of_int (sint (six_bits
        (if q < 2 then B ! (64 * n + l + 32 * (q mod 2)) AND 0xF else drop_bit 4 (B ! (64 * n + l + 32 * (q mod 2))))
        (drop_bit (2 * q) (B ! (128 + 32 * n + l))))))"
proof -
  have u: "0 \<le> uint x mod 16" "uint x mod 16 < 16" "0 \<le> uint x div 16" "uint x div 16 < 16" for x :: byte
    using uint_byte [of x] by (simp_all add: div_less_iff_less_mult pos_imp_zdiv_nonneg_iff)
  have p: "(2::int) ^ (2 * q) = 4 ^ q" by (simp add: power_mult)
  have "sint (six_bits (x AND 0xF) (drop_bit (2 * q) h)) = uint x mod 16 + 16 * (uint h div 4 ^ q mod 4) - 32"
    "sint (six_bits (drop_bit 4 x) (drop_bit (2 * q) h)) = uint x div 16 + 16 * (uint h div 4 ^ q mod 4) - 32" for x h
    by (subst six_bits_sint; simp only: byte_ops u p; simp add: u)+
  then show ?thesis using assms
    unfolding q6_k_elem_def Let_def pos_256 [OF assms] byte_at_def by simp
qed

lemma q6_k_step_fills:
  fixes b n l :: nat
  assumes "n < 2" "l < 32" "length B = 210"
    and g: "\<And>q. q < 4 \<Longrightarrow> g (b * 256 + n * 128 + l + 32 * q) = q6_k_elem B (n * 128 + 32 * q + l)"
  shows "fills g num {b * 256 + n * 128 + l, b * 256 + n * 128 + l + 32, b * 256 + n * 128 + l + 64, b * 256 + n * 128 + l + 96}
    (q6_k_step (int num) (part 0 128 B) (part 128 192 B) (part 192 208 B) (half_at B 208)
      (int n * 64) (int n * 32) (int n * 8) (int b * 256 + int n * 128) (int l))"
proof -
  let ?y = "b * 256 + n * 128 + l"
  have isc: "int l div 16 = int (l div 16)" by (simp add: zdiv_int)
  have l16: "l div 16 < 2" using assms(2) by simp
  have reads: "idx (part 0 128 B) (int n * 64 + int l) = Some (B ! (64 * n + l))"
    "idx (part 0 128 B) (int n * 64 + int l + 32) = Some (B ! (64 * n + l + 32))"
    "idx (part 128 192 B) (int n * 32 + int l) = Some (B ! (128 + 32 * n + l))"
    by (rule idx_partI; use assms in simp)+
  have scales: "idx (part 192 208 B) (int n * 8 + int (l div 16) + 0) = Some (B ! (192 + 8 * n + l div 16 + 2 * 0))"
    "idx (part 192 208 B) (int n * 8 + int (l div 16) + 2) = Some (B ! (192 + 8 * n + l div 16 + 2 * 1))"
    "idx (part 192 208 B) (int n * 8 + int (l div 16) + 4) = Some (B ! (192 + 8 * n + l div 16 + 2 * 2))"
    "idx (part 192 208 B) (int n * 8 + int (l div 16) + 6) = Some (B ! (192 + 8 * n + l div 16 + 2 * 3))"
    by (rule idx_partI; use assms l16 in simp)+
  note code = q6_k_elem_code [OF assms(1) _ assms(2), of _ B]
  have pos: "nat (int b * 256 + int n * 128 + int l + int d) = ?y + d" for d by simp
  have put: "fills g num {?y + d} (put (int num) (int b * 256 + int n * 128 + int l + int d) v)" if "v = g (?y + d)" for d v
    using fills_put [of "int b * 256 + int n * 128 + int l + int d" v g num] that by (simp only: pos)
  have "fills g num ({?y} \<union> ({?y + 32} \<union> ({?y + 64} \<union> {?y + 96})))
    (q6_k_step (int num) (part 0 128 B) (part 128 192 B) (part 192 208 B) (half_at B 208)
      (int n * 64) (int n * 32) (int n * 8) (int b * 256 + int n * 128) (int l))"
    unfolding q6_k_step_def Let_def isc reads scales Option.bind.simps
  proof (intro fills_seq)
  qed (use put [of _ 0] put [of _ 32] put [of _ 64] put [of _ 96] g [of 0] g [of 1] g [of 2] g [of 3] code [of 0] code [of 1] code [of 2] code [of 3] in simp_all)
  then show ?thesis by (simp add: insert_commute)
qed

lemma fills_upto:
  assumes "\<And>l. l < m \<Longrightarrow> fills g n (K l) (f (int l))"
  shows "fills g n (\<Union>l < m. K l) (foldM f [0..int m - 1])"
proof -
  have "fills g n (K (nat x)) (f x)" if "x \<in> set [0..int m - 1]" for x
    using assms [of "nat x"] that by (simp add: nat_less_iff)
  then have "fills g n (\<Union>x \<in> set [0..int m - 1]. K (nat x)) (foldM f [0..int m - 1])" by (rule fills_foldM)
  moreover have "(\<Union>x \<in> set [0..int m - 1]. K (nat x)) = (\<Union>l < m. K l)"
  proof (intro set_eqI iffI)
    fix k
    assume "k \<in> (\<Union>l < m. K l)"
    then obtain l where "l < m" "k \<in> K l" by blast
    then show "k \<in> (\<Union>x \<in> set [0..int m - 1]. K (nat x))" by (intro UN_I [of "int l"]) simp_all
  qed force
  ultimately show ?thesis by simp
qed

lemma chunk_positions: "(\<Union>l < 32. {y + l, y + l + 32, y + l + 64, y + l + 96}) = {y..<y + 128}" for y :: nat
proof (intro set_eqI iffI)
  fix k
  assume k: "k \<in> {y..<y + 128}"
  define q where "q = (k - y) div 32"
  define l where "l = (k - y) mod 32"
  have "k - y < 128" using k by auto
  then have kq: "k = y + (32 * q + l)" and "l < 32" "q < 4"
    using k by (simp_all add: q_def l_def div_less_iff_less_mult)
  then have "k \<in> {y + l, y + l + 32, y + l + 64, y + l + 96}" by (auto simp: less_Suc_eq numeral_eq_Suc)
  then show "k \<in> (\<Union>l < 32. {y + l, y + l + 32, y + l + 64, y + l + 96})" using \<open>l < 32\<close> by blast
qed auto

lemma q6_k_block_fills:
  assumes full: "(b + 1) * 210 \<le> length data"
  shows "fills (\<lambda>k. q6_k_elem (nth_block 210 data (k div 256)) (k mod 256)) num {k. k div 256 = b}
    (q6_k_block data (int num) (int b))"
proof -
  let ?B = "nth_block 210 data b" and ?g = "\<lambda>k. q6_k_elem (nth_block 210 data (k div 256)) (k mod 256)"
  have reads: "slice data (int b * 210) (int b * 210 + 128) = Some (part 0 128 ?B)"
    "slice data (int b * 210 + 128) (int b * 210 + 192) = Some (part 128 192 ?B)"
    "slice data (int b * 210 + 192) (int b * 210 + 208) = Some (part 192 208 ?B)"
    "f16_at data (int b * 210 + 208) = Some (half_at ?B 208)"
    using slice_block [OF full, of 0 128] slice_block [OF full, of 128 192] slice_block [OF full, of 192 208]
      f16_at_block [OF full, of 208] by simp_all
  have chunk: "fills ?g num {b * 256 + n * 128..<b * 256 + n * 128 + 128}
      (q6_k_chunk (int num) (part 0 128 ?B) (part 128 192 ?B) (part 192 208 ?B) (half_at ?B 208) (int b) (int n))"
    if n: "n < 2" for n
  proof -
    have "?g (b * 256 + n * 128 + l + 32 * q) = q6_k_elem ?B (n * 128 + 32 * q + l)" if "l < 32" "q < 4" for l q
      unfolding pos_256 [OF n that(2,1)] ..
    then have step: "fills ?g num {b * 256 + n * 128 + l, b * 256 + n * 128 + l + 32, b * 256 + n * 128 + l + 64, b * 256 + n * 128 + l + 96}
      (q6_k_step (int num) (part 0 128 ?B) (part 128 192 ?B) (part 192 208 ?B) (half_at ?B 208)
        (int n * 64) (int n * 32) (int n * 8) (int b * 256 + int n * 128) (int l))" if "l < 32" for l
      using n that length_nth_block [OF full] by (intro q6_k_step_fills) simp_all
    have "fills ?g num (\<Union>l < 32. {b * 256 + n * 128 + l, b * 256 + n * 128 + l + 32, b * 256 + n * 128 + l + 64, b * 256 + n * 128 + l + 96})
      (foldM (q6_k_step (int num) (part 0 128 ?B) (part 128 192 ?B) (part 192 208 ?B) (half_at ?B 208)
        (int n * 64) (int n * 32) (int n * 8) (int b * 256 + int n * 128)) [0..int 32 - 1])"
      by (rule fills_upto) (rule step)
    then show ?thesis unfolding q6_k_chunk_def Let_def by (simp add: chunk_positions)
  qed
  have "(\<Union>n < 2. {b * 256 + n * 128..<b * 256 + n * 128 + 128}) = {k. k div 256 = b}"
    by (auto simp: numeral_2_eq_2 lessThan_Suc)
  moreover have "fills ?g num (\<Union>n < 2. {b * 256 + n * 128..<b * 256 + n * 128 + 128})
      (foldM (q6_k_chunk (int num) (part 0 128 ?B) (part 128 192 ?B) (part 192 208 ?B) (half_at ?B 208) (int b)) [0..int 2 - 1])"
    by (rule fills_upto) (rule chunk)
  ultimately show ?thesis
    unfolding q6_k_block_def Let_def reads Option.bind.simps by simp
qed

interpretation q6_k: block_format 256 210 q6_k_block q6_k_elem
  by (unfold_locales, simp, simp, rule q6_k_block_fills)

lemma byte_parts: "0 \<le> uint x mod 16" "uint x mod 16 < 16" "0 \<le> uint x div 16" "uint x div 16 < 16" for x :: byte
  using uint_byte [of x] by (simp_all add: div_less_iff_less_mult pos_imp_zdiv_nonneg_iff)

lemma or_push_uint:
  fixes a b :: byte
  assumes "uint a < 16" "uint b < 4"
  shows "uint (a OR push_bit 4 b) = uint a + 16 * uint b"
proof -
  have c: "a OR push_bit 4 b = word_of_int (uint a + 2 ^ 4 * uint b)"
    using word_or_push [of "uint a" 4 "uint b", where 'a = 8] assms(1) by simp
  have "uint a + 2 ^ 4 * uint b < 2 ^ 8" using assms by simp
  then show ?thesis unfolding c unsigned_of_int by (simp add: take_bit_int_eq_self)
qed

lemma scale_min_block:
  assumes j: "j < 8" and B: "16 \<le> length B"
  shows "scale_min d dmin (int j) (part 4 16 B) =
    Some (f32_mul d (f32_of_int (k4_scale B j)), f32_mul dmin (f32_of_int (k4_min B j)))"
proof (cases "j < 4")
  case True
  have "idx (part 4 16 B) (int j) = Some (B ! (4 + j))" "idx (part 4 16 B) (int j + 4) = Some (B ! (8 + j))"
    by (rule idx_partI; use True B in simp)+
  then show ?thesis using True
    by (simp add: scale_min_def getScaleMinK4_def k4_scale_def k4_min_def byte_at_def byte_ops)
next
  case False
  have i: "idx (part 4 16 B) (int j + 4) = Some (B ! (8 + j))" "idx (part 4 16 B) (int j) = Some (B ! (4 + j))"
    "idx (part 4 16 B) (int j - 4) = Some (B ! j)"
    by (rule idx_partI; use False j B in simp)+
  have h: "uint (drop_bit 6 x) < 4" for x :: byte using uint_byte [of x] by (simp add: byte_ops div_less_iff_less_mult)
  have "uint ((B ! (8 + j) AND 15) OR push_bit 4 (drop_bit 6 (B ! j))) = k4_scale B j"
    "uint (drop_bit 4 (B ! (8 + j)) OR push_bit 4 (drop_bit 6 (B ! (4 + j)))) = k4_min B j"
    using False by (subst or_push_uint [OF _ h]; simp add: byte_ops byte_parts k4_scale_def k4_min_def byte_at_def)+
  then show ?thesis using False by (simp add: scale_min_def getScaleMinK4_def i)
qed

lemma scale_min_pair:
  assumes "t < 4" "16 \<le> length B"
  shows "scale_min d dmin (2 * int t + 0) (part 4 16 B) =
      Some (f32_mul d (f32_of_int (k4_scale B (2 * t))), f32_mul dmin (f32_of_int (k4_min B (2 * t))))"
    and "scale_min d dmin (2 * int t + 1) (part 4 16 B) =
      Some (f32_mul d (f32_of_int (k4_scale B (2 * t + 1))), f32_mul dmin (f32_of_int (k4_min B (2 * t + 1))))"
  using scale_min_block [of "2 * t" B] scale_min_block [of "2 * t + 1" B] assms by (simp_all add: add.commute)

lemma group_pos:
  fixes b t l :: nat
  assumes "t < 4" "l < 32"
  shows "(b * 256 + 64 * t + l) div 256 = b" "(b * 256 + 64 * t + l) mod 256 = 64 * t + l"
    "(b * 256 + 64 * t + l + 32) div 256 = b" "(b * 256 + 64 * t + l + 32) mod 256 = 64 * t + l + 32"
    "(64 * t + l) div 32 = 2 * t" "(64 * t + l + 32) div 32 = 2 * t + 1" "(64 * t + l) mod 32 = l" "(64 * t + l + 32) mod 32 = l"
    "(64 * t + l) div 64 = t" "(64 * t + l + 32) div 64 = t"
proof -
  have r: "64 * t + l + 32 < 256" using assms by linarith
  have e: "b * 256 + 64 * t + l = (64 * t + l) + 256 * b" "b * 256 + 64 * t + l + 32 = (64 * t + l + 32) + 256 * b"
    "64 * t + l = l + 32 * (2 * t)" "64 * t + l + 32 = l + 32 * (2 * t + 1)" by simp_all
  show "(b * 256 + 64 * t + l) div 256 = b" "(b * 256 + 64 * t + l) mod 256 = 64 * t + l"
    unfolding e(1) using r by simp_all
  show "(b * 256 + 64 * t + l + 32) div 256 = b" "(b * 256 + 64 * t + l + 32) mod 256 = 64 * t + l + 32"
    unfolding e(2) using r by simp_all
  show "(64 * t + l) div 32 = 2 * t" "(64 * t + l) mod 32 = l" unfolding e(3) using assms
    by (simp_all only: div_mult_self2 mod_mult_self2) simp_all
  show "(64 * t + l + 32) div 32 = 2 * t + 1" "(64 * t + l + 32) mod 32 = l" unfolding e(4) using assms
    by (simp_all only: div_mult_self2 mod_mult_self2) simp_all
  show "(64 * t + l) div 64 = t" "(64 * t + l + 32) div 64 = t" using assms by simp_all
qed

lemma group_positions: "(\<Union>l < 32. {y + l, y + l + 32}) = {y..<y + 64}" for y :: nat
proof (intro set_eqI iffI)
  fix k
  assume k: "k \<in> {y..<y + 64}"
  then show "k \<in> (\<Union>l < 32. {y + l, y + l + 32})"
  proof (cases "k < y + 32")
    case True
    then show ?thesis using k by (intro UN_I [of "k - y"]) auto
  next
    case False
    then show ?thesis using k by (intro UN_I [of "k - y - 32"]) auto
  qed
qed auto

lemma group_puts:
  assumes "v = g (b * 256 + 64 * t + l)" "w = g (b * 256 + 64 * t + l + 32)"
  shows "fills g n {b * 256 + 64 * t + l, b * 256 + 64 * t + l + 32}
    (\<lambda>r. do { r \<leftarrow> put (int n) (int b * 256 + 64 * int t + int l) v r;
              put (int n) (int b * 256 + 64 * int t + int l + 32) w r })"
proof -
  have p: "nat (int b * 256 + 64 * int t + int l) = b * 256 + 64 * t + l"
    "nat (int b * 256 + 64 * int t + int l + 32) = b * 256 + 64 * t + l + 32" by simp_all
  have "fills g n ({b * 256 + 64 * t + l} \<union> {b * 256 + 64 * t + l + 32})
    (\<lambda>r. do { r \<leftarrow> put (int n) (int b * 256 + 64 * int t + int l) v r;
              put (int n) (int b * 256 + 64 * int t + int l + 32) w r })"
    using p assms fills_put [of "int b * 256 + 64 * int t + int l" v g n]
      fills_put [of "int b * 256 + 64 * int t + int l + 32" w g n]
    by (intro fills_seq) simp_all
  then show ?thesis by (simp add: insert_commute)
qed

lemma q4_k_step_fills:
  assumes t: "t < 4" "l < 32" and B: "length B = 144"
    and g: "\<And>i. i < 256 \<Longrightarrow> g (b * 256 + i) = q4_k_elem fma B i"
  shows "fills g n {b * 256 + 64 * t + l, b * 256 + 64 * t + l + 32}
    (q4_k_step fma (int n) (part 16 144 B) (32 * int t) (int b) (64 * int t)
      (f32_mul (half_at B 0) (f32_of_int (k4_scale B (2 * t))), f32_mul (half_at B 2) (f32_of_int (k4_min B (2 * t))))
      (f32_mul (half_at B 0) (f32_of_int (k4_scale B (2 * t + 1))), f32_mul (half_at B 2) (f32_of_int (k4_min B (2 * t + 1))))
      (int l))"
proof -
  have i: "idx (part 16 144 B) (32 * int t + int l) = Some (B ! (16 + 32 * t + l))"
    by (rule idx_partI; use assms in simp)
  have v: "g (b * 256 + 64 * t + l) = q4_k_elem fma B (64 * t + l)" "g (b * 256 + 64 * t + l + 32) = q4_k_elem fma B (64 * t + l + 32)"
    using g [of "64 * t + l"] g [of "64 * t + l + 32"] t by (simp_all add: add.assoc)
  show ?thesis unfolding q4_k_step_def Let_def i Option.bind.simps fst_conv snd_conv
    by (rule group_puts; simp only: v q4_k_elem_def k4_value_def k_nibble_def Let_def group_pos [OF t] byte_ops byte_at_def)
      simp_all
qed

text \<open>Four groups of 64 fill a block.\<close>

lemma four_groups_fill:
  fixes loop :: "nat \<Rightarrow> 'a list \<Rightarrow> 'a list option"
  assumes "\<And>t. t < 4 \<Longrightarrow> fills g n {b * 256 + 64 * t..<b * 256 + 64 * t + 64} (loop t)"
  shows "fills g n {k. k div 256 = b} (\<lambda>r. do { r \<leftarrow> loop 0 r; r \<leftarrow> loop 1 r; r \<leftarrow> loop 2 r; loop 3 r })"
proof (rule fills_eq)
  show "fills g n ({b * 256..<b * 256 + 64} \<union> ({b * 256 + 64..<b * 256 + 128} \<union>
      ({b * 256 + 128..<b * 256 + 192} \<union> {b * 256 + 192..<b * 256 + 256})))
      (\<lambda>r. do { r \<leftarrow> loop 0 r; r \<leftarrow> loop 1 r; r \<leftarrow> loop 2 r; loop 3 r })"
    using assms [of 0] assms [of 1] assms [of 2] assms [of 3] by (intro fills_seq) (simp_all add: add.commute)
qed auto

abbreviation (input) k4_pair :: "byte list \<Rightarrow> nat \<Rightarrow> f32 \<times> f32" where
  "k4_pair B j \<equiv> (f32_mul (half_at B 0) (f32_of_int (k4_scale B j)), f32_mul (half_at B 2) (f32_of_int (k4_min B j)))"

lemma q4_k_block_fills:
  assumes full: "(b + 1) * 144 \<le> length data"
  shows "fills (\<lambda>k. q4_k_elem fma (nth_block 144 data (k div 256)) (k mod 256)) n {k. k div 256 = b}
    (q4_k_block fma data (int n) (int b))"
proof -
  let ?B = "nth_block 144 data b" and ?g = "\<lambda>k. q4_k_elem fma (nth_block 144 data (k div 256)) (k mod 256)"
  let ?step = "\<lambda>t. q4_k_step fma (int n) (part 16 144 ?B) (32 * int t) (int b) (64 * int t) (k4_pair ?B (2 * t)) (k4_pair ?B (2 * t + 1))"
  define loop where "loop t = foldM (?step t) [0..31]" for t
  have reads: "slice data (int b * 144 + 4) (int b * 144 + 16) = Some (part 4 16 ?B)"
    "slice data (int b * 144 + 16) (int b * 144 + 144) = Some (part 16 144 ?B)"
    "f16_at data (int b * 144) = Some (half_at ?B 0)" "f16_at data (int b * 144 + 2) = Some (half_at ?B 2)"
    using slice_block [OF full, of 4 16] slice_block [OF full, of 16 144] f16_at_block [OF full, of 0]
      f16_at_block [OF full, of 2] by simp_all
  have len: "length ?B = 144" by (rule length_nth_block [OF full])
  have "fills ?g n {b * 256 + 64 * t..<b * 256 + 64 * t + 64} (loop t)" if t: "t < 4" for t
  proof -
    have "?g (b * 256 + i) = q4_k_elem fma ?B i" if "i < 256" for i using that by simp
    then have "fills ?g n (\<Union>l < 32. {b * 256 + 64 * t + l, b * 256 + 64 * t + l + 32}) (foldM (?step t) [0..int 32 - 1])"
      using t len by (intro fills_upto q4_k_step_fills) simp_all
    then show ?thesis by (simp add: loop_def group_positions)
  qed
  then have "fills ?g n {k. k div 256 = b} (\<lambda>r. do { r \<leftarrow> loop 0 r; r \<leftarrow> loop 1 r; r \<leftarrow> loop 2 r; loop 3 r })"
    by (rule four_groups_fill)
  moreover have group: "q4_k_group fma (int n) (part 4 16 ?B) (part 16 144 ?B) (half_at ?B 0) (half_at ?B 2) (int b) (64 * int t)
      (32 * int t, 2 * int t, r) = do { r \<leftarrow> loop t r; Some (32 * int t + 32, 2 * int t + 2, r) }" if "t < 4" for t r
    using that len unfolding q4_k_group_def loop_def prod.case
    by (subst scale_min_pair; simp only: Option.bind.simps)+
  have "(\<lambda>r. do { r \<leftarrow> loop 0 r; r \<leftarrow> loop 1 r; r \<leftarrow> loop 2 r; loop 3 r }) = q4_k_block fma data (int n) (int b)"
    unfolding q4_k_block_def Let_def reads Option.bind.simps
    using group [of 0] group [of 1] group [of 2] group [of 3] by (simp add: fun_eq_iff)
  ultimately show ?thesis by simp
qed

interpretation q4_k: block_format 256 144 "q4_k_block fma" "q4_k_elem fma" for fma
  by (unfold_locales, simp, simp, rule q4_k_block_fills)

text \<open>The rotating masks of the high bits: bits \<open>2t\<close> and \<open>2t + 1\<close> in round \<open>t\<close>.\<close>

lemma high_bit_uint: "i < 8 \<Longrightarrow> uint (high_bit h (push_bit i 1)) = 16 * (uint h div 2 ^ i mod 2)" for h :: byte
proof -
  assume i: "i < 8"
  have "h AND push_bit i 1 \<noteq> 0 \<longleftrightarrow> bit h i"
    by (simp add: push_bit_of_1 and_exp_eq_0_iff_not_bit)
  also have "bit h i \<longleftrightarrow> bit (uint h) i" using i by (simp only: bit_unsigned_iff) simp
  also have "\<dots> \<longleftrightarrow> odd (uint h div 2 ^ i)" by (rule bit_iff_odd)
  finally show ?thesis by (simp add: high_bit_def mod_2_eq_odd)
qed

lemma nibble_plus_high:
  fixes x h :: byte
  assumes "i < 8"
  shows "uint ((x AND 0x0F) + high_bit h (push_bit i 1)) = uint x mod 16 + 16 * (uint h div 2 ^ i mod 2)"
    and "uint (drop_bit 4 x + high_bit h (push_bit i 1)) = uint x div 16 + 16 * (uint h div 2 ^ i mod 2)"
proof -
  have "uint (a + high_bit h (push_bit i 1)) = uint a + 16 * (uint h div 2 ^ i mod 2)" if "uint a < 16" for a
  proof -
    have "uint a + uint (high_bit h (push_bit i 1)) < 2 ^ LENGTH(8)"
      unfolding high_bit_uint [OF assms] using that by simp
    then have "uint (a + high_bit h (push_bit i 1)) = uint a + uint (high_bit h (push_bit i 1))"
      by (simp only: uint_add_lem)
    then show ?thesis by (simp only: uint_add_lem high_bit_uint [OF assms])
  qed
  then show "uint ((x AND 0x0F) + high_bit h (push_bit i 1)) = uint x mod 16 + 16 * (uint h div 2 ^ i mod 2)"
    "uint (drop_bit 4 x + high_bit h (push_bit i 1)) = uint x div 16 + 16 * (uint h div 2 ^ i mod 2)"
    by (simp_all add: byte_ops byte_parts)
qed

lemma q5_k_step_fills:
  assumes t: "t < 4" "l < 32" and B: "length B = 176"
    and g: "\<And>i. i < 256 \<Longrightarrow> g (b * 256 + i) = q5_k_elem fma B i"
  shows "fills g n {b * 256 + 64 * t + l, b * 256 + 64 * t + l + 32}
    (q5_k_step fma (int n) (part 16 48 B) (part 48 176 B) (push_bit (2 * t) 1) (push_bit (2 * t + 1) 1)
      (32 * int t) (int b) (64 * int t) (k4_pair B (2 * t)) (k4_pair B (2 * t + 1)) (int l))"
proof -
  have i: "idx (part 48 176 B) (32 * int t + int l) = Some (B ! (48 + 32 * t + l))"
    "idx (part 16 48 B) (int l) = Some (B ! (16 + l))"
    by (rule idx_partI; use assms in simp)+
  have v: "g (b * 256 + 64 * t + l) = q5_k_elem fma B (64 * t + l)" "g (b * 256 + 64 * t + l + 32) = q5_k_elem fma B (64 * t + l + 32)"
    using g [of "64 * t + l"] g [of "64 * t + l + 32"] t by (simp_all add: add.assoc)
  have bits: "2 * t < 8" "2 * t + 1 < 8" using t by simp_all
  show ?thesis unfolding q5_k_step_def Let_def i Option.bind.simps fst_conv snd_conv nibble_plus_high [OF bits(1)] nibble_plus_high [OF bits(2)]
    by (rule group_puts; simp only: v q5_k_elem_def k4_value_def k_nibble_def Let_def group_pos [OF t] byte_at_def) simp_all
qed

lemma q5_k_block_fills:
  assumes full: "(b + 1) * 176 \<le> length data"
  shows "fills (\<lambda>k. q5_k_elem fma (nth_block 176 data (k div 256)) (k mod 256)) n {k. k div 256 = b}
    (q5_k_block fma data (int n) (int b))"
proof -
  let ?B = "nth_block 176 data b" and ?g = "\<lambda>k. q5_k_elem fma (nth_block 176 data (k div 256)) (k mod 256)"
  let ?step = "\<lambda>t. q5_k_step fma (int n) (part 16 48 ?B) (part 48 176 ?B) (push_bit (2 * t) 1) (push_bit (2 * t + 1) 1)
    (32 * int t) (int b) (64 * int t) (k4_pair ?B (2 * t)) (k4_pair ?B (2 * t + 1))"
  define loop where "loop t = foldM (?step t) [0..31]" for t
  have reads: "slice data (int b * 176 + 4) (int b * 176 + 16) = Some (part 4 16 ?B)"
    "slice data (int b * 176 + 16) (int b * 176 + 48) = Some (part 16 48 ?B)"
    "slice data (int b * 176 + 48) (int b * 176 + 176) = Some (part 48 176 ?B)"
    "f16_at data (int b * 176) = Some (half_at ?B 0)" "f16_at data (int b * 176 + 2) = Some (half_at ?B 2)"
    using slice_block [OF full, of 4 16] slice_block [OF full, of 16 48] slice_block [OF full, of 48 176]
      f16_at_block [OF full, of 0] f16_at_block [OF full, of 2] by simp_all
  have len: "length ?B = 176" by (rule length_nth_block [OF full])
  have "fills ?g n {b * 256 + 64 * t..<b * 256 + 64 * t + 64} (loop t)" if t: "t < 4" for t
  proof -
    have "?g (b * 256 + i) = q5_k_elem fma ?B i" if "i < 256" for i using that by simp
    then have "fills ?g n (\<Union>l < 32. {b * 256 + 64 * t + l, b * 256 + 64 * t + l + 32}) (foldM (?step t) [0..int 32 - 1])"
      using t len by (intro fills_upto q5_k_step_fills) simp_all
    then show ?thesis by (simp add: loop_def group_positions)
  qed
  then have "fills ?g n {k. k div 256 = b} (\<lambda>r. do { r \<leftarrow> loop 0 r; r \<leftarrow> loop 1 r; r \<leftarrow> loop 2 r; loop 3 r })"
    by (rule four_groups_fill)
  moreover have group: "q5_k_group fma (int n) (part 4 16 ?B) (part 16 48 ?B) (part 48 176 ?B) (half_at ?B 0) (half_at ?B 2) (int b) (64 * int t)
      (32 * int t, 2 * int t, push_bit (2 * t) 1, push_bit (2 * t + 1) 1, r) =
      do { r \<leftarrow> loop t r; Some (32 * int t + 32, 2 * int t + 2, push_bit (2 * t + 2) 1, push_bit (2 * t + 3) 1, r) }" if "t < 4" for t r
  proof -
    have e: "2 + 2 * t = 2 * t + 2" "2 + (2 * t + 1) = 2 * t + 3" by simp_all
    show ?thesis using that len unfolding q5_k_group_def loop_def prod.case push_bit_push_bit e
      by (subst scale_min_pair; simp only: Option.bind.simps)+
  qed
  have "(\<lambda>r. do { r \<leftarrow> loop 0 r; r \<leftarrow> loop 1 r; r \<leftarrow> loop 2 r; loop 3 r }) = q5_k_block fma data (int n) (int b)"
    unfolding q5_k_block_def Let_def reads Option.bind.simps
    using group [of 0] group [of 1] group [of 2] group [of 3] by (simp add: fun_eq_iff)
  ultimately show ?thesis by simp
qed

interpretation q5_k: block_format 256 176 "q5_k_block fma" "q5_k_elem fma" for fma
  by (unfold_locales, simp, simp, rule q5_k_block_fills)

end
