(* ===== verification/Dequant_Values.thy ===== *)
theory Dequant_Values
  imports Dequant_Props
begin

text \<open>
  What \<open>Dequantize\<close> returns for every type, length and data, and the formats whose elements are exact
  products of a half-precision scale and a small integer.
\<close>

definition format_elem :: "bool \<Rightarrow> TensorType \<Rightarrow> byte list \<Rightarrow> nat \<Rightarrow> f32" where
  "format_elem fma ty =
     (if ty = TensorTypeF32 then f32_elem
      else if ty = TensorTypeF16 then f16_elem
      else if ty = TensorTypeBF16 then bf16_elem
      else if ty = TensorTypeQ4_0 then q4_0_elem
      else if ty = TensorTypeQ5_0 then q5_0_elem
      else if ty = TensorTypeQ5_1 then q5_1_elem fma
      else if ty = TensorTypeQ8_0 then q8_0_elem
      else if ty = TensorTypeQ6_K then q6_k_elem
      else if ty = TensorTypeQ4_K then q4_k_elem fma
      else if ty = TensorTypeQ5_K then q5_k_elem fma
      else (\<lambda>B i. 0))"

definition type_block :: "TensorType \<Rightarrow> nat" where
  "type_block ty = nat (TensorType_BlockSize ty)"

definition type_bytes :: "TensorType \<Rightarrow> nat" where
  "type_bytes ty = nat (TensorType_BytesPerBlock ty)"

lemmas type_sizes = type_block_def type_bytes_def TensorType_BlockSize_def TensorType_BytesPerBlock_def

lemma negative_length:
  assumes "n < 0"
  shows "dequant_blocks bs bpb body data n = None" "make_slice n (0 :: f32) = None"
  using assms by (simp_all add: dequant_blocks_def make_slice_def split: Option.bind_splits)

lemma block_elem_zero: "block_elem bs bpb (\<lambda>B i. 0) data = (\<lambda>k. 0)"
  by (simp add: block_elem_def fun_eq_iff)

lemma Dequantize_values:
  "Dequantize fma data ty (int k) =
     Some (map (block_elem (type_block ty) (type_bytes ty) (format_elem fma ty) data) [0..<k])"
proof -
  note single = f32.dequant_single_elems [of k data] f16.dequant_single_elems [of k data] bf16.dequant_single_elems [of k data]
  note blocks = q4_0.dequant_blocks_elems [of data k] q5_0.dequant_blocks_elems [of data k]
    q5_1.dequant_blocks_elems [of fma data k] q8_0.dequant_blocks_elems [of data k] q6_k.dequant_blocks_elems [of data k]
    q4_k.dequant_blocks_elems [of fma data k] q5_k.dequant_blocks_elems [of fma data k]
  consider "ty = TensorTypeF32" | "ty = TensorTypeF16" | "ty = TensorTypeBF16" | "ty = TensorTypeQ4_0" | "ty = TensorTypeQ5_0"
    | "ty = TensorTypeQ5_1" | "ty = TensorTypeQ8_0" | "ty = TensorTypeQ6_K" | "ty = TensorTypeQ4_K" | "ty = TensorTypeQ5_K"
    | (other) "ty \<notin> {TensorTypeF32, TensorTypeF16, TensorTypeBF16, TensorTypeQ4_0, TensorTypeQ5_0, TensorTypeQ5_1,
        TensorTypeQ8_0, TensorTypeQ6_K, TensorTypeQ4_K, TensorTypeQ5_K}"
    by blast
  then show ?thesis
  proof cases
    case other
    then show ?thesis
      by (simp add: Dequantize_def format_elem_def block_elem_zero make_slice_def map_replicate_const)
  qed (use single blocks in \<open>simp_all add: Dequantize_def format_elem_def type_sizes DequantizeF32_def DequantizeF16_def
      DequantizeBF16_def DequantizeQ4_0_def DequantizeQ5_0_def DequantizeQ5_1_def DequantizeQ8_0_def DequantizeQ6_K_def
      DequantizeQ4_K_def DequantizeQ5_K_def\<close>)
qed

text \<open>
  C33: The values of a tensor. For a non-negative number of elements \<open>Dequantize\<close> never panics and every element is
  the value its format gives for the bytes of its block, with the block sizes of the reader's tables, or 0
  where the data does not hold the block in full or the type is unsupported; a negative number panics.
\<close>

theorem Dequantize_elements:
  "Dequantize fma data ty n =
     (if n < 0 then None
      else Some (map (block_elem (type_block ty) (type_bytes ty) (format_elem fma ty) data) [0..<nat n]))"
proof (cases "n < 0")
  case True
  then show ?thesis
    by (simp add: Dequantize_def DequantizeF32_def DequantizeF16_def DequantizeBF16_def DequantizeQ4_0_def DequantizeQ5_0_def
        DequantizeQ5_1_def DequantizeQ8_0_def DequantizeQ6_K_def DequantizeQ4_K_def DequantizeQ5_K_def negative_length)
next
  case False
  then show ?thesis using Dequantize_values [of fma data ty "nat n"] by simp
qed

section \<open>Half-precision numbers\<close>

text \<open>
  C34: The conversion of half-precision floats ends for every pattern, keeps the sign and the value exactly,
  subnormals included, and maps infinities to infinities and NaNs to NaNs.
\<close>

theorem float16ToFloat32_exact:
  "\<exists>x. float16ToFloat32 h = Some x \<and> f32_neg x = f16_neg h \<and>
     (if f16_finite h then f32_finite x \<and> f32_val x = f16_val h * 2 ^ 125
      else \<not> f32_finite x \<and> f32_nan x = (f16_frac h \<noteq> 0))"
proof (cases "f16_finite h")
  case True
  then show ?thesis using f32_of_f16_value [OF True] by (simp add: float16ToFloat32_eq)
next
  case False
  have b: "0 \<le> 0x7F800000 + f16_frac h * 2 ^ 13" "0x7F800000 + f16_frac h * 2 ^ 13 < 2 ^ 31"
    using half_bounds [of h] by simp_all
  have e: "f32_of_f16 h = f32_pack (f16_neg h) (0x7F800000 + f16_frac h * 2 ^ 13)"
    using False by (simp add: f32_of_f16_def)
  show ?thesis
    unfolding float16ToFloat32_eq e using False half_bounds [of h] f32_pack_parts [OF b, of "f16_neg h"]
    by (auto simp: f32_finite_def f32_nan_def)
qed

section \<open>Exact elements\<close>

definition scale_bits :: "byte list \<Rightarrow> 16 word" where
  "scale_bits B = word_of_int (byte_at B 0 + 2 ^ 8 * byte_at B 1)"

text \<open>The signed integer an element of a symmetric format stores.\<close>

definition symmetric_quant :: "TensorType \<Rightarrow> byte list \<Rightarrow> nat \<Rightarrow> int" where
  "symmetric_quant ty B i =
     (if ty = TensorTypeQ4_0 then (if i < 16 then byte_at B (2 + i) mod 16 else byte_at B (2 + (i - 16)) div 16) - 8
      else if ty = TensorTypeQ5_0 then q5_bits B 2 6 i - 16
      else sint (B ! (2 + i)))"

lemma nibble_bounds: "0 \<le> byte_at B k mod 16" "byte_at B k mod 16 < 16" "0 \<le> byte_at B k div 16" "byte_at B k div 16 < 16"
  using byte_parts [of "B ! k"] by (simp_all add: byte_at_def)

lemma q5_bits_bounds: "0 \<le> q5_bits B qh qs i" "q5_bits B qh qs i < 32"
proof -
  have m: "0 \<le> quad_at B qh div 2 ^ i mod 2" "quad_at B qh div 2 ^ i mod 2 < 2" by simp_all
  show "0 \<le> q5_bits B qh qs i" unfolding q5_bits_def
    by (intro add_nonneg_nonneg mult_nonneg_nonneg m) (simp_all add: nibble_bounds)
  have "(if i < 16 then byte_at B (qs + i) mod 16 else byte_at B (qs + (i - 16)) div 16) < 16"
    by (simp add: nibble_bounds)
  then show "q5_bits B qh qs i < 32" unfolding q5_bits_def using m by linarith
qed

lemma symmetric_quant_small: "\<bar>symmetric_quant ty B i\<bar> < 2 ^ 13"
proof -
  have s: "\<bar>sint (B ! (2 + i))\<bar> < 2 ^ 13"
    using sint_ge [of "B ! (2 + i)"] sint_lt [of "B ! (2 + i)"] by simp
  let ?n = "if i < 16 then byte_at B (2 + i) mod 16 else byte_at B (2 + (i - 16)) div 16"
  have "0 \<le> ?n" "?n < 16" by (simp_all add: nibble_bounds)
  moreover have "\<bar>x - 8\<bar> < 2 ^ 13" if "0 \<le> x" "x < 16" for x :: int using that by simp
  ultimately have n: "\<bar>?n - 8\<bar> < 2 ^ 13" by blast
  have "\<bar>q5_bits B 2 6 i - 16\<bar> < 2 ^ 13" using q5_bits_bounds [of B 2 6 i] by simp
  then show ?thesis unfolding symmetric_quant_def using s n by (simp only: split: if_split) simp
qed

text \<open>
  C35: In the formats with a scale and no offset (Q4_0, Q5_0, Q8_0) dequantization rounds nothing: for a finite scale the
  element is exactly the scale times the stored integer.
\<close>

theorem Dequantize_symmetric_exact:
  assumes "ty \<in> {TensorTypeQ4_0, TensorTypeQ5_0, TensorTypeQ8_0}" and "k < n"
    and "(k div 32 + 1) * type_bytes ty \<le> length data"
    and "f16_finite (scale_bits (nth_block (type_bytes ty) data (k div 32)))"
  shows "map_option (\<lambda>r. f32_val (r ! k)) (Dequantize fma data ty (int n)) =
    Some (f16_val (scale_bits (nth_block (type_bytes ty) data (k div 32)))
      * symmetric_quant ty (nth_block (type_bytes ty) data (k div 32)) (k mod 32) * 2 ^ 125)"
proof -
  let ?B = "nth_block (type_bytes ty) data (k div 32)"
  have bs: "type_block ty = 32" using assms(1) by (auto simp: type_sizes)
  have h: "half_at ?B 0 = f32_of_f16 (scale_bits ?B)" by (simp add: half_at_def scale_bits_def)
  note exact = half_times_int [OF assms(4) symmetric_quant_small, of ty ?B "k mod 32"]
  have "format_elem fma ty ?B (k mod 32) = f32_mul (half_at ?B 0) (f32_of_int (symmetric_quant ty ?B (k mod 32))) \<or>
      format_elem fma ty ?B (k mod 32) = f32_mul (f32_of_int (symmetric_quant ty ?B (k mod 32))) (half_at ?B 0)"
    using assms(1) by (elim insertE) (simp_all add: format_elem_def q4_0_elem_def q5_0_elem_def q8_0_elem_def symmetric_quant_def)
  then have "f32_val (format_elem fma ty ?B (k mod 32)) = f16_val (scale_bits ?B) * symmetric_quant ty ?B (k mod 32) * 2 ^ 125"
    unfolding h by (elim disjE) (simp_all only: exact)
  then show ?thesis
    using assms(2,3) by (simp add: Dequantize_values block_elem_def bs)
qed

definition demo_block :: "byte list" where
  "demo_block = [0x00, 0x38] @ map word_of_int [- 16..15]"

theorem Dequantize_symmetric_exact_witness:
  "map_option (\<lambda>r. f32_val (r ! 3)) (Dequantize False demo_block TensorTypeQ8_0 (int 32)) = Some (f16_val 0x3800 * (- 13) * 2 ^ 125)"
proof -
  have len: "length demo_block = 34" by (simp add: demo_block_def)
  have s: "scale_bits demo_block = 0x3800" and q: "demo_block ! 5 = word_of_int (- 13)"
    by (simp_all add: scale_bits_def demo_block_def byte_at_def nth_Cons' upto.simps)
  have b: "nth_block (type_bytes 8) demo_block (3 div 32) = demo_block"
    by (simp add: nth_block_def type_sizes len)
  have "f16_finite 0x3800" by (simp add: f16_finite_def f16_exp_def)
  then have "map_option (\<lambda>r. f32_val (r ! 3)) (Dequantize False demo_block TensorTypeQ8_0 (int 32)) =
      Some (f16_val 0x3800 * symmetric_quant 8 demo_block (3 mod 32) * 2 ^ 125)"
    using Dequantize_symmetric_exact [of 8 3 32 demo_block False] unfolding b s by (simp add: type_sizes len)
  moreover have "symmetric_quant 8 demo_block (3 mod 32) = - 13" by (simp add: symmetric_quant_def q)
  ultimately show ?thesis by simp
qed

end
