(* ===== verification/Gguf_Loader.thy ===== *)
theory Gguf_Loader
  imports Gguf_Props Dequant_Values Go_Strings
begin

text \<open>
  The file \<open>inference/pkg/gguf/loader.go\<close>: loading the tensors of a file by name, dequantized or raw, and the
  names of tensors. A loader is its file. \<open>PrintTensorStats\<close>, which only prints, is not modelled.
\<close>

section \<open>Loading\<close>

datatype loader_error =
    TensorNotFound string
  | ReadFailed gguf_error
  | OpenFailed gguf_error

record TensorLoader =
  tl_file :: GgufFile

definition NewTensorLoader :: "nat \<Rightarrow> byte list \<Rightarrow> (gguf_error + TensorLoader) option" where
  "NewTensorLoader lim bs = map_option (map_sum id (\<lambda>f. \<lparr>tl_file = f\<rparr>)) (Gguf_Open lim bs)"

definition Loader_File :: "TensorLoader \<Rightarrow> GgufFile" where
  "Loader_File l = tl_file l"

definition Loader_Architecture :: "TensorLoader \<Rightarrow> string" where
  "Loader_Architecture l = gf_Architecture (tl_file l)"

definition SupportedArchitectures :: "string set" where
  "SupportedArchitectures =
     {''llama'', ''mistral'', ''qwen2'', ''phi'', ''phi2'', ''phi3'', ''deepseek'', ''deepseek2'', ''gemma'', ''gemma2''}"

definition ValidateArchitecture :: "TensorLoader \<Rightarrow> bool \<times> string" where
  "ValidateArchitecture l =
     (let arch = Loader_Architecture l in
      if arch = '''' then (True, '''')
      else if arch \<in> SupportedArchitectures then (True, '''')
      else (False,
        ''Architecture '' @ [CHR 0x27] @ arch @ [CHR 0x27] @ '' may not be fully supported. '' @
        ''Vexel is optimized for LLaMA-family models (llama, mistral, qwen2). '' @
        ''Other architectures may produce incorrect results due to differences in '' @
        ''normalization (LayerNorm vs RMSNorm), FFN structure, or position encoding.''))"

text \<open>The loop that fills \<open>dims\<close> from its end.\<close>

fun reverse_dims :: "64 word list \<Rightarrow> int \<Rightarrow> int list \<Rightarrow> int list option" where
  "reverse_dims [] i dims = Some dims"
| "reverse_dims (d # ds) i dims = do { dims' \<leftarrow> upd dims (len dims - 1 - i) (sint d); reverse_dims ds (i + 1) dims' }"

definition tensor_dims :: "TensorInfo \<Rightarrow> int list option" where
  "tensor_dims info = do { dims \<leftarrow> make_slice (len (ti_Dimensions info)) 0; reverse_dims (ti_Dimensions info) 0 dims }"

definition LoadTensorRaw ::
    "nat \<Rightarrow> TensorLoader \<Rightarrow> string \<Rightarrow> (loader_error + byte list \<times> int list \<times> TensorType) option" where
  "LoadTensorRaw lim l name =
     (let (info, ok) = GetTensor (tl_file l) name in
      if \<not> ok then Some (Inl (TensorNotFound name))
      else do { r \<leftarrow> ReadTensorData lim (tl_file l) info;
                case r of
                  Inl e \<Rightarrow> Some (Inl (ReadFailed e))
                | Inr data \<Rightarrow> do { dims \<leftarrow> tensor_dims info; Some (Inr (data, dims, ti_Type info)) } })"

definition LoadTensor :: "nat \<Rightarrow> bool \<Rightarrow> TensorLoader \<Rightarrow> string \<Rightarrow> (loader_error + f32 list \<times> int list) option" where
  "LoadTensor lim fma l name =
     (let (info, ok) = GetTensor (tl_file l) name in
      if \<not> ok then Some (Inl (TensorNotFound name))
      else do { r \<leftarrow> ReadTensorData lim (tl_file l) info;
                case r of
                  Inl e \<Rightarrow> Some (Inl (ReadFailed e))
                | Inr data \<Rightarrow>
                    do { let numElements = sint (TensorInfo_NumElements info);
                         f32Data \<leftarrow> Dequantize fma data (ti_Type info) numElements;
                         dims \<leftarrow> tensor_dims info;
                         Some (Inr (f32Data, dims)) } })"

definition ListTensors :: "TensorLoader \<Rightarrow> string list" where
  "ListTensors l = map ti_Name (gf_Tensors (tl_file l))"

definition GetTensorInfo :: "TensorLoader \<Rightarrow> string \<Rightarrow> TensorInfo \<times> bool" where
  "GetTensorInfo l name = GetTensor (tl_file l) name"

definition count_type :: "TensorInfo \<Rightarrow> (TensorType \<rightharpoonup> int) \<Rightarrow> (TensorType \<rightharpoonup> int)" where
  "count_type t stats = stats(ti_Type t \<mapsto> (case stats (ti_Type t) of None \<Rightarrow> 0 | Some n \<Rightarrow> n) + 1)"

definition TensorStats :: "TensorLoader \<Rightarrow> (TensorType \<rightharpoonup> int)" where
  "TensorStats l = fold count_type (gf_Tensors (tl_file l)) Map.empty"

section \<open>Names\<close>

definition TensorNameMapping :: "(string \<times> string) list" where
  "TensorNameMapping =
     [(''model.embed_tokens.weight'', ''token_embd.weight''),
      (''lm_head.weight'', ''output.weight''),
      (''model.norm.weight'', ''output_norm.weight''),
      (''model.norm.bias'', ''output_norm.bias'')]"

text \<open>\<open>strings.Split(s, ".")\<close> and \<open>strings.Join(parts, ".")\<close>\<close>

fun split_char :: "char \<Rightarrow> string \<Rightarrow> string list" where
  "split_char c [] = [[]]"
| "split_char c (x # s) =
     (if x = c then [] # split_char c s
      else case split_char c s of [] \<Rightarrow> [[x]] | p # ps \<Rightarrow> (x # p) # ps)"

fun join_char :: "char \<Rightarrow> string list \<Rightarrow> string" where
  "join_char c [] = []"
| "join_char c [p] = p"
| "join_char c (p # q # ps) = p @ c # join_char c (q # ps)"

definition layer_suffixes :: "(string \<times> string) list" where
  "layer_suffixes =
     [(''self_attn.q_proj.weight'', ''attn_q.weight''),
      (''self_attn.k_proj.weight'', ''attn_k.weight''),
      (''self_attn.v_proj.weight'', ''attn_v.weight''),
      (''self_attn.q_proj.bias'', ''attn_q.bias''),
      (''self_attn.k_proj.bias'', ''attn_k.bias''),
      (''self_attn.v_proj.bias'', ''attn_v.bias''),
      (''self_attn.qkv_proj.weight'', ''attn_qkv.weight''),
      (''self_attn.qkv_proj.bias'', ''attn_qkv.bias''),
      (''self_attn.o_proj.weight'', ''attn_output.weight''),
      (''self_attn.o_proj.bias'', ''attn_output.bias''),
      (''mlp.gate_proj.weight'', ''ffn_gate.weight''),
      (''mlp.up_proj.weight'', ''ffn_up.weight''),
      (''mlp.down_proj.weight'', ''ffn_down.weight''),
      (''mlp.gate_up_proj.weight'', ''ffn_up.weight''),
      (''mlp.fc1.weight'', ''ffn_up.weight''),
      (''mlp.fc1.bias'', ''ffn_up.bias''),
      (''mlp.fc2.weight'', ''ffn_down.weight''),
      (''mlp.fc2.bias'', ''ffn_down.bias''),
      (''mlp.gate.weight'', ''ffn_gate_inp.weight''),
      (''mlp.experts.gate_proj.weight'', ''ffn_gate_exps.weight''),
      (''mlp.experts.up_proj.weight'', ''ffn_up_exps.weight''),
      (''mlp.experts.down_proj.weight'', ''ffn_down_exps.weight''),
      (''input_layernorm.weight'', ''attn_norm.weight''),
      (''input_layernorm.bias'', ''attn_norm.bias''),
      (''post_attention_layernorm.weight'', ''ffn_norm.weight''),
      (''post_attention_layernorm.bias'', ''ffn_norm.bias''),
      (''post_attention_norm.weight'', ''post_attention_norm.weight''),
      (''post_ffw_norm.weight'', ''post_ffw_norm.weight'')]"

definition GetLayerTensorName :: "string \<Rightarrow> string" where
  "GetLayerTensorName hfName =
     (if \<not> starts hfName ''model.layers.''
      then (case map_of TensorNameMapping hfName of Some mapped \<Rightarrow> mapped | None \<Rightarrow> hfName)
      else
        let parts = split_char CHR ''.'' hfName in
        if len parts < 4 then hfName
        else
          let layerIdx = parts ! 2; suffix = join_char CHR ''.'' (drop 3 parts) in
          case map_of layer_suffixes suffix of
            None \<Rightarrow> hfName
          | Some ggufSuffix \<Rightarrow> ''blk.'' @ layerIdx @ ''.'' @ ggufSuffix)"

section \<open>What a loaded tensor is\<close>

lemma reverse_dims_rev:
  "int (length ds) + i = len dims \<Longrightarrow> 0 \<le> i \<Longrightarrow>
   reverse_dims ds i dims = Some (rev (map sint ds) @ drop (length ds) dims)"
proof (induction ds arbitrary: i dims)
  case (Cons d ds)
  have k: "nat (len dims - 1 - i) = length ds" using Cons.prems by (simp add: len_def)
  have "length ds < length dims" using Cons.prems by (simp add: len_def)
  moreover have "upd dims (len dims - 1 - i) (sint d) = Some (dims[length ds := sint d])"
    using Cons.prems k by (simp add: upd_def)
  ultimately show ?case
    using Cons.IH [of "i + 1" "dims[length ds := sint d]"] Cons.prems
    by (simp add: drop_update_swap [symmetric] flip: Cons_nth_drop_Suc)
qed simp

lemma tensor_dims_eq: "tensor_dims t = Some (rev (map sint (ti_Dimensions t)))"
  using reverse_dims_rev [of "ti_Dimensions t" 0 "replicate (length (ti_Dimensions t)) 0"]
  by (simp add: tensor_dims_def make_slice_def len_def)

text \<open>The bytes of a tensor hold all its blocks in full.\<close>

lemma data_bytes_blocks:
  assumes "int k < elem_count t"
  shows "int ((k div type_block (ti_Type t) + 1) * type_bytes (ti_Type t)) \<le> data_bytes t"
proof -
  define b where "b = type_block (ti_Type t)"
  note c = block_constants [of "ti_Type t"]
  have b: "0 < b" "TensorType_BlockSize (ti_Type t) = int b" using c by (simp_all add: b_def type_block_def)
  have p: "TensorType_BytesPerBlock (ti_Type t) = int (type_bytes (ti_Type t))" using c by (simp add: type_bytes_def)
  have "int (k div b) + 1 = (int k + int b) div int b" using b by (simp add: zdiv_int div_add_self2)
  also have "\<dots> \<le> (elem_count t + int b - 1) div int b" using assms b by (intro zdiv_mono1) simp_all
  finally have "(int (k div b) + 1) * int (type_bytes (ti_Type t)) \<le>
      (elem_count t + int b - 1) div int b * int (type_bytes (ti_Type t))" by (rule mult_right_mono) simp
  then show ?thesis by (simp add: data_bytes_def Let_def b p distrib_right add.commute flip: b_def elem_count_def)
qed

lemma nth_block_take: "(b + 1) * p \<le> n \<Longrightarrow> nth_block p (take n xs) b = nth_block p xs b"
  by (simp add: nth_block_def drop_take min_def)


section \<open>Names of layers\<close>

lemma split_char_plain: "c \<notin> set p \<Longrightarrow> split_char c (p @ c # s) = p # split_char c s"
  by (induction p) auto

lemma split_char_join: "join_char c (split_char c s) = s"
proof (induction s)
  case (Cons x s)
  have ne: "split_char c s \<noteq> []" by (cases s) (auto split: list.splits)
  then obtain p ps where p: "split_char c s = p # ps" by (cases "split_char c s") auto
  then show ?case using Cons by (cases ps) auto
qed simp

lemma split_char_length: "1 \<le> len (split_char c s)"
  by (induction s) (auto split: list.splits)

lemma GetLayerTensorName_layer:
  assumes "map_of layer_suffixes suffix = Some g" and "CHR ''.'' \<notin> set i"
  shows "GetLayerTensorName (''model.layers.'' @ i @ ''.'' @ suffix) = ''blk.'' @ i @ ''.'' @ g"
proof -
  let ?s = "''model.layers.'' @ i @ ''.'' @ suffix"
  have "split_char CHR ''.'' ?s = ''model'' # ''layers'' # i # split_char CHR ''.'' suffix"
    using split_char_plain [of "CHR ''.''" "''model''"] split_char_plain [of "CHR ''.''" "''layers''"]
      split_char_plain [OF assms(2), of suffix] by simp
  moreover have "starts ?s ''model.layers.''" by (simp add: starts_def)
  moreover have "\<not> len (split_char CHR ''.'' suffix) < 1" using split_char_length [of "CHR ''.''" suffix] by linarith
  ultimately show ?thesis using assms(1) by (simp add: GetLayerTensorName_def split_char_join)
qed

definition demo_loader :: TensorLoader where
  "demo_loader =
     \<lparr>tl_file = (new_file [0, 0, 1, 2, 3, 4, 5, 6, 7, 8])\<lparr>gf_DataOffset := 2, gf_Tensors := [demo_tensor]\<rparr>\<rparr>"


end
