(* ===== verification/Sampler.thy ===== *)
theory Sampler
  imports Float32_Arith
begin

text \<open>
  The file \<open>inference/pkg/sampler/sampler.go\<close>: choosing a token from the logits. Three functions of the Go
  library are arguments: \<open>exp32 x\<close> is \<open>float32(math.Exp(float64(x)))\<close>; \<open>srt_vals\<close> and \<open>srt_pairs\<close> are
  \<open>sort.Slice\<close> with the two orders of the code, which leaves the order of equal elements open; and the random
  generator is a state with its next \<open>Float32()\<close>.
\<close>

record SamplerConfig =
  sm_Temperature :: f32
  sm_TopK :: int
  sm_TopP :: f32

text \<open>0.7, 40 and 0.9.\<close>

definition DefaultSamplerConfig :: SamplerConfig where
  "DefaultSamplerConfig = \<lparr>sm_Temperature = 0x3F333333, sm_TopK = 40, sm_TopP = 0x3F666666\<rparr>"

definition GreedyConfig :: SamplerConfig where
  "GreedyConfig = \<lparr>sm_Temperature = 0, sm_TopK = 0, sm_TopP = 0\<rparr>"

record 'g Sampler =
  smp_config :: SamplerConfig
  smp_rng :: 'g

definition NewSampler :: "(int \<Rightarrow> 'g) \<Rightarrow> SamplerConfig \<Rightarrow> int \<Rightarrow> 'g Sampler" where
  "NewSampler source config seed = \<lparr>smp_config = config, smp_rng = source seed\<rparr>"

section \<open>Greedy choice and softmax\<close>

fun sampler_argmax_loop :: "int \<Rightarrow> f32 list \<Rightarrow> f32 \<Rightarrow> int \<Rightarrow> int" where
  "sampler_argmax_loop i [] maxVal maxIdx = maxIdx"
| "sampler_argmax_loop i (v # vs) maxVal maxIdx =
     (if f32_less maxVal v then sampler_argmax_loop (i + 1) vs v i else sampler_argmax_loop (i + 1) vs maxVal maxIdx)"

definition Argmax :: "f32 list \<Rightarrow> int" where
  "Argmax logits = sampler_argmax_loop 0 logits f32_lowest 0"

fun max_loop :: "f32 list \<Rightarrow> f32 \<Rightarrow> f32" where
  "max_loop [] maxVal = maxVal"
| "max_loop (v # vs) maxVal = max_loop vs (if f32_less maxVal v then v else maxVal)"

text \<open>The exponentials and their running sum.\<close>

fun exp_loop :: "(f32 \<Rightarrow> f32) \<Rightarrow> f32 \<Rightarrow> f32 list \<Rightarrow> f32 \<Rightarrow> f32 list \<times> f32" where
  "exp_loop exp32 maxVal [] acc = ([], acc)"
| "exp_loop exp32 maxVal (v # vs) acc =
     (let p = exp32 (f32_sub v maxVal); (ps, s) = exp_loop exp32 maxVal vs (f32_add acc p) in (p # ps, s))"

definition softmax :: "(f32 \<Rightarrow> f32) \<Rightarrow> f32 list \<Rightarrow> f32 list" where
  "softmax exp32 logits =
     (let maxVal = max_loop logits f32_lowest; (probs, s) = exp_loop exp32 maxVal logits 0
      in map (\<lambda>p. f32_div p s) probs)"

section \<open>Filters\<close>

text \<open>\<open>if sum > 0 { for i := range probs { probs[i] /= sum } }\<close>\<close>

definition renormalize :: "f32 \<Rightarrow> f32 list \<Rightarrow> f32 list" where
  "renormalize s probs = (if f32_less 0 s then map (\<lambda>p. f32_div p s) probs else probs)"

fun cut_below :: "f32 \<Rightarrow> f32 list \<Rightarrow> f32 \<Rightarrow> f32 list \<times> f32" where
  "cut_below threshold [] acc = ([], acc)"
| "cut_below threshold (p # ps) acc =
     (if f32_less p threshold then (let (qs, s) = cut_below threshold ps acc in (0 # qs, s))
      else (let (qs, s) = cut_below threshold ps (f32_add acc p) in (p # qs, s)))"

definition topK :: "(f32 list \<Rightarrow> f32 list) \<Rightarrow> f32 list \<Rightarrow> int \<Rightarrow> f32 list option" where
  "topK srt_vals probs k =
     do { threshold \<leftarrow> idx (srt_vals probs) (k - 1);
          let (probs', s) = cut_below threshold probs 0;
          Some (renormalize s probs') }"

text \<open>The number of pairs up to and including the one at which the running sum exceeds \<open>p\<close>.\<close>

fun cutoff_loop :: "f32 \<Rightarrow> nat \<Rightarrow> (nat \<times> f32) list \<Rightarrow> f32 \<Rightarrow> nat option" where
  "cutoff_loop p i [] cumsum = None"
| "cutoff_loop p i (pair # pairs) cumsum =
     (let cumsum' = f32_add cumsum (snd pair) in
      if f32_less p cumsum' then Some (i + 1) else cutoff_loop p (i + 1) pairs cumsum')"

fun cut_outside :: "(nat \<Rightarrow> bool) \<Rightarrow> nat \<Rightarrow> f32 list \<Rightarrow> f32 \<Rightarrow> f32 list \<times> f32" where
  "cut_outside keep i [] acc = ([], acc)"
| "cut_outside keep i (p # ps) acc =
     (if \<not> keep i then (let (qs, s) = cut_outside keep (i + 1) ps acc in (0 # qs, s))
      else (let (qs, s) = cut_outside keep (i + 1) ps (f32_add acc p) in (p # qs, s)))"

definition nucleus :: "((nat \<times> f32) list \<Rightarrow> (nat \<times> f32) list) \<Rightarrow> f32 list \<Rightarrow> f32 \<Rightarrow> nat set" where
  "nucleus srt_pairs probs p =
     (let pairs = srt_pairs (List.enumerate 0 probs);
          cutoffIdx = (case cutoff_loop p 0 pairs 0 of None \<Rightarrow> length pairs | Some c \<Rightarrow> c)
      in fst ` set (take cutoffIdx pairs))"

definition topP :: "((nat \<times> f32) list \<Rightarrow> (nat \<times> f32) list) \<Rightarrow> f32 list \<Rightarrow> f32 \<Rightarrow> f32 list" where
  "topP srt_pairs probs p =
     (let keep = nucleus srt_pairs probs p; (probs', s) = cut_outside (\<lambda>i. i \<in> keep) 0 probs 0
      in renormalize s probs')"

section \<open>Sampling\<close>

fun pick_loop :: "f32 \<Rightarrow> int \<Rightarrow> f32 list \<Rightarrow> f32 \<Rightarrow> int option" where
  "pick_loop r i [] cumsum = None"
| "pick_loop r i (p # ps) cumsum =
     (let cumsum' = f32_add cumsum p in if f32_less r cumsum' then Some i else pick_loop r (i + 1) ps cumsum')"

definition sampleFromProbs :: "f32 list \<Rightarrow> f32 \<Rightarrow> int" where
  "sampleFromProbs probs r = (case pick_loop r 0 probs 0 of Some i \<Rightarrow> i | None \<Rightarrow> len probs - 1)"

text \<open>The probabilities after temperature and filters.\<close>

definition filtered_probs ::
    "(f32 \<Rightarrow> f32) \<Rightarrow> (f32 list \<Rightarrow> f32 list) \<Rightarrow> ((nat \<times> f32) list \<Rightarrow> (nat \<times> f32) list) \<Rightarrow> SamplerConfig \<Rightarrow> f32 list
     \<Rightarrow> f32 list option" where
  "filtered_probs exp32 srt_vals srt_pairs config logits =
     (let scaled = map (\<lambda>v. f32_div v (sm_Temperature config)) logits; probs = softmax exp32 scaled in
      do { probs \<leftarrow> (if 0 < sm_TopK config \<and> sm_TopK config < len probs
                     then topK srt_vals probs (sm_TopK config) else Some probs);
           Some (if f32_less 0 (sm_TopP config) \<and> f32_less (sm_TopP config) f32_one
                 then topP srt_pairs probs (sm_TopP config) else probs) })"

definition Sample ::
    "(f32 \<Rightarrow> f32) \<Rightarrow> (f32 list \<Rightarrow> f32 list) \<Rightarrow> ((nat \<times> f32) list \<Rightarrow> (nat \<times> f32) list) \<Rightarrow> ('g \<Rightarrow> f32 \<times> 'g)
     \<Rightarrow> 'g Sampler \<Rightarrow> f32 list \<Rightarrow> (int \<times> 'g Sampler) option" where
  "Sample exp32 srt_vals srt_pairs Float32 s logits =
     (if f32_eq (sm_Temperature (smp_config s)) 0 then Some (Argmax logits, s)
      else do { probs \<leftarrow> filtered_probs exp32 srt_vals srt_pairs (smp_config s) logits;
                let (r, g) = Float32 (smp_rng s);
                Some (sampleFromProbs probs r, s\<lparr>smp_rng := g\<rparr>) })"

end
