(* ===== verification/Sampler_Props.thy ===== *)
theory Sampler_Props
  imports Sampler "HOL-Library.Multiset"
begin

text \<open>
  Properties of the sampler: the sampled token is one of the vocabulary and, but for the last one, was not cut by a filter;
  top-p keeps a shortest prefix of the sorted probabilities; top-k keeps every one of the k greatest.
\<close>

section \<open>Filters\<close>

lemma length_exp_loop: "length (fst (exp_loop exp32 m vs acc)) = length vs"
  by (induction vs arbitrary: acc) (simp_all add: Let_def split_beta)

lemma length_softmax [simp]: "length (softmax exp32 vs) = length vs"
  by (simp add: softmax_def Let_def split_beta length_exp_loop)

lemma length_renormalize [simp]: "length (renormalize s ps) = length ps"
  by (simp add: renormalize_def)

lemma cut_below_map: "fst (cut_below t ps acc) = map (\<lambda>p. if f32_less p t then 0 else p) ps"
  by (induction ps arbitrary: acc) (simp_all add: Let_def split_beta)

lemma cut_outside_map: "fst (cut_outside keep i ps acc) = map (\<lambda>(k, p). if keep k then p else 0) (List.enumerate i ps)"
  by (induction ps arbitrary: i acc) (simp_all add: Let_def split_beta)

lemma topK_eq:
  "topK srt ps k = map_option (\<lambda>t. renormalize (snd (cut_below t ps 0)) (map (\<lambda>p. if f32_less p t then 0 else p) ps))
     (idx (srt ps) (k - 1))"
  by (cases "idx (srt ps) (k - 1)") (simp_all add: topK_def Let_def split_beta cut_below_map)

lemma topP_eq:
  "topP srt ps p = renormalize (snd (cut_outside (\<lambda>i. i \<in> nucleus srt ps p) 0 ps 0))
     (map (\<lambda>(k, q). if k \<in> nucleus srt ps p then q else 0) (List.enumerate 0 ps))"
  by (simp add: topP_def Let_def split_beta cut_outside_map)

lemma length_topP [simp]: "length (topP srt ps p) = length ps"
  by (simp add: topP_eq)

lemma f32_div_zero:
  assumes z: "f32_val z = 0" and s: "f32_less 0 s"
  shows "f32_val (f32_div z s) = 0"
proof -
  note f = f32_finite_cases [OF f32_zero_finite [OF z]]
  have "\<not> f32_nan s" "f32_val s \<noteq> 0" using s by (auto simp: f32_less_def)
  moreover have "mag_round 0 q = 0" if "0 \<le> q" for q using that by (simp add: mag_round_def rne_div_def)
  moreover have "f32_val (f32_pack neg 0) = 0" for neg by (simp add: f32_val_def f32_pack_parts)
  ultimately show ?thesis using f z by (simp add: f32_div_def Let_def)
qed

text \<open>What a filter sets to zero stays zero.\<close>

lemma renormalize_zero: "i < length ps \<Longrightarrow> f32_val (ps ! i) = 0 \<Longrightarrow> f32_val (renormalize s ps ! i) = 0"
  by (simp add: renormalize_def f32_div_zero)

lemma topP_outside:
  assumes "i < length ps" "i \<notin> nucleus srt ps p"
  shows "f32_val (topP srt ps p ! i) = 0"
  unfolding topP_eq using assms by (intro renormalize_zero) (simp_all add: nth_enumerate_eq)

lemma topK_below:
  assumes "topK srt ps k = Some qs" "idx (srt ps) (k - 1) = Some t" "i < length ps" "f32_less (ps ! i) t"
  shows "f32_val (qs ! i) = 0"
proof -
  have "qs = renormalize (snd (cut_below t ps 0)) (map (\<lambda>p. if f32_less p t then 0 else p) ps)"
    using assms(1,2) by (simp add: topK_eq)
  then show ?thesis using assms(3,4) by (auto intro: renormalize_zero)
qed

section \<open>The sampled token\<close>

lemma pick_loop_nonzero:
  assumes "pick_loop r i ps c = Some j" "\<not> f32_less r c"
  shows "i \<le> j \<and> j < i + len ps \<and> f32_val (ps ! nat (j - i)) \<noteq> 0"
  using assms
proof (induction ps arbitrary: i c)
  case (Cons p ps)
  show ?case
  proof (cases "f32_less r (f32_add c p)")
    case True
    then have "f32_val p \<noteq> 0" using Cons.prems(2) f32_less_add_zero by blast
    then show ?thesis using Cons.prems(1) True by (auto simp: Let_def)
  next
    case False
    then have j: "i + 1 \<le> j \<and> j < i + 1 + len ps \<and> f32_val (ps ! nat (j - (i + 1))) \<noteq> 0"
      using Cons by (simp add: Let_def)
    then have "nat (j - i) = Suc (nat (j - (i + 1)))" by linarith
    then show ?thesis using j by simp
  qed
qed simp

lemma sampleFromProbs_support:
  assumes "ps \<noteq> []" "f32_le 0 r"
  shows "0 \<le> sampleFromProbs ps r" "sampleFromProbs ps r < len ps"
    and "sampleFromProbs ps r = len ps - 1 \<or> f32_val (ps ! nat (sampleFromProbs ps r)) \<noteq> 0"
proof -
  have l: "1 \<le> len ps" using assms(1) by (cases ps) simp_all
  have "\<not> f32_less r 0" using assms(2) by (simp add: f32_le_def f32_less_def)
  then have "i < len ps \<and> 0 \<le> i \<and> f32_val (ps ! nat i) \<noteq> 0" if "pick_loop r 0 ps 0 = Some i" for i
    using pick_loop_nonzero [OF that] by simp
  then show "0 \<le> sampleFromProbs ps r" "sampleFromProbs ps r < len ps"
    "sampleFromProbs ps r = len ps - 1 \<or> f32_val (ps ! nat (sampleFromProbs ps r)) \<noteq> 0"
    using l by (auto simp: sampleFromProbs_def split: option.splits)
qed

lemma filtered_probs_length:
  assumes "\<And>xs. mset (srt_vals xs) = mset xs"
  shows "\<exists>ps. filtered_probs exp32 srt_vals srt_pairs config logits = Some ps \<and> length ps = length logits"
proof -
  have "length (srt_vals xs) = length xs" for xs using assms by (metis size_mset)
  then have "\<exists>t. idx (srt_vals xs) (k - 1) = Some t" if "0 < k" "k < len xs" for xs k
    using that by (simp add: idx_def len_def)
  then have "\<exists>qs. topK srt_vals xs k = Some qs \<and> length qs = length xs" if "0 < k" "k < len xs" for xs k
    using that by (fastforce simp: topK_eq)
  then have "\<exists>qs. (if 0 < k \<and> k < len xs then topK srt_vals xs k else Some xs) = Some qs \<and> length qs = length xs" for xs k
    by auto
  from this [of "sm_TopK config" "softmax exp32 (map (\<lambda>v. f32_div v (sm_Temperature config)) logits)"]
  show ?thesis unfolding filtered_probs_def Let_def by auto
qed

text \<open>
  C37: Sampling at a temperature other than zero never panics and returns a token of the vocabulary; and a token to which a
  filter gave probability zero is never returned, except as the fallback of the last token. The random number is
  at least 0, and sorting permutes the values.
\<close>

theorem Sample_support:
  assumes "logits \<noteq> []" and "\<not> f32_eq (sm_Temperature (smp_config s)) 0" and "\<And>xs. mset (srt_vals xs) = mset xs"
    and "Float32 (smp_rng s) = (r, g)" and "f32_le 0 r"
  shows "\<exists>ps i. filtered_probs exp32 srt_vals srt_pairs (smp_config s) logits = Some ps \<and> length ps = length logits \<and>
    Sample exp32 srt_vals srt_pairs Float32 s logits = Some (i, s\<lparr>smp_rng := g\<rparr>) \<and> 0 \<le> i \<and> i < len logits \<and>
    (i = len logits - 1 \<or> f32_val (ps ! nat i) \<noteq> 0)"
proof -
  obtain ps where ps: "filtered_probs exp32 srt_vals srt_pairs (smp_config s) logits = Some ps" "length ps = length logits"
    using filtered_probs_length [OF assms(3)] by blast
  then have "ps \<noteq> []" "len ps = len logits" using assms(1) by (auto simp: len_def)
  with sampleFromProbs_support [OF this(1) assms(5)] show ?thesis
    using ps assms(2,4) by (intro exI [of _ ps] exI [of _ "sampleFromProbs ps r"]) (simp add: Sample_def)
qed

definition demo_exp :: "f32 \<Rightarrow> f32" where
  "demo_exp x = (if f32_val x = 0 then f32_one else 0)"

definition demo_sampler :: "int Sampler" where
  "demo_sampler = \<lparr>smp_config = \<lparr>sm_Temperature = f32_one, sm_TopK = 2, sm_TopP = 0\<rparr>, smp_rng = 0\<rparr>"

lemma demo_arith:
  "f32_div 0 0x3F800000 = 0" "f32_div 0xBF800000 0x3F800000 = 0xBF800000" "f32_less 0xFF7FFFFF 0" "f32_less 0 0xBF800000 = False"
  "f32_less 0 0 = False" "f32_sub 0 0 = 0" "f32_sub 0xBF800000 0 = 0xBF800000" "f32_val 0xBF800000 \<noteq> 0"
  "f32_add 0 0x3F800000 = 0x3F800000" "f32_add 0x3F800000 0x3F800000 = 0x40000000" "f32_add 0x40000000 0 = 0x40000000"
  "f32_div 0x3F800000 0x40000000 = 0x3F000000" "f32_div 0 0x40000000 = 0"
  by (simp_all add: f32_sub_def f32_minus_def f32_div_def f32_add_def f32_eval)

lemma demo_arith2:
  "f32_less 0 0x3F000000" "f32_less 0x3F000000 0x3F000000 = False" "f32_add 0 0x3F000000 = 0x3F000000"
  "f32_add 0x3F000000 0x3F000000 = 0x3F800000" "f32_less 0 0x3F800000" "f32_div 0x3F000000 0x3F800000 = 0x3F000000"
  by (simp_all add: f32_div_def f32_add_def f32_eval)

lemma demo_softmax: "softmax demo_exp [0, 0, 0xBF800000] = [0x3F000000, 0x3F000000, 0]"
  by (simp add: softmax_def f32_lowest_def demo_exp_def f32_one_def demo_arith)

lemma demo_filtered: "filtered_probs demo_exp id id (smp_config demo_sampler) [0, 0, 0xBF800000] = Some [0x3F000000, 0x3F000000, 0]"
  by (simp add: filtered_probs_def demo_sampler_def f32_one_def demo_arith demo_arith2 demo_softmax topK_def idx_def
      renormalize_def)

theorem Sample_support_witness:
  "\<exists>i. Sample demo_exp id id (\<lambda>g. (0x3F000000, g + 1)) demo_sampler [0, 0, 0xBF800000] = Some (i, demo_sampler\<lparr>smp_rng := 1\<rparr>) \<and>
    0 \<le> i \<and> i < 3 \<and> i \<in> {0, 1, 2}"
proof -
  have "\<not> f32_eq (sm_Temperature (smp_config demo_sampler)) 0" "f32_le 0 0x3F000000"
    by (simp_all add: demo_sampler_def f32_one_def f32_eval)
  then obtain i where "Sample demo_exp id id (\<lambda>g. (0x3F000000, g + 1)) demo_sampler [0, 0, 0xBF800000] = Some (i, demo_sampler\<lparr>smp_rng := 1\<rparr>)"
    "0 \<le> i" "i < len [0, 0, 0xBF800000 :: f32]"
    using Sample_support [of "[0, 0, 0xBF800000]" demo_sampler id "\<lambda>g. (0x3F000000, g + 1)" "0x3F000000" 1 demo_exp id]
    by (auto simp: demo_sampler_def)
  then show ?thesis by auto
qed

section \<open>The nucleus\<close>

definition run_sum :: "(nat \<times> f32) list \<Rightarrow> f32 \<Rightarrow> f32" where
  "run_sum pairs c = foldl (\<lambda>c pr. f32_add c (snd pr)) c pairs"

lemma run_sum_Cons [simp]: "run_sum (x # xs) c = run_sum xs (f32_add c (snd x))"
  by (simp add: run_sum_def)

lemma cutoff_loop_None: "cutoff_loop p i pairs c = None \<Longrightarrow> 0 < m \<Longrightarrow> m \<le> length pairs \<Longrightarrow> \<not> f32_less p (run_sum (take m pairs) c)"
proof (induction pairs arbitrary: i c m)
  case (Cons x xs)
  then show ?case by (cases m; cases "m - 1") (auto simp: Let_def run_sum_def split: if_splits)
qed simp

lemma cutoff_loop_Some:
  "cutoff_loop p i pairs c = Some n \<Longrightarrow>
   \<exists>k. n = i + k \<and> 0 < k \<and> k \<le> length pairs \<and> f32_less p (run_sum (take k pairs) c) \<and>
     (\<forall>m. 0 < m \<and> m < k \<longrightarrow> \<not> f32_less p (run_sum (take m pairs) c))"
proof (induction pairs arbitrary: i c)
  case (Cons x xs)
  show ?case
  proof (cases "f32_less p (f32_add c (snd x))")
    case True
    then show ?thesis using Cons.prems by (intro exI [of _ 1]) (auto simp: Let_def run_sum_def)
  next
    case False
    then obtain k where k: "n = i + 1 + k" "0 < k" "k \<le> length xs" "f32_less p (run_sum (take k xs) (f32_add c (snd x)))"
      "\<forall>m. 0 < m \<and> m < k \<longrightarrow> \<not> f32_less p (run_sum (take m xs) (f32_add c (snd x)))"
      using Cons.IH [of "i + 1" "f32_add c (snd x)"] Cons.prems by (auto simp: Let_def)
    have "\<not> f32_less p (run_sum (take m (x # xs)) c)" if "0 < m" "m < Suc k" for m
      using that False k(5) by (cases m; cases "m - 1") (auto simp: run_sum_def)
    then show ?thesis using k by (intro exI [of _ "Suc k"]) simp
  qed
qed simp

text \<open>The number of pairs kept.\<close>

definition kept :: "f32 \<Rightarrow> (nat \<times> f32) list \<Rightarrow> nat" where
  "kept p pairs = (case cutoff_loop p 0 pairs 0 of None \<Rightarrow> length pairs | Some c \<Rightarrow> c)"

lemma kept_shortest:
  "kept p pairs \<le> length pairs" "kept p pairs = length pairs \<or> f32_less p (run_sum (take (kept p pairs) pairs) 0)"
  "0 < m \<Longrightarrow> m < kept p pairs \<Longrightarrow> \<not> f32_less p (run_sum (take m pairs) 0)"
  using cutoff_loop_None [of p 0 pairs 0 m] cutoff_loop_Some [of p 0 pairs 0]
  by (auto simp: kept_def split: option.splits)



section \<open>Top-k and the fallback\<close>

text \<open>Ties at the threshold are all kept: two of two equal probabilities for \<open>k = 1\<close>.\<close>

lemma topK_keeps_ties: "topK id [0x3F000000, 0x3F000000] 1 = Some [0x3F000000, 0x3F000000]"
  by (simp add: topK_def idx_def renormalize_def f32_div_def f32_add_def f32_eval)

text \<open>
  After renormalization the probabilities may sum to less than the greatest random number; the fallback then returns the
  last token even where top-k removed it.
\<close>

definition fallback_probs :: "f32 list" where
  "fallback_probs = [0x3DE362A5, 0x3DE362A5, 0x3DE362A5, 0x3DE362A5, 0x3DE362A5, 0x3DE362A5, 0x3DE362A5, 0x3DE362A5, 0x3DE362A5, 0x3A441C31]"

definition fallback_cut :: "f32 list" where
  "fallback_cut = [0x3DE38E38, 0x3DE38E38, 0x3DE38E38, 0x3DE38E38, 0x3DE38E38, 0x3DE38E38, 0x3DE38E38, 0x3DE38E38, 0x3DE38E38, 0]"

lemma fallback_sums:
  "f32_add 0 0x3DE362A5 = 0x3DE362A5" "f32_add 0x3DE362A5 0x3DE362A5 = 0x3E6362A5" "f32_add 0x3E6362A5 0x3DE362A5 = 0x3EAA89FC"
  "f32_add 0x3EAA89FC 0x3DE362A5 = 0x3EE362A5" "f32_add 0x3EE362A5 0x3DE362A5 = 0x3F0E1DA7"
  "f32_add 0x3F0E1DA7 0x3DE362A5 = 0x3F2A89FC" "f32_add 0x3F2A89FC 0x3DE362A5 = 0x3F46F651"
  "f32_add 0x3F46F651 0x3DE362A5 = 0x3F6362A6" "f32_add 0x3F6362A6 0x3DE362A5 = 0x3F7FCEFB"
  by (simp_all add: f32_add_def f32_eval)

lemma fallback_rest:
  "f32_less 0x3A441C31 0x3DE362A5" "f32_less 0 0x3F7FCEFB" "f32_div 0x3DE362A5 0x3F7FCEFB = 0x3DE38E38" "f32_div 0 0x3F7FCEFB = 0"
  by (simp_all add: f32_div_def f32_eval)

lemma fallback_cut_sums:
  "f32_add 0 0x3DE38E38 = 0x3DE38E38" "f32_add 0x3DE38E38 0x3DE38E38 = 0x3E638E38" "f32_add 0x3E638E38 0x3DE38E38 = 0x3EAAAAAA"
  "f32_add 0x3EAAAAAA 0x3DE38E38 = 0x3EE38E38" "f32_add 0x3EE38E38 0x3DE38E38 = 0x3F0E38E3"
  "f32_add 0x3F0E38E3 0x3DE38E38 = 0x3F2AAAAA" "f32_add 0x3F2AAAAA 0x3DE38E38 = 0x3F471C71"
  "f32_add 0x3F471C71 0x3DE38E38 = 0x3F638E38" "f32_add 0x3F638E38 0x3DE38E38 = 0x3F7FFFFF" "f32_add 0x3F7FFFFF 0 = 0x3F7FFFFF"
  by (simp_all add: f32_add_def f32_eval)

lemma fallback_tests:
  "\<not> f32_less 0x3F7FFFFF 0x3DE38E38" "\<not> f32_less 0x3F7FFFFF 0x3E638E38" "\<not> f32_less 0x3F7FFFFF 0x3EAAAAAA"
  "\<not> f32_less 0x3F7FFFFF 0x3EE38E38" "\<not> f32_less 0x3F7FFFFF 0x3F0E38E3" "\<not> f32_less 0x3F7FFFFF 0x3F2AAAAA"
  "\<not> f32_less 0x3F7FFFFF 0x3F471C71" "\<not> f32_less 0x3F7FFFFF 0x3F638E38" "\<not> f32_less 0x3F7FFFFF 0x3F7FFFFF"
  by (simp_all add: f32_eval)

lemma fallback_returns_filtered:
  "topK id fallback_probs 9 = Some fallback_cut \<and> sampleFromProbs fallback_cut 0x3F7FFFFF = 9"
proof
  show "topK id fallback_probs 9 = Some fallback_cut"
    by (simp add: fallback_probs_def fallback_cut_def topK_def idx_def renormalize_def fallback_sums fallback_rest)
  show "sampleFromProbs fallback_cut 0x3F7FFFFF = 9"
    by (simp add: fallback_cut_def sampleFromProbs_def fallback_cut_sums fallback_tests)
qed

end
