(* ===== verification/Medusa_Heads.thy ===== *)
theory Medusa_Heads
  imports Float32_Arith Bytes
begin

text \<open>
  The file \<open>inference/medusa/heads.go\<close>: the prediction heads, two linear layers with a SiLU between them,
  their update, their file format and the selection of the best tokens. Functions of the Go library are
  arguments: \<open>exp32 x\<close> is \<open>float32(math.Exp(float64(x)))\<close>, \<open>sigmoid32 x\<close> is
  \<open>float32(1.0 / (1.0 + math.Exp(float64(-x))))\<close>, \<open>rnd\<close> is \<open>rand.Float32\<close> on its state, \<open>sqrt2 n\<close> is
  \<open>float32(math.Sqrt(2.0 / float64(n)))\<close>, \<open>wr\<close> is the \<open>Write\<close> of a writer. \<open>lim\<close> is the largest length
  \<open>make\<close> can give. The lock makes each method one step.
\<close>

record Head =
  hd_FC1 :: "f32 list"
  hd_FC2 :: "f32 list"

record Heads =
  hs_NumHeads :: int
  hs_HiddenSize :: int
  hs_VocabSize :: int
  hs_heads :: "Head list"

definition silu :: "(f32 \<Rightarrow> f32) \<Rightarrow> f32 \<Rightarrow> f32" where
  "silu exp32 x = f32_div x (f32_add f32_one (exp32 (f32_minus x)))"

definition siluDerivative :: "(f32 \<Rightarrow> f32) \<Rightarrow> bool \<Rightarrow> f32 \<Rightarrow> f32" where
  "siluDerivative sigmoid32 fma x =
     (let sig = sigmoid32 x in f32_mul sig (f32_mul_add fma x (f32_sub f32_one sig) f32_one))"

section \<open>Creation\<close>

text \<open>\<open>(rand.Float32()*2 - 1) * scale\<close> for each element.\<close>

fun random_weights :: "('g \<Rightarrow> f32 \<times> 'g) \<Rightarrow> bool \<Rightarrow> f32 \<Rightarrow> nat \<Rightarrow> 'g \<Rightarrow> f32 list \<times> 'g" where
  "random_weights rnd fma scale 0 g = ([], g)"
| "random_weights rnd fma scale (Suc n) g =
     (let (r, g1) = rnd g; (ws, g2) = random_weights rnd fma scale n g1
      in (f32_mul (f32_mul_sub fma r (f32_of_int 2) f32_one) scale # ws, g2))"

fun random_heads :: "('g \<Rightarrow> f32 \<times> 'g) \<Rightarrow> bool \<Rightarrow> f32 \<Rightarrow> int \<Rightarrow> int \<Rightarrow> nat \<Rightarrow> 'g \<Rightarrow> (Head list \<times> 'g) option" where
  "random_heads rnd fma scale hiddenSize vocabSize 0 g = Some ([], g)"
| "random_heads rnd fma scale hiddenSize vocabSize (Suc n) g =
     (if hiddenSize * vocabSize < 0 then None
      else let (fc1, g1) = random_weights rnd fma scale (nat (hiddenSize * hiddenSize)) g;
               (fc2, g2) = random_weights rnd fma scale (nat (hiddenSize * vocabSize)) g1
           in do { (hds, g3) \<leftarrow> random_heads rnd fma scale hiddenSize vocabSize n g2;
                   Some (\<lparr>hd_FC1 = fc1, hd_FC2 = fc2\<rparr> # hds, g3) })"

definition NewHeads ::
  "('g \<Rightarrow> f32 \<times> 'g) \<Rightarrow> (int \<Rightarrow> f32) \<Rightarrow> bool \<Rightarrow> int \<Rightarrow> int \<Rightarrow> int \<Rightarrow> 'g \<Rightarrow> (Heads \<times> 'g) option" where
  "NewHeads rnd sqrt2 fma numHeads hiddenSize vocabSize g =
     (if numHeads < 0 then None
      else do { (hds, g1) \<leftarrow> random_heads rnd fma (sqrt2 hiddenSize) hiddenSize vocabSize (nat numHeads) g;
                Some (\<lparr>hs_NumHeads = numHeads, hs_HiddenSize = hiddenSize, hs_VocabSize = vocabSize,
                       hs_heads = hds\<rparr>, g1) })"

section \<open>The forward pass\<close>

text \<open>Column \<open>i\<close> of the product of a row vector of length \<open>n\<close> and a matrix with \<open>stride\<close> columns.\<close>

definition dot_col :: "bool \<Rightarrow> f32 list \<Rightarrow> f32 list \<Rightarrow> int \<Rightarrow> nat \<Rightarrow> nat \<Rightarrow> f32 option" where
  "dot_col fma xs w stride n i =
     foldM (\<lambda>j acc. do { x \<leftarrow> idx xs (int j); y \<leftarrow> idx w (int j * stride + int i); Some (f32_mul_add fma x y acc) })
       [0..<n] 0"

definition mat_vec :: "bool \<Rightarrow> f32 list \<Rightarrow> f32 list \<Rightarrow> nat \<Rightarrow> nat \<Rightarrow> f32 list option" where
  "mat_vec fma xs w n m = those (map (dot_col fma xs w (int m) n) [0..<m])"

text \<open>\<open>Some None\<close> is the nil slice for a head that does not exist.\<close>

definition Heads_Forward :: "(f32 \<Rightarrow> f32) \<Rightarrow> bool \<Rightarrow> Heads \<Rightarrow> int \<Rightarrow> f32 list \<Rightarrow> f32 list option option" where
  "Heads_Forward exp32 fma h headIdx hidden =
     (if headIdx < 0 \<or> headIdx \<ge> hs_NumHeads h then Some None
      else do { head \<leftarrow> idx (hs_heads h) headIdx;
                if hs_HiddenSize h < 0 \<or> hs_VocabSize h < 0 then None
                else do { pre \<leftarrow> mat_vec fma hidden (hd_FC1 head) (nat (hs_HiddenSize h)) (nat (hs_HiddenSize h));
                          logits \<leftarrow> mat_vec fma (map (silu exp32) pre) (hd_FC2 head)
                                      (nat (hs_HiddenSize h)) (nat (hs_VocabSize h));
                          Some (Some logits) } })"

text \<open>In the list of results a nil slice is the empty list.\<close>

definition nil_slice :: "'a list option \<Rightarrow> 'a list" where
  "nil_slice xs = (case xs of None \<Rightarrow> [] | Some ys \<Rightarrow> ys)"

definition Heads_ForwardAll :: "(f32 \<Rightarrow> f32) \<Rightarrow> bool \<Rightarrow> Heads \<Rightarrow> f32 list \<Rightarrow> f32 list list option" where
  "Heads_ForwardAll exp32 fma h hidden =
     (if hs_NumHeads h < 0 then None
      else those (map (\<lambda>i. map_option nil_slice (Heads_Forward exp32 fma h (int i) hidden)) [0..<nat (hs_NumHeads h)]))"

definition Heads_GetNumHeads :: "Heads \<Rightarrow> int" where
  "Heads_GetNumHeads h = hs_NumHeads h"

section \<open>The best tokens\<close>

text \<open>The scan for the largest value not yet used; \<open>-1\<close> if there is none above \<open>-MaxFloat32\<close>.\<close>

fun best_unused :: "(bool \<times> f32) list \<Rightarrow> int \<Rightarrow> int \<Rightarrow> f32 \<Rightarrow> int" where
  "best_unused [] j bestIdx bestVal = bestIdx"
| "best_unused ((used, v) # rest) j bestIdx bestVal =
     (if \<not> used \<and> f32_less bestVal v then best_unused rest (j + 1) j v
      else best_unused rest (j + 1) bestIdx bestVal)"

fun select_loop :: "f32 list \<Rightarrow> nat \<Rightarrow> bool list \<Rightarrow> int list" where
  "select_loop values 0 used = []"
| "select_loop values (Suc k) used =
     (let bestIdx = best_unused (zip used values) 0 (-1) f32_lowest
      in bestIdx # select_loop values k (if bestIdx \<ge> 0 then used[nat bestIdx := True] else used))"

definition heads_topK :: "f32 list \<Rightarrow> int \<Rightarrow> int list option" where
  "heads_topK values k =
     (let k' = (if k > len values then len values else k)
      in if k' < 0 then None else Some (select_loop values (nat k') (replicate (length values) False)))"

definition Heads_ForwardTopK :: "(f32 \<Rightarrow> f32) \<Rightarrow> bool \<Rightarrow> Heads \<Rightarrow> f32 list \<Rightarrow> int \<Rightarrow> int list list option" where
  "Heads_ForwardTopK exp32 fma h hidden k =
     do { allLogits \<leftarrow> Heads_ForwardAll exp32 fma h hidden; those (map (\<lambda>logits. heads_topK logits k) allLogits) }"

section \<open>Copies and updates\<close>

definition Heads_Clone :: "Heads \<Rightarrow> Heads option" where
  "Heads_Clone h =
     (if hs_NumHeads h < 0 then None
      else do { hds \<leftarrow> those (map (\<lambda>i. idx (hs_heads h) (int i)) [0..<nat (hs_NumHeads h)]);
                Some \<lparr>hs_NumHeads = hs_NumHeads h, hs_HiddenSize = hs_HiddenSize h, hs_VocabSize = hs_VocabSize h,
                      hs_heads = map (\<lambda>w. \<lparr>hd_FC1 = hd_FC1 w, hd_FC2 = hd_FC2 w\<rparr>) hds\<rparr> })"

text \<open>\<open>w[i] -= lr * grad[i]\<close>\<close>

definition descend :: "bool \<Rightarrow> f32 \<Rightarrow> f32 list \<Rightarrow> f32 list \<Rightarrow> f32 list option" where
  "descend fma lr grad w =
     those (map (\<lambda>i. do { x \<leftarrow> idx w (int i); g \<leftarrow> idx grad (int i); Some (f32_mul_add fma (f32_minus lr) g x) })
       [0..<length w])"

definition Heads_UpdateWeights :: "bool \<Rightarrow> int \<Rightarrow> f32 list \<Rightarrow> f32 list \<Rightarrow> f32 \<Rightarrow> Heads \<Rightarrow> Heads option" where
  "Heads_UpdateWeights fma headIdx grad1 grad2 lr h =
     (if headIdx < 0 \<or> headIdx \<ge> hs_NumHeads h then Some h
      else do { head \<leftarrow> idx (hs_heads h) headIdx;
                fc1 \<leftarrow> descend fma lr grad1 (hd_FC1 head);
                fc2 \<leftarrow> descend fma lr grad2 (hd_FC2 head);
                hds \<leftarrow> upd (hs_heads h) headIdx \<lparr>hd_FC1 = fc1, hd_FC2 = fc2\<rparr>;
                Some (h\<lparr>hs_heads := hds\<rparr>) })"

definition Heads_MemorySize :: "Heads \<Rightarrow> int" where
  "Heads_MemorySize h =
     (let perHead = hs_HiddenSize h * hs_HiddenSize h + hs_HiddenSize h * hs_VocabSize h
      in hs_NumHeads h * perHead * 4)"

section \<open>The file format\<close>

text \<open>The bytes of a slice of floats in memory, little-endian; \<open>&w[0]\<close> panics for an empty slice.\<close>

definition f32_bytes :: "f32 list \<Rightarrow> byte list" where
  "f32_bytes ws = concat (map (\<lambda>w. le_encode 4 (unat w)) ws)"

definition bulk_bytes :: "f32 list \<Rightarrow> byte list option" where
  "bulk_bytes ws = (if ws = [] then None else Some (f32_bytes ws))"

definition heads_header :: "Heads \<Rightarrow> byte list" where
  "heads_header h =
     bytes_of_string ''MDSA'' @ le_encode 4 1 @ le_encode 4 (nat (hs_NumHeads h mod 2 ^ 32)) @
     le_encode 4 (nat (hs_HiddenSize h mod 2 ^ 32)) @ le_encode 4 (nat (hs_VocabSize h mod 2 ^ 32))"

text \<open>The loop over the heads: the error of the first failing write, if any.\<close>

fun write_heads ::
  "(byte list \<Rightarrow> 'w \<Rightarrow> string option \<times> 'w) \<Rightarrow> Heads \<Rightarrow> int \<Rightarrow> nat \<Rightarrow> 'w \<Rightarrow> (string option \<times> 'w) option" where
  "write_heads wr h i 0 w = Some (None, w)"
| "write_heads wr h i (Suc k) w =
     do { head \<leftarrow> idx (hs_heads h) i;
          fc1Bytes \<leftarrow> bulk_bytes (hd_FC1 head);
          case wr fc1Bytes w of
            (Some e, w1) \<Rightarrow> Some (Some (''write FC1: '' @ e), w1)
          | (None, w1) \<Rightarrow>
              do { fc2Bytes \<leftarrow> bulk_bytes (hd_FC2 head);
                   case wr fc2Bytes w1 of
                     (Some e, w2) \<Rightarrow> Some (Some (''write FC2: '' @ e), w2)
                   | (None, w2) \<Rightarrow> write_heads wr h (i + 1) k w2 } }"

definition Heads_WriteTo ::
  "(byte list \<Rightarrow> 'w \<Rightarrow> string option \<times> 'w) \<Rightarrow> Heads \<Rightarrow> 'w \<Rightarrow> (string option \<times> 'w) option" where
  "Heads_WriteTo wr h w =
     (case wr (heads_header h) w of
        (Some e, w1) \<Rightarrow> Some (Some (''write header: '' @ e), w1)
      | (None, w1) \<Rightarrow> write_heads wr h 0 (nat (hs_NumHeads h)) w1)"

datatype heads_error =
    ReadHeader io_error
  | InvalidMagic string
  | UnsupportedVersion nat
  | ReadFC1 io_error
  | ReadFC2 io_error

fun f32s_of_bytes :: "byte list \<Rightarrow> f32 list" where
  "f32s_of_bytes (a # b # c # d # rest) = word_of_nat (le_nat [a, b, c, d]) # f32s_of_bytes rest"
| "f32s_of_bytes _ = []"

definition read_floats :: "(io_error \<Rightarrow> heads_error) \<Rightarrow> nat \<Rightarrow> (heads_error, f32 list) reader" where
  "read_floats w n bs =
     (if n = 0 then None
      else case read_full (4 * n) bs of
             (Inl e, r) \<Rightarrow> Some (Inl (w e), r)
           | (Inr b, r) \<Rightarrow> Some (Inr (f32s_of_bytes b), r))"

definition read_head :: "nat \<Rightarrow> nat \<Rightarrow> nat \<Rightarrow> (heads_error, Head) reader" where
  "read_head lim hiddenSize vocabSize =
     rbind (rmake lim (hiddenSize * hiddenSize)) (\<lambda>_.
     rbind (rmake lim (hiddenSize * vocabSize)) (\<lambda>_.
     rbind (read_floats ReadFC1 (hiddenSize * hiddenSize)) (\<lambda>fc1.
     rbind (read_floats ReadFC2 (hiddenSize * vocabSize)) (\<lambda>fc2.
     rpure \<lparr>hd_FC1 = fc1, hd_FC2 = fc2\<rparr>))))"

definition Heads_ReadFrom :: "nat \<Rightarrow> (heads_error, Heads) reader" where
  "Heads_ReadFrom lim bs =
     (case read_full 20 bs of
        (Inl e, r) \<Rightarrow> Some (Inl (ReadHeader e), r)
      | (Inr header, r) \<Rightarrow>
          let magic = string_of_bytes (take 4 header);
              version = le_nat (take 4 (drop 4 header));
              numHeads = le_nat (take 4 (drop 8 header));
              hiddenSize = le_nat (take 4 (drop 12 header));
              vocabSize = le_nat (take 4 (drop 16 header))
          in if magic \<noteq> ''MDSA'' then Some (Inl (InvalidMagic magic), r)
             else if version \<noteq> 1 then Some (Inl (UnsupportedVersion version), r)
             else rbind (rmake lim numHeads) (\<lambda>_. rbind (rlist (\<lambda>i. read_head lim hiddenSize vocabSize) 0 numHeads)
                    (\<lambda>hds. rpure \<lparr>hs_NumHeads = int numHeads, hs_HiddenSize = int hiddenSize,
                                  hs_VocabSize = int vocabSize, hs_heads = hds\<rparr>)) r)"

end
