(* ===== verification/Medusa_Trainer.thy ===== *)
theory Medusa_Trainer
  imports Medusa_Heads Medusa_Buffer Medusa_Tree Sampler
begin

text \<open>
  The file \<open>inference/medusa/trainer.go\<close>: online training of the prediction heads. A sample arrives with every
  decoded token; a background loop trains on the ticks of one timer and evaluates on those of another, and the
  phase goes from cold over warming to hot. The functions of the Go library are the fields of \<open>Mathlib\<close>; the
  random source of the buffer and of the initial weights are arguments. The two intervals, times and the no-op
  GPU lock are left out. The background goroutine is the flag \<open>ot_loop\<close> and its events.
\<close>

record Mathlib =
  ml_exp32 :: "f32 \<Rightarrow> f32"
  ml_sigmoid32 :: "f32 \<Rightarrow> f32"
  ml_nll32 :: "f32 \<Rightarrow> f32"
  ml_fma :: bool

section \<open>Phases\<close>

datatype TrainingPhase = PhaseCold | PhaseWarming | PhaseHot

fun phase_nat :: "TrainingPhase \<Rightarrow> nat" where
  "phase_nat PhaseCold = 0"
| "phase_nat PhaseWarming = 1"
| "phase_nat PhaseHot = 2"

lemma phase_nat_inj: "phase_nat p = phase_nat q \<Longrightarrow> p = q"
  by (cases p; cases q) simp_all

instantiation TrainingPhase :: linorder
begin

definition less_eq_TrainingPhase :: "TrainingPhase \<Rightarrow> TrainingPhase \<Rightarrow> bool" where
  "p \<le> q \<longleftrightarrow> phase_nat p \<le> phase_nat q"

definition less_TrainingPhase :: "TrainingPhase \<Rightarrow> TrainingPhase \<Rightarrow> bool" where
  "p < q \<longleftrightarrow> phase_nat p < phase_nat q"

instance
  by standard (auto simp: less_eq_TrainingPhase_def less_TrainingPhase_def phase_nat_inj)

end

fun TrainingPhase_String :: "TrainingPhase \<Rightarrow> string" where
  "TrainingPhase_String PhaseCold = ''cold''"
| "TrainingPhase_String PhaseWarming = ''warming''"
| "TrainingPhase_String PhaseHot = ''hot''"

record OnlineConfig =
  oc_NumHeads :: int
  oc_BufferCapacity :: int
  oc_WarmupSamples :: int
  oc_MinAccuracy :: f32
  oc_BatchSize :: int
  oc_LearningRate :: f32

text \<open>The accuracy is 0.3 and the learning rate 0.001.\<close>

definition DefaultOnlineConfig :: OnlineConfig where
  "DefaultOnlineConfig = \<lparr>oc_NumHeads = 4, oc_BufferCapacity = 50000, oc_WarmupSamples = 200,
     oc_MinAccuracy = 0x3E99999A, oc_BatchSize = 64, oc_LearningRate = 0x3A83126F\<rparr>"

record TrainingMetrics =
  tm_SamplesCollected :: int
  tm_TrainingSteps :: int
  tm_CurrentLoss :: f32
  tm_HeadAccuracies :: "f32 list"
  tm_Phase :: TrainingPhase

text \<open>\<open>ot_stopClosed\<close> and \<open>ot_doneClosed\<close> say whether the two channels have been closed.\<close>

record 'r OnlineTrainer =
  ot_heads :: Heads
  ot_buffer :: RingBuffer
  ot_config :: OnlineConfig
  ot_metrics :: TrainingMetrics
  ot_rng :: 'r
  ot_phase :: TrainingPhase
  ot_isRunning :: bool
  ot_loop :: bool
  ot_stopClosed :: bool
  ot_doneClosed :: bool

definition new_trainer :: "Heads \<Rightarrow> OnlineConfig \<Rightarrow> 'r \<Rightarrow> TrainingPhase \<Rightarrow> 'r OnlineTrainer option" where
  "new_trainer heads config rng phase =
     do { buffer \<leftarrow> NewRingBuffer (oc_BufferCapacity config);
          accuracies \<leftarrow> make_slice (oc_NumHeads config) 0;
          Some \<lparr>ot_heads = heads, ot_buffer = buffer, ot_config = config,
                ot_metrics = \<lparr>tm_SamplesCollected = 0, tm_TrainingSteps = 0, tm_CurrentLoss = 0,
                              tm_HeadAccuracies = accuracies, tm_Phase = PhaseCold\<rparr>,
                ot_rng = rng, ot_phase = phase, ot_isRunning = False, ot_loop = False, ot_stopClosed = False,
                ot_doneClosed = False\<rparr> }"

definition NewOnlineTrainer ::
  "('g \<Rightarrow> f32 \<times> 'g) \<Rightarrow> (int \<Rightarrow> f32) \<Rightarrow> bool \<Rightarrow> int \<Rightarrow> int \<Rightarrow> OnlineConfig \<Rightarrow> 'r \<Rightarrow> 'g \<Rightarrow> ('r OnlineTrainer \<times> 'g) option" where
  "NewOnlineTrainer rnd sqrt2 fma hiddenSize vocabSize config rng g =
     do { (heads, g1) \<leftarrow> NewHeads rnd sqrt2 fma (oc_NumHeads config) hiddenSize vocabSize g;
          t \<leftarrow> new_trainer heads config rng PhaseCold;
          Some (t, g1) }"

definition NewOnlineTrainerWithHeads :: "Heads \<Rightarrow> OnlineConfig \<Rightarrow> 'r \<Rightarrow> 'r OnlineTrainer option" where
  "NewOnlineTrainerWithHeads heads config rng = new_trainer heads config rng PhaseHot"

section \<open>Life cycle\<close>

definition OnlineTrainer_Start :: "'r OnlineTrainer \<Rightarrow> 'r OnlineTrainer" where
  "OnlineTrainer_Start t = (if ot_isRunning t then t else t\<lparr>ot_isRunning := True, ot_loop := True\<rparr>)"

text \<open>The end of \<open>trainingLoop\<close>, on either signal: closing a closed channel panics.\<close>

definition trainingLoop_exit :: "'r OnlineTrainer \<Rightarrow> 'r OnlineTrainer option" where
  "trainingLoop_exit t =
     (if \<not> ot_loop t then Some t
      else if ot_doneClosed t then None else Some (t\<lparr>ot_loop := False, ot_doneClosed := True\<rparr>))"

text \<open>\<open>Stop\<close> with the end of the loop that it waits for.\<close>

definition OnlineTrainer_Stop :: "'r OnlineTrainer \<Rightarrow> 'r OnlineTrainer option" where
  "OnlineTrainer_Stop t =
     (if \<not> ot_isRunning t then Some t
      else if ot_stopClosed t then None
      else do { t1 \<leftarrow> trainingLoop_exit (t\<lparr>ot_stopClosed := True\<rparr>); Some (t1\<lparr>ot_isRunning := False\<rparr>) })"

section \<open>Samples\<close>

text \<open>The three parts of \<open>AddSample\<close>: the sample and its count, the test of the phase, the change of phase.\<close>

definition AddSample_store :: "f32 list \<Rightarrow> int list \<Rightarrow> int \<Rightarrow> 'r OnlineTrainer \<Rightarrow> 'r OnlineTrainer option" where
  "AddSample_store hidden futureTokens pos t =
     do { rb \<leftarrow> RingBuffer_Add \<lparr>ts_HiddenState = hidden, ts_FutureTokens = futureTokens, ts_Position = pos\<rparr> (ot_buffer t);
          let m = ot_metrics t;
          Some (t\<lparr>ot_buffer := rb, ot_metrics := m\<lparr>tm_SamplesCollected := tm_SamplesCollected m + 1\<rparr>\<rparr>) }"

definition AddSample_test :: "'r OnlineTrainer \<Rightarrow> bool" where
  "AddSample_test t =
     (ot_phase t = PhaseCold \<and> RingBuffer_Count (ot_buffer t) \<ge> oc_WarmupSamples (ot_config t))"

definition AddSample_warm :: "'r OnlineTrainer \<Rightarrow> 'r OnlineTrainer" where
  "AddSample_warm t = t\<lparr>ot_phase := PhaseWarming\<rparr>"

definition OnlineTrainer_AddSample :: "f32 list \<Rightarrow> int list \<Rightarrow> int \<Rightarrow> 'r OnlineTrainer \<Rightarrow> 'r OnlineTrainer option" where
  "OnlineTrainer_AddSample hidden futureTokens pos t =
     do { t1 \<leftarrow> AddSample_store hidden futureTokens pos t;
          Some (if AddSample_test t1 then AddSample_warm t1 else t1) }"

definition OnlineTrainer_IsHot :: "'r OnlineTrainer \<Rightarrow> bool" where
  "OnlineTrainer_IsHot t = (ot_phase t = PhaseHot)"

definition OnlineTrainer_ForceHot :: "'r OnlineTrainer \<Rightarrow> 'r OnlineTrainer" where
  "OnlineTrainer_ForceHot t = t\<lparr>ot_phase := PhaseHot\<rparr>"

definition OnlineTrainer_Metrics :: "'r OnlineTrainer \<Rightarrow> TrainingMetrics" where
  "OnlineTrainer_Metrics t = (ot_metrics t)\<lparr>tm_Phase := ot_phase t\<rparr>"

section \<open>Training\<close>

definition train_softmax :: "(f32 \<Rightarrow> f32) \<Rightarrow> f32 list \<Rightarrow> f32 list option" where
  "train_softmax exp32 logits =
     do { v0 \<leftarrow> idx logits 0;
          let maxVal = max_loop logits v0;
          let (probs, s) = exp_loop exp32 maxVal logits 0;
          Some (map (\<lambda>p. f32_div p s) probs) }"

definition train_argmax :: "f32 list \<Rightarrow> int option" where
  "train_argmax values = do { v0 \<leftarrow> idx values 0; Some (argmax_loop values 0 0 v0) }"

text \<open>\<open>g[i*m+j] += x[i] * y[j]\<close> for all \<open>i\<close> and \<open>j\<close>.\<close>

definition add_outer_row :: "bool \<Rightarrow> nat \<Rightarrow> f32 list \<Rightarrow> f32 list \<Rightarrow> nat \<Rightarrow> f32 list \<Rightarrow> f32 list option" where
  "add_outer_row fma m xs ys i g =
     foldM (\<lambda>j g. do { x \<leftarrow> idx xs (int i); y \<leftarrow> idx ys (int j); old \<leftarrow> idx g (int (i * m + j));
                      upd g (int (i * m + j)) (f32_mul_add fma x y old) }) [0..<m] g"

definition add_outer :: "bool \<Rightarrow> nat \<Rightarrow> nat \<Rightarrow> f32 list \<Rightarrow> f32 list \<Rightarrow> f32 list \<Rightarrow> f32 list option" where
  "add_outer fma n m xs ys g = foldM (add_outer_row fma m xs ys) [0..<n] g"

text \<open>\<open>dLogits @ FC2^T\<close>\<close>

definition dot_row :: "bool \<Rightarrow> f32 list \<Rightarrow> f32 list \<Rightarrow> nat \<Rightarrow> nat \<Rightarrow> f32 option" where
  "dot_row fma ys w m i =
     foldM (\<lambda>j acc. do { y \<leftarrow> idx ys (int j); v \<leftarrow> idx w (int (i * m + j)); Some (f32_mul_add fma y v acc) }) [0..<m] 0"

text \<open>What one sample adds to the gradients; a sample without a usable target is skipped.\<close>

definition train_sample ::
  "Mathlib \<Rightarrow> Heads \<Rightarrow> int \<Rightarrow> TrainingSample \<Rightarrow> f32 list \<times> f32 list \<times> f32 \<times> int \<Rightarrow> (f32 list \<times> f32 list \<times> f32 \<times> int) option" where
  "train_sample M h headIdx smp = (\<lambda>(grad1, grad2, totalLoss, validSamples).
     if headIdx \<ge> len (ts_FutureTokens smp) then Some (grad1, grad2, totalLoss, validSamples)
     else
       do { targetToken \<leftarrow> idx (ts_FutureTokens smp) headIdx;
            if targetToken < 0 \<or> targetToken \<ge> hs_VocabSize h then Some (grad1, grad2, totalLoss, validSamples)
            else
              do { out \<leftarrow> Heads_Forward (ml_exp32 M) (ml_fma M) h headIdx (ts_HiddenState smp);
                   case out of
                     None \<Rightarrow> Some (grad1, grad2, totalLoss, validSamples)
                   | Some logits \<Rightarrow>
                       do { let n = nat (hs_HiddenSize h);
                            let v = nat (hs_VocabSize h);
                            probs \<leftarrow> train_softmax (ml_exp32 M) logits;
                            p \<leftarrow> idx probs targetToken;
                            dLogits \<leftarrow> upd probs targetToken (f32_sub p f32_one);
                            head \<leftarrow> idx (hs_heads h) headIdx;
                            preAct \<leftarrow> mat_vec (ml_fma M) (ts_HiddenState smp) (hd_FC1 head) n n;
                            let intermediate = map (silu (ml_exp32 M)) preAct;
                            grad2 \<leftarrow> add_outer (ml_fma M) n v intermediate dLogits grad2;
                            d \<leftarrow> those (map (dot_row (ml_fma M) dLogits (hd_FC2 head) v) [0..<n]);
                            let dIntermediate = map2 (\<lambda>x a. f32_mul x (siluDerivative (ml_sigmoid32 M) (ml_fma M) a)) d preAct;
                            grad1 \<leftarrow> add_outer (ml_fma M) n n (ts_HiddenState smp) dIntermediate grad1;
                            Some (grad1, grad2, f32_add totalLoss (ml_nll32 M p), validSamples + 1) } } })"

text \<open>The loss of the head and the heads after its update.\<close>

definition trainHead ::
  "Mathlib \<Rightarrow> f32 \<Rightarrow> int \<Rightarrow> TrainingSample list \<Rightarrow> Heads \<Rightarrow> (f32 \<times> Heads) option" where
  "trainHead M lr headIdx batch h =
     do { grad1 \<leftarrow> make_slice (hs_HiddenSize h * hs_HiddenSize h) 0;
          grad2 \<leftarrow> make_slice (hs_HiddenSize h * hs_VocabSize h) 0;
          (grad1, grad2, totalLoss, validSamples) \<leftarrow> foldM (train_sample M h headIdx) batch (grad1, grad2, 0, 0);
          if validSamples = 0 then Some (0, h)
          else
            do { let scale = f32_div f32_one (f32_of_int validSamples);
                 h' \<leftarrow> Heads_UpdateWeights (ml_fma M) headIdx (map (\<lambda>g. f32_mul g scale) grad1)
                         (map (\<lambda>g. f32_mul g scale) grad2) lr h;
                 Some (f32_div totalLoss (f32_of_int validSamples), h') } }"

fun train_heads ::
  "Mathlib \<Rightarrow> f32 \<Rightarrow> TrainingSample list \<Rightarrow> nat \<Rightarrow> nat \<Rightarrow> f32 \<Rightarrow> Heads \<Rightarrow> (f32 \<times> Heads) option" where
  "train_heads M lr batch i 0 totalLoss h = Some (totalLoss, h)"
| "train_heads M lr batch i (Suc k) totalLoss h =
     do { (loss, h') \<leftarrow> trainHead M lr (int i) batch h;
          train_heads M lr batch (Suc i) k (f32_add totalLoss loss) h' }"

definition trainStep :: "Mathlib \<Rightarrow> ('r \<Rightarrow> int \<Rightarrow> int \<times> 'r) \<Rightarrow> 'r OnlineTrainer \<Rightarrow> 'r OnlineTrainer option" where
  "trainStep M intn t =
     do { (batch, r) \<leftarrow> RingBuffer_Sample intn (oc_BatchSize (ot_config t)) (ot_buffer t) (ot_rng t);
          let t1 = t\<lparr>ot_rng := r\<rparr>;
          if len batch = 0 then Some t1
          else
            do { let n = oc_NumHeads (ot_config t);
                 (totalLoss, h) \<leftarrow> train_heads M (oc_LearningRate (ot_config t)) batch 0 (nat n) 0 (ot_heads t1);
                 let m = ot_metrics t1;
                 Some (t1\<lparr>ot_heads := h, ot_metrics := m\<lparr>tm_CurrentLoss := f32_div totalLoss (f32_of_int n),
                                                       tm_TrainingSteps := tm_TrainingSteps m + 1\<rparr>\<rparr>) } }"

section \<open>Evaluation\<close>

definition eval_sample :: "Mathlib \<Rightarrow> Heads \<Rightarrow> int \<Rightarrow> TrainingSample \<Rightarrow> int \<times> int \<Rightarrow> (int \<times> int) option" where
  "eval_sample M h headIdx smp = (\<lambda>(correct, total).
     if headIdx \<ge> len (ts_FutureTokens smp) then Some (correct, total)
     else
       do { targetToken \<leftarrow> idx (ts_FutureTokens smp) headIdx;
            out \<leftarrow> Heads_Forward (ml_exp32 M) (ml_fma M) h headIdx (ts_HiddenState smp);
            case out of
              None \<Rightarrow> Some (correct, total)
            | Some logits \<Rightarrow>
                do { predToken \<leftarrow> train_argmax logits;
                     Some (if predToken = targetToken then correct + 1 else correct, total + 1) } })"

definition eval_head :: "Mathlib \<Rightarrow> Heads \<Rightarrow> TrainingSample list \<Rightarrow> int \<Rightarrow> f32 option" where
  "eval_head M h batch headIdx =
     do { (correct, total) \<leftarrow> foldM (eval_sample M h headIdx) batch (0, 0);
          Some (if total > 0 then f32_div (f32_of_int correct) (f32_of_int total) else 0) }"

text \<open>\<open>copy(dst, src)\<close>\<close>

definition copy_over :: "'a list \<Rightarrow> 'a list \<Rightarrow> 'a list" where
  "copy_over dst src = take (length dst) src @ drop (length src) dst"

definition evaluate :: "Mathlib \<Rightarrow> ('r \<Rightarrow> int \<Rightarrow> int \<times> 'r) \<Rightarrow> 'r OnlineTrainer \<Rightarrow> 'r OnlineTrainer option" where
  "evaluate M intn t =
     do { (batch, r) \<leftarrow> RingBuffer_Sample intn (oc_BatchSize (ot_config t) * 4) (ot_buffer t) (ot_rng t);
          let t1 = t\<lparr>ot_rng := r\<rparr>;
          if len batch = 0 then Some t1
          else if oc_NumHeads (ot_config t) < 0 then None
          else
            do { accuracies \<leftarrow> those (map (\<lambda>i. eval_head M (ot_heads t1) batch (int i)) [0..<nat (oc_NumHeads (ot_config t))]);
                 let m = ot_metrics t1;
                 let t2 = t1\<lparr>ot_metrics := m\<lparr>tm_HeadAccuracies := copy_over (tm_HeadAccuracies m) accuracies\<rparr>\<rparr>;
                 if ot_phase t2 = PhaseWarming then
                   do { a \<leftarrow> idx accuracies 0;
                        Some (if f32_le (oc_MinAccuracy (ot_config t2)) a then t2\<lparr>ot_phase := PhaseHot\<rparr> else t2) }
                 else Some t2 } }"

text \<open>The two cases of \<open>trainingLoop\<close> for the timers.\<close>

definition train_tick :: "Mathlib \<Rightarrow> ('r \<Rightarrow> int \<Rightarrow> int \<times> 'r) \<Rightarrow> 'r OnlineTrainer \<Rightarrow> 'r OnlineTrainer option" where
  "train_tick M intn t = (if ot_phase t \<ge> PhaseWarming then trainStep M intn t else Some t)"

definition eval_tick :: "Mathlib \<Rightarrow> ('r \<Rightarrow> int \<Rightarrow> int \<times> 'r) \<Rightarrow> 'r OnlineTrainer \<Rightarrow> 'r OnlineTrainer option" where
  "eval_tick M intn t = (if ot_phase t \<ge> PhaseWarming then evaluate M intn t else Some t)"

section \<open>Events\<close>

text \<open>
  What can happen to a trainer, each event being one step: calls by the scheduler, ticks while the loop runs,
  and the end of its context.
\<close>

datatype train_event =
    EvSample "f32 list" "int list" int
  | EvTrain
  | EvEval
  | EvForceHot
  | EvStart
  | EvStop
  | EvDone

fun trainer_event ::
  "Mathlib \<Rightarrow> ('r \<Rightarrow> int \<Rightarrow> int \<times> 'r) \<Rightarrow> train_event \<Rightarrow> 'r OnlineTrainer \<Rightarrow> 'r OnlineTrainer option" where
  "trainer_event M intn (EvSample hidden toks pos) t = OnlineTrainer_AddSample hidden toks pos t"
| "trainer_event M intn EvTrain t = (if ot_loop t then train_tick M intn t else Some t)"
| "trainer_event M intn EvEval t = (if ot_loop t then eval_tick M intn t else Some t)"
| "trainer_event M intn EvForceHot t = Some (OnlineTrainer_ForceHot t)"
| "trainer_event M intn EvStart t = Some (OnlineTrainer_Start t)"
| "trainer_event M intn EvStop t = OnlineTrainer_Stop t"
| "trainer_event M intn EvDone t = trainingLoop_exit t"

end
