(* ===== verification/Medusa_Scheduler.thy ===== *)
theory Medusa_Scheduler
  imports Speculative Medusa_Tree Medusa_Trainer
begin

text \<open>
  The file \<open>inference/scheduler/medusa_scheduler.go\<close>: decoding with Medusa heads that are trained while the
  model generates. The trainer is the interface \<open>medusa.Trainer\<close> with a state of its own; the trainer of
  \<open>medusa/trainer.go\<close> is one instance. The forward passes that also return hidden states are parameters, as in
  \<open>Engine\<close>; a nil slice is \<open>None\<close>. Locks, times, the debug output and the loop of \<open>Run\<close> are left out; the
  background training runs between steps.
\<close>

section \<open>The trainer and the engine\<close>

record 't Trainer =
  tr_IsHot :: "'t \<Rightarrow> bool"
  tr_AddSample :: "f32 list \<Rightarrow> int list \<Rightarrow> int \<Rightarrow> 't \<Rightarrow> 't option"
  tr_GetNumHeads :: "'t \<Rightarrow> int"
  tr_Forward :: "'t \<Rightarrow> int \<Rightarrow> f32 list \<Rightarrow> f32 list option option"
  tr_ForwardAll :: "'t \<Rightarrow> f32 list \<Rightarrow> f32 list list option"

definition online_trainer :: "Mathlib \<Rightarrow> 'r OnlineTrainer Trainer" where
  "online_trainer M =
     \<lparr>tr_IsHot = OnlineTrainer_IsHot, tr_AddSample = OnlineTrainer_AddSample,
      tr_GetNumHeads = (\<lambda>t. Heads_GetNumHeads (ot_heads t)),
      tr_Forward = (\<lambda>t. Heads_Forward (ml_exp32 M) (ml_fma M) (ot_heads t)),
      tr_ForwardAll = (\<lambda>t. Heads_ForwardAll (ml_exp32 M) (ml_fma M) (ot_heads t))\<rparr>"

type_synonym ('f, 'd, 'h) hidden_forward = "('f, 'd) Runtime \<Rightarrow> (string + Tensor \<times> 'h) \<times> ('f, 'd) Runtime"

record ('f, 'd, 's, 't) MedusaEngine =
  me_base :: "('f, 'd, 's) Engine"
  me_trainer :: "'t Trainer"
  me_DecodeWithGPUKVAndHidden :: "int list \<Rightarrow> int \<Rightarrow> ('f, 'd, f32 list option) hidden_forward"
  me_DecodeWithPagedKVAndHidden :: "int list \<Rightarrow> int \<Rightarrow> int \<Rightarrow> ('f, 'd, f32 list option) hidden_forward"
  me_VerifySpeculativeWithHidden :: "int list \<Rightarrow> int \<Rightarrow> ('f, 'd, f32 list option list) hidden_forward"
  me_VerifySpeculativeWithPagedKVAndHidden :: "int list \<Rightarrow> int \<Rightarrow> int \<Rightarrow> ('f, 'd, f32 list option list) hidden_forward"
  me_sort_entries :: "(nat \<times> f32) list \<Rightarrow> (nat \<times> f32) list"
  me_sort_paths :: "CandidatePath list \<Rightarrow> CandidatePath list"

record MedusaConfig =
  mc_EnableOnlineTraining :: bool
  mc_UseGPUTraining :: bool
  mc_HeadsPath :: string
  mc_NumHeads :: int
  mc_UseTreeVerification :: bool
  mc_TreeTopK :: int
  mc_TreeMaxNodes :: int
  mc_TrainingConfig :: OnlineConfig

definition DefaultMedusaConfig :: MedusaConfig where
  "DefaultMedusaConfig =
     \<lparr>mc_EnableOnlineTraining = True, mc_UseGPUTraining = False, mc_HeadsPath = [], mc_NumHeads = 4,
      mc_UseTreeVerification = True, mc_TreeTopK = 3, mc_TreeMaxNodes = 64,
      mc_TrainingConfig = DefaultOnlineConfig\<rparr>"

record ('f, 'd, 's, 't) MedusaScheduler =
  ms_base :: "('f, 'd, 's) Scheduler"
  ms_trainer :: "'t option"
  ms_config :: MedusaConfig
  ms_recentTokens :: "int list"
  ms_recentHiddens :: "f32 list list"
  ms_maxRecent :: int
  ms_lastHidden :: "f32 list option"
  ms_specMetrics :: SpeculativeMetrics
  ms_recentAccepted :: "int list"
  ms_recentIdx :: int
  ms_recentFull :: bool
  ms_probeCounter :: int

text \<open>
  Creation: \<open>loaded\<close> is the trainer made from the heads of \<open>HeadsPath\<close> if they could be loaded, \<open>lmHead\<close> the
  output weights of the runtime, and \<open>gpu\<close> the trainer \<open>createGPUTrainer\<close> gives, if it is asked for and gives one.
  The first thousand weights are inspected for a message.
\<close>

definition NewMedusaScheduler ::
  "('f, 'd, 's) Scheduler \<Rightarrow> MedusaConfig \<Rightarrow> 't option \<Rightarrow> f32 list option \<Rightarrow> 't option \<Rightarrow>
   (string + ('f, 'd, 's, 't) MedusaScheduler) option" where
  "NewMedusaScheduler base config loaded lmHead gpu =
     (let ms = \<lparr>ms_base = base, ms_trainer = None, ms_config = config, ms_recentTokens = [], ms_recentHiddens = [],
                ms_maxRecent = mc_NumHeads config + 1, ms_lastHidden = None, ms_specMetrics = zero_spec_metrics,
                ms_recentAccepted = replicate 4 0, ms_recentIdx = 0, ms_recentFull = False, ms_probeCounter = 0\<rparr>
      in if mc_NumHeads config + 1 < 0 then None
         else if \<not> mc_EnableOnlineTraining config then Some (Inr ms)
         else case loaded of
                Some t \<Rightarrow> Some (Inr (ms\<lparr>ms_trainer := Some t\<rparr>))
              | None \<Rightarrow>
                  if (case lmHead of None \<Rightarrow> False | Some w \<Rightarrow> len w < 1000) then None
                  else case gpu of
                         Some t \<Rightarrow> Some (Inr (ms\<lparr>ms_trainer := Some t\<rparr>))
                       | None \<Rightarrow> Some (Inl (''CPU Medusa training is not supported; GPU training required '' @
                           ''(use -gpu-training=true or ensure Metal backend is available)'')))"

section \<open>Logits\<close>

text \<open>Unlike the scheduler's own \<open>getLogitsOnCPU\<close>, this one applies no soft cap.\<close>

definition Medusa_getLogitsOnCPU ::
  "('f, 'd, 's) Engine \<Rightarrow> ('f, 'd) Runtime \<Rightarrow> Tensor \<Rightarrow> int \<Rightarrow> f32 list option option" where
  "Medusa_getLogitsOnCPU e rt logits numElements =
     (let ptr = t_devicePtr logits in
      if DevicePtr_IsNil ptr then Some None
      else if DevicePtr_Location ptr = CPU
      then Some (Some (map (en_cpu e rt ptr) [0..<nat (Tensor_NumElements logits)]))
      else case rt_backend rt of
             None \<Rightarrow> Some None
           | Some d \<Rightarrow> if numElements \<le> 0 then None else Some (Some (map (en_host e d ptr) [0..<nat numElements])))"

definition argmaxFloat32 :: "f32 list \<Rightarrow> int" where
  "argmaxFloat32 values = (if len values = 0 then 0 else argmax_loop values 0 0 (hd values))"

section \<open>Adaptive speculation\<close>

definition recordAcceptance ::
  "int \<Rightarrow> ('f, 'd, 's, 't) MedusaScheduler \<Rightarrow> ('f, 'd, 's, 't) MedusaScheduler option" where
  "recordAcceptance accepted ms =
     do { w \<leftarrow> upd (ms_recentAccepted ms) (ms_recentIdx ms) accepted;
          i \<leftarrow> go_mod (ms_recentIdx ms + 1) (len w);
          Some (ms\<lparr>ms_recentAccepted := w, ms_recentIdx := i, ms_recentFull := (i = 0 \<or> ms_recentFull ms)\<rparr>) }"

text \<open>
  The mean of the window is at least one half. The code divides in float64, which is exact enough to decide it:
  one half is a float64 and rounding is monotone.
\<close>

definition speculationEnabled :: "('f, 'd, 's, 't) MedusaScheduler \<Rightarrow> bool" where
  "speculationEnabled ms =
     (ms_recentFull ms \<and> 2 * sum_list (ms_recentAccepted ms) \<ge> len (ms_recentAccepted ms))"

definition probeSpeculation ::
  "('f, 'd, 's, 't) MedusaEngine \<Rightarrow> SequenceID list \<Rightarrow> ('f, 'd, 's, 't) MedusaScheduler \<Rightarrow> ('f, 'd, 's, 't) MedusaScheduler option" where
  "probeSpeculation e batch ms =
     (case (batch, ms_lastHidden ms, ms_trainer ms) of
        (i # _, Some hidden, Some t) \<Rightarrow>
          do { q \<leftarrow> sc_sequences (ms_base ms) i;
               if len (sq_generatedTokens q) < 2 then Some ms
               else
                 do { out \<leftarrow> tr_Forward (me_trainer e) t 0 hidden;
                      case out of
                        None \<Rightarrow> Some ms
                      | Some logits \<Rightarrow>
                          recordAcceptance (if argmaxFloat32 logits = last (sq_generatedTokens q) then 1 else 0) ms } }
      | _ \<Rightarrow> Some ms)"

section \<open>Decoding with collection of training samples\<close>

text \<open>The window of pairs of a hidden state and its token; the oldest pair becomes a sample and leaves.\<close>

definition collectTrainingSample ::
  "('f, 'd, 's, 't) MedusaEngine \<Rightarrow> f32 list \<Rightarrow> int \<Rightarrow> ('f, 'd, 's, 't) MedusaScheduler \<Rightarrow> ('f, 'd, 's, 't) MedusaScheduler option" where
  "collectTrainingSample e hidden tokenID ms =
     (let tokens = ms_recentTokens ms @ [tokenID]; hiddens = ms_recentHiddens ms @ [hidden];
          ms1 = ms\<lparr>ms_recentTokens := tokens, ms_recentHiddens := hiddens\<rparr>
      in if len tokens \<ge> mc_NumHeads (ms_config ms) then
           do { oldest \<leftarrow> idx hiddens 0;
                futureTokens \<leftarrow> slice tokens 0 (mc_NumHeads (ms_config ms));
                t \<leftarrow> ms_trainer ms;
                t' \<leftarrow> tr_AddSample (me_trainer e) oldest futureTokens (len tokens) t;
                Some (ms1\<lparr>ms_trainer := Some t', ms_recentTokens := tl tokens, ms_recentHiddens := tl hiddens\<rparr>) }
         else Some ms1)"

definition no_hidden :: "('f, 'd) forward \<Rightarrow> ('f, 'd, f32 list option) hidden_forward" where
  "no_hidden f rt = (case f rt of (Inl err, rt1) \<Rightarrow> (Inl err, rt1) | (Inr l, rt1) \<Rightarrow> (Inr (l, None), rt1))"

definition training_forward ::
  "('f, 'd, 's, 't) MedusaEngine \<Rightarrow> bool \<Rightarrow> bool \<Rightarrow> bool \<Rightarrow> int \<Rightarrow> int \<Rightarrow> int \<Rightarrow> ('f, 'd, f32 list option) hidden_forward" where
  "training_forward e hasTrainer useGPU usePaged token pos kvSeqID =
     (if useGPU \<and> hasTrainer then me_DecodeWithGPUKVAndHidden e [token] pos
      else if useGPU then no_hidden (en_DecodeWithGPUKV (me_base e) [token] pos)
      else if usePaged \<and> hasTrainer then me_DecodeWithPagedKVAndHidden e [token] kvSeqID pos
      else if usePaged then no_hidden (en_DecodeWithPagedKV (me_base e) [token] kvSeqID pos)
      else no_hidden (en_DecodeStep (me_base e) [token] [pos]))"

definition run_pass ::
  "('f, 'd, 'h) hidden_forward \<Rightarrow> ('f, 'd, 's, 't) MedusaScheduler \<Rightarrow> (string + Tensor \<times> 'h) \<times> ('f, 'd, 's, 't) MedusaScheduler" where
  "run_pass f ms =
     (let (r, rt) = f (sc_runtime (ms_base ms)) in (r, ms\<lparr>ms_base := (ms_base ms)\<lparr>sc_runtime := rt\<rparr>\<rparr>))"

definition ms_sample :: "('f, 'd, 's) Engine \<Rightarrow> f32 list \<Rightarrow> ('f, 'd, 's, 't) MedusaScheduler \<Rightarrow> int \<times> ('f, 'd, 's, 't) MedusaScheduler" where
  "ms_sample e xs ms = (let (t, s) = s_sample e xs (ms_base ms) in (t, ms\<lparr>ms_base := s\<rparr>))"

definition ms_put :: "SequenceID \<Rightarrow> Sequence \<Rightarrow> ('f, 'd, 's, 't) MedusaScheduler \<Rightarrow> ('f, 'd, 's, 't) MedusaScheduler" where
  "ms_put i q ms = ms\<lparr>ms_base := put_seq i q (ms_base ms)\<rparr>"

definition ms_count :: "int \<Rightarrow> ('f, 'd, 's, 't) MedusaScheduler \<Rightarrow> ('f, 'd, 's, 't) MedusaScheduler" where
  "ms_count n ms = ms\<lparr>ms_base := count_decoded n (ms_base ms)\<rparr>"

text \<open>What follows the forward pass for one sequence.\<close>

definition training_emit ::
  "('f, 'd, 's, 't) MedusaEngine \<Rightarrow> SequenceID \<Rightarrow> Tensor \<Rightarrow> f32 list option \<Rightarrow> ('f, 'd, 's, 't) MedusaScheduler \<Rightarrow>
   ('f, 'd, 's, 't) MedusaScheduler option" where
  "training_emit e i logits hidden ms =
     do { q \<leftarrow> sc_sequences (ms_base ms) i;
          data \<leftarrow> Medusa_getLogitsOnCPU (me_base e) (sc_runtime (ms_base ms)) logits (en_vocab (me_base e));
          case data of
            None \<Rightarrow> do { q1 \<leftarrow> Sequence_PushToken q ''?''; Some (ms_put i q1 ms) }
          | Some xs \<Rightarrow>
              do { let (tokenID, ms1) = ms_sample (me_base e) xs ms;
                   ms2 \<leftarrow> (case hidden of
                             Some h \<Rightarrow> if ms_trainer ms1 \<noteq> None then collectTrainingSample e h tokenID ms1 else Some ms1
                           | None \<Rightarrow> Some ms1);
                   q1 \<leftarrow> emit_token (me_base e) (sf_MaxTokens (sc_config (ms_base ms))) tokenID (enter_decode q);
                   Some (ms_put i q1 (ms2\<lparr>ms_lastHidden := hidden\<rparr>)) } }"

fun training_each ::
  "('f, 'd, 's, 't) MedusaEngine \<Rightarrow> bool \<Rightarrow> bool \<Rightarrow> SequenceID list \<Rightarrow> ('f, 'd, 's, 't) MedusaScheduler \<Rightarrow>
   (string option \<times> ('f, 'd, 's, 't) MedusaScheduler) option" where
  "training_each e useGPU usePaged [] ms = Some (None, ms)"
| "training_each e useGPU usePaged (i # is) ms =
     do { q \<leftarrow> sc_sequences (ms_base ms) i;
          (token, pos, hasMore) \<leftarrow> Sequence_NextInputToken q;
          let (token, pos) = (if hasMore then (token, pos) else (1, 0));
          case run_pass (training_forward e (ms_trainer ms \<noteq> None) useGPU usePaged token pos (sq_kvSeqID q)) ms of
            (Inl err, ms1) \<Rightarrow> Some (Some err, ms1)
          | (Inr (logits, hidden), ms1) \<Rightarrow>
              do { ms2 \<leftarrow> training_emit e i logits hidden (ms_count 1 ms1); training_each e useGPU usePaged is ms2 } }"

text \<open>The prefill loop, without the synchronisation of the base scheduler.\<close>

fun training_prefill ::
  "('f, 'd, 's) Engine \<Rightarrow> bool \<Rightarrow> bool \<Rightarrow> SequenceID list \<Rightarrow> ('f, 'd, 's) Scheduler \<Rightarrow> (string option \<times> ('f, 'd, 's) Scheduler) option" where
  "training_prefill e useGPU usePaged [] s = Some (None, s)"
| "training_prefill e useGPU usePaged (i # is) s =
     do { q \<leftarrow> sc_sequences s i;
          if sq_state q = StatePending \<and> len (sq_promptTokens q) > 0 \<and> \<not> Sequence_IsPrefillComplete q \<and> (useGPU \<or> usePaged)
          then do { (err, s1) \<leftarrow> (if useGPU then runGPUPrefill e i s else runBatchedPrefill e i s);
                    case err of Some m \<Rightarrow> Some (Some m, s1) | None \<Rightarrow> training_prefill e useGPU usePaged is s1 }
          else training_prefill e useGPU usePaged is s }"

definition runDecodeStepWithTraining ::
  "('f, 'd, 's, 't) MedusaEngine \<Rightarrow> SequenceID list \<Rightarrow> ('f, 'd, 's, 't) MedusaScheduler \<Rightarrow>
   (string option \<times> ('f, 'd, 's, 't) MedusaScheduler) option" where
  "runDecodeStepWithTraining e batch ms =
     (if len batch = 0 then Some (None, ms)
      else
        let rt = sc_runtime (ms_base ms); useGPU = (rt_gpu rt \<noteq> None); usePaged = (rt_paged rt \<noteq> None) in
        do { (err, s1) \<leftarrow> training_prefill (me_base e) useGPU usePaged batch (ms_base ms);
             let ms1 = ms\<lparr>ms_base := s1\<rparr>;
             case err of
               Some m \<Rightarrow> Some (Some m, ms1)
             | None \<Rightarrow>
                 do { decodeSeqs \<leftarrow> collect_decode (sc_sequences s1) batch;
                      training_each e useGPU usePaged decodeSeqs ms1 } })"

end
