(* ===== verification/Medusa_Step.thy ===== *)
theory Medusa_Step
  imports Medusa_Scheduler
begin

text \<open>
  The speculative steps of \<open>inference/scheduler/medusa_scheduler.go\<close>: verification of the drafts of the heads in
  sequence, verification of the best path of a candidate tree, and the step that chooses between them, probing
  and plain decoding with collection of samples.
\<close>

section \<open>Common parts\<close>

text \<open>The prefill of a single sequence resets the window of acceptances; then it is decoded normally.\<close>

definition needs_prefill :: "Sequence \<Rightarrow> bool" where
  "needs_prefill q =
     (sq_state q = StatePending \<and> len (sq_promptTokens q) > 0 \<and> \<not> Sequence_IsPrefillComplete q)"

definition prefill_then_decode ::
  "('f, 'd, 's, 't) MedusaEngine \<Rightarrow> SequenceID \<Rightarrow> ('f, 'd, 's, 't) MedusaScheduler \<Rightarrow>
   (string option \<times> ('f, 'd, 's, 't) MedusaScheduler) option" where
  "prefill_then_decode e i ms =
     (let ms0 = ms\<lparr>ms_recentIdx := 0, ms_recentFull := False\<rparr>; rt = sc_runtime (ms_base ms) in
      do { (err, s1) \<leftarrow> (if rt_gpu rt \<noteq> None then runGPUPrefill (me_base e) i (ms_base ms0)
                        else if rt_paged rt \<noteq> None then runBatchedPrefill (me_base e) i (ms_base ms0)
                        else Some (None, ms_base ms0));
           let ms1 = ms0\<lparr>ms_base := s1\<rparr>;
           case err of
             Some m \<Rightarrow> Some (Some m, ms1)
           | None \<Rightarrow> runDecodeStepWithTraining e [i] ms1 })"

definition verify_start :: "('f, 'd) Runtime \<Rightarrow> int \<Rightarrow> int" where
  "verify_start rt pos = (case rt_gpu rt of None \<Rightarrow> pos | Some c \<Rightarrow> GPUKVCache_SeqLen c)"

definition verify_forward ::
  "('f, 'd, 's, 't) MedusaEngine \<Rightarrow> ('f, 'd) Runtime \<Rightarrow> int list \<Rightarrow> int \<Rightarrow> int \<Rightarrow> ('f, 'd, f32 list option list) hidden_forward" where
  "verify_forward e rt verifyTokens kvSeqID startPos =
     (if rt_paged rt \<noteq> None then me_VerifySpeculativeWithPagedKVAndHidden e verifyTokens kvSeqID startPos
      else me_VerifySpeculativeWithHidden e verifyTokens startPos)"

definition count_verification :: "('f, 'd, 's, 't) MedusaScheduler \<Rightarrow> ('f, 'd, 's, 't) MedusaScheduler" where
  "count_verification ms =
     (let m = ms_specMetrics ms in ms\<lparr>ms_specMetrics := m\<lparr>pm_VerificationSteps := pm_VerificationSteps m + 1\<rparr>\<rparr>)"

definition count_drafts :: "int \<Rightarrow> ('f, 'd, 's, 't) MedusaScheduler \<Rightarrow> ('f, 'd, 's, 't) MedusaScheduler" where
  "count_drafts n ms =
     (let m = ms_specMetrics ms in ms\<lparr>ms_specMetrics := m\<lparr>pm_DraftTokensGenerated := pm_DraftTokensGenerated m + n\<rparr>\<rparr>)"

definition count_accepted :: "int \<Rightarrow> ('f, 'd, 's, 't) MedusaScheduler \<Rightarrow> ('f, 'd, 's, 't) MedusaScheduler" where
  "count_accepted n ms =
     (let m = ms_specMetrics ms in ms\<lparr>ms_specMetrics := m\<lparr>pm_DraftTokensAccepted := pm_DraftTokensAccepted m + n\<rparr>\<rparr>)"

text \<open>Rolling the caches back to \<open>newLen\<close>.\<close>

definition truncate_caches :: "int \<Rightarrow> int \<Rightarrow> ('f, 'd) Runtime \<Rightarrow> ('f, 'd) Runtime option" where
  "truncate_caches kvSeqID newLen rt =
     do { let rt1 = truncate_gpu newLen rt;
          rt2 \<leftarrow> (case rt_paged rt1 of
                     None \<Rightarrow> Some rt1
                   | Some c \<Rightarrow>
                       if kvSeqID \<noteq> 0
                       then do { c' \<leftarrow> PagedKVCache_TruncateSequence c kvSeqID newLen; Some (rt1\<lparr>rt_paged := Some c'\<rparr>) }
                       else Some rt1);
          case rt_pool rt2 of
            None \<Rightarrow> Some rt2
          | Some p \<Rightarrow> do { p' \<leftarrow> GPUBlockPool_TruncateSequence p kvSeqID newLen; Some (rt2\<lparr>rt_pool := Some p'\<rparr>) } }"

text \<open>The samples from the hidden states of the verification: each with the next token that was verified.\<close>

fun collect_verified ::
  "('f, 'd, 's, 't) MedusaEngine \<Rightarrow> f32 list option list \<Rightarrow> int list \<Rightarrow> ('f, 'd, 's, 't) MedusaScheduler \<Rightarrow>
   ('f, 'd, 's, 't) MedusaScheduler option" where
  "collect_verified e (h # hs) (v # v' # vs) ms =
     do { ms1 \<leftarrow> collectTrainingSample e (nil_slice h) v' ms; collect_verified e hs (v' # vs) ms1 }"
| "collect_verified e _ _ ms = Some ms"

text \<open>The hidden state after the last accepted token is the one for the next speculation.\<close>

definition keep_hidden ::
  "('f, 'd, 's, 't) MedusaEngine \<Rightarrow> f32 list option list \<Rightarrow> int list \<Rightarrow> int \<Rightarrow> ('f, 'd, 's, 't) MedusaScheduler \<Rightarrow>
   ('f, 'd, 's, 't) MedusaScheduler option" where
  "keep_hidden e hiddenStates verifyTokens numAccepted ms =
     (if len hiddenStates > numAccepted then
        do { h \<leftarrow> idx hiddenStates numAccepted;
             case h of
               None \<Rightarrow> Some (ms\<lparr>ms_lastHidden := None\<rparr>)
             | Some x \<Rightarrow>
                 let ms1 = ms\<lparr>ms_lastHidden := Some x\<rparr> in
                 if ms_trainer ms1 \<noteq> None then collect_verified e hiddenStates verifyTokens ms1 else Some ms1 }
      else Some (ms\<lparr>ms_lastHidden := None\<rparr>))"

text \<open>From the rollback of the caches on, both speculative steps are the same.\<close>

definition finish_verified ::
  "('f, 'd, 's, 't) MedusaEngine \<Rightarrow> SequenceID \<Rightarrow> int \<Rightarrow> int list \<Rightarrow> f32 list option list \<Rightarrow> int list \<Rightarrow> int \<Rightarrow>
   ('f, 'd, 's, 't) MedusaScheduler \<Rightarrow> (string option \<times> ('f, 'd, 's, 't) MedusaScheduler) option" where
  "finish_verified e i startPos verifyTokens hiddenStates acceptedTokens numAccepted ms =
     do { q \<leftarrow> sc_sequences (ms_base ms) i;
          rt \<leftarrow> truncate_caches (sq_kvSeqID q) (startPos + 1 + numAccepted) (sc_runtime (ms_base ms));
          let ms1 = ms_count (len acceptedTokens) (ms\<lparr>ms_base := (ms_base ms)\<lparr>sc_runtime := rt\<rparr>\<rparr>);
          q1 \<leftarrow> emit_accepted (me_base e) (sf_MaxTokens (sc_config (ms_base ms1))) acceptedTokens q;
          let ms2 = ms_put i q1 ms1;
          if sq_state q1 = StateFinished then Some (None, ms2\<lparr>ms_lastHidden := None\<rparr>)
          else do { ms3 \<leftarrow> keep_hidden e hiddenStates verifyTokens numAccepted ms2; Some (None, ms3) } }"

section \<open>Drafts in sequence\<close>

fun draft_heads :: "'t Trainer \<Rightarrow> 't \<Rightarrow> f32 list \<Rightarrow> nat \<Rightarrow> nat \<Rightarrow> int list option" where
  "draft_heads T t hidden i 0 = Some []"
| "draft_heads T t hidden i (Suc k) =
     do { out \<leftarrow> tr_Forward T t (int i) hidden;
          rest \<leftarrow> draft_heads T t hidden (Suc i) k;
          Some ((case out of None \<Rightarrow> 0 | Some logits \<Rightarrow> argmaxFloat32 logits) # rest) }"

text \<open>The loop over the other heads: draft \<open>i + 1\<close> against row \<open>i\<close>. A correction, if any, and the count.\<close>

fun heads_loop ::
  "('f, 'd, 's) Engine \<Rightarrow> f32 list \<Rightarrow> nat \<Rightarrow> int list \<Rightarrow> int \<Rightarrow> ('f, 'd, 's, 't) MedusaScheduler \<Rightarrow>
   (int \<times> int option \<times> ('f, 'd, 's, 't) MedusaScheduler) option" where
  "heads_loop e allLogits i [] n ms = Some (n, None, ms)"
| "heads_loop e allLogits i (d # ds) n ms =
     do { targetLogits \<leftarrow> slice allLogits (int i * en_vocab e) ((int i + 1) * en_vocab e);
          let (targetToken, ms1) = ms_sample e targetLogits ms;
          if d = targetToken then heads_loop e allLogits (Suc i) ds (n + 1) ms1
          else Some (n, Some targetToken, ms1) }"

text \<open>The number of accepted drafts and the final token.\<close>

definition verify_heads ::
  "('f, 'd, 's) Engine \<Rightarrow> f32 list \<Rightarrow> int \<Rightarrow> int list \<Rightarrow> ('f, 'd, 's, 't) MedusaScheduler \<Rightarrow>
   (int \<times> int \<times> ('f, 'd, 's, 't) MedusaScheduler) option" where
  "verify_heads e allLogits inputToken draftTokens ms =
     do { d0 \<leftarrow> idx draftTokens 0;
          if d0 = inputToken then
            do { (n, correction, ms1) \<leftarrow> heads_loop e allLogits 0 (tl draftTokens) 1 ms;
                 case correction of
                   Some t \<Rightarrow> Some (n, t, ms1)
                 | None \<Rightarrow>
                     do { lastLogits \<leftarrow> slice allLogits ((len draftTokens - 1) * en_vocab e) (len draftTokens * en_vocab e);
                          let (t, ms2) = ms_sample e lastLogits ms1;
                          Some (n, t, ms2) } }
          else
            do { targetLogits \<leftarrow> slice allLogits 0 (en_vocab e);
                 let (t, ms1) = ms_sample e targetLogits ms;
                 Some (0, t, ms1) } }"

definition speculate_heads ::
  "('f, 'd, 's, 't) MedusaEngine \<Rightarrow> SequenceID \<Rightarrow> Sequence \<Rightarrow> 't \<Rightarrow> f32 list \<Rightarrow> ('f, 'd, 's, 't) MedusaScheduler \<Rightarrow>
   (string option \<times> ('f, 'd, 's, 't) MedusaScheduler) option" where
  "speculate_heads e i q t hidden ms =
     do { (token, p, hasMore) \<leftarrow> Sequence_NextInputToken q;
          let (inputToken, pos) = (if hasMore then (token, p) else (1, 0));
          let numHeads = tr_GetNumHeads (me_trainer e) t;
          draftTokens \<leftarrow> (if numHeads < 0 then None else draft_heads (me_trainer e) t hidden 0 (nat numHeads));
          let ms1 = count_drafts numHeads ms;
          let verifyTokens = inputToken # draftTokens;
          let rt = sc_runtime (ms_base ms1);
          let startPos = verify_start rt pos;
          case run_pass (verify_forward e rt verifyTokens (sq_kvSeqID q) startPos) ms1 of
            (Inl err, ms2) \<Rightarrow> runDecodeStepWithTraining e [i] ms2
          | (Inr (allLogits, hiddenStates), ms2) \<Rightarrow>
              do { let ms3 = count_verification ms2;
                   data \<leftarrow> Medusa_getLogitsOnCPU (me_base e) (sc_runtime (ms_base ms3)) allLogits
                             ((1 + numHeads) * en_vocab (me_base e));
                   case data of
                     None \<Rightarrow> runDecodeStepWithTraining e [i] ms3
                   | Some xs \<Rightarrow>
                       do { (numAccepted, finalToken, ms4) \<leftarrow> verify_heads (me_base e) xs inputToken draftTokens ms3;
                            ms5 \<leftarrow> recordAcceptance numAccepted (count_accepted numAccepted ms4);
                            accepted \<leftarrow> slice draftTokens 0 numAccepted;
                            finish_verified e i startPos verifyTokens hiddenStates (accepted @ [finalToken]) numAccepted ms5 } } }"

section \<open>Drafts as a tree\<close>

text \<open>The loop over the tokens of the best path: the count and the correction, 0 if there is none.\<close>

fun best_path_loop :: "f32 list \<Rightarrow> int \<Rightarrow> int \<Rightarrow> int \<Rightarrow> int list \<Rightarrow> int \<Rightarrow> (int \<times> int) option" where
  "best_path_loop verifyLogits vocabSize numPositions i [] accepted = Some (accepted, 0)"
| "best_path_loop verifyLogits vocabSize numPositions i (d # ds) accepted =
     (if i \<ge> numPositions then Some (accepted, 0)
      else do { posLogits \<leftarrow> slice verifyLogits (i * vocabSize) ((i + 1) * vocabSize);
                let targetToken = argmaxFloat32 posLogits;
                if d = targetToken then best_path_loop verifyLogits vocabSize numPositions (i + 1) ds (accepted + 1)
                else Some (accepted, targetToken) })"

definition selectBestTreePath :: "CandidatePath list \<Rightarrow> f32 list \<Rightarrow> int \<Rightarrow> (int \<times> int \<times> int) option" where
  "selectBestTreePath paths verifyLogits vocabSize =
     (if len paths = 0 \<or> len verifyLogits = 0 \<or> vocabSize \<le> 0 then Some (0, 0, 0)
      else
        do { numPositions \<leftarrow> go_div (len verifyLogits) vocabSize;
             let tokens = cp_Tokens (hd paths);
             (bestAccepted, bestFinal) \<leftarrow> best_path_loop verifyLogits vocabSize numPositions 0 tokens 0;
             bestFinal \<leftarrow> (if len tokens > 0 \<and> bestAccepted = len tokens \<and> bestAccepted < numPositions
                           then map_option argmaxFloat32
                                  (slice verifyLogits (bestAccepted * vocabSize) ((bestAccepted + 1) * vocabSize))
                           else Some bestFinal);
             bestFinal \<leftarrow> (if bestAccepted = 0 \<and> numPositions > 0 \<and> bestFinal = 0
                           then map_option argmaxFloat32 (slice verifyLogits 0 vocabSize)
                           else Some bestFinal);
             Some (0, bestAccepted, bestFinal) })"

definition speculate_tree ::
  "('f, 'd, 's, 't) MedusaEngine \<Rightarrow> SequenceID \<Rightarrow> Sequence \<Rightarrow> 't \<Rightarrow> f32 list \<Rightarrow> ('f, 'd, 's, 't) MedusaScheduler \<Rightarrow>
   (string option \<times> ('f, 'd, 's, 't) MedusaScheduler) option" where
  "speculate_tree e i q t hidden ms =
     do { (token, p, hasMore) \<leftarrow> Sequence_NextInputToken q;
          let (inputToken, pos) = (if hasMore then (token, p) else (1, 0));
          headLogits \<leftarrow> tr_ForwardAll (me_trainer e) t hidden;
          tree \<leftarrow> BuildCandidateTree (me_sort_entries e) headLogits (mc_TreeTopK (ms_config ms)) (mc_TreeMaxNodes (ms_config ms));
          paths \<leftarrow> CandidateTree_Paths f32_add (me_sort_paths e) tree;
          if tree = None \<or> len paths = 0 then runDecodeStepWithTraining e [i] ms
          else
            do { bestPath \<leftarrow> idx paths 0;
                 let numDraft = len (cp_Tokens bestPath);
                 let ms1 = count_drafts numDraft ms;
                 let verifyTokens = inputToken # cp_Tokens bestPath;
                 let rt = sc_runtime (ms_base ms1);
                 let startPos = verify_start rt pos;
                 case run_pass (verify_forward e rt verifyTokens (sq_kvSeqID q) startPos) ms1 of
                   (Inl err, ms2) \<Rightarrow> runDecodeStepWithTraining e [i] ms2
                 | (Inr (allLogits, hiddenStates), ms2) \<Rightarrow>
                     do { let ms3 = count_verification ms2;
                          data \<leftarrow> Medusa_getLogitsOnCPU (me_base e) (sc_runtime (ms_base ms3)) allLogits
                                    ((1 + numDraft) * en_vocab (me_base e));
                          case data of
                            None \<Rightarrow> runDecodeStepWithTraining e [i] ms3
                          | Some xs \<Rightarrow>
                              do { (bestIdx, numAccepted, finalToken) \<leftarrow> selectBestTreePath paths xs (en_vocab (me_base e));
                                   ms4 \<leftarrow> recordAcceptance numAccepted (count_accepted numAccepted ms3);
                                   selected \<leftarrow> idx paths bestIdx;
                                   finish_verified e i startPos verifyTokens hiddenStates
                                     (take (nat numAccepted) (cp_Tokens selected) @ [finalToken]) numAccepted ms4 } } } }"

section \<open>The step\<close>

text \<open>
  \<open>runMedusaDecodeStep\<close> and \<open>runTreeMedusaDecodeStep\<close> up to the hidden state, with the rest as an argument. Both
  use the trainer without a test for nil; the step calls them only with a trainer.
\<close>

definition medusa_decode_step ::
  "(SequenceID \<Rightarrow> Sequence \<Rightarrow> 't \<Rightarrow> f32 list \<Rightarrow> ('f, 'd, 's, 't) MedusaScheduler \<Rightarrow> (string option \<times> ('f, 'd, 's, 't) MedusaScheduler) option) \<Rightarrow>
   ('f, 'd, 's, 't) MedusaEngine \<Rightarrow> SequenceID list \<Rightarrow> ('f, 'd, 's, 't) MedusaScheduler \<Rightarrow>
   (string option \<times> ('f, 'd, 's, 't) MedusaScheduler) option" where
  "medusa_decode_step speculate_with e batch ms =
     (case batch of
        [] \<Rightarrow> Some (None, ms)
      | [i] \<Rightarrow>
          do { q \<leftarrow> sc_sequences (ms_base ms) i;
               if needs_prefill q then prefill_then_decode e i ms
               else if \<not> needs_decode q then Some (None, ms)
               else case ms_lastHidden ms of
                      None \<Rightarrow> runDecodeStepWithTraining e batch ms
                    | Some hidden \<Rightarrow> do { t \<leftarrow> ms_trainer ms; speculate_with i q t hidden ms } }
      | _ \<Rightarrow> runDecodeStepWithTraining e batch ms)"

definition runMedusaDecodeStep ::
  "('f, 'd, 's, 't) MedusaEngine \<Rightarrow> SequenceID list \<Rightarrow> ('f, 'd, 's, 't) MedusaScheduler \<Rightarrow>
   (string option \<times> ('f, 'd, 's, 't) MedusaScheduler) option" where
  "runMedusaDecodeStep e = medusa_decode_step (speculate_heads e) e"

definition runTreeMedusaDecodeStep ::
  "('f, 'd, 's, 't) MedusaEngine \<Rightarrow> SequenceID list \<Rightarrow> ('f, 'd, 's, 't) MedusaScheduler \<Rightarrow>
   (string option \<times> ('f, 'd, 's, 't) MedusaScheduler) option" where
  "runTreeMedusaDecodeStep e = medusa_decode_step (speculate_tree e) e"

definition heads_ready :: "('f, 'd, 's, 't) MedusaEngine \<Rightarrow> ('f, 'd, 's, 't) MedusaScheduler \<Rightarrow> bool" where
  "heads_ready e ms = (case ms_trainer ms of None \<Rightarrow> False | Some t \<Rightarrow> tr_IsHot (me_trainer e) t)"

text \<open>Every eighth step with hot heads and a hidden state is preceded by a probe.\<close>

definition probe_step ::
  "('f, 'd, 's, 't) MedusaEngine \<Rightarrow> SequenceID list \<Rightarrow> ('f, 'd, 's, 't) MedusaScheduler \<Rightarrow> ('f, 'd, 's, 't) MedusaScheduler option" where
  "probe_step e batch ms =
     (if heads_ready e ms \<and> ms_lastHidden ms \<noteq> None then
        let ms1 = ms\<lparr>ms_probeCounter := ms_probeCounter ms + 1\<rparr>
        in if ms_probeCounter ms1 \<ge> 8 then probeSpeculation e batch (ms1\<lparr>ms_probeCounter := 0\<rparr>) else Some ms1
      else Some ms)"

definition Medusa_step ::
  "('f, 'd, 's, 't) MedusaEngine \<Rightarrow> SequenceID list \<Rightarrow> ('f, 'd, 's, 't) MedusaScheduler \<Rightarrow>
   (string option \<times> ('f, 'd, 's, 't) MedusaScheduler) option" where
  "Medusa_step e visit ms =
     do { let b = ms_base ms;
          let ready = collectReady visit b;
          let ms1 = ms\<lparr>ms_base := b\<lparr>sc_metrics := (sc_metrics b)\<lparr>sm_ActiveSequences := int (card (dom (sc_sequences b)))\<rparr>\<rparr>\<rparr>;
          batch \<leftarrow> formBatches (sc_config b) ready;
          if len batch = 0 then Some (None, ms1)
          else if heads_ready e ms1 \<and> speculationEnabled ms1
          then (if mc_UseTreeVerification (ms_config ms1) then runTreeMedusaDecodeStep e batch ms1
                else runMedusaDecodeStep e batch ms1)
          else do { ms2 \<leftarrow> probe_step e batch ms1; runDecodeStepWithTraining e batch ms2 } }"

end
