(* ===== verification/Medusa_Heads_Props.thy ===== *)
theory Medusa_Heads_Props
  imports Medusa_Heads Medusa_Tree_Props
begin

text \<open>
  Correctness of the prediction heads: heads of consistent sizes always give logits of the size of the
  vocabulary and stay consistent under updates, the selection of tokens returns the best ones in order, and
  the file format is read back as it was written, a truncated file being reported as an error.
\<close>

section \<open>Consistent heads\<close>

definition head_ok :: "nat \<Rightarrow> nat \<Rightarrow> Head \<Rightarrow> bool" where
  "head_ok n v w \<longleftrightarrow> length (hd_FC1 w) = n * n \<and> length (hd_FC2 w) = n * v"

definition heads_ok :: "Heads \<Rightarrow> bool" where
  "heads_ok h \<longleftrightarrow> hs_NumHeads h = len (hs_heads h) \<and> 0 < hs_HiddenSize h \<and> 0 < hs_VocabSize h \<and>
     (\<forall>w \<in> set (hs_heads h). head_ok (nat (hs_HiddenSize h)) (nat (hs_VocabSize h)) w)"

lemma those_map_total:
  "(\<And>x. x \<in> set xs \<Longrightarrow> f x = Some (g x)) \<Longrightarrow> those (map f xs) = Some (map g xs)"
  by (induction xs) auto

lemma those_map_length: "(\<And>x. x \<in> set xs \<Longrightarrow> f x \<noteq> None) \<Longrightarrow> \<exists>ys. those (map f xs) = Some ys \<and> length ys = length xs"
proof (induction xs)
  case (Cons x xs)
  then obtain y ys where "f x = Some y" "those (map f xs) = Some ys" "length ys = length xs" by fastforce
  then show ?case by simp
qed simp

lemma matrix_index:
  assumes "j < n" and "i < m"
  shows "j * m + i < n * (m :: nat)"
proof -
  have "Suc j * m \<le> n * m" using assms(1) by (intro mult_le_mono1) simp
  then show ?thesis using assms(2) by simp
qed

lemma dot_col_total:
  assumes "n \<le> length xs" and "length w = n * m" and "i < m"
  shows "\<exists>r. dot_col fma xs w (int m) n i = Some r"
proof -
  have "\<exists>r. foldM (\<lambda>j acc. do { x \<leftarrow> idx xs (int j); y \<leftarrow> idx w (int j * int m + int i); Some (f32_mul_add fma x y acc) })
      [0..<n] 0 = Some r \<and> True"
  proof (rule foldM_total, rule TrueI)
    fix j acc assume "j \<in> set [0..<n]"
    then have j: "j < n" by simp
    have "int j * int m + int i = int (j * m + i)" by simp
    then show "\<exists>s'. do { x \<leftarrow> idx xs (int j); y \<leftarrow> idx w (int j * int m + int i); Some (f32_mul_add fma x y acc) } = Some s' \<and> True"
      using j assms matrix_index [OF j assms(3)] by (simp del: of_nat_add of_nat_mult)
  qed
  then show ?thesis by (simp add: dot_col_def)
qed

lemma mat_vec_total:
  assumes "n \<le> length xs" and "length w = n * m"
  shows "\<exists>r. mat_vec fma xs w n m = Some r \<and> length r = m"
  using those_map_length [of "[0..<m]" "dot_col fma xs w (int m) n"] dot_col_total [OF assms] unfolding mat_vec_def by fastforce

lemma Heads_Forward_total:
  assumes "heads_ok h" and "hs_HiddenSize h \<le> len hidden" and "0 \<le> i" and "i < hs_NumHeads h"
  shows "\<exists>logits. Heads_Forward exp32 fma h i hidden = Some (Some logits) \<and> len logits = hs_VocabSize h"
proof -
  let ?n = "nat (hs_HiddenSize h)" and ?v = "nat (hs_VocabSize h)"
  obtain w where w: "idx (hs_heads h) i = Some w" and ok: "head_ok ?n ?v w" and s: "0 < hs_HiddenSize h" "0 < hs_VocabSize h"
    using assms by (auto simp: heads_ok_def idx_def nat_lt_length)
  have "?n \<le> length hidden" using assms(2) by (simp add: len_def)
  then obtain pre where pre: "mat_vec fma hidden (hd_FC1 w) ?n ?n = Some pre" "length pre = ?n"
    using mat_vec_total ok by (metis head_ok_def)
  then obtain l where l: "mat_vec fma (map (silu exp32) pre) (hd_FC2 w) ?n ?v = Some l" "length l = ?v"
    using mat_vec_total [of ?n "map (silu exp32) pre" "hd_FC2 w" ?v fma] ok by (auto simp: head_ok_def)
  show ?thesis using assms(3,4) s w pre l by (simp add: Heads_Forward_def len_def)
qed

lemma Heads_ForwardAll_total:
  assumes "heads_ok h" and "hs_HiddenSize h \<le> len hidden"
  shows "\<exists>rows. Heads_ForwardAll exp32 fma h hidden = Some rows \<and> len rows = hs_NumHeads h \<and>
    (\<forall>r \<in> set rows. len r = hs_VocabSize h)"
proof -
  have n: "0 \<le> hs_NumHeads h" using assms(1) by (simp add: heads_ok_def)
  have "\<forall>i. \<exists>l. i < nat (hs_NumHeads h) \<longrightarrow>
      Heads_Forward exp32 fma h (int i) hidden = Some (Some l) \<and> len l = hs_VocabSize h"
  proof
    fix i
    show "\<exists>l. i < nat (hs_NumHeads h) \<longrightarrow> Heads_Forward exp32 fma h (int i) hidden = Some (Some l) \<and> len l = hs_VocabSize h"
      using Heads_Forward_total [OF assms, of "int i" exp32 fma] by (cases "int i < hs_NumHeads h") auto
  qed
  from choice [OF this] obtain g where g: "\<forall>i. i < nat (hs_NumHeads h) \<longrightarrow>
      Heads_Forward exp32 fma h (int i) hidden = Some (Some (g i)) \<and> len (g i) = hs_VocabSize h" ..
  have "those (map (\<lambda>i. map_option nil_slice (Heads_Forward exp32 fma h (int i) hidden)) [0..<nat (hs_NumHeads h)]) =
      Some (map g [0..<nat (hs_NumHeads h)])"
    by (rule those_map_total) (simp add: g nil_slice_def)
  then show ?thesis using n g by (auto simp: Heads_ForwardAll_def len_def)
qed

lemma descend_total:
  assumes "length w \<le> length grad"
  shows "\<exists>r. descend fma lr grad w = Some r \<and> length r = length w"
proof -
  let ?f = "\<lambda>i. do { x \<leftarrow> idx w (int i); g \<leftarrow> idx grad (int i); Some (f32_mul_add fma (f32_minus lr) g x) }"
  have "\<exists>r. those (map ?f [0..<length w]) = Some r \<and> length r = length [0..<length w]"
    by (rule those_map_length) (use assms in simp)
  then show ?thesis by (simp add: descend_def)
qed

lemma Heads_UpdateWeights_ok:
  assumes "heads_ok h" and "0 \<le> i" and "i < hs_NumHeads h"
    and "len grad1 = hs_HiddenSize h * hs_HiddenSize h" and "len grad2 = hs_HiddenSize h * hs_VocabSize h"
  shows "\<exists>h'. Heads_UpdateWeights fma i grad1 grad2 lr h = Some h' \<and> heads_ok h' \<and>
    hs_NumHeads h' = hs_NumHeads h \<and> hs_HiddenSize h' = hs_HiddenSize h \<and> hs_VocabSize h' = hs_VocabSize h"
proof -
  let ?n = "nat (hs_HiddenSize h)" and ?v = "nat (hs_VocabSize h)"
  have l: "i < len (hs_heads h)" and s: "0 < hs_HiddenSize h" "0 < hs_VocabSize h"
    and all: "\<forall>w \<in> set (hs_heads h). head_ok ?n ?v w"
    using assms by (auto simp: heads_ok_def)
  obtain w where w: "idx (hs_heads h) i = Some w" and ok: "head_ok ?n ?v w"
    using all assms(2) l by (auto simp: idx_def nat_lt_length)
  have "int (length grad1) = int (?n * ?n)" "int (length grad2) = int (?n * ?v)"
    using assms(4,5) s by (simp_all add: len_def)
  then have g: "length grad1 = ?n * ?n" "length grad2 = ?n * ?v" by (simp_all only: of_nat_eq_iff)
  obtain a b where a: "descend fma lr grad1 (hd_FC1 w) = Some a" "length a = ?n * ?n"
    and b: "descend fma lr grad2 (hd_FC2 w) = Some b" "length b = ?n * ?v"
    using descend_total [of "hd_FC1 w" grad1 fma lr] descend_total [of "hd_FC2 w" grad2 fma lr] ok g
    by (auto simp: head_ok_def)
  have "\<forall>x \<in> set ((hs_heads h)[nat i := \<lparr>hd_FC1 = a, hd_FC2 = b\<rparr>]). head_ok ?n ?v x"
    using all a b set_update_subset_insert [of "hs_heads h"] by (fastforce simp: head_ok_def)
  then show ?thesis using assms(1-3) l w a b
    by (simp add: Heads_UpdateWeights_def upd_def heads_ok_def)
qed

lemma Heads_Clone_eq:
  assumes "hs_NumHeads h = len (hs_heads h)"
  shows "Heads_Clone h = Some h"
proof -
  have "those (map (\<lambda>i. idx (hs_heads h) (int i)) [0..<length (hs_heads h)]) =
      Some (map (\<lambda>i. hs_heads h ! i) [0..<length (hs_heads h)])"
    by (rule those_map_total) simp
  moreover have "map (\<lambda>w. \<lparr>hd_FC1 = hd_FC1 w, hd_FC2 = hd_FC2 w\<rparr>) ws = ws" for ws :: "Head list"
    by (induction ws) simp_all
  ultimately show ?thesis using assms by (simp add: Heads_Clone_def map_nth not_less)
qed

section \<open>The best tokens\<close>

text \<open>A used entry is skipped as a NaN would be.\<close>

lemma best_unused_argmax:
  "best_unused xs j b m = argmax_loop (map (\<lambda>(u, v). if u then f32_qnan else v) xs) j b m"
proof (induction xs j b m rule: best_unused.induct)
  case (2 used v rest j b m)
  have "\<not> f32_less m f32_qnan" by (simp add: f32_less_def)
  then show ?case using 2 by simp
qed simp

definition beats :: "f32 list \<Rightarrow> nat \<Rightarrow> nat \<Rightarrow> bool" where
  "beats vs i j \<longleftrightarrow> f32_less (vs ! j) (vs ! i) \<or> (\<not> f32_less (vs ! i) (vs ! j) \<and> i < j)"

lemma best_unused_spec:
  assumes "length used = length vs" and "\<forall>v \<in> set vs. f32_less f32_lowest v" and "u < length vs" and "\<not> used ! u"
  shows "\<exists>i < length vs. best_unused (zip used vs) 0 (-1) f32_lowest = int i \<and> \<not> used ! i \<and>
    (\<forall>j < length vs. \<not> used ! j \<and> j \<noteq> i \<longrightarrow> beats vs i j)"
proof -
  let ?ws = "map (\<lambda>(u, v). if u then f32_qnan else v) (zip used vs)"
  have w: "?ws ! j = (if used ! j then f32_qnan else vs ! j)" and l: "length ?ws = length vs" if "j < length vs" for j
    using that assms(1) by simp_all
  have "f32_less f32_lowest (vs ! u)" using assms(2,3) by simp
  then have n: "\<not> f32_nan f32_lowest" by (simp add: f32_less_def)
  have "f32_less f32_lowest (?ws ! u)" using w [OF assms(3)] assms(2-4) by simp
  moreover have "?ws ! u \<in> set ?ws" using assms(1,3) by (intro nth_mem) simp
  ultimately have "\<exists>v \<in> set ?ws. f32_less f32_lowest v" ..
  then obtain i where i: "i < length vs" "best_unused (zip used vs) 0 (-1) f32_lowest = int i"
    and less: "f32_less f32_lowest (?ws ! i)" and max: "\<forall>v \<in> set ?ws. \<not> f32_less (?ws ! i) v"
    and first: "\<forall>j < i. f32_nan (?ws ! j) \<or> f32_less (?ws ! j) (?ws ! i)"
    using argmax_loop_spec [OF n, of ?ws 0 "-1"] l [OF assms(3)] unfolding best_unused_argmax by auto
  have nu: "\<not> used ! i" using less w [OF i(1)] by (auto simp: f32_less_def)
  have "beats vs i j" if j: "j < length vs" "\<not> used ! j" "j \<noteq> i" for j
  proof -
    have "?ws ! j \<in> set ?ws" using j(1) assms(1) by (intro nth_mem) simp
    then have m: "\<not> f32_less (vs ! i) (vs ! j)" using max w [OF i(1)] w [OF j(1)] j nu by auto
    have "\<not> f32_nan (vs ! j)" using assms(2) j(1) by (auto simp: f32_less_def)
    then have "j < i \<Longrightarrow> f32_less (vs ! j) (vs ! i)" using first w [OF i(1)] w [OF j(1)] j nu by auto
    then show ?thesis using m j(3) by (auto simp: beats_def)
  qed
  then show ?thesis using i nu by blast
qed

lemma select_loop_spec:
  assumes "\<forall>v \<in> set vs. f32_less f32_lowest v"
  shows "length used = length vs \<Longrightarrow> k \<le> card {i. i < length vs \<and> \<not> used ! i} \<Longrightarrow>
    \<exists>is. select_loop vs k used = map int is \<and> length is = k \<and> distinct is \<and>
      (\<forall>i \<in> set is. i < length vs \<and> \<not> used ! i) \<and>
      (\<forall>p < k. \<forall>j < length vs. \<not> used ! j \<and> j \<notin> set (take (Suc p) is) \<longrightarrow> beats vs (is ! p) j)"
proof (induction k arbitrary: used)
  case 0
  then show ?case by simp
next
  case (Suc k)
  let ?free = "{i. i < length vs \<and> \<not> used ! i}"
  have "card ?free \<noteq> 0" using Suc.prems(2) by linarith
  then have "?free \<noteq> {}" by (metis card.empty)
  then obtain u where u: "u < length vs" "\<not> used ! u" by blast
  obtain i where i: "i < length vs" "best_unused (zip used vs) 0 (-1) f32_lowest = int i" "\<not> used ! i"
    and b: "\<forall>j < length vs. \<not> used ! j \<and> j \<noteq> i \<longrightarrow> beats vs i j"
    using best_unused_spec [OF Suc.prems(1) assms u] by blast
  let ?used = "used[i := True]"
  have f: "{j. j < length vs \<and> \<not> ?used ! j} = ?free - {i}"
    using Suc.prems(1) i(1) by (auto simp: nth_list_update split: if_splits)
  have "card (?free - {i}) = card ?free - 1" using i by (intro card_Diff_singleton) simp
  then have c: "k \<le> card {j. j < length vs \<and> \<not> ?used ! j}" using f Suc.prems(2) by simp
  obtain "is" where s: "select_loop vs k ?used = map int is" "length is = k" "distinct is"
    "\<forall>j \<in> set is. j < length vs \<and> \<not> ?used ! j"
    "\<forall>p < k. \<forall>j < length vs. \<not> ?used ! j \<and> j \<notin> set (take (Suc p) is) \<longrightarrow> beats vs (is ! p) j"
    using Suc.IH [of ?used] Suc.prems(1) c by auto
  have m: "\<forall>j \<in> set is. j < length vs \<and> \<not> used ! j \<and> j \<noteq> i"
    using s(4) i(1) Suc.prems(1) by (auto simp: nth_list_update split: if_splits)
  have "beats vs ((i # is) ! p) j" if "p < Suc k" "j < length vs" "\<not> used ! j" "j \<notin> set (take (Suc p) (i # is))" for p j
    using that b s(5) by (cases p) (auto simp: nth_list_update)
  then show ?case using i s m by (intro exI [of _ "i # is"]) (auto simp: Let_def)
qed

section \<open>The file format\<close>

definition head_bytes :: "Head \<Rightarrow> byte list" where
  "head_bytes w = f32_bytes (hd_FC1 w) @ f32_bytes (hd_FC2 w)"

definition head_fits :: "nat \<Rightarrow> nat \<Rightarrow> nat \<Rightarrow> Head \<Rightarrow> bool" where
  "head_fits lim n v w \<longleftrightarrow> 0 < n \<and> 0 < v \<and> n * n \<le> lim \<and> n * v \<le> lim \<and> head_ok n v w"

lemma length_f32_bytes [simp]: "length (f32_bytes ws) = 4 * length ws"
  by (induction ws) (simp_all add: f32_bytes_def)

lemma word_of_le_encode: "word_of_nat (le_nat (le_encode 4 (unat w))) = (w :: f32)"
proof -
  have "unat w < 2 ^ LENGTH(32)" by (rule unsigned_less)
  then have "unat w < 256 ^ 4" by simp
  then have "le_nat (le_encode 4 (unat w)) = unat w" by (simp add: le_nat_encode)
  then show ?thesis by simp
qed

lemma f32s_of_f32_bytes [simp]: "f32s_of_bytes (f32_bytes ws) = ws"
proof (induction ws)
  case (Cons w ws)
  have "length (le_encode 4 (unat w)) = Suc (Suc (Suc (Suc 0)))" by simp
  then obtain a b c d where e: "le_encode 4 (unat w) = [a, b, c, d]"
    by (auto simp only: length_Suc_conv length_0_conv)
  have "f32_bytes (w # ws) = le_encode 4 (unat w) @ f32_bytes ws" by (simp add: f32_bytes_def)
  moreover have "f32s_of_bytes (le_encode 4 (unat w) @ bs) = word_of_nat (le_nat (le_encode 4 (unat w))) # f32s_of_bytes bs" for bs
    unfolding e by (simp only: append.simps f32s_of_bytes.simps)
  ultimately show ?case using Cons word_of_le_encode by simp
qed (simp add: f32_bytes_def)

lemma read_floats_bytes:
  "ws \<noteq> [] \<Longrightarrow> length ws = n \<Longrightarrow> read_floats e n (f32_bytes ws @ rest) = Some (Inr ws, rest)"
  by (auto simp: read_floats_def read_full_append)

lemma read_floats_short: "0 < n \<Longrightarrow> length bs < 4 * n \<Longrightarrow> \<exists>err r. read_floats e n bs = Some (Inl err, r)"
  by (simp add: read_floats_def read_full_def)

lemma read_head_bytes:
  assumes "head_fits lim n v w"
  shows "read_head lim n v (head_bytes w @ rest) = Some (Inr w, rest)"
proof -
  have l: "length (hd_FC1 w) = n * n" "length (hd_FC2 w) = n * v" "hd_FC1 w \<noteq> []" "hd_FC2 w \<noteq> []"
    using assms by (auto simp: head_fits_def head_ok_def)
  then show ?thesis using assms read_floats_bytes [OF l(3) l(1), of ReadFC1] read_floats_bytes [OF l(4) l(2), of ReadFC2]
    by (simp add: head_fits_def head_bytes_def read_head_def)
qed

lemma read_head_short:
  assumes "head_fits lim n v w" and "k < length (head_bytes w)"
  shows "\<exists>e r. read_head lim n v (take k (head_bytes w)) = Some (Inl e, r)"
proof (cases "k < 4 * (n * n)")
  case True
  then obtain e r where "read_floats ReadFC1 (n * n) (take k (head_bytes w)) = Some (Inl e, r)"
    using read_floats_short [of "n * n" "take k (head_bytes w)" ReadFC1] assms by (auto simp: head_fits_def min_def)
  then show ?thesis using assms(1) by (simp add: read_head_def head_fits_def rbind_def)
next
  case False
  have l: "length (hd_FC1 w) = n * n" "length (hd_FC2 w) = n * v" "0 < n" "0 < v"
    using assms(1) by (simp_all add: head_fits_def head_ok_def)
  then have t: "take k (head_bytes w) = f32_bytes (hd_FC1 w) @ take (k - 4 * (n * n)) (f32_bytes (hd_FC2 w))"
    using False by (simp add: head_bytes_def)
  have "hd_FC1 w \<noteq> []" using l by auto
  then have a: "read_floats ReadFC1 (n * n) (take k (head_bytes w)) =
      Some (Inr (hd_FC1 w), take (k - 4 * (n * n)) (f32_bytes (hd_FC2 w)))"
    unfolding t using l by (intro read_floats_bytes)
  have "k - 4 * (n * n) < 4 * (n * v)" using assms(2) l False by (simp add: head_bytes_def)
  then obtain e r where "read_floats ReadFC2 (n * v) (take (k - 4 * (n * n)) (f32_bytes (hd_FC2 w))) = Some (Inl e, r)"
    using read_floats_short [of "n * v" "take (k - 4 * (n * n)) (f32_bytes (hd_FC2 w))" ReadFC2] l by auto
  then show ?thesis using a assms(1) by (simp add: read_head_def head_fits_def rbind_def)
qed

interpretation head_file: framed_codec head_bytes "read_head lim n v" "head_fits lim n v" for lim n v
  by unfold_locales (rule read_head_bytes, assumption, rule read_head_short)

text \<open>A writer that keeps what is written, such as \<open>bytes.Buffer\<close>.\<close>

definition append_writer :: "byte list \<Rightarrow> byte list \<Rightarrow> string option \<times> byte list" where
  "append_writer bs w = (None, w @ bs)"

definition heads_bytes :: "Heads \<Rightarrow> byte list" where
  "heads_bytes h = heads_header h @ concat (map head_bytes (hs_heads h))"

definition heads_fit :: "nat \<Rightarrow> Heads \<Rightarrow> bool" where
  "heads_fit lim h \<longleftrightarrow> heads_ok h \<and> length (hs_heads h) \<le> lim \<and>
     nat (hs_HiddenSize h) * nat (hs_HiddenSize h) \<le> lim \<and> nat (hs_HiddenSize h) * nat (hs_VocabSize h) \<le> lim \<and>
     hs_NumHeads h < 2 ^ 32 \<and> hs_HiddenSize h < 2 ^ 32 \<and> hs_VocabSize h < 2 ^ 32"

lemma heads_fit_each:
  "heads_fit lim h \<Longrightarrow> \<forall>w \<in> set (hs_heads h). head_fits lim (nat (hs_HiddenSize h)) (nat (hs_VocabSize h)) w"
  by (simp add: heads_fit_def heads_ok_def head_fits_def)

lemma write_heads_append:
  assumes "\<forall>w \<in> set (hs_heads h). hd_FC1 w \<noteq> [] \<and> hd_FC2 w \<noteq> []"
  shows "i + k \<le> length (hs_heads h) \<Longrightarrow>
    write_heads append_writer h (int i) k out = Some (None, out @ concat (map head_bytes (take k (drop i (hs_heads h)))))"
proof (induction k arbitrary: i out)
  case (Suc k)
  then have i: "i < length (hs_heads h)" by simp
  let ?w = "hs_heads h ! i"
  have b: "bulk_bytes (hd_FC1 ?w) = Some (f32_bytes (hd_FC1 ?w))" "bulk_bytes (hd_FC2 ?w) = Some (f32_bytes (hd_FC2 ?w))"
    using assms i by (simp_all add: bulk_bytes_def)
  have "write_heads append_writer h (int i + 1) k ((out @ f32_bytes (hd_FC1 ?w)) @ f32_bytes (hd_FC2 ?w)) =
      Some (None, ((out @ f32_bytes (hd_FC1 ?w)) @ f32_bytes (hd_FC2 ?w)) @ concat (map head_bytes (take k (drop (Suc i) (hs_heads h)))))"
    using Suc.IH [of "Suc i" "(out @ f32_bytes (hd_FC1 ?w)) @ f32_bytes (hd_FC2 ?w)"] Suc.prems by (simp add: add.commute)
  moreover have "take (Suc k) (drop i (hs_heads h)) = ?w # take k (drop (Suc i) (hs_heads h))"
    using i by (simp flip: Cons_nth_drop_Suc)
  moreover have "append_writer (f32_bytes (hd_FC1 ?w)) out = (None, out @ f32_bytes (hd_FC1 ?w))"
    "append_writer (f32_bytes (hd_FC2 ?w)) (out @ f32_bytes (hd_FC1 ?w)) =
      (None, (out @ f32_bytes (hd_FC1 ?w)) @ f32_bytes (hd_FC2 ?w))" by (simp_all add: append_writer_def)
  ultimately show ?case using i b by (simp add: head_bytes_def [of ?w])
qed simp

lemma Heads_WriteTo_bytes:
  assumes "heads_ok h"
  shows "Heads_WriteTo append_writer h [] = Some (None, heads_bytes h)"
proof -
  have "\<forall>w \<in> set (hs_heads h). hd_FC1 w \<noteq> [] \<and> hd_FC2 w \<noteq> []"
    using assms by (auto simp: heads_ok_def head_ok_def)
  then show ?thesis using assms write_heads_append [of h 0 "length (hs_heads h)" "heads_header h"]
    by (simp add: Heads_WriteTo_def append_writer_def heads_bytes_def heads_ok_def)
qed

lemma five_quads:
  assumes "length a = 4" and "length b = 4" and "length c = 4" and "length d = 4" and "length e = 4"
  shows "length (a @ b @ c @ d @ e) = 20" "take 4 (a @ b @ c @ d @ e) = a" "take 4 (drop 4 (a @ b @ c @ d @ e)) = b"
    "take 4 (drop 8 (a @ b @ c @ d @ e)) = c" "take 4 (drop 12 (a @ b @ c @ d @ e)) = d"
    "take 4 (drop 16 (a @ b @ c @ d @ e)) = e"
  using assms by simp_all

lemma heads_header_fields:
  assumes "heads_fit lim h"
  shows "length (heads_header h) = 20" "string_of_bytes (take 4 (heads_header h)) = ''MDSA''"
    "le_nat (take 4 (drop 4 (heads_header h))) = 1" "le_nat (take 4 (drop 8 (heads_header h))) = nat (hs_NumHeads h)"
    "le_nat (take 4 (drop 12 (heads_header h))) = nat (hs_HiddenSize h)"
    "le_nat (take 4 (drop 16 (heads_header h))) = nat (hs_VocabSize h)"
proof -
  have f: "le_nat (le_encode 4 (nat (n mod 2 ^ 32))) = nat n" if "0 \<le> n" "n < 2 ^ 32" for n :: int
  proof -
    have "nat n < 256 ^ 4" using that by simp
    then show ?thesis using that by (simp add: le_nat_encode)
  qed
  have n: "0 \<le> hs_NumHeads h" "0 \<le> hs_HiddenSize h" "0 \<le> hs_VocabSize h"
    "hs_NumHeads h < 2 ^ 32" "hs_HiddenSize h < 2 ^ 32" "hs_VocabSize h < 2 ^ 32"
    using assms by (auto simp: heads_fit_def heads_ok_def)
  have m: "length (bytes_of_string ''MDSA'') = 4" by simp
  note q = five_quads [OF m length_le_encode length_le_encode length_le_encode length_le_encode]
  have one: "le_nat (le_encode 4 1) = 1" by (simp add: le_nat_encode)
  show "length (heads_header h) = 20" "string_of_bytes (take 4 (heads_header h)) = ''MDSA''"
    "le_nat (take 4 (drop 4 (heads_header h))) = 1" "le_nat (take 4 (drop 8 (heads_header h))) = nat (hs_NumHeads h)"
    "le_nat (take 4 (drop 12 (heads_header h))) = nat (hs_HiddenSize h)"
    "le_nat (take 4 (drop 16 (heads_header h))) = nat (hs_VocabSize h)"
    unfolding heads_header_def q by (simp_all only: f [OF n(1) n(4)] f [OF n(2) n(5)] f [OF n(3) n(6)] one
      string_of_bytes_of_string)
qed

lemma ReadFrom_body:
  assumes "heads_fit lim h"
  shows "Heads_ReadFrom lim (heads_header h @ body) =
    rbind (rlist (\<lambda>i. read_head lim (nat (hs_HiddenSize h)) (nat (hs_VocabSize h))) 0 (length (hs_heads h)))
      (\<lambda>hds. rpure (h\<lparr>hs_heads := hds\<rparr>)) body"
proof -
  have n: "nat (hs_NumHeads h) = length (hs_heads h)" "length (hs_heads h) \<le> lim" "0 < hs_HiddenSize h" "0 < hs_VocabSize h"
    "hs_NumHeads h = len (hs_heads h)"
    using assms by (simp_all add: heads_fit_def heads_ok_def)
  have r: "\<lparr>hs_NumHeads = int (length (hs_heads h)), hs_HiddenSize = int (nat (hs_HiddenSize h)),
      hs_VocabSize = int (nat (hs_VocabSize h)), hs_heads = hds\<rparr> = h\<lparr>hs_heads := hds\<rparr>" for hds
    using n by (cases h) (simp add: len_def)
  show ?thesis using heads_header_fields [OF assms] n(1,2) r
    by (simp add: Heads_ReadFrom_def read_full_append Let_def)
qed

lemma length_heads_bytes:
  assumes "heads_fit lim h"
  shows "len (heads_bytes h) = 20 + Heads_MemorySize h"
proof -
  let ?n = "nat (hs_HiddenSize h)" and ?v = "nat (hs_VocabSize h)"
  have "length (concat (map head_bytes ws)) = length ws * (4 * (?n * ?n + ?n * ?v))"
    if "\<forall>w \<in> set ws. head_ok ?n ?v w" for ws
    using that by (induction ws) (auto simp: head_bytes_def head_ok_def algebra_simps)
  then have "length (heads_bytes h) = 20 + length (hs_heads h) * (4 * (?n * ?n + ?n * ?v))"
    using assms heads_header_fields(1) [OF assms] by (simp add: heads_bytes_def heads_fit_def heads_ok_def)
  then show ?thesis using assms
    by (simp add: heads_fit_def heads_ok_def Heads_MemorySize_def len_def Let_def algebra_simps)
qed

text \<open>
  C39: The file format of the heads is lossless and detects truncation: what \<open>WriteTo\<close> writes has the size of
  a header and of the weights in memory, \<open>ReadFrom\<close> reads it back as the same heads and leaves what follows,
  and on every proper prefix it returns an error, never heads with missing weights.
\<close>

theorem Heads_file_roundtrip:
  assumes "heads_fit lim h"
  shows "\<exists>bs. Heads_WriteTo append_writer h [] = Some (None, bs) \<and> len bs = 20 + Heads_MemorySize h \<and>
    Heads_ReadFrom lim (bs @ rest) = Some (Inr h, rest) \<and>
    (\<forall>n < length bs. \<exists>e r. Heads_ReadFrom lim (take n bs) = Some (Inl e, r))"
proof (intro exI [of _ "heads_bytes h"] conjI allI impI)
  let ?body = "concat (map head_bytes (hs_heads h))"
  have ok: "heads_ok h" using assms by (simp add: heads_fit_def)
  then show "Heads_WriteTo append_writer h [] = Some (None, heads_bytes h)" by (rule Heads_WriteTo_bytes)
  show "len (heads_bytes h) = 20 + Heads_MemorySize h" by (rule length_heads_bytes [OF assms])
  show "Heads_ReadFrom lim (heads_bytes h @ rest) = Some (Inr h, rest)"
    using ReadFrom_body [OF assms] head_file.rlist_enc_plain [OF heads_fit_each [OF assms]]
    by (simp add: heads_bytes_def)
  fix n assume n: "n < length (heads_bytes h)"
  show "\<exists>e r. Heads_ReadFrom lim (take n (heads_bytes h)) = Some (Inl e, r)"
  proof (cases "n < 20")
    case True
    then show ?thesis using n by (simp add: Heads_ReadFrom_def read_full_def)
  next
    case False
    then have "take n (heads_bytes h) = heads_header h @ take (n - 20) ?body"
      using heads_header_fields(1) [OF assms] by (simp add: heads_bytes_def)
    moreover have "n - 20 < length ?body" using False n heads_header_fields(1) [OF assms] by (simp add: heads_bytes_def)
    moreover obtain e r where "rlist (\<lambda>i. read_head lim (nat (hs_HiddenSize h)) (nat (hs_VocabSize h))) 0
        (length (hs_heads h)) (take (n - 20) ?body) = Some (Inl e, r)"
      using head_file.rlist_short [OF heads_fit_each [OF assms], of "n - 20" 0] calculation(2) by blast
    ultimately show ?thesis using ReadFrom_body [OF assms, of "take (n - 20) ?body"] by (simp add: rbind_def)
  qed
qed

definition demo_heads :: Heads where
  "demo_heads = \<lparr>hs_NumHeads = 1, hs_HiddenSize = 1, hs_VocabSize = 2,
     hs_heads = [\<lparr>hd_FC1 = [f32_one], hd_FC2 = [0, f32_one]\<rparr>]\<rparr>"

lemma demo_heads_fit: "heads_fit 10 demo_heads"
  by (simp add: heads_fit_def heads_ok_def head_ok_def demo_heads_def)

theorem Heads_file_roundtrip_witness:
  "\<exists>bs. Heads_WriteTo append_writer demo_heads [] = Some (None, bs) \<and> len bs = 32 \<and>
    Heads_ReadFrom 10 (bs @ [7]) = Some (Inr demo_heads, [7])"
proof -
  have "Heads_MemorySize demo_heads = 12" by (simp add: Heads_MemorySize_def demo_heads_def)
  then show ?thesis using Heads_file_roundtrip [OF demo_heads_fit, of "[7]"] by auto
qed

text \<open>
  \<open>topK\<close> selects the best tokens in order: on values above \<open>-MaxFloat32\<close> it returns as many different
  indices as asked for and available, and the one at each place beats every index that was not selected
  before it: its value is larger, or equal with a smaller index.
\<close>

theorem heads_topK_best:
  assumes "\<forall>v \<in> set vs. f32_less f32_lowest v" and "0 \<le> k"
  shows "\<exists>is. heads_topK vs k = Some (map int is) \<and> len is = min k (len vs) \<and> distinct is \<and>
    (\<forall>p < length is. is ! p < length vs \<and>
      (\<forall>j < length vs. j \<notin> set (take (Suc p) is) \<longrightarrow> beats vs (is ! p) j))"
proof -
  let ?k = "if k > len vs then len vs else k" and ?used = "replicate (length vs) False"
  have "{i. i < length vs \<and> \<not> ?used ! i} = {..<length vs}" by auto
  then have "nat ?k \<le> card {i. i < length vs \<and> \<not> ?used ! i}" by (auto simp: len_def nat_le_iff)
  then obtain "is" where s: "select_loop vs (nat ?k) ?used = map int is" "length is = nat ?k" "distinct is"
    "\<forall>i \<in> set is. i < length vs \<and> \<not> ?used ! i"
    "\<forall>p < nat ?k. \<forall>j < length vs. \<not> ?used ! j \<and> j \<notin> set (take (Suc p) is) \<longrightarrow> beats vs (is ! p) j"
    using select_loop_spec [OF assms(1), of ?used "nat ?k"] by auto
  have "heads_topK vs k = Some (map int is)" using s(1) assms(2) by (simp add: heads_topK_def Let_def not_less)
  moreover have "len is = min k (len vs)" using s(2) assms(2) by (simp add: len_def min_def)
  moreover have "is ! p < length vs" if "p < length is" for p using s(4) that by simp
  ultimately show ?thesis using s(2,3,5) by (intro exI [of _ "is"]) auto
qed

theorem heads_topK_best_witness:
  "\<exists>is. heads_topK [0, f32_one, 0] 2 = Some (map int is) \<and> length is = 2 \<and> is ! 0 = 1 \<and> is ! 1 = 0"
proof -
  let ?vs = "[0, f32_one, 0] :: f32 list"
  have v: "f32_less f32_lowest 0" "f32_less f32_lowest f32_one" "f32_less 0 f32_one" "\<not> f32_less f32_one 0"
    by (simp_all add: f32_less_key f32_nan_def f32_mag_def f32_key_def f32_neg_def f32_lowest_def f32_one_def)
  then have all: "\<forall>v \<in> set ?vs. f32_less f32_lowest v" by simp
  obtain "is" where s: "heads_topK ?vs 2 = Some (map int is)" "len is = min 2 (len ?vs)" "distinct is"
    and b: "\<forall>p < length is. is ! p < length ?vs \<and>
      (\<forall>j < length ?vs. j \<notin> set (take (Suc p) is) \<longrightarrow> beats ?vs (is ! p) j)"
    using heads_topK_best [OF all, of 2] by auto
  then have "length is = Suc (Suc 0)" by (simp add: len_def)
  then obtain i j where ij: "is = [i, j]" by (auto simp only: length_Suc_conv length_0_conv)
  have i: "i < 3 \<and> (\<forall>m < 3. m \<noteq> i \<longrightarrow> beats ?vs i m)" using b [rule_format, of 0] ij by simp
  have j: "j < 3 \<and> (\<forall>m < 3. m \<noteq> i \<and> m \<noteq> j \<longrightarrow> beats ?vs j m)" using b [rule_format, of 1] ij by simp
  have c: "i \<in> {0, 1, 2}" "j \<in> {0, 1, 2}" using i j by auto
  have "i = 1" using i [THEN conjunct2, rule_format, of 1] c(1) v by (auto simp: beats_def)
  moreover have "j = 0" using j [THEN conjunct2, rule_format, of 0] c(2) s(3) ij \<open>i = 1\<close> v by (auto simp: beats_def)
  ultimately show ?thesis using s(1) ij by (intro exI [of _ "is"]) simp
qed

text \<open>Values at or below \<open>-MaxFloat32\<close>, minus infinity among them, are never selected: the index is then -1.\<close>

lemma heads_topK_minus_one: "heads_topK [0xFF800000, 0] 2 = Some [1, -1]"
proof -
  have "\<not> f32_less f32_lowest 0xFF800000" "f32_less f32_lowest 0"
    by (simp_all add: f32_less_key f32_nan_def f32_mag_def f32_key_def f32_neg_def f32_lowest_def)
  then show ?thesis by (simp add: heads_topK_def Let_def eval_nat_numeral)
qed

end
