(* ===== verification/Medusa_Trainer_Props.thy ===== *)
theory Medusa_Trainer_Props
  imports Medusa_Trainer Medusa_Heads_Props
begin

text \<open>
  Correctness of the online trainer: training and evaluation never fail on consistent heads and keep them
  consistent, and a run of any events keeps the invariant of the trainer, never lowers its phase and leaves
  the cold phase exactly when enough samples have arrived.
\<close>

section \<open>Training a head\<close>

definition same_sizes :: "Heads \<Rightarrow> Heads \<Rightarrow> bool" where
  "same_sizes h h' \<longleftrightarrow> hs_NumHeads h' = hs_NumHeads h \<and> hs_HiddenSize h' = hs_HiddenSize h \<and>
     hs_VocabSize h' = hs_VocabSize h"

definition smp_ok :: "Heads \<Rightarrow> TrainingSample \<Rightarrow> bool" where
  "smp_ok h s \<longleftrightarrow> hs_HiddenSize h \<le> len (ts_HiddenState s)"

lemma same_sizes_refl: "same_sizes h h"
  by (simp add: same_sizes_def)

lemma same_sizes_trans: "same_sizes h h' \<Longrightarrow> same_sizes h' h'' \<Longrightarrow> same_sizes h h''"
  by (simp add: same_sizes_def)

lemma same_sizes_smp: "same_sizes h h' \<Longrightarrow> smp_ok h' s \<longleftrightarrow> smp_ok h s"
  by (simp add: same_sizes_def smp_ok_def)

lemma length_exp_loop': "length (fst (exp_loop exp32 m vs acc)) = length vs"
  by (induction vs arbitrary: acc) (simp_all add: Let_def case_prod_beta)

lemma train_softmax_total: "logits \<noteq> [] \<Longrightarrow> \<exists>p. train_softmax exp32 logits = Some p \<and> length p = length logits"
  using length_exp_loop' [of exp32 "max_loop logits (hd logits)" logits 0]
  by (cases logits) (simp_all add: train_softmax_def idx_def case_prod_beta Let_def)

lemma add_outer_total:
  assumes "n \<le> length xs" and "m \<le> length ys" and "length g = n * m"
  shows "\<exists>g'. add_outer fma n m xs ys g = Some g' \<and> length g' = n * m"
  unfolding add_outer_def
proof (rule foldM_total, rule assms(3))
  fix i g assume i: "i \<in> set [0..<n]" and g: "length (g :: f32 list) = n * m"
  show "\<exists>g'. add_outer_row fma m xs ys i g = Some g' \<and> length g' = n * m"
    unfolding add_outer_row_def
  proof (rule foldM_total, rule g)
    fix j h assume j: "j \<in> set [0..<m]" and h: "length (h :: f32 list) = n * m"
    have "i * m + j < n * m" using i j by (intro matrix_index) auto
    then show "\<exists>h'. do { x \<leftarrow> idx xs (int i); y \<leftarrow> idx ys (int j); old \<leftarrow> idx h (int (i * m + j));
        upd h (int (i * m + j)) (f32_mul_add fma x y old) } = Some h' \<and> length h' = n * m"
      using i j h assms(1,2) by (simp del: of_nat_add of_nat_mult)
  qed
qed

lemma dot_row_total:
  assumes "m \<le> length ys" and "length w = n * m" and "i < n"
  shows "dot_row fma ys w m i \<noteq> None"
proof -
  have "\<exists>r. foldM (\<lambda>j acc. do { y \<leftarrow> idx ys (int j); v \<leftarrow> idx w (int (i * m + j)); Some (f32_mul_add fma y v acc) })
      [0..<m] 0 = Some r \<and> True"
  proof (rule foldM_total, rule TrueI)
    fix j acc assume "j \<in> set [0..<m]"
    then have j: "j < m" by simp
    show "\<exists>r. do { y \<leftarrow> idx ys (int j); v \<leftarrow> idx w (int (i * m + j)); Some (f32_mul_add fma y v acc) } = Some r \<and> True"
      using j assms matrix_index [OF assms(3) j] by (simp del: of_nat_add of_nat_mult)
  qed
  then show ?thesis by (simp add: dot_row_def)
qed

text \<open>The sizes the loop over the batch maintains.\<close>

definition grads_ok :: "Heads \<Rightarrow> f32 list \<times> f32 list \<times> f32 \<times> int \<Rightarrow> bool" where
  "grads_ok h = (\<lambda>(grad1, grad2, totalLoss, validSamples).
     length grad1 = nat (hs_HiddenSize h) * nat (hs_HiddenSize h) \<and>
     length grad2 = nat (hs_HiddenSize h) * nat (hs_VocabSize h) \<and> (validSamples \<noteq> 0 \<longrightarrow> 0 < validSamples) \<and> 0 \<le> validSamples)"

lemma train_sample_total:
  assumes h: "heads_ok h" and s: "smp_ok h smp" and i: "0 \<le> i" "i < hs_NumHeads h" and g: "grads_ok h acc"
  shows "\<exists>acc'. train_sample M h i smp acc = Some acc' \<and> grads_ok h acc'"
proof -
  let ?n = "nat (hs_HiddenSize h)" and ?v = "nat (hs_VocabSize h)"
  obtain g1 g2 tl k where acc: "acc = (g1, g2, tl, k)" by (cases acc) auto
  show ?thesis
  proof (cases "i < len (ts_FutureTokens smp) \<and> 0 \<le> ts_FutureTokens smp ! nat i \<and> ts_FutureTokens smp ! nat i < hs_VocabSize h")
    case False
    then show ?thesis using g acc i by (auto simp: train_sample_def idx_def)
  next
    case True
    define tok where "tok = ts_FutureTokens smp ! nat i"
    have tok: "idx (ts_FutureTokens smp) i = Some tok" "0 \<le> tok" "tok < hs_VocabSize h"
      using True i by (simp_all add: idx_def tok_def)
    have pos: "0 < hs_HiddenSize h" "0 < hs_VocabSize h" using h by (simp_all add: heads_ok_def)
    have hid: "?n \<le> length (ts_HiddenState smp)" using s by (simp add: smp_ok_def len_def)
    obtain w where w: "idx (hs_heads h) i = Some w" and wok: "length (hd_FC1 w) = ?n * ?n" "length (hd_FC2 w) = ?n * ?v"
      using h i by (auto simp: heads_ok_def idx_def nat_lt_length head_ok_def)
    obtain logits where l: "Heads_Forward (ml_exp32 M) (ml_fma M) h i (ts_HiddenState smp) = Some (Some logits)"
      "len logits = hs_VocabSize h"
      using Heads_Forward_total [OF h s [unfolded smp_ok_def] i] by blast
    have ll: "length logits = ?v" "logits \<noteq> []" using l(2) pos by (auto simp: len_def)
    obtain probs where p: "train_softmax (ml_exp32 M) logits = Some probs" "length probs = ?v"
      using train_softmax_total [OF ll(2)] ll(1) by auto
    have t: "nat tok < ?v" using tok by simp
    have ip: "idx probs tok = Some (probs ! nat tok)" and up: "upd probs tok x = Some (probs[nat tok := x])" for x
      using tok t p(2) by (simp_all add: idx_def upd_def len_def)
    obtain pre where pre: "mat_vec (ml_fma M) (ts_HiddenState smp) (hd_FC1 w) ?n ?n = Some pre" "length pre = ?n"
      using mat_vec_total [OF hid wok(1)] by blast
    let ?d = "probs[nat tok := f32_sub (probs ! nat tok) f32_one]"
    obtain g2' where g2': "add_outer (ml_fma M) ?n ?v (map (silu (ml_exp32 M)) pre) ?d g2 = Some g2'" "length g2' = ?n * ?v"
      using add_outer_total [of ?n "map (silu (ml_exp32 M)) pre" ?v ?d g2 "ml_fma M"] pre p g acc by (auto simp: grads_ok_def)
    obtain d where d: "those (map (dot_row (ml_fma M) ?d (hd_FC2 w) ?v) [0..<?n]) = Some d" "length d = ?n"
      using those_map_length [of "[0..<?n]" "dot_row (ml_fma M) ?d (hd_FC2 w) ?v"] dot_row_total [of ?v ?d "hd_FC2 w" ?n] wok p
      by auto
    let ?e = "map2 (\<lambda>x a. f32_mul x (siluDerivative (ml_sigmoid32 M) (ml_fma M) a)) d pre"
    obtain g1' where g1': "add_outer (ml_fma M) ?n ?n (ts_HiddenState smp) ?e g1 = Some g1'" "length g1' = ?n * ?n"
      using add_outer_total [of ?n "ts_HiddenState smp" ?n ?e g1 "ml_fma M"] hid pre d g acc by (auto simp: grads_ok_def)
    show ?thesis using True i tok l w p(1) ip up pre g2' d g1' g
      by (simp add: acc train_sample_def grads_ok_def Let_def)
  qed
qed

lemma trainHead_total:
  assumes h: "heads_ok h" and s: "\<forall>smp \<in> set batch. smp_ok h smp" and i: "0 \<le> i"
  shows "\<exists>loss h'. trainHead M lr i batch h = Some (loss, h') \<and> heads_ok h' \<and> same_sizes h h'"
proof -
  let ?z = "(replicate (nat (hs_HiddenSize h * hs_HiddenSize h)) 0, replicate (nat (hs_HiddenSize h * hs_VocabSize h)) 0, 0, 0)"
  have pos: "0 < hs_HiddenSize h" "0 < hs_VocabSize h" "0 \<le> hs_NumHeads h" using h by (simp_all add: heads_ok_def)
  have mul: "0 \<le> hs_HiddenSize h * hs_HiddenSize h" "0 \<le> hs_HiddenSize h * hs_VocabSize h" using pos by simp_all
  have z: "grads_ok h ?z" using pos by (simp add: grads_ok_def nat_mult_distrib)
  show ?thesis
  proof (cases "i < hs_NumHeads h")
    case False
    have "foldM (train_sample M h i) batch ?z = Some ?z"
    proof -
      have "train_sample M h i smp acc = Some acc" for smp acc
        using False i by (cases acc) (auto simp: train_sample_def Heads_Forward_def idx_def)
      then show ?thesis by (induction batch) simp_all
    qed
    then show ?thesis using h mul by (simp add: trainHead_def make_slice_def same_sizes_refl)
  next
    case True
    obtain acc where a: "foldM (train_sample M h i) batch ?z = Some acc" "grads_ok h acc"
      using foldM_total [where P = "grads_ok h", OF z, of batch "train_sample M h i"] train_sample_total [OF h _ i True] s by blast
    obtain g1 g2 tl k where acc: "acc = (g1, g2, tl, k)" by (cases acc) auto
    show ?thesis
    proof (cases "k = 0")
      case True
      then show ?thesis using a acc h mul by (simp add: trainHead_def make_slice_def same_sizes_refl)
    next
      case False
      let ?f = "map (\<lambda>g. f32_mul g (f32_div f32_one (f32_of_int k)))"
      have g: "len (?f g1) = hs_HiddenSize h * hs_HiddenSize h" "len (?f g2) = hs_HiddenSize h * hs_VocabSize h"
        using a(2) acc pos by (simp_all add: grads_ok_def len_def)
      obtain h' where "Heads_UpdateWeights (ml_fma M) i (?f g1) (?f g2) lr h = Some h'" "heads_ok h'" "same_sizes h h'"
        using Heads_UpdateWeights_ok [OF h i True g, of "ml_fma M" lr] by (auto simp: same_sizes_def)
      then show ?thesis using a acc False mul by (simp add: trainHead_def make_slice_def Let_def)
    qed
  qed
qed

lemma train_heads_total:
  "heads_ok h \<Longrightarrow> \<forall>smp \<in> set batch. smp_ok h smp \<Longrightarrow>
   \<exists>loss h'. train_heads M lr batch i k totalLoss h = Some (loss, h') \<and> heads_ok h' \<and> same_sizes h h'"
proof (induction k arbitrary: i totalLoss h)
  case 0
  then show ?case by (simp add: same_sizes_refl)
next
  case (Suc k)
  obtain l h1 where h1: "trainHead M lr (int i) batch h = Some (l, h1)" "heads_ok h1" "same_sizes h h1"
    using trainHead_total [OF Suc.prems] by (metis of_nat_0_le_iff)
  then obtain l' h2 where "train_heads M lr batch (Suc i) k (f32_add totalLoss l) h1 = Some (l', h2)" "heads_ok h2" "same_sizes h1 h2"
    using Suc.IH [of h1 "Suc i"] Suc.prems(2) same_sizes_smp by blast
  then show ?case using h1 same_sizes_trans by (auto simp: same_sizes_def)
qed

lemma eval_head_total:
  assumes h: "heads_ok h" and s: "\<forall>smp \<in> set batch. smp_ok h smp" and i: "0 \<le> i"
  shows "\<exists>a. eval_head M h batch i = Some a"
proof -
  have "\<exists>acc'. foldM (eval_sample M h i) batch (0, 0) = Some acc' \<and> True"
  proof (rule foldM_total, rule TrueI)
    fix smp and acc :: "int \<times> int" assume m: "smp \<in> set batch"
    obtain c n where acc: "acc = (c, n)" by (cases acc)
    show "\<exists>acc'. eval_sample M h i smp acc = Some acc' \<and> True"
    proof (cases "i < hs_NumHeads h")
      case True
      then obtain l where l: "Heads_Forward (ml_exp32 M) (ml_fma M) h i (ts_HiddenState smp) = Some (Some l)" "len l = hs_VocabSize h"
        using Heads_Forward_total [OF h s [rule_format, OF m, unfolded smp_ok_def] i] by blast
      then have "l \<noteq> []" using h by (auto simp: heads_ok_def)
      then have "\<exists>p. train_argmax l = Some p" by (cases l) (simp_all add: train_argmax_def idx_def)
      then show ?thesis using l i by (auto simp: eval_sample_def acc idx_def)
    next
      case False
      then show ?thesis using i by (auto simp: eval_sample_def acc idx_def Heads_Forward_def)
    qed
  qed
  then show ?thesis by (auto simp: eval_head_def split: prod.splits)
qed

section \<open>The invariant\<close>

text \<open>The random source serves every bound.\<close>

definition fair_source :: "('r \<Rightarrow> int \<Rightarrow> int \<times> 'r) \<Rightarrow> bool" where
  "fair_source intn \<longleftrightarrow> (\<forall>n > 0. fair_rng intn n)"

definition config_ok :: "OnlineConfig \<Rightarrow> bool" where
  "config_ok c \<longleftrightarrow> 0 < oc_NumHeads c \<and> 0 < oc_BufferCapacity c \<and> 0 \<le> oc_BatchSize c"

text \<open>The data: consistent heads, and a ring buffer of samples wide enough for them.\<close>

definition data_ok :: "'r OnlineTrainer \<Rightarrow> bool" where
  "data_ok t \<longleftrightarrow> config_ok (ot_config t) \<and> heads_ok (ot_heads t) \<and>
     rb_ok (oc_BufferCapacity (ot_config t)) (ot_buffer t) \<and> (\<forall>s \<in> set (rb_items (ot_buffer t)). smp_ok (ot_heads t) s) \<and>
     rb_count (ot_buffer t) = min (oc_BufferCapacity (ot_config t)) (tm_SamplesCollected (ot_metrics t)) \<and>
     0 \<le> tm_SamplesCollected (ot_metrics t)"

text \<open>The channels: the loop runs at most once, and until it is stopped.\<close>

definition life_ok :: "'r OnlineTrainer \<Rightarrow> bool" where
  "life_ok t \<longleftrightarrow> (ot_loop t \<longrightarrow> ot_isRunning t \<and> \<not> ot_doneClosed t) \<and>
     (ot_isRunning t \<longrightarrow> \<not> ot_stopClosed t \<and> (\<not> ot_loop t \<longrightarrow> ot_doneClosed t))"

text \<open>A trainer that may still be started.\<close>

definition startable :: "'r OnlineTrainer \<Rightarrow> bool" where
  "startable t \<longleftrightarrow> ot_isRunning t \<or> (\<not> ot_stopClosed t \<and> \<not> ot_doneClosed t)"

text \<open>Enough samples to leave the cold phase.\<close>

definition warm_enough :: "'r OnlineTrainer \<Rightarrow> bool" where
  "warm_enough t \<longleftrightarrow> tm_SamplesCollected (ot_metrics t) \<noteq> 0 \<and>
     oc_WarmupSamples (ot_config t) \<le> min (oc_BufferCapacity (ot_config t)) (tm_SamplesCollected (ot_metrics t))"

definition trainer_ok :: "'r OnlineTrainer \<Rightarrow> bool" where
  "trainer_ok t \<longleftrightarrow> data_ok t \<and> life_ok t \<and> (warm_enough t \<longrightarrow> ot_phase t \<noteq> PhaseCold)"

text \<open>What a step leaves alone besides.\<close>

definition train_frame :: "'r OnlineTrainer \<Rightarrow> 'r OnlineTrainer \<Rightarrow> bool" where
  "train_frame t t' \<longleftrightarrow> ot_config t' = ot_config t \<and> ot_phase t \<le> ot_phase t' \<and> same_sizes (ot_heads t) (ot_heads t')"

lemma phase_le_simps [simp]:
  "PhaseCold \<le> p" "p \<le> PhaseHot" "PhaseWarming \<le> p \<longleftrightarrow> p \<noteq> PhaseCold" "p \<le> PhaseCold \<longleftrightarrow> p = PhaseCold"
  by (cases p; simp add: less_eq_TrainingPhase_def)+

lemma train_frame_refl: "train_frame t t"
  by (simp add: train_frame_def same_sizes_refl)

lemma train_frame_trans: "train_frame t t' \<Longrightarrow> train_frame t' t'' \<Longrightarrow> train_frame t t''"
  unfolding train_frame_def using same_sizes_trans order_trans by metis

lemma sample_batch:
  assumes "data_ok t" and "fair_source intn" and "0 \<le> k"
  shows "\<exists>batch r. RingBuffer_Sample intn k (ot_buffer t) (ot_rng t) = Some (batch, r) \<and>
    (\<forall>s \<in> set batch. smp_ok (ot_heads t) s)"
proof (cases "rb_count (ot_buffer t) = 0")
  case True
  then show ?thesis by (simp add: RingBuffer_Sample_def)
next
  case False
  let ?rb = "ot_buffer t"
  have rb: "rb_ok (oc_BufferCapacity (ot_config t)) ?rb" and c: "0 < rb_count ?rb"
    using assms(1) False by (auto simp: data_ok_def config_ok_def rb_ok_def ring_ok_def)
  have f: "fair_rng intn (rb_count ?rb)" using assms(2) c by (simp add: fair_source_def)
  obtain "is" r where s: "RingBuffer_Sample intn k ?rb (ot_rng t) = Some (map (\<lambda>i. rb_items ?rb ! nat i) is, r)"
    and m: "set is \<subseteq> {0..<RingBuffer_Count ?rb}"
    using RingBuffer_Sample_returns [OF rb f assms(3)] by blast
  have "rb_items ?rb ! nat i \<in> set (rb_items ?rb)" if "i \<in> set is" for i
    using m that by (intro nth_mem) (auto simp: RingBuffer_Count_def rb_items_def)
  then show ?thesis using s assms(1) by (auto simp: data_ok_def)
qed

lemma trainStep_ok:
  assumes "data_ok t" and "fair_source intn"
  shows "\<exists>t'. trainStep M intn t = Some t' \<and> data_ok t' \<and> train_frame t t' \<and> ot_phase t' = ot_phase t \<and>
    tm_SamplesCollected (ot_metrics t') = tm_SamplesCollected (ot_metrics t) \<and>
    (ot_isRunning t', ot_loop t', ot_stopClosed t', ot_doneClosed t') = (ot_isRunning t, ot_loop t, ot_stopClosed t, ot_doneClosed t)"
proof -
  have b: "0 \<le> oc_BatchSize (ot_config t)" and h: "heads_ok (ot_heads t)" using assms(1) by (auto simp: data_ok_def config_ok_def)
  obtain batch r where s: "RingBuffer_Sample intn (oc_BatchSize (ot_config t)) (ot_buffer t) (ot_rng t) = Some (batch, r)"
    "\<forall>s \<in> set batch. smp_ok (ot_heads t) s"
    using sample_batch [OF assms b] by blast
  obtain l h' where th: "train_heads M (oc_LearningRate (ot_config t)) batch 0 (nat (oc_NumHeads (ot_config t))) 0 (ot_heads t) = Some (l, h')"
    "heads_ok h'" "same_sizes (ot_heads t) h'"
    using train_heads_total [OF h s(2)] by blast
  show ?thesis using assms(1) s th same_sizes_smp [OF th(3)]
    by (auto simp: trainStep_def data_ok_def train_frame_def same_sizes_refl Let_def)
qed

lemma evaluate_ok:
  assumes "data_ok t" and "fair_source intn"
  shows "\<exists>t'. evaluate M intn t = Some t' \<and> data_ok t' \<and> train_frame t t' \<and>
    (ot_phase t \<noteq> PhaseWarming \<longrightarrow> ot_phase t' = ot_phase t) \<and> ot_heads t' = ot_heads t \<and>
    tm_SamplesCollected (ot_metrics t') = tm_SamplesCollected (ot_metrics t) \<and>
    (ot_isRunning t', ot_loop t', ot_stopClosed t', ot_doneClosed t') = (ot_isRunning t, ot_loop t, ot_stopClosed t, ot_doneClosed t)"
proof -
  have b: "0 \<le> oc_BatchSize (ot_config t) * 4" and h: "heads_ok (ot_heads t)" and n: "0 < oc_NumHeads (ot_config t)"
    using assms(1) by (auto simp: data_ok_def config_ok_def)
  obtain batch r where s: "RingBuffer_Sample intn (oc_BatchSize (ot_config t) * 4) (ot_buffer t) (ot_rng t) = Some (batch, r)"
    "\<forall>s \<in> set batch. smp_ok (ot_heads t) s"
    using sample_batch [OF assms b] by blast
  have "eval_head M (ot_heads t) batch (int i) \<noteq> None" for i using eval_head_total [OF h s(2), of "int i" M] by simp
  then obtain accs where a: "those (map (\<lambda>i. eval_head M (ot_heads t) batch (int i)) [0..<nat (oc_NumHeads (ot_config t))]) = Some accs"
    "length accs = nat (oc_NumHeads (ot_config t))"
    using those_map_length [of "[0..<nat (oc_NumHeads (ot_config t))]"] by (metis length_upt minus_nat.diff_0)
  then have "idx accs 0 = Some (accs ! 0)" using n by (simp add: idx_def len_def)
  then show ?thesis using assms(1) n s a
    by (auto simp: evaluate_def data_ok_def train_frame_def same_sizes_refl Let_def)
qed

lemma AddSample_ok:
  assumes "trainer_ok t" and "hs_HiddenSize (ot_heads t) \<le> len hidden"
  shows "\<exists>t'. OnlineTrainer_AddSample hidden toks pos t = Some t' \<and> trainer_ok t' \<and> train_frame t t' \<and> startable t' = startable t \<and>
    tm_SamplesCollected (ot_metrics t') = tm_SamplesCollected (ot_metrics t) + 1 \<and>
    (ot_phase t' = ot_phase t \<or> (ot_phase t' = PhaseWarming \<and> warm_enough t'))"
proof -
  let ?c = "oc_BufferCapacity (ot_config t)"
  let ?x = "\<lparr>ts_HiddenState = hidden, ts_FutureTokens = toks, ts_Position = pos\<rparr>"
  have d: "data_ok t" and c: "0 < ?c" and rb: "rb_ok ?c (ot_buffer t)" using assms(1) by (auto simp: trainer_ok_def data_ok_def config_ok_def)
  obtain rb' where r: "RingBuffer_Add ?x (ot_buffer t) = Some rb'" "rb_ok ?c rb'"
    "rb_items rb' = lastn (nat ?c) (rb_items (ot_buffer t) @ [?x])"
    using RingBuffer_Add_ok [OF rb] by blast
  have "set (rb_items rb') \<subseteq> insert ?x (set (rb_items (ot_buffer t)))"
    unfolding r(3) lastn_def by (auto dest: in_set_dropD)
  then have it: "\<forall>s \<in> set (rb_items rb'). smp_ok (ot_heads t) s"
    using d assms(2) by (fastforce simp: data_ok_def smp_ok_def)
  have "nat (rb_count rb') = min (nat ?c) (nat (rb_count (ot_buffer t)) + 1)"
    using arg_cong [OF r(3), of length] by (simp add: rb_items_def)
  moreover have "0 \<le> rb_count rb'" "0 \<le> rb_count (ot_buffer t)" using rb r(2) by (auto simp: rb_ok_def ring_ok_def)
  ultimately have "rb_count rb' = min ?c (rb_count (ot_buffer t) + 1)" using c by linarith
  then have n: "rb_count rb' = min ?c (tm_SamplesCollected (ot_metrics t) + 1)" using d by (auto simp: data_ok_def)
  define t1 where "t1 = t\<lparr>ot_buffer := rb', ot_metrics := (ot_metrics t)\<lparr>tm_SamplesCollected := tm_SamplesCollected (ot_metrics t) + 1\<rparr>\<rparr>"
  have s: "AddSample_store hidden toks pos t = Some t1" using r(1) by (simp add: AddSample_store_def t1_def Let_def)
  have d1: "data_ok t1" using d r(2) it n by (simp add: data_ok_def t1_def)
  have l1: "life_ok t1" "startable t1 = startable t" using assms(1) by (simp_all add: trainer_ok_def life_ok_def startable_def t1_def)
  have w: "warm_enough t1 \<longleftrightarrow> oc_WarmupSamples (ot_config t) \<le> rb_count rb'"
    using n d by (auto simp: warm_enough_def t1_def data_ok_def)
  have e: "ot_phase t1 = ot_phase t" "ot_config t1 = ot_config t" "ot_heads t1 = ot_heads t" "ot_buffer t1 = rb'"
    "tm_SamplesCollected (ot_metrics t1) = tm_SamplesCollected (ot_metrics t) + 1" by (simp_all add: t1_def)
  show ?thesis
  proof (cases "AddSample_test t1")
    case True
    then have "OnlineTrainer_AddSample hidden toks pos t = Some (AddSample_warm t1)" by (simp add: OnlineTrainer_AddSample_def s)
    moreover have "data_ok (AddSample_warm t1)" "life_ok (AddSample_warm t1)" "startable (AddSample_warm t1) = startable t1"
      "warm_enough (AddSample_warm t1) = warm_enough t1" "train_frame t (AddSample_warm t1)"
      using d1 l1 True e by (simp_all add: AddSample_warm_def data_ok_def life_ok_def startable_def warm_enough_def
          train_frame_def same_sizes_refl AddSample_test_def)
    moreover have "warm_enough t1" using True w e by (simp add: AddSample_test_def RingBuffer_Count_def)
    ultimately show ?thesis using l1 e by (simp add: trainer_ok_def AddSample_warm_def)
  next
    case False
    then have "OnlineTrainer_AddSample hidden toks pos t = Some t1" by (simp add: OnlineTrainer_AddSample_def s)
    moreover have "warm_enough t1 \<longrightarrow> ot_phase t1 \<noteq> PhaseCold" using False w e by (auto simp: AddSample_test_def RingBuffer_Count_def)
    moreover have "train_frame t t1" using e by (simp add: train_frame_def same_sizes_refl)
    ultimately show ?thesis using d1 l1 e by (auto simp: trainer_ok_def)
  qed
qed

section \<open>Runs\<close>

text \<open>No start after a stop; every sample as wide as the hidden states of the heads.\<close>

fun no_restart :: "train_event list \<Rightarrow> bool" where
  "no_restart [] = True"
| "no_restart (ev # evs) = ((ev = EvStop \<longrightarrow> EvStart \<notin> set evs) \<and> no_restart evs)"

fun wide_event :: "int \<Rightarrow> train_event \<Rightarrow> bool" where
  "wide_event n (EvSample hidden toks pos) = (n \<le> len hidden)"
| "wide_event n _ = True"

fun is_sample :: "train_event \<Rightarrow> bool" where
  "is_sample (EvSample hidden toks pos) = True"
| "is_sample _ = False"

definition count_samples :: "train_event list \<Rightarrow> int" where
  "count_samples evs = len (filter is_sample evs)"

lemma life_simps: "data_ok (t\<lparr>ot_isRunning := a, ot_loop := b\<rparr>) = data_ok t" "data_ok (t\<lparr>ot_phase := p\<rparr>) = data_ok t"
  by (simp_all add: data_ok_def)

lemma trainer_event_ok:
  assumes ok: "trainer_ok t" and f: "fair_source intn" and w: "wide_event (hs_HiddenSize (ot_heads t)) ev"
    and s: "ev = EvStart \<longrightarrow> startable t"
  shows "\<exists>t'. trainer_event M intn ev t = Some t' \<and> trainer_ok t' \<and> train_frame t t' \<and>
    (startable t \<and> ev \<noteq> EvStop \<longrightarrow> startable t') \<and>
    tm_SamplesCollected (ot_metrics t') = tm_SamplesCollected (ot_metrics t) + (if is_sample ev then 1 else 0) \<and>
    (ot_phase t = PhaseCold \<and> ev \<noteq> EvForceHot \<longrightarrow> ot_phase t' = PhaseCold \<or> warm_enough t')"
proof (cases ev)
  case (EvSample hidden toks pos)
  then have "hs_HiddenSize (ot_heads t) \<le> len hidden" using w by simp
  then show ?thesis using AddSample_ok [OF ok] EvSample by fastforce
next
  case EvTrain
  have d: "data_ok t" using ok by (simp add: trainer_ok_def)
  show ?thesis
  proof (cases "ot_loop t \<and> ot_phase t \<noteq> PhaseCold")
    case True
    then show ?thesis using trainStep_ok [OF d f, of M] ok EvTrain
      by (auto simp: train_tick_def trainer_ok_def life_ok_def startable_def warm_enough_def train_frame_def)
  next
    case False
    then show ?thesis using ok EvTrain by (auto simp: train_tick_def train_frame_refl)
  qed
next
  case EvEval
  have d: "data_ok t" using ok by (simp add: trainer_ok_def)
  show ?thesis
  proof (cases "ot_loop t \<and> ot_phase t \<noteq> PhaseCold")
    case True
    then obtain t' where t': "evaluate M intn t = Some t'" "data_ok t'" "train_frame t t'"
      "tm_SamplesCollected (ot_metrics t') = tm_SamplesCollected (ot_metrics t)"
      "(ot_isRunning t', ot_loop t', ot_stopClosed t', ot_doneClosed t') = (ot_isRunning t, ot_loop t, ot_stopClosed t, ot_doneClosed t)"
      using evaluate_ok [OF d f, of M] by blast
    have "ot_phase t' \<noteq> PhaseCold" using t'(3) True by (auto simp: train_frame_def)
    then show ?thesis using t' ok EvEval True
      by (auto simp: eval_tick_def trainer_ok_def life_ok_def startable_def)
  next
    case False
    then show ?thesis using ok EvEval by (auto simp: eval_tick_def train_frame_refl)
  qed
next
  case EvForceHot
  then show ?thesis using ok
    by (auto simp: OnlineTrainer_ForceHot_def trainer_ok_def life_ok_def startable_def life_simps train_frame_def same_sizes_refl)
next
  case EvStart
  then show ?thesis using ok s
    by (auto simp: OnlineTrainer_Start_def trainer_ok_def life_ok_def startable_def life_simps train_frame_def same_sizes_refl
        warm_enough_def)
next
  case EvStop
  then show ?thesis using ok
    by (auto simp: OnlineTrainer_Stop_def trainingLoop_exit_def trainer_ok_def life_ok_def data_ok_def train_frame_def
        same_sizes_refl warm_enough_def)
next
  case EvDone
  then show ?thesis using ok
    by (auto simp: trainingLoop_exit_def trainer_ok_def life_ok_def data_ok_def train_frame_def startable_def
        same_sizes_refl warm_enough_def)
qed

lemma warm_enough_mono:
  "warm_enough t \<Longrightarrow> data_ok t \<Longrightarrow> ot_config t' = ot_config t \<Longrightarrow>
   tm_SamplesCollected (ot_metrics t) \<le> tm_SamplesCollected (ot_metrics t') \<Longrightarrow> warm_enough t'"
  by (auto simp: warm_enough_def data_ok_def)

lemma trainer_run_ok:
  "trainer_ok t \<Longrightarrow> fair_source intn \<Longrightarrow> no_restart evs \<Longrightarrow> startable t \<or> EvStart \<notin> set evs \<Longrightarrow>
   \<forall>ev \<in> set evs. wide_event (hs_HiddenSize (ot_heads t)) ev \<Longrightarrow>
   \<exists>t'. foldM (trainer_event M intn) evs t = Some t' \<and> trainer_ok t' \<and> train_frame t t' \<and>
     (startable t' \<or> EvStop \<in> set evs \<or> \<not> startable t) \<and>
     tm_SamplesCollected (ot_metrics t') = tm_SamplesCollected (ot_metrics t) + count_samples evs \<and>
     (ot_phase t = PhaseCold \<and> EvForceHot \<notin> set evs \<longrightarrow> ot_phase t' = PhaseCold \<or> warm_enough t')"
proof (induction evs arbitrary: t)
  case Nil
  then show ?case by (simp add: train_frame_refl count_samples_def)
next
  case (Cons ev evs)
  have w: "wide_event (hs_HiddenSize (ot_heads t)) ev" and s: "ev = EvStart \<longrightarrow> startable t" using Cons.prems by auto
  obtain t1 where e: "trainer_event M intn ev t = Some t1" and t1: "trainer_ok t1" "train_frame t t1"
    and st: "startable t \<and> ev \<noteq> EvStop \<longrightarrow> startable t1"
    and n: "tm_SamplesCollected (ot_metrics t1) = tm_SamplesCollected (ot_metrics t) + (if is_sample ev then 1 else 0)"
    and p: "ot_phase t = PhaseCold \<and> ev \<noteq> EvForceHot \<longrightarrow> ot_phase t1 = PhaseCold \<or> warm_enough t1"
    using trainer_event_ok [OF Cons.prems(1,2) w s, of M] by blast
  have wide: "\<forall>ev \<in> set evs. wide_event (hs_HiddenSize (ot_heads t1)) ev"
    using Cons.prems(5) t1(2) by (simp add: train_frame_def same_sizes_def)
  have s1: "startable t1 \<or> EvStart \<notin> set evs" using Cons.prems(3,4) st by auto
  have nr: "no_restart evs" using Cons.prems(3) by simp
  obtain t2 where r: "foldM (trainer_event M intn) evs t1 = Some t2" and t2: "trainer_ok t2" "train_frame t1 t2"
    and st2: "startable t2 \<or> EvStop \<in> set evs \<or> \<not> startable t1"
    and n2: "tm_SamplesCollected (ot_metrics t2) = tm_SamplesCollected (ot_metrics t1) + count_samples evs"
    and p2: "ot_phase t1 = PhaseCold \<and> EvForceHot \<notin> set evs \<longrightarrow> ot_phase t2 = PhaseCold \<or> warm_enough t2"
    using Cons.IH [OF t1(1) Cons.prems(2) nr s1 wide] by blast
  have "warm_enough t1 \<Longrightarrow> warm_enough t2"
    using t1(1) t2(2) n2 by (intro warm_enough_mono [of t1 t2]) (auto simp: trainer_ok_def train_frame_def count_samples_def)
  then have "ot_phase t = PhaseCold \<and> EvForceHot \<notin> set (ev # evs) \<longrightarrow> ot_phase t2 = PhaseCold \<or> warm_enough t2"
    using p p2 by auto
  moreover have "tm_SamplesCollected (ot_metrics t2) = tm_SamplesCollected (ot_metrics t) + count_samples (ev # evs)"
    using n n2 by (simp add: count_samples_def)
  moreover have "startable t2 \<or> EvStop \<in> set (ev # evs) \<or> \<not> startable t" using st st2 by auto
  ultimately show ?case using e r t2(1) train_frame_trans [OF t1(2) t2(2)] by simp
qed

lemma random_weights_length: "length (fst (random_weights rnd fma scale n g)) = n"
  by (induction n arbitrary: g) (simp_all add: case_prod_beta Let_def)

lemma random_heads_ok:
  assumes "0 < n" and "0 < v"
  shows "\<exists>hds g'. random_heads rnd fma scale n v k g = Some (hds, g') \<and> length hds = k \<and>
    (\<forall>w \<in> set hds. head_ok (nat n) (nat v) w)"
proof (induction k arbitrary: g)
  case (Suc k)
  obtain w1 g1 where w1: "random_weights rnd fma scale (nat (n * n)) g = (w1, g1)" by fastforce
  obtain w2 g2 where w2: "random_weights rnd fma scale (nat (n * v)) g1 = (w2, g2)" by fastforce
  obtain hds g3 where h: "random_heads rnd fma scale n v k g2 = Some (hds, g3)" "length hds = k"
    "\<forall>w \<in> set hds. head_ok (nat n) (nat v) w"
    using Suc by blast
  have "length w1 = nat (n * n)" "length w2 = nat (n * v)"
    using random_weights_length [of rnd fma scale "nat (n * n)" g] random_weights_length [of rnd fma scale "nat (n * v)" g1] w1 w2
    by simp_all
  moreover have "\<not> n * v < 0" using assms by (simp add: not_less)
  ultimately show ?case using w1 w2 h assms by (simp add: head_ok_def nat_mult_distrib)
qed simp

lemma NewOnlineTrainer_ok:
  assumes "config_ok config" and "0 < n" and "0 < v"
  shows "\<exists>t g'. NewOnlineTrainer rnd sqrt2 fma n v config rng g = Some (t, g') \<and> trainer_ok t \<and> startable t \<and>
    ot_config t = config \<and> ot_phase t = PhaseCold \<and> tm_SamplesCollected (ot_metrics t) = 0 \<and>
    hs_NumHeads (ot_heads t) = oc_NumHeads config \<and> hs_HiddenSize (ot_heads t) = n \<and> hs_VocabSize (ot_heads t) = v"
proof -
  have c: "0 < oc_NumHeads config" "0 < oc_BufferCapacity config" using assms(1) by (simp_all add: config_ok_def)
  obtain hds g' where h: "random_heads rnd fma (sqrt2 n) n v (nat (oc_NumHeads config)) g = Some (hds, g')"
    "length hds = nat (oc_NumHeads config)" "\<forall>w \<in> set hds. head_ok (nat n) (nat v) w"
    using random_heads_ok [OF assms(2,3), of rnd fma "sqrt2 n" "nat (oc_NumHeads config)" g] by auto
  obtain rb where rb: "NewRingBuffer (oc_BufferCapacity config) = Some rb" "rb_ok (oc_BufferCapacity config) rb" "rb_items rb = []"
    using NewRingBuffer_ok [OF c(2)] by blast
  have "rb_count rb = 0" using rb(2) arg_cong [OF rb(3), of length] by (simp add: rb_items_def rb_ok_def ring_ok_def)
  then show ?thesis using h rb c assms
    by (simp add: NewOnlineTrainer_def NewHeads_def new_trainer_def make_slice_def trainer_ok_def data_ok_def life_ok_def
        startable_def warm_enough_def heads_ok_def len_def not_less)
qed

lemma no_restart_take: "no_restart evs \<Longrightarrow> no_restart (take k evs)"
proof (induction evs arbitrary: k)
  case (Cons ev evs)
  then show ?case by (cases k) (auto dest: in_set_takeD)
qed simp

lemma no_restart_drop: "no_restart (xs @ ys) \<Longrightarrow> no_restart ys \<and> (EvStop \<in> set xs \<longrightarrow> EvStart \<notin> set ys)"
  by (induction xs) auto


definition demo_math :: Mathlib where
  "demo_math = \<lparr>ml_exp32 = (\<lambda>x. f32_one), ml_sigmoid32 = (\<lambda>x. 0), ml_nll32 = (\<lambda>x. 0), ml_fma = False\<rparr>"

definition demo_online :: OnlineConfig where
  "demo_online = \<lparr>oc_NumHeads = 1, oc_BufferCapacity = 2, oc_WarmupSamples = 1, oc_MinAccuracy = 0, oc_BatchSize = 1,
     oc_LearningRate = 0\<rparr>"

lemma demo_online_ok: "config_ok demo_online"
  by (simp add: config_ok_def demo_online_def)

lemma counter_source: "fair_source counter_rng"
  by (simp add: fair_source_def counter_rng_fair)


section \<open>What goes wrong\<close>

text \<open>A trainer that is started again after a stop panics: the channels of the first run are still closed.\<close>

lemma restart_panics:
  assumes "\<not> ot_isRunning t" and "\<not> ot_stopClosed t" and "\<not> ot_doneClosed t" and "\<not> ot_loop t"
  shows "foldM (trainer_event M intn) [EvStart, EvStop, EvStart, EvDone] t = None"
    and "foldM (trainer_event M intn) [EvStart, EvStop, EvStart, EvStop] t = None"
  using assms by (simp_all add: OnlineTrainer_Start_def OnlineTrainer_Stop_def trainingLoop_exit_def)

text \<open>
  \<open>AddSample\<close> tests the phase and stores the new one in two atomic operations. If the trainer is forced hot
  between them, the store takes it back to warming.
\<close>

lemma force_hot_lost:
  assumes "AddSample_test t"
  shows "OnlineTrainer_IsHot (OnlineTrainer_ForceHot t)"
    and "\<not> OnlineTrainer_IsHot (AddSample_warm (OnlineTrainer_ForceHot t))"
  by (simp_all add: OnlineTrainer_IsHot_def OnlineTrainer_ForceHot_def AddSample_warm_def)

end
