(* ===== verification/Medusa_Step_Props.thy ===== *)
theory Medusa_Step_Props
  imports Medusa_Step Speculative_Props Medusa_Tree_Props Medusa_Trainer_Props
begin

text \<open>
  Correctness of decoding with Medusa heads: the window that switches speculation on, the choice of the best
  path, and a verified tree step, which appends exactly what the model itself would have chosen and leaves the
  cache in step. The trainer enters through the locale \<open>draft_trainer\<close>, which the online trainer meets.
\<close>

section \<open>The window of acceptances\<close>

definition window_count :: "('f, 'd, 's, 't) MedusaScheduler \<Rightarrow> int" where
  "window_count ms = (if ms_recentFull ms then 4 else ms_recentIdx ms)"

definition window_ok :: "('f, 'd, 's, 't) MedusaScheduler \<Rightarrow> bool" where
  "window_ok ms \<longleftrightarrow> ring_ok (ms_recentAccepted ms) (ms_recentIdx ms) (window_count ms) 4"

definition window_items :: "('f, 'd, 's, 't) MedusaScheduler \<Rightarrow> int list" where
  "window_items ms = ring_items (ms_recentAccepted ms) (ms_recentIdx ms) (window_count ms)"

lemma recordAcceptance_ok:
  assumes "window_ok ms"
  shows "\<exists>ms'. recordAcceptance n ms = Some ms' \<and> window_ok ms' \<and>
    window_items ms' = lastn (nat 4) (window_items ms @ [n])"
proof -
  let ?i = "ms_recentIdx ms" and ?w = "ms_recentAccepted ms"
  have r: "ring_ok ?w ?i (window_count ms) 4" using assms by (simp add: window_ok_def)
  then have b: "0 \<le> ?i" "?i < 4" "len ?w = 4" by (simp_all add: ring_ok_def)
  let ?ms = "ms\<lparr>ms_recentAccepted := ?w[nat ?i := n], ms_recentIdx := (?i + 1) mod 4,
    ms_recentFull := ((?i + 1) mod 4 = 0 \<or> ms_recentFull ms)\<rparr>"
  have "recordAcceptance n ms = Some ?ms" using b by (simp add: recordAcceptance_def upd_def)
  moreover have "window_count ?ms = (if window_count ms < 4 then window_count ms + 1 else window_count ms)"
  proof (cases "?i = 3")
    case False
    then have "(?i + 1) mod 4 = ?i + 1" using b by simp
    then show ?thesis using b False by (auto simp: window_count_def)
  qed (simp add: window_count_def)
  ultimately show ?thesis using ring_put [OF r, of n]
    by (intro exI [of _ ?ms]) (simp add: window_ok_def window_items_def)
qed

interpretation acceptance: ring recordAcceptance window_items "nat 4" window_ok
  by unfold_locales (rule recordAcceptance_ok)

text \<open>A full window is a rotation of its items, so the order does not matter for the sum.\<close>

lemma full_slots: "length xs = n \<Longrightarrow> map (\<lambda>i. xs ! slot n h n i) [0..<n] = rotate h xs"
  by (rule nth_equalityI) (simp_all add: slot_def nth_rotate)

lemma sum_list_rotate: "sum_list (rotate n xs) = (sum_list xs :: int)"
proof -
  have "sum_list (drop m xs @ take m xs) = sum_list (take m xs @ drop m xs)" for m
    by (simp only: sum_list_append add.commute)
  then show ?thesis by (simp only: rotate_drop_take append_take_drop_id)
qed

lemma window_sum:
  assumes "window_ok ms" and "ms_recentFull ms"
  shows "sum_list (window_items ms) = sum_list (ms_recentAccepted ms)"
proof -
  have l: "length (ms_recentAccepted ms) = 4" using assms by (auto simp: window_ok_def ring_ok_def len_def)
  have "window_items ms = rotate (nat (ms_recentIdx ms)) (ms_recentAccepted ms)"
    using full_slots [OF l, of "nat (ms_recentIdx ms)"] assms(2) l by (simp add: window_items_def ring_items_def window_count_def)
  then show ?thesis by (simp add: sum_list_rotate)
qed

lemma speculationEnabled_items:
  assumes "window_ok ms"
  shows "speculationEnabled ms \<longleftrightarrow> length (window_items ms) = 4 \<and> 2 \<le> sum_list (window_items ms)"
proof -
  have l: "len (ms_recentAccepted ms) = 4" and i: "0 \<le> ms_recentIdx ms" "ms_recentIdx ms < 4"
    using assms by (auto simp: window_ok_def ring_ok_def)
  show ?thesis
  proof (cases "ms_recentFull ms")
    case True
    then show ?thesis using window_sum [OF assms True] l by (auto simp: speculationEnabled_def window_items_def window_count_def)
  next
    case False
    then show ?thesis using i by (auto simp: speculationEnabled_def window_items_def window_count_def)
  qed
qed

text \<open>
  Speculation is switched on by the last four outcomes alone: for a new scheduler any run of recorded
  acceptance counts succeeds, and afterwards speculation is enabled exactly if there are at least four of
  them and the last four average at least one half.
\<close>

theorem speculation_window:
  assumes "NewMedusaScheduler base config loaded lmHead gpu = Some (Inr ms)"
  shows "\<exists>ms'. foldM recordAcceptance ns ms = Some ms' \<and>
    (speculationEnabled ms' \<longleftrightarrow> 4 \<le> length ns \<and> 2 \<le> sum_list (lastn 4 ns))"
proof -
  have n: "ms_recentAccepted ms = replicate 4 0" "ms_recentIdx ms = 0" "\<not> ms_recentFull ms"
    using assms by (auto simp: NewMedusaScheduler_def Let_def split: if_splits option.splits)
  then have "window_ok ms" "window_items ms = []"
    by (simp_all add: window_ok_def window_items_def window_count_def ring_ok_def ring_items_def)
  then obtain ms' where "foldM recordAcceptance ns ms = Some ms'" "window_ok ms'" "window_items ms' = lastn (nat 4) ns"
    using acceptance.put_all_from_empty by blast
  moreover have "length (lastn 4 ns) = 4 \<longleftrightarrow> 4 \<le> length ns" by auto
  ultimately show ?thesis using speculationEnabled_items [of ms'] by (intro exI [of _ ms']) simp
qed

definition demo_medusa :: MedusaConfig where
  "demo_medusa = DefaultMedusaConfig\<lparr>mc_EnableOnlineTraining := False\<rparr>"

theorem speculation_window_witness:
  "\<exists>ms ms'. NewMedusaScheduler demo_scheduler demo_medusa (None :: unit option) None None = Some (Inr ms) \<and>
    foldM recordAcceptance [4, 0, 0, 1, 1] ms = Some ms' \<and> speculationEnabled ms'"
proof -
  obtain ms where n: "NewMedusaScheduler demo_scheduler demo_medusa (None :: unit option) None None = Some (Inr ms)"
    by (simp add: NewMedusaScheduler_def demo_medusa_def DefaultMedusaConfig_def Let_def)
  moreover have "lastn 4 [4, 0, 0, 1, 1] = [0, 0, 1, 1 :: int]" by (simp add: lastn_def)
  ultimately show ?thesis using speculation_window [OF n, of "[4, 0, 0, 1, 1]"] by auto
qed

section \<open>The best path\<close>

text \<open>
  Verification by the model: how many of the drafts agree with its own choice at each place, where \<open>pick\<close> chooses
  from the logits after the drafts so far.
\<close>

fun agreeing :: "(nat \<Rightarrow> int) \<Rightarrow> nat \<Rightarrow> int list \<Rightarrow> nat" where
  "agreeing pick i [] = 0"
| "agreeing pick i (d # ds) = (if d = pick i then Suc (agreeing pick (Suc i) ds) else 0)"

lemma agreeing_spec:
  "agreeing pick i ds \<le> length ds \<and> (\<forall>j < agreeing pick i ds. ds ! j = pick (i + j)) \<and>
   (agreeing pick i ds < length ds \<longrightarrow> ds ! agreeing pick i ds \<noteq> pick (i + agreeing pick i ds))"
proof (induction pick i ds rule: agreeing.induct)
  case (2 pick i d ds)
  then show ?case by (auto simp: less_Suc_eq_0_disj)
qed simp

abbreviation greedy_pick :: "f32 list \<Rightarrow> nat \<Rightarrow> nat \<Rightarrow> int" where
  "greedy_pick xs v i \<equiv> argmaxFloat32 (row xs v i)"

lemma best_path_loop_spec:
  assumes "0 < v"
  shows "(i + length ds) * v \<le> length xs \<Longrightarrow> i + length ds \<le> n \<Longrightarrow>
    best_path_loop xs (int v) (int n) (int i) ds acc =
      (let k = agreeing (greedy_pick xs v) i ds
       in Some (acc + int k, if k = length ds then 0 else greedy_pick xs v (i + k)))"
proof (induction ds arbitrary: i acc)
  case Nil
  then show ?case by simp
next
  case (Cons d ds)
  have "(i + 1) * v \<le> (i + length (d # ds)) * v" by (intro mult_le_mono1) simp
  then have le: "(i + 1) * v \<le> length xs" using Cons.prems(1) by linarith
  have s: "slice xs (int i * int v) ((int i + 1) * int v) = Some (row xs v i)" by (rule slice_row [OF le])
  have "\<not> int n \<le> int i" using Cons.prems(2) by simp
  moreover have "best_path_loop xs (int v) (int n) (int i + 1) ds (acc + 1) =
      (let k = agreeing (greedy_pick xs v) (Suc i) ds
       in Some (acc + 1 + int k, if k = length ds then 0 else greedy_pick xs v (Suc i + k)))"
  proof -
    have "(Suc i + length ds) * v \<le> length xs" "Suc i + length ds \<le> n" using Cons.prems by simp_all
    from Cons.IH [OF this, of "acc + 1"] show ?thesis by (simp only: of_nat_Suc add.commute)
  qed
  ultimately show ?case using s by (simp add: Let_def)
qed

lemma selectBestTreePath_complete:
  assumes "0 < v" and "length xs = (length (cp_Tokens p) + 1) * v"
  shows "selectBestTreePath (p # ps) xs (int v) =
    (let k = agreeing (greedy_pick xs v) 0 (cp_Tokens p) in Some (0, int k, greedy_pick xs v k))"
proof -
  let ?ds = "cp_Tokens p" and ?n = "length (cp_Tokens p) + 1"
  let ?k = "agreeing (greedy_pick xs v) 0 ?ds"
  have k: "?k \<le> length ?ds" using agreeing_spec [of "greedy_pick xs v" 0 ?ds] by simp
  have "len xs = int ?n * int v" using assms(2) by (simp only: len_def of_nat_mult)
  then have d: "go_div (len xs) (int v) = Some (int ?n)" using assms(1) by simp
  have "0 < length xs" using assms by simp
  then have ne: "xs \<noteq> []" by auto
  have l: "best_path_loop xs (int v) (int ?n) 0 ?ds 0 =
      Some (int ?k, if ?k = length ?ds then 0 else greedy_pick xs v ?k)"
    using best_path_loop_spec [OF assms(1), of 0 ?ds xs ?n 0] assms(2) by (simp add: Let_def)
  have sk: "slice xs (int j * int v) ((int j + 1) * int v) = Some (row xs v j)" if "j < ?n" for j
  proof (rule slice_row)
    have "(j + 1) * v \<le> ?n * v" using that by (intro mult_le_mono1) simp
    then show "(j + 1) * v \<le> length xs" using assms(2) by simp
  qed
  have s0: "slice xs 0 (int v) = Some (row xs v 0)" using sk [of 0] by simp
  have sl: "slice xs (int (length ?ds) * int v) ((int (length ?ds) + 1) * int v) = Some (row xs v (length ?ds))"
    using sk [of "length ?ds"] by simp
  show ?thesis
  proof (cases "?k = length ?ds")
    case True
    then show ?thesis using assms(1) ne d l s0 sl k
      by (cases "?ds = []") (auto simp: selectBestTreePath_def Let_def len_def)
  next
    case False
    then show ?thesis using assms(1) ne d l s0 k by (cases "?k = 0") (auto simp: selectBestTreePath_def Let_def len_def)
  qed
qed



section \<open>The trainer\<close>

text \<open>
  What the scheduler needs of a trainer: samples and hidden states of the width of its heads are accepted, and
  the heads give logits.
\<close>

locale draft_trainer =
  fixes T :: "'t Trainer" and tinv :: "'t \<Rightarrow> bool" and width :: int
  assumes add_ok: "tinv t \<Longrightarrow> width \<le> len hidden \<Longrightarrow> \<exists>t'. tr_AddSample T hidden toks pos t = Some t' \<and> tinv t'"
    and forward_ok: "tinv t \<Longrightarrow> width \<le> len hidden \<Longrightarrow> \<exists>out. tr_Forward T t j hidden = Some out"
    and all_ok: "tinv t \<Longrightarrow> width \<le> len hidden \<Longrightarrow> \<exists>rows. tr_ForwardAll T t hidden = Some rows"

text \<open>The pairs collected so far.\<close>

definition pairs_ok :: "int \<Rightarrow> ('f, 'd, 's, 't) MedusaScheduler \<Rightarrow> bool" where
  "pairs_ok width ms \<longleftrightarrow> length (ms_recentTokens ms) = length (ms_recentHiddens ms) \<and> 0 \<le> mc_NumHeads (ms_config ms) \<and>
     (\<forall>h \<in> set (ms_recentHiddens ms). width \<le> len h)"

definition collect_frame :: "('f, 'd, 's, 't) MedusaScheduler \<Rightarrow> ('f, 'd, 's, 't) MedusaScheduler \<Rightarrow> bool" where
  "collect_frame ms ms' \<longleftrightarrow> ms_base ms' = ms_base ms \<and> ms_config ms' = ms_config ms \<and> ms_lastHidden ms' = ms_lastHidden ms \<and>
     ms_recentAccepted ms' = ms_recentAccepted ms \<and> ms_recentIdx ms' = ms_recentIdx ms \<and> ms_recentFull ms' = ms_recentFull ms"

lemma collect_frame_refl: "collect_frame ms ms"
  by (simp add: collect_frame_def)

lemma collect_frame_trans: "collect_frame ms ms' \<Longrightarrow> collect_frame ms' ms'' \<Longrightarrow> collect_frame ms ms''"
  by (simp add: collect_frame_def)

lemma collect_frame_window: "collect_frame ms ms' \<Longrightarrow> window_ok ms' \<longleftrightarrow> window_ok ms"
  by (simp add: collect_frame_def window_ok_def window_count_def)

text \<open>There is a trainer, with its invariant, and pairs for it.\<close>

definition trains_ok :: "('t \<Rightarrow> bool) \<Rightarrow> int \<Rightarrow> ('f, 'd, 's, 't) MedusaScheduler \<Rightarrow> bool" where
  "trains_ok tinv width ms \<longleftrightarrow> (\<exists>t. ms_trainer ms = Some t \<and> tinv t) \<and> pairs_ok width ms"

context draft_trainer
begin

lemma collect_ok:
  assumes "me_trainer e = T" and "trains_ok tinv width ms" and "width \<le> len hidden"
  shows "\<exists>ms'. collectTrainingSample e hidden tok ms = Some ms' \<and> trains_ok tinv width ms' \<and> collect_frame ms ms'"
proof -
  let ?ts = "ms_recentTokens ms @ [tok]" and ?hs = "ms_recentHiddens ms @ [hidden]"
  obtain t where t: "ms_trainer ms = Some t" "tinv t" using assms(2) by (auto simp: trains_ok_def)
  have p: "length ?ts = length ?hs" "0 \<le> mc_NumHeads (ms_config ms)" "\<forall>h \<in> set ?hs. width \<le> len h"
    using assms(2,3) by (auto simp: trains_ok_def pairs_ok_def)
  show ?thesis
  proof (cases "len ?ts \<ge> mc_NumHeads (ms_config ms)")
    case True
    have h0: "idx ?hs 0 = Some (hd ?hs)" using len_nonneg [of "ms_recentHiddens ms"] by (simp add: idx_def hd_conv_nth)
    have "hd ?hs \<in> set ?hs" by (intro hd_in_set) simp
    then have "width \<le> len (hd ?hs)" using p(3) by blast
    then obtain t' where t': "tr_AddSample T (hd ?hs) (take (nat (mc_NumHeads (ms_config ms))) ?ts) (len ?ts) t = Some t'" "tinv t'"
      using add_ok [OF t(2)] by blast
    have sl: "slice ?ts 0 (mc_NumHeads (ms_config ms)) = Some (take (nat (mc_NumHeads (ms_config ms))) ?ts)"
      using True p(2) by (simp add: slice_def)
    have "set (tl ?hs) \<subseteq> set ?hs" using set_drop_subset [of "Suc 0" ?hs] by (simp only: drop_Suc drop_0)
    then have tl: "\<forall>h \<in> set (tl ?hs). width \<le> len h" using p(3) by blast
    let ?ms = "ms\<lparr>ms_recentTokens := tl ?ts, ms_recentHiddens := tl ?hs, ms_trainer := Some t'\<rparr>"
    have "collectTrainingSample e hidden tok ms = Some ?ms"
      using True assms(1) t(1) h0 sl t'(1) by (simp add: collectTrainingSample_def Let_def)
    moreover have "trains_ok tinv width ?ms" using t'(2) tl p(1,2) by (simp add: trains_ok_def pairs_ok_def)
    moreover have "collect_frame ms ?ms" by (simp add: collect_frame_def)
    ultimately show ?thesis by blast
  next
    case False
    let ?ms = "ms\<lparr>ms_recentTokens := ?ts, ms_recentHiddens := ?hs\<rparr>"
    have "collectTrainingSample e hidden tok ms = Some ?ms" using False by (simp add: collectTrainingSample_def Let_def)
    moreover have "trains_ok tinv width ?ms" using t p by (simp add: trains_ok_def pairs_ok_def)
    moreover have "collect_frame ms ?ms" by (simp add: collect_frame_def)
    ultimately show ?thesis by blast
  qed
qed

lemma collect_verified_ok:
  "me_trainer e = T \<Longrightarrow> trains_ok tinv width ms \<Longrightarrow> \<forall>h \<in> set hs. width \<le> len h \<Longrightarrow>
   \<exists>ms'. collect_verified e (map Some hs) vs ms = Some ms' \<and> trains_ok tinv width ms' \<and> collect_frame ms ms'"
proof (induction hs arbitrary: vs ms)
  case (Cons h hs)
  show ?case
  proof (cases "\<exists>v v' vs'. vs = v # v' # vs'")
    case True
    then obtain v v' vs' where vs: "vs = v # v' # vs'" by blast
    obtain ms1 where m1: "collectTrainingSample e h v' ms = Some ms1" "trains_ok tinv width ms1" "collect_frame ms ms1"
      using collect_ok [OF Cons.prems(1,2), of h v'] Cons.prems(3) by auto
    obtain ms2 where "collect_verified e (map Some hs) (v' # vs') ms1 = Some ms2" "trains_ok tinv width ms2" "collect_frame ms1 ms2"
      using Cons.IH [OF Cons.prems(1) m1(2)] Cons.prems(3) by fastforce
    then show ?thesis using m1 vs collect_frame_trans by (fastforce simp: nil_slice_def)
  next
    case False
    then have "collect_verified e (map Some (h # hs)) vs ms = Some ms" by (cases vs rule: remdups_adj.cases) auto
    then show ?thesis using Cons.prems(2) collect_frame_refl by blast
  qed
qed (auto simp: collect_frame_refl)

lemma keep_hidden_ok:
  assumes "me_trainer e = T" and "trains_ok tinv width ms" and "\<forall>h \<in> set hs. width \<le> len h" and "0 \<le> k"
  shows "\<exists>ms'. keep_hidden e (map Some hs) vs k ms = Some ms' \<and> trains_ok tinv width ms' \<and> ms_base ms' = ms_base ms \<and>
    (window_ok ms' \<longleftrightarrow> window_ok ms)"
proof (cases "k < len hs")
  case True
  let ?ms = "ms\<lparr>ms_lastHidden := Some (hs ! nat k)\<rparr>"
  have i: "idx (map Some hs) k = Some (Some (hs ! nat k))" using True assms(4) by (simp add: idx_def nat_lt_length)
  have t: "trains_ok tinv width ?ms" "ms_trainer ?ms \<noteq> None" using assms(2) by (auto simp: trains_ok_def pairs_ok_def)
  have w: "window_ok ?ms \<longleftrightarrow> window_ok ms" by (simp add: window_ok_def window_count_def)
  obtain ms' where "collect_verified e (map Some hs) vs ?ms = Some ms'" "trains_ok tinv width ms'" "collect_frame ?ms ms'"
    using collect_verified_ok [OF assms(1) t(1) assms(3)] by blast
  then show ?thesis using True i t(2) collect_frame_window [of ?ms ms'] w
    by (intro exI [of _ ms']) (simp add: keep_hidden_def collect_frame_def)
next
  case False
  then show ?thesis using assms(2)
    by (simp add: keep_hidden_def trains_ok_def pairs_ok_def window_ok_def window_count_def)
qed

end

section \<open>A verified round\<close>

text \<open>A runtime with the GPU cache only, filled up to \<open>n\<close>.\<close>

definition gpu_only :: "int \<Rightarrow> ('f, 'd) Runtime \<Rightarrow> bool" where
  "gpu_only n rt \<longleftrightarrow> rt_paged rt = None \<and> rt_pool rt = None \<and> rt_backend rt \<noteq> None \<and>
     (\<exists>c. rt_gpu rt = Some c \<and> GPUKVCache_SeqLen c = n)"

lemma truncate_caches_gpu:
  assumes "gpu_only n rt" and "0 \<le> m" and "m \<le> n"
  shows "\<exists>rt'. truncate_caches kv m rt = Some rt' \<and> gpu_only m rt'"
proof -
  obtain c where c: "rt_gpu rt = Some c" "GPUKVCache_SeqLen c = n" using assms(1) by (auto simp: gpu_only_def)
  then have "GPUKVCache_SeqLen (GPUKVCache_Truncate c m) = m"
    using assms(2,3) by (simp add: GPUKVCache_Truncate_def GPUKVCache_SeqLen_def)
  then show ?thesis using assms(1) c
    by (intro exI [of _ "truncate_gpu m rt"]) (simp add: truncate_caches_def truncate_gpu_def gpu_only_def)
qed

lemma gpu_only_same:
  assumes "gpu_only n (sc_runtime s)" and "gpu_only m rt"
  shows "same_seqs s (s\<lparr>sc_runtime := rt\<rparr>)"
  using assms by (auto simp: same_seqs_def gpu_only_def)

text \<open>What a round has done to sequence \<open>i\<close>, which was \<open>q\<close>: \<open>ts\<close> is generated, in full unless it finished.\<close>

definition round_done ::
  "SequenceID \<Rightarrow> Sequence \<Rightarrow> int list \<Rightarrow> int \<Rightarrow> ('f, 'd, 's, 't) MedusaScheduler \<Rightarrow> bool" where
  "round_done i q ts n ms \<longleftrightarrow> sched_ok (ms_base ms) \<and> window_ok ms \<and> gpu_only n (sc_runtime (ms_base ms)) \<and>
     (\<exists>q' m. sc_sequences (ms_base ms) i = Some q' \<and> sq_generatedTokens q' = sq_generatedTokens q @ take m ts \<and>
        (sq_state q' = StateFinished \<or> m = length ts \<and> sq_position q' = sq_position q + len ts))"

context draft_trainer
begin

lemma finish_verified_ok:
  fixes ms :: "('f, 'd, 's, 't) MedusaScheduler"
  assumes e: "me_trainer e = T" and t: "trains_ok tinv width ms" and s: "sched_ok (ms_base ms)" and w: "window_ok ms"
    and q: "sc_sequences (ms_base ms) i = Some q" "needs_decode q"
    and g: "gpu_only n (sc_runtime (ms_base ms))" and h: "\<forall>h \<in> set hs. width \<le> len h"
    and ts: "length ts = k + 1" and k: "0 \<le> start" "start + 1 + int k \<le> n"
  shows "\<exists>ms'. finish_verified e i start vs (map Some hs) ts (int k) ms = Some (None, ms') \<and>
    round_done i q ts (start + 1 + int k) ms' \<and> trains_ok tinv width ms'"
proof -
  let ?b = "ms_base ms" and ?gm = "sf_MaxTokens (sc_config (ms_base ms))"
  obtain rt where rt: "truncate_caches (sq_kvSeqID q) (start + 1 + int k) (sc_runtime ?b) = Some rt"
    "gpu_only (start + 1 + int k) rt"
    using truncate_caches_gpu [OF g, of "start + 1 + int k"] k by auto
  let ?b1 = "count_decoded (len ts) (?b\<lparr>sc_runtime := rt\<rparr>)"
  have same: "same_seqs ?b ?b1" using same_seqs_trans [OF gpu_only_same [OF g rt(2)] same_seqs_count] .
  have so: "seq_ok ?gm q" using s q(1) by (simp add: sched_ok_def)
  have ne: "ts \<noteq> []" using ts by auto
  obtain q' m where q': "emit_accepted (me_base e) ?gm ts q = Some q'" "seq_ok ?gm q'" "seq_meta q' = seq_meta q"
    "work ?gm q' \<le> work ?gm q" "sq_generatedTokens q' = sq_generatedTokens q @ take m ts"
    "sq_state q' \<noteq> StateFinished \<longrightarrow> m = length ts \<and> sq_position q' = sq_position q + len ts"
    using emit_accepted_ok [OF so q(2) ne, of "me_base e"] by blast
  let ?ms2 = "ms_put i q' (ms_count (len ts) (ms\<lparr>ms_base := ?b\<lparr>sc_runtime := rt\<rparr>\<rparr>))"
  have b2: "ms_base ?ms2 = put_seq i q' ?b1" by (simp add: ms_put_def ms_count_def)
  have ok2: "sched_ok (ms_base ?ms2)" using adv_ok [OF conjunct1 [OF adv_replace [OF s same q(1) q'(2,3,4)]]] unfolding b2 .
  have i2: "sc_sequences (ms_base ?ms2) i = Some q'" "sc_runtime (ms_base ?ms2) = rt"
    by (simp_all add: b2 put_seq_def count_decoded_def Let_def)
  have t2: "trains_ok tinv width ?ms2" "window_ok ?ms2" using t w
    by (auto simp: trains_ok_def pairs_ok_def window_ok_def window_count_def ms_put_def ms_count_def)
  have done2: "round_done i q ts (start + 1 + int k) ms'" if "ms_base ms' = ms_base ?ms2" "window_ok ms'" for ms' :: "('f, 'd, 's, 't) MedusaScheduler"
    using ok2 i2 rt(2) q'(5,6) that unfolding round_done_def by (intro conjI exI [of _ q'] exI [of _ m]) auto
  have f: "finish_verified e i start vs (map Some hs) ts (int k) ms =
      (if sq_state q' = StateFinished then Some (None, ?ms2\<lparr>ms_lastHidden := None\<rparr>)
       else do { ms3 \<leftarrow> keep_hidden e (map Some hs) vs (int k) ?ms2; Some (None, ms3) })"
    using q(1) rt(1) q'(1) by (simp add: finish_verified_def ms_count_def Let_def count_decoded_def)
  show ?thesis
  proof (cases "sq_state q' = StateFinished")
    case True
    let ?ms3 = "?ms2\<lparr>ms_lastHidden := None\<rparr>"
    have "window_ok ?ms3" "trains_ok tinv width ?ms3" using t2
      by (auto simp: trains_ok_def pairs_ok_def window_ok_def window_count_def)
    then show ?thesis using f True done2 [of ?ms3] by simp
  next
    case False
    obtain ms3 where "keep_hidden e (map Some hs) vs (int k) ?ms2 = Some ms3" "trains_ok tinv width ms3"
      "ms_base ms3 = ms_base ?ms2" "window_ok ms3"
      using keep_hidden_ok [OF e t2(1) h, of "int k"] t2(2) by auto
    then show ?thesis using f False done2 [of ms3] by simp
  qed
qed

end

text \<open>
  A round of tree verification: the drafts come from the heads of the trainer \<open>t\<close>, \<open>p\<close> is the best path, and the
  verification pass succeeds with complete logits \<open>xs\<close> and hidden states \<open>hs\<close>.
\<close>

definition tree_round ::
  "('f, 'd, 's, 't) MedusaEngine \<Rightarrow> 't \<Rightarrow> f32 list \<Rightarrow> int \<Rightarrow> CandidatePath \<Rightarrow> nat \<Rightarrow> f32 list \<Rightarrow> f32 list list \<Rightarrow> Sequence \<Rightarrow>
   ('f, 'd, 's, 't) MedusaScheduler \<Rightarrow> bool" where
  "tree_round e t hidden n p v xs hs q ms \<longleftrightarrow> 0 < v \<and> en_vocab (me_base e) = int v \<and> 0 \<le> n \<and>
     gpu_only n (sc_runtime (ms_base ms)) \<and> length xs = (length (cp_Tokens p) + 1) * v \<and>
     (\<exists>rows tree ps.
        tr_ForwardAll (me_trainer e) t hidden = Some rows \<and>
        BuildCandidateTree (me_sort_entries e) rows (mc_TreeTopK (ms_config ms)) (mc_TreeMaxNodes (ms_config ms)) = Some (Some tree) \<and>
        CandidateTree_Paths f32_add (me_sort_paths e) (Some tree) = Some (p # ps)) \<and>
     (\<forall>inputToken. \<exists>logits rt.
        me_VerifySpeculativeWithHidden e (inputToken # cp_Tokens p) n (sc_runtime (ms_base ms)) =
          (Inr (logits, map Some hs), rt) \<and>
        gpu_only (n + 1 + len (cp_Tokens p)) rt \<and>
        Medusa_getLogitsOnCPU (me_base e) rt logits ((1 + len (cp_Tokens p)) * int v) = Some (Some xs))"

lemma greedy_tokens:
  assumes "0 < v" and "length xs = (length (cp_Tokens p) + 1) * v"
  shows "\<exists>k \<le> length (cp_Tokens p). selectBestTreePath (p # ps) xs (int v) = Some (0, int k, greedy_pick xs v k) \<and>
    take k (cp_Tokens p) @ [greedy_pick xs v k] = map (greedy_pick xs v) [0..<k + 1]"
proof -
  let ?k = "agreeing (greedy_pick xs v) 0 (cp_Tokens p)"
  have a: "?k \<le> length (cp_Tokens p)" "\<forall>j < ?k. cp_Tokens p ! j = greedy_pick xs v j"
    using agreeing_spec [of "greedy_pick xs v" 0 "cp_Tokens p"] by simp_all
  have "take ?k (cp_Tokens p) = map (greedy_pick xs v) [0..<?k]" using a by (intro nth_equalityI) simp_all
  then show ?thesis using a selectBestTreePath_complete [OF assms, of ps] by (auto simp: Let_def)
qed

lemma NextInputToken_decoding:
  assumes "seq_ok gm q"
  shows "\<exists>token pos hasMore. Sequence_NextInputToken q = Some (token, pos, hasMore)"
  using NextInputToken_total [OF assms] by (metis prod_cases3)

context draft_trainer
begin

lemma speculate_tree_ok:
  assumes e: "me_trainer e = T" and t: "ms_trainer ms = Some t" "tinv t" "pairs_ok width ms"
    and s: "sched_ok (ms_base ms)" and w: "window_ok ms"
    and q: "sc_sequences (ms_base ms) i = Some q" "needs_decode q"
    and r: "tree_round e t hidden n p v xs hs q ms" and h: "\<forall>x \<in> set hs. width \<le> len x"
  shows "\<exists>k ms'. k \<le> length (cp_Tokens p) \<and> speculate_tree e i q t hidden ms = Some (None, ms') \<and>
    round_done i q (map (greedy_pick xs v) [0..<k + 1]) (n + 1 + int k) ms' \<and> trains_ok tinv width ms'"
proof -
  let ?ds = "cp_Tokens p" and ?rt = "sc_runtime (ms_base ms)"
  have v: "0 < v" "en_vocab (me_base e) = int v" "length xs = (length ?ds + 1) * v" and n: "0 \<le> n" "gpu_only n ?rt"
    using r by (simp_all add: tree_round_def)
  obtain token pos hasMore where ni: "Sequence_NextInputToken q = Some (token, pos, hasMore)"
    using NextInputToken_decoding [of "sf_MaxTokens (sc_config (ms_base ms))" q] s q(1) by (auto simp: sched_ok_def)
  define inputToken where "inputToken = (if hasMore then token else 1)"
  obtain rows tree ps where d: "tr_ForwardAll (me_trainer e) t hidden = Some rows"
    "BuildCandidateTree (me_sort_entries e) rows (mc_TreeTopK (ms_config ms)) (mc_TreeMaxNodes (ms_config ms)) = Some (Some tree)"
    "CandidateTree_Paths f32_add (me_sort_paths e) (Some tree) = Some (p # ps)"
    using r by (auto simp: tree_round_def)
  obtain logits rt where f: "me_VerifySpeculativeWithHidden e (inputToken # ?ds) n ?rt = (Inr (logits, map Some hs), rt)"
    and g: "gpu_only (n + 1 + len ?ds) rt"
    and l: "Medusa_getLogitsOnCPU (me_base e) rt logits ((1 + len ?ds) * int v) = Some (Some xs)"
    using r unfolding tree_round_def by blast
  obtain k where k: "k \<le> length ?ds" "selectBestTreePath (p # ps) xs (int v) = Some (0, int k, greedy_pick xs v k)"
    "take k ?ds @ [greedy_pick xs v k] = map (greedy_pick xs v) [0..<k + 1]"
    using greedy_tokens [OF v(1,3)] by blast
  define ms3 where "ms3 = count_verification ((count_drafts (len ?ds) ms)\<lparr>ms_base := (ms_base ms)\<lparr>sc_runtime := rt\<rparr>\<rparr>)"
  have vs: "verify_start ?rt pos' = n" "rt_paged ?rt = None" for pos'
    using n(2) by (auto simp: verify_start_def gpu_only_def)
  have p3: "run_pass (verify_forward e ?rt (inputToken # ?ds) kv n) (count_drafts (len ?ds) ms) =
      (Inr (logits, map Some hs), (count_drafts (len ?ds) ms)\<lparr>ms_base := (ms_base ms)\<lparr>sc_runtime := rt\<rparr>\<rparr>)" for kv
    using f vs(2) by (simp add: run_pass_def verify_forward_def count_drafts_def Let_def)
  have b3: "ms_base ms3 = (ms_base ms)\<lparr>sc_runtime := rt\<rparr>" "window_ok (count_accepted (int k) ms3)"
    "trains_ok tinv width (count_accepted (int k) ms3)"
    using w t by (auto simp: ms3_def count_verification_def count_drafts_def count_accepted_def Let_def window_ok_def
        window_count_def trains_ok_def pairs_ok_def)
  obtain ms4 where m4: "recordAcceptance (int k) (count_accepted (int k) ms3) = Some ms4" "window_ok ms4"
    using recordAcceptance_ok [OF b3(2)] by blast
  have b4: "ms_base ms4 = (ms_base ms)\<lparr>sc_runtime := rt\<rparr>" "trains_ok tinv width ms4"
    using m4(1) b3(1,3) by (auto simp: recordAcceptance_def count_accepted_def Let_def trains_ok_def pairs_ok_def
        split: Option.bind_splits)
  have s4: "sched_ok (ms_base ms4)" unfolding b4(1)
    using same_seqs_adv [OF gpu_only_same [OF n(2) g] s] by (simp add: adv_def)
  have q4: "sc_sequences (ms_base ms4) i = Some q" "gpu_only (n + 1 + len ?ds) (sc_runtime (ms_base ms4))"
    using q(1) g by (simp_all add: b4(1))
  let ?ts = "map (greedy_pick xs v) [0..<k + 1]"
  obtain ms' where m': "finish_verified e i n (inputToken # ?ds) (map Some hs) ?ts (int k) ms4 = Some (None, ms')"
    "round_done i q ?ts (n + 1 + int k) ms'" "trains_ok tinv width ms'"
    using finish_verified_ok [OF e b4(2) s4 m4(2) q4(1) q(2) q4(2) h, of ?ts k n] n(1) k(1) by (auto simp: len_def)
  have l': "Medusa_getLogitsOnCPU (me_base e) (sc_runtime (ms_base ms3)) logits ((1 + len ?ds) * en_vocab (me_base e)) = Some (Some xs)"
    using l v(2) by (simp add: b3(1))
  have sel: "selectBestTreePath (p # ps) xs (en_vocab (me_base e)) = Some (0, int k, greedy_pick xs v k)" using k(2) v(2) by simp
  have cb: "ms_base (count_drafts (len ?ds) ms) = ms_base ms" by (simp add: count_drafts_def Let_def)
  have "speculate_tree e i q t hidden ms =
      finish_verified e i n (inputToken # ?ds) (map Some hs) (take k ?ds @ [greedy_pick xs v k]) (int k) ms4"
    using ni d l' sel m4(1) p3 vs(1)
    by (cases hasMore) (simp_all add: speculate_tree_def inputToken_def cb idx_def Let_def ms3_def)
  then show ?thesis using m' k(1,3) by auto
qed

end

section \<open>The online trainer\<close>

lemma Heads_Forward_any:
  assumes "heads_ok h" and "hs_HiddenSize h \<le> len hidden"
  shows "\<exists>out. Heads_Forward exp32 fma h i hidden = Some out"
proof (cases "0 \<le> i \<and> i < hs_NumHeads h")
  case True
  then show ?thesis using Heads_Forward_total [OF assms, of i] by blast
next
  case False
  then show ?thesis by (auto simp: Heads_Forward_def)
qed

interpretation online: draft_trainer "online_trainer M" "\<lambda>t. trainer_ok t \<and> hs_HiddenSize (ot_heads t) = n" n
  for M :: Mathlib and n :: int
proof (unfold_locales, goal_cases)
  case (1 t hidden toks pos)
  then show ?case using AddSample_ok [of t hidden toks pos] by (auto simp: online_trainer_def train_frame_def same_sizes_def)
next
  case (2 t hidden j)
  then show ?case using Heads_Forward_any by (auto simp: online_trainer_def trainer_ok_def data_ok_def)
next
  case (3 t hidden)
  then show ?case using Heads_ForwardAll_total by (fastforce simp: online_trainer_def trainer_ok_def data_ok_def)
qed

definition online_ok :: "int \<Rightarrow> ('f, 'd, 's, 'r OnlineTrainer) MedusaScheduler \<Rightarrow> bool" where
  "online_ok n ms \<longleftrightarrow> trains_ok (\<lambda>t. trainer_ok t \<and> hs_HiddenSize (ot_heads t) = n) n ms"


text \<open>A round with one head over a vocabulary of one token; the cache holds two positions.\<close>

definition demo_step_engine :: "Mathlib \<Rightarrow> (int, unit, unit, unit OnlineTrainer) MedusaEngine" where
  "demo_step_engine M =
     \<lparr>me_base = demo_engine\<lparr>en_vocab := 1\<rparr>, me_trainer = online_trainer M,
      me_DecodeWithGPUKVAndHidden = (\<lambda>ts p rt. (Inr (demo_logits, None), rt)),
      me_DecodeWithPagedKVAndHidden = (\<lambda>ts k p rt. (Inr (demo_logits, None), rt)),
      me_VerifySpeculativeWithHidden = (\<lambda>ts p rt.
        (Inr (NewTensor (NewShape [len ts, 1]) Float32 (NewDevicePtr CPU 64), map Some [[0], [0]]),
         rt\<lparr>rt_gpu := Some ((demo_kv False)\<lparr>gk_seqLen := p + len ts\<rparr>)\<rparr>)),
      me_VerifySpeculativeWithPagedKVAndHidden = (\<lambda>ts k p rt. (Inr (demo_logits, []), rt)),
      me_sort_entries = (\<lambda>es. es), me_sort_paths = (\<lambda>ps. ps)\<rparr>"

definition demo_step :: "unit OnlineTrainer \<Rightarrow> (int, unit, unit, unit OnlineTrainer) MedusaScheduler" where
  "demo_step t =
     \<lparr>ms_base = put_seq 5 demo_decoding (demo_scheduler\<lparr>sc_runtime :=
        demo_runtime\<lparr>rt_gpu := Some ((demo_kv False)\<lparr>gk_seqLen := 2\<rparr>)\<rparr>\<rparr>),
      ms_trainer = Some t, ms_config = demo_medusa\<lparr>mc_NumHeads := 1, mc_TreeTopK := 1\<rparr>, ms_recentTokens = [],
      ms_recentHiddens = [], ms_maxRecent = 2, ms_lastHidden = Some [0], ms_specMetrics = zero_spec_metrics,
      ms_recentAccepted = replicate 4 0, ms_recentIdx = 0, ms_recentFull = False, ms_probeCounter = 0\<rparr>"

lemma demo_tree:
  "BuildCandidateTree (\<lambda>es. es) [[x]] 1 64 = Some (Some
     \<lparr>ct_nodes = [root_node\<lparr>cn_Children := [1]\<rparr>,
        \<lparr>cn_TokenID = 0, cn_Confidence = x, cn_HeadIdx = 0, cn_Depth = 0, cn_Children = [], cn_Parent = Some 0\<rparr>],
      ct_NumNodes = 1\<rparr>)"
  by (simp add: BuildCandidateTree_def topKWithValues_def Let_def add_child_def root_node_def)

lemma demo_step_round:
  assumes "trainer_ok t" and "hs_HiddenSize (ot_heads t) = 1" and "hs_NumHeads (ot_heads t) = 1" and "hs_VocabSize (ot_heads t) = 1"
  shows "\<exists>c. tree_round (demo_step_engine M) t [0] 2 \<lparr>cp_Tokens = [0], cp_Confidence = c\<rparr> 1 [0, 0] [[0], [0]] demo_decoding (demo_step t)"
proof -
  obtain rows where r: "tr_ForwardAll (online_trainer M) t [0] = Some rows" "len rows = 1" "\<forall>r \<in> set rows. len r = 1"
    using Heads_ForwardAll_total [of "ot_heads t" "[0]" "ml_exp32 M" "ml_fma M"] assms
    by (auto simp: online_trainer_def trainer_ok_def data_ok_def)
  have "\<exists>x. rows = [[x]]" using r(2,3) by (auto simp: len_def length_Suc_conv)
  then obtain x where x: "rows = [[x]]" ..
  have two: "map (\<lambda>i. 0) [0..<2] = [0, 0 :: f32]" by (simp add: numeral_2_eq_2)
  show ?thesis
    using r(1) demo_tree [of x] unfolding x
    by (intro exI [of _ "f32_add 0 x"])
      (simp add: tree_round_def demo_step_engine_def demo_step_def demo_engine_def gpu_only_def put_seq_def demo_runtime_def
        demo_scheduler_def NewScheduler_def GPUKVCache_SeqLen_def CandidateTree_Paths_def root_node_def demo_medusa_def
        DefaultMedusaConfig_def Medusa_getLogitsOnCPU_def NewTensor_def NewShape_def NewDevicePtr_def DevicePtr_IsNil_def
        DevicePtr_Location_def Tensor_NumElements_def Shape_NumElements_def
        two)
qed


section \<open>Where decoding with heads departs from its purpose\<close>

text \<open>
  The first draft is compared with the input token, which has been emitted already, instead of with the row
  of logits after it: whenever it agrees it is accepted, and the sequence repeats its last token.
\<close>

lemma heads_loop_count: "heads_loop e xs i ds n ms = Some (m, c, ms') \<Longrightarrow> n \<le> m"
  by (induction e xs i ds n ms rule: heads_loop.induct)
    (force split: Option.bind_splits prod.splits if_splits simp: Let_def)+

lemma linear_repeats_input:
  assumes "verify_heads e xs inputToken (inputToken # ds) ms = Some (n, t, ms')"
    and "slice (inputToken # ds) 0 n = Some accepted"
  shows "1 \<le> n \<and> take 1 accepted = [inputToken]"
proof -
  obtain c ms1 where "heads_loop e xs 0 ds 1 ms = Some (n, c, ms1)"
    using assms(1) by (auto simp: verify_heads_def idx_def Let_def split: Option.bind_splits prod.splits option.splits)
  then have "1 \<le> n" by (rule heads_loop_count)
  moreover then obtain k where "n = 1 + int k" using zle_iff_zadd [of 1 n] by auto
  ultimately show ?thesis using assms(2) by (auto simp: slice_def split: if_splits)
qed

text \<open>
  The step never removes a finished sequence: with nothing ready it changes the metrics only, so the loop of
  \<open>Run\<close>, which waits for new work only when the map is empty, keeps stepping.
\<close>

lemma step_keeps_finished:
  assumes "\<And>i q. sc_sequences (ms_base ms) i = Some q \<Longrightarrow> sq_state q = StateFinished"
  shows "\<exists>ms'. Medusa_step e visit ms = Some (None, ms') \<and> sc_sequences (ms_base ms') = sc_sequences (ms_base ms)"
proof -
  have "collectReady visit (ms_base ms) = []"
    using assms by (auto simp: collectReady_def is_ready_def filter_empty_conv split: option.splits)
  then show ?thesis by (simp add: Medusa_step_def formBatches_def Let_def)
qed

end
