(* ===== verification/Model_Config.thy ===== *)
theory Model_Config
  imports Gguf Float32_Arith Arena
begin

text \<open>
  The file \<open>inference/runtime/config.go\<close>: the hyperparameters of a model, their derivation from a GGUF file, and
  the memory estimates. The estimates are computed in 64-bit arithmetic. A float64 is its bit pattern; the
  conversion from float32 is exact. The root of a size, rounded to float32, is the argument \<open>sqrt32\<close>.
\<close>

section \<open>Doubles\<close>

type_synonym f64 = "64 word"

text \<open>\<open>float64(x)\<close>: a subnormal number is normalized, a NaN made quiet.\<close>

definition f64_of_f32 :: "f32 \<Rightarrow> f64" where
  "f64_of_f32 x =
     (let sgn = (if bit x 31 then 2 ^ 63 else 0); e = uint x div 2 ^ 23 mod 256; m = uint x mod 2 ^ 23
      in word_of_int (sgn +
           (if e = 255 then 0x7FF * 2 ^ 52 + (if m = 0 then 0 else 2 ^ 51 + m mod 2 ^ 22 * 2 ^ 29)
            else if e = 0 then
              (if m = 0 then 0
               else let k = bit_length m in (int k + 873) * 2 ^ 52 + (m - 2 ^ (k - 1)) * 2 ^ (53 - k))
            else (e + 896) * 2 ^ 52 + m * 2 ^ 29)))"

definition f64_is_zero :: "f64 \<Rightarrow> bool" where
  "f64_is_zero x = (x = 0 \<or> x = 0x8000000000000000)"

section \<open>Kinds\<close>

datatype NormType = NormRMSNorm | NormLayerNorm | OtherNorm int

fun NormType_String :: "NormType \<Rightarrow> string" where
  "NormType_String NormRMSNorm = ''RMSNorm''"
| "NormType_String NormLayerNorm = ''LayerNorm''"
| "NormType_String (OtherNorm n) = ''Unknown''"

datatype MLPType = MLPSwiGLU | MLPGELU | MLPGeGLU | MLPSwiGLUFused | MLPMoE | OtherMLP int

fun MLPType_String :: "MLPType \<Rightarrow> string" where
  "MLPType_String MLPSwiGLU = ''SwiGLU''"
| "MLPType_String MLPGELU = ''GELU''"
| "MLPType_String MLPGeGLU = ''GeGLU''"
| "MLPType_String MLPSwiGLUFused = ''SwiGLU(Fused)''"
| "MLPType_String MLPMoE = ''MoE''"
| "MLPType_String (OtherMLP n) = ''Unknown''"

datatype AttentionWindowType = WindowGlobal | WindowSliding | WindowAlternating | OtherWindow int

fun AttentionWindowType_String :: "AttentionWindowType \<Rightarrow> string" where
  "AttentionWindowType_String WindowGlobal = ''Global''"
| "AttentionWindowType_String WindowSliding = ''Sliding''"
| "AttentionWindowType_String WindowAlternating = ''Alternating''"
| "AttentionWindowType_String (OtherWindow n) = ''Unknown''"

section \<open>The configuration\<close>

record ModelConfig =
  cf_HiddenSize :: int
  cf_IntermediateSize :: int
  cf_NumHiddenLayers :: int
  cf_NumAttentionHeads :: int
  cf_NumKeyValueHeads :: int
  cf_VocabSize :: int
  cf_MaxSeqLen :: int
  cf_RoPETheta :: f64
  cf_RMSNormEPS :: f64
  cf_DType :: DType
  cf_NormType :: NormType
  cf_MLPType :: MLPType
  cf_HasBias :: bool
  cf_HasQKVBias :: bool
  cf_ParallelResidual :: bool
  cf_RoPEDim :: int
  cf_RoPENeox :: bool
  cf_SlidingWindow :: int
  cf_AttentionWindowType :: AttentionWindowType
  cf_HeadDim :: int
  cf_AttentionLogitSoftCap :: f32
  cf_FinalLogitSoftCap :: f32
  cf_HasPostNorms :: bool
  cf_RoPEFreqScales :: "f32 list option"
  cf_QueryPreAttnScalar :: int
  cf_EmbeddingScale :: f32
  cf_NumMoEExperts :: int
  cf_NumMoESelected :: int

definition zero_config :: ModelConfig where
  "zero_config =
     \<lparr>cf_HiddenSize = 0, cf_IntermediateSize = 0, cf_NumHiddenLayers = 0, cf_NumAttentionHeads = 0,
      cf_NumKeyValueHeads = 0, cf_VocabSize = 0, cf_MaxSeqLen = 0, cf_RoPETheta = 0, cf_RMSNormEPS = 0,
      cf_DType = Float32, cf_NormType = NormRMSNorm, cf_MLPType = MLPSwiGLU, cf_HasBias = False,
      cf_HasQKVBias = False, cf_ParallelResidual = False, cf_RoPEDim = 0, cf_RoPENeox = False,
      cf_SlidingWindow = 0, cf_AttentionWindowType = WindowGlobal, cf_HeadDim = 0,
      cf_AttentionLogitSoftCap = 0, cf_FinalLogitSoftCap = 0, cf_HasPostNorms = False,
      cf_RoPEFreqScales = None, cf_QueryPreAttnScalar = 0, cf_EmbeddingScale = 0, cf_NumMoEExperts = 0,
      cf_NumMoESelected = 0\<rparr>"

definition EffectiveHeadDim :: "ModelConfig \<Rightarrow> int option" where
  "EffectiveHeadDim c = (if cf_HeadDim c > 0 then Some (cf_HeadDim c) else go_div (cf_HiddenSize c) (cf_NumAttentionHeads c))"

definition EffectiveQueryPreAttnScalar :: "ModelConfig \<Rightarrow> int option" where
  "EffectiveQueryPreAttnScalar c = (if cf_QueryPreAttnScalar c > 0 then Some (cf_QueryPreAttnScalar c) else EffectiveHeadDim c)"

definition gemma2QueryPreAttnScalar :: "int \<Rightarrow> int \<Rightarrow> int \<Rightarrow> int" where
  "gemma2QueryPreAttnScalar headDim hiddenSize numHeads =
     (if headDim = 256 then 256
      else case (if numHeads > 0 then go_div hiddenSize numHeads else None) of Some q \<Rightarrow> q | None \<Rightarrow> 256)"

section \<open>Known models\<close>

definition Llama3_8B :: ModelConfig where
  "Llama3_8B = zero_config
     \<lparr>cf_HiddenSize := 4096, cf_IntermediateSize := 14336, cf_NumHiddenLayers := 32, cf_NumAttentionHeads := 32,
      cf_NumKeyValueHeads := 8, cf_VocabSize := 128256, cf_MaxSeqLen := 8192, cf_RoPETheta := 0x411E848000000000,
      cf_RMSNormEPS := 0x3EE4F8B588E368F1, cf_DType := BFloat16, cf_NormType := NormRMSNorm,
      cf_MLPType := MLPSwiGLU, cf_HasBias := False\<rparr>"

definition Phi2 :: ModelConfig where
  "Phi2 = zero_config
     \<lparr>cf_HiddenSize := 2560, cf_IntermediateSize := 10240, cf_NumHiddenLayers := 32, cf_NumAttentionHeads := 32,
      cf_NumKeyValueHeads := 32, cf_VocabSize := 51200, cf_MaxSeqLen := 2048, cf_RoPETheta := 0x40C3880000000000,
      cf_RMSNormEPS := 0x3EE4F8B588E368F1, cf_DType := Float32, cf_NormType := NormLayerNorm, cf_MLPType := MLPGELU,
      cf_HasBias := True, cf_ParallelResidual := True\<rparr>"

definition Gemma2B :: "(int \<Rightarrow> f32) \<Rightarrow> ModelConfig" where
  "Gemma2B sqrt32 = zero_config
     \<lparr>cf_HiddenSize := 2048, cf_IntermediateSize := 16384, cf_NumHiddenLayers := 18, cf_NumAttentionHeads := 8,
      cf_NumKeyValueHeads := 1, cf_VocabSize := 256128, cf_MaxSeqLen := 8192, cf_RoPETheta := 0x40C3880000000000,
      cf_RMSNormEPS := 0x3EB0C6F7A0B5ED8D, cf_DType := Float32, cf_NormType := NormRMSNorm, cf_MLPType := MLPGeGLU,
      cf_HasBias := False, cf_EmbeddingScale := sqrt32 2048\<rparr>"

definition Gemma7B :: "(int \<Rightarrow> f32) \<Rightarrow> ModelConfig" where
  "Gemma7B sqrt32 = zero_config
     \<lparr>cf_HiddenSize := 3072, cf_IntermediateSize := 24576, cf_NumHiddenLayers := 28, cf_NumAttentionHeads := 16,
      cf_NumKeyValueHeads := 16, cf_VocabSize := 256128, cf_MaxSeqLen := 8192, cf_RoPETheta := 0x40C3880000000000,
      cf_RMSNormEPS := 0x3EB0C6F7A0B5ED8D, cf_DType := Float32, cf_NormType := NormRMSNorm, cf_MLPType := MLPGeGLU,
      cf_HasBias := False, cf_EmbeddingScale := sqrt32 3072\<rparr>"

section \<open>Memory estimates\<close>

definition ApproxParams :: "ModelConfig \<Rightarrow> int option" where
  "ApproxParams c =
     do { headDim \<leftarrow> EffectiveHeadDim c;
          let hidden = cf_HiddenSize c;
          let embedding = cf_VocabSize c * hidden;
          let kvSize = headDim * cf_NumKeyValueHeads c;
          let qSize2 = headDim * cf_NumAttentionHeads c;
          let attn = hidden * qSize2 + hidden * kvSize + hidden * kvSize + qSize2 * hidden;
          let mlp = hidden * cf_IntermediateSize c * 3;
          let norms = hidden * 2;
          let layerParams = attn + mlp + norms;
          let output = cf_VocabSize c * hidden;
          Some (int64_of (embedding + layerParams * cf_NumHiddenLayers c + output)) }"

definition WeightsBytes :: "ModelConfig \<Rightarrow> QuantProfile \<Rightarrow> int option" where
  "WeightsBytes c profile =
     do { params \<leftarrow> ApproxParams c;
          case profile of
            Q8_0 \<Rightarrow> Some params
          | Q4_0 \<Rightarrow> go_div params 2
          | _ \<Rightarrow> Some (int64_of (params * 2)) }"

definition KVBytes :: "ModelConfig \<Rightarrow> int \<Rightarrow> int \<Rightarrow> QuantProfile \<Rightarrow> int option" where
  "KVBytes c activeSequences contextLen profile =
     do { headDim \<leftarrow> EffectiveHeadDim c;
          let elementsPerToken = 2 * cf_NumHiddenLayers c * cf_NumKeyValueHeads c * headDim;
          let totalTokens = activeSequences * contextLen;
          let bytesPerElem = 2;
          Some (int64_of (elementsPerToken * totalTokens * bytesPerElem)) }"

text \<open>The elements of the scratch buffer of a block: norm, Q, K, V, attention, scores, gate, up and the fused buffer.\<close>

definition block_scratch :: "ModelConfig \<Rightarrow> int \<Rightarrow> int \<Rightarrow> int" where
  "block_scratch c headDim maxBatchSize =
     (let qSize = maxBatchSize * cf_NumAttentionHeads c * headDim;
          kvSize = maxBatchSize * cf_NumKeyValueHeads c * headDim;
          normOut = maxBatchSize * cf_HiddenSize c;
          attnOut = qSize;
          scores = maxBatchSize * maxBatchSize;
          gate = maxBatchSize * cf_IntermediateSize c;
          up = maxBatchSize * cf_IntermediateSize c;
          fusedMLPTemp = maxBatchSize * cf_IntermediateSize c * 2
      in int64_of (normOut + qSize + kvSize + kvSize + attnOut + scores + gate + up + fusedMLPTemp))"

definition ScratchBytes :: "ModelConfig \<Rightarrow> int \<Rightarrow> int option" where
  "ScratchBytes c maxBatchSize =
     (if cf_NumAttentionHeads c = 0 then Some 0
      else
        do { headDim \<leftarrow> EffectiveHeadDim c;
             let blockScratch = block_scratch c headDim maxBatchSize;
             let logits = int64_of (maxBatchSize * cf_VocabSize c);
             let peak = (if logits > blockScratch then logits else blockScratch);
             Some (int64_of (peak * 4)) })"

definition TotalArenaBytes :: "ModelConfig \<Rightarrow> int \<Rightarrow> int option" where
  "TotalArenaBytes c maxBatchSize =
     do { scratchBytes \<leftarrow> ScratchBytes c maxBatchSize;
          let tokenBytes = maxBatchSize * 4;
          let stateBytes = maxBatchSize * cf_HiddenSize c * 4;
          let logitsBytes = cf_VocabSize c * 4;
          let total = int64_of (tokenBytes + stateBytes + scratchBytes + logitsBytes);
          headroom \<leftarrow> go_div total 10;
          Some (int64_of (total + headroom)) }"

record MemoryPlan =
  mp_Weights :: int
  mp_KV :: int
  mp_Scratch :: int
  mp_Total :: int

definition ModelConfig_MemoryPlan :: "ModelConfig \<Rightarrow> int \<Rightarrow> int \<Rightarrow> QuantProfile \<Rightarrow> MemoryPlan option" where
  "ModelConfig_MemoryPlan c batchSize contextLen weightsProfile =
     do { weights \<leftarrow> WeightsBytes c weightsProfile;
          kv \<leftarrow> KVBytes c batchSize contextLen QuantNone;
          scratch \<leftarrow> ScratchBytes c batchSize;
          Some \<lparr>mp_Weights = weights, mp_KV = kv, mp_Scratch = scratch, mp_Total = int64_of (weights + kv + scratch)\<rparr> }"

section \<open>From a GGUF file\<close>

text \<open>The settings that depend on the architecture.\<close>

definition arch_settings :: "(int \<Rightarrow> f32) \<Rightarrow> ModelConfigValues \<Rightarrow> ModelConfig \<Rightarrow> ModelConfig option" where
  "arch_settings sqrt32 g c =
     (let a = mc_Architecture g in
      if a = ''phi'' \<or> a = ''phi2'' then
        Some (c\<lparr>cf_NormType := NormLayerNorm, cf_MLPType := MLPGELU, cf_HasBias := True, cf_ParallelResidual := True, cf_RoPENeox := True\<rparr>)
      else if a = ''phi3'' then Some (c\<lparr>cf_MLPType := MLPSwiGLUFused, cf_RoPENeox := True\<rparr>)
      else if a = ''gpt2'' \<or> a = ''gptneox'' then
        Some (c\<lparr>cf_NormType := NormLayerNorm, cf_MLPType := MLPGELU, cf_HasBias := True, cf_RoPENeox := True\<rparr>)
      else if a = ''gemma'' then
        Some (c\<lparr>cf_MLPType := MLPGeGLU, cf_EmbeddingScale := sqrt32 (mc_HiddenSize g), cf_RoPENeox := True\<rparr>)
      else if a = ''gemma2'' then
        do { gemmaHeadDim \<leftarrow> (if mc_HeadDim g = 0 then go_div (mc_HiddenSize g) (mc_NumHeads g) else Some (mc_HeadDim g));
             Some (c\<lparr>cf_MLPType := MLPGeGLU, cf_EmbeddingScale := sqrt32 (mc_HiddenSize g),
                     cf_AttentionLogitSoftCap := (if f32_eq (mc_AttnLogitSoftCap g) 0 then 0x42480000 else mc_AttnLogitSoftCap g),
                     cf_AttentionWindowType := WindowAlternating, cf_HasPostNorms := True, cf_RoPENeox := True,
                     cf_QueryPreAttnScalar := gemma2QueryPreAttnScalar gemmaHeadDim (mc_HiddenSize g) (mc_NumHeads g)\<rparr>) }
      else if a = ''deepseek'' \<or> a = ''deepseek2'' then Some (c\<lparr>cf_MLPType := MLPMoE\<rparr>)
      else if a = ''llama'' \<or> a = ''mistral'' then Some c
      else if a = ''qwen2'' then Some (c\<lparr>cf_HasQKVBias := True, cf_RoPENeox := True\<rparr>)
      else Some c)"

definition ModelConfigFromGGUF :: "(int \<Rightarrow> f32) \<Rightarrow> ModelConfigValues \<Rightarrow> ModelConfig option" where
  "ModelConfigFromGGUF sqrt32 g =
     (let theta = f64_of_f32 (mc_RoPETheta g); eps = f64_of_f32 (mc_RMSNormEPS g)
      in arch_settings sqrt32 g (zero_config
           \<lparr>cf_HiddenSize := mc_HiddenSize g, cf_IntermediateSize := mc_IntermediateSize g,
            cf_NumHiddenLayers := mc_NumLayers g, cf_NumAttentionHeads := mc_NumHeads g,
            cf_NumKeyValueHeads := mc_NumKVHeads g, cf_VocabSize := mc_VocabSize g,
            cf_MaxSeqLen := (if mc_ContextLength g = 0 then 2048 else mc_ContextLength g),
            cf_RoPETheta := (if f64_is_zero theta then 0x40C3880000000000 else theta),
            cf_RMSNormEPS := (if f64_is_zero eps then 0x3EE4F8B588E368F1 else eps),
            cf_DType := Float32, cf_RoPEDim := mc_RoPEDimCount g, cf_SlidingWindow := mc_SlidingWindow g,
            cf_HeadDim := mc_HeadDim g, cf_FinalLogitSoftCap := mc_FinalLogitSoftCap g,
            cf_NumMoEExperts := mc_ExpertCount g, cf_NumMoESelected := mc_ExpertUsedCount g\<rparr>))"

end
