(* ===== verification/Exec_Plan.thy ===== *)
theory Exec_Plan
  imports Model_Config
begin

text \<open>
  The file \<open>inference/runtime/plan.go\<close>: the choice of kernels, precision, fusion and tuning for a model. The
  environment is a function from names to values, the empty string where a variable is not set. The text form of
  a plan is left out.
\<close>

section \<open>Parsing integers\<close>

text \<open>\<open>strconv.Atoi\<close>: an optional sign and decimal digits, within 64 bits; the error is \<open>None\<close>.\<close>

fun digits_value :: "string \<Rightarrow> int \<Rightarrow> int option" where
  "digits_value [] n = Some n"
| "digits_value (c # cs) n =
     (if 48 \<le> (of_char c :: int) \<and> (of_char c :: int) \<le> 57 then digits_value cs (10 * n + (of_char c - 48)) else None)"

definition Atoi :: "string \<Rightarrow> int option" where
  "Atoi s =
     (let (neg, ds) = (case s of [] \<Rightarrow> (False, []) | c # cs \<Rightarrow>
                         if c = CHR ''-'' then (True, cs) else if c = CHR ''+'' then (False, cs) else (False, s))
      in if ds = [] then None
         else do { n \<leftarrow> digits_value ds 0;
                   let v = (if neg then - n else n);
                   if - (2 ^ 63) \<le> v \<and> v < 2 ^ 63 then Some v else None })"

fun str_join :: "string \<Rightarrow> string list \<Rightarrow> string" where
  "str_join sep [] = []"
| "str_join sep [x] = x"
| "str_join sep (x # y # xs) = x @ sep @ str_join sep (y # xs)"

section \<open>The plan\<close>

type_synonym Regime = string

definition RegimeSmall :: Regime where "RegimeSmall = ''small''"
definition RegimeLarge :: Regime where "RegimeLarge = ''large''"

record PrecisionPolicy =
  pp_AttentionF16 :: bool
  pp_AccumFP32 :: bool
  pp_KVCacheF16 :: bool

record KVPolicy =
  kp_Layout :: string
  kp_AppendKernel :: string
  kp_HeadStride :: int

record KernelVariants =
  kv_SDPADecode :: string
  kv_SDPAPrefill :: string
  kv_QKV :: string
  kv_Wo :: string
  kv_FFNGateUp :: string
  kv_FFNDown :: string
  kv_LMHead :: string

record FusionPolicy =
  fp_FuseRMSNormQKV :: bool
  fp_FuseRMSNormGateUp :: bool
  fp_FuseW1W3 :: bool
  fp_FuseSiLUMul :: bool
  fp_FuseResidualAdd :: bool
  fp_FuseMLP :: bool
  fp_FuseAddRMSNorm :: bool

record TuningParams =
  tp_Nr0_FFN :: int
  tp_Nr0_Proj :: int
  tp_TileSizeSDPA :: int
  tp_UnrollFactor :: int
  tp_SDPANWGThreshold :: int
  tp_SDPATiledThreshold :: int
  tp_SDPANWGTileShort :: int
  tp_SDPANWGTileMedium :: int
  tp_SDPANWGTileLong :: int

record PrefillSettings =
  ps_SDPAKernel :: string
  ps_UseBatched :: bool

record ExecutionPlan =
  ep_ModelName :: string
  ep_Regime :: Regime
  ep_RegimeReason :: string
  ep_Precision :: PrecisionPolicy
  ep_KV :: KVPolicy
  ep_Kernels :: KernelVariants
  ep_Fusion :: FusionPolicy
  ep_Tuning :: TuningParams
  ep_PrefillOverrides :: "PrefillSettings option"

record ModelMeta =
  mm_Name :: string
  mm_HiddenSize :: int
  mm_IntermediateSize :: int
  mm_NumLayers :: int
  mm_NumHeads :: int
  mm_NumKVHeads :: int
  mm_HeadDim :: int
  mm_VocabSize :: int
  mm_MaxSeqLen :: int
  mm_QuantFormats :: "string \<rightharpoonup> int"
  mm_NormType :: NormType

record DeviceMeta =
  dm_Name :: string
  dm_Generation :: int
  dm_Variant :: int
  dm_UnifiedMemoryGB :: int
  dm_BandwidthClass :: int

record PlanConfig =
  pl_PreferLatency :: bool
  pl_MaxMemoryMB :: int
  pl_PreferSafeKernels :: bool

section \<open>Building it\<close>

text \<open>The indicators of one kind: the score and the reasons, in order.\<close>

definition small_reasons :: "ModelMeta \<Rightarrow> string list" where
  "small_reasons m =
     (if mm_HeadDim m = 64 then [''head_dim=64''] else []) @
     (if mm_NumKVHeads m \<le> 8 then [''num_kv_heads='' @ string_of_int (mm_NumKVHeads m)] else []) @
     (if mm_IntermediateSize m \<le> 8000 then [''intermediate_size='' @ string_of_int (mm_IntermediateSize m)] else []) @
     (if mm_HiddenSize m \<le> 2048 then [''hidden_size='' @ string_of_int (mm_HiddenSize m)] else [])"

definition large_reasons :: "ModelMeta \<Rightarrow> string list" where
  "large_reasons m =
     (if mm_HeadDim m \<ge> 128 then [''head_dim>=128''] else []) @
     (if mm_IntermediateSize m \<ge> 12000 then [''intermediate_size='' @ string_of_int (mm_IntermediateSize m)] else []) @
     (if mm_HiddenSize m \<ge> 4096 then [''hidden_size='' @ string_of_int (mm_HiddenSize m)] else []) @
     (if mm_NumLayers m \<ge> 28 then [''num_layers='' @ string_of_int (mm_NumLayers m)] else [])"

definition classifyRegime :: "(string \<Rightarrow> string) \<Rightarrow> ModelMeta \<Rightarrow> Regime \<times> string" where
  "classifyRegime getenv m =
     (if getenv ''VEXEL_FORCE_REGIME'' \<noteq> [] then (getenv ''VEXEL_FORCE_REGIME'', ''forced via VEXEL_FORCE_REGIME'')
      else
        let small = small_reasons m; large = large_reasons m; reasonStr = str_join '', '' (small @ large)
        in if length small > length large then (RegimeSmall, ''small model regime ('' @ reasonStr @ '')'')
           else (RegimeLarge, ''large model regime ('' @ reasonStr @ '')''))"

definition regime_defaults :: "string \<Rightarrow> string \<Rightarrow> int \<Rightarrow> int \<Rightarrow> int \<Rightarrow> ExecutionPlan \<Rightarrow> ExecutionPlan" where
  "regime_defaults wo down nr0 tile unroll p = p
     \<lparr>ep_Precision := \<lparr>pp_AttentionF16 = True, pp_AccumFP32 = True, pp_KVCacheF16 = True\<rparr>,
      ep_KV := \<lparr>kp_Layout = ''head_major'', kp_AppendKernel = ''scatter_kv_f16'', kp_HeadStride = 0\<rparr>,
      ep_Kernels := \<lparr>kv_SDPADecode = ''sdpa_flash_decode_f16_adaptive'', kv_SDPAPrefill = ''flash_attention_2_f16'',
        kv_QKV = ''fused_rmsnorm_qkv_f16'', kv_Wo = wo, kv_FFNGateUp = ''fused_rmsnorm_gateup'', kv_FFNDown = down,
        kv_LMHead = ''q6k_nr2''\<rparr>,
      ep_Fusion := \<lparr>fp_FuseRMSNormQKV = True, fp_FuseRMSNormGateUp = True, fp_FuseW1W3 = False, fp_FuseSiLUMul = True,
        fp_FuseResidualAdd = False, fp_FuseMLP = True, fp_FuseAddRMSNorm = True\<rparr>,
      ep_Tuning := \<lparr>tp_Nr0_FFN = nr0, tp_Nr0_Proj = nr0, tp_TileSizeSDPA = tile, tp_UnrollFactor = unroll,
        tp_SDPANWGThreshold = 64, tp_SDPATiledThreshold = 2048, tp_SDPANWGTileShort = 64,
        tp_SDPANWGTileMedium = 128, tp_SDPANWGTileLong = 256\<rparr>,
      ep_PrefillOverrides := Some \<lparr>ps_SDPAKernel = ''flash_attention_2_f16'', ps_UseBatched = True\<rparr>\<rparr>"

definition applySmallModelDefaults :: "ExecutionPlan \<Rightarrow> ModelMeta \<Rightarrow> DeviceMeta \<Rightarrow> ExecutionPlan" where
  "applySmallModelDefaults p m d = regime_defaults ''matvec_q4_0_nr2'' ''matvec_q4_0_nr2'' 2 32 4 p"

definition applyLargeModelDefaults :: "ExecutionPlan \<Rightarrow> ModelMeta \<Rightarrow> DeviceMeta \<Rightarrow> ExecutionPlan" where
  "applyLargeModelDefaults p m d = regime_defaults ''matvec_q4_0_nr4'' ''matvec_q4_0_nr4'' 4 64 8 p"

definition applyConfigOverrides :: "ExecutionPlan \<Rightarrow> PlanConfig \<Rightarrow> ExecutionPlan" where
  "applyConfigOverrides p c =
     (let p1 = (if pl_PreferLatency c
                then p\<lparr>ep_Tuning := (ep_Tuning p)\<lparr>tp_Nr0_FFN := 2, tp_Nr0_Proj := 2\<rparr>\<rparr> else p)
      in if pl_PreferSafeKernels c
         then p1\<lparr>ep_Kernels := (ep_Kernels p1)\<lparr>kv_SDPADecode := ''sdpa_decode_f16'', kv_Wo := ''matvec_q4_0_nr2'',
                kv_FFNDown := ''matvec_q4_0_nr2''\<rparr>\<rparr>
         else p1)"

definition env_kernel :: "(string \<Rightarrow> string) \<Rightarrow> string \<Rightarrow> (string \<Rightarrow> KernelVariants \<Rightarrow> KernelVariants) \<Rightarrow> KernelVariants \<Rightarrow> KernelVariants" where
  "env_kernel getenv name put k = (if getenv name \<noteq> [] then put (getenv name) k else k)"

definition env_tuning :: "(string \<Rightarrow> string) \<Rightarrow> string \<Rightarrow> (int \<Rightarrow> TuningParams \<Rightarrow> TuningParams) \<Rightarrow> TuningParams \<Rightarrow> TuningParams" where
  "env_tuning getenv name put t =
     (if getenv name \<noteq> [] then (case Atoi (getenv name) of Some n \<Rightarrow> put n t | None \<Rightarrow> t) else t)"

definition env_kernels :: "(string \<Rightarrow> string) \<Rightarrow> KernelVariants \<Rightarrow> KernelVariants" where
  "env_kernels getenv k =
     (let k1 = env_kernel getenv ''VEXEL_FORCE_SDPA'' (\<lambda>v k. k\<lparr>kv_SDPADecode := v\<rparr>) k;
          k2 = env_kernel getenv ''VEXEL_FORCE_SDPA_PREFILL'' (\<lambda>v k. k\<lparr>kv_SDPAPrefill := v\<rparr>) k1;
          k3 = env_kernel getenv ''VEXEL_FORCE_FFN'' (\<lambda>v k. k\<lparr>kv_FFNGateUp := v, kv_FFNDown := v\<rparr>) k2;
          k4 = env_kernel getenv ''VEXEL_FORCE_FFN_GATEUP'' (\<lambda>v k. k\<lparr>kv_FFNGateUp := v\<rparr>) k3;
          k5 = env_kernel getenv ''VEXEL_FORCE_FFN_DOWN'' (\<lambda>v k. k\<lparr>kv_FFNDown := v\<rparr>) k4;
          k6 = env_kernel getenv ''VEXEL_FORCE_WO'' (\<lambda>v k. k\<lparr>kv_Wo := v\<rparr>) k5
      in env_kernel getenv ''VEXEL_FORCE_QKV'' (\<lambda>v k. k\<lparr>kv_QKV := v\<rparr>) k6)"

definition env_tunings :: "(string \<Rightarrow> string) \<Rightarrow> TuningParams \<Rightarrow> TuningParams" where
  "env_tunings getenv t =
     (let t1 = env_tuning getenv ''VEXEL_NR0_FFN'' (\<lambda>n t. t\<lparr>tp_Nr0_FFN := n\<rparr>) t;
          t2 = env_tuning getenv ''VEXEL_NR0_PROJ'' (\<lambda>n t. t\<lparr>tp_Nr0_Proj := n\<rparr>) t1;
          t3 = env_tuning getenv ''VEXEL_TILE_SIZE_SDPA'' (\<lambda>n t. t\<lparr>tp_TileSizeSDPA := n\<rparr>) t2;
          t4 = env_tuning getenv ''VEXEL_SDPA_TILED_THRESHOLD'' (\<lambda>n t. t\<lparr>tp_SDPATiledThreshold := n\<rparr>) t3
      in env_tuning getenv ''VEXEL_SDPA_NWG_THRESHOLD'' (\<lambda>n t. t\<lparr>tp_SDPANWGThreshold := n\<rparr>) t4)"

definition env_fusion :: "(string \<Rightarrow> string) \<Rightarrow> FusionPolicy \<Rightarrow> FusionPolicy" where
  "env_fusion getenv f = f
     \<lparr>fp_FuseW1W3 := (if getenv ''VEXEL_FUSE_W1W3'' = ''1'' then True
                      else if getenv ''VEXEL_FUSE_W1W3'' = ''0'' then False else fp_FuseW1W3 f),
      fp_FuseRMSNormQKV := (getenv ''VEXEL_FUSE_RMSNORM_QKV'' \<noteq> ''0'' \<and> fp_FuseRMSNormQKV f),
      fp_FuseRMSNormGateUp := (getenv ''VEXEL_FUSE_RMSNORM_GATEUP'' \<noteq> ''0'' \<and> fp_FuseRMSNormGateUp f),
      fp_FuseMLP := (getenv ''VEXEL_FUSE_MLP'' \<noteq> ''0'' \<and> fp_FuseMLP f),
      fp_FuseAddRMSNorm := (getenv ''VEXEL_FUSE_ADD_RMSNORM'' \<noteq> ''0'' \<and> fp_FuseAddRMSNorm f)\<rparr>"

definition applyEnvOverrides :: "(string \<Rightarrow> string) \<Rightarrow> ExecutionPlan \<Rightarrow> ExecutionPlan" where
  "applyEnvOverrides getenv p = p
     \<lparr>ep_Kernels := env_kernels getenv (ep_Kernels p), ep_Tuning := env_tunings getenv (ep_Tuning p),
      ep_Fusion := env_fusion getenv (ep_Fusion p),
      ep_Precision := (ep_Precision p)\<lparr>pp_KVCacheF16 := (getenv ''VEXEL_KV_FP32'' \<noteq> ''1'' \<and> pp_KVCacheF16 (ep_Precision p))\<rparr>\<rparr>"

definition zero_plan :: ExecutionPlan where
  "zero_plan =
     \<lparr>ep_ModelName = [], ep_Regime = [], ep_RegimeReason = [],
      ep_Precision = \<lparr>pp_AttentionF16 = False, pp_AccumFP32 = False, pp_KVCacheF16 = False\<rparr>,
      ep_KV = \<lparr>kp_Layout = [], kp_AppendKernel = [], kp_HeadStride = 0\<rparr>,
      ep_Kernels = \<lparr>kv_SDPADecode = [], kv_SDPAPrefill = [], kv_QKV = [], kv_Wo = [], kv_FFNGateUp = [],
        kv_FFNDown = [], kv_LMHead = []\<rparr>,
      ep_Fusion = \<lparr>fp_FuseRMSNormQKV = False, fp_FuseRMSNormGateUp = False, fp_FuseW1W3 = False,
        fp_FuseSiLUMul = False, fp_FuseResidualAdd = False, fp_FuseMLP = False, fp_FuseAddRMSNorm = False\<rparr>,
      ep_Tuning = \<lparr>tp_Nr0_FFN = 0, tp_Nr0_Proj = 0, tp_TileSizeSDPA = 0, tp_UnrollFactor = 0,
        tp_SDPANWGThreshold = 0, tp_SDPATiledThreshold = 0, tp_SDPANWGTileShort = 0, tp_SDPANWGTileMedium = 0,
        tp_SDPANWGTileLong = 0\<rparr>,
      ep_PrefillOverrides = None\<rparr>"

definition norm_fusion :: "NormType \<Rightarrow> ExecutionPlan \<Rightarrow> ExecutionPlan" where
  "norm_fusion n p =
     (if n = NormLayerNorm
      then p\<lparr>ep_Fusion := (ep_Fusion p)\<lparr>fp_FuseRMSNormQKV := False, fp_FuseRMSNormGateUp := False\<rparr>\<rparr> else p)"

definition BuildExecutionPlan :: "(string \<Rightarrow> string) \<Rightarrow> ModelMeta \<Rightarrow> DeviceMeta \<Rightarrow> PlanConfig option \<Rightarrow> ExecutionPlan" where
  "BuildExecutionPlan getenv m d config =
     (let c = (case config of None \<Rightarrow> \<lparr>pl_PreferLatency = False, pl_MaxMemoryMB = 0, pl_PreferSafeKernels = False\<rparr> | Some c \<Rightarrow> c);
          (regime, reason) = classifyRegime getenv m;
          p = zero_plan\<lparr>ep_ModelName := mm_Name m, ep_Regime := regime, ep_RegimeReason := reason\<rparr>;
          p1 = (if regime = RegimeSmall then applySmallModelDefaults p m d else applyLargeModelDefaults p m d);
          p2 = norm_fusion (mm_NormType m) (applyConfigOverrides p1 c);
          p3 = applyEnvOverrides getenv p2
      in p3\<lparr>ep_KV := (ep_KV p3)\<lparr>kp_HeadStride := int64_of (mm_MaxSeqLen m * mm_HeadDim m)\<rparr>\<rparr>)"

section \<open>Correctness\<close>

text \<open>What no override can change: the layout, its stride, and the kernels that need RMSNorm.\<close>

lemma plan_fusion:
  "ep_Fusion (BuildExecutionPlan getenv m d config) =
     env_fusion getenv \<lparr>fp_FuseRMSNormQKV = (mm_NormType m \<noteq> NormLayerNorm),
       fp_FuseRMSNormGateUp = (mm_NormType m \<noteq> NormLayerNorm), fp_FuseW1W3 = False, fp_FuseSiLUMul = True,
       fp_FuseResidualAdd = False, fp_FuseMLP = True, fp_FuseAddRMSNorm = True\<rparr>"
  by (simp add: BuildExecutionPlan_def Let_def case_prod_beta applyEnvOverrides_def norm_fusion_def applyConfigOverrides_def
      applySmallModelDefaults_def applyLargeModelDefaults_def regime_defaults_def)

lemma plan_kv:
  "ep_KV (BuildExecutionPlan getenv m d config) =
     \<lparr>kp_Layout = ''head_major'', kp_AppendKernel = ''scatter_kv_f16'', kp_HeadStride = int64_of (mm_MaxSeqLen m * mm_HeadDim m)\<rparr>"
  by (simp add: BuildExecutionPlan_def Let_def case_prod_beta applyEnvOverrides_def norm_fusion_def applyConfigOverrides_def
      applySmallModelDefaults_def applyLargeModelDefaults_def regime_defaults_def)

text \<open>
  Whatever the environment and the configuration say, a model with LayerNorm never gets a kernel that fuses
  RMSNorm with a projection, and the layout of the cache is head-major with the stride of the model.
\<close>

theorem plan_never_fuses_LayerNorm:
  "fp_FuseRMSNormQKV (ep_Fusion (BuildExecutionPlan getenv m d config)) =
     (getenv ''VEXEL_FUSE_RMSNORM_QKV'' \<noteq> ''0'' \<and> mm_NormType m \<noteq> NormLayerNorm)"
  "fp_FuseRMSNormGateUp (ep_Fusion (BuildExecutionPlan getenv m d config)) =
     (getenv ''VEXEL_FUSE_RMSNORM_GATEUP'' \<noteq> ''0'' \<and> mm_NormType m \<noteq> NormLayerNorm)"
  "kp_Layout (ep_KV (BuildExecutionPlan getenv m d config)) = ''head_major''"
  "kp_HeadStride (ep_KV (BuildExecutionPlan getenv m d config)) = int64_of (mm_MaxSeqLen m * mm_HeadDim m)"
  by (simp_all add: plan_fusion plan_kv env_fusion_def)

text \<open>The device and the memory limit have no influence on the plan, although the plan is said to be made for the device.\<close>

lemma plan_ignores_device:
  "BuildExecutionPlan getenv m d (Some c) = BuildExecutionPlan getenv m d' (Some (c\<lparr>pl_MaxMemoryMB := n\<rparr>))"
  by (simp add: BuildExecutionPlan_def Let_def case_prod_beta applyConfigOverrides_def applySmallModelDefaults_def
      applyLargeModelDefaults_def)

text \<open>The parser of integers inverts their printing.\<close>

lemma digits_value_append: "digits_value (xs @ ys) n = do { m \<leftarrow> digits_value xs n; digits_value ys m }"
  by (induction xs arbitrary: n) auto

lemma digits_value_string_of_nat: "digits_value (string_of_nat n) 0 = Some (int n)"
proof (induction n rule: string_of_nat.induct)
  case (1 n)
  have d: "digits_value [char_of (48 + k)] m = Some (10 * m + int k)" if "k < 10" for k :: nat and m
  proof -
    have "(of_char (char_of (48 + k) :: char) :: nat) = 48 + k" using that by (simp add: of_char_of)
    then have "(of_char (char_of (48 + k) :: char) :: int) = 48 + int k" by (metis of_nat_of_char of_nat_add of_nat_numeral)
    then show ?thesis using that by simp
  qed
  show ?case
  proof (cases "n < 10")
    case True
    then show ?thesis using d [of n 0] by (subst string_of_nat.simps) simp
  next
    case False
    have "10 * (int n div 10) + int (n mod 10) = int n" by (simp add: zmod_int)
    then show ?thesis using False 1 d [of "n mod 10" "int (n div 10)"]
      by (subst string_of_nat.simps) (simp add: digits_value_append zdiv_int)
  qed
qed

lemma string_of_nat_head: "\<exists>c cs. string_of_nat n = c # cs \<and> 48 \<le> (of_char c :: nat) \<and> (of_char c :: nat) \<le> 57"
proof (induction n rule: string_of_nat.induct)
  case (1 n)
  show ?case
  proof (cases "n < 10")
    case True
    then show ?thesis by (subst string_of_nat.simps) (simp add: of_char_of)
  next
    case False
    then show ?thesis using 1 by (subst string_of_nat.simps) auto
  qed
qed

text \<open>Every 64-bit integer is recovered from its decimal form, so the tuning variables take any value.\<close>

lemma Atoi_string_of_int:
  assumes "- (2 ^ 63) \<le> n" and "n < 2 ^ 63"
  shows "Atoi (string_of_int n) = Some n"
proof (cases "n < 0")
  case True
  then show ?thesis using assms digits_value_string_of_nat [of "nat (- n)"] string_of_nat_head [of "nat (- n)"]
    by (auto simp: Atoi_def string_of_int_def)
next
  case False
  obtain c cs where c: "string_of_nat (nat n) = c # cs" "48 \<le> (of_char c :: nat)" using string_of_nat_head by blast
  then have "c \<noteq> CHR ''-''" "c \<noteq> CHR ''+''" by auto
  then show ?thesis using False assms digits_value_string_of_nat [of "nat n"] c(1) by (simp add: Atoi_def string_of_int_def)
qed

lemma env_tuning_sets:
  assumes "getenv name = string_of_int n" and "- (2 ^ 63) \<le> n" and "n < 2 ^ 63"
  shows "env_tuning getenv name put t = put n t"
proof -
  have "string_of_int n \<noteq> []" using string_of_nat_head [of "nat n"] by (auto simp: string_of_int_def)
  then show ?thesis using assms Atoi_string_of_int by (simp add: env_tuning_def)
qed

end
