(* ===== verification/Cpu_Memory.thy ===== *)
theory Cpu_Memory
  imports Float32_Arith Bytes Tensor
begin

text \<open>
  The memory under the kernels of \<open>inference/backend/cpu\<close>: bytes by address, floats as four bytes in
  little-endian order, and slices of floats as an address with a length and a capacity, so that two slices may
  share memory. \<open>wrote\<close> says what a loop has written and that it has written nothing else; the lemmas compose it
  over the iterations of a loop, in whatever order they run.
\<close>

section \<open>Loads and stores\<close>

type_synonym mem = "int \<Rightarrow> byte"

definition ld32 :: "mem \<Rightarrow> int \<Rightarrow> f32" where
  "ld32 m a = word_of_nat (le_nat (map m [a, a + 1, a + 2, a + 3]))"

definition st32 :: "mem \<Rightarrow> int \<Rightarrow> f32 \<Rightarrow> mem" where
  "st32 m a v = (\<lambda>b. if a \<le> b \<and> b < a + 4 then word_of_nat (unat v div 256 ^ nat (b - a)) else m b)"

lemma ld32_st32 [simp]: "ld32 (st32 m a v) a = v"
proof -
  have four: "(4::nat) = Suc (Suc (Suc (Suc 0)))" by simp
  have "le_encode 4 (unat v) = map (\<lambda>k. word_of_nat (unat v div 256 ^ k)) [0, 1, 2, 3]"
    unfolding four le_encode.simps by (simp add: div_mult2_eq [symmetric] power2_eq_square power3_eq_cube)
  then have "map (st32 m a v) [a, a + 1, a + 2, a + 3] = le_encode 4 (unat v)"
    by (simp add: st32_def)
  then have "ld32 (st32 m a v) a = word_of_nat (unat v mod 256 ^ 4)"
    unfolding ld32_def by (simp only: le_nat_encode)
  moreover have "unat v < 2 ^ LENGTH(32)" by (rule unsigned_less)
  then have "unat v < 256 ^ 4" by simp
  ultimately show ?thesis by simp
qed

lemma st32_other: "b < a \<or> a + 4 \<le> b \<Longrightarrow> st32 m a v b = m b"
  by (auto simp: st32_def)

lemma ld32_cong: "(\<And>b. a \<le> b \<Longrightarrow> b < a + 4 \<Longrightarrow> m' b = m b) \<Longrightarrow> ld32 m' a = ld32 m a"
  by (simp add: ld32_def)

section \<open>Slices\<close>

record fslice =
  fs_addr :: int
  fs_len :: nat
  fs_cap :: nat

definition nil_fslice :: fslice where
  "nil_fslice = \<lparr>fs_addr = 0, fs_len = 0, fs_cap = 0\<rparr>"

text \<open>\<open>unsafe.Slice\<close> panics for a region that leaves the address space.\<close>

definition ptrToFloat32Slice :: "DevicePtr \<Rightarrow> nat \<Rightarrow> fslice option" where
  "ptrToFloat32Slice p n =
     (if DevicePtr_IsNil p then Some nil_fslice
      else if uint (DevicePtr_Addr p) + 4 * int n \<le> 2 ^ 64
      then Some \<lparr>fs_addr = uint (DevicePtr_Addr p), fs_len = n, fs_cap = n\<rparr> else None)"

definition elem_addr :: "fslice \<Rightarrow> nat \<Rightarrow> int" where
  "elem_addr s i = fs_addr s + 4 * int i"

definition ldf :: "mem \<Rightarrow> fslice \<Rightarrow> nat \<Rightarrow> f32" where
  "ldf m s i = ld32 m (elem_addr s i)"

definition rd :: "mem \<Rightarrow> fslice \<Rightarrow> nat \<Rightarrow> f32 option" where
  "rd m s i = (if i < fs_len s then Some (ldf m s i) else None)"

definition wr :: "fslice \<Rightarrow> nat \<Rightarrow> f32 \<Rightarrow> mem \<Rightarrow> mem option" where
  "wr s i v m = (if i < fs_len s then Some (st32 m (elem_addr s i) v) else None)"

definition sub :: "fslice \<Rightarrow> nat \<Rightarrow> nat \<Rightarrow> fslice option" where
  "sub s lo hi =
     (if lo \<le> hi \<and> hi \<le> fs_cap s
      then Some \<lparr>fs_addr = elem_addr s lo, fs_len = hi - lo, fs_cap = fs_cap s - lo\<rparr> else None)"

lemma rd_Some [simp]: "i < fs_len s \<Longrightarrow> rd m s i = Some (ldf m s i)"
  by (simp add: rd_def)

lemma wr_Some [simp]: "i < fs_len s \<Longrightarrow> wr s i v m = Some (st32 m (elem_addr s i) v)"
  by (simp add: wr_def)

text \<open>Integer division of counts; a division by zero panics.\<close>

definition ndiv :: "nat \<Rightarrow> nat \<Rightarrow> nat option" where
  "ndiv a b = (if b = 0 then None else Some (a div b))"

section \<open>What a loop has written\<close>

definition in_elem :: "fslice \<Rightarrow> nat \<Rightarrow> int \<Rightarrow> bool" where
  "in_elem s i b = (elem_addr s i \<le> b \<and> b < elem_addr s i + 4)"

definition wrote :: "fslice \<Rightarrow> nat set \<Rightarrow> (nat \<Rightarrow> f32) \<Rightarrow> mem \<Rightarrow> mem \<Rightarrow> bool" where
  "wrote s I f m m' \<longleftrightarrow>
     (\<forall>i\<in>I. ldf m' s i = f i) \<and> (\<forall>b. (\<forall>i\<in>I. \<not> in_elem s i b) \<longrightarrow> m' b = m b)"

lemma in_elem_inj: "in_elem s i b \<Longrightarrow> in_elem s j b \<Longrightarrow> i = j"
  by (auto simp: in_elem_def elem_addr_def)

lemma wrote_empty [simp]: "wrote s {} f m m"
  by (simp add: wrote_def)

lemma wroteD: "wrote s I f m m' \<Longrightarrow> i \<in> I \<Longrightarrow> ldf m' s i = f i"
  by (simp add: wrote_def)

lemma wrote_frame: "wrote s I f m m' \<Longrightarrow> (\<And>i. i \<in> I \<Longrightarrow> \<not> in_elem s i b) \<Longrightarrow> m' b = m b"
  by (simp add: wrote_def)

lemma wrote_same: "wrote s I f m m' \<Longrightarrow> i \<notin> I \<Longrightarrow> ldf m' s i = ldf m s i"
  unfolding ldf_def
  by (rule ld32_cong, erule wrote_frame) (metis in_elem_def in_elem_inj)

lemma wrote_cong: "wrote s I f m m' \<Longrightarrow> (\<And>i. i \<in> I \<Longrightarrow> f i = g i) \<Longrightarrow> wrote s I g m m'"
  by (simp add: wrote_def)

lemma wrote_wr: "wrote s {i} f m (st32 m (elem_addr s i) (f i))"
  by (auto simp: wrote_def ldf_def in_elem_def intro: st32_other)

lemma wrote_seq:
  assumes "wrote s I f m m1" and "wrote s J f m1 m2"
  shows "wrote s (I \<union> J) f m m2"
  unfolding wrote_def
proof (intro conjI ballI allI impI)
  fix i assume "i \<in> I \<union> J"
  then show "ldf m2 s i = f i"
    using wroteD [OF assms(1)] wroteD [OF assms(2)] wrote_same [OF assms(2)] by (cases "i \<in> J") auto
next
  fix b assume "\<forall>i\<in>I \<union> J. \<not> in_elem s i b"
  then show "m2 b = m b" using wrote_frame [OF assms(1), of b] wrote_frame [OF assms(2), of b] by simp
qed

text \<open>A second pass over the same elements.\<close>

lemma wrote_again:
  assumes "wrote s I f m m1" and "wrote s I g m1 m2"
  shows "wrote s I g m m2"
  using assms unfolding wrote_def by simp

text \<open>Elements written inside elements that had been written before.\<close>

lemma wrote_twice:
  assumes "K \<subseteq> I" and "wrote s K g m1 m2" and "wrote s I f m m1"
  shows "wrote s I (ldf m2 s) m m2"
  using assms unfolding wrote_def by (metis subsetD)

text \<open>Two passes, whatever each has written.\<close>

lemma wrote_join:
  assumes "wrote s I f m m1" and "wrote s J g m1 m2"
  shows "wrote s (I \<union> J) (ldf m2 s) m m2"
  using assms unfolding wrote_def by simp

text \<open>
  A loop whose iterations do not depend on what the others write, in any order and with any repetition.
\<close>

lemma wrote_foldM_any_from:
  assumes "wrote s I f m m0" and "I \<subseteq> U" and "\<Union>(J ` set rs) \<subseteq> U"
    and "\<And>r m1 K. r \<in> set rs \<Longrightarrow> K \<subseteq> U \<Longrightarrow> wrote s K f m m1 \<Longrightarrow> \<exists>m2. body r m1 = Some m2 \<and> wrote s (J r) f m1 m2"
  shows "\<exists>m'. foldM body rs m0 = Some m' \<and> wrote s (I \<union> \<Union>(J ` set rs)) f m m'"
  using assms
proof (induction rs arbitrary: I m0)
  case (Cons r rs)
  obtain m2 where m2: "body r m0 = Some m2" "wrote s (J r) f m0 m2"
    using Cons.prems(4) [of r I m0] Cons.prems(1,2) by auto
  have "\<exists>m'. foldM body rs m2 = Some m' \<and> wrote s ((I \<union> J r) \<union> \<Union>(J ` set rs)) f m m'"
    by (rule Cons.IH [OF wrote_seq [OF Cons.prems(1) m2(2)]]) (use Cons.prems(2-4) in auto)
  then show ?case using m2(1) by (simp add: Un_assoc)
qed auto

lemma wrote_foldM_any:
  assumes "\<And>r m1 K. r \<in> set rs \<Longrightarrow> K \<subseteq> \<Union>(J ` set rs) \<Longrightarrow> wrote s K f m m1 \<Longrightarrow>
      \<exists>m2. body r m1 = Some m2 \<and> wrote s (J r) f m1 m2"
  shows "\<exists>m'. foldM body rs m = Some m' \<and> wrote s (\<Union>(J ` set rs)) f m m'"
  using wrote_foldM_any_from [of s "{}" f m m "\<Union>(J ` set rs)" J rs body] assms by simp

text \<open>
  A loop whose iteration \<open>r\<close> writes the elements \<open>J r\<close>. The iteration may rely on having its own elements as they were
  before the loop, so the input may be the output.
\<close>

lemma wrote_foldM_from:
  assumes "wrote s I f m m0" and "distinct rs" and "\<And>r. r \<in> set rs \<Longrightarrow> J r \<inter> I = {}"
    and "\<And>r r'. r \<in> set rs \<Longrightarrow> r' \<in> set rs \<Longrightarrow> r \<noteq> r' \<Longrightarrow> J r \<inter> J r' = {}"
    and step: "\<And>r m1 K. r \<in> set rs \<Longrightarrow> wrote s K f m m1 \<Longrightarrow> K \<subseteq> I \<union> \<Union>(J ` set rs) \<Longrightarrow> J r \<inter> K = {} \<Longrightarrow>
      \<exists>m2. body r m1 = Some m2 \<and> wrote s (J r) f m1 m2"
  shows "\<exists>m'. foldM body rs m0 = Some m' \<and> wrote s (I \<union> \<Union>(J ` set rs)) f m m'"
  using assms
proof (induction rs arbitrary: I m0)
  case (Cons r rs)
  have "I \<subseteq> I \<union> \<Union>(J ` set (r # rs))" by blast
  then obtain m2 where m2: "body r m0 = Some m2" "wrote s (J r) f m0 m2"
    using Cons.prems(5) [of r I m0] Cons.prems(1,3) by auto
  have a: "wrote s (I \<union> J r) f m m2" by (rule wrote_seq [OF Cons.prems(1) m2(2)])
  have d: "J q \<inter> (I \<union> J r) = {}" if "q \<in> set rs" for q
  proof -
    have "q \<noteq> r" using that Cons.prems(2) by auto
    then show ?thesis using that Cons.prems(3) [of q] Cons.prems(4) [of q r] by auto
  qed
  have s: "\<exists>m2. body q m1 = Some m2 \<and> wrote s (J q) f m1 m2"
    if "q \<in> set rs" "wrote s K f m m1" "K \<subseteq> (I \<union> J r) \<union> \<Union>(J ` set rs)" "J q \<inter> K = {}" for q m1 K
    using Cons.prems(5) [of q K m1] that by auto
  have "\<exists>m'. foldM body rs m2 = Some m' \<and> wrote s ((I \<union> J r) \<union> \<Union>(J ` set rs)) f m m'"
    by (rule Cons.IH [OF a _ d _ s]) (use Cons.prems in auto)
  then show ?case using m2(1) by (simp add: Un_assoc)
qed auto

lemma wrote_foldM:
  assumes "distinct rs"
    and "\<And>r r'. r \<in> set rs \<Longrightarrow> r' \<in> set rs \<Longrightarrow> r \<noteq> r' \<Longrightarrow> J r \<inter> J r' = {}"
    and "\<And>r m1 K. r \<in> set rs \<Longrightarrow> wrote s K f m m1 \<Longrightarrow> K \<subseteq> \<Union>(J ` set rs) \<Longrightarrow> J r \<inter> K = {} \<Longrightarrow>
      \<exists>m2. body r m1 = Some m2 \<and> wrote s (J r) f m1 m2"
  shows "\<exists>m'. foldM body rs m = Some m' \<and> wrote s (\<Union>(J ` set rs)) f m m'"
  using wrote_foldM_from [of s "{}" f m m rs J body] assms by simp

text \<open>A loop over single elements.\<close>

lemma wrote_each:
  assumes "distinct rs" and "\<And>r. r \<in> set rs \<Longrightarrow> r < fs_len s"
    and "\<And>r m1 K. r \<in> set rs \<Longrightarrow> wrote s K f m m1 \<Longrightarrow> K \<subseteq> set rs \<Longrightarrow> r \<notin> K \<Longrightarrow> body r m1 = wr s r (f r) m1"
  shows "\<exists>m'. foldM body rs m = Some m' \<and> wrote s (set rs) f m m'"
  using wrote_foldM [of rs "\<lambda>r. {r}" s f m body] assms by (auto intro: wrote_wr)

section \<open>Slices apart from each other\<close>

definition apart :: "fslice \<Rightarrow> fslice \<Rightarrow> bool" where
  "apart s t = (elem_addr s (fs_len s) \<le> fs_addr t \<or> elem_addr t (fs_len t) \<le> fs_addr s)"

lemma wrote_apart:
  assumes "wrote s I f m m'" and "I \<subseteq> {..<fs_len s}" and "apart s t" and "i < fs_len t"
  shows "ldf m' t i = ldf m t i"
  unfolding ldf_def
proof (rule ld32_cong, rule wrote_frame [OF assms(1)])
  fix b j assume b: "elem_addr t i \<le> b" "b < elem_addr t i + 4" and "j \<in> I"
  then have "j < fs_len s" using assms(2) by auto
  then show "\<not> in_elem s j b" using assms(3,4) b unfolding apart_def in_elem_def elem_addr_def by auto
qed

end
