(* ===== verification/Cpu_Kernels.thy ===== *)
theory Cpu_Kernels
  imports Cpu_Memory Dequant
begin

text \<open>
  The kernels of \<open>inference/backend/cpu\<close>: \<open>CPUBackend\<close> (\<open>cpu.go\<close>), which works on device pointers, and the
  older \<open>cpuBackend\<close> (\<open>backend.go\<close>), which works on slices. Where the two have the same loops they share a
  definition on slices. Sizes are natural numbers, positions integers. The functions of package \<open>math\<close>, rounded to
  single precision, and the fusing of products and sums by the compiler are arguments. The goroutines of a
  matrix product write one element at a time, in an order that is an argument.
\<close>

section \<open>Arithmetic\<close>

text \<open>A sum or a difference of two products may be computed with one of the products not rounded.\<close>

datatype fusion = FuseNone | FuseFirst | FuseSecond

fun mul2_add :: "fusion \<Rightarrow> f32 \<Rightarrow> f32 \<Rightarrow> f32 \<Rightarrow> f32 \<Rightarrow> f32" where
  "mul2_add FuseNone a b c d = f32_add (f32_mul a b) (f32_mul c d)"
| "mul2_add FuseFirst a b c d = f32_fma a b (f32_mul c d)"
| "mul2_add FuseSecond a b c d = f32_fma c d (f32_mul a b)"

definition mul2_sub :: "fusion \<Rightarrow> f32 \<Rightarrow> f32 \<Rightarrow> f32 \<Rightarrow> f32 \<Rightarrow> f32" where
  "mul2_sub fu a b c d = mul2_add fu a b (f32_minus c) d"

record CpuMath =
  cm_fma :: bool
  cm_sub :: fusion
  cm_add :: fusion
  cm_exp :: "f32 \<Rightarrow> f32"
  cm_sqrt :: "f32 \<Rightarrow> f32"
  cm_tanh :: "f32 \<Rightarrow> f32"
  cm_cos :: "f32 \<Rightarrow> f32"
  cm_sin :: "f32 \<Rightarrow> f32"
  cm_freq :: "f32 \<Rightarrow> nat \<Rightarrow> nat \<Rightarrow> f32"

text \<open>\<open>cm_freq theta e d\<close> is \<open>float32(1.0 / math.Pow(float64(theta), float64(e)/float64(d)))\<close>.\<close>

section \<open>Memory\<close>

definition CPUBackend_ToDevice :: "DevicePtr \<Rightarrow> byte list \<Rightarrow> mem \<Rightarrow> mem option" where
  "CPUBackend_ToDevice dst src m =
     (if DevicePtr_IsNil dst \<or> src = [] then Some m
      else let a = uint (DevicePtr_Addr dst) in
        if a + len src \<le> 2 ^ 64
        then Some (\<lambda>b. if a \<le> b \<and> b < a + len src then src ! nat (b - a) else m b) else None)"

definition CPUBackend_ToHost :: "byte list \<Rightarrow> DevicePtr \<Rightarrow> mem \<Rightarrow> byte list option" where
  "CPUBackend_ToHost dst src m =
     (if DevicePtr_IsNil src \<or> dst = [] then Some dst
      else let a = uint (DevicePtr_Addr src) in
        if a + len dst \<le> 2 ^ 64 then Some (map (\<lambda>i. m (a + int i)) [0..<length dst]) else None)"

section \<open>Matrix products\<close>

definition dot_loop :: "bool \<Rightarrow> mem \<Rightarrow> fslice \<Rightarrow> (nat \<Rightarrow> nat) \<Rightarrow> fslice \<Rightarrow> (nat \<Rightarrow> nat) \<Rightarrow> nat \<Rightarrow> f32 option" where
  "dot_loop fma m a ia b ib n =
     foldM (\<lambda>p s. do { x \<leftarrow> rd m a (ia p); y \<leftarrow> rd m b (ib p); Some (f32_mul_add fma x y s) }) [0..<n] 0"

text \<open>The ranges of rows of the workers, and the elements of a range in the order of its loops.\<close>

definition worker_ranges :: "nat \<Rightarrow> nat \<Rightarrow> (nat \<times> nat) list option" where
  "worker_ranges ncpu m =
     (let numWorkers = (if m < ncpu then m else ncpu)
      in do { chunkSize \<leftarrow> ndiv (m + numWorkers - 1) numWorkers;
              Some (map (\<lambda>w. (w * chunkSize, min (w * chunkSize + chunkSize) m)) [0..<numWorkers]) })"

type_synonym task = "nat \<times> nat"

definition worker_tasks :: "nat \<Rightarrow> nat \<times> nat \<Rightarrow> task list" where
  "worker_tasks n rows = concat (map (\<lambda>i. map (\<lambda>j. (i, j)) [0..<n]) [fst rows..<snd rows])"

definition zero_all :: "fslice \<Rightarrow> mem \<Rightarrow> mem option" where
  "zero_all out m = foldM (\<lambda>i. wr out i 0) [0..<fs_len out] m"

definition parallel_rows :: "(task list list \<Rightarrow> task list) \<Rightarrow> nat \<Rightarrow> nat \<Rightarrow> nat \<Rightarrow> (nat \<Rightarrow> nat \<Rightarrow> mem \<Rightarrow> f32 option) \<Rightarrow>
    fslice \<Rightarrow> mem \<Rightarrow> mem option" where
  "parallel_rows sched ncpu m n elem out mem =
     do { mem1 \<leftarrow> zero_all out mem;
          ranges \<leftarrow> worker_ranges ncpu m;
          foldM (\<lambda>(i, j) mem. do { v \<leftarrow> elem i j mem; wr out (i * n + j) v mem })
            (sched (map (worker_tasks n) ranges)) mem1 }"

definition cpuBackend_Matmul where
  "cpuBackend_Matmul cm sched ncpu a bData out m n k mem =
     parallel_rows sched ncpu m n
       (\<lambda>i j mem. dot_loop (cm_fma cm) mem a (\<lambda>p. i * k + p) bData (\<lambda>p. p * n + j) k) out mem"

definition cpuBackend_MatmulTransposeB where
  "cpuBackend_MatmulTransposeB cm sched ncpu a bData out m n k mem =
     parallel_rows sched ncpu m n
       (\<lambda>i j mem. dot_loop (cm_fma cm) mem a (\<lambda>p. i * k + p) bData (\<lambda>p. j * k + p) k) out mem"

definition matMulNaive where
  "matMulNaive cm sched ncpu a bMat out m n k mem =
     do { aData \<leftarrow> ptrToFloat32Slice a (m * k);
          bData \<leftarrow> ptrToFloat32Slice bMat (k * n);
          outData \<leftarrow> ptrToFloat32Slice out (m * n);
          cpuBackend_Matmul cm sched ncpu aData bData outData m n k mem }"

definition matMulTransposedNaive where
  "matMulTransposedNaive cm sched ncpu a bMat out m n k mem =
     do { aData \<leftarrow> ptrToFloat32Slice a (m * k);
          bData \<leftarrow> ptrToFloat32Slice bMat (n * k);
          outData \<leftarrow> ptrToFloat32Slice out (m * n);
          cpuBackend_MatmulTransposeB cm sched ncpu aData bData outData m n k mem }"

text \<open>\<open>MatMul\<close> and \<open>MatMulTransposed\<close>: \<open>blas\<close> is the call of the Accelerate framework where the build has it.\<close>

definition CPUBackend_MatMul where
  "CPUBackend_MatMul blas cm sched ncpu a bMat out m n k mem =
     (case blas of Some sgemm \<Rightarrow> sgemm a bMat out m n k False mem
      | None \<Rightarrow> matMulNaive cm sched ncpu a bMat out m n k mem)"

definition CPUBackend_MatMulTransposed where
  "CPUBackend_MatMulTransposed blas cm sched ncpu a bMat out m n k mem =
     (case blas of Some sgemm \<Rightarrow> sgemm a bMat out m n k True mem
      | None \<Rightarrow> matMulTransposedNaive cm sched ncpu a bMat out m n k mem)"

section \<open>Normalization\<close>

definition rms_row :: "CpuMath \<Rightarrow> fslice \<Rightarrow> fslice \<Rightarrow> fslice \<Rightarrow> nat \<Rightarrow> f32 \<Rightarrow> nat \<Rightarrow> mem \<Rightarrow> mem option" where
  "rms_row cm x w out cols eps i mem =
     do { sumSquares \<leftarrow> dot_loop (cm_fma cm) mem x (\<lambda>j. i * cols + j) x (\<lambda>j. i * cols + j) cols;
          let mean = f32_div sumSquares (f32_of_int (int cols));
          let rms = cm_sqrt cm (f32_add mean eps);
          foldM (\<lambda>j m. do { xv \<leftarrow> rd m x (i * cols + j); wv \<leftarrow> rd m w j;
                            wr out (i * cols + j) (f32_mul (f32_div xv rms) wv) m }) [0..<cols] mem }"

definition cpuBackend_RMSNorm where
  "cpuBackend_RMSNorm cm x weight out rows cols eps mem =
     foldM (rms_row cm x weight out cols eps) [0..<rows] mem"

definition CPUBackend_RMSNorm where
  "CPUBackend_RMSNorm cm x weight out rows cols eps mem =
     do { xData \<leftarrow> ptrToFloat32Slice x (rows * cols);
          wData \<leftarrow> ptrToFloat32Slice weight cols;
          outData \<leftarrow> ptrToFloat32Slice out (rows * cols);
          cpuBackend_RMSNorm cm xData wData outData rows cols eps mem }"

definition layer_norm_row :: "CpuMath \<Rightarrow> fslice \<Rightarrow> fslice \<Rightarrow> fslice \<Rightarrow> fslice \<Rightarrow> nat \<Rightarrow> f32 \<Rightarrow> nat \<Rightarrow> mem \<Rightarrow> mem option" where
  "layer_norm_row cm x w b out cols eps i mem =
     do { row \<leftarrow> sub x (i * cols) (i * cols + cols);
          sum \<leftarrow> foldM (\<lambda>j s. do { v \<leftarrow> rd mem row j; Some (f32_add s v) }) [0..<cols] 0;
          let mean = f32_div sum (f32_of_int (int cols));
          varSum \<leftarrow> foldM (\<lambda>j s. do { v \<leftarrow> rd mem row j; let diff = f32_sub v mean;
                                     Some (f32_mul_add (cm_fma cm) diff diff s) }) [0..<cols] 0;
          let variance = f32_div varSum (f32_of_int (int cols));
          let invStd = f32_div f32_one (cm_sqrt cm (f32_add variance eps));
          foldM (\<lambda>j m. do { v \<leftarrow> rd m row j; wv \<leftarrow> rd m w j; bv \<leftarrow> rd m b j;
                            wr out (i * cols + j) (f32_mul_add (cm_fma cm) (f32_mul (f32_sub v mean) invStd) wv bv) m })
            [0..<cols] mem }"

definition CPUBackend_LayerNorm where
  "CPUBackend_LayerNorm cm x weight bias out rows cols eps mem =
     do { xData \<leftarrow> ptrToFloat32Slice x (rows * cols);
          wData \<leftarrow> ptrToFloat32Slice weight cols;
          bData \<leftarrow> ptrToFloat32Slice bias cols;
          outData \<leftarrow> ptrToFloat32Slice out (rows * cols);
          foldM (layer_norm_row cm xData wData bData outData cols eps) [0..<rows] mem }"

section \<open>Rotary embeddings\<close>

definition rope_pair :: "bool \<Rightarrow> nat \<Rightarrow> nat \<Rightarrow> nat \<times> nat" where
  "rope_pair neox half j = (if neox then (j, j + half) else (j * 2, j * 2 + 1))"

definition rotate :: "CpuMath \<Rightarrow> f32 \<Rightarrow> f32 \<Rightarrow> f32 \<Rightarrow> f32 \<times> f32" where
  "rotate cm angle val1 val2 =
     (let c = cm_cos cm angle; s = cm_sin cm angle
      in (mul2_sub (cm_sub cm) val1 c val2 s, mul2_add (cm_add cm) val1 s val2 c))"

text \<open>One vector, at \<open>offset\<close>, rotated in place for the position \<open>pos\<close>.\<close>

definition rope_vector :: "CpuMath \<Rightarrow> (nat \<Rightarrow> mem \<Rightarrow> f32 option) \<Rightarrow> bool \<Rightarrow> nat \<Rightarrow> fslice \<Rightarrow> int \<Rightarrow> nat \<Rightarrow> mem \<Rightarrow> mem option" where
  "rope_vector cm freq neox half data pos offset mem =
     foldM (\<lambda>j m.
       do { let (idx0, idx1) = rope_pair neox half j;
            f \<leftarrow> freq j m;
            let angle = f32_mul (f32_of_int pos) f;
            val1 \<leftarrow> rd m data (offset + idx0);
            val2 \<leftarrow> rd m data (offset + idx1);
            m1 \<leftarrow> wr data (offset + idx0) (fst (rotate cm angle val1 val2)) m;
            wr data (offset + idx1) (snd (rotate cm angle val1 val2)) m1 }) [0..<half] mem"

text \<open>All vectors of a slice, with \<open>numHeads\<close> vectors for a position.\<close>

definition rope_slice :: "CpuMath \<Rightarrow> (nat \<Rightarrow> mem \<Rightarrow> f32 option) \<Rightarrow> bool \<Rightarrow> nat \<Rightarrow> fslice \<Rightarrow> nat \<Rightarrow> nat \<Rightarrow> int \<Rightarrow> mem \<Rightarrow> mem option" where
  "rope_slice cm freq neox half data headDim numHeads startPos mem =
     do { totalVectors \<leftarrow> ndiv (fs_len data) headDim;
          foldM (\<lambda>i m. do { seqPos \<leftarrow> ndiv i numHeads;
                            rope_vector cm freq neox half data (startPos + int seqPos) (i * headDim) m }) [0..<totalVectors] mem }"

definition CPUBackend_RoPE where
  "CPUBackend_RoPE cm q k headDim numHeads numKVHeads seqLen startPos ropeDim theta ropeNeox mem =
     (let effectiveRopeDim = (if ropeDim = 0 then headDim else ropeDim);
          half = effectiveRopeDim div 2;
          freq = (\<lambda>j m. Some (cm_freq cm theta (2 * j) effectiveRopeDim))
      in do { qData \<leftarrow> ptrToFloat32Slice q (seqLen * numHeads * headDim);
              mem1 \<leftarrow> rope_slice cm freq ropeNeox half qData headDim numHeads startPos mem;
              if DevicePtr_IsNil k then Some mem1
              else do { kData \<leftarrow> ptrToFloat32Slice k (seqLen * numKVHeads * headDim);
                        rope_slice cm freq ropeNeox half kData headDim numKVHeads startPos mem1 } })"

definition CPUBackend_RoPEWithFreqs where
  "CPUBackend_RoPEWithFreqs cm q k freqs headDim numHeads numKVHeads seqLen startPos ropeNeox mem =
     (let half = headDim div 2
      in do { freqData \<leftarrow> ptrToFloat32Slice freqs half;
              qData \<leftarrow> ptrToFloat32Slice q (seqLen * numHeads * headDim);
              mem1 \<leftarrow> rope_slice cm (\<lambda>j m. rd m freqData j) ropeNeox half qData headDim numHeads startPos mem;
              if DevicePtr_IsNil k then Some mem1
              else do { kData \<leftarrow> ptrToFloat32Slice k (seqLen * numKVHeads * headDim);
                        rope_slice cm (\<lambda>j m. rd m freqData j) ropeNeox half kData headDim numKVHeads startPos mem1 } })"

text \<open>The older backend takes the number of key heads from the length of the keys; \<open>None\<close> is a nil slice.\<close>

definition cpuBackend_RoPE where
  "cpuBackend_RoPE cm q k headDim numHeads seqLen startPos theta mem =
     (let freq = (\<lambda>j m. Some (cm_freq cm theta (2 * j) headDim)); half = headDim div 2
      in do { mem1 \<leftarrow> rope_slice cm freq False half q headDim numHeads startPos mem;
              case k of None \<Rightarrow> Some mem1
              | Some k \<Rightarrow>
                  do { heads \<leftarrow> ndiv (fs_len k) (seqLen * headDim);
                       let numKVHeads = (if heads = 0 then 1 else heads);
                       rope_slice cm freq False half k headDim numKVHeads startPos mem1 } })"

definition cpuBackend_RoPEShift where
  "cpuBackend_RoPEShift cm k headDim numKVHeads numTokens shift theta mem =
     (if shift = 0 then Some mem
      else foldM (\<lambda>t. foldM (\<lambda>h. rope_vector cm (\<lambda>j m. Some (cm_freq cm theta (2 * j) headDim)) False (headDim div 2) k
                                   shift (t * numKVHeads * headDim + h * headDim)) [0..<numKVHeads])
             [0..<numTokens] mem)"

section \<open>Element by element\<close>

definition map_loop :: "(f32 \<Rightarrow> f32) \<Rightarrow> fslice \<Rightarrow> fslice \<Rightarrow> nat \<Rightarrow> mem \<Rightarrow> mem option" where
  "map_loop f x out n mem = foldM (\<lambda>i m. do { v \<leftarrow> rd m x i; wr out i (f v) m }) [0..<n] mem"

definition map2_loop :: "(f32 \<Rightarrow> f32 \<Rightarrow> f32) \<Rightarrow> fslice \<Rightarrow> fslice \<Rightarrow> fslice \<Rightarrow> nat \<Rightarrow> mem \<Rightarrow> mem option" where
  "map2_loop f x y out n mem =
     foldM (\<lambda>i m. do { v \<leftarrow> rd m x i; w \<leftarrow> rd m y i; wr out i (f v w) m }) [0..<n] mem"

definition silu_value :: "CpuMath \<Rightarrow> f32 \<Rightarrow> f32" where
  "silu_value cm v =
     (let sigmoid = f32_div f32_one (f32_add f32_one (cm_exp cm (f32_minus v))) in f32_mul v sigmoid)"

text \<open>\<open>sqrtTwoPi\<close> is 0.7978845608, \<open>coeff\<close> 0.044715.\<close>

definition gelu_value :: "CpuMath \<Rightarrow> f32 \<Rightarrow> f32" where
  "gelu_value cm v =
     (let x3 = f32_mul (f32_mul v v) v;
          tanhArg = f32_mul 0x3F4C422A (f32_mul_add (cm_fma cm) 0x3D372713 x3 v);
          tanhVal = cm_tanh cm tanhArg
      in f32_mul (f32_mul 0x3F000000 v) (f32_add f32_one tanhVal))"

definition unary_kernel :: "(f32 \<Rightarrow> f32) \<Rightarrow> DevicePtr \<Rightarrow> DevicePtr \<Rightarrow> nat \<Rightarrow> mem \<Rightarrow> mem option" where
  "unary_kernel f x out n mem =
     do { xData \<leftarrow> ptrToFloat32Slice x n; outData \<leftarrow> ptrToFloat32Slice out n; map_loop f xData outData n mem }"

definition binary_kernel :: "(f32 \<Rightarrow> f32 \<Rightarrow> f32) \<Rightarrow> DevicePtr \<Rightarrow> DevicePtr \<Rightarrow> DevicePtr \<Rightarrow> nat \<Rightarrow> mem \<Rightarrow> mem option" where
  "binary_kernel f x y out n mem =
     do { xData \<leftarrow> ptrToFloat32Slice x n; yData \<leftarrow> ptrToFloat32Slice y n; outData \<leftarrow> ptrToFloat32Slice out n;
          map2_loop f xData yData outData n mem }"

definition CPUBackend_SiLU where "CPUBackend_SiLU cm x out n = unary_kernel (silu_value cm) x out n"

definition CPUBackend_SiLUMul where
  "CPUBackend_SiLUMul cm gate up out n = binary_kernel (\<lambda>g u. f32_mul (silu_value cm g) u) gate up out n"

definition CPUBackend_GELU where "CPUBackend_GELU cm x out n = unary_kernel (gelu_value cm) x out n"

definition CPUBackend_GELUMul where
  "CPUBackend_GELUMul cm gate up out n = binary_kernel (\<lambda>g u. f32_mul (gelu_value cm g) u) gate up out n"

definition CPUBackend_Add where "CPUBackend_Add a b out n = binary_kernel f32_add a b out n"

definition CPUBackend_Mul where "CPUBackend_Mul a b out n = binary_kernel f32_mul a b out n"

definition CPUBackend_ScaleBuffer where
  "CPUBackend_ScaleBuffer buf scale n mem =
     do { data \<leftarrow> ptrToFloat32Slice buf n; map_loop (\<lambda>v. f32_mul v scale) data data n mem }"

definition cpuBackend_SiLU where "cpuBackend_SiLU cm x out n = map_loop (silu_value cm) x out n"

definition CPUBackend_AddBias where
  "CPUBackend_AddBias x bias out rows cols mem =
     do { xData \<leftarrow> ptrToFloat32Slice x (rows * cols);
          biasData \<leftarrow> ptrToFloat32Slice bias cols;
          outData \<leftarrow> ptrToFloat32Slice out (rows * cols);
          foldM (\<lambda>i. foldM (\<lambda>j m. do { v \<leftarrow> rd m xData (i * cols + j); b \<leftarrow> rd m biasData j;
                                      wr outData (i * cols + j) (f32_add v b) m }) [0..<cols]) [0..<rows] mem }"

section \<open>Embedding\<close>

text \<open>\<open>copy\<close> of one slice of floats over another.\<close>

definition copy_floats :: "fslice \<Rightarrow> fslice \<Rightarrow> mem \<Rightarrow> mem option" where
  "copy_floats dst src mem =
     foldM (\<lambda>i. wr dst i (ldf mem src i)) [0..<min (fs_len dst) (fs_len src)] mem"

definition CPUBackend_Embedding where
  "CPUBackend_Embedding ids numTokens table out vocabSize dim mem =
     do { idsData \<leftarrow> (let a = uint (DevicePtr_Addr ids) in
                      if (a = 0 \<and> numTokens > 0) \<or> a + 4 * int numTokens > 2 ^ 64 then None else Some a);
          tableData \<leftarrow> ptrToFloat32Slice table (vocabSize * dim);
          outData \<leftarrow> ptrToFloat32Slice out (numTokens * dim);
          foldM (\<lambda>i m.
            let t = sint (ld32 m (idsData + 4 * int i)) in
            if t < 0 \<or> t \<ge> int vocabSize then Some m
            else do { dst \<leftarrow> sub outData (i * dim) ((i + 1) * dim);
                      src \<leftarrow> sub tableData (nat t * dim) ((nat t + 1) * dim);
                      copy_floats dst src m }) [0..<numTokens] mem }"

definition cpuBackend_Embedding where
  "cpuBackend_Embedding ids table out dim mem =
     foldM (\<lambda>(i, t) m.
       if t * int dim < 0 \<or> t * int dim + int dim > int (fs_len table) then Some m
       else do { src \<leftarrow> sub table (nat t * dim) (nat t * dim + dim);
                 dst \<leftarrow> sub out (i * dim) ((i + 1) * dim);
                 copy_floats dst src m }) (zip [0..<length ids] ids) mem"

section \<open>Softmax\<close>

definition max_floats :: "mem \<Rightarrow> fslice \<Rightarrow> f32 option" where
  "max_floats mem row =
     do { v0 \<leftarrow> rd mem row 0;
          foldM (\<lambda>j mx. do { v \<leftarrow> rd mem row j; Some (if f32_less mx v then v else mx) }) [0..<fs_len row] v0 }"

definition softmax_row :: "CpuMath \<Rightarrow> fslice \<Rightarrow> fslice \<Rightarrow> nat \<Rightarrow> nat \<Rightarrow> mem \<Rightarrow> mem option" where
  "softmax_row cm x out cols i mem =
     do { row \<leftarrow> sub x (i * cols) (i * cols + cols);
          outRow \<leftarrow> sub out (i * cols) (i * cols + cols);
          maxVal \<leftarrow> max_floats mem row;
          (mem1, sum) \<leftarrow> foldM (\<lambda>j (m, s). do { v \<leftarrow> rd m row j; let e = cm_exp cm (f32_sub v maxVal);
                                              m' \<leftarrow> wr outRow j e m; Some (m', f32_add s e) }) [0..<cols] (mem, 0);
          map_loop (\<lambda>v. f32_mul v (f32_div f32_one sum)) outRow outRow cols mem1 }"

definition cpuBackend_Softmax where
  "cpuBackend_Softmax cm x out rows cols mem = foldM (softmax_row cm x out cols) [0..<rows] mem"

definition CPUBackend_Softmax where
  "CPUBackend_Softmax cm x out rows cols mem =
     do { xData \<leftarrow> ptrToFloat32Slice x (rows * cols);
          outData \<leftarrow> ptrToFloat32Slice out (rows * cols);
          cpuBackend_Softmax cm xData outData rows cols mem }"

section \<open>Attention\<close>

text \<open>The softmax of the scores, a slice that only the kernel knows.\<close>

definition softmax_scores :: "CpuMath \<Rightarrow> f32 list \<Rightarrow> f32 list option" where
  "softmax_scores cm scores =
     (case scores of [] \<Rightarrow> None
      | s0 # ss \<Rightarrow>
          let maxScore = foldl (\<lambda>mx s. if f32_less mx s then s else mx) s0 scores;
              exps = map (\<lambda>s. cm_exp cm (f32_sub s maxScore)) scores;
              invSum = f32_div f32_one (foldl f32_add 0 exps)
          in Some (map (\<lambda>e. f32_mul e invSum) exps))"

text \<open>
  One head of one query over the \<open>n\<close> positions whose vectors start at \<open>off pos\<close>; \<open>score\<close> is what a kernel does with
  the product of a query and a key.
\<close>

definition attend_head :: "CpuMath \<Rightarrow> (f32 \<Rightarrow> f32) \<Rightarrow> fslice \<Rightarrow> fslice \<Rightarrow> fslice \<Rightarrow> fslice \<Rightarrow> (nat \<Rightarrow> nat) \<Rightarrow> nat \<Rightarrow> nat \<Rightarrow> mem \<Rightarrow> mem option" where
  "attend_head cm score qHead outHead kData vData off n headDim mem =
     do { scores \<leftarrow> those (map (\<lambda>pos. do { kVec \<leftarrow> sub kData (off pos) (off pos + headDim);
                                          dot \<leftarrow> dot_loop (cm_fma cm) mem qHead (\<lambda>d. d) kVec (\<lambda>d. d) headDim;
                                          Some (score dot) }) [0..<n]);
          weights \<leftarrow> softmax_scores cm scores;
          mem1 \<leftarrow> foldM (\<lambda>d. wr outHead d 0) [0..<headDim] mem;
          foldM (\<lambda>(pos, weight) m.
            do { vVec \<leftarrow> sub vData (off pos) (off pos + headDim);
                 foldM (\<lambda>d m. do { o1 \<leftarrow> rd m outHead d; v \<leftarrow> rd m vVec d;
                                   wr outHead d (f32_mul_add (cm_fma cm) weight v o1) m }) [0..<headDim] m })
            (zip [0..<n] weights) mem1 }"

definition plain_score :: "f32 \<Rightarrow> f32 \<Rightarrow> f32" where
  "plain_score scale dot = f32_mul dot scale"

definition capped_score :: "CpuMath \<Rightarrow> f32 \<Rightarrow> f32 \<Rightarrow> f32 \<Rightarrow> f32" where
  "capped_score cm scale softcap dot =
     (let score = f32_mul dot scale
      in if f32_less 0 softcap then f32_mul softcap (cm_tanh cm (f32_div score softcap)) else score)"

text \<open>Decoding: one query, keys and values in a cache with a row of positions per head.\<close>

definition decode_slices where
  "decode_slices cm score q k v out kvLen numQHeads numKVHeads headDim kvHeadStride mem =
     do { headsPerKV \<leftarrow> ndiv numQHeads numKVHeads;
          foldM (\<lambda>h m.
            do { kvHead \<leftarrow> ndiv h headsPerKV;
                 qHead \<leftarrow> sub q (h * headDim) (h * headDim + headDim);
                 outHead \<leftarrow> sub out (h * headDim) (h * headDim + headDim);
                 attend_head cm score qHead outHead k v (\<lambda>pos. kvHead * kvHeadStride + pos * headDim) kvLen headDim m })
            [0..<numQHeads] mem }"

definition cpuBackend_SDPA where
  "cpuBackend_SDPA cm q k v out kvLen numQHeads numKVHeads headDim scale kvHeadStride mem =
     decode_slices cm (plain_score scale) q k v out kvLen numQHeads numKVHeads headDim kvHeadStride mem"

definition decode_kernel where
  "decode_kernel cm score q k v out kvLen numQHeads numKVHeads headDim kvHeadStride mem =
     do { qData \<leftarrow> ptrToFloat32Slice q (numQHeads * headDim);
          kData \<leftarrow> ptrToFloat32Slice k (numKVHeads * kvHeadStride);
          vData \<leftarrow> ptrToFloat32Slice v (numKVHeads * kvHeadStride);
          outData \<leftarrow> ptrToFloat32Slice out (numQHeads * headDim);
          decode_slices cm score qData kData vData outData kvLen numQHeads numKVHeads headDim kvHeadStride mem }"

definition CPUBackend_SDPA where
  "CPUBackend_SDPA cm q k v out kvLen numQHeads numKVHeads headDim scale kvHeadStride mem =
     decode_kernel cm (plain_score scale) q k v out kvLen numQHeads numKVHeads headDim kvHeadStride mem"

definition CPUBackend_SDPASoftCap where
  "CPUBackend_SDPASoftCap cm q k v out kvLen numQHeads numKVHeads headDim scale softcap kvHeadStride mem =
     decode_kernel cm (capped_score cm scale softcap) q k v out kvLen numQHeads numKVHeads headDim kvHeadStride mem"

text \<open>Prefill: the queries, keys and values of a position together; a query attends to the positions up to its own.\<close>

definition prefill_slices where
  "prefill_slices cm score q k v out seqLen numQHeads numKVHeads headDim mem =
     do { headsPerKV \<leftarrow> ndiv numQHeads numKVHeads;
          foldM (\<lambda>qPos. foldM (\<lambda>h m.
            do { kvHead \<leftarrow> ndiv h headsPerKV;
                 let qOffset = qPos * numQHeads * headDim + h * headDim;
                 qHead \<leftarrow> sub q qOffset (qOffset + headDim);
                 outHead \<leftarrow> sub out qOffset (qOffset + headDim);
                 attend_head cm score qHead outHead k v (\<lambda>kPos. kPos * numKVHeads * headDim + kvHead * headDim)
                   (qPos + 1) headDim m })
            [0..<numQHeads]) [0..<seqLen] mem }"

definition prefill_kernel where
  "prefill_kernel cm score q k v out seqLen numQHeads numKVHeads headDim mem =
     do { qData \<leftarrow> ptrToFloat32Slice q (seqLen * numQHeads * headDim);
          kData \<leftarrow> ptrToFloat32Slice k (seqLen * numKVHeads * headDim);
          vData \<leftarrow> ptrToFloat32Slice v (seqLen * numKVHeads * headDim);
          outData \<leftarrow> ptrToFloat32Slice out (seqLen * numQHeads * headDim);
          prefill_slices cm score qData kData vData outData seqLen numQHeads numKVHeads headDim mem }"

definition CPUBackend_SDPAPrefill where
  "CPUBackend_SDPAPrefill cm q k v out seqLen numQHeads numKVHeads headDim scale mem =
     prefill_kernel cm (plain_score scale) q k v out seqLen numQHeads numKVHeads headDim mem"

definition CPUBackend_SDPAPrefillSoftCap where
  "CPUBackend_SDPAPrefillSoftCap cm q k v out seqLen numQHeads numKVHeads headDim scale softcap mem =
     prefill_kernel cm (capped_score cm scale softcap) q k v out seqLen numQHeads numKVHeads headDim mem"

section \<open>Quantized products\<close>

definition CPUBackend_float16ToFloat32 :: "16 word \<Rightarrow> f32 option" where
  "CPUBackend_float16ToFloat32 h =
     (let sign = (ucast (drop_bit 15 h AND 1) :: 32 word);
          exp = (ucast (drop_bit 10 h AND 0x1F) :: 32 word);
          frac = (ucast (h AND 0x3FF) :: 32 word);
          pack = (\<lambda>frac exp. push_bit 31 sign OR push_bit 23 (exp + (127 - 15)) OR push_bit 13 frac)
      in if exp = 0 then
           (if frac = 0 then Some (push_bit 31 sign)
            else do { (frac', exp') \<leftarrow> denorm_loop frac 1; Some (pack (frac' AND 0x3FF) exp') })
         else if exp = 31 then
           (if frac = 0 then Some (push_bit 31 sign OR 0x7F800000)
            else Some (push_bit 31 sign OR 0x7FC00000 OR push_bit 13 frac))
         else Some (pack frac exp))"

definition ptrToByteSlice :: "DevicePtr \<Rightarrow> nat \<Rightarrow> (int \<times> nat) option" where
  "ptrToByteSlice p n =
     (if DevicePtr_IsNil p then Some (0, 0)
      else if uint (DevicePtr_Addr p) + int n \<le> 2 ^ 64 then Some (uint (DevicePtr_Addr p), n) else None)"

definition rd_byte :: "mem \<Rightarrow> int \<times> nat \<Rightarrow> nat \<Rightarrow> byte option" where
  "rd_byte m s i = (if i < snd s then Some (m (fst s + int i)) else None)"

text \<open>The contribution of one block of weights to the sum of an element.\<close>

definition q4_0_block_sum :: "bool \<Rightarrow> mem \<Rightarrow> fslice \<Rightarrow> int \<times> nat \<Rightarrow> nat \<Rightarrow> nat \<Rightarrow> f32 \<Rightarrow> f32 option" where
  "q4_0_block_sum fma m aRow bRaw bRowOffset blk s =
     (let blockOffset = bRowOffset + blk * 18; baseIdx = blk * 32
      in do { b0 \<leftarrow> rd_byte m bRaw blockOffset;
              b1 \<leftarrow> rd_byte m bRaw (blockOffset + 1);
              scale \<leftarrow> CPUBackend_float16ToFloat32 (ucast b0 OR push_bit 8 (ucast b1));
              foldM (\<lambda>byteI s.
                do { byteVal \<leftarrow> rd_byte m bRaw (blockOffset + 2 + byteI);
                     let dequantLow = f32_mul (f32_of_int (uint (byteVal AND 0x0F) - 8)) scale;
                     aLow \<leftarrow> rd m aRow (baseIdx + byteI);
                     let s1 = f32_mul_add fma aLow dequantLow s;
                     let dequantHigh = f32_mul (f32_of_int (uint (drop_bit 4 byteVal AND 0x0F) - 8)) scale;
                     aHigh \<leftarrow> rd m aRow (baseIdx + byteI + 16);
                     Some (f32_mul_add fma aHigh dequantHigh s1) }) [0..<16] s })"

definition CPUBackend_MatMulQ4_0 where
  "CPUBackend_MatMulQ4_0 cm sched ncpu a bQ4 out m n k mem =
     do { aData \<leftarrow> ptrToFloat32Slice a (m * k);
          outData \<leftarrow> ptrToFloat32Slice out (m * n);
          bRaw \<leftarrow> ptrToByteSlice bQ4 (n * k div 32 * 18);
          let blocksPerRow = k div 32;
          parallel_rows sched ncpu m n
            (\<lambda>i j mem. do { aRow \<leftarrow> sub aData (i * k) ((i + 1) * k);
                            foldM (q4_0_block_sum (cm_fma cm) mem aRow bRaw (j * blocksPerRow * 18)) [0..<blocksPerRow] 0 })
            outData mem }"

text \<open>The other formats are left to the GPU: these calls panic.\<close>

definition CPUBackend_MatMulQ6_K :: "DevicePtr \<Rightarrow> DevicePtr \<Rightarrow> DevicePtr \<Rightarrow> nat \<Rightarrow> nat \<Rightarrow> nat \<Rightarrow> mem \<Rightarrow> mem option" where
  "CPUBackend_MatMulQ6_K a b out m n k mem = None"
definition CPUBackend_MatMulQ4_K :: "DevicePtr \<Rightarrow> DevicePtr \<Rightarrow> DevicePtr \<Rightarrow> nat \<Rightarrow> nat \<Rightarrow> nat \<Rightarrow> mem \<Rightarrow> mem option" where
  "CPUBackend_MatMulQ4_K a b out m n k mem = None"
definition CPUBackend_MatMulQ5_K :: "DevicePtr \<Rightarrow> DevicePtr \<Rightarrow> DevicePtr \<Rightarrow> nat \<Rightarrow> nat \<Rightarrow> nat \<Rightarrow> mem \<Rightarrow> mem option" where
  "CPUBackend_MatMulQ5_K a b out m n k mem = None"
definition CPUBackend_MatMulQ5_0 :: "DevicePtr \<Rightarrow> DevicePtr \<Rightarrow> DevicePtr \<Rightarrow> nat \<Rightarrow> nat \<Rightarrow> nat \<Rightarrow> mem \<Rightarrow> mem option" where
  "CPUBackend_MatMulQ5_0 a b out m n k mem = None"
definition CPUBackend_MatMulQ8_0 :: "DevicePtr \<Rightarrow> DevicePtr \<Rightarrow> DevicePtr \<Rightarrow> nat \<Rightarrow> nat \<Rightarrow> nat \<Rightarrow> mem \<Rightarrow> mem option" where
  "CPUBackend_MatMulQ8_0 a b out m n k mem = None"
definition CPUBackend_MatMulBF16 :: "DevicePtr \<Rightarrow> DevicePtr \<Rightarrow> DevicePtr \<Rightarrow> nat \<Rightarrow> nat \<Rightarrow> nat \<Rightarrow> mem \<Rightarrow> mem option" where
  "CPUBackend_MatMulBF16 a b out m n k mem = None"

end
