(* ===== verification/Cpu_Props.thy ===== *)
theory Cpu_Props
  imports Cpu_Kernels Dequant_Values
begin

text \<open>
  What the kernels of the CPU compute: matrix products under every order of the workers, products with Q4_0
  weights, attention in decoding and in prefill, and rotary embeddings.
\<close>

section \<open>Dot products\<close>

definition dot_value :: "bool \<Rightarrow> f32 list \<Rightarrow> f32 list \<Rightarrow> f32" where
  "dot_value fma xs ys = foldl (\<lambda>s (x, y). f32_mul_add fma x y s) 0 (zip xs ys)"

lemma foldM_pure: "(\<And>x s. x \<in> set xs \<Longrightarrow> f x s = Some (g s x)) \<Longrightarrow> foldM f xs s = Some (foldl g s xs)"
  by (induction xs arbitrary: s) auto

lemma foldl_zip_map: "foldl f s (zip (map g xs) (map h xs)) = foldl (\<lambda>s x. f s (g x, h x)) s xs"
  by (induction xs arbitrary: s) auto

lemma dot_loop_value:
  assumes "\<And>p. p < n \<Longrightarrow> ia p < fs_len a" and "\<And>p. p < n \<Longrightarrow> ib p < fs_len b"
  shows "dot_loop fma m a ia b ib n =
    Some (dot_value fma (map (\<lambda>p. ldf m a (ia p)) [0..<n]) (map (\<lambda>p. ldf m b (ib p)) [0..<n]))"
  unfolding dot_loop_def dot_value_def foldl_zip_map by (rule foldM_pure) (simp add: assms)

section \<open>Workers\<close>

text \<open>The ranges of the workers cover the rows, and their tasks the elements.\<close>

lemma worker_tasks_set: "set (worker_tasks n r) = {fst r..<snd r} \<times> {..<n}"
  by (auto simp: worker_tasks_def)

lemma worker_ranges_cover:
  assumes "0 < m" and "0 < ncpu"
  shows "\<exists>ws. worker_ranges ncpu m = Some ws \<and> (\<Union>r\<in>set ws. {fst r..<snd r}) = {..<m}"
proof -
  define nw where "nw = min m ncpu"
  define c where "c = (m + nw - 1) div nw"
  have nw: "0 < nw" and e: "(if m < ncpu then m else ncpu) = nw" using assms by (auto simp: nw_def)
  have "m \<le> nw * c"
  proof -
    have "m + nw - 1 < nw * c + nw" unfolding c_def using nw mod_less_divisor [of nw "m + nw - 1"]
      mult_div_mod_eq [of nw "m + nw - 1"] by linarith
    then show ?thesis using nw by simp
  qed
  then have c: "0 < c" using assms(1) by (cases c) auto
  have "i \<in> (\<Union>w\<in>{..<nw}. {w * c..<min (w * c + c) m})" if "i < m" for i
  proof -
    have "i div c < nw" using that \<open>m \<le> nw * c\<close> c by (simp add: less_mult_imp_div_less)
    moreover have "i div c * c \<le> i" "i < i div c * c + c"
      using c mod_less_divisor [of c i] div_mult_mod_eq [of i c] by linarith+
    ultimately show ?thesis using that by fastforce
  qed
  then have "(\<Union>w\<in>{..<nw}. {w * c..<min (w * c + c) m}) = {..<m}" by auto
  moreover have "worker_ranges ncpu m = Some (map (\<lambda>w. (w * c, min (w * c + c) m)) [0..<nw])"
    using nw by (simp add: worker_ranges_def e ndiv_def c_def)
  ultimately show ?thesis by (simp add: atLeast0LessThan)
qed

lemma zero_all_wrote: "\<exists>m'. zero_all out m = Some m' \<and> wrote out {..<fs_len out} (\<lambda>i. 0) m m'"
  using wrote_each [of "[0..<fs_len out]" out "\<lambda>i. 0" m "\<lambda>i. wr out i 0"]
  by (simp add: zero_all_def atLeast0LessThan)

text \<open>
  The rows of a product: whatever the order in which the workers' elements are written, every element gets its
  value and nothing else is changed, as long as the values do not depend on the output.
\<close>

lemma parallel_rows_wrote:
  assumes "0 < m" and "0 < ncpu" and "fs_len out = m * n"
    and sched: "\<And>ws. mset (sched ws) = mset (concat ws)"
    and elem: "\<And>i j K g m1. i < m \<Longrightarrow> j < n \<Longrightarrow> K \<subseteq> {..<m * n} \<Longrightarrow> wrote out K g mem m1 \<Longrightarrow>
      elem i j m1 = Some (f (i * n + j))"
  shows "\<exists>m'. parallel_rows sched ncpu m n elem out mem = Some m' \<and> wrote out {..<m * n} f mem m'"
proof -
  obtain m1 where m1: "zero_all out mem = Some m1" "wrote out {..<m * n} (\<lambda>i. 0) mem m1"
    using zero_all_wrote [of out mem] assms(3) by auto
  obtain ws where ws: "worker_ranges ncpu m = Some ws" "(\<Union>r\<in>set ws. {fst r..<snd r}) = {..<m}"
    using worker_ranges_cover [OF assms(1,2)] by blast
  let ?ts = "sched (map (worker_tasks n) ws)"
  have "set ?ts = set (concat (map (worker_tasks n) ws))" using sched by (metis set_mset_mset)
  also have "\<dots> = (\<Union>r\<in>set ws. {fst r..<snd r}) \<times> {..<n}" by (auto simp: worker_tasks_set)
  finally have ts: "set ?ts = {..<m} \<times> {..<n}" using ws(2) by simp
  have pos: "i * n + j < m * n" if "i < m" "j < n" for i j
  proof -
    have "i * n + j < (i + 1) * n" using that by simp
    also have "\<dots> \<le> m * n" using that by (intro mult_le_mono1) simp
    finally show ?thesis .
  qed
  have cover: "(\<Union>t\<in>set ?ts. {fst t * n + snd t}) = {..<m * n}"
  proof (intro equalityI subsetI)
    fix x assume "x \<in> {..<m * n}"
    then have x: "x < m * n" by simp
    then have "0 < n" by (cases n) auto
    then have "(x div n, x mod n) \<in> set ?ts" using x ts by (simp add: less_mult_imp_div_less)
    then show "x \<in> (\<Union>t\<in>set ?ts. {fst t * n + snd t})" by force
  qed (use pos ts in auto)
  have "\<exists>m2. foldM (\<lambda>(i, j) mem. do { v \<leftarrow> elem i j mem; wr out (i * n + j) v mem }) ?ts m1 = Some m2 \<and>
      wrote out (\<Union>t\<in>set ?ts. {fst t * n + snd t}) f m1 m2"
  proof (rule wrote_foldM_any)
    fix t m2 K assume t: "t \<in> set ?ts" and K: "K \<subseteq> (\<Union>t\<in>set ?ts. {fst t * n + snd t})" "wrote out K f m1 m2"
    have "t \<in> {..<m} \<times> {..<n}" using t ts by simp
    then obtain i j where ij: "t = (i, j)" "i < m" "j < n" by auto
    have "wrote out {..<m * n} (\<lambda>x. ldf m2 out x) mem m2"
      using K(1) K(2) m1(2) unfolding cover by (rule wrote_twice)
    then have "elem i j m2 = Some (f (i * n + j))" using elem ij by blast
    then show "\<exists>m3. (case t of (i, j) \<Rightarrow> \<lambda>mem. do { v \<leftarrow> elem i j mem; wr out (i * n + j) v mem }) m2 = Some m3 \<and>
        wrote out {fst t * n + snd t} f m2 m3"
      using ij pos [of i j] assms(3) by (auto intro: wrote_wr)
  qed
  then obtain m2 where m2: "foldM (\<lambda>(i, j) mem. do { v \<leftarrow> elem i j mem; wr out (i * n + j) v mem }) ?ts m1 = Some m2"
    "wrote out {..<m * n} f m1 m2" unfolding cover by blast
  show ?thesis using m1(1) ws(1) m2(1) wrote_again [OF m1(2) m2(2)] by (simp add: parallel_rows_def)
qed

text \<open>The floats of a slice from an offset on, and a pointer to a region of \<open>n\<close> floats.\<close>

definition floats :: "mem \<Rightarrow> fslice \<Rightarrow> nat \<Rightarrow> nat \<Rightarrow> f32 list" where
  "floats m s off n = map (\<lambda>p. ldf m s (off + p)) [0..<n]"

definition at_ptr :: "DevicePtr \<Rightarrow> nat \<Rightarrow> fslice \<Rightarrow> bool" where
  "at_ptr p n s \<longleftrightarrow> ptrToFloat32Slice p n = Some s \<and> fs_len s = n"

lemma at_ptr_cap: "at_ptr p n s \<Longrightarrow> fs_cap s = n"
  by (auto simp: at_ptr_def ptrToFloat32Slice_def nil_fslice_def split: if_splits)

lemma row_bound: "i < m \<Longrightarrow> p < k \<Longrightarrow> i * k + p < m * (k :: nat)"
proof -
  assume "i < m" "p < k"
  then have "i * k + p < (i + 1) * k" by simp
  also have "\<dots> \<le> m * k" using \<open>i < m\<close> by (intro mult_le_mono1) simp
  finally show ?thesis .
qed


lemma product_rows:
  assumes "0 < m" and "0 < ncpu" and lens: "fs_len A = m * k" "fs_len C = m * n"
    and ib: "\<And>j p. j < n \<Longrightarrow> p < k \<Longrightarrow> ib j p < fs_len B"
    and ap: "apart C A" "apart C B" and sched: "\<And>ws. mset (sched ws) = mset (concat ws)"
  shows "\<exists>m'. parallel_rows sched ncpu m n (\<lambda>i j mem. dot_loop fma mem A (\<lambda>p. i * k + p) B (ib j) k) C mem = Some m' \<and>
    wrote C {..<m * n} (\<lambda>x. dot_value fma (floats mem A (x div n * k) k) (map (\<lambda>p. ldf mem B (ib (x mod n) p)) [0..<k])) mem m'"
proof (rule parallel_rows_wrote [OF assms(1,2) lens(2) sched])
  fix i j K g m1 assume ij: "i < m" "j < n" and K: "K \<subseteq> {..<m * n}" "wrote C K g mem m1"
  have A: "map (\<lambda>p. ldf m1 A (i * k + p)) [0..<k] = floats mem A (i * k) k"
    using wrote_apart [OF K(2) _ ap(1)] K(1) lens ij by (simp add: floats_def row_bound)
  have B: "map (\<lambda>p. ldf m1 B (ib j p)) [0..<k] = map (\<lambda>p. ldf mem B (ib j p)) [0..<k]"
    using wrote_apart [OF K(2) _ ap(2)] K(1) lens ib ij by simp
  have "dot_loop fma m1 A (\<lambda>p. i * k + p) B (ib j) k =
      Some (dot_value fma (map (\<lambda>p. ldf m1 A (i * k + p)) [0..<k]) (map (\<lambda>p. ldf m1 B (ib j p)) [0..<k]))"
    using lens ij ib by (intro dot_loop_value) (simp_all add: row_bound)
  moreover have "(i * n + j) div n = i" "(i * n + j) mod n = j" using ij by simp_all
  ultimately show "dot_loop fma m1 A (\<lambda>p. i * k + p) B (ib j) k =
      Some (dot_value fma (floats mem A ((i * n + j) div n * k) k) (map (\<lambda>p. ldf mem B (ib ((i * n + j) mod n) p)) [0..<k]))"
    unfolding A B by simp
qed

text \<open>The two products: the second matrix is read along its columns, or along its rows.\<close>

lemma matMulNaive_elements:
  assumes "0 < m" and "0 < ncpu" and at: "at_ptr a (m * k) A" "at_ptr bMat (k * n) B" "at_ptr out (m * n) C"
    and "apart C A" "apart C B" and "\<And>ws. mset (sched ws) = mset (concat ws)"
  shows "\<exists>m'. matMulNaive cm sched ncpu a bMat out m n k mem = Some m' \<and>
    wrote C {..<m * n} (\<lambda>x. dot_value (cm_fma cm) (floats mem A (x div n * k) k)
      (map (\<lambda>p. ldf mem B (p * n + x mod n)) [0..<k])) mem m'"
  using product_rows [where ib = "\<lambda>j p. p * n + j" and B = B, OF assms(1,2) _ _ _ assms(6,7,8)] at
  by (simp add: matMulNaive_def cpuBackend_Matmul_def at_ptr_def row_bound)

lemma matMulTransposedNaive_elements:
  assumes "0 < m" and "0 < ncpu" and at: "at_ptr a (m * k) A" "at_ptr bMat (n * k) B" "at_ptr out (m * n) C"
    and "apart C A" "apart C B" and "\<And>ws. mset (sched ws) = mset (concat ws)"
  shows "\<exists>m'. matMulTransposedNaive cm sched ncpu a bMat out m n k mem = Some m' \<and>
    wrote C {..<m * n} (\<lambda>x. dot_value (cm_fma cm) (floats mem A (x div n * k) k) (floats mem B (x mod n * k) k)) mem m'"
  using product_rows [where ib = "\<lambda>j p. j * k + p" and B = B, OF assms(1,2) _ _ _ assms(6,7,8)] at
  by (simp add: matMulTransposedNaive_def cpuBackend_MatmulTransposeB_def at_ptr_def row_bound floats_def)

text \<open>
  C16: A matrix product with transposed weights, for every number of workers and every interleaving of their
  writes: element \<open>(i, j)\<close> of the output is the sum over \<open>p\<close>, in order, of row \<open>i\<close> of the input times row \<open>j\<close>
  of the weights, and no other byte changes.
\<close>

theorem MatMulTransposed_any_schedule:
  assumes "0 < m" and "0 < ncpu" and "at_ptr a (m * k) A" and "at_ptr bMat (n * k) B" and "at_ptr out (m * n) C"
    and "apart C A" and "apart C B" and "\<And>ws. mset (sched ws) = mset (concat ws)"
  shows "\<exists>m'. CPUBackend_MatMulTransposed None cm sched ncpu a bMat out m n k mem = Some m' \<and>
    wrote C {..<m * n} (\<lambda>x. dot_value (cm_fma cm) (floats mem A (x div n * k) k) (floats mem B (x mod n * k) k)) mem m'"
  using matMulTransposedNaive_elements [OF assms] by (simp add: CPUBackend_MatMulTransposed_def)

definition demo_slice :: "int \<Rightarrow> nat \<Rightarrow> fslice" where
  "demo_slice a n = \<lparr>fs_addr = a, fs_len = n, fs_cap = n\<rparr>"

lemma demo_at_ptr:
  assumes "0 < a" and "a + 4 * int n < 2 ^ 64"
  shows "at_ptr (NewDevicePtr CPU (word_of_int a)) n (demo_slice a n)"
proof -
  have "a mod 2 ^ 64 = a" using assms by (intro mod_pos_pos_trivial) auto
  then have u: "uint (word_of_int a :: 64 word) = a" by (simp add: uint_word_of_int)
  then have "(word_of_int a :: 64 word) \<noteq> 0" using assms by (metis less_irrefl unsigned_0)
  then show ?thesis using assms u by (simp add: at_ptr_def ptrToFloat32Slice_def demo_slice_def ptr_defs)
qed

lemma mset_concat_rev: "mset (concat (rev ws)) = mset (concat ws)"
  by (induction ws) simp_all

text \<open>A concrete memory and machine for the examples.\<close>

definition demo_mem :: mem where
  "demo_mem a = word_of_int (a * a)"

definition demo_math :: CpuMath where
  "demo_math = \<lparr>cm_fma = False, cm_sub = FuseNone, cm_add = FuseNone, cm_exp = id, cm_sqrt = id, cm_tanh = id,
     cm_cos = id, cm_sin = id, cm_freq = (\<lambda>theta e d. word_of_nat (e + d))\<rparr>"

theorem MatMulTransposed_any_schedule_witness:
  "\<exists>m'. CPUBackend_MatMulTransposed None demo_math (\<lambda>ws. concat (rev ws)) 2 (NewDevicePtr CPU (word_of_int 64))
      (NewDevicePtr CPU (word_of_int 128)) (NewDevicePtr CPU (word_of_int 192)) 2 3 4 demo_mem = Some m' \<and>
    wrote (demo_slice 192 6) {..<6} (\<lambda>x. dot_value (cm_fma demo_math) (floats demo_mem (demo_slice 64 8) (x div 3 * 4) 4)
      (floats demo_mem (demo_slice 128 12) (x mod 3 * 4) 4)) demo_mem m'"
  using MatMulTransposed_any_schedule [of 2 2 "NewDevicePtr CPU (word_of_int 64)" 4 "demo_slice 64 8"
      "NewDevicePtr CPU (word_of_int 128)" 3 "demo_slice 128 12" "NewDevicePtr CPU (word_of_int 192)" "demo_slice 192 6"
      "\<lambda>ws. concat (rev ws)" demo_math demo_mem]
    demo_at_ptr [of 64 8] demo_at_ptr [of 128 12] demo_at_ptr [of 192 6]
  by (simp add: apart_def elem_addr_def demo_slice_def mset_concat_rev)

section \<open>Products with Q4_0 weights\<close>

text \<open>The conversion of half-precision floats is that of the GGUF reader, but for making a NaN quiet.\<close>

lemma denorm_loop_shift:
  assumes "0 < m" and "m < 2 ^ 11"
  shows "\<exists>j. \<forall>e. denorm_loop (word_of_int m) e = Some (word_of_int (m * 2 ^ j), e - word_of_int (int j))"
proof -
  obtain j0 where j0: "j0 \<le> 10" "2 ^ 10 \<le> m * 2 ^ j0" "m * 2 ^ j0 < 2 ^ 11" using denorm_loop_returns [OF assms, of 0] by blast
  have "j = j0" if j: "2 ^ 10 \<le> m * 2 ^ j" "m * 2 ^ j < 2 ^ 11" for j
  proof (rule linorder_cases [of j j0])
    have up: "2 ^ 11 \<le> m * 2 ^ b" if "a < b" "2 ^ 10 \<le> m * 2 ^ a" for a b :: nat
    proof -
      have "m * 2 ^ a * 2 \<le> m * 2 ^ b"
        using that(1) assms(1) power_increasing [of "Suc a" b "2 :: int"] by (simp add: mult.commute mult.left_commute)
      then show ?thesis using that(2) by simp
    qed
    show "j = j0" if "j < j0" using up [OF that j(1)] j0 by simp
    show "j = j0" if "j0 < j" using up [OF that j0(2)] j by simp
  qed
  then show ?thesis using denorm_loop_returns [OF assms] by metis
qed

lemma quiet_nan: "f32_nan (push_bit 31 s OR 0x7FC00000 OR v)" for s v :: f32
proof -
  have "take_bit 31 (push_bit 31 s OR 0x7FC00000 OR v) = (0x7FC00000 OR take_bit 31 v :: f32)"
    by (simp add: take_bit_push_bit)
  moreover have "(0x7FC00000 :: f32) \<le> 0x7FC00000 OR take_bit 31 v" by (rule le_word_or2)
  ultimately have "unat (0x7FC00000 :: f32) \<le> f32_mag (push_bit 31 s OR 0x7FC00000 OR v)"
    by (simp only: f32_mag_def word_le_nat_alt)
  then show ?thesis by (simp add: f32_nan_def)
qed

lemma cpu_half_eq:
  "\<exists>x. CPUBackend_float16ToFloat32 h = Some x \<and> (x = f32_of_f16 h \<or> f32_nan x \<and> f32_nan (f32_of_f16 h))"
proof -
  let ?e = "ucast (drop_bit 10 h AND 0x1F) :: 32 word" and ?f = "ucast (h AND 0x3FF) :: 32 word"
  note eq = float16ToFloat32_eq [of h] and b = half_bounds [of h]
  have zero: "?f = 0 \<longleftrightarrow> f16_frac h = 0" and inf: "?e = 31 \<longleftrightarrow> f16_exp h = 31"
    using small_word_eq [of "f16_frac h" 0] small_word_eq [of "f16_exp h" 31] b half_fields [of h] by simp_all
  note defs = CPUBackend_float16ToFloat32_def float16ToFloat32_def Let_def
  consider (special) "?e = 31" "?f \<noteq> 0" | (denorm) "?e = 0" "?f \<noteq> 0" | (zero) "?e = 0" "?f = 0" | (inf) "?e = 31" "?f = 0"
    | (normal) "?e \<noteq> 0" "?e \<noteq> 31" by blast
  then show ?thesis
  proof cases
    case denorm
    then obtain j where "\<And>e. denorm_loop ?f e = Some (word_of_int (f16_frac h * 2 ^ j), e - word_of_int (int j))"
      using denorm_loop_shift [of "f16_frac h"] b zero half_fields(3) [of h] by fastforce
    then have "CPUBackend_float16ToFloat32 h = float16ToFloat32 h" using denorm by (simp add: defs)
    then show ?thesis using eq by simp
  next
    case special
    have n: "\<not> f16_finite h" using special inf by (simp add: f16_finite_def)
    have "f32_nan (f32_of_f16 h)"
      using n b special zero by (simp add: f32_of_f16_def f32_nan_def f32_pack_parts)
    moreover have "CPUBackend_float16ToFloat32 h =
        Some (push_bit 31 (ucast (drop_bit 15 h AND 1)) OR 0x7FC00000 OR push_bit 13 ?f)"
      using special by (simp add: CPUBackend_float16ToFloat32_def)
    ultimately show ?thesis using quiet_nan by blast
  next
    case normal
    then show ?thesis using eq by (simp add: defs add.commute)
  qed (use eq in \<open>simp_all add: defs\<close>)
qed

text \<open>The bytes of the weights, and the order in which a kernel meets the elements of its blocks.\<close>

definition bytes_at :: "mem \<Rightarrow> int \<times> nat \<Rightarrow> byte list" where
  "bytes_at m r = map (\<lambda>i. m (fst r + int i)) [0..<snd r]"

definition q4_block_order :: "nat \<Rightarrow> nat list" where
  "q4_block_order blk = concat (map (\<lambda>c. [blk * 32 + c, blk * 32 + c + 16]) [0..<16])"

definition q4_dot :: "bool \<Rightarrow> f32 list \<Rightarrow> f32 list \<Rightarrow> f32" where
  "q4_dot fma xs ws =
     foldl (\<lambda>s p. f32_mul_add fma (xs ! p) (ws ! p) s) 0 (concat (map q4_block_order [0..<length xs div 32]))"

lemma foldl_concat: "foldl f s (concat xss) = foldl (\<lambda>s xs. foldl f s xs) s xss"
  by (induction xss arbitrary: s) auto

lemma f32_mul_commute: "f32_mul x y = f32_mul y x"
proof -
  have "(f32_neg x \<noteq> f32_neg y) = (f32_neg y \<noteq> f32_neg x)" by blast
  then show ?thesis unfolding f32_mul_def Let_def by (simp only: disj_commute mult.commute)
qed

lemma f32_mul_nan: "f32_nan x \<or> f32_nan y \<Longrightarrow> f32_mul x y = f32_qnan"
  by (auto simp: f32_mul_def Let_def)

lemma nth_block_bytes:
  assumes "(b + 1) * 18 \<le> snd r" and "c < 18"
  shows "nth_block 18 (bytes_at m r) b ! c = m (fst r + int (b * 18 + c))" and "rd_byte m r (b * 18 + c) = Some (m (fst r + int (b * 18 + c)))"
  using assms by (simp_all add: nth_block_def bytes_at_def rd_byte_def)

lemma q4_0_block_sum_value:
  assumes blk: "(b + 1) * 18 \<le> snd r" and row: "blk * 32 + 32 \<le> fs_len aRow" and off: "b * 18 = rowOff + blk * 18"
  shows "q4_0_block_sum fma m aRow r rowOff blk s =
    Some (foldl (\<lambda>s p. f32_mul_add fma (ldf m aRow p) (q4_0_elem (nth_block 18 (bytes_at m r) b) (p - blk * 32)) s) s (q4_block_order blk))"
proof -
  let ?B = "nth_block 18 (bytes_at m r) b"
  have rd0: "rd_byte m r (rowOff + blk * 18 + c) = Some (?B ! c)" if "c < 18" for c
    using nth_block_bytes [OF blk that] off by simp
  have rd: "rd_byte m r (rowOff + blk * 18) = Some (?B ! 0)" "rd_byte m r (rowOff + blk * 18 + 1) = Some (?B ! 1)"
    "rd_byte m r (rowOff + blk * 18 + 2 + c) = Some (?B ! (2 + c))" if "c < 16" for c
    using rd0 [of 0] rd0 [of 1] rd0 [of "2 + c"] that by (simp_all add: add.assoc)
  obtain scale where scale: "CPUBackend_float16ToFloat32 (ucast (?B ! 0) OR push_bit 8 (ucast (?B ! 1))) = Some scale"
    "scale = half_at ?B 0 \<or> f32_nan scale \<and> f32_nan (half_at ?B 0)"
  proof -
    have "(ucast (?B ! 0) OR push_bit 8 (ucast (?B ! 1)) :: 16 word) = word_of_int (byte_at ?B 0 + 2 ^ 8 * byte_at ?B 1)"
      unfolding ucast_eq byte_at_def by (rule word_or_push) (use uint_byte in simp_all)
    then show ?thesis using that cpu_half_eq unfolding half_at_def by (metis add_0)
  qed
  have mul: "f32_mul (f32_of_int n) scale = f32_mul (half_at ?B 0) (f32_of_int n)" for n
    using scale(2) by (auto simp: f32_mul_commute f32_mul_nan)
  have byte: "uint x div 16 mod 16 = uint x div 16" for x :: byte
    using uint_byte [of x] by (intro mod_pos_pos_trivial) (auto simp: div_int_pos_iff)
  have "foldM (\<lambda>byteI s. do { byteVal \<leftarrow> rd_byte m r (rowOff + blk * 18 + 2 + byteI);
              let dequantLow = f32_mul (f32_of_int (uint (byteVal AND 0x0F) - 8)) scale;
              aLow \<leftarrow> rd m aRow (blk * 32 + byteI);
              let s1 = f32_mul_add fma aLow dequantLow s;
              let dequantHigh = f32_mul (f32_of_int (uint (drop_bit 4 byteVal AND 0x0F) - 8)) scale;
              aHigh \<leftarrow> rd m aRow (blk * 32 + byteI + 16);
              Some (f32_mul_add fma aHigh dequantHigh s1) }) [0..<16] s =
      Some (foldl (\<lambda>s c. foldl (\<lambda>s p. f32_mul_add fma (ldf m aRow p) (q4_0_elem ?B (p - blk * 32)) s) s
        [blk * 32 + c, blk * 32 + c + 16]) s [0..<16])"
    using rd row by (intro foldM_pure) (simp add: mul byte_ops byte q4_0_elem_def byte_at_def Let_def)
  then show ?thesis
    using rd(1,2) [of 0] scale(1)
    by (simp add: q4_0_block_sum_def q4_block_order_def foldl_concat foldl_map Let_def)
qed

definition at_bytes :: "DevicePtr \<Rightarrow> nat \<Rightarrow> int \<times> nat \<Rightarrow> bool" where
  "at_bytes p n r \<longleftrightarrow> ptrToByteSlice p n = Some r \<and> snd r = n"

definition bytes_apart :: "fslice \<Rightarrow> int \<times> nat \<Rightarrow> bool" where
  "bytes_apart s r \<longleftrightarrow> elem_addr s (fs_len s) \<le> fst r \<or> fst r + int (snd r) \<le> fs_addr s"

lemma wrote_bytes_apart:
  assumes "wrote s I f m m'" and "I \<subseteq> {..<fs_len s}" and "bytes_apart s r"
  shows "bytes_at m' r = bytes_at m r"
proof -
  have "m' (fst r + int i) = m (fst r + int i)" if "i < snd r" for i
  proof (rule wrote_frame [OF assms(1)])
    fix j assume "j \<in> I"
    then have "j < fs_len s" using assms(2) by auto
    then show "\<not> in_elem s j (fst r + int i)"
      using assms(3) that by (auto simp: bytes_apart_def in_elem_def elem_addr_def)
  qed
  then show ?thesis by (simp add: bytes_at_def)
qed

lemma ldf_sub: "sub s lo hi = Some t \<Longrightarrow> ldf m t i = ldf m s (lo + i)"
  by (auto simp: sub_def ldf_def elem_addr_def algebra_simps split: if_splits)

text \<open>The sum of an element over all blocks of a row.\<close>

lemma q4_0_row_value:
  assumes k: "32 dvd k" and j: "j < n" and r: "snd r = n * k div 32 * 18" and row: "fs_len aRow = k"
    and W: "length W = n * k" "\<And>p. p < n * k \<Longrightarrow> W ! p = q4_0_elem (nth_block 18 (bytes_at m r) (p div 32)) (p mod 32)"
  shows "foldM (q4_0_block_sum fma m aRow r (j * (k div 32) * 18)) [0..<k div 32] 0 =
    Some (q4_dot fma (map (ldf m aRow) [0..<k]) (take k (drop (j * k) W)))"
proof -
  obtain q where q: "k = 32 * q" using k by (elim dvdE)
  have nq: "n * k div 32 = n * q" by (simp add: q)
  have jk: "j * k + k \<le> n * k" using j by (metis add.commute mult_Suc mult_le_mono1 Suc_leI)
  have step: "q4_0_block_sum fma m aRow r (j * (k div 32) * 18) blk s =
      Some (foldl (\<lambda>s p. f32_mul_add fma (map (ldf m aRow) [0..<k] ! p) (take k (drop (j * k) W) ! p) s) s (q4_block_order blk))"
    if "blk < q" for blk s
  proof -
    have "(j * q + blk + 1) \<le> n * q" using row_bound [OF j that] by simp
    then have b: "(j * q + blk + 1) * 18 \<le> snd r" unfolding r nq by (rule mult_le_mono1)
    have "ldf m aRow p = map (ldf m aRow) [0..<k] ! p \<and>
        q4_0_elem (nth_block 18 (bytes_at m r) (j * q + blk)) (p - blk * 32) = take k (drop (j * k) W) ! p"
      if "p \<in> set (q4_block_order blk)" for p
    proof -
      have p: "blk * 32 \<le> p" "p < blk * 32 + 32" using that by (auto simp: q4_block_order_def)
      then obtain d where d: "p = blk * 32 + d" "d < 32" by (metis le_iff_add nat_add_left_cancel_less)
      have "blk * 32 + 32 \<le> q * 32" using \<open>blk < q\<close> by simp
      then have pk: "p < k" using p by (simp add: q)
      have e: "j * k + p = d + 32 * (j * q + blk)" using d by (simp add: q algebra_simps)
      have "(j * k + p) div 32 = j * q + blk" unfolding e using d(2) by (subst div_mult_self2) simp_all
      moreover have "(j * k + p) mod 32 = d" unfolding e using d(2) by (simp only: mod_mult_self2 mod_less)
      moreover have "j * k \<le> length W" using W(1) jk by linarith
      then have "take k (drop (j * k) W) ! p = W ! (j * k + p)" using pk by simp
      ultimately show ?thesis using W(2) [of "j * k + p"] jk pk d(1) by (simp del: nth_take nth_drop)
    qed
    moreover have "blk * 32 + 32 \<le> fs_len aRow" using that by (simp add: row q)
    ultimately show ?thesis
      using q4_0_block_sum_value [OF b, of blk aRow "j * q * 18" fma m s]
      by (simp add: q add_mult_distrib cong: foldl_cong)
  qed
  have "foldM (q4_0_block_sum fma m aRow r (j * (k div 32) * 18)) [0..<q] 0 =
      Some (foldl (\<lambda>s blk. foldl (\<lambda>s p. f32_mul_add fma (map (ldf m aRow) [0..<k] ! p) (take k (drop (j * k) W) ! p) s) s
        (q4_block_order blk)) 0 [0..<q])"
    by (rule foldM_pure) (simp only: step atLeastLessThan_iff set_upt)
  then show ?thesis by (simp add: q4_dot_def foldl_concat foldl_map q)
qed

lemma q4_0_weights:
  assumes "32 dvd k" and "length data = n * k div 32 * 18"
  shows "Dequantize fma data TensorTypeQ4_0 (int (n * k)) =
    Some (map (\<lambda>p. q4_0_elem (nth_block 18 data (p div 32)) (p mod 32)) [0..<n * k])"
proof -
  obtain q where q: "k = 32 * q" using assms(1) by (elim dvdE)
  have "block_elem 32 18 q4_0_elem data p = q4_0_elem (nth_block 18 data (p div 32)) (p mod 32)" if "p < n * k" for p
  proof -
    have "p div 32 < n * q" using that by (simp add: q less_mult_imp_div_less algebra_simps)
    then have "(p div 32 + 1) * 18 \<le> n * q * 18" by (intro mult_le_mono1) simp
    then show ?thesis using assms(2) by (simp add: block_elem_def q)
  qed
  then show ?thesis
    unfolding Dequantize_values
    by (simp add: type_sizes format_elem_def)
qed

lemma MatMulQ4_0_elements:
  assumes "0 < m" and "0 < ncpu" and k: "32 dvd k" and at: "at_ptr a (m * k) A" "at_bytes bQ4 (n * k div 32 * 18) R"
      "at_ptr out (m * n) C"
    and ap: "apart C A" "bytes_apart C R" and sched: "\<And>ws. mset (sched ws) = mset (concat ws)"
  shows "\<exists>m' W. Dequantize fma (bytes_at mem R) TensorTypeQ4_0 (int (n * k)) = Some W \<and>
    CPUBackend_MatMulQ4_0 cm sched ncpu a bQ4 out m n k mem = Some m' \<and>
    wrote C {..<m * n} (\<lambda>x. q4_dot (cm_fma cm) (floats mem A (x div n * k) k) (take k (drop (x mod n * k) W))) mem m'"
proof -
  have lens: "fs_len A = m * k" "fs_len C = m * n" "snd R = n * k div 32 * 18" "fs_cap A = m * k"
    using at at_ptr_cap by (auto simp: at_ptr_def at_bytes_def)
  define W where "W = map (\<lambda>p. q4_0_elem (nth_block 18 (bytes_at mem R) (p div 32)) (p mod 32)) [0..<n * k]"
  have W: "Dequantize fma (bytes_at mem R) TensorTypeQ4_0 (int (n * k)) = Some W"
    unfolding W_def by (rule q4_0_weights [OF k]) (simp add: bytes_at_def lens)
  have "\<exists>m'. parallel_rows sched ncpu m n
      (\<lambda>i j mem. do { aRow \<leftarrow> sub A (i * k) ((i + 1) * k);
        foldM (q4_0_block_sum (cm_fma cm) mem aRow R (j * (k div 32) * 18)) [0..<k div 32] 0 }) C mem = Some m' \<and>
    wrote C {..<m * n} (\<lambda>x. q4_dot (cm_fma cm) (floats mem A (x div n * k) k) (take k (drop (x mod n * k) W))) mem m'"
  proof (rule parallel_rows_wrote [OF assms(1,2) lens(2) sched])
    fix i j K g m1 assume ij: "i < m" "j < n" and K: "K \<subseteq> {..<m * n}" "wrote C K g mem m1"
    have bytes: "bytes_at m1 R = bytes_at mem R" using wrote_bytes_apart [OF K(2) _ ap(2)] K(1) lens by simp
    have "(i + 1) * k \<le> m * k" using ij by (intro mult_le_mono1) simp
    then obtain aRow where row: "sub A (i * k) ((i + 1) * k) = Some aRow" "fs_len aRow = k"
      using lens by (simp add: sub_def)
    have "map (ldf m1 aRow) [0..<k] = floats mem A (i * k) k"
      using wrote_apart [OF K(2) _ ap(1)] K(1) lens ij ldf_sub [OF row(1)] by (simp add: floats_def row_bound)
    moreover have "foldM (q4_0_block_sum (cm_fma cm) m1 aRow R (j * (k div 32) * 18)) [0..<k div 32] 0 =
        Some (q4_dot (cm_fma cm) (map (ldf m1 aRow) [0..<k]) (take k (drop (j * k) W)))"
      by (rule q4_0_row_value [OF k ij(2) lens(3) row(2)]) (simp_all add: W_def bytes)
    ultimately show "do { aRow \<leftarrow> sub A (i * k) ((i + 1) * k);
        foldM (q4_0_block_sum (cm_fma cm) m1 aRow R (j * (k div 32) * 18)) [0..<k div 32] 0 } =
      Some (q4_dot (cm_fma cm) (floats mem A ((i * n + j) div n * k) k) (take k (drop ((i * n + j) mod n * k) W)))"
      using ij row(1) by simp
  qed
  then show ?thesis using W at by (simp add: CPUBackend_MatMulQ4_0_def at_ptr_def at_bytes_def Let_def)
qed

text \<open>
  C17: A product with Q4_0 weights multiplies by exactly the weights that \<open>Dequantize\<close> returns for the same bytes:
  the reader of the files and the kernel agree on every weight. The kernel adds the products of a block in the order of its
  bytes, the low and the high half in turn, for every number of workers and every interleaving of their writes.
\<close>

theorem MatMulQ4_0_uses_dequantized:
  assumes "0 < m" and "0 < ncpu" and k: "32 dvd k" and at: "at_ptr a (m * k) A" "at_bytes bQ4 (n * k div 32 * 18) R"
      "at_ptr out (m * n) C"
    and ap: "apart C A" "bytes_apart C R" and sched: "\<And>ws. mset (sched ws) = mset (concat ws)"
  shows "\<exists>m' W. Dequantize fma (bytes_at mem R) TensorTypeQ4_0 (int (n * k)) = Some W \<and>
    CPUBackend_MatMulQ4_0 cm sched ncpu a bQ4 out m n k mem = Some m' \<and>
    wrote C {..<m * n} (\<lambda>x. q4_dot (cm_fma cm) (floats mem A (x div n * k) k) (take k (drop (x mod n * k) W))) mem m'"
  by (rule MatMulQ4_0_elements [OF assms])

theorem MatMulQ4_0_uses_dequantized_witness:
  "\<exists>m' W. Dequantize False (bytes_at demo_mem (4096, 36)) 2 64 = Some W \<and>
    CPUBackend_MatMulQ4_0 demo_math (\<lambda>ws. concat (rev ws)) 4 (NewDevicePtr CPU (word_of_int 64))
      (NewDevicePtr CPU (word_of_int 4096)) (NewDevicePtr CPU (word_of_int 8192)) 3 2 32 demo_mem = Some m' \<and>
    wrote (demo_slice 8192 6) {..<6} (\<lambda>x. q4_dot (cm_fma demo_math) (floats demo_mem (demo_slice 64 96) (x div 2 * 32) 32)
      (take 32 (drop (x mod 2 * 32) W))) demo_mem m'"
  using MatMulQ4_0_uses_dequantized [of 3 4 32 "NewDevicePtr CPU (word_of_int 64)" "demo_slice 64 96"
      "NewDevicePtr CPU (word_of_int 4096)" 2 "(4096, 36)" "NewDevicePtr CPU (word_of_int 8192)" "demo_slice 8192 6"
      "\<lambda>ws. concat (rev ws)" False demo_mem demo_math]
    demo_at_ptr [of 64 96] demo_at_ptr [of 8192 6]
  by (simp add: apart_def bytes_apart_def elem_addr_def demo_slice_def mset_concat_rev at_bytes_def ptrToByteSlice_def ptr_defs)

section \<open>Empty inputs\<close>

text \<open>A product with no rows divides by its number of workers, 0, and panics.\<close>

lemma empty_product_panics:
  "matMulNaive cm sched ncpu a b out 0 n k mem = None"
  "matMulTransposedNaive cm sched ncpu a b out 0 n k mem = None"
  "CPUBackend_MatMulQ4_0 cm sched ncpu a b out 0 n k mem = None"
  by (auto simp: matMulNaive_def matMulTransposedNaive_def CPUBackend_MatMulQ4_0_def cpuBackend_Matmul_def
      cpuBackend_MatmulTransposeB_def parallel_rows_def worker_ranges_def ndiv_def Let_def split: Option.bind_splits)

end
