(* ===== verification/Cpu_Attention.thy ===== *)
theory Cpu_Attention
  imports Cpu_Props
begin

text \<open>
  Attention on the CPU: a head computes the values of \<open>attend_value\<close>, over the positions it is given; decoding
  over a cache and prefill over the keys and values of a prompt agree.
\<close>

section \<open>Rows of an output\<close>

lemma wrote_sub:
  assumes "sub s lo hi = Some t" and "wrote t I g m m'"
  shows "wrote s ((+) lo ` I) (\<lambda>x. g (x - lo)) m m'"
proof -
  have "in_elem s (lo + i) b = in_elem t i b" for i b
    using assms(1) by (auto simp: sub_def in_elem_def elem_addr_def algebra_simps split: if_splits)
  then show ?thesis using assms(2) unfolding wrote_def by (simp add: ldf_sub [OF assms(1), symmetric])
qed

lemma wrote_vectors:
  assumes out: "fs_len out = N * dim" "fs_cap out = N * dim" and num: "num ` set ts = {..<N}"
    and body: "\<And>t m1 K f row. t \<in> set ts \<Longrightarrow> K \<subseteq> {..<fs_len out} \<Longrightarrow> wrote out K f m m1 \<Longrightarrow>
      sub out (num t * dim) (num t * dim + dim) = Some row \<Longrightarrow> fs_len row = dim \<Longrightarrow>
      \<exists>m2. body t m1 = Some m2 \<and> wrote row {..<dim} (g (num t)) m1 m2"
  shows "\<exists>m'. foldM body ts m = Some m' \<and> wrote out {..<N * dim} (\<lambda>x. g (x div dim) (x mod dim)) m m'"
proof -
  let ?J = "\<lambda>t. (+) (num t * dim) ` {..<dim}"
  have bound: "num t * dim + dim \<le> N * dim" if "t \<in> set ts" for t
  proof -
    have "num t + 1 \<le> N" using that num by (metis Suc_eq_plus1 Suc_leI image_eqI lessThan_iff)
    then have "(num t + 1) * dim \<le> N * dim" by (rule mult_le_mono1)
    then show ?thesis by simp
  qed
  have cover: "(\<Union>t\<in>set ts. ?J t) = {..<N * dim}"
  proof (intro equalityI subsetI)
    fix x assume "x \<in> {..<N * dim}"
    then have x: "x < N * dim" by simp
    then have "0 < dim" by (cases dim) auto
    then obtain t where "t \<in> set ts" "num t = x div dim" "x = num t * dim + x mod dim" "x mod dim < dim"
      using x num by (metis div_mult_mod_eq imageE less_mult_imp_div_less lessThan_iff mod_less_divisor)
    then show "x \<in> (\<Union>t\<in>set ts. ?J t)" by (metis UN_iff imageI lessThan_iff)
  qed (use bound in fastforce)
  have "\<exists>m'. foldM body ts m = Some m' \<and> wrote out (\<Union>t\<in>set ts. ?J t) (\<lambda>x. g (x div dim) (x mod dim)) m m'"
  proof (rule wrote_foldM_any)
    fix t m1 K assume t: "t \<in> set ts" and K: "K \<subseteq> (\<Union>t\<in>set ts. ?J t)" "wrote out K (\<lambda>x. g (x div dim) (x mod dim)) m m1"
    obtain row where row: "sub out (num t * dim) (num t * dim + dim) = Some row" "fs_len row = dim"
      using bound [OF t] out by (simp add: sub_def)
    obtain m2 where m2: "body t m1 = Some m2" "wrote row {..<dim} (g (num t)) m1 m2"
      using body [OF t _ K(2) row] K(1) unfolding cover out by blast
    have "wrote out (?J t) (\<lambda>x. g (x div dim) (x mod dim)) m1 m2"
      by (rule wrote_cong [OF wrote_sub [OF row(1) m2(2)]]) auto
    then show "\<exists>m2. body t m1 = Some m2 \<and> wrote out (?J t) (\<lambda>x. g (x div dim) (x mod dim)) m1 m2" using m2(1) by blast
  qed
  then show ?thesis unfolding cover .
qed

section \<open>One head\<close>

definition attend_value :: "CpuMath \<Rightarrow> (f32 \<Rightarrow> f32) \<Rightarrow> f32 list \<Rightarrow> f32 list list \<Rightarrow> f32 list list \<Rightarrow> nat \<Rightarrow> f32" where
  "attend_value cm score q ks vs d =
     (case softmax_scores cm (map (\<lambda>k. score (dot_value (cm_fma cm) q k)) ks) of None \<Rightarrow> 0
      | Some ws \<Rightarrow> foldl (\<lambda>s (w, v). f32_mul_add (cm_fma cm) w (v ! d) s) 0 (zip ws vs))"

lemma softmax_scores_total: "xs \<noteq> [] \<Longrightarrow> \<exists>ws. softmax_scores cm xs = Some ws \<and> length ws = length xs"
  by (cases xs) (simp_all add: softmax_scores_def Let_def)

text \<open>A slice whose floats a region of memory does not touch: what is written into \<open>o1\<close> leaves \<open>s\<close> as it was.\<close>

definition unaffected :: "fslice \<Rightarrow> fslice \<Rightarrow> mem \<Rightarrow> bool" where
  "unaffected o1 s m \<longleftrightarrow>
     (\<forall>K f m1 i. K \<subseteq> {..<fs_len o1} \<longrightarrow> wrote o1 K f m m1 \<longrightarrow> i < fs_len s \<longrightarrow> ldf m1 s i = ldf m s i)"

lemma unaffectedD: "unaffected o1 s m \<Longrightarrow> K \<subseteq> {..<fs_len o1} \<Longrightarrow> wrote o1 K f m m1 \<Longrightarrow> i < fs_len s \<Longrightarrow> ldf m1 s i = ldf m s i"
  by (simp add: unaffected_def)

lemma unaffected_row:
  assumes "apart out s" and "sub out lo hi = Some row" and "hi \<le> fs_len out"
  shows "unaffected row s m"
proof -
  have "apart row s" using assms by (auto simp: sub_def apart_def elem_addr_def split: if_splits)
  then show ?thesis unfolding unaffected_def using wrote_apart by blast
qed

text \<open>The weighted values are added up in the output, which does not overlap the values.\<close>

lemma accumulate_values:
  assumes out: "fs_len o1 = dim" and ap: "unaffected o1 v mem"
    and off: "\<And>p. p \<in> fst ` set pws \<Longrightarrow> off p + dim \<le> fs_len v" and cap: "fs_cap v = fs_len v"
    and acc: "wrote o1 {..<dim} acc mem m1"
  shows "\<exists>m2. foldM (\<lambda>(pos, weight) m. do { vVec \<leftarrow> sub v (off pos) (off pos + dim);
           foldM (\<lambda>d m. do { o2 \<leftarrow> rd m o1 d; x \<leftarrow> rd m vVec d; wr o1 d (f32_mul_add fma weight x o2) m }) [0..<dim] m })
         pws m1 = Some m2 \<and>
       wrote o1 {..<dim} (\<lambda>d. foldl (\<lambda>s (w, v). f32_mul_add fma w (v ! d) s) (acc d)
         (map (\<lambda>(p, w). (w, floats mem v (off p) dim)) pws)) mem m2"
  using off acc
proof (induction pws arbitrary: acc m1)
  case (Cons pw pws)
  obtain p w where pw: "pw = (p, w)" by (cases pw)
  have lim: "off p + dim \<le> fs_len v" using Cons.prems(1) [of p] pw by simp
  then obtain vVec where vVec: "sub v (off p) (off p + dim) = Some vVec" "fs_len vVec = dim" using cap by (simp add: sub_def)
  let ?f = "\<lambda>d. f32_mul_add fma w (ldf mem v (off p + d)) (acc d)"
  have "\<exists>m2. foldM (\<lambda>d m. do { o2 \<leftarrow> rd m o1 d; x \<leftarrow> rd m vVec d; wr o1 d (f32_mul_add fma w x o2) m }) [0..<dim] m1 = Some m2 \<and>
      wrote o1 (set [0..<dim]) ?f m1 m2"
  proof (rule wrote_each)
    fix d m2 K assume d: "d \<in> set [0..<dim]" and K: "wrote o1 K ?f m1 m2" "K \<subseteq> set [0..<dim]" "d \<notin> K"
    have "wrote o1 {..<dim} (ldf m2 o1) mem m2"
      using wrote_twice [OF _ K(1) Cons.prems(2)] K(2) by (simp add: atLeast0LessThan)
    then have "ldf m2 vVec d = ldf mem v (off p + d)"
      using unaffectedD [OF ap, of "{..<dim}" _ _ "off p + d"] out lim d unfolding ldf_sub [OF vVec(1)] by simp
    moreover have "ldf m2 o1 d = acc d" using wrote_same [OF K(1,3)] wroteD [OF Cons.prems(2)] d by simp
    ultimately show "do { o2 \<leftarrow> rd m2 o1 d; x \<leftarrow> rd m2 vVec d; wr o1 d (f32_mul_add fma w x o2) m2 } = wr o1 d (?f d) m2"
      using d out vVec by simp
  qed (use out in simp_all)
  then obtain m2 where m2: "foldM (\<lambda>d m. do { o2 \<leftarrow> rd m o1 d; x \<leftarrow> rd m vVec d; wr o1 d (f32_mul_add fma w x o2) m }) [0..<dim] m1 = Some m2"
    "wrote o1 {..<dim} ?f m1 m2" by (auto simp: atLeast0LessThan)
  have "wrote o1 {..<dim} ?f mem m2" by (rule wrote_again [OF Cons.prems(2) m2(2)])
  from Cons.IH [OF _ this] obtain m3 where m3: "foldM (\<lambda>(pos, weight) m. do { vVec \<leftarrow> sub v (off pos) (off pos + dim);
           foldM (\<lambda>d m. do { o2 \<leftarrow> rd m o1 d; x \<leftarrow> rd m vVec d; wr o1 d (f32_mul_add fma weight x o2) m }) [0..<dim] m })
         pws m2 = Some m3"
    "wrote o1 {..<dim} (\<lambda>d. foldl (\<lambda>s (w, v). f32_mul_add fma w (v ! d) s) (?f d)
         (map (\<lambda>(p, w). (w, floats mem v (off p) dim)) pws)) mem m3"
    using Cons.prems(1) by auto
  have "wrote o1 {..<dim} (\<lambda>d. foldl (\<lambda>s (w, v). f32_mul_add fma w (v ! d) s) (acc d)
         (map (\<lambda>(p, w). (w, floats mem v (off p) dim)) (pw # pws))) mem m3"
    by (rule wrote_cong [OF m3(2)]) (simp add: pw floats_def)
  then show ?case using m2(1) m3(1) vVec(1) pw by auto
qed simp

lemma those_map_Some: "those (map Some xs) = Some xs"
  by (induction xs) simp_all

lemma attend_head_wrote:
  assumes n: "0 < n" and len: "fs_len qHead = dim" "fs_len o1 = dim"
    and off: "\<And>p. p < n \<Longrightarrow> off p + dim \<le> fs_len k" "fs_len v = fs_len k" and cap: "fs_cap k = fs_len k" "fs_cap v = fs_len v"
    and ap: "unaffected o1 v m"
  shows "\<exists>m2. attend_head cm score qHead o1 k v off n dim m = Some m2 \<and>
    wrote o1 {..<dim} (attend_value cm score (floats m qHead 0 dim) (map (\<lambda>p. floats m k (off p) dim) [0..<n])
      (map (\<lambda>p. floats m v (off p) dim) [0..<n])) m m2"
proof -
  let ?score = "\<lambda>p. score (dot_value (cm_fma cm) (floats m qHead 0 dim) (floats m k (off p) dim))"
  have "do { kVec \<leftarrow> sub k (off p) (off p + dim); dot \<leftarrow> dot_loop (cm_fma cm) m qHead (\<lambda>d. d) kVec (\<lambda>d. d) dim; Some (score dot) } =
      Some (?score p)" if p: "p < n" for p
  proof -
    obtain kVec where kVec: "sub k (off p) (off p + dim) = Some kVec" "fs_len kVec = dim"
      using off(1) [OF p] cap by (simp add: sub_def)
    then show ?thesis using len by (simp add: dot_loop_value ldf_sub [OF kVec(1)] floats_def)
  qed
  then have "map (\<lambda>p. do { kVec \<leftarrow> sub k (off p) (off p + dim);
      dot \<leftarrow> dot_loop (cm_fma cm) m qHead (\<lambda>d. d) kVec (\<lambda>d. d) dim; Some (score dot) }) [0..<n] = map Some (map ?score [0..<n])"
    by simp
  then have scores: "those (map (\<lambda>p. do { kVec \<leftarrow> sub k (off p) (off p + dim);
      dot \<leftarrow> dot_loop (cm_fma cm) m qHead (\<lambda>d. d) kVec (\<lambda>d. d) dim; Some (score dot) }) [0..<n]) = Some (map ?score [0..<n])"
    by (simp only: those_map_Some)
  obtain ws where ws: "softmax_scores cm (map ?score [0..<n]) = Some ws" "length ws = n"
    using softmax_scores_total [of "map ?score [0..<n]" cm] n by auto
  obtain m1 where m1: "foldM (\<lambda>d. wr o1 d 0) [0..<dim] m = Some m1" "wrote o1 {..<dim} (\<lambda>d. 0) m m1"
    using wrote_each [of "[0..<dim]" o1 "\<lambda>d. 0" m "\<lambda>d. wr o1 d 0"] len by (auto simp: atLeast0LessThan)
  have in_range: "off p + dim \<le> fs_len v" if "p \<in> fst ` set (zip [0..<n] ws)" for p
    using off that by (auto dest: set_zip_leftD)
  obtain m2 where m2: "foldM (\<lambda>(pos, weight) m. do { vVec \<leftarrow> sub v (off pos) (off pos + dim);
           foldM (\<lambda>d m. do { o2 \<leftarrow> rd m o1 d; x \<leftarrow> rd m vVec d; wr o1 d (f32_mul_add (cm_fma cm) weight x o2) m }) [0..<dim] m })
         (zip [0..<n] ws) m1 = Some m2"
       "wrote o1 {..<dim} (\<lambda>d. foldl (\<lambda>s (w, v). f32_mul_add (cm_fma cm) w (v ! d) s) 0
         (map (\<lambda>(p, w). (w, floats m v (off p) dim)) (zip [0..<n] ws))) m m2"
    using accumulate_values [where pws = "zip [0..<n] ws" and off = off, OF len(2) ap in_range cap(2) m1(2)] by blast
  have z: "map (\<lambda>(p, w). (w, floats m v (off p) dim)) (zip [0..<n] ws) = zip ws (map (\<lambda>p. floats m v (off p) dim) [0..<n])"
    using ws(2) by (intro nth_equalityI) simp_all
  have "wrote o1 {..<dim} (attend_value cm score (floats m qHead 0 dim) (map (\<lambda>p. floats m k (off p) dim) [0..<n])
      (map (\<lambda>p. floats m v (off p) dim) [0..<n])) m m2"
    by (rule wrote_cong [OF m2(2)]) (simp add: attend_value_def z comp_def ws(1))
  moreover have "attend_head cm score qHead o1 k v off n dim m = Some m2"
    unfolding attend_head_def scores using ws(1) m1(1) m2(1) by simp
  ultimately show ?thesis by blast
qed

section \<open>Decoding and prefill\<close>

lemma floats_apart:
  assumes "wrote out K f m m1" and "K \<subseteq> {..<fs_len out}" and "apart out s" and "off + n \<le> fs_len s"
  shows "floats m1 s off n = floats m s off n"
  using wrote_apart [OF assms(1-3)] assms(4) by (simp add: floats_def)

lemma floats_sub: "sub s lo hi = Some t \<Longrightarrow> floats m t 0 n = floats m s lo n"
  by (simp add: floats_def ldf_sub)

lemma head_in_cache:
  fixes h g n :: nat
  assumes "h < g * nkv" and "p < n" and "n * dim \<le> stride"
  shows "h div g * stride + p * dim + dim \<le> nkv * stride"
proof -
  have "h div g < nkv" using assms(1) by (metis less_mult_imp_div_less mult.commute)
  then have "(h div g + 1) * stride \<le> nkv * stride" by (intro mult_le_mono1) simp
  moreover have "(p + 1) * dim \<le> n * dim" using assms(2) by (intro mult_le_mono1) simp
  ultimately show ?thesis using assms(3) by (simp add: algebra_simps)
qed

lemma decode_slices_wrote:
  assumes n: "0 < n" and heads: "0 < nkv" "nq = g * nkv" and stride: "n * dim \<le> stride"
    and lens: "fs_len q = nq * dim" "fs_len out = nq * dim" "fs_len k = nkv * stride" "fs_len v = nkv * stride"
    and caps: "fs_cap q = fs_len q" "fs_cap out = fs_len out" "fs_cap k = fs_len k" "fs_cap v = fs_len v"
    and ap: "apart out q" "apart out k" "apart out v"
  shows "\<exists>m'. decode_slices cm score q k v out n nq nkv dim stride mem = Some m' \<and>
    wrote out {..<nq * dim} (\<lambda>x. attend_value cm score (floats mem q (x div dim * dim) dim)
      (map (\<lambda>p. floats mem k (x div dim div g * stride + p * dim) dim) [0..<n])
      (map (\<lambda>p. floats mem v (x div dim div g * stride + p * dim) dim) [0..<n]) (x mod dim)) mem m'"
proof -
  let ?g = "\<lambda>h. attend_value cm score (floats mem q (h * dim) dim)
      (map (\<lambda>p. floats mem k (h div g * stride + p * dim) dim) [0..<n])
      (map (\<lambda>p. floats mem v (h div g * stride + p * dim) dim) [0..<n])"
  let ?body = "\<lambda>h m. do { kvHead \<leftarrow> ndiv h g; qHead \<leftarrow> sub q (h * dim) (h * dim + dim);
      outHead \<leftarrow> sub out (h * dim) (h * dim + dim);
      attend_head cm score qHead outHead k v (\<lambda>pos. kvHead * stride + pos * dim) n dim m }"
  have "\<exists>m'. foldM ?body [0..<nq] mem = Some m' \<and> wrote out {..<nq * dim} (\<lambda>x. ?g (x div dim) (x mod dim)) mem m'"
  proof (rule wrote_vectors [where num = "\<lambda>h. h"])
    show "fs_len out = nq * dim" "fs_cap out = nq * dim" using lens caps by simp_all
    show "(\<lambda>h. h) ` set [0..<nq] = {..<nq}" by (auto simp: atLeast0LessThan)
    fix h m1 K f row
    assume h: "h \<in> set [0..<nq]" and K: "K \<subseteq> {..<fs_len out}" "wrote out K f mem m1"
      and row: "sub out (h * dim) (h * dim + dim) = Some row" "fs_len row = dim"
    have hq: "h < g * nkv" using h heads by simp
    then have g: "0 < g" by (cases g) auto
    have hb: "h * dim + dim \<le> nq * dim" using h row_bound [of h nq 0 1] by (metis add_mult_distrib2 atLeastLessThan_iff
        mult.commute mult_le_mono1 Suc_leI mult_Suc add.commute set_upt)
    obtain qHead where qHead: "sub q (h * dim) (h * dim + dim) = Some qHead" "fs_len qHead = dim"
      using hb lens caps by (simp add: sub_def)
    note lim = head_in_cache [OF hq _ stride]
    have "map (\<lambda>p. floats m1 s (h div g * stride + p * dim) dim) [0..<n] = map (\<lambda>p. floats mem s (h div g * stride + p * dim) dim) [0..<n]"
      if "apart out s" "fs_len s = nkv * stride" for s
      using floats_apart [OF K(2,1) that(1)] lim that(2) by simp
    then have ks: "map (\<lambda>p. floats m1 k (h div g * stride + p * dim) dim) [0..<n] = map (\<lambda>p. floats mem k (h div g * stride + p * dim) dim) [0..<n]"
      and vs: "map (\<lambda>p. floats m1 v (h div g * stride + p * dim) dim) [0..<n] = map (\<lambda>p. floats mem v (h div g * stride + p * dim) dim) [0..<n]"
      using ap lens by blast+
    have qs: "floats m1 qHead 0 dim = floats mem q (h * dim) dim"
      unfolding floats_sub [OF qHead(1)] using floats_apart [OF K(2,1) ap(1)] hb lens by simp
    have "unaffected row v m1" by (rule unaffected_row [OF ap(3) row(1)]) (use hb lens in simp)
    then obtain m2 where "attend_head cm score qHead row k v (\<lambda>p. h div g * stride + p * dim) n dim m1 = Some m2"
      "wrote row {..<dim} (?g h) m1 m2"
      using attend_head_wrote [OF n qHead(2) row(2), of "\<lambda>p. h div g * stride + p * dim" k v m1 cm score] lim lens caps
      unfolding ks vs qs by auto
    then show "\<exists>m2. ?body h m1 = Some m2 \<and> wrote row {..<dim} (?g h) m1 m2"
      using qHead(1) row(1) g by (simp add: ndiv_def)
  qed
  moreover have "ndiv nq nkv = Some g" using heads by (simp add: ndiv_def)
  ultimately show ?thesis by (simp add: decode_slices_def)
qed

lemma foldM_map: "foldM f (map h xs) s = foldM (\<lambda>x. f (h x)) xs s"
proof (induction xs arbitrary: s)
  case (Cons a xs)
  then show ?case by (cases "f (h a) s") simp_all
qed simp

lemma foldM_product:
  "foldM (\<lambda>x. foldM (f x) ys) xs s = foldM (\<lambda>t. f (fst t) (snd t)) (List.product xs ys) s"
proof (induction xs arbitrary: s)
  case (Cons a xs)
  then show ?case by (cases "foldM (f a) ys s") (simp_all add: foldM_append foldM_map)
qed simp

lemma product_rows_cover: "(\<lambda>t. fst t * n + snd t) ` ({..<m} \<times> {..<n}) = {..<m * n}" for m n :: nat
proof (intro equalityI subsetI)
  fix x assume "x \<in> {..<m * n}"
  then have x: "x < m * n" by simp
  then have "0 < n" by (cases n) auto
  then have "(x div n, x mod n) \<in> {..<m} \<times> {..<n}" using x by (simp add: less_mult_imp_div_less)
  then show "x \<in> (\<lambda>t. fst t * n + snd t) ` ({..<m} \<times> {..<n})" by force
qed (auto simp: row_bound)

lemma token_vector:
  fixes p s h nkv dim :: nat
  assumes "p < s" and "h < nkv"
  shows "p * nkv * dim + h * dim + dim \<le> s * nkv * dim"
proof -
  have "(p * nkv + h + 1) * dim \<le> s * nkv * dim" using row_bound [OF assms] by (intro mult_le_mono1) simp
  then show ?thesis by (simp add: algebra_simps)
qed

lemma prefill_slices_wrote:
  assumes heads: "0 < nkv" "nq = g * nkv"
    and lens: "fs_len q = s * nq * dim" "fs_len out = s * nq * dim" "fs_len k = s * nkv * dim" "fs_len v = s * nkv * dim"
    and caps: "fs_cap q = fs_len q" "fs_cap out = fs_len out" "fs_cap k = fs_len k" "fs_cap v = fs_len v"
    and ap: "apart out q" "apart out k" "apart out v"
  shows "\<exists>m'. prefill_slices cm score q k v out s nq nkv dim mem = Some m' \<and>
    wrote out {..<s * nq * dim} (\<lambda>x. attend_value cm score (floats mem q (x div dim * dim) dim)
      (map (\<lambda>p. floats mem k (p * nkv * dim + x div dim mod nq div g * dim) dim) [0..<x div dim div nq + 1])
      (map (\<lambda>p. floats mem v (p * nkv * dim + x div dim mod nq div g * dim) dim) [0..<x div dim div nq + 1]) (x mod dim)) mem m'"
proof -
  let ?g = "\<lambda>t. attend_value cm score (floats mem q (t * dim) dim)
      (map (\<lambda>p. floats mem k (p * nkv * dim + t mod nq div g * dim) dim) [0..<t div nq + 1])
      (map (\<lambda>p. floats mem v (p * nkv * dim + t mod nq div g * dim) dim) [0..<t div nq + 1])"
  let ?body = "\<lambda>qPos h m. do { kvHead \<leftarrow> ndiv h g; qHead \<leftarrow> sub q (qPos * nq * dim + h * dim) (qPos * nq * dim + h * dim + dim);
      outHead \<leftarrow> sub out (qPos * nq * dim + h * dim) (qPos * nq * dim + h * dim + dim);
      attend_head cm score qHead outHead k v (\<lambda>p. p * nkv * dim + kvHead * dim) (qPos + 1) dim m }"
  have "\<exists>m'. foldM (\<lambda>t. ?body (fst t) (snd t)) (List.product [0..<s] [0..<nq]) mem = Some m' \<and>
      wrote out {..<s * nq * dim} (\<lambda>x. ?g (x div dim) (x mod dim)) mem m'"
  proof (rule wrote_vectors [where num = "\<lambda>t. fst t * nq + snd t"])
    show "fs_len out = s * nq * dim" "fs_cap out = s * nq * dim" using lens caps by simp_all
    show "(\<lambda>t. fst t * nq + snd t) ` set (List.product [0..<s] [0..<nq]) = {..<s * nq}"
      using product_rows_cover by (simp add: atLeast0LessThan)
    fix t m1 K f row
    assume t: "t \<in> set (List.product [0..<s] [0..<nq])" and K: "K \<subseteq> {..<fs_len out}" "wrote out K f mem m1"
      and row: "sub out ((fst t * nq + snd t) * dim) ((fst t * nq + snd t) * dim + dim) = Some row" "fs_len row = dim"
    have "t \<in> {0..<s} \<times> {0..<nq}" using t by (simp only: set_product set_upt)
    then obtain i h where ih: "t = (i, h)" "i < s" "h < nq" by auto
    then have g: "0 < g" using heads by (cases g) auto
    have pos: "(i * nq + h) * dim = i * nq * dim + h * dim" by (simp add: algebra_simps)
    have qb: "i * nq * dim + h * dim + dim \<le> s * nq * dim" using ih by (intro token_vector)
    obtain qHead where qHead: "sub q (i * nq * dim + h * dim) (i * nq * dim + h * dim + dim) = Some qHead" "fs_len qHead = dim"
      using qb lens caps by (simp add: sub_def)
    have "h div g < nkv" using ih heads by (metis less_mult_imp_div_less mult.commute)
    then have lim: "p * nkv * dim + h div g * dim + dim \<le> s * nkv * dim" if "p < i + 1" for p
      using that ih by (intro token_vector) simp_all
    have "map (\<lambda>p. floats m1 x (p * nkv * dim + h div g * dim) dim) [0..<i + 1] =
        map (\<lambda>p. floats mem x (p * nkv * dim + h div g * dim) dim) [0..<i + 1]"
      if "apart out x" "fs_len x = s * nkv * dim" for x
      by (intro map_cong refl floats_apart [OF K(2,1) that(1)]) (use lim that(2) in auto)
    then have ks: "map (\<lambda>p. floats m1 k (p * nkv * dim + h div g * dim) dim) [0..<i + 1] =
          map (\<lambda>p. floats mem k (p * nkv * dim + h div g * dim) dim) [0..<i + 1]"
      and vs: "map (\<lambda>p. floats m1 v (p * nkv * dim + h div g * dim) dim) [0..<i + 1] =
          map (\<lambda>p. floats mem v (p * nkv * dim + h div g * dim) dim) [0..<i + 1]"
      using ap lens by blast+
    have qs: "floats m1 qHead 0 dim = floats mem q (i * nq * dim + h * dim) dim"
      unfolding floats_sub [OF qHead(1)] using floats_apart [OF K(2,1) ap(1)] qb lens by simp
    have "unaffected row v m1" by (rule unaffected_row [OF ap(3) row(1)]) (use qb lens pos ih in simp)
    moreover have "(i * nq + h) div nq = i" "(i * nq + h) mod nq = h" using ih by simp_all
    ultimately obtain m2 where "attend_head cm score qHead row k v (\<lambda>p. p * nkv * dim + h div g * dim) (i + 1) dim m1 = Some m2"
      "wrote row {..<dim} (?g (i * nq + h)) m1 m2"
      using attend_head_wrote [OF _ qHead(2) row(2), of "i + 1" "\<lambda>p. p * nkv * dim + h div g * dim" k v m1 cm score] lim lens caps
      unfolding ks vs qs pos by auto
    then show "\<exists>m2. ?body (fst t) (snd t) m1 = Some m2 \<and> wrote row {..<dim} (?g (fst t * nq + snd t)) m1 m2"
      using qHead(1) row(1) g ih pos by (simp add: ndiv_def)
  qed
  moreover have "ndiv nq nkv = Some g" using heads by (simp add: ndiv_def)
  ultimately show ?thesis unfolding prefill_slices_def foldM_product by (simp add: Let_def)
qed

section \<open>Prefill and decoding agree\<close>

lemma floats_nth: "j < n \<Longrightarrow> floats m s off n ! j = ldf m s (off + j)"
  by (simp add: floats_def)

lemma floats_part:
  assumes "floats m s a n = floats m t b n" and "off + k \<le> n"
  shows "floats m s (a + off) k = floats m t (b + off) k"
proof -
  have "ldf m s (a + (off + j)) = ldf m t (b + (off + j))" if "j < k" for j
    using assms that floats_nth [of "off + j" n m s a] floats_nth [of "off + j" n m t b] by simp
  then show ?thesis by (simp add: floats_def add.assoc)
qed

text \<open>For either way of scoring: row \<open>i\<close> of a prefill is what decoding gives over a cache with the same keys and values.\<close>

lemma prefill_row_is_decode:
  assumes heads: "0 < nkv" "nq = g * nkv" and i: "i < s" "(i + 1) * dim \<le> stride"
    and p: "at_ptr qp (s * nq * dim) q" "at_ptr kp (s * nkv * dim) k" "at_ptr vp (s * nkv * dim) v" "at_ptr op (s * nq * dim) out"
    and d: "at_ptr qd (nq * dim) q1" "at_ptr kd (nkv * stride) k1" "at_ptr vd (nkv * stride) v1" "at_ptr od (nq * dim) o1"
    and ap: "apart out q" "apart out k" "apart out v" "apart o1 q1" "apart o1 k1" "apart o1 v1"
    and query: "floats mem q1 0 (nq * dim) = floats mem q (i * nq * dim) (nq * dim)"
    and cache: "\<And>t h. t \<le> i \<Longrightarrow> h < nkv \<Longrightarrow> floats mem k1 (h * stride + t * dim) dim = floats mem k (t * nkv * dim + h * dim) dim"
      "\<And>t h. t \<le> i \<Longrightarrow> h < nkv \<Longrightarrow> floats mem v1 (h * stride + t * dim) dim = floats mem v (t * nkv * dim + h * dim) dim"
  shows "\<exists>m1 m2. prefill_kernel cm score qp kp vp op s nq nkv dim mem = Some m1 \<and>
    decode_kernel cm score qd kd vd od (i + 1) nq nkv dim stride mem = Some m2 \<and>
    floats m2 o1 0 (nq * dim) = floats m1 out (i * nq * dim) (nq * dim)"
proof -
  have lens: "fs_len q = s * nq * dim" "fs_len out = s * nq * dim" "fs_len k = s * nkv * dim" "fs_len v = s * nkv * dim"
    "fs_len q1 = nq * dim" "fs_len o1 = nq * dim" "fs_len k1 = nkv * stride" "fs_len v1 = nkv * stride"
    using p d by (simp_all add: at_ptr_def)
  note caps = p [THEN at_ptr_cap] d [THEN at_ptr_cap]
  have pc: "fs_cap q = fs_len q" "fs_cap out = fs_len out" "fs_cap k = fs_len k" "fs_cap v = fs_len v"
    and dc: "fs_cap q1 = fs_len q1" "fs_cap o1 = fs_len o1" "fs_cap k1 = fs_len k1" "fs_cap v1 = fs_len v1"
    using caps lens by simp_all
  obtain m1 where m1: "prefill_slices cm score q k v out s nq nkv dim mem = Some m1"
    "wrote out {..<s * nq * dim} (\<lambda>x. attend_value cm score (floats mem q (x div dim * dim) dim)
      (map (\<lambda>p. floats mem k (p * nkv * dim + x div dim mod nq div g * dim) dim) [0..<x div dim div nq + 1])
      (map (\<lambda>p. floats mem v (p * nkv * dim + x div dim mod nq div g * dim) dim) [0..<x div dim div nq + 1]) (x mod dim)) mem m1"
    using prefill_slices_wrote [OF heads lens(1-4) pc ap(1-3)] by blast
  obtain m2 where m2: "decode_slices cm score q1 k1 v1 o1 (i + 1) nq nkv dim stride mem = Some m2"
    "wrote o1 {..<nq * dim} (\<lambda>x. attend_value cm score (floats mem q1 (x div dim * dim) dim)
      (map (\<lambda>p. floats mem k1 (x div dim div g * stride + p * dim) dim) [0..<i + 1])
      (map (\<lambda>p. floats mem v1 (x div dim div g * stride + p * dim) dim) [0..<i + 1]) (x mod dim)) mem m2"
    using decode_slices_wrote [OF zero_less_Suc [of i, unfolded Suc_eq_plus1] heads i(2) lens(5-8) dc ap(4-6)] by blast
  have "ldf m2 o1 x = ldf m1 out (i * nq * dim + x)" if x: "x < nq * dim" for x
  proof -
    have dim: "0 < dim" using x by (cases dim) auto
    then have h: "x div dim < nq" using x by (simp add: less_mult_imp_div_less)
    then have kvh: "x div dim div g < nkv" using heads by (metis less_mult_imp_div_less mult.commute)
    have e: "i * nq * dim + x = x + (i * nq) * dim" by simp
    have t: "(i * nq * dim + x) div dim = i * nq + x div dim" "(i * nq * dim + x) mod dim = x mod dim"
      unfolding e using dim by simp_all
    have r: "(i * nq + x div dim) div nq = i" "(i * nq + x div dim) mod nq = x div dim" using h by simp_all
    have "x div dim * dim + dim \<le> nq * dim"
      using mult_le_mono1 [of "x div dim + 1" nq dim] h by simp
    then have qs: "floats mem q1 (x div dim * dim) dim = floats mem q ((i * nq + x div dim) * dim) dim"
      using floats_part [OF query] by (simp add: add_mult_distrib)
    have ks: "map (\<lambda>p. floats mem k1 (x div dim div g * stride + p * dim) dim) [0..<i + 1] =
        map (\<lambda>p. floats mem k (p * nkv * dim + x div dim div g * dim) dim) [0..<i + 1]"
      and vs: "map (\<lambda>p. floats mem v1 (x div dim div g * stride + p * dim) dim) [0..<i + 1] =
        map (\<lambda>p. floats mem v (p * nkv * dim + x div dim div g * dim) dim) [0..<i + 1]"
      using cache kvh by (auto intro!: map_cong)
    have "i * nq * dim + x < s * nq * dim"
      using row_bound [OF i(1) x] by (simp add: mult.assoc)
    then show ?thesis
      using wroteD [OF m2(2), of x] wroteD [OF m1(2), of "i * nq * dim + x"] x unfolding t r qs ks vs by (simp only: lessThan_iff)
  qed
  then have "floats m2 o1 0 (nq * dim) = floats m1 out (i * nq * dim) (nq * dim)" by (simp add: floats_def)
  then show ?thesis using m1(1) m2(1) p d by (simp add: prefill_kernel_def decode_kernel_def at_ptr_def)
qed

text \<open>
  C18: Row \<open>i\<close> of the causal attention of a prompt, whose keys and values are stored token by token, is bit for bit what
  the decoding kernel computes for the same query over a cache that holds the first \<open>i + 1\<close> keys and values head by head.
\<close>

theorem SDPAPrefill_row_is_SDPA:
  assumes "0 < nkv" and "nq = g * nkv" and "i < s" and "(i + 1) * dim \<le> stride"
    and "at_ptr qp (s * nq * dim) q" and "at_ptr kp (s * nkv * dim) k" and "at_ptr vp (s * nkv * dim) v" and "at_ptr op (s * nq * dim) out"
    and "at_ptr qd (nq * dim) q1" and "at_ptr kd (nkv * stride) k1" and "at_ptr vd (nkv * stride) v1" and "at_ptr od (nq * dim) o1"
    and "apart out q" and "apart out k" and "apart out v" and "apart o1 q1" and "apart o1 k1" and "apart o1 v1"
    and "floats mem q1 0 (nq * dim) = floats mem q (i * nq * dim) (nq * dim)"
    and "\<And>t h. t \<le> i \<Longrightarrow> h < nkv \<Longrightarrow> floats mem k1 (h * stride + t * dim) dim = floats mem k (t * nkv * dim + h * dim) dim"
    and "\<And>t h. t \<le> i \<Longrightarrow> h < nkv \<Longrightarrow> floats mem v1 (h * stride + t * dim) dim = floats mem v (t * nkv * dim + h * dim) dim"
  shows "\<exists>m1 m2. CPUBackend_SDPAPrefill cm qp kp vp op s nq nkv dim scale mem = Some m1 \<and>
    CPUBackend_SDPA cm qd kd vd od (i + 1) nq nkv dim scale stride mem = Some m2 \<and>
    floats m2 o1 0 (nq * dim) = floats m1 out (i * nq * dim) (nq * dim)"
  unfolding CPUBackend_SDPAPrefill_def CPUBackend_SDPA_def by (rule prefill_row_is_decode [OF assms])

lemma SDPAPrefillSoftCap_row_is_SDPASoftCap:
  assumes "0 < nkv" and "nq = g * nkv" and "i < s" and "(i + 1) * dim \<le> stride"
    and "at_ptr qp (s * nq * dim) q" and "at_ptr kp (s * nkv * dim) k" and "at_ptr vp (s * nkv * dim) v" and "at_ptr op (s * nq * dim) out"
    and "at_ptr qd (nq * dim) q1" and "at_ptr kd (nkv * stride) k1" and "at_ptr vd (nkv * stride) v1" and "at_ptr od (nq * dim) o1"
    and "apart out q" and "apart out k" and "apart out v" and "apart o1 q1" and "apart o1 k1" and "apart o1 v1"
    and "floats mem q1 0 (nq * dim) = floats mem q (i * nq * dim) (nq * dim)"
    and "\<And>t h. t \<le> i \<Longrightarrow> h < nkv \<Longrightarrow> floats mem k1 (h * stride + t * dim) dim = floats mem k (t * nkv * dim + h * dim) dim"
    and "\<And>t h. t \<le> i \<Longrightarrow> h < nkv \<Longrightarrow> floats mem v1 (h * stride + t * dim) dim = floats mem v (t * nkv * dim + h * dim) dim"
  shows "\<exists>m1 m2. CPUBackend_SDPAPrefillSoftCap cm qp kp vp op s nq nkv dim scale softcap mem = Some m1 \<and>
    CPUBackend_SDPASoftCap cm qd kd vd od (i + 1) nq nkv dim scale softcap stride mem = Some m2 \<and>
    floats m2 o1 0 (nq * dim) = floats m1 out (i * nq * dim) (nq * dim)"
  unfolding CPUBackend_SDPAPrefillSoftCap_def CPUBackend_SDPASoftCap_def by (rule prefill_row_is_decode [OF assms])

theorem SDPAPrefill_row_is_SDPA_witness:
  "\<exists>m1 m2. CPUBackend_SDPAPrefill demo_math (NewDevicePtr CPU (word_of_int 64)) (NewDevicePtr CPU (word_of_int 256))
      (NewDevicePtr CPU (word_of_int 512)) (NewDevicePtr CPU (word_of_int 1024)) 3 2 1 2 0x3F000000 demo_mem = Some m1 \<and>
    CPUBackend_SDPA demo_math (NewDevicePtr CPU (word_of_int 80)) (NewDevicePtr CPU (word_of_int 256))
      (NewDevicePtr CPU (word_of_int 512)) (NewDevicePtr CPU (word_of_int 2048)) 2 2 1 2 0x3F000000 6 demo_mem = Some m2 \<and>
    floats m2 (demo_slice 2048 4) 0 4 = floats m1 (demo_slice 1024 12) 4 4"
proof -
  have q: "floats demo_mem (demo_slice 80 4) 0 4 = floats demo_mem (demo_slice 64 12) 4 4"
    by (simp add: floats_def ldf_def elem_addr_def demo_slice_def)
  show ?thesis
    using SDPAPrefill_row_is_SDPA [of 1 2 2 1 3 2 6 "NewDevicePtr CPU (word_of_int 64)" "demo_slice 64 12"
        "NewDevicePtr CPU (word_of_int 256)" "demo_slice 256 6" "NewDevicePtr CPU (word_of_int 512)" "demo_slice 512 6"
        "NewDevicePtr CPU (word_of_int 1024)" "demo_slice 1024 12" "NewDevicePtr CPU (word_of_int 80)" "demo_slice 80 4"
        "NewDevicePtr CPU (word_of_int 256)" "demo_slice 256 6" "NewDevicePtr CPU (word_of_int 512)" "demo_slice 512 6"
        "NewDevicePtr CPU (word_of_int 2048)" "demo_slice 2048 4" demo_mem demo_math "0x3F000000"]
      demo_at_ptr [of 64 12] demo_at_ptr [of 256 6] demo_at_ptr [of 512 6] demo_at_ptr [of 1024 12] demo_at_ptr [of 80 4]
      demo_at_ptr [of 2048 4] q
    by (simp add: apart_def elem_addr_def) (simp add: demo_slice_def numeral_2_eq_2)
qed

text \<open>Attention over an empty cache asks for the first of no scores.\<close>

lemma empty_cache_panics:
  assumes "0 < nq"
  shows "decode_kernel cm score q k v out 0 nq nkv dim stride mem = None"
proof -
  have "attend_head cm score qHead o1 kData vData off 0 dim m = None" for qHead o1 kData vData off m
    by (simp add: attend_head_def softmax_scores_def)
  moreover have "[0..<nq] = 0 # [1..<nq]" using assms by (simp add: upt_conv_Cons)
  ultimately show ?thesis
    by (auto simp: decode_kernel_def decode_slices_def split: Option.bind_splits)
qed

end
