(* ===== verification/Cpu_Rope.thy ===== *)
theory Cpu_Rope
  imports Cpu_Attention
begin

text \<open>
  Rotary embeddings on the CPU: the loops, which work in place, give every element its value in closed form from the
  old elements of its vector and the position of its token.
\<close>

section \<open>One vector\<close>

definition rope_elem :: "CpuMath \<Rightarrow> (nat \<Rightarrow> f32) \<Rightarrow> bool \<Rightarrow> nat \<Rightarrow> int \<Rightarrow> (nat \<Rightarrow> f32) \<Rightarrow> nat \<Rightarrow> f32" where
  "rope_elem cm freq neox half pos old d =
     (let r = (\<lambda>j a b. rotate cm (f32_mul (f32_of_int pos) (freq j)) (old a) (old b)) in
      if 2 * half \<le> d then old d
      else if neox then (if d < half then fst (r d d (d + half)) else snd (r (d - half) (d - half) d))
      else (if even d then fst (r (d div 2) d (d + 1)) else snd (r (d div 2) (d - 1) d)))"

text \<open>Only the rotated elements of the vector matter for a rotated element.\<close>

lemma rope_elem_old:
  assumes "d < 2 * half" and "\<And>e. e < 2 * half \<Longrightarrow> old e = old' e"
  shows "rope_elem cm freq neox half pos old d = rope_elem cm freq neox half pos old' d"
proof -
  have "old d = old' d" "old (d - half) = old' (d - half)" "old (d - 1) = old' (d - 1)" using assms by auto
  moreover have "old (d + half) = old' (d + half)" if "d < half" using assms that by auto
  moreover have "old (d + 1) = old' (d + 1)" if "even d"
    by (rule assms(2)) (use assms(1) that in presburger)
  ultimately show ?thesis using assms(1) by (simp add: rope_elem_def Let_def)
qed

definition pair_set :: "bool \<Rightarrow> nat \<Rightarrow> nat \<Rightarrow> nat set" where
  "pair_set neox half j = {fst (rope_pair neox half j), snd (rope_pair neox half j)}"

lemma pair_sets_disjoint: "i < half \<Longrightarrow> j < half \<Longrightarrow> i \<noteq> j \<Longrightarrow> pair_set neox half i \<inter> pair_set neox half j = {}"
  by (cases neox) (auto simp: pair_set_def rope_pair_def)

lemma pair_sets_cover: "(\<Union>j<half. pair_set neox half j) = {..<2 * half}"
proof (intro equalityI subsetI)
  fix d assume "d \<in> {..<2 * half}"
  then have d: "d < 2 * half" by simp
  show "d \<in> (\<Union>j<half. pair_set neox half j)"
  proof (cases neox)
    case True
    then have "d \<in> pair_set neox half (if d < half then d else d - half)" by (simp add: pair_set_def rope_pair_def)
    then show ?thesis using d by (intro UN_I [of "if d < half then d else d - half"]) auto
  next
    case False
    then have "d \<in> pair_set neox half (d div 2)" by (simp add: pair_set_def rope_pair_def) presburger
    then show ?thesis using d by (intro UN_I [of "d div 2"]) auto
  qed
qed (auto simp: pair_set_def rope_pair_def split: if_splits)

lemma pair_values:
  assumes "j < half"
  shows "rope_elem cm freq neox half pos old (fst (rope_pair neox half j)) =
      fst (rotate cm (f32_mul (f32_of_int pos) (freq j)) (old (fst (rope_pair neox half j))) (old (snd (rope_pair neox half j))))"
    and "rope_elem cm freq neox half pos old (snd (rope_pair neox half j)) =
      snd (rotate cm (f32_mul (f32_of_int pos) (freq j)) (old (fst (rope_pair neox half j))) (old (snd (rope_pair neox half j))))"
    and "fst (rope_pair neox half j) \<noteq> snd (rope_pair neox half j)" and "snd (rope_pair neox half j) < 2 * half"
    and "fst (rope_pair neox half j) < 2 * half"
  using assms by (cases neox; simp add: rope_elem_def rope_pair_def Let_def)+

lemma wrote_pair:
  assumes "a \<noteq> b"
  shows "wrote s {a, b} f m (st32 (st32 m (elem_addr s a) (f a)) (elem_addr s b) (f b))"
  using wrote_seq [OF wrote_wr [of s a f m] wrote_wr [of s b f "st32 m (elem_addr s a) (f a)"]] by (simp add: insert_commute)

lemma rope_vector_wrote:
  assumes len: "offset + 2 * half \<le> fs_len data"
    and freq: "\<And>j K f m1. j < half \<Longrightarrow> K \<subseteq> {..<fs_len data} \<Longrightarrow> wrote data K f m m1 \<Longrightarrow> fr j m1 = Some (freq j)"
  shows "\<exists>m'. rope_vector cm fr neox half data pos offset m = Some m' \<and>
    wrote data ((+) offset ` {..<2 * half}) (\<lambda>x. rope_elem cm freq neox half pos (\<lambda>d. ldf m data (offset + d)) (x - offset)) m m'"
proof -
  let ?old = "\<lambda>d. ldf m data (offset + d)"
  let ?f = "\<lambda>x. rope_elem cm freq neox half pos ?old (x - offset)"
  let ?J = "\<lambda>j. (+) offset ` pair_set neox half j"
  have cover: "(\<Union>j\<in>set [0..<half]. ?J j) = (+) offset ` {..<2 * half}"
    using pair_sets_cover [of neox half] by (simp add: atLeast0LessThan flip: image_UN)
  have "\<exists>m'. rope_vector cm fr neox half data pos offset m = Some m' \<and> wrote data (\<Union>j\<in>set [0..<half]. ?J j) ?f m m'"
    unfolding rope_vector_def
  proof (rule wrote_foldM)
    fix i j assume "i \<in> set [0..<half]" "j \<in> set [0..<half]" "i \<noteq> j"
    then show "?J i \<inter> ?J j = {}"
      using pair_sets_disjoint [of i half j neox] by (simp add: image_Int [symmetric])
  next
    fix j m1 K
    assume j: "j \<in> set [0..<half]" and K: "wrote data K ?f m m1" "K \<subseteq> (\<Union>j\<in>set [0..<half]. ?J j)" "?J j \<inter> K = {}"
    obtain a b where ab: "rope_pair neox half j = (a, b)" by (cases "rope_pair neox half j")
    have jh: "j < half" using j by simp
    note pv = pair_values(1,2) [OF jh, of cm freq neox pos ?old, unfolded ab fst_conv snd_conv]
      pair_values(3-5) [OF jh, of neox, unfolded ab fst_conv snd_conv]
    have lim: "offset + a < fs_len data" "offset + b < fs_len data" using pv(4,5) len by simp_all
    have "offset + a \<notin> K" "offset + b \<notin> K" using K(3) by (auto simp: pair_set_def ab)
    then have old: "ldf m1 data (offset + a) = ?old a" "ldf m1 data (offset + b) = ?old b"
      using wrote_same [OF K(1)] by simp_all
    have "K \<subseteq> {..<fs_len data}" using K(2) len unfolding cover by auto
    then have fr: "fr j m1 = Some (freq j)" using freq jh K(1) by blast
    have "wrote data {offset + a, offset + b} ?f m1
        (st32 (st32 m1 (elem_addr data (offset + a)) (?f (offset + a))) (elem_addr data (offset + b)) (?f (offset + b)))"
      by (rule wrote_pair) (use pv(3) in simp)
    then show "\<exists>m2. do { let (idx0, idx1) = rope_pair neox half j;
            f \<leftarrow> fr j m1;
            let angle = f32_mul (f32_of_int pos) f;
            val1 \<leftarrow> rd m1 data (offset + idx0);
            val2 \<leftarrow> rd m1 data (offset + idx1);
            m2 \<leftarrow> wr data (offset + idx0) (fst (rotate cm angle val1 val2)) m1;
            wr data (offset + idx1) (snd (rotate cm angle val1 val2)) m2 } = Some m2 \<and> wrote data (?J j) ?f m1 m2"
      using lim old fr pv(1,2) by (simp add: ab Let_def pair_set_def)
  qed simp
  then show ?thesis unfolding cover .
qed

section \<open>All vectors\<close>

lemma wrote_extend:
  assumes "wrote s I f m m'" and "I \<subseteq> U" and "\<And>i. i \<in> U \<Longrightarrow> i \<notin> I \<Longrightarrow> f i = ldf m s i"
  shows "wrote s U f m m'"
  using assms wrote_same [OF assms(1)] unfolding wrote_def by (metis subsetD)

text \<open>The value of element \<open>x\<close> of a slice of vectors, \<open>numHeads\<close> for a token.\<close>

definition rope_value :: "CpuMath \<Rightarrow> (nat \<Rightarrow> f32) \<Rightarrow> bool \<Rightarrow> nat \<Rightarrow> nat \<Rightarrow> nat \<Rightarrow> int \<Rightarrow> (nat \<Rightarrow> f32) \<Rightarrow> nat \<Rightarrow> f32" where
  "rope_value cm freq neox half headDim numHeads startPos old x =
     rope_elem cm freq neox half (startPos + int (x div headDim div numHeads))
       (\<lambda>d. old (x div headDim * headDim + d)) (x mod headDim)"

lemma rope_slice_wrote:
  assumes len: "fs_len data = N * headDim" and dims: "0 < headDim" "0 < numHeads" "2 * half \<le> headDim"
    and freq: "\<And>j K f m1. j < half \<Longrightarrow> K \<subseteq> {..<fs_len data} \<Longrightarrow> wrote data K f m m1 \<Longrightarrow> fr j m1 = Some (freq j)"
  shows "\<exists>m'. rope_slice cm fr neox half data headDim numHeads startPos m = Some m' \<and>
    wrote data {..<N * headDim} (rope_value cm freq neox half headDim numHeads startPos (ldf m data)) m m'"
proof -
  let ?f = "rope_value cm freq neox half headDim numHeads startPos (ldf m data)"
  let ?J = "\<lambda>i. (+) (i * headDim) ` {..<2 * half}"
  let ?body = "\<lambda>i m. do { seqPos \<leftarrow> ndiv i numHeads;
      rope_vector cm fr neox half data (startPos + int seqPos) (i * headDim) m }"
  have dm: "(i * headDim + d) div headDim = i" "(i * headDim + d) mod headDim = d" if "d < 2 * half" for i d
    using that dims by simp_all
  have bound: "i * headDim + 2 * half \<le> N * headDim" if "i < N" for i
    using mult_le_mono1 [of "i + 1" N headDim] that dims by simp
  have "\<exists>m'. foldM ?body [0..<N] m = Some m' \<and> wrote data (\<Union>i\<in>set [0..<N]. ?J i) ?f m m'"
  proof (rule wrote_foldM)
    fix i j assume "i \<in> set [0..<N]" "j \<in> set [0..<N]" "i \<noteq> j"
    then show "?J i \<inter> ?J j = {}" using dm(1) by (auto simp: image_iff) (metis)
  next
    fix i m1 K
    assume i: "i \<in> set [0..<N]" and K: "wrote data K ?f m m1" "K \<subseteq> (\<Union>i\<in>set [0..<N]. ?J i)" "?J i \<inter> K = {}"
    let ?pos = "startPos + int (i div numHeads)"
    have sub: "K \<subseteq> {..<fs_len data}" using K(2) bound len by fastforce
    have "fr j m2 = Some (freq j)" if "j < half" "L \<subseteq> {..<fs_len data}" "wrote data L g m1 m2" for j L g m2
    proof -
      have "wrote data K (ldf m1 data) m m1" by (rule wrote_cong [OF K(1)]) (simp add: wroteD [OF K(1)])
      then have "wrote data (K \<union> L) (ldf m2 data) m m2"
        using wrote_join [OF K(1) that(3)] by blast
      then show ?thesis using freq [OF that(1)] sub that(2) by blast
    qed
    then obtain m2 where m2: "rope_vector cm fr neox half data ?pos (i * headDim) m1 = Some m2"
      "wrote data (?J i) (\<lambda>x. rope_elem cm freq neox half ?pos (\<lambda>d. ldf m1 data (i * headDim + d)) (x - i * headDim)) m1 m2"
      using rope_vector_wrote [of "i * headDim" half data m1 fr freq cm neox ?pos] bound i len by auto
    have "wrote data (?J i) ?f m1 m2"
    proof (rule wrote_cong [OF m2(2)])
      fix x assume "x \<in> ?J i"
      then obtain d where d: "x = i * headDim + d" "d < 2 * half" by auto
      have "ldf m1 data (i * headDim + e) = ldf m data (i * headDim + e)" if "e < 2 * half" for e
        using K(3) that by (intro wrote_same [OF K(1)]) auto
      then show "rope_elem cm freq neox half ?pos (\<lambda>d. ldf m1 data (i * headDim + d)) (x - i * headDim) = ?f x"
        using d dm rope_elem_old [of d half "\<lambda>d. ldf m1 data (i * headDim + d)" "\<lambda>d. ldf m data (i * headDim + d)"]
        by (simp add: rope_value_def)
    qed
    then show "\<exists>m2. ?body i m1 = Some m2 \<and> wrote data (?J i) ?f m1 m2" using m2(1) dims by (auto simp: ndiv_def)
  qed simp
  then obtain m' where m': "foldM ?body [0..<N] m = Some m'" "wrote data (\<Union>i\<in>set [0..<N]. ?J i) ?f m m'" by blast
  have "wrote data {..<N * headDim} ?f m m'"
  proof (rule wrote_extend [OF m'(2)])
    show "(\<Union>i\<in>set [0..<N]. ?J i) \<subseteq> {..<N * headDim}" using bound by fastforce
    fix x assume x: "x \<in> {..<N * headDim}" "x \<notin> (\<Union>i\<in>set [0..<N]. ?J i)"
    then have "x div headDim < N" by (simp add: less_mult_imp_div_less)
    then have "\<not> x mod headDim < 2 * half" using x(2) by (metis (no_types, lifting) UN_iff atLeastLessThan_iff div_mult_mod_eq
        image_eqI le0 lessThan_iff set_upt)
    then show "?f x = ldf m data x" by (simp add: rope_value_def rope_elem_def Let_def)
  qed
  then show ?thesis using m'(1) len dims by (simp add: rope_slice_def ndiv_def)
qed

lemma rope_value_old:
  assumes "x < N * headDim" and "0 < headDim" and "2 * half \<le> headDim" and "\<And>y. y < N * headDim \<Longrightarrow> old y = old' y"
  shows "rope_value cm freq neox half headDim numHeads startPos old x = rope_value cm freq neox half headDim numHeads startPos old' x"
proof -
  have "x div headDim < N" using assms(1,2) by (simp add: less_mult_imp_div_less)
  then have "x div headDim * headDim + e < N * headDim" if "e < headDim" for e using that by (rule row_bound)
  then have o: "old (x div headDim * headDim + e) = old' (x div headDim * headDim + e)" if "e < headDim" for e
    using that assms(4) by blast
  show ?thesis
  proof (cases "x mod headDim < 2 * half")
    case True
    then show ?thesis unfolding rope_value_def by (rule rope_elem_old) (use o assms(3) in simp)
  next
    case False
    then show ?thesis using o [of "x mod headDim"] assms(2) by (simp add: rope_value_def rope_elem_def Let_def)
  qed
qed

section \<open>The kernel\<close>

lemma RoPE_elements:
  assumes "at_ptr q (seqLen * numHeads * headDim) Q" and "at_ptr k (seqLen * numKVHeads * headDim) K" and "\<not> DevicePtr_IsNil k"
    and "0 < headDim" and "0 < numHeads" and "0 < numKVHeads" and "ropeDim \<le> headDim" and "apart Q K"
    and "eff = (if ropeDim = 0 then headDim else ropeDim)"
  shows "\<exists>m1 m'. CPUBackend_RoPE cm q k headDim numHeads numKVHeads seqLen startPos ropeDim theta neox mem = Some m' \<and>
    wrote Q {..<seqLen * numHeads * headDim}
      (rope_value cm (\<lambda>j. cm_freq cm theta (2 * j) eff) neox (eff div 2) headDim numHeads startPos (ldf mem Q)) mem m1 \<and>
    wrote K {..<seqLen * numKVHeads * headDim}
      (rope_value cm (\<lambda>j. cm_freq cm theta (2 * j) eff) neox (eff div 2) headDim numKVHeads startPos (ldf mem K)) m1 m'"
proof -
  let ?freq = "\<lambda>j. cm_freq cm theta (2 * j) eff"
  have half: "2 * (eff div 2) \<le> headDim" using assms(7,9) by (auto split: if_splits)
  have lens: "fs_len Q = seqLen * numHeads * headDim" "fs_len K = seqLen * numKVHeads * headDim"
    using assms(1,2) by (simp_all add: at_ptr_def)
  note slice_ok = rope_slice_wrote [where fr = "\<lambda>j m. Some (?freq j)" and freq = ?freq, OF _ assms(4) _ half refl]
  obtain m1 where m1: "rope_slice cm (\<lambda>j m. Some (?freq j)) neox (eff div 2) Q headDim numHeads startPos mem = Some m1"
    "wrote Q {..<seqLen * numHeads * headDim} (rope_value cm ?freq neox (eff div 2) headDim numHeads startPos (ldf mem Q)) mem m1"
    using slice_ok [OF lens(1) assms(5), of cm neox startPos mem] by blast
  obtain m2 where m2: "rope_slice cm (\<lambda>j m. Some (?freq j)) neox (eff div 2) K headDim numKVHeads startPos m1 = Some m2"
    "wrote K {..<seqLen * numKVHeads * headDim} (rope_value cm ?freq neox (eff div 2) headDim numKVHeads startPos (ldf m1 K)) m1 m2"
    using slice_ok [OF lens(2) assms(6), of cm neox startPos m1] by blast
  have same: "ldf m1 K i = ldf mem K i" if "i < fs_len K" for i
    using wrote_apart [OF m1(2) _ assms(8) that] lens by simp
  have "wrote K {..<seqLen * numKVHeads * headDim} (rope_value cm ?freq neox (eff div 2) headDim numKVHeads startPos (ldf mem K)) m1 m2"
    by (rule wrote_cong [OF m2(2)], rule rope_value_old [OF _ assms(4) half, of _ "seqLen * numKVHeads"]) (use same lens in auto)
  moreover have "CPUBackend_RoPE cm q k headDim numHeads numKVHeads seqLen startPos ropeDim theta neox mem = Some m2"
    unfolding CPUBackend_RoPE_def Let_def assms(9) [symmetric]
    using m1(1) m2(1) assms(1-3) by (simp add: at_ptr_def)
  ultimately show ?thesis using m1(2) by blast
qed

text \<open>
  C19: \<open>RoPE\<close> rotates in place the first \<open>ropeDim\<close> elements (all for 0) of every query and key vector by the position of
  its token, \<open>startPos\<close> plus the number of the token, in either pairing; the other elements keep their values. A vector
  of a prompt therefore gets what decoding its token alone at its position gives.
\<close>

theorem RoPE_rotates_by_position:
  assumes "at_ptr q (seqLen * numHeads * headDim) Q" and "at_ptr k (seqLen * numKVHeads * headDim) K" and "\<not> DevicePtr_IsNil k"
    and "0 < headDim" and "0 < numHeads" and "0 < numKVHeads" and "ropeDim \<le> headDim" and "apart Q K"
    and "eff = (if ropeDim = 0 then headDim else ropeDim)"
  shows "\<exists>m1 m'. CPUBackend_RoPE cm q k headDim numHeads numKVHeads seqLen startPos ropeDim theta neox mem = Some m' \<and>
    wrote Q {..<seqLen * numHeads * headDim}
      (rope_value cm (\<lambda>j. cm_freq cm theta (2 * j) eff) neox (eff div 2) headDim numHeads startPos (ldf mem Q)) mem m1 \<and>
    wrote K {..<seqLen * numKVHeads * headDim}
      (rope_value cm (\<lambda>j. cm_freq cm theta (2 * j) eff) neox (eff div 2) headDim numKVHeads startPos (ldf mem K)) m1 m'"
  by (rule RoPE_elements [OF assms])

theorem RoPE_rotates_by_position_witness:
  "\<exists>m1 m'. CPUBackend_RoPE demo_math (NewDevicePtr CPU (word_of_int 64)) (NewDevicePtr CPU (word_of_int 512)) 8 2 1 3 7 6 0x461C4000 True demo_mem = Some m' \<and>
    wrote (demo_slice 64 48) {..<48}
      (rope_value demo_math (\<lambda>j. cm_freq demo_math 0x461C4000 (2 * j) 6) True 3 8 2 7 (ldf demo_mem (demo_slice 64 48))) demo_mem m1 \<and>
    wrote (demo_slice 512 24) {..<24}
      (rope_value demo_math (\<lambda>j. cm_freq demo_math 0x461C4000 (2 * j) 6) True 3 8 1 7 (ldf demo_mem (demo_slice 512 24))) m1 m'"
proof -
  have "\<not> DevicePtr_IsNil (NewDevicePtr CPU (word_of_int 512))" by (simp add: ptr_defs)
  then show ?thesis
    using RoPE_rotates_by_position [of "NewDevicePtr CPU (word_of_int 64)" 3 2 8 "demo_slice 64 48"
        "NewDevicePtr CPU (word_of_int 512)" 1 "demo_slice 512 24" 6 6 demo_math 7 "0x461C4000" True demo_mem]
      demo_at_ptr [of 64 48] demo_at_ptr [of 512 24]
    by (simp add: apart_def elem_addr_def) (simp add: demo_slice_def)
qed

text \<open>The vector of token \<open>i\<close> of a prompt and of the same token alone.\<close>

lemma rope_value_token:
  assumes "0 < headDim" and "0 < numHeads" and "x < numHeads * headDim"
  shows "rope_value cm freq neox half headDim numHeads startPos old (i * (numHeads * headDim) + x) =
    rope_value cm freq neox half headDim numHeads (startPos + int i) (\<lambda>y. old (i * (numHeads * headDim) + y)) x"
proof -
  have e: "i * (numHeads * headDim) + x = x + (i * numHeads) * headDim" by simp
  have v: "(i * (numHeads * headDim) + x) div headDim = i * numHeads + x div headDim" "(i * (numHeads * headDim) + x) mod headDim = x mod headDim"
    unfolding e using assms(1) by simp_all
  have "x div headDim < numHeads" using assms by (simp add: less_mult_imp_div_less)
  then have "(i * numHeads + x div headDim) div numHeads = i" "x div headDim div numHeads = 0" by simp_all
  then show ?thesis unfolding rope_value_def v by (simp add: algebra_simps)
qed

end
