(* ===== verification/Cpu_Rows.thy ===== *)
theory Cpu_Rows
  imports Cpu_Rope
begin

text \<open>
  The kernels of the CPU that work row by row or element by element, as functions on lists of floats: normalization,
  activations, sums, bias. An input may be the output itself or lie apart from it.
\<close>

section \<open>Rows\<close>

definition vec_at :: "nat \<Rightarrow> nat \<Rightarrow> 'a list \<Rightarrow> 'a list" where
  "vec_at n i xs = take n (drop (i * n) xs)"

lemma length_vec_at: "i < r \<Longrightarrow> length xs = r * n \<Longrightarrow> length (vec_at n i xs) = n"
  using row_bound [of i r "n - 1" n] by (cases n) (simp_all add: vec_at_def)

lemma nth_vec_at: "j < n \<Longrightarrow> i * n + j < length xs \<Longrightarrow> vec_at n i xs ! j = xs ! (i * n + j)"
  by (simp add: vec_at_def)

lemma floats_vec_at: "i * n + n \<le> l \<Longrightarrow> floats m s (i * n) n = vec_at n i (floats m s 0 l)"
  by (intro nth_equalityI) (simp_all add: floats_def vec_at_def)

lemma row_end: "i < r \<Longrightarrow> i * n + n \<le> r * (n :: nat)"
proof -
  assume "i < r"
  then have "(i + 1) * n \<le> r * n" by (intro mult_le_mono1) simp
  then show ?thesis by (simp only: add_mult_distrib mult_1)
qed

lemma concat_rows:
  assumes "\<And>i. i < r \<Longrightarrow> length (g i) = c"
  shows "concat (map g [0..<r]) = map (\<lambda>x. g (x div c) ! (x mod c)) [0..<r * c]"
  using assms
proof (induction r)
  case (Suc r)
  have "[0..<Suc r * c] = [0..<r * c] @ [r * c..<r * c + c]"
    using upt_add_eq_append [of 0 "r * c" c] by (simp only: mult_Suc add.commute zero_le)
  moreover have "map (\<lambda>x. g (x div c) ! (x mod c)) [r * c..<r * c + c] = g r"
    using Suc.prems [of r] by (intro nth_equalityI) simp_all
  ultimately show ?case using Suc by simp
qed simp

text \<open>An input is the output itself, or apart from it.\<close>

definition input_ok :: "fslice \<Rightarrow> fslice \<Rightarrow> bool" where
  "input_ok out x \<longleftrightarrow> x = out \<or> apart out x"

lemma input_ok_same [simp]: "input_ok s s"
  by (simp add: input_ok_def)

lemma reads_same:
  assumes "input_ok out x" and "wrote out K f m m1" and "K \<subseteq> {..<fs_len out}" and "k < fs_len x" and "k \<notin> K"
  shows "ldf m1 x k = ldf m x k"
  using assms wrote_same [OF assms(2)] wrote_apart [OF assms(2,3)] unfolding input_ok_def by blast

lemma wrote_row_elems:
  assumes "a + cols \<le> fs_len out"
    and "\<And>j m2 K. j < cols \<Longrightarrow> wrote out K f m1 m2 \<Longrightarrow> K \<subseteq> {a..<a + cols} \<Longrightarrow> a + j \<notin> K \<Longrightarrow>
      body j m2 = wr out (a + j) (f (a + j)) m2"
  shows "\<exists>m2. foldM body [0..<cols] m1 = Some m2 \<and> wrote out {a..<a + cols} f m1 m2"
proof -
  have c: "(\<Union>j\<in>set [0..<cols]. {a + j}) = {a..<a + cols}"
  proof (intro equalityI subsetI)
    fix x assume "x \<in> {a..<a + cols}"
    then show "x \<in> (\<Union>j\<in>set [0..<cols]. {a + j})" by (intro UN_I [of "x - a"]) auto
  qed auto
  have "\<exists>m2. foldM body [0..<cols] m1 = Some m2 \<and> wrote out (\<Union>j\<in>set [0..<cols]. {a + j}) f m1 m2"
  proof (rule wrote_foldM)
    fix j m2 K assume "j \<in> set [0..<cols]" and K: "wrote out K f m1 m2" "K \<subseteq> (\<Union>j\<in>set [0..<cols]. {a + j})" "{a + j} \<inter> K = {}"
    then have j: "j < cols" by simp
    have "body j m2 = wr out (a + j) (f (a + j)) m2"
      using assms(2) [OF j K(1)] K(2,3) unfolding c by blast
    then show "\<exists>m3. body j m2 = Some m3 \<and> wrote out {a + j} f m2 m3"
      using assms(1) j by (auto intro: wrote_wr)
  qed auto
  then show ?thesis unfolding c .
qed

lemma wrote_rows:
  assumes "\<And>i m1 K. i < rows \<Longrightarrow> wrote out K f m m1 \<Longrightarrow> K \<subseteq> {..<rows * cols} \<Longrightarrow> {i * cols..<i * cols + cols} \<inter> K = {} \<Longrightarrow>
      \<exists>m2. body i m1 = Some m2 \<and> wrote out {i * cols..<i * cols + cols} f m1 m2"
  shows "\<exists>m'. foldM body [0..<rows] m = Some m' \<and> wrote out {..<rows * cols} f m m'"
proof -
  let ?J = "\<lambda>i. {i * cols..<i * cols + cols}"
  have dm: "x div cols = i" if "x \<in> ?J i" for x i
    by (rule div_nat_eqI) (use that in \<open>simp_all add: mult.commute\<close>)
  have c: "(\<Union>i\<in>set [0..<rows]. ?J i) = {..<rows * cols}"
  proof (intro equalityI subsetI)
    fix x assume "x \<in> {..<rows * cols}"
    then have x: "x < rows * cols" by simp
    then have c: "0 < cols" by (cases cols) auto
    then have "x div cols < rows" using x by (simp add: less_mult_imp_div_less)
    moreover have "x \<in> ?J (x div cols)"
      unfolding atLeastLessThan_iff using div_mult_mod_eq [of x cols] mod_less_divisor [OF c, of x] by linarith
    ultimately show "x \<in> (\<Union>i\<in>set [0..<rows]. ?J i)" by (intro UN_I [of "x div cols"]) (simp_all only: set_upt atLeastLessThan_iff zero_le)
  next
    fix x assume "x \<in> (\<Union>i\<in>set [0..<rows]. ?J i)"
    then obtain i where "i < rows" "x < i * cols + cols" by auto
    then show "x \<in> {..<rows * cols}" using row_end [of i rows cols] by simp
  qed
  have "\<exists>m'. foldM body [0..<rows] m = Some m' \<and> wrote out (\<Union>i\<in>set [0..<rows]. ?J i) f m m'"
  proof (rule wrote_foldM)
    fix i j :: nat assume "i \<noteq> j"
    then show "?J i \<inter> ?J j = {}" using dm by blast
  next
    fix i m1 K assume "i \<in> set [0..<rows]" "wrote out K f m m1" "K \<subseteq> (\<Union>i\<in>set [0..<rows]. ?J i)" "?J i \<inter> K = {}"
    then show "\<exists>m2. body i m1 = Some m2 \<and> wrote out (?J i) f m1 m2" unfolding c using assms [of i K m1] by simp
  qed simp
  then show ?thesis unfolding c .
qed

section \<open>Normalization\<close>

definition rms_norm :: "CpuMath \<Rightarrow> f32 \<Rightarrow> f32 list \<Rightarrow> f32 list \<Rightarrow> f32 list" where
  "rms_norm cm eps ws xs =
     (let rms = cm_sqrt cm (f32_add (f32_div (dot_value (cm_fma cm) xs xs) (f32_of_int (len xs))) eps)
      in map2 (\<lambda>x w. f32_mul (f32_div x rms) w) xs ws)"

definition layer_norm :: "CpuMath \<Rightarrow> f32 \<Rightarrow> f32 list \<Rightarrow> f32 list \<Rightarrow> f32 list \<Rightarrow> f32 list" where
  "layer_norm cm eps ws bs xs =
     (let n = f32_of_int (len xs);
          mean = f32_div (foldl f32_add 0 xs) n;
          variance = f32_div (foldl (\<lambda>s v. let d = f32_sub v mean in f32_mul_add (cm_fma cm) d d s) 0 xs) n;
          invStd = f32_div f32_one (cm_sqrt cm (f32_add variance eps))
      in map (\<lambda>(v, w, b). f32_mul_add (cm_fma cm) (f32_mul (f32_sub v mean) invStd) w b) (zip xs (zip ws bs)))"

lemma length_norms [simp]:
  "length (rms_norm cm eps ws xs) = min (length xs) (length ws)"
  "length (layer_norm cm eps ws bs xs) = min (length xs) (min (length ws) (length bs))"
  by (simp_all add: rms_norm_def layer_norm_def Let_def)

lemma length_floats [simp]: "length (floats m s off n) = n"
  by (simp add: floats_def)

lemma foldM_floats:
  assumes "\<And>j. j < n \<Longrightarrow> rd m s (off + j) = Some (ldf m s (off + j))"
  shows "foldM (\<lambda>j a. do { v \<leftarrow> rd m s (off + j); Some (f a v) }) [0..<n] a = Some (foldl f a (floats m s off n))"
proof -
  have "foldM (\<lambda>j a. do { v \<leftarrow> rd m s (off + j); Some (f a v) }) [0..<n] a =
      Some (foldl (\<lambda>a j. f a (ldf m s (off + j))) a [0..<n])"
    by (rule foldM_pure) (simp add: assms)
  then show ?thesis by (simp add: floats_def foldl_map)
qed

lemma row_untouched:
  assumes "input_ok out x" and "wrote out K f m m1" and "K \<subseteq> {..<fs_len out}" and "{a..<a + n} \<inter> K = {}" and "a + n \<le> fs_len x"
  shows "floats m1 x a n = floats m x a n"
proof -
  have "ldf m1 x (a + j) = ldf m x (a + j)" if "j < n" for j
  proof (rule reads_same [OF assms(1-3)])
    have "a + j \<in> {a..<a + n}" using that by simp
    then show "a + j \<notin> K" using assms(4) by blast
  qed (use assms(5) that in simp)
  then show ?thesis by (simp add: floats_def)
qed

lemma RMSNorm_wrote:
  assumes len: "fs_len x = rows * cols" "fs_len w = cols" "fs_len out = rows * cols" and ok: "input_ok out x" "apart out w"
  shows "\<exists>m'. cpuBackend_RMSNorm cm x w out rows cols eps m = Some m' \<and>
    wrote out {..<rows * cols} (\<lambda>k. rms_norm cm eps (floats m w 0 cols) (floats m x (k div cols * cols) cols) ! (k mod cols)) m m'"
  unfolding cpuBackend_RMSNorm_def
proof (rule wrote_rows)
  fix i m1 K
  let ?f = "\<lambda>k. rms_norm cm eps (floats m w 0 cols) (floats m x (k div cols * cols) cols) ! (k mod cols)"
  assume i: "i < rows" and K: "wrote out K ?f m m1" "K \<subseteq> {..<rows * cols}" "{i * cols..<i * cols + cols} \<inter> K = {}"
  note b = row_end [OF i, of cols]
  let ?row = "floats m x (i * cols) cols"
  let ?rms = "cm_sqrt cm (f32_add (f32_div (dot_value (cm_fma cm) ?row ?row) (f32_of_int (int cols))) eps)"
  have row: "floats m1 x (i * cols) cols = ?row"
    by (rule row_untouched [OF ok(1) K(1) _ K(3)]) (use K(2) len b in auto)
  have dot: "dot_loop (cm_fma cm) m1 x (\<lambda>j. i * cols + j) x (\<lambda>j. i * cols + j) cols = Some (dot_value (cm_fma cm) ?row ?row)"
    unfolding row [symmetric] using b len by (subst dot_loop_value) (simp_all add: floats_def)
  have "\<exists>m2. foldM (\<lambda>j m. do { xv \<leftarrow> rd m x (i * cols + j); wv \<leftarrow> rd m w j;
      wr out (i * cols + j) (f32_mul (f32_div xv ?rms) wv) m }) [0..<cols] m1 = Some m2 \<and>
      wrote out {i * cols..<i * cols + cols} ?f m1 m2"
  proof (rule wrote_row_elems)
    fix j m2 K2
    assume j: "j < cols" and K2: "wrote out K2 ?f m1 m2" "K2 \<subseteq> {i * cols..<i * cols + cols}" "i * cols + j \<notin> K2"
    have sub: "K2 \<subseteq> {..<fs_len out}" using K2(2) len b by auto
    have "ldf m2 x (i * cols + j) = ldf m1 x (i * cols + j)"
      using reads_same [OF ok(1) K2(1) sub _ K2(3)] len b j by simp
    also have "\<dots> = ?row ! j" using j unfolding row [symmetric] by (simp add: floats_def)
    finally have x: "ldf m2 x (i * cols + j) = ?row ! j" .
    have "ldf m2 w j = ldf m w j"
      using wrote_apart [OF K2(1) sub ok(2)] wrote_apart [OF K(1) _ ok(2)] K(2) len j by simp
    then show "do { xv \<leftarrow> rd m2 x (i * cols + j); wv \<leftarrow> rd m2 w j; wr out (i * cols + j) (f32_mul (f32_div xv ?rms) wv) m2 } =
        wr out (i * cols + j) (?f (i * cols + j)) m2"
      using j len b x by (simp add: rms_norm_def len_def floats_nth Let_def)
  qed (use b len in simp)
  then show "\<exists>m2. rms_row cm x w out cols eps i m1 = Some m2 \<and> wrote out {i * cols..<i * cols + cols} ?f m1 m2"
    by (simp add: rms_row_def dot)
qed

lemma LayerNorm_wrote:
  assumes len: "fs_len x = rows * cols" "fs_cap x = rows * cols" "fs_len w = cols" "fs_len b = cols" "fs_len out = rows * cols"
    and ok: "input_ok out x" "apart out w" "apart out b"
  shows "\<exists>m'. foldM (layer_norm_row cm x w b out cols eps) [0..<rows] m = Some m' \<and>
    wrote out {..<rows * cols} (\<lambda>k. layer_norm cm eps (floats m w 0 cols) (floats m b 0 cols)
      (floats m x (k div cols * cols) cols) ! (k mod cols)) m m'"
proof (rule wrote_rows)
  fix i m1 K
  let ?f = "\<lambda>k. layer_norm cm eps (floats m w 0 cols) (floats m b 0 cols) (floats m x (k div cols * cols) cols) ! (k mod cols)"
  assume i: "i < rows" and K: "wrote out K ?f m m1" "K \<subseteq> {..<rows * cols}" "{i * cols..<i * cols + cols} \<inter> K = {}"
  note e = row_end [OF i, of cols]
  let ?row = "floats m x (i * cols) cols" and ?n = "f32_of_int (int cols)"
  let ?mean = "f32_div (foldl f32_add 0 ?row) ?n"
  let ?var = "f32_div (foldl (\<lambda>s v. f32_mul_add (cm_fma cm) (f32_sub v ?mean) (f32_sub v ?mean) s) 0 ?row) ?n"
  let ?inv = "f32_div f32_one (cm_sqrt cm (f32_add ?var eps))"
  obtain rw where rw: "sub x (i * cols) (i * cols + cols) = Some rw" "fs_len rw = cols" using e len by (simp add: sub_def)
  have row: "floats m1 rw 0 cols = ?row"
    unfolding floats_sub [OF rw(1)] by (rule row_untouched [OF ok(1) K(1) _ K(3)]) (use K(2) len e in auto)
  have sums: "foldM (\<lambda>j s. do { v \<leftarrow> rd m1 rw j; Some (g s v) }) [0..<cols] z = Some (foldl g z ?row)" for g and z :: f32
    using foldM_floats [of cols m1 rw 0 g z] rw(2) row by simp
  have "\<exists>m2. foldM (\<lambda>j m. do { v \<leftarrow> rd m rw j; wv \<leftarrow> rd m w j; bv \<leftarrow> rd m b j;
      wr out (i * cols + j) (f32_mul_add (cm_fma cm) (f32_mul (f32_sub v ?mean) ?inv) wv bv) m }) [0..<cols] m1 = Some m2 \<and>
      wrote out {i * cols..<i * cols + cols} ?f m1 m2"
  proof (rule wrote_row_elems)
    fix j m2 K2
    assume j: "j < cols" and K2: "wrote out K2 ?f m1 m2" "K2 \<subseteq> {i * cols..<i * cols + cols}" "i * cols + j \<notin> K2"
    have sub: "K2 \<subseteq> {..<fs_len out}" using K2(2) len e by auto
    have "ldf m2 rw j = ldf m1 rw j"
      using reads_same [OF ok(1) K2(1) sub _ K2(3)] len e j by (simp add: ldf_sub [OF rw(1)])
    also have "\<dots> = ?row ! j" using j unfolding row [symmetric] by (simp add: floats_def)
    finally have x: "ldf m2 rw j = ?row ! j" .
    have par: "ldf m2 p j = ldf m p j" if "apart out p" "fs_len p = cols" for p
      using wrote_apart [OF K2(1) sub that(1)] wrote_apart [OF K(1) _ that(1)] K(2) len j that(2) by simp
    show "do { v \<leftarrow> rd m2 rw j; wv \<leftarrow> rd m2 w j; bv \<leftarrow> rd m2 b j;
        wr out (i * cols + j) (f32_mul_add (cm_fma cm) (f32_mul (f32_sub v ?mean) ?inv) wv bv) m2 } =
        wr out (i * cols + j) (?f (i * cols + j)) m2"
      using j len x rw(2) par [OF ok(2) len(3)] par [OF ok(3) len(4)]
      by (simp add: layer_norm_def len_def floats_nth Let_def)
  qed (use e len in simp)
  then show "\<exists>m2. layer_norm_row cm x w b out cols eps i m1 = Some m2 \<and> wrote out {i * cols..<i * cols + cols} ?f m1 m2"
    by (simp add: layer_norm_row_def rw(1) sums Let_def)
qed

section \<open>Element by element\<close>

lemma map_loop_wrote:
  assumes len: "fs_len x = n" "fs_len out = n" and ok: "input_ok out x"
  shows "\<exists>m'. map_loop f x out n m = Some m' \<and> wrote out {..<n} (\<lambda>i. f (ldf m x i)) m m'"
proof -
  have "\<exists>m'. map_loop f x out n m = Some m' \<and> wrote out (set [0..<n]) (\<lambda>i. f (ldf m x i)) m m'"
    unfolding map_loop_def
  proof (rule wrote_each)
    fix r m1 K assume r: "r \<in> set [0..<n]" and K: "wrote out K (\<lambda>i. f (ldf m x i)) m m1" "K \<subseteq> set [0..<n]" "r \<notin> K"
    have "ldf m1 x r = ldf m x r" by (rule reads_same [OF ok K(1) _ _ K(3)]) (use K(2) r len in auto)
    then show "do { v \<leftarrow> rd m1 x r; wr out r (f v) m1 } = wr out r (f (ldf m x r)) m1" using r len by simp
  qed (use len in auto)
  then show ?thesis by (simp add: atLeast0LessThan)
qed

lemma map2_loop_wrote:
  assumes len: "fs_len x = n" "fs_len y = n" "fs_len out = n" and ok: "input_ok out x" "input_ok out y"
  shows "\<exists>m'. map2_loop f x y out n m = Some m' \<and> wrote out {..<n} (\<lambda>i. f (ldf m x i) (ldf m y i)) m m'"
proof -
  let ?f = "\<lambda>i. f (ldf m x i) (ldf m y i)"
  have "\<exists>m'. map2_loop f x y out n m = Some m' \<and> wrote out (set [0..<n]) ?f m m'"
    unfolding map2_loop_def
  proof (rule wrote_each)
    fix r m1 K assume r: "r \<in> set [0..<n]" and K: "wrote out K ?f m m1" "K \<subseteq> set [0..<n]" "r \<notin> K"
    have "ldf m1 x r = ldf m x r" by (rule reads_same [OF ok(1) K(1) _ _ K(3)]) (use K(2) r len in auto)
    moreover have "ldf m1 y r = ldf m y r" by (rule reads_same [OF ok(2) K(1) _ _ K(3)]) (use K(2) r len in auto)
    ultimately show "do { v \<leftarrow> rd m1 x r; w \<leftarrow> rd m1 y r; wr out r (f v w) m1 } = wr out r (?f r) m1" using r len by simp
  qed (use len in auto)
  then show ?thesis by (simp add: atLeast0LessThan)
qed

lemma AddBias_wrote:
  assumes at: "at_ptr xp (rows * cols) x" "at_ptr bp cols b" "at_ptr op (rows * cols) out"
    and ok: "input_ok out x" "apart out b"
  shows "\<exists>m'. CPUBackend_AddBias xp bp op rows cols m = Some m' \<and>
    wrote out {..<rows * cols} (\<lambda>k. map2 f32_add (floats m x (k div cols * cols) cols) (floats m b 0 cols) ! (k mod cols)) m m'"
proof -
  let ?f = "\<lambda>k. map2 f32_add (floats m x (k div cols * cols) cols) (floats m b 0 cols) ! (k mod cols)"
  have len: "fs_len x = rows * cols" "fs_len b = cols" "fs_len out = rows * cols" using at by (simp_all add: at_ptr_def)
  have "\<exists>m'. foldM (\<lambda>i. foldM (\<lambda>j m. do { v \<leftarrow> rd m x (i * cols + j); c \<leftarrow> rd m b j;
      wr out (i * cols + j) (f32_add v c) m }) [0..<cols]) [0..<rows] m = Some m' \<and> wrote out {..<rows * cols} ?f m m'"
  proof (rule wrote_rows, rule wrote_row_elems)
    fix i m1 K j m2 K2
    assume i: "i < rows" and K: "wrote out K ?f m m1" "K \<subseteq> {..<rows * cols}" "{i * cols..<i * cols + cols} \<inter> K = {}"
    note e = row_end [OF i, of cols]
    show "i * cols + cols \<le> fs_len out" using e len by simp
    assume j: "j < cols" and K2: "wrote out K2 ?f m1 m2" "K2 \<subseteq> {i * cols..<i * cols + cols}" "i * cols + j \<notin> K2"
    have sub: "K2 \<subseteq> {..<fs_len out}" using K2(2) len e by auto
    have sub1: "K \<subseteq> {..<fs_len out}" using K(2) len by simp
    have fresh: "i * cols + j \<notin> K" using K(3) j by (meson atLeastLessThan_iff disjoint_iff le_add1 nat_add_left_cancel_less)
    have "ldf m2 x (i * cols + j) = ldf m x (i * cols + j)"
      using reads_same [OF ok(1) K2(1) sub _ K2(3)] reads_same [OF ok(1) K(1) sub1 _ fresh] len e j by simp
    moreover have "ldf m2 b j = ldf m b j"
      using wrote_apart [OF K2(1) sub ok(2)] wrote_apart [OF K(1) sub1 ok(2)] len j by simp
    ultimately show "do { v \<leftarrow> rd m2 x (i * cols + j); c \<leftarrow> rd m2 b j; wr out (i * cols + j) (f32_add v c) m2 } =
        wr out (i * cols + j) (?f (i * cols + j)) m2"
      using j len e by (simp add: floats_nth)
  qed
  then show ?thesis using at by (simp add: CPUBackend_AddBias_def at_ptr_def)
qed

end
