(* ===== verification/Block_Runtime.thy ===== *)
theory Block_Runtime
  imports Cpu_Kernels Model_Config
begin

text \<open>
  A transformer layer, \<open>inference/runtime/block.go\<close>, over the interfaces of \<open>inference/backend/backend.go\<close>: the
  construction of a layer from the configuration, the dispatch of its operations, and \<open>Execute\<close>, the forward pass
  without a cache. A backend is a record of operations on a state \<open>'s\<close>, an optional interface an option; \<open>None\<close> as the
  result of an operation is a panic. Sizes are natural numbers. The fields of a layer that only the GPU paths use
  (batching, half precision, fused kernels, scratch allocation, LoRA, the plan) are left out, and so is printing.
\<close>

section \<open>Backends\<close>

type_synonym 's matmul = "DevicePtr \<Rightarrow> DevicePtr \<Rightarrow> DevicePtr \<Rightarrow> nat \<Rightarrow> nat \<Rightarrow> nat \<Rightarrow> 's \<Rightarrow> 's option"

record 's QuantizedMatMul =
  qm_Q4_0 :: "'s matmul"
  qm_Q4_K :: "'s matmul"
  qm_Q6_K :: "'s matmul"
  qm_Q5_K :: "'s matmul"
  qm_Q5_0 :: "'s matmul"
  qm_Q8_0 :: "'s matmul"
  qm_BF16 :: "'s matmul"

record 's GELUOps =
  go_GELU :: "DevicePtr \<Rightarrow> DevicePtr \<Rightarrow> nat \<Rightarrow> 's \<Rightarrow> 's option"
  go_GELUMul :: "DevicePtr \<Rightarrow> DevicePtr \<Rightarrow> DevicePtr \<Rightarrow> nat \<Rightarrow> 's \<Rightarrow> 's option"

record 's SoftCapAttentionOps =
  sc_SDPASoftCap :: "DevicePtr \<Rightarrow> DevicePtr \<Rightarrow> DevicePtr \<Rightarrow> DevicePtr \<Rightarrow> nat \<Rightarrow> nat \<Rightarrow> nat \<Rightarrow> nat \<Rightarrow> f32 \<Rightarrow> f32 \<Rightarrow> nat \<Rightarrow> 's \<Rightarrow> 's option"
  sc_SDPAPrefillSoftCap :: "DevicePtr \<Rightarrow> DevicePtr \<Rightarrow> DevicePtr \<Rightarrow> DevicePtr \<Rightarrow> nat \<Rightarrow> nat \<Rightarrow> nat \<Rightarrow> nat \<Rightarrow> f32 \<Rightarrow> f32 \<Rightarrow> 's \<Rightarrow> 's option"

record 's Backend =
  be_Alloc :: "nat \<Rightarrow> 's \<Rightarrow> (DevicePtr \<times> 's) option"
  be_ToDevice :: "DevicePtr \<Rightarrow> byte list \<Rightarrow> 's \<Rightarrow> 's option"
  be_ToHost :: "byte list \<Rightarrow> DevicePtr \<Rightarrow> 's \<Rightarrow> byte list option"
  be_Sync :: "'s \<Rightarrow> 's option"
  be_MatMulTransposed :: "'s matmul"
  be_RMSNorm :: "DevicePtr \<Rightarrow> DevicePtr \<Rightarrow> DevicePtr \<Rightarrow> nat \<Rightarrow> nat \<Rightarrow> f32 \<Rightarrow> 's \<Rightarrow> 's option"
  be_RoPE :: "DevicePtr \<Rightarrow> DevicePtr \<Rightarrow> nat \<Rightarrow> nat \<Rightarrow> nat \<Rightarrow> nat \<Rightarrow> int \<Rightarrow> nat \<Rightarrow> f32 \<Rightarrow> bool \<Rightarrow> 's \<Rightarrow> 's option"
  be_SiLUMul :: "DevicePtr \<Rightarrow> DevicePtr \<Rightarrow> DevicePtr \<Rightarrow> nat \<Rightarrow> 's \<Rightarrow> 's option"
  be_Add :: "DevicePtr \<Rightarrow> DevicePtr \<Rightarrow> DevicePtr \<Rightarrow> nat \<Rightarrow> 's \<Rightarrow> 's option"
  be_Embedding :: "DevicePtr \<Rightarrow> nat \<Rightarrow> DevicePtr \<Rightarrow> DevicePtr \<Rightarrow> nat \<Rightarrow> nat \<Rightarrow> 's \<Rightarrow> 's option"
  be_SDPA :: "DevicePtr \<Rightarrow> DevicePtr \<Rightarrow> DevicePtr \<Rightarrow> DevicePtr \<Rightarrow> nat \<Rightarrow> nat \<Rightarrow> nat \<Rightarrow> nat \<Rightarrow> f32 \<Rightarrow> nat \<Rightarrow> 's \<Rightarrow> 's option"
  be_SDPAPrefill :: "DevicePtr \<Rightarrow> DevicePtr \<Rightarrow> DevicePtr \<Rightarrow> DevicePtr \<Rightarrow> nat \<Rightarrow> nat \<Rightarrow> nat \<Rightarrow> nat \<Rightarrow> f32 \<Rightarrow> 's \<Rightarrow> 's option"
  be_QuantizedMatMul :: "'s QuantizedMatMul option"
  be_LayerNorm :: "(DevicePtr \<Rightarrow> DevicePtr \<Rightarrow> DevicePtr \<Rightarrow> DevicePtr \<Rightarrow> nat \<Rightarrow> nat \<Rightarrow> f32 \<Rightarrow> 's \<Rightarrow> 's option) option"
  be_GELUOps :: "'s GELUOps option"
  be_AddBias :: "(DevicePtr \<Rightarrow> DevicePtr \<Rightarrow> DevicePtr \<Rightarrow> nat \<Rightarrow> nat \<Rightarrow> 's \<Rightarrow> 's option) option"
  be_SoftCapOps :: "'s SoftCapAttentionOps option"
  be_RoPEWithFreqs :: "(DevicePtr \<Rightarrow> DevicePtr \<Rightarrow> DevicePtr \<Rightarrow> nat \<Rightarrow> nat \<Rightarrow> nat \<Rightarrow> nat \<Rightarrow> int \<Rightarrow> bool \<Rightarrow> 's \<Rightarrow> 's option) option"
  be_ScaleBuffer :: "(DevicePtr \<Rightarrow> f32 \<Rightarrow> nat \<Rightarrow> 's \<Rightarrow> 's option) option"
  be_ResetPool :: "('s \<Rightarrow> 's option) option"

text \<open>
  The backend of the CPU: \<open>NewCPUBackend\<close> as the other parts see it, with the kernels of \<open>Cpu_Kernels\<close>. The address that
  \<open>Alloc\<close> returns is chosen by the run time, the argument \<open>alloc\<close>; it has no buffer pool.
\<close>

definition CPUBackend_Alloc :: "(nat \<Rightarrow> mem \<Rightarrow> 64 word) \<Rightarrow> nat \<Rightarrow> mem \<Rightarrow> (DevicePtr \<times> mem) option" where
  "CPUBackend_Alloc bufaddr bytes m =
     (if bytes = 0 then Some (nil_ptr, m)
      else let a = uint (bufaddr bytes m)
        in Some (NewDevicePtr CPU (bufaddr bytes m), \<lambda>b. if a \<le> b \<and> b < a + int bytes then 0 else m b))"

definition cpu_backend where
  "cpu_backend bufaddr blas cm sched ncpu =
     \<lparr>be_Alloc = CPUBackend_Alloc bufaddr, be_ToDevice = CPUBackend_ToDevice, be_ToHost = CPUBackend_ToHost, be_Sync = Some,
      be_MatMulTransposed = CPUBackend_MatMulTransposed blas cm sched ncpu, be_RMSNorm = CPUBackend_RMSNorm cm,
      be_RoPE = CPUBackend_RoPE cm, be_SiLUMul = CPUBackend_SiLUMul cm, be_Add = CPUBackend_Add,
      be_Embedding = CPUBackend_Embedding, be_SDPA = CPUBackend_SDPA cm, be_SDPAPrefill = CPUBackend_SDPAPrefill cm,
      be_QuantizedMatMul = Some \<lparr>qm_Q4_0 = CPUBackend_MatMulQ4_0 cm sched ncpu, qm_Q4_K = CPUBackend_MatMulQ4_K,
        qm_Q6_K = CPUBackend_MatMulQ6_K, qm_Q5_K = CPUBackend_MatMulQ5_K, qm_Q5_0 = CPUBackend_MatMulQ5_0,
        qm_Q8_0 = CPUBackend_MatMulQ8_0, qm_BF16 = CPUBackend_MatMulBF16\<rparr>,
      be_LayerNorm = Some (CPUBackend_LayerNorm cm),
      be_GELUOps = Some \<lparr>go_GELU = CPUBackend_GELU cm, go_GELUMul = CPUBackend_GELUMul cm\<rparr>,
      be_AddBias = Some CPUBackend_AddBias,
      be_SoftCapOps = Some \<lparr>sc_SDPASoftCap = CPUBackend_SDPASoftCap cm, sc_SDPAPrefillSoftCap = CPUBackend_SDPAPrefillSoftCap cm\<rparr>,
      be_RoPEWithFreqs = Some (CPUBackend_RoPEWithFreqs cm), be_ScaleBuffer = Some CPUBackend_ScaleBuffer,
      be_ResetPool = None\<rparr>"

section \<open>Layers\<close>

record 's BlockRuntime =
  br_backend :: "'s Backend"
  br_NumAttentionHeads :: nat
  br_NumKeyValueHeads :: nat
  br_HeadDim :: nat
  br_HiddenSize :: nat
  br_IntermediateSize :: nat
  br_RoPETheta :: f64
  br_RoPEDim :: nat
  br_RoPENeox :: bool
  br_SlidingWindow :: int
  br_AttentionWindowType :: AttentionWindowType
  br_RMSNormEPS :: f64
  br_NormType :: NormType
  br_MLPType :: MLPType
  br_HasBias :: bool
  br_ParallelResidual :: bool
  br_AttnNorm :: Tensor
  br_Wq :: Tensor
  br_Wk :: Tensor
  br_Wv :: Tensor
  br_Wo :: Tensor
  br_FFNNorm :: Tensor
  br_PostAttnNorm :: Tensor
  br_PostFFNNorm :: Tensor
  br_W1 :: Tensor
  br_W2 :: Tensor
  br_W3 :: Tensor
  br_AttnNormBias :: Tensor
  br_FFNNormBias :: Tensor
  br_WqBias :: Tensor
  br_WkBias :: Tensor
  br_WvBias :: Tensor
  br_WoBias :: Tensor
  br_W1Bias :: Tensor
  br_W2Bias :: Tensor
  br_quantMatMul :: "'s QuantizedMatMul option"
  br_layerNormOps :: "(DevicePtr \<Rightarrow> DevicePtr \<Rightarrow> DevicePtr \<Rightarrow> DevicePtr \<Rightarrow> nat \<Rightarrow> nat \<Rightarrow> f32 \<Rightarrow> 's \<Rightarrow> 's option) option"
  br_geluOps :: "'s GELUOps option"
  br_biasOps :: "(DevicePtr \<Rightarrow> DevicePtr \<Rightarrow> DevicePtr \<Rightarrow> nat \<Rightarrow> nat \<Rightarrow> 's \<Rightarrow> 's option) option"
  br_softCapOps :: "'s SoftCapAttentionOps option"
  br_scaledRoPEOps :: "(DevicePtr \<Rightarrow> DevicePtr \<Rightarrow> DevicePtr \<Rightarrow> nat \<Rightarrow> nat \<Rightarrow> nat \<Rightarrow> nat \<Rightarrow> int \<Rightarrow> bool \<Rightarrow> 's \<Rightarrow> 's option) option"
  br_ropeFreqBuf :: DevicePtr
  br_AttentionLogitSoftCap :: f32
  br_HasPostNorms :: bool
  br_QueryPreAttnScalar :: int

definition zero_tensor :: Tensor where
  "zero_tensor = NewTensor (NewShape []) Float32 nil_ptr"

text \<open>\<open>NewBlockRuntime\<close> caches the interfaces of the backend; the weights are set by the loader.\<close>

definition NewBlockRuntime :: "'s Backend \<Rightarrow> ModelConfig \<Rightarrow> 's BlockRuntime option" where
  "NewBlockRuntime b c =
     do { headDim \<leftarrow> EffectiveHeadDim c;
          Some \<lparr>br_backend = b, br_NumAttentionHeads = nat (cf_NumAttentionHeads c),
            br_NumKeyValueHeads = nat (cf_NumKeyValueHeads c), br_HeadDim = nat headDim,
            br_HiddenSize = nat (cf_HiddenSize c), br_IntermediateSize = nat (cf_IntermediateSize c),
            br_RoPETheta = cf_RoPETheta c, br_RoPEDim = nat (cf_RoPEDim c), br_RoPENeox = cf_RoPENeox c,
            br_SlidingWindow = cf_SlidingWindow c, br_AttentionWindowType = cf_AttentionWindowType c,
            br_RMSNormEPS = cf_RMSNormEPS c, br_NormType = cf_NormType c, br_MLPType = cf_MLPType c,
            br_HasBias = cf_HasBias c, br_ParallelResidual = cf_ParallelResidual c,
            br_AttnNorm = zero_tensor, br_Wq = zero_tensor, br_Wk = zero_tensor, br_Wv = zero_tensor, br_Wo = zero_tensor,
            br_FFNNorm = zero_tensor, br_PostAttnNorm = zero_tensor, br_PostFFNNorm = zero_tensor,
            br_W1 = zero_tensor, br_W2 = zero_tensor, br_W3 = zero_tensor,
            br_AttnNormBias = zero_tensor, br_FFNNormBias = zero_tensor, br_WqBias = zero_tensor, br_WkBias = zero_tensor,
            br_WvBias = zero_tensor, br_WoBias = zero_tensor, br_W1Bias = zero_tensor, br_W2Bias = zero_tensor,
            br_quantMatMul = be_QuantizedMatMul b, br_layerNormOps = be_LayerNorm b, br_geluOps = be_GELUOps b,
            br_biasOps = be_AddBias b, br_softCapOps = be_SoftCapOps b, br_scaledRoPEOps = be_RoPEWithFreqs b,
            br_ropeFreqBuf = nil_ptr, br_AttentionLogitSoftCap = cf_AttentionLogitSoftCap c,
            br_HasPostNorms = cf_HasPostNorms c, br_QueryPreAttnScalar = cf_QueryPreAttnScalar c\<rparr> }"

definition SetRoPEFreqBuffer :: "DevicePtr \<Rightarrow> 's BlockRuntime \<Rightarrow> 's BlockRuntime" where
  "SetRoPEFreqBuffer freqBuf b = b\<lparr>br_ropeFreqBuf := freqBuf\<rparr>"

section \<open>Dispatch\<close>

text \<open>\<open>invSqrt d\<close> is \<open>float32(1.0 / math.Sqrt(float64(d)))\<close>.\<close>

definition attentionScale :: "(int \<Rightarrow> f32) \<Rightarrow> 's BlockRuntime \<Rightarrow> f32" where
  "attentionScale invSqrt b =
     invSqrt (if br_QueryPreAttnScalar b > 0 then br_QueryPreAttnScalar b else int (br_HeadDim b))"

definition useSlidingWindow :: "'s BlockRuntime \<Rightarrow> int \<Rightarrow> bool" where
  "useSlidingWindow b layerIdx =
     (if br_SlidingWindow b \<le> 0 then False
      else case br_AttentionWindowType b of
          WindowSliding \<Rightarrow> True
        | WindowAlternating \<Rightarrow> go_mod layerIdx 2 = Some 0
        | _ \<Rightarrow> False)"

definition effectiveKVLen :: "'s BlockRuntime \<Rightarrow> int \<Rightarrow> int \<Rightarrow> int \<times> int" where
  "effectiveKVLen b layerIdx totalKVLen =
     (if useSlidingWindow b layerIdx \<and> totalKVLen > br_SlidingWindow b
      then (br_SlidingWindow b, totalKVLen - br_SlidingWindow b) else (totalKVLen, 0))"

definition applyRoPE :: "'s BlockRuntime \<Rightarrow> DevicePtr \<Rightarrow> DevicePtr \<Rightarrow> nat \<Rightarrow> nat \<Rightarrow> nat \<Rightarrow> nat \<Rightarrow> int \<Rightarrow> 's \<Rightarrow> 's option" where
  "applyRoPE b qPtr kPtr headDim numHeads numKVHeads seqLen startPos m =
     (case br_scaledRoPEOps b of
        Some rope \<Rightarrow>
          if \<not> DevicePtr_IsNil (br_ropeFreqBuf b)
          then rope qPtr kPtr (br_ropeFreqBuf b) headDim numHeads numKVHeads seqLen startPos (br_RoPENeox b) m
          else be_RoPE (br_backend b) qPtr kPtr headDim numHeads numKVHeads seqLen startPos (br_RoPEDim b)
                 (f32_of_f64 (br_RoPETheta b)) (br_RoPENeox b) m
      | None \<Rightarrow> be_RoPE (br_backend b) qPtr kPtr headDim numHeads numKVHeads seqLen startPos (br_RoPEDim b)
                 (f32_of_f64 (br_RoPETheta b)) (br_RoPENeox b) m)"

definition matMulTransposed :: "'s BlockRuntime \<Rightarrow> DevicePtr \<Rightarrow> Tensor \<Rightarrow> DevicePtr \<Rightarrow> nat \<Rightarrow> nat \<Rightarrow> nat \<Rightarrow> 's \<Rightarrow> 's option" where
  "matMulTransposed b a w out m n k s =
     (let f32 = be_MatMulTransposed (br_backend b) a (t_devicePtr w) out m n k s
      in if Tensor_IsQuantized w
         then case br_quantMatMul b of
             None \<Rightarrow> f32
           | Some q \<Rightarrow>
               (case t_quantProfile w of
                  Q4_0 \<Rightarrow> qm_Q4_0 q a (t_devicePtr w) out m n k s
                | Q4_K \<Rightarrow> qm_Q4_K q a (t_devicePtr w) out m n k s
                | Q6_K \<Rightarrow> qm_Q6_K q a (t_devicePtr w) out m n k s
                | Q5_K \<Rightarrow> qm_Q5_K q a (t_devicePtr w) out m n k s
                | Q5_0 \<Rightarrow> qm_Q5_0 q a (t_devicePtr w) out m n k s
                | Q8_0 \<Rightarrow> qm_Q8_0 q a (t_devicePtr w) out m n k s
                | BF16 \<Rightarrow> qm_BF16 q a (t_devicePtr w) out m n k s
                | _ \<Rightarrow> f32)
         else f32)"

definition matMulTransposedWithBias ::
  "'s BlockRuntime \<Rightarrow> DevicePtr \<Rightarrow> Tensor \<Rightarrow> Tensor \<Rightarrow> DevicePtr \<Rightarrow> nat \<Rightarrow> nat \<Rightarrow> nat \<Rightarrow> 's \<Rightarrow> 's option" where
  "matMulTransposedWithBias b a w bias out m n k s =
     do { s1 \<leftarrow> matMulTransposed b a w out m n k s;
          case br_biasOps b of
            Some addBias \<Rightarrow>
              if \<not> DevicePtr_IsNil (t_devicePtr bias) then addBias out (t_devicePtr bias) out m n s1 else Some s1
          | None \<Rightarrow> Some s1 }"

definition applyNorm :: "'s BlockRuntime \<Rightarrow> DevicePtr \<Rightarrow> DevicePtr \<Rightarrow> DevicePtr \<Rightarrow> DevicePtr \<Rightarrow> nat \<Rightarrow> nat \<Rightarrow> 's \<Rightarrow> 's option" where
  "applyNorm b x weight bias out rows cols s =
     (case br_layerNormOps b of
        Some layerNorm \<Rightarrow>
          if br_NormType b = NormLayerNorm
          then layerNorm x weight bias out rows cols (f32_of_f64 (br_RMSNormEPS b)) s
          else be_RMSNorm (br_backend b) x weight out rows cols (f32_of_f64 (br_RMSNormEPS b)) s
      | None \<Rightarrow> be_RMSNorm (br_backend b) x weight out rows cols (f32_of_f64 (br_RMSNormEPS b)) s)"

section \<open>The forward pass\<close>

text \<open>The intermediate buffers: parts of the scratch buffer on the CPU, fresh buffers elsewhere.\<close>

record BlockBuffers =
  bb_normOut :: DevicePtr
  bb_q :: DevicePtr
  bb_k :: DevicePtr
  bb_v :: DevicePtr
  bb_attnOut :: DevicePtr
  bb_gate :: DevicePtr
  bb_up :: DevicePtr

definition Execute_buffers :: "'s BlockRuntime \<Rightarrow> nat \<Rightarrow> DevicePtr \<Rightarrow> 's \<Rightarrow> (BlockBuffers \<times> 's) option" where
  "Execute_buffers b seqLen scratchPtr s =
     (let qSize = seqLen * br_NumAttentionHeads b * br_HeadDim b;
          kvSize = seqLen * br_NumKeyValueHeads b * br_HeadDim b;
          normOutBytes = seqLen * br_HiddenSize b * 4;
          qBytes = qSize * 4;
          kvBytes = kvSize * 4;
          attnOutBytes = qSize * 4;
          gateBytes = seqLen * br_IntermediateSize b * 4;
          upBytes = seqLen * br_IntermediateSize b * 4
      in if DevicePtr_Location scratchPtr = CPU then
           (let o1 = word_of_nat normOutBytes; o2 = o1 + word_of_nat qBytes; o3 = o2 + word_of_nat kvBytes;
                o4 = o3 + word_of_nat kvBytes; o5 = o4 + word_of_nat attnOutBytes; o6 = o5 + word_of_nat gateBytes
            in Some (\<lparr>bb_normOut = DevicePtrOffset scratchPtr 0, bb_q = DevicePtrOffset scratchPtr o1,
                 bb_k = DevicePtrOffset scratchPtr o2, bb_v = DevicePtrOffset scratchPtr o3,
                 bb_attnOut = DevicePtrOffset scratchPtr o4, bb_gate = DevicePtrOffset scratchPtr o5,
                 bb_up = DevicePtrOffset scratchPtr o6\<rparr>, s))
         else
           do { let alloc = be_Alloc (br_backend b);
                (normOut, s) \<leftarrow> alloc normOutBytes s;
                (q, s) \<leftarrow> alloc qBytes s;
                (k, s) \<leftarrow> alloc kvBytes s;
                (v, s) \<leftarrow> alloc kvBytes s;
                (attnOut, s) \<leftarrow> alloc attnOutBytes s;
                (gate, s) \<leftarrow> alloc gateBytes s;
                (up, s) \<leftarrow> alloc upBytes s;
                Some (\<lparr>bb_normOut = normOut, bb_q = q, bb_k = k, bb_v = v, bb_attnOut = attnOut, bb_gate = gate,
                  bb_up = up\<rparr>, s) })"

text \<open>\<open>t.Shape().Dims()[0]\<close>, and a product that is left out where the weights are nil.\<close>

definition dim0 :: "Tensor \<Rightarrow> nat option" where
  "dim0 t = (case Shape_Dims (t_shape t) of [] \<Rightarrow> None | d # ds \<Rightarrow> Some (nat d))"

definition has_weights :: "Tensor \<Rightarrow> bool" where
  "has_weights t = (\<not> DevicePtr_IsNil (t_devicePtr t))"

definition project :: "'s BlockRuntime \<Rightarrow> DevicePtr \<Rightarrow> Tensor \<Rightarrow> Tensor \<Rightarrow> DevicePtr \<Rightarrow> nat \<Rightarrow> nat \<Rightarrow> 's \<Rightarrow> 's option" where
  "project b a w bias out m k s =
     (if has_weights w then do { n \<leftarrow> dim0 w; matMulTransposedWithBias b a w bias out m n k s } else Some s)"

definition project_plain :: "'s BlockRuntime \<Rightarrow> DevicePtr \<Rightarrow> Tensor \<Rightarrow> DevicePtr \<Rightarrow> nat \<Rightarrow> nat \<Rightarrow> 's \<Rightarrow> 's option" where
  "project_plain b a w out m k s =
     (if has_weights w then do { n \<leftarrow> dim0 w; matMulTransposed b a w out m n k s } else Some s)"

text \<open>Steps 1 to 4: normalization, projections, rotary embedding, attention.\<close>

definition Execute_attention ::
  "(int \<Rightarrow> f32) \<Rightarrow> 's BlockRuntime \<Rightarrow> DevicePtr \<Rightarrow> BlockBuffers \<Rightarrow> nat \<Rightarrow> int \<Rightarrow> 's \<Rightarrow> 's option" where
  "Execute_attention invSqrt b xPtr bb seqLen pos s =
     do { let hidden = br_HiddenSize b;
          let nh = br_NumAttentionHeads b;
          let nkv = br_NumKeyValueHeads b;
          let hdim = br_HeadDim b;
          let be = br_backend b;
          s \<leftarrow> (if has_weights (br_AttnNorm b)
               then applyNorm b xPtr (t_devicePtr (br_AttnNorm b)) (t_devicePtr (br_AttnNormBias b)) (bb_normOut bb) seqLen hidden s
               else Some s);
          s \<leftarrow> project b (bb_normOut bb) (br_Wq b) (br_WqBias b) (bb_q bb) seqLen hidden s;
          s \<leftarrow> project b (bb_normOut bb) (br_Wk b) (br_WkBias b) (bb_k bb) seqLen hidden s;
          s \<leftarrow> project b (bb_normOut bb) (br_Wv b) (br_WvBias b) (bb_v bb) seqLen hidden s;
          s \<leftarrow> applyRoPE b (bb_q bb) (bb_k bb) hdim nh nkv seqLen pos s;
          let scale = attentionScale invSqrt b;
          let cap = br_AttentionLogitSoftCap b;
          let softcap = (if f32_less 0 cap then br_softCapOps b else None);
          case softcap of
            Some ops \<Rightarrow>
              if seqLen = 1 then sc_SDPASoftCap ops (bb_q bb) (bb_k bb) (bb_v bb) (bb_attnOut bb) seqLen nh nkv hdim scale cap hdim s
              else sc_SDPAPrefillSoftCap ops (bb_q bb) (bb_k bb) (bb_v bb) (bb_attnOut bb) seqLen nh nkv hdim scale cap s
          | None \<Rightarrow>
              if seqLen = 1 then be_SDPA be (bb_q bb) (bb_k bb) (bb_v bb) (bb_attnOut bb) seqLen nh nkv hdim scale hdim s
              else be_SDPAPrefill be (bb_q bb) (bb_k bb) (bb_v bb) (bb_attnOut bb) seqLen nh nkv hdim scale s }"

text \<open>Steps 5 and 6: the output projection into \<open>res\<close>, and the normalization before the feed-forward network.\<close>

definition Execute_output ::
  "'s BlockRuntime \<Rightarrow> DevicePtr \<Rightarrow> BlockBuffers \<Rightarrow> DevicePtr \<Rightarrow> nat \<Rightarrow> 's \<Rightarrow> 's option" where
  "Execute_output b xPtr bb res seqLen s =
     do { let hidden = br_HiddenSize b;
          let be = br_backend b;
          s \<leftarrow> (if has_weights (br_Wo b) then
                 do { s \<leftarrow> project b (bb_attnOut bb) (br_Wo b) (br_WoBias b) res seqLen (br_NumAttentionHeads b * br_HeadDim b) s;
                      s \<leftarrow> (if br_HasPostNorms b \<and> has_weights (br_PostAttnNorm b)
                           then be_RMSNorm be res (t_devicePtr (br_PostAttnNorm b)) res seqLen hidden (f32_of_f64 (br_RMSNormEPS b)) s
                           else Some s);
                      if \<not> br_ParallelResidual b then be_Add be xPtr res xPtr (seqLen * hidden) s else Some s }
               else Some s);
          if \<not> br_ParallelResidual b \<and> has_weights (br_FFNNorm b)
          then applyNorm b xPtr (t_devicePtr (br_FFNNorm b)) (t_devicePtr (br_FFNNormBias b)) (bb_normOut bb) seqLen hidden s
          else Some s }"

text \<open>Steps 7 and 8: the feed-forward network and the normalization after it.\<close>

definition Execute_mlp :: "'s BlockRuntime \<Rightarrow> BlockBuffers \<Rightarrow> nat \<Rightarrow> 's \<Rightarrow> 's option" where
  "Execute_mlp b bb seqLen s =
     do { let hidden = br_HiddenSize b;
          let inter = br_IntermediateSize b;
          let be = br_backend b;
          s \<leftarrow> (if br_MLPType b = MLPGELU then
                 do { s \<leftarrow> project b (bb_normOut bb) (br_W1 b) (br_W1Bias b) (bb_gate bb) seqLen hidden s;
                      s \<leftarrow> (case br_geluOps b of Some ops \<Rightarrow> go_GELU ops (bb_gate bb) (bb_gate bb) (seqLen * inter) s | None \<Rightarrow> Some s);
                      project b (bb_gate bb) (br_W2 b) (br_W2Bias b) (bb_normOut bb) seqLen inter s }
               else
                 do { s \<leftarrow> project_plain b (bb_normOut bb) (br_W1 b) (bb_gate bb) seqLen hidden s;
                      s \<leftarrow> project_plain b (bb_normOut bb) (br_W3 b) (bb_up bb) seqLen hidden s;
                      s \<leftarrow> (if br_MLPType b = MLPGeGLU
                           then case br_geluOps b of
                                  Some ops \<Rightarrow> go_GELUMul ops (bb_gate bb) (bb_up bb) (bb_gate bb) (seqLen * inter) s
                                | None \<Rightarrow> Some s
                           else be_SiLUMul be (bb_gate bb) (bb_up bb) (bb_gate bb) (seqLen * inter) s);
                      project_plain b (bb_gate bb) (br_W2 b) (bb_normOut bb) seqLen inter s });
          if br_HasPostNorms b \<and> has_weights (br_PostFFNNorm b)
          then be_RMSNorm be (bb_normOut bb) (t_devicePtr (br_PostFFNNorm b)) (bb_normOut bb) seqLen hidden
                 (f32_of_f64 (br_RMSNormEPS b)) s
          else Some s }"

definition Execute :: "(int \<Rightarrow> f32) \<Rightarrow> 's BlockRuntime \<Rightarrow> Tensor \<Rightarrow> Tensor \<Rightarrow> int \<Rightarrow> 's \<Rightarrow> (Tensor \<times> 's) option" where
  "Execute invSqrt b x scratch pos s =
     (let xPtr = t_devicePtr x; scratchPtr = t_devicePtr scratch; be = br_backend b
      in if DevicePtr_IsNil xPtr \<or> DevicePtr_IsNil scratchPtr then Some (x, s)
         else
           do { seqLen \<leftarrow> ndiv (nat (Shape_NumElements (t_shape x))) (br_HiddenSize b);
                (bb, s) \<leftarrow> Execute_buffers b seqLen scratchPtr s;
                s \<leftarrow> Execute_attention invSqrt b xPtr bb seqLen pos s;
                let res = (if br_ParallelResidual b then bb_up bb else bb_normOut bb);
                s \<leftarrow> Execute_output b xPtr bb res seqLen s;
                s \<leftarrow> Execute_mlp b bb seqLen s;
                let n = seqLen * br_HiddenSize b;
                s \<leftarrow> (if br_ParallelResidual b then
                       do { s \<leftarrow> be_Add be xPtr res xPtr n s; s \<leftarrow> be_Sync be s; be_Add be xPtr (bb_normOut bb) xPtr n s }
                     else be_Add be xPtr (bb_normOut bb) xPtr n s);
                Some (x, s) })"

end
