(* ===== verification/Cpu_Buffers.thy ===== *)
theory Cpu_Buffers
  imports Cpu_Rows Block_Runtime
begin

text \<open>
  The operations of the CPU on a set of buffers that lie apart from each other: a memory \<open>holds\<close> a list of floats in
  every buffer, weights lie outside the buffers, and an operation replaces the list of the buffer it writes by a
  function of the lists it reads.
\<close>

section \<open>Buffers\<close>

definition buffers_apart :: "('b \<Rightarrow> fslice) \<Rightarrow> bool" where
  "buffers_apart Sl \<longleftrightarrow> (\<forall>b c. b \<noteq> c \<longrightarrow> apart (Sl b) (Sl c))"

definition in_slice :: "fslice \<Rightarrow> int \<Rightarrow> bool" where
  "in_slice s a \<longleftrightarrow> fs_addr s \<le> a \<and> a < elem_addr s (fs_len s)"

definition holds :: "('b \<Rightarrow> fslice) \<Rightarrow> mem \<Rightarrow> ('b \<Rightarrow> f32 list) \<Rightarrow> mem \<Rightarrow> bool" where
  "holds Sl m0 \<sigma> m \<longleftrightarrow>
     (\<forall>b. floats m (Sl b) 0 (fs_len (Sl b)) = \<sigma> b) \<and> (\<forall>a. (\<forall>b. \<not> in_slice (Sl b) a) \<longrightarrow> m a = m0 a)"

lemma holds_start: "holds Sl m (\<lambda>b. floats m (Sl b) 0 (fs_len (Sl b))) m"
  by (simp add: holds_def)

lemma holds_floats: "holds Sl m0 \<sigma> m \<Longrightarrow> floats m (Sl b) 0 (fs_len (Sl b)) = \<sigma> b"
  by (simp add: holds_def)

lemma holds_length: "holds Sl m0 \<sigma> m \<Longrightarrow> length (\<sigma> b) = fs_len (Sl b)"
  using holds_floats [of Sl m0 \<sigma> m b] length_floats by metis

lemma holds_vec_at:
  assumes "holds Sl m0 \<sigma> m" and "i * n + n \<le> fs_len (Sl b)"
  shows "floats m (Sl b) (i * n) n = vec_at n i (\<sigma> b)"
  using floats_vec_at [OF assms(2), of m "Sl b"] holds_floats [OF assms(1)] by simp

lemma holds_ldf: "holds Sl m0 \<sigma> m \<Longrightarrow> i < fs_len (Sl b) \<Longrightarrow> ldf m (Sl b) i = \<sigma> b ! i"
  using holds_floats [of Sl m0 \<sigma> m b] floats_nth [of i "fs_len (Sl b)" m "Sl b" 0] by simp

lemma in_elem_in_slice: "i < fs_len s \<Longrightarrow> in_elem s i a \<Longrightarrow> in_slice s a"
  by (auto simp: in_elem_def in_slice_def elem_addr_def)

text \<open>What an operation has written, as a change of one list.\<close>

lemma holds_wrote:
  assumes "buffers_apart Sl" and "holds Sl m0 \<sigma> m" and "wrote (Sl c) {..<n} f m m'" and "fs_len (Sl c) = n"
  shows "holds Sl m0 (\<sigma>(c := map f [0..<n])) m'"
  unfolding holds_def
proof (intro conjI allI impI)
  fix b
  show "floats m' (Sl b) 0 (fs_len (Sl b)) = (\<sigma>(c := map f [0..<n])) b"
  proof (cases "b = c")
    case True
    then show ?thesis using wroteD [OF assms(3)] assms(4) by (simp add: floats_def)
  next
    case False
    then have "apart (Sl c) (Sl b)" using assms(1) by (metis buffers_apart_def)
    then have "floats m' (Sl b) 0 (fs_len (Sl b)) = floats m (Sl b) 0 (fs_len (Sl b))"
      using floats_apart [OF assms(3), of "Sl b" 0 "fs_len (Sl b)"] assms(4) by simp
    then show ?thesis using False holds_floats [OF assms(2)] by simp
  qed
next
  fix a assume a: "\<forall>b. \<not> in_slice (Sl b) a"
  then have "m' a = m a" using in_elem_in_slice assms(4) by (intro wrote_frame [OF assms(3)]) blast
  then show "m' a = m0 a" using assms(2) a by (simp add: holds_def)
qed

lemma holds_rows:
  assumes "buffers_apart Sl" and "holds Sl m0 \<sigma> m" and "wrote (Sl c) {..<r * w} (\<lambda>x. g (x div w) ! (x mod w)) m m'"
    and "fs_len (Sl c) = r * w" and "\<And>i. i < r \<Longrightarrow> length (g i) = w"
  shows "holds Sl m0 (\<sigma>(c := concat (map g [0..<r]))) m'"
  using holds_wrote [OF assms(1-4)] concat_rows [of r g w] assms(5) by simp

text \<open>Floats and bytes outside the buffers, which no operation changes.\<close>

definition const_floats :: "('b \<Rightarrow> fslice) \<Rightarrow> mem \<Rightarrow> DevicePtr \<Rightarrow> nat \<Rightarrow> f32 list \<Rightarrow> bool" where
  "const_floats Sl m0 p n ws \<longleftrightarrow> (\<exists>B. at_ptr p n B \<and> (\<forall>b. apart (Sl b) B) \<and> floats m0 B 0 n = ws)"

lemma apart_not_in: "apart s t \<Longrightarrow> in_slice t a \<Longrightarrow> \<not> in_slice s a"
  by (auto simp: apart_def in_slice_def)

lemma const_floatsE:
  assumes "const_floats Sl m0 p n ws" and "holds Sl m0 \<sigma> m"
  obtains B where "at_ptr p n B" "\<And>b. apart (Sl b) B" "floats m B 0 n = ws" "fs_len B = n" "length ws = n"
proof -
  obtain B where B: "at_ptr p n B" "\<And>b. apart (Sl b) B" "floats m0 B 0 n = ws"
    using assms(1) unfolding const_floats_def by blast
  then have n: "fs_len B = n" by (simp add: at_ptr_def)
  have "ldf m B i = ldf m0 B i" if "i < n" for i
    unfolding ldf_def
  proof (rule ld32_cong)
    fix a assume "elem_addr B i \<le> a" "a < elem_addr B i + 4"
    then have "in_slice B a" using that n by (auto simp: in_slice_def elem_addr_def)
    then show "m a = m0 a" using B(2) apart_not_in assms(2) unfolding holds_def by blast
  qed
  then have "floats m B 0 n = floats m0 B 0 n" by (simp add: floats_def)
  then have "floats m B 0 n = ws" using B(3) by simp
  then show thesis using that B n length_floats by metis
qed

definition const_bytes :: "('b \<Rightarrow> fslice) \<Rightarrow> mem \<Rightarrow> DevicePtr \<Rightarrow> nat \<Rightarrow> byte list \<Rightarrow> bool" where
  "const_bytes Sl m0 p n bs \<longleftrightarrow> (\<exists>R. at_bytes p n R \<and> (\<forall>b. bytes_apart (Sl b) R) \<and> bytes_at m0 R = bs)"

lemma const_bytesE:
  assumes "const_bytes Sl m0 p n bs" and "holds Sl m0 \<sigma> m"
  obtains R where "at_bytes p n R" "\<And>b. bytes_apart (Sl b) R" "bytes_at m R = bs"
proof -
  obtain R where R: "at_bytes p n R" "\<And>b. bytes_apart (Sl b) R" "bytes_at m0 R = bs"
    using assms(1) unfolding const_bytes_def by blast
  have "m (fst R + int i) = m0 (fst R + int i)" if "i < snd R" for i
  proof -
    have "\<not> in_slice (Sl b) (fst R + int i)" for b
      using R(2) [of b] that by (auto simp: bytes_apart_def in_slice_def)
    then show ?thesis using assms(2) by (simp add: holds_def)
  qed
  then have "bytes_at m R = bytes_at m0 R" by (simp add: bytes_at_def)
  then have "bytes_at m R = bs" using R(3) by simp
  then show thesis using that R(1,2) by blast
qed

lemma buffers_input_ok: "buffers_apart Sl \<Longrightarrow> input_ok (Sl c) (Sl b)"
  by (cases "b = c") (auto simp: buffers_apart_def input_ok_def)

lemma buffersD: "buffers_apart Sl \<Longrightarrow> b \<noteq> c \<Longrightarrow> apart (Sl b) (Sl c)"
  by (simp add: buffers_apart_def)

lemma at_ptr_len: "at_ptr p n s \<Longrightarrow> fs_len s = n"
  by (simp add: at_ptr_def)

section \<open>Row by row\<close>

definition by_rows :: "nat \<Rightarrow> nat \<Rightarrow> ('a list \<Rightarrow> 'b list) \<Rightarrow> 'a list \<Rightarrow> 'b list" where
  "by_rows r w f xs = concat (map (\<lambda>i. f (vec_at w i xs)) [0..<r])"

lemma length_by_rows: "(\<And>i. i < r \<Longrightarrow> length (f (vec_at w i xs)) = n) \<Longrightarrow> length (by_rows r w f xs) = r * n"
  using concat_rows [of r "\<lambda>i. f (vec_at w i xs)" n] by (simp add: by_rows_def)

text \<open>An operation that has written in every row of \<open>c\<close> a function of the same row of \<open>b\<close>.\<close>

lemma holds_by_rows:
  assumes bufs: "buffers_apart Sl" and h: "holds Sl m0 \<sigma> m"
    and w: "wrote (Sl c) {..<r * n} (\<lambda>x. f (floats m (Sl b) (x div n * k) k) ! (x mod n)) m m'"
    and len: "fs_len (Sl b) = r * k" "fs_len (Sl c) = r * n"
    and f: "\<And>xs. length xs = k \<Longrightarrow> length (f xs) = n"
  shows "holds Sl m0 (\<sigma>(c := by_rows r k f (\<sigma> b))) m'"
proof -
  have row: "floats m (Sl b) (i * k) k = vec_at k i (\<sigma> b)" if "i < r" for i
    using holds_vec_at [OF h] row_end [OF that] len(1) by simp
  have "wrote (Sl c) {..<r * n} (\<lambda>x. (\<lambda>i. f (vec_at k i (\<sigma> b))) (x div n) ! (x mod n)) m m'"
    by (rule wrote_cong [OF w]) (simp add: row less_mult_imp_div_less)
  moreover have "length (f (vec_at k i (\<sigma> b))) = n" if "i < r" for i
    using f length_floats row [OF that] by metis
  ultimately show ?thesis
    unfolding by_rows_def using holds_rows [OF bufs h, where g = "\<lambda>i. f (vec_at k i (\<sigma> b))"] len(2) by blast
qed

lemma RMSNorm_holds:
  assumes bufs: "buffers_apart Sl" and h: "holds Sl m0 \<sigma> m"
    and at: "at_ptr xp (r * w) (Sl b)" "at_ptr op (r * w) (Sl c)" and ws: "const_floats Sl m0 wp w ws"
  shows "\<exists>m'. CPUBackend_RMSNorm cm xp wp op r w eps m = Some m' \<and> holds Sl m0 (\<sigma>(c := by_rows r w (rms_norm cm eps ws) (\<sigma> b))) m'"
proof -
  obtain B where B: "at_ptr wp w B" "\<And>b. apart (Sl b) B" "floats m B 0 w = ws" "fs_len B = w" "length ws = w"
    using const_floatsE [OF ws h] by metis
  obtain m' where m': "cpuBackend_RMSNorm cm (Sl b) B (Sl c) r w eps m = Some m'"
    "wrote (Sl c) {..<r * w} (\<lambda>k. rms_norm cm eps (floats m B 0 w) (floats m (Sl b) (k div w * w) w) ! (k mod w)) m m'"
    using RMSNorm_wrote [OF at_ptr_len [OF at(1)] B(4) at_ptr_len [OF at(2)] buffers_input_ok [OF bufs] B(2)] by blast
  have "holds Sl m0 (\<sigma>(c := by_rows r w (rms_norm cm eps ws) (\<sigma> b))) m'"
    by (rule holds_by_rows [OF bufs h m'(2) [unfolded B(3)]]) (use at B(5) in \<open>simp_all add: at_ptr_len\<close>)
  moreover have "CPUBackend_RMSNorm cm xp wp op r w eps m = Some m'"
    using m'(1) at B(1) by (simp add: CPUBackend_RMSNorm_def at_ptr_def)
  ultimately show ?thesis by blast
qed

lemma LayerNorm_holds:
  assumes bufs: "buffers_apart Sl" and h: "holds Sl m0 \<sigma> m"
    and at: "at_ptr xp (r * w) (Sl b)" "at_ptr op (r * w) (Sl c)" and ws: "const_floats Sl m0 wp w ws" "const_floats Sl m0 bp w bs"
  shows "\<exists>m'. CPUBackend_LayerNorm cm xp wp bp op r w eps m = Some m' \<and>
    holds Sl m0 (\<sigma>(c := by_rows r w (layer_norm cm eps ws bs) (\<sigma> b))) m'"
proof -
  obtain B where B: "at_ptr wp w B" "\<And>b. apart (Sl b) B" "floats m B 0 w = ws" "fs_len B = w" "length ws = w"
    using const_floatsE [OF ws(1) h] by metis
  obtain D where D: "at_ptr bp w D" "\<And>b. apart (Sl b) D" "floats m D 0 w = bs" "fs_len D = w" "length bs = w"
    using const_floatsE [OF ws(2) h] by metis
  obtain m' where m': "foldM (layer_norm_row cm (Sl b) B D (Sl c) w eps) [0..<r] m = Some m'"
    "wrote (Sl c) {..<r * w} (\<lambda>k. layer_norm cm eps (floats m B 0 w) (floats m D 0 w) (floats m (Sl b) (k div w * w) w) ! (k mod w)) m m'"
    using LayerNorm_wrote [OF at_ptr_len [OF at(1)] at_ptr_cap [OF at(1)] B(4) D(4) at_ptr_len [OF at(2)]
        buffers_input_ok [OF bufs] B(2) D(2)] by blast
  have "holds Sl m0 (\<sigma>(c := by_rows r w (layer_norm cm eps ws bs) (\<sigma> b))) m'"
    by (rule holds_by_rows [OF bufs h m'(2) [unfolded B(3) D(3)]]) (use at B(5) D(5) in \<open>simp_all add: at_ptr_len\<close>)
  moreover have "CPUBackend_LayerNorm cm xp wp bp op r w eps m = Some m'"
    using m'(1) at B(1) D(1) by (simp add: CPUBackend_LayerNorm_def at_ptr_def)
  ultimately show ?thesis by blast
qed

lemma AddBias_holds:
  assumes bufs: "buffers_apart Sl" and h: "holds Sl m0 \<sigma> m"
    and at: "at_ptr xp (r * w) (Sl b)" "at_ptr op (r * w) (Sl c)" and ws: "const_floats Sl m0 bp w bs"
  shows "\<exists>m'. CPUBackend_AddBias xp bp op r w m = Some m' \<and>
    holds Sl m0 (\<sigma>(c := by_rows r w (\<lambda>xs. map2 f32_add xs bs) (\<sigma> b))) m'"
proof -
  obtain B where B: "at_ptr bp w B" "\<And>b. apart (Sl b) B" "floats m B 0 w = bs" "fs_len B = w" "length bs = w"
    using const_floatsE [OF ws h] by metis
  obtain m' where m': "CPUBackend_AddBias xp bp op r w m = Some m'"
    "wrote (Sl c) {..<r * w} (\<lambda>k. map2 f32_add (floats m (Sl b) (k div w * w) w) (floats m B 0 w) ! (k mod w)) m m'"
    using AddBias_wrote [OF at(1) B(1) at(2) buffers_input_ok [OF bufs] B(2)] by blast
  have "holds Sl m0 (\<sigma>(c := by_rows r w (\<lambda>xs. map2 f32_add xs bs) (\<sigma> b))) m'"
    by (rule holds_by_rows [OF bufs h m'(2) [unfolded B(3)]]) (use at B(5) in \<open>simp_all add: at_ptr_len\<close>)
  then show ?thesis using m'(1) by blast
qed

section \<open>Products\<close>

text \<open>A weight matrix of \<open>n\<close> rows, as floats or as blocks of Q4_0 that stand for the floats \<open>Dequantize\<close> gives.\<close>

definition weight_at :: "('b \<Rightarrow> fslice) \<Rightarrow> mem \<Rightarrow> Tensor \<Rightarrow> nat \<Rightarrow> nat \<Rightarrow> f32 list \<Rightarrow> bool" where
  "weight_at Sl m0 t n k W \<longleftrightarrow>
     (if t_quantProfile t = Q4_0
      then 32 dvd k \<and> (\<exists>bs. const_bytes Sl m0 (t_devicePtr t) (n * k div 32 * 18) bs \<and>
             Dequantize False bs TensorTypeQ4_0 (int (n * k)) = Some W)
      else t_quantProfile t = QuantNone \<and> const_floats Sl m0 (t_devicePtr t) (n * k) W)"

definition weight_dot :: "bool \<Rightarrow> Tensor \<Rightarrow> f32 list \<Rightarrow> f32 list \<Rightarrow> f32" where
  "weight_dot fma t = (if t_quantProfile t = Q4_0 then q4_dot fma else dot_value fma)"

definition linear :: "CpuMath \<Rightarrow> Tensor \<Rightarrow> f32 list \<Rightarrow> nat \<Rightarrow> nat \<Rightarrow> f32 list \<Rightarrow> f32 list" where
  "linear cm t W n k xs = map (\<lambda>j. weight_dot (cm_fma cm) t xs (vec_at k j W)) [0..<n]"

lemma length_linear [simp]: "length (linear cm t W n k xs) = n"
  by (simp add: linear_def)

text \<open>The products of a block on the CPU.\<close>

definition cpu_ops :: "CpuMath \<Rightarrow> (task list list \<Rightarrow> task list) \<Rightarrow> nat \<Rightarrow> mem BlockRuntime \<Rightarrow> bool" where
  "cpu_ops cm sched ncpu b \<longleftrightarrow>
     (\<exists>bufaddr. br_backend b = cpu_backend bufaddr None cm sched ncpu) \<and>
     br_quantMatMul b = be_QuantizedMatMul (br_backend b) \<and> br_layerNormOps b = be_LayerNorm (br_backend b) \<and>
     br_geluOps b = be_GELUOps (br_backend b) \<and> br_biasOps b = be_AddBias (br_backend b) \<and>
     br_softCapOps b = be_SoftCapOps (br_backend b) \<and> br_scaledRoPEOps b = be_RoPEWithFreqs (br_backend b) \<and>
     0 < ncpu \<and> (\<forall>ws. mset (sched ws) = mset (concat ws))"

lemma cpu_opsD:
  assumes "cpu_ops cm sched ncpu b"
  shows "0 < ncpu" and "mset (sched ws) = mset (concat ws)"
  using assms by (simp_all add: cpu_ops_def)

lemma cpu_matMul:
  assumes "cpu_ops cm sched ncpu b"
  shows "t_quantProfile t = Q4_0 \<Longrightarrow> matMulTransposed b a t out r n k m = CPUBackend_MatMulQ4_0 cm sched ncpu a (t_devicePtr t) out r n k m"
    and "t_quantProfile t = QuantNone \<Longrightarrow> matMulTransposed b a t out r n k m = matMulTransposedNaive cm sched ncpu a (t_devicePtr t) out r n k m"
  using assms
  by (auto simp: cpu_ops_def matMulTransposed_def Tensor_IsQuantized_def cpu_backend_def CPUBackend_MatMulTransposed_def)

lemma matMulTransposed_holds:
  assumes cpu: "cpu_ops cm sched ncpu br" and bufs: "buffers_apart Sl" and h: "holds Sl m0 \<sigma> m" and r: "0 < r"
    and at: "at_ptr xp (r * k) (Sl b)" "at_ptr op (r * n) (Sl c)" and bc: "b \<noteq> c" and W: "weight_at Sl m0 t n k W"
  shows "\<exists>m'. matMulTransposed br xp t op r n k m = Some m' \<and>
    holds Sl m0 (\<sigma>(c := by_rows r k (linear cm t W n k) (\<sigma> b))) m'"
proof -
  note be = cpu_opsD [OF cpu]
  have ap: "apart (Sl c) (Sl b)" by (rule buffersD [OF bufs bc [symmetric]])
  have dots: "holds Sl m0 (\<sigma>(c := by_rows r k (linear cm t W n k) (\<sigma> b))) m'"
    if w: "wrote (Sl c) {..<r * n} (\<lambda>x. linear cm t W n k (floats m (Sl b) (x div n * k) k) ! (x mod n)) m m'" for m'
    by (rule holds_by_rows [OF bufs h w at_ptr_len [OF at(1)] at_ptr_len [OF at(2)]]) (rule length_linear)
  have nz: "x mod n < n" if "x < r * n" for x using that by (cases n) simp_all
  show ?thesis
  proof (cases "t_quantProfile t = Q4_0")
    case True
    then obtain bs where W: "32 dvd k" "const_bytes Sl m0 (t_devicePtr t) (n * k div 32 * 18) bs"
      "Dequantize False bs TensorTypeQ4_0 (int (n * k)) = Some W" using assms(8) unfolding weight_at_def if_P [OF True] by blast
    obtain R where R: "at_bytes (t_devicePtr t) (n * k div 32 * 18) R" "\<And>b. bytes_apart (Sl b) R" "bytes_at m R = bs"
      using const_bytesE [OF W(2) h] by metis
    obtain m' where m': "CPUBackend_MatMulQ4_0 cm sched ncpu xp (t_devicePtr t) op r n k m = Some m'"
      "wrote (Sl c) {..<r * n} (\<lambda>x. q4_dot (cm_fma cm) (floats m (Sl b) (x div n * k) k) (take k (drop (x mod n * k) W))) m m'"
      using MatMulQ4_0_elements [OF r be(1) W(1) at(1) R(1) at(2) ap R(2) be(2), of False m cm] unfolding R(3) W(3) option.inject
      by blast
    have w: "wrote (Sl c) {..<r * n} (\<lambda>x. linear cm t W n k (floats m (Sl b) (x div n * k) k) ! (x mod n)) m m'"
    proof (rule wrote_cong [OF m'(2)])
      fix x assume "x \<in> {..<r * n}"
      then have "x mod n < n" using nz by simp
      then show "q4_dot (cm_fma cm) (floats m (Sl b) (x div n * k) k) (take k (drop (x mod n * k) W)) =
          linear cm t W n k (floats m (Sl b) (x div n * k) k) ! (x mod n)"
        using True by (simp add: linear_def weight_dot_def vec_at_def)
    qed
    moreover have "matMulTransposed br xp t op r n k m = Some m'"
      using m'(1) True by (simp only: cpu_matMul [OF cpu])
    ultimately show ?thesis using dots [OF w] by blast
  next
    case False
    then have W: "t_quantProfile t = QuantNone" "const_floats Sl m0 (t_devicePtr t) (n * k) W"
      using assms(8) unfolding weight_at_def if_not_P [OF False] by blast+
    obtain B where B: "at_ptr (t_devicePtr t) (n * k) B" "\<And>b. apart (Sl b) B" "floats m B 0 (n * k) = W" "fs_len B = n * k"
      using const_floatsE [OF W(2) h] by metis
    obtain m' where m': "matMulTransposedNaive cm sched ncpu xp (t_devicePtr t) op r n k m = Some m'"
      "wrote (Sl c) {..<r * n} (\<lambda>x. dot_value (cm_fma cm) (floats m (Sl b) (x div n * k) k) (floats m B (x mod n * k) k)) m m'"
      using matMulTransposedNaive_elements [OF r be(1) at(1) B(1) at(2) ap B(2) be(2)] by blast
    have w: "wrote (Sl c) {..<r * n} (\<lambda>x. linear cm t W n k (floats m (Sl b) (x div n * k) k) ! (x mod n)) m m'"
    proof (rule wrote_cong [OF m'(2)])
      fix x assume "x \<in> {..<r * n}"
      then have j: "x mod n < n" using nz by simp
      have "floats m B (x mod n * k) k = vec_at k (x mod n) W" using floats_vec_at [OF row_end [OF j]] B(3) by simp
      then show "dot_value (cm_fma cm) (floats m (Sl b) (x div n * k) k) (floats m B (x mod n * k) k) =
          linear cm t W n k (floats m (Sl b) (x div n * k) k) ! (x mod n)"
        using False j by (simp add: linear_def weight_dot_def)
    qed
    moreover have "matMulTransposed br xp t op r n k m = Some m'"
      using m'(1) W(1) by (simp only: cpu_matMul [OF cpu])
    ultimately show ?thesis using dots [OF w] by blast
  qed
qed

text \<open>A projection: weights of \<open>n\<close> rows of \<open>k\<close>, and a bias where the model has one.\<close>

record Proj =
  pj_weight :: Tensor
  pj_W :: "f32 list"
  pj_bias :: "f32 list option"
  pj_n :: nat
  pj_k :: nat

definition add_bias :: "f32 list option \<Rightarrow> nat \<Rightarrow> nat \<Rightarrow> f32 list \<Rightarrow> f32 list" where
  "add_bias ob r n xs = (case ob of None \<Rightarrow> xs | Some bs \<Rightarrow> by_rows r n (\<lambda>ys. map2 f32_add ys bs) xs)"

definition proj :: "CpuMath \<Rightarrow> nat \<Rightarrow> Proj \<Rightarrow> f32 list \<Rightarrow> f32 list" where
  "proj cm r P xs = add_bias (pj_bias P) r (pj_n P) (by_rows r (pj_k P) (linear cm (pj_weight P) (pj_W P) (pj_n P) (pj_k P)) xs)"

definition bias_at :: "('b \<Rightarrow> fslice) \<Rightarrow> mem \<Rightarrow> Tensor \<Rightarrow> nat \<Rightarrow> f32 list option \<Rightarrow> bool" where
  "bias_at Sl m0 t n ob \<longleftrightarrow>
     (case ob of None \<Rightarrow> DevicePtr_IsNil (t_devicePtr t)
      | Some bs \<Rightarrow> \<not> DevicePtr_IsNil (t_devicePtr t) \<and> const_floats Sl m0 (t_devicePtr t) n bs)"

definition proj_at :: "('b \<Rightarrow> fslice) \<Rightarrow> mem \<Rightarrow> Tensor \<Rightarrow> Proj \<Rightarrow> nat \<Rightarrow> nat \<Rightarrow> bool" where
  "proj_at Sl m0 t P n k \<longleftrightarrow> has_weights t \<and> dim0 t = Some n \<and> pj_weight P = t \<and> pj_n P = n \<and> pj_k P = k \<and>
     weight_at Sl m0 t n k (pj_W P)"

lemma cpu_bias: "cpu_ops cm sched ncpu b \<Longrightarrow> br_biasOps b = Some CPUBackend_AddBias"
  by (auto simp: cpu_ops_def cpu_backend_def)

lemma project_plain_holds:
  assumes cpu: "cpu_ops cm sched ncpu br" and bufs: "buffers_apart Sl" and h: "holds Sl m0 \<sigma> m" and r: "0 < r"
    and at: "at_ptr xp (r * k) (Sl b)" "at_ptr op (r * n) (Sl c)" and bc: "b \<noteq> c"
    and P: "proj_at Sl m0 t P n k" "pj_bias P = None"
  shows "\<exists>m'. project_plain br xp t op r k m = Some m' \<and> holds Sl m0 (\<sigma>(c := proj cm r P (\<sigma> b))) m'"
  using matMulTransposed_holds [OF cpu bufs h r at bc, of t "pj_W P"] P
  by (simp add: project_plain_def proj_at_def proj_def add_bias_def)

lemma project_holds:
  assumes cpu: "cpu_ops cm sched ncpu br" and bufs: "buffers_apart Sl" and h: "holds Sl m0 \<sigma> m" and r: "0 < r"
    and at: "at_ptr xp (r * k) (Sl b)" "at_ptr op (r * n) (Sl c)" and bc: "b \<noteq> c"
    and P: "proj_at Sl m0 t P n k" "bias_at Sl m0 bias n (pj_bias P)"
  shows "\<exists>m'. project br xp t bias op r k m = Some m' \<and> holds Sl m0 (\<sigma>(c := proj cm r P (\<sigma> b))) m'"
proof -
  have t: "has_weights t" "dim0 t = Some n" "pj_weight P = t" "pj_n P = n" "pj_k P = k" "weight_at Sl m0 t n k (pj_W P)"
    using P(1) by (simp_all add: proj_at_def)
  obtain m1 where m1: "matMulTransposed br xp t op r n k m = Some m1"
    "holds Sl m0 (\<sigma>(c := by_rows r k (linear cm t (pj_W P) n k) (\<sigma> b))) m1"
    using matMulTransposed_holds [OF cpu bufs h r at bc t(6)] by blast
  show ?thesis
  proof (cases "pj_bias P")
    case None
    then have "DevicePtr_IsNil (t_devicePtr bias)" using P(2) by (simp add: bias_at_def)
    then show ?thesis using m1 t None
      by (simp add: project_def matMulTransposedWithBias_def cpu_bias [OF cpu] proj_def add_bias_def)
  next
    case (Some bs)
    then have bs: "\<not> DevicePtr_IsNil (t_devicePtr bias)" "const_floats Sl m0 (t_devicePtr bias) n bs"
      using P(2) by (simp_all add: bias_at_def)
    obtain m2 where "CPUBackend_AddBias op (t_devicePtr bias) op r n m1 = Some m2"
      "holds Sl m0 ((\<sigma>(c := by_rows r k (linear cm t (pj_W P) n k) (\<sigma> b)))(c := by_rows r n (\<lambda>xs. map2 f32_add xs bs)
        ((\<sigma>(c := by_rows r k (linear cm t (pj_W P) n k) (\<sigma> b))) c))) m2"
      using AddBias_holds [OF bufs m1(2) at(2) at(2) bs(2)] by blast
    then show ?thesis using m1(1) t Some bs(1)
      by (simp add: project_def matMulTransposedWithBias_def cpu_bias [OF cpu] proj_def add_bias_def)
  qed
qed

section \<open>Element by element\<close>

lemma unary_holds:
  assumes bufs: "buffers_apart Sl" and h: "holds Sl m0 \<sigma> m" and at: "at_ptr xp n (Sl b)" "at_ptr op n (Sl c)"
  shows "\<exists>m'. unary_kernel f xp op n m = Some m' \<and> holds Sl m0 (\<sigma>(c := map f (\<sigma> b))) m'"
proof -
  note lens = at_ptr_len [OF at(1)] at_ptr_len [OF at(2)]
  obtain m' where m': "map_loop f (Sl b) (Sl c) n m = Some m'" "wrote (Sl c) {..<n} (\<lambda>i. f (ldf m (Sl b) i)) m m'"
    using map_loop_wrote [OF lens buffers_input_ok [OF bufs]] by blast
  have "map (\<lambda>i. f (ldf m (Sl b) i)) [0..<n] = map f (\<sigma> b)"
  proof (rule nth_equalityI)
    have l: "length (\<sigma> b) = n" using holds_length [OF h, of b] lens(1) by simp
    then show "length (map (\<lambda>i. f (ldf m (Sl b) i)) [0..<n]) = length (map f (\<sigma> b))" by simp
    fix i assume "i < length (map (\<lambda>i. f (ldf m (Sl b) i)) [0..<n])"
    then show "map (\<lambda>i. f (ldf m (Sl b) i)) [0..<n] ! i = map f (\<sigma> b) ! i"
      using holds_ldf [OF h, of i b] lens(1) l by simp
  qed
  then have "holds Sl m0 (\<sigma>(c := map f (\<sigma> b))) m'" using holds_wrote [OF bufs h m'(2) lens(2)] by simp
  then show ?thesis using m'(1) at by (simp add: unary_kernel_def at_ptr_def)
qed

lemma binary_holds:
  assumes bufs: "buffers_apart Sl" and h: "holds Sl m0 \<sigma> m"
    and at: "at_ptr xp n (Sl a)" "at_ptr yp n (Sl b)" "at_ptr op n (Sl c)"
  shows "\<exists>m'. binary_kernel f xp yp op n m = Some m' \<and> holds Sl m0 (\<sigma>(c := map2 f (\<sigma> a) (\<sigma> b))) m'"
proof -
  note lens = at_ptr_len [OF at(1)] at_ptr_len [OF at(2)] at_ptr_len [OF at(3)]
  obtain m' where m': "map2_loop f (Sl a) (Sl b) (Sl c) n m = Some m'"
    "wrote (Sl c) {..<n} (\<lambda>i. f (ldf m (Sl a) i) (ldf m (Sl b) i)) m m'"
    using map2_loop_wrote [OF lens buffers_input_ok [OF bufs] buffers_input_ok [OF bufs]] by blast
  have "map (\<lambda>i. f (ldf m (Sl a) i) (ldf m (Sl b) i)) [0..<n] = map2 f (\<sigma> a) (\<sigma> b)"
  proof (rule nth_equalityI)
    have l: "length (\<sigma> a) = n" "length (\<sigma> b) = n" using holds_length [OF h] lens(1,2) by simp_all
    then show "length (map (\<lambda>i. f (ldf m (Sl a) i) (ldf m (Sl b) i)) [0..<n]) = length (map2 f (\<sigma> a) (\<sigma> b))" by simp
    fix i assume "i < length (map (\<lambda>i. f (ldf m (Sl a) i) (ldf m (Sl b) i)) [0..<n])"
    then show "map (\<lambda>i. f (ldf m (Sl a) i) (ldf m (Sl b) i)) [0..<n] ! i = map2 f (\<sigma> a) (\<sigma> b) ! i"
      using holds_ldf [OF h, of i a] holds_ldf [OF h, of i b] lens(1,2) l by simp
  qed
  then have "holds Sl m0 (\<sigma>(c := map2 f (\<sigma> a) (\<sigma> b))) m'" using holds_wrote [OF bufs h m'(2) lens(3)] by simp
  then show ?thesis using m'(1) at by (simp add: binary_kernel_def at_ptr_def)
qed

section \<open>Rotary embeddings\<close>

text \<open>The vectors of a buffer, \<open>nh\<close> for a token, rotated by the positions of their tokens.\<close>

definition rope_rows :: "CpuMath \<Rightarrow> (nat \<Rightarrow> f32) \<Rightarrow> bool \<Rightarrow> nat \<Rightarrow> nat \<Rightarrow> nat \<Rightarrow> nat \<Rightarrow> int \<Rightarrow> f32 list \<Rightarrow> f32 list" where
  "rope_rows cm freq neox half hdim nh r pos xs =
     concat (map (\<lambda>v. map (rope_elem cm freq neox half (pos + int (v div nh)) (\<lambda>d. xs ! (v * hdim + d))) [0..<hdim]) [0..<r * nh])"

lemma rope_slice_holds:
  assumes bufs: "buffers_apart Sl" and h: "holds Sl m0 \<sigma> m" and len: "fs_len (Sl b) = r * nh * hdim"
    and dims: "0 < hdim" "0 < nh" "2 * half \<le> hdim"
    and freq: "\<And>j K f m1. j < half \<Longrightarrow> K \<subseteq> {..<fs_len (Sl b)} \<Longrightarrow> wrote (Sl b) K f m m1 \<Longrightarrow> fr j m1 = Some (freq j)"
  shows "\<exists>m'. rope_slice cm fr neox half (Sl b) hdim nh pos m = Some m' \<and>
    holds Sl m0 (\<sigma>(b := rope_rows cm freq neox half hdim nh r pos (\<sigma> b))) m'"
proof -
  let ?g = "\<lambda>v. map (rope_elem cm freq neox half (pos + int (v div nh)) (\<lambda>d. \<sigma> b ! (v * hdim + d))) [0..<hdim]"
  have "\<exists>m'. rope_slice cm fr neox half (Sl b) hdim nh pos m = Some m' \<and>
      wrote (Sl b) {..<r * nh * hdim} (rope_value cm freq neox half hdim nh pos (ldf m (Sl b))) m m'"
    by (rule rope_slice_wrote [OF len dims]) (rule freq)
  then obtain m' where m': "rope_slice cm fr neox half (Sl b) hdim nh pos m = Some m'"
    "wrote (Sl b) {..<r * nh * hdim} (rope_value cm freq neox half hdim nh pos (ldf m (Sl b))) m m'" by blast
  have "wrote (Sl b) {..<r * nh * hdim} (\<lambda>x. ?g (x div hdim) ! (x mod hdim)) m m'"
  proof (rule wrote_cong [OF m'(2)])
    fix x assume x: "x \<in> {..<r * nh * hdim}"
    have "rope_value cm freq neox half hdim nh pos (ldf m (Sl b)) x = rope_value cm freq neox half hdim nh pos ((!) (\<sigma> b)) x"
      by (rule rope_value_old [OF _ dims(1,3), of _ "r * nh"]) (use x len holds_ldf [OF h, of _ b] in simp_all)
    then show "rope_value cm freq neox half hdim nh pos (ldf m (Sl b)) x = ?g (x div hdim) ! (x mod hdim)"
      using dims(1) by (simp add: rope_value_def)
  qed
  then have "holds Sl m0 (\<sigma>(b := rope_rows cm freq neox half hdim nh r pos (\<sigma> b))) m'"
    unfolding rope_rows_def by (rule holds_rows [OF bufs h _ len]) simp
  then show ?thesis using m'(1) by blast
qed

text \<open>The two kernels, on a buffer of queries and one of keys.\<close>

lemma RoPE_holds:
  assumes bufs: "buffers_apart Sl" and h: "holds Sl m0 \<sigma> m"
    and at: "at_ptr qp (r * nh * hdim) (Sl b)" "at_ptr kp (r * nkv * hdim) (Sl c)" "\<not> DevicePtr_IsNil kp" and bc: "b \<noteq> c"
    and dims: "0 < hdim" "0 < nh" "0 < nkv" "ropeDim \<le> hdim" and eff: "eff = (if ropeDim = 0 then hdim else ropeDim)"
  shows "\<exists>m'. CPUBackend_RoPE cm qp kp hdim nh nkv r pos ropeDim theta neox m = Some m' \<and>
    holds Sl m0 (\<sigma>(b := rope_rows cm (\<lambda>j. cm_freq cm theta (2 * j) eff) neox (eff div 2) hdim nh r pos (\<sigma> b),
      c := rope_rows cm (\<lambda>j. cm_freq cm theta (2 * j) eff) neox (eff div 2) hdim nkv r pos (\<sigma> c))) m'"
proof -
  let ?freq = "\<lambda>j. cm_freq cm theta (2 * j) eff" and ?fr = "\<lambda>j m. Some (cm_freq cm theta (2 * j) eff)"
  let ?s1 = "\<sigma>(b := rope_rows cm ?freq neox (eff div 2) hdim nh r pos (\<sigma> b))"
  have half: "2 * (eff div 2) \<le> hdim" using dims(4) eff by (auto split: if_splits)
  note len = at_ptr_len [OF at(1)] at_ptr_len [OF at(2)]
  obtain m1 where m1: "rope_slice cm ?fr neox (eff div 2) (Sl b) hdim nh pos m = Some m1" "holds Sl m0 ?s1 m1"
    using rope_slice_holds [OF bufs h len(1) dims(1,2) half, where freq = ?freq and fr = ?fr] by blast
  obtain m2 where m2: "rope_slice cm ?fr neox (eff div 2) (Sl c) hdim nkv pos m1 = Some m2"
    "holds Sl m0 (?s1(c := rope_rows cm ?freq neox (eff div 2) hdim nkv r pos (?s1 c))) m2"
    using rope_slice_holds [OF bufs m1(2) len(2) dims(1,3) half, where freq = ?freq and fr = ?fr] by blast
  have "CPUBackend_RoPE cm qp kp hdim nh nkv r pos ropeDim theta neox m = Some m2"
    unfolding CPUBackend_RoPE_def Let_def eff [symmetric] using m1(1) m2(1) at by (simp add: at_ptr_def)
  then show ?thesis using m2(2) bc by auto
qed

lemma RoPEWithFreqs_holds:
  assumes bufs: "buffers_apart Sl" and h: "holds Sl m0 \<sigma> m"
    and at: "at_ptr qp (r * nh * hdim) (Sl b)" "at_ptr kp (r * nkv * hdim) (Sl c)" "\<not> DevicePtr_IsNil kp" and bc: "b \<noteq> c"
    and dims: "0 < hdim" "0 < nh" "0 < nkv" and F: "const_floats Sl m0 fp (hdim div 2) F"
  shows "\<exists>m'. CPUBackend_RoPEWithFreqs cm qp kp fp hdim nh nkv r pos neox m = Some m' \<and>
    holds Sl m0 (\<sigma>(b := rope_rows cm ((!) F) neox (hdim div 2) hdim nh r pos (\<sigma> b),
      c := rope_rows cm ((!) F) neox (hdim div 2) hdim nkv r pos (\<sigma> c))) m'"
proof -
  let ?s1 = "\<sigma>(b := rope_rows cm ((!) F) neox (hdim div 2) hdim nh r pos (\<sigma> b))"
  have half: "2 * (hdim div 2) \<le> hdim" by simp
  note len = at_ptr_len [OF at(1)] at_ptr_len [OF at(2)]
  obtain B where B: "at_ptr fp (hdim div 2) B" "\<And>b. apart (Sl b) B" "floats m B 0 (hdim div 2) = F" "fs_len B = hdim div 2"
    using const_floatsE [OF F h] by metis
  have fr: "rd m2 B j = Some (F ! j)"
    if j: "j < hdim div 2" and s: "holds Sl m0 s m1" and K: "K \<subseteq> {..<fs_len (Sl d)}" "wrote (Sl d) K f m1 m2" for j K f m1 m2 d s
  proof -
    obtain B' where B': "at_ptr fp (hdim div 2) B'" "floats m1 B' 0 (hdim div 2) = F" using const_floatsE [OF F s] by metis
    then have "B' = B" using B(1) by (simp add: at_ptr_def)
    then have "ldf m1 B j = F ! j" using B'(2) j floats_nth [of j "hdim div 2" m1 B 0] by simp
    then show ?thesis using wrote_apart [OF K(2,1) B(2)] j B(4) by simp
  qed
  have "\<exists>m1. rope_slice cm (\<lambda>j m. rd m B j) neox (hdim div 2) (Sl b) hdim nh pos m = Some m1 \<and> holds Sl m0 ?s1 m1"
    by (rule rope_slice_holds [OF bufs h len(1) dims(1,2) half]) (rule fr [OF _ h])
  then obtain m1 where m1: "rope_slice cm (\<lambda>j m. rd m B j) neox (hdim div 2) (Sl b) hdim nh pos m = Some m1" "holds Sl m0 ?s1 m1"
    by blast
  have "\<exists>m2. rope_slice cm (\<lambda>j m. rd m B j) neox (hdim div 2) (Sl c) hdim nkv pos m1 = Some m2 \<and>
      holds Sl m0 (?s1(c := rope_rows cm ((!) F) neox (hdim div 2) hdim nkv r pos (?s1 c))) m2"
    by (rule rope_slice_holds [OF bufs m1(2) len(2) dims(1,3) half]) (rule fr [OF _ m1(2)])
  then obtain m2 where m2: "rope_slice cm (\<lambda>j m. rd m B j) neox (hdim div 2) (Sl c) hdim nkv pos m1 = Some m2"
    "holds Sl m0 (?s1(c := rope_rows cm ((!) F) neox (hdim div 2) hdim nkv r pos (?s1 c))) m2"
    by blast
  have "CPUBackend_RoPEWithFreqs cm qp kp fp hdim nh nkv r pos neox m = Some m2"
    using m1(1) m2(1) at B(1) by (simp add: CPUBackend_RoPEWithFreqs_def at_ptr_def)
  then show ?thesis using m2(2) bc by auto
qed

section \<open>Attention\<close>

text \<open>
  Every head of every token over the tokens up to its own; \<open>t\<close> numbers the query vectors, \<open>nq\<close> for a token, and a key
  vector serves \<open>nq div nkv\<close> heads.
\<close>

definition attention :: "CpuMath \<Rightarrow> (f32 \<Rightarrow> f32) \<Rightarrow> nat \<Rightarrow> nat \<Rightarrow> nat \<Rightarrow> nat \<Rightarrow> f32 list \<Rightarrow> f32 list \<Rightarrow> f32 list \<Rightarrow> f32 list" where
  "attention cm score nq nkv hdim r q k v =
     concat (map (\<lambda>t. map (attend_value cm score (vec_at hdim t q)
         (map (\<lambda>p. vec_at hdim (p * nkv + t mod nq div (nq div nkv)) k) [0..<t div nq + 1])
         (map (\<lambda>p. vec_at hdim (p * nkv + t mod nq div (nq div nkv)) v) [0..<t div nq + 1])) [0..<hdim]) [0..<r * nq])"

lemma prefill_holds:
  assumes bufs: "buffers_apart Sl" and h: "holds Sl m0 \<sigma> m" and heads: "0 < nkv" "nq = g * nkv"
    and at: "at_ptr qp (r * nq * hdim) (Sl a)" "at_ptr kp (r * nkv * hdim) (Sl b)" "at_ptr vp (r * nkv * hdim) (Sl c)" "at_ptr op (r * nq * hdim) (Sl d)"
    and ne: "d \<noteq> a" "d \<noteq> b" "d \<noteq> c"
  shows "\<exists>m'. prefill_kernel cm score qp kp vp op r nq nkv hdim m = Some m' \<and>
    holds Sl m0 (\<sigma>(d := attention cm score nq nkv hdim r (\<sigma> a) (\<sigma> b) (\<sigma> c))) m'"
proof -
  let ?g = "\<lambda>t. map (attend_value cm score (vec_at hdim t (\<sigma> a))
         (map (\<lambda>p. vec_at hdim (p * nkv + t mod nq div (nq div nkv)) (\<sigma> b)) [0..<t div nq + 1])
         (map (\<lambda>p. vec_at hdim (p * nkv + t mod nq div (nq div nkv)) (\<sigma> c)) [0..<t div nq + 1])) [0..<hdim]"
  note len = at [THEN at_ptr_len] and cap = at [THEN at_ptr_cap]
  have caps: "fs_cap (Sl a) = fs_len (Sl a)" "fs_cap (Sl d) = fs_len (Sl d)" "fs_cap (Sl b) = fs_len (Sl b)" "fs_cap (Sl c) = fs_len (Sl c)"
    using len cap by simp_all
  obtain m' where m': "prefill_slices cm score (Sl a) (Sl b) (Sl c) (Sl d) r nq nkv hdim m = Some m'"
    "wrote (Sl d) {..<r * nq * hdim} (\<lambda>x. attend_value cm score (floats m (Sl a) (x div hdim * hdim) hdim)
      (map (\<lambda>p. floats m (Sl b) (p * nkv * hdim + x div hdim mod nq div g * hdim) hdim) [0..<x div hdim div nq + 1])
      (map (\<lambda>p. floats m (Sl c) (p * nkv * hdim + x div hdim mod nq div g * hdim) hdim) [0..<x div hdim div nq + 1]) (x mod hdim)) m m'"
    using prefill_slices_wrote [OF heads len(1,4,2,3) caps buffersD [OF bufs ne(1)] buffersD [OF bufs ne(2)] buffersD [OF bufs ne(3)]]
    by blast
  have "wrote (Sl d) {..<r * nq * hdim} (\<lambda>x. ?g (x div hdim) ! (x mod hdim)) m m'"
  proof (rule wrote_cong [OF m'(2)])
    fix x assume "x \<in> {..<r * nq * hdim}"
    then have x: "x < r * nq * hdim" by simp
    then have hdim: "0 < hdim" by (cases hdim) auto
    then have t: "x div hdim < r * nq" using x by (simp add: less_mult_imp_div_less)
    then have nq: "0 < nq" by (cases nq) auto
    then have gd: "nq div nkv = g" "0 < g" using heads by (simp_all add: gr0I)
    have i: "x div hdim div nq < r" using t by (simp add: less_mult_imp_div_less)
    have "x div hdim mod nq < g * nkv" using nq heads by simp
    then have kvh: "x div hdim mod nq div g < nkv" by (metis less_mult_imp_div_less mult.commute)
    have q: "floats m (Sl a) (x div hdim * hdim) hdim = vec_at hdim (x div hdim) (\<sigma> a)"
      using holds_vec_at [OF h] row_end [OF t] len(1) by simp
    have kv: "floats m (Sl s) (p * nkv * hdim + x div hdim mod nq div g * hdim) hdim = vec_at hdim (p * nkv + x div hdim mod nq div g) (\<sigma> s)"
      if "p < x div hdim div nq + 1" "fs_len (Sl s) = r * nkv * hdim" for p s
    proof -
      have "p < r" using that(1) i by simp
      then have "p * nkv + x div hdim mod nq div g < r * nkv" using kvh by (rule row_bound)
      then have e: "(p * nkv + x div hdim mod nq div g) * hdim + hdim \<le> fs_len (Sl s)" unfolding that(2) by (rule row_end)
      show ?thesis using holds_vec_at [OF h e] by (simp only: add_mult_distrib)
    qed
    have "map (\<lambda>p. floats m (Sl s) (p * nkv * hdim + x div hdim mod nq div g * hdim) hdim) [0..<x div hdim div nq + 1] =
        map (\<lambda>p. vec_at hdim (p * nkv + x div hdim mod nq div g) (\<sigma> s)) [0..<x div hdim div nq + 1]"
      if "fs_len (Sl s) = r * nkv * hdim" for s
      by (rule map_cong [OF refl]) (rule kv [OF _ that], simp only: set_upt atLeastLessThan_iff)
    note kvs = this [OF len(2)] this [OF len(3)]
    show "attend_value cm score (floats m (Sl a) (x div hdim * hdim) hdim)
      (map (\<lambda>p. floats m (Sl b) (p * nkv * hdim + x div hdim mod nq div g * hdim) hdim) [0..<x div hdim div nq + 1])
      (map (\<lambda>p. floats m (Sl c) (p * nkv * hdim + x div hdim mod nq div g * hdim) hdim) [0..<x div hdim div nq + 1]) (x mod hdim) =
      ?g (x div hdim) ! (x mod hdim)"
      using hdim unfolding q kvs gd(1) by simp
  qed
  then have "holds Sl m0 (\<sigma>(d := attention cm score nq nkv hdim r (\<sigma> a) (\<sigma> b) (\<sigma> c))) m'"
    unfolding attention_def by (rule holds_rows [OF bufs h _ len(4)]) simp
  then show ?thesis using m'(1) at by (simp add: prefill_kernel_def at_ptr_def)
qed

text \<open>One token over itself, as decoding over a cache of one position.\<close>

lemma decode_holds:
  assumes bufs: "buffers_apart Sl" and h: "holds Sl m0 \<sigma> m" and heads: "0 < nkv" "nq = g * nkv"
    and at: "at_ptr qp (nq * hdim) (Sl a)" "at_ptr kp (nkv * hdim) (Sl b)" "at_ptr vp (nkv * hdim) (Sl c)" "at_ptr op (nq * hdim) (Sl d)"
    and ne: "d \<noteq> a" "d \<noteq> b" "d \<noteq> c"
  shows "\<exists>m'. decode_kernel cm score qp kp vp op 1 nq nkv hdim hdim m = Some m' \<and>
    holds Sl m0 (\<sigma>(d := attention cm score nq nkv hdim 1 (\<sigma> a) (\<sigma> b) (\<sigma> c))) m'"
proof -
  let ?g = "\<lambda>t. map (attend_value cm score (vec_at hdim t (\<sigma> a))
         (map (\<lambda>p. vec_at hdim (p * nkv + t mod nq div (nq div nkv)) (\<sigma> b)) [0..<t div nq + 1])
         (map (\<lambda>p. vec_at hdim (p * nkv + t mod nq div (nq div nkv)) (\<sigma> c)) [0..<t div nq + 1])) [0..<hdim]"
  note len = at [THEN at_ptr_len] and cap = at [THEN at_ptr_cap]
  have caps: "fs_cap (Sl a) = fs_len (Sl a)" "fs_cap (Sl d) = fs_len (Sl d)" "fs_cap (Sl b) = fs_len (Sl b)" "fs_cap (Sl c) = fs_len (Sl c)"
    using len cap by simp_all
  have s1: "1 * hdim \<le> hdim" by simp
  obtain m' where m': "decode_slices cm score (Sl a) (Sl b) (Sl c) (Sl d) 1 nq nkv hdim hdim m = Some m'"
    "wrote (Sl d) {..<nq * hdim} (\<lambda>x. attend_value cm score (floats m (Sl a) (x div hdim * hdim) hdim)
      (map (\<lambda>p. floats m (Sl b) (x div hdim div g * hdim + p * hdim) hdim) [0..<1])
      (map (\<lambda>p. floats m (Sl c) (x div hdim div g * hdim + p * hdim) hdim) [0..<1]) (x mod hdim)) m m'"
    using decode_slices_wrote [OF zero_less_one heads s1 len(1,4,2,3) caps buffersD [OF bufs ne(1)] buffersD [OF bufs ne(2)] buffersD [OF bufs ne(3)]]
    by blast
  have "wrote (Sl d) {..<nq * hdim} (\<lambda>x. ?g (x div hdim) ! (x mod hdim)) m m'"
  proof (rule wrote_cong [OF m'(2)])
    fix x assume "x \<in> {..<nq * hdim}"
    then have x: "x < nq * hdim" by simp
    then have dim: "0 < hdim" by (cases hdim) auto
    then have t: "x div hdim < nq" using x by (simp add: less_mult_imp_div_less)
    then have gd: "nq div nkv = g" using heads by simp
    have t0: "x div hdim div nq = 0" "x div hdim mod nq = x div hdim" using t by simp_all
    have kvh: "x div hdim div g < nkv" using t heads by (metis less_mult_imp_div_less mult.commute)
    have q: "floats m (Sl a) (x div hdim * hdim) hdim = vec_at hdim (x div hdim) (\<sigma> a)"
      using holds_vec_at [OF h] row_end [OF t] len(1) by simp
    have kv: "floats m (Sl s) (x div hdim div g * hdim) hdim = vec_at hdim (x div hdim div g) (\<sigma> s)"
      if "fs_len (Sl s) = nkv * hdim" for s
      using holds_vec_at [OF h] row_end [OF kvh] that by simp
    show "attend_value cm score (floats m (Sl a) (x div hdim * hdim) hdim)
      (map (\<lambda>p. floats m (Sl b) (x div hdim div g * hdim + p * hdim) hdim) [0..<1])
      (map (\<lambda>p. floats m (Sl c) (x div hdim div g * hdim + p * hdim) hdim) [0..<1]) (x mod hdim) =
      ?g (x div hdim) ! (x mod hdim)"
      using dim unfolding q gd t0 by (simp add: kv [OF len(2)] kv [OF len(3)])
  qed
  then have "wrote (Sl d) {..<1 * nq * hdim} (\<lambda>x. ?g (x div hdim) ! (x mod hdim)) m m'" by simp
  then have "holds Sl m0 (\<sigma>(d := attention cm score nq nkv hdim 1 (\<sigma> a) (\<sigma> b) (\<sigma> c))) m'"
    unfolding attention_def by (rule holds_rows [OF bufs h]) (use len(4) in simp_all)
  then show ?thesis using m'(1) at by (simp add: decode_kernel_def at_ptr_def)
qed

end
