(* ===== verification/Block_Layer.thy ===== *)
theory Block_Layer
  imports Cpu_Buffers
begin

text \<open>
  The forward pass of a transformer layer on the CPU against its definition on lists of floats: \<open>Execute\<close> computes
  \<open>layer_value\<close> in the buffer of its input, for every kind of layer the configuration can describe, and changes no
  other byte outside its scratch buffer.
\<close>

section \<open>The layer as a function\<close>

text \<open>The weights as lists; an option is \<open>None\<close> where the model has no such tensor.\<close>

record Layer =
  ly_norm1 :: "f32 list"
  ly_norm1_bias :: "f32 list"
  ly_q :: Proj
  ly_k :: Proj
  ly_v :: Proj
  ly_freqs :: "f32 list option"
  ly_o :: Proj
  ly_post_attn :: "f32 list option"
  ly_norm2 :: "f32 list"
  ly_norm2_bias :: "f32 list"
  ly_w1 :: Proj
  ly_w2 :: Proj
  ly_w3 :: Proj
  ly_post_ffn :: "f32 list option"

definition norm_value :: "CpuMath \<Rightarrow> 's BlockRuntime \<Rightarrow> f32 list \<Rightarrow> f32 list \<Rightarrow> nat \<Rightarrow> f32 list \<Rightarrow> f32 list" where
  "norm_value cm br ws bs r xs =
     by_rows r (br_HiddenSize br)
       (if br_NormType br = NormLayerNorm then layer_norm cm (f32_of_f64 (br_RMSNormEPS br)) ws bs
        else rms_norm cm (f32_of_f64 (br_RMSNormEPS br)) ws) xs"

text \<open>The normalization after a sublayer, where there is one.\<close>

definition post_norm :: "CpuMath \<Rightarrow> 's BlockRuntime \<Rightarrow> f32 list option \<Rightarrow> nat \<Rightarrow> f32 list \<Rightarrow> f32 list" where
  "post_norm cm br ow r xs =
     (case ow of None \<Rightarrow> xs | Some ws \<Rightarrow> by_rows r (br_HiddenSize br) (rms_norm cm (f32_of_f64 (br_RMSNormEPS br)) ws) xs)"

definition rope_value_of :: "CpuMath \<Rightarrow> 's BlockRuntime \<Rightarrow> f32 list option \<Rightarrow> nat \<Rightarrow> nat \<Rightarrow> int \<Rightarrow> f32 list \<Rightarrow> f32 list" where
  "rope_value_of cm br freqs heads r pos xs =
     (let dim = br_HeadDim br; eff = (if br_RoPEDim br = 0 then dim else br_RoPEDim br)
      in case freqs of
          Some F \<Rightarrow> rope_rows cm ((!) F) (br_RoPENeox br) (dim div 2) dim heads r pos xs
        | None \<Rightarrow> rope_rows cm (\<lambda>j. cm_freq cm (f32_of_f64 (br_RoPETheta br)) (2 * j) eff) (br_RoPENeox br) (eff div 2) dim heads r pos xs)"

definition score_of :: "CpuMath \<Rightarrow> (int \<Rightarrow> f32) \<Rightarrow> 's BlockRuntime \<Rightarrow> f32 \<Rightarrow> f32" where
  "score_of cm invSqrt br =
     (let scale = attentionScale invSqrt br; cap = br_AttentionLogitSoftCap br
      in if f32_less 0 cap then capped_score cm scale cap else plain_score scale)"

text \<open>Self-attention of the normalized input, with the output projection.\<close>

definition heads_value :: "CpuMath \<Rightarrow> (int \<Rightarrow> f32) \<Rightarrow> 's BlockRuntime \<Rightarrow> Layer \<Rightarrow> nat \<Rightarrow> int \<Rightarrow> f32 list \<Rightarrow> f32 list" where
  "heads_value cm invSqrt br L r pos nx =
     attention cm (score_of cm invSqrt br) (br_NumAttentionHeads br) (br_NumKeyValueHeads br) (br_HeadDim br) r
       (rope_value_of cm br (ly_freqs L) (br_NumAttentionHeads br) r pos (proj cm r (ly_q L) nx))
       (rope_value_of cm br (ly_freqs L) (br_NumKeyValueHeads br) r pos (proj cm r (ly_k L) nx))
       (proj cm r (ly_v L) nx)"

definition attn_value :: "CpuMath \<Rightarrow> (int \<Rightarrow> f32) \<Rightarrow> 's BlockRuntime \<Rightarrow> Layer \<Rightarrow> nat \<Rightarrow> int \<Rightarrow> f32 list \<Rightarrow> f32 list" where
  "attn_value cm invSqrt br L r pos nx =
     post_norm cm br (ly_post_attn L) r (proj cm r (ly_o L) (heads_value cm invSqrt br L r pos nx))"

definition mlp_value :: "CpuMath \<Rightarrow> 's BlockRuntime \<Rightarrow> Layer \<Rightarrow> nat \<Rightarrow> f32 list \<Rightarrow> f32 list" where
  "mlp_value cm br L r nx =
     post_norm cm br (ly_post_ffn L) r (proj cm r (ly_w2 L)
       (if br_MLPType br = MLPGELU then map (gelu_value cm) (proj cm r (ly_w1 L) nx)
        else if br_MLPType br = MLPGeGLU
        then map2 (\<lambda>g u. f32_mul (gelu_value cm g) u) (proj cm r (ly_w1 L) nx) (proj cm r (ly_w3 L) nx)
        else map2 (\<lambda>g u. f32_mul (silu_value cm g) u) (proj cm r (ly_w1 L) nx) (proj cm r (ly_w3 L) nx)))"

text \<open>Both sublayers of the same normalized input, or one after the other.\<close>

definition layer_value :: "CpuMath \<Rightarrow> (int \<Rightarrow> f32) \<Rightarrow> 's BlockRuntime \<Rightarrow> Layer \<Rightarrow> nat \<Rightarrow> int \<Rightarrow> f32 list \<Rightarrow> f32 list" where
  "layer_value cm invSqrt br L r pos xs =
     (let nx = norm_value cm br (ly_norm1 L) (ly_norm1_bias L) r xs; attn = attn_value cm invSqrt br L r pos nx
      in if br_ParallelResidual br then map2 f32_add (map2 f32_add xs attn) (mlp_value cm br L r nx)
         else let ys = map2 f32_add xs attn
           in map2 f32_add ys (mlp_value cm br L r (norm_value cm br (ly_norm2 L) (ly_norm2_bias L) r ys)))"

section \<open>The layer in memory\<close>

datatype buf = BX | BNorm | BQ | BK | BV | BAttn | BGate | BUp

definition norm_at :: "('b \<Rightarrow> fslice) \<Rightarrow> mem \<Rightarrow> 's BlockRuntime \<Rightarrow> Tensor \<Rightarrow> Tensor \<Rightarrow> f32 list \<Rightarrow> f32 list \<Rightarrow> bool" where
  "norm_at Sl m0 br t bias ws bs \<longleftrightarrow> has_weights t \<and> const_floats Sl m0 (t_devicePtr t) (br_HiddenSize br) ws \<and>
     (br_NormType br = NormLayerNorm \<longrightarrow> const_floats Sl m0 (t_devicePtr bias) (br_HiddenSize br) bs)"

definition post_at :: "('b \<Rightarrow> fslice) \<Rightarrow> mem \<Rightarrow> 's BlockRuntime \<Rightarrow> Tensor \<Rightarrow> f32 list option \<Rightarrow> bool" where
  "post_at Sl m0 br t ow \<longleftrightarrow>
     (case ow of None \<Rightarrow> \<not> (br_HasPostNorms br \<and> has_weights t)
      | Some ws \<Rightarrow> br_HasPostNorms br \<and> has_weights t \<and> const_floats Sl m0 (t_devicePtr t) (br_HiddenSize br) ws)"

definition attn_at :: "('b \<Rightarrow> fslice) \<Rightarrow> mem \<Rightarrow> 's BlockRuntime \<Rightarrow> Layer \<Rightarrow> bool" where
  "attn_at Sl m0 br L \<longleftrightarrow>
     norm_at Sl m0 br (br_AttnNorm br) (br_AttnNormBias br) (ly_norm1 L) (ly_norm1_bias L) \<and>
     (let qd = br_NumAttentionHeads br * br_HeadDim br; kd = br_NumKeyValueHeads br * br_HeadDim br; h = br_HiddenSize br
      in proj_at Sl m0 (br_Wq br) (ly_q L) qd h \<and> bias_at Sl m0 (br_WqBias br) qd (pj_bias (ly_q L)) \<and>
         proj_at Sl m0 (br_Wk br) (ly_k L) kd h \<and> bias_at Sl m0 (br_WkBias br) kd (pj_bias (ly_k L)) \<and>
         proj_at Sl m0 (br_Wv br) (ly_v L) kd h \<and> bias_at Sl m0 (br_WvBias br) kd (pj_bias (ly_v L)) \<and>
         proj_at Sl m0 (br_Wo br) (ly_o L) h qd \<and> bias_at Sl m0 (br_WoBias br) h (pj_bias (ly_o L))) \<and>
     post_at Sl m0 br (br_PostAttnNorm br) (ly_post_attn L) \<and>
     (case ly_freqs L of None \<Rightarrow> DevicePtr_IsNil (br_ropeFreqBuf br)
      | Some F \<Rightarrow> \<not> DevicePtr_IsNil (br_ropeFreqBuf br) \<and> const_floats Sl m0 (br_ropeFreqBuf br) (br_HeadDim br div 2) F)"

definition mlp_at :: "('b \<Rightarrow> fslice) \<Rightarrow> mem \<Rightarrow> 's BlockRuntime \<Rightarrow> Layer \<Rightarrow> bool" where
  "mlp_at Sl m0 br L \<longleftrightarrow>
     (let i = br_IntermediateSize br; h = br_HiddenSize br
      in proj_at Sl m0 (br_W1 br) (ly_w1 L) i h \<and> proj_at Sl m0 (br_W2 br) (ly_w2 L) h i \<and>
         (if br_MLPType br = MLPGELU
          then bias_at Sl m0 (br_W1Bias br) i (pj_bias (ly_w1 L)) \<and> bias_at Sl m0 (br_W2Bias br) h (pj_bias (ly_w2 L))
          else pj_bias (ly_w1 L) = None \<and> pj_bias (ly_w2 L) = None \<and> pj_bias (ly_w3 L) = None \<and>
            proj_at Sl m0 (br_W3 br) (ly_w3 L) i h)) \<and>
     (\<not> br_ParallelResidual br \<longrightarrow> norm_at Sl m0 br (br_FFNNorm br) (br_FFNNormBias br) (ly_norm2 L) (ly_norm2_bias L)) \<and>
     post_at Sl m0 br (br_PostFFNNorm br) (ly_post_ffn L)"

text \<open>The dimensions; a parallel layer keeps its attention in the buffer of the up projection, so it must not have one.\<close>

definition dims_ok :: "'s BlockRuntime \<Rightarrow> bool" where
  "dims_ok br \<longleftrightarrow> 0 < br_HiddenSize br \<and> 0 < br_HeadDim br \<and> 0 < br_NumKeyValueHeads br \<and> 0 < br_NumAttentionHeads br \<and>
     br_NumKeyValueHeads br dvd br_NumAttentionHeads br \<and> br_RoPEDim br \<le> br_HeadDim br \<and>
     (br_ParallelResidual br \<longrightarrow> br_MLPType br = MLPGELU)"

text \<open>The pointers of the buffers for \<open>r\<close> tokens.\<close>

definition ptrs_at :: "(buf \<Rightarrow> fslice) \<Rightarrow> 's BlockRuntime \<Rightarrow> nat \<Rightarrow> DevicePtr \<Rightarrow> BlockBuffers \<Rightarrow> bool" where
  "ptrs_at Sl br r xPtr bb \<longleftrightarrow>
     (let h = r * br_HiddenSize br; q = r * br_NumAttentionHeads br * br_HeadDim br; k = r * br_NumKeyValueHeads br * br_HeadDim br;
          i = r * br_IntermediateSize br
      in at_ptr xPtr h (Sl BX) \<and> at_ptr (bb_normOut bb) h (Sl BNorm) \<and> at_ptr (bb_q bb) q (Sl BQ) \<and> at_ptr (bb_k bb) k (Sl BK) \<and>
         at_ptr (bb_v bb) k (Sl BV) \<and> at_ptr (bb_attnOut bb) q (Sl BAttn) \<and> at_ptr (bb_gate bb) i (Sl BGate) \<and>
         at_ptr (bb_up bb) (if br_ParallelResidual br then h else i) (Sl BUp))"

section \<open>The steps\<close>

lemma at_ptr_not_nil: "at_ptr p n s \<Longrightarrow> 0 < n \<Longrightarrow> \<not> DevicePtr_IsNil p"
  by (auto simp: at_ptr_def ptrToFloat32Slice_def nil_fslice_def)

lemma cpu_interfaces:
  assumes "cpu_ops cm sched ncpu br"
  shows "be_RMSNorm (br_backend br) = CPUBackend_RMSNorm cm" "br_layerNormOps br = Some (CPUBackend_LayerNorm cm)"
    "be_RoPE (br_backend br) = CPUBackend_RoPE cm" "br_scaledRoPEOps br = Some (CPUBackend_RoPEWithFreqs cm)"
    "be_SDPA (br_backend br) = CPUBackend_SDPA cm" "be_SDPAPrefill (br_backend br) = CPUBackend_SDPAPrefill cm"
    "br_softCapOps br = Some \<lparr>sc_SDPASoftCap = CPUBackend_SDPASoftCap cm, sc_SDPAPrefillSoftCap = CPUBackend_SDPAPrefillSoftCap cm\<rparr>"
    "be_SiLUMul (br_backend br) = CPUBackend_SiLUMul cm" "be_Add (br_backend br) = CPUBackend_Add" "be_Sync (br_backend br) = Some"
    "br_geluOps br = Some \<lparr>go_GELU = CPUBackend_GELU cm, go_GELUMul = CPUBackend_GELUMul cm\<rparr>"
  using assms by (auto simp: cpu_ops_def cpu_backend_def)

lemma applyNorm_holds:
  assumes cpu: "cpu_ops cm sched ncpu br" and bufs: "buffers_apart Sl" and h: "holds Sl m0 \<sigma> m"
    and at: "at_ptr xp (r * br_HiddenSize br) (Sl b)" "at_ptr op (r * br_HiddenSize br) (Sl c)" and n: "norm_at Sl m0 br t bias ws bs"
  shows "\<exists>m'. applyNorm br xp (t_devicePtr t) (t_devicePtr bias) op r (br_HiddenSize br) m = Some m' \<and>
    holds Sl m0 (\<sigma>(c := norm_value cm br ws bs r (\<sigma> b))) m'"
proof (cases "br_NormType br = NormLayerNorm")
  case True
  then have "const_floats Sl m0 (t_devicePtr t) (br_HiddenSize br) ws" "const_floats Sl m0 (t_devicePtr bias) (br_HiddenSize br) bs"
    using n by (simp_all add: norm_at_def)
  from LayerNorm_holds [OF bufs h at this] show ?thesis
    by (simp add: applyNorm_def cpu_interfaces [OF cpu] norm_value_def True)
next
  case False
  have "const_floats Sl m0 (t_devicePtr t) (br_HiddenSize br) ws" using n by (simp add: norm_at_def)
  from RMSNorm_holds [OF bufs h at this] show ?thesis
    by (simp add: applyNorm_def cpu_interfaces [OF cpu] norm_value_def False)
qed

text \<open>The normalization after a sublayer, in place.\<close>

definition post_step :: "'s BlockRuntime \<Rightarrow> Tensor \<Rightarrow> DevicePtr \<Rightarrow> nat \<Rightarrow> 's \<Rightarrow> 's option" where
  "post_step br t p r s =
     (if br_HasPostNorms br \<and> has_weights t
      then be_RMSNorm (br_backend br) p (t_devicePtr t) p r (br_HiddenSize br) (f32_of_f64 (br_RMSNormEPS br)) s else Some s)"

lemma post_step_holds:
  assumes cpu: "cpu_ops cm sched ncpu br" and bufs: "buffers_apart Sl" and h: "holds Sl m0 \<sigma> m"
    and at: "at_ptr p (r * br_HiddenSize br) (Sl b)" and post: "post_at Sl m0 br t ow"
  shows "\<exists>m'. post_step br t p r m = Some m' \<and> holds Sl m0 (\<sigma>(b := post_norm cm br ow r (\<sigma> b))) m'"
proof (cases ow)
  case None
  then show ?thesis using h post by (auto simp: post_step_def post_at_def post_norm_def)
next
  case (Some ws)
  then have w: "br_HasPostNorms br" "has_weights t" "const_floats Sl m0 (t_devicePtr t) (br_HiddenSize br) ws"
    using post by (simp_all add: post_at_def)
  from RMSNorm_holds [OF bufs h at at w(3)] show ?thesis
    using w(1,2) Some by (simp add: post_step_def post_norm_def cpu_interfaces [OF cpu])
qed

lemma applyRoPE_holds:
  assumes cpu: "cpu_ops cm sched ncpu br" and bufs: "buffers_apart Sl" and h: "holds Sl m0 \<sigma> m" and d: "dims_ok br" and r: "0 < r"
    and at: "at_ptr qp (r * br_NumAttentionHeads br * br_HeadDim br) (Sl b)" "at_ptr kp (r * br_NumKeyValueHeads br * br_HeadDim br) (Sl c)"
    and bc: "b \<noteq> c" and A: "attn_at Sl m0 br L"
  shows "\<exists>m'. applyRoPE br qp kp (br_HeadDim br) (br_NumAttentionHeads br) (br_NumKeyValueHeads br) r pos m = Some m' \<and>
    holds Sl m0 (\<sigma>(b := rope_value_of cm br (ly_freqs L) (br_NumAttentionHeads br) r pos (\<sigma> b),
      c := rope_value_of cm br (ly_freqs L) (br_NumKeyValueHeads br) r pos (\<sigma> c))) m'"
proof -
  have k: "\<not> DevicePtr_IsNil kp" by (rule at_ptr_not_nil [OF at(2)]) (use d r in \<open>simp add: dims_ok_def\<close>)
  have dims: "0 < br_HeadDim br" "0 < br_NumAttentionHeads br" "0 < br_NumKeyValueHeads br" "br_RoPEDim br \<le> br_HeadDim br"
    using d by (simp_all add: dims_ok_def)
  show ?thesis
  proof (cases "ly_freqs L")
    case None
    then have "DevicePtr_IsNil (br_ropeFreqBuf br)" using A by (simp add: attn_at_def)
    then show ?thesis using RoPE_holds [OF bufs h at k bc dims refl] None
      by (simp add: applyRoPE_def cpu_interfaces [OF cpu] rope_value_of_def Let_def)
  next
    case (Some F)
    then have "\<not> DevicePtr_IsNil (br_ropeFreqBuf br)" "const_floats Sl m0 (br_ropeFreqBuf br) (br_HeadDim br div 2) F"
      using A by (simp_all add: attn_at_def)
    then show ?thesis using RoPEWithFreqs_holds [OF bufs h at k bc dims(1-3)] Some
      by (simp add: applyRoPE_def cpu_interfaces [OF cpu] rope_value_of_def Let_def)
  qed
qed

text \<open>The attention kernels, decoding for one token and prefill for more.\<close>

definition attend_step where
  "attend_step invSqrt b bb seqLen s =
     (let scale = attentionScale invSqrt b; cap = br_AttentionLogitSoftCap b;
          nh = br_NumAttentionHeads b; nkv = br_NumKeyValueHeads b; dim = br_HeadDim b; be = br_backend b
      in case (if f32_less 0 cap then br_softCapOps b else None) of
            Some ops \<Rightarrow>
              if seqLen = 1 then sc_SDPASoftCap ops (bb_q bb) (bb_k bb) (bb_v bb) (bb_attnOut bb) seqLen nh nkv dim scale cap dim s
              else sc_SDPAPrefillSoftCap ops (bb_q bb) (bb_k bb) (bb_v bb) (bb_attnOut bb) seqLen nh nkv dim scale cap s
          | None \<Rightarrow>
              if seqLen = 1 then be_SDPA be (bb_q bb) (bb_k bb) (bb_v bb) (bb_attnOut bb) seqLen nh nkv dim scale dim s
              else be_SDPAPrefill be (bb_q bb) (bb_k bb) (bb_v bb) (bb_attnOut bb) seqLen nh nkv dim scale s)"

lemma attend_step_kernel:
  assumes "cpu_ops cm sched ncpu br"
  shows "attend_step invSqrt br bb r m =
    (if r = 1 then decode_kernel cm (score_of cm invSqrt br) (bb_q bb) (bb_k bb) (bb_v bb) (bb_attnOut bb) 1
        (br_NumAttentionHeads br) (br_NumKeyValueHeads br) (br_HeadDim br) (br_HeadDim br) m
     else prefill_kernel cm (score_of cm invSqrt br) (bb_q bb) (bb_k bb) (bb_v bb) (bb_attnOut bb) r
        (br_NumAttentionHeads br) (br_NumKeyValueHeads br) (br_HeadDim br) m)"
  by (simp add: attend_step_def cpu_interfaces [OF assms] score_of_def CPUBackend_SDPA_def CPUBackend_SDPAPrefill_def
      CPUBackend_SDPASoftCap_def CPUBackend_SDPAPrefillSoftCap_def Let_def)

lemma attend_step_holds:
  assumes cpu: "cpu_ops cm sched ncpu br" and bufs: "buffers_apart Sl" and h: "holds Sl m0 \<sigma> m" and d: "dims_ok br"
    and p: "ptrs_at Sl br r xPtr bb"
  shows "\<exists>m'. attend_step invSqrt br bb r m = Some m' \<and>
    holds Sl m0 (\<sigma>(BAttn := attention cm (score_of cm invSqrt br) (br_NumAttentionHeads br) (br_NumKeyValueHeads br) (br_HeadDim br) r
      (\<sigma> BQ) (\<sigma> BK) (\<sigma> BV))) m'"
proof -
  obtain g where heads: "0 < br_NumKeyValueHeads br" "br_NumAttentionHeads br = g * br_NumKeyValueHeads br"
    using d by (auto simp: dims_ok_def elim!: dvdE)
  have at: "at_ptr (bb_q bb) (r * br_NumAttentionHeads br * br_HeadDim br) (Sl BQ)"
    "at_ptr (bb_k bb) (r * br_NumKeyValueHeads br * br_HeadDim br) (Sl BK)"
    "at_ptr (bb_v bb) (r * br_NumKeyValueHeads br * br_HeadDim br) (Sl BV)"
    "at_ptr (bb_attnOut bb) (r * br_NumAttentionHeads br * br_HeadDim br) (Sl BAttn)"
    using p by (simp_all add: ptrs_at_def Let_def)
  show ?thesis
  proof (cases "r = 1")
    case True
    have at1: "at_ptr (bb_q bb) (br_NumAttentionHeads br * br_HeadDim br) (Sl BQ)"
      "at_ptr (bb_k bb) (br_NumKeyValueHeads br * br_HeadDim br) (Sl BK)"
      "at_ptr (bb_v bb) (br_NumKeyValueHeads br * br_HeadDim br) (Sl BV)"
      "at_ptr (bb_attnOut bb) (br_NumAttentionHeads br * br_HeadDim br) (Sl BAttn)"
      using at unfolding True by simp_all
    show ?thesis unfolding attend_step_kernel [OF cpu] using decode_holds [OF bufs h heads at1] True by simp
  next
    case False
    show ?thesis unfolding attend_step_kernel [OF cpu] using prefill_holds [OF bufs h heads at] False by simp
  qed
qed

lemma Execute_attention_holds:
  assumes cpu: "cpu_ops cm sched ncpu br" and bufs: "buffers_apart Sl" and h: "holds Sl m0 \<sigma> m" and d: "dims_ok br" and r: "0 < r"
    and p: "ptrs_at Sl br r xPtr bb" and A: "attn_at Sl m0 br L"
  shows "\<exists>m' \<sigma>'. Execute_attention invSqrt br xPtr bb r pos m = Some m' \<and> holds Sl m0 \<sigma>' m' \<and> \<sigma>' BX = \<sigma> BX \<and>
    \<sigma>' BNorm = norm_value cm br (ly_norm1 L) (ly_norm1_bias L) r (\<sigma> BX) \<and>
    \<sigma>' BAttn = heads_value cm invSqrt br L r pos (norm_value cm br (ly_norm1 L) (ly_norm1_bias L) r (\<sigma> BX))"
proof -
  let ?h = "br_HiddenSize br" and ?qd = "br_NumAttentionHeads br * br_HeadDim br" and ?kd = "br_NumKeyValueHeads br * br_HeadDim br"
  let ?nx = "norm_value cm br (ly_norm1 L) (ly_norm1_bias L) r (\<sigma> BX)"
  let ?s1 = "\<sigma>(BNorm := ?nx)"
  let ?s2 = "?s1(BQ := proj cm r (ly_q L) ?nx)"
  let ?s3 = "?s2(BK := proj cm r (ly_k L) ?nx)"
  let ?s4 = "?s3(BV := proj cm r (ly_v L) ?nx)"
  let ?rq = "rope_value_of cm br (ly_freqs L) (br_NumAttentionHeads br) r pos"
  let ?rk = "rope_value_of cm br (ly_freqs L) (br_NumKeyValueHeads br) r pos"
  let ?s5 = "?s4(BQ := ?rq (proj cm r (ly_q L) ?nx), BK := ?rk (proj cm r (ly_k L) ?nx))"
  have at: "at_ptr xPtr (r * ?h) (Sl BX)" "at_ptr (bb_normOut bb) (r * ?h) (Sl BNorm)" "at_ptr (bb_q bb) (r * ?qd) (Sl BQ)"
    "at_ptr (bb_k bb) (r * ?kd) (Sl BK)" "at_ptr (bb_v bb) (r * ?kd) (Sl BV)"
    using p by (simp_all add: ptrs_at_def Let_def mult.assoc)
  have at': "at_ptr (bb_q bb) (r * br_NumAttentionHeads br * br_HeadDim br) (Sl BQ)"
    "at_ptr (bb_k bb) (r * br_NumKeyValueHeads br * br_HeadDim br) (Sl BK)"
    using p by (simp_all add: ptrs_at_def Let_def)
  have A': "norm_at Sl m0 br (br_AttnNorm br) (br_AttnNormBias br) (ly_norm1 L) (ly_norm1_bias L)"
    "proj_at Sl m0 (br_Wq br) (ly_q L) ?qd ?h" "bias_at Sl m0 (br_WqBias br) ?qd (pj_bias (ly_q L))"
    "proj_at Sl m0 (br_Wk br) (ly_k L) ?kd ?h" "bias_at Sl m0 (br_WkBias br) ?kd (pj_bias (ly_k L))"
    "proj_at Sl m0 (br_Wv br) (ly_v L) ?kd ?h" "bias_at Sl m0 (br_WvBias br) ?kd (pj_bias (ly_v L))"
    using A by (simp_all add: attn_at_def Let_def)
  have w: "has_weights (br_AttnNorm br)" using A'(1) by (simp add: norm_at_def)
  obtain m1 where m1: "applyNorm br xPtr (t_devicePtr (br_AttnNorm br)) (t_devicePtr (br_AttnNormBias br)) (bb_normOut bb) r ?h m = Some m1"
    "holds Sl m0 ?s1 m1"
    using applyNorm_holds [OF cpu bufs h at(1,2) A'(1)] by blast
  obtain m2 where m2: "project br (bb_normOut bb) (br_Wq br) (br_WqBias br) (bb_q bb) r ?h m1 = Some m2" "holds Sl m0 ?s2 m2"
    using project_holds [OF cpu bufs m1(2) r at(2,3) _ A'(2,3)] by auto
  obtain m3 where m3: "project br (bb_normOut bb) (br_Wk br) (br_WkBias br) (bb_k bb) r ?h m2 = Some m3" "holds Sl m0 ?s3 m3"
    using project_holds [OF cpu bufs m2(2) r at(2,4) _ A'(4,5)] by auto
  obtain m4 where m4: "project br (bb_normOut bb) (br_Wv br) (br_WvBias br) (bb_v bb) r ?h m3 = Some m4" "holds Sl m0 ?s4 m4"
    using project_holds [OF cpu bufs m3(2) r at(2,5) _ A'(6,7)] by auto
  obtain m5 where m5: "applyRoPE br (bb_q bb) (bb_k bb) (br_HeadDim br) (br_NumAttentionHeads br) (br_NumKeyValueHeads br) r pos m4 = Some m5"
    "holds Sl m0 ?s5 m5"
    using applyRoPE_holds [OF cpu bufs m4(2) d r at' _ A, of pos] by auto
  obtain m6 where m6: "attend_step invSqrt br bb r m5 = Some m6"
    "holds Sl m0 (?s5(BAttn := attention cm (score_of cm invSqrt br) (br_NumAttentionHeads br) (br_NumKeyValueHeads br) (br_HeadDim br) r
      (?s5 BQ) (?s5 BK) (?s5 BV))) m6"
    using attend_step_holds [OF cpu bufs m5(2) d p] by blast
  have "Execute_attention invSqrt br xPtr bb r pos m = Some m6"
    using m6(1) unfolding Execute_attention_def attend_step_def Let_def by (simp add: w m1(1) m2(1) m3(1) m4(1) m5(1))
  then show ?thesis
    by (intro exI conjI) (assumption, rule m6(2), simp_all add: heads_value_def)
qed

text \<open>The output projection, into the buffer \<open>rb\<close>, with the normalization after it.\<close>

lemma output_projection_holds:
  assumes cpu: "cpu_ops cm sched ncpu br" and bufs: "buffers_apart Sl" and h: "holds Sl m0 \<sigma> m" and r: "0 < r"
    and p: "ptrs_at Sl br r xPtr bb" and A: "attn_at Sl m0 br L"
    and res: "at_ptr res (r * br_HiddenSize br) (Sl rb)" "BAttn \<noteq> rb"
  shows "\<exists>m1 m2. project br (bb_attnOut bb) (br_Wo br) (br_WoBias br) res r (br_NumAttentionHeads br * br_HeadDim br) m = Some m1 \<and>
    post_step br (br_PostAttnNorm br) res r m1 = Some m2 \<and>
    holds Sl m0 (\<sigma>(rb := post_norm cm br (ly_post_attn L) r (proj cm r (ly_o L) (\<sigma> BAttn)))) m2"
proof -
  let ?h = "br_HiddenSize br" and ?qd = "br_NumAttentionHeads br * br_HeadDim br"
  have A': "proj_at Sl m0 (br_Wo br) (ly_o L) ?h ?qd" "bias_at Sl m0 (br_WoBias br) ?h (pj_bias (ly_o L))"
    "post_at Sl m0 br (br_PostAttnNorm br) (ly_post_attn L)"
    using A by (simp_all add: attn_at_def Let_def)
  have at: "at_ptr (bb_attnOut bb) (r * ?qd) (Sl BAttn)" using p by (simp add: ptrs_at_def Let_def mult.assoc)
  obtain m1 where m1: "project br (bb_attnOut bb) (br_Wo br) (br_WoBias br) res r ?qd m = Some m1"
    "holds Sl m0 (\<sigma>(rb := proj cm r (ly_o L) (\<sigma> BAttn))) m1"
    using project_holds [OF cpu bufs h r at res A'(1,2)] by blast
  obtain m2 where "post_step br (br_PostAttnNorm br) res r m1 = Some m2"
    "holds Sl m0 (\<sigma>(rb := post_norm cm br (ly_post_attn L) r (proj cm r (ly_o L) (\<sigma> BAttn)))) m2"
    using post_step_holds [OF cpu bufs m1(2) res(1) A'(3)] by auto
  then show ?thesis using m1(1) by blast
qed

lemma add_holds:
  assumes cpu: "cpu_ops cm sched ncpu br" and bufs: "buffers_apart Sl" and h: "holds Sl m0 \<sigma> m"
    and at: "at_ptr xp n (Sl a)" "at_ptr yp n (Sl b)"
  shows "\<exists>m'. be_Add (br_backend br) xp yp xp n m = Some m' \<and> holds Sl m0 (\<sigma>(a := map2 f32_add (\<sigma> a) (\<sigma> b))) m'"
  using binary_holds [OF bufs h at at(1)] by (simp add: cpu_interfaces [OF cpu] CPUBackend_Add_def)

lemma proj_atD: "proj_at Sl m0 t P n k \<Longrightarrow> has_weights t"
  by (simp add: proj_at_def)

lemma Execute_output_parallel:
  assumes cpu: "cpu_ops cm sched ncpu br" and bufs: "buffers_apart Sl" and h: "holds Sl m0 \<sigma> m" and r: "0 < r"
    and p: "ptrs_at Sl br r xPtr bb" and A: "attn_at Sl m0 br L" and par: "br_ParallelResidual br"
  shows "\<exists>m'. Execute_output br xPtr bb (bb_up bb) r m = Some m' \<and>
    holds Sl m0 (\<sigma>(BUp := post_norm cm br (ly_post_attn L) r (proj cm r (ly_o L) (\<sigma> BAttn)))) m'"
proof -
  have res: "at_ptr (bb_up bb) (r * br_HiddenSize br) (Sl BUp)" using p par by (simp add: ptrs_at_def Let_def)
  have w: "has_weights (br_Wo br)" using A by (auto simp: attn_at_def Let_def dest: proj_atD)
  obtain m1 m2 where "project br (bb_attnOut bb) (br_Wo br) (br_WoBias br) (bb_up bb) r (br_NumAttentionHeads br * br_HeadDim br) m = Some m1"
    "post_step br (br_PostAttnNorm br) (bb_up bb) r m1 = Some m2"
    "holds Sl m0 (\<sigma>(BUp := post_norm cm br (ly_post_attn L) r (proj cm r (ly_o L) (\<sigma> BAttn)))) m2"
    using output_projection_holds [OF cpu bufs h r p A res] by auto
  then show ?thesis by (simp add: Execute_output_def post_step_def [symmetric] w par)
qed

lemma Execute_output_serial:
  assumes cpu: "cpu_ops cm sched ncpu br" and bufs: "buffers_apart Sl" and h: "holds Sl m0 \<sigma> m" and r: "0 < r"
    and p: "ptrs_at Sl br r xPtr bb" and A: "attn_at Sl m0 br L" and M: "mlp_at Sl m0 br L" and ser: "\<not> br_ParallelResidual br"
    and ys: "ys = map2 f32_add (\<sigma> BX) (post_norm cm br (ly_post_attn L) r (proj cm r (ly_o L) (\<sigma> BAttn)))"
  shows "\<exists>m' \<sigma>'. Execute_output br xPtr bb (bb_normOut bb) r m = Some m' \<and> holds Sl m0 \<sigma>' m' \<and>
    \<sigma>' BX = ys \<and> \<sigma>' BNorm = norm_value cm br (ly_norm2 L) (ly_norm2_bias L) r ys"
proof -
  let ?o = "post_norm cm br (ly_post_attn L) r (proj cm r (ly_o L) (\<sigma> BAttn))"
  have at: "at_ptr (bb_normOut bb) (r * br_HiddenSize br) (Sl BNorm)" "at_ptr xPtr (r * br_HiddenSize br) (Sl BX)"
    using p by (simp_all add: ptrs_at_def Let_def)
  have w: "has_weights (br_Wo br)" using A by (auto simp: attn_at_def Let_def dest: proj_atD)
  have n: "norm_at Sl m0 br (br_FFNNorm br) (br_FFNNormBias br) (ly_norm2 L) (ly_norm2_bias L)" using M ser by (simp add: mlp_at_def)
  then have w2: "has_weights (br_FFNNorm br)" by (simp add: norm_at_def)
  obtain m1 m2 where m1: "project br (bb_attnOut bb) (br_Wo br) (br_WoBias br) (bb_normOut bb) r (br_NumAttentionHeads br * br_HeadDim br) m = Some m1"
    "post_step br (br_PostAttnNorm br) (bb_normOut bb) r m1 = Some m2" "holds Sl m0 (\<sigma>(BNorm := ?o)) m2"
    using output_projection_holds [OF cpu bufs h r p A at(1)] by auto
  obtain m3 where m3: "be_Add (br_backend br) xPtr (bb_normOut bb) xPtr (r * br_HiddenSize br) m2 = Some m3"
    "holds Sl m0 (\<sigma>(BNorm := ?o, BX := ys)) m3"
    using add_holds [OF cpu bufs m1(3) at(2,1)] ys by auto
  obtain m4 where m4: "applyNorm br xPtr (t_devicePtr (br_FFNNorm br)) (t_devicePtr (br_FFNNormBias br)) (bb_normOut bb) r (br_HiddenSize br) m3 = Some m4"
    "holds Sl m0 ((\<sigma>(BNorm := ?o, BX := ys))(BNorm := norm_value cm br (ly_norm2 L) (ly_norm2_bias L) r ys)) m4"
    using applyNorm_holds [OF cpu bufs m3(2) at(2,1) n] by auto
  have "Execute_output br xPtr bb (bb_normOut bb) r m = Some m4"
    using m1(1,2) m3(1) m4(1) by (simp add: Execute_output_def post_step_def [symmetric] w w2 ser)
  then show ?thesis using m4(2) by (intro exI conjI) (assumption, assumption, simp_all)
qed

text \<open>The feed-forward network; a parallel layer has no up projection, so its buffer keeps what it holds.\<close>

lemma Execute_mlp_gelu:
  assumes cpu: "cpu_ops cm sched ncpu br" and bufs: "buffers_apart Sl" and h: "holds Sl m0 \<sigma> m" and r: "0 < r"
    and p: "ptrs_at Sl br r xPtr bb" and M: "mlp_at Sl m0 br L" and g: "br_MLPType br = MLPGELU"
  shows "\<exists>m' \<sigma>'. Execute_mlp br bb r m = Some m' \<and> holds Sl m0 \<sigma>' m' \<and> \<sigma>' BX = \<sigma> BX \<and> \<sigma>' BUp = \<sigma> BUp \<and>
    \<sigma>' BNorm = mlp_value cm br L r (\<sigma> BNorm)"
proof -
  let ?h = "br_HiddenSize br" and ?i = "br_IntermediateSize br"
  let ?s1 = "\<sigma>(BGate := proj cm r (ly_w1 L) (\<sigma> BNorm))"
  let ?s2 = "\<sigma>(BGate := map (gelu_value cm) (proj cm r (ly_w1 L) (\<sigma> BNorm)))"
  have at: "at_ptr (bb_normOut bb) (r * ?h) (Sl BNorm)" "at_ptr (bb_gate bb) (r * ?i) (Sl BGate)"
    using p by (simp_all add: ptrs_at_def Let_def)
  have M': "proj_at Sl m0 (br_W1 br) (ly_w1 L) ?i ?h" "proj_at Sl m0 (br_W2 br) (ly_w2 L) ?h ?i"
    "bias_at Sl m0 (br_W1Bias br) ?i (pj_bias (ly_w1 L))" "bias_at Sl m0 (br_W2Bias br) ?h (pj_bias (ly_w2 L))"
    "post_at Sl m0 br (br_PostFFNNorm br) (ly_post_ffn L)"
    using M g by (simp_all add: mlp_at_def Let_def)
  obtain m1 where m1: "project br (bb_normOut bb) (br_W1 br) (br_W1Bias br) (bb_gate bb) r ?h m = Some m1" "holds Sl m0 ?s1 m1"
    using project_holds [OF cpu bufs h r at _ M'(1,3)] by auto
  obtain m2 where m2: "CPUBackend_GELU cm (bb_gate bb) (bb_gate bb) (r * ?i) m1 = Some m2" "holds Sl m0 ?s2 m2"
    using unary_holds [OF bufs m1(2) at(2,2), of "gelu_value cm"] by (auto simp: CPUBackend_GELU_def)
  obtain m3 where m3: "project br (bb_gate bb) (br_W2 br) (br_W2Bias br) (bb_normOut bb) r ?i m2 = Some m3"
    "holds Sl m0 (?s2(BNorm := proj cm r (ly_w2 L) (?s2 BGate))) m3"
    using project_holds [OF cpu bufs m2(2) r at(2,1) _ M'(2,4)] by blast
  obtain m4 where m4: "post_step br (br_PostFFNNorm br) (bb_normOut bb) r m3 = Some m4"
    "holds Sl m0 (?s2(BNorm := post_norm cm br (ly_post_ffn L) r (proj cm r (ly_w2 L) (?s2 BGate)))) m4"
    using post_step_holds [OF cpu bufs m3(2) at(1) M'(5)] by auto
  have "Execute_mlp br bb r m = Some m4"
    using m4(1) by (simp add: Execute_mlp_def post_step_def [symmetric] g m1(1) m2(1) m3(1) cpu_interfaces [OF cpu])
  then show ?thesis using m4(2) by (intro exI conjI) (assumption, assumption, simp_all add: mlp_value_def g)
qed

lemma Execute_mlp_gated:
  assumes cpu: "cpu_ops cm sched ncpu br" and bufs: "buffers_apart Sl" and h: "holds Sl m0 \<sigma> m" and r: "0 < r"
    and p: "ptrs_at Sl br r xPtr bb" and M: "mlp_at Sl m0 br L" and g: "br_MLPType br \<noteq> MLPGELU" and ser: "\<not> br_ParallelResidual br"
  shows "\<exists>m' \<sigma>'. Execute_mlp br bb r m = Some m' \<and> holds Sl m0 \<sigma>' m' \<and> \<sigma>' BX = \<sigma> BX \<and>
    \<sigma>' BNorm = mlp_value cm br L r (\<sigma> BNorm)"
proof -
  let ?h = "br_HiddenSize br" and ?i = "br_IntermediateSize br"
  let ?f = "if br_MLPType br = MLPGeGLU then (\<lambda>g u. f32_mul (gelu_value cm g) u) else (\<lambda>g u. f32_mul (silu_value cm g) u)"
  let ?s1 = "\<sigma>(BGate := proj cm r (ly_w1 L) (\<sigma> BNorm))"
  let ?s2 = "?s1(BUp := proj cm r (ly_w3 L) (\<sigma> BNorm))"
  let ?s3 = "?s2(BGate := map2 ?f (proj cm r (ly_w1 L) (\<sigma> BNorm)) (proj cm r (ly_w3 L) (\<sigma> BNorm)))"
  have at: "at_ptr (bb_normOut bb) (r * ?h) (Sl BNorm)" "at_ptr (bb_gate bb) (r * ?i) (Sl BGate)" "at_ptr (bb_up bb) (r * ?i) (Sl BUp)"
    using p ser by (simp_all add: ptrs_at_def Let_def)
  have M': "proj_at Sl m0 (br_W1 br) (ly_w1 L) ?i ?h" "proj_at Sl m0 (br_W2 br) (ly_w2 L) ?h ?i" "proj_at Sl m0 (br_W3 br) (ly_w3 L) ?i ?h"
    "pj_bias (ly_w1 L) = None" "pj_bias (ly_w2 L) = None" "pj_bias (ly_w3 L) = None" "post_at Sl m0 br (br_PostFFNNorm br) (ly_post_ffn L)"
    using M g by (simp_all add: mlp_at_def Let_def)
  obtain m1 where m1: "project_plain br (bb_normOut bb) (br_W1 br) (bb_gate bb) r ?h m = Some m1" "holds Sl m0 ?s1 m1"
    using project_plain_holds [OF cpu bufs h r at(1,2) _ M'(1,4)] by auto
  obtain m2 where m2: "project_plain br (bb_normOut bb) (br_W3 br) (bb_up bb) r ?h m1 = Some m2" "holds Sl m0 ?s2 m2"
    using project_plain_holds [OF cpu bufs m1(2) r at(1,3) _ M'(3,6)] by auto
  obtain m3 where m3: "binary_kernel ?f (bb_gate bb) (bb_up bb) (bb_gate bb) (r * ?i) m2 = Some m3" "holds Sl m0 ?s3 m3"
    using binary_holds [OF bufs m2(2) at(2,3,2), of ?f] by auto
  obtain m4 where m4: "project_plain br (bb_gate bb) (br_W2 br) (bb_normOut bb) r ?i m3 = Some m4"
    "holds Sl m0 (?s3(BNorm := proj cm r (ly_w2 L) (?s3 BGate))) m4"
    using project_plain_holds [OF cpu bufs m3(2) r at(2,1) _ M'(2,5)] by blast
  obtain m5 where m5: "post_step br (br_PostFFNNorm br) (bb_normOut bb) r m4 = Some m5"
    "holds Sl m0 (?s3(BNorm := post_norm cm br (ly_post_ffn L) r (proj cm r (ly_w2 L) (?s3 BGate)))) m5"
    using post_step_holds [OF cpu bufs m4(2) at(1) M'(7)] by auto
  have "Execute_mlp br bb r m = Some m5"
    using m3(1) m5(1)
    by (simp add: Execute_mlp_def post_step_def [symmetric] g m1(1) m2(1) m4(1) cpu_interfaces [OF cpu] CPUBackend_GELUMul_def
        CPUBackend_SiLUMul_def split: if_splits)
  then show ?thesis using m5(2) g by (intro exI conjI) (assumption, assumption, simp_all add: mlp_value_def)
qed

end
