(* ===== verification/Block_Props.thy ===== *)
theory Block_Props
  imports Block_Layer
begin

text \<open>
  The scratch buffer of a layer on the CPU, and the theorem on \<open>Execute\<close>: the buffers that it cuts out of the scratch
  buffer lie side by side, so the layer computes \<open>layer_value\<close> and touches nothing else.
\<close>

section \<open>The buffers\<close>

definition part :: "int \<Rightarrow> nat \<Rightarrow> nat \<Rightarrow> fslice" where
  "part a off n = \<lparr>fs_addr = a + 4 * int off, fs_len = n, fs_cap = n\<rparr>"

text \<open>The slices of the buffers, from the addresses of the input and of the scratch buffer and the sizes.\<close>

fun layout :: "int \<Rightarrow> int \<Rightarrow> nat \<Rightarrow> nat \<Rightarrow> nat \<Rightarrow> nat \<Rightarrow> nat \<Rightarrow> buf \<Rightarrow> fslice" where
  "layout x s h q k g u BX = part x 0 h"
| "layout x s h q k g u BNorm = part s 0 h"
| "layout x s h q k g u BQ = part s h q"
| "layout x s h q k g u BK = part s (h + q) k"
| "layout x s h q k g u BV = part s (h + q + k) k"
| "layout x s h q k g u BAttn = part s (h + q + k + k) q"
| "layout x s h q k g u BGate = part s (h + q + k + k + q) g"
| "layout x s h q k g u BUp = part s (h + q + k + k + q + g) u"

definition layout_floats :: "nat \<Rightarrow> nat \<Rightarrow> nat \<Rightarrow> nat \<Rightarrow> nat \<Rightarrow> nat" where
  "layout_floats h q k g u = h + q + k + k + q + g + u"

lemma layout_apart:
  assumes "apart (part x 0 h) (part s 0 (layout_floats h q k g u))"
  shows "buffers_apart (layout x s h q k g u)"
proof -
  have s: "apart (part s o1 n1) (part s o2 n2)" if "o1 + n1 \<le> o2 \<or> o2 + n2 \<le> o1" for o1 n1 o2 n2
    using that by (auto simp: apart_def part_def elem_addr_def)
  have x: "apart (part x 0 h) (part s o1 n1) \<and> apart (part s o1 n1) (part x 0 h)" if "o1 + n1 \<le> layout_floats h q k g u" for o1 n1
    using that assms by (auto simp: apart_def part_def elem_addr_def)
  have "apart (layout x s h q k g u b) (layout x s h q k g u c)" if "b \<noteq> c" for b c
    using that by (cases b; cases c; simp add: s x layout_floats_def)
  then show ?thesis by (simp add: buffers_apart_def)
qed

lemma part_in: "in_slice (part s off n) a \<Longrightarrow> off + n \<le> N \<Longrightarrow> in_slice (part s 0 N) a"
  by (auto simp: part_def in_slice_def elem_addr_def)

lemma layout_in:
  assumes "in_slice (layout x s h q k g u b) a"
  shows "in_slice (part x 0 h) a \<or> in_slice (part s 0 (layout_floats h q k g u)) a"
  using assms by (cases b; simp; (elim part_in disjI2)?; simp add: layout_floats_def part_in)

lemma fits_mono: "a + 4 * b < N \<Longrightarrow> c \<le> b \<Longrightarrow> a + 4 * c < (N :: int)"
  by linarith

lemma fits_alone: "a + 4 * b < N \<Longrightarrow> 0 \<le> a \<Longrightarrow> 4 * b < (N :: int)"
  by linarith

lemma part_at_ptr:
  assumes p: "dp_loc p = CPU" "dp_offset p = 0" "dp_addr p \<noteq> 0" and fits: "uint (dp_addr p) + 4 * int (off + n) < 2 ^ 64"
  shows "at_ptr (DevicePtrOffset p (word_of_nat (4 * off))) n (part (uint (dp_addr p)) off n)"
proof -
  have "int off \<le> int (off + n)" by simp
  then have "4 * int off < 2 ^ 64" using fits_alone [OF fits_mono [OF fits] uint_ge_0] by blast
  then have lim: "4 * off < 2 ^ LENGTH(64)" by simp
  have o: "uint (word_of_nat (4 * off) :: 64 word) = 4 * int off"
    unfolding unsigned_of_nat using take_bit_nat_eq_self [OF lim] by simp
  have "uint (dp_addr p) + uint (word_of_nat (4 * off) :: 64 word) < 2 ^ LENGTH(64)" unfolding o using fits by simp
  then have "uint (dp_addr p + word_of_nat (4 * off)) = uint (dp_addr p) + uint (word_of_nat (4 * off) :: 64 word)"
    by (simp only: uint_add_lem)
  then have u: "uint (dp_addr p + word_of_nat (4 * off)) = uint (dp_addr p) + 4 * int off" unfolding o .
  have "uint (dp_addr p) \<noteq> 0" using p(3) by (metis uint_0_eq word_uint_eq_iff)
  then have "0 < uint (dp_addr p) + 4 * int off" using uint_ge_0 [of "dp_addr p"]
    by (metis add_pos_nonneg mult_nonneg_nonneg of_nat_0_le_iff order_le_less zero_le_numeral)
  then have nz: "dp_addr p + word_of_nat (4 * off) \<noteq> 0" using u by (metis less_irrefl uint_0_eq)
  show ?thesis
    unfolding at_ptr_def ptrToFloat32Slice_def part_def DevicePtrOffset_def DevicePtr_IsNil_def DevicePtr_Addr_def
    using p(1) nz u fits by simp
qed

definition block_floats :: "'s BlockRuntime \<Rightarrow> nat \<Rightarrow> nat" where
  "block_floats br r =
     layout_floats (r * br_HiddenSize br) (r * br_NumAttentionHeads br * br_HeadDim br) (r * br_NumKeyValueHeads br * br_HeadDim br)
       (r * br_IntermediateSize br) (if br_ParallelResidual br then r * br_HiddenSize br else r * br_IntermediateSize br)"

definition block_layout :: "'s BlockRuntime \<Rightarrow> nat \<Rightarrow> int \<Rightarrow> int \<Rightarrow> buf \<Rightarrow> fslice" where
  "block_layout br r x s =
     layout x s (r * br_HiddenSize br) (r * br_NumAttentionHeads br * br_HeadDim br) (r * br_NumKeyValueHeads br * br_HeadDim br)
       (r * br_IntermediateSize br) (if br_ParallelResidual br then r * br_HiddenSize br else r * br_IntermediateSize br)"

text \<open>A pointer to CPU memory, as \<open>NewDevicePtr\<close> makes it.\<close>

definition cpu_ptr :: "DevicePtr \<Rightarrow> bool" where
  "cpu_ptr p \<longleftrightarrow> dp_loc p = CPU \<and> dp_offset p = 0 \<and> dp_addr p \<noteq> 0"

lemma cpu_ptr_at: "cpu_ptr p \<Longrightarrow> uint (dp_addr p) + 4 * int n < 2 ^ 64 \<Longrightarrow> at_ptr p n (part (uint (dp_addr p)) 0 n)"
  by (simp add: cpu_ptr_def at_ptr_def ptrToFloat32Slice_def part_def ptr_defs)

lemma Execute_buffers_at:
  assumes x: "cpu_ptr xPtr" "uint (dp_addr xPtr) + 4 * int (r * br_HiddenSize br) < 2 ^ 64"
    and s: "cpu_ptr sPtr" "uint (dp_addr sPtr) + 4 * int (block_floats br r) < 2 ^ 64"
  shows "\<exists>bb. Execute_buffers br r sPtr m = Some (bb, m) \<and>
    ptrs_at (block_layout br r (uint (dp_addr xPtr)) (uint (dp_addr sPtr))) br r xPtr bb"
proof -
  define h where "h = r * br_HiddenSize br"
  define q where "q = r * br_NumAttentionHeads br * br_HeadDim br"
  define k where "k = r * br_NumKeyValueHeads br * br_HeadDim br"
  define i where "i = r * br_IntermediateSize br"
  define u where "u = (if br_ParallelResidual br then h else i)"
  let ?at = "\<lambda>off n. at_ptr (DevicePtrOffset sPtr (word_of_nat (4 * off))) n (part (uint (dp_addr sPtr)) off n)"
  have at: "?at off n" if "off + n \<le> layout_floats h q k i u" for off n
  proof (rule part_at_ptr)
    have "uint (dp_addr sPtr) + 4 * int (layout_floats h q k i u) < 2 ^ 64"
      using s(2) unfolding block_floats_def h_def [symmetric] q_def [symmetric] k_def [symmetric] i_def [symmetric] u_def .
    moreover have "int (off + n) \<le> int (layout_floats h q k i u)" using that by (simp only: of_nat_le_iff)
    ultimately show "uint (dp_addr sPtr) + 4 * int (off + n) < 2 ^ 64" by (rule fits_mono)
  qed (use s(1) in \<open>simp_all add: cpu_ptr_def\<close>)
  let ?bb = "\<lparr>bb_normOut = DevicePtrOffset sPtr (word_of_nat (4 * 0)), bb_q = DevicePtrOffset sPtr (word_of_nat (4 * h)),
      bb_k = DevicePtrOffset sPtr (word_of_nat (4 * (h + q))), bb_v = DevicePtrOffset sPtr (word_of_nat (4 * (h + q + k))),
      bb_attnOut = DevicePtrOffset sPtr (word_of_nat (4 * (h + q + k + k))),
      bb_gate = DevicePtrOffset sPtr (word_of_nat (4 * (h + q + k + k + q))),
      bb_up = DevicePtrOffset sPtr (word_of_nat (4 * (h + q + k + k + q + i)))\<rparr>"
  have "dp_loc sPtr = CPU" using s(1) by (simp add: cpu_ptr_def)
  then have "Execute_buffers br r sPtr m = Some (?bb, m)"
    unfolding Execute_buffers_def Let_def h_def [symmetric] q_def [symmetric] k_def [symmetric] i_def [symmetric]
    by (simp add: DevicePtr_Location_def algebra_simps)
  moreover have "ptrs_at (block_layout br r (uint (dp_addr xPtr)) (uint (dp_addr sPtr))) br r xPtr ?bb"
    unfolding ptrs_at_def block_layout_def Let_def h_def [symmetric] q_def [symmetric] k_def [symmetric] i_def [symmetric] u_def [symmetric]
    using cpu_ptr_at [OF x [folded h_def]] at [of 0 h] at [of h q] at [of "h + q" k] at [of "h + q + k" k] at [of "h + q + k + k" q]
      at [of "h + q + k + k + q" i] at [of "h + q + k + k + q + i" u]
    by (simp add: layout_floats_def del: of_nat_mult of_nat_add)
  ultimately show ?thesis by blast
qed

section \<open>The whole layer\<close>

definition layer_at :: "('b \<Rightarrow> fslice) \<Rightarrow> mem \<Rightarrow> 's BlockRuntime \<Rightarrow> Layer \<Rightarrow> bool" where
  "layer_at Sl m0 br L \<longleftrightarrow> attn_at Sl m0 br L \<and> mlp_at Sl m0 br L"

text \<open>The steps after the buffers are chosen.\<close>

definition Execute_steps :: "(int \<Rightarrow> f32) \<Rightarrow> 's BlockRuntime \<Rightarrow> DevicePtr \<Rightarrow> BlockBuffers \<Rightarrow> nat \<Rightarrow> int \<Rightarrow> 's \<Rightarrow> 's option" where
  "Execute_steps invSqrt b xPtr bb seqLen pos s =
     do { s \<leftarrow> Execute_attention invSqrt b xPtr bb seqLen pos s;
          let res = (if br_ParallelResidual b then bb_up bb else bb_normOut bb);
          s \<leftarrow> Execute_output b xPtr bb res seqLen s;
          s \<leftarrow> Execute_mlp b bb seqLen s;
          let n = seqLen * br_HiddenSize b;
          let be = br_backend b;
          if br_ParallelResidual b then
            do { s \<leftarrow> be_Add be xPtr res xPtr n s; s \<leftarrow> be_Sync be s; be_Add be xPtr (bb_normOut bb) xPtr n s }
          else be_Add be xPtr (bb_normOut bb) xPtr n s }"

lemma Execute_steps_eq:
  assumes "\<not> DevicePtr_IsNil (t_devicePtr x)" and "\<not> DevicePtr_IsNil (t_devicePtr scratch)"
    and "ndiv (nat (Shape_NumElements (t_shape x))) (br_HiddenSize b) = Some r"
    and "Execute_buffers b r (t_devicePtr scratch) s = Some (bb, s)"
  shows "Execute invSqrt b x scratch pos s =
    map_option (Pair x) (Execute_steps invSqrt b (t_devicePtr x) bb r pos s)"
  using assms by (simp add: Execute_def Execute_steps_def Let_def map_conv_bind_option comp_def)

lemma Execute_steps_holds:
  assumes cpu: "cpu_ops cm sched ncpu br" and bufs: "buffers_apart Sl" and h: "holds Sl m0 \<sigma> m" and d: "dims_ok br" and r: "0 < r"
    and p: "ptrs_at Sl br r xPtr bb" and L: "layer_at Sl m0 br L"
  shows "\<exists>m' \<sigma>'. Execute_steps invSqrt br xPtr bb r pos m = Some m' \<and> holds Sl m0 \<sigma>' m' \<and>
    \<sigma>' BX = layer_value cm invSqrt br L r pos (\<sigma> BX)"
proof -
  let ?nx = "norm_value cm br (ly_norm1 L) (ly_norm1_bias L) r (\<sigma> BX)"
  let ?attn = "attn_value cm invSqrt br L r pos ?nx"
  have at: "at_ptr xPtr (r * br_HiddenSize br) (Sl BX)" "at_ptr (bb_normOut bb) (r * br_HiddenSize br) (Sl BNorm)"
    using p by (simp_all add: ptrs_at_def Let_def)
  note A = L [unfolded layer_at_def, THEN conjunct1] and M = L [unfolded layer_at_def, THEN conjunct2]
  obtain m1 s1 where m1: "Execute_attention invSqrt br xPtr bb r pos m = Some m1" "holds Sl m0 s1 m1" "s1 BX = \<sigma> BX" "s1 BNorm = ?nx"
    "s1 BAttn = heads_value cm invSqrt br L r pos ?nx"
    using Execute_attention_holds [OF cpu bufs h d r p A] by blast
  have o1: "post_norm cm br (ly_post_attn L) r (proj cm r (ly_o L) (s1 BAttn)) = ?attn" by (simp add: m1(5) attn_value_def)
  show ?thesis
  proof (cases "br_ParallelResidual br")
    case True
    then have g: "br_MLPType br = MLPGELU" using d by (simp add: dims_ok_def)
    have up: "at_ptr (bb_up bb) (r * br_HiddenSize br) (Sl BUp)" using p True by (simp add: ptrs_at_def Let_def)
    obtain m2 where m2: "Execute_output br xPtr bb (bb_up bb) r m1 = Some m2" "holds Sl m0 (s1(BUp := ?attn)) m2"
      using Execute_output_parallel [OF cpu bufs m1(2) r p A True] unfolding o1 by blast
    obtain m3 s3 where m3: "Execute_mlp br bb r m2 = Some m3" "holds Sl m0 s3 m3" "s3 BX = \<sigma> BX" "s3 BUp = ?attn"
      "s3 BNorm = mlp_value cm br L r ?nx"
      using Execute_mlp_gelu [OF cpu bufs m2(2) r p M g] m1(3,4) by auto
    obtain m4 where m4: "be_Add (br_backend br) xPtr (bb_up bb) xPtr (r * br_HiddenSize br) m3 = Some m4"
      "holds Sl m0 (s3(BX := map2 f32_add (\<sigma> BX) ?attn)) m4"
      using add_holds [OF cpu bufs m3(2) at(1) up] m3(3,4) by auto
    obtain m5 where m5: "be_Add (br_backend br) xPtr (bb_normOut bb) xPtr (r * br_HiddenSize br) m4 = Some m5"
      "holds Sl m0 (s3(BX := layer_value cm invSqrt br L r pos (\<sigma> BX))) m5"
      using add_holds [OF cpu bufs m4(2) at] m3(5) True by (auto simp: layer_value_def Let_def)
    have "Execute_steps invSqrt br xPtr bb r pos m = Some m5"
      using m4(1) m5(1) by (simp add: Execute_steps_def Let_def True m1(1) m2(1) m3(1) cpu_interfaces [OF cpu])
    then show ?thesis using m5(2) by (intro exI conjI) (assumption, assumption, simp)
  next
    case False
    define ys where "ys = map2 f32_add (\<sigma> BX) ?attn"
    have "ys = map2 f32_add (s1 BX) (post_norm cm br (ly_post_attn L) r (proj cm r (ly_o L) (s1 BAttn)))"
      by (simp add: ys_def o1 m1(3))
    from Execute_output_serial [OF cpu bufs m1(2) r p A M False this]
    obtain m2 s2 where m2: "Execute_output br xPtr bb (bb_normOut bb) r m1 = Some m2" "holds Sl m0 s2 m2" "s2 BX = ys"
      "s2 BNorm = norm_value cm br (ly_norm2 L) (ly_norm2_bias L) r ys" by blast
    have "\<exists>m3 s3. Execute_mlp br bb r m2 = Some m3 \<and> holds Sl m0 s3 m3 \<and> s3 BX = s2 BX \<and> s3 BNorm = mlp_value cm br L r (s2 BNorm)"
      using Execute_mlp_gelu [OF cpu bufs m2(2) r p M] Execute_mlp_gated [OF cpu bufs m2(2) r p M _ False] by blast
    then obtain m3 s3 where m3: "Execute_mlp br bb r m2 = Some m3" "holds Sl m0 s3 m3" "s3 BX = ys"
      "s3 BNorm = mlp_value cm br L r (norm_value cm br (ly_norm2 L) (ly_norm2_bias L) r ys)" using m2(3,4) by auto
    obtain m4 where m4: "be_Add (br_backend br) xPtr (bb_normOut bb) xPtr (r * br_HiddenSize br) m3 = Some m4"
      "holds Sl m0 (s3(BX := layer_value cm invSqrt br L r pos (\<sigma> BX))) m4"
      using add_holds [OF cpu bufs m3(2) at] m3(3,4) False by (auto simp: layer_value_def ys_def Let_def)
    have "Execute_steps invSqrt br xPtr bb r pos m = Some m4"
      using m4(1) by (simp add: Execute_steps_def Let_def False m1(1) m2(1) m3(1))
    then show ?thesis using m4(2) by (intro exI conjI) (assumption, assumption, simp)
  qed
qed

text \<open>A tensor of \<open>r\<close> tokens in CPU memory and a scratch buffer of enough floats, apart from it.\<close>

definition input_at :: "'s BlockRuntime \<Rightarrow> Tensor \<Rightarrow> Tensor \<Rightarrow> nat \<Rightarrow> bool" where
  "input_at br x scratch r \<longleftrightarrow>
     (let xp = t_devicePtr x; sp = t_devicePtr scratch; h = r * br_HiddenSize br
      in Shape_NumElements (t_shape x) = int h \<and> cpu_ptr xp \<and> cpu_ptr sp \<and>
         uint (dp_addr xp) + 4 * int h < 2 ^ 64 \<and> uint (dp_addr sp) + 4 * int (block_floats br r) < 2 ^ 64 \<and>
         apart (part (uint (dp_addr xp)) 0 h) (part (uint (dp_addr sp)) 0 (block_floats br r)))"

definition input_layout :: "'s BlockRuntime \<Rightarrow> Tensor \<Rightarrow> Tensor \<Rightarrow> nat \<Rightarrow> buf \<Rightarrow> fslice" where
  "input_layout br x scratch r = block_layout br r (uint (dp_addr (t_devicePtr x))) (uint (dp_addr (t_devicePtr scratch)))"

lemma block_layout_in:
  "in_slice (block_layout br r x s b) a \<Longrightarrow> in_slice (part x 0 (r * br_HiddenSize br)) a \<or> in_slice (part s 0 (block_floats br r)) a"
  unfolding block_layout_def block_floats_def by (rule layout_in)

lemma Execute_layer:
  assumes cpu: "cpu_ops cm sched ncpu br" and d: "dims_ok br" and r: "0 < r" and i: "input_at br x scratch r"
    and L: "layer_at (input_layout br x scratch r) m br L"
  shows "\<exists>m' \<sigma>'. Execute invSqrt br x scratch pos m = Some (x, m') \<and> holds (input_layout br x scratch r) m \<sigma>' m' \<and>
    \<sigma>' BX = layer_value cm invSqrt br L r pos (floats m (input_layout br x scratch r BX) 0 (r * br_HiddenSize br))"
proof -
  let ?Sl = "input_layout br x scratch r" and ?xp = "t_devicePtr x" and ?sp = "t_devicePtr scratch"
  have i': "Shape_NumElements (t_shape x) = int (r * br_HiddenSize br)" "cpu_ptr ?xp" "cpu_ptr ?sp"
    "uint (dp_addr ?xp) + 4 * int (r * br_HiddenSize br) < 2 ^ 64" "uint (dp_addr ?sp) + 4 * int (block_floats br r) < 2 ^ 64"
    "apart (part (uint (dp_addr ?xp)) 0 (r * br_HiddenSize br)) (part (uint (dp_addr ?sp)) 0 (block_floats br r))"
    using i by (simp_all add: input_at_def Let_def)
  obtain bb where bb: "Execute_buffers br r ?sp m = Some (bb, m)" "ptrs_at ?Sl br r ?xp bb"
    using Execute_buffers_at [OF i'(2,4,3,5)] by (auto simp: input_layout_def)
  have bufs: "buffers_apart ?Sl"
    using layout_apart [OF i'(6) [unfolded block_floats_def]] by (simp add: input_layout_def block_layout_def)
  have len: "fs_len (?Sl BX) = r * br_HiddenSize br" by (simp add: input_layout_def block_layout_def part_def)
  obtain m' \<sigma>' where m': "Execute_steps invSqrt br ?xp bb r pos m = Some m'" "holds ?Sl m \<sigma>' m'"
    "\<sigma>' BX = layer_value cm invSqrt br L r pos (floats m (?Sl BX) 0 (r * br_HiddenSize br))"
    using Execute_steps_holds [OF cpu bufs holds_start d r bb(2) L] unfolding len by blast
  have "ndiv (nat (Shape_NumElements (t_shape x))) (br_HiddenSize br) = Some r"
    unfolding i'(1) nat_int using d by (simp add: ndiv_def dims_ok_def)
  moreover have "\<not> DevicePtr_IsNil ?xp" "\<not> DevicePtr_IsNil ?sp" using i'(2,3) by (simp_all add: cpu_ptr_def DevicePtr_IsNil_def)
  ultimately have "Execute invSqrt br x scratch pos m = Some (x, m')" using Execute_steps_eq [OF _ _ _ bb(1)] m'(1) by simp
  then show ?thesis using m'(2,3) by blast
qed


text \<open>A small layer: two dimensions, one head, gated activation, with its weights at 4096 and above.\<close>

definition demo_tensor :: "int \<Rightarrow> int list \<Rightarrow> Tensor" where
  "demo_tensor a ds = NewTensor (NewShape ds) Float32 (NewDevicePtr CPU (word_of_int a))"

definition demo_config :: ModelConfig where
  "demo_config = zero_config
     \<lparr>cf_HiddenSize := 2, cf_IntermediateSize := 2, cf_NumHiddenLayers := 1, cf_NumAttentionHeads := 1, cf_NumKeyValueHeads := 1,
      cf_VocabSize := 4, cf_MaxSeqLen := 8, cf_RoPETheta := 0x40C3880000000000, cf_RMSNormEPS := 0x3EE4F8B588E368F1\<rparr>"

definition demo_block :: "mem BlockRuntime" where
  "demo_block = the (NewBlockRuntime (cpu_backend (\<lambda>n m. 0x100000) None demo_math (\<lambda>ws. concat (rev ws)) 2) demo_config)
     \<lparr>br_AttnNorm := demo_tensor 4096 [2], br_Wq := demo_tensor 4104 [2, 2], br_Wk := demo_tensor 4120 [2, 2],
      br_Wv := demo_tensor 4136 [2, 2], br_Wo := demo_tensor 4152 [2, 2], br_FFNNorm := demo_tensor 4168 [2],
      br_W1 := demo_tensor 4176 [2, 2], br_W2 := demo_tensor 4192 [2, 2], br_W3 := demo_tensor 4208 [2, 2]\<rparr>"

definition demo_weight :: "int \<Rightarrow> Proj" where
  "demo_weight a = \<lparr>pj_weight = demo_tensor a [2, 2], pj_W = floats demo_mem (demo_slice a 4) 0 4, pj_bias = None, pj_n = 2, pj_k = 2\<rparr>"

definition demo_layer :: Layer where
  "demo_layer = \<lparr>ly_norm1 = floats demo_mem (demo_slice 4096 2) 0 2, ly_norm1_bias = [], ly_q = demo_weight 4104,
     ly_k = demo_weight 4120, ly_v = demo_weight 4136, ly_freqs = None, ly_o = demo_weight 4152, ly_post_attn = None,
     ly_norm2 = floats demo_mem (demo_slice 4168 2) 0 2, ly_norm2_bias = [], ly_w1 = demo_weight 4176, ly_w2 = demo_weight 4192,
     ly_w3 = demo_weight 4208, ly_post_ffn = None\<rparr>"

lemma demo_block_fields:
  "br_HiddenSize demo_block = 2" "br_HeadDim demo_block = 2" "br_NumAttentionHeads demo_block = 1" "br_NumKeyValueHeads demo_block = 1"
  "br_IntermediateSize demo_block = 2" "br_RoPEDim demo_block = 0" "\<not> br_ParallelResidual demo_block" "br_MLPType demo_block = MLPSwiGLU"
  "br_NormType demo_block = NormRMSNorm" "\<not> br_HasPostNorms demo_block" "br_ropeFreqBuf demo_block = nil_ptr"
  by (simp_all add: demo_block_def demo_config_def NewBlockRuntime_def zero_config_def EffectiveHeadDim_def)

lemma demo_block_cpu: "cpu_ops demo_math (\<lambda>ws. concat (rev ws)) 2 demo_block"
  by (auto simp: cpu_ops_def demo_block_def demo_config_def NewBlockRuntime_def zero_config_def EffectiveHeadDim_def mset_concat_rev)

abbreviation demo_Sl :: "buf \<Rightarrow> fslice" where
  "demo_Sl \<equiv> input_layout demo_block (demo_tensor 64 [2, 2]) (demo_tensor 1024 [256]) 2"

lemma demo_const:
  assumes "4096 \<le> a" and "a + 4 * int n < 2 ^ 64"
  shows "const_floats demo_Sl demo_mem (NewDevicePtr CPU (word_of_int a)) n (floats demo_mem (demo_slice a n) 0 n)"
proof -
  have "apart (demo_Sl b) (demo_slice a n)" for b
    using assms(1)
    by (cases b) (simp_all add: input_layout_def block_layout_def demo_block_fields part_def apart_def elem_addr_def demo_slice_def
        demo_tensor_def NewTensor_def NewDevicePtr_def uint_word_of_int)
  moreover have "at_ptr (NewDevicePtr CPU (word_of_int a)) n (demo_slice a n)" using assms by (intro demo_at_ptr) simp_all
  ultimately show ?thesis unfolding const_floats_def by blast
qed

lemma demo_weights: "demo_tensor a ds = t \<Longrightarrow> 0 < a \<Longrightarrow> a < 2 ^ 64 \<Longrightarrow> has_weights t"
proof -
  assume "demo_tensor a ds = t" "0 < a" "a < 2 ^ 64"
  moreover from this have "uint (word_of_int a :: 64 word) = a" by (simp add: uint_word_of_int)
  then have "(word_of_int a :: 64 word) \<noteq> 0" using \<open>0 < a\<close> by (metis less_irrefl unsigned_0)
  ultimately show ?thesis by (auto simp: has_weights_def demo_tensor_def NewTensor_def ptr_defs)
qed

lemma demo_proj:
  assumes "4096 \<le> a" and "a + 16 < 2 ^ 64"
  shows "proj_at demo_Sl demo_mem (demo_tensor a [2, 2]) (demo_weight a) 2 2"
  using demo_const [of a 4] assms demo_weights [of a "[2, 2]" "demo_tensor a [2, 2]"]
  by (simp add: proj_at_def demo_weight_def weight_at_def dim0_def demo_tensor_def NewTensor_def NewShape_def Shape_Dims_def)

lemma demo_block_tensors:
  "br_AttnNorm demo_block = demo_tensor 4096 [2]" "br_Wq demo_block = demo_tensor 4104 [2, 2]" "br_Wk demo_block = demo_tensor 4120 [2, 2]"
  "br_Wv demo_block = demo_tensor 4136 [2, 2]" "br_Wo demo_block = demo_tensor 4152 [2, 2]" "br_FFNNorm demo_block = demo_tensor 4168 [2]"
  "br_W1 demo_block = demo_tensor 4176 [2, 2]" "br_W2 demo_block = demo_tensor 4192 [2, 2]" "br_W3 demo_block = demo_tensor 4208 [2, 2]"
  "br_WqBias demo_block = zero_tensor" "br_WkBias demo_block = zero_tensor" "br_WvBias demo_block = zero_tensor"
  "br_WoBias demo_block = zero_tensor" "br_AttnNormBias demo_block = zero_tensor" "br_FFNNormBias demo_block = zero_tensor"
  by (simp_all add: demo_block_def demo_config_def NewBlockRuntime_def zero_config_def EffectiveHeadDim_def)

lemma demo_norm:
  assumes "4096 \<le> a" and "a + 8 < 2 ^ 64"
  shows "norm_at demo_Sl demo_mem demo_block (demo_tensor a [2]) zero_tensor (floats demo_mem (demo_slice a 2) 0 2) []"
  using demo_const [of a 2] assms demo_weights [of a "[2]" "demo_tensor a [2]"]
  by (simp add: norm_at_def demo_block_fields) (simp add: demo_tensor_def NewTensor_def)

lemma demo_no_bias: "bias_at Sl m zero_tensor n (pj_bias (demo_weight a))"
  by (simp add: bias_at_def demo_weight_def zero_tensor_def NewTensor_def ptr_defs)

lemma demo_layer_at: "layer_at demo_Sl demo_mem demo_block demo_layer"
  unfolding layer_at_def attn_at_def mlp_at_def Let_def demo_block_tensors
  by (simp add: demo_layer_def demo_norm demo_proj demo_no_bias demo_block_fields post_at_def)
    (simp add: demo_weight_def nil_ptr_def DevicePtr_IsNil_def)

lemma demo_input_at: "input_at demo_block (demo_tensor 64 [2, 2]) (demo_tensor 1024 [256]) 2"
  by (simp add: input_at_def demo_tensor_def NewTensor_def NewShape_def NumElements_prod cpu_ptr_def NewDevicePtr_def demo_block_fields
      block_floats_def layout_floats_def apart_def part_def elem_addr_def uint_word_of_int)


end
