(* ===== verification/Spec2Isabelle.thy ===== *)
theory Spec2Isabelle
  imports KV_Cache Block_Pool_Props Scheduler_Props Medusa_Buffer Speculative_Props Medusa_Tree_Props Gguf_Props
    Tokenizer_Props Chat_Template
    Gguf_Loader Sampler_Props Medusa_Step_Props Exec_Plan Block_Props
begin

text \<open>
  Verification library of vexel, an inference engine for language models written in Go (\<open>src/inference\<close>).

  \<^bold>\<open>The program.\<close> A request enters the scheduler (\<open>scheduler/scheduler.go\<close>) as a sequence with its prompt tokens.
  Every step collects the sequences that can run, does a prefill or a decode through the runtime, samples a token
  and puts it on the channel of the sequence, until a stop token or a limit ends it. The keys and values
  of past tokens are in one of three caches: the paged cache (\<open>kv/paged_cache.go\<close>), the contiguous cache on the
  GPU (\<open>runtime/gpu_kv_cache.go\<close>), or the pool of blocks on the GPU (\<open>runtime/gpu_block_pool.go\<close>). Two schedulers add drafts:
  the speculative one takes them from a smaller model or from early layers, the Medusa one from prediction heads
  that a background trainer improves with the hidden states of the sequences it serves. Below are the weights:
  a GGUF file, its quantized tensors, the tokenizer, the memory arenas, the configuration and execution plan.

  \<^bold>\<open>How Go is written.\<close> (\<open>Prelude\<close>, \<open>Go_Strings\<close>, \<open>Bytes\<close>, \<open>Float32\<close>, \<open>Float32_Arith\<close>.)
  A computation that may panic has a type \<open>'a option\<close>, and \<open>None\<close> is the panic; an error value of Go is
  the left side of a sum, so that \<open>Some (Inl e)\<close> is a returned error. \<open>idx\<close>, \<open>upd\<close> and \<open>slice\<close> check bounds as Go
  does. Integers are HOL integers with the truncating division of Go, wrapped to their width with \<open>int64_of\<close> and
  \<open>int32_of\<close> where the code can reach it; \<open>uint8\<close>, \<open>uint16\<close> and \<open>uint32\<close> data are words. A \<open>float32\<close> is
  its bit pattern, and its arithmetic is IEEE 754 rounding to nearest even, written out. State is
  passed explicitly, a pointer type that is shared is an index or a key in the map that owns it, and a
  call of a device is an entry in a list of calls. Locks are left out: a handler is one step, and what runs
  concurrently is a sequence of such steps in any order.

  \<^bold>\<open>Theories and code.\<close>
  \<^item> Memory: \<open>Tensor\<close> (\<open>tensor/\<close>: shapes, strides, types, quantized views), \<open>Arena\<close> (\<open>memory/\<close> and
    \<open>backend/metal/scratch_allocator.go\<close>). \<open>Bump\<close> is their interface: regions of a run of allocations are
    disjoint and within the capacity.
  \<^item> Paged cache: \<open>Block_Allocator\<close> and \<open>Block_Table\<close> (\<open>kv/paged.go\<close>), \<open>Fragment\<close> (\<open>kv/fragment.go\<close>),
    \<open>Paged_Cache\<close> (\<open>kv/paged_cache.go\<close>), \<open>KV_Cache\<close> (\<open>kv/cache.go\<close>). \<open>Block_Source\<close> is the interface of a pool of
    blocks, \<open>Holders\<close> counts who holds a block, \<open>Paged_Inv\<close> conserves blocks over any history, \<open>Paged_Store\<close> reads
    the cache as a map from positions to key-value pairs, and \<open>Paged_Props\<close> has the contract of the operations.
  \<^item> Caches on the GPU: \<open>GPU_KV_Cache\<close> (\<open>runtime/gpu_kv_cache.go\<close>), \<open>Block_Pool\<close>, \<open>Block_Pool_Inv\<close> and
    \<open>Block_Pool_Props\<close> (\<open>runtime/gpu_block_pool.go\<close>): reference counts are exact, stores reach their own slots, copies stay in bounds.
  \<^item> Scheduling: \<open>Gen_Sequence\<close> (\<open>scheduler/sequence.go\<close>), \<open>Scheduler\<close> and \<open>Scheduler_Props\<close>
    (\<open>scheduler/scheduler.go\<close>): no history panics, blocks are returned, the loop drains.
  \<^item> Drafting: \<open>Adaptive_Draft\<close> (\<open>adaptive_draft.go\<close>), \<open>Speculative\<close> and \<open>Speculative_Props\<close> (\<open>speculative.go\<close>,
    \<open>self_speculative.go\<close>, \<open>speculative_scheduler.go\<close>): greedy verification gives what the model alone gives.
  \<^item> Medusa: \<open>Medusa_Buffer\<close> over \<open>Ring\<close> (\<open>medusa/buffer.go\<close>), \<open>Medusa_Tree\<close> (\<open>medusa/tree.go\<close>), \<open>Medusa_Heads\<close>
    (\<open>medusa/heads.go\<close>), \<open>Medusa_Trainer\<close> (\<open>medusa/trainer.go\<close>), \<open>Medusa_Scheduler\<close> and \<open>Medusa_Step\<close>
    (\<open>scheduler/medusa_scheduler.go\<close>), each with its theory of properties. The locale \<open>draft_trainer\<close> is what the
    scheduler needs of a trainer; the online trainer is its interpretation.
  \<^item> Weights: \<open>Gguf\<close> and \<open>Gguf_Props\<close> (\<open>pkg/gguf/gguf.go\<close>), \<open>Dequant\<close>, \<open>Half_Float\<close>, \<open>Dequant_Props\<close> and
    \<open>Dequant_Values\<close> (\<open>pkg/gguf/dequant.go\<close>), where \<open>Block_Format\<close> is the interface of a quantized format and every
    format an interpretation of it, and \<open>Gguf_Loader\<close> (\<open>pkg/gguf/loader.go\<close>).
  \<^item> Text: \<open>Tokenizer\<close>, \<open>Tokenizer_Props\<close> and \<open>Chat_Template\<close> (\<open>pkg/tokenizer/tokenizer.go\<close>), \<open>Sampler\<close> and
    \<open>Sampler_Props\<close> (\<open>pkg/sampler/sampler.go\<close>).
  \<^item> Configuration: \<open>Model_Config\<close> (\<open>runtime/config.go\<close>), \<open>Exec_Plan\<close> (\<open>runtime/plan.go\<close>).
  \<^item> CPU: \<open>Cpu_Memory\<close> (a byte memory, slices that may overlap, and what loops write), \<open>Cpu_Kernels\<close>
    (\<open>backend/cpu/cpu.go\<close> and \<open>backend.go\<close>), \<open>Cpu_Props\<close> (products under every order of the workers, Q4_0 weights),
    \<open>Cpu_Attention\<close> (prefill and decoding agree) and \<open>Cpu_Rope\<close> (rotation by position).
  \<^item> Layers: \<open>Block_Runtime\<close> (\<open>runtime/block.go\<close>: a layer over the interfaces of \<open>backend/backend.go\<close>, and \<open>Execute\<close>),
    \<open>Cpu_Rows\<close> (the CPU kernels as functions on lists), \<open>Cpu_Buffers\<close> (operations on buffers apart from each other),
    \<open>Block_Layer\<close> (the layer as a function, and its steps in memory) and \<open>Block_Props\<close>, where the buffers cut out of the
    scratch buffer are shown to lie side by side and \<open>Execute\<close> to compute the function.
  \<^bold>\<open>Parameters.\<close> Code that is not in the repository is an argument: the forward passes of the model, with the
  caches they advance (\<open>Runtime\<close>, \<open>Engine\<close>, \<open>MedusaEngine\<close>), the mathematical functions of package \<open>math\<close>, the sort
  of \<open>sort.Slice\<close>, the random generator, the environment, the limit of \<open>make\<close>, and the choice of the compiler
  to fuse a multiplication and an addition into one rounding (\<open>fma\<close>). What a property needs of them is a hypothesis on the argument, and its
  witness gives a concrete function.

  \<^bold>\<open>Loops and fuel.\<close> Loops over a range or a slice are structural recursion. A loop that may not end by its
  text is a \<open>partial_function (option)\<close>, and that it returns is proved: splitting on special tokens, the
  normalization of a subnormal half, the search for an unused index of a sample (for a generator that is fair), and
  the walk to the root of a candidate tree. Encoding and merging in the tokenizer have measures. The searches of the
  candidate tree have the number of nodes as fuel, and it is shown to be enough, since every step takes a node
  that was not taken before.

  \<^bold>\<open>Not modelled.\<close> The Metal and CUDA backends name kernels that are written in other languages and give no results
  in Go; the servers, clients, commands and printing are input and output around the parts above; the
  training of adapters and of the heads on the GPU are sequences of such kernel calls. Timing,
  logging, and the closing of files and devices are left out of the modelled parts, as PROJECT.json notes for each.
\<close>

end
